(* ===== verification/Prelude.thy ===== *)
theory Prelude
  imports Main
begin

text \<open>
  The prelude: the lemma collections of the development, the Go machine integers and
  durations, the Go text functions the program uses, and the generic selection loop
  ("keep the best element seen so far") that several components share.

  Text. A Go string is modelled as a \<^typ>\<open>string\<close> whose characters stand for the code points
  0 to 255 (Latin-1): this covers ASCII, the non-breaking space, the next-line control and
  the middle dot that the plate normaliser treats specially. The two code points of that
  range whose upper case lies outside it (the micro sign and y with diaeresis) are left as
  they are; nothing else in the range maps to their upper-case forms, so equality of
  normalised plates is not affected.

  Time. An instant (\<open>time.Time\<close>) is an \<^typ>\<open>int\<close>, nanoseconds since the Unix epoch; a
  \<open>time.Duration\<close> is an \<^typ>\<open>int\<close>, nanoseconds, with the 64-bit wrap-around or saturation
  written out where Go applies it.
\<close>

named_theorems plate_simps \<open>equations of plate normalisation and comparison\<close>
named_theorems state_simps \<open>what an operation does to the fields of the state\<close>
named_theorems time_simps \<open>unfolding of duration constants\<close>

section \<open>Durations and instants\<close>

type_synonym time = int
type_synonym dur = int

definition second :: dur where "second = 1000000000"
definition minute :: dur where "minute = 60 * second"
definition hour :: dur where "hour = 60 * minute"
definition day :: dur where "day = 24 * hour"

lemmas [time_simps] = second_def minute_def hour_def day_def

text \<open>The zero \<open>time.Time\<close>: midnight UTC of 1 January of the year 1.\<close>

definition zero_time :: time where "zero_time = - 62135596800 * second"

definition is_zero :: "time \<Rightarrow> bool" where "is_zero t \<longleftrightarrow> t = zero_time"

definition max_dur :: dur where "max_dur = 9223372036854775807"
definition min_dur :: dur where "min_dur = - 9223372036854775808"

text \<open>\<open>Time.Sub\<close> saturates at the ends of the 64-bit range.\<close>

definition tsub :: "time \<Rightarrow> time \<Rightarrow> dur" where
  "tsub a b = max min_dur (min max_dur (a - b))"

text \<open>64-bit two's complement wrap-around, for products and shifts of durations.\<close>

definition wrap64 :: "int \<Rightarrow> int" where
  "wrap64 x = (x + 9223372036854775808) mod 18446744073709551616 - 9223372036854775808"

lemma tsub_exact:
  assumes "min_dur \<le> a - b" and "a - b \<le> max_dur"
  shows "tsub a b = a - b"
  using assms by (simp add: tsub_def)

lemma tsub_ge_iff:
  assumes "d \<le> max_dur"
  shows "min_dur < d \<Longrightarrow> d \<le> tsub a b \<longleftrightarrow> d \<le> a - b"
  using assms by (auto simp: tsub_def min_def max_def)

lemma tsub_lt_iff:
  assumes "min_dur < d" and "d \<le> max_dur"
  shows "tsub a b < d \<longleftrightarrow> a - b < d"
  using assms by (auto simp: tsub_def min_def max_def)

lemma tsub_gt_iff:
  assumes "min_dur \<le> d" and "d < max_dur"
  shows "d < tsub a b \<longleftrightarrow> d < a - b"
  using assms by (auto simp: tsub_def min_def max_def)

lemma tsub_le_iff:
  assumes "min_dur \<le> d" and "d < max_dur"
  shows "tsub a b \<le> d \<longleftrightarrow> a - b \<le> d"
  using assms by (auto simp: tsub_def min_def max_def)

lemma tsub_neg_iff [simp]: "tsub a b < 0 \<longleftrightarrow> a < b"
  by (auto simp: tsub_def min_dur_def max_dur_def min_def max_def)

lemma tsub_nonneg_iff [simp]: "0 \<le> tsub a b \<longleftrightarrow> b \<le> a"
  by (auto simp: tsub_def min_dur_def max_dur_def min_def max_def)

lemma tsub_self [simp]: "tsub a a = 0"
  by (simp add: tsub_def min_dur_def max_dur_def)

lemma tsub_mono: "a \<le> a' \<Longrightarrow> tsub a b \<le> tsub a' b"
  by (auto simp: tsub_def min_def max_def)

lemma tsub_le: "a - b \<le> d \<Longrightarrow> 0 \<le> d \<Longrightarrow> tsub a b \<le> d"
  by (auto simp: tsub_def min_dur_def min_def max_def)

lemma wrap64_id:
  assumes "min_dur \<le> x" and "x \<le> max_dur"
  shows "wrap64 x = x"
proof -
  have "(x + 9223372036854775808) mod 18446744073709551616 = x + 9223372036854775808"
    using assms by (intro mod_pos_pos_trivial) (auto simp: min_dur_def max_dur_def)
  then show ?thesis by (simp add: wrap64_def)
qed

lemma wrap64_range: "min_dur \<le> wrap64 x \<and> wrap64 x \<le> max_dur"
proof -
  let ?m = "(x + 9223372036854775808) mod 18446744073709551616"
  have "0 \<le> ?m" and "?m < 18446744073709551616" by simp_all
  then show ?thesis unfolding wrap64_def min_dur_def max_dur_def by linarith
qed

text \<open>RFC 3339 text keeps whole seconds, rounding down.\<close>

definition whole_seconds :: "time \<Rightarrow> time" where
  "whole_seconds t = t div second * second"

lemma zero_time_whole: "whole_seconds zero_time = zero_time"
  by (simp add: whole_seconds_def zero_time_def second_def)

lemma whole_seconds_bounds: "whole_seconds t \<le> t \<and> t < whole_seconds t + second"
proof -
  have "t = whole_seconds t + t mod second" by (simp add: whole_seconds_def)
  moreover have "0 \<le> t mod second" "t mod second < second" by (simp_all add: second_def)
  ultimately show ?thesis by linarith
qed

lemma whole_seconds_not_zero: "0 \<le> t \<Longrightarrow> \<not> is_zero (whole_seconds t)"
  using whole_seconds_bounds [of t] by (simp add: is_zero_def zero_time_def time_simps)

section \<open>Text\<close>

definition cp :: "char \<Rightarrow> nat" where "cp c = of_char c"

text \<open>\<open>unicode.IsSpace\<close> on Latin-1.\<close>

definition is_space :: "char \<Rightarrow> bool" where
  "is_space c \<longleftrightarrow> cp c \<in> {9, 10, 11, 12, 13, 32, 133, 160}"

definition up_n :: "nat \<Rightarrow> nat" where
  "up_n n = (if (97 \<le> n \<and> n \<le> 122) \<or> (224 \<le> n \<and> n \<le> 254 \<and> n \<noteq> 247) then n - 32 else n)"

definition lo_n :: "nat \<Rightarrow> nat" where
  "lo_n n = (if (65 \<le> n \<and> n \<le> 90) \<or> (192 \<le> n \<and> n \<le> 222 \<and> n \<noteq> 215) then n + 32 else n)"

definition to_upper_c :: "char \<Rightarrow> char" where "to_upper_c c = char_of (up_n (cp c))"
definition to_lower_c :: "char \<Rightarrow> char" where "to_lower_c c = char_of (lo_n (cp c))"

definition to_upper :: "string \<Rightarrow> string" where "to_upper = map to_upper_c"
definition to_lower :: "string \<Rightarrow> string" where "to_lower = map to_lower_c"

text \<open>\<open>strings.EqualFold\<close>.\<close>

definition equal_fold :: "string \<Rightarrow> string \<Rightarrow> bool" where
  "equal_fold a b \<longleftrightarrow> to_lower a = to_lower b"

text \<open>\<open>strings.Fields\<close>: the maximal runs of non-space characters.\<close>

fun str_fields_acc :: "string \<Rightarrow> string \<Rightarrow> string list" where
  "str_fields_acc [] w = (if w = [] then [] else [rev w])"
| "str_fields_acc (c # cs) w =
     (if is_space c then (if w = [] then str_fields_acc cs [] else rev w # str_fields_acc cs [])
      else str_fields_acc cs (c # w))"

definition str_fields :: "string \<Rightarrow> string list" where "str_fields s = str_fields_acc s []"

text \<open>\<open>strings.Trim\<close> with a cut set.\<close>

definition trim_set :: "string \<Rightarrow> string \<Rightarrow> string" where
  "trim_set s cs = rev (dropWhile (\<lambda>c. c \<in> set cs) (rev (dropWhile (\<lambda>c. c \<in> set cs) s)))"

definition contains_c :: "char \<Rightarrow> string \<Rightarrow> bool" where "contains_c c s \<longleftrightarrow> c \<in> set s"

text \<open>\<open>strings.Cut\<close> at a single character: before, after, found.\<close>

fun cut_at :: "char \<Rightarrow> string \<Rightarrow> string \<times> string \<times> bool" where
  "cut_at c [] = ([], [], False)"
| "cut_at c (x # xs) =
     (if x = c then ([], xs, True)
      else (case cut_at c xs of (b, a, f) \<Rightarrow> (x # b, a, f)))"

text \<open>\<open>strings.HasPrefix\<close>.\<close>

fun has_prefix :: "string \<Rightarrow> string \<Rightarrow> bool" where
  "has_prefix s [] = True"
| "has_prefix [] (p # ps) = False"
| "has_prefix (c # cs) (p # ps) = (c = p \<and> has_prefix cs ps)"

lemma has_prefix_append [simp]: "has_prefix (p @ s) p"
  by (induction p) auto

lemma cut_at_append:
  "c \<notin> set b \<Longrightarrow> cut_at c (b @ c # a) = (b, a, True)"
  by (induction b) auto

lemma cut_at_inject:
  fixes c :: char
  assumes "c \<notin> set a" and "c \<notin> set b" and "a @ c # x = b @ c # y"
  shows "a = b \<and> x = y"
proof -
  have "cut_at c (a @ c # x) = cut_at c (b @ c # y)" using assms(3) by (rule arg_cong)
  then show ?thesis unfolding cut_at_append [OF assms(1)] cut_at_append [OF assms(2)] by simp
qed

lemma cut_at_none: "c \<notin> set s \<Longrightarrow> cut_at c s = (s, [], False)"
  by (induction s) auto

lemma cp_less [simp]: "cp c < 256"
  by (simp add: cp_def)

lemma cp_char_of [simp]: "n < 256 \<Longrightarrow> cp (char_of n) = n"
  by (simp add: cp_def)

lemma cp_inject: "cp a = cp b \<longleftrightarrow> a = b"
  by (simp add: cp_def)

lemma up_n_idem: "up_n (up_n n) = up_n n"
  by (cases "97 \<le> n \<and> n \<le> 122"; cases "224 \<le> n \<and> n \<le> 254 \<and> n \<noteq> 247") (auto simp: up_n_def)

lemma lo_n_idem: "lo_n (lo_n n) = lo_n n"
  by (cases "65 \<le> n \<and> n \<le> 90"; cases "192 \<le> n \<and> n \<le> 222 \<and> n \<noteq> 215") (auto simp: lo_n_def)

lemma up_lo_n: "up_n (lo_n n) = up_n n"
  by (cases "65 \<le> n \<and> n \<le> 90"; cases "192 \<le> n \<and> n \<le> 222 \<and> n \<noteq> 215") (auto simp: lo_n_def up_n_def)

lemma lo_up_n: "lo_n (up_n n) = lo_n n"
  by (cases "97 \<le> n \<and> n \<le> 122"; cases "224 \<le> n \<and> n \<le> 254 \<and> n \<noteq> 247") (auto simp: lo_n_def up_n_def)
lemma cp_to_upper_c: "cp (to_upper_c c) = up_n (cp c)"
proof -
  have "up_n (cp c) < 256" using cp_less [of c] unfolding up_n_def by presburger
  then show ?thesis by (simp add: to_upper_c_def)
qed

lemma cp_to_lower_c: "cp (to_lower_c c) = lo_n (cp c)"
proof -
  have "lo_n (cp c) < 256" using cp_less [of c] unfolding lo_n_def by presburger
  then show ?thesis by (simp add: to_lower_c_def)
qed

lemma to_upper_c_idem [simp]: "to_upper_c (to_upper_c c) = to_upper_c c"
  unfolding cp_inject [symmetric] by (simp add: cp_to_upper_c up_n_idem)

lemma to_lower_c_idem [simp]: "to_lower_c (to_lower_c c) = to_lower_c c"
  unfolding cp_inject [symmetric] by (simp add: cp_to_lower_c lo_n_idem)

lemma to_upper_lower_c [simp]: "to_upper_c (to_lower_c c) = to_upper_c c"
  unfolding cp_inject [symmetric] by (simp add: cp_to_lower_c cp_to_upper_c up_lo_n)

lemma to_lower_upper_c [simp]: "to_lower_c (to_upper_c c) = to_lower_c c"
  unfolding cp_inject [symmetric] by (simp add: cp_to_lower_c cp_to_upper_c lo_up_n)

lemma is_space_n: "up_n n \<in> {9, 10, 11, 12, 13, 32, 133, 160} \<longleftrightarrow> n \<in> {9, 10, 11, 12, 13, 32, 133, 160}"
  unfolding up_n_def by auto

lemma is_space_upper [simp]: "is_space (to_upper_c c) \<longleftrightarrow> is_space c"
  unfolding is_space_def cp_to_upper_c by (rule is_space_n)

lemma equal_fold_refl [simp]: "equal_fold a a"
  by (simp add: equal_fold_def)

lemma equal_fold_sym: "equal_fold a b \<longleftrightarrow> equal_fold b a"
  by (auto simp: equal_fold_def)

lemma equal_fold_trans: "equal_fold a b \<Longrightarrow> equal_fold b c \<Longrightarrow> equal_fold a c"
  by (simp add: equal_fold_def)

definition no_space :: "string \<Rightarrow> bool" where "no_space w \<longleftrightarrow> (\<forall>c \<in> set w. \<not> is_space c)"

lemma no_space_simps [simp]:
  "no_space []" "no_space (c # w) \<longleftrightarrow> \<not> is_space c \<and> no_space w" "no_space (rev w) \<longleftrightarrow> no_space w"
  by (auto simp: no_space_def)

lemma str_fields_acc_no_space: "no_space a \<Longrightarrow> list_all no_space (str_fields_acc s a)"
  by (induction s arbitrary: a) simp_all

lemma str_fields_no_space: "list_all no_space (str_fields s)"
  by (simp add: str_fields_def str_fields_acc_no_space)

section \<open>Keeping the best element of a list\<close>

text \<open>
  The loop shape \<open>for each x: if best is nil or better(x, best) then best = x\<close>, which the
  code uses to pick the winning booking, the winning roster rule, the displaced booking and
  the next queued reconnect. \<open>better x y\<close> reads "x replaces y".
\<close>

definition keep_best :: "('a \<Rightarrow> 'a \<Rightarrow> bool) \<Rightarrow> 'a \<Rightarrow> 'a option \<Rightarrow> 'a option" where
  "keep_best better x b = (case b of None \<Rightarrow> Some x | Some y \<Rightarrow> if better x y then Some x else b)"

primrec best_from :: "('a \<Rightarrow> 'a \<Rightarrow> bool) \<Rightarrow> 'a list \<Rightarrow> 'a option \<Rightarrow> 'a option" where
  "best_from better [] b = b"
| "best_from better (x # xs) b = best_from better xs (keep_best better x b)"

definition best :: "('a \<Rightarrow> 'a \<Rightarrow> bool) \<Rightarrow> 'a list \<Rightarrow> 'a option" where
  "best better xs = best_from better xs None"

lemma best_from_Some_in:
  "best_from better xs b = Some y \<Longrightarrow> y \<in> set xs \<or> b = Some y"
  by (induction xs arbitrary: b) (auto simp: keep_best_def split: option.splits if_splits)

lemma best_from_Some: "\<exists>y. best_from better xs (Some x) = Some y"
  by (induction xs arbitrary: x) (auto simp: keep_best_def)

lemma best_in: "best better xs = Some y \<Longrightarrow> y \<in> set xs"
  using best_from_Some_in [of better xs None y] by (simp add: best_def)

lemma best_None_iff: "best better xs = None \<longleftrightarrow> xs = []"
proof (cases xs)
  case (Cons x ys)
  then show ?thesis
    using best_from_Some [of better ys x] by (auto simp: best_def keep_best_def)
qed (simp add: best_def)

text \<open>
  The interface the selection needs: the replacement test is a strict weak order. Then the
  winner is beaten by nobody. Where the test separates distinct elements (a strict total
  order on the list), the winner does not depend on the order of the list either.
\<close>

locale selection =
  fixes better :: "'a \<Rightarrow> 'a \<Rightarrow> bool"
  assumes better_irrefl: "\<not> better x x"
    and better_trans: "better x y \<Longrightarrow> better y z \<Longrightarrow> better x z"
    and not_better_trans: "\<not> better x y \<Longrightarrow> \<not> better y z \<Longrightarrow> \<not> better x z"
begin

lemma better_asym: "better x y \<Longrightarrow> \<not> better y x"
  using better_trans better_irrefl by blast

lemma best_from_max:
  "best_from better xs b = Some y \<Longrightarrow>
     (\<forall>x \<in> set xs. \<not> better x y) \<and> (\<forall>z. b = Some z \<longrightarrow> \<not> better z y)"
proof (induction xs arbitrary: b)
  case Nil
  then show ?case using better_irrefl by auto
next
  case (Cons x xs)
  have rec: "best_from better xs (keep_best better x b) = Some y" using Cons.prems by simp
  note IH = Cons.IH [OF rec]
  show ?case
  proof (cases b)
    case None
    with IH show ?thesis by (auto simp: keep_best_def)
  next
    case (Some z)
    show ?thesis
    proof (cases "better x z")
      case True
      with IH Some have "\<not> better x y" by (auto simp: keep_best_def)
      moreover have "\<not> better z y"
        using better_asym [OF True] calculation not_better_trans by blast
      ultimately show ?thesis using IH Some by auto
    next
      case False
      with IH Some have zy: "\<not> better z y" by (auto simp: keep_best_def)
      then have "\<not> better x y" using False not_better_trans by blast
      with IH zy Some show ?thesis by auto
    qed
  qed
qed

lemma best_max: "best better xs = Some y \<Longrightarrow> x \<in> set xs \<Longrightarrow> \<not> better x y"
  using best_from_max [of xs None y] by (simp add: best_def)

lemma best_unique:
  assumes "best better xs = Some y" and "z \<in> set xs"
    and "\<forall>x \<in> set xs. x \<noteq> z \<longrightarrow> better z x"
  shows "y = z"
proof (rule ccontr)
  assume ne: "y \<noteq> z"
  have "y \<in> set xs" using assms(1) by (rule best_in)
  with assms(3) ne have "better z y" by blast
  with best_max [OF assms(1,2)] show False by contradiction
qed

lemma best_order_irrelevant:
  assumes "set xs = set ys"
    and "\<forall>x \<in> set xs. \<forall>y \<in> set xs. x \<noteq> y \<longrightarrow> better x y \<or> better y x"
  shows "best better xs = best better ys"
proof (cases "best better xs")
  case None
  with assms(1) have "ys = []" by (simp add: best_None_iff)
  with None show ?thesis by (simp add: best_def)
next
  case (Some y)
  have yin: "y \<in> set xs" by (rule best_in [OF Some])
  then have "ys \<noteq> []" using assms(1) by auto
  then obtain z where z: "best better ys = Some z" using best_None_iff by (cases "best better ys") auto
  have "z \<in> set xs" using best_in [OF z] assms(1) by simp
  then have "\<not> better z y" by (rule best_max [OF Some])
  moreover have "\<not> better y z" using best_max [OF z] yin assms(1) by simp
  ultimately have "y = z" using assms(2) yin \<open>z \<in> set xs\<close> by blast
  with Some z show ?thesis by simp
qed

end

text \<open>
  A selection by a numeric key and then by a numeric identifier, the tie-break the code
  uses everywhere.
\<close>

definition later :: "('a \<Rightarrow> int) \<Rightarrow> ('a \<Rightarrow> int) \<Rightarrow> 'a \<Rightarrow> 'a \<Rightarrow> bool" where
  "later key ident x y \<longleftrightarrow> key y < key x \<or> (key x = key y \<and> ident y < ident x)"

lemma selection_later: "selection (later key ident)"
  by unfold_locales (auto simp: later_def)

section \<open>Tables\<close>

text \<open>
  A Go map whose entries are counted or swept in a loop is an association list with one entry
  per key; \<open>put\<close> and \<open>del\<close> are assignment and \<open>delete\<close>. The order of the list plays the role
  of Go's unspecified iteration order.
\<close>

definition del :: "'k \<Rightarrow> ('k \<times> 'v) list \<Rightarrow> ('k \<times> 'v) list" where
  "del k m = filter (\<lambda>e. fst e \<noteq> k) m"

definition put :: "'k \<Rightarrow> 'v \<Rightarrow> ('k \<times> 'v) list \<Rightarrow> ('k \<times> 'v) list" where
  "put k v m = (k, v) # del k m"

definition table :: "('k \<times> 'v) list \<Rightarrow> bool" where
  "table m \<longleftrightarrow> distinct (map fst m)"

lemma set_del: "set (del k m) = {e \<in> set m. fst e \<noteq> k}"
  by (auto simp: del_def)

lemma keys_del [simp]: "fst ` set (del k m) = fst ` set m - {k}"
  by (auto simp: del_def)

lemma keys_put [simp]: "fst ` set (put k v m) = insert k (fst ` set m)"
  by (auto simp: put_def)

lemma table_empty [simp]: "table []"
  by (simp add: table_def)

lemma table_filter [simp]: "table m \<Longrightarrow> table (filter P m)"
  by (simp add: table_def distinct_map_filter)

lemma table_del [simp]: "table m \<Longrightarrow> table (del k m)"
  by (simp add: del_def)

lemma table_put [simp]: "table m \<Longrightarrow> table (put k v m)"
  by (auto simp: put_def table_def del_def distinct_map_filter)

lemma map_of_del: "map_of (del k m) = (map_of m)(k := None)"
  by (induction m) (auto simp: del_def fun_eq_iff)

lemma map_of_put: "map_of (put k v m) = (map_of m)(k \<mapsto> v)"
  by (simp add: put_def map_of_del fun_eq_iff)

lemma table_length: "table m \<Longrightarrow> length m = card (fst ` set m)"
  using distinct_card [of "map fst m"] by (simp add: table_def)

section \<open>Deadline tables\<close>

text \<open>
  Several components keep a map from a key to "not before this instant": the apply retry
  window, the keep-warm backoff, the drift backoff, the notification hold. \<open>held\<close> is the
  question they all ask.
\<close>

definition held :: "('k \<rightharpoonup> time) \<Rightarrow> 'k \<Rightarrow> time \<Rightarrow> bool" where
  "held m k now = (case m k of None \<Rightarrow> False | Some t \<Rightarrow> now < t)"

locale backoff_table =
  fixes table :: "'s \<Rightarrow> ('k \<rightharpoonup> time)"
    and hold :: "'k \<Rightarrow> time \<Rightarrow> 's \<Rightarrow> 's"
    and release :: "'k \<Rightarrow> 's \<Rightarrow> 's"
    and blocked :: "'k \<Rightarrow> time \<Rightarrow> 's \<Rightarrow> bool"
  assumes blocked_iff: "blocked k now s \<longleftrightarrow> held (table s) k now"
    and table_hold: "table (hold k t s) k = Some t"
    and table_hold_other: "k' \<noteq> k \<Longrightarrow> table (hold k t s) k' = table s k'"
    and table_release: "table (release k s) k = None"
    and table_release_other: "k' \<noteq> k \<Longrightarrow> table (release k s) k' = table s k'"
begin

lemma blocked_after_hold: "blocked k now (hold k t s) \<longleftrightarrow> now < t"
  by (simp add: blocked_iff held_def table_hold)

lemma not_blocked_after_release: "\<not> blocked k now (release k s)"
  by (simp add: blocked_iff held_def table_release)

lemma hold_frame: "k' \<noteq> k \<Longrightarrow> blocked k' now (hold k t s) \<longleftrightarrow> blocked k' now s"
  by (simp add: blocked_iff held_def table_hold_other)

lemma release_frame: "k' \<noteq> k \<Longrightarrow> blocked k' now (release k s) \<longleftrightarrow> blocked k' now s"
  by (simp add: blocked_iff held_def table_release_other)

lemma blocked_antimono: "now \<le> now' \<Longrightarrow> blocked k now' s \<Longrightarrow> blocked k now s"
  by (auto simp: blocked_iff held_def split: option.splits)

end

end
