(* ===== verification/Float64.thy ===== *)
theory Float64
  imports Prelude Complex_Main
begin

text \<open>
  Go's \<open>float64\<close> as the program uses it: to scale durations (jitter, spread slots), to accrue
  rate tokens and to count days. A value is the rational it denotes; every operation is the
  exact one followed by \<open>fl\<close>, rounding to the nearest 53-bit value, ties to even, as the
  IEEE hardware does. The program's magnitudes (nanoseconds up to a few centuries, and
  fractions of one) stay far inside the normal exponent range, so overflow, infinities and
  subnormals are not represented.

  What the components use of it: rounding is monotone, and exact on integers of at most 53
  bits. So a bound by such a value survives any rounding.
\<close>

section \<open>Rounding to an integer\<close>

definition rne :: "rat \<Rightarrow> int" where
  "rne x = (let f = \<lfloor>x\<rfloor>; r = x - of_int f in
     if r < 1 / 2 then f else if 1 / 2 < r then f + 1 else if even f then f else f + 1)"

lemma rne_bounds: "\<lfloor>x\<rfloor> \<le> rne x" "rne x \<le> \<lfloor>x\<rfloor> + 1"
  by (auto simp: rne_def Let_def)

lemma rne_of_int [simp]: "rne (of_int n) = n"
  by (simp add: rne_def)

lemma rne_mono: "x \<le> y \<Longrightarrow> rne x \<le> rne y"
proof -
  assume le: "x \<le> y"
  then have fl: "\<lfloor>x\<rfloor> \<le> \<lfloor>y\<rfloor>" by (rule floor_mono)
  show ?thesis
  proof (cases "\<lfloor>x\<rfloor> = \<lfloor>y\<rfloor>")
    case True
    with le show ?thesis by (auto simp: rne_def Let_def)
  next
    case False
    with fl have "\<lfloor>x\<rfloor> + 1 \<le> \<lfloor>y\<rfloor>" by simp
    then show ?thesis using rne_bounds(2) [of x] rne_bounds(1) [of y] by linarith
  qed
qed

text \<open>\<open>math.Round\<close>: half away from zero.\<close>

definition round_away :: "rat \<Rightarrow> int" where
  "round_away x = (if 0 \<le> x then \<lfloor>x + 1 / 2\<rfloor> else - \<lfloor>- x + 1 / 2\<rfloor>)"

text \<open>Conversion of a float to an integer truncates towards zero.\<close>

definition trunc :: "rat \<Rightarrow> int" where
  "trunc x = (if 0 \<le> x then \<lfloor>x\<rfloor> else - \<lfloor>- x\<rfloor>)"

lemma trunc_of_int [simp]: "trunc (of_int n) = n"
  by (simp add: trunc_def flip: of_int_minus)

lemma trunc_mono:
  assumes "x \<le> y"
  shows "trunc x \<le> trunc y"
proof -
  consider "0 \<le> x" "0 \<le> y" | "x < 0" "0 \<le> y" | "x < 0" "y < 0" using assms by linarith
  then show ?thesis
  proof cases
    case 2
    then have "0 \<le> \<lfloor>- x\<rfloor>" "0 \<le> \<lfloor>y\<rfloor>" by simp_all
    then have "- \<lfloor>- x\<rfloor> \<le> \<lfloor>y\<rfloor>" by linarith
    moreover have "\<not> 0 \<le> x" using 2 by simp
    ultimately show ?thesis unfolding trunc_def using 2 by (simp only: if_True if_False)
  qed (use assms floor_mono [of x y] floor_mono [of "- y" "- x"] in \<open>simp_all add: trunc_def\<close>)
qed

section \<open>The exponent of a positive rational\<close>

fun nlog2 :: "nat \<Rightarrow> nat" where
  "nlog2 n = (if n < 2 then 0 else Suc (nlog2 (n div 2)))"

declare nlog2.simps [simp del]

lemma nlog2_bounds: "0 < n \<Longrightarrow> 2 ^ nlog2 n \<le> n \<and> n < 2 ^ Suc (nlog2 n)"
proof (induction n rule: nlog2.induct)
  case (1 n)
  show ?case
  proof (cases "n < 2")
    case True
    with 1 show ?thesis by (simp add: nlog2.simps [of n])
  next
    case False
    define a :: nat where "a = 2 ^ nlog2 (n div 2)"
    from False "1.IH" have "a \<le> n div 2 \<and> n div 2 < 2 * a" by (simp add: a_def)
    then have "2 * a \<le> n \<and> n < 4 * a" by linarith
    with False show ?thesis by (simp add: nlog2.simps [of n] a_def)
  qed
qed

definition pow2 :: "int \<Rightarrow> rat" where
  "pow2 e = (if 0 \<le> e then 2 ^ nat e else 1 / 2 ^ nat (- e))"

lemma pow2_powi: "pow2 e = 2 powi e"
  by (auto simp: pow2_def power_int_def field_simps power_inverse)

lemma pow2_pos [simp]: "0 < pow2 e"
  by (simp add: pow2_def)

lemma pow2_add: "pow2 (a + b) = pow2 a * pow2 b"
  by (simp add: pow2_powi power_int_add)

lemma pow2_mono: "a \<le> b \<Longrightarrow> pow2 a \<le> pow2 b"
  by (simp add: pow2_powi power_int_increasing)

lemma pow2_of_nat: "pow2 (int n) = 2 ^ n"
  by (simp add: pow2_def)

definition flog2 :: "rat \<Rightarrow> int" where
  "flog2 x = (if 1 \<le> x then int (nlog2 (nat \<lfloor>x\<rfloor>))
     else - (let c = nat (\<lceil>1 / x\<rceil> - 1) in if c = 0 then 0 else int (Suc (nlog2 c))))"

lemma nlog2_rat:
  assumes "0 < n"
  shows "(2::rat) ^ nlog2 n \<le> of_nat n" and "of_nat n + 1 \<le> (2::rat) ^ Suc (nlog2 n)"
proof -
  from nlog2_bounds [OF assms] have 1: "2 ^ nlog2 n \<le> n" and 2: "Suc n \<le> 2 ^ Suc (nlog2 n)" by auto
  from 1 have "of_nat (2 ^ nlog2 n) \<le> (of_nat n :: rat)" by (simp only: of_nat_le_iff)
  then show "(2::rat) ^ nlog2 n \<le> of_nat n" by simp
  from 2 have "of_nat (Suc n) \<le> (of_nat (2 ^ Suc (nlog2 n)) :: rat)" by (simp only: of_nat_le_iff)
  then show "of_nat n + 1 \<le> (2::rat) ^ Suc (nlog2 n)" by (simp add: add.commute)
qed

lemma flog2_ge1:
  assumes "1 \<le> x"
  shows "pow2 (flog2 x) \<le> x \<and> x < pow2 (flog2 x + 1)"
proof -
  define n where "n = nat \<lfloor>x\<rfloor>"
  have f: "1 \<le> \<lfloor>x\<rfloor>" using assms by (simp add: le_floor_iff)
  then have n: "0 < n" and nx: "of_nat n = (of_int \<lfloor>x\<rfloor> :: rat)" by (simp_all add: n_def)
  have e: "flog2 x = int (nlog2 n)" using assms by (simp add: flog2_def n_def)
  have e1: "pow2 (flog2 x + 1) = 2 ^ Suc (nlog2 n)"
    unfolding e by (metis of_nat_Suc add.commute pow2_of_nat)
  have "of_int \<lfloor>x\<rfloor> \<le> x" "x < of_int \<lfloor>x\<rfloor> + 1" using floor_correct [of x] by simp_all
  with nlog2_rat [OF n] nx show ?thesis unfolding e1 unfolding e pow2_of_nat by linarith
qed

lemma pow2_minus_nat: "pow2 (- int k) = 1 / 2 ^ k"
  by (simp add: pow2_powi power_int_minus field_simps)

lemma flog2_lt1:
  assumes "0 < x" and "x < 1"
  shows "pow2 (flog2 x) \<le> x \<and> x < pow2 (flog2 x + 1)"
proof -
  define c where "c = nat (\<lceil>1 / x\<rceil> - 1)"
  have "1 < 1 / x" using assms by (simp add: field_simps)
  then have f: "1 < \<lceil>1 / x\<rceil>" by (simp add: less_ceiling_iff)
  then have c: "0 < c" and "int c = \<lceil>1 / x\<rceil> - 1" unfolding c_def by linarith+
  then have cx: "of_nat c = (of_int \<lceil>1 / x\<rceil> - 1 :: rat)" by (metis of_int_1 of_int_diff of_int_of_nat_eq)
  have e: "flog2 x = - int (Suc (nlog2 c))"
    using assms c by (simp add: flog2_def Let_def c_def)
  then have e1: "flog2 x + 1 = - int (nlog2 c)" by simp
  have "1 / x \<le> of_int \<lceil>1 / x\<rceil>" "of_int \<lceil>1 / x\<rceil> - 1 < 1 / x"
    using ceiling_correct [of "1 / x"] by simp_all
  with nlog2_rat [OF c] cx have "2 ^ nlog2 c < 1 / x" "1 / x \<le> 2 ^ Suc (nlog2 c)" by linarith+
  with assms(1) have "x < 1 / 2 ^ nlog2 c" "1 / 2 ^ Suc (nlog2 c) \<le> x"
    by (simp_all add: field_simps)
  then show ?thesis unfolding e1 unfolding e by (simp only: pow2_minus_nat)
qed

lemma flog2_bounds: "0 < x \<Longrightarrow> pow2 (flog2 x) \<le> x \<and> x < pow2 (flog2 x + 1)"
  using flog2_ge1 flog2_lt1 by (cases "x < 1") auto

lemma flog2_mono:
  assumes "0 < x" and "x \<le> y"
  shows "flog2 x \<le> flog2 y"
proof (rule ccontr)
  assume "\<not> flog2 x \<le> flog2 y"
  then have "pow2 (flog2 y + 1) \<le> pow2 (flog2 x)" by (intro pow2_mono) simp
  then show False using flog2_bounds [of x] flog2_bounds [of y] assms by linarith
qed

section \<open>Rounding to 53 bits\<close>

definition ulp :: "rat \<Rightarrow> rat" where "ulp x = pow2 (flog2 x - 52)"

definition flp :: "rat \<Rightarrow> rat" where "flp x = of_int (rne (x / ulp x)) * ulp x"

definition fl :: "rat \<Rightarrow> rat" where
  "fl x = (if x = 0 then 0 else if 0 < x then flp x else - flp (- x))"

lemma ulp_pos [simp]: "0 < ulp x"
  by (simp add: ulp_def)

lemma flp_range:
  assumes "0 < x"
  shows "pow2 (flog2 x) \<le> flp x" and "flp x \<le> pow2 (flog2 x + 1)"
proof -
  let ?e = "flog2 x"
  have b: "pow2 ?e \<le> x" "x < pow2 (?e + 1)" using flog2_bounds [OF assms] by auto
  have e: "pow2 ?e = of_int (2 ^ 52) * ulp x"
    unfolding ulp_def using pow2_add [of 52 "?e - 52"] by (simp add: pow2_def)
  have e1: "pow2 (?e + 1) = of_int (2 ^ 53) * ulp x"
    unfolding ulp_def using pow2_add [of 53 "?e - 52"] by (simp add: pow2_def algebra_simps)
  have "of_int (2 ^ 52) \<le> x / ulp x" using b(1) unfolding e by (simp add: field_simps)
  then have "2 ^ 52 \<le> rne (x / ulp x)" using rne_mono rne_of_int by metis
  then show "pow2 ?e \<le> flp x" unfolding e flp_def
    by (intro mult_right_mono) (simp_all only: of_int_le_iff, simp add: less_imp_le)
  have "x / ulp x \<le> of_int (2 ^ 53)" using b(2) unfolding e1 by (simp add: field_simps)
  then have "rne (x / ulp x) \<le> 2 ^ 53" using rne_mono rne_of_int by metis
  then show "flp x \<le> pow2 (?e + 1)" unfolding e1 flp_def
    by (intro mult_right_mono) (simp_all only: of_int_le_iff, simp add: less_imp_le)
qed

lemma flp_mono:
  assumes "0 < x" and "x \<le> y"
  shows "flp x \<le> flp y"
proof (cases "flog2 x = flog2 y")
  case True
  then have u: "ulp x = ulp y" by (simp add: ulp_def)
  have "x / ulp y \<le> y / ulp y" using assms by (simp add: divide_right_mono less_imp_le)
  then have "rne (x / ulp y) \<le> rne (y / ulp y)" by (rule rne_mono)
  then show ?thesis by (simp add: flp_def u)
next
  case False
  then have "flog2 x + 1 \<le> flog2 y" using flog2_mono [OF assms] by simp
  then have "pow2 (flog2 x + 1) \<le> pow2 (flog2 y)" by (rule pow2_mono)
  then show ?thesis using flp_range(2) [of x] flp_range(1) [of y] assms by linarith
qed

lemma flp_pos: "0 < x \<Longrightarrow> 0 < flp x"
  using flp_range(1) pow2_pos less_le_trans by blast

lemma fl_zero [simp]: "fl 0 = 0"
  by (simp add: fl_def)

lemma fl_minus: "fl (- x) = - fl x"
  by (simp add: fl_def)

lemma fl_nonneg: "0 \<le> x \<Longrightarrow> 0 \<le> fl x"
  by (cases "x = 0") (use flp_pos [of x] in \<open>simp_all add: fl_def\<close>)

lemma fl_mono: "x \<le> y \<Longrightarrow> fl x \<le> fl y"
proof -
  assume le: "x \<le> y"
  consider "0 < x" | "x \<le> 0" "0 \<le> y" | "y < 0" by linarith
  then show ?thesis
  proof cases
    case 1
    with le flp_mono show ?thesis by (simp add: fl_def)
  next
    case 2
    then have "0 \<le> fl (- x)" "0 \<le> fl y" by (simp_all add: fl_nonneg)
    then show ?thesis by (simp add: fl_minus)
  next
    case 3
    with le flp_mono [of "- y" "- x"] show ?thesis by (simp add: fl_def)
  qed
qed

text \<open>Exact on integers below 2^53 and on their quotients by a power of two.\<close>

lemma flp_dyadic:
  assumes "0 < m" and "m < 2 ^ 53"
  shows "flp (of_int m * pow2 k) = of_int m * pow2 k"
proof -
  let ?x = "of_int m * pow2 k :: rat"
  have x: "0 < ?x" using assms by simp
  have "pow2 (flog2 ?x) \<le> ?x" using flog2_bounds [OF x] by simp
  also have "?x < of_int (2 ^ 53) * pow2 k" using assms by (simp only: mult_less_cancel_right_pos pow2_pos of_int_less_iff)
  also have "\<dots> = pow2 (53 + k)" by (simp add: pow2_add) (simp add: pow2_def)
  finally have "flog2 ?x < 53 + k" using pow2_mono [of "53 + k" "flog2 ?x"] by linarith
  then have "0 \<le> k - (flog2 ?x - 52)" by simp
  then obtain j where "k - (flog2 ?x - 52) = int j" by (rule nonneg_int_cases)
  then have j: "k = (flog2 ?x - 52) + int j" by simp
  have x2: "?x = of_int (m * 2 ^ j) * ulp ?x"
    by (subst j) (simp add: ulp_def pow2_add pow2_of_nat)
  have "?x / ulp ?x = of_int (m * 2 ^ j)" by (subst x2) (simp add: less_imp_neq [OF ulp_pos, symmetric])
  then have "flp ?x = of_int (m * 2 ^ j) * ulp ?x" by (simp only: flp_def rne_of_int)
  also have "\<dots> = ?x" by (rule x2 [symmetric])
  finally show ?thesis .
qed

lemma fl_dyadic:
  assumes "\<bar>m\<bar> < 2 ^ 53"
  shows "fl (of_int m * pow2 k) = of_int m * pow2 k"
proof -
  consider "m = 0" | "0 < m" | "m < 0" by linarith
  then show ?thesis
  proof cases
    case 3
    have "flp (of_int (- m) * pow2 k) = of_int (- m) * pow2 k"
      by (rule flp_dyadic) (use 3 assms in auto)
    moreover have "of_int m * pow2 k < 0" using 3 by (simp add: mult_less_0_iff)
    ultimately show ?thesis by (simp add: fl_def)
  qed (use assms flp_dyadic [of m k] in \<open>auto simp: fl_def\<close>)
qed

lemma fl_of_int: "\<bar>m\<bar> < 2 ^ 53 \<Longrightarrow> fl (of_int m) = of_int m"
  using fl_dyadic [of m 0] by (simp add: pow2_def)

lemma fl_one [simp]: "fl 1 = 1"
  using fl_of_int [of 1] by simp

lemma fl_le_int: "x \<le> of_int m \<Longrightarrow> \<bar>m\<bar> < 2 ^ 53 \<Longrightarrow> fl x \<le> of_int m"
  using fl_mono fl_of_int by metis

lemma fl_ge_int: "of_int m \<le> x \<Longrightarrow> \<bar>m\<bar> < 2 ^ 53 \<Longrightarrow> of_int m \<le> fl x"
  using fl_mono fl_of_int by metis

text \<open>The relative error of one rounding.\<close>

definition unit_roundoff :: rat where "unit_roundoff = pow2 (- 53)"

lemma unit_roundoff_pos [simp]: "0 < unit_roundoff"
  by (simp add: unit_roundoff_def)

lemma rne_error: "of_int (rne x) - x \<le> 1 / 2" "x - of_int (rne x) \<le> 1 / 2"
proof -
  define f where "f = (of_int \<lfloor>x\<rfloor> :: rat)"
  have "f \<le> x" "x < f + 1" using floor_correct [of x] by (simp_all add: f_def)
  moreover have "of_int (rne x) = (if x - f < 1 / 2 then f else if 1 / 2 < x - f then f + 1
     else if even \<lfloor>x\<rfloor> then f else f + 1)"
    by (simp add: rne_def Let_def f_def)
  ultimately show "of_int (rne x) - x \<le> 1 / 2" "x - of_int (rne x) \<le> 1 / 2"
    by (auto split: if_splits)
qed

lemma flp_error:
  assumes "0 < x"
  shows "flp x \<le> x * (1 + unit_roundoff)" and "x * (1 - unit_roundoff) \<le> flp x"
proof -
  have "pow2 (flog2 x) \<le> x" using flog2_bounds [OF assms] by simp
  moreover have "pow2 (flog2 x) * unit_roundoff = ulp x / 2"
    using pow2_add [of "flog2 x - 52" "- 1"] pow2_add [of "flog2 x" "- 53"]
    by (simp add: ulp_def unit_roundoff_def) (simp add: pow2_def)
  moreover have "pow2 (flog2 x) * unit_roundoff \<le> x * unit_roundoff"
    using calculation(1) by (intro mult_right_mono) (simp_all add: less_imp_le)
  ultimately have u: "ulp x / 2 \<le> x * unit_roundoff" by linarith
  have "flp x - x = (of_int (rne (x / ulp x)) - x / ulp x) * ulp x"
    by (simp add: flp_def left_diff_distrib less_imp_neq [OF ulp_pos, symmetric])
  moreover have "(of_int (rne (x / ulp x)) - x / ulp x) * ulp x \<le> 1 / 2 * ulp x"
    by (intro mult_right_mono rne_error) (simp add: less_imp_le)
  moreover have "(x / ulp x - of_int (rne (x / ulp x))) * ulp x \<le> 1 / 2 * ulp x"
    by (intro mult_right_mono rne_error) (simp add: less_imp_le)
  ultimately show "flp x \<le> x * (1 + unit_roundoff)" "x * (1 - unit_roundoff) \<le> flp x"
    using u by (simp_all add: algebra_simps)
qed

lemma fl_upper: "0 \<le> x \<Longrightarrow> fl x \<le> x * (1 + unit_roundoff)"
  using flp_error(1) [of x] by (cases "x = 0") (auto simp: fl_def)

lemma fl_lower: "0 \<le> x \<Longrightarrow> x * (1 - unit_roundoff) \<le> fl x"
  using flp_error(2) [of x] by (cases "x = 0") (auto simp: fl_def)

text \<open>Computing one rounding from the binary exponent of the argument.\<close>

lemma flog2_unique:
  assumes "pow2 e \<le> x" and "x < pow2 (e + 1)"
  shows "flog2 x = e"
proof -
  have x: "0 < x" using assms(1) pow2_pos less_le_trans by blast
  note b = flog2_bounds [OF x]
  have "\<not> flog2 x + 1 \<le> e" using b assms pow2_mono [of "flog2 x + 1" e] by linarith
  moreover have "\<not> e + 1 \<le> flog2 x" using b assms pow2_mono [of "e + 1" "flog2 x"] by linarith
  ultimately show ?thesis by linarith
qed

lemma fl_eval:
  assumes "pow2 e \<le> x" and "x < pow2 (e + 1)"
    and "\<bar>x / pow2 (e - 52) - of_int m\<bar> < 1 / 2"
  shows "fl x = of_int m * pow2 (e - 52)"
proof -
  have x: "0 < x" using assms(1) pow2_pos less_le_trans by blast
  have u: "ulp x = pow2 (e - 52)" by (simp add: ulp_def flog2_unique [OF assms(1,2)])
  define y where "y = x / pow2 (e - 52)"
  have y: "of_int m - 1 / 2 < y" "y < of_int m + 1 / 2" using assms(3) unfolding y_def [symmetric] by linarith+
  have "rne y = m"
  proof (cases "of_int m \<le> y")
    case True
    then have "\<lfloor>y\<rfloor> = m" using y by (simp add: floor_eq_iff)
    with y show ?thesis by (simp add: rne_def)
  next
    case False
    then have "\<lfloor>y\<rfloor> = m - 1" using y by (simp add: floor_eq_iff)
    with y show ?thesis by (simp add: rne_def)
  qed
  with x u show ?thesis by (simp add: fl_def flp_def y_def)
qed

end
