(* ===== verification/Calendar.thy ===== *)
theory Calendar
  imports Float64 "HOL-Library.Signed_Division"
begin

text \<open>
  The part of Go's \<open>time\<close> package that the program uses for local time: a location, the
  civil day and weekday of an instant, \<open>time.Date\<close>, \<open>AddDate\<close>, the date format
  \<open>2006-01-02\<close> and \<open>Duration.Hours\<close>. A location is its UTC offset, in seconds, as a
  function of the Unix second; civil days are numbered from 1 January 1970.

  \<open>civil_zone\<close> collects what the schedule needs of a location: local midnights and noons
  exist and are where \<open>time.Date\<close> puts them, and offsets differ by at most two hours. It is
  proved here for every fixed offset and for Melbourne's clock around a change of season.
\<close>

section \<open>Locations and civil days\<close>

type_synonym zone = "int \<Rightarrow> int"

definition zoff :: "zone \<Rightarrow> time \<Rightarrow> dur" where "zoff z t = z (t div second) * second"

definition lns :: "zone \<Rightarrow> time \<Rightarrow> int" where "lns z t = t + zoff z t"

definition localday :: "zone \<Rightarrow> time \<Rightarrow> int" where "localday z t = lns z t div day"

definition weekday :: "zone \<Rightarrow> time \<Rightarrow> int" where "weekday z t = (localday z t + 4) mod 7"

text \<open>
  \<open>time.Date\<close> for a civil time given in nanoseconds since the civil epoch: the offset is
  looked up at the civil time read as UTC, and again at the instant that offset gives.
\<close>

definition go_date :: "zone \<Rightarrow> int \<Rightarrow> time" where
  "go_date z l = (if zoff z l = 0 then l else l - zoff z (l - zoff z l))"

definition midnight :: "zone \<Rightarrow> int \<Rightarrow> time" where "midnight z d = go_date z (d * day)"

definition noon :: "zone \<Rightarrow> int \<Rightarrow> time" where "noon z d = go_date z (d * day + 12 * hour)"

definition add_days :: "zone \<Rightarrow> time \<Rightarrow> int \<Rightarrow> time" where
  "add_days z t n = go_date z (lns z t + n * day)"

definition civil_zone :: "zone \<Rightarrow> bool" where
  "civil_zone z \<longleftrightarrow>
     (\<forall>d t. d * day \<le> lns z t \<longleftrightarrow> midnight z d \<le> t) \<and>
     (\<forall>d. lns z (midnight z d) = d * day) \<and>
     (\<forall>d. lns z (noon z d) = d * day + 12 * hour) \<and>
     (\<forall>t u. \<bar>zoff z t - zoff z u\<bar> \<le> 2 * hour)"

lemma day_pos [simp]: "0 < day" "0 < hour" "0 < minute" "0 < second"
  by (simp_all add: time_simps)

lemma le_div_day: "d \<le> x div day \<longleftrightarrow> d * day \<le> x"
proof
  have x: "x div day * day + x mod day = x" "0 \<le> x mod day" by simp_all
  show "d * day \<le> x" if "d \<le> x div day"
    using that x mult_right_mono [of d "x div day" day] less_imp_le [OF day_pos(1)] by linarith
  show "d \<le> x div day" if "d * day \<le> x"
    using zdiv_mono1 [OF that day_pos(1)] by (simp add: less_imp_neq [OF day_pos(1), symmetric])
qed

lemma localday_ge_iff:
  assumes "civil_zone z"
  shows "d \<le> localday z t \<longleftrightarrow> midnight z d \<le> t"
proof -
  have "d \<le> localday z t \<longleftrightarrow> d * day \<le> lns z t"
    unfolding localday_def by (rule le_div_day)
  with assms show ?thesis by (simp add: civil_zone_def)
qed

lemma localday_eq_iff:
  assumes "civil_zone z"
  shows "localday z t = d \<longleftrightarrow> midnight z d \<le> t \<and> t < midnight z (d + 1)"
  using localday_ge_iff [OF assms, of d t] localday_ge_iff [OF assms, of "d + 1" t] by linarith

lemma localday_midnight [simp]: "civil_zone z \<Longrightarrow> localday z (midnight z d) = d"
  by (simp add: localday_def civil_zone_def less_imp_neq [OF day_pos(1), symmetric])

lemma midnight_mono_iff:
  assumes "civil_zone z"
  shows "midnight z d \<le> midnight z e \<longleftrightarrow> d \<le> e"
  using localday_ge_iff [OF assms, of d "midnight z e"] localday_midnight [OF assms] by simp

lemma midnight_less_iff:
  assumes "civil_zone z"
  shows "midnight z d < midnight z e \<longleftrightarrow> d < e"
  using midnight_mono_iff [OF assms, of e d] by linarith

lemma localday_mono:
  assumes "civil_zone z" and "t \<le> u"
  shows "localday z t \<le> localday z u"
  using localday_ge_iff [OF assms(1), of "localday z t"] assms(2) by (meson order_refl order_trans)

lemma add_days_midnight: "civil_zone z \<Longrightarrow> add_days z (midnight z d) n = midnight z (d + n)"
  by (simp add: add_days_def civil_zone_def midnight_def [of z "d + n"] algebra_simps)

lemma add_days_noon: "civil_zone z \<Longrightarrow> add_days z (noon z d) n = noon z (d + n)"
  by (simp add: add_days_def civil_zone_def noon_def [of z "d + n"] algebra_simps)

lemma localday_noon [simp]:
  assumes "civil_zone z"
  shows "localday z (noon z d) = d"
proof -
  have "lns z (noon z d) = d * day + 12 * hour" using assms by (simp add: civil_zone_def)
  then show ?thesis by (simp add: localday_def time_simps)
qed

lemma weekday_range: "0 \<le> weekday z t \<and> weekday z t < 7"
  by (simp add: weekday_def)

section \<open>Zones that satisfy the hypothesis\<close>

definition fixed_zone :: "int \<Rightarrow> zone" where "fixed_zone c = (\<lambda>_. c)"

lemma civil_fixed_zone: "civil_zone (fixed_zone c)"
  by (auto simp: civil_zone_def midnight_def noon_def go_date_def lns_def zoff_def fixed_zone_def hour_def
        minute_def second_def)

text \<open>
  Melbourne around the end of daylight saving in April 2026: UTC+11 before
  2026-04-04 16:00 UTC, UTC+10 from then on.
\<close>

definition melbourne :: zone where
  "melbourne s = (if s < 1775318400 then 39600 else 36000)"

lemma zoff_melbourne:
  "zoff melbourne t = (if t < 1775318400000000000 then 39600000000000 else 36000000000000)"
proof -
  have "t div 1000000000 < 1775318400 \<longleftrightarrow> t < 1775318400000000000" by linarith
  then show ?thesis by (simp add: zoff_def melbourne_def second_def)
qed

lemma go_date_melbourne:
  "go_date melbourne l =
     (if l < 1775354400000000000 then l - 39600000000000 else l - 36000000000000)"
  unfolding go_date_def zoff_melbourne by simp

lemma midnight_melbourne:
  "midnight melbourne d =
     (if d \<le> 20548 then d * 86400000000000 - 39600000000000 else d * 86400000000000 - 36000000000000)"
  unfolding midnight_def go_date_melbourne by (simp add: time_simps)

lemma noon_melbourne:
  "noon melbourne d =
     (if d \<le> 20547 then d * 86400000000000 + 3600000000000 else d * 86400000000000 + 7200000000000)"
  unfolding noon_def go_date_melbourne by (simp add: time_simps)

lemma civil_melbourne: "civil_zone melbourne"
proof -
  have "d * day \<le> lns melbourne t \<longleftrightarrow> midnight melbourne d \<le> t" for d t
    by (auto simp: lns_def zoff_melbourne midnight_melbourne time_simps)
  moreover have "lns melbourne (midnight melbourne d) = d * day" for d
    by (auto simp: lns_def zoff_melbourne midnight_melbourne time_simps)
  moreover have "lns melbourne (noon melbourne d) = d * day + 12 * hour" for d
    by (auto simp: lns_def zoff_melbourne noon_melbourne time_simps)
  moreover have "\<bar>zoff melbourne t - zoff melbourne u\<bar> \<le> 2 * hour" for t u
    by (auto simp: zoff_melbourne time_simps)
  ultimately show ?thesis by (simp add: civil_zone_def)
qed

section \<open>Day counts by floating point\<close>

text \<open>\<open>Duration.Hours\<close>, and the whole-day count the code derives from it.\<close>

definition hours_f :: "dur \<Rightarrow> rat" where
  "hours_f d = fl (fl (of_int (d sdiv hour)) + fl (fl (of_int (d smod hour)) / 3600000000000))"

definition round_days :: "dur \<Rightarrow> int" where
  "round_days d = round_away (fl (hours_f d / 24))"

lemma hours_f_bounds:
  assumes "\<bar>d - k * day\<bar> \<le> 2 * hour" and "\<bar>k\<bar> < 2 ^ 40"
  shows "of_int (24 * k - 4) \<le> hours_f d \<and> hours_f d \<le> of_int (24 * k + 4)"
proof -
  define q where "q = d sdiv hour"
  define r where "r = d smod hour"
  have d: "d = q * hour + r" by (simp add: q_def r_def sdiv_mult_smod_eq)
  have r: "\<bar>r\<bar> < hour"
    unfolding r_def signed_modulo_int_def by (auto simp: sgn_if abs_less_iff time_simps)
  from assms(1) d r have q: "24 * k - 3 \<le> q" "q \<le> 24 * k + 3"
    unfolding time_simps by linarith+
  have r1: "\<bar>r\<bar> < 2 ^ 53" using r by (simp add: time_simps)
  have "fl (of_int r) = of_int r" by (rule fl_of_int [OF r1])
  moreover have "- 1 \<le> (of_int r / 3600000000000 :: rat)" "(of_int r / 3600000000000 :: rat) \<le> 1"
    using r by (simp_all add: time_simps)
  ultimately have f: "- 1 \<le> fl (fl (of_int r) / 3600000000000)" "fl (fl (of_int r) / 3600000000000) \<le> 1"
    using fl_ge_int [of "-1"] fl_le_int [of _ 1] by simp_all
  have q1: "fl (of_int q) = of_int q" by (rule fl_of_int) (use q assms(2) in simp)
  have "of_int (24 * k - 4) \<le> fl (of_int q + fl (fl (of_int r) / 3600000000000))"
    by (rule fl_ge_int) (use q f assms(2) in simp_all)
  moreover have "fl (of_int q + fl (fl (of_int r) / 3600000000000)) \<le> of_int (24 * k + 4)"
    by (rule fl_le_int) (use q f assms(2) in simp_all)
  ultimately show ?thesis by (simp add: hours_f_def q_def [symmetric] r_def [symmetric] q1)
qed

lemma round_days_near:
  assumes "\<bar>d - k * day\<bar> \<le> 2 * hour" and "\<bar>k\<bar> < 2 ^ 40"
  shows "round_days d = k"
proof -
  let ?x = "hours_f d / 24"
  have q: "pow2 (- 2) = 1 / 4" by (simp add: pow2_def)
  have "of_int (4 * k - 1) * pow2 (- 2) \<le> ?x" "?x \<le> of_int (4 * k + 1) * pow2 (- 2)"
    using hours_f_bounds [OF assms] unfolding q by simp_all
  then have "of_int (4 * k - 1) * pow2 (- 2) \<le> fl ?x" "fl ?x \<le> of_int (4 * k + 1) * pow2 (- 2)"
    using assms(2) fl_mono [of "of_int (4 * k - 1) * pow2 (- 2)" ?x]
      fl_mono [of ?x "of_int (4 * k + 1) * pow2 (- 2)"]
      fl_dyadic [of "4 * k - 1" "- 2"] fl_dyadic [of "4 * k + 1" "- 2"] by simp_all
  then have b: "of_int k - 1 / 4 \<le> fl ?x" "fl ?x \<le> of_int k + 1 / 4"
    unfolding q by simp_all
  show ?thesis
  proof (cases "0 \<le> fl ?x")
    case True
    have "\<lfloor>fl ?x + 1 / 2\<rfloor> = k" using b by (simp add: floor_eq_iff)
    with True show ?thesis by (simp add: round_days_def round_away_def)
  next
    case False
    have "\<lfloor>- fl ?x + 1 / 2\<rfloor> = - k" using b by (simp add: floor_eq_iff)
    with False show ?thesis by (simp add: round_days_def round_away_def)
  qed
qed

section \<open>The Gregorian calendar\<close>

text \<open>
  Days are counted from 1 January of the year 0 (\<open>before_year\<close>) and then from the Unix
  epoch, 719528 days later.
\<close>

definition leap :: "int \<Rightarrow> bool" where
  "leap y \<longleftrightarrow> y mod 4 = 0 \<and> (y mod 100 \<noteq> 0 \<or> y mod 400 = 0)"

definition month_lengths :: "int \<Rightarrow> int list" where
  "month_lengths y = [31, if leap y then 29 else 28, 31, 30, 31, 30, 31, 31, 30, 31, 30, 31]"

definition before_year :: "int \<Rightarrow> int" where
  "before_year y = 365 * y + (y + 3) div 4 - (y + 99) div 100 + (y + 399) div 400"

text \<open>Position of a zero-based day within consecutive spans: the span's index and the rest.\<close>

fun in_spans :: "int list \<Rightarrow> int \<Rightarrow> int \<times> int" where
  "in_spans [] r = (0, r)"
| "in_spans (m # ms) r = (if r < m then (0, r) else (let (k, q) = in_spans ms (r - m) in (k + 1, q)))"

definition days_of_civil :: "int \<Rightarrow> int \<Rightarrow> int \<Rightarrow> int" where
  "days_of_civil y m d =
     before_year y + sum_list (take (nat (m - 1)) (month_lengths y)) + (d - 1) - 719528"

definition year_of :: "int \<Rightarrow> int" where
  "year_of n = (let y = (400 * n) div 146097 in
     if n < before_year y then y - 1 else if before_year (y + 1) \<le> n then y + 1 else y)"

definition civil_of_days :: "int \<Rightarrow> int \<times> int \<times> int" where
  "civil_of_days n = (let N = n + 719528; y = year_of N;
     (k, r) = in_spans (month_lengths y) (N - before_year y) in (y, k + 1, r + 1))"

lemma up_div:
  fixes k y :: int
  assumes "0 < k"
  shows "(y + k - 1) div k = y div k + (if y mod k = 0 then 0 else 1)"
proof -
  define q r where "q = y div k" and "r = y mod k"
  have y: "y + k - 1 = (r + k - 1) + q * k" by (simp add: q_def r_def)
  have r: "0 \<le> r" "r < k" using assms by (simp_all add: r_def)
  have "(y + k - 1) div k = q + (r + k - 1) div k"
    unfolding y using assms by (subst div_mult_self1) simp_all
  moreover have "(r + k - 1) div k = (if r = 0 then 0 else 1)"
    using r by (auto simp: div_pos_pos_trivial intro: int_div_pos_eq [of _ k 1 "r - 1"])
  ultimately show ?thesis by (simp add: q_def r_def)
qed

lemma up_div_bounds:
  fixes k y :: int
  assumes "0 < k"
  shows "y \<le> k * ((y + k - 1) div k)" and "k * ((y + k - 1) div k) \<le> y + k - 1"
proof -
  have "k * ((y + k - 1) div k) + (y + k - 1) mod k = y + k - 1" by simp
  moreover have "0 \<le> (y + k - 1) mod k" "(y + k - 1) mod k < k" using assms by simp_all
  ultimately show "y \<le> k * ((y + k - 1) div k)" and "k * ((y + k - 1) div k) \<le> y + k - 1"
    by linarith+
qed

lemma before_year_bounds:
  shows "146097 * y - 396 \<le> 400 * before_year y" and "400 * before_year y \<le> 146097 * y + 700"
proof -
  define a b c where "a = (y + 3) div 4" and "b = (y + 99) div 100" and "c = (y + 399) div 400"
  have "y \<le> 4 * a" "4 * a \<le> y + 3" "y \<le> 100 * b" "100 * b \<le> y + 99" "y \<le> 400 * c" "400 * c \<le> y + 399"
    using up_div_bounds [of 4 y] up_div_bounds [of 100 y] up_div_bounds [of 400 y]
    by (simp_all add: a_def b_def c_def)
  moreover have "before_year y = 365 * y + a - b + c"
    by (simp only: before_year_def a_def b_def c_def)
  ultimately show "146097 * y - 396 \<le> 400 * before_year y" and "400 * before_year y \<le> 146097 * y + 700"
    by simp_all
qed

lemma reassoc:
  fixes a p q r x y z :: int
  shows "a + (p + x) - (q + y) + (r + z) = a + p - q + r + x - y + z"
  by simp

lemma reassoc_one:
  fixes b p q r :: int
  shows "365 * (b + 1) + (p + 1) - (q + 1) + (r + 1) = 365 * b + p - q + r + 366"
  by simp

lemma leap_count:
  fixes w :: int
  shows "(d \<Longrightarrow> c) \<Longrightarrow> (c \<Longrightarrow> a) \<Longrightarrow>
     w + 366 = w + (if a then 0 else 1) - (if c then 0 else 1) + (if d then 0 else 1)
       + (if a \<and> (\<not> c \<or> d) then 366 else 365)"
  by (cases a; cases c; cases d) simp_all

lemma before_year_div:
  "before_year y = 365 * y + y div 4 - y div 100 + y div 400
     + (if y mod 4 = 0 then 0 else 1) - (if y mod 100 = 0 then 0 else 1) + (if y mod 400 = 0 then 0 else 1)"
proof -
  have "(y + 3) div 4 = y div 4 + (if y mod 4 = 0 then 0 else 1)" using up_div [of 4 y] by simp
  moreover have "(y + 99) div 100 = y div 100 + (if y mod 100 = 0 then 0 else 1)"
    using up_div [of 100 y] by simp
  moreover have "(y + 399) div 400 = y div 400 + (if y mod 400 = 0 then 0 else 1)"
    using up_div [of 400 y] by simp
  ultimately show ?thesis unfolding before_year_def by (simp only: reassoc)
qed

lemma before_year_step: "before_year (y + 1) = before_year y + (if leap y then 366 else 365)"
proof -
  have n: "(y + 1 + 3) div 4 = y div 4 + 1" "(y + 1 + 99) div 100 = y div 100 + 1"
    "(y + 1 + 399) div 400 = y div 400 + 1"
    using div_add_self2 [of 4 y] div_add_self2 [of 100 y] div_add_self2 [of 400 y]
    by (simp_all add: add.assoc)
  define w where "w = 365 * y + y div 4 - y div 100 + y div 400"
  have 1: "before_year (y + 1) = w + 366"
    unfolding before_year_def n by (simp only: w_def reassoc_one)
  have 0: "before_year y = w + (if y mod 4 = 0 then 0 else 1) - (if y mod 100 = 0 then 0 else 1)
      + (if y mod 400 = 0 then 0 else 1)"
    unfolding before_year_div by (simp only: w_def)
  have "y mod 400 = 0 \<Longrightarrow> y mod 100 = 0" and "y mod 100 = 0 \<Longrightarrow> y mod 4 = 0"
    by (auto simp: mod_eq_0_iff_dvd intro: dvd_trans [of 100 400] dvd_trans [of 4 100])
  then show ?thesis unfolding leap_def 0 1 by (rule leap_count)
qed

lemma before_year_mono:
  assumes "x \<le> y"
  shows "before_year x \<le> before_year y"
  using assms
proof (induction rule: int_ge_induct)
  case (step i)
  then show ?case using before_year_step [of i] by (simp split: if_splits)
qed simp

lemma year_of_bounds: "before_year (year_of n) \<le> n \<and> n < before_year (year_of n + 1)"
proof -
  define y where "y = (400 * n) div 146097"
  define r where "r = (400 * n) mod 146097"
  have n: "400 * n = 146097 * y + r" "0 \<le> r" "r < 146097"
    by (simp_all add: y_def r_def)
  have "400 * before_year (y - 1) \<le> 400 * n"
    using n before_year_bounds(2) [of "y - 1"] by simp
  then have "before_year (y - 1) \<le> n" by simp
  moreover have "400 * n < 400 * before_year (y + 2)"
    using n before_year_bounds(1) [of "y + 2"] by simp
  then have "n < before_year (y + 2)" by simp
  then have "n < before_year (y + 1 + 1)" by (simp add: add.assoc)
  ultimately show ?thesis by (simp add: year_of_def y_def [symmetric] Let_def)
qed

lemma sum_month_lengths: "sum_list (month_lengths y) = (if leap y then 366 else 365)"
  by (simp add: month_lengths_def)

lemma in_spans_bounds:
  assumes "0 \<le> r" and "r < sum_list ms" and "in_spans ms r = (k, q)"
  shows "0 \<le> k \<and> nat k < length ms \<and> 0 \<le> q \<and> q < ms ! nat k \<and> sum_list (take (nat k) ms) + q = r"
  using assms
proof (induction ms arbitrary: r k q)
  case (Cons m ms)
  show ?case
  proof (cases "r < m")
    case False
    obtain k' where k': "in_spans ms (r - m) = (k', q)" "k = k' + 1"
      using Cons.prems(3) False by (auto simp: Let_def split: prod.splits)
    from Cons.IH [OF _ _ k'(1)] Cons.prems False
    have "0 \<le> k' \<and> nat k' < length ms \<and> 0 \<le> q \<and> q < ms ! nat k'
      \<and> sum_list (take (nat k') ms) + q = r - m" by simp
    with k'(2) show ?thesis by (simp add: nat_add_distrib)
  qed (use Cons.prems in auto)
qed simp

lemma civil_of_days:
  assumes "civil_of_days n = (y, m, d)"
  shows "1 \<le> m \<and> m \<le> 12 \<and> 1 \<le> d \<and> d \<le> month_lengths y ! nat (m - 1) \<and> days_of_civil y m d = n"
proof -
  define N where "N = n + 719528"
  obtain k r where kr: "in_spans (month_lengths (year_of N)) (N - before_year (year_of N)) = (k, r)"
    by (cases "in_spans (month_lengths (year_of N)) (N - before_year (year_of N))") auto
  have eq: "y = year_of N" "m = k + 1" "d = r + 1"
    using assms kr by (simp_all add: civil_of_days_def N_def [symmetric] Let_def)
  have "0 \<le> N - before_year y" "N - before_year y < sum_list (month_lengths y)"
    using year_of_bounds [of N] before_year_step [of y] by (simp_all add: eq sum_month_lengths)
  from in_spans_bounds [OF this kr [folded eq(1)]]
  have "0 \<le> k \<and> nat k < 12 \<and> 0 \<le> r \<and> r < month_lengths y ! nat k \<and>
      sum_list (take (nat k) (month_lengths y)) + r = N - before_year y"
    by (simp add: month_lengths_def)
  then show ?thesis using eq by (auto simp: days_of_civil_def N_def)
qed

section \<open>Dates as text\<close>

definition digit :: "int \<Rightarrow> char" where "digit n = char_of (48 + nat n)"

fun dec :: "int \<Rightarrow> string" where
  "dec n = (if n < 10 then [digit n] else dec (n div 10) @ [digit (n mod 10)])"

declare dec.simps [simp del]

text \<open>\<open>fmt.Sprint\<close> of an integer.\<close>

definition show_int :: "int \<Rightarrow> string" where
  "show_int n = (if n < 0 then CHR ''-'' # dec (- n) else dec n)"

definition fmt2 :: "int \<Rightarrow> string" where "fmt2 n = [digit (n div 10), digit (n mod 10)]"

definition fmt_year :: "int \<Rightarrow> string" where
  "fmt_year y = (if 0 \<le> y \<and> y < 10000 then fmt2 (y div 100) @ fmt2 (y mod 100) else show_int y)"

text \<open>\<open>Format("2006-01-02")\<close>.\<close>

definition fmt_date :: "int \<Rightarrow> string" where
  "fmt_date n = (case civil_of_days n of (y, m, d) \<Rightarrow> fmt_year y @ ''-'' @ fmt2 m @ ''-'' @ fmt2 d)"

definition digit_val :: "char \<Rightarrow> int option" where
  "digit_val c = (if 48 \<le> cp c \<and> cp c \<le> 57 then Some (int (cp c) - 48) else None)"

definition num2 :: "char \<Rightarrow> char \<Rightarrow> int option" where
  "num2 a b = (case (digit_val a, digit_val b) of (Some x, Some y) \<Rightarrow> Some (10 * x + y) | _ \<Rightarrow> None)"

text \<open>\<open>time.Parse("2006-01-02", s)\<close>, giving the civil day.\<close>

definition parse_date :: "string \<Rightarrow> int option" where
  "parse_date s = (case s of
     [a, b, c, d, h, e, f, i, j, k] \<Rightarrow>
       (case (num2 a b, num2 c d, num2 e f, num2 j k) of
          (Some y1, Some y2, Some m, Some dd) \<Rightarrow>
            (let y = 100 * y1 + y2 in
             if h = CHR ''-'' \<and> i = CHR ''-'' \<and> 1 \<le> m \<and> m \<le> 12 \<and> 1 \<le> dd
               \<and> dd \<le> month_lengths y ! nat (m - 1)
             then Some (days_of_civil y m dd) else None)
        | _ \<Rightarrow> None)
   | _ \<Rightarrow> None)"

lemma digit_val_digit: "0 \<le> n \<Longrightarrow> n < 10 \<Longrightarrow> digit_val (digit n) = Some n"
  by (simp add: digit_val_def digit_def)

lemma num2_fmt2: "0 \<le> n \<Longrightarrow> n < 100 \<Longrightarrow> num2 (digit (n div 10)) (digit (n mod 10)) = Some n"
  by (simp add: num2_def digit_val_digit)

definition first_day :: int where "first_day = - 719528"
definition last_day :: int where "last_day = 2932896"

lemma year_range:
  assumes "first_day \<le> n" and "n \<le> last_day" and "civil_of_days n = (y, m, d)"
  shows "0 \<le> y \<and> y < 10000"
proof -
  have y: "y = year_of (n + 719528)"
    using assms(3) by (simp add: civil_of_days_def Let_def split: prod.splits)
  have b: "before_year y \<le> n + 719528" "n + 719528 < before_year (y + 1)"
    using year_of_bounds [of "n + 719528"] by (simp_all add: y)
  show ?thesis
  proof (rule ccontr)
    assume "\<not> ?thesis"
    then consider "y + 1 \<le> 0" | "10000 \<le> y" by linarith
    then show False
    proof cases
      case 1
      then have "before_year (y + 1) \<le> before_year 0" by (rule before_year_mono)
      then have "before_year (y + 1) \<le> 0" by (simp add: before_year_def)
      with b assms(1) show False by (simp add: first_day_def)
    next
      case 2
      then have "before_year 10000 \<le> before_year y" by (rule before_year_mono)
      with b assms(2) show False by (simp add: last_day_def before_year_def)
    qed
  qed
qed

lemma zdiv_less: "y < 10000 \<Longrightarrow> (y::int) div 100 < 100"
  by linarith

lemma parse_fmt_date:
  assumes "first_day \<le> n" and "n \<le> last_day"
  shows "parse_date (fmt_date n) = Some n"
proof -
  obtain y m d where c: "civil_of_days n = (y, m, d)" by (cases "civil_of_days n") auto
  from civil_of_days [OF c]
  have md: "1 \<le> m" "m \<le> 12" "1 \<le> d" "d \<le> month_lengths y ! nat (m - 1)" "days_of_civil y m d = n"
    by auto
  have y: "0 \<le> y \<and> y < 10000" by (rule year_range [OF assms c])
  have "nat (m - 1) < 12" using md by simp
  then have "month_lengths y ! nat (m - 1) \<in> set (month_lengths y)"
    by (intro nth_mem) (simp add: month_lengths_def)
  then have "d < 100" using md(4) by (auto simp: month_lengths_def split: if_splits)
  then have n2: "num2 (digit (y div 100 div 10)) (digit (y div 100 mod 10)) = Some (y div 100)"
    "num2 (digit (y mod 100 div 10)) (digit (y mod 100 mod 10)) = Some (y mod 100)"
    "num2 (digit (m div 10)) (digit (m mod 10)) = Some m"
    "num2 (digit (d div 10)) (digit (d mod 10)) = Some d"
    using y md by (simp_all add: num2_fmt2 div_int_pos_iff zdiv_less)
  show ?thesis
    unfolding fmt_date_def c fmt_year_def fmt2_def parse_date_def
    using y md by (simp add: n2 Let_def)
qed

end
