(* ===== verification/Model.thy ===== *)
theory Model
  imports Calendar
begin

text \<open>
  \<open>internal/model/model.go\<close>: permits, rosters, bookings, and the decision which vehicle a
  permit should show now. Records carry the source's fields under a prefix; a
  \<open>*time.Time\<close> is a \<^typ>\<open>time option\<close>; a Go map read by key is a map, and one that is
  iterated over is the list of its entries in iteration order. \<open>now\<close> comes with the
  location it is expressed in, as a \<^typ>\<open>zone\<close>.
\<close>

section \<open>Data\<close>

record vehicle =
  v_ID :: int
  v_Registration :: string
  v_Label :: string
  v_Email :: string
  v_Color :: string
  v_State :: string
  v_NotifyDriver :: bool

record cycle =
  c_Weeks :: int
  c_Anchor :: string

record permit =
  p_ID :: int
  p_Owner :: string
  p_TenantID :: string
  p_CouncilPermitID :: string
  p_PermitTypeID :: string
  p_Label :: string
  p_ActiveRegistration :: string
  p_ActiveConfirmedAt :: time
  p_EndDate :: time
  p_Status :: string
  p_ExpiryReminded :: bool
  p_PermitNumber :: string
  p_PermitType :: string
  p_FailStreak :: int
  p_CopyOfferDone :: bool
  p_CycleWeeks :: int
  p_CycleAnchor :: string

record weekly_rule =
  r_ID :: int
  r_PermitID :: int
  r_Week :: int
  r_Weekday :: int
  r_VehicleID :: int
  r_Empty :: bool

record override =
  o_ID :: int
  o_PermitID :: int
  o_VehicleID :: int
  o_Registration :: string
  o_State :: string
  o_StartsAt :: time
  o_EndsAt :: "time option"
  o_CreatedBy :: string
  o_CreatedAt :: time
  o_GuestTokenID :: int
  o_Empty :: bool

datatype source = SourceNone | SourceRoster | SourceOverride

fun source_str :: "source \<Rightarrow> string" where
  "source_str SourceNone = ''none''"
| "source_str SourceRoster = ''roster''"
| "source_str SourceOverride = ''override''"

record resolution =
  s_VehicleID :: int
  s_Registration :: string
  s_State :: string
  s_Source :: source
  s_By :: string
  s_Empty :: bool
  s_Since :: time
  s_Scheduled :: bool
  s_Until :: "time option"

record vehicle_info =
  vi_Registration :: string
  vi_Label :: string
  vi_Email :: string
  vi_Color :: string
  vi_State :: string
  vi_NotifyDriver :: bool

definition no_vehicle_info :: vehicle_info where
  "no_vehicle_info = \<lparr>vi_Registration = [], vi_Label = [], vi_Email = [], vi_Color = [],
     vi_State = [], vi_NotifyDriver = False\<rparr>"

record displaced_booking =
  d_Reg :: string
  d_Contact :: string

section \<open>Plates\<close>

definition plate_skips :: "char \<Rightarrow> bool" where
  "plate_skips r \<longleftrightarrow> is_space r \<or> r = CHR ''-'' \<or> r = CHR ''.'' \<or> cp r = 183"

definition norm_plate :: "string \<Rightarrow> string" where
  "norm_plate s = to_upper (filter (\<lambda>r. \<not> plate_skips r) s)"

definition same_plate :: "string \<Rightarrow> string \<Rightarrow> bool" where
  "same_plate a b \<longleftrightarrow> norm_plate a = norm_plate b"

section \<open>Permits\<close>

definition permit_cycle :: "permit \<Rightarrow> cycle" where
  "permit_cycle p = (let w = p_CycleWeeks p in
     \<lparr>c_Weeks = if w < 1 then 1 else w, c_Anchor = p_CycleAnchor p\<rparr>)"

definition dead_statuses :: "string list" where
  "dead_statuses = [''cancelled'', ''canceled'', ''cancel'', ''suspended'', ''suspend'',
     ''surrendered'', ''surrender'', ''revoked'', ''revoke'',
     ''expired'', ''lapsed'', ''closed'', ''void'', ''voided'']"

definition status_trim :: string where
  "status_trim = ''.,;:()[]{}'' @ [CHR 0x22, CHR 0x27]"

definition dead_status :: "string \<Rightarrow> bool" where
  "dead_status s \<longleftrightarrow> list_ex (\<lambda>w. trim_set w status_trim \<in> set dead_statuses) (str_fields (to_lower s))"

text \<open>A \<open>nil\<close> location means the process's own, the first argument.\<close>

definition expiry_deadline :: "zone \<Rightarrow> time \<Rightarrow> zone option \<Rightarrow> time" where
  "expiry_deadline local endDate loc = (let z = (case loc of None \<Rightarrow> local | Some z \<Rightarrow> z) in
     add_days z (midnight z (localday z endDate)) 1)"

definition permit_inactive :: "zone \<Rightarrow> permit \<Rightarrow> time \<Rightarrow> zone option \<Rightarrow> bool" where
  "permit_inactive local p now loc =
     (if dead_status (p_Status p) then True
      else if is_zero (p_EndDate p) then False
      else \<not> now < expiry_deadline local (p_EndDate p) loc)"

section \<open>The roster cycle\<close>

definition max_cycle_weeks :: int where "max_cycle_weeks = 4"

definition next_cycle_weeks :: "int \<Rightarrow> int \<times> bool" where
  "next_cycle_weeks weeks = (if weeks < 2 then (2, True)
     else if weeks < max_cycle_weeks then (max_cycle_weeks, True) else (weeks, False))"

definition prev_cycle_weeks :: "int \<Rightarrow> int \<times> bool" where
  "prev_cycle_weeks weeks = (if weeks > 2 then (2, True)
     else if weeks = 2 then (1, True) else (weeks, False))"

text \<open>The week's Sunday at noon.\<close>

definition sunday_noon :: "zone \<Rightarrow> time \<Rightarrow> time" where
  "sunday_noon z t = add_days z (noon z (localday z t)) (- weekday z t)"

definition week_at :: "zone \<Rightarrow> cycle \<Rightarrow> time \<Rightarrow> int" where
  "week_at z c now =
     (if c_Weeks c \<le> 1 \<or> c_Anchor c = [] then 0
      else case parse_date (c_Anchor c) of
        None \<Rightarrow> 0
      | Some d \<Rightarrow>
          (let a = midnight z d;
               days = round_days (tsub (sunday_noon z now) (sunday_noon z a));
               w = (days sdiv 7) smod c_Weeks c
           in if w < 0 then w + c_Weeks c else w))"

definition reanchored_cycle :: "zone \<Rightarrow> time \<Rightarrow> cycle \<Rightarrow> int \<Rightarrow> cycle" where
  "reanchored_cycle z now old newWeeks =
     (if newWeeks \<le> 1 then \<lparr>c_Weeks = 1, c_Anchor = []\<rparr>
      else (let idx = week_at z old now smod newWeeks;
                sun = add_days z (noon z (localday z now)) (- weekday z now - 7 * idx)
            in \<lparr>c_Weeks = newWeeks, c_Anchor = fmt_date (localday z sun)\<rparr>))"

section \<open>Resolution\<close>

definition override_active :: "time \<Rightarrow> override \<Rightarrow> bool" where
  "override_active now ov \<longleftrightarrow>
     \<not> now < o_StartsAt ov \<and> (case o_EndsAt ov of None \<Rightarrow> True | Some e \<Rightarrow> now < e)"

definition fresher :: "override \<Rightarrow> override \<Rightarrow> bool" where
  "fresher = later o_CreatedAt o_ID"

definition winning_override :: "time \<Rightarrow> override list \<Rightarrow> override option" where
  "winning_override now ovs = best fresher (filter (override_active now) ovs)"

definition rule_applies :: "int \<Rightarrow> int \<Rightarrow> weekly_rule \<Rightarrow> bool" where
  "rule_applies wk wd r \<longleftrightarrow> r_Week r = wk \<and> r_Weekday r = wd"

definition higher_rule :: "weekly_rule \<Rightarrow> weekly_rule \<Rightarrow> bool" where
  "higher_rule x y \<longleftrightarrow> r_ID y < r_ID x"

definition winning_rule :: "int \<Rightarrow> int \<Rightarrow> weekly_rule list \<Rightarrow> weekly_rule option" where
  "winning_rule wk wd rules = best higher_rule (filter (rule_applies wk wd) rules)"

definition no_resolution :: resolution where
  "no_resolution = \<lparr>s_VehicleID = 0, s_Registration = [], s_State = [], s_Source = SourceNone,
     s_By = [], s_Empty = False, s_Since = zero_time, s_Scheduled = False, s_Until = None\<rparr>"

definition override_resolution :: "override \<Rightarrow> resolution" where
  "override_resolution b =
     (let (since, scheduled) = (if o_CreatedAt b < o_StartsAt b then (o_StartsAt b, True)
                                else (o_CreatedAt b, False))
      in \<lparr>s_VehicleID = o_VehicleID b, s_Registration = o_Registration b, s_State = o_State b,
          s_Source = SourceOverride, s_By = o_CreatedBy b, s_Empty = o_Empty b,
          s_Since = since, s_Scheduled = scheduled, s_Until = o_EndsAt b\<rparr>)"

definition start_of_day :: "zone \<Rightarrow> time \<Rightarrow> time" where
  "start_of_day z t = midnight z (localday z t)"

definition resolve :: "zone \<Rightarrow> time \<Rightarrow> cycle \<Rightarrow> weekly_rule list \<Rightarrow> override list \<Rightarrow> resolution" where
  "resolve z now c rules overrides =
     (case winning_override now overrides of
        Some b \<Rightarrow> override_resolution b
      | None \<Rightarrow>
          (case winning_rule (week_at z c now) (weekday z now) rules of
             Some r \<Rightarrow> no_resolution\<lparr>s_VehicleID := r_VehicleID r, s_Empty := r_Empty r,
                 s_Source := SourceRoster, s_Since := midnight z (localday z now), s_Scheduled := True\<rparr>
           | None \<Rightarrow> no_resolution))"

definition same_target :: "resolution \<Rightarrow> resolution \<Rightarrow> bool" where
  "same_target r o' =
     (if s_Empty r \<or> s_Empty o' then s_Empty r = s_Empty o'
      else s_VehicleID r = s_VehicleID o' \<and> same_plate (s_Registration r) (s_Registration o'))"

section \<open>The next change\<close>

text \<open>
  The loop over local midnights advances by \<open>AddDate(0, 0, 1)\<close>; \<open>None\<close> would be a loop that
  never passes \<open>end\<close>.
\<close>

partial_function (option) midnights_until :: "zone \<Rightarrow> time \<Rightarrow> time \<Rightarrow> time list \<Rightarrow> time list option" where
  "midnights_until z d end acc =
     (if end < d then Some acc else midnights_until z (add_days z d 1) end (acc @ [d]))"

definition override_bounds :: "time \<Rightarrow> time \<Rightarrow> override \<Rightarrow> time list" where
  "override_bounds now end ov =
     (if now < o_StartsAt ov \<and> \<not> end < o_StartsAt ov then [o_StartsAt ov] else []) @
     (case o_EndsAt ov of None \<Rightarrow> []
      | Some e \<Rightarrow> if now < e \<and> \<not> end < e then [e] else [])"

primrec first_write :: "(time \<Rightarrow> resolution) \<Rightarrow> time list \<Rightarrow> resolution \<Rightarrow> bool \<Rightarrow> time option" where
  "first_write f [] lst haveLast = None"
| "first_write f (t # ts) lst haveLast =
     (let r = f t in
      if s_Source r = SourceNone then first_write f ts lst haveLast
      else if \<not> haveLast \<or> \<not> same_target r lst then Some t
      else first_write f ts r True)"

definition next_change ::
  "zone \<Rightarrow> time \<Rightarrow> dur \<Rightarrow> cycle \<Rightarrow> weekly_rule list \<Rightarrow> override list \<Rightarrow> time option option" where
  "next_change z now horizon c rules overrides =
     (let end = now + horizon in
      case midnights_until z (add_days z (start_of_day z now) 1) end [] of
        None \<Rightarrow> None
      | Some days \<Rightarrow>
          (let cands = sort (days @ concat (map (override_bounds now end) overrides));
               lst = resolve z now c rules overrides
           in Some (first_write (\<lambda>t. resolve z t c rules overrides) cands lst
                      (s_Source lst \<noteq> SourceNone))))"

section \<open>Wording and day ends\<close>

definition month_names :: "string list" where
  "month_names = [''Jan'', ''Feb'', ''Mar'', ''Apr'', ''May'', ''Jun'', ''Jul'', ''Aug'', ''Sep'',
     ''Oct'', ''Nov'', ''Dec'']"

text \<open>\<open>Format("2 Jan")\<close> and \<open>Format("2 Jan 3:04pm")\<close> of a civil time.\<close>

definition fmt_day_month :: "int \<Rightarrow> string" where
  "fmt_day_month n = (case civil_of_days n of (y, m, d) \<Rightarrow>
     show_int d @ '' '' @ month_names ! nat (m - 1))"

definition fmt_clock :: "int \<Rightarrow> string" where
  "fmt_clock l = (let h = l mod day div hour; mi = l mod hour div minute;
      h12 = (if h mod 12 = 0 then 12 else h mod 12)
    in show_int h12 @ '':'' @ fmt2 mi @ (if h < 12 then ''am'' else ''pm''))"

definition end_text :: "zone \<Rightarrow> time \<Rightarrow> zone option \<Rightarrow> string" where
  "end_text local e loc = (let z = (case loc of None \<Rightarrow> local | Some z \<Rightarrow> z); l = lns z e in
     if l mod day div second = 0
     then ''the end of '' @ fmt_day_month (localday z (add_days z e (- 1)))
     else fmt_day_month (localday z e) @ '' '' @ fmt_clock l)"

definition end_of_day :: "time \<Rightarrow> zone \<Rightarrow> time" where
  "end_of_day t z = midnight z (localday z t + 1)"

section \<open>Displaced drivers\<close>

definition mail_addr :: "string \<Rightarrow> string" where
  "mail_addr createdBy = (case find (\<lambda>f. contains_c (CHR ''@'') f) (str_fields createdBy) of
     None \<Rightarrow> [] | Some f \<Rightarrow> f)"

definition is_member :: "string list \<Rightarrow> string \<Rightarrow> bool" where
  "is_member members email \<longleftrightarrow> list_ex (\<lambda>m. equal_fold m email) members"

definition actor_addr :: "string \<Rightarrow> string" where
  "actor_addr actor = (let a = mail_addr actor in if a \<noteq> [] then a else actor)"

definition override_plate :: "(int \<rightharpoonup> vehicle_info) \<Rightarrow> override \<Rightarrow> string" where
  "override_plate vehicles ov = (if o_Registration ov = []
     then vi_Registration (case vehicles (o_VehicleID ov) of None \<Rightarrow> no_vehicle_info | Some v \<Rightarrow> v)
     else o_Registration ov)"

definition nobody_displaced :: displaced_booking where
  "nobody_displaced = \<lparr>d_Reg = [], d_Contact = []\<rparr>"

definition find_displaced ::
  "override list \<Rightarrow> (int \<rightharpoonup> vehicle_info) \<Rightarrow> string \<Rightarrow> string \<Rightarrow> string list \<Rightarrow> time \<Rightarrow> displaced_booking" where
  "find_displaced overrides vehicles prevReg actor0 members now =
     (if prevReg = [] then nobody_displaced
      else let actor = actor_addr actor0 in
      case best fresher (filter (\<lambda>ov. override_active now ov
              \<and> same_plate (override_plate vehicles ov) prevReg) overrides) of
        None \<Rightarrow> nobody_displaced
      | Some b \<Rightarrow>
          (let c0 = mail_addr (o_CreatedBy b);
               fallback = (c0 = [] \<or> is_member members c0);
               memberBooking = (fallback \<and> c0 \<noteq> []);
               contact = (if fallback
                 then (if o_VehicleID b \<noteq> 0
                       then vi_Email (case vehicles (o_VehicleID b) of None \<Rightarrow> no_vehicle_info | Some v \<Rightarrow> v)
                       else [])
                 else c0)
           in if fallback \<and> contact = [] \<and> memberBooking then nobody_displaced
              else if contact \<noteq> [] \<and> (equal_fold contact actor \<or> is_member members contact)
              then nobody_displaced
              else \<lparr>d_Reg = prevReg, d_Contact = contact\<rparr>))"

primrec displaced_vehicle_loop ::
  "(int \<times> vehicle_info) list \<Rightarrow> string \<Rightarrow> string \<Rightarrow> string list \<Rightarrow> displaced_booking" where
  "displaced_vehicle_loop [] prevReg actor members = nobody_displaced"
| "displaced_vehicle_loop (kv # kvs) prevReg actor members = (let v = snd kv in
     if \<not> same_plate (vi_Registration v) prevReg \<or> vi_Email v = []
     then displaced_vehicle_loop kvs prevReg actor members
     else if equal_fold (vi_Email v) actor then nobody_displaced
     else if is_member members (vi_Email v) then nobody_displaced
     else \<lparr>d_Reg = prevReg, d_Contact = vi_Email v\<rparr>)"

definition find_displaced_vehicle ::
  "(int \<times> vehicle_info) list \<Rightarrow> string \<Rightarrow> string \<Rightarrow> string list \<Rightarrow> displaced_booking" where
  "find_displaced_vehicle vehicles prevReg actor members =
     (if prevReg = [] then nobody_displaced
      else displaced_vehicle_loop vehicles prevReg (actor_addr actor) members)"

section \<open>Plate comparison\<close>

lemma plate_skips_upper [simp]: "plate_skips (to_upper_c c) \<longleftrightarrow> plate_skips c"
proof -
  have "to_upper_c c = d \<longleftrightarrow> c = d" if "cp d \<in> {45, 46}" for d
  proof -
    have "up_n (cp c) = cp d \<longleftrightarrow> cp c = cp d" using that unfolding up_n_def by auto
    then show ?thesis by (simp only: cp_to_upper_c [symmetric] cp_inject)
  qed
  from this [of "CHR ''-''"] this [of "CHR ''.''"]
  have "to_upper_c c = CHR ''-'' \<longleftrightarrow> c = CHR ''-''" "to_upper_c c = CHR ''.'' \<longleftrightarrow> c = CHR ''.''"
    by (simp_all add: cp_def)
  moreover have "cp (to_upper_c c) = 183 \<longleftrightarrow> cp c = 183"
    unfolding cp_to_upper_c up_n_def by auto
  ultimately show ?thesis by (simp add: plate_skips_def)
qed

lemma norm_plate_Nil [simp]: "norm_plate [] = []"
  by (simp add: norm_plate_def to_upper_def)

lemma norm_plate_Cons [plate_simps]:
  "norm_plate (c # s) = (if plate_skips c then norm_plate s else to_upper_c c # norm_plate s)"
  by (simp add: norm_plate_def to_upper_def)

lemma norm_plate_idem [plate_simps]: "norm_plate (norm_plate s) = norm_plate s"
  by (induction s) (simp_all add: norm_plate_Cons)

lemma same_plate_refl [simp, plate_simps]: "same_plate a a"
  by (simp add: same_plate_def)

lemma same_plate_sym: "same_plate a b \<Longrightarrow> same_plate b a"
  by (simp add: same_plate_def)

lemma same_plate_trans: "same_plate a b \<Longrightarrow> same_plate b c \<Longrightarrow> same_plate a c"
  by (simp add: same_plate_def)

lemma same_plate_norm [plate_simps]: "same_plate (norm_plate s) s"
  by (simp add: same_plate_def norm_plate_idem)

lemma norm_plate_append [plate_simps]: "norm_plate (a @ b) = norm_plate a @ norm_plate b"
  by (simp add: norm_plate_def to_upper_def)

section \<open>The winning booking and the winning rule\<close>

interpretation fresh: selection fresher
  unfolding fresher_def by (rule selection_later)

interpretation rule_pick: selection higher_rule
  by unfold_locales (auto simp: higher_rule_def)

lemma winning_override_Some:
  assumes "winning_override now ovs = Some b"
  shows "b \<in> set ovs" and "override_active now b"
    and "ov \<in> set ovs \<Longrightarrow> override_active now ov \<Longrightarrow>
           o_CreatedAt ov < o_CreatedAt b \<or> (o_CreatedAt ov = o_CreatedAt b \<and> o_ID ov \<le> o_ID b)"
proof -
  have best: "best fresher (filter (override_active now) ovs) = Some b"
    using assms by (simp add: winning_override_def)
  from best_in [OF best] show "b \<in> set ovs" and "override_active now b" by auto
  show "o_CreatedAt ov < o_CreatedAt b \<or> (o_CreatedAt ov = o_CreatedAt b \<and> o_ID ov \<le> o_ID b)"
    if "ov \<in> set ovs" "override_active now ov"
    using fresh.best_max [OF best, of ov] that by (auto simp: fresher_def later_def)
qed

lemma winning_override_None:
  "winning_override now ovs = None \<longleftrightarrow> (\<forall>ov \<in> set ovs. \<not> override_active now ov)"
  by (simp add: winning_override_def filter_empty_conv best_None_iff)

lemma winning_rule_Some:
  assumes "winning_rule wk wd rules = Some r"
  shows "r \<in> set rules" and "rule_applies wk wd r"
    and "x \<in> set rules \<Longrightarrow> rule_applies wk wd x \<Longrightarrow> r_ID x \<le> r_ID r"
proof -
  have best: "best higher_rule (filter (rule_applies wk wd) rules) = Some r"
    using assms by (simp add: winning_rule_def)
  from best_in [OF best] show "r \<in> set rules" and "rule_applies wk wd r" by auto
  show "r_ID x \<le> r_ID r" if "x \<in> set rules" "rule_applies wk wd x"
    using rule_pick.best_max [OF best, of x] that by (auto simp: higher_rule_def)
qed

lemma winning_rule_None:
  "winning_rule wk wd rules = None \<longleftrightarrow> (\<forall>r \<in> set rules. \<not> rule_applies wk wd r)"
  by (simp add: winning_rule_def filter_empty_conv best_None_iff)

lemma winning_override_cong:
  assumes "\<And>ov. ov \<in> set ovs \<Longrightarrow> override_active t ov \<longleftrightarrow> override_active u ov"
  shows "winning_override t ovs = winning_override u ovs"
  unfolding winning_override_def using assms by (simp cong: filter_cong)

lemma s_Source_override [simp]: "s_Source (override_resolution b) = SourceOverride"
  by (simp add: override_resolution_def split: prod.splits)

lemma s_Source_none [simp]: "s_Source no_resolution = SourceNone"
  by (simp add: no_resolution_def)

lemma resolve_source:
  "s_Source (resolve z now c rules ovs) =
     (if \<exists>ov \<in> set ovs. override_active now ov then SourceOverride
      else if \<exists>r \<in> set rules. rule_applies (week_at z c now) (weekday z now) r then SourceRoster
      else SourceNone)"
proof (cases "winning_override now ovs")
  case (Some b)
  then show ?thesis using winning_override_Some [OF Some] by (auto simp: resolve_def)
next
  case None
  then have ov: "\<forall>ov \<in> set ovs. \<not> override_active now ov" by (simp only: winning_override_None)
  show ?thesis
  proof (cases "winning_rule (week_at z c now) (weekday z now) rules")
    case (Some r)
    with None show ?thesis using ov winning_rule_Some [OF Some] by (auto simp: resolve_def)
  next
    case rule: None
    then have "\<forall>r \<in> set rules. \<not> rule_applies (week_at z c now) (weekday z now) r"
      by (simp only: winning_rule_None)
    with None rule show ?thesis using ov by (auto simp: resolve_def)
  qed
qed

section \<open>Targets\<close>

lemma same_target_refl [simp]: "same_target r r"
  by (simp add: same_target_def)

lemma same_target_sym: "same_target r s \<Longrightarrow> same_target s r"
  by (auto simp: same_target_def same_plate_def split: if_splits)

lemma same_target_trans: "same_target a b \<Longrightarrow> same_target b c \<Longrightarrow> same_target a c"
  by (auto simp: same_target_def same_plate_def split: if_splits)

section \<open>The cycle week\<close>

text \<open>Weeks numbered from the Sunday before the epoch, by civil days alone.\<close>

definition week_no :: "int \<Rightarrow> int" where "week_no d = (d + 4) div 7"

definition week_ref :: "int \<Rightarrow> int \<Rightarrow> int \<Rightarrow> int" where
  "week_ref weeks anchor d = (week_no d - week_no anchor) mod weeks"

lemma smod_wrap:
  fixes x n :: int
  assumes "0 < n"
  shows "(if x smod n < 0 then x smod n + n else x smod n) = x mod n"
proof (cases "0 \<le> x")
  case True
  moreover have "\<not> x mod n < 0" using assms by (simp add: not_less)
  ultimately show ?thesis using assms by (auto simp: signed_modulo_int_def sgn_if)
next
  case False
  define m where "m = (- x) mod n"
  have "x mod n = (if m = 0 then 0 else n - m)"
    using assms zmod_zminus1_eq_if [of "- x" n] by (simp add: m_def)
  moreover have "x smod n = - m"
    using False assms by (simp add: signed_modulo_int_def sgn_if m_def)
  moreover have "0 \<le> m" using assms by (simp add: m_def)
  ultimately show ?thesis by auto
qed

lemma sunday_noon_eq:
  assumes "civil_zone z"
  shows "sunday_noon z t = noon z (7 * week_no (localday z t) - 4)"
proof -
  have "localday z t + 4 = 7 * week_no (localday z t) + weekday z t"
    by (simp add: week_no_def weekday_def)
  then have "localday z t + - weekday z t = 7 * week_no (localday z t) - 4" by simp
  then show ?thesis using assms by (simp only: sunday_noon_def add_days_noon)
qed

lemma noon_diff:
  assumes "civil_zone z" and "\<bar>d - e\<bar> \<le> 100010"
  shows "\<bar>tsub (noon z d) (noon z e) - (d - e) * day\<bar> \<le> 2 * hour"
proof -
  have n: "noon z i = i * day + 12 * hour - zoff z (noon z i)" for i
    using assms(1) by (simp add: civil_zone_def lns_def algebra_simps)
  have o: "\<bar>zoff z (noon z e) - zoff z (noon z d)\<bar> \<le> 2 * hour"
    using assms(1) by (simp add: civil_zone_def)
  define D where "D = noon z d - noon z e"
  have D: "\<bar>D - (d - e) * day\<bar> \<le> 2 * hour"
    using o unfolding D_def by (subst (1 2) n) (simp add: algebra_simps)
  have "\<bar>(d - e) * day\<bar> \<le> 100010 * day"
    using assms(2) by (simp add: abs_mult time_simps)
  with D have "min_dur \<le> D" "D \<le> max_dur"
    by (simp_all add: min_dur_def max_dur_def time_simps)
  then have "tsub (noon z d) (noon z e) = D" unfolding D_def by (rule tsub_exact)
  with D show ?thesis by simp
qed

lemma week_at_ref:
  assumes "civil_zone z" and "1 < c_Weeks c" and "parse_date (c_Anchor c) = Some a"
    and "\<bar>localday z now - a\<bar> \<le> 100000"
  shows "week_at z c now = week_ref (c_Weeks c) a (localday z now)"
proof -
  define k where "k = week_no (localday z now) - week_no a"
  have "c_Anchor c \<noteq> []" using assms(3) by (auto simp: parse_date_def)
  have near: "\<bar>7 * k\<bar> \<le> 100010"
  proof -
    have "7 * week_no i \<le> i + 4" and "i + 4 < 7 * week_no i + 7" for i
      unfolding week_no_def by linarith+
    from this [of a] this [of "localday z now"] assms(4)
    show ?thesis unfolding k_def abs_le_iff by simp
  qed
  have sub: "tsub (sunday_noon z now) (sunday_noon z (midnight z a))
      = tsub (noon z (7 * week_no (localday z now) - 4)) (noon z (7 * week_no a - 4))"
    using assms(1) by (simp add: sunday_noon_eq)
  have "round_days (tsub (sunday_noon z now) (sunday_noon z (midnight z a))) = 7 * k"
    unfolding sub
  proof (rule round_days_near)
    show "\<bar>tsub (noon z (7 * week_no (localday z now) - 4)) (noon z (7 * week_no a - 4)) - 7 * k * day\<bar>
        \<le> 2 * hour"
      using noon_diff [OF assms(1), of "7 * week_no (localday z now) - 4" "7 * week_no a - 4"] near
      by (simp add: k_def algebra_simps)
    show "\<bar>7 * k\<bar> < 2 ^ 40" using near by simp
  qed
  moreover have "7 * k sdiv 7 = k" by (auto simp: signed_divide_int_def sgn_if)
  ultimately have "week_at z c now =
      (if k smod c_Weeks c < 0 then k smod c_Weeks c + c_Weeks c else k smod c_Weeks c)"
    using assms(2,3) \<open>c_Anchor c \<noteq> []\<close> by (simp add: week_at_def Let_def)
  then show ?thesis using assms(2) smod_wrap [of "c_Weeks c" k] by (simp add: week_ref_def k_def)
qed

lemma week_at_range: "0 \<le> week_at z c now \<and> week_at z c now < max 1 (c_Weeks c)"
proof (cases "c_Weeks c \<le> 1 \<or> c_Anchor c = [] \<or> parse_date (c_Anchor c) = None")
  case True
  then show ?thesis by (auto simp: week_at_def split: option.split)
next
  case False
  then obtain a where a: "parse_date (c_Anchor c) = Some a" by auto
  define x where "x = round_days (tsub (sunday_noon z now) (sunday_noon z (midnight z a))) sdiv 7"
  have "week_at z c now = (if x smod c_Weeks c < 0 then x smod c_Weeks c + c_Weeks c else x smod c_Weeks c)"
    using False a by (simp add: week_at_def Let_def x_def [symmetric])
  also have "\<dots> = x mod c_Weeks c" by (rule smod_wrap) (use False in simp)
  finally show ?thesis using False by simp
qed

lemma week_at_day_cong: "localday z t = localday z u \<Longrightarrow> week_at z c t = week_at z c u"
  by (simp add: week_at_def sunday_noon_def weekday_def cong: option.case_cong)

lemma reanchored_week:
  assumes "civil_zone z" and "1 < n" and "n \<le> 10000"
    and "0 \<le> localday z now" and "localday z now \<le> 2900000"
  shows "week_at z (reanchored_cycle z now old n) now = week_at z old now mod n"
proof -
  define idx where "idx = week_at z old now mod n"
  define d where "d = localday z now - weekday z now - 7 * idx"
  have w: "0 \<le> week_at z old now" using week_at_range by blast
  then have idx: "week_at z old now smod n = idx" "0 \<le> idx" "idx < n"
    using assms(2) by (simp_all add: idx_def signed_modulo_int_def sgn_if)
  have wd: "0 \<le> weekday z now" "weekday z now < 7" using weekday_range by blast+
  have day: "localday z (add_days z (noon z (localday z now)) (- weekday z now - 7 * idx)) = d"
    using assms(1) by (simp add: add_days_noon d_def)
  have cyc: "reanchored_cycle z now old n = \<lparr>c_Weeks = n, c_Anchor = fmt_date d\<rparr>"
    using assms(2) by (simp add: reanchored_cycle_def Let_def idx day)
  have parse: "parse_date (fmt_date d) = Some d"
    by (rule parse_fmt_date) (use assms idx wd in \<open>simp_all add: d_def first_day_def last_day_def\<close>)
  have "week_at z (reanchored_cycle z now old n) now = week_ref n d (localday z now)"
    unfolding cyc using week_at_ref [OF assms(1), of "\<lparr>c_Weeks = n, c_Anchor = fmt_date d\<rparr>" d now]
      parse assms idx wd by (simp add: d_def)
  also have "week_no d = week_no (localday z now) - idx"
  proof -
    have "localday z now + 4 = 7 * week_no (localday z now) + weekday z now"
      by (simp add: week_no_def weekday_def)
    then have "d + 4 = 7 * (week_no (localday z now) - idx)" by (simp add: d_def)
    then show ?thesis by (simp add: week_no_def)
  qed
  then have "week_ref n d (localday z now) = idx"
    using idx by (simp add: week_ref_def)
  finally show ?thesis by (simp add: idx_def)
qed

section \<open>The schedule between its boundaries\<close>

lemma override_active_between:
  assumes "t \<le> u" and "\<not> (t < o_StartsAt ov \<and> o_StartsAt ov \<le> u)"
    and "\<And>e. o_EndsAt ov = Some e \<Longrightarrow> \<not> (t < e \<and> e \<le> u)"
  shows "override_active t ov \<longleftrightarrow> override_active u ov"
  using assms by (auto simp: override_active_def split: option.splits)

definition boundary :: "zone \<Rightarrow> override list \<Rightarrow> time \<Rightarrow> bool" where
  "boundary z ovs t \<longleftrightarrow> (\<exists>d. t = midnight z d) \<or>
     (\<exists>ov \<in> set ovs. t = o_StartsAt ov \<or> o_EndsAt ov = Some t)"

lemma resolve_between:
  assumes "civil_zone z" and "t \<le> u" and "\<And>b. boundary z ovs b \<Longrightarrow> \<not> (t < b \<and> b \<le> u)"
  shows "resolve z t c rules ovs = resolve z u c rules ovs"
proof -
  have day: "localday z t = localday z u"
  proof (rule ccontr)
    assume "localday z t \<noteq> localday z u"
    then have "localday z t < localday z u" using localday_mono [OF assms(1,2)] by simp
    then have "t < midnight z (localday z u)"
      using localday_ge_iff [OF assms(1), of "localday z u" t] by simp
    moreover have "midnight z (localday z u) \<le> u"
      using localday_ge_iff [OF assms(1), of "localday z u" u] by simp
    moreover have "boundary z ovs (midnight z (localday z u))" by (auto simp: boundary_def)
    ultimately show False using assms(3) by blast
  qed
  have "winning_override t ovs = winning_override u ovs"
  proof (rule winning_override_cong)
    fix ov assume "ov \<in> set ovs"
    then have "boundary z ovs (o_StartsAt ov)" and "\<And>e. o_EndsAt ov = Some e \<Longrightarrow> boundary z ovs e"
      by (auto simp: boundary_def)
    then show "override_active t ov \<longleftrightarrow> override_active u ov"
      using override_active_between [OF assms(2)] assms(3) by blast
  qed
  then show ?thesis
    unfolding resolve_def weekday_def day week_at_day_cong [OF day] by (simp only:)
qed

lemma resolve_at_candidate:
  assumes "civil_zone z" and "now \<le> u"
    and "\<And>b. now < b \<Longrightarrow> b \<le> u \<Longrightarrow> boundary z ovs b \<Longrightarrow> b \<in> C" and "finite C"
  shows "\<exists>b. (b = now \<or> b \<in> C) \<and> b \<le> u \<and> resolve z b c rules ovs = resolve z u c rules ovs"
proof -
  define B where "B = insert now {b \<in> C. b \<le> u}"
  have fin: "finite B" using assms(4) by (simp add: B_def)
  define m where "m = Max B"
  have m: "m \<in> B" unfolding m_def by (rule Max_in) (use fin B_def in auto)
  then have le: "m \<le> u" using assms(2) by (auto simp: B_def)
  have ge: "b \<le> m" if "b \<in> B" for b unfolding m_def by (rule Max_ge [OF fin that])
  have "resolve z m c rules ovs = resolve z u c rules ovs"
  proof (rule resolve_between [OF assms(1) le])
    fix b assume b: "boundary z ovs b"
    show "\<not> (m < b \<and> b \<le> u)"
    proof
      assume mb: "m < b \<and> b \<le> u"
      have "now \<le> m" by (rule ge) (simp add: B_def)
      with mb b assms(3) have "b \<in> C" by simp
      with mb ge [of b] show False by (simp add: B_def)
    qed
  qed
  with m le show ?thesis by (auto simp: B_def)
qed

section \<open>The next change is the first write\<close>

definition is_write :: "resolution \<Rightarrow> resolution \<Rightarrow> bool" where
  "is_write r0 r \<longleftrightarrow> s_Source r \<noteq> SourceNone \<and> (s_Source r0 = SourceNone \<or> \<not> same_target r r0)"

lemma first_write_spec:
  assumes "haveLast \<longleftrightarrow> s_Source r0 \<noteq> SourceNone" and "haveLast \<Longrightarrow> same_target lst r0"
  shows "first_write f ts lst haveLast = find (\<lambda>t. is_write r0 (f t)) ts"
  using assms
proof (induction ts arbitrary: lst)
  case (Cons t ts)
  consider "s_Source (f t) = SourceNone"
    | "s_Source (f t) \<noteq> SourceNone" "haveLast" "same_target (f t) lst"
    | "s_Source (f t) \<noteq> SourceNone" "\<not> haveLast \<or> \<not> same_target (f t) lst" by blast
  then show ?case
  proof cases
    case 1
    then show ?thesis using Cons.IH [OF Cons.prems] by (simp add: is_write_def Let_def)
  next
    case 2
    then have t: "same_target (f t) r0" using Cons.prems same_target_trans by blast
    have "haveLast = True" using 2 by simp
    then show ?thesis using 2 t Cons.IH [OF Cons.prems(1), of "f t"] Cons.prems(1)
      by (simp add: is_write_def Let_def)
  next
    case 3
    then have "is_write r0 (f t)"
      using Cons.prems same_target_trans same_target_sym unfolding is_write_def by blast
    with 3 show ?thesis by (simp add: Let_def)
  qed
qed simp

lemma midnights_until_Some:
  assumes "civil_zone z"
  shows "\<exists>ds. midnights_until z (midnight z d) end acc = Some (acc @ ds) \<and>
    set ds = {midnight z e | e. d \<le> e \<and> midnight z e \<le> end}"
proof (induction "nat (localday z end + 1 - d)" arbitrary: d acc rule: less_induct)
  case less
  have iff: "midnight z e \<le> end \<longleftrightarrow> e \<le> localday z end" for e
    using localday_ge_iff [OF assms] by simp
  show ?case
  proof (cases "d \<le> localday z end")
    case False
    then have "end < midnight z d" using iff [of d] by simp
    moreover have "{midnight z e | e. d \<le> e \<and> midnight z e \<le> end} = {}"
      using False by (auto simp: iff)
    ultimately show ?thesis by (auto simp: midnights_until.simps)
  next
    case True
    then have step: "midnights_until z (midnight z d) end acc
        = midnights_until z (midnight z (d + 1)) end (acc @ [midnight z d])"
      using iff [of d] by (simp add: midnights_until.simps [of z "midnight z d"] add_days_midnight [OF assms])
    from less [of "d + 1" "acc @ [midnight z d]"] True obtain ds where
      ds: "midnights_until z (midnight z (d + 1)) end (acc @ [midnight z d]) = Some (acc @ midnight z d # ds)"
      "set ds = {midnight z e | e. d + 1 \<le> e \<and> midnight z e \<le> end}" by auto
    have "set (midnight z d # ds) = {midnight z e | e. d \<le> e \<and> midnight z e \<le> end}"
      using ds(2) True by (auto simp: iff) (metis add1_zle_eq order_le_less)
    with ds(1) step show ?thesis by auto
  qed
qed

lemma next_change_candidates:
  assumes "civil_zone z"
  shows "\<exists>cands. next_change z now h c rules ovs
      = Some (first_write (\<lambda>t. resolve z t c rules ovs) cands (resolve z now c rules ovs)
          (s_Source (resolve z now c rules ovs) \<noteq> SourceNone))
    \<and> sorted cands \<and> set cands = {b. now < b \<and> b \<le> now + h \<and> boundary z ovs b}"
proof -
  let ?D = "localday z now + 1"
  obtain ds where ds: "midnights_until z (midnight z ?D) (now + h) [] = Some ds"
    "set ds = {midnight z e | e. ?D \<le> e \<and> midnight z e \<le> now + h}"
    using midnights_until_Some [OF assms, of ?D "now + h" "[]"] by auto
  have late: "?D \<le> e \<longleftrightarrow> now < midnight z e" for e
    using localday_ge_iff [OF assms, of e now] by linarith
  have start: "add_days z (start_of_day z now) 1 = midnight z ?D"
    by (simp add: start_of_day_def add_days_midnight [OF assms])
  let ?c = "sort (ds @ concat (map (override_bounds now (now + h)) ovs))"
  have "set ?c = {b. now < b \<and> b \<le> now + h \<and> boundary z ovs b}"
    by (auto simp: ds(2) late boundary_def override_bounds_def split: option.splits if_splits)
  moreover have "sorted ?c" by simp
  moreover have "next_change z now h c rules ovs
      = Some (first_write (\<lambda>t. resolve z t c rules ovs) ?c (resolve z now c rules ovs)
          (s_Source (resolve z now c rules ovs) \<noteq> SourceNone))"
    by (simp add: next_change_def start ds(1) Let_def)
  ultimately show ?thesis by blast
qed

section \<open>Properties\<close>

text \<open>C1: Among the bookings whose window contains the instant, the one created last decides
  the permit (the higher id where two were created in the same second), whatever the roster
  says. Without such a booking the rule of the cycle's week and the weekday decides, the one
  with the highest id if there are several; without a rule nothing is allocated.\<close>

theorem freshest_booking_decides:
  "(\<exists>b \<in> set ovs. override_active now b \<and> resolve z now c rules ovs = override_resolution b \<and>
      (\<forall>x \<in> set ovs. override_active now x \<longrightarrow>
         o_CreatedAt x < o_CreatedAt b \<or> (o_CreatedAt x = o_CreatedAt b \<and> o_ID x \<le> o_ID b)))
   \<or> (\<forall>x \<in> set ovs. \<not> override_active now x) \<and>
     ((\<exists>r \<in> set rules. rule_applies (week_at z c now) (weekday z now) r \<and>
         resolve z now c rules ovs = no_resolution\<lparr>s_VehicleID := r_VehicleID r, s_Empty := r_Empty r,
           s_Source := SourceRoster, s_Since := midnight z (localday z now), s_Scheduled := True\<rparr> \<and>
         (\<forall>x \<in> set rules. rule_applies (week_at z c now) (weekday z now) x \<longrightarrow> r_ID x \<le> r_ID r))
      \<or> (\<forall>r \<in> set rules. \<not> rule_applies (week_at z c now) (weekday z now) r) \<and>
          resolve z now c rules ovs = no_resolution)"
proof (cases "winning_override now ovs")
  case (Some b)
  then have "resolve z now c rules ovs = override_resolution b" by (simp add: resolve_def)
  with winning_override_Some [OF Some] show ?thesis by blast
next
  case none: None
  then have idle: "\<forall>x \<in> set ovs. \<not> override_active now x" by (simp only: winning_override_None)
  show ?thesis
  proof (cases "winning_rule (week_at z c now) (weekday z now) rules")
    case (Some r)
    have "resolve z now c rules ovs = no_resolution\<lparr>s_VehicleID := r_VehicleID r, s_Empty := r_Empty r,
        s_Source := SourceRoster, s_Since := midnight z (localday z now), s_Scheduled := True\<rparr>"
      by (simp add: resolve_def none Some)
    with idle winning_rule_Some [OF Some] show ?thesis by blast
  next
    case None
    then have "resolve z now c rules ovs = no_resolution" by (simp add: resolve_def none)
    with idle None show ?thesis unfolding winning_rule_None by blast
  qed
qed

definition w_override :: "int \<Rightarrow> string \<Rightarrow> time \<Rightarrow> time option \<Rightarrow> time \<Rightarrow> override" where
  "w_override i reg s e cr = \<lparr>o_ID = i, o_PermitID = 1, o_VehicleID = 0, o_Registration = reg,
     o_State = [], o_StartsAt = s, o_EndsAt = e, o_CreatedBy = ''pa@example.com'', o_CreatedAt = cr,
     o_GuestTokenID = 0, o_Empty = False\<rparr>"

definition w_rule :: "int \<Rightarrow> int \<Rightarrow> int \<Rightarrow> int \<Rightarrow> weekly_rule" where
  "w_rule i wk wd v = \<lparr>r_ID = i, r_PermitID = 1, r_Week = wk, r_Weekday = wd, r_VehicleID = v, r_Empty = False\<rparr>"

lemma freshest_booking_decides_witness:
  "resolve melbourne 10 \<lparr>c_Weeks = 1, c_Anchor = []\<rparr> [w_rule 1 0 4 7]
     [w_override 1 ''AAA111'' 0 None 5, w_override 2 ''BBB222'' 0 (Some 100) 7]
     = override_resolution (w_override 2 ''BBB222'' 0 (Some 100) 7)
   \<and> s_VehicleID (resolve melbourne 10 \<lparr>c_Weeks = 1, c_Anchor = []\<rparr> [w_rule 1 0 4 7, w_rule 2 0 4 9] []) = 9
   \<and> resolve melbourne 10 \<lparr>c_Weeks = 1, c_Anchor = []\<rparr> [w_rule 1 0 3 7] [] = no_resolution"
proof -
  have [simp]: "week_at melbourne \<lparr>c_Weeks = 1, c_Anchor = []\<rparr> 10 = 0" "weekday melbourne 10 = 4" by code_simp+
  show ?thesis
    using freshest_booking_decides [of "[w_override 1 ''AAA111'' 0 None 5, w_override 2 ''BBB222'' 0 (Some 100) 7]" 10
        melbourne "\<lparr>c_Weeks = 1, c_Anchor = []\<rparr>" "[w_rule 1 0 4 7]"]
      freshest_booking_decides [of "[]" 10 melbourne "\<lparr>c_Weeks = 1, c_Anchor = []\<rparr>" "[w_rule 1 0 4 7, w_rule 2 0 4 9]"]
      freshest_booking_decides [of "[]" 10 melbourne "\<lparr>c_Weeks = 1, c_Anchor = []\<rparr>" "[w_rule 1 0 3 7]"]
    by (auto simp: w_override_def w_rule_def override_active_def rule_applies_def)
qed

text \<open>The resolution does not depend on the order in which bookings and rules are listed,
  provided their ids are distinct.\<close>

theorem resolve_order_irrelevant:
  assumes "set ovs = set ovs'" and "set rules = set rules'"
    and "inj_on o_ID (set ovs)" and "inj_on r_ID (set rules)"
  shows "resolve z now c rules ovs = resolve z now c rules' ovs'"
proof -
  have "fresher x y \<or> fresher y x" if "x \<in> set ovs" "y \<in> set ovs" "x \<noteq> y" for x y
  proof -
    have "o_ID x \<noteq> o_ID y" using assms(3) that by (auto dest: inj_onD)
    then show ?thesis by (auto simp: fresher_def later_def)
  qed
  then have "winning_override now ovs = winning_override now ovs'"
    unfolding winning_override_def
    by (intro fresh.best_order_irrelevant) (use assms(1) in auto)
  moreover have "higher_rule x y \<or> higher_rule y x" if "x \<in> set rules" "y \<in> set rules" "x \<noteq> y" for x y
  proof -
    have "r_ID x \<noteq> r_ID y" using assms(4) that by (auto dest: inj_onD)
    then show ?thesis by (auto simp: higher_rule_def)
  qed
  then have "winning_rule wk wd rules = winning_rule wk wd rules'" for wk wd
    unfolding winning_rule_def
    by (intro rule_pick.best_order_irrelevant) (use assms(2) in auto)
  ultimately show ?thesis by (simp only: resolve_def)
qed

lemma resolve_order_irrelevant_witness:
  "resolve melbourne 10 \<lparr>c_Weeks = 1, c_Anchor = []\<rparr> [w_rule 1 0 4 7, w_rule 2 0 4 8] []
     = resolve melbourne 10 \<lparr>c_Weeks = 1, c_Anchor = []\<rparr> [w_rule 2 0 4 8, w_rule 1 0 4 7] []"
  by (rule resolve_order_irrelevant) (auto simp: w_rule_def)

text \<open>The cycle week computed from rounded noon-to-noon hours is the calendar week count
  modulo the cycle length, across daylight-saving changes, for anchors within 100000 days.\<close>

theorem week_at_counts_calendar_weeks:
  assumes "civil_zone z" and "1 < c_Weeks c" and "parse_date (c_Anchor c) = Some a"
    and "\<bar>localday z now - a\<bar> \<le> 100000"
  shows "week_at z c now = (week_no (localday z now) - week_no a) mod c_Weeks c"
  using week_at_ref [OF assms] by (simp add: week_ref_def)

lemma week_at_counts_calendar_weeks_witness:
  "week_at melbourne \<lparr>c_Weeks = 2, c_Anchor = fmt_date 20547\<rparr> 1775400000000000000
     = (week_no (localday melbourne 1775400000000000000) - week_no 20547) mod 2"
  by (subst week_at_counts_calendar_weeks [where a = 20547])
    (simp_all add: civil_melbourne parse_fmt_date first_day_def last_day_def localday_def lns_def
      zoff_melbourne time_simps)

text \<open>Changing the length of a roster keeps the current week's place: after re-anchoring to
  \<open>n\<close> weeks, today falls in the old week index modulo \<open>n\<close>, so growing the cycle preserves
  the index.\<close>

theorem reanchoring_keeps_the_week:
  assumes "civil_zone z" and "1 < n" and "n \<le> 10000"
    and "0 \<le> localday z now" and "localday z now \<le> 2900000"
  shows "week_at z (reanchored_cycle z now old n) now = week_at z old now mod n
    \<and> (c_Weeks old \<le> n \<longrightarrow> week_at z (reanchored_cycle z now old n) now = week_at z old now)"
proof -
  have "week_at z old now < n" if "c_Weeks old \<le> n"
    using week_at_range [of z old now] that assms(2) by linarith
  then show ?thesis
    using reanchored_week [OF assms, of old] week_at_range [of z old now] by simp
qed

lemma reanchoring_keeps_the_week_witness:
  "week_at melbourne (reanchored_cycle melbourne 1775400000000000000
      \<lparr>c_Weeks = 2, c_Anchor = fmt_date 20540\<rparr> 4) 1775400000000000000
    = week_at melbourne \<lparr>c_Weeks = 2, c_Anchor = fmt_date 20540\<rparr> 1775400000000000000 mod 4"
  using reanchoring_keeps_the_week [of melbourne 4 1775400000000000000 "\<lparr>c_Weeks = 2, c_Anchor = fmt_date 20540\<rparr>"]
  by (simp add: civil_melbourne localday_def lns_def zoff_melbourne time_simps)

text \<open>C13: \<open>NextChange\<close> returns, and its answer is exactly the first instant in the horizon at
  which the schedule wants a plate (or a clear) that differs from the one in place: no instant
  before it is such a write, and where it answers \<open>nil\<close> there is none in the whole horizon.\<close>

theorem next_change_is_first_write:
  assumes "civil_zone z"
  shows "\<exists>r. next_change z now h c rules ovs = Some r \<and>
    (case r of
       None \<Rightarrow> \<forall>u. now < u \<and> u \<le> now + h \<longrightarrow>
         \<not> is_write (resolve z now c rules ovs) (resolve z u c rules ovs)
     | Some t \<Rightarrow> now < t \<and> t \<le> now + h
         \<and> is_write (resolve z now c rules ovs) (resolve z t c rules ovs)
         \<and> (\<forall>u. now < u \<and> u < t \<longrightarrow>
              \<not> is_write (resolve z now c rules ovs) (resolve z u c rules ovs)))"
proof -
  let ?f = "\<lambda>t. resolve z t c rules ovs"
  obtain cands where nc: "next_change z now h c rules ovs
      = Some (first_write ?f cands (?f now) (s_Source (?f now) \<noteq> SourceNone))"
    and sorted: "sorted cands" and set: "set cands = {b. now < b \<and> b \<le> now + h \<and> boundary z ovs b}"
    using next_change_candidates [OF assms] by blast
  have self: "\<not> is_write (?f now) (?f now)" by (simp add: is_write_def)
  have at: "\<exists>b. (b = now \<or> b \<in> set cands) \<and> b \<le> u \<and> ?f b = ?f u" if u: "now < u" "u \<le> now + h" for u
  proof -
    have "b \<in> set cands" if "now < b" "b \<le> u" "boundary z ovs b" for b
      unfolding set using that u by simp
    from resolve_at_candidate [OF assms less_imp_le [OF u(1)] this finite_set] show ?thesis .
  qed
  let ?P = "\<lambda>t. is_write (?f now) (?f t)"
  have nc: "next_change z now h c rules ovs = Some (find ?P cands)"
    using nc first_write_spec [of "s_Source (?f now) \<noteq> SourceNone" "?f now" "?f now" ?f cands] by simp
  show ?thesis
  proof (cases "find ?P cands")
    case None
    then have "\<not> ?P b" if "b = now \<or> b \<in> set cands" for b
      using self that unfolding find_None_iff by blast
    then have "\<not> ?P u" if "now < u" "u \<le> now + h" for u
      using at [OF that] by metis
    then show ?thesis unfolding nc None by simp
  next
    case (Some t)
    then obtain i where i: "i < length cands" "?P (cands ! i)" "t = cands ! i" "\<forall>j < i. \<not> ?P (cands ! j)"
      unfolding find_Some_iff by blast
    have t: "now < t" "t \<le> now + h" using set i nth_mem [OF i(1)] by auto
    have "\<not> ?P u" if u: "now < u" "u < t" for u
    proof -
      obtain b where b: "b = now \<or> b \<in> set cands" "b \<le> u" "?f b = ?f u" using at [of u] u t by auto
      have "\<not> ?P b" if "b \<in> set cands"
      proof -
        from that obtain j where j: "j < length cands" "b = cands ! j" by (auto simp: in_set_conv_nth)
        have "j < i" using sorted_nth_mono [OF sorted, of i j] j b(2) u(2) i(1,3) by (cases "j < i") auto
        with i(4) j show ?thesis by simp
      qed
      with b self show ?thesis by metis
    qed
    then show ?thesis unfolding nc Some using i(2,3) t by simp
  qed
qed

lemma next_change_is_first_write_witness:
  "\<exists>r. next_change melbourne 0 day \<lparr>c_Weeks = 1, c_Anchor = []\<rparr> [w_rule 1 0 4 7] [] = Some r"
  using next_change_is_first_write [OF civil_melbourne, of 0 day "\<lparr>c_Weeks = 1, c_Anchor = []\<rparr>" "[w_rule 1 0 4 7]" "[]"]
  by blast

text \<open>A live permit is retired exactly when the local day after its end date has begun; on
  the whole of its final valid day it is still active.\<close>

theorem permit_active_through_its_last_day:
  assumes "civil_zone z" and "\<not> dead_status (p_Status p)" and "\<not> is_zero (p_EndDate p)"
  shows "permit_inactive local p now (Some z) \<longleftrightarrow> localday z (p_EndDate p) < localday z now"
proof -
  have "expiry_deadline local (p_EndDate p) (Some z) = midnight z (localday z (p_EndDate p) + 1)"
    using assms(1) by (simp add: expiry_deadline_def add_days_midnight)
  then show ?thesis
    using assms localday_ge_iff [OF assms(1), of "localday z (p_EndDate p) + 1" now]
    by (auto simp: permit_inactive_def)
qed

definition w_permit :: "int \<Rightarrow> string \<Rightarrow> string \<Rightarrow> string \<Rightarrow> time \<Rightarrow> permit" where
  "w_permit i owner reg status e = \<lparr>p_ID = i, p_Owner = owner, p_TenantID = ''stonnington'',
     p_CouncilPermitID = ''14423'', p_PermitTypeID = ''15'', p_Label = [], p_ActiveRegistration = reg,
     p_ActiveConfirmedAt = zero_time, p_EndDate = e, p_Status = status, p_ExpiryReminded = False,
     p_PermitNumber = ''VPP24714'', p_PermitType = [], p_FailStreak = 0, p_CopyOfferDone = False,
     p_CycleWeeks = 1, p_CycleAnchor = []\<rparr>"

lemma permit_active_through_its_last_day_witness:
  "\<not> permit_inactive melbourne (w_permit 1 ''pa@example.com'' ''AAA111'' ''Granted'' 1775347200000000000)
      1775390000000000000 (Some melbourne)
   \<and> permit_inactive melbourne (w_permit 1 ''pa@example.com'' ''AAA111'' ''Granted'' 1775347200000000000)
      1775400000000000000 (Some melbourne)"
proof -
  let ?p = "w_permit 1 ''pa@example.com'' ''AAA111'' ''Granted'' 1775347200000000000"
  have "\<not> dead_status (p_Status ?p)" by code_simp
  moreover have "\<not> is_zero (p_EndDate ?p)" by (simp add: w_permit_def is_zero_def zero_time_def time_simps)
  ultimately show ?thesis
    using permit_active_through_its_last_day [OF civil_melbourne, of ?p]
    by (simp add: w_permit_def localday_def lns_def zoff_melbourne time_simps)
qed

text \<open>Plate comparison is an equivalence that ignores letter case, whitespace and display
  separators, and normalising is idempotent.\<close>

theorem plate_comparison:
  "same_plate a a \<and> (same_plate a b \<longrightarrow> same_plate b a)
   \<and> (same_plate a b \<and> same_plate b c \<longrightarrow> same_plate a c)
   \<and> norm_plate (norm_plate a) = norm_plate a
   \<and> same_plate (map to_lower_c a) (map to_upper_c a)
   \<and> (plate_skips sep \<longrightarrow> same_plate (a @ sep # b) (a @ b))"
proof -
  have "plate_skips (to_lower_c c) \<longleftrightarrow> plate_skips c" for c
    using plate_skips_upper [of "to_lower_c c"] plate_skips_upper [of c] by simp
  then have "norm_plate (map to_lower_c a) = norm_plate (map to_upper_c a)"
    by (induction a) (simp_all add: norm_plate_Cons)
  then show ?thesis
    by (auto simp: same_plate_def norm_plate_idem norm_plate_append norm_plate_Cons)
qed

lemma plate_comparison_witness:
  "same_plate (''AVS'' @ CHR ''-'' # ''619'') (''AVS'' @ ''619'')"
  using plate_comparison [of "''AVS''" "''619''" "[]" "CHR ''-''"] by (simp add: plate_skips_def)

text \<open>A displacement warning is addressed to a third party only: never to the person who
  caused the change and never to a member of the account; and it is about a live booking of
  the plate that was taken off.\<close>

theorem displaced_warning_is_for_a_third_party:
  assumes "find_displaced ovs vehicles prev actor members now = d" and "d_Reg d \<noteq> []"
  shows "d_Reg d = prev
    \<and> (\<exists>b \<in> set ovs. override_active now b \<and> same_plate (override_plate vehicles b) prev)
    \<and> (d_Contact d \<noteq> [] \<longrightarrow>
         \<not> equal_fold (d_Contact d) (actor_addr actor) \<and> \<not> is_member members (d_Contact d))"
proof (cases "best fresher (filter (\<lambda>ov. override_active now ov
              \<and> same_plate (override_plate vehicles ov) prev) ovs)")
  case None
  then have "find_displaced ovs vehicles prev actor members now = nobody_displaced"
    by (simp add: find_displaced_def Let_def)
  then show ?thesis using assms by (auto simp: nobody_displaced_def)
next
  case (Some b)
  from best_in [OF Some]
  have "\<exists>b \<in> set ovs. override_active now b \<and> same_plate (override_plate vehicles b) prev" by auto
  then show ?thesis using assms Some
    by (auto simp: find_displaced_def nobody_displaced_def Let_def split: if_splits)
qed

lemma displaced_warning_is_for_a_third_party_witness:
  "d_Reg (find_displaced [w_override 1 ''AAA111'' 0 None 5] Map.empty ''aaa 111'' ''ma@example.com''
      [''ma@example.com''] 10) = ''aaa 111''"
proof -
  let ?d = "find_displaced [w_override 1 ''AAA111'' 0 None 5] Map.empty ''aaa 111'' ''ma@example.com''
      [''ma@example.com''] 10"
  have "d_Reg ?d \<noteq> []" by code_simp
  then show ?thesis
    using displaced_warning_is_for_a_third_party [of "[w_override 1 ''AAA111'' 0 None 5]" Map.empty
        "''aaa 111''" "''ma@example.com''" "[''ma@example.com'']" 10 ?d] by simp
qed

end
