(* ===== verification/Provider.thy ===== *)
theory Provider
  imports Prelude
begin

text \<open>
  \<open>internal/provider/provider.go\<close>: the contract with a council portal. Errors are a tree, as
  Go wraps them: sentinels compared by identity, the structs \<open>Unavailable\<close> and \<open>Error\<close>, the
  generation-tagged expiry of \<open>internal/parking\<close>, \<open>fmt.Errorf\<close> wrapping and \<open>errors.Join\<close>.
  \<open>err_is\<close> is \<open>errors.Is\<close>, and \<open>as_unavailable\<close>, \<open>as_error\<close>, \<open>as_gen\<close> are \<open>errors.As\<close> at the
  three struct types. A Go \<open>error\<close> that may be nil is an \<open>err option\<close>.
\<close>

section \<open>Errors\<close>

datatype sentinel =
    ErrNotLinked | ErrSessionExpired | ErrNoSavedPassword | ErrLoginRejected
  | ErrLoginFormUnrecognised | ErrLoginOffHost | ErrNotCaptured | ErrUnavailable
  | ErrPermitListPartial | ErrPermitInactive | ErrUnsupported
  | ErrTenantUnavailable | ErrSessionSuperseded | ErrNotFound | ErrSuppressed
  | Canceled | DeadlineExceeded

datatype surface = SurfaceLogin | SurfaceAuth | SurfaceAPI | SurfaceOther

record unavailable =
  u_RetryAfter :: dur
  u_Status :: int
  u_Surface :: surface
  u_ContentType :: string
  u_Ref :: string

datatype op = OpUnknown | OpLogin | OpRefresh | OpListPermits | OpReadVehicle
  | OpSetVehicle | OpAddVehicle | OpClearVehicle

datatype failure_kind = FailTransient | FailRejected | FailUnexpected

datatype err =
    Sentinel sentinel
  | Unavail unavailable
  | Classified failure_kind op string "err option"
  | ExpiredAt int
  | Wrapped string err
  | Joined err err
  | Plain string

text \<open>\<open>ErrTenantUnavailable\<close> is itself built by wrapping \<open>ErrNotLinked\<close>.\<close>

fun err_is :: "err \<Rightarrow> sentinel \<Rightarrow> bool" where
  "err_is (Sentinel s) t = (s = t \<or> (s = ErrTenantUnavailable \<and> t = ErrNotLinked))"
| "err_is (Unavail u) t = (t = ErrUnavailable)"
| "err_is (Classified k p d None) t = False"
| "err_is (Classified k p d (Some e)) t = err_is e t"
| "err_is (ExpiredAt g) t = (t = ErrSessionExpired)"
| "err_is (Wrapped m e) t = err_is e t"
| "err_is (Joined a b) t = (err_is a t \<or> err_is b t)"
| "err_is (Plain m) t = False"

fun as_unavailable :: "err \<Rightarrow> unavailable option" where
  "as_unavailable (Unavail u) = Some u"
| "as_unavailable (Classified k p d (Some e)) = as_unavailable e"
| "as_unavailable (Wrapped m e) = as_unavailable e"
| "as_unavailable (Joined a b) = (case as_unavailable a of None \<Rightarrow> as_unavailable b | r \<Rightarrow> r)"
| "as_unavailable _ = None"

fun as_error :: "err \<Rightarrow> (failure_kind \<times> op \<times> string) option" where
  "as_error (Classified k p d e) = Some (k, p, d)"
| "as_error (Wrapped m e) = as_error e"
| "as_error (Joined a b) = (case as_error a of None \<Rightarrow> as_error b | r \<Rightarrow> r)"
| "as_error _ = None"

fun as_gen :: "err \<Rightarrow> int option" where
  "as_gen (ExpiredAt g) = Some g"
| "as_gen (Classified k p d (Some e)) = as_gen e"
| "as_gen (Wrapped m e) = as_gen e"
| "as_gen (Joined a b) = (case as_gen a of None \<Rightarrow> as_gen b | r \<Rightarrow> r)"
| "as_gen _ = None"

fun op_string :: "op \<Rightarrow> string" where
  "op_string OpUnknown = ''unknown''"
| "op_string OpLogin = ''login''"
| "op_string OpRefresh = ''refresh''"
| "op_string OpListPermits = ''list-permits''"
| "op_string OpReadVehicle = ''read-vehicle''"
| "op_string OpSetVehicle = ''set-vehicle''"
| "op_string OpAddVehicle = ''add-vehicle''"
| "op_string OpClearVehicle = ''clear-vehicle''"

definition fail :: "failure_kind \<Rightarrow> op \<Rightarrow> err option \<Rightarrow> err" where
  "fail k p e = Classified k p [] e"

definition fail_detail :: "failure_kind \<Rightarrow> op \<Rightarrow> string \<Rightarrow> err option \<Rightarrow> err" where
  "fail_detail k p d e = Classified k p d e"

definition failure_of :: "err option \<Rightarrow> failure_kind \<times> op" where
  "failure_of e = (case Option.bind e as_error of
     Some (k, p, d) \<Rightarrow> (k, p) | None \<Rightarrow> (FailTransient, OpUnknown))"

definition detail_of :: "err option \<Rightarrow> string" where
  "detail_of e = (case Option.bind e as_error of Some (k, p, d) \<Rightarrow> d | None \<Rightarrow> [])"

section \<open>The one classifier\<close>

record signal =
  g_OK :: bool
  g_Canceled :: bool
  g_Expiry :: bool
  g_Pushback :: "unavailable option"
  g_LoginShape :: bool
  g_LoginRejected :: bool
  g_Unexpected :: bool

definition no_signal :: signal where
  "no_signal = \<lparr>g_OK = False, g_Canceled = False, g_Expiry = False, g_Pushback = None,
     g_LoginShape = False, g_LoginRejected = False, g_Unexpected = False\<rparr>"

definition classify :: "err option \<Rightarrow> signal" where
  "classify eo = (case eo of
     None \<Rightarrow> no_signal\<lparr>g_OK := True\<rparr>
   | Some e \<Rightarrow>
       (let s = no_signal;
            s = (if err_is e Canceled then s\<lparr>g_Canceled := True\<rparr> else s);
            s = (if err_is e ErrSessionExpired then s\<lparr>g_Expiry := True\<rparr> else s);
            s = (case as_unavailable e of Some u \<Rightarrow> s\<lparr>g_Pushback := Some u\<rparr> | None \<Rightarrow> s)
        in if err_is e ErrLoginFormUnrecognised \<or> err_is e ErrLoginOffHost then s\<lparr>g_LoginShape := True\<rparr>
           else if err_is e ErrLoginRejected then s\<lparr>g_LoginRejected := True\<rparr>
           else if fst (failure_of (Some e)) = FailUnexpected then s\<lparr>g_Unexpected := True\<rparr>
           else s))"

section \<open>Capabilities\<close>

record region =
  rg_Code :: string
  rg_Label :: string

record capabilities =
  cap_CanClearVehicle :: bool
  cap_SupportsRefresh :: bool
  cap_NeedsKeepWarm :: bool
  cap_IdleWindow :: dur
  cap_SupportsExpiry :: bool
  cap_LoginKind :: string
  cap_Regions :: "region list"

datatype capability_error = LoginKindRequired | KeepWarmNeedsRefresh | KeepWarmNeedsIdleWindow
  | RegionIncomplete region | DuplicateRegion string

primrec validate_regions :: "region list \<Rightarrow> string list \<Rightarrow> capability_error option" where
  "validate_regions [] seen = None"
| "validate_regions (r # rs) seen =
     (if rg_Code r = [] \<or> rg_Label r = [] then Some (RegionIncomplete r)
      else if rg_Code r \<in> set seen then Some (DuplicateRegion (rg_Code r))
      else validate_regions rs (rg_Code r # seen))"

definition validate :: "capabilities \<Rightarrow> capability_error option" where
  "validate c =
     (if cap_LoginKind c = [] then Some LoginKindRequired
      else if cap_NeedsKeepWarm c \<and> \<not> cap_SupportsRefresh c then Some KeepWarmNeedsRefresh
      else if cap_NeedsKeepWarm c \<and> cap_IdleWindow c \<le> 0 then Some KeepWarmNeedsIdleWindow
      else validate_regions (cap_Regions c) [])"

section \<open>Lemmas\<close>

lemma as_unavailable_is: "as_unavailable e = Some u \<Longrightarrow> err_is e ErrUnavailable"
  by (induction e rule: as_unavailable.induct) (auto split: option.splits)

lemma as_gen_is: "as_gen e = Some g \<Longrightarrow> err_is e ErrSessionExpired"
  by (induction e rule: as_gen.induct) (auto split: option.splits)

lemma classify_facets:
  "g_OK (classify eo) \<longleftrightarrow> eo = None"
  "g_Canceled (classify eo) \<longleftrightarrow> (\<exists>e. eo = Some e \<and> err_is e Canceled)"
  "g_Expiry (classify eo) \<longleftrightarrow> (\<exists>e. eo = Some e \<and> err_is e ErrSessionExpired)"
  "g_Pushback (classify eo) = Option.bind eo as_unavailable"
  by (auto simp: classify_def no_signal_def Let_def split: option.splits)

lemma validate_regions_None:
  "validate_regions rs seen = None \<longleftrightarrow>
     (\<forall>r \<in> set rs. rg_Code r \<noteq> [] \<and> rg_Label r \<noteq> []) \<and> distinct (map rg_Code rs)
     \<and> set (map rg_Code rs) \<inter> set seen = {}"
  by (induction rs arbitrary: seen) auto

section \<open>Properties\<close>

text \<open>The classifier reports a push-back (what the fleet breaker counts) exactly when a real
  edge response, the \<open>Unavailable\<close> struct, is in the error's tree; an error that merely wraps
  the \<open>ErrUnavailable\<close> sentinel, as the authorise backoff and the local cooldown do, never is
  one. The login-shape, rejected and unexpected facets exclude each other.\<close>

theorem classify_pushback_needs_the_struct:
  "g_Pushback (classify (Some e)) = as_unavailable e
   \<and> as_unavailable (Wrapped m (Sentinel ErrUnavailable)) = None
   \<and> (as_unavailable e = Some u \<longrightarrow> err_is e ErrUnavailable)
   \<and> \<not> (g_LoginShape (classify (Some e)) \<and> g_LoginRejected (classify (Some e)))
   \<and> \<not> (g_LoginShape (classify (Some e)) \<and> g_Unexpected (classify (Some e)))
   \<and> \<not> (g_LoginRejected (classify (Some e)) \<and> g_Unexpected (classify (Some e)))"
proof -
  have "\<not> (g_LoginShape (classify (Some e)) \<and> g_LoginRejected (classify (Some e)))
   \<and> \<not> (g_LoginShape (classify (Some e)) \<and> g_Unexpected (classify (Some e)))
   \<and> \<not> (g_LoginRejected (classify (Some e)) \<and> g_Unexpected (classify (Some e)))"
    by (simp add: classify_def no_signal_def Let_def split: option.split)
  then show ?thesis by (simp add: classify_facets as_unavailable_is)
qed

lemma classify_pushback_needs_the_struct_witness:
  "err_is (Wrapped ''list permits'' (Unavail \<lparr>u_RetryAfter = 0, u_Status = 429, u_Surface = SurfaceAPI,
      u_ContentType = [], u_Ref = []\<rparr>)) ErrUnavailable"
  using classify_pushback_needs_the_struct [of "Wrapped ''list permits'' (Unavail \<lparr>u_RetryAfter = 0,
      u_Status = 429, u_Surface = SurfaceAPI, u_ContentType = [], u_Ref = []\<rparr>)" "[]"
      "\<lparr>u_RetryAfter = 0, u_Status = 429, u_Surface = SurfaceAPI, u_ContentType = [], u_Ref = []\<rparr>"]
  by simp

text \<open>A capability set is accepted exactly when a login kind is named, keep-warm is backed
  by refresh and a positive idle window, and the regions are complete with distinct codes.\<close>

theorem validate_accepts_iff:
  "validate c = None \<longleftrightarrow>
     cap_LoginKind c \<noteq> []
     \<and> (cap_NeedsKeepWarm c \<longrightarrow> cap_SupportsRefresh c \<and> 0 < cap_IdleWindow c)
     \<and> (\<forall>r \<in> set (cap_Regions c). rg_Code r \<noteq> [] \<and> rg_Label r \<noteq> [])
     \<and> distinct (map rg_Code (cap_Regions c))"
  by (auto simp: validate_def validate_regions_None)

lemma validate_accepts_iff_witness:
  "validate \<lparr>cap_CanClearVehicle = True, cap_SupportsRefresh = True, cap_NeedsKeepWarm = True,
     cap_IdleWindow = 10 * hour, cap_SupportsExpiry = True, cap_LoginKind = ''password'',
     cap_Regions = [\<lparr>rg_Code = ''VIC'', rg_Label = ''VIC''\<rparr>, \<lparr>rg_Code = ''NSW'', rg_Label = ''NSW''\<rparr>]\<rparr> = None"
  unfolding validate_accepts_iff by (simp add: time_simps)

end
