(* ===== verification/Breaker.thy ===== *)
theory Breaker
  imports Provider "HOL-Library.Word"
begin

text \<open>
  \<open>internal/parking/breaker.go\<close>: the fleet circuit breaker, one per council, which pauses all
  traffic from the shared address when several distinct owners are pushed back at once; and its
  persisted row (\<open>BreakerState\<close>, \<open>SaveBreakerState\<close>, \<open>LoadBreakerState\<close> of
  \<open>internal/store/tenant.go\<close>). Methods run under the breaker's mutex, so each is one atomic
  function on the state; a nil breaker is \<open>None\<close>. The generation is a 64-bit word. The clock
  reading of each call is an argument.

  \<open>circuit_gate\<close> is the contract this breaker shares with the authorise circuit of
  \<open>AuthCircuit\<close>: what a gate that half-opens with single probes promises to its callers.
\<close>

section \<open>The gate contract\<close>

text \<open>
  A gate answers each request \<open>Admit probe\<close> or \<open>Refuse wait\<close>. \<open>refusing s t\<close> says that the
  gate refuses at \<open>t\<close>; \<open>sane s a\<close> that the clock and the configuration are ones the
  gate is built for; \<open>covered s a t\<close> that a probe admitted by \<open>s\<close> at \<open>a\<close> still holds the line
  at \<open>t\<close>.
\<close>

datatype verdict = Admit bool | Refuse dur

locale circuit_gate =
  fixes allow :: "'s \<Rightarrow> time \<Rightarrow> 's \<times> verdict"
    and closed :: "'s \<Rightarrow> bool"
    and refusing :: "'s \<Rightarrow> time \<Rightarrow> bool"
    and sane :: "'s \<Rightarrow> time \<Rightarrow> bool"
    and covered :: "'s \<Rightarrow> time \<Rightarrow> time \<Rightarrow> bool"
  assumes closed_admits: "closed s \<Longrightarrow> allow s t = (s, Admit False)"
    and closed_not_refusing: "closed s \<Longrightarrow> \<not> refusing s t"
    and refusing_refuses: "refusing s t \<Longrightarrow> \<exists>w. allow s t = (s, Refuse w)"
    and probe_admitted: "\<not> closed s \<Longrightarrow> \<not> refusing s a \<Longrightarrow> sane s a \<Longrightarrow>
       snd (allow s a) = Admit True \<and> \<not> closed (fst (allow s a))"
    and probe_holds_the_line: "\<not> closed s \<Longrightarrow> \<not> refusing s a \<Longrightarrow> sane s a \<Longrightarrow> covered s a t \<Longrightarrow>
       refusing (fst (allow s a)) t"
begin

primrec burst :: "'s \<Rightarrow> time list \<Rightarrow> 's \<times> verdict list" where
  "burst s [] = (s, [])"
| "burst s (t # ts) = (case allow s t of (s', v) \<Rightarrow>
     (case burst s' ts of (s'', vs) \<Rightarrow> (s'', v # vs)))"

definition admitted :: "verdict list \<Rightarrow> verdict list" where
  "admitted vs = filter (\<lambda>v. case v of Admit _ \<Rightarrow> True | Refuse _ \<Rightarrow> False) vs"

lemma burst_closed: "closed s \<Longrightarrow> burst s ts = (s, replicate (length ts) (Admit False))"
  by (induction ts) (auto simp: closed_admits)

lemma burst_refusing: "(\<forall>t \<in> set ts. refusing s t) \<Longrightarrow> fst (burst s ts) = s \<and> admitted (snd (burst s ts)) = []"
proof (induction ts)
  case (Cons t ts)
  then obtain w where "allow s t = (s, Refuse w)" using refusing_refuses [of s t] by auto
  with Cons show ?case by (auto simp: admitted_def split: prod.splits)
qed (simp add: admitted_def)

lemma burst_half_open:
  assumes "\<not> closed s" and "\<not> refusing s a" and "sane s a" and "\<forall>t \<in> set ts. covered s a t"
  shows "admitted (snd (burst s (a # ts))) = [Admit True]"
proof -
  obtain s' v where sv: "allow s a = (s', v)" by fastforce
  with probe_admitted [OF assms(1,2,3)] have v: "v = Admit True" by simp
  have "\<forall>t \<in> set ts. refusing s' t"
    using probe_holds_the_line [OF assms(1,2,3)] assms(4) sv by auto
  then have "admitted (snd (burst s' ts)) = []" using burst_refusing by blast
  with sv v show ?thesis by (auto simp: admitted_def split: prod.splits)
qed

end

section \<open>The breaker\<close>

definition defaultBreakerThreshold :: int where "defaultBreakerThreshold = 3"
definition defaultBreakerWindow :: dur where "defaultBreakerWindow = 2 * minute"
definition defaultBreakerCooldown :: dur where "defaultBreakerCooldown = 5 * minute"
definition defaultBreakerProbe :: dur where "defaultBreakerProbe = 30 * second"
definition maxBreakerCooldown :: dur where "maxBreakerCooldown = 30 * minute"

record breaker =
  b_openUntil :: time
  b_recent :: "(string \<times> time) list"
  b_generation :: "64 word"
  b_lastPushback :: time
  b_threshold :: int
  b_window :: dur
  b_cooldown :: dur
  b_probeInterval :: dur

record breaker_permit =
  bp_probe :: bool
  bp_gen :: "64 word"

definition new_breaker :: "int \<Rightarrow> dur \<Rightarrow> dur \<Rightarrow> dur \<Rightarrow> breaker" where
  "new_breaker threshold window cooldown probe =
     \<lparr>b_openUntil = zero_time, b_recent = [], b_generation = 0, b_lastPushback = zero_time,
      b_threshold = threshold, b_window = window, b_cooldown = cooldown, b_probeInterval = probe\<rparr>"

definition zero_permit :: breaker_permit where
  "zero_permit = \<lparr>bp_probe = False, bp_gen = 0\<rparr>"

text \<open>\<open>allow\<close>: the new state, the permit, whether the request may go, and the wait.\<close>

fun br_allow :: "breaker option \<Rightarrow> time \<Rightarrow> breaker option \<times> breaker_permit \<times> bool \<times> dur" where
  "br_allow None now = (None, zero_permit, True, 0)"
| "br_allow (Some b) now =
     (if is_zero (b_openUntil b) then (Some b, \<lparr>bp_probe = False, bp_gen = b_generation b\<rparr>, True, 0)
      else if now < b_openUntil b then (Some b, zero_permit, False, tsub (b_openUntil b) now)
      else (Some (b\<lparr>b_openUntil := now + b_probeInterval b\<rparr>),
            \<lparr>bp_probe = True, bp_gen = b_generation b\<rparr>, True, 0))"

definition br_blocked :: "breaker \<Rightarrow> time \<Rightarrow> bool" where
  "br_blocked b now \<longleftrightarrow> \<not> is_zero (b_openUntil b) \<and> now < b_openUntil b"

fun br_onPushback :: "breaker option \<Rightarrow> time \<Rightarrow> string \<Rightarrow> dur \<Rightarrow> breaker option \<times> bool" where
  "br_onPushback None now owner retryAfter = (None, False)"
| "br_onPushback (Some b) now owner retryAfter =
     (let wasBlocked = br_blocked b now;
          live = filter (\<lambda>e. \<not> b_window b < tsub now (snd e)) (put owner now (b_recent b));
          b' = b\<lparr>b_lastPushback := now, b_recent := live\<rparr>;
          cd = min maxBreakerCooldown (max (b_cooldown b) retryAfter);
          b'' = (if b_threshold b \<le> int (length live) \<or> wasBlocked
                 then b'\<lparr>b_openUntil := now + cd, b_generation := b_generation b + 1\<rparr> else b')
      in (Some b'', br_blocked b'' now \<and> \<not> wasBlocked))"

fun br_onSuccess :: "breaker option \<Rightarrow> time \<Rightarrow> string \<Rightarrow> breaker_permit \<Rightarrow> breaker option \<times> bool" where
  "br_onSuccess None now owner permit = (None, False)"
| "br_onSuccess (Some b) now owner permit =
     (let b' = b\<lparr>b_recent := del owner (b_recent b)\<rparr>
      in if is_zero (b_openUntil b') then (Some b', False)
         else if bp_probe permit \<and> bp_gen permit = b_generation b'
              then (Some (b'\<lparr>b_openUntil := zero_time, b_generation := b_generation b' + 1\<rparr>), True)
              else (Some b', False))"

fun br_snapshot :: "breaker option \<Rightarrow> time \<times> time \<times> 64 word" where
  "br_snapshot None = (zero_time, zero_time, 0)"
| "br_snapshot (Some b) = (b_openUntil b, b_lastPushback b, b_generation b)"

fun br_restore :: "breaker option \<Rightarrow> time \<times> time \<times> 64 word \<Rightarrow> breaker option" where
  "br_restore None st = None"
| "br_restore (Some b) (openUntil, lastPushback, generation) =
     (let b' = (if \<not> is_zero openUntil then b\<lparr>b_openUntil := openUntil\<rparr> else b);
          b'' = b'\<lparr>b_lastPushback := lastPushback\<rparr>
      in Some (if b_generation b'' < generation then b''\<lparr>b_generation := generation\<rparr> else b''))"

fun br_state :: "breaker option \<Rightarrow> time \<Rightarrow> bool \<times> dur" where
  "br_state None now = (False, 0)"
| "br_state (Some b) now =
     (if is_zero (b_openUntil b) \<or> \<not> now < b_openUntil b then (False, 0)
      else (True, tsub (b_openUntil b) now))"

section \<open>The persisted row\<close>

text \<open>
  Times are stored as RFC 3339 text in UTC, which keeps whole seconds. The generation is bound
  as a \<open>uint64\<close>, which \<open>database/sql\<close> refuses (an error, \<open>None\<close>) once its high bit is set.
  \<open>LoadBreakerState\<close> of an absent row is the zero state.
\<close>

record breaker_row =
  br_OpenUntil :: time
  br_Generation :: "64 word"
  br_LastPushback :: time

definition row_of :: "time \<times> time \<times> 64 word \<Rightarrow> breaker_row" where
  "row_of st = (case st of (openUntil, lastPushback, generation) \<Rightarrow>
     \<lparr>br_OpenUntil = openUntil, br_Generation = generation, br_LastPushback = lastPushback\<rparr>)"

definition SaveBreakerState :: "breaker_row option \<Rightarrow> breaker_row \<Rightarrow> breaker_row option option" where
  "SaveBreakerState row b =
     (if 2 ^ 63 \<le> unat (br_Generation b) then None
      else let new = \<lparr>br_OpenUntil = whole_seconds (br_OpenUntil b), br_Generation = br_Generation b,
                      br_LastPushback = whole_seconds (br_LastPushback b)\<rparr>
           in Some (case row of None \<Rightarrow> Some new
                    | Some old \<Rightarrow> if unat (br_Generation old) \<le> unat (br_Generation b) then Some new else Some old))"

definition LoadBreakerState :: "breaker_row option \<Rightarrow> breaker_row" where
  "LoadBreakerState row = (case row of None \<Rightarrow>
     \<lparr>br_OpenUntil = zero_time, br_Generation = 0, br_LastPushback = zero_time\<rparr> | Some r \<Rightarrow> r)"

section \<open>Runs\<close>

text \<open>
  A history of calls on one breaker, in the order in which they take the mutex. \<open>chronological\<close>
  says that their clock readings do not go back.
\<close>

datatype br_event = BAllow time | BPushback time string dur | BSuccess time string breaker_permit

primrec ev_time :: "br_event \<Rightarrow> time" where
  "ev_time (BAllow t) = t"
| "ev_time (BPushback t owner ra) = t"
| "ev_time (BSuccess t owner p) = t"

fun pushed_owner :: "br_event \<Rightarrow> string set" where
  "pushed_owner (BPushback t owner ra) = {owner}"
| "pushed_owner _ = {}"

fun br_step :: "breaker option \<Rightarrow> br_event \<Rightarrow> breaker option" where
  "br_step b (BAllow t) = fst (br_allow b t)"
| "br_step b (BPushback t owner ra) = fst (br_onPushback b t owner ra)"
| "br_step b (BSuccess t owner p) = fst (br_onSuccess b t owner p)"

definition br_run :: "breaker option \<Rightarrow> br_event list \<Rightarrow> breaker option" where
  "br_run b evs = foldl br_step b evs"

primrec chronological :: "time \<Rightarrow> br_event list \<Rightarrow> bool" where
  "chronological t [] = True"
| "chronological t (e # es) = (t \<le> ev_time e \<and> chronological (ev_time e) es)"

lemma br_run_simps [simp]:
  "br_run b [] = b" "br_run b (e # es) = br_run (br_step b e) es"
  by (simp_all add: br_run_def)

lemma br_step_None [simp]: "br_step None e = None"
  by (cases e) simp_all

lemma br_config [state_simps]:
  "br_step (Some b) e = Some b' \<Longrightarrow> b_threshold b' = b_threshold b \<and> b_window b' = b_window b
     \<and> b_cooldown b' = b_cooldown b \<and> b_probeInterval b' = b_probeInterval b"
  by (cases e) (auto simp: Let_def split: if_splits)

lemma br_step_Some: "\<exists>b'. br_step (Some b) e = Some b'"
  by (cases e) (simp_all add: Let_def)

text \<open>The three ways a step can move the deadline.\<close>

lemma br_step_deadline:
  assumes "br_step (Some b) e = Some b'"
  shows "b_openUntil b' = b_openUntil b \<and> (b_generation b' = b_generation b)
     \<or> (\<exists>t. e = BAllow t \<and> b_openUntil b \<le> t \<and> b_openUntil b \<noteq> zero_time
          \<and> b_openUntil b' = t + b_probeInterval b \<and> b_generation b' = b_generation b)
     \<or> (\<exists>t owner ra. e = BPushback t owner ra
          \<and> b_openUntil b' = t + min maxBreakerCooldown (max (b_cooldown b) ra) \<and> b_generation b' = b_generation b + 1)
     \<or> (b_openUntil b' = zero_time \<and> b_openUntil b \<noteq> zero_time \<and> b_generation b' = b_generation b + 1)"
  using assms by (cases e) (auto simp: Let_def is_zero_def split: if_splits)

lemma max_cooldown_pos: "0 < maxBreakerCooldown"
  by (simp add: maxBreakerCooldown_def time_simps)

lemma after_epoch_not_zero: "0 \<le> t \<Longrightarrow> t \<noteq> zero_time"
  by (simp add: zero_time_def time_simps)

section \<open>The contract, for the breaker\<close>

definition verdict_of :: "breaker_permit \<times> bool \<times> dur \<Rightarrow> verdict" where
  "verdict_of r = (case r of (p, ok, w) \<Rightarrow> if ok then Admit (bp_probe p) else Refuse w)"

definition br_gate :: "breaker \<Rightarrow> time \<Rightarrow> breaker \<times> verdict" where
  "br_gate b t = (case br_allow (Some b) t of (b', r) \<Rightarrow> (the b', verdict_of r))"

definition br_closed :: "breaker \<Rightarrow> bool" where
  "br_closed b \<longleftrightarrow> is_zero (b_openUntil b)"

definition br_covered :: "breaker \<Rightarrow> time \<Rightarrow> time \<Rightarrow> bool" where
  "br_covered b a t \<longleftrightarrow> t < a + b_probeInterval b"

definition br_sane :: "breaker \<Rightarrow> time \<Rightarrow> bool" where
  "br_sane b a \<longleftrightarrow> 0 \<le> a \<and> 0 \<le> b_probeInterval b"

interpretation fleet: circuit_gate br_gate br_closed br_blocked br_sane br_covered
proof
  show "br_closed s \<Longrightarrow> br_gate s t = (s, Admit False)" for s t
    by (simp add: br_closed_def br_gate_def verdict_of_def)
  show "br_closed s \<Longrightarrow> \<not> br_blocked s t" for s t
    by (simp add: br_closed_def br_blocked_def)
  show "br_blocked s t \<Longrightarrow> \<exists>w. br_gate s t = (s, Refuse w)" for s t
    by (simp add: br_blocked_def br_gate_def verdict_of_def)
  fix s a
  assume *: "\<not> br_closed s" "\<not> br_blocked s a" "br_sane s a"
  then have g: "br_gate s a = (s\<lparr>b_openUntil := a + b_probeInterval s\<rparr>, Admit True)"
    by (simp add: br_gate_def br_closed_def br_blocked_def verdict_of_def)
  have nz: "a + b_probeInterval s \<noteq> zero_time"
    using *(3) by (simp add: br_sane_def zero_time_def time_simps)
  with g show "snd (br_gate s a) = Admit True \<and> \<not> br_closed (fst (br_gate s a))"
    by (simp add: br_closed_def is_zero_def)
  fix t
  assume "br_covered s a t"
  with g nz show "br_blocked (fst (br_gate s a)) t"
    by (simp add: br_blocked_def is_zero_def br_covered_def)
qed

section \<open>Lemmas about runs\<close>

definition configured :: "breaker \<Rightarrow> breaker \<Rightarrow> bool" where
  "configured b0 b \<longleftrightarrow> b_threshold b = b_threshold b0 \<and> b_window b = b_window b0
     \<and> b_cooldown b = b_cooldown b0 \<and> b_probeInterval b = b_probeInterval b0"

text \<open>While a probe admitted at \<open>a\<close> is fresh, the line is held or the circuit is closed.\<close>

definition line_held :: "breaker \<Rightarrow> time \<Rightarrow> breaker \<Rightarrow> bool" where
  "line_held b0 a b \<longleftrightarrow> configured b0 b \<and> (br_closed b \<or> a + b_probeInterval b0 \<le> b_openUntil b)"

lemma line_held_step:
  assumes "line_held b0 a b" and "a \<le> ev_time e" and "br_step (Some b) e = Some b'"
    and "b_probeInterval b0 \<le> b_cooldown b0" and "b_probeInterval b0 \<le> maxBreakerCooldown"
  shows "line_held b0 a b'"
  using br_step_deadline [OF assms(3)] br_config [OF assms(3)] assms(1,2,4,5)
  by (auto simp: line_held_def configured_def br_closed_def is_zero_def)

lemma br_run_step:
  assumes "\<And>b e b'. P b \<Longrightarrow> e \<in> set evs \<Longrightarrow> br_step (Some b) e = Some b' \<Longrightarrow> P b'" and "P b"
  shows "\<exists>b'. br_run (Some b) evs = Some b' \<and> P b'"
  using assms
proof (induction evs arbitrary: b)
  case (Cons e evs)
  obtain b1 where "br_step (Some b) e = Some b1" using br_step_Some by blast
  with Cons show ?case by (metis br_run_simps(2) list.set_intros(1) list.set_intros(2))
qed simp

lemma chronological_ge: "chronological t evs \<Longrightarrow> e \<in> set evs \<Longrightarrow> t \<le> ev_time e"
  by (induction evs arbitrary: t) fastforce+

text \<open>Below the threshold: the circuit is closed and the tally holds known owners only.\<close>

definition quiet :: "string set \<Rightarrow> breaker \<Rightarrow> breaker \<Rightarrow> bool" where
  "quiet owners b0 b \<longleftrightarrow> configured b0 b \<and> br_closed b \<and> table (b_recent b) \<and> fst ` set (b_recent b) \<subseteq> owners"

lemma quiet_step:
  assumes q: "quiet owners b0 b" and fin: "finite owners" and lt: "int (card owners) < b_threshold b0"
    and e: "pushed_owner e \<subseteq> owners" and st: "br_step (Some b) e = Some b'"
  shows "quiet owners b0 b'"
proof (cases e)
  case (BAllow t)
  with q st show ?thesis by (auto simp: quiet_def br_closed_def)
next
  case (BPushback t owner ra)
  let ?live = "filter (\<lambda>e. \<not> b_window b < tsub t (snd e)) (put owner t (b_recent b))"
  have tab: "table ?live" using q by (simp add: quiet_def)
  have sub: "fst ` set ?live \<subseteq> owners"
  proof -
    have "fst ` set ?live \<subseteq> fst ` set (put owner t (b_recent b))"
      by (rule image_mono) simp
    also have "\<dots> \<subseteq> owners" using q e BPushback by (simp add: quiet_def)
    finally show ?thesis .
  qed
  have "length ?live \<le> card owners"
    using table_length [OF tab] card_mono [OF fin sub] by simp
  then have "\<not> b_threshold b \<le> int (length ?live)"
    using lt q by (simp add: quiet_def configured_def)
  moreover have "\<not> br_blocked b t" using q by (simp add: quiet_def br_blocked_def br_closed_def)
  ultimately have "b' = b\<lparr>b_lastPushback := t, b_recent := ?live\<rparr>"
    using st BPushback by (simp add: Let_def)
  with q tab sub show ?thesis by (simp add: quiet_def configured_def br_closed_def)
next
  case (BSuccess t owner p)
  have "fst ` set (del owner (b_recent b)) \<subseteq> owners" unfolding keys_del using q by (auto simp: quiet_def)
  moreover have "b' = b\<lparr>b_recent := del owner (b_recent b)\<rparr>"
    using q st BSuccess by (simp add: quiet_def br_closed_def Let_def)
  ultimately show ?thesis using q by (simp add: quiet_def br_closed_def configured_def)
qed

text \<open>The tally after a push-back: the pushed owner and the owners still within the window.\<close>

lemma live_owners:
  assumes "table m" and "0 \<le> d"
  shows "fst ` set (filter (\<lambda>e. \<not> d < tsub now (snd e)) (put owner now m)) =
     insert owner {o'. \<exists>t. map_of m o' = Some t \<and> tsub now t \<le> d}" (is "?L = ?R")
proof -
  have mem: "map_of m o' = Some t \<longleftrightarrow> (o', t) \<in> set m" for o' t
    using assms(1) by (simp add: table_def)
  have "x \<in> ?L \<longleftrightarrow> x \<in> ?R" for x
  proof (cases "x = owner")
    case True
    have "(owner, now) \<in> set (filter (\<lambda>e. \<not> d < tsub now (snd e)) (put owner now m))"
      using assms(2) by (simp add: put_def)
    with True show ?thesis by (force simp: image_iff)
  next
    case False
    then show ?thesis by (auto simp: mem put_def set_del image_iff not_less)
  qed
  then show ?thesis by blast
qed

text \<open>The deadline never lies further than the longest pause after the last call.\<close>

definition bounded_pause :: "breaker \<Rightarrow> time \<Rightarrow> breaker \<Rightarrow> bool" where
  "bounded_pause b0 t b \<longleftrightarrow> configured b0 b \<and> (br_closed b \<or> b_openUntil b \<le> t + max maxBreakerCooldown (b_probeInterval b0))"

lemma bounded_pause_run:
  assumes "br_run (Some b) evs = Some b'" and "chronological t evs" and "bounded_pause b0 t b"
    and "\<forall>e \<in> set evs. ev_time e \<le> u" and "t \<le> u"
  shows "bounded_pause b0 u b'"
  using assms
proof (induction evs arbitrary: b t)
  case Nil
  then show ?case by (auto simp: bounded_pause_def)
next
  case (Cons e evs)
  obtain b1 where b1: "br_step (Some b) e = Some b1" using br_step_Some by blast
  have "bounded_pause b0 (ev_time e) b1"
    using br_step_deadline [OF b1] br_config [OF b1] Cons.prems(2,3)
    by (auto simp: bounded_pause_def configured_def br_closed_def is_zero_def)
  with Cons b1 show ?case by auto
qed

text \<open>Generations count transitions, modulo \<open>2 ^ 64\<close>.\<close>

lemma generation_step:
  "br_step (Some b) e = Some b' \<Longrightarrow>
     \<exists>k \<le> 1. b_generation b' = b_generation b + of_nat k
       \<and> (k = 0 \<longrightarrow> b_openUntil b' = b_openUntil b \<or> (\<exists>t. e = BAllow t))"
  by (cases e) (auto simp: Let_def split: if_splits intro: exI [of _ 0] exI [of _ 1])

lemma generation_run:
  "br_run (Some b) evs = Some b' \<Longrightarrow>
     \<exists>k \<le> length evs. b_generation b' = b_generation b + of_nat k"
proof (induction evs arbitrary: b)
  case (Cons e evs)
  obtain b1 where b1: "br_step (Some b) e = Some b1" using br_step_Some by blast
  obtain k1 where k1: "k1 \<le> 1" "b_generation b1 = b_generation b + of_nat k1"
    using generation_step [OF b1] by blast
  obtain k2 where k2: "k2 \<le> length evs" "b_generation b' = b_generation b1 + of_nat k2"
    using Cons b1 by auto
  show ?case using k1 k2 by (intro exI [of _ "k1 + k2"]) auto
qed auto

lemma of_nat_small_nonzero:
  assumes "0 < k" and "k < 2 ^ 64"
  shows "(of_nat k :: 64 word) \<noteq> 0"
proof
  assume "(of_nat k :: 64 word) = 0"
  then have "unat (of_nat k :: 64 word) = 0" by simp
  with assms show False by (simp add: unat_of_nat)
qed

section \<open>Properties\<close>

definition w_breaker :: breaker where
  "w_breaker = new_breaker defaultBreakerThreshold defaultBreakerWindow defaultBreakerCooldown defaultBreakerProbe"

text \<open>C11: Fewer than \<open>threshold\<close> distinct owners can never pause the fleet: whatever they do, in
  any order and however often they are pushed back, a closed breaker with an empty tally stays
  closed and keeps admitting ordinary requests.\<close>

theorem isolated_owners_never_pause_the_fleet:
  assumes "is_zero (b_openUntil b)" and "b_recent b = []"
    and "int (card (\<Union>e \<in> set evs. pushed_owner e)) < b_threshold b"
  shows "\<exists>b'. br_run (Some b) evs = Some b' \<and> is_zero (b_openUntil b')
     \<and> (\<forall>now. br_allow (Some b') now = (Some b', \<lparr>bp_probe = False, bp_gen = b_generation b'\<rparr>, True, 0))"
proof -
  let ?O = "\<Union>e \<in> set evs. pushed_owner e"
  have fin: "finite ?O"
  proof -
    have "finite (pushed_owner e)" for e by (cases e) simp_all
    then show ?thesis by blast
  qed
  have "quiet ?O b b" using assms by (simp add: quiet_def configured_def br_closed_def)
  then obtain b' where "br_run (Some b) evs = Some b'" "quiet ?O b b'"
    using br_run_step [of "quiet ?O b" evs b] quiet_step [OF _ fin assms(3)] by blast
  then show ?thesis by (auto simp: quiet_def br_closed_def)
qed

lemma isolated_owners_never_pause_the_fleet_witness:
  "\<exists>b'. br_run (Some w_breaker) [BPushback 0 ''a'' (86400 * second), BPushback 1 ''b'' 0, BPushback 2 ''a'' 0] = Some b'
     \<and> is_zero (b_openUntil b')"
proof -
  have "card {''a'', ''b'', ''a''} < 3" by (simp add: card_insert_if)
  then have "\<exists>b'. br_run (Some w_breaker) [BPushback 0 ''a'' (86400 * second), BPushback 1 ''b'' 0, BPushback 2 ''a'' 0] = Some b'
     \<and> is_zero (b_openUntil b')
     \<and> (\<forall>now. br_allow (Some b') now = (Some b', \<lparr>bp_probe = False, bp_gen = b_generation b'\<rparr>, True, 0))"
    by (intro isolated_owners_never_pause_the_fleet)
      (simp_all add: w_breaker_def new_breaker_def is_zero_def defaultBreakerThreshold_def)
  then show ?thesis by blast
qed

text \<open>A push-back pauses the fleet exactly when it brings the number of distinct owners pushed
  back within the window to the threshold, or when the fleet was already paused; the pause is
  the configured cooldown, floored by the edge's Retry-After and capped at half an hour, and
  only the transition is reported as an opening.\<close>

theorem pushback_opens_iff:
  assumes "table (b_recent b)" and "0 \<le> now" and "0 < b_cooldown b" and "0 \<le> b_window b"
    and "br_onPushback (Some b) now owner ra = (Some b', opened)"
  shows "(br_blocked b' now \<longleftrightarrow>
             br_blocked b now
             \<or> b_threshold b \<le> int (card (insert owner {o'. \<exists>t. map_of (b_recent b) o' = Some t \<and> tsub now t \<le> b_window b})))
       \<and> (br_blocked b' now \<longrightarrow> b_openUntil b' = now + min maxBreakerCooldown (max (b_cooldown b) ra)
             \<and> b_generation b' = b_generation b + 1)
       \<and> (opened \<longleftrightarrow> br_blocked b' now \<and> \<not> br_blocked b now)"
proof -
  let ?live = "filter (\<lambda>e. \<not> b_window b < tsub now (snd e)) (put owner now (b_recent b))"
  let ?O = "insert owner {o'. \<exists>t. map_of (b_recent b) o' = Some t \<and> tsub now t \<le> b_window b}"
  let ?trip = "b_threshold b \<le> int (card ?O) \<or> br_blocked b now"
  have len: "length ?live = card ?O"
    using live_owners [OF assms(1,4)] table_length [of ?live] assms(1) by simp
  have pos: "0 < min maxBreakerCooldown (max (b_cooldown b) ra)"
    using assms(3) max_cooldown_pos by simp
  then have nz: "\<not> is_zero (now + min maxBreakerCooldown (max (b_cooldown b) ra))"
    using after_epoch_not_zero [of "now + min maxBreakerCooldown (max (b_cooldown b) ra)"] assms(2)
    by (simp add: is_zero_def)
  show ?thesis
  proof (cases ?trip)
    case True
    with assms(5) len pos nz show ?thesis by (auto simp: Let_def br_blocked_def)
  next
    case False
    with assms(5) len show ?thesis by (auto simp: Let_def br_blocked_def)
  qed
qed

lemma pushback_opens_iff_witness:
  "br_blocked (w_breaker\<lparr>b_recent := [(''c'', 5), (''b'', 4), (''a'', 3)], b_lastPushback := 5,
     b_openUntil := 5 + 30 * minute, b_generation := 1\<rparr>) 5"
  using pushback_opens_iff [of "w_breaker\<lparr>b_recent := [(''b'', 4), (''a'', 3)]\<rparr>" 5 "''c''" "86400 * second"
    "w_breaker\<lparr>b_recent := [(''c'', 5), (''b'', 4), (''a'', 3)], b_lastPushback := 5,
     b_openUntil := 5 + 30 * minute, b_generation := 1\<rparr>" True]
  by (simp add: w_breaker_def new_breaker_def is_zero_def zero_time_def br_blocked_def table_def put_def del_def
    defaultBreakerThreshold_def defaultBreakerWindow_def defaultBreakerCooldown_def maxBreakerCooldown_def
    tsub_def min_dur_def max_dur_def time_simps)

text \<open>At half-open the gate admits exactly one request of a burst, as the probe: every other
  request of the burst that arrives within the probe interval is refused.\<close>

theorem half_open_burst_admits_one_probe:
  assumes "\<not> is_zero (b_openUntil b)" and "b_openUntil b \<le> a" and "0 \<le> a" and "0 \<le> b_probeInterval b"
    and "\<forall>t \<in> set ts. t < a + b_probeInterval b"
  shows "fleet.admitted (snd (fleet.burst b (a # ts))) = [Admit True]"
  using fleet.burst_half_open [of b a ts] assms
  by (simp add: br_closed_def br_blocked_def br_sane_def br_covered_def)

lemma half_open_burst_admits_one_probe_witness:
  "fleet.admitted (snd (fleet.burst (w_breaker\<lparr>b_openUntil := 5\<rparr>) [7, 7, 9, 7])) = [Admit True]"
  by (rule half_open_burst_admits_one_probe)
    (simp_all add: w_breaker_def new_breaker_def is_zero_def zero_time_def defaultBreakerProbe_def time_simps)

text \<open>Once a probe has been admitted, no request is admitted before a full probe interval
  has passed unless a success closed the circuit in between, whatever push-backs, successes and
  requests other callers interleave.\<close>

theorem probes_are_spaced:
  assumes "br_allow (Some b) a = (Some b1, p, True, w)" and "bp_probe p"
    and "chronological a evs" and "br_run (Some b1) evs = Some b2"
    and "b_probeInterval b \<le> b_cooldown b" and "b_probeInterval b \<le> maxBreakerCooldown"
    and "t < a + b_probeInterval b"
  shows "is_zero (b_openUntil b2) \<or> (\<exists>d. br_allow (Some b2) t = (Some b2, zero_permit, False, d))"
proof -
  have "line_held b1 a b1"
    using assms(1,2) by (auto simp: line_held_def configured_def split: if_splits)
  moreover have c: "b_probeInterval b1 = b_probeInterval b" "b_cooldown b1 = b_cooldown b"
    using assms(1) by (auto split: if_splits)
  moreover have "line_held b1 a x'" if "line_held b1 a x" "e \<in> set evs" "br_step (Some x) e = Some x'" for x e x'
    by (rule line_held_step [OF that(1) chronological_ge [OF assms(3) that(2)] that(3)])
      (use c assms(5,6) in simp_all)
  ultimately have "\<exists>b'. br_run (Some b1) evs = Some b' \<and> line_held b1 a b'"
    by (intro br_run_step) blast+
  then have "line_held b1 a b2" using assms(4) by simp
  then show ?thesis using c assms(7) by (auto simp: line_held_def br_closed_def)
qed

lemma probes_are_spaced_witness:
  "\<exists>d. br_allow (Some (w_breaker\<lparr>b_openUntil := 7 + 30 * second\<rparr>)) 20 =
     (Some (w_breaker\<lparr>b_openUntil := 7 + 30 * second\<rparr>), zero_permit, False, d)"
  using probes_are_spaced [of "w_breaker\<lparr>b_openUntil := 5\<rparr>" 7 "w_breaker\<lparr>b_openUntil := 7 + 30 * second\<rparr>"
    "\<lparr>bp_probe = True, bp_gen = 0\<rparr>" 0 "[BAllow 8]" "w_breaker\<lparr>b_openUntil := 7 + 30 * second\<rparr>" 20]
  by (simp add: w_breaker_def new_breaker_def is_zero_def zero_time_def defaultBreakerProbe_def
    defaultBreakerCooldown_def maxBreakerCooldown_def time_simps)

text \<open>No response can stop the fleet for long: whatever Retry-After values the edge sends, and
  in whatever order calls come, the circuit is never paused for more than half an hour (or one
  probe interval, if that were longer) after the last call.\<close>

theorem pause_is_bounded:
  assumes "br_run (Some b) evs = Some b'" and "chronological t evs" and "is_zero (b_openUntil b)"
    and "t \<le> u" and "\<forall>e \<in> set evs. ev_time e \<le> u"
  shows "snd (br_state (Some b') u) \<le> max maxBreakerCooldown (b_probeInterval b)"
proof -
  let ?M = "max maxBreakerCooldown (b_probeInterval b)"
  have "bounded_pause b t b" using assms(3) by (simp add: bounded_pause_def configured_def br_closed_def)
  then have *: "bounded_pause b u b'"
    using bounded_pause_run [OF assms(1,2) _ assms(5,4)] by blast
  have "0 \<le> ?M" using max_cooldown_pos by simp
  moreover have "b_openUntil b' - u \<le> ?M" if "\<not> is_zero (b_openUntil b')"
    using * that by (simp add: bounded_pause_def br_closed_def)
  ultimately show ?thesis by (simp add: tsub_le del: max.bounded_iff le_max_iff_disj)
qed

lemma pause_is_bounded_witness:
  "snd (br_state (Some (w_breaker\<lparr>b_threshold := 1, b_recent := [(''a'', 5)], b_lastPushback := 5,
     b_openUntil := 5 + 30 * minute, b_generation := 1\<rparr>)) 6) \<le> max maxBreakerCooldown defaultBreakerProbe"
  using pause_is_bounded [of "w_breaker\<lparr>b_threshold := 1\<rparr>" "[BPushback 5 ''a'' (86400 * second)]"
    "w_breaker\<lparr>b_threshold := 1, b_recent := [(''a'', 5)], b_lastPushback := 5,
     b_openUntil := 5 + 30 * minute, b_generation := 1\<rparr>" 0 6]
  by (simp add: w_breaker_def new_breaker_def is_zero_def zero_time_def br_blocked_def put_def del_def
    defaultBreakerThreshold_def defaultBreakerWindow_def defaultBreakerCooldown_def defaultBreakerProbe_def
    maxBreakerCooldown_def tsub_def min_dur_def max_dur_def time_simps)

text \<open>C12: A success closes an open circuit only with the permit of the current half-open probe: an
  ordinary permit never does, and a probe's permit never does once any push-back has paused the
  fleet since it was handed out, however the (fewer than \<open>2^64\<close>) calls in between interleave.\<close>

theorem stale_permit_never_closes:
  assumes "br_allow (Some b) a = (Some b1, p, ok, w)"
    and "\<not> bp_probe p
     \<or> (br_run (Some b1) evs = Some bm \<and> br_onPushback (Some bm) t owner ra = (Some bn, opened)
        \<and> br_blocked bn t \<and> br_run (Some bn) evs' = Some b2 \<and> length evs + length evs' + 1 < 2 ^ 64)"
  shows "snd (br_onSuccess (Some b2) t' owner' p) = False
     \<and> map_option b_openUntil (fst (br_onSuccess (Some b2) t' owner' p)) = Some (b_openUntil b2)"
proof -
  have "\<not> (bp_probe p \<and> bp_gen p = b_generation b2)"
  proof (cases "bp_probe p")
    case True
    with assms have r: "br_run (Some b1) evs = Some bm" "br_onPushback (Some bm) t owner ra = (Some bn, opened)"
      "br_blocked bn t" "br_run (Some bn) evs' = Some b2" "length evs + length evs' + 1 < 2 ^ 64" by simp_all
    have g: "bp_gen p = b_generation b1" using assms(1) True by (auto split: if_splits simp: zero_permit_def)
    obtain k1 where k1: "k1 \<le> length evs" "b_generation bm = b_generation b1 + of_nat k1"
      using generation_run [OF r(1)] by blast
    obtain k2 where k2: "k2 \<le> length evs'" "b_generation b2 = b_generation bn + of_nat k2"
      using generation_run [OF r(4)] by blast
    have "b_generation bn = b_generation bm + 1"
      using r(2,3) by (auto simp: Let_def br_blocked_def split: if_splits)
    with k1 k2 have "b_generation b2 = b_generation b1 + of_nat (k1 + k2 + 1)" by simp
    moreover have "(of_nat (k1 + k2 + 1) :: 64 word) \<noteq> 0"
      using k1(1) k2(1) r(5) by (intro of_nat_small_nonzero) auto
    ultimately show ?thesis using g by (simp only: add_cancel_left_right) auto
  qed simp
  then show ?thesis by (auto simp: Let_def)
qed

lemma stale_permit_never_closes_witness:
  "snd (br_onSuccess (Some (w_breaker\<lparr>b_openUntil := 9\<rparr>)) 6 ''a'' \<lparr>bp_probe = False, bp_gen = 0\<rparr>) = False"
  using stale_permit_never_closes [of w_breaker 0 w_breaker "\<lparr>bp_probe = False, bp_gen = 0\<rparr>" True 0 "[]" w_breaker
    0 "[]" 0 w_breaker False "[]" "w_breaker\<lparr>b_openUntil := 9\<rparr>" 6 "''a''"]
  by (simp add: w_breaker_def new_breaker_def is_zero_def)

section \<open>Restarts\<close>

definition restart_row :: "breaker_row \<Rightarrow> time \<times> time \<times> 64 word" where
  "restart_row r = (br_OpenUntil r, br_LastPushback r, br_Generation r)"

text \<open>A pause survives a restart: when the state of a paused or half-open breaker has been
  saved over an older row, a new process that loads the row and restores it refuses every request
  the old one would have refused up to a second before the end of the pause, and once the pause
  is over it admits a single probe and not the whole burst.\<close>

theorem restart_resumes_the_episode:
  assumes "0 \<le> b_openUntil b" and "unat (b_generation b) < 2 ^ 63"
    and "case row of None \<Rightarrow> True | Some r \<Rightarrow> unat (br_Generation r) \<le> unat (b_generation b)"
    and "fresh = new_breaker (b_threshold b) (b_window b) (b_cooldown b) (b_probeInterval b)"
  shows "\<exists>row' b'. SaveBreakerState row (row_of (br_snapshot (Some b))) = Some row'
     \<and> br_restore (Some fresh) (restart_row (LoadBreakerState row')) = Some b'
     \<and> b_generation b' = b_generation b
     \<and> (\<forall>now. now < b_openUntil b - second \<longrightarrow> br_blocked b' now)
     \<and> (\<forall>now. b_openUntil b \<le> now \<longrightarrow>
          br_allow (Some b') now = (Some (b'\<lparr>b_openUntil := now + b_probeInterval b\<rparr>),
            \<lparr>bp_probe = True, bp_gen = b_generation b\<rparr>, True, 0))"
proof -
  let ?r = "\<lparr>br_OpenUntil = whole_seconds (b_openUntil b), br_Generation = b_generation b,
     br_LastPushback = whole_seconds (b_lastPushback b)\<rparr>"
  let ?b = "fresh\<lparr>b_openUntil := whole_seconds (b_openUntil b), b_lastPushback := whole_seconds (b_lastPushback b),
     b_generation := b_generation b\<rparr>"
  have "SaveBreakerState row (row_of (br_snapshot (Some b))) = Some (Some ?r)"
    using assms(2,3) by (auto simp: SaveBreakerState_def row_of_def split: option.splits)
  moreover have "br_restore (Some fresh) (restart_row (LoadBreakerState (Some ?r))) = Some ?b"
    using whole_seconds_not_zero [OF assms(1)] assms(4)
    by (auto simp: restart_row_def LoadBreakerState_def new_breaker_def Let_def word_gt_0)
  moreover have "now < b_openUntil b - second \<Longrightarrow> br_blocked ?b now" for now
    using whole_seconds_not_zero [OF assms(1)] whole_seconds_bounds [of "b_openUntil b"]
    by (simp add: br_blocked_def)
  moreover have "b_openUntil b \<le> now \<Longrightarrow> br_allow (Some ?b) now = (Some (?b\<lparr>b_openUntil := now + b_probeInterval b\<rparr>),
            \<lparr>bp_probe = True, bp_gen = b_generation b\<rparr>, True, 0)" for now
    using whole_seconds_not_zero [OF assms(1)] whole_seconds_bounds [of "b_openUntil b"] assms(4)
    by (simp add: new_breaker_def)
  ultimately show ?thesis
    by (intro exI [of _ "Some ?r"] exI [of _ ?b]) simp
qed

lemma restart_resumes_the_episode_witness:
  "\<exists>row' b'. SaveBreakerState None (row_of (br_snapshot (Some (w_breaker\<lparr>b_openUntil := 90 * second, b_generation := 7\<rparr>)))) = Some row'
     \<and> br_restore (Some w_breaker) (restart_row (LoadBreakerState row')) = Some b'
     \<and> br_blocked b' (80 * second)"
proof -
  let ?b = "w_breaker\<lparr>b_openUntil := 90 * second, b_generation := 7\<rparr>"
  have "\<exists>row' b'. SaveBreakerState None (row_of (br_snapshot (Some ?b))) = Some row'
     \<and> br_restore (Some w_breaker) (restart_row (LoadBreakerState row')) = Some b'
     \<and> b_generation b' = b_generation ?b
     \<and> (\<forall>now. now < b_openUntil ?b - second \<longrightarrow> br_blocked b' now)
     \<and> (\<forall>now. b_openUntil ?b \<le> now \<longrightarrow>
          br_allow (Some b') now = (Some (b'\<lparr>b_openUntil := now + b_probeInterval ?b\<rparr>),
            \<lparr>bp_probe = True, bp_gen = b_generation ?b\<rparr>, True, 0))"
    by (rule restart_resumes_the_episode) (simp_all add: w_breaker_def new_breaker_def second_def)
  then show ?thesis by (auto simp: second_def)
qed

text \<open>Saves that race to the database.\<close>

definition save_all :: "breaker_row list \<Rightarrow> breaker_row option \<Rightarrow> breaker_row option" where
  "save_all rs row = foldl (\<lambda>row r. the (SaveBreakerState row r)) row rs"

definition stored :: "breaker_row \<Rightarrow> breaker_row" where
  "stored r = \<lparr>br_OpenUntil = whole_seconds (br_OpenUntil r), br_Generation = br_Generation r,
     br_LastPushback = whole_seconds (br_LastPushback r)\<rparr>"

lemma save_all_latest:
  "\<forall>r \<in> set rs. unat (br_Generation r) < 2 ^ 63 \<Longrightarrow> save_all rs (Some r0) = Some r \<Longrightarrow>
     (r = r0 \<or> r \<in> stored ` set rs) \<and> (\<forall>x \<in> set rs. unat (br_Generation x) \<le> unat (br_Generation r))
     \<and> unat (br_Generation r0) \<le> unat (br_Generation r)"
proof (induction rs arbitrary: r0)
  case (Cons x rs)
  have s: "the (SaveBreakerState (Some r0) x)
     = Some (if unat (br_Generation r0) \<le> unat (br_Generation x) then stored x else r0)"
    using Cons.prems(1) by (simp add: SaveBreakerState_def stored_def not_le)
  show ?case
  proof (cases "unat (br_Generation r0) \<le> unat (br_Generation x)")
    case True
    with Cons s have "(r = stored x \<or> r \<in> stored ` set rs) \<and> (\<forall>y \<in> set rs. unat (br_Generation y) \<le> unat (br_Generation r))
       \<and> unat (br_Generation (stored x)) \<le> unat (br_Generation r)"
      by (simp add: save_all_def)
    with True show ?thesis by (auto simp: stored_def)
  next
    case False
    with Cons s have "(r = r0 \<or> r \<in> stored ` set rs) \<and> (\<forall>y \<in> set rs. unat (br_Generation y) \<le> unat (br_Generation r))
       \<and> unat (br_Generation r0) \<le> unat (br_Generation r)"
      by (simp add: save_all_def)
    with False show ?thesis by auto
  qed
qed (simp add: save_all_def)

lemma save_all_Some:
  "\<forall>r \<in> set rs. unat (br_Generation r) < 2 ^ 63 \<Longrightarrow> \<exists>r. save_all rs (Some r0) = Some r"
  by (induction rs arbitrary: r0) (auto simp: save_all_def SaveBreakerState_def not_le)

text \<open>Snapshots that race to the database cannot resurrect a pause: in whatever order they land,
  the row ends up holding the snapshot of the latest generation.\<close>

theorem racing_saves_keep_the_latest:
  assumes "r \<in> set rs" and "\<forall>x \<in> set rs. x \<noteq> r \<longrightarrow> unat (br_Generation x) < unat (br_Generation r)"
    and "unat (br_Generation r) < 2 ^ 63"
    and "case row of None \<Rightarrow> True | Some r0 \<Rightarrow> unat (br_Generation r0) < unat (br_Generation r)"
  shows "save_all rs row = Some (stored r)"
proof -
  have small: "\<forall>x \<in> set rs. unat (br_Generation x) < 2 ^ 63" using assms(2,3) by (metis order_less_trans)
  have key: "save_all xs (Some r0) = Some (stored r)"
    if r0: "r0 = stored r \<or> (unat (br_Generation r0) < unat (br_Generation r) \<and> r \<in> set xs)" "set xs \<subseteq> set rs" for xs r0
  proof -
    have sm: "\<forall>x \<in> set xs. unat (br_Generation x) < 2 ^ 63" using small r0(2) by blast
    then obtain z where z: "save_all xs (Some r0) = Some z" using save_all_Some by blast
    note L = save_all_latest [OF sm z]
    have "unat (br_Generation r) \<le> unat (br_Generation z)" using L r0(1) by (auto simp: stored_def)
    then have "z \<noteq> r0 \<or> r0 = stored r" using r0(1) by auto
    moreover have "z \<in> stored ` set xs \<Longrightarrow> z = stored r"
      using \<open>unat (br_Generation r) \<le> unat (br_Generation z)\<close> assms(2) r0(2)
      by (fastforce simp: stored_def dest: leD)
    ultimately show ?thesis using L z by auto
  qed
  show ?thesis
  proof (cases row)
    case (Some r0)
    then show ?thesis using key [of r0 rs] assms(1,4) by simp
  next
    case None
    obtain x xs where rs: "rs = x # xs" using assms(1) by (cases rs) auto
    have "save_all rs None = save_all xs (Some (stored x))"
      using small rs by (simp add: save_all_def SaveBreakerState_def stored_def not_le)
    moreover have "stored x = stored r \<or> (unat (br_Generation (stored x)) < unat (br_Generation r) \<and> r \<in> set xs)"
      using assms(1,2) rs by (auto simp: stored_def)
    ultimately show ?thesis using key [of "stored x" xs] rs None by auto
  qed
qed

lemma racing_saves_keep_the_latest_witness:
  "save_all [\<lparr>br_OpenUntil = zero_time, br_Generation = 2, br_LastPushback = 5 * second\<rparr>,
     \<lparr>br_OpenUntil = 300 * second, br_Generation = 1, br_LastPushback = 5 * second\<rparr>] None
   = Some (stored \<lparr>br_OpenUntil = zero_time, br_Generation = 2, br_LastPushback = 5 * second\<rparr>)"
  by (rule racing_saves_keep_the_latest) simp_all

end
