(* ===== verification/AuthCircuit.thy ===== *)
theory AuthCircuit
  imports Breaker
begin

text \<open>
  \<open>internal/provider/orikan/authcircuit.go\<close>: the circuit of the authorise surface, one per
  council client, and the gate and bookkeeping around one authorise in
  \<open>internal/provider/orikan/oidc.go\<close> (\<open>authorizeWithCookie\<close>, \<open>recordAuthorizeOutcome\<close>). The
  network half, \<open>doAuthorize\<close>, is the HTTP status and error it returns.

  The concurrent behaviour is a step relation: requests are admitted by the gate, stay in
  flight, and report their outcome within the HTTP client's time limit, in any interleaving.
\<close>

section \<open>The circuit\<close>

definition authTripThreshold :: int where "authTripThreshold = 3"
definition authProbeBase :: dur where "authProbeBase = 1 * minute"
definition authProbeMax :: dur where "authProbeMax = 15 * minute"

record auth_circuit =
  a_fails :: int
  a_openUntil :: time
  a_backoff :: dur
  a_probing :: bool

definition new_circuit :: auth_circuit where
  "new_circuit = \<lparr>a_fails = 0, a_openUntil = zero_time, a_backoff = 0, a_probing = False\<rparr>"

definition ac_remaining :: "auth_circuit \<Rightarrow> time \<Rightarrow> dur" where
  "ac_remaining a now = (let d = tsub (a_openUntil a) now in if 0 < d then d else 0)"

text \<open>\<open>allow\<close>: the new state, whether this is the probe, whether it may go, the retry delay.\<close>

definition ac_allow :: "auth_circuit \<Rightarrow> time \<Rightarrow> auth_circuit \<times> bool \<times> bool \<times> dur" where
  "ac_allow a now =
     (if is_zero (a_openUntil a) then (a, False, True, 0)
      else if a_probing a then
        (let r = ac_remaining a now in if 0 < r then (a, False, False, r) else (a, False, False, a_backoff a))
      else if now < a_openUntil a then (a, False, False, tsub (a_openUntil a) now)
      else (a\<lparr>a_probing := True\<rparr>, True, True, 0))"

definition ac_onUpstreamFailure :: "auth_circuit \<Rightarrow> time \<Rightarrow> bool \<Rightarrow> auth_circuit" where
  "ac_onUpstreamFailure a now wasProbe =
     (if wasProbe then
        (let b = wrap64 (a_backoff a * 2);
             b = (if authProbeMax < b then authProbeMax else b)
         in a\<lparr>a_probing := False, a_backoff := b, a_openUntil := now + b\<rparr>)
      else if \<not> is_zero (a_openUntil a) then a
      else (let a' = a\<lparr>a_fails := a_fails a + 1\<rparr>
            in if authTripThreshold \<le> a_fails a'
               then a'\<lparr>a_backoff := authProbeBase, a_openUntil := now + authProbeBase\<rparr>
               else a'))"

definition ac_onSuccess :: "auth_circuit \<Rightarrow> bool \<Rightarrow> auth_circuit" where
  "ac_onSuccess a wasProbe =
     (let a' = (if wasProbe then a\<lparr>a_probing := False\<rparr> else a)
      in a'\<lparr>a_fails := 0, a_openUntil := zero_time, a_backoff := 0\<rparr>)"

definition ac_onInconclusive :: "auth_circuit \<Rightarrow> time \<Rightarrow> bool \<Rightarrow> auth_circuit" where
  "ac_onInconclusive a now wasProbe =
     (if wasProbe then
        (let a' = a\<lparr>a_probing := False\<rparr>
         in if \<not> is_zero (a_openUntil a') then a'\<lparr>a_openUntil := now + a_backoff a'\<rparr> else a')
      else a)"

definition ac_state :: "auth_circuit \<Rightarrow> time \<Rightarrow> bool \<times> dur" where
  "ac_state a now = (if is_zero (a_openUntil a) then (False, 0) else (True, ac_remaining a now))"

section \<open>One authorise\<close>

definition recordAuthorizeOutcome :: "auth_circuit \<Rightarrow> time \<Rightarrow> bool \<Rightarrow> int \<Rightarrow> err option \<Rightarrow> auth_circuit" where
  "recordAuthorizeOutcome a now probe status e = (let sig = classify e in
     if g_OK sig \<or> g_Expiry sig then ac_onSuccess a probe
     else if g_Pushback sig \<noteq> None \<or> g_Canceled sig then ac_onInconclusive a now probe
     else if status = 0 \<or> 500 \<le> status then ac_onUpstreamFailure a now probe
     else ac_onInconclusive a now probe)"

definition authBackoffErr :: err where
  "authBackoffErr = Wrapped ''council sign-in is temporarily unavailable'' (Sentinel ErrUnavailable)"

text \<open>The gate and the bookkeeping of one authorise that nothing else interleaves with: the
  network half is \<open>net\<close>, which is not called when the gate refuses.\<close>

definition authorizeWithCookie ::
  "auth_circuit \<Rightarrow> time \<Rightarrow> time \<Rightarrow> (string \<times> string \<times> int \<times> err option) \<Rightarrow>
   auth_circuit \<times> string \<times> string \<times> err option" where
  "authorizeWithCookie a now now' net = (case ac_allow a now of (a', probe, ok, retry) \<Rightarrow>
     if \<not> ok then (a', [], [], Some authBackoffErr)
     else (case net of (code, newCookie, status, e) \<Rightarrow>
             (recordAuthorizeOutcome a' now' probe status e, code, newCookie, e)))"

section \<open>The contract, for the circuit\<close>

definition ac_gate :: "auth_circuit \<Rightarrow> time \<Rightarrow> auth_circuit \<times> verdict" where
  "ac_gate a t = (case ac_allow a t of (a', probe, ok, retry) \<Rightarrow> (a', if ok then Admit probe else Refuse retry))"

definition ac_closed :: "auth_circuit \<Rightarrow> bool" where
  "ac_closed a \<longleftrightarrow> is_zero (a_openUntil a)"

definition ac_refusing :: "auth_circuit \<Rightarrow> time \<Rightarrow> bool" where
  "ac_refusing a t \<longleftrightarrow> \<not> ac_closed a \<and> (a_probing a \<or> t < a_openUntil a)"

interpretation auth: circuit_gate ac_gate ac_closed ac_refusing "\<lambda>a t. True" "\<lambda>a s t. True"
  by unfold_locales
    (auto simp: ac_gate_def ac_closed_def ac_refusing_def ac_allow_def Let_def)

section \<open>Interleavings\<close>

text \<open>
  The circuit, the clock and the requests in flight, each with its admission time and whether it
  is the probe. \<open>limit\<close> is the longest a request can be in flight (the HTTP client's timeout).
\<close>

record auth_system =
  y_circuit :: auth_circuit
  y_clock :: time
  y_inflight :: "(time \<times> bool) list"

definition httpTimeout :: dur where "httpTimeout = 30 * second"

inductive auth_step :: "auth_system \<Rightarrow> auth_system \<Rightarrow> bool" where
  Request: "y_clock y \<le> t \<Longrightarrow> ac_allow (y_circuit y) t = (a', probe, True, w) \<Longrightarrow>
     auth_step y (y\<lparr>y_circuit := a', y_clock := t, y_inflight := (t, probe) # y_inflight y\<rparr>)"
| Refusal: "y_clock y \<le> t \<Longrightarrow> ac_allow (y_circuit y) t = (a', probe, False, w) \<Longrightarrow>
     auth_step y (y\<lparr>y_circuit := a', y_clock := t\<rparr>)"
| Outcome: "y_clock y \<le> t \<Longrightarrow> y_inflight y = xs @ (s, probe) # zs \<Longrightarrow> t \<le> s + httpTimeout \<Longrightarrow>
     auth_step y (y\<lparr>y_circuit := recordAuthorizeOutcome (y_circuit y) t probe status e,
       y_clock := t, y_inflight := xs @ zs\<rparr>)"

inductive auth_reachable :: "auth_system \<Rightarrow> bool" where
  start: "0 \<le> t \<Longrightarrow> auth_reachable \<lparr>y_circuit = new_circuit, y_clock = t, y_inflight = []\<rparr>"
| step: "auth_reachable y \<Longrightarrow> auth_step y y' \<Longrightarrow> auth_reachable y'"

definition probes_in_flight :: "auth_system \<Rightarrow> nat" where
  "probes_in_flight y = length (filter snd (y_inflight y))"

text \<open>The invariant: the probing flag counts the probe in flight; a closed circuit has none; an
  open one has a proper backoff, and every ordinary request still in flight must report before
  the first probe may go.\<close>

definition open_ok :: "auth_system \<Rightarrow> bool" where
  "open_ok y \<longleftrightarrow> (let a = y_circuit y in
     authProbeBase \<le> a_backoff a \<and> a_backoff a \<le> authProbeMax
     \<and> (\<forall>s. (s, False) \<in> set (y_inflight y) \<longrightarrow> s + httpTimeout < a_openUntil a)
     \<and> (a_probing a \<longrightarrow> a_openUntil a \<le> y_clock y))"

definition auth_inv :: "auth_system \<Rightarrow> bool" where
  "auth_inv y \<longleftrightarrow> 0 \<le> y_clock y
     \<and> (\<forall>s p. (s, p) \<in> set (y_inflight y) \<longrightarrow> s \<le> y_clock y)
     \<and> probes_in_flight y = (if a_probing (y_circuit y) then 1 else 0)
     \<and> (if ac_closed (y_circuit y) then \<not> a_probing (y_circuit y) else open_ok y)"

lemma auth_inv_request:
  assumes "auth_inv y" and "y_clock y \<le> t" and "ac_allow (y_circuit y) t = (a', probe, True, w)"
  shows "auth_inv (y\<lparr>y_circuit := a', y_clock := t, y_inflight := (t, probe) # y_inflight y\<rparr>)"
proof (cases "ac_closed (y_circuit y)")
  case True
  then have "a' = y_circuit y" "probe = False" using assms(3) by (simp_all add: ac_allow_def ac_closed_def)
  with True assms show ?thesis by (auto simp: auth_inv_def probes_in_flight_def)
next
  case False
  then have "a' = (y_circuit y)\<lparr>a_probing := True\<rparr>" "probe" "\<not> a_probing (y_circuit y)" "a_openUntil (y_circuit y) \<le> t"
    using assms(3) by (auto simp: ac_allow_def ac_closed_def Let_def split: if_splits)
  with False assms show ?thesis
    by (auto simp: auth_inv_def probes_in_flight_def open_ok_def Let_def ac_closed_def)
qed

lemma auth_inv_refusal:
  assumes "auth_inv y" and "y_clock y \<le> t" and "ac_allow (y_circuit y) t = (a', probe, False, w)"
  shows "auth_inv (y\<lparr>y_circuit := a', y_clock := t\<rparr>)"
proof -
  have "a' = y_circuit y" using assms(3) by (auto simp: ac_allow_def Let_def split: if_splits)
  with assms(1,2) show ?thesis by (force simp: auth_inv_def probes_in_flight_def open_ok_def Let_def)
qed

lemma backoff_doubles:
  assumes "authProbeBase \<le> b" and "b \<le> authProbeMax"
  shows "wrap64 (b * 2) = b * 2"
  using assms by (intro wrap64_id) (simp_all add: authProbeBase_def authProbeMax_def time_simps min_dur_def max_dur_def)

lemma later_not_zero: "0 \<le> t \<Longrightarrow> authProbeBase \<le> d \<Longrightarrow> \<not> is_zero (t + d)"
  by (simp add: is_zero_def zero_time_def authProbeBase_def time_simps)

lemma timeout_below_base: "httpTimeout < authProbeBase"
  by (simp add: httpTimeout_def authProbeBase_def time_simps)

lemma base_below_max: "authProbeBase \<le> authProbeMax" "0 < authProbeBase"
  by (simp_all add: authProbeMax_def authProbeBase_def time_simps)

lemma record_cases:
  "recordAuthorizeOutcome a t probe status e \<in>
     {ac_onSuccess a probe, ac_onInconclusive a t probe, ac_onUpstreamFailure a t probe}"
  by (simp add: recordAuthorizeOutcome_def Let_def)

lemma auth_inv_outcome:
  assumes "auth_inv y" and "y_clock y \<le> t" and "y_inflight y = xs @ (s, probe) # zs" and "t \<le> s + httpTimeout"
    and a': "a' \<in> {ac_onSuccess (y_circuit y) probe, ac_onInconclusive (y_circuit y) t probe,
       ac_onUpstreamFailure (y_circuit y) t probe}"
  shows "auth_inv (y\<lparr>y_circuit := a', y_clock := t, y_inflight := xs @ zs\<rparr>)"
proof -
  let ?a = "y_circuit y"
  have t: "0 \<le> t" using assms(1,2) by (simp add: auth_inv_def)
  have rest: "set (xs @ zs) \<subseteq> set (y_inflight y)" using assms(3) by auto
  have old: "u \<le> t" if "(u, p) \<in> set (xs @ zs)" for u p
  proof -
    have "(u, p) \<in> set (y_inflight y)" using that rest by blast
    then have "u \<le> y_clock y" using assms(1) unfolding auth_inv_def by blast
    with assms(2) show ?thesis by simp
  qed
  show ?thesis
  proof (cases probe)
    case True
    then have pr: "a_probing ?a" and none: "filter snd (xs @ zs) = []"
      using assms(1,3) by (auto simp: auth_inv_def probes_in_flight_def split: if_splits)
    then have op: "\<not> ac_closed ?a" "open_ok y" using assms(1) by (auto simp: auth_inv_def split: if_splits)
    have b: "authProbeBase \<le> a_backoff ?a" "a_backoff ?a \<le> authProbeMax" and le: "a_openUntil ?a \<le> t"
      and out: "\<And>u. (u, False) \<in> set (xs @ zs) \<Longrightarrow> u + httpTimeout < a_openUntil ?a"
      using op(2) pr assms(2,3) by (auto simp: open_ok_def Let_def)
    have late: "\<And>u d. (u, False) \<in> set (xs @ zs) \<Longrightarrow> authProbeBase \<le> d \<Longrightarrow> u + httpTimeout < t + d"
      using out le base_below_max(2) by force
    define d where "d = (if authProbeMax < a_backoff ?a * 2 then authProbeMax else a_backoff ?a * 2)"
    have d: "authProbeBase \<le> d" "d \<le> authProbeMax" using b base_below_max by (auto simp: d_def)
    consider (ok) "a' = ?a\<lparr>a_probing := False, a_fails := 0, a_openUntil := zero_time, a_backoff := 0\<rparr>"
      | (inc) "a' = ?a\<lparr>a_probing := False, a_openUntil := t + a_backoff ?a\<rparr>"
      | (up) "a' = ?a\<lparr>a_probing := False, a_backoff := d, a_openUntil := t + d\<rparr>"
      using a' True op(1) backoff_doubles [OF b]
      by (auto simp: ac_onSuccess_def ac_onInconclusive_def ac_onUpstreamFailure_def Let_def ac_closed_def d_def)
    then show ?thesis
    proof cases
      case ok
      with t old none show ?thesis by (auto simp: auth_inv_def probes_in_flight_def ac_closed_def is_zero_def)
    next
      case inc
      with t old none b late later_not_zero [OF t b(1)] show ?thesis
        by (auto simp: auth_inv_def probes_in_flight_def ac_closed_def open_ok_def)
    next
      case up
      with t old none d late later_not_zero [OF t d(1)] show ?thesis
        by (auto simp: auth_inv_def probes_in_flight_def ac_closed_def open_ok_def)
    qed
  next
    case False
    have cnt: "length (filter snd (xs @ zs)) = (if a_probing ?a then 1 else 0)"
      using assms(1,3) False by (simp add: auth_inv_def probes_in_flight_def)
    show ?thesis
    proof (cases "ac_closed ?a")
      case True
      then have np: "\<not> a_probing ?a" using assms(1) by (auto simp: auth_inv_def split: if_splits)
      have fresh: "\<And>u. (u, False) \<in> set (xs @ zs) \<Longrightarrow> u + httpTimeout < t + authProbeBase"
        using old timeout_below_base by force
      consider (shut) "ac_closed a'" "a_probing a' = a_probing ?a"
        | (trip) "a' = ?a\<lparr>a_fails := a_fails ?a + 1, a_backoff := authProbeBase, a_openUntil := t + authProbeBase\<rparr>"
        using a' False True
        by (auto simp: ac_onSuccess_def ac_onInconclusive_def ac_onUpstreamFailure_def Let_def ac_closed_def is_zero_def
          split: if_splits)
      then show ?thesis
      proof cases
        case shut
        with t old cnt np show ?thesis by (auto simp: auth_inv_def probes_in_flight_def)
      next
        case trip
        with t old cnt np fresh base_below_max later_not_zero [OF t order_refl] show ?thesis
          by (auto simp: auth_inv_def probes_in_flight_def ac_closed_def open_ok_def)
      qed
    next
      case op: False
      then have ok: "open_ok y" using assms(1) by (auto simp: auth_inv_def split: if_splits)
      then have "t < a_openUntil ?a" using assms(3,4) False by (force simp: open_ok_def Let_def)
      then have np: "\<not> a_probing ?a" using ok assms(2) by (auto simp: open_ok_def Let_def)
      consider (shut) "ac_closed a'" "\<not> a_probing a'" | (same) "a' = ?a"
        using a' False op np
        by (auto simp: ac_onSuccess_def ac_onInconclusive_def ac_onUpstreamFailure_def Let_def ac_closed_def is_zero_def)
      then show ?thesis
      proof cases
        case shut
        with t old cnt np show ?thesis by (auto simp: auth_inv_def probes_in_flight_def)
      next
        case same
        with t old cnt np ok op assms(3) show ?thesis
          by (auto simp: auth_inv_def probes_in_flight_def open_ok_def Let_def)
      qed
    qed
  qed
qed

lemma auth_reachable_inv: "auth_reachable y \<Longrightarrow> auth_inv y"
proof (induction rule: auth_reachable.induct)
  case (start t)
  then show ?case by (simp add: auth_inv_def probes_in_flight_def new_circuit_def ac_closed_def is_zero_def)
next
  case (step y y')
  from step(2) show ?case
  proof (cases rule: auth_step.cases)
    case (Request t a' probe w)
    then show ?thesis using auth_inv_request [OF step.IH] by simp
  next
    case (Refusal t a' probe w)
    then show ?thesis using auth_inv_refusal [OF step.IH] by simp
  next
    case (Outcome t xs s probe zs status e)
    then show ?thesis using auth_inv_outcome [OF step.IH _ _ _ record_cases] by simp
  qed
qed

section \<open>Failing probes\<close>

text \<open>One failed probe: admitted at the first coordinate, failing at the second. A series of them
  is due when each is admitted once the previous wait is over.\<close>

definition failed_probe :: "auth_circuit \<Rightarrow> time \<times> time \<Rightarrow> auth_circuit" where
  "failed_probe a tt = ac_onUpstreamFailure (fst (ac_allow a (fst tt))) (snd tt) True"

primrec due :: "auth_circuit \<Rightarrow> (time \<times> time) list \<Rightarrow> bool" where
  "due a [] = True"
| "due a (tt # tts) = (0 \<le> snd tt \<and> a_openUntil a \<le> fst tt \<and> fst tt \<le> snd tt \<and> due (failed_probe a tt) tts)"

definition waiting :: "auth_circuit \<Rightarrow> bool" where
  "waiting a \<longleftrightarrow> \<not> ac_closed a \<and> \<not> a_probing a \<and> authProbeBase \<le> a_backoff a \<and> a_backoff a \<le> authProbeMax"

lemma failed_probe_step:
  assumes "waiting a" and "0 \<le> snd tt" and "a_openUntil a \<le> fst tt"
  shows "waiting (failed_probe a tt) \<and> a_backoff (failed_probe a tt) = min authProbeMax (2 * a_backoff a)
     \<and> a_openUntil (failed_probe a tt) = snd tt + a_backoff (failed_probe a tt)"
proof -
  have b: "authProbeBase \<le> a_backoff a" "a_backoff a \<le> authProbeMax" using assms(1) by (simp_all add: waiting_def)
  let ?b = "min authProbeMax (2 * a_backoff a)"
  have "failed_probe a tt = a\<lparr>a_probing := False, a_backoff := ?b, a_openUntil := snd tt + ?b\<rparr>"
    using assms backoff_doubles [OF b]
    by (auto simp: failed_probe_def ac_allow_def ac_onUpstreamFailure_def waiting_def ac_closed_def Let_def min_def)
  moreover have "authProbeBase \<le> ?b" using b base_below_max by simp
  ultimately show ?thesis using later_not_zero [OF assms(2)] by (simp add: waiting_def ac_closed_def)
qed

lemma failed_probes:
  assumes "waiting a" and "due a tts"
  shows "waiting (foldl failed_probe a tts)
     \<and> a_backoff (foldl failed_probe a tts) = min authProbeMax (2 ^ length tts * a_backoff a)"
  using assms
proof (induction tts arbitrary: a)
  case (Cons tt tts)
  note st = failed_probe_step [OF Cons.prems(1), of tt]
  have *: "waiting (failed_probe a tt)" "a_backoff (failed_probe a tt) = min authProbeMax (2 * a_backoff a)"
    using st Cons.prems(2) by simp_all
  have "2 ^ length tts * min authProbeMax (2 * a_backoff a)
     = min (2 ^ length tts * authProbeMax) (2 ^ length tts * (2 * a_backoff a))"
    by (simp add: min_mult_distrib_left)
  moreover have "authProbeMax \<le> 2 ^ length tts * authProbeMax"
    using base_below_max mult_right_mono [of 1 "2 ^ length tts" authProbeMax] by simp
  ultimately have "min authProbeMax (2 ^ length tts * min authProbeMax (2 * a_backoff a))
     = min authProbeMax (2 ^ length (tt # tts) * a_backoff a)"
    by (simp add: mult.assoc mult.left_commute)
  then show ?case using Cons.IH [OF *(1)] Cons.prems(2) *(2) by simp
qed (simp add: waiting_def)

section \<open>The time limit matters\<close>

text \<open>
  Without the bound on the time in flight the backoff can be lost: an ordinary request admitted
  before the circuit opened, whose success arrives while the probe is in flight, closes the
  circuit with backoff 0; the probe's failure then doubles 0, and every later probe fails into a
  wait of 0. The code never checks this; it rests on the client's timeout of 30 seconds being
  shorter than \<open>authProbeBase\<close>.
\<close>

lemma late_success_defeats_backoff:
  assumes "waiting a" and "a_openUntil a \<le> t" and "0 \<le> t"
  shows "let a1 = fst (ac_allow a t); a2 = ac_onSuccess a1 False; a3 = ac_onUpstreamFailure a2 t True
     in a_backoff a3 = 0 \<and> (case ac_allow a3 t of (a4, probe, ok, w) \<Rightarrow> probe \<and> ok)"
  using assms after_epoch_not_zero [OF assms(3)]
  by (simp add: ac_allow_def waiting_def ac_closed_def ac_onSuccess_def ac_onUpstreamFailure_def Let_def is_zero_def
    wrap64_id min_dur_def max_dur_def authProbeMax_def time_simps)

section \<open>Properties\<close>

definition w_circuit :: auth_circuit where
  "w_circuit = \<lparr>a_fails = 3, a_openUntil = 90 * second, a_backoff = authProbeBase, a_probing = False\<rparr>"

text \<open>However requests interleave, as long as each reports within the HTTP client's time limit:
  at most one recovery probe is in flight, none while the circuit is closed, and while it is open
  the wait between probes stays between one and fifteen minutes.\<close>

theorem auth_circuit_interleavings:
  assumes "auth_reachable y"
  shows "probes_in_flight y \<le> 1
     \<and> (is_zero (a_openUntil (y_circuit y)) \<longrightarrow> probes_in_flight y = 0)
     \<and> (\<not> is_zero (a_openUntil (y_circuit y)) \<longrightarrow>
          authProbeBase \<le> a_backoff (y_circuit y) \<and> a_backoff (y_circuit y) \<le> authProbeMax)"
  using auth_reachable_inv [OF assms]
  by (auto simp: auth_inv_def ac_closed_def open_ok_def Let_def split: if_splits)

lemma auth_circuit_interleavings_witness:
  "probes_in_flight \<lparr>y_circuit = new_circuit, y_clock = 8, y_inflight = [(8, False)]\<rparr> \<le> 1"
proof -
  have "auth_step \<lparr>y_circuit = new_circuit, y_clock = 5, y_inflight = []\<rparr>
     (\<lparr>y_circuit = new_circuit, y_clock = 5, y_inflight = []\<rparr>\<lparr>y_circuit := new_circuit, y_clock := 8,
        y_inflight := (8, False) # y_inflight \<lparr>y_circuit = new_circuit, y_clock = 5, y_inflight = []\<rparr>\<rparr>)"
    by (rule Request) (simp_all add: ac_allow_def new_circuit_def is_zero_def)
  then have "auth_reachable \<lparr>y_circuit = new_circuit, y_clock = 8, y_inflight = [(8, False)]\<rparr>"
    using auth_reachable.start [of 5] auth_reachable.step by fastforce
  from auth_circuit_interleavings [OF this] show ?thesis by blast
qed

text \<open>In an outage the probes back off: after \<open>n\<close> failed probes in a row the wait is the first
  wait doubled \<open>n\<close> times, capped at fifteen minutes, and the circuit is still open.\<close>

theorem failing_probes_back_off_exponentially:
  assumes "\<not> is_zero (a_openUntil a)" and "\<not> a_probing a"
    and "authProbeBase \<le> a_backoff a" and "a_backoff a \<le> authProbeMax" and "due a tts"
  shows "a_backoff (foldl failed_probe a tts) = min authProbeMax (2 ^ length tts * a_backoff a)
     \<and> \<not> is_zero (a_openUntil (foldl failed_probe a tts))"
  using failed_probes [OF _ assms(5)] assms(1-4) by (simp add: waiting_def ac_closed_def)

lemma failing_probes_back_off_exponentially_witness:
  "a_backoff (foldl failed_probe w_circuit [(90 * second, 95 * second), (300 * second, 310 * second)]) = 4 * minute"
  using failing_probes_back_off_exponentially [of w_circuit "[(90 * second, 95 * second), (300 * second, 310 * second)]"]
  by (simp add: w_circuit_def is_zero_def zero_time_def failed_probe_def ac_allow_def ac_onUpstreamFailure_def
    Let_def wrap64_id min_dur_def max_dur_def authProbeBase_def authProbeMax_def time_simps)

text \<open>While an open circuit is testing recovery, a burst of authorises gets exactly one through,
  the probe, and every other one is refused until the probe reports.\<close>

theorem auth_burst_admits_one_probe:
  assumes "\<not> is_zero (a_openUntil a)" and "\<not> a_probing a" and "a_openUntil a \<le> t"
  shows "auth.admitted (snd (auth.burst a (t # ts))) = [Admit True]"
  using auth.burst_half_open [of a t ts] assms by (simp add: ac_closed_def ac_refusing_def)

lemma auth_burst_admits_one_probe_witness:
  "auth.admitted (snd (auth.burst w_circuit [91 * second, 92 * second, 500 * second])) = [Admit True]"
  by (rule auth_burst_admits_one_probe) (simp_all add: w_circuit_def is_zero_def zero_time_def time_simps)

text \<open>What one authorise does to the circuit: a served answer, which includes a genuine expiry,
  closes it; an edge push-back or our own cancellation neither counts nor closes, whatever the
  status; of the other errors only a transport failure or a 5xx counts towards opening, and the
  third since the last success opens it for a minute.\<close>

theorem authorise_outcomes:
  assumes "is_zero (a_openUntil a)" and "\<not> a_probing a" and "e = None \<or> \<not> err_is (the e) ErrSessionExpired"
  shows "recordAuthorizeOutcome a now False status e =
     (if e = None then a\<lparr>a_fails := 0, a_openUntil := zero_time, a_backoff := 0\<rparr>
      else if as_unavailable (the e) \<noteq> None \<or> err_is (the e) Canceled then a
      else if status = 0 \<or> 500 \<le> status
      then (if 2 \<le> a_fails a
            then a\<lparr>a_fails := a_fails a + 1, a_openUntil := now + minute, a_backoff := minute\<rparr>
            else a\<lparr>a_fails := a_fails a + 1\<rparr>)
      else a)"
  using assms classify_facets [of e]
  by (cases e) (auto simp: recordAuthorizeOutcome_def ac_onSuccess_def ac_onInconclusive_def
    ac_onUpstreamFailure_def Let_def authTripThreshold_def authProbeBase_def)

lemma authorise_outcomes_witness:
  "recordAuthorizeOutcome (new_circuit\<lparr>a_fails := 2\<rparr>) 7 False 503
     (Some (Unavail \<lparr>u_RetryAfter = 0, u_Status = 503, u_Surface = SurfaceAuth, u_ContentType = [], u_Ref = []\<rparr>))
   = new_circuit\<lparr>a_fails := 2\<rparr>"
  using authorise_outcomes [of "new_circuit\<lparr>a_fails := 2\<rparr>" "Some (Unavail \<lparr>u_RetryAfter = 0, u_Status = 503,
     u_Surface = SurfaceAuth, u_ContentType = [], u_Ref = []\<rparr>)" 7 503]
  by (simp add: new_circuit_def is_zero_def)

end
