(* ===== verification/Governor.thy ===== *)
theory Governor
  imports Provider Calendar
begin

text \<open>
  \<open>internal/parking/governor.go\<close>: the lazy token bucket and the governor that combines two of
  them with a concurrency cap. The bucket's numbers are IEEE doubles: \<open>fl\<close> rounds after every
  operation. The clock reading of each attempt is an argument; a wait is the list of its
  attempts, each with whether the context was done by the time its timer would have fired.
\<close>

section \<open>The bucket\<close>

definition defaultGovTotalPerMin :: int where "defaultGovTotalPerMin = 60"
definition defaultGovTotalBurst :: int where "defaultGovTotalBurst = 10"
definition defaultGovLoginPerMin :: int where "defaultGovLoginPerMin = 12"
definition defaultGovLoginBurst :: int where "defaultGovLoginBurst = 6"
definition defaultGovConcurrency :: int where "defaultGovConcurrency = 4"

definition govOr :: "int \<Rightarrow> int \<Rightarrow> rat" where
  "govOr v def = (if v \<le> 0 then fl (of_int def) else fl (of_int v))"

definition govIntOr :: "int \<Rightarrow> int \<Rightarrow> int" where
  "govIntOr v def = (if v \<le> 0 then def else v)"

record token_bucket =
  k_tokens :: rat
  k_burst :: rat
  k_perSec :: rat
  k_last :: time

definition new_token_bucket :: "rat \<Rightarrow> rat \<Rightarrow> token_bucket" where
  "new_token_bucket perMin burst =
     \<lparr>k_tokens = burst, k_burst = burst, k_perSec = fl (perMin / 60), k_last = zero_time\<rparr>"

text \<open>\<open>Duration.Seconds\<close>.\<close>

definition seconds_f :: "dur \<Rightarrow> rat" where
  "seconds_f d = fl (fl (of_int (d sdiv second)) + fl (fl (of_int (d smod second)) / 1000000000))"

definition refill :: "token_bucket \<Rightarrow> time \<Rightarrow> token_bucket" where
  "refill tb now = (if \<not> is_zero (k_last tb) \<and> k_last tb < now
     then tb\<lparr>k_tokens := min (k_burst tb)
              (fl (k_tokens tb + fl (seconds_f (tsub now (k_last tb)) * k_perSec tb)))\<rparr>
     else tb)"

definition tryTake :: "token_bucket \<Rightarrow> time \<Rightarrow> token_bucket \<times> bool \<times> dur" where
  "tryTake tb0 now = (let tb = (refill tb0 now)\<lparr>k_last := now\<rparr> in
     if 1 \<le> k_tokens tb then (tb\<lparr>k_tokens := fl (k_tokens tb - 1)\<rparr>, True, 0)
     else if k_perSec tb \<le> 0 then (tb, False, hour)
     else (let need = fl (fl (1 - k_tokens tb) / k_perSec tb)
           in (tb, False, trunc (fl (need * 1000000000)))))"

text \<open>\<open>wait\<close>: \<open>None\<close> while still waiting, else whether it got a token (or the context ended).\<close>

primrec tb_wait :: "token_bucket \<Rightarrow> (time \<times> bool) list \<Rightarrow> token_bucket \<times> bool option" where
  "tb_wait tb [] = (tb, None)"
| "tb_wait tb (r # rs) = (case tryTake tb (fst r) of (tb', ok, d) \<Rightarrow>
     if ok then (tb', Some True) else if snd r then (tb', Some False) else tb_wait tb' rs)"

section \<open>The governor\<close>

record governor =
  gv_total :: token_bucket
  gv_login :: token_bucket
  gv_cap :: int
  gv_inUse :: int

definition new_governor :: "rat \<Rightarrow> rat \<Rightarrow> rat \<Rightarrow> rat \<Rightarrow> int \<Rightarrow> governor" where
  "new_governor totalPerMin totalBurst loginPerMin loginBurst concurrency =
     \<lparr>gv_total = new_token_bucket totalPerMin totalBurst,
      gv_login = new_token_bucket loginPerMin loginBurst,
      gv_cap = (if concurrency < 1 then 1 else concurrency), gv_inUse = 0\<rparr>"

definition loginFlowRequests :: int where "loginFlowRequests = 6"

definition per_request :: "token_bucket \<Rightarrow> dur" where
  "per_request tb = (if k_perSec tb \<le> 0 then 0 else trunc (fl (1000000000 / k_perSec tb)))"

fun loginBudget :: "governor option \<Rightarrow> dur" where
  "loginBudget None = 0"
| "loginBudget (Some g) =
     wrap64 (loginFlowRequests * wrap64 (per_request (gv_login g) + per_request (gv_total g)))"

datatype acquired = Acquired | Cancelled | Blocked

text \<open>
  \<open>acquire\<close>: the login surface waits on its own bucket first, everything waits on the total, then
  on a concurrency slot. \<open>cancelled\<close> says whether the context is done while waiting for the slot,
  \<open>pick\<close> which ready branch \<open>select\<close> takes when both are.
\<close>

definition acquire_slot :: "governor \<Rightarrow> bool \<Rightarrow> bool \<Rightarrow> governor \<times> acquired" where
  "acquire_slot g cancelled pick =
     (if gv_inUse g < gv_cap g \<and> (\<not> cancelled \<or> pick) then (g\<lparr>gv_inUse := gv_inUse g + 1\<rparr>, Acquired)
      else if cancelled then (g, Cancelled) else (g, Blocked))"

definition wait_total :: "governor \<Rightarrow> (time \<times> bool) list \<Rightarrow> bool \<Rightarrow> bool \<Rightarrow> governor \<times> acquired" where
  "wait_total g totals cancelled pick = (case tb_wait (gv_total g) totals of
     (tb, None) \<Rightarrow> (g\<lparr>gv_total := tb\<rparr>, Blocked)
   | (tb, Some False) \<Rightarrow> (g\<lparr>gv_total := tb\<rparr>, Cancelled)
   | (tb, Some True) \<Rightarrow> acquire_slot (g\<lparr>gv_total := tb\<rparr>) cancelled pick)"

fun acquire :: "governor option \<Rightarrow> surface \<Rightarrow> (time \<times> bool) list \<Rightarrow> (time \<times> bool) list \<Rightarrow> bool \<Rightarrow> bool \<Rightarrow>
    governor option \<times> acquired" where
  "acquire None sf logins totals cancelled pick = (None, Acquired)"
| "acquire (Some g) sf logins totals cancelled pick =
     (if sf = SurfaceLogin then
        (case tb_wait (gv_login g) logins of
           (tb, None) \<Rightarrow> (Some (g\<lparr>gv_login := tb\<rparr>), Blocked)
         | (tb, Some False) \<Rightarrow> (Some (g\<lparr>gv_login := tb\<rparr>), Cancelled)
         | (tb, Some True) \<Rightarrow> (case wait_total (g\<lparr>gv_login := tb\<rparr>) totals cancelled pick of (g', r) \<Rightarrow> (Some g', r)))
      else (case wait_total g totals cancelled pick of (g', r) \<Rightarrow> (Some g', r)))"

definition release :: "governor \<Rightarrow> governor" where
  "release g = g\<lparr>gv_inUse := gv_inUse g - 1\<rparr>"

section \<open>Elapsed seconds\<close>

lemma sdiv_second: "0 \<le> d \<Longrightarrow> d sdiv second = d div second"
  by (cases "d = 0") (simp_all add: signed_divide_int_def second_def)

lemma smod_second: "0 \<le> d \<Longrightarrow> d smod second = d mod second"
  using sdiv_mult_smod_eq [of d second] div_mult_mod_eq [of d second] sdiv_second [of d]
  by (metis add_left_cancel)

lemma sdiv_second_nonneg: "0 \<le> d \<Longrightarrow> 0 \<le> d sdiv second" "0 \<le> d \<Longrightarrow> 0 \<le> d smod second"
  unfolding sdiv_second smod_second by (simp_all add: sdiv_second smod_second pos_imp_zdiv_nonneg_iff second_def)

definition rel_up :: rat where "rel_up = 1 + unit_roundoff"

lemma rel_up_ge: "1 \<le> rel_up" by (simp add: rel_up_def less_imp_le)

lemma fl_le_rel: "0 \<le> x \<Longrightarrow> x \<le> b \<Longrightarrow> fl x \<le> b * rel_up"
proof -
  assume "0 \<le> x" "x \<le> b"
  then have "fl x \<le> x * rel_up" "x * rel_up \<le> b * rel_up"
    using fl_upper [of x] rel_up_ge by (simp_all only: rel_up_def mult_right_mono)
  then show ?thesis by linarith
qed

lemma seconds_f_nonneg: "0 \<le> d \<Longrightarrow> 0 \<le> seconds_f d"
  unfolding seconds_f_def by (intro fl_nonneg add_nonneg_nonneg divide_nonneg_nonneg) (simp_all add: sdiv_second_nonneg)

lemma seconds_f_upper:
  assumes "0 \<le> d"
  shows "seconds_f d \<le> of_int d / 1000000000 * rel_up ^ 3"
proof -
  define q where "q = d sdiv second"
  define r where "r = d smod second"
  have d: "d = q * second + r" by (simp add: q_def r_def sdiv_mult_smod_eq)
  have q: "0 \<le> q" and r: "0 \<le> r" using assms by (simp_all add: q_def r_def sdiv_second_nonneg)
  have u: "1 \<le> rel_up" "0 \<le> rel_up" using rel_up_ge by auto
  have 1: "fl (of_int q) \<le> of_int q * rel_up" using q by (intro fl_le_rel) simp_all
  have "fl (of_int r) / 1000000000 \<le> of_int r * rel_up / 1000000000"
    using fl_le_rel [of "of_int r" "of_int r"] r by (simp add: divide_right_mono)
  then have 2: "fl (fl (of_int r) / 1000000000) \<le> of_int r * rel_up / 1000000000 * rel_up"
    using r by (intro fl_le_rel) (simp_all add: fl_nonneg)
  have 3: "of_int q * rel_up \<le> of_int q * rel_up * rel_up"
    using mult_left_mono [of 1 rel_up "of_int q * rel_up"] q u by simp
  have "fl (of_int q) + fl (fl (of_int r) / 1000000000)
     \<le> of_int q * rel_up * rel_up + of_int r * rel_up / 1000000000 * rel_up"
    using 1 2 3 by linarith
  also have "\<dots> = of_int d / 1000000000 * (rel_up * rel_up)"
    by (simp add: d second_def field_simps)
  finally have "fl (fl (of_int q) + fl (fl (of_int r) / 1000000000))
     \<le> of_int d / 1000000000 * (rel_up * rel_up) * rel_up"
    using q r by (intro fl_le_rel) (simp_all add: fl_nonneg)
  then show ?thesis by (simp add: seconds_f_def q_def [symmetric] r_def [symmetric] power3_eq_cube mult.assoc)
qed

section \<open>The bucket's invariant\<close>

text \<open>A well-formed bucket: a whole, positive burst, a non-negative rate, tokens within the burst.\<close>

definition bucket_ok :: "token_bucket \<Rightarrow> bool" where
  "bucket_ok tb \<longleftrightarrow> 0 \<le> k_tokens tb \<and> k_tokens tb \<le> k_burst tb \<and> 0 \<le> k_perSec tb
     \<and> (\<exists>n. k_burst tb = of_int n \<and> 1 \<le> n \<and> n < 2 ^ 53)"

lemma refill_tokens_nonneg:
  assumes "bucket_ok tb" and "k_last tb < now"
  shows "0 \<le> fl (seconds_f (tsub now (k_last tb)) * k_perSec tb)"
  using assms by (intro fl_nonneg mult_nonneg_nonneg seconds_f_nonneg) (simp_all add: bucket_ok_def)

lemma refill_ok: "bucket_ok tb \<Longrightarrow> bucket_ok (refill tb now)"
  using refill_tokens_nonneg [of tb now]
  by (auto simp: refill_def bucket_ok_def intro!: fl_nonneg)

lemma take_one_ok:
  assumes "bucket_ok tb" and "1 \<le> k_tokens tb"
  shows "0 \<le> fl (k_tokens tb - 1)" and "fl (k_tokens tb - 1) \<le> k_burst tb"
proof -
  obtain n where n: "k_burst tb = of_int n" "1 \<le> n" "n < 2 ^ 53" using assms(1) by (auto simp: bucket_ok_def)
  have "k_tokens tb - 1 \<le> of_int n" using assms(1) n by (simp add: bucket_ok_def)
  then show "fl (k_tokens tb - 1) \<le> k_burst tb" using fl_le_int n by simp
  show "0 \<le> fl (k_tokens tb - 1)" using assms(2) by (intro fl_nonneg) simp
qed

lemma bucket_ok_last [simp]: "bucket_ok (tb\<lparr>k_last := t\<rparr>) = bucket_ok tb"
  by (simp add: bucket_ok_def)

lemma refill_config [simp]: "k_burst (refill tb now) = k_burst tb" "k_perSec (refill tb now) = k_perSec tb"
  by (simp_all add: refill_def)

lemma tryTake_ok:
  assumes "bucket_ok tb" and "tryTake tb now = (tb', ok, d)"
  shows "bucket_ok tb' \<and> k_burst tb' = k_burst tb \<and> k_perSec tb' = k_perSec tb \<and> k_last tb' = now"
proof -
  have r: "bucket_ok (refill tb now)" by (rule refill_ok [OF assms(1)])
  from assms(2) consider "tb' = (refill tb now)\<lparr>k_last := now\<rparr>"
    | "1 \<le> k_tokens (refill tb now)"
      "tb' = (refill tb now)\<lparr>k_last := now, k_tokens := fl (k_tokens (refill tb now) - 1)\<rparr>"
    by (auto simp: tryTake_def Let_def split: if_splits)
  then show ?thesis
  proof cases
    case 2
    with take_one_ok [OF r] r show ?thesis by (simp add: bucket_ok_def)
  qed (use r in simp)
qed

section \<open>The ceiling\<close>

primrec tb_takes :: "token_bucket \<Rightarrow> time list \<Rightarrow> token_bucket \<times> nat" where
  "tb_takes tb [] = (tb, 0)"
| "tb_takes tb (t # ts) = (case tryTake tb t of (tb', ok, d) \<Rightarrow>
     (case tb_takes tb' ts of (tb'', n) \<Rightarrow> (tb'', if ok then n + 1 else n)))"

text \<open>Tokens per nanosecond, with the rounding of the four operations that compute them, and
  the slack one attempt's two further roundings add.\<close>

definition accrual :: "token_bucket \<Rightarrow> rat" where
  "accrual tb = k_perSec tb / 1000000000 * rel_up ^ 4"

definition slack :: "token_bucket \<Rightarrow> rat" where
  "slack tb = 2 * unit_roundoff * k_burst tb"

lemma refill_upper:
  assumes "bucket_ok tb" and "k_last tb \<le> now"
  shows "k_tokens (refill tb now) \<le> k_tokens tb + accrual tb * of_int (now - k_last tb) + unit_roundoff * k_burst tb"
proof (cases "\<not> is_zero (k_last tb) \<and> k_last tb < now")
  case False
  have "0 \<le> accrual tb * of_int (now - k_last tb)" "0 \<le> unit_roundoff * k_burst tb"
    using assms rel_up_ge by (auto simp: accrual_def bucket_ok_def less_imp_le)
  moreover have "refill tb now = tb" unfolding refill_def using False by (rule if_not_P)
  ultimately show ?thesis by simp
next
  case True
  let ?d = "tsub now (k_last tb)"
  let ?x = "fl (seconds_f ?d * k_perSec tb)"
  have p: "0 \<le> k_perSec tb" "0 \<le> k_tokens tb" "k_tokens tb \<le> k_burst tb" "0 \<le> k_burst tb"
    using assms(1) by (auto simp: bucket_ok_def)
  have u: "0 \<le> rel_up" "0 \<le> unit_roundoff" using rel_up_ge by (simp_all add: less_imp_le)
  have d: "0 \<le> ?d" "?d \<le> now - k_last tb" using assms(2) by (simp_all add: tsub_le)
  have "seconds_f ?d * k_perSec tb \<le> of_int ?d / 1000000000 * rel_up ^ 3 * k_perSec tb"
    using seconds_f_upper [OF d(1)] p by (intro mult_right_mono) auto
  also have "\<dots> \<le> of_int (now - k_last tb) / 1000000000 * rel_up ^ 3 * k_perSec tb"
    using d p u by (intro mult_right_mono divide_right_mono) (simp_all only: of_int_le_iff, simp_all)
  finally have "?x \<le> of_int (now - k_last tb) / 1000000000 * rel_up ^ 3 * k_perSec tb * rel_up"
    using p seconds_f_nonneg [OF d(1)] by (intro fl_le_rel) simp_all
  then have x: "?x \<le> accrual tb * of_int (now - k_last tb)"
    by (simp add: accrual_def power_numeral_reduce mult_ac)
  let ?y = "k_tokens tb + ?x"
  have y: "0 \<le> ?y" using p refill_tokens_nonneg [OF assms(1)] True by simp
  have "min (k_burst tb) (fl ?y) \<le> ?y + unit_roundoff * k_burst tb"
  proof (cases "?y \<le> k_burst tb")
    case True
    then have "unit_roundoff * ?y \<le> unit_roundoff * k_burst tb" using u by (intro mult_left_mono)
    then show ?thesis using fl_upper [OF y] by (simp add: algebra_simps min_def)
  next
    case False
    then show ?thesis using u p by (simp add: min_def add_increasing2)
  qed
  with x True show ?thesis by (simp add: refill_def)
qed

lemma tryTake_upper:
  assumes "bucket_ok tb" and "tryTake tb now = (tb', ok, d)"
  shows "k_tokens tb' + (if ok then 1 else 0) \<le> k_tokens (refill tb now) + unit_roundoff * k_burst tb"
proof -
  let ?r = "refill tb now"
  have r: "bucket_ok ?r" by (rule refill_ok [OF assms(1)])
  then have b: "k_tokens ?r \<le> k_burst tb" "0 \<le> k_burst tb" by (auto simp: bucket_ok_def)
  then have nn: "0 \<le> unit_roundoff * k_burst tb" by (simp add: less_imp_le)
  show ?thesis
  proof (cases "1 \<le> k_tokens ?r")
    case True
    have "fl (k_tokens ?r - 1) \<le> (k_tokens ?r - 1) * (1 + unit_roundoff)" using True by (intro fl_upper) simp
    also have "\<dots> = k_tokens ?r - 1 + unit_roundoff * (k_tokens ?r - 1)" by (simp add: algebra_simps)
    also have "unit_roundoff * (k_tokens ?r - 1) \<le> unit_roundoff * k_burst tb"
      using b by (intro mult_left_mono) (simp_all add: less_imp_le)
    finally show ?thesis using True assms(2) by (auto simp: tryTake_def Let_def)
  next
    case False
    with assms(2) nn show ?thesis by (auto simp: tryTake_def Let_def split: if_splits)
  qed
qed

lemma takes_upper:
  assumes "bucket_ok tb" and "sorted (k_last tb # ts)" and "tb_takes tb ts = (tb', n)"
  shows "of_nat n \<le> k_tokens tb + accrual tb * of_int (last (k_last tb # ts) - k_last tb) + of_nat (length ts) * slack tb"
  using assms
proof (induction ts arbitrary: tb n)
  case Nil
  then show ?case by (simp add: bucket_ok_def)
next
  case (Cons t ts)
  obtain tb1 ok d where t1: "tryTake tb t = (tb1, ok, d)" using prod_cases3 by blast
  obtain m where m: "tb_takes tb1 ts = (tb', m)" "n = (if ok then m + 1 else m)"
    using Cons.prems(3) t1 by (auto split: prod.splits)
  note ok1 = tryTake_ok [OF Cons.prems(1) t1]
  have "k_last tb \<le> t" using Cons.prems(2) by simp
  note a = refill_upper [OF Cons.prems(1) this] and b = tryTake_upper [OF Cons.prems(1) t1]
  have acc: "accrual tb1 = accrual tb" "slack tb1 = slack tb" using ok1 by (simp_all add: accrual_def slack_def)
  have "of_nat m \<le> k_tokens tb1 + accrual tb * of_int (last (t # ts) - t) + of_nat (length ts) * slack tb"
    using Cons.IH [of tb1 m] ok1 Cons.prems(2) m(1) acc by simp
  moreover have "accrual tb * of_int (last (t # ts) - t) + accrual tb * of_int (t - k_last tb)
     = accrual tb * of_int (last (t # ts) - k_last tb)"
    by (simp add: algebra_simps)
  moreover have "of_nat n = of_nat m + (if ok then 1 else 0 :: rat)" using m(2) by simp
  moreover have "of_nat (length (t # ts)) * slack tb = of_nat (length ts) * slack tb + slack tb"
    by (simp add: algebra_simps)
  ultimately show ?case using a b by (simp add: slack_def)
qed

lemma takes_ok:
  "bucket_ok tb \<Longrightarrow> bucket_ok (fst (tb_takes tb ts)) \<and> k_burst (fst (tb_takes tb ts)) = k_burst tb"
proof (induction ts arbitrary: tb)
  case (Cons t ts)
  obtain tb1 ok d where t1: "tryTake tb t = (tb1, ok, d)" using prod_cases3 by blast
  with tryTake_ok [OF Cons.prems t1] Cons.IH [of tb1] show ?case by (auto split: prod.splits)
qed simp

section \<open>Paced requests\<close>

lemma seconds_f_lower:
  assumes "of_int k * second \<le> d" and "0 \<le> k" and "k < 2 ^ 53"
  shows "of_int k \<le> seconds_f d"
proof -
  have d: "0 \<le> d" using assms(1,2) by (simp add: second_def)
  have "k * second div second \<le> d div second" using assms(1) by (intro zdiv_mono1) (simp_all add: second_def)
  then have q: "k \<le> d sdiv second" unfolding sdiv_second [OF d] by (simp add: second_def)
  have "of_int k \<le> fl (of_int (d sdiv second))" using q assms by (intro fl_ge_int) simp_all
  moreover have "0 \<le> fl (fl (of_int (d smod second)) / 1000000000)"
    using sdiv_second_nonneg [OF d] by (intro fl_nonneg divide_nonneg_nonneg) simp_all
  ultimately have "of_int k \<le> fl (of_int (d sdiv second)) + fl (fl (of_int (d smod second)) / 1000000000)" by linarith
  then show ?thesis unfolding seconds_f_def using assms by (intro fl_ge_int) simp_all
qed

text \<open>A request that comes \<open>k\<close> seconds after the last one, at a rate of at least one in \<open>k\<close> seconds.\<close>

lemma paced_take:
  assumes "bucket_ok tb" and "\<not> is_zero (k_last tb)" and "k_last tb + of_int k * second \<le> now"
    and "1 \<le> of_int k * k_perSec tb" and "1 \<le> k" and "k < 2 ^ 20"
  shows "\<exists>tb'. tryTake tb now = (tb', True, 0)"
proof -
  let ?d = "tsub now (k_last tb)"
  have k: "k * second \<le> now - k_last tb" "k * second \<le> max_dur" "min_dur < k * second"
    using assms(3,5,6) by (simp_all add: second_def max_dur_def min_dur_def)
  then have "k * second \<le> ?d" by (simp only: tsub_ge_iff)
  then have s: "of_int k \<le> seconds_f ?d" using assms(5,6) by (intro seconds_f_lower) simp_all
  have p: "0 \<le> k_perSec tb" "0 \<le> k_tokens tb" "1 \<le> k_burst tb" using assms(1) by (auto simp: bucket_ok_def)
  have "1 \<le> seconds_f ?d * k_perSec tb" using mult_right_mono [OF s p(1)] assms(4) by linarith
  then have "1 \<le> fl (seconds_f ?d * k_perSec tb)" using fl_ge_int [of 1] by simp
  with p have "1 \<le> k_tokens tb + fl (seconds_f ?d * k_perSec tb)" by linarith
  then have "1 \<le> fl (k_tokens tb + fl (seconds_f ?d * k_perSec tb))" using fl_ge_int [of 1] by simp
  moreover have "k_last tb < now" using k(1) assms(5) by (simp add: second_def)
  ultimately have "1 \<le> k_tokens (refill tb now)" using assms(2) p by (simp add: refill_def)
  then show ?thesis by (simp add: tryTake_def Let_def)
qed

primrec paced :: "dur \<Rightarrow> time \<Rightarrow> time list \<Rightarrow> bool" where
  "paced gap t [] = True"
| "paced gap t (u # us) = (t + gap \<le> u \<and> paced gap u us)"

lemma paced_takes:
  assumes "bucket_ok tb" and "0 \<le> k_last tb" and "paced (of_int k * second) (k_last tb) ts"
    and "1 \<le> of_int k * k_perSec tb" and "1 \<le> k" and "k < 2 ^ 20"
  shows "snd (tb_takes tb ts) = length ts"
  using assms
proof (induction ts arbitrary: tb)
  case (Cons t ts)
  have "\<not> is_zero (k_last tb)" using Cons.prems(2) by (simp add: is_zero_def zero_time_def second_def)
  then obtain tb1 where t1: "tryTake tb t = (tb1, True, 0)"
    using paced_take [of tb k t] Cons.prems by auto
  note ok = tryTake_ok [OF Cons.prems(1) t1]
  have "0 \<le> t" using Cons.prems(2,3,5) by (simp add: second_def)
  then have "snd (tb_takes tb1 ts) = length ts" using Cons.IH [of tb1] Cons.prems ok by simp
  with t1 show ?case by (auto split: prod.splits)
qed simp

lemma fl_fifth: "fl (1 / 5) = 7205759403792794 / 2 ^ 55"
proof -
  have "fl (1 / 5) = of_int 7205759403792794 * pow2 (- 3 - 52)"
    by (rule fl_eval) (simp_all add: pow2_def)
  then show ?thesis by (simp add: pow2_def)
qed

lemma default_login_wait: "fl (1000000000 / (7205759403792794 / 2 ^ 55)) = 5000000000"
proof -
  have "fl (1000000000 / (7205759403792794 / 2 ^ 55)) = of_int 5242880000000000 * pow2 (32 - 52)"
    by (rule fl_eval) (simp_all add: pow2_def)
  then show ?thesis by (simp add: pow2_def)
qed

definition default_governor :: governor where
  "default_governor = new_governor (govOr 0 defaultGovTotalPerMin) (govOr 0 defaultGovTotalBurst)
     (govOr 0 defaultGovLoginPerMin) (govOr 0 defaultGovLoginBurst) (govIntOr 0 defaultGovConcurrency)"

lemma fl_ints: "fl 60 = 60" "fl 12 = 12" "fl 10 = 10" "fl 6 = 6" "fl 1000000000 = 1000000000"
  using fl_of_int [of 60] fl_of_int [of 12] fl_of_int [of 10] fl_of_int [of 6] fl_of_int [of 1000000000] by simp_all

lemma default_governor: "default_governor =
  \<lparr>gv_total = \<lparr>k_tokens = 10, k_burst = 10, k_perSec = 1, k_last = zero_time\<rparr>,
   gv_login = \<lparr>k_tokens = 6, k_burst = 6, k_perSec = 7205759403792794 / 2 ^ 55, k_last = zero_time\<rparr>,
   gv_cap = 4, gv_inUse = 0\<rparr>"
  using fl_fifth
  by (simp add: default_governor_def new_governor_def new_token_bucket_def govOr_def govIntOr_def fl_ints
    defaultGovTotalPerMin_def defaultGovTotalBurst_def defaultGovLoginPerMin_def defaultGovLoginBurst_def
    defaultGovConcurrency_def)

section \<open>Properties\<close>

text \<open>The token bucket stays within its bounds: from a well-formed bucket (a whole positive
  burst, a non-negative rate), whatever the clock readings, back or forth, and in spite of
  floating-point rounding, the tokens stay between zero and the burst.\<close>

theorem bucket_stays_within_burst:
  assumes "0 \<le> k_tokens tb" and "k_tokens tb \<le> k_burst tb" and "0 \<le> k_perSec tb"
    and "k_burst tb = of_int n" and "1 \<le> n" and "n < 2 ^ 53" and "tb_takes tb ts = (tb', m)"
  shows "0 \<le> k_tokens tb' \<and> k_tokens tb' \<le> k_burst tb"
proof -
  have "bucket_ok tb" using assms by (auto simp: bucket_ok_def)
  from takes_ok [OF this, of ts] show ?thesis using assms(7) by (simp add: bucket_ok_def)
qed

lemma bucket_stays_within_burst_witness:
  "0 \<le> k_tokens (fst (tb_takes (gv_login default_governor) [5, 3, 9]))"
  using bucket_stays_within_burst [of "gv_login default_governor" 6 "[5, 3, 9]"]
  by (cases "tb_takes (gv_login default_governor) [5, 3, 9]") (simp add: default_governor)

text \<open>The governor is a rate ceiling: in any stretch of attempts on a bucket, in clock order, the
  number of requests it lets through is at most the burst plus what accrues at the configured
  rate over the elapsed time, up to floating-point slack (the rate times \<open>(1 + 2^-53)^4\<close>, and two
  rounding errors of the burst per attempt).\<close>

theorem bucket_is_a_rate_ceiling:
  assumes "0 \<le> k_tokens tb" and "k_tokens tb \<le> k_burst tb" and "0 \<le> k_perSec tb"
    and "k_burst tb = of_int b" and "1 \<le> b" and "b < 2 ^ 53"
    and "sorted (t # ts)" and "tb_takes tb (t # ts) = (tb', n)"
  shows "of_nat n \<le> k_burst tb
     + k_perSec tb / 1000000000 * (1 + pow2 (- 53)) ^ 4 * of_int (last (t # ts) - t)
     + of_nat (length (t # ts)) * (2 * pow2 (- 53) * k_burst tb)"
proof -
  have ok: "bucket_ok tb" using assms by (auto simp: bucket_ok_def)
  obtain tb1 k d where t1: "tryTake tb t = (tb1, k, d)" using prod_cases3 by blast
  obtain m where m: "tb_takes tb1 ts = (tb', m)" "n = (if k then m + 1 else m)"
    using assms(8) t1 by (auto split: prod.splits)
  note ok1 = tryTake_ok [OF ok t1]
  have "k_tokens (refill tb t) \<le> k_burst tb" using refill_ok [OF ok, of t] by (simp add: bucket_ok_def)
  then have first: "k_tokens tb1 + (if k then 1 else 0) \<le> k_burst tb + unit_roundoff * k_burst tb"
    using tryTake_upper [OF ok t1] by linarith
  have "of_nat m \<le> k_tokens tb1 + accrual tb1 * of_int (last (t # ts) - t) + of_nat (length ts) * slack tb1"
    using takes_upper [of tb1 ts tb' m] ok1 assms(7) m(1) by simp
  moreover have "accrual tb1 = k_perSec tb / 1000000000 * (1 + pow2 (- 53)) ^ 4" "slack tb1 = 2 * pow2 (- 53) * k_burst tb"
    using ok1 by (simp_all add: accrual_def slack_def rel_up_def unit_roundoff_def)
  moreover have "0 \<le> unit_roundoff * k_burst tb" using ok by (simp add: bucket_ok_def less_imp_le)
  moreover have "of_nat n = of_nat m + (if k then 1 else 0 :: rat)" using m(2) by simp
  ultimately show ?thesis using first by (simp add: algebra_simps unit_roundoff_def)
qed

lemma bucket_is_a_rate_ceiling_witness:
  "of_nat (snd (tb_takes (gv_total default_governor) [5, 5, 5]))
     \<le> 10 + 1 / 1000000000 * (1 + pow2 (- 53)) ^ 4 * of_int (5 - 5) + 3 * (2 * pow2 (- 53) * 10)"
  using bucket_is_a_rate_ceiling [of "gv_total default_governor" 10 5 "[5, 5]"
    "fst (tb_takes (gv_total default_governor) [5, 5, 5])" "snd (tb_takes (gv_total default_governor) [5, 5, 5])"]
  by (simp add: default_governor)

text \<open>The login budget covers a login: under the built-in limits it is 36 seconds, and six login
  requests paced by the budget's share of each bucket (five seconds and one second) are all
  admitted at their first attempt, even by buckets that were empty.\<close>

theorem default_login_budget_covers_a_login:
  assumes "login = (gv_login default_governor)\<lparr>k_tokens := a, k_last := t\<rparr>"
    and "tot = (gv_total default_governor)\<lparr>k_tokens := b, k_last := u\<rparr>"
    and "0 \<le> a" and "a \<le> 6" and "0 \<le> b" and "b \<le> 10" and "0 \<le> t" and "0 \<le> u"
    and "paced (per_request login) t ts" and "paced (per_request tot) u us"
  shows "loginBudget (Some default_governor) = 36 * second
     \<and> snd (tb_takes login ts) = length ts \<and> snd (tb_takes tot us) = length us"
proof -
  have dl: "per_request (gv_login default_governor) = 5 * second"
    using trunc_of_int [of 5000000000] default_login_wait
    by (simp add: per_request_def default_governor second_def)
  have dt: "per_request (gv_total default_governor) = 1 * second"
    using trunc_of_int [of 1000000000] by (simp add: per_request_def default_governor second_def fl_ints)
  have pl: "per_request login = 5 * second" using dl by (auto simp: assms(1) per_request_def split: if_splits)
  have pt: "per_request tot = 1 * second" using dt by (auto simp: assms(2) per_request_def split: if_splits)
  have "loginBudget (Some default_governor) = 36 * second"
    using dl dt by (simp add: loginFlowRequests_def wrap64_id min_dur_def max_dur_def second_def)
  moreover have "snd (tb_takes login ts) = length ts"
    by (rule paced_takes [of _ 5])
      (use assms pl in \<open>simp_all add: bucket_ok_def default_governor second_def exI [of _ 6]\<close>)
  moreover have "snd (tb_takes tot us) = length us"
    by (rule paced_takes [of _ 1])
      (use assms pt in \<open>simp_all add: bucket_ok_def default_governor second_def exI [of _ 10]\<close>)
  ultimately show ?thesis by blast
qed

lemma default_login_budget_covers_a_login_witness:
  "snd (tb_takes ((gv_login default_governor)\<lparr>k_tokens := 0, k_last := 0\<rparr>) [5 * second, 10 * second]) = 2"
proof -
  have "per_request ((gv_login default_governor)\<lparr>k_tokens := 0, k_last := 0\<rparr>) = 5 * second"
    using trunc_of_int [of 5000000000] default_login_wait
    by (simp add: per_request_def default_governor second_def)
  then show ?thesis
    using default_login_budget_covers_a_login [OF refl refl, of 0 0 0 0 "[5 * second, 10 * second]" "[]"]
    by (simp add: second_def)
qed

text \<open>The concurrency cap is never exceeded, and a slot is taken exactly by the requests that
  get through: one that is cancelled or still waiting, on either bucket or for the slot, holds none.\<close>

theorem concurrency_cap_holds:
  assumes "acquire (Some g) sf logins totals cancelled pick = (Some g', r)" and "gv_inUse g \<le> gv_cap g"
  shows "gv_inUse g' \<le> gv_cap g'
     \<and> gv_inUse g' = gv_inUse g + (if r = Acquired then 1 else 0) \<and> gv_cap g' = gv_cap g"
  using assms
  by (auto simp: wait_total_def acquire_slot_def split: prod.splits option.splits bool.splits if_splits)

lemma concurrency_cap_holds_witness:
  "gv_inUse (default_governor\<lparr>gv_inUse := 4\<rparr>) \<le> gv_cap default_governor"
proof -
  have "acquire (Some (default_governor\<lparr>gv_inUse := 4\<rparr>)) SurfaceAPI [] [] False False
     = (Some (default_governor\<lparr>gv_inUse := 4\<rparr>), Blocked)"
    by (simp add: wait_total_def default_governor)
  from concurrency_cap_holds [OF this] show ?thesis by (simp add: default_governor)
qed

end
