(* ===== verification/Health.thy ===== *)
theory Health
  imports Provider
begin

text \<open>
  \<open>internal/parking/health.go\<close>: the connector success clock and the coarse state derived from it
  for the external watchdog; and the last push-back (\<open>PushbackEvent\<close>) and the per-minute ring of
  request counts of \<open>internal/parking/metrics.go\<close>. Each method is one atomic function of the
  state; the clock reading is an argument.
\<close>

section \<open>States\<close>

datatype connector_state = StateIdle | StateHealthy | StateDegraded | StateRateLimited
  | StateUpstreamChanged | StateAuthFailed | StateBlocked

fun connectorStateRank :: "connector_state \<Rightarrow> int" where
  "connectorStateRank StateIdle = 0"
| "connectorStateRank StateHealthy = 1"
| "connectorStateRank StateDegraded = 2"
| "connectorStateRank StateRateLimited = 3"
| "connectorStateRank StateUpstreamChanged = 4"
| "connectorStateRank StateAuthFailed = 5"
| "connectorStateRank StateBlocked = 6"

definition WorseConnectorState :: "connector_state \<Rightarrow> connector_state \<Rightarrow> connector_state" where
  "WorseConnectorState a b = (if connectorStateRank a < connectorStateRank b then b else a)"

lemma rank_inject: "connectorStateRank a = connectorStateRank b \<longleftrightarrow> a = b"
  by (cases a; cases b) simp_all

instantiation connector_state :: linorder
begin

definition less_eq_connector_state :: "connector_state \<Rightarrow> connector_state \<Rightarrow> bool" where
  "less_eq_connector_state a b \<longleftrightarrow> connectorStateRank a \<le> connectorStateRank b"

definition less_connector_state :: "connector_state \<Rightarrow> connector_state \<Rightarrow> bool" where
  "less_connector_state a b \<longleftrightarrow> connectorStateRank a < connectorStateRank b"

instance
proof
  fix a b c :: connector_state
  show "a < b \<longleftrightarrow> a \<le> b \<and> \<not> b \<le> a" by (auto simp: less_eq_connector_state_def less_connector_state_def)
  show "a \<le> a" by (simp add: less_eq_connector_state_def)
  show "a \<le> b \<Longrightarrow> b \<le> c \<Longrightarrow> a \<le> c" by (simp add: less_eq_connector_state_def)
  show "a \<le> b \<Longrightarrow> b \<le> a \<Longrightarrow> a = b"
    by (simp add: less_eq_connector_state_def rank_inject [symmetric])
  show "a \<le> b \<or> b \<le> a" by (auto simp: less_eq_connector_state_def)
qed

end

lemma worse_is_max: "WorseConnectorState a b = max a b"
  using rank_inject [of a b] by (auto simp: WorseConnectorState_def max_def less_eq_connector_state_def)

section \<open>The clock\<close>

definition healthSignalWindow :: dur where "healthSignalWindow = 30 * minute"
definition healthIdleAfter :: dur where "healthIdleAfter = 90 * minute"
definition healthAuthRejectOwners :: nat where "healthAuthRejectOwners = 2"
definition healthUnexpectedOwners :: nat where "healthUnexpectedOwners = 2"
definition healthDegradedAfter :: int where "healthDegradedAfter = 3"

record connector_health =
  h_lastAttempt :: time
  h_lastSuccess :: time
  h_consecFails :: int
  h_authRejects :: "(string \<times> time) list"
  h_unexpected :: "(string \<times> time) list"
  h_loginShapeAt :: time

definition no_health :: connector_health where
  "no_health = \<lparr>h_lastAttempt = zero_time, h_lastSuccess = zero_time, h_consecFails = 0,
     h_authRejects = [], h_unexpected = [], h_loginShapeAt = zero_time\<rparr>"

definition pruneLocked :: "connector_health \<Rightarrow> time \<Rightarrow> connector_health" where
  "pruneLocked h now = h\<lparr>
     h_authRejects := filter (\<lambda>e. \<not> healthSignalWindow < tsub now (snd e)) (h_authRejects h),
     h_unexpected := filter (\<lambda>e. \<not> healthSignalWindow < tsub now (snd e)) (h_unexpected h)\<rparr>"

definition noteAt :: "connector_health \<Rightarrow> string \<Rightarrow> err option \<Rightarrow> time \<Rightarrow> connector_health" where
  "noteAt h owner e now = (let sig = classify e in
     if g_Canceled sig then h
     else let h1 = h\<lparr>h_lastAttempt := now\<rparr> in
       if g_OK sig then h1\<lparr>h_lastSuccess := now, h_consecFails := 0, h_authRejects := del owner (h_authRejects h1)\<rparr>
       else let h2 = h1\<lparr>h_consecFails := h_consecFails h1 + 1\<rparr>;
                h3 = (if g_LoginShape sig then h2\<lparr>h_loginShapeAt := now\<rparr>
                      else if g_LoginRejected sig then h2\<lparr>h_authRejects := put owner now (h_authRejects h2)\<rparr>
                      else if g_Unexpected sig then h2\<lparr>h_unexpected := put owner now (h_unexpected h2)\<rparr>
                      else h2)
            in pruneLocked h3 now)"

definition health_clock :: "connector_health \<Rightarrow> time \<times> time \<times> int" where
  "health_clock h = (h_lastAttempt h, h_lastSuccess h, h_consecFails h)"

record pushback_event =
  pb_At :: time
  pb_Surface :: surface
  pb_Status :: int
  pb_ContentType :: string
  pb_RetryAfter :: dur
  pb_AzureRef :: string

definition no_pushback :: pushback_event where
  "no_pushback = \<lparr>pb_At = zero_time, pb_Surface = SurfaceOther, pb_Status = 0, pb_ContentType = [],
     pb_RetryAfter = 0, pb_AzureRef = []\<rparr>"

definition recordPushback :: "unavailable \<Rightarrow> time \<Rightarrow> pushback_event" where
  "recordPushback u now = \<lparr>pb_At = now, pb_Surface = u_Surface u, pb_Status = u_Status u,
     pb_ContentType = u_ContentType u, pb_RetryAfter = u_RetryAfter u, pb_AzureRef = u_Ref u\<rparr>"

text \<open>\<open>state\<close> prunes first, so it also returns the new state.\<close>

definition health_state :: "connector_health \<Rightarrow> time \<Rightarrow> bool \<Rightarrow> pushback_event \<Rightarrow> connector_health \<times> connector_state" where
  "health_state h0 now breakerOpen lastPB = (let h = pruneLocked h0 now;
     recentPB = (\<not> is_zero (pb_At lastPB) \<and> tsub now (pb_At lastPB) \<le> healthSignalWindow)
   in (h,
     if breakerOpen then StateBlocked
     else if healthAuthRejectOwners \<le> length (h_authRejects h) then StateAuthFailed
     else if (\<not> is_zero (h_loginShapeAt h) \<and> tsub now (h_loginShapeAt h) \<le> healthSignalWindow)
          \<or> healthUnexpectedOwners \<le> length (h_unexpected h) then StateUpstreamChanged
     else if recentPB \<and> pb_Status lastPB = 429 then StateRateLimited
     else if is_zero (h_lastAttempt h) \<or> healthIdleAfter < tsub now (h_lastAttempt h) then StateIdle
     else if healthDegradedAfter \<le> h_consecFails h then StateDegraded
     else StateHealthy))"

section \<open>The request ring\<close>

record minute_bucket =
  mb_epoch :: int
  mb_n :: int

definition new_rolling :: "nat \<Rightarrow> minute_bucket list" where
  "new_rolling minutes = replicate minutes \<lparr>mb_epoch = 0, mb_n = 0\<rparr>"

text \<open>\<open>Unix()\<close> is whole seconds; Go's division and remainder truncate, so an index before 1970
  would be negative, which panics: the clock is after 1970.\<close>

definition unix_minute :: "time \<Rightarrow> int" where
  "unix_minute now = now div second div 60"

definition rolling_add :: "minute_bucket list \<Rightarrow> time \<Rightarrow> minute_bucket list" where
  "rolling_add bs now = (let m = unix_minute now; i = nat (m mod int (length bs)); b = bs ! i;
     b' = (if mb_epoch b \<noteq> m then \<lparr>mb_epoch = m, mb_n = 0\<rparr> else b)
   in bs[i := b'\<lparr>mb_n := mb_n b' + 1\<rparr>])"

definition rolling_window :: "minute_bucket list \<Rightarrow> time \<Rightarrow> int \<Rightarrow> int" where
  "rolling_window bs now minutes = (let m = unix_minute now in
     sum_list (map mb_n (filter (\<lambda>b. mb_epoch b \<le> m \<and> m - minutes < mb_epoch b) bs)))"

section \<open>Runs\<close>

text \<open>A history of operations: owner, outcome, time.\<close>

definition note_all :: "connector_health \<Rightarrow> (string \<times> err option \<times> time) list \<Rightarrow> connector_health" where
  "note_all h xs = foldl (\<lambda>h x. noteAt h (fst x) (fst (snd x)) (snd (snd x))) h xs"

lemma note_all_simps [simp]:
  "note_all h [] = h" "note_all h (x # xs) = note_all (noteAt h (fst x) (fst (snd x)) (snd (snd x))) xs"
  by (simp_all add: note_all_def)

lemma prune_subset:
  "set (h_authRejects (pruneLocked h now)) \<subseteq> set (h_authRejects h)"
  "set (h_unexpected (pruneLocked h now)) \<subseteq> set (h_unexpected h)"
  "table (h_authRejects h) \<Longrightarrow> table (h_authRejects (pruneLocked h now))"
  "table (h_unexpected h) \<Longrightarrow> table (h_unexpected (pruneLocked h now))"
  "h_loginShapeAt (pruneLocked h now) = h_loginShapeAt h"
  "h_consecFails (pruneLocked h now) = h_consecFails h"
  "h_lastAttempt (pruneLocked h now) = h_lastAttempt h"
  by (auto simp: pruneLocked_def)

lemma key_subset: "set a \<subseteq> set b \<Longrightarrow> fst ` set b \<subseteq> S \<Longrightarrow> fst ` set a \<subseteq> S"
  by blast

text \<open>Only one owner has signals, and the sign-in page never changed shape.\<close>

definition one_owner :: "string \<Rightarrow> connector_health \<Rightarrow> bool" where
  "one_owner owner h \<longleftrightarrow> is_zero (h_loginShapeAt h)
     \<and> table (h_authRejects h) \<and> fst ` set (h_authRejects h) \<subseteq> {owner}
     \<and> table (h_unexpected h) \<and> fst ` set (h_unexpected h) \<subseteq> {owner}"

lemma one_owner_prune:
  assumes "one_owner owner h"
  shows "one_owner owner (pruneLocked h now)"
  using assms prune_subset [of h now]
    key_subset [OF prune_subset(1) [of h now], of "{owner}"] key_subset [OF prune_subset(2) [of h now], of "{owner}"]
  unfolding one_owner_def by simp

lemma one_owner_note:
  assumes "one_owner owner h" and "\<not> g_LoginShape (classify e)"
  shows "one_owner owner (noteAt h owner e now)"
proof -
  let ?h = "h\<lparr>h_lastAttempt := now, h_consecFails := h_consecFails h + 1\<rparr>"
  have keys: "fst ` set (put owner now m) \<subseteq> {owner}" "fst ` set (del owner m) \<subseteq> {owner}"
    if "fst ` set m \<subseteq> {owner}" for m
    using that unfolding keys_put keys_del by blast+
  have "one_owner owner ?h" "one_owner owner (?h\<lparr>h_authRejects := put owner now (h_authRejects h)\<rparr>)"
    "one_owner owner (?h\<lparr>h_unexpected := put owner now (h_unexpected h)\<rparr>)"
    using assms(1) keys unfolding one_owner_def by simp_all
  note ok = this [THEN one_owner_prune]
  have "one_owner owner (h\<lparr>h_lastAttempt := now, h_lastSuccess := now, h_consecFails := 0,
     h_authRejects := del owner (h_authRejects h)\<rparr>)"
    using assms(1) keys unfolding one_owner_def by simp
  with ok assms show ?thesis by (simp add: noteAt_def Let_def)
qed

text \<open>Every signal is at most as old as the last attempt.\<close>

definition signals_before :: "time \<Rightarrow> connector_health \<Rightarrow> bool" where
  "signals_before t h \<longleftrightarrow> (\<forall>e \<in> set (h_authRejects h) \<union> set (h_unexpected h). snd e \<le> t) \<and> h_loginShapeAt h \<le> t"

lemma signals_before_note:
  assumes "signals_before t h" and "t \<le> now"
  shows "signals_before now (noteAt h owner e now)"
proof -
  have "signals_before now h" using assms unfolding signals_before_def by force
  then show ?thesis
    by (auto simp: signals_before_def noteAt_def Let_def pruneLocked_def put_def set_del)
qed

section \<open>The ring counts\<close>

text \<open>After adds at the minutes \<open>ms\<close>: a slot counts the adds of its epoch, which is the latest
  minute that falls in the slot.\<close>

definition ring_ok :: "minute_bucket list \<Rightarrow> int list \<Rightarrow> bool" where
  "ring_ok bs ms \<longleftrightarrow> bs \<noteq> [] \<and> (\<forall>i < length bs.
     mb_n (bs ! i) = int (length (filter (\<lambda>x. x = mb_epoch (bs ! i) \<and> nat (x mod int (length bs)) = i) ms))
     \<and> (\<forall>x \<in> set ms. nat (x mod int (length bs)) = i \<longrightarrow> x \<le> mb_epoch (bs ! i)
          \<and> mb_epoch (bs ! i) mod int (length bs) = int i \<and> mb_epoch (bs ! i) \<in> set ms))"

lemma slot_less: "0 < L \<Longrightarrow> nat (m mod int L) < L"
  by (simp add: nat_less_iff)

lemma ring_ok_add:
  assumes "ring_ok bs ms" and "\<forall>x \<in> set ms. x \<le> unix_minute now"
  shows "ring_ok (rolling_add bs now) (ms @ [unix_minute now])"
proof -
  define L where "L = length bs"
  define m where "m = unix_minute now"
  define i where "i = nat (m mod int L)"
  have L: "0 < L" using assms(1) by (simp add: ring_ok_def L_def)
  have iL: "i < L" unfolding i_def by (rule slot_less [OF L])
  have im: "m mod int L = int i" using L by (simp add: i_def)
  define b where "b = (if mb_epoch (bs ! i) \<noteq> m then \<lparr>mb_epoch = m, mb_n = 0\<rparr> else bs ! i)"
  have add: "rolling_add bs now = bs[i := b\<lparr>mb_n := mb_n b + 1\<rparr>]"
    by (simp add: rolling_add_def Let_def m_def i_def L_def b_def)
  have old: "mb_n (bs ! j) = int (length (filter (\<lambda>x. x = mb_epoch (bs ! j) \<and> nat (x mod int L) = j) ms))
     \<and> (\<forall>x \<in> set ms. nat (x mod int L) = j \<longrightarrow> x \<le> mb_epoch (bs ! j)
          \<and> mb_epoch (bs ! j) mod int L = int j \<and> mb_epoch (bs ! j) \<in> set ms)" if "j < L" for j
    using assms(1) that unfolding ring_ok_def L_def [symmetric] by blast
  have b: "mb_epoch b = m" by (simp add: b_def)
  have cnt: "mb_n b = int (length (filter (\<lambda>x. x = m \<and> nat (x mod int L) = i) ms))"
  proof (cases "mb_epoch (bs ! i) = m")
    case True
    then have "b = bs ! i" by (simp add: b_def)
    with conjunct1 [OF old [OF iL]] True show ?thesis by (simp only:)
  next
    case False
    have "filter (\<lambda>x. x = m \<and> nat (x mod int L) = i) ms = []"
    proof -
      have "m \<notin> set ms"
      proof
        assume "m \<in> set ms"
        then have "m \<le> mb_epoch (bs ! i)" "mb_epoch (bs ! i) \<in> set ms" using old [OF iL] by (auto simp: i_def)
        then show False using assms(2) False by (force simp: m_def)
      qed
      then show ?thesis by (auto simp: filter_empty_conv)
    qed
    with False show ?thesis by (simp add: b_def)
  qed
  show ?thesis
    unfolding ring_ok_def add m_def [symmetric] length_list_update L_def [symmetric]
  proof (intro conjI allI impI)
    show "bs[i := b\<lparr>mb_n := mb_n b + 1\<rparr>] \<noteq> []" using L by (simp add: L_def)
  next
    fix j assume j: "j < L"
    show "mb_n (bs[i := b\<lparr>mb_n := mb_n b + 1\<rparr>] ! j) = int (length (filter (\<lambda>x. x = mb_epoch (bs[i := b\<lparr>mb_n := mb_n b + 1\<rparr>] ! j)
       \<and> nat (x mod int L) = j) (ms @ [m])))"
    proof (cases "j = i")
      case True
      then have "bs[i := b\<lparr>mb_n := mb_n b + 1\<rparr>] ! j = b\<lparr>mb_n := mb_n b + 1\<rparr>" using iL by (simp add: L_def)
      with cnt b True i_def show ?thesis by simp
    next
      case False
      then have "bs[i := b\<lparr>mb_n := mb_n b + 1\<rparr>] ! j = bs ! j" by simp
      moreover have "filter (\<lambda>x. x = mb_epoch (bs ! j) \<and> nat (x mod int L) = j) [m] = []"
        using False by (simp add: i_def)
      ultimately show ?thesis using conjunct1 [OF old [OF j]] by (simp only: filter_append append_Nil2)
    qed
  next
    fix j assume j: "j < L"
    show "\<forall>x \<in> set (ms @ [m]). nat (x mod int L) = j \<longrightarrow> x \<le> mb_epoch (bs[i := b\<lparr>mb_n := mb_n b + 1\<rparr>] ! j)
          \<and> mb_epoch (bs[i := b\<lparr>mb_n := mb_n b + 1\<rparr>] ! j) mod int L = int j
          \<and> mb_epoch (bs[i := b\<lparr>mb_n := mb_n b + 1\<rparr>] ! j) \<in> set (ms @ [m])"
    proof (cases "j = i")
      case True
      then have "bs[i := b\<lparr>mb_n := mb_n b + 1\<rparr>] ! j = b\<lparr>mb_n := mb_n b + 1\<rparr>" using iL by (simp add: L_def)
      with b im True assms(2) show ?thesis by (simp add: m_def)
    next
      case False
      then have "bs[i := b\<lparr>mb_n := mb_n b + 1\<rparr>] ! j = bs ! j" by simp
      with conjunct2 [OF old [OF j]] False show ?thesis by (simp add: i_def)
    qed
  qed
qed

lemma count_split:
  assumes "0 < (L::nat)"
  shows "int (length (filter P ms)) = (\<Sum>i < L. int (length (filter (\<lambda>x. P x \<and> nat (x mod int L) = i) ms)))"
proof (induction ms)
  case (Cons x ms)
  have "(\<Sum>i < L. int (length (filter (\<lambda>y. P y \<and> nat (y mod int L) = i) (x # ms))))
     = (\<Sum>i < L. int (length (filter (\<lambda>y. P y \<and> nat (y mod int L) = i) ms)) + (if i = nat (x mod int L) then (if P x then 1 else 0) else 0))"
    by (intro sum.cong) auto
  also have "\<dots> = int (length (filter P ms)) + (if P x then 1 else 0)"
    using slot_less [OF assms, of x] Cons.IH by (simp add: sum.distrib sum.delta)
  finally show ?case by simp
qed simp

lemma ring_window:
  assumes "ring_ok bs ms" and "\<forall>x \<in> set ms. x \<le> unix_minute now" and "k \<le> int (length bs)"
  shows "rolling_window bs now k = int (length (filter (\<lambda>x. unix_minute now - k < x) ms))"
proof -
  define L where "L = length bs"
  define m where "m = unix_minute now"
  have L: "0 < L" using assms(1) by (simp add: ring_ok_def L_def)
  define W where "W = (\<lambda>x. x \<le> m \<and> m - k < x)"
  have slot: "(if W (mb_epoch (bs ! i)) then mb_n (bs ! i) else 0)
     = int (length (filter (\<lambda>x. W x \<and> nat (x mod int L) = i) ms))" if i: "i < L" for i
  proof -
    let ?e = "mb_epoch (bs ! i)"
    have n: "mb_n (bs ! i) = int (length (filter (\<lambda>x. x = ?e \<and> nat (x mod int L) = i) ms))"
      and e: "\<And>x. x \<in> set ms \<Longrightarrow> nat (x mod int L) = i \<Longrightarrow> x \<le> ?e \<and> ?e mod int L = int i \<and> ?e \<in> set ms"
      using assms(1) i unfolding ring_ok_def L_def [symmetric] by blast+
    have same: "x = ?e" if x: "x \<in> set ms" "W x" "nat (x mod int L) = i" for x
    proof -
      have ex: "x \<le> ?e" "?e mod int L = int i" "?e \<le> m" using e [OF x(1,3)] assms(2) by (auto simp: m_def)
      have "x mod int L = int i" using x(3) L by auto
      then have "?e mod int L = x mod int L" using ex(2) by simp
      then have "int L dvd ?e - x" by (rule mod_eq_dvd_iff [THEN iffD1])
      moreover have "?e - x < int L" using x(2) ex(3) assms(3) by (simp add: W_def L_def)
      ultimately show ?thesis using ex(1) zdvd_not_zless [of "?e - x" "int L"] by fastforce
    qed
    show ?thesis
    proof (cases "W ?e")
      case True
      have "filter (\<lambda>x. x = ?e \<and> nat (x mod int L) = i) ms = filter (\<lambda>x. W x \<and> nat (x mod int L) = i) ms"
        using same True by (intro filter_cong) auto
      with True n show ?thesis by simp
    next
      case False
      then have "filter (\<lambda>x. W x \<and> nat (x mod int L) = i) ms = []" using same by (fastforce simp: filter_empty_conv)
      with False show ?thesis by simp
    qed
  qed
  have "rolling_window bs now k = sum_list (map (\<lambda>b. if W (mb_epoch b) then mb_n b else 0) bs)"
    by (simp add: rolling_window_def Let_def W_def m_def sum_list_map_filter')
  also have "\<dots> = (\<Sum>i < L. if W (mb_epoch (bs ! i)) then mb_n (bs ! i) else 0)"
    by (simp add: sum_list_sum_nth L_def atLeast0LessThan)
  also have "\<dots> = (\<Sum>i < L. int (length (filter (\<lambda>x. W x \<and> nat (x mod int L) = i) ms)))"
    by (intro sum.cong) (simp_all add: slot)
  also have "\<dots> = int (length (filter W ms))" by (rule count_split [OF L, symmetric])
  also have "filter W ms = filter (\<lambda>x. unix_minute now - k < x) ms"
    using assms(2) by (intro filter_cong) (auto simp: W_def m_def)
  finally show ?thesis .
qed

definition rolling_adds :: "minute_bucket list \<Rightarrow> time list \<Rightarrow> minute_bucket list" where
  "rolling_adds bs ts = foldl rolling_add bs ts"

lemma unix_minute_mono: "s \<le> t \<Longrightarrow> unix_minute s \<le> unix_minute t"
  unfolding unix_minute_def by (intro zdiv_mono1) (simp_all add: second_def)

lemma ring_ok_adds:
  assumes "ring_ok bs (map unix_minute us)" and "sorted (us @ ts)"
  shows "ring_ok (rolling_adds bs ts) (map unix_minute (us @ ts))"
  using assms
proof (induction ts arbitrary: bs us)
  case (Cons t ts)
  have "\<forall>x \<in> set (map unix_minute us). x \<le> unix_minute t"
    using Cons.prems(2) unix_minute_mono by (auto simp: sorted_append)
  from ring_ok_add [OF Cons.prems(1) this]
  have "ring_ok (rolling_add bs t) (map unix_minute (us @ [t]))" by simp
  from Cons.IH [OF this] Cons.prems(2) show ?case by (simp add: rolling_adds_def)
qed (simp add: rolling_adds_def)

lemma ring_ok_new: "0 < n \<Longrightarrow> ring_ok (new_rolling n) []"
  by (auto simp: ring_ok_def new_rolling_def)

section \<open>Properties\<close>

text \<open>One household can never raise an alarm about the connector: whatever happens to the
  operations of a single owner, as long as no sign-in page was unrecognisable, the connector is
  never reported as rejecting logins or as changed.\<close>

theorem one_owner_raises_no_alarm:
  assumes "\<forall>x \<in> set xs. fst x = owner \<and> \<not> g_LoginShape (classify (fst (snd x)))"
  shows "snd (health_state (note_all no_health xs) now open lastPB) \<notin> {StateAuthFailed, StateUpstreamChanged}"
proof -
  have "one_owner owner (note_all h xs)" if "one_owner owner h" for h
    using assms that by (induction xs arbitrary: h) (auto intro: one_owner_note)
  moreover have "one_owner owner no_health" by (simp add: one_owner_def no_health_def is_zero_def)
  ultimately have "one_owner owner (pruneLocked (note_all no_health xs) now)" by (intro one_owner_prune) simp
  then have "length (h_authRejects (pruneLocked (note_all no_health xs) now)) \<le> 1"
    "length (h_unexpected (pruneLocked (note_all no_health xs) now)) \<le> 1"
    "is_zero (h_loginShapeAt (pruneLocked (note_all no_health xs) now))"
    unfolding one_owner_def using card_mono [of "{owner}"] by (fastforce simp: table_length)+
  then show ?thesis
    by (simp add: health_state_def Let_def healthAuthRejectOwners_def healthUnexpectedOwners_def)
qed

lemma one_owner_raises_no_alarm_witness:
  "snd (health_state (note_all no_health
     [(''a'', Some (Sentinel ErrLoginRejected), 1), (''a'', Some (Classified FailUnexpected OpReadVehicle [] None), 2)])
     3 False no_pushback) \<notin> {StateAuthFailed, StateUpstreamChanged}"
  by (rule one_owner_raises_no_alarm [of _ "''a''"])
    (simp add: classify_def no_signal_def failure_of_def Let_def)

text \<open>Yesterday's trouble cannot colour today's state: half an hour after the last operation of a
  run, in clock order, none of its signals counts any more, and what is reported is the breaker,
  the last push-back, silence or the streak of failures.\<close>

theorem signals_expire:
  assumes "sorted (map (\<lambda>x. snd (snd x)) xs)" and "\<forall>x \<in> set xs. 0 \<le> snd (snd x) \<and> snd (snd x) + healthSignalWindow < now"
    and "0 \<le> now"
  shows "snd (health_state (note_all no_health xs) now open lastPB) \<notin> {StateAuthFailed, StateUpstreamChanged}"
proof -
  have run: "signals_before (last (t # map (\<lambda>x. snd (snd x)) xs)) (note_all h xs)"
    if "signals_before t h" "sorted (t # map (\<lambda>x. snd (snd x)) xs)" for t h
    using that
  proof (induction xs arbitrary: h t)
    case (Cons x xs)
    have "t \<le> snd (snd x)" using Cons.prems(2) by simp
    with Cons.prems(1) have "signals_before (snd (snd x)) (noteAt h (fst x) (fst (snd x)) (snd (snd x)))"
      by (rule signals_before_note)
    from Cons.IH [OF this] Cons.prems(2) show ?case by simp
  qed simp
  have z: "zero_time < 0 - healthSignalWindow"
    by (simp add: zero_time_def healthSignalWindow_def time_simps)
  let ?ts = "zero_time # map (\<lambda>x. snd (snd x)) xs"
  have W: "0 < healthSignalWindow" by (simp add: healthSignalWindow_def time_simps)
  have "last ?ts \<in> set ?ts" by (rule last_in_set) simp
  then have lt: "last ?ts + healthSignalWindow < now" using assms(2,3) z W by auto
  have "signals_before zero_time no_health" by (simp add: signals_before_def no_health_def)
  moreover have "sorted ?ts" using assms(1,2) z W by fastforce
  ultimately have sb: "signals_before (last ?ts) (note_all no_health xs)" by (rule run)
  have old: "healthSignalWindow < tsub now t" if "t \<le> last ?ts" for t
    using that lt by (subst tsub_gt_iff) (simp_all add: healthSignalWindow_def time_simps min_dur_def max_dur_def)
  have "h_authRejects (pruneLocked (note_all no_health xs) now) = []"
    "h_unexpected (pruneLocked (note_all no_health xs) now) = []"
    using sb old unfolding signals_before_def pruneLocked_def by (auto simp: filter_empty_conv)
  moreover have "\<not> tsub now (h_loginShapeAt (note_all no_health xs)) \<le> healthSignalWindow"
    using old [of "h_loginShapeAt (note_all no_health xs)"] sb unfolding signals_before_def by auto
  ultimately show ?thesis
    using prune_subset(5) [of "note_all no_health xs" now]
    by (simp add: health_state_def Let_def healthAuthRejectOwners_def healthUnexpectedOwners_def)
qed

lemma signals_expire_witness:
  "snd (health_state (note_all no_health
     [(''a'', Some (Sentinel ErrLoginRejected), 1), (''b'', Some (Sentinel ErrLoginFormUnrecognised), 2)])
     (31 * minute) False no_pushback) \<notin> {StateAuthFailed, StateUpstreamChanged}"
  by (rule signals_expire) (simp_all add: healthSignalWindow_def time_simps)

text \<open>The request ring counts exactly: after any chronological series of requests, the number it
  reports for the last \<open>k\<close> minutes, for any \<open>k\<close> up to the ring's size, is the number of requests
  whose minute lies in that window.\<close>

theorem ring_counts_recent_requests:
  assumes "sorted (ts @ [now])" and "0 < n" and "k \<le> int n"
  shows "rolling_window (rolling_adds (new_rolling n) ts) now k
     = int (length (filter (\<lambda>t. unix_minute now - k < unix_minute t) ts))"
proof -
  have "sorted ([] @ ts)" using assms(1) by (simp add: sorted_append)
  then have ok: "ring_ok (rolling_adds (new_rolling n) ts) (map unix_minute ts)"
    using ring_ok_adds [of "new_rolling n" "[]" ts] ring_ok_new [OF assms(2)] by simp
  have len: "length (rolling_adds bs ts) = length bs" for bs
    by (induction ts arbitrary: bs) (simp_all add: rolling_adds_def rolling_add_def Let_def)
  have "\<forall>x \<in> set (map unix_minute ts). x \<le> unix_minute now"
    using assms(1) unix_minute_mono by (auto simp: sorted_append)
  from ring_window [OF ok this] show ?thesis
    using assms(3) len by (simp add: new_rolling_def filter_map comp_def)
qed

lemma ring_counts_recent_requests_witness:
  "rolling_window (rolling_adds (new_rolling 10) [1 * minute, 59 * minute, 60 * minute, 61 * minute]) (61 * minute) 2 = 2"
  by (subst ring_counts_recent_requests) (simp_all add: unix_minute_def time_simps)

text \<open>The fleet's worst state does not depend on the order in which the councils are compared:
  combining states is the maximum of their rank, so any permutation gives the same result.\<close>

theorem worst_state_order_irrelevant:
  assumes "set as = set bs"
  shows "foldr WorseConnectorState as StateIdle = foldr WorseConnectorState bs StateIdle
     \<and> (\<forall>a \<in> set as. connectorStateRank a \<le> connectorStateRank (foldr WorseConnectorState as StateIdle))"
proof -
  have f: "foldr WorseConnectorState xs StateIdle = Max (insert StateIdle (set xs))" for xs
  proof (induction xs)
    case (Cons x xs)
    then have "foldr WorseConnectorState (x # xs) StateIdle = max x (Max (insert StateIdle (set xs)))"
      unfolding worse_is_max by simp
    also have "\<dots> = Max (insert x (insert StateIdle (set xs)))" by (intro Max_insert [symmetric]) simp_all
    finally show ?case by (simp add: insert_commute)
  qed simp
  have "a \<le> Max (insert StateIdle (set as))" if "a \<in> set as" for a using that by (intro Max_ge) simp_all
  then show ?thesis using assms by (simp only: f less_eq_connector_state_def) blast
qed

lemma worst_state_order_irrelevant_witness:
  "foldr WorseConnectorState [StateDegraded, StateHealthy] StateIdle
     = foldr WorseConnectorState [StateHealthy, StateDegraded, StateHealthy] StateIdle"
  using worst_state_order_irrelevant [of "[StateDegraded, StateHealthy]" "[StateHealthy, StateDegraded, StateHealthy]"]
  by auto

end
