(* ===== verification/Sessions.thy ===== *)
theory Sessions
  imports Provider
begin

text \<open>
  \<open>internal/store/tenant.go\<close>: the linked council sessions, one row per account and council, with
  the generation that asynchronous work compares before it writes, the e-mailed confirm token,
  and the memo of an account's current council. A SQL statement is a function on the rows: an
  \<open>UPDATE\<close> maps them, a \<open>DELETE\<close> filters them, an upsert replaces the row of the key. A database
  error leaves the rows unchanged and returns the error; the operations below are the successful
  statements. Instants are stored as RFC 3339 text, in whole seconds; the empty text is the zero
  instant. The token's hash, SHA-256 in hex, is a parameter \<open>sha\<close>.
\<close>

section \<open>The row\<close>

record tenant_session =
  ts_Owner :: string
  ts_TenantID :: string
  ts_Sub :: string
  ts_TenantEmail :: string
  ts_Cookie :: string
  ts_AccessToken :: string
  ts_TokenExpiry :: time
  ts_UpdatedAt :: time
  ts_LinkedAt :: time
  ts_ReminderSent :: time
  ts_ConfirmToken :: string
  ts_Password :: string
  ts_ReconnectedAt :: time
  ts_LastActive :: time
  ts_DriftCheckedAt :: time
  ts_Generation :: int

definition no_session :: tenant_session where
  "no_session = \<lparr>ts_Owner = [], ts_TenantID = [], ts_Sub = [], ts_TenantEmail = [], ts_Cookie = [],
     ts_AccessToken = [], ts_TokenExpiry = zero_time, ts_UpdatedAt = zero_time, ts_LinkedAt = zero_time,
     ts_ReminderSent = zero_time, ts_ConfirmToken = [], ts_Password = [], ts_ReconnectedAt = zero_time,
     ts_LastActive = zero_time, ts_DriftCheckedAt = zero_time, ts_Generation = 0\<rparr>"

text \<open>
  The store, as far as sessions go: the rows, the accepted and pending secondaries
  (\<open>account_member\<close>: address, pending), the owners of permits, the selected council
  (\<open>account_flags\<close>), the default council, the memo and its epoch, and the last generation seed.
\<close>

record session_store =
  st_sessions :: "tenant_session list"
  st_members :: "(string \<times> bool) list"
  st_permitOwners :: "string list"
  st_selected :: "string \<rightharpoonup> string"
  st_DefaultTenant :: string
  st_tenantCache :: "string \<rightharpoonup> string"
  st_tenantEpoch :: nat
  st_lastGen :: int

definition at_key :: "string \<Rightarrow> string \<Rightarrow> tenant_session \<Rightarrow> bool" where
  "at_key owner tenant r \<longleftrightarrow> ts_Owner r = owner \<and> ts_TenantID r = tenant"

definition upd_where :: "(tenant_session \<Rightarrow> bool) \<Rightarrow> (tenant_session \<Rightarrow> tenant_session) \<Rightarrow> session_store \<Rightarrow> session_store" where
  "upd_where P f s = s\<lparr>st_sessions := map (\<lambda>r. if P r then f r else r) (st_sessions s)\<rparr>"

definition del_where :: "(tenant_session \<Rightarrow> bool) \<Rightarrow> session_store \<Rightarrow> session_store" where
  "del_where P s = s\<lparr>st_sessions := filter (\<lambda>r. \<not> P r) (st_sessions s)\<rparr>"

definition hashConfirmToken :: "(string \<Rightarrow> string) \<Rightarrow> string \<Rightarrow> string" where
  "hashConfirmToken sha token = (if token = [] then [] else sha token)"

section \<open>Reads\<close>

definition GetTenantSessionIn :: "session_store \<Rightarrow> string \<Rightarrow> string \<Rightarrow> tenant_session option" where
  "GetTenantSessionIn s owner tenant = find (at_key owner tenant) (st_sessions s)"

definition ListTenantSessionsFor :: "session_store \<Rightarrow> string \<Rightarrow> tenant_session list" where
  "ListTenantSessionsFor s owner = filter (\<lambda>r. ts_Owner r = owner) (st_sessions s)"

definition OwnerHasPermit :: "session_store \<Rightarrow> string \<Rightarrow> bool" where
  "OwnerHasPermit s owner = (owner \<in> set (st_permitOwners s))"

text \<open>The query behind \<open>TenantIDFor\<close>: the selected council, else the first in the text order of the
  councils the account is linked to, else the default. \<open>TenantIDFor\<close> itself memoises it.\<close>

definition text_less :: "string \<Rightarrow> string \<Rightarrow> bool" where
  "text_less x y = ord_class.lexordp (map cp x) (map cp y)"

definition tenant_query :: "session_store \<Rightarrow> string \<Rightarrow> string" where
  "tenant_query s owner =
     (let selected = (case st_selected s owner of None \<Rightarrow> [] | Some c \<Rightarrow> c);
          first = (case best text_less (map ts_TenantID (ListTenantSessionsFor s owner)) of None \<Rightarrow> [] | Some c \<Rightarrow> c);
          answer = (if selected \<noteq> [] then selected else first)
      in if answer = [] then st_DefaultTenant s else answer)"

definition TenantIDFor :: "session_store \<Rightarrow> string \<Rightarrow> session_store \<times> string" where
  "TenantIDFor s owner = (case st_tenantCache s owner of Some v \<Rightarrow> (s, v)
     | None \<Rightarrow> (let id = tenant_query s owner
                in (s\<lparr>st_tenantCache := (st_tenantCache s)(owner \<mapsto> id)\<rparr>, id)))"

definition forgetTenant :: "string \<Rightarrow> session_store \<Rightarrow> session_store" where
  "forgetTenant owner s = s\<lparr>st_tenantEpoch := st_tenantEpoch s + 1,
     st_tenantCache := (st_tenantCache s)(owner := None)\<rparr>"

section \<open>Writes\<close>

definition MarkDriftChecked :: "string \<Rightarrow> string \<Rightarrow> time \<Rightarrow> session_store \<Rightarrow> session_store" where
  "MarkDriftChecked owner tenant now =
     upd_where (at_key owner tenant) (\<lambda>r. r\<lparr>ts_DriftCheckedAt := whole_seconds now\<rparr>)"

definition ClearReminderSent :: "string \<Rightarrow> string \<Rightarrow> session_store \<Rightarrow> session_store" where
  "ClearReminderSent owner tenant =
     upd_where (at_key owner tenant) (\<lambda>r. r\<lparr>ts_ReminderSent := zero_time, ts_ConfirmToken := []\<rparr>)"

definition MarkReminderSent :: "(string \<Rightarrow> string) \<Rightarrow> string \<Rightarrow> string \<Rightarrow> string \<Rightarrow> time \<Rightarrow> session_store \<Rightarrow> session_store" where
  "MarkReminderSent sha owner tenant token now =
     upd_where (at_key owner tenant)
       (\<lambda>r. r\<lparr>ts_ReminderSent := whole_seconds now, ts_ConfirmToken := hashConfirmToken sha token\<rparr>)"

text \<open>\<open>ConfirmSession\<close>: the new store and the owner, or \<open>None\<close> for \<open>ErrNotFound\<close>. \<open>now\<close> is the clock of the
  age check, \<open>now'\<close> that of the write.\<close>

definition ConfirmSession ::
  "(string \<Rightarrow> string) \<Rightarrow> string \<Rightarrow> dur \<Rightarrow> time \<Rightarrow> time \<Rightarrow> session_store \<Rightarrow> session_store \<times> string option" where
  "ConfirmSession sha token maxAge now now' s =
     (if token = [] then (s, None)
      else (case find (\<lambda>r. ts_ConfirmToken r = hashConfirmToken sha token) (st_sessions s) of
         None \<Rightarrow> (s, None)
       | Some r \<Rightarrow>
           (if 0 < maxAge \<and> \<not> is_zero (ts_ReminderSent r) \<and> maxAge < tsub now (ts_ReminderSent r)
            then (upd_where (at_key (ts_Owner r) (ts_TenantID r)) (\<lambda>x. x\<lparr>ts_ConfirmToken := []\<rparr>) s, None)
            else (upd_where (at_key (ts_Owner r) (ts_TenantID r))
                    (\<lambda>x. x\<lparr>ts_LinkedAt := whole_seconds now', ts_LastActive := whole_seconds now',
                          ts_ReminderSent := zero_time, ts_ConfirmToken := []\<rparr>) s,
                  Some (ts_Owner r)))))"

definition ClearStaleConfirmTokens :: "time \<Rightarrow> session_store \<Rightarrow> session_store" where
  "ClearStaleConfirmTokens before =
     upd_where (\<lambda>r. ts_ConfirmToken r \<noteq> [] \<and> \<not> is_zero (ts_ReminderSent r) \<and> ts_ReminderSent r < whole_seconds before)
       (\<lambda>r. r\<lparr>ts_ConfirmToken := []\<rparr>)"

definition TouchAccountActive :: "string \<Rightarrow> time \<Rightarrow> session_store \<Rightarrow> session_store" where
  "TouchAccountActive owner now =
     upd_where (\<lambda>r. ts_Owner r = owner)
       (\<lambda>r. r\<lparr>ts_LastActive := whole_seconds now, ts_ReminderSent := zero_time, ts_ConfirmToken := []\<rparr>)"

definition newSessionGeneration :: "time \<Rightarrow> session_store \<Rightarrow> session_store \<times> int" where
  "newSessionGeneration now s =
     (let gen = now div 1000000; gen = (if gen \<le> st_lastGen s then st_lastGen s + 1 else gen)
      in (s\<lparr>st_lastGen := gen\<rparr>, gen))"

text \<open>\<open>SaveTenantSession\<close>: the boolean is false for \<open>ErrSecondaryAccount\<close>. \<open>now\<close> stamps the row, \<open>now'\<close>
  seeds the generation.\<close>

definition upsert_session :: "tenant_session \<Rightarrow> session_store \<Rightarrow> session_store" where
  "upsert_session new s =
     (if \<exists>r \<in> set (st_sessions s). at_key (ts_Owner new) (ts_TenantID new) r
      then upd_where (at_key (ts_Owner new) (ts_TenantID new))
             (\<lambda>r. new\<lparr>ts_ReconnectedAt := ts_ReconnectedAt r, ts_DriftCheckedAt := ts_DriftCheckedAt r,
                      ts_Generation := ts_Generation r + 1\<rparr>) s
      else s\<lparr>st_sessions := st_sessions s @ [new]\<rparr>)"

definition SaveTenantSession :: "tenant_session \<Rightarrow> time \<Rightarrow> time \<Rightarrow> session_store \<Rightarrow> session_store \<times> bool" where
  "SaveTenantSession cs now now' s0 =
     (let (s1, tenant) = (if ts_TenantID cs = [] then TenantIDFor s0 (ts_Owner cs) else (s0, ts_TenantID cs));
          (s2, gen) = newSessionGeneration now' s1;
          new = cs\<lparr>ts_TenantID := tenant, ts_TokenExpiry := whole_seconds (ts_TokenExpiry cs),
            ts_UpdatedAt := whole_seconds now, ts_LinkedAt := whole_seconds now, ts_ReminderSent := zero_time,
            ts_ConfirmToken := [], ts_ReconnectedAt := zero_time, ts_LastActive := whole_seconds now,
            ts_DriftCheckedAt := zero_time, ts_Generation := gen\<rparr>
      in if (ts_Owner cs, False) \<in> set (st_members s2) then (forgetTenant (ts_Owner cs) s2, False)
         else (forgetTenant (ts_Owner cs) (upsert_session new s2), True))"

text \<open>A conditional update: the rows of the key that are still at the expected generation, and whether
  there was one (\<open>RowsAffected\<close>).\<close>

definition at_gen :: "string \<Rightarrow> string \<Rightarrow> int \<Rightarrow> tenant_session \<Rightarrow> bool" where
  "at_gen owner tenant gen r \<longleftrightarrow> at_key owner tenant r \<and> ts_Generation r = gen"

definition any_row :: "(tenant_session \<Rightarrow> bool) \<Rightarrow> session_store \<Rightarrow> bool" where
  "any_row P s = list_ex P (st_sessions s)"

definition SaveReconnectedSessionIfGen :: "tenant_session \<Rightarrow> int \<Rightarrow> time \<Rightarrow> session_store \<Rightarrow> session_store \<times> bool" where
  "SaveReconnectedSessionIfGen cs expectedGen now s0 =
     (let (s, tenant) = (if ts_TenantID cs = [] then TenantIDFor s0 (ts_Owner cs) else (s0, ts_TenantID cs));
          P = at_gen (ts_Owner cs) tenant expectedGen
      in (upd_where P (\<lambda>r. r\<lparr>ts_Cookie := ts_Cookie cs, ts_Password := ts_Password cs,
             ts_UpdatedAt := whole_seconds now, ts_ReconnectedAt := whole_seconds now,
             ts_Generation := ts_Generation r + 1\<rparr>) s, any_row P s))"

definition UpdateTenantToken ::
  "string \<Rightarrow> string \<Rightarrow> string \<Rightarrow> string \<Rightarrow> time \<Rightarrow> int \<Rightarrow> time \<Rightarrow> session_store \<Rightarrow> session_store \<times> bool" where
  "UpdateTenantToken owner tenant sealedCookie sealedAccess expiry expectedGen now s =
     (let P = at_gen owner tenant expectedGen
      in (upd_where P (\<lambda>r. r\<lparr>ts_Cookie := sealedCookie, ts_AccessToken := sealedAccess,
             ts_TokenExpiry := whole_seconds expiry, ts_UpdatedAt := whole_seconds now,
             ts_Generation := ts_Generation r + 1\<rparr>) s, any_row P s))"

definition UpdateTenantCookie ::
  "string \<Rightarrow> string \<Rightarrow> string \<Rightarrow> int \<Rightarrow> time \<Rightarrow> session_store \<Rightarrow> session_store \<times> bool" where
  "UpdateTenantCookie owner tenant sealedCookie expectedGen now s =
     (let P = at_gen owner tenant expectedGen
      in (upd_where P (\<lambda>r. r\<lparr>ts_Cookie := sealedCookie, ts_AccessToken := [],
             ts_TokenExpiry := zero_time, ts_UpdatedAt := whole_seconds now,
             ts_Generation := ts_Generation r + 1\<rparr>) s, any_row P s))"

definition ClearTenantPasswordIn :: "string \<Rightarrow> string \<Rightarrow> session_store \<Rightarrow> session_store" where
  "ClearTenantPasswordIn owner tenant =
     upd_where (at_key owner tenant) (\<lambda>r. r\<lparr>ts_Password := [], ts_Generation := ts_Generation r + 1\<rparr>)"

definition DeleteAllTenantSessions :: "string \<Rightarrow> session_store \<Rightarrow> session_store" where
  "DeleteAllTenantSessions owner s = forgetTenant owner (del_where (\<lambda>r. ts_Owner r = owner) s)"

definition DeleteTenantSessionIn :: "string \<Rightarrow> string \<Rightarrow> session_store \<Rightarrow> session_store" where
  "DeleteTenantSessionIn owner tenant s = forgetTenant owner (del_where (at_key owner tenant) s)"

text \<open>The idle clock of the statement: last activity, else the link time; comparing the stored texts is
  comparing the instants, the empty text first.\<close>

definition idle_clock :: "tenant_session \<Rightarrow> time" where
  "idle_clock r = (if is_zero (ts_LastActive r) then ts_LinkedAt r else ts_LastActive r)"

definition DeleteTenantSessionIfIdle :: "string \<Rightarrow> string \<Rightarrow> time \<Rightarrow> session_store \<Rightarrow> session_store \<times> bool" where
  "DeleteTenantSessionIfIdle owner tenant before s =
     (let P = (\<lambda>r. at_key owner tenant r \<and> idle_clock r \<le> whole_seconds before)
      in (forgetTenant owner (del_where P s), any_row P s))"

definition DeleteTenantSessionIfGen :: "string \<Rightarrow> string \<Rightarrow> int \<Rightarrow> session_store \<Rightarrow> session_store \<times> bool" where
  "DeleteTenantSessionIfGen owner tenant gen s =
     (let P = at_gen owner tenant gen in (forgetTenant owner (del_where P s), any_row P s))"

definition SetAccountTenant :: "string \<Rightarrow> string \<Rightarrow> session_store \<Rightarrow> session_store" where
  "SetAccountTenant owner tenant s =
     forgetTenant owner (s\<lparr>st_selected := (st_selected s)(owner \<mapsto> tenant)\<rparr>)"

section \<open>Runs\<close>

text \<open>A history of statements on the session rows.\<close>

datatype ses_op =
    OMarkDrift string string time
  | OClearReminder string string
  | OMarkReminder string string string time
  | OConfirm string dur time time
  | OClearStale time
  | OTouch string time
  | OSave tenant_session time time
  | OReconnected tenant_session int time
  | OToken string string string string time int time
  | OCookie string string string int time
  | OClearPassword string string
  | ODeleteAll string
  | ODeleteIn string string
  | ODeleteIdle string string time
  | ODeleteGen string string int
  | OSelect string string

fun ses_step :: "(string \<Rightarrow> string) \<Rightarrow> session_store \<Rightarrow> ses_op \<Rightarrow> session_store" where
  "ses_step sha s (OMarkDrift ow tn t) = MarkDriftChecked ow tn t s"
| "ses_step sha s (OClearReminder ow tn) = ClearReminderSent ow tn s"
| "ses_step sha s (OMarkReminder ow tn tok t) = MarkReminderSent sha ow tn tok t s"
| "ses_step sha s (OConfirm tok d t t') = fst (ConfirmSession sha tok d t t' s)"
| "ses_step sha s (OClearStale t) = ClearStaleConfirmTokens t s"
| "ses_step sha s (OTouch ow t) = TouchAccountActive ow t s"
| "ses_step sha s (OSave cs t t') = fst (SaveTenantSession cs t t' s)"
| "ses_step sha s (OReconnected cs g t) = fst (SaveReconnectedSessionIfGen cs g t s)"
| "ses_step sha s (OToken ow tn c a x g t) = fst (UpdateTenantToken ow tn c a x g t s)"
| "ses_step sha s (OCookie ow tn c g t) = fst (UpdateTenantCookie ow tn c g t s)"
| "ses_step sha s (OClearPassword ow tn) = ClearTenantPasswordIn ow tn s"
| "ses_step sha s (ODeleteAll ow) = DeleteAllTenantSessions ow s"
| "ses_step sha s (ODeleteIn ow tn) = DeleteTenantSessionIn ow tn s"
| "ses_step sha s (ODeleteIdle ow tn b) = fst (DeleteTenantSessionIfIdle ow tn b s)"
| "ses_step sha s (ODeleteGen ow tn g) = fst (DeleteTenantSessionIfGen ow tn g s)"
| "ses_step sha s (OSelect ow tn) = SetAccountTenant ow tn s"

definition ses_run :: "(string \<Rightarrow> string) \<Rightarrow> session_store \<Rightarrow> ses_op list \<Rightarrow> session_store" where
  "ses_run sha s xs = foldl (ses_step sha) s xs"

definition all_rows :: "(tenant_session \<Rightarrow> bool) \<Rightarrow> session_store \<Rightarrow> bool" where
  "all_rows Q s \<longleftrightarrow> (\<forall>r \<in> set (st_sessions s). Q r)"

named_theorems row_intros \<open>when a statement keeps a property of every row\<close>

lemma all_rows_upd [row_intros]:
  "all_rows Q s \<Longrightarrow> (\<And>r. Q r \<Longrightarrow> P r \<Longrightarrow> Q (f r)) \<Longrightarrow> all_rows Q (upd_where P f s)"
  by (auto simp: all_rows_def upd_where_def)

lemma all_rows_del [row_intros]: "all_rows Q s \<Longrightarrow> all_rows Q (del_where P s)"
  by (simp add: all_rows_def del_where_def)

lemma all_rows_forget [simp]: "all_rows Q (forgetTenant ow s) = all_rows Q s"
  by (simp add: all_rows_def forgetTenant_def)

lemma all_rows_tenant [simp]: "all_rows Q (fst (TenantIDFor s ow)) = all_rows Q s"
  by (simp add: all_rows_def TenantIDFor_def Let_def split: option.split)

lemma st_members_tenant [simp]: "st_members (fst (TenantIDFor s ow)) = st_members s"
  by (simp add: TenantIDFor_def Let_def split: option.split)

lemma all_rows_upsert:
  assumes "all_rows Q s" and "Q new"
    and "\<And>r. Q r \<Longrightarrow> at_key (ts_Owner new) (ts_TenantID new) r \<Longrightarrow>
       Q (new\<lparr>ts_ReconnectedAt := ts_ReconnectedAt r, ts_DriftCheckedAt := ts_DriftCheckedAt r,
              ts_Generation := ts_Generation r + 1\<rparr>)"
  shows "all_rows Q (upsert_session new s)"
proof (cases "\<exists>r \<in> set (st_sessions s). at_key (ts_Owner new) (ts_TenantID new) r")
  case True
  then show ?thesis unfolding upsert_session_def using assms by (auto intro: all_rows_upd)
next
  case False
  then show ?thesis unfolding upsert_session_def using assms by (auto simp: all_rows_def)
qed

text \<open>The row an interactive link writes, before the upsert.\<close>

lemma all_rows_save:
  assumes "all_rows Q s"
    and "\<And>tenant gen. now' div 1000000 \<le> gen \<Longrightarrow>
       (let new = cs\<lparr>ts_TenantID := tenant, ts_TokenExpiry := whole_seconds (ts_TokenExpiry cs),
            ts_UpdatedAt := whole_seconds now, ts_LinkedAt := whole_seconds now, ts_ReminderSent := zero_time,
            ts_ConfirmToken := [], ts_ReconnectedAt := zero_time, ts_LastActive := whole_seconds now,
            ts_DriftCheckedAt := zero_time, ts_Generation := gen\<rparr>
        in Q new \<and> (\<forall>r. Q r \<longrightarrow> at_key (ts_Owner new) (ts_TenantID new) r \<longrightarrow>
             Q (new\<lparr>ts_ReconnectedAt := ts_ReconnectedAt r, ts_DriftCheckedAt := ts_DriftCheckedAt r,
                    ts_Generation := ts_Generation r + 1\<rparr>)))"
  shows "all_rows Q (fst (SaveTenantSession cs now now' s))"
proof -
  define st where "st = (if ts_TenantID cs = [] then TenantIDFor s (ts_Owner cs) else (s, ts_TenantID cs))"
  define ng where "ng = newSessionGeneration now' (fst st)"
  have q1: "all_rows Q (fst st)" using assms(1) by (simp add: st_def)
  have q2: "all_rows Q (fst ng)" using q1 by (simp add: ng_def newSessionGeneration_def Let_def all_rows_def)
  have g: "now' div 1000000 \<le> snd ng" by (simp add: ng_def newSessionGeneration_def Let_def)
  from assms(2) [OF g, of "snd st"] q2 show ?thesis
    unfolding SaveTenantSession_def Let_def st_def [symmetric] ng_def [symmetric] case_prod_beta
    by (auto intro!: all_rows_upsert)
qed

lemma all_rows_confirm:
  assumes "all_rows Q s"
    and "\<And>r. Q r \<Longrightarrow> Q (r\<lparr>ts_ConfirmToken := []\<rparr>)"
    and "\<And>r. Q r \<Longrightarrow> Q (r\<lparr>ts_LinkedAt := whole_seconds now', ts_LastActive := whole_seconds now',
                          ts_ReminderSent := zero_time, ts_ConfirmToken := []\<rparr>)"
  shows "all_rows Q (fst (ConfirmSession sha token maxAge now now' s))"
  using assms by (auto simp: ConfirmSession_def intro!: all_rows_upd split: option.split)

lemmas ses_defs = MarkDriftChecked_def ClearReminderSent_def MarkReminderSent_def ClearStaleConfirmTokens_def
  TouchAccountActive_def SaveReconnectedSessionIfGen_def UpdateTenantToken_def UpdateTenantCookie_def
  ClearTenantPasswordIn_def DeleteAllTenantSessions_def DeleteTenantSessionIn_def DeleteTenantSessionIfIdle_def
  DeleteTenantSessionIfGen_def SetAccountTenant_def Let_def

lemma all_rows_run:
  assumes "\<And>x s. x \<in> set xs \<Longrightarrow> all_rows Q s \<Longrightarrow> all_rows Q (ses_step sha s x)" and "all_rows Q s"
  shows "all_rows Q (ses_run sha s xs)"
  using assms by (induction xs arbitrary: s) (auto simp: ses_run_def)

lemma all_rows_sub: "all_rows Q (case_prod f p) \<longleftrightarrow> all_rows Q (f (fst p) (snd p))"
  by (simp add: case_prod_beta)

text \<open>A token outstanding always has the date of its reminder.\<close>

definition token_dated :: "tenant_session \<Rightarrow> bool" where
  "token_dated r \<longleftrightarrow> (ts_ConfirmToken r \<noteq> [] \<longrightarrow> \<not> is_zero (ts_ReminderSent r))"

lemma token_dated_step:
  assumes "all_rows token_dated s" and "\<And>ow tn tok t. x = OMarkReminder ow tn tok t \<Longrightarrow> 0 \<le> t"
  shows "all_rows token_dated (ses_step sha s x)"
proof (cases x)
  case (OMarkReminder ow tn tok t)
  then have "\<not> is_zero (whole_seconds t)" using assms(2) whole_seconds_not_zero by blast
  with OMarkReminder assms(1) show ?thesis by (auto simp: ses_defs token_dated_def intro!: row_intros)
next
  case (OSave cs t t')
  then show ?thesis using assms(1) by (auto simp: token_dated_def Let_def intro!: all_rows_save)
next
  case (OConfirm tok d t t')
  then show ?thesis using assms(1) by (auto simp: token_dated_def intro!: all_rows_confirm)
next
  case (OSelect ow tn)
  then show ?thesis using assms(1) by (simp add: SetAccountTenant_def all_rows_def forgetTenant_def)
qed (use assms(1) in \<open>auto simp: ses_defs case_prod_beta token_dated_def intro!: row_intros\<close>)

text \<open>The rows of a key at or past a generation, the material fixed while it is that generation.\<close>

definition past :: "string \<Rightarrow> string \<Rightarrow> int \<Rightarrow> string \<Rightarrow> string \<Rightarrow> tenant_session \<Rightarrow> bool" where
  "past ow tn g c p r \<longleftrightarrow> (at_key ow tn r \<longrightarrow>
     g \<le> ts_Generation r \<and> (ts_Generation r = g \<longrightarrow> ts_Cookie r = c \<and> ts_Password r = p))"

lemma past_step:
  assumes "all_rows (past ow tn g c p) s" and "\<And>cs t t'. x = OSave cs t t' \<Longrightarrow> g < t' div 1000000"
  shows "all_rows (past ow tn g c p) (ses_step sha s x)"
proof (cases x)
  case (OSave cs t t')
  then have "g < t' div 1000000" using assms(2) by blast
  with OSave assms(1) show ?thesis by (auto simp: past_def at_key_def Let_def intro!: all_rows_save)
next
  case (OConfirm tok d t t')
  then show ?thesis using assms(1) by (auto simp: past_def at_key_def intro!: all_rows_confirm)
next
  case (OSelect ow tn)
  then show ?thesis using assms(1) by (simp add: SetAccountTenant_def all_rows_def forgetTenant_def)
qed (use assms(1) in \<open>auto simp: ses_defs case_prod_beta past_def at_key_def intro!: row_intros\<close>)

section \<open>The memo under interleaving\<close>

text \<open>
  A write commits, and only then forgets the memo (\<open>defer\<close>); a read loads the epoch, queries, and
  only then memoises. Both can interleave with any other goroutine between their parts.
  \<open>sql_write ow\<close> is what a statement on the account \<open>ow\<close> can do to what the query reads.
\<close>

definition sql_write :: "string \<Rightarrow> session_store \<Rightarrow> session_store \<Rightarrow> bool" where
  "sql_write ow s s' \<longleftrightarrow> (\<exists>tn. s' = s\<lparr>st_selected := (st_selected s)(ow \<mapsto> tn)\<rparr>)
     \<or> (\<exists>P. (\<forall>r. P r \<longrightarrow> ts_Owner r = ow) \<and> s' = del_where P s)
     \<or> (\<exists>new. ts_Owner new = ow \<and> s' = upsert_session new s)"

record memo_system =
  mm_store :: session_store
  mm_pending :: "string list"
  mm_readers :: "(string \<times> nat \<times> string) list"

inductive memo_step :: "memo_system \<Rightarrow> memo_system \<Rightarrow> bool" where
  Write: "sql_write ow (mm_store m) s' \<Longrightarrow>
     memo_step m (m\<lparr>mm_store := s', mm_pending := ow # mm_pending m\<rparr>)"
| Forget: "ow \<in> set (mm_pending m) \<Longrightarrow>
     memo_step m (m\<lparr>mm_store := forgetTenant ow (mm_store m), mm_pending := remove1 ow (mm_pending m)\<rparr>)"
| Query: "e \<le> st_tenantEpoch (mm_store m) \<Longrightarrow>
     memo_step m (m\<lparr>mm_readers := (ow, e, tenant_query (mm_store m) ow) # mm_readers m\<rparr>)"
| Memoise: "mm_readers m = xs @ (ow, e, v) # zs \<Longrightarrow> st_tenantEpoch (mm_store m) = e \<Longrightarrow>
     memo_step m (m\<lparr>mm_store := (mm_store m)\<lparr>st_tenantCache := (st_tenantCache (mm_store m))(ow \<mapsto> v)\<rparr>,
       mm_readers := xs @ zs\<rparr>)"
| Skip: "mm_readers m = xs @ (ow, e, v) # zs \<Longrightarrow> st_tenantEpoch (mm_store m) \<noteq> e \<Longrightarrow>
     memo_step m (m\<lparr>mm_readers := xs @ zs\<rparr>)"

definition memo_inv :: "memo_system \<Rightarrow> bool" where
  "memo_inv m \<longleftrightarrow> (\<forall>ow v. st_tenantCache (mm_store m) ow = Some v \<longrightarrow> ow \<in> set (mm_pending m) \<or> v = tenant_query (mm_store m) ow)
     \<and> (\<forall>ow e v. (ow, e, v) \<in> set (mm_readers m) \<longrightarrow> e \<le> st_tenantEpoch (mm_store m)
          \<and> (e = st_tenantEpoch (mm_store m) \<longrightarrow> ow \<in> set (mm_pending m) \<or> v = tenant_query (mm_store m) ow))"

lemma upsert_other_owner:
  "ow' \<noteq> ts_Owner new \<Longrightarrow> ListTenantSessionsFor (upsert_session new s) ow' = ListTenantSessionsFor s ow'"
proof -
  assume ne: "ow' \<noteq> ts_Owner new"
  have "filter (\<lambda>r. ts_Owner r = ow') (map (\<lambda>r. if at_key (ts_Owner new) tn r then f r else r) xs)
     = filter (\<lambda>r. ts_Owner r = ow') xs" if "\<And>r. ts_Owner (f r) = ts_Owner new" for f tn xs
    using ne that by (induction xs) (auto simp: at_key_def)
  with ne show ?thesis by (simp add: upsert_session_def upd_where_def ListTenantSessionsFor_def)
qed

lemma sql_write_frame:
  assumes "sql_write ow s s'"
  shows "st_tenantCache s' = st_tenantCache s" "st_tenantEpoch s' = st_tenantEpoch s"
    "ow' \<noteq> ow \<Longrightarrow> tenant_query s' ow' = tenant_query s ow'"
proof -
  from assms consider (sel) tn where "s' = s\<lparr>st_selected := (st_selected s)(ow \<mapsto> tn)\<rparr>"
    | (del) P where "\<And>r. P r \<Longrightarrow> ts_Owner r = ow" "s' = del_where P s"
    | (ups) new where "ts_Owner new = ow" "s' = upsert_session new s"
    by (auto simp: sql_write_def)
  then have "st_tenantCache s' = st_tenantCache s \<and> st_tenantEpoch s' = st_tenantEpoch s
    \<and> (ow' \<noteq> ow \<longrightarrow> tenant_query s' ow' = tenant_query s ow')"
  proof cases
    case sel
    then show ?thesis by (simp add: tenant_query_def ListTenantSessionsFor_def cong: if_cong)
  next
    case del
    have "ow' \<noteq> ow \<Longrightarrow> filter (\<lambda>r. ts_Owner r = ow' \<and> \<not> P r) (st_sessions s) = filter (\<lambda>r. ts_Owner r = ow') (st_sessions s)"
      using del(1) by (intro filter_cong) auto
    with del(2) show ?thesis
      by (simp add: tenant_query_def ListTenantSessionsFor_def del_where_def conj_commute cong: if_cong)
  next
    case ups
    have "st_selected (upsert_session new s) = st_selected s" "st_DefaultTenant (upsert_session new s) = st_DefaultTenant s"
      "st_tenantCache (upsert_session new s) = st_tenantCache s" "st_tenantEpoch (upsert_session new s) = st_tenantEpoch s"
      by (simp_all add: upsert_session_def upd_where_def)
    with ups upsert_other_owner [of ow' new s] show ?thesis by (simp add: tenant_query_def cong: if_cong)
  qed
  then show "st_tenantCache s' = st_tenantCache s" "st_tenantEpoch s' = st_tenantEpoch s"
    "ow' \<noteq> ow \<Longrightarrow> tenant_query s' ow' = tenant_query s ow'" by simp_all
qed

lemma query_frame [simp]:
  "tenant_query (forgetTenant ow s) ow' = tenant_query s ow'"
  "tenant_query (s\<lparr>st_tenantCache := c\<rparr>) ow' = tenant_query s ow'"
  by (simp_all add: tenant_query_def ListTenantSessionsFor_def forgetTenant_def cong: if_cong)

lemma forget_fields [simp]:
  "st_tenantCache (forgetTenant ow s) = (st_tenantCache s)(ow := None)"
  "st_tenantEpoch (forgetTenant ow s) = Suc (st_tenantEpoch s)"
  "st_sessions (forgetTenant ow s) = st_sessions s"
  by (simp_all add: forgetTenant_def)

lemma memo_inv_step: "memo_step m m' \<Longrightarrow> memo_inv m \<Longrightarrow> memo_inv m'"
proof (induction rule: memo_step.induct)
  case (Write ow m s')
  then show ?case using sql_write_frame [OF Write(1)] by (auto simp: memo_inv_def) metis+
next
  case (Forget ow m)
  have keep: "ow' \<in> set (remove1 ow (mm_pending m))" if "ow' \<in> set (mm_pending m)" "ow' \<noteq> ow" for ow'
    using that by (simp add: in_set_remove1)
  show ?case unfolding memo_inv_def
  proof (intro conjI allI impI)
    fix ow' v assume "st_tenantCache (mm_store (m\<lparr>mm_store := forgetTenant ow (mm_store m), mm_pending := remove1 ow (mm_pending m)\<rparr>)) ow' = Some v"
    then have "ow' \<noteq> ow" "st_tenantCache (mm_store m) ow' = Some v" by (auto split: if_splits)
    then show "ow' \<in> set (mm_pending (m\<lparr>mm_store := forgetTenant ow (mm_store m), mm_pending := remove1 ow (mm_pending m)\<rparr>))
       \<or> v = tenant_query (mm_store (m\<lparr>mm_store := forgetTenant ow (mm_store m), mm_pending := remove1 ow (mm_pending m)\<rparr>)) ow'"
      using Forget(2) keep by (auto simp: memo_inv_def)
  qed (use Forget(2) in \<open>force simp: memo_inv_def\<close>)+
next
  case (Query e m ow)
  then show ?case by (auto simp: memo_inv_def)
next
  case (Memoise m xs ow e v zs)
  then show ?case by (auto simp: memo_inv_def)
next
  case (Skip m xs ow e v zs)
  then show ?case by (auto simp: memo_inv_def)
qed

section \<open>Properties\<close>

definition w_session :: tenant_session where
  "w_session = no_session\<lparr>ts_Owner := ''a@x'', ts_TenantID := ''stonnington'', ts_Cookie := ''c1'', ts_Generation := 5\<rparr>"

definition w_store :: session_store where
  "w_store = \<lparr>st_sessions = [w_session], st_members = [], st_permitOwners = [], st_selected = (\<lambda>_. None),
     st_DefaultTenant = ''stonnington'', st_tenantCache = (\<lambda>_. None), st_tenantEpoch = 0, st_lastGen = 5\<rparr>"

text \<open>Stale work never touches a newer session: if, after any history of statements, a row of the
  account and council still carries the generation that was captured, then it still holds the
  captured cookie and password, so a write or deletion conditioned on that generation acts on the
  session it observed and on no other. This needs that a link seeds its generation from a clock
  that is past the captured generation (in milliseconds).\<close>

theorem generation_identifies_the_session:
  assumes "\<forall>x \<in> set (st_sessions s). at_key ow tn x \<longrightarrow> x = r"
    and "\<forall>cs t t'. OSave cs t t' \<in> set xs \<longrightarrow> ts_Generation r < t' div 1000000"
    and "r' \<in> set (st_sessions (ses_run sha s xs))" and "at_gen ow tn (ts_Generation r) r'"
  shows "ts_Cookie r' = ts_Cookie r \<and> ts_Password r' = ts_Password r"
proof -
  let ?Q = "past ow tn (ts_Generation r) (ts_Cookie r) (ts_Password r)"
  have "all_rows ?Q s" using assms(1) by (auto simp: all_rows_def past_def)
  then have "all_rows ?Q (ses_run sha s xs)"
    using assms(2) by (intro all_rows_run past_step) auto
  with assms(3,4) show ?thesis by (auto simp: all_rows_def past_def at_gen_def)
qed

definition w_later :: tenant_session where
  "w_later = hd (st_sessions (ses_run id w_store [OTouch ''a@x'' 0, OMarkDrift ''a@x'' ''stonnington'' 0]))"

lemma generation_identifies_the_session_witness:
  "at_gen ''a@x'' ''stonnington'' 5 w_later \<and> ts_DriftCheckedAt w_later = 0
     \<and> ts_Cookie w_later = ''c1'' \<and> ts_Password w_later = ts_Password w_session"
proof -
  have in_set: "w_later \<in> set (st_sessions (ses_run id w_store [OTouch ''a@x'' 0, OMarkDrift ''a@x'' ''stonnington'' 0]))"
    and gen: "at_gen ''a@x'' ''stonnington'' 5 w_later" and drift: "ts_DriftCheckedAt w_later = 0"
    by (simp_all add: w_later_def w_store_def w_session_def ses_run_def TouchAccountActive_def
        MarkDriftChecked_def upd_where_def at_gen_def at_key_def whole_seconds_def)
  have "ts_Cookie w_later = ts_Cookie w_session \<and> ts_Password w_later = ts_Password w_session"
    using generation_identifies_the_session [of w_store "''a@x''" "''stonnington''" w_session
      "[OTouch ''a@x'' 0, OMarkDrift ''a@x'' ''stonnington'' 0]" w_later id] in_set gen
    by (simp add: w_store_def w_session_def)
  then show ?thesis using gen drift by (simp add: w_session_def)
qed

text \<open>No confirm link is immortal: in a store built by any history of statements from rows without
  outstanding tokens, a token confirms a session only if the reminder that carried it went out at
  most \<open>maxAge\<close> ago. (Clearing a reminder's date while leaving its token would break this.)\<close>

theorem confirm_links_expire:
  assumes "\<forall>r \<in> set (st_sessions s). ts_ConfirmToken r = []"
    and "\<forall>ow tn tok t. OMarkReminder ow tn tok t \<in> set xs \<longrightarrow> 0 \<le> t"
    and "\<And>x. sha x \<noteq> []" and "0 < maxAge"
    and "snd (ConfirmSession sha token maxAge now now' (ses_run sha s xs)) = Some owner"
  shows "\<exists>r \<in> set (st_sessions (ses_run sha s xs)). ts_Owner r = owner \<and> ts_ConfirmToken r = sha token
     \<and> \<not> is_zero (ts_ReminderSent r) \<and> tsub now (ts_ReminderSent r) \<le> maxAge"
proof -
  have "all_rows token_dated s" using assms(1) by (simp add: all_rows_def token_dated_def)
  then have d: "all_rows token_dated (ses_run sha s xs)"
    using assms(2) by (intro all_rows_run token_dated_step) auto
  obtain r where r: "find (\<lambda>r. ts_ConfirmToken r = sha token) (st_sessions (ses_run sha s xs)) = Some r"
    "ts_Owner r = owner" "\<not> (\<not> is_zero (ts_ReminderSent r) \<and> maxAge < tsub now (ts_ReminderSent r))"
    using assms(4,5) by (auto simp: ConfirmSession_def hashConfirmToken_def split: if_splits option.splits)
  then have "r \<in> set (st_sessions (ses_run sha s xs))" "ts_ConfirmToken r = sha token"
    by (auto simp: find_Some_iff)
  then show ?thesis using r d assms(3) by (intro bexI [of _ r]) (auto simp: all_rows_def token_dated_def)
qed

lemma confirm_links_expire_witness:
  "\<exists>r \<in> set (st_sessions (ses_run (Cons CHR ''h'') w_store [OMarkReminder ''a@x'' ''stonnington'' ''t'' 0])).
     ts_Owner r = ''a@x'' \<and> tsub second (ts_ReminderSent r) \<le> hour"
proof -
  have "snd (ConfirmSession (Cons CHR ''h'') ''t'' hour second second
     (ses_run (Cons CHR ''h'') w_store [OMarkReminder ''a@x'' ''stonnington'' ''t'' 0])) = Some ''a@x''"
    by (simp add: ses_run_def MarkReminderSent_def upd_where_def w_store_def w_session_def no_session_def at_key_def
      hashConfirmToken_def ConfirmSession_def whole_seconds_def tsub_def min_dur_def max_dur_def time_simps)
  then show ?thesis
    using confirm_links_expire [of w_store "[OMarkReminder ''a@x'' ''stonnington'' ''t'' 0]" "Cons CHR ''h''" hour "''t''"
      second second "''a@x''"]
    by (auto simp: w_store_def w_session_def no_session_def time_simps)
qed

text \<open>The memo of an account's current council is never stale: however reads and writes
  interleave, once no write of an account is between its commit and its invalidation, asking for its
  council gives what the rows say.\<close>

theorem tenant_memo_is_coherent:
  assumes "memo_step\<^sup>*\<^sup>* \<lparr>mm_store = s, mm_pending = [], mm_readers = []\<rparr> m"
    and "st_tenantCache s = (\<lambda>_. None)" and "owner \<notin> set (mm_pending m)"
  shows "snd (TenantIDFor (mm_store m) owner) = tenant_query (mm_store m) owner"
proof -
  have "memo_inv \<lparr>mm_store = s, mm_pending = [], mm_readers = []\<rparr>"
    using assms(2) by (simp add: memo_inv_def)
  with assms(1) have "memo_inv m" by (induction rule: rtranclp_induct) (auto intro: memo_inv_step)
  with assms(3) show ?thesis by (auto simp: TenantIDFor_def memo_inv_def Let_def split: option.split)
qed

lemma tenant_memo_is_coherent_witness:
  "snd (TenantIDFor (SetAccountTenant ''a@x'' ''darebin'' w_store) ''a@x'') = ''darebin''"
proof -
  let ?w = "\<lparr>mm_store = w_store, mm_pending = [], mm_readers = []\<rparr>"
  let ?s = "w_store\<lparr>st_selected := (st_selected w_store)(''a@x'' \<mapsto> ''darebin'')\<rparr>"
  have "memo_step ?w (?w\<lparr>mm_store := ?s, mm_pending := [''a@x'']\<rparr>)"
    using memo_step.Write [of "''a@x''" ?w ?s] by (auto simp: sql_write_def)
  moreover have "memo_step (?w\<lparr>mm_store := ?s, mm_pending := [''a@x'']\<rparr>) (?w\<lparr>mm_store := forgetTenant ''a@x'' ?s, mm_pending := []\<rparr>)"
    using memo_step.Forget [of "''a@x''" "?w\<lparr>mm_store := ?s, mm_pending := [''a@x'']\<rparr>"] by simp
  ultimately have "memo_step\<^sup>*\<^sup>* ?w (?w\<lparr>mm_store := forgetTenant ''a@x'' ?s, mm_pending := []\<rparr>)" by (meson r_into_rtranclp rtranclp_trans)
  from tenant_memo_is_coherent [OF this, of "''a@x''"] show ?thesis
    by (simp add: w_store_def SetAccountTenant_def tenant_query_def forgetTenant_def)
qed

text \<open>Retiring idle sessions spares whoever came back: a session whose account was used after the
  cutoff is never deleted, and one idle exactly at the cutoff is.\<close>

theorem idle_delete_spares_returners:
  assumes "r \<in> set (st_sessions s)" and "at_key ow tn r" and "\<not> is_zero (ts_LastActive r)"
  shows "(r \<in> set (st_sessions (fst (DeleteTenantSessionIfIdle ow tn before s))) \<longleftrightarrow> whole_seconds before < ts_LastActive r)
    \<and> (\<forall>x \<in> set (st_sessions (TouchAccountActive ow now s)).
         at_key ow tn x \<and> whole_seconds before < whole_seconds now \<and> 0 \<le> now \<longrightarrow>
         x \<in> set (st_sessions (fst (DeleteTenantSessionIfIdle ow tn before (TouchAccountActive ow now s)))))"
  using assms whole_seconds_not_zero [of now]
  by (auto simp: DeleteTenantSessionIfIdle_def del_where_def idle_clock_def TouchAccountActive_def upd_where_def Let_def
    at_key_def split: if_splits)

lemma idle_delete_spares_returners_witness:
  "w_session\<lparr>ts_LastActive := 90 * day\<rparr> \<notin>
     set (st_sessions (fst (DeleteTenantSessionIfIdle ''a@x'' ''stonnington'' (90 * day)
       (w_store\<lparr>st_sessions := [w_session\<lparr>ts_LastActive := 90 * day\<rparr>]\<rparr>))))"
  using idle_delete_spares_returners [of "w_session\<lparr>ts_LastActive := 90 * day\<rparr>"
    "w_store\<lparr>st_sessions := [w_session\<lparr>ts_LastActive := 90 * day\<rparr>]\<rparr>" "''a@x''" "''stonnington''" "90 * day" 0]
  by (simp add: w_session_def no_session_def at_key_def is_zero_def zero_time_def whole_seconds_def time_simps)

end
