(* ===== verification/SecretBox.thy ===== *)
theory SecretBox
  imports Prelude
begin

text \<open>
  \<open>internal/secretbox\<close>: sealing of secrets at rest and the context strings that bind a sealed value
  to its purpose, account and council. AES-256-GCM is a parameter (its \<open>Seal\<close> and \<open>Open\<close> on the
  bytes after the nonce), as is the random nonce of each seal; base64 is a parameter with its
  inverse. \<open>aead_ok\<close> states what the code relies on: an opening under the sealing context gives
  the text back, and an opening under another one fails.
\<close>

record box =
  bx_seal :: "string \<Rightarrow> string \<Rightarrow> string \<Rightarrow> string"
  bx_open :: "string \<Rightarrow> string \<Rightarrow> string \<Rightarrow> string option"
  bx_nonceSize :: nat
  bx_enc :: "string \<Rightarrow> string"
  bx_dec :: "string \<Rightarrow> string option"

text \<open>\<open>bx_seal nonce plaintext aad\<close> and \<open>bx_open nonce ciphertext aad\<close>; no context is the empty one.\<close>

definition aead_ok :: "box \<Rightarrow> bool" where
  "aead_ok b \<longleftrightarrow> (\<forall>x. bx_dec b (bx_enc b x) = Some x)
     \<and> (\<forall>n p a. bx_open b n (bx_seal b n p a) a = Some p)
     \<and> (\<forall>n p a a'. a \<noteq> a' \<longrightarrow> bx_open b n (bx_seal b n p a) a' = None)"

definition SealCtx :: "box \<Rightarrow> string \<Rightarrow> string \<Rightarrow> string \<Rightarrow> string" where
  "SealCtx b nonce ctx plaintext = bx_enc b (nonce @ bx_seal b nonce plaintext ctx)"

text \<open>The loop over the contexts: the text and whether it opened under a later one.\<close>

primrec open_any :: "box \<Rightarrow> string \<Rightarrow> string \<Rightarrow> string list \<Rightarrow> bool \<Rightarrow> (string \<times> bool) option" where
  "open_any b nonce ct [] past0 = None"
| "open_any b nonce ct (c # cs) past0 = (case bx_open b nonce ct c of
     Some pt \<Rightarrow> Some (pt, past0) | None \<Rightarrow> open_any b nonce ct cs True)"

definition OpenCtxAny :: "box \<Rightarrow> string \<Rightarrow> string list \<Rightarrow> (string \<times> bool) option" where
  "OpenCtxAny b encoded contexts =
     (if contexts = [] \<or> hd contexts = [] then None
      else (case bx_dec b encoded of None \<Rightarrow> None
        | Some raw \<Rightarrow>
            if length raw < bx_nonceSize b then None
            else (let nonce = take (bx_nonceSize b) raw; ct = drop (bx_nonceSize b) raw
                  in case open_any b nonce ct contexts False of
                       Some r \<Rightarrow> Some r
                     | None \<Rightarrow> (case bx_open b nonce ct [] of None \<Rightarrow> None | Some pt \<Rightarrow> Some (pt, True)))))"

definition OpenCtx :: "box \<Rightarrow> string \<Rightarrow> string \<Rightarrow> (string \<times> bool) option" where
  "OpenCtx b ctx encoded = OpenCtxAny b encoded [ctx]"

definition SealUnbound :: "box \<Rightarrow> string \<Rightarrow> string \<Rightarrow> string" where
  "SealUnbound b nonce plaintext = bx_enc b (nonce @ bx_seal b nonce plaintext [])"

definition OpenUnbound :: "box \<Rightarrow> string \<Rightarrow> string option" where
  "OpenUnbound b encoded = (case bx_dec b encoded of None \<Rightarrow> None
     | Some raw \<Rightarrow> if length raw < bx_nonceSize b then None
         else bx_open b (take (bx_nonceSize b) raw) (drop (bx_nonceSize b) raw) [])"

section \<open>Contexts\<close>

definition withTenant :: "string \<Rightarrow> string \<Rightarrow> string \<Rightarrow> string" where
  "withTenant purpose owner tenant =
     (if tenant = [] then purpose @ '':'' @ owner else purpose @ '':'' @ tenant @ '':'' @ owner)"

definition TenantCookie :: "string \<Rightarrow> string" where "TenantCookie owner = ''council-cookie:'' @ owner"
definition TenantCookieFor :: "string \<Rightarrow> string \<Rightarrow> string" where
  "TenantCookieFor owner tenant = withTenant ''council-cookie'' owner tenant"
definition TenantToken :: "string \<Rightarrow> string" where "TenantToken owner = ''council-token:'' @ owner"
definition TenantTokenFor :: "string \<Rightarrow> string \<Rightarrow> string" where
  "TenantTokenFor owner tenant = withTenant ''council-token'' owner tenant"
definition TenantPassword :: "string \<Rightarrow> string" where "TenantPassword owner = ''council-password:'' @ owner"
definition TenantPasswordFor :: "string \<Rightarrow> string \<Rightarrow> string" where
  "TenantPasswordFor owner tenant = withTenant ''council-password'' owner tenant"
definition GuestToken :: "string \<Rightarrow> string" where "GuestToken owner = ''guest-token:'' @ owner"
definition NtfyConfirm :: string where "NtfyConfirm = ''ntfy-confirm''"

lemma append_colon_inject:
  assumes "CHR '':'' \<notin> set a" and "CHR '':'' \<notin> set b" and "a @ '':'' @ x = b @ '':'' @ y"
  shows "a = b \<and> x = y"
  using cut_at_inject [OF assms(1,2), of x y] assms(3) by simp

lemma open_any_skip:
  assumes "aead_ok b" and "ctx \<notin> set cs"
  shows "open_any b n (bx_seal b n p ctx) cs l = None"
  using assms by (induction cs arbitrary: l) (auto simp: aead_ok_def)

lemma open_sealed:
  assumes "aead_ok b" and "length nonce = bx_nonceSize b" and "contexts \<noteq> []" and "hd contexts \<noteq> []"
  shows "OpenCtxAny b (SealCtx b nonce ctx p) contexts =
     (if ctx \<in> set contexts then Some (p, ctx \<noteq> hd contexts) else if ctx = [] then Some (p, True) else None)"
proof -
  have dec: "bx_dec b (SealCtx b nonce ctx p) = Some (nonce @ bx_seal b nonce p ctx)"
    using assms(1) by (simp add: aead_ok_def SealCtx_def)
  have op: "open_any b nonce (bx_seal b nonce p ctx) cs l =
     (if ctx \<in> set cs then Some (p, l \<or> ctx \<noteq> hd cs) else None)" for cs l
  proof (induction cs arbitrary: l)
    case (Cons c cs)
    then show ?case using assms(1) by (cases "c = ctx") (auto simp: aead_ok_def)
  qed simp
  have e: "bx_open b nonce (bx_seal b nonce p ctx) [] = (if ctx = [] then Some p else None)"
    using assms(1) by (auto simp: aead_ok_def)
  show ?thesis
    using assms(2,3,4) by (simp add: OpenCtxAny_def dec op e)
qed

section \<open>Properties\<close>

text \<open>A sealed secret means one thing: it opens, current, under the context it was sealed with; under
  any other chain of contexts that does not contain that one it does not open at all; and under a
  chain where it comes later it opens but is reported legacy, so that the caller re-seals it.\<close>

theorem sealed_secrets_are_bound:
  assumes "aead_ok b" and "length nonce = bx_nonceSize b" and "ctx \<noteq> []" and "c \<noteq> []"
  shows "OpenCtxAny b (SealCtx b nonce ctx p) (c # cs) =
     (if c = ctx then Some (p, False) else if ctx \<in> set cs then Some (p, True) else None)"
  using open_sealed [OF assms(1,2), of "c # cs"] assms(3,4) by auto

text \<open>A box that satisfies the hypothesis: the ciphertext is the context, its length in unary, and the
  text.\<close>

definition w_box :: box where
  "w_box = \<lparr>bx_seal = (\<lambda>n p a. map (\<lambda>_. CHR ''x'') a @ CHR ''|'' # a @ p),
     bx_open = (\<lambda>n ct a. let k = length (takeWhile (\<lambda>c. c \<noteq> CHR ''|'') ct); rest = drop (Suc k) ct
        in if take k rest = a \<and> k \<le> length rest then Some (drop k rest) else None),
     bx_nonceSize = 2, bx_enc = (\<lambda>x. x), bx_dec = Some\<rparr>"

lemma w_box_ok: "aead_ok w_box"
proof -
  have "takeWhile (\<lambda>c. c \<noteq> CHR ''|'') (map (\<lambda>_. CHR ''x'') a @ CHR ''|'' # r) = map (\<lambda>_. CHR ''x'') a" for a :: string and r
    by (induction a) auto
  then show ?thesis by (auto simp: aead_ok_def w_box_def Let_def)
qed

lemma sealed_secrets_are_bound_witness:
  "OpenCtxAny w_box (SealCtx w_box ''nn'' ''council-cookie:a'' ''secret'') [''council-password:a''] = None"
  using sealed_secrets_are_bound [OF w_box_ok, of "''nn''" "''council-cookie:a''" "''council-password:a''" "''secret''" "[]"]
  by (simp add: w_box_def)

text \<open>Contexts never collide across purposes, councils or households: for councils named by a slug
  without a colon, two of the per-council contexts are equal only if their purpose, council and
  account are, so no sealed cookie, token or password can be moved to another row and opened there.\<close>

theorem contexts_never_collide:
  assumes "CHR '':'' \<notin> set purpose" and "CHR '':'' \<notin> set purpose'"
    and "CHR '':'' \<notin> set tenant" and "CHR '':'' \<notin> set tenant'" and "tenant \<noteq> []" and "tenant' \<noteq> []"
  shows "withTenant purpose owner tenant = withTenant purpose' owner' tenant' \<longleftrightarrow>
     purpose = purpose' \<and> tenant = tenant' \<and> owner = owner'"
proof
  assume "withTenant purpose owner tenant = withTenant purpose' owner' tenant'"
  then have "purpose @ '':'' @ (tenant @ '':'' @ owner) = purpose' @ '':'' @ (tenant' @ '':'' @ owner')"
    using assms(5,6) by (simp add: withTenant_def)
  from append_colon_inject [OF assms(1,2) this] have p: "purpose = purpose'"
    and t: "tenant @ '':'' @ owner = tenant' @ '':'' @ owner'" by simp_all
  with append_colon_inject [OF assms(3,4) t] show "purpose = purpose' \<and> tenant = tenant' \<and> owner = owner'" by simp
qed simp

lemma contexts_never_collide_witness:
  "TenantCookieFor ''a:b@x'' ''stonnington'' \<noteq> TenantPasswordFor ''a:b@x'' ''stonnington''"
  using contexts_never_collide [of "''council-cookie''" "''council-password''" "''stonnington''" "''stonnington''"
    "''a:b@x''" "''a:b@x''"]
  by (simp add: TenantCookieFor_def TenantPasswordFor_def)

end
