(* ===== verification/Client.thy ===== *)
theory Client
  imports Model Breaker Health Sessions SecretBox
begin

text \<open>
  \<open>internal/parking/parking.go\<close>, \<open>owner.go\<close> and the status reads of \<open>metrics.go\<close>: the per-council
  client that runs every portal operation of an account under one discipline (session, cooldown,
  fleet breaker, classification, persistence), links and reconnects accounts, and caches plate
  readings.

  The portal is a parameter: an operation \<open>fn\<close> takes the unsealed session material and returns
  the possibly rotated material, a value and an error. What other goroutines write to the session
  rows while an operation is on the wire is the parameter \<open>mid\<close>. The clock is read once before
  the wire (\<open>now\<close>) and once after it (\<open>now'\<close>). Locks make an operation of an account one step.
\<close>

section \<open>State\<close>

type_synonym reg_key = "string \<times> string"

record parking_client =
  pc_TenantID :: string
  pc_caps :: capabilities
  pc_store :: session_store
  pc_regCache :: "reg_key \<rightharpoonup> string \<times> time"
  pc_regRefresh :: "reg_key set"
  pc_regFail :: "reg_key \<rightharpoonup> time"
  pc_regGen :: "reg_key \<Rightarrow> 64 word"
  pc_cooldownUntil :: "string \<rightharpoonup> time"
  pc_strikes :: "string \<rightharpoonup> int"
  pc_health :: connector_health
  pc_breaker :: "breaker option"
  pc_row :: "breaker_row option"
  pc_persistOK :: bool
  pc_pushbacks :: "64 word"
  pc_lastPB :: pushback_event
  pc_trunc :: "time \<times> int \<times> int"

text \<open>The environment of one call: the cipher and its next nonce, whether sealing fails, whether the
  session read fails, the error of the session write, whether the breaker row can be written, and
  the provider's import of the pre-provider material, if it has one.\<close>

record client_env =
  e_box :: box
  e_nonce :: string
  e_sealErr :: "err option"
  e_readErr :: "err option"
  e_writeErr :: "err option"
  e_saveOK :: bool
  e_import :: "(string \<Rightarrow> string \<Rightarrow> time \<Rightarrow> err + string) option"

definition sessionPrefix :: string where "sessionPrefix = ''pstonn-session:''"

section \<open>Expiry tags\<close>

definition SessionGenOf :: "err option \<Rightarrow> int option" where
  "SessionGenOf e = Option.bind e as_gen"

definition withSessionGen :: "err option \<Rightarrow> int \<Rightarrow> err option" where
  "withSessionGen eo gen = (case eo of None \<Rightarrow> None
     | Some e \<Rightarrow> if SessionGenOf eo \<noteq> None then eo
                else if err_is e ErrSessionExpired then Some (ExpiredAt gen) else eo)"

section \<open>Backoff per owner\<close>

definition cooldownFor :: "parking_client \<Rightarrow> string \<Rightarrow> time \<Rightarrow> dur \<times> bool" where
  "cooldownFor c owner now = (case pc_cooldownUntil c owner of
     Some v \<Rightarrow> (let d = tsub v now in if 0 < d then (d, True) else (0, False))
   | None \<Rightarrow> (0, False))"

definition persistBreaker :: "bool \<Rightarrow> parking_client \<Rightarrow> parking_client" where
  "persistBreaker ok c = (let r = (if ok then SaveBreakerState (pc_row c) (row_of (br_snapshot (pc_breaker c))) else None)
     in case r of None \<Rightarrow> c\<lparr>pc_persistOK := False\<rparr> | Some row \<Rightarrow> c\<lparr>pc_row := row, pc_persistOK := True\<rparr>)"

definition penalty :: "int \<Rightarrow> dur \<Rightarrow> dur" where
  "penalty strikes retryAfter = (let backoff = (if retryAfter \<le> 0 then 2 ^ nat (min strikes 6) * minute else retryAfter)
     in if 2 * hour < backoff then 2 * hour else backoff)"

definition penalize :: "bool \<Rightarrow> string \<Rightarrow> dur \<Rightarrow> time \<Rightarrow> parking_client \<Rightarrow> parking_client" where
  "penalize saveOK owner retryAfter now c =
     (let strikes = (case pc_strikes c owner of None \<Rightarrow> 0 | Some n \<Rightarrow> n) + 1
      in persistBreaker saveOK (c\<lparr>
           pc_strikes := (pc_strikes c)(owner \<mapsto> strikes),
           pc_cooldownUntil := (pc_cooldownUntil c)(owner \<mapsto> now + penalty strikes retryAfter),
           pc_pushbacks := pc_pushbacks c + 1,
           pc_breaker := fst (br_onPushback (pc_breaker c) now owner retryAfter)\<rparr>))"

definition clearPenalty :: "string \<Rightarrow> parking_client \<Rightarrow> parking_client" where
  "clearPenalty owner c = c\<lparr>pc_strikes := (pc_strikes c)(owner := None),
     pc_cooldownUntil := (pc_cooldownUntil c)(owner := None)\<rparr>"

definition noteTenantSuccess :: "bool \<Rightarrow> string \<Rightarrow> breaker_permit \<Rightarrow> time \<Rightarrow> parking_client \<Rightarrow> parking_client" where
  "noteTenantSuccess saveOK owner permit now c =
     (case br_onSuccess (pc_breaker c) now owner permit of (b, closedNow) \<Rightarrow>
        let c' = c\<lparr>pc_breaker := b\<rparr> in if closedNow then persistBreaker saveOK c' else c')"

text \<open>\<open>breakerGate\<close>: the new client, the permit, or the error of a paused fleet.\<close>

definition council_busy :: err where
  "council_busy = Wrapped ''retry later'' (Sentinel ErrUnavailable)"

definition breakerGate :: "time \<Rightarrow> parking_client \<Rightarrow> parking_client \<times> breaker_permit \<times> err option" where
  "breakerGate now c = (case br_allow (pc_breaker c) now of (b, permit, ok, wait) \<Rightarrow>
     (c\<lparr>pc_breaker := b\<rparr>, permit, if ok then None else Some council_busy))"

text \<open>\<open>classify\<close> of the client: the outcome of one wire attempt.\<close>

definition classify_outcome :: "bool \<Rightarrow> string \<Rightarrow> breaker_permit \<Rightarrow> err option \<Rightarrow> time \<Rightarrow> parking_client \<Rightarrow> parking_client" where
  "classify_outcome saveOK owner permit e now c0 =
     (let c = c0\<lparr>pc_health := noteAt (pc_health c0) owner e now\<rparr>; sig = classify e
      in if g_OK sig then noteTenantSuccess saveOK owner permit now (clearPenalty owner c)
         else (case g_Pushback sig of
                 Some u \<Rightarrow> penalize saveOK owner (u_RetryAfter u) now (c\<lparr>pc_lastPB := recordPushback u now\<rparr>)
               | None \<Rightarrow> c))"

section \<open>Session material\<close>

definition openSession :: "client_env \<Rightarrow> parking_client \<Rightarrow> string \<Rightarrow> tenant_session \<Rightarrow> err + string" where
  "openSession e c owner cs =
     (case OpenCtxAny (e_box e) (ts_Cookie cs) [TenantCookieFor owner (pc_TenantID c), TenantCookie owner] of
        None \<Rightarrow> Inl (Sentinel ErrSessionExpired)
      | Some (plain, legacy) \<Rightarrow>
          if has_prefix plain sessionPrefix then Inr (drop (length sessionPrefix) plain)
          else (case e_import e of
                  None \<Rightarrow> Inl (Sentinel ErrSessionExpired)
                | Some imp \<Rightarrow>
                    let token = (if ts_AccessToken cs \<noteq> [] then
                        (case OpenCtxAny (e_box e) (ts_AccessToken cs)
                                [TenantTokenFor owner (pc_TenantID c), TenantToken owner] of
                           Some (tok, l) \<Rightarrow> tok | None \<Rightarrow> []) else [])
                    in imp plain token (ts_TokenExpiry cs)))"

definition sealSession :: "client_env \<Rightarrow> parking_client \<Rightarrow> string \<Rightarrow> string \<Rightarrow> err + string" where
  "sealSession e c owner s = (case e_sealErr e of Some x \<Rightarrow> Inl x
     | None \<Rightarrow> Inr (SealCtx (e_box e) (e_nonce e) (TenantCookieFor owner (pc_TenantID c)) (sessionPrefix @ s)))"

definition Linked :: "client_env \<Rightarrow> parking_client \<Rightarrow> string \<Rightarrow> bool" where
  "Linked e c owner = (e_readErr e = None \<and>
     (case GetTenantSessionIn (pc_store c) owner (pc_TenantID c) of None \<Rightarrow> False | Some cs \<Rightarrow> ts_Cookie cs \<noteq> []))"

text \<open>The row an operation may use: present, with a cookie, and stamped for this council.\<close>

definition usable_session :: "client_env \<Rightarrow> parking_client \<Rightarrow> string \<Rightarrow> tenant_session option" where
  "usable_session e c owner =
     (if e_readErr e \<noteq> None then None
      else case GetTenantSessionIn (pc_store c) owner (pc_TenantID c) of
        None \<Rightarrow> None
      | Some cs \<Rightarrow> if ts_Cookie cs = [] then None
          else if ts_TenantID cs \<noteq> [] \<and> pc_TenantID c \<noteq> [] \<and> ts_TenantID cs \<noteq> pc_TenantID c then None
          else Some cs)"

type_synonym 'a wire = "string \<Rightarrow> string \<times> 'a \<times> err option"

text \<open>\<open>withSession\<close>: the new client, the value of the operation if it ran, and the error. The
  boolean-valued persist flag forces the write that keep-warm uses as its clock.\<close>

definition persist_session :: "client_env \<Rightarrow> string \<Rightarrow> tenant_session \<Rightarrow> string \<Rightarrow> time \<Rightarrow> parking_client \<Rightarrow> parking_client \<times> err option" where
  "persist_session e owner cs sess now' c = (case sealSession e c owner sess of
     Inl x \<Rightarrow> (c, Some x)
   | Inr sealed \<Rightarrow> (case e_writeErr e of Some x \<Rightarrow> (c, Some x)
       | None \<Rightarrow> (case UpdateTenantCookie owner (pc_TenantID c) sealed (ts_Generation cs) now' (pc_store c) of
           (st, written) \<Rightarrow> (c\<lparr>pc_store := st\<rparr>, None))))"

definition withSession ::
  "client_env \<Rightarrow> time \<Rightarrow> time \<Rightarrow> (session_store \<Rightarrow> session_store) \<Rightarrow> string \<Rightarrow> bool \<Rightarrow> 'a wire \<Rightarrow>
   parking_client \<Rightarrow> parking_client \<times> 'a option \<times> err option" where
  "withSession e now now' mid owner persist fn c =
     (case usable_session e c owner of
        None \<Rightarrow> (c, None, Some (Sentinel ErrNotLinked))
      | Some cs \<Rightarrow>
          if snd (cooldownFor c owner now) then (c, None, Some council_busy)
          else (case breakerGate now c of (c1, permit, busy) \<Rightarrow>
            if busy \<noteq> None then (c1, None, busy)
            else (case openSession e c1 owner cs of
              Inl x \<Rightarrow> (c1, None, withSessionGen (Some x) (ts_Generation cs))
            | Inr before \<Rightarrow> (case fn before of (sess, v, opErr) \<Rightarrow>
                let c2 = classify_outcome (e_saveOK e) owner permit opErr now' (c1\<lparr>pc_store := mid (pc_store c1)\<rparr>)
                in if opErr \<noteq> None then (c2, Some v, withSessionGen opErr (ts_Generation cs))
                   else if sess \<noteq> before \<or> persist
                   then (case persist_session e owner cs sess now' c2 of (c3, x) \<Rightarrow> (c3, Some v, x))
                   else (c2, Some v, None)))))"

section \<open>Linking\<close>

text \<open>\<open>Link\<close>: \<open>flow\<close> is the error of waiting for the single login slot, \<open>login\<close> the provider's answer,
  \<open>now2\<close> the clock of the generation seed.\<close>

definition save_link ::
  "client_env \<Rightarrow> tenant_session \<Rightarrow> bool \<Rightarrow> int \<Rightarrow> time \<Rightarrow> time \<Rightarrow> parking_client \<Rightarrow> parking_client \<times> err option" where
  "save_link e cs interactive expectedGen now' now2 c =
     (case e_writeErr e of Some x \<Rightarrow> (c, Some x)
      | None \<Rightarrow>
          if interactive then (case SaveTenantSession cs now' now2 (pc_store c) of (st, ok) \<Rightarrow>
            (c\<lparr>pc_store := st\<rparr>, if ok then None else Some (Plain ''secondary account'')))
          else (case SaveReconnectedSessionIfGen cs expectedGen now' (pc_store c) of (st, saved) \<Rightarrow>
            (c\<lparr>pc_store := st\<rparr>, if saved then None else Some (Sentinel ErrSessionSuperseded))))"

definition Link ::
  "client_env \<Rightarrow> time \<Rightarrow> time \<Rightarrow> time \<Rightarrow> (session_store \<Rightarrow> session_store) \<Rightarrow> err option \<Rightarrow> string \<Rightarrow> string \<Rightarrow> string \<Rightarrow> bool \<Rightarrow> bool \<Rightarrow> int \<Rightarrow>
   (string \<Rightarrow> string \<Rightarrow> string \<times> err option) \<Rightarrow> parking_client \<Rightarrow> parking_client \<times> err option" where
  "Link e now now' now2 mid flow owner username password savePassword interactive expectedGen login c =
     (case flow of Some x \<Rightarrow> (c, Some x)
      | None \<Rightarrow>
        if snd (cooldownFor c owner now) then (c, Some council_busy)
        else (case breakerGate now c of (c1, permit, busy) \<Rightarrow>
          if busy \<noteq> None then (c1, busy)
          else (case login username password of (sess, err) \<Rightarrow>
            let c2 = classify_outcome (e_saveOK e) owner permit err now' (c1\<lparr>pc_store := mid (pc_store c1)\<rparr>)
            in if err \<noteq> None then (c2, err)
               else (case sealSession e c2 owner sess of
                 Inl x \<Rightarrow> (c2, Some x)
               | Inr sealed \<Rightarrow>
                   let sealedPass = (if savePassword
                         then SealCtx (e_box e) (e_nonce e) (TenantPasswordFor owner (pc_TenantID c)) password else []);
                       cs = no_session\<lparr>ts_Owner := owner, ts_TenantID := pc_TenantID c, ts_TenantEmail := username,
                         ts_Cookie := sealed, ts_Password := sealedPass\<rparr>
                   in save_link e cs interactive expectedGen now' now2 c2))))"

definition Reconnect ::
  "client_env \<Rightarrow> time \<Rightarrow> time \<Rightarrow> time \<Rightarrow> (session_store \<Rightarrow> session_store) \<Rightarrow> err option \<Rightarrow> string \<Rightarrow>
   (string \<Rightarrow> string \<Rightarrow> string \<times> err option) \<Rightarrow> parking_client \<Rightarrow> parking_client \<times> err option" where
  "Reconnect e now now' now2 mid flow owner login c =
     (if cap_LoginKind (pc_caps c) \<noteq> ''password'' then (c, Some (Sentinel ErrUnsupported))
      else case e_readErr e of Some x \<Rightarrow> (c, Some x)
      | None \<Rightarrow> (case GetTenantSessionIn (pc_store c) owner (pc_TenantID c) of
          None \<Rightarrow> (c, Some (Sentinel ErrNotFound))
        | Some cs \<Rightarrow>
            if ts_Password cs = [] then (c, Some (Sentinel ErrNoSavedPassword))
            else if ts_TenantID cs \<noteq> [] \<and> pc_TenantID c \<noteq> [] \<and> ts_TenantID cs \<noteq> pc_TenantID c
            then (c, Some (Sentinel ErrNotLinked))
            else (case OpenCtxAny (e_box e) (ts_Password cs) [TenantPasswordFor owner (pc_TenantID c), TenantPassword owner] of
                None \<Rightarrow> (c, Some (Sentinel ErrNoSavedPassword))
              | Some (password, legacy) \<Rightarrow>
                  let username = (if ts_TenantEmail cs = [] then owner else ts_TenantEmail cs)
                  in Link e now now' now2 mid flow owner username password True False (ts_Generation cs) login c)))"

section \<open>Permit operations\<close>

definition Refresh ::
  "client_env \<Rightarrow> time \<Rightarrow> time \<Rightarrow> (session_store \<Rightarrow> session_store) \<Rightarrow> string \<Rightarrow> (string \<Rightarrow> string \<times> err option) \<Rightarrow>
   parking_client \<Rightarrow> parking_client \<times> err option" where
  "Refresh e now now' mid owner fn c =
     (if \<not> cap_SupportsRefresh (pc_caps c) then (c, None)
      else (case withSession e now now' mid owner True (\<lambda>s. case fn s of (s', x) \<Rightarrow> (s', (), x)) c of
              (c', v, x) \<Rightarrow> (c', x)))"

definition permitMine :: "parking_client \<Rightarrow> permit \<Rightarrow> err option" where
  "permitMine c p = (if p_TenantID p \<noteq> [] \<and> pc_TenantID c \<noteq> [] \<and> p_TenantID p \<noteq> pc_TenantID c
     then Some (Wrapped ''another council'' (Sentinel ErrTenantUnavailable)) else None)"

definition noteTruncatedGrid :: "int \<Rightarrow> int \<Rightarrow> time \<Rightarrow> parking_client \<Rightarrow> parking_client" where
  "noteTruncatedGrid got want now c = c\<lparr>pc_trunc := (now, got, want)\<rparr>"

text \<open>The provider answers with its rows and the total it claims.\<close>

definition ListPermitsComplete ::
  "client_env \<Rightarrow> time \<Rightarrow> time \<Rightarrow> (session_store \<Rightarrow> session_store) \<Rightarrow> string \<Rightarrow> ('p list \<times> int) wire \<Rightarrow>
   parking_client \<Rightarrow> parking_client \<times> 'p list \<times> bool \<times> err option" where
  "ListPermitsComplete e now now' mid owner fn c =
     (case withSession e now now' mid owner False
             (\<lambda>s. case fn s of (s', r, x) \<Rightarrow> (s', if x = None then Some r else None, x)) c of
        (c', v, x) \<Rightarrow> (case v of
           Some (Some (ps, tot)) \<Rightarrow> (let complete = (tot \<le> int (length ps))
             in (if complete then c' else noteTruncatedGrid (int (length ps)) tot now' c', ps, complete, x))
         | _ \<Rightarrow> (c', [], False, x)))"

definition CurrentVehicle ::
  "client_env \<Rightarrow> time \<Rightarrow> time \<Rightarrow> (session_store \<Rightarrow> session_store) \<Rightarrow> string \<Rightarrow> permit \<Rightarrow> (string \<Rightarrow> string wire) \<Rightarrow>
   parking_client \<Rightarrow> parking_client \<times> string \<times> err option" where
  "CurrentVehicle e now now' mid owner p fn c =
     (case permitMine c p of Some x \<Rightarrow> (c, [], Some x)
      | None \<Rightarrow> (case withSession e now now' mid owner False (fn (p_CouncilPermitID p)) c of
          (c', v, x) \<Rightarrow> (c', case v of None \<Rightarrow> [] | Some reg \<Rightarrow> reg, x)))"

definition regGeneration :: "parking_client \<Rightarrow> reg_key \<Rightarrow> 64 word" where
  "regGeneration c key = pc_regGen c key"

definition storeRegIfCurrent :: "reg_key \<Rightarrow> 64 word \<Rightarrow> string \<Rightarrow> time \<Rightarrow> parking_client \<Rightarrow> parking_client" where
  "storeRegIfCurrent key gen reg now c =
     (if pc_regGen c key \<noteq> gen then c else c\<lparr>pc_regCache := (pc_regCache c)(key \<mapsto> (reg, now))\<rparr>)"

definition ForgetPermit :: "string \<Rightarrow> string \<Rightarrow> parking_client \<Rightarrow> parking_client" where
  "ForgetPermit owner permitID c = (let key = (owner, permitID) in
     c\<lparr>pc_regGen := (pc_regGen c)(key := pc_regGen c key + 1),
       pc_regCache := (pc_regCache c)(key := None),
       pc_regFail := (pc_regFail c)(key := None)\<rparr>)"

text \<open>\<open>SetVehicle\<close> and \<open>ClearVehicle\<close>: \<open>midc\<close> is what other goroutines do to the client meanwhile (a
  \<open>ForgetPermit\<close>, say), after the generation was captured and before the cache is written.\<close>

definition SetVehicle ::
  "client_env \<Rightarrow> time \<Rightarrow> time \<Rightarrow> (session_store \<Rightarrow> session_store) \<Rightarrow> (parking_client \<Rightarrow> parking_client) \<Rightarrow> string \<Rightarrow> permit \<Rightarrow>
   string \<Rightarrow> string \<Rightarrow> (string \<Rightarrow> string \<Rightarrow> string \<Rightarrow> unit wire) \<Rightarrow> parking_client \<Rightarrow> parking_client \<times> err option" where
  "SetVehicle e now now' mid midc owner p registration region fn c =
     (case permitMine c p of Some x \<Rightarrow> (c, Some x)
      | None \<Rightarrow> (let key = (owner, p_CouncilPermitID p); gen = regGeneration c key in
          case withSession e now now' mid owner False (fn (p_CouncilPermitID p) registration region) c of
            (c1, v, x) \<Rightarrow> (let c2 = midc c1 in
               (if x = None then storeRegIfCurrent key gen registration now' c2 else c2, x))))"

definition ClearVehicle ::
  "client_env \<Rightarrow> time \<Rightarrow> time \<Rightarrow> (session_store \<Rightarrow> session_store) \<Rightarrow> (parking_client \<Rightarrow> parking_client) \<Rightarrow> string \<Rightarrow> permit \<Rightarrow>
   (string \<Rightarrow> unit wire) \<Rightarrow> parking_client \<Rightarrow> parking_client \<times> err option" where
  "ClearVehicle e now now' mid midc owner p fn c =
     (case permitMine c p of Some x \<Rightarrow> (c, Some x)
      | None \<Rightarrow> if \<not> cap_CanClearVehicle (pc_caps c) then (c, Some (Sentinel ErrUnsupported))
          else (let key = (owner, p_CouncilPermitID p); gen = regGeneration c key in
            case withSession e now now' mid owner False (fn (p_CouncilPermitID p)) c of
              (c1, v, x) \<Rightarrow> (let c2 = midc c1 in
                 (if x = None then storeRegIfCurrent key gen [] now' c2 else c2, x))))"

section \<open>The plate cache\<close>

text \<open>\<open>CurrentVehicleCached\<close> starts a background refresh when the reading is missing or stale: the
  boolean says that the deduplicated refresh was started. The result is the plate, its age and
  whether it is fresh, or \<open>None\<close> for \<open>ErrNoCachedPlate\<close>.\<close>

definition begin_refresh :: "reg_key \<Rightarrow> parking_client \<Rightarrow> parking_client \<times> 64 word option" where
  "begin_refresh key c =
     (if key \<in> pc_regRefresh c then (c, None)
      else (c\<lparr>pc_regRefresh := insert key (pc_regRefresh c)\<rparr>, Some (regGeneration c key)))"

definition CurrentVehicleCached :: "string \<Rightarrow> permit \<Rightarrow> dur \<Rightarrow> time \<Rightarrow> parking_client \<Rightarrow>
    parking_client \<times> 64 word option \<times> (string \<times> dur \<times> bool) option" where
  "CurrentVehicleCached owner p maxAge now c = (let key = (owner, p_CouncilPermitID p) in
     case pc_regCache c key of
       Some (reg, at0) \<Rightarrow> (let age = tsub now at0 in
          if age < maxAge then (c, None, Some (reg, age, True))
          else (case begin_refresh key c of (c', g) \<Rightarrow> (c', g, Some (reg, age, False))))
     | None \<Rightarrow> (case begin_refresh key c of (c', g) \<Rightarrow> (c', g, None)))"

text \<open>The end of the refresh goroutine: the read's answer arrives with the captured generation. The
  value is the report to \<open>OnSessionExpired\<close>, if there is one.\<close>

definition noteExpired :: "parking_client \<Rightarrow> string \<Rightarrow> err option \<Rightarrow> (string \<times> string \<times> int) option" where
  "noteExpired c owner e = (case SessionGenOf e of Some g \<Rightarrow> Some (owner, pc_TenantID c, g) | None \<Rightarrow> None)"

definition finish_refresh :: "string \<Rightarrow> permit \<Rightarrow> 64 word \<Rightarrow> string \<Rightarrow> err option \<Rightarrow> time \<Rightarrow> parking_client \<Rightarrow>
    parking_client \<times> (string \<times> string \<times> int) option" where
  "finish_refresh owner p gen reg e now c0 =
     (let key = (owner, p_CouncilPermitID p); c = c0\<lparr>pc_regRefresh := pc_regRefresh c0 - {key}\<rparr>
      in if e \<noteq> None
         then (c\<lparr>pc_regFail := (case pc_regFail c key of None \<Rightarrow> (pc_regFail c)(key \<mapsto> now) | Some _ \<Rightarrow> pc_regFail c)\<rparr>,
               noteExpired c owner e)
         else (storeRegIfCurrent key gen reg now (c\<lparr>pc_regFail := (pc_regFail c)(key := None)\<rparr>), None))"

definition RefreshFailingFor :: "parking_client \<Rightarrow> string \<Rightarrow> permit \<Rightarrow> time \<Rightarrow> dur" where
  "RefreshFailingFor c owner p now = (case pc_regFail c (owner, p_CouncilPermitID p) of
     Some t \<Rightarrow> tsub now t | None \<Rightarrow> 0)"

section \<open>Status\<close>

definition Blocked_now :: "parking_client \<Rightarrow> time \<Rightarrow> bool" where
  "Blocked_now c now = fst (br_state (pc_breaker c) now)"

definition connector_state_now :: "parking_client \<Rightarrow> time \<Rightarrow> connector_state" where
  "connector_state_now c now = snd (health_state (pc_health c) now (Blocked_now c now) (pc_lastPB c))"

section \<open>Lemmas\<close>

text \<open>Cooldowns are a deadline table; holding and releasing are its operations.\<close>

definition hold_cooldown :: "string \<Rightarrow> time \<Rightarrow> parking_client \<Rightarrow> parking_client" where
  "hold_cooldown owner t c = c\<lparr>pc_cooldownUntil := (pc_cooldownUntil c)(owner \<mapsto> t)\<rparr>"

lemma cooldown_held: "snd (cooldownFor c owner now) \<longleftrightarrow> held (pc_cooldownUntil c) owner now"
  by (auto simp: cooldownFor_def held_def Let_def tsub_def max_dur_def min_dur_def min_def max_def split: option.split)

interpretation cooldown: backoff_table pc_cooldownUntil hold_cooldown clearPenalty
  "\<lambda>owner now c. snd (cooldownFor c owner now)"
  by unfold_locales (simp_all add: cooldown_held hold_cooldown_def clearPenalty_def)

lemma persistBreaker_frame [simp]:
  "pc_store (persistBreaker ok c) = pc_store c" "pc_cooldownUntil (persistBreaker ok c) = pc_cooldownUntil c"
  "pc_strikes (persistBreaker ok c) = pc_strikes c" "pc_TenantID (persistBreaker ok c) = pc_TenantID c"
  "pc_health (persistBreaker ok c) = pc_health c" "pc_breaker (persistBreaker ok c) = pc_breaker c"
  by (simp_all add: persistBreaker_def Let_def split: option.split)

lemma noteTenantSuccess_frame [simp]:
  "pc_store (noteTenantSuccess ok owner p t c) = pc_store c"
  "pc_cooldownUntil (noteTenantSuccess ok owner p t c) = pc_cooldownUntil c"
  "pc_strikes (noteTenantSuccess ok owner p t c) = pc_strikes c"
  "pc_TenantID (noteTenantSuccess ok owner p t c) = pc_TenantID c"
  by (simp_all add: noteTenantSuccess_def Let_def split: prod.split)

lemma classify_outcome_frame [simp]:
  "pc_store (classify_outcome ok owner p e t c) = pc_store c"
  "pc_TenantID (classify_outcome ok owner p e t c) = pc_TenantID c"
  by (simp_all add: classify_outcome_def penalize_def clearPenalty_def Let_def split: option.split)

lemma breakerGate_frame:
  "breakerGate now c = (c1, permit, busy) \<Longrightarrow> pc_store c1 = pc_store c \<and> pc_TenantID c1 = pc_TenantID c
     \<and> pc_cooldownUntil c1 = pc_cooldownUntil c \<and> pc_strikes c1 = pc_strikes c \<and> pc_health c1 = pc_health c"
  by (auto simp: breakerGate_def split: prod.splits)

text \<open>What \<open>withSession\<close> does once the gates are passed.\<close>

lemma withSession_runs:
  assumes "usable_session e c owner = Some cs" and "\<not> held (pc_cooldownUntil c) owner now"
    and "breakerGate now c = (c1, permit, None)" and "openSession e c1 owner cs = Inr before"
    and "fn before = (sess, v, opErr)"
  shows "withSession e now now' mid owner persist fn c =
     (let c2 = classify_outcome (e_saveOK e) owner permit opErr now' (c1\<lparr>pc_store := mid (pc_store c1)\<rparr>)
      in if opErr \<noteq> None then (c2, Some v, withSessionGen opErr (ts_Generation cs))
         else if sess \<noteq> before \<or> persist
         then (case persist_session e owner cs sess now' c2 of (c3, x) \<Rightarrow> (c3, Some v, x))
         else (c2, Some v, None))"
  using assms by (simp add: withSession_def cooldown_held)

lemma upd_where_none:
  "\<forall>r \<in> set (st_sessions s). \<not> P r \<Longrightarrow> upd_where P f s = s"
  by (cases s) (auto simp: upd_where_def intro: map_idI)

lemma persist_session_sessions:
  assumes "persist_session e owner cs sess now' c = (c', x)"
  shows "pc_store c' = pc_store c \<or> (\<exists>sealed. sealSession e c owner sess = Inr sealed \<and>
     pc_store c' = fst (UpdateTenantCookie owner (pc_TenantID c) sealed (ts_Generation cs) now' (pc_store c)))"
  using assms by (auto simp: persist_session_def split: sum.splits option.splits prod.splits)

text \<open>A series of push-backs of one owner, with no Retry-After, at the given times.\<close>

definition pushed_back :: "bool \<Rightarrow> string \<Rightarrow> parking_client \<Rightarrow> time list \<Rightarrow> parking_client" where
  "pushed_back ok owner c ts = foldl (\<lambda>c t. penalize ok owner 0 t c) c ts"

lemma penalize_fields:
  "pc_strikes (penalize ok owner ra now c) owner = Some ((case pc_strikes c owner of None \<Rightarrow> 0 | Some n \<Rightarrow> n) + 1)"
  "pc_cooldownUntil (penalize ok owner ra now c) owner
     = Some (now + penalty ((case pc_strikes c owner of None \<Rightarrow> 0 | Some n \<Rightarrow> n) + 1) ra)"
  "other \<noteq> owner \<Longrightarrow> pc_cooldownUntil (penalize ok owner ra now c) other = pc_cooldownUntil c other"
  by (simp_all add: penalize_def Let_def)

lemma pushed_back_strikes:
  assumes "pc_strikes c owner = (if n = 0 then None else Some (int n))"
  shows "pc_strikes (pushed_back ok owner c ts) owner = (if n + length ts = 0 then None else Some (int (n + length ts)))"
  using assms
proof (induction ts arbitrary: c n)
  case (Cons t ts)
  have "pc_strikes (penalize ok owner 0 t c) owner = Some (int (Suc n))"
    using Cons.prems by (simp add: penalize_fields)
  with Cons.IH [of "penalize ok owner 0 t c" "Suc n"] show ?case by (simp add: pushed_back_def)
qed (simp add: pushed_back_def)

section \<open>Properties\<close>

text \<open>A refused operation never reaches the portal: when the account has no usable session with this
  council, is in its cooldown, or the fleet is paused, the outcome is the same whatever the portal
  operation would have been, it is an error without a value, and neither the session rows, the
  cooldowns nor the connector's health change.\<close>

theorem refused_operations_never_reach_the_portal:
  assumes "usable_session e c owner = None \<or> held (pc_cooldownUntil c) owner now
     \<or> (\<exists>b. pc_breaker c = Some b \<and> br_blocked b now)"
  shows "\<exists>x. withSession e now now' mid owner persist fn c = (c, None, Some x)
     \<and> (\<forall>fn'. withSession e now now' mid owner persist fn' c = (c, None, Some x))
     \<and> (err_is x ErrNotLinked \<or> err_is x ErrUnavailable)"
proof (cases "usable_session e c owner")
  case None
  then show ?thesis by (simp add: withSession_def)
next
  case (Some cs)
  show ?thesis
  proof (cases "held (pc_cooldownUntil c) owner now")
    case True
    with Some show ?thesis by (simp add: withSession_def cooldown_held council_busy_def)
  next
    case False
    with Some assms obtain b where "pc_breaker c = Some b" "br_blocked b now" by auto
    with Some False show ?thesis
      by (simp add: withSession_def cooldown_held breakerGate_def br_blocked_def council_busy_def)
  qed
qed

definition w_caps :: capabilities where
  "w_caps = \<lparr>cap_CanClearVehicle = True, cap_SupportsRefresh = True, cap_NeedsKeepWarm = True,
     cap_IdleWindow = 10 * hour, cap_SupportsExpiry = True, cap_LoginKind = ''password'', cap_Regions = []\<rparr>"

definition w_client :: parking_client where
  "w_client = \<lparr>pc_TenantID = ''stonnington'', pc_caps = w_caps, pc_store = w_store, pc_regCache = (\<lambda>_. None),
     pc_regRefresh = {}, pc_regFail = (\<lambda>_. None), pc_regGen = (\<lambda>_. 0), pc_cooldownUntil = (\<lambda>_. None),
     pc_strikes = (\<lambda>_. None), pc_health = no_health, pc_breaker = Some w_breaker, pc_row = None,
     pc_persistOK = True, pc_pushbacks = 0, pc_lastPB = no_pushback, pc_trunc = (zero_time, 0, 0)\<rparr>"

definition w_env :: client_env where
  "w_env = \<lparr>e_box = w_box, e_nonce = ''nn'', e_sealErr = None, e_readErr = None, e_writeErr = None,
     e_saveOK = True, e_import = None\<rparr>"

lemma refused_operations_never_reach_the_portal_witness:
  "\<exists>x. withSession w_env 5 6 id ''nobody@x'' False (\<lambda>s. (s, (), None)) w_client = (w_client, None, Some x)"
  using refused_operations_never_reach_the_portal [of w_env w_client "''nobody@x''" 5 6 id False "\<lambda>s. (s, (), None)"]
  by (auto simp: usable_session_def w_env_def w_client_def w_store_def w_session_def GetTenantSessionIn_def at_key_def)

text \<open>A failed operation writes no session material, and an expiry it meets is tagged with the
  generation of the session it failed at, so that recovery work can never be about a later session.\<close>

theorem failed_operations_write_no_session:
  assumes "usable_session e c owner = Some cs" and "\<not> held (pc_cooldownUntil c) owner now"
    and "breakerGate now c = (c1, permit, None)" and "openSession e c1 owner cs = Inr before"
    and "fn before = (sess, v, Some x)"
    and "withSession e now now' mid owner persist fn c = (c', v', y)"
  shows "pc_store c' = mid (pc_store c)
     \<and> y = Some (if as_gen x = None \<and> err_is x ErrSessionExpired then ExpiredAt (ts_Generation cs) else x)"
  using assms(6) breakerGate_frame [OF assms(3)]
  unfolding withSession_runs [where fn = fn, OF assms(1-5)]
  by (auto simp: Let_def withSessionGen_def SessionGenOf_def)

text \<open>A sealed row for the witnesses.\<close>

definition w_sealed :: tenant_session where
  "w_sealed = w_session\<lparr>ts_Cookie := SealCtx w_box ''nn'' (TenantCookieFor ''a@x'' ''stonnington'') (sessionPrefix @ ''m1'')\<rparr>"

definition w_linked :: parking_client where
  "w_linked = w_client\<lparr>pc_store := w_store\<lparr>st_sessions := [w_sealed]\<rparr>\<rparr>"

lemma w_sealed_cookie: "ts_Cookie w_sealed \<noteq> []"
  by (simp add: w_sealed_def SealCtx_def w_box_def)

lemma w_linked_runs:
  "usable_session w_env w_linked ''a@x'' = Some w_sealed" "\<not> held (pc_cooldownUntil w_linked) ''a@x'' 5"
  "breakerGate 5 w_linked = (w_linked, \<lparr>bp_probe = False, bp_gen = 0\<rparr>, None)"
  "openSession w_env w_linked ''a@x'' w_sealed = Inr ''m1''"
proof -
  have k: "ts_Owner w_sealed = ''a@x''" "ts_TenantID w_sealed = ''stonnington''"
    by (simp_all add: w_sealed_def w_session_def no_session_def)
  show "usable_session w_env w_linked ''a@x'' = Some w_sealed"
    using w_sealed_cookie by (simp add: usable_session_def w_env_def w_linked_def w_client_def GetTenantSessionIn_def at_key_def k)
  show "\<not> held (pc_cooldownUntil w_linked) ''a@x'' 5" by (simp add: held_def w_linked_def w_client_def)
  show "breakerGate 5 w_linked = (w_linked, \<lparr>bp_probe = False, bp_gen = 0\<rparr>, None)"
    by (simp add: breakerGate_def w_linked_def w_client_def w_breaker_def new_breaker_def is_zero_def)
  have "OpenCtxAny w_box (SealCtx w_box ''nn'' (TenantCookieFor ''a@x'' ''stonnington'') (sessionPrefix @ ''m1''))
     [TenantCookieFor ''a@x'' ''stonnington'', TenantCookie ''a@x''] = Some (sessionPrefix @ ''m1'', False)"
    using open_sealed [OF w_box_ok, of "''nn''" "[TenantCookieFor ''a@x'' ''stonnington'', TenantCookie ''a@x'']"
      "TenantCookieFor ''a@x'' ''stonnington''"]
    by (simp add: w_box_def TenantCookieFor_def withTenant_def)
  then show "openSession w_env w_linked ''a@x'' w_sealed = Inr ''m1''"
    by (simp add: openSession_def w_sealed_def w_linked_def w_client_def w_env_def)
qed

lemma failed_operations_write_no_session_witness:
  "snd (snd (withSession w_env 5 6 id ''a@x'' True (\<lambda>s. (''rotated'', (), Some (Sentinel ErrSessionExpired))) w_linked))
     = Some (ExpiredAt 5)"
  using failed_operations_write_no_session [OF w_linked_runs, of "\<lambda>s. (''rotated'', (), Some (Sentinel ErrSessionExpired))"
    "''rotated''" "()" "Sentinel ErrSessionExpired" 6 id True]
  by (cases "withSession w_env 5 6 id ''a@x'' True (\<lambda>s. (''rotated'', (), Some (Sentinel ErrSessionExpired))) w_linked")
    (simp add: w_sealed_def w_session_def)

text \<open>A re-link that lands while an operation is on the wire survives it: if the row is no longer at
  the generation the operation started from, the operation leaves the rows exactly as it found
  them, and reports the portal's success all the same.\<close>

theorem relink_survives_an_operation:
  assumes "usable_session e c owner = Some cs" and "\<not> held (pc_cooldownUntil c) owner now"
    and "breakerGate now c = (c1, permit, None)" and "openSession e c1 owner cs = Inr before"
    and "fn before = (sess, v, None)" and "e_sealErr e = None" and "e_writeErr e = None"
    and "\<forall>r \<in> set (st_sessions (mid (pc_store c))). at_key owner (pc_TenantID c) r \<longrightarrow> ts_Generation r \<noteq> ts_Generation cs"
    and "withSession e now now' mid owner persist fn c = (c', v', y)"
  shows "pc_store c' = mid (pc_store c) \<and> y = None \<and> v' = Some v"
proof -
  note fr = breakerGate_frame [OF assms(3)]
  let ?c2 = "classify_outcome (e_saveOK e) owner permit None now' (c1\<lparr>pc_store := mid (pc_store c1)\<rparr>)"
  have up: "upd_where (at_gen owner (pc_TenantID c) (ts_Generation cs)) f (mid (pc_store c)) = mid (pc_store c)" for f
    by (rule upd_where_none) (use assms(8) in \<open>auto simp: at_gen_def\<close>)
  have "fst (persist_session e owner cs sess now' ?c2) = ?c2 \<and> snd (persist_session e owner cs sess now' ?c2) = None"
    using fr assms(6,7) up by (simp add: persist_session_def sealSession_def UpdateTenantCookie_def Let_def)
  then show ?thesis
    using assms(9) fr unfolding withSession_runs [where fn = fn, OF assms(1-5)]
    by (auto simp: Let_def case_prod_beta split: if_splits)
qed

lemma relink_survives_an_operation_witness:
  "pc_store (fst (withSession w_env 5 6 (upd_where (at_key ''a@x'' ''stonnington'') (\<lambda>r. r\<lparr>ts_Generation := 9\<rparr>)) ''a@x'' True
     (\<lambda>s. (''rotated'', (), None)) w_linked))
   = upd_where (at_key ''a@x'' ''stonnington'') (\<lambda>r. r\<lparr>ts_Generation := 9\<rparr>) (pc_store w_linked)"
  using relink_survives_an_operation [OF w_linked_runs, of "\<lambda>s. (''rotated'', (), None)" "''rotated''" "()"
    "upd_where (at_key ''a@x'' ''stonnington'') (\<lambda>r. r\<lparr>ts_Generation := 9\<rparr>)" 6 True]
  by (cases "withSession w_env 5 6 (upd_where (at_key ''a@x'' ''stonnington'') (\<lambda>r. r\<lparr>ts_Generation := 9\<rparr>)) ''a@x'' True
     (\<lambda>s. (''rotated'', (), None)) w_linked")
    (auto simp: w_env_def upd_where_def w_linked_def w_client_def w_sealed_def w_session_def split: if_splits)

text \<open>Session material that the portal rotates is what the next operation gets: after a successful
  operation that changed it, the account's row opens to the new material, one generation on, with
  every other column but the cached token and the freshness clock as it was.\<close>

theorem rotated_session_is_the_next_one:
  assumes "usable_session e c owner = Some cs" and "\<not> held (pc_cooldownUntil c) owner now"
    and "breakerGate now c = (c1, permit, None)" and "openSession e c1 owner cs = Inr before"
    and "fn before = (sess, v, None)" and "sess \<noteq> before" and "e_sealErr e = None" and "e_writeErr e = None"
    and "aead_ok (e_box e)" and "length (e_nonce e) = bx_nonceSize (e_box e)"
    and "filter (at_key owner (pc_TenantID c)) (st_sessions (pc_store c)) = [cs]"
    and "withSession e now now' id owner persist fn c = (c', v', y)"
  shows "\<exists>row. filter (at_key owner (pc_TenantID c)) (st_sessions (pc_store c')) = [row]
     \<and> openSession e c' owner row = Inr sess \<and> ts_Generation row = ts_Generation cs + 1
     \<and> ts_Password row = ts_Password cs \<and> ts_LinkedAt row = ts_LinkedAt cs \<and> y = None"
proof -
  note fr = breakerGate_frame [OF assms(3)]
  let ?c2 = "classify_outcome (e_saveOK e) owner permit None now' (c1\<lparr>pc_store := id (pc_store c1)\<rparr>)"
  let ?sealed = "SealCtx (e_box e) (e_nonce e) (TenantCookieFor owner (pc_TenantID c)) (sessionPrefix @ sess)"
  let ?P = "at_gen owner (pc_TenantID c) (ts_Generation cs)"
  let ?f = "\<lambda>r. r\<lparr>ts_Cookie := ?sealed, ts_AccessToken := [], ts_TokenExpiry := zero_time,
     ts_UpdatedAt := whole_seconds now', ts_Generation := ts_Generation r + 1\<rparr>"
  have st: "pc_store c' = upd_where ?P ?f (pc_store c)" "y = None" "pc_TenantID c' = pc_TenantID c"
    using assms(6,7,8,12) fr unfolding withSession_runs [where fn = fn, OF assms(1-5)]
    by (auto simp: Let_def persist_session_def sealSession_def UpdateTenantCookie_def)
  have key: "filter (at_key ow tn) (map (\<lambda>r. if at_gen ow tn g r then ?f r else r) xs)
     = map (\<lambda>r. if at_gen ow tn g r then ?f r else r) (filter (at_key ow tn) xs)" for ow tn g xs
    by (induction xs) (auto simp: at_gen_def at_key_def)
  have "at_key owner (pc_TenantID c) cs" using arg_cong [OF assms(11), of set] by auto
  then have row: "filter (at_key owner (pc_TenantID c)) (st_sessions (pc_store c')) = [?f cs]"
    using st key assms(11) by (simp add: upd_where_def at_gen_def)
  have "OpenCtxAny (e_box e) ?sealed [TenantCookieFor owner (pc_TenantID c), TenantCookie owner]
     = Some (sessionPrefix @ sess, False)"
    using open_sealed [OF assms(9,10), of "[TenantCookieFor owner (pc_TenantID c), TenantCookie owner]"
        "TenantCookieFor owner (pc_TenantID c)"]
    by (auto simp: TenantCookieFor_def withTenant_def)
  then have "openSession e c' owner (?f cs) = Inr sess" by (simp add: openSession_def st)
  with row st show ?thesis by (intro exI [of _ "?f cs"]) simp
qed

lemma rotated_session_is_the_next_one_witness:
  "\<exists>row. filter (at_key ''a@x'' ''stonnington'')
       (st_sessions (pc_store (fst (withSession w_env 5 6 id ''a@x'' False (\<lambda>s. (''m2'', (), None)) w_linked)))) = [row]
     \<and> ts_Generation row = 6"
proof -
  have k: "filter (at_key ''a@x'' (pc_TenantID w_linked)) (st_sessions (pc_store w_linked)) = [w_sealed]"
    by (simp add: w_linked_def w_client_def at_key_def w_sealed_def w_session_def no_session_def)
  have e: "aead_ok (e_box w_env)" "length (e_nonce w_env) = bx_nonceSize (e_box w_env)"
    "e_sealErr w_env = None" "e_writeErr w_env = None"
    using w_box_ok by (simp_all add: w_env_def) (simp add: w_box_def)
  have t: "pc_TenantID w_linked = ''stonnington''" "ts_Generation w_sealed = 5"
    by (simp_all add: w_linked_def w_client_def w_sealed_def w_session_def)
  show ?thesis
    using rotated_session_is_the_next_one [where fn = "\<lambda>s. (''m2'', (), None)", OF w_linked_runs refl _ e(3,4,1,2) k, of 6 False]
    by (cases "withSession w_env 5 6 id ''a@x'' False (\<lambda>s. (''m2'', (), None)) w_linked") (auto simp: t)
qed

text \<open>An account the portal pushes back backs off: after \<open>n\<close> push-backs in a row without a
  Retry-After its operations are refused for \<open>2^n\<close> minutes after the last, at most 64; whatever
  Retry-After says, a penalty never exceeds two hours; other accounts are not affected; and a
  success clears it at once.\<close>

theorem pushbacks_back_off:
  assumes "pc_strikes c owner = None" and "other \<noteq> owner"
  shows "(snd (cooldownFor (pushed_back ok owner c (ts @ [t])) owner now)
       \<longleftrightarrow> now < t + 2 ^ min (length ts + 1) 6 * minute)
    \<and> (snd (cooldownFor (penalize ok owner ra t c) owner now) \<longrightarrow> now < t + 2 * hour)
    \<and> (snd (cooldownFor (penalize ok owner ra t c) other now) \<longleftrightarrow> snd (cooldownFor c other now))
    \<and> \<not> snd (cooldownFor (noteTenantSuccess ok owner permit t (clearPenalty owner c)) owner now)"
proof (intro conjI)
  let ?c = "pushed_back ok owner c ts"
  have "pc_strikes ?c owner = (if length ts = 0 then None else Some (int (length ts)))"
    using pushed_back_strikes [of c owner 0 ok ts] assms(1) by simp
  then have n: "(case pc_strikes ?c owner of None \<Rightarrow> 0 | Some n \<Rightarrow> n) + 1 = int (length ts + 1)" by auto
  have "nat (min (int (length ts + 1)) 6) = min (length ts + 1) 6" by auto
  then have p: "penalty (int (length ts + 1)) 0 = min (2 * hour) (2 ^ min (length ts + 1) 6 * minute)"
    by (simp add: penalty_def Let_def min_def)
  have "(2::int) ^ min (length ts + 1) 6 \<le> 2 ^ 6" by (intro power_increasing) simp_all
  then have "2 ^ min (length ts + 1) 6 * minute \<le> 2 * hour"
    by (simp add: time_simps)
  with p have "penalty (int (length ts + 1)) 0 = 2 ^ min (length ts + 1) 6 * minute" by simp
  then show "snd (cooldownFor (pushed_back ok owner c (ts @ [t])) owner now)
       \<longleftrightarrow> now < t + 2 ^ min (length ts + 1) 6 * minute"
    by (simp add: cooldown_held pushed_back_def held_def penalize_fields n [unfolded pushed_back_def])
  have "penalty k ra \<le> 2 * hour" for k by (simp add: penalty_def Let_def)
  then show "snd (cooldownFor (penalize ok owner ra t c) owner now) \<longrightarrow> now < t + 2 * hour"
    by (auto simp: cooldown_held held_def penalize_fields intro: less_le_trans)
  show "snd (cooldownFor (penalize ok owner ra t c) other now) \<longleftrightarrow> snd (cooldownFor c other now)"
    using assms(2) by (simp add: cooldown_held held_def penalize_fields)
  have "\<not> snd (cooldownFor (clearPenalty owner c) owner now)" by (rule cooldown.not_blocked_after_release)
  then show "\<not> snd (cooldownFor (noteTenantSuccess ok owner permit t (clearPenalty owner c)) owner now)"
    by (simp add: cooldown_held)
qed

lemma pushbacks_back_off_witness:
  "snd (cooldownFor (pushed_back True ''a'' w_client [0, 3 * minute, 8 * minute]) ''a'' (15 * minute))
   \<and> \<not> snd (cooldownFor (pushed_back True ''a'' w_client [0, 3 * minute, 8 * minute]) ''a'' (16 * minute))"
  using pushbacks_back_off [of w_client "''a''" "''b''" True "[0, 3 * minute]" "8 * minute" "15 * minute"]
    pushbacks_back_off [of w_client "''a''" "''b''" True "[0, 3 * minute]" "8 * minute" "16 * minute"]
  by (simp add: w_client_def time_simps)

text \<open>A plate reading that was on its way when the permit was removed cannot resurrect the cache
  entry: whatever happens between (fewer than \<open>2^64\<close> removals), a refresh or write that captured its
  generation before a \<open>ForgetPermit\<close> leaves the cache as it finds it.\<close>

theorem forgotten_plate_stays_forgotten:
  assumes "gen = regGeneration c (owner, p_CouncilPermitID p)" and "n < 2 ^ 64 - 1"
    and "regGeneration c' (owner, p_CouncilPermitID p)
       = regGeneration (ForgetPermit owner (p_CouncilPermitID p) c) (owner, p_CouncilPermitID p) + of_nat n"
  shows "pc_regCache (fst (finish_refresh owner p gen reg e now c')) = pc_regCache c'
     \<and> pc_regCache (storeRegIfCurrent (owner, p_CouncilPermitID p) gen reg now c') = pc_regCache c'
     \<and> pc_regCache (ForgetPermit owner (p_CouncilPermitID p) c) (owner, p_CouncilPermitID p) = None"
proof -
  have "regGeneration c' (owner, p_CouncilPermitID p) = gen + of_nat (n + 1)"
    using assms(1,3) by (simp add: ForgetPermit_def Let_def regGeneration_def)
  moreover have "(of_nat (n + 1) :: 64 word) \<noteq> 0" using assms(2) by (intro of_nat_small_nonzero) simp_all
  ultimately have "pc_regGen c' (owner, p_CouncilPermitID p) \<noteq> gen" by (simp add: regGeneration_def)
  then show ?thesis
    by (simp add: finish_refresh_def storeRegIfCurrent_def Let_def ForgetPermit_def)
qed

lemma forgotten_plate_stays_forgotten_witness:
  "pc_regCache (fst (finish_refresh ''a'' (w_permit 1 ''A'' [] [] 0) 0 ''OLD123'' None 9
     (ForgetPermit ''a'' (p_CouncilPermitID (w_permit 1 ''A'' [] [] 0)) w_client)))
   = pc_regCache (ForgetPermit ''a'' (p_CouncilPermitID (w_permit 1 ''A'' [] [] 0)) w_client)"
  using forgotten_plate_stays_forgotten [of 0 w_client "''a''" "w_permit 1 ''A'' [] [] 0" 0
    "ForgetPermit ''a'' (p_CouncilPermitID (w_permit 1 ''A'' [] [] 0)) w_client" "''OLD123''" None 9]
  by (simp add: regGeneration_def w_client_def)

text \<open>A saved-password reconnect cannot overwrite what the user did meanwhile: if the row moved on from
  the generation the recovery was decided at, the rows stay exactly as they are and the reconnect
  reports that it was superseded (or why the login failed).\<close>

theorem reconnect_cannot_overwrite_a_relink:
  assumes "\<forall>r \<in> set (st_sessions (mid (pc_store c))). at_key owner (pc_TenantID c) r \<longrightarrow> ts_Generation r \<noteq> gen"
    and "pc_TenantID c \<noteq> []"
    and "Link e now now' now2 mid flow owner user pw savePw False gen login c = (c', x)"
  shows "(pc_store c' = mid (pc_store c) \<or> pc_store c' = pc_store c) \<and> x \<noteq> None"
proof -
  have up: "upd_where (at_gen owner (pc_TenantID c) gen) f (mid (pc_store c)) = mid (pc_store c)" for f
    by (rule upd_where_none) (use assms(1) in \<open>auto simp: at_gen_def\<close>)
  have no: "\<not> any_row (at_gen owner (pc_TenantID c) gen) (mid (pc_store c))"
    using assms(1) by (auto simp: any_row_def at_gen_def list_ex_iff)
  have save: "pc_store c'' = pc_store c2 \<and> y \<noteq> None"
    if "save_link e cs False gen now' now2 c2 = (c'', y)" "pc_store c2 = mid (pc_store c)"
      "ts_Owner cs = owner" "ts_TenantID cs = pc_TenantID c" for cs c2 c'' y
    using that assms(2) up no
    by (cases "e_writeErr e") (auto simp: save_link_def SaveReconnectedSessionIfGen_def Let_def eq_commute [of "Some _"])
  obtain c1 permit busy where g: "breakerGate now c = (c1, permit, busy)" using prod_cases3 by blast
  note fr = breakerGate_frame [OF g]
  show ?thesis
    using assms(3) fr g save
    by (auto simp: Link_def Let_def council_busy_def split: option.splits if_splits prod.splits sum.splits)
qed

lemma reconnect_cannot_overwrite_a_relink_witness:
  "snd (Link w_env 5 6 7 (upd_where (at_key ''a@x'' ''stonnington'') (\<lambda>r. r\<lparr>ts_Generation := 9\<rparr>)) None ''a@x'' ''a@x'' ''pw'' True False 5
     (\<lambda>u p. (''m'', None)) w_linked) \<noteq> None"
  using reconnect_cannot_overwrite_a_relink [of "upd_where (at_key ''a@x'' ''stonnington'') (\<lambda>r. r\<lparr>ts_Generation := 9\<rparr>)"
    w_linked "''a@x''" 5 w_env 5 6 7 None "''a@x''" "''pw''" True "\<lambda>u p. (''m'', None)"]
  by (cases "Link w_env 5 6 7 (upd_where (at_key ''a@x'' ''stonnington'') (\<lambda>r. r\<lparr>ts_Generation := 9\<rparr>)) None ''a@x'' ''a@x'' ''pw'' True False 5
     (\<lambda>u p. (''m'', None)) w_linked")
    (auto simp: upd_where_def w_linked_def w_client_def w_sealed_def w_session_def split: if_splits)

end
