(* ===== verification/SchedCore.thy ===== *)
theory SchedCore
  imports Float64 Model Provider "HOL-Library.Word"
begin

unbundle bit_operations_syntax

text \<open>
  The scheduler's own state and its bookkeeping (internal/scheduler/scheduler.go): the options
  and their defaults, the in-memory tables, the per-permit retry window with its parked
  refusals, the exclusive claim on a permit's plate write, the throttled operator alert, the
  liveness clocks and the watchdog.

  A mutex-guarded method is one atomic function of the state. A clock read is an argument; a
  draw of \<open>rand.Float64\<close> is an argument \<open>u\<close> between 0 and 1. Whatever a goroutine does after
  the method returned (delivering an alert) is a second function, applied whenever it happens.
\<close>

section \<open>The scheduler\<close>

type_synonym session_key = "string \<times> string"

record reconnect_item =
  ri_next :: time
  ri_queuedAt :: time
  ri_gen :: int
  ri_attempts :: int
  ri_countsChurn :: bool

record churn_event =
  ce_owner :: string
  ce_at :: time

text \<open>
  \<open>sc_applying\<close> maps a permit to the channel of its write in flight; channels are numbered as
  they are made, and \<open>sc_closed\<close> says which are closed. \<open>sc_Enabled\<close> and
  \<open>sc_AdminConfigured\<close> are what the notifier answers (false for a nil notifier).
\<close>

record scheduler =
  sc_interval :: dur
  sc_sessionMaxAge :: dur
  sc_warmInterval :: dur
  sc_reminderLead :: dur
  sc_expiryLead :: dur
  sc_opDrain :: dur
  sc_jitterFrac :: rat
  sc_spreadWindow :: dur
  sc_driftInterval :: dur
  sc_idleWindow :: dur
  sc_warmSafetyMargin :: dur
  sc_alertRetry :: dur
  sc_notifyRetry :: dur
  sc_reconnectPortal :: dur
  sc_Enabled :: bool
  sc_AdminConfigured :: bool
  sc_EmailAvailable :: bool
  sc_fleetSize :: int
  sc_trigger :: bool
  sc_lastReconcile :: int
  sc_lastReconcileAttempt :: int
  sc_lastProgress :: int
  sc_lastAlert :: "string \<rightharpoonup> time"
  sc_applying :: "int \<rightharpoonup> nat"
  sc_channels :: nat
  sc_closed :: "nat set"
  sc_unscheduled :: "int \<rightharpoonup> string"
  sc_nextTry :: "int \<rightharpoonup> time"
  sc_parkedFor :: "int \<rightharpoonup> string"
  sc_churnExpiry :: "churn_event list"
  sc_churnReconn :: "churn_event list"
  sc_reconnectQ :: "(session_key \<times> reconnect_item) list"
  sc_driftRetryAt :: "string \<rightharpoonup> time"
  sc_driftFails :: "string \<Rightarrow> int"
  sc_driftAsap :: "string set"
  sc_driftShape :: "churn_event list"
  sc_warmRetryAt :: "session_key \<rightharpoonup> time"
  sc_reminderWarnAt :: time
  sc_notifyInFlight :: "string set"
  sc_notifyRetryAt :: "string \<rightharpoonup> time"

definition failNotifyThreshold :: int where "failNotifyThreshold = 3"
definition busyNotifyThreshold :: int where "busyNotifyThreshold = 15"
definition blockNotifyThreshold :: int where "blockNotifyThreshold = 4"
definition sessionNotifyThreshold :: int where "sessionNotifyThreshold = 4"
definition systemAlertThrottle :: dur where "systemAlertThrottle = 30 * minute"
definition notifyRetryBackoff :: dur where "notifyRetryBackoff = 5 * minute"
definition systemAlertRetry :: dur where "systemAlertRetry = 5 * minute"
definition DefaultWarmInterval :: dur where "DefaultWarmInterval = 105 * minute"
definition parkedRetry :: dur where "parkedRetry = 365 * 24 * hour"
definition stallThreshold :: dur where "stallThreshold = 5 * minute"

record sched_options =
  op_SessionMaxAge :: dur
  op_WarmInterval :: dur
  op_ReminderLead :: dur
  op_ExpiryLead :: dur
  op_OpDrain :: dur
  op_JitterFrac :: rat
  op_SpreadWindow :: dur
  op_DriftInterval :: dur
  op_IdleWindow :: dur
  op_WarmSafetyMargin :: dur

text \<open>The constant 0.2 as a float64.\<close>

definition fifth :: rat where "fifth = 3602879701896397 / 2 ^ 54"

definition New :: "sched_options \<Rightarrow> bool \<Rightarrow> bool \<Rightarrow> bool \<Rightarrow> scheduler" where
  "New opts enabled admin email = \<lparr>
     sc_interval = minute,
     sc_sessionMaxAge = op_SessionMaxAge opts,
     sc_warmInterval = (if op_WarmInterval opts \<le> 0 then DefaultWarmInterval else op_WarmInterval opts),
     sc_reminderLead = op_ReminderLead opts,
     sc_expiryLead = op_ExpiryLead opts,
     sc_opDrain = (if op_OpDrain opts < 0 then 0 else op_OpDrain opts),
     sc_jitterFrac = (if op_JitterFrac opts \<le> 0 then fifth else op_JitterFrac opts),
     sc_spreadWindow = (if op_SpreadWindow opts < 0 then 0 else op_SpreadWindow opts),
     sc_driftInterval = (if op_DriftInterval opts < 0 then 0 else op_DriftInterval opts),
     sc_idleWindow = (if op_IdleWindow opts < 0 then 0 else op_IdleWindow opts),
     sc_warmSafetyMargin = (if op_WarmSafetyMargin opts \<le> 0 then hour else op_WarmSafetyMargin opts),
     sc_alertRetry = systemAlertRetry,
     sc_notifyRetry = notifyRetryBackoff,
     sc_reconnectPortal = 0,
     sc_Enabled = enabled, sc_AdminConfigured = admin, sc_EmailAvailable = email,
     sc_fleetSize = 0, sc_trigger = False,
     sc_lastReconcile = 0, sc_lastReconcileAttempt = 0, sc_lastProgress = 0,
     sc_lastAlert = Map.empty, sc_applying = Map.empty, sc_channels = 0, sc_closed = {},
     sc_unscheduled = Map.empty, sc_nextTry = Map.empty, sc_parkedFor = Map.empty,
     sc_churnExpiry = [], sc_churnReconn = [], sc_reconnectQ = [],
     sc_driftRetryAt = Map.empty, sc_driftFails = (\<lambda>_. 0), sc_driftAsap = {}, sc_driftShape = [],
     sc_warmRetryAt = Map.empty, sc_reminderWarnAt = zero_time,
     sc_notifyInFlight = {}, sc_notifyRetryAt = Map.empty\<rparr>"

section \<open>Randomness and hashing\<close>

definition jittered :: "scheduler \<Rightarrow> rat \<Rightarrow> dur \<Rightarrow> dur" where
  "jittered s u d =
     (if sc_jitterFrac s \<le> 0 \<or> d \<le> 0 then d
      else let j = trunc (fl (fl (of_int d) * fl (1 + fl (fl (fl (u * 2) - 1) * sc_jitterFrac s))))
        in if j < 0 then 0 else j)"

text \<open>The 64-bit FNV-1a hash of a sequence of bytes, and the float in [0,1) made of its top 53 bits.\<close>

definition fnv64a :: "64 word list \<Rightarrow> 64 word" where
  "fnv64a bs = foldl (\<lambda>h b. (h XOR b) * 1099511628211) 14695981039346656037 bs"

definition le_bytes :: "64 word \<Rightarrow> 64 word list" where
  "le_bytes w = map (\<lambda>i. take_bit 8 (drop_bit (8 * i) w)) [0..<8]"

definition utf8 :: "string \<Rightarrow> 64 word list" where
  "utf8 s = concat (map (\<lambda>c. if cp c < 128 then [of_nat (cp c)]
     else [of_nat (192 + cp c div 64), of_nat (128 + cp c mod 64)]) s)"

definition unit01 :: "64 word \<Rightarrow> rat" where
  "unit01 h = fl (fl (of_int (uint (drop_bit 11 h))) / fl (2 ^ 53))"

section \<open>Kicks and the retry window\<close>

definition clearRetry :: "int \<Rightarrow> scheduler \<Rightarrow> scheduler" where
  "clearRetry pid s = s\<lparr>sc_nextTry := (sc_nextTry s)(pid := None), sc_parkedFor := (sc_parkedFor s)(pid := None)\<rparr>"

definition Kick :: "scheduler \<Rightarrow> scheduler" where "Kick s = s\<lparr>sc_trigger := True\<rparr>"

definition KickPermit :: "int \<Rightarrow> scheduler \<Rightarrow> scheduler" where
  "KickPermit pid s = Kick (if 0 < pid then clearRetry pid s else s)"

text \<open>The owner's permits as the store lists them, or nothing when it cannot be read.\<close>

definition kickOwnerWhere :: "permit list option \<Rightarrow> (permit \<Rightarrow> bool) \<Rightarrow> scheduler \<Rightarrow> scheduler" where
  "kickOwnerWhere permits match s =
     Kick (case permits of None \<Rightarrow> s
       | Some ps \<Rightarrow> fold (\<lambda>p s. if match p then clearRetry (p_ID p) s else s) ps s)"

definition KickOwner :: "permit list option \<Rightarrow> scheduler \<Rightarrow> scheduler" where
  "KickOwner permits = kickOwnerWhere permits (\<lambda>p. True)"

definition KickOwnerIn :: "permit list option \<Rightarrow> string \<Rightarrow> scheduler \<Rightarrow> scheduler" where
  "KickOwnerIn permits tenant = kickOwnerWhere permits (\<lambda>p. p_TenantID p = tenant)"

text \<open>The shift count is not negative: a streak is counted up from 0. (Go panics on a negative one.)\<close>

definition retry_backoff :: "scheduler \<Rightarrow> int \<Rightarrow> dur" where
  "retry_backoff s streak =
     (let b = wrap64 (sc_interval s * 2 ^ nat (min streak 5)) in if 30 * minute < b then 30 * minute else b)"

definition deferRetry :: "int \<Rightarrow> int \<Rightarrow> rat \<Rightarrow> time \<Rightarrow> scheduler \<Rightarrow> scheduler" where
  "deferRetry pid streak u now s =
     s\<lparr>sc_nextTry := (sc_nextTry s)(pid \<mapsto> now + jittered s u (retry_backoff s streak))\<rparr>"

definition parkRetry :: "int \<Rightarrow> string \<Rightarrow> time \<Rightarrow> scheduler \<Rightarrow> scheduler" where
  "parkRetry pid reg now s =
     s\<lparr>sc_nextTry := (sc_nextTry s)(pid \<mapsto> now + parkedRetry), sc_parkedFor := (sc_parkedFor s)(pid \<mapsto> reg)\<rparr>"

definition unparkIfTargetChanged :: "int \<Rightarrow> string \<Rightarrow> scheduler \<Rightarrow> scheduler" where
  "unparkIfTargetChanged pid want s =
     (case sc_parkedFor s pid of
        None \<Rightarrow> s
      | Some parked \<Rightarrow> if same_plate parked want then s
          else s\<lparr>sc_nextTry := (sc_nextTry s)(pid := None), sc_parkedFor := (sc_parkedFor s)(pid := None)\<rparr>)"

definition retryDeferred :: "int \<Rightarrow> time \<Rightarrow> scheduler \<Rightarrow> bool" where
  "retryDeferred pid now s = (case sc_nextTry s pid of None \<Rightarrow> False | Some t \<Rightarrow> now < t)"

section \<open>The claim on a permit's plate write\<close>

definition tryApply :: "int \<Rightarrow> scheduler \<Rightarrow> scheduler \<times> nat option" where
  "tryApply pid s =
     (case sc_applying s pid of
        Some busy \<Rightarrow> (s, None)
      | None \<Rightarrow> (s\<lparr>sc_applying := (sc_applying s)(pid \<mapsto> sc_channels s), sc_channels := sc_channels s + 1\<rparr>,
          Some (sc_channels s)))"

text \<open>The release closure of claim \<open>ch\<close>, run at most once (\<open>sync.Once\<close>).\<close>

definition release_apply :: "int \<Rightarrow> nat \<Rightarrow> scheduler \<Rightarrow> scheduler" where
  "release_apply pid ch s =
     (if ch \<in> sc_closed s then s
      else (if sc_applying s pid = Some ch then s\<lparr>sc_applying := (sc_applying s)(pid := None)\<rparr> else s)
        \<lparr>sc_closed := insert ch (sc_closed s)\<rparr>)"

text \<open>
  \<open>AcquireApply\<close> waits between its tries: each entry of the list is one wake-up, by the close of
  the channel it waits on (with the state it then finds) or by the end of its context.
\<close>

datatype wake = ChannelClosed scheduler | ContextDone
datatype acquired = Holding nat | GaveUp | Waiting

fun AcquireApply :: "int \<Rightarrow> scheduler \<Rightarrow> wake list \<Rightarrow> scheduler \<times> acquired" where
  "AcquireApply pid s ws =
     (case tryApply pid s of
        (s', Some ch) \<Rightarrow> (s', Holding ch)
      | (_, None) \<Rightarrow> (case ws of
          [] \<Rightarrow> (s, Waiting)
        | ContextDone # _ \<Rightarrow> (s, GaveUp)
        | ChannelClosed s' # ws' \<Rightarrow> AcquireApply pid s' ws'))"

section \<open>Liveness clocks and the watchdog\<close>

definition LastReconcile :: "scheduler \<Rightarrow> time" where
  "LastReconcile s = (if sc_lastReconcile s = 0 then zero_time else sc_lastReconcile s)"

definition LastReconcileAttempt :: "scheduler \<Rightarrow> time" where
  "LastReconcileAttempt s = (if sc_lastReconcileAttempt s = 0 then zero_time else sc_lastReconcileAttempt s)"

definition progress :: "time \<Rightarrow> scheduler \<Rightarrow> scheduler" where
  "progress now s = s\<lparr>sc_lastProgress := now\<rparr>"

text \<open>The seeding at the start of \<open>Run\<close>.\<close>

definition seed_clocks :: "time \<Rightarrow> scheduler \<Rightarrow> scheduler" where
  "seed_clocks now s =
     s\<lparr>sc_lastReconcile := (if sc_lastReconcile s = 0 then now else sc_lastReconcile s),
       sc_lastProgress := (if sc_lastProgress s = 0 then now else sc_lastProgress s)\<rparr>"

definition stall_limit :: "scheduler \<Rightarrow> dur" where
  "stall_limit s = (if stallThreshold < 5 * sc_interval s then 5 * sc_interval s else stallThreshold)"

definition watchdog_alarm :: "time \<Rightarrow> scheduler \<Rightarrow> bool" where
  "watchdog_alarm now s \<longleftrightarrow> sc_lastProgress s \<noteq> 0 \<and> stall_limit s < tsub now (sc_lastProgress s)"

section \<open>Operator alerts\<close>

definition alert_throttle :: "dur \<Rightarrow> dur" where
  "alert_throttle throttle = (if throttle \<le> 0 then systemAlertThrottle else throttle)"

definition alert_retry :: "scheduler \<Rightarrow> dur \<Rightarrow> dur" where
  "alert_retry s throttle =
     (if sc_alertRetry s \<le> 0 \<or> throttle \<le> sc_alertRetry s then systemAlertRetry else sc_alertRetry s)"

text \<open>The synchronous part: whether this call sends, and the claim it stamps.\<close>

definition systemAlertEvery :: "string \<Rightarrow> dur \<Rightarrow> time \<Rightarrow> scheduler \<Rightarrow> scheduler \<times> bool" where
  "systemAlertEvery key throttle0 now s =
     (if \<not> sc_AdminConfigured s then (s, False)
      else let throttle = alert_throttle throttle0; retry = alert_retry s throttle in
        if (case sc_lastAlert s key of None \<Rightarrow> False | Some t \<Rightarrow> tsub now t < throttle) then (s, False)
        else (s\<lparr>sc_lastAlert := (sc_lastAlert s)(key \<mapsto> now - throttle + retry)\<rparr>, True))"

definition systemAlert :: "string \<Rightarrow> time \<Rightarrow> scheduler \<Rightarrow> scheduler \<times> bool" where
  "systemAlert key = systemAlertEvery key systemAlertThrottle"

text \<open>The delivery goroutine: a success extends the stamp, a failure leaves the short window.\<close>

definition alert_delivered :: "string \<Rightarrow> bool \<Rightarrow> time \<Rightarrow> scheduler \<Rightarrow> scheduler" where
  "alert_delivered key ok now s = (if ok then s\<lparr>sc_lastAlert := (sc_lastAlert s)(key \<mapsto> now)\<rparr> else s)"

text \<open>
  One tick of the watchdog, and one guarded reconcile pass: how the pass ended decides which
  clock is stamped. The pass itself is a parameter here; it is defined with the reconcile loop.
\<close>

definition watchdog_tick :: "time \<Rightarrow> scheduler \<Rightarrow> scheduler \<times> bool" where
  "watchdog_tick now s = (if watchdog_alarm now s then systemAlert ''reconcile-stall'' now s else (s, False))"

datatype pass_end = Completed | Bailed | Panicked

definition safeReconcile :: "(scheduler \<Rightarrow> scheduler \<times> pass_end) \<Rightarrow> time \<Rightarrow> time \<Rightarrow> scheduler \<Rightarrow> scheduler \<times> bool" where
  "safeReconcile pass start fin s =
     (case pass ((progress start s)\<lparr>sc_lastReconcileAttempt := start\<rparr>) of
        (s', Panicked) \<Rightarrow> systemAlert ''panic-reconcile'' fin s'
      | (s', Completed) \<Rightarrow> (s'\<lparr>sc_lastReconcile := fin\<rparr>, False)
      | (s', Bailed) \<Rightarrow> (s', False))"

section \<open>The retry window as a deadline table\<close>

definition hold_retry :: "int \<Rightarrow> time \<Rightarrow> scheduler \<Rightarrow> scheduler" where
  "hold_retry pid t s = s\<lparr>sc_nextTry := (sc_nextTry s)(pid \<mapsto> t)\<rparr>"

interpretation retry: backoff_table sc_nextTry hold_retry clearRetry retryDeferred
  by unfold_locales (auto simp: retryDeferred_def held_def hold_retry_def clearRetry_def split: option.splits)

lemma deferRetry_hold: "deferRetry pid n u now s = hold_retry pid (now + jittered s u (retry_backoff s n)) s"
  by (simp add: deferRetry_def hold_retry_def)

lemma retryDeferred_Kick [simp]: "retryDeferred pid now (Kick s) = retryDeferred pid now s"
  by (simp add: retryDeferred_def Kick_def)

lemma KickPermit_frees: "0 < pid \<Longrightarrow> \<not> retryDeferred pid now (KickPermit pid s) \<and> sc_parkedFor (KickPermit pid s) pid = None"
  using retry.not_blocked_after_release [of pid now s] by (simp add: KickPermit_def) (simp add: clearRetry_def Kick_def)

lemma KickPermit_frame: "pid' \<noteq> pid \<Longrightarrow> retryDeferred pid' now (KickPermit pid s) = retryDeferred pid' now s"
  by (simp add: KickPermit_def retry.release_frame)

text \<open>Rounding a product by a factor between 3/4 and 5/4.\<close>

lemma fl_quarter: "fl (3 / 4) = 3 / 4" "fl (5 / 4) = 5 / 4"
  using fl_dyadic [of 3 "- 2"] fl_dyadic [of 5 "- 2"] by (simp_all add: pow2_def)

lemma jitter_factor:
  assumes "0 \<le> u" and "u \<le> 1" and "0 \<le> f" and "f \<le> 1 / 4"
  shows "3 / 4 \<le> fl (1 + fl (fl (fl (u * 2) - 1) * f))" and "fl (1 + fl (fl (fl (u * 2) - 1) * f)) \<le> 5 / 4"
proof -
  define v where "v = fl (fl (u * 2) - 1)"
  have "0 \<le> fl (u * 2)" "fl (u * 2) \<le> 2"
    using fl_nonneg [of "u * 2"] fl_le_int [of "u * 2" 2] assms(1,2) by simp_all
  then have "- 1 \<le> v" "v \<le> 1"
    using fl_ge_int [of "- 1" "fl (u * 2) - 1"] fl_le_int [of "fl (u * 2) - 1" 1] by (simp_all add: v_def)
  then have "\<bar>v\<bar> * f \<le> 1 * (1 / 4)" by (intro mult_mono) (use assms in auto)
  then have "- (1 / 4) \<le> v * f" "v * f \<le> 1 / 4" using assms(3) abs_mult [of v f] by (auto simp: abs_le_iff)
  moreover have q: "fl (1 / 4) = 1 / 4" using fl_dyadic [of 1 "- 2"] by (simp add: pow2_def)
  ultimately have "- (1 / 4) \<le> fl (v * f)" "fl (v * f) \<le> 1 / 4"
    using fl_mono [of "- (1 / 4)" "v * f"] fl_mono [of "v * f" "1 / 4"] by (simp_all only: fl_minus q)
  then show "3 / 4 \<le> fl (1 + fl (fl (fl (u * 2) - 1) * f))" and "fl (1 + fl (fl (fl (u * 2) - 1) * f)) \<le> 5 / 4"
    using fl_mono [of "3 / 4" "1 + fl (v * f)"] fl_mono [of "1 + fl (v * f)" "5 / 4"]
    unfolding v_def [symmetric] by (simp_all add: fl_quarter)
qed

lemma jittered_quarter:
  assumes "0 \<le> u" and "u \<le> 1" and "sc_jitterFrac s \<le> 1 / 4" and "0 \<le> d" and "5 * d < 2 ^ 53"
  shows "3 * (4 * d) \<le> 4 * jittered s u (4 * d)" and "4 * jittered s u (4 * d) \<le> 5 * (4 * d)"
proof -
  define k where "k = fl (1 + fl (fl (fl (u * 2) - 1) * sc_jitterFrac s))"
  define x :: rat where "x = of_int d"
  have x: "0 \<le> x" using assms(4) by (simp add: x_def)
  have d4: "fl (4 * of_int d) = 4 * x" using fl_of_int [of "4 * d"] assms(4,5) by (simp add: x_def)
  have "3 * (4 * d) \<le> 4 * jittered s u (4 * d) \<and> 4 * jittered s u (4 * d) \<le> 5 * (4 * d)"
  proof (cases "sc_jitterFrac s \<le> 0 \<or> 4 * d \<le> 0")
    case True
    then show ?thesis using assms(4) by (auto simp: jittered_def)
  next
    case False
    then have k: "3 / 4 \<le> k" "k \<le> 5 / 4" using jitter_factor [OF assms(1,2) _ assms(3)] by (auto simp: k_def)
    have "4 * x * (3 / 4) \<le> 4 * x * k" "4 * x * k \<le> 4 * x * (5 / 4)"
      using k x by (intro mult_left_mono; simp)+
    then have "of_int (3 * d) \<le> 4 * x * k" "4 * x * k \<le> of_int (5 * d)" by (simp_all add: x_def)
    then have "of_int (3 * d) \<le> fl (4 * x * k)" "fl (4 * x * k) \<le> of_int (5 * d)"
      using fl_ge_int [of "3 * d" "4 * x * k"] fl_le_int [of "4 * x * k" "5 * d"] assms(4,5) by simp_all
    then have "3 * d \<le> trunc (fl (4 * x * k))" "trunc (fl (4 * x * k)) \<le> 5 * d"
      using trunc_mono [of "of_int (3 * d)" "fl (4 * x * k)"] trunc_mono [of "fl (4 * x * k)" "of_int (5 * d)"]
      by (simp_all only: trunc_of_int)
    then show ?thesis using False assms(4) by (simp add: jittered_def Let_def d4 flip: k_def)
  qed
  then show "3 * (4 * d) \<le> 4 * jittered s u (4 * d)" and "4 * jittered s u (4 * d) \<le> 5 * (4 * d)" by simp_all
qed

lemma retry_backoff_minute:
  assumes "sc_interval s = minute" and "0 \<le> n"
  shows "retry_backoff s n = (if n \<le> 4 then 2 ^ nat n * minute else 30 * minute)"
proof -
  have "n \<in> {0, 1, 2, 3, 4} \<or> 5 \<le> n" using assms(2) by (simp; arith)
  then consider "n \<in> {0, 1, 2, 3, 4}" | "5 \<le> n" by blast
  then show ?thesis
  proof cases
    case 1
    then show ?thesis by (auto simp: retry_backoff_def assms(1) Let_def wrap64_def time_simps)
  next
    case 2
    then have "min n 5 = 5" by simp
    with 2 show ?thesis by (simp add: retry_backoff_def assms(1) Let_def wrap64_def time_simps)
  qed
qed

text \<open>A permit that keeps failing is paced: with the default tick and jitter, after its \<open>n\<close>-th
  consecutive failure it is not attempted for at least three quarters of \<open>2^n\<close> minutes, is
  attempted again after at most five quarters of that, and the base never passes 30 minutes. Only
  that permit waits, and a user action on it ends the wait at once.\<close>

theorem failing_permit_is_paced:
  assumes "sc_interval s = minute" and "sc_jitterFrac s \<le> 1 / 4" and "1 \<le> n" and "0 \<le> u" and "u < 1"
    and "b = (if n \<le> 4 then 2 ^ nat n * minute else 30 * minute)" and "0 < pid"
  shows "(4 * (t - now) < 3 * b \<longrightarrow> retryDeferred pid t (deferRetry pid n u now s))
    \<and> (5 * b \<le> 4 * (t - now) \<longrightarrow> \<not> retryDeferred pid t (deferRetry pid n u now s))
    \<and> (other \<noteq> pid \<longrightarrow> retryDeferred other t (deferRetry pid n u now s) = retryDeferred other t s)
    \<and> \<not> retryDeferred pid t (KickPermit pid (deferRetry pid n u now s))"
proof -
  have rb: "retry_backoff s n = b" using retry_backoff_minute [OF assms(1), of n] assms(3,6) by simp
  obtain d where d: "b = 4 * d" "0 \<le> d" "5 * d < 2 ^ 53"
  proof
    show "b = 4 * (if n \<le> 4 then 2 ^ nat n * (15 * second) else 450 * second)"
      using assms(6) by (simp add: minute_def)
    show "0 \<le> (if n \<le> 4 then 2 ^ nat n * (15 * second) else 450 * second)" by (simp add: second_def)
    show "5 * (if n \<le> 4 then 2 ^ nat n * (15 * second) else 450 * second) < 2 ^ 53"
      using power_increasing [of "nat n" 4 "2::int"] by (cases "n \<le> 4") (simp_all add: second_def nat_le_iff)
  qed
  have j: "3 * b \<le> 4 * jittered s u b" "4 * jittered s u b \<le> 5 * b"
    using jittered_quarter [of u s d] assms(2,4,5) d by simp_all
  show ?thesis
    using j retry.hold_frame [of other pid] KickPermit_frees [OF assms(7)]
    unfolding deferRetry_hold rb by (auto simp: retry.blocked_after_hold)
qed

lemma failing_permit_is_paced_witness:
  "retryDeferred 7 (89 * second) (deferRetry 7 1 0 0 (New \<lparr>op_SessionMaxAge = 0, op_WarmInterval = 0,
     op_ReminderLead = 0, op_ExpiryLead = 0, op_OpDrain = 0, op_JitterFrac = 0, op_SpreadWindow = 0,
     op_DriftInterval = 0, op_IdleWindow = 0, op_WarmSafetyMargin = 0\<rparr> True True True))"
  using failing_permit_is_paced [of "New \<lparr>op_SessionMaxAge = 0, op_WarmInterval = 0,
     op_ReminderLead = 0, op_ExpiryLead = 0, op_OpDrain = 0, op_JitterFrac = 0, op_SpreadWindow = 0,
     op_DriftInterval = 0, op_IdleWindow = 0, op_WarmSafetyMargin = 0\<rparr> True True True" 1 0 "2 * minute" 7 "89 * second" 0]
  by (simp add: New_def fifth_def time_simps)

text \<open>A council refusal parks the permit for that plate only: the same plate is not attempted
  again for a year, a different plate is attempted on the next tick, an ordinary backoff is not
  shortened by a change of target, and a user action ends the parking.\<close>

theorem parked_refusal_is_about_one_plate:
  assumes "0 < pid"
  shows "(t < now + parkedRetry \<longrightarrow>
       retryDeferred pid t (unparkIfTargetChanged pid want (parkRetry pid reg now s)) = same_plate reg want)
    \<and> (sc_parkedFor s pid = None \<longrightarrow> unparkIfTargetChanged pid want s = s)
    \<and> (other \<noteq> pid \<longrightarrow> retryDeferred other t (unparkIfTargetChanged pid want (parkRetry pid reg now s))
         = retryDeferred other t s)
    \<and> \<not> retryDeferred pid t (KickPermit pid (parkRetry pid reg now s))"
  using KickPermit_frees [OF assms, of t "parkRetry pid reg now s"]
  by (auto simp: parkRetry_def unparkIfTargetChanged_def retryDeferred_def)

section \<open>Exclusion of plate writes\<close>

text \<open>
  Every interleaving of tries and releases: \<open>given\<close> lists the claims handed out, and a release
  closure exists only for those; it may be called any number of times.
\<close>

datatype apply_op = TryApply int | ReleaseApply int nat

fun apply_step :: "scheduler \<times> (int \<times> nat) list \<Rightarrow> apply_op \<Rightarrow> scheduler \<times> (int \<times> nat) list" where
  "apply_step (s, given) (TryApply pid) =
     (case tryApply pid s of (s', Some ch) \<Rightarrow> (s', (pid, ch) # given) | (s', None) \<Rightarrow> (s', given))"
| "apply_step (s, given) (ReleaseApply pid ch) =
     (if (pid, ch) \<in> set given then (release_apply pid ch s, given) else (s, given))"

definition claims_ok :: "scheduler \<times> (int \<times> nat) list \<Rightarrow> bool" where
  "claims_ok y \<longleftrightarrow> (case y of (s, given) \<Rightarrow>
     distinct (map snd given) \<and> (\<forall>c \<in> set given. snd c < sc_channels s)
     \<and> (\<forall>pid ch. sc_applying s pid = Some ch \<longleftrightarrow> (pid, ch) \<in> set given \<and> ch \<notin> sc_closed s)
     \<and> (\<forall>ch \<in> sc_closed s. ch < sc_channels s))"

lemma claims_okD:
  assumes "claims_ok (s, given)"
  shows "distinct (map snd given)" and "c \<in> set given \<Longrightarrow> snd c < sc_channels s"
    and "sc_applying s pid = Some ch \<longleftrightarrow> (pid, ch) \<in> set given \<and> ch \<notin> sc_closed s"
    and "ch \<in> sc_closed s \<Longrightarrow> ch < sc_channels s"
  using assms by (simp_all add: claims_ok_def)

lemma claims_ok_try:
  assumes "claims_ok (s, given)"
  shows "claims_ok (apply_step (s, given) (TryApply pid))"
proof (cases "sc_applying s pid")
  case None
  note ok = claims_okD [OF assms]
  define n where "n = sc_channels s"
  have n: "n \<notin> snd ` set given" "n \<notin> sc_closed s" "\<And>p. (p, n) \<notin> set given"
    using ok(2) ok(4) [of n] by (fastforce simp: n_def)+
  have idle: "(pid, ch) \<in> set given \<Longrightarrow> ch \<in> sc_closed s" for ch using ok(3) [of pid ch] None by simp
  have "\<forall>p ch. ((sc_applying s)(pid \<mapsto> n)) p = Some ch \<longleftrightarrow> (p, ch) \<in> set ((pid, n) # given) \<and> ch \<notin> sc_closed s"
    using ok(3) n idle by auto
  moreover have "\<forall>c \<in> set given. snd c < n + 1" "\<forall>ch \<in> sc_closed s. ch < n + 1"
    using ok(2,4) by (fastforce simp: n_def)+
  ultimately show ?thesis using ok(1) n None by (simp add: claims_ok_def tryApply_def flip: n_def)
next
  case (Some ch)
  then show ?thesis using assms by (simp add: tryApply_def)
qed

lemma distinct_snd_eq:
  "distinct (map snd xs) \<Longrightarrow> (a, c) \<in> set xs \<Longrightarrow> (b, c) \<in> set xs \<Longrightarrow> a = b"
  by (induction xs) force+

lemma claims_ok_release:
  assumes "claims_ok (s, given)"
  shows "claims_ok (apply_step (s, given) (ReleaseApply pid ch))"
proof (cases "(pid, ch) \<in> set given \<and> ch \<notin> sc_closed s")
  case True
  note ok = claims_okD [OF assms]
  have mine: "sc_applying s pid = Some ch" using ok(3) True by simp
  have "(p, ch) \<in> set given \<Longrightarrow> p = pid" for p using distinct_snd_eq [OF ok(1), of p ch pid] True by simp
  then have "\<forall>p c. ((sc_applying s)(pid := None)) p = Some c
      \<longleftrightarrow> (p, c) \<in> set given \<and> c \<notin> insert ch (sc_closed s)"
    using ok(3) mine by (metis fun_upd_apply insert_iff option.distinct(1) option.inject)
  then show ?thesis using ok(1,2,4) True mine ok(2) [of "(pid, ch)"]
    by (simp add: claims_ok_def release_apply_def)
next
  case False
  then show ?thesis using assms by (auto simp: release_apply_def)
qed

lemma claims_ok_run: "claims_ok y \<Longrightarrow> claims_ok (foldl apply_step y xs)"
proof (induction xs arbitrary: y)
  case (Cons x xs)
  obtain s given where "y = (s, given)" by (cases y)
  with Cons show ?case by (cases x) (simp_all add: claims_ok_try claims_ok_release del: apply_step.simps)
qed simp

text \<open>At most one plate write per permit is in flight, whatever the interleaving of handlers and
  the reconcile loop: a try succeeds exactly when every claim handed out on that permit has been
  released, and releasing twice frees nobody else's claim.\<close>

theorem plate_writes_exclude_each_other:
  assumes "foldl apply_step (s, []) xs = (s', given)" and "sc_applying s = Map.empty" and "sc_closed s = {}"
  shows "(snd (tryApply pid s') \<noteq> None \<longleftrightarrow> (\<forall>ch. (pid, ch) \<in> set given \<longrightarrow> ch \<in> sc_closed s'))
    \<and> ((pid, c1) \<in> set given \<and> c1 \<notin> sc_closed s' \<and> (pid, c2) \<in> set given \<and> c2 \<notin> sc_closed s' \<longrightarrow> c1 = c2)
    \<and> release_apply pid ch (release_apply pid ch s') = release_apply pid ch s'"
proof -
  have "claims_ok (s, [])" using assms(2,3) by (simp add: claims_ok_def)
  then have ok: "claims_ok (s', given)" using claims_ok_run [of "(s, [])" xs] assms(1) by simp
  have "snd (tryApply pid s') \<noteq> None \<longleftrightarrow> (\<forall>ch. (pid, ch) \<in> set given \<longrightarrow> ch \<in> sc_closed s')"
    using claims_okD(3) [OF ok, of pid] by (cases "sc_applying s' pid") (auto simp: tryApply_def)
  moreover have "(pid, c1) \<in> set given \<and> c1 \<notin> sc_closed s' \<and> (pid, c2) \<in> set given \<and> c2 \<notin> sc_closed s' \<longrightarrow> c1 = c2"
    using claims_okD(3) [OF ok] by (metis option.inject)
  moreover have "release_apply pid ch (release_apply pid ch s') = release_apply pid ch s'"
    by (simp add: release_apply_def)
  ultimately show ?thesis by blast
qed

definition w_sched :: scheduler where
  "w_sched = New \<lparr>op_SessionMaxAge = 90 * day, op_WarmInterval = 0, op_ReminderLead = 7 * day,
     op_ExpiryLead = 14 * day, op_OpDrain = 3 * second, op_JitterFrac = 0, op_SpreadWindow = 30 * minute,
     op_DriftInterval = 6 * hour, op_IdleWindow = 150 * minute, op_WarmSafetyMargin = 0\<rparr> True True True"

lemma parked_refusal_is_about_one_plate_witness:
  "retryDeferred 7 hour (unparkIfTargetChanged 7 ''abc 123'' (parkRetry 7 ''ABC123'' 0 w_sched))
   \<and> \<not> retryDeferred 7 hour (unparkIfTargetChanged 7 ''XYZ789'' (parkRetry 7 ''ABC123'' 0 w_sched))"
proof -
  have "same_plate ''ABC123'' ''abc 123''" "\<not> same_plate ''ABC123'' ''XYZ789''" by code_simp+
  then show ?thesis
    using parked_refusal_is_about_one_plate [of 7 hour 0 "''abc 123''" "''ABC123''" w_sched 8]
      parked_refusal_is_about_one_plate [of 7 hour 0 "''XYZ789''" "''ABC123''" w_sched 8]
    by (simp add: parkedRetry_def time_simps)
qed

lemma plate_writes_exclude_each_other_witness:
  "snd (tryApply 7 (fst (foldl apply_step (w_sched, []) [TryApply 7, TryApply 8]))) = None"
proof -
  have "\<exists>s' given. foldl apply_step (w_sched, []) [TryApply 7, TryApply 8] = (s', given)
      \<and> (7, 0) \<in> set given \<and> 0 \<notin> sc_closed s'"
    by (simp add: tryApply_def w_sched_def New_def)
  then show ?thesis
    using plate_writes_exclude_each_other [of w_sched "[TryApply 7, TryApply 8]" _ _ 7 0 0 0]
    by (fastforce simp: w_sched_def New_def)
qed

section \<open>The alert throttle\<close>

text \<open>An operator alert that is sent claims its key: nobody else sends it within the retry window;
  a delivered one is silent for the whole throttle and then speaks again; a failed delivery is
  retried as soon as the retry window is over, never muted for the throttle.\<close>

theorem operator_alerts_are_throttled:
  assumes "systemAlertEvery key throttle now s = (s', True)" and "0 < throttle" and "throttle \<le> max_dur"
    and "systemAlertRetry < throttle" and "now \<le> d"
  shows "(t < now + alert_retry s throttle \<longrightarrow> \<not> snd (systemAlertEvery key throttle t (alert_delivered key False d s')))
    \<and> (now + alert_retry s throttle \<le> t \<longrightarrow> snd (systemAlertEvery key throttle t (alert_delivered key False d s')))
    \<and> snd (systemAlertEvery key throttle t (alert_delivered key True d s')) = (d + throttle \<le> t)
    \<and> systemAlertRetry \<le> max systemAlertRetry (alert_retry s throttle) \<and> alert_retry s throttle < throttle"
proof -
  have s': "s' = s\<lparr>sc_lastAlert := (sc_lastAlert s)(key \<mapsto> now - throttle + alert_retry s throttle)\<rparr>"
    and adm: "sc_AdminConfigured s"
    using assms(1,2) by (auto simp: systemAlertEvery_def alert_throttle_def Let_def split: if_splits)
  have "min_dur < throttle" using assms(2) by (simp add: min_dur_def)
  note lt = tsub_lt_iff [OF this assms(3)]
  have "alert_retry s throttle < throttle" using assms(4) by (auto simp: alert_retry_def)
  then show ?thesis using adm assms(2)
    by (auto simp: systemAlertEvery_def alert_delivered_def alert_throttle_def Let_def s' lt)
qed

lemma operator_alerts_are_throttled_witness:
  "\<not> snd (systemAlertEvery ''db'' (30 * minute) (4 * minute)
       (alert_delivered ''db'' False second (fst (systemAlertEvery ''db'' (30 * minute) 0 w_sched))))"
  using operator_alerts_are_throttled [of "''db''" "30 * minute" 0 w_sched _ second "4 * minute"]
  by (simp add: systemAlertEvery_def w_sched_def New_def alert_throttle_def alert_retry_def Let_def
      systemAlertRetry_def max_dur_def time_simps)

end
