(* ===== verification/Spread.thy ===== *)
theory Spread
  imports SchedCore
begin

text \<open>
  The rollover spread (internal/scheduler/reconcile.go, lines 20-205): every permit has a fixed
  slot in a window after a schedule boundary, so that a midnight shared by the fleet is not one
  burst. The window follows the fleet's size, the slot is a hash of the permit's id in IEEE
  arithmetic, bookings are held only briefly, and nobody is starved.
\<close>

section \<open>The window and the slot\<close>

definition spreadOverrideCap :: dur where "spreadOverrideCap = 10 * minute"
definition spreadSpacingFactor :: int where "spreadSpacingFactor = 2"

definition effectiveSpread :: "scheduler \<Rightarrow> dur" where
  "effectiveSpread s =
     (if sc_spreadWindow s \<le> 0 \<or> sc_opDrain s \<le> 0 then 0
      else if sc_fleetSize s \<le> 0 then 0
      else let want = wrap64 (wrap64 (sc_fleetSize s * sc_opDrain s) * spreadSpacingFactor)
        in if sc_spreadWindow s < want then sc_spreadWindow s else want)"

definition spreadOffset :: "int \<Rightarrow> dur \<Rightarrow> dur" where
  "spreadOffset pid window =
     trunc (fl (unit01 (fnv64a (le_bytes (word_of_int pid))) * fl (of_int window)))"

text \<open>The slot of a booking: at most a tenth of it, and at most the cap.\<close>

definition booking_offset :: "resolution \<Rightarrow> dur \<Rightarrow> dur" where
  "booking_offset res offset0 =
     (let offset = (case s_Until res of
          None \<Rightarrow> offset0
        | Some u \<Rightarrow> (let d = tsub u (s_Since res) in
            if 0 < d \<and> d div 10 < offset0 then d div 10 else offset0))
      in if spreadOverrideCap < offset then spreadOverrideCap else offset)"

definition spreadElapsed :: "scheduler \<Rightarrow> int \<Rightarrow> resolution \<Rightarrow> time \<Rightarrow> bool" where
  "spreadElapsed s pid res now =
     (let window = effectiveSpread s in
      if window \<le> 0 \<or> \<not> s_Scheduled res \<or> is_zero (s_Since res) then True
      else let elapsed = tsub now (s_Since res) in
        if elapsed < 0 then True
        else if window \<le> elapsed then True
        else let offset0 = spreadOffset pid window;
            offset = (if s_Source res = SourceOverride then booking_offset res offset0 else offset0)
          in if (case s_Until res of None \<Rightarrow> False | Some u \<Rightarrow> u \<le> s_Since res + offset) then True
             else offset \<le> elapsed)"

definition RolloverBound :: "scheduler \<Rightarrow> int \<Rightarrow> dur \<times> bool" where
  "RolloverBound s n =
     (if n \<le> 0 then (0, False)
      else let drain = wrap64 (n * sc_opDrain s);
          window0 = wrap64 (wrap64 (n * sc_opDrain s) * spreadSpacingFactor);
          window = (if sc_spreadWindow s < window0 then sc_spreadWindow s else window0);
          bound = (if drain < window then window else drain)
        in (wrap64 (bound + sc_interval s), drain < window))"

section \<open>Bounds\<close>

lemma unit01_bounds: "0 \<le> unit01 h" "unit01 h \<le> 1"
proof -
  have "uint h < 2 ^ 64" using uint_lt2p [of h] by simp
  moreover have "uint (drop_bit 11 h) = uint h div 2 ^ 11"
    using take_bit_length_eq [of h]
    by (simp only: unsigned_drop_bit_eq) (simp add: drop_bit_eq_div unsigned_take_bit_eq [symmetric])
  moreover have "0 \<le> uint (drop_bit 11 h)" by simp
  ultimately have w: "0 \<le> uint (drop_bit 11 h)" "uint (drop_bit 11 h) < 2 ^ 53" by simp_all
  have "fl (of_int (uint (drop_bit 11 h))) = of_int (uint (drop_bit 11 h))"
    by (rule fl_of_int) (use w in simp)
  moreover have "fl (2 ^ 53) = 2 ^ 53" using fl_dyadic [of 1 53] by (simp add: pow2_def)
  ultimately have e: "unit01 h = fl (of_int (uint (drop_bit 11 h)) / 2 ^ 53)" by (simp add: unit01_def)
  have "(of_int (uint (drop_bit 11 h)) :: rat) \<le> of_int (2 ^ 53)"
    unfolding of_int_le_iff using w(2) by simp
  then have "of_int (uint (drop_bit 11 h)) / 2 ^ 53 \<le> (1::rat)" by (simp add: field_simps)
  moreover have "0 \<le> (of_int (uint (drop_bit 11 h)) / 2 ^ 53 :: rat)"
    by (rule divide_nonneg_pos) (use w(1) in \<open>simp_all only: of_int_0_le_iff, simp\<close>)
  ultimately show "0 \<le> unit01 h" "unit01 h \<le> 1"
    unfolding e using fl_nonneg fl_mono [of "of_int (uint (drop_bit 11 h)) / 2 ^ 53" 1] by simp_all
qed

lemma spreadOffset_bounds:
  assumes "0 \<le> w" and "w < 2 ^ 53"
  shows "0 \<le> spreadOffset pid w" "spreadOffset pid w \<le> w"
proof -
  define u where "u = unit01 (fnv64a (le_bytes (word_of_int pid)))"
  have u: "0 \<le> u" "u \<le> 1" by (simp_all add: u_def unit01_bounds)
  have w: "fl (of_int w) = of_int w" by (rule fl_of_int) (use assms in simp)
  have "u * of_int w \<le> 1 * of_int w" by (rule mult_right_mono) (use u assms in simp_all)
  then have "fl (u * of_int w) \<le> of_int w" using fl_mono [of "u * of_int w" "of_int w"] w by simp
  moreover have "0 \<le> fl (u * of_int w)" using u assms by (intro fl_nonneg) simp
  ultimately have "trunc 0 \<le> trunc (fl (u * of_int w)) \<and> trunc (fl (u * of_int w)) \<le> trunc (of_int w)"
    by (blast intro: trunc_mono)
  then show "0 \<le> spreadOffset pid w" "spreadOffset pid w \<le> w"
    using trunc_of_int [of 0] by (simp_all add: spreadOffset_def w flip: u_def)
qed

lemma booking_offset_cap: "booking_offset res x \<le> spreadOverrideCap" "booking_offset res x \<le> x"
  by (auto simp: booking_offset_def Let_def split: option.splits)

lemma booking_offset_tenth:
  assumes "s_Until res = Some u" and "0 < tsub u (s_Since res)"
  shows "booking_offset res x \<le> tsub u (s_Since res) div 10"
  using assms by (auto simp: booking_offset_def Let_def)

lemma booking_offset_nonneg: "0 \<le> x \<Longrightarrow> 0 \<le> booking_offset res x"
  by (auto simp: booking_offset_def Let_def spreadOverrideCap_def time_simps split: option.splits)

text \<open>The slot that decides, and the whole test in terms of it.\<close>

definition slot :: "scheduler \<Rightarrow> int \<Rightarrow> resolution \<Rightarrow> dur" where
  "slot s pid res = (let x = spreadOffset pid (effectiveSpread s) in
     if s_Source res = SourceOverride then booking_offset res x else x)"

lemma spreadElapsed_slot:
  assumes "s_Since res \<le> now" and "slot s pid res \<le> tsub now (s_Since res)"
  shows "spreadElapsed s pid res now"
  using assms by (auto simp: spreadElapsed_def slot_def Let_def)

lemma spreadElapsed_iff:
  assumes "s_Since res \<le> now" and "0 < effectiveSpread s" and "s_Scheduled res" and "\<not> is_zero (s_Since res)"
  shows "spreadElapsed s pid res now \<longleftrightarrow>
     effectiveSpread s \<le> tsub now (s_Since res) \<or> slot s pid res \<le> tsub now (s_Since res)
     \<or> (\<exists>u. s_Until res = Some u \<and> u \<le> s_Since res + slot s pid res)"
  using assms by (auto simp: spreadElapsed_def slot_def Let_def split: option.splits)

lemma effectiveSpread_le: "effectiveSpread s \<le> max 0 (sc_spreadWindow s)"
  by (auto simp: effectiveSpread_def Let_def)

section \<open>Properties\<close>

text \<open>Nobody is stranded: from a change's boundary on, once a permit may act it may act at every
  later instant, and it may act at the latest when the whole window has passed; a change somebody
  made just now is never held at all.\<close>

theorem scheduled_changes_get_their_turn:
  assumes "s_Since res \<le> t" and "t \<le> t'"
  shows "(spreadElapsed s pid res t \<longrightarrow> spreadElapsed s pid res t')
    \<and> (effectiveSpread s \<le> tsub t (s_Since res) \<longrightarrow> spreadElapsed s pid res t)
    \<and> (\<not> s_Scheduled res \<longrightarrow> spreadElapsed s pid res t)"
proof (intro conjI impI)
  have m: "tsub t (s_Since res) \<le> tsub t' (s_Since res)" using assms(2) by (rule tsub_mono)
  show "spreadElapsed s pid res t'" if "spreadElapsed s pid res t"
  proof (cases "0 < effectiveSpread s \<and> s_Scheduled res \<and> \<not> is_zero (s_Since res)")
    case True
    then show ?thesis using that m assms spreadElapsed_iff [of res t s pid] spreadElapsed_iff [of res t' s pid]
      by fastforce
  next
    case False
    then show ?thesis by (auto simp: spreadElapsed_def Let_def)
  qed
qed (auto simp: spreadElapsed_def Let_def)

text \<open>A booking is never starved: the plate a booking names goes on at the latest ten minutes
  after its start and within its first tenth, so always before it ends, whatever the fleet-wide
  window and the permit's slot.\<close>

theorem bookings_are_never_starved:
  assumes "s_Source res = SourceOverride" and "s_Since res \<le> now"
    and "effectiveSpread s < 2 ^ 53"
  shows "(spreadOverrideCap \<le> tsub now (s_Since res) \<longrightarrow> spreadElapsed s pid res now)
    \<and> (s_Until res = Some u \<and> s_Since res < u \<and> tsub u (s_Since res) div 10 \<le> tsub now (s_Since res)
         \<longrightarrow> spreadElapsed s pid res now)
    \<and> (s_Until res = Some u \<and> s_Since res < u \<longrightarrow>
         tsub u (s_Since res) div 10 < u - s_Since res)"
proof (intro conjI impI)
  let ?x = "spreadOffset pid (effectiveSpread s)"
  have slot: "slot s pid res = booking_offset res ?x" using assms(1) by (simp add: slot_def Let_def)
  show "spreadElapsed s pid res now" if "spreadOverrideCap \<le> tsub now (s_Since res)"
    using that booking_offset_cap(1) [of res ?x] by (intro spreadElapsed_slot [OF assms(2)]) (simp add: slot)
  assume u: "s_Until res = Some u \<and> s_Since res < u \<and> tsub u (s_Since res) div 10 \<le> tsub now (s_Since res)"
  then have "0 < tsub u (s_Since res)"
    by (auto simp: tsub_def max_dur_def min_dur_def min_def max_def)
  then show "spreadElapsed s pid res now"
    using u booking_offset_tenth [of res u ?x] by (intro spreadElapsed_slot [OF assms(2)]) (simp add: slot)
next
  assume "s_Until res = Some u \<and> s_Since res < u"
  then show "tsub u (s_Since res) div 10 < u - s_Since res"
    using tsub_le [of u "s_Since res" "u - s_Since res"] by linarith
qed

text \<open>What startup prints is true: a boundary shared by the \<open>n\<close> permits of the fleet has made
  every one of them eligible by the reported bound less the tick, and spreading is reported exactly
  when the window is wider than the serial drain.\<close>

theorem rollover_bound_is_sound:
  assumes "sc_fleetSize s = n" and "0 < n" and "0 < sc_opDrain s" and "0 < sc_spreadWindow s"
    and "0 \<le> sc_interval s" and "2 * (n * sc_opDrain s) + sc_spreadWindow s + sc_interval s < 2 ^ 62"
    and "RolloverBound s n = (bound, spreading)" and "s_Since res + (bound - sc_interval s) \<le> now"
  shows "spreadElapsed s pid res now
     \<and> spreading = (n * sc_opDrain s < effectiveSpread s)
     \<and> bound = max (n * sc_opDrain s) (effectiveSpread s) + sc_interval s"
proof -
  define a where "a = n * sc_opDrain s"
  have a: "0 < a" using assms(2,3) by (simp add: a_def)
  have lim: "2 * a + sc_spreadWindow s + sc_interval s < 4611686018427387904" using assms(6) by (simp add: a_def)
  have w1: "wrap64 a = a" and w2: "wrap64 (a * 2) = a * 2"
    using a lim assms(4,5) by (auto intro!: wrap64_id simp: min_dur_def max_dur_def)
  have e: "effectiveSpread s = min (sc_spreadWindow s) (a * 2)"
    using assms(1-4) by (simp add: effectiveSpread_def Let_def spreadSpacingFactor_def w1 w2 flip: a_def)
  define m where "m = max a (min (sc_spreadWindow s) (a * 2))"
  have m: "a \<le> m" "min (sc_spreadWindow s) (a * 2) \<le> m" "m \<le> 2 * a" using a by (auto simp: m_def)
  have w3: "wrap64 (m + sc_interval s) = m + sc_interval s"
    using a lim assms(4,5) m by (intro wrap64_id) (auto simp: min_dur_def max_dur_def)
  have "RolloverBound s n = (m + sc_interval s, a < min (sc_spreadWindow s) (a * 2))"
  proof -
    have mn: "(if sc_spreadWindow s < a * 2 then sc_spreadWindow s else a * 2) = min (sc_spreadWindow s) (a * 2)"
      by simp
    have mx: "(if a < x then x else a) = max a x" for x by (simp add: max_def)
    show ?thesis
      using assms(2) w3 unfolding RolloverBound_def Let_def spreadSpacingFactor_def a_def [symmetric] w1 w2 mn mx
        m_def [symmetric] by simp
  qed
  then have b: "bound = m + sc_interval s" "spreading = (a < effectiveSpread s)" using assms(7) e by auto
  have "effectiveSpread s \<le> now - s_Since res" using assms(8) m e b by linarith
  moreover have "s_Since res \<le> now" using assms(8) m a b by linarith
  moreover have "effectiveSpread s \<le> max_dur" "min_dur < effectiveSpread s"
    using e lim a assms(4,5) by (auto simp: max_dur_def min_dur_def)
  ultimately have "effectiveSpread s \<le> tsub now (s_Since res)" by (simp add: tsub_ge_iff)
  then show ?thesis using b e by (auto simp: spreadElapsed_def Let_def a_def m_def)
qed

section \<open>Witnesses\<close>

definition w_fleet :: scheduler where "w_fleet = w_sched\<lparr>sc_fleetSize := 500\<rparr>"

definition w_nanny :: resolution where
  "w_nanny = no_resolution\<lparr>s_Source := SourceOverride, s_Registration := ''ABC123'', s_Scheduled := True,
     s_Since := 0, s_Until := Some (8 * hour)\<rparr>"

lemma w_fleet_spread: "effectiveSpread w_fleet = 30 * minute"
  by (simp add: effectiveSpread_def w_fleet_def w_sched_def New_def Let_def spreadSpacingFactor_def
      wrap64_def time_simps)

lemma scheduled_changes_get_their_turn_witness: "spreadElapsed w_fleet 7 w_nanny (31 * minute)"
  using scheduled_changes_get_their_turn [of w_nanny "31 * minute" "31 * minute" w_fleet 7]
  by (simp add: w_fleet_spread w_nanny_def tsub_def min_dur_def max_dur_def time_simps)

lemma bookings_are_never_starved_witness: "spreadElapsed w_fleet 7 w_nanny (10 * minute)"
  using bookings_are_never_starved [of w_nanny "10 * minute" w_fleet 7 0]
  by (simp add: w_fleet_spread w_nanny_def tsub_def min_dur_def max_dur_def spreadOverrideCap_def time_simps)

lemma rollover_bound_is_sound_witness:
  "RolloverBound w_fleet 500 = (31 * minute, True) \<and> spreadElapsed w_fleet 7 w_nanny (30 * minute)"
proof -
  have b: "RolloverBound w_fleet 500 = (31 * minute, True)"
    by (simp add: RolloverBound_def w_fleet_def w_sched_def New_def Let_def spreadSpacingFactor_def
        wrap64_def time_simps)
  then show ?thesis
    using rollover_bound_is_sound [OF _ _ _ _ _ _ b, of w_nanny "30 * minute" 7]
    by (simp add: w_fleet_def w_sched_def New_def w_nanny_def time_simps)
qed

end
