(* ===== verification/Notices.thy ===== *)
theory Notices
  imports SchedCore
begin

text \<open>
  What the scheduler tells people (internal/scheduler/notify.go): the claims and holds that pace a
  delivery, the failure episode that decides whether a failure is told at all, the drivers'
  notices, the activity log and the operator's systemic alert.

  A delivery runs on a goroutine: \<open>notifyUserThen\<close> puts a job in flight and \<open>deliver_notice\<close> is
  what the goroutine does, whenever it runs. What the store reads but this component never
  writes is the record \<open>reads\<close> (\<open>None\<close> is a failed statement); which other statements fail in a
  step is the record \<open>faults\<close>. Everything sent is kept, newest first, in \<open>wd_sent\<close>. In the texts a
  typographic apostrophe is written as a plain one.
\<close>

section \<open>Outcomes, rows and the world\<close>

record apply_outcome =
  ao_Owner :: string
  ao_TenantID :: string
  ao_PermitLabel :: string
  ao_Reg :: string
  ao_Name :: string
  ao_Color :: string
  ao_By :: string
  ao_Source :: string
  ao_Empty :: bool
  ao_OK :: bool
  ao_CurrentReg :: string
  ao_Reason :: string
  ao_Action :: string
  ao_Transient :: bool
  ao_CouncilDown :: bool
  ao_ResolvesFailure :: bool
  ao_Urgent :: bool
  ao_PermitID :: int
  ao_Key :: string
  ao_DisplacedReg :: string
  ao_DisplacedTold :: bool
  ao_DriverTold :: string

definition no_outcome :: apply_outcome where
  "no_outcome = \<lparr>ao_Owner = [], ao_TenantID = [], ao_PermitLabel = [], ao_Reg = [], ao_Name = [],
     ao_Color = [], ao_By = [], ao_Source = [], ao_Empty = False, ao_OK = False, ao_CurrentReg = [],
     ao_Reason = [], ao_Action = [], ao_Transient = False, ao_CouncilDown = False,
     ao_ResolvesFailure = False, ao_Urgent = False, ao_PermitID = 0, ao_Key = [],
     ao_DisplacedReg = [], ao_DisplacedTold = False, ao_DriverTold = []\<rparr>"

text \<open>A row of \<open>permit_notify\<close>; a permit without a row reads as the empty one.\<close>

record notify_row =
  nr_notified :: string
  nr_admin :: string
  nr_plate :: string
  nr_urgent :: bool

definition no_row :: notify_row where
  "no_row = \<lparr>nr_notified = [], nr_admin = [], nr_plate = [], nr_urgent = False\<rparr>"

record apply_record =
  ar_Registration :: string
  ar_Source :: string
  ar_Status :: string
  ar_Detail :: string

record notice_job =
  jb_outcome :: apply_outcome
  jb_adminKey :: string
  jb_mark :: "(string \<times> bool) option"

datatype job = Notice notice_job | RelinkJob string string | StalledJob string string

datatype message =
    AdminAlert string
  | UserNotice apply_outcome bool
  | AdminUnreached apply_outcome
  | RelinkRequired string string bool
  | ReconnectStalled string string bool
  | AdminUnreachedOwner string
  | DriverDisplaced string string string
  | DriverAdded string string
  | DriverFailed string string bool
  | DriftChanged string
  | PermitExpiry int
  | RenewalReminder string string
  | PortalNudge string

record world =
  wd_s :: scheduler
  wd_permits :: "permit list"
  wd_notify :: "int \<Rightarrow> notify_row"
  wd_log :: "(int \<times> apply_record) list"
  wd_jobs :: "job list"
  wd_sent :: "message list"

record reads =
  rd_rules :: "int \<Rightarrow> weekly_rule list option"
  rd_overrides :: "int \<Rightarrow> override list option"
  rd_vehicles :: "string \<Rightarrow> vehicle list option"
  rd_members :: "string \<Rightarrow> string list option"
  rd_suppressed :: "string \<Rightarrow> bool option"

record faults =
  ft_episode :: bool
  ft_notifyRead :: bool
  ft_mark :: bool
  ft_close :: bool
  ft_setKey :: bool
  ft_setAdmin :: bool
  ft_bump :: bool
  ft_clear :: bool
  ft_lastApply :: bool
  ft_recordApply :: bool
  ft_reread :: bool
  ft_settleRead :: bool
  ft_commit :: bool
  ft_enqueue :: bool

definition no_faults :: faults where
  "no_faults = \<lparr>ft_episode = False, ft_notifyRead = False, ft_mark = False, ft_close = False,
     ft_setKey = False, ft_setAdmin = False, ft_bump = False, ft_clear = False, ft_lastApply = False,
     ft_recordApply = False, ft_reread = False, ft_settleRead = False, ft_commit = False, ft_enqueue = False\<rparr>"

definition on_sched :: "(scheduler \<Rightarrow> scheduler) \<Rightarrow> world \<Rightarrow> world" where
  "on_sched g w = w\<lparr>wd_s := g (wd_s w)\<rparr>"

definition send :: "message \<Rightarrow> world \<Rightarrow> world" where
  "send m w = w\<lparr>wd_sent := m # wd_sent w\<rparr>"

definition raise_alert :: "string \<Rightarrow> time \<Rightarrow> world \<Rightarrow> world" where
  "raise_alert key now w =
     (case systemAlert key now (wd_s w) of
        (s', True) \<Rightarrow> send (AdminAlert key) (w\<lparr>wd_s := s'\<rparr>)
      | (s', False) \<Rightarrow> w\<lparr>wd_s := s'\<rparr>)"

definition on_row :: "int \<Rightarrow> (notify_row \<Rightarrow> notify_row) \<Rightarrow> world \<Rightarrow> world" where
  "on_row pid g w = w\<lparr>wd_notify := (wd_notify w)(pid := g (wd_notify w pid))\<rparr>"

section \<open>Statements on the notification rows\<close>

definition SetPermitNotifiedKey :: "int \<Rightarrow> string \<Rightarrow> world \<Rightarrow> world" where
  "SetPermitNotifiedKey pid key = on_row pid (\<lambda>r. r\<lparr>nr_notified := key\<rparr>)"

definition SetPermitAdminKey :: "int \<Rightarrow> string \<Rightarrow> world \<Rightarrow> world" where
  "SetPermitAdminKey pid key = on_row pid (\<lambda>r. r\<lparr>nr_admin := key\<rparr>)"

definition MarkFailureTold :: "int \<Rightarrow> string \<Rightarrow> bool \<Rightarrow> world \<Rightarrow> world" where
  "MarkFailureTold pid plate urgent = on_row pid (\<lambda>r. r\<lparr>nr_plate := plate,
     nr_urgent := (if plate = nr_plate r then nr_urgent r \<or> urgent else urgent)\<rparr>)"

definition CloseFailureEpisode :: "int \<Rightarrow> world \<Rightarrow> world" where
  "CloseFailureEpisode pid = on_row pid (\<lambda>r. if nr_plate r \<noteq> [] then r\<lparr>nr_plate := [], nr_urgent := False\<rparr> else r)"

definition BumpFailStreak :: "int \<Rightarrow> world \<Rightarrow> world \<times> int option" where
  "BumpFailStreak pid w =
     (w\<lparr>wd_permits := map (\<lambda>p. if p_ID p = pid then p\<lparr>p_FailStreak := p_FailStreak p + 1\<rparr> else p) (wd_permits w)\<rparr>,
      map_option (\<lambda>p. p_FailStreak p + 1) (find (\<lambda>p. p_ID p = pid) (wd_permits w)))"

definition ClearFailStreak :: "int \<Rightarrow> world \<Rightarrow> world" where
  "ClearFailStreak pid w =
     w\<lparr>wd_permits := map (\<lambda>p. if p_ID p = pid \<and> p_FailStreak p \<noteq> 0 then p\<lparr>p_FailStreak := 0\<rparr> else p) (wd_permits w)\<rparr>"

definition LastApply :: "int \<Rightarrow> world \<Rightarrow> apply_record option" where
  "LastApply pid w = map_option snd (find (\<lambda>e. fst e = pid) (wd_log w))"

definition RecordApply :: "int \<Rightarrow> string \<Rightarrow> string \<Rightarrow> string \<Rightarrow> string \<Rightarrow> world \<Rightarrow> world" where
  "RecordApply pid reg source status detail w = w\<lparr>wd_log :=
     (pid, \<lparr>ar_Registration = reg, ar_Source = source, ar_Status = status, ar_Detail = detail\<rparr>) # wd_log w\<rparr>"

definition bumpFailStreak :: "faults \<Rightarrow> int \<Rightarrow> world \<Rightarrow> world \<times> int" where
  "bumpFailStreak f pid w =
     (if ft_bump f then (w, failNotifyThreshold)
      else case BumpFailStreak pid w of
        (w', Some n) \<Rightarrow> (w', n)
      | (w', None) \<Rightarrow> (w', failNotifyThreshold))"

definition clearFailStreak :: "faults \<Rightarrow> int \<Rightarrow> world \<Rightarrow> world" where
  "clearFailStreak f pid w = (if ft_clear f then w else ClearFailStreak pid w)"

text \<open>An activity row, unless the permit's last one says the same.\<close>

definition logApply :: "faults \<Rightarrow> int \<Rightarrow> string \<Rightarrow> string \<Rightarrow> string \<Rightarrow> string \<Rightarrow> world \<Rightarrow> world" where
  "logApply f pid reg source status detail w =
     (if (case (if ft_lastApply f then None else LastApply pid w) of
            None \<Rightarrow> False
          | Some l \<Rightarrow> ar_Status l = status \<and> ar_Registration l = reg \<and> ar_Detail l = detail)
        \<or> ft_recordApply f
      then w else RecordApply pid reg source status detail w)"

section \<open>Claims and holds\<close>

definition claimNotify :: "string \<Rightarrow> scheduler \<Rightarrow> scheduler \<times> bool" where
  "claimNotify claim s =
     (if claim \<in> sc_notifyInFlight s then (s, False)
      else (s\<lparr>sc_notifyInFlight := insert claim (sc_notifyInFlight s)\<rparr>, True))"

definition releaseNotify :: "string \<Rightarrow> scheduler \<Rightarrow> scheduler" where
  "releaseNotify claim s = s\<lparr>sc_notifyInFlight := sc_notifyInFlight s - {claim}\<rparr>"

definition sweep_holds :: "time \<Rightarrow> (string \<rightharpoonup> time) \<Rightarrow> string \<rightharpoonup> time" where
  "sweep_holds now m = (\<lambda>k. case m k of None \<Rightarrow> None | Some t \<Rightarrow> if hour < tsub now t then None else Some t)"

definition holdNotify :: "string \<Rightarrow> time \<Rightarrow> scheduler \<Rightarrow> scheduler" where
  "holdNotify claim now s =
     (if sc_notifyRetry s \<le> 0 then s
      else s\<lparr>sc_notifyRetryAt := (sweep_holds now (sc_notifyRetryAt s))(claim \<mapsto> now + sc_notifyRetry s)\<rparr>)"

definition notifyHeld :: "string \<Rightarrow> time \<Rightarrow> scheduler \<Rightarrow> bool" where
  "notifyHeld claim now s = (case sc_notifyRetryAt s claim of None \<Rightarrow> False | Some t \<Rightarrow> now < t)"

definition releaseNotifyHold :: "string \<Rightarrow> scheduler \<Rightarrow> scheduler" where
  "releaseNotifyHold claim s = s\<lparr>sc_notifyRetryAt := (sc_notifyRetryAt s)(claim := None)\<rparr>"

section \<open>Delivering an outcome\<close>

definition permitLabel :: "permit \<Rightarrow> string" where
  "permitLabel p = (if p_Label p \<noteq> [] then p_Label p else ''permit '' @ p_CouncilPermitID p)"

definition notice_claim :: "int \<Rightarrow> string \<Rightarrow> string" where
  "notice_claim pid key = show_int pid @ ''|'' @ key"

definition notifyUserThen ::
  "faults \<Rightarrow> permit \<Rightarrow> apply_outcome \<Rightarrow> string \<Rightarrow> (string \<times> bool) option \<Rightarrow> time \<Rightarrow> world \<Rightarrow> world" where
  "notifyUserThen f p ao key after now w =
     (if \<not> sc_Enabled (wd_s w) then w
      else let row = (if ft_notifyRead f then no_row else wd_notify w (p_ID p));
          claim = notice_claim (p_ID p) key
        in if nr_notified row = key then w
           else if notifyHeld claim now (wd_s w) then w
           else (case claimNotify claim (wd_s w) of
               (s', False) \<Rightarrow> w
             | (s', True) \<Rightarrow> w\<lparr>wd_s := s', wd_jobs := wd_jobs w @
                 [Notice \<lparr>jb_outcome = ao\<lparr>ao_TenantID := p_TenantID p, ao_Key := key, ao_PermitID := p_ID p\<rparr>,
                    jb_adminKey = nr_admin row, jb_mark = after\<rparr>]\<rparr>))"

definition notifyUser :: "faults \<Rightarrow> permit \<Rightarrow> apply_outcome \<Rightarrow> string \<Rightarrow> time \<Rightarrow> world \<Rightarrow> world" where
  "notifyUser f p ao key = notifyUserThen f p ao key None"

text \<open>
  What \<open>NotifyApply\<close> answered (how many channels accepted, \<open>-1\<close> for intentionally none, and
  whether somebody was missed) and whether the operator's escalation went out.
\<close>

record delivery =
  dl_delivered :: int
  dl_err :: bool
  dl_admin_ok :: bool

definition deliver_body :: "faults \<Rightarrow> notice_job \<Rightarrow> delivery \<Rightarrow> time \<Rightarrow> world \<Rightarrow> world" where
  "deliver_body f j d now w =
     (let ao = jb_outcome j; pid = ao_PermitID ao; key = ao_Key ao; claim = notice_claim pid key in
      if ft_notifyRead f \<or> nr_notified (wd_notify w pid) = key then w
      else if dl_delivered d \<noteq> 0 \<and> dl_err d then on_sched (holdNotify claim now) (send (UserNotice ao False) w)
      else if dl_delivered d \<noteq> 0 then
        (let w1 = on_sched (releaseNotifyHold claim) (send (UserNotice ao True) w);
             w2 = (if ft_setKey f then raise_alert ''notify-dedup'' now w1 else SetPermitNotifiedKey pid key w1)
         in case jb_mark j of
              None \<Rightarrow> w2
            | Some (plate, urgent) \<Rightarrow> if ft_mark f then w2 else MarkFailureTold pid plate urgent w2)
      else
        (let w1 = on_sched (holdNotify claim now) (send (UserNotice ao False) w) in
         if jb_adminKey j = key then w1
         else if dl_admin_ok d
         then (let w2 = send (AdminUnreached ao) w1 in if ft_setAdmin f then w2 else SetPermitAdminKey pid key w2)
         else w1))"

definition deliver_notice :: "faults \<Rightarrow> notice_job \<Rightarrow> delivery \<Rightarrow> time \<Rightarrow> world \<Rightarrow> world" where
  "deliver_notice f j d now w =
     (let w' = deliver_body f j d now w; ao = jb_outcome j in
      on_sched (releaseNotify (notice_claim (ao_PermitID ao) (ao_Key ao)))
        (w'\<lparr>wd_jobs := remove1 (Notice j) (wd_jobs w')\<rparr>))"

definition alertRelink :: "string \<Rightarrow> string \<Rightarrow> world \<Rightarrow> world" where
  "alertRelink owner tenant w =
     (if \<not> sc_Enabled (wd_s w) then w
      else (case claimNotify (''relink|'' @ owner) (wd_s w) of
          (s', False) \<Rightarrow> w
        | (s', True) \<Rightarrow> w\<lparr>wd_s := s', wd_jobs := wd_jobs w @ [RelinkJob owner tenant]\<rparr>))"

definition alertReconnectStalled :: "string \<Rightarrow> string \<Rightarrow> world \<Rightarrow> world" where
  "alertReconnectStalled owner tenant w =
     (if \<not> sc_Enabled (wd_s w) then w
      else (case claimNotify (''reconnect-stalled|'' @ owner) (wd_s w) of
          (s', False) \<Rightarrow> w
        | (s', True) \<Rightarrow> w\<lparr>wd_s := s', wd_jobs := wd_jobs w @ [StalledJob owner tenant]\<rparr>))"

definition deliver_relink :: "string \<Rightarrow> string \<Rightarrow> bool \<Rightarrow> world \<Rightarrow> world" where
  "deliver_relink owner tenant reached w =
     (let w1 = send (RelinkRequired owner tenant reached) w;
          w2 = (if reached then w1 else send (AdminUnreachedOwner owner) w1)
      in on_sched (releaseNotify (''relink|'' @ owner)) (w2\<lparr>wd_jobs := remove1 (RelinkJob owner tenant) (wd_jobs w2)\<rparr>))"

definition deliver_stalled :: "string \<Rightarrow> string \<Rightarrow> bool \<Rightarrow> world \<Rightarrow> world" where
  "deliver_stalled owner tenant reached w =
     (let w1 = send (ReconnectStalled owner tenant reached) w;
          w2 = (if reached then w1 else send (AdminUnreachedOwner owner) w1)
      in on_sched (releaseNotify (''reconnect-stalled|'' @ owner)) (w2\<lparr>wd_jobs := remove1 (StalledJob owner tenant) (wd_jobs w2)\<rparr>))"

section \<open>Drivers\<close>

text \<open>Whether a driver's address can be written to: a failed check counts as no.\<close>

definition deliverable :: "reads \<Rightarrow> string \<Rightarrow> bool" where
  "deliverable rd addr \<longleftrightarrow> rd_suppressed rd addr = Some False"

definition warnDisplacedHow :: "faults \<Rightarrow> reads \<Rightarrow> displaced_booking \<Rightarrow> string \<Rightarrow> string \<Rightarrow> world \<Rightarrow> world \<times> bool" where
  "warnDisplacedHow f rd d prev how w =
     (if d_Contact d = [] \<or> \<not> sc_Enabled (wd_s w) then (w, False)
      else if \<not> deliverable rd (d_Contact d) then (w, False)
      else if ft_enqueue f then (w, False)
      else (send (DriverDisplaced (d_Contact d) prev how) w, True))"

definition warnDisplaced :: "faults \<Rightarrow> reads \<Rightarrow> displaced_booking \<Rightarrow> string \<Rightarrow> string \<Rightarrow> world \<Rightarrow> world \<times> bool" where
  "warnDisplaced f rd d prev want =
     warnDisplacedHow f rd d prev (if want = [] then ''the permit holder removed your rego''
       else ''the permit holder's schedule set a different rego'')"

type_synonym fleet_vehicles = "((string \<times> int) \<times> vehicle_info) list"

definition notifyAddedDriver :: "faults \<Rightarrow> reads \<Rightarrow> permit \<Rightarrow> string \<Rightarrow> fleet_vehicles \<Rightarrow> world \<Rightarrow> world \<times> string" where
  "notifyAddedDriver f rd p want vehs w =
     (if want = [] \<or> \<not> sc_Enabled (wd_s w) then (w, [])
      else (case find (\<lambda>kv. fst (fst kv) = p_Owner p \<and> same_plate (vi_Registration (snd kv)) want) vehs of
          None \<Rightarrow> (w, [])
        | Some kv \<Rightarrow> (let v = snd kv in
            if vi_Email v = [] \<or> \<not> vi_NotifyDriver v then (w, [])
            else if \<not> deliverable rd (vi_Email v) then (w, [])
            else if ft_enqueue f then (w, [])
            else (send (DriverAdded (vi_Email v) want) w, vi_Email v))))"

definition notifyFailedDriver :: "faults \<Rightarrow> reads \<Rightarrow> permit \<Rightarrow> apply_outcome \<Rightarrow> world \<Rightarrow> world \<times> string" where
  "notifyFailedDriver f rd p ao w =
     (if ao_Reg ao = [] \<or> \<not> sc_Enabled (wd_s w) then (w, [])
      else (case rd_vehicles rd (p_Owner p) of
          None \<Rightarrow> (w, [])
        | Some vs \<Rightarrow> (case find (\<lambda>c. same_plate (v_Registration c) (ao_Reg ao)) vs of
            None \<Rightarrow> (w, [])
          | Some v \<Rightarrow>
              if v_Email v = [] \<or> \<not> v_NotifyDriver v then (w, [])
              else if \<not> deliverable rd (v_Email v) then (w, [])
              else if ft_enqueue f then (w, [])
              else (send (DriverFailed (v_Email v) (ao_Reg ao) (ao_CouncilDown ao)) w, v_Email v))))"

section \<open>The failure episode\<close>

datatype fail_tier = TierSoft | TierUrgent

fun tier_string :: "fail_tier \<Rightarrow> string" where
  "tier_string TierUrgent = ''urgent''"
| "tier_string TierSoft = ''soft''"

definition legacyFailureTold :: "string \<Rightarrow> string \<Rightarrow> string \<Rightarrow> (string \<times> bool) option" where
  "legacyFailureTold key reg tenant =
     (case cut_at (CHR ''|'') key of
        (kind, rest, False) \<Rightarrow> None
      | (kind, rest, True) \<Rightarrow>
          (case cut_at (CHR ''|'') rest of (field2, rest2, _) \<Rightarrow>
            if kind \<in> {''error'', ''rejected'', ''busy'', ''unapplied''}
            then (if same_plate field2 reg then Some (field2, False) else None)
            else if kind \<in> {''busy-blocked'', ''session''}
            then (if same_plate field2 reg then Some (field2, True) else None)
            else if kind = ''fail''
            then (if same_plate field2 reg then Some (field2, has_prefix rest2 ''urgent'') else None)
            else if kind = ''tenant-unavailable''
            then (if tenant \<noteq> [] \<and> field2 = tenant then Some (reg, False) else None)
            else None))"

definition failureNoticeSent :: "faults \<Rightarrow> int \<Rightarrow> string \<Rightarrow> world \<Rightarrow> bool" where
  "failureNoticeSent f pid reg w =
     (let row = wd_notify w pid in
      if \<not> ft_episode f \<and> nr_plate row \<noteq> [] then same_plate (nr_plate row) reg
      else if ft_notifyRead f then False
      else legacyFailureTold (nr_notified row) reg [] \<noteq> None)"

text \<open>What the household has been told, after adopting a notice recorded only as a key.\<close>

definition adopt_told :: "faults \<Rightarrow> permit \<Rightarrow> string \<Rightarrow> world \<Rightarrow> world \<times> string \<times> bool" where
  "adopt_told f p reg w =
     (let row = wd_notify w (p_ID p) in
      if nr_plate row = [] \<and> \<not> ft_notifyRead f
      then (case legacyFailureTold (nr_notified row) reg (p_TenantID p) of
          None \<Rightarrow> (w, nr_plate row, nr_urgent row)
        | Some (plate, urgent) \<Rightarrow>
            (if ft_mark f then w else MarkFailureTold (p_ID p) plate urgent w, plate, urgent))
      else (w, nr_plate row, nr_urgent row))"

definition already_told :: "apply_outcome \<Rightarrow> fail_tier \<Rightarrow> string \<Rightarrow> bool \<Rightarrow> bool" where
  "already_told ao tier told urgent \<longleftrightarrow>
     told \<noteq> [] \<and> ((ao_CouncilDown ao \<or> tier = TierUrgent) \<or> same_plate told (ao_Reg ao))
     \<and> (tier = TierSoft \<or> urgent)"

definition fail_key :: "string \<Rightarrow> fail_tier \<Rightarrow> string" where
  "fail_key reg tier = ''fail|'' @ reg @ ''|'' @ tier_string tier"

definition notifyFailure :: "faults \<Rightarrow> reads \<Rightarrow> permit \<Rightarrow> apply_outcome \<Rightarrow> fail_tier \<Rightarrow> time \<Rightarrow> world \<Rightarrow> world" where
  "notifyFailure f rd p ao tier now w =
     (if ft_episode f then w
      else case adopt_told f p (ao_Reg ao) w of (w1, told, urgent) \<Rightarrow>
        if already_told ao tier told urgent then w1
        else (case (if told = [] \<or> \<not> same_plate told (ao_Reg ao)
                then (case notifyFailedDriver f rd p ao w1 of (w2, addr) \<Rightarrow> (w2, ao\<lparr>ao_DriverTold := addr\<rparr>))
                else (w1, ao)) of (w3, ao3) \<Rightarrow>
          notifyUserThen f p (ao3\<lparr>ao_Urgent := (tier = TierUrgent)\<rparr>) (fail_key (ao_Reg ao) tier)
            (Some (ao_Reg ao, tier = TierUrgent)) now w3))"

definition escalateFailure ::
  "faults \<Rightarrow> reads \<Rightarrow> permit \<Rightarrow> int \<Rightarrow> apply_outcome \<Rightarrow> fail_tier \<Rightarrow> time \<Rightarrow> world \<Rightarrow> world \<times> int" where
  "escalateFailure f rd p threshold ao tier now w =
     (case bumpFailStreak f (p_ID p) w of (w1, n) \<Rightarrow>
        (if threshold \<le> n then notifyFailure f rd p ao tier now w1 else w1, n))"

definition closeFailureEpisode :: "faults \<Rightarrow> int \<Rightarrow> world \<Rightarrow> world \<times> bool" where
  "closeFailureEpisode f pid w =
     (if ft_episode f \<or> nr_plate (wd_notify w pid) = [] then (w, False)
      else (if ft_close f then w else CloseFailureEpisode pid w, True))"

definition failureKeyDay :: "zone \<Rightarrow> time \<Rightarrow> string" where
  "failureKeyDay z now = fmt_date (localday z now)"

section \<open>A failed apply\<close>

fun opWording :: "op \<Rightarrow> string" where
  "opWording OpLogin = ''sign in to your council account''"
| "opWording OpRefresh = ''keep your council sign-in active''"
| "opWording OpListPermits = ''list your permits''"
| "opWording OpReadVehicle = ''read the rego on your permit''"
| "opWording OpSetVehicle = ''change the rego on your permit''"
| "opWording OpAddVehicle = ''put a rego on your permit''"
| "opWording OpClearVehicle = ''remove the rego from your permit''"
| "opWording OpUnknown = ''''"

fun failure_text :: "failure_kind \<Rightarrow> string \<Rightarrow> string \<times> string" where
  "failure_text FailRejected what = (''The council would not let p.stonn '' @ what @ ''.'',
     ''Please check the permit on the council website, or change the rego there yourself. You may also need to link your council account again in p.stonn.'')"
| "failure_text FailUnexpected what =
     (''p.stonn got an unexpected response from the council while trying to '' @ what @ ''.'',
      ''p.stonn will keep trying. If your permit shows the wrong rego, change it on the council website in the meantime.'')"
| "failure_text FailTransient what = (''p.stonn is having trouble reaching the council to '' @ what @ ''.'',
     ''p.stonn will keep trying. If the problem continues, please check your permit on the council website.'')"

definition describeFailure :: "failure_kind \<Rightarrow> op \<Rightarrow> string \<times> string" where
  "describeFailure kind opn =
     failure_text kind (if opWording opn = [] then ''update your permit'' else opWording opn)"

record pass_stats =
  ps_failOwners :: "string list"
  ps_unexpectedOwners :: "string list"
  ps_busyOwners :: "string list"

definition no_stats :: pass_stats where
  "no_stats = \<lparr>ps_failOwners = [], ps_unexpectedOwners = [], ps_busyOwners = []\<rparr>"

definition count_failure :: "string \<Rightarrow> failure_kind \<Rightarrow> pass_stats \<Rightarrow> pass_stats" where
  "count_failure owner kind st = st\<lparr>ps_failOwners := List.insert owner (ps_failOwners st),
     ps_unexpectedOwners := (if kind = FailUnexpected then List.insert owner (ps_unexpectedOwners st)
       else ps_unexpectedOwners st)\<rparr>"

definition handleApplyFailure ::
  "faults \<Rightarrow> reads \<Rightarrow> permit \<Rightarrow> string \<Rightarrow> string \<Rightarrow> string \<Rightarrow> bool \<Rightarrow> err \<Rightarrow> rat \<Rightarrow> time
     \<Rightarrow> world \<times> pass_stats \<Rightarrow> world \<times> pass_stats" where
  "handleApplyFailure f rd p want wantName source isEmpty e u now ws =
     (case (ws, failure_of (Some e)) of ((w, st), (kind, opn)) \<Rightarrow>
      case describeFailure kind opn of (reason, action) \<Rightarrow>
        let w1 = logApply f (p_ID p) want source ''error'' reason w;
            threshold = (if kind = FailRejected then 1 else failNotifyThreshold);
            ao = no_outcome\<lparr>ao_Owner := p_Owner p, ao_PermitLabel := permitLabel p, ao_Reg := want,
              ao_Name := wantName, ao_Empty := isEmpty, ao_CurrentReg := p_ActiveRegistration p,
              ao_Reason := reason,
              ao_Action := (if kind = FailRejected then action @
                '' p.stonn will not retry this change until you edit the schedule or link your council account again.''
                else action),
              ao_Transient := (kind \<noteq> FailRejected)\<rparr>
        in case escalateFailure f rd p threshold ao TierSoft now w1 of (w2, n) \<Rightarrow>
          (on_sched (if kind = FailRejected then parkRetry (p_ID p) want now else deferRetry (p_ID p) n u now) w2,
           count_failure (p_Owner p) kind st))"

definition detectSystemic :: "pass_stats \<Rightarrow> int \<Rightarrow> time \<Rightarrow> world \<Rightarrow> world" where
  "detectSystemic st totalOwners now w =
     (let failN = int (length (ps_failOwners st)); unexpectedN = int (length (ps_unexpectedOwners st));
          busyN = int (length (ps_busyOwners st));
          busySystemic = (3 \<le> busyN \<or> (2 \<le> totalOwners \<and> busyN = totalOwners))
      in if busySystemic \<and> \<not> (2 \<le> unexpectedN \<or> 3 \<le> failN) then raise_alert ''council-busy-block'' now w
         else if \<not> (2 \<le> unexpectedN \<or> 3 \<le> failN \<or> (2 \<le> totalOwners \<and> failN = totalOwners)) then w
         else raise_alert ''multi-user-fail'' now w)"

section \<open>Basic facts\<close>

lemma no_faults_simps [simp]:
  "\<not> ft_episode no_faults" "\<not> ft_notifyRead no_faults" "\<not> ft_mark no_faults" "\<not> ft_close no_faults"
  "\<not> ft_setKey no_faults" "\<not> ft_setAdmin no_faults" "\<not> ft_bump no_faults" "\<not> ft_clear no_faults"
  "\<not> ft_lastApply no_faults" "\<not> ft_recordApply no_faults" "\<not> ft_reread no_faults"
  "\<not> ft_settleRead no_faults" "\<not> ft_commit no_faults" "\<not> ft_enqueue no_faults"
  by (simp_all add: no_faults_def)

lemma world_simps [state_simps, simp]:
  "wd_s (on_sched g w) = g (wd_s w)" "wd_notify (on_sched g w) = wd_notify w" "wd_jobs (on_sched g w) = wd_jobs w"
  "wd_sent (on_sched g w) = wd_sent w" "wd_permits (on_sched g w) = wd_permits w" "wd_log (on_sched g w) = wd_log w"
  "wd_s (send m w) = wd_s w" "wd_notify (send m w) = wd_notify w" "wd_jobs (send m w) = wd_jobs w"
  "wd_sent (send m w) = m # wd_sent w" "wd_permits (send m w) = wd_permits w" "wd_log (send m w) = wd_log w"
  "wd_s (on_row pid h w) = wd_s w" "wd_jobs (on_row pid h w) = wd_jobs w" "wd_sent (on_row pid h w) = wd_sent w"
  "wd_permits (on_row pid h w) = wd_permits w" "wd_log (on_row pid h w) = wd_log w"
  "wd_notify (on_row pid h w) = (wd_notify w)(pid := h (wd_notify w pid))"
  by (simp_all add: on_sched_def send_def on_row_def)

lemma notice_claim_inj: "notice_claim pid k = notice_claim pid k' \<longleftrightarrow> k = k'"
  by (simp add: notice_claim_def)

lemma fail_key_inj: "fail_key reg t = fail_key reg t' \<longleftrightarrow> t = t'"
  by (cases t; cases t') (auto simp: fail_key_def)

definition put_hold :: "string \<Rightarrow> time \<Rightarrow> scheduler \<Rightarrow> scheduler" where
  "put_hold claim t s = s\<lparr>sc_notifyRetryAt := (sc_notifyRetryAt s)(claim \<mapsto> t)\<rparr>"

interpretation notice_hold: backoff_table sc_notifyRetryAt put_hold releaseNotifyHold notifyHeld
  by unfold_locales
    (auto simp: notifyHeld_def held_def put_hold_def releaseNotifyHold_def split: option.splits)

text \<open>The sweep forgets only what has expired, so it never frees a held claim.\<close>

lemma holdNotify_held:
  assumes "0 < sc_notifyRetry s" and "now \<le> t"
  shows "notifyHeld c t (holdNotify claim now s)
    \<longleftrightarrow> (if c = claim then t < now + sc_notifyRetry s else notifyHeld c t s)"
proof -
  have "\<not> t < d" if "hour < tsub now d" for d
    using tsub_gt_iff [of hour now d] that assms(2) by (auto simp: min_dur_def max_dur_def time_simps)
  then show ?thesis using assms(1)
    by (auto simp: notifyHeld_def holdNotify_def sweep_holds_def split: option.splits)
qed

lemma notifyUserThen_cases:
  obtains "notifyUserThen f p ao key after now w = w"
  | j where "sc_Enabled (wd_s w)" and "notice_claim (p_ID p) key \<notin> sc_notifyInFlight (wd_s w)"
      and "ao_PermitID (jb_outcome j) = p_ID p" and "ao_Key (jb_outcome j) = key" and "jb_mark j = after"
      and "notifyUserThen f p ao key after now w = w\<lparr>wd_s := (wd_s w)\<lparr>sc_notifyInFlight :=
             insert (notice_claim (p_ID p) key) (sc_notifyInFlight (wd_s w))\<rparr>, wd_jobs := wd_jobs w @ [Notice j]\<rparr>"
proof -
  define row where "row = (if ft_notifyRead f then no_row else wd_notify w (p_ID p))"
  define j where "j = \<lparr>jb_outcome = ao\<lparr>ao_TenantID := p_TenantID p, ao_Key := key, ao_PermitID := p_ID p\<rparr>,
    jb_adminKey = nr_admin row, jb_mark = after\<rparr>"
  show thesis
  proof (cases "\<not> sc_Enabled (wd_s w) \<or> nr_notified row = key
      \<or> notifyHeld (notice_claim (p_ID p) key) now (wd_s w)
      \<or> notice_claim (p_ID p) key \<in> sc_notifyInFlight (wd_s w)")
    case True
    then have "notifyUserThen f p ao key after now w = w"
      by (auto simp: notifyUserThen_def claimNotify_def Let_def row_def)
    then show ?thesis by (rule that(1))
  next
    case False
    then show ?thesis
      by (intro that(2) [of j]) (auto simp: notifyUserThen_def claimNotify_def Let_def row_def j_def)
  qed
qed

lemma notifyFailedDriver_frame:
  assumes "notifyFailedDriver f rd p ao w = (w', addr)"
  shows "wd_s w' = wd_s w \<and> wd_notify w' = wd_notify w \<and> wd_jobs w' = wd_jobs w \<and> wd_permits w' = wd_permits w
    \<and> (\<exists>ms. wd_sent w' = ms @ wd_sent w \<and> (\<forall>m \<in> set ms. \<exists>a r d. m = DriverFailed a r d))"
  using assms
  by (auto simp: notifyFailedDriver_def Let_def split: if_splits option.splits intro: exI [of _ "[]"])

section \<open>The episode under every interleaving\<close>

datatype notice_op = NFail apply_outcome fail_tier time | NDeliver notice_job delivery time

fun notice_step :: "faults \<Rightarrow> reads \<Rightarrow> permit \<Rightarrow> world \<Rightarrow> notice_op \<Rightarrow> world" where
  "notice_step f rd p w (NFail ao tier now) = notifyFailure f rd p ao tier now w"
| "notice_step f rd p w (NDeliver j d now) =
     (if Notice j \<in> set (wd_jobs w) then deliver_notice f j d now w else w)"

definition is_told :: "int \<Rightarrow> string \<Rightarrow> message \<Rightarrow> bool" where
  "is_told pid key m = (case m of UserNotice ao whole \<Rightarrow> whole \<and> ao_PermitID ao = pid \<and> ao_Key ao = key | _ \<Rightarrow> False)"

definition is_job :: "int \<Rightarrow> string \<Rightarrow> job \<Rightarrow> bool" where
  "is_job pid key x = (case x of Notice j \<Rightarrow> ao_PermitID (jb_outcome j) = pid \<and> ao_Key (jb_outcome j) = key | _ \<Rightarrow> False)"

text \<open>How often the household was completely told, and how many such deliveries are in flight.\<close>

definition told_times :: "world \<Rightarrow> int \<Rightarrow> string \<Rightarrow> nat" where
  "told_times w pid key = length (filter (is_told pid key) (wd_sent w))"

definition job_times :: "world \<Rightarrow> int \<Rightarrow> string \<Rightarrow> nat" where
  "job_times w pid key = length (filter (is_job pid key) (wd_jobs w))"

definition episode_inv :: "int \<Rightarrow> string \<Rightarrow> world \<Rightarrow> bool" where
  "episode_inv pid A w \<longleftrightarrow>
     (\<forall>x \<in> set (wd_jobs w). \<exists>j tier. x = Notice j \<and> ao_PermitID (jb_outcome j) = pid
        \<and> ao_Key (jb_outcome j) = fail_key A tier \<and> jb_mark j = Some (A, tier = TierUrgent)
        \<and> notice_claim pid (fail_key A tier) \<in> sc_notifyInFlight (wd_s w))
     \<and> (\<forall>tier. told_times w pid (fail_key A tier) + job_times w pid (fail_key A tier) \<le> 1
          \<and> (0 < told_times w pid (fail_key A tier) \<longrightarrow>
               nr_plate (wd_notify w pid) = A \<and> (tier = TierUrgent \<longrightarrow> nr_urgent (wd_notify w pid))))"

lemma adopt_told_plate:
  assumes "adopt_told f p A w = (w1, told, urgent)" and "nr_plate (wd_notify w (p_ID p)) \<noteq> []"
  shows "w1 = w \<and> told = nr_plate (wd_notify w (p_ID p)) \<and> urgent = nr_urgent (wd_notify w (p_ID p))"
  using assms by (auto simp: adopt_told_def Let_def)

lemma adopt_told_frame:
  assumes "adopt_told f p A w = (w1, told, urgent)"
  shows "wd_s w1 = wd_s w \<and> wd_jobs w1 = wd_jobs w \<and> wd_sent w1 = wd_sent w"
  using assms by (auto simp: adopt_told_def Let_def MarkFailureTold_def split: option.splits if_splits)

lemma times_cong:
  "wd_jobs w = wd_jobs w' \<Longrightarrow> job_times w pid key = job_times w' pid key"
  "wd_sent w = wd_sent w' \<Longrightarrow> told_times w pid key = told_times w' pid key"
  by (simp_all add: job_times_def told_times_def)

lemma told_times_drivers:
  assumes "wd_sent w' = ms @ wd_sent w" and "\<forall>m \<in> set ms. \<exists>a r d. m = DriverFailed a r d"
  shows "told_times w' pid key = told_times w pid key"
proof -
  have "filter (is_told pid key) ms = []" using assms(2) by (induction ms) (auto simp: is_told_def)
  then show ?thesis by (simp add: told_times_def assms(1))
qed

text \<open>The part of \<open>notifyFailure\<close> before the launch only adopts and writes to the driver.\<close>

lemma notifyFailure_cases:
  obtains (Quiet) w1 where "notifyFailure f rd p ao tier now w = w1" and "wd_s w1 = wd_s w" and "wd_jobs w1 = wd_jobs w"
      and "wd_sent w1 = wd_sent w"
      and "nr_plate (wd_notify w (p_ID p)) \<noteq> [] \<Longrightarrow> wd_notify w1 = wd_notify w"
  | (Launch) w1 ao' where
      "notifyFailure f rd p ao tier now w =
         notifyUserThen f p ao' (fail_key (ao_Reg ao) tier) (Some (ao_Reg ao, tier = TierUrgent)) now w1"
      and "wd_s w1 = wd_s w" and "wd_jobs w1 = wd_jobs w"
      and "\<And>pid key. told_times w1 pid key = told_times w pid key"
      and "nr_plate (wd_notify w (p_ID p)) \<noteq> [] \<Longrightarrow> wd_notify w1 = wd_notify w
         \<and> \<not> already_told ao tier (nr_plate (wd_notify w (p_ID p))) (nr_urgent (wd_notify w (p_ID p)))"
proof -
  obtain w1 told urgent where a: "adopt_told f p (ao_Reg ao) w = (w1, told, urgent)"
    by (metis surj_pair)
  note fr = adopt_told_frame [OF a]
  note pl = adopt_told_plate [OF a]
  show thesis
  proof (cases "ft_episode f \<or> already_told ao tier told urgent")
    case True
    then consider "ft_episode f" | "\<not> ft_episode f" "already_told ao tier told urgent" by blast
    then show ?thesis
    proof cases
      case 1
      then show ?thesis by (intro Quiet [of w]) (simp_all add: notifyFailure_def)
    next
      case 2
      then show ?thesis using fr pl by (intro Quiet [of w1]) (simp_all add: notifyFailure_def a)
    qed
  next
    case False
    then have na: "\<not> ft_episode f" "\<not> already_told ao tier told urgent" by simp_all
    show ?thesis
    proof (cases "told = [] \<or> \<not> same_plate told (ao_Reg ao)")
      case True
      obtain w2 addr where d: "notifyFailedDriver f rd p ao w1 = (w2, addr)" by (metis surj_pair)
      from notifyFailedDriver_frame [OF d] obtain ms where
        ms: "wd_sent w2 = ms @ wd_sent w1" "\<forall>m \<in> set ms. \<exists>a r d. m = DriverFailed a r d" by blast
      show ?thesis using na True d fr pl notifyFailedDriver_frame [OF d] told_times_drivers [OF ms]
          times_cong(2) [of w1 w]
        by (intro Launch [of _ w2]) (simp_all add: notifyFailure_def a)
    next
      case False
      then show ?thesis using na fr pl times_cong(2) [of w1 w]
        by (intro Launch [of _ w1]) (simp_all add: notifyFailure_def a)
    qed
  qed
qed

lemma episode_invD:
  assumes "episode_inv pid A w"
  shows "x \<in> set (wd_jobs w) \<Longrightarrow> \<exists>j tier. x = Notice j \<and> ao_PermitID (jb_outcome j) = pid
        \<and> ao_Key (jb_outcome j) = fail_key A tier \<and> jb_mark j = Some (A, tier = TierUrgent)
        \<and> notice_claim pid (fail_key A tier) \<in> sc_notifyInFlight (wd_s w)"
    and "told_times w pid (fail_key A tier) + job_times w pid (fail_key A tier) \<le> 1"
    and "0 < told_times w pid (fail_key A tier) \<Longrightarrow> nr_plate (wd_notify w pid) = A"
    and "0 < told_times w pid (fail_key A TierUrgent) \<Longrightarrow> nr_urgent (wd_notify w pid)"
  using assms by (auto simp: episode_inv_def)

lemma episode_inv_cong:
  assumes "episode_inv pid A w" and "wd_s w' = wd_s w" and "wd_jobs w' = wd_jobs w"
    and "\<And>key. told_times w' pid key = told_times w pid key"
    and "nr_plate (wd_notify w pid) \<noteq> [] \<Longrightarrow> wd_notify w' = wd_notify w" and "A \<noteq> []"
  shows "episode_inv pid A w'"
  using assms times_cong(1) [OF assms(3)] unfolding episode_inv_def by fastforce

lemma already_told_same:
  assumes "A \<noteq> []" and "ao_Reg ao = A" and "tier = TierUrgent \<longrightarrow> urgent"
  shows "already_told ao tier A urgent"
  using assms by (cases tier) (auto simp: already_told_def)

lemma no_job_if_free:
  assumes "episode_inv pid A w" and "notice_claim pid (fail_key A tier) \<notin> sc_notifyInFlight (wd_s w)"
  shows "job_times w pid (fail_key A tier) = 0"
proof -
  have "\<not> is_job pid (fail_key A tier) x" if "x \<in> set (wd_jobs w)" for x
    using episode_invD(1) [OF assms(1) that] assms(2) by (auto simp: is_job_def)
  then show ?thesis by (simp add: job_times_def)
qed

lemma episode_inv_fail:
  assumes inv: "episode_inv (p_ID p) A w" and A: "A \<noteq> []" and reg: "ao_Reg ao = A"
  shows "episode_inv (p_ID p) A (notifyFailure f rd p ao tier now w)"
proof (cases rule: notifyFailure_cases [of f rd p ao tier now w])
  case (Quiet w1)
  then show ?thesis using episode_inv_cong [OF inv _ _ _ _ A, of w1] times_cong(2) [of w1 w] by simp
next
  case (Launch w1 ao')
  let ?pid = "p_ID p" and ?key = "fail_key A tier"
  have inv1: "episode_inv ?pid A w1" using Launch by (intro episode_inv_cong [OF inv _ _ _ _ A]) simp_all
  show ?thesis
  proof (cases rule: notifyUserThen_cases [of f p ao' ?key "Some (A, tier = TierUrgent)" now w1])
    case 1
    then show ?thesis using Launch(1) inv1 reg by simp
  next
    case (2 j)
    define w2 where "w2 = notifyFailure f rd p ao tier now w"
    have w2: "w2 = w1\<lparr>wd_s := (wd_s w1)\<lparr>sc_notifyInFlight := insert (notice_claim ?pid ?key) (sc_notifyInFlight (wd_s w1))\<rparr>,
        wd_jobs := wd_jobs w1 @ [Notice j]\<rparr>"
      using Launch(1) 2 reg by (simp add: w2_def)
    have untold: "told_times w1 ?pid ?key = 0"
    proof (rule ccontr)
      assume "told_times w1 ?pid ?key \<noteq> 0"
      then have "0 < told_times w ?pid ?key" using Launch(4) by simp
      then have "nr_plate (wd_notify w ?pid) = A" "tier = TierUrgent \<longrightarrow> nr_urgent (wd_notify w ?pid)"
        using episode_invD(3,4) [OF inv] by blast+
      then show False using Launch(5) A already_told_same [OF A reg] by simp
    qed
    have free: "job_times w1 ?pid ?key = 0" using no_job_if_free [OF inv1] 2(2) by simp
    have j: "job_times w2 ?pid key = job_times w1 ?pid key + (if key = ?key then 1 else 0)" for key
      using 2 by (simp add: w2 job_times_def is_job_def)
    have t: "told_times w2 ?pid key = told_times w1 ?pid key" for key by (simp add: w2 told_times_def)
    have n: "wd_notify w2 = wd_notify w1" by (simp add: w2)
    have "\<forall>x \<in> set (wd_jobs w2). \<exists>j tier. x = Notice j \<and> ao_PermitID (jb_outcome j) = ?pid
        \<and> ao_Key (jb_outcome j) = fail_key A tier \<and> jb_mark j = Some (A, tier = TierUrgent)
        \<and> notice_claim ?pid (fail_key A tier) \<in> sc_notifyInFlight (wd_s w2)"
      using episode_invD(1) [OF inv1] 2 by (fastforce simp: w2)
    moreover have "told_times w2 ?pid (fail_key A t') + job_times w2 ?pid (fail_key A t') \<le> 1
        \<and> (0 < told_times w2 ?pid (fail_key A t') \<longrightarrow>
             nr_plate (wd_notify w2 ?pid) = A \<and> (t' = TierUrgent \<longrightarrow> nr_urgent (wd_notify w2 ?pid)))" for t'
    proof (cases "t' = tier")
      case True
      then show ?thesis using untold free by (simp add: j t)
    next
      case False
      then show ?thesis using episode_invD(2-4) [OF inv1] by (auto simp: j t n fail_key_inj)
    qed
    ultimately show ?thesis unfolding w2_def [symmetric] episode_inv_def by blast
  qed
qed

lemma length_filter_remove1:
  "x \<in> set xs \<Longrightarrow> length (filter P (remove1 x xs)) = length (filter P xs) - (if P x then 1 else 0)"
  by (simp add: filter_remove1 length_remove1)

lemma told_times_simps [simp]:
  "told_times (on_sched g w) pid key = told_times w pid key"
  "told_times (on_row pid' h w) pid key = told_times w pid key"
  "told_times (w\<lparr>wd_jobs := js\<rparr>) pid key = told_times w pid key"
  "told_times (send m w) pid key = told_times w pid key + (if is_told pid key m then 1 else 0)"
  by (simp_all add: told_times_def)

lemma deliver_body_jobs: "wd_jobs (deliver_body f j d now w) = wd_jobs w"
  by (auto simp: deliver_body_def Let_def SetPermitNotifiedKey_def SetPermitAdminKey_def MarkFailureTold_def
      raise_alert_def split: option.splits prod.splits bool.splits)

lemma raise_alert_frame:
  "wd_notify (raise_alert key now w) = wd_notify w \<and> wd_jobs (raise_alert key now w) = wd_jobs w
   \<and> sc_notifyInFlight (wd_s (raise_alert key now w)) = sc_notifyInFlight (wd_s w)
   \<and> told_times (raise_alert key now w) pid k = told_times w pid k \<and> wd_permits (raise_alert key now w) = wd_permits w"
  by (auto simp: raise_alert_def systemAlert_def systemAlertEvery_def Let_def told_times_def is_told_def
      split: prod.splits bool.splits if_splits)

lemma deliver_body_inflight [simp]:
  "sc_notifyInFlight (wd_s (deliver_body f j d now w)) = sc_notifyInFlight (wd_s w)"
  by (auto simp: deliver_body_def Let_def SetPermitNotifiedKey_def SetPermitAdminKey_def MarkFailureTold_def
      raise_alert_frame holdNotify_def releaseNotifyHold_def split: option.splits)

lemma deliver_body_told:
  assumes "jb_mark j = Some (A, urgent)" and "ao_PermitID (jb_outcome j) = pid" and "\<not> ft_mark f"
  obtains a where "wd_notify (deliver_body f j d now w) pid = (wd_notify w pid)\<lparr>nr_admin := a\<rparr>"
      and "\<And>key. told_times (deliver_body f j d now w) pid key = told_times w pid key"
  | "nr_plate (wd_notify (deliver_body f j d now w) pid) = A"
      and "nr_urgent (wd_notify (deliver_body f j d now w) pid)
         = (if nr_plate (wd_notify w pid) = A then nr_urgent (wd_notify w pid) \<or> urgent else urgent)"
      and "\<And>key. told_times (deliver_body f j d now w) pid key
         = told_times w pid key + (if key = ao_Key (jb_outcome j) then 1 else 0)"
proof -
  let ?w = "deliver_body f j d now w"
  consider "ft_notifyRead f \<or> nr_notified (wd_notify w pid) = ao_Key (jb_outcome j)"
    | "\<not> (ft_notifyRead f \<or> nr_notified (wd_notify w pid) = ao_Key (jb_outcome j))" "dl_delivered d \<noteq> 0" "\<not> dl_err d"
    | "\<not> (ft_notifyRead f \<or> nr_notified (wd_notify w pid) = ao_Key (jb_outcome j))" "dl_delivered d = 0 \<or> dl_err d"
    by blast
  then show thesis
  proof cases
    case 1
    then have "?w = w" using assms(2) by (auto simp: deliver_body_def Let_def)
    then show ?thesis using that(1) [of "nr_admin (wd_notify w pid)"] by simp
  next
    case 2
    then show ?thesis using assms
      by (intro that(2)) (auto simp: deliver_body_def Let_def SetPermitNotifiedKey_def MarkFailureTold_def
          raise_alert_frame is_told_def)
  next
    case 3
    then have "wd_notify ?w pid = wd_notify w pid \<or> wd_notify ?w pid = (wd_notify w pid)\<lparr>nr_admin := ao_Key (jb_outcome j)\<rparr>"
      using assms by (auto simp: deliver_body_def Let_def SetPermitAdminKey_def)
    moreover have "told_times ?w pid key = told_times w pid key" for key
      using 3 assms by (auto simp: deliver_body_def Let_def SetPermitAdminKey_def is_told_def)
    moreover have "wd_notify w pid = (wd_notify w pid)\<lparr>nr_admin := nr_admin (wd_notify w pid)\<rparr>" by simp
    ultimately show ?thesis using that(1) by metis
  qed
qed

lemma episode_inv_deliver:
  assumes inv: "episode_inv pid A w" and j: "Notice j \<in> set (wd_jobs w)" and mk: "\<not> ft_mark f"
  shows "episode_inv pid A (deliver_notice f j d now w)"
proof -
  from episode_invD(1) [OF inv j] obtain tier where
    t: "ao_PermitID (jb_outcome j) = pid" "ao_Key (jb_outcome j) = fail_key A tier"
      "jb_mark j = Some (A, tier = TierUrgent)" by auto
  define wb where "wb = deliver_body f j d now w"
  define w' where "w' = deliver_notice f j d now w"
  let ?key = "fail_key A tier"
  have w': "wd_notify w' = wd_notify wb" "wd_jobs w' = remove1 (Notice j) (wd_jobs w)"
    "sc_notifyInFlight (wd_s w') = sc_notifyInFlight (wd_s w) - {notice_claim pid ?key}"
    "told_times w' pid key = told_times wb pid key" for key
    by (simp_all add: w'_def deliver_notice_def Let_def t deliver_body_jobs releaseNotify_def wb_def)
  have isj: "is_job pid key (Notice j) \<longleftrightarrow> key = ?key" for key using t by (auto simp: is_job_def)
  have jt: "job_times w' pid key = job_times w pid key - (if key = ?key then 1 else 0)" for key
    using j by (simp add: job_times_def w' length_filter_remove1 isj)
  have "0 < job_times w pid ?key" using j isj [of ?key] by (force simp: job_times_def filter_empty_conv)
  then have one: "job_times w pid ?key = 1" "told_times w pid ?key = 0"
    using episode_invD(2) [OF inv, of tier] by simp_all
  have jobs: "\<exists>j' t'. x = Notice j' \<and> ao_PermitID (jb_outcome j') = pid \<and> ao_Key (jb_outcome j') = fail_key A t'
      \<and> jb_mark j' = Some (A, t' = TierUrgent) \<and> notice_claim pid (fail_key A t') \<in> sc_notifyInFlight (wd_s w')"
    if x: "x \<in> set (wd_jobs w')" for x
  proof -
    have "x \<in> set (wd_jobs w)" using x notin_set_remove1 [of x "wd_jobs w" "Notice j"] unfolding w'(2) by blast
    from episode_invD(1) [OF inv this] obtain j' t' where
      j': "x = Notice j'" "ao_PermitID (jb_outcome j') = pid" "ao_Key (jb_outcome j') = fail_key A t'"
        "jb_mark j' = Some (A, t' = TierUrgent)" "notice_claim pid (fail_key A t') \<in> sc_notifyInFlight (wd_s w)"
      by blast
    have "t' \<noteq> tier"
    proof
      assume "t' = tier"
      then have "is_job pid ?key x" using j' by (simp add: is_job_def)
      then have "0 < job_times w' pid ?key" using x by (force simp: job_times_def filter_empty_conv)
      then show False using jt [of ?key] one by simp
    qed
    then have "notice_claim pid (fail_key A t') \<in> sc_notifyInFlight (wd_s w')"
      using j'(5) by (simp add: w'(3) notice_claim_inj fail_key_inj)
    then show ?thesis using j'(1-4) by blast
  qed
  have "told_times w' pid (fail_key A t') + job_times w' pid (fail_key A t') \<le> 1
      \<and> (0 < told_times w' pid (fail_key A t') \<longrightarrow>
           nr_plate (wd_notify w' pid) = A \<and> (t' = TierUrgent \<longrightarrow> nr_urgent (wd_notify w' pid)))" for t'
  proof -
    note old = episode_invD(2-4) [OF inv]
    show ?thesis
    proof (cases rule: deliver_body_told [OF t(3,1) mk, of d now w])
      case (1 a)
      then have "told_times w' pid k = told_times w pid k" for k using w' by (simp add: wb_def)
      moreover have "nr_plate (wd_notify w' pid) = nr_plate (wd_notify w pid)"
        "nr_urgent (wd_notify w' pid) = nr_urgent (wd_notify w pid)" using 1 w' by (simp_all add: wb_def)
      ultimately show ?thesis using old one by (auto simp: jt fail_key_inj)
    next
      case 2
      then have tt: "told_times w' pid k = told_times w pid k + (if k = ?key then 1 else 0)" for k
        using w' t by (simp add: wb_def)
      have n: "nr_plate (wd_notify w' pid) = A"
        "nr_urgent (wd_notify w' pid) = (if nr_plate (wd_notify w pid) = A
           then nr_urgent (wd_notify w pid) \<or> tier = TierUrgent else tier = TierUrgent)"
        using 2 w' by (simp_all add: wb_def)
      show ?thesis
      proof (cases "t' = tier")
        case True
        then show ?thesis using one n by (simp add: jt tt)
      next
        case False
        then show ?thesis using old n by (auto simp: jt tt fail_key_inj)
      qed
    qed
  qed
  then show ?thesis using jobs unfolding w'_def [symmetric] episode_inv_def by blast
qed

definition about_plate :: "string \<Rightarrow> notice_op \<Rightarrow> bool" where
  "about_plate A x \<longleftrightarrow> (case x of NFail ao tier now \<Rightarrow> ao_Reg ao = A | NDeliver j d now \<Rightarrow> True)"

lemma episode_inv_run:
  assumes "episode_inv (p_ID p) A w" and "A \<noteq> []" and "\<not> ft_mark f" and "list_all (about_plate A) xs"
  shows "episode_inv (p_ID p) A (foldl (notice_step f rd p) w xs)"
  using assms
proof (induction xs arbitrary: w)
  case (Cons x xs)
  have "episode_inv (p_ID p) A (notice_step f rd p w x)"
    using Cons.prems by (cases x) (auto simp: about_plate_def episode_inv_fail episode_inv_deliver)
  then show ?case using Cons by simp
qed simp

section \<open>Properties of the notices\<close>

text \<open>C10: However the failures of one plate flap between tiers and causes, and however their
  deliveries interleave with them, arrive late, reach nobody or only some members and are retried,
  the household gets at most one complete delivery at each tier. The statement is about one plate
  that is not empty (for the empty one see \<open>clearing_failures_flip_flop\<close>), over failures of it and
  deliveries with no success in between, and asks that the store's mark on the episode does not
  fail; partial deliveries are not counted, they are retried.\<close>

theorem one_notice_per_tier_and_episode:
  assumes "wd_jobs w = []" and "wd_sent w = []" and "A \<noteq> []" and "\<not> ft_mark f" and "list_all (about_plate A) xs"
  shows "told_times (foldl (notice_step f rd p) w xs) (p_ID p) (fail_key A tier) \<le> 1"
proof -
  have "episode_inv (p_ID p) A w" using assms(1,2) by (simp add: episode_inv_def job_times_def told_times_def)
  then show ?thesis using episode_invD(2) [OF episode_inv_run [OF _ assms(3-5)]] add_leE by blast
qed

lemma job_times_append: "wd_jobs w' = wd_jobs w @ [Notice j] \<Longrightarrow>
    job_times w' pid key = job_times w pid key + (if is_job pid key (Notice j) then 1 else 0)"
  by (simp add: job_times_def)

lemma notifyUserThen_launches:
  assumes "sc_Enabled (wd_s w)" and "nr_notified (wd_notify w (p_ID p)) \<noteq> key" and "\<not> ft_notifyRead f"
    and "\<not> notifyHeld (notice_claim (p_ID p) key) now (wd_s w)"
    and "notice_claim (p_ID p) key \<notin> sc_notifyInFlight (wd_s w)"
  shows "notifyUserThen f p ao key after now w = w\<lparr>wd_s := (wd_s w)\<lparr>sc_notifyInFlight :=
       insert (notice_claim (p_ID p) key) (sc_notifyInFlight (wd_s w))\<rparr>, wd_jobs := wd_jobs w @
       [Notice \<lparr>jb_outcome = ao\<lparr>ao_TenantID := p_TenantID p, ao_Key := key, ao_PermitID := p_ID p\<rparr>,
          jb_adminKey = nr_admin (wd_notify w (p_ID p)), jb_mark = after\<rparr>]\<rparr>"
  using assms by (simp add: notifyUserThen_def claimNotify_def Let_def)

text \<open>Within an open episode the cause never re-triggers a notice: a council outage is silent
  whatever plate is due, an urgent notice is not repeated for any plate and never followed by a
  softer one about it; only an ordinary failure of a different plate is news, and that is told.\<close>

theorem episode_decides_what_is_told:
  assumes "nr_plate (wd_notify w (p_ID p)) \<noteq> []"
  shows "(ao_CouncilDown ao \<longrightarrow> notifyFailure f rd p ao TierSoft now w = w)
    \<and> (nr_urgent (wd_notify w (p_ID p)) \<longrightarrow> notifyFailure f rd p ao TierUrgent now w = w)
    \<and> (same_plate (nr_plate (wd_notify w (p_ID p))) (ao_Reg ao) \<longrightarrow> notifyFailure f rd p ao TierSoft now w = w)
    \<and> (\<not> ao_CouncilDown ao \<and> \<not> same_plate (nr_plate (wd_notify w (p_ID p))) (ao_Reg ao)
        \<and> \<not> ft_episode f \<and> \<not> ft_notifyRead f \<and> sc_Enabled (wd_s w)
        \<and> nr_notified (wd_notify w (p_ID p)) \<noteq> fail_key (ao_Reg ao) TierSoft
        \<and> \<not> notifyHeld (notice_claim (p_ID p) (fail_key (ao_Reg ao) TierSoft)) now (wd_s w)
        \<and> notice_claim (p_ID p) (fail_key (ao_Reg ao) TierSoft) \<notin> sc_notifyInFlight (wd_s w) \<longrightarrow>
        job_times (notifyFailure f rd p ao TierSoft now w) (p_ID p) (fail_key (ao_Reg ao) TierSoft)
          = job_times w (p_ID p) (fail_key (ao_Reg ao) TierSoft) + 1)"
proof -
  let ?r = "wd_notify w (p_ID p)" and ?key = "fail_key (ao_Reg ao) TierSoft"
  have a: "adopt_told f p (ao_Reg ao) w = (w, nr_plate ?r, nr_urgent ?r)"
    using assms by (simp add: adopt_told_def Let_def)
  have quiet: "already_told ao tier (nr_plate ?r) (nr_urgent ?r) \<Longrightarrow> notifyFailure f rd p ao tier now w = w" for tier
    by (simp add: notifyFailure_def a)
  have "job_times (notifyFailure f rd p ao TierSoft now w) (p_ID p) ?key = job_times w (p_ID p) ?key + 1"
    if c: "\<not> ao_CouncilDown ao" "\<not> same_plate (nr_plate ?r) (ao_Reg ao)"
        "\<not> ft_episode f" "\<not> ft_notifyRead f" "sc_Enabled (wd_s w)" "nr_notified ?r \<noteq> ?key"
        "\<not> notifyHeld (notice_claim (p_ID p) ?key) now (wd_s w)"
        "notice_claim (p_ID p) ?key \<notin> sc_notifyInFlight (wd_s w)"
  proof -
    obtain w2 addr where d: "notifyFailedDriver f rd p ao w = (w2, addr)" by (metis surj_pair)
    note fr = notifyFailedDriver_frame [OF d]
    have "notifyFailure f rd p ao TierSoft now w = notifyUserThen f p (ao\<lparr>ao_DriverTold := addr, ao_Urgent := False\<rparr>) ?key
        (Some (ao_Reg ao, False)) now w2"
      using c by (simp add: notifyFailure_def a d already_told_def)
    then show ?thesis using c fr notifyUserThen_launches [of w2 p ?key f now]
      by (simp add: job_times_def is_job_def)
  qed
  then show ?thesis using quiet assms by (auto simp: already_told_def)
qed

text \<open>C39: A notice that reached nobody, or not everyone, is retried, and not before the hold has run
  out; one that was completely delivered is not sent again.\<close>

theorem undelivered_notices_are_retried:
  assumes "p_ID p = ao_PermitID (jb_outcome j)" and "key = ao_Key (jb_outcome j)"
    and "\<not> ft_notifyRead f" and "\<not> ft_setKey f" and "nr_notified (wd_notify w (p_ID p)) \<noteq> key"
    and "sc_Enabled (wd_s w)" and "0 < sc_notifyRetry (wd_s w)" and "t \<le> t'"
  shows "notifyUserThen f p ao key mark t' (deliver_notice f j d t w) = deliver_notice f j d t w
     \<longleftrightarrow> (if dl_delivered d \<noteq> 0 \<and> \<not> dl_err d then True else t' < t + sc_notifyRetry (wd_s w))"
proof -
  define w' where "w' = deliver_notice f j d t w"
  define claim where "claim = notice_claim (p_ID p) key"
  have body: "w' = on_sched (releaseNotify claim) ((deliver_body f j d t w)\<lparr>wd_jobs := remove1 (Notice j) (wd_jobs w)\<rparr>)"
    using assms(1,2) by (simp add: w'_def claim_def deliver_notice_def Let_def deliver_body_jobs)
  have free: "claim \<notin> sc_notifyInFlight (wd_s w')" by (simp add: body releaseNotify_def)
  show ?thesis
  proof (cases "dl_delivered d \<noteq> 0 \<and> \<not> dl_err d")
    case True
    then have "nr_notified (wd_notify (deliver_body f j d t w) (p_ID p)) = key"
      using assms(1-5) by (simp add: deliver_body_def Let_def SetPermitNotifiedKey_def
          MarkFailureTold_def split: option.split)
    then have "nr_notified (wd_notify w' (p_ID p)) = key" by (simp add: body)
    then have "notifyUserThen f p ao key mark t' w' = w'" using assms(3) by (simp add: notifyUserThen_def Let_def)
    then show ?thesis using True by (simp add: w'_def)
  next
    case False
    note undelivered = False
    then have "nr_notified (wd_notify (deliver_body f j d t w) (p_ID p)) = nr_notified (wd_notify w (p_ID p))"
      and "wd_s (deliver_body f j d t w) = holdNotify claim t (wd_s w)"
      using assms(1-5) by (auto simp: deliver_body_def Let_def SetPermitAdminKey_def claim_def)
    then have n: "nr_notified (wd_notify w' (p_ID p)) \<noteq> key" and en: "sc_Enabled (wd_s w')"
      and "sc_notifyRetryAt (wd_s w') = sc_notifyRetryAt (holdNotify claim t (wd_s w))"
      using assms(5,6) by (auto simp: body releaseNotify_def holdNotify_def)
    then have held: "notifyHeld claim t' (wd_s w') \<longleftrightarrow> t' < t + sc_notifyRetry (wd_s w)"
      using holdNotify_held [OF assms(7,8), of claim claim] by (simp add: notifyHeld_def)
    have "notifyUserThen f p ao key mark t' w' = w' \<longleftrightarrow> notifyHeld claim t' (wd_s w')"
    proof (cases "notifyHeld claim t' (wd_s w')")
      case True
      then show ?thesis by (simp add: notifyUserThen_def Let_def claim_def)
    next
      case False
      have "wd_jobs (notifyUserThen f p ao key mark t' w') \<noteq> wd_jobs w'"
        using notifyUserThen_launches [OF en n assms(3)] False free by (simp add: claim_def)
      then show ?thesis using False by fastforce
    qed
    then show ?thesis using undelivered held unfolding w'_def [symmetric] by (simp only: if_False simp_thms)
  qed
qed

text \<open>
  What the code does where its documentation says otherwise. The delivered key outlives the
  episode: \<open>CloseFailureEpisode\<close> clears only the episode's own columns, and the next failure
  adopts the key left behind by the previous one.
\<close>

lemma legacy_fail_key:
  assumes "CHR ''|'' \<notin> set A"
  shows "legacyFailureTold (fail_key A tier) A tn = Some (A, tier = TierUrgent)"
proof -
  have k: "fail_key A tier = ''fail'' @ CHR ''|'' # (A @ CHR ''|'' # tier_string tier)" by (simp add: fail_key_def)
  have "cut_at (CHR ''|'') (fail_key A tier) = (''fail'', A @ CHR ''|'' # tier_string tier, True)"
    unfolding k by (rule cut_at_append) simp
  moreover have "cut_at (CHR ''|'') (A @ CHR ''|'' # tier_string tier) = (A, tier_string tier, True)"
    by (rule cut_at_append [OF assms])
  ultimately show ?thesis by (cases tier) (simp_all add: legacyFailureTold_def)
qed

lemma legacy_unapplied_key:
  assumes "CHR ''|'' \<notin> set A"
  shows "legacyFailureTold (''unapplied|'' @ A @ ''|'' @ d) A tn = Some (A, False)"
proof -
  have "cut_at (CHR ''|'') (''unapplied'' @ CHR ''|'' # (A @ CHR ''|'' # d)) = (''unapplied'', A @ CHR ''|'' # d, True)"
    by (rule cut_at_append) simp
  moreover have "cut_at (CHR ''|'') (A @ CHR ''|'' # d) = (A, d, True)" by (rule cut_at_append [OF assms])
  ultimately show ?thesis by (simp add: legacyFailureTold_def)
qed

text \<open>A second episode is swallowed: an episode of plate \<open>A\<close> that was told and then closed without
  another notice having gone out (or closed with the "it was never applied" notice) leaves its key
  behind, and when \<open>A\<close> fails again later the household is not told: the soft notice is not sent
  and the episode is recorded as already told.\<close>

theorem reopened_episode_is_swallowed:
  assumes "A \<noteq> []" and "CHR ''|'' \<notin> set A" and "ao_Reg ao = A"
    and "nr_notified (wd_notify w (p_ID p)) \<in> {fail_key A TierSoft, fail_key A TierUrgent, ''unapplied|'' @ A @ ''|'' @ d}"
    and "w' = notifyFailure no_faults rd p ao TierSoft now (CloseFailureEpisode (p_ID p) w)"
  shows "wd_jobs w' = wd_jobs w \<and> wd_sent w' = wd_sent w \<and> nr_plate (wd_notify w' (p_ID p)) = A"
proof -
  define v where "v = CloseFailureEpisode (p_ID p) w"
  have v: "nr_plate (wd_notify v (p_ID p)) = []" "nr_notified (wd_notify v (p_ID p)) = nr_notified (wd_notify w (p_ID p))"
    "wd_jobs v = wd_jobs w" "wd_sent v = wd_sent w"
    by (simp_all add: v_def CloseFailureEpisode_def)
  have "\<exists>u. legacyFailureTold (nr_notified (wd_notify v (p_ID p))) A (p_TenantID p) = Some (A, u)"
    using assms(4) legacy_fail_key [OF assms(2)] legacy_unapplied_key [OF assms(2)] v(2) by auto
  then obtain u where "legacyFailureTold (nr_notified (wd_notify v (p_ID p))) A (p_TenantID p) = Some (A, u)" by blast
  then have a: "adopt_told no_faults p A v = (MarkFailureTold (p_ID p) A u v, A, u)"
    by (simp add: adopt_told_def Let_def v)
  have "already_told ao TierSoft A u" using assms(1,3) by (simp add: already_told_def)
  then have "w' = MarkFailureTold (p_ID p) A u v"
    using assms(3,5) a by (simp add: notifyFailure_def v_def)
  then show ?thesis using v by (simp add: MarkFailureTold_def)
qed

text \<open>An "empty" target has no plate, and the episode cannot record it: with the urgent notice of a
  failing clear just delivered, a soft failure of the same clear is sent all the same, and then the
  urgent one again, every time the tier flips.\<close>

definition deliver_all :: "faults \<Rightarrow> time \<Rightarrow> world \<Rightarrow> world" where
  "deliver_all f now w = foldl (\<lambda>w x. case x of
     Notice j \<Rightarrow> deliver_notice f j \<lparr>dl_delivered = 1, dl_err = False, dl_admin_ok = True\<rparr> now w | _ \<Rightarrow> w) w (wd_jobs w)"

definition clear_fails :: "reads \<Rightarrow> permit \<Rightarrow> fail_tier \<Rightarrow> time \<Rightarrow> world \<Rightarrow> world" where
  "clear_fails rd p tier now w = deliver_all no_faults now
     (notifyFailure no_faults rd p (no_outcome\<lparr>ao_Empty := True, ao_Owner := p_Owner p\<rparr>) tier now w)"

definition quiet_world :: "world \<Rightarrow> bool" where
  "quiet_world w \<longleftrightarrow> sc_Enabled (wd_s w) \<and> wd_jobs w = [] \<and> sc_notifyInFlight (wd_s w) = {}
     \<and> sc_notifyRetryAt (wd_s w) = Map.empty"

lemma clear_fails_sends:
  assumes "quiet_world w" and "nr_plate (wd_notify w (p_ID p)) = []"
    and "nr_notified (wd_notify w (p_ID p)) = fail_key [] other" and "other \<noteq> tier"
  shows "quiet_world (clear_fails rd p tier now w)
    \<and> nr_plate (wd_notify (clear_fails rd p tier now w) (p_ID p)) = []
    \<and> nr_notified (wd_notify (clear_fails rd p tier now w) (p_ID p)) = fail_key [] tier
    \<and> told_times (clear_fails rd p tier now w) (p_ID p) key
        = told_times w (p_ID p) key + (if key = fail_key [] tier then 1 else 0)"
proof -
  define ao where "ao = no_outcome\<lparr>ao_Empty := True, ao_Owner := p_Owner p\<rparr>"
  define v where "v = MarkFailureTold (p_ID p) [] (other = TierUrgent) w"
  have reg: "ao_Reg ao = []" by (simp add: ao_def no_outcome_def)
  have a: "adopt_told no_faults p [] w = (v, [], other = TierUrgent)"
    using legacy_fail_key [of "[]" other "p_TenantID p"] assms(2,3) by (simp add: adopt_told_def Let_def v_def)
  have "notifyFailure no_faults rd p ao tier now w =
      notifyUserThen no_faults p (ao\<lparr>ao_DriverTold := [], ao_Urgent := (tier = TierUrgent)\<rparr>) (fail_key [] tier)
        (Some ([], tier = TierUrgent)) now v"
    by (simp add: notifyFailure_def reg a already_told_def notifyFailedDriver_def)
  moreover have en: "sc_Enabled (wd_s v)" and n: "nr_notified (wd_notify v (p_ID p)) \<noteq> fail_key [] tier"
    and hold: "\<not> notifyHeld (notice_claim (p_ID p) (fail_key [] tier)) now (wd_s v)"
    and fly: "sc_notifyInFlight (wd_s v) = {}" and jobs: "wd_jobs v = []" and retry: "sc_notifyRetryAt (wd_s v) = Map.empty"
    using assms by (auto simp: quiet_world_def v_def MarkFailureTold_def notifyHeld_def fail_key_inj)
  ultimately have nf: "notifyFailure no_faults rd p ao tier now w = v\<lparr>wd_s := (wd_s v)\<lparr>sc_notifyInFlight :=
       {notice_claim (p_ID p) (fail_key [] tier)}\<rparr>, wd_jobs :=
       [Notice \<lparr>jb_outcome = ao\<lparr>ao_DriverTold := [], ao_Urgent := (tier = TierUrgent), ao_TenantID := p_TenantID p,
            ao_Key := fail_key [] tier, ao_PermitID := p_ID p\<rparr>,
          jb_adminKey = nr_admin (wd_notify v (p_ID p)), jb_mark = Some ([], tier = TierUrgent)\<rparr>]\<rparr>"
    using notifyUserThen_launches [OF en n _ hold] by simp
  have tv: "told_times v (p_ID p) key = told_times w (p_ID p) key" by (simp add: v_def MarkFailureTold_def)
  show ?thesis
    unfolding clear_fails_def ao_def [symmetric] nf deliver_all_def
    using en n jobs fly retry tv
    by (simp add: deliver_notice_def deliver_body_def Let_def quiet_world_def SetPermitNotifiedKey_def
        MarkFailureTold_def releaseNotify_def releaseNotifyHold_def told_times_def is_told_def)
      (simp add: v_def MarkFailureTold_def assms(2))
qed

theorem clearing_failures_flip_flop:
  assumes "quiet_world w" and "nr_plate (wd_notify w (p_ID p)) = []"
    and "nr_notified (wd_notify w (p_ID p)) = fail_key [] TierUrgent"
  shows "told_times (((\<lambda>w. clear_fails rd p TierUrgent now (clear_fails rd p TierSoft now w)) ^^ n) w) (p_ID p) (fail_key [] tier)
    = told_times w (p_ID p) (fail_key [] tier) + n"
proof -
  let ?flip = "\<lambda>w. clear_fails rd p TierUrgent now (clear_fails rd p TierSoft now w)"
  have "quiet_world ((?flip ^^ n) w) \<and> nr_plate (wd_notify ((?flip ^^ n) w) (p_ID p)) = []
    \<and> nr_notified (wd_notify ((?flip ^^ n) w) (p_ID p)) = fail_key [] TierUrgent
    \<and> told_times ((?flip ^^ n) w) (p_ID p) (fail_key [] tier) = told_times w (p_ID p) (fail_key [] tier) + n"
  proof (induction n)
    case (Suc n)
    let ?v = "clear_fails rd p TierSoft now ((?flip ^^ n) w)"
    have v: "quiet_world ?v \<and> nr_plate (wd_notify ?v (p_ID p)) = [] \<and> nr_notified (wd_notify ?v (p_ID p)) = fail_key [] TierSoft
      \<and> told_times ?v (p_ID p) (fail_key [] tier) = told_times ((?flip ^^ n) w) (p_ID p) (fail_key [] tier)
          + (if fail_key [] tier = fail_key [] TierSoft then 1 else 0)"
      using clear_fails_sends [of "(?flip ^^ n) w" p TierUrgent TierSoft] Suc by simp
    with clear_fails_sends [of ?v p TierSoft TierUrgent rd now "fail_key [] tier"] Suc
    show ?case by (cases tier) (simp_all add: fail_key_inj)
  qed (use assms in simp)
  then show ?thesis by blast
qed

section \<open>Witnesses\<close>

definition w_household :: permit where
  "w_household = (w_permit 7 ''a@x'' ''OLD001'' [] zero_time)\<lparr>p_Label := ''Visitor''\<rparr>"

definition w_world :: world where
  "w_world = \<lparr>wd_s = w_sched, wd_permits = [w_household], wd_notify = (\<lambda>_. no_row), wd_log = [], wd_jobs = [], wd_sent = []\<rparr>"

definition w_reads :: reads where
  "w_reads = \<lparr>rd_rules = (\<lambda>_. Some []), rd_overrides = (\<lambda>_. Some []), rd_vehicles = (\<lambda>_. Some []),
     rd_members = (\<lambda>_. Some [''a@x'']), rd_suppressed = (\<lambda>_. Some False)\<rparr>"

definition w_failure :: apply_outcome where
  "w_failure = no_outcome\<lparr>ao_Owner := ''a@x'', ao_Reg := ''ABC123''\<rparr>"

definition w_told :: world where
  "w_told = on_row 7 (\<lambda>r. r\<lparr>nr_plate := ''ABC123'', nr_notified := fail_key ''ABC123'' TierSoft\<rparr>) w_world"

lemma w_world_simps [simp]:
  "wd_jobs w_world = []" "wd_sent w_world = []" "wd_notify w_world = (\<lambda>_. no_row)" "wd_s w_world = w_sched"
  "p_ID w_household = 7" "sc_Enabled w_sched" "sc_notifyInFlight w_sched = {}" "sc_notifyRetryAt w_sched = Map.empty"
  "sc_notifyRetry w_sched = 5 * minute" "nr_notified no_row = []" "nr_plate no_row = []" "\<not> nr_urgent no_row"
  by (simp_all add: w_world_def w_household_def w_permit_def w_sched_def New_def notifyRetryBackoff_def no_row_def)

lemma one_notice_per_tier_and_episode_witness:
  "told_times (foldl (notice_step no_faults w_reads w_household) w_world
     [NFail w_failure TierSoft 0, NFail w_failure TierUrgent minute, NFail w_failure TierSoft hour])
     7 (fail_key ''ABC123'' TierSoft) \<le> 1"
  using one_notice_per_tier_and_episode [of w_world "''ABC123''" no_faults
      "[NFail w_failure TierSoft 0, NFail w_failure TierUrgent minute, NFail w_failure TierSoft hour]" w_reads w_household]
  by (simp add: about_plate_def w_failure_def del: foldl_Cons)

lemma episode_decides_what_is_told_witness:
  "notifyFailure no_faults w_reads w_household w_failure TierSoft hour w_told = w_told"
  using episode_decides_what_is_told [of w_told w_household w_failure no_faults w_reads hour]
  by (simp add: w_told_def w_failure_def)

definition w_job :: notice_job where
  "w_job = \<lparr>jb_outcome = w_failure\<lparr>ao_PermitID := 7, ao_Key := ''fail|ABC123|soft''\<rparr>, jb_adminKey = [], jb_mark = None\<rparr>"

definition w_nobody :: delivery where "w_nobody = \<lparr>dl_delivered = 0, dl_err = False, dl_admin_ok = False\<rparr>"

lemma w_job_simps [simp]:
  "ao_PermitID (jb_outcome w_job) = 7" "ao_Key (jb_outcome w_job) = ''fail|ABC123|soft''" "dl_delivered w_nobody = 0"
  by (simp_all add: w_job_def w_nobody_def)

lemma undelivered_notices_are_retried_witness:
  "notifyUserThen no_faults w_household w_failure ''fail|ABC123|soft'' None (4 * minute)
       (deliver_notice no_faults w_job w_nobody 0 w_world) = deliver_notice no_faults w_job w_nobody 0 w_world
   \<and> notifyUserThen no_faults w_household w_failure ''fail|ABC123|soft'' None (5 * minute)
       (deliver_notice no_faults w_job w_nobody 0 w_world) \<noteq> deliver_notice no_faults w_job w_nobody 0 w_world"
proof -
  have r: "notifyUserThen no_faults w_household w_failure ''fail|ABC123|soft'' None t
       (deliver_notice no_faults w_job w_nobody 0 w_world) = deliver_notice no_faults w_job w_nobody 0 w_world
     \<longleftrightarrow> t < 5 * minute" if "0 \<le> t" for t
    by (subst undelivered_notices_are_retried [of w_household w_job "''fail|ABC123|soft''" no_faults w_world 0 t
        w_failure None w_nobody]) (use that in \<open>simp_all add: minute_def second_def\<close>)
  show ?thesis unfolding r [of "4 * minute", simplified minute_def second_def]
    by (simp add: r minute_def second_def)
qed

lemma reopened_episode_is_swallowed_witness:
  "wd_jobs (notifyFailure no_faults w_reads w_household w_failure TierSoft (7 * day) (CloseFailureEpisode 7 w_told)) = []"
  using reopened_episode_is_swallowed [where A = "''ABC123''" and ao = w_failure and w = w_told and p = w_household
      and rd = w_reads and now = "7 * day"]
  by (simp add: w_told_def w_failure_def)

definition w_cleared :: world where
  "w_cleared = on_row 7 (\<lambda>r. r\<lparr>nr_notified := fail_key [] TierUrgent\<rparr>) w_world"

lemma clearing_failures_flip_flop_witness:
  "told_times (((\<lambda>w. clear_fails w_reads w_household TierUrgent 0 (clear_fails w_reads w_household TierSoft 0 w)) ^^ 3) w_cleared)
     7 (fail_key [] TierUrgent) = 3"
  using clearing_failures_flip_flop [where w = w_cleared and p = w_household and rd = w_reads and now = 0 and n = 3
      and tier = TierUrgent]
  by (simp add: w_cleared_def quiet_world_def told_times_def)

end
