(* ===== verification/Reconnect.thy ===== *)
theory Reconnect
  imports Notices Sessions
begin

text \<open>
  Recovery of expired sessions (internal/scheduler/reconnect.go): the churn windows that watch for a
  council-side change, the queue deduplicated by session, its pacing, and the single worker that
  reconnects from the saved password or retires the session.

  The queue is a table; the order of the list plays the role of Go's map order. One attempt of the
  worker is \<open>recoverOrRetire\<close>: what the council answered, which statements failed and what else
  happened to the store while the attempt was on the wire are its environment.
\<close>

section \<open>Churn\<close>

definition churnWindow :: dur where "churnWindow = hour"
definition sessionChurnAlertOwners :: int where "sessionChurnAlertOwners = 3"

definition pruneChurn :: "churn_event list \<Rightarrow> time \<Rightarrow> churn_event list" where
  "pruneChurn events now = filter (\<lambda>e. now - churnWindow < ce_at e) events"

definition distinctOwners :: "churn_event list \<Rightarrow> int" where
  "distinctOwners events = int (length (remdups (map ce_owner events)))"

definition noteSessionExpiry :: "string \<Rightarrow> time \<Rightarrow> scheduler \<Rightarrow> scheduler \<times> int" where
  "noteSessionExpiry owner now s =
     (let es = pruneChurn (sc_churnExpiry s) now @ [\<lparr>ce_owner = owner, ce_at = now\<rparr>]
      in (s\<lparr>sc_churnExpiry := es\<rparr>, distinctOwners es))"

definition noteReconnect :: "string \<Rightarrow> time \<Rightarrow> scheduler \<Rightarrow> scheduler" where
  "noteReconnect owner now s =
     s\<lparr>sc_churnReconn := pruneChurn (sc_churnReconn s) now @ [\<lparr>ce_owner = owner, ce_at = now\<rparr>]\<rparr>"

definition SessionChurn :: "time \<Rightarrow> scheduler \<Rightarrow> scheduler \<times> int \<times> int \<times> int" where
  "SessionChurn now s =
     (let e = pruneChurn (sc_churnExpiry s) now; r = pruneChurn (sc_churnReconn s) now
      in (s\<lparr>sc_churnExpiry := e, sc_churnReconn := r\<rparr>, int (length e), int (length r), distinctOwners e))"

section \<open>The queue\<close>

definition reconnectBackoffMin :: dur where "reconnectBackoffMin = 5 * minute"
definition reconnectBackoffMax :: dur where "reconnectBackoffMax = hour"
definition reconnectStalledAlertAttempts :: int where "reconnectStalledAlertAttempts = 5"
definition reconnectActiveWindow :: dur where "reconnectActiveWindow = 90 * second"
definition reconnectPortalTime :: dur where "reconnectPortalTime = 20 * second"

definition queueReconnectItem :: "string \<Rightarrow> string \<Rightarrow> int \<Rightarrow> bool \<Rightarrow> time \<Rightarrow> scheduler \<Rightarrow> scheduler \<times> bool" where
  "queueReconnectItem owner tenant gen countsChurn now s =
     (case map_of (sc_reconnectQ s) (owner, tenant) of
        Some it \<Rightarrow>
          if countsChurn \<and> \<not> ri_countsChurn it
          then (s\<lparr>sc_reconnectQ := put (owner, tenant) (it\<lparr>ri_countsChurn := True\<rparr>) (sc_reconnectQ s)\<rparr>, True)
          else (s, False)
      | None \<Rightarrow> (s\<lparr>sc_reconnectQ := put (owner, tenant) \<lparr>ri_next = now, ri_queuedAt = now, ri_gen = gen,
            ri_attempts = 0, ri_countsChurn = countsChurn\<rparr> (sc_reconnectQ s)\<rparr>, True))"

definition enqueueReconnect :: "string \<Rightarrow> string \<Rightarrow> int \<Rightarrow> time \<Rightarrow> world \<Rightarrow> world" where
  "enqueueReconnect owner tenant gen now w =
     (case queueReconnectItem owner tenant gen True now (wd_s w) of
        (s', False) \<Rightarrow> w\<lparr>wd_s := s'\<rparr>
      | (s', True) \<Rightarrow> (case noteSessionExpiry owner now s' of (s'', owners) \<Rightarrow>
          if sessionChurnAlertOwners \<le> owners then raise_alert ''session-churn'' now (w\<lparr>wd_s := s''\<rparr>)
          else w\<lparr>wd_s := s''\<rparr>))"

definition QueueReconnect :: "string \<Rightarrow> string \<Rightarrow> int \<Rightarrow> time \<Rightarrow> scheduler \<Rightarrow> scheduler" where
  "QueueReconnect owner tenant gen now s = fst (queueReconnectItem owner tenant gen False now s)"

definition NoteSessionExpired :: "string \<Rightarrow> string \<Rightarrow> int \<Rightarrow> time \<Rightarrow> world \<Rightarrow> world" where
  "NoteSessionExpired = enqueueReconnect"

definition ReconnectActive :: "string \<Rightarrow> string \<Rightarrow> time \<Rightarrow> scheduler \<Rightarrow> bool" where
  "ReconnectActive owner tenant now s =
     (case map_of (sc_reconnectQ s) (owner, tenant) of
        None \<Rightarrow> False | Some it \<Rightarrow> tsub now (ri_queuedAt it) < reconnectActiveWindow)"

text \<open>The bookkeeping of other loops that ends with a session (drift.go, warm.go).\<close>

definition noteDriftSuccess :: "string \<Rightarrow> scheduler \<Rightarrow> scheduler" where
  "noteDriftSuccess owner s = s\<lparr>sc_driftFails := (sc_driftFails s)(owner := 0),
     sc_driftRetryAt := (sc_driftRetryAt s)(owner := None)\<rparr>"

definition clearWarmBackoff :: "(session_key \<Rightarrow> bool) \<Rightarrow> scheduler \<Rightarrow> scheduler" where
  "clearWarmBackoff match s =
     s\<lparr>sc_warmRetryAt := (\<lambda>k. if match k then None else sc_warmRetryAt s k)\<rparr>"

definition cancelReconnectWhere :: "string \<Rightarrow> (session_key \<Rightarrow> bool) \<Rightarrow> scheduler \<Rightarrow> scheduler" where
  "cancelReconnectWhere owner match s =
     clearWarmBackoff (\<lambda>k. fst k = owner \<and> match k)
       (noteDriftSuccess owner
         (s\<lparr>sc_reconnectQ := filter (\<lambda>e. \<not> (fst (fst e) = owner \<and> match (fst e))) (sc_reconnectQ s)\<rparr>))"

definition CancelReconnect :: "string \<Rightarrow> scheduler \<Rightarrow> scheduler" where
  "CancelReconnect owner = cancelReconnectWhere owner (\<lambda>k. True)"

definition CancelReconnectIn :: "string \<Rightarrow> string \<Rightarrow> scheduler \<Rightarrow> scheduler" where
  "CancelReconnectIn owner tenant = cancelReconnectWhere owner (\<lambda>k. snd k = tenant)"

definition reconnectQueued :: "string \<Rightarrow> string \<Rightarrow> scheduler \<Rightarrow> bool" where
  "reconnectQueued owner tenant s = (map_of (sc_reconnectQ s) (owner, tenant) \<noteq> None)"

text \<open>Earliest next attempt, ties by owner and then council.\<close>

definition reconnect_sooner :: "session_key \<times> reconnect_item \<Rightarrow> session_key \<times> reconnect_item \<Rightarrow> bool" where
  "reconnect_sooner x y \<longleftrightarrow> ri_next (snd x) < ri_next (snd y)
     \<or> (ri_next (snd x) = ri_next (snd y) \<and>
         (text_less (fst (fst x)) (fst (fst y))
          \<or> (fst (fst x) = fst (fst y) \<and> text_less (snd (fst x)) (snd (fst y)))))"

definition nextDueReconnect :: "time \<Rightarrow> scheduler \<Rightarrow> ((session_key \<times> reconnect_item) \<times> dur) option" where
  "nextDueReconnect now s =
     map_option (\<lambda>e. (e, if now < ri_next (snd e) then tsub (ri_next (snd e)) now else 0))
       (best reconnect_sooner (sc_reconnectQ s))"

definition sameQueued :: "reconnect_item \<Rightarrow> reconnect_item \<Rightarrow> bool" where
  "sameQueued cur attempted \<longleftrightarrow> ri_gen cur = ri_gen attempted \<and> ri_queuedAt cur = ri_queuedAt attempted"

definition dequeueReconnect :: "session_key \<Rightarrow> reconnect_item \<Rightarrow> scheduler \<Rightarrow> scheduler" where
  "dequeueReconnect key attempted s =
     (case map_of (sc_reconnectQ s) key of
        None \<Rightarrow> s
      | Some cur \<Rightarrow> if sameQueued cur attempted then s\<lparr>sc_reconnectQ := del key (sc_reconnectQ s)\<rparr> else s)"

definition reconnect_backoff :: "int \<Rightarrow> dur" where
  "reconnect_backoff attempts =
     (let b = reconnectBackoffMin * 2 ^ nat (min (attempts - 1) 6)
      in if reconnectBackoffMax < b then reconnectBackoffMax else b)"

definition backoffReconnect :: "session_key \<Rightarrow> reconnect_item \<Rightarrow> time \<Rightarrow> world \<Rightarrow> world" where
  "backoffReconnect key attempted now w =
     (case map_of (sc_reconnectQ (wd_s w)) key of
        None \<Rightarrow> w
      | Some it \<Rightarrow>
          if \<not> sameQueued it attempted then w
          else let it' = it\<lparr>ri_attempts := ri_attempts it + 1, ri_next := now + reconnect_backoff (ri_attempts it + 1)\<rparr>;
              w' = on_sched (\<lambda>s. s\<lparr>sc_reconnectQ := put key it' (sc_reconnectQ s)\<rparr>) w
            in if ri_attempts it' = reconnectStalledAlertAttempts
               then alertReconnectStalled (fst key) (snd key) w' else w')"

text \<open>Queued, due, and the age in seconds of the oldest.\<close>

definition ReconnectBacklog :: "time \<Rightarrow> scheduler \<Rightarrow> int \<times> int \<times> int" where
  "ReconnectBacklog now s =
     (let q = map snd (sc_reconnectQ s);
          oldest = foldl (\<lambda>z it. if is_zero z \<or> ri_queuedAt it < z then ri_queuedAt it else z) zero_time q
      in (int (length q), int (length (filter (\<lambda>it. ri_next it \<le> now) q)),
          if \<not> is_zero oldest \<and> oldest < now then tsub now oldest div second else 0))"

section \<open>One attempt\<close>

datatype reconnect_result = ReconnectRecovered | ReconnectRetired | ReconnectDeferred

record reconnect_env =
  re_readErr :: bool
  re_err :: "err option"
  re_mid :: "session_store \<Rightarrow> session_store"
  re_others :: "world \<Rightarrow> world"
  re_delErr :: bool
  re_panic :: bool
  re_listErr :: bool

definition reconnectDeadline :: "scheduler \<Rightarrow> dur \<Rightarrow> dur" where
  "reconnectDeadline s budget =
     (if sc_reconnectPortal s \<le> 0 then reconnectPortalTime else sc_reconnectPortal s) + budget"

text \<open>
  \<open>re_mid\<close> and \<open>re_others\<close> are what happened to the session rows and to the scheduler while the
  attempt was on the wire, its own save included.
\<close>

text \<open>What to do once the council's answer is neither a session nor superseded.\<close>

datatype attempt_end = Recovered | Discard | Retire | Defer bool

definition attempt_outcome :: "err option \<Rightarrow> attempt_end" where
  "attempt_outcome r =
     (case r of
        None \<Rightarrow> Recovered
      | Some e \<Rightarrow>
          if err_is e ErrSessionSuperseded then Discard
          else if err_is e ErrNoSavedPassword then Retire
          else if err_is e ErrLoginRejected then Retire
          else if err_is e ErrLoginFormUnrecognised then Defer True
          else Defer False)"

definition recoverOrRetire ::
  "reconnect_env \<Rightarrow> string \<Rightarrow> string \<Rightarrow> int \<Rightarrow> bool \<Rightarrow> time \<Rightarrow> world \<times> session_store
     \<Rightarrow> (world \<times> session_store) \<times> reconnect_result" where
  "recoverOrRetire e owner tenant gen countsChurn now ws =
     (case ws of (w, st) \<Rightarrow>
      if re_readErr e then ((w, st), ReconnectDeferred)
      else (case GetTenantSessionIn st owner tenant of
          None \<Rightarrow> ((w, st), ReconnectRetired)
        | Some cur \<Rightarrow>
            if ts_Generation cur \<noteq> gen then ((w, st), ReconnectRetired)
            else let st1 = re_mid e st; w = re_others e w in
              (case attempt_outcome (re_err e) of
                 Recovered \<Rightarrow> ((if countsChurn then on_sched (noteReconnect owner now) w else w, st1), ReconnectRecovered)
               | Discard \<Rightarrow> ((w, st1), ReconnectRetired)
               | Defer shape \<Rightarrow> ((if shape then raise_alert ''login-shape'' now w else w, st1), ReconnectDeferred)
               | Retire \<Rightarrow>
                   if re_delErr e then ((raise_alert ''retire-delete'' now w, st1), ReconnectDeferred)
                   else (case DeleteTenantSessionIfGen owner tenant gen st1 of
                       (st2, deleted) \<Rightarrow> ((if deleted then alertRelink owner tenant w else w, st2), ReconnectRetired)))))"

definition owner_permits :: "string \<Rightarrow> world \<Rightarrow> permit list" where
  "owner_permits owner w = filter (\<lambda>p. p_Owner p = owner) (wd_permits w)"

text \<open>The worker's turn: the earliest item, if it is due.\<close>

definition drainOneReconnect ::
  "reconnect_env \<Rightarrow> time \<Rightarrow> time \<Rightarrow> world \<times> session_store \<Rightarrow> (world \<times> session_store) \<times> bool" where
  "drainOneReconnect e now now' ws =
     (case ws of (w, st) \<Rightarrow>
      (case nextDueReconnect now (wd_s w) of
         None \<Rightarrow> ((w, st), False)
       | Some ((key, item), wait) \<Rightarrow>
           if 0 < wait then ((w, st), False)
           else if re_panic e
             then ((backoffReconnect key item now' (raise_alert ''panic-reconnect'' now' (re_others e w)), re_mid e st), True)
           else (case recoverOrRetire e (fst key) (snd key) (ri_gen item) (ri_countsChurn item) now' (w, st) of
               ((w', st'), ReconnectRecovered) \<Rightarrow>
                 ((on_sched (KickOwnerIn (if re_listErr e then None else Some (owner_permits (fst key) w')) (snd key)
                     \<circ> clearWarmBackoff (\<lambda>k. k = key) \<circ> dequeueReconnect key item) w', st'), True)
             | ((w', st'), ReconnectRetired) \<Rightarrow>
                 ((on_sched (clearWarmBackoff (\<lambda>k. k = key) \<circ> dequeueReconnect key item) w', st'), True)
             | ((w', st'), ReconnectDeferred) \<Rightarrow> ((backoffReconnect key item now' w', st'), True))))"

section \<open>Facts\<close>

lemma at_gen_iff: "at_gen owner tenant gen r \<longleftrightarrow> at_key owner tenant r \<and> ts_Generation r = gen"
  by (auto simp: at_gen_def at_key_def)

lemma retire_sessions:
  assumes "DeleteTenantSessionIfGen owner tenant gen st = (st', deleted)"
  shows "st_sessions st' = filter (\<lambda>r. \<not> at_gen owner tenant gen r) (st_sessions st)
    \<and> (deleted \<longleftrightarrow> (\<exists>r \<in> set (st_sessions st). at_gen owner tenant gen r))"
  using assms by (auto simp: DeleteTenantSessionIfGen_def Let_def forgetTenant_def del_where_def any_row_def list_ex_iff)

lemma alertRelink_jobs:
  assumes "sc_Enabled (wd_s w)" and "''relink|'' @ owner \<notin> sc_notifyInFlight (wd_s w)"
  shows "wd_jobs (alertRelink owner tenant w) = wd_jobs w @ [RelinkJob owner tenant]"
  using assms by (simp add: alertRelink_def claimNotify_def)

lemma text_less_irrefl: "\<not> text_less x x"
  by (simp add: text_less_def lexordp_irreflexive')

lemma alertStalled_queue [simp]:
  "sc_reconnectQ (wd_s (alertReconnectStalled owner tenant w)) = sc_reconnectQ (wd_s w)"
  by (auto simp: alertReconnectStalled_def claimNotify_def)

lemma alertRelink_queue [simp]: "sc_reconnectQ (wd_s (alertRelink owner tenant w)) = sc_reconnectQ (wd_s w)"
  by (auto simp: alertRelink_def claimNotify_def)

lemma raise_alert_queue [simp]: "sc_reconnectQ (wd_s (raise_alert key now w)) = sc_reconnectQ (wd_s w)"
  by (auto simp: raise_alert_def systemAlert_def systemAlertEvery_def Let_def split: prod.splits bool.splits if_splits)

lemma fold_clearRetry_queue:
  "sc_reconnectQ (fold (\<lambda>p s. if P p then clearRetry (p_ID p) s else s) ps s) = sc_reconnectQ s"
  by (induction ps arbitrary: s) (simp_all add: clearRetry_def)

lemma kick_queue [simp]: "sc_reconnectQ (KickOwnerIn permits tenant s) = sc_reconnectQ s"
  using fold_clearRetry_queue [of "\<lambda>p. p_TenantID p = tenant"]
  by (cases permits) (simp_all add: KickOwnerIn_def kickOwnerWhere_def Kick_def)

lemma attempt_runs:
  assumes "\<not> re_readErr e" and "GetTenantSessionIn st owner tenant = Some cur" and "ts_Generation cur = gen"
  shows "recoverOrRetire e owner tenant gen counts now (w, st) =
     (case attempt_outcome (re_err e) of
        Recovered \<Rightarrow> ((if counts then on_sched (noteReconnect owner now) (re_others e w) else re_others e w, re_mid e st), ReconnectRecovered)
      | Discard \<Rightarrow> ((re_others e w, re_mid e st), ReconnectRetired)
      | Defer shape \<Rightarrow> ((if shape then raise_alert ''login-shape'' now (re_others e w) else re_others e w, re_mid e st), ReconnectDeferred)
      | Retire \<Rightarrow>
          if re_delErr e then ((raise_alert ''retire-delete'' now (re_others e w), re_mid e st), ReconnectDeferred)
          else (case DeleteTenantSessionIfGen owner tenant gen (re_mid e st) of
              (st2, deleted) \<Rightarrow> ((if deleted then alertRelink owner tenant (re_others e w) else re_others e w, st2), ReconnectRetired)))"
  using assms by (simp add: recoverOrRetire_def Let_def)

lemma warm_queue [simp]: "sc_reconnectQ (clearWarmBackoff m s) = sc_reconnectQ s"
  by (simp add: clearWarmBackoff_def)

lemma churn_queue [simp]: "sc_reconnectQ (noteReconnect owner now s) = sc_reconnectQ s"
  by (simp add: noteReconnect_def)

section \<open>Properties\<close>

text \<open>C16: Recovery never destroys a session it was not asked about: a row that is gone after an attempt,
  and that the attempt itself left in the store, belonged to the expired generation, and it went
  because there was no saved password or the council rejected it. The household is then told to
  re-link. A transient failure, a changed sign-in page or a re-link during the attempt keeps every row.\<close>

theorem retirement_is_earned:
  assumes "recoverOrRetire e owner tenant gen counts now (w, st) = ((w', st'), res)"
    and "r \<in> set (st_sessions st)" and "r \<in> set (st_sessions (re_mid e st))" and "r \<notin> set (st_sessions st')"
  shows "at_key owner tenant r \<and> ts_Generation r = gen \<and> res = ReconnectRetired
    \<and> (\<exists>x. re_err e = Some x \<and> \<not> err_is x ErrSessionSuperseded
         \<and> (err_is x ErrNoSavedPassword \<or> err_is x ErrLoginRejected))
    \<and> (sc_Enabled (wd_s (re_others e w)) \<and> ''relink|'' @ owner \<notin> sc_notifyInFlight (wd_s (re_others e w)) \<longrightarrow>
         RelinkJob owner tenant \<in> set (wd_jobs w'))"
proof -
  from assms obtain cur where c: "\<not> re_readErr e" "GetTenantSessionIn st owner tenant = Some cur" "ts_Generation cur = gen"
    by (auto simp: recoverOrRetire_def split: if_splits option.splits)
  note rr = assms(1) [unfolded attempt_runs [OF c]]
  have retire: "attempt_outcome (re_err e) = Retire"
    using rr assms(3,4) by (cases "attempt_outcome (re_err e)") auto
  obtain st2 deleted where d: "DeleteTenantSessionIfGen owner tenant gen (re_mid e st) = (st2, deleted)"
    by (metis surj_pair)
  note rs = retire_sessions [OF d]
  have "\<not> re_delErr e" using rr retire assms(3,4) by (auto split: if_splits)
  then have fin: "st' = st2" "res = ReconnectRetired"
    "w' = (if deleted then alertRelink owner tenant (re_others e w) else re_others e w)"
    using rr retire d by auto
  have r: "at_gen owner tenant gen r" using rs assms(3,4) fin by auto
  then have deleted using rs assms(3) by blast
  obtain x where "re_err e = Some x" "\<not> err_is x ErrSessionSuperseded" "err_is x ErrNoSavedPassword \<or> err_is x ErrLoginRejected"
    using retire by (auto simp: attempt_outcome_def split: option.splits if_splits)
  then show ?thesis using r fin \<open>deleted\<close> alertRelink_jobs [of "re_others e w" owner tenant]
    by (auto simp: at_gen_iff)
qed

text \<open>A recovery queued afresh while an attempt is on the wire (a manual link followed by a new
  expiry) survives that attempt whatever its outcome: neither dequeued nor backed off.\<close>

theorem fresh_recovery_survives_an_attempt:
  assumes "nextDueReconnect now (wd_s w) = Some ((key, item), wait)"
    and "\<And>v. map_of (sc_reconnectQ (wd_s (re_others e v))) key = Some fresh" and "\<not> sameQueued fresh item"
    and "GetTenantSessionIn st (fst key) (snd key) = Some cur" and "ts_Generation cur = ri_gen item"
    and "\<not> re_readErr e" and "wait \<le> 0" and "drainOneReconnect e now now' (w, st) = ((w', st'), worked)"
  shows "map_of (sc_reconnectQ (wd_s w')) key = Some fresh \<and> worked"
proof -
  have deq: "map_of (sc_reconnectQ (wd_s v)) key = Some fresh \<Longrightarrow> dequeueReconnect key item (wd_s v) = wd_s v" for v
    using assms(3) by (simp add: dequeueReconnect_def)
  have bk: "map_of (sc_reconnectQ (wd_s v)) key = Some fresh \<Longrightarrow> backoffReconnect key item t v = v" for v t
    using assms(3) by (simp add: backoffReconnect_def)
  show ?thesis
  proof (cases "re_panic e")
    case True
    define v where "v = raise_alert ''panic-reconnect'' now' (re_others e w)"
    have m: "map_of (sc_reconnectQ (wd_s v)) key = Some fresh" using assms(2) by (simp add: v_def)
    have "drainOneReconnect e now now' (w, st) = ((v, re_mid e st), True)"
      using assms(1,7) True bk [OF m] by (simp add: drainOneReconnect_def flip: v_def)
    then show ?thesis using assms(8) m by simp
  next
    case False
    obtain v sv res where rr: "recoverOrRetire e (fst key) (snd key) (ri_gen item) (ri_countsChurn item) now' (w, st) = ((v, sv), res)"
      by (metis surj_pair)
    have "map_of (sc_reconnectQ (wd_s v)) key = Some fresh"
      using rr [unfolded attempt_runs [OF assms(6,4,5)]] assms(2)
      by (cases "attempt_outcome (re_err e)") (auto split: if_splits prod.splits)
    then show ?thesis
      using assms(1,7,8) False rr deq [of v] bk [of v now']
      by (cases res) (auto simp: drainOneReconnect_def)
  qed
qed

section \<open>Pacing and the churn alarm\<close>

lemma reconnect_backoff_min: "1 \<le> n \<Longrightarrow> reconnect_backoff n = (if n \<le> 4 then 5 * minute * 2 ^ nat (n - 1) else hour)"
proof -
  assume n: "1 \<le> n"
  then have "n \<in> {1, 2, 3, 4} \<or> 5 \<le> n" by (simp; arith)
  then consider "n \<in> {1, 2, 3, 4}" | "5 \<le> n" by blast
  then show ?thesis
  proof cases
    case 1
    then show ?thesis
      by (auto simp: reconnect_backoff_def Let_def reconnectBackoffMin_def reconnectBackoffMax_def time_simps)
  next
    case 2
    then have "(2::int) ^ 4 \<le> 2 ^ nat (min (n - 1) 6)" by (intro power_increasing) auto
    then show ?thesis using 2
      by (simp add: reconnect_backoff_def Let_def reconnectBackoffMin_def reconnectBackoffMax_def time_simps)
  qed
qed

definition defer_at :: "session_key \<Rightarrow> world \<Rightarrow> time \<Rightarrow> world" where
  "defer_at key w t = (case map_of (sc_reconnectQ (wd_s w)) key of
     None \<Rightarrow> w | Some it \<Rightarrow> backoffReconnect key it t w)"

definition stalled_jobs :: "string \<Rightarrow> world \<Rightarrow> nat" where
  "stalled_jobs owner w = length (filter (\<lambda>x. \<exists>tn. x = StalledJob owner tn) (wd_jobs w))"

lemma sameQueued_refl [simp]: "sameQueued it it"
  by (simp add: sameQueued_def)

lemma defer_at_step:
  assumes "map_of (sc_reconnectQ (wd_s w)) key = Some it" and "n = ri_attempts it + 1"
  shows "map_of (sc_reconnectQ (wd_s (defer_at key w t))) key = Some (it\<lparr>ri_attempts := n, ri_next := t + reconnect_backoff n\<rparr>)
    \<and> (n \<noteq> 5 \<longrightarrow> wd_jobs (defer_at key w t) = wd_jobs w
        \<and> sc_notifyInFlight (wd_s (defer_at key w t)) = sc_notifyInFlight (wd_s w))
    \<and> sc_Enabled (wd_s (defer_at key w t)) = sc_Enabled (wd_s w)
    \<and> (n = 5 \<and> sc_Enabled (wd_s w) \<and> ''reconnect-stalled|'' @ fst key \<notin> sc_notifyInFlight (wd_s w) \<longrightarrow>
        wd_jobs (defer_at key w t) = wd_jobs w @ [StalledJob (fst key) (snd key)])"
  using assms
  by (auto simp: defer_at_def backoffReconnect_def Let_def map_of_put reconnectStalledAlertAttempts_def
      alertReconnectStalled_def claimNotify_def)

text \<open>The state of a recovery after any number of deferrals.\<close>

lemma deferred_recovery:
  assumes "map_of (sc_reconnectQ (wd_s w)) key = Some it" and "ri_attempts it = 0" and "sc_Enabled (wd_s w)"
    and "''reconnect-stalled|'' @ fst key \<notin> sc_notifyInFlight (wd_s w)"
  shows "(\<exists>nx. map_of (sc_reconnectQ (wd_s (foldl (defer_at key) w xs))) key = Some (it\<lparr>ri_attempts := int (length xs), ri_next := nx\<rparr>))
      \<and> sc_Enabled (wd_s (foldl (defer_at key) w xs))
      \<and> (length xs < 5 \<longrightarrow> ''reconnect-stalled|'' @ fst key \<notin> sc_notifyInFlight (wd_s (foldl (defer_at key) w xs)))
      \<and> stalled_jobs (fst key) (foldl (defer_at key) w xs) = stalled_jobs (fst key) w + (if 5 \<le> length xs then 1 else 0)"
proof (induction xs rule: rev_induct)
  case Nil
  have "it = it\<lparr>ri_attempts := 0, ri_next := ri_next it\<rparr>" using assms(2) by simp
  then have "map_of (sc_reconnectQ (wd_s w)) key = Some (it\<lparr>ri_attempts := 0, ri_next := ri_next it\<rparr>)"
    using assms(1) by (rule subst [where P = "\<lambda>i. _ = Some i"])
  then show ?case using assms(3,4) by (intro conjI exI [of _ "ri_next it"]) (simp_all del: append.simps)
next
  case (snoc x xs)
  then obtain nx where nx: "map_of (sc_reconnectQ (wd_s (foldl (defer_at key) w xs))) key = Some (it\<lparr>ri_attempts := int (length xs), ri_next := nx\<rparr>)"
    by blast
  note st = defer_at_step [OF nx refl, of x]
  have "map_of (sc_reconnectQ (wd_s (foldl (defer_at key) w (xs @ [x])))) key = Some (it\<lparr>ri_attempts := int (length (xs @ [x])),
      ri_next := x + reconnect_backoff (int (length xs) + 1)\<rparr>)"
    using st by (simp add: add.commute)
  then have "\<exists>nx. map_of (sc_reconnectQ (wd_s (foldl (defer_at key) w (xs @ [x])))) key = Some (it\<lparr>ri_attempts := int (length (xs @ [x])), ri_next := nx\<rparr>)"
    by blast
  moreover have "sc_Enabled (wd_s (foldl (defer_at key) w (xs @ [x])))
    \<and> (length (xs @ [x]) < 5 \<longrightarrow> ''reconnect-stalled|'' @ fst key \<notin> sc_notifyInFlight (wd_s (foldl (defer_at key) w (xs @ [x]))))
    \<and> stalled_jobs (fst key) (foldl (defer_at key) w (xs @ [x])) = stalled_jobs (fst key) w + (if 5 \<le> length (xs @ [x]) then 1 else 0)"
  proof (cases "length xs = 4")
    case True
    then show ?thesis using st snoc by (simp add: stalled_jobs_def)
  next
    case False
    then have "int (length xs) + 1 \<noteq> 5" by linarith
    then show ?thesis using st snoc False by (simp add: stalled_jobs_def)
  qed
  ultimately show ?case by blast
qed

text \<open>A recovery that keeps being deferred is retried after 5, 10, 20 and 40 minutes and then hourly,
  and the household is told once, at the fifth failure, that its schedule is paused.\<close>

theorem stalled_recovery_is_told_once:
  assumes "map_of (sc_reconnectQ (wd_s w)) key = Some it" and "ri_attempts it = 0" and "sc_Enabled (wd_s w)"
    and "''reconnect-stalled|'' @ fst key \<notin> sc_notifyInFlight (wd_s w)" and "n = length (ts @ [t])"
  shows "map_of (sc_reconnectQ (wd_s (foldl (defer_at key) w (ts @ [t])))) key
       = Some (it\<lparr>ri_attempts := int n, ri_next := t + (if n \<le> 4 then 5 * minute * 2 ^ (n - 1) else hour)\<rparr>)
    \<and> stalled_jobs (fst key) (foldl (defer_at key) w (ts @ [t])) = stalled_jobs (fst key) w + (if 5 \<le> n then 1 else 0)"
proof -
  let ?w = "\<lambda>xs. foldl (defer_at key) w xs"
  note inv = deferred_recovery [OF assms(1-4)]
  obtain nx where nx: "map_of (sc_reconnectQ (wd_s (?w ts))) key = Some (it\<lparr>ri_attempts := int (length ts), ri_next := nx\<rparr>)"
    using inv [of ts] by blast
  have pre: "int n = ri_attempts (it\<lparr>ri_attempts := int (length ts), ri_next := nx\<rparr>) + 1" using assms(5) by simp
  have "map_of (sc_reconnectQ (wd_s (?w (ts @ [t])))) key = Some (it\<lparr>ri_attempts := int n, ri_next := t + reconnect_backoff (int n)\<rparr>)"
    using defer_at_step [OF nx pre, of t] by simp
  moreover have "reconnect_backoff (int n) = (if n \<le> 4 then 5 * minute * 2 ^ (n - 1) else hour)"
  proof -
    have "1 \<le> n" using assms(5) by simp
    then have "nat (int n - 1) = n - 1" by simp
    then show ?thesis using reconnect_backoff_min [of "int n"] \<open>1 \<le> n\<close> by simp
  qed
  moreover have "stalled_jobs (fst key) (?w (ts @ [t])) = stalled_jobs (fst key) w + (if 5 \<le> n then 1 else 0)"
    using inv [of "ts @ [t]"] unfolding assms(5) by blast
  ultimately show ?thesis by (simp only:)
qed

definition enqueue_all :: "world \<Rightarrow> (string \<times> string \<times> int \<times> time) list \<Rightarrow> world" where
  "enqueue_all w xs = foldl (\<lambda>w (owner, tenant, gen, t). enqueueReconnect owner tenant gen t w) w xs"

lemma enqueue_churn:
  assumes "ce_owner ` set (sc_churnExpiry (wd_s w)) \<subseteq> S" and "owner \<in> S" and "finite S" and "card S < 3"
  shows "ce_owner ` set (sc_churnExpiry (wd_s (enqueueReconnect owner tn g t w))) \<subseteq> S
    \<and> wd_sent (enqueueReconnect owner tn g t w) = wd_sent w"
proof -
  obtain s' b where q: "queueReconnectItem owner tn g True t (wd_s w) = (s', b)" by (metis surj_pair)
  have ch: "sc_churnExpiry s' = sc_churnExpiry (wd_s w)"
    using q by (auto simp: queueReconnectItem_def split: option.splits if_splits)
  define es where "es = pruneChurn (sc_churnExpiry (wd_s w)) t @ [\<lparr>ce_owner = owner, ce_at = t\<rparr>]"
  have sub: "ce_owner ` set es \<subseteq> S" using assms(1,2) by (auto simp: es_def pruneChurn_def)
  have "distinctOwners es = int (card (ce_owner ` set es))" by (simp add: distinctOwners_def length_remdups_card_conv)
  also have "\<dots> < 3" using card_mono [OF assms(3) sub] assms(4) by simp
  finally have "\<not> sessionChurnAlertOwners \<le> distinctOwners es" by (simp add: sessionChurnAlertOwners_def)
  then show ?thesis using q sub assms(1) ch
    by (cases b) (simp_all add: enqueueReconnect_def noteSessionExpiry_def Let_def flip: es_def)
qed

text \<open>The churn alarm is about many households: however often and at however many councils the
  sessions of fewer than three owners expire, it stays silent.\<close>

theorem few_owners_are_no_churn:
  assumes "sc_churnExpiry (wd_s w) = []" and "finite S" and "card S < 3" and "fst ` set xs \<subseteq> S"
  shows "wd_sent (enqueue_all w xs) = wd_sent w"
proof -
  have "ce_owner ` set (sc_churnExpiry (wd_s (enqueue_all w xs))) \<subseteq> S \<and> wd_sent (enqueue_all w xs) = wd_sent w"
    using assms(4)
  proof (induction xs rule: rev_induct)
    case (snoc x xs)
    obtain owner tn g t where x: "x = (owner, tn, g, t)" by (cases x)
    then show ?case using snoc enqueue_churn [of "enqueue_all w xs" S owner tn g t] assms(2,3)
      by (simp add: enqueue_all_def)
  qed (simp add: enqueue_all_def assms(1))
  then show ?thesis by blast
qed

section \<open>Witnesses\<close>

definition w_rejected :: reconnect_env where
  "w_rejected = \<lparr>re_readErr = False, re_err = Some (Sentinel ErrLoginRejected), re_mid = id, re_others = id,
     re_delErr = False, re_panic = False, re_listErr = False\<rparr>"

lemma retirement_is_earned_witness:
  "RelinkJob ''a@x'' ''stonnington'' \<in> set (wd_jobs (fst (fst
     (recoverOrRetire w_rejected ''a@x'' ''stonnington'' 5 True 0 (w_world, w_store)))))"
proof -
  let ?r = "recoverOrRetire w_rejected ''a@x'' ''stonnington'' 5 True 0 (w_world, w_store)"
  have "w_session \<in> set (st_sessions w_store)" "w_session \<notin> set (st_sessions (snd (fst ?r)))"
    by (simp_all add: w_store_def w_session_def recoverOrRetire_def w_rejected_def GetTenantSessionIn_def at_key_def
        no_session_def attempt_outcome_def DeleteTenantSessionIfGen_def Let_def forgetTenant_def del_where_def at_gen_iff)
  then show ?thesis
    using retirement_is_earned [of w_rejected "''a@x''" "''stonnington''" 5 True 0 w_world w_store "fst (fst ?r)" "snd (fst ?r)" "snd ?r" w_session]
    by (simp add: w_rejected_def)
qed

lemma stalled_recovery_is_told_once_witness:
  "stalled_jobs ''a@x'' (foldl (defer_at (''a@x'', ''stonnington''))
     (enqueueReconnect ''a@x'' ''stonnington'' 5 0 w_world) ([minute, hour, 2 * hour, 3 * hour] @ [4 * hour])) = 1"
proof -
  let ?w = "enqueueReconnect ''a@x'' ''stonnington'' 5 0 w_world"
  have "map_of (sc_reconnectQ (wd_s ?w)) (''a@x'', ''stonnington'') = Some \<lparr>ri_next = 0, ri_queuedAt = 0, ri_gen = 5,
      ri_attempts = 0, ri_countsChurn = True\<rparr> \<and> sc_Enabled (wd_s ?w) \<and> sc_notifyInFlight (wd_s ?w) = {} \<and> wd_jobs ?w = []"
    by (simp add: enqueueReconnect_def queueReconnectItem_def noteSessionExpiry_def w_sched_def New_def Let_def
        distinctOwners_def pruneChurn_def sessionChurnAlertOwners_def map_of_put)
  then show ?thesis
    using stalled_recovery_is_told_once [of ?w "(''a@x'', ''stonnington'')" _ 5 "[minute, hour, 2 * hour, 3 * hour]" "4 * hour"]
    by (simp add: stalled_jobs_def del: foldl_append foldl_Cons)
qed

lemma few_owners_are_no_churn_witness:
  "wd_sent (enqueue_all w_world [(''a@x'', ''stonnington'', 5, 0), (''b@x'', ''stonnington'', 6, 1), (''a@x'', ''merri'', 7, 2)]) = []"
  using few_owners_are_no_churn [of w_world "{''a@x'', ''b@x''}"
      "[(''a@x'', ''stonnington'', 5, 0), (''b@x'', ''stonnington'', 6, 1), (''a@x'', ''merri'', 7, 2)]"]
  by (simp add: w_sched_def New_def)

definition w_requeued :: world where
  "w_requeued = enqueueReconnect ''a@x'' ''stonnington'' 9 minute w_world"

definition w_relinked :: reconnect_env where
  "w_relinked = w_rejected\<lparr>re_others := (\<lambda>w. w_requeued)\<rparr>"

lemma w_enqueued:
  "sc_reconnectQ (wd_s (enqueueReconnect ''a@x'' ''stonnington'' g t w_world)) = [((''a@x'', ''stonnington''),
     \<lparr>ri_next = t, ri_queuedAt = t, ri_gen = g, ri_attempts = 0, ri_countsChurn = True\<rparr>)]"
  by (simp add: enqueueReconnect_def queueReconnectItem_def noteSessionExpiry_def w_sched_def New_def Let_def
      distinctOwners_def pruneChurn_def sessionChurnAlertOwners_def put_def del_def)

lemma fresh_recovery_survives_an_attempt_witness:
  "map_of (sc_reconnectQ (wd_s (fst (fst (drainOneReconnect w_relinked 0 0
     (enqueueReconnect ''a@x'' ''stonnington'' 5 0 w_world, w_store)))))) (''a@x'', ''stonnington'')
   = Some \<lparr>ri_next = minute, ri_queuedAt = minute, ri_gen = 9, ri_attempts = 0, ri_countsChurn = True\<rparr>"
proof -
  let ?w = "enqueueReconnect ''a@x'' ''stonnington'' 5 0 w_world"
  let ?item = "\<lparr>ri_next = 0, ri_queuedAt = 0, ri_gen = 5, ri_attempts = 0, ri_countsChurn = True\<rparr>"
  have due: "nextDueReconnect 0 (wd_s ?w) = Some (((''a@x'', ''stonnington''), ?item), 0)"
    by (simp add: nextDueReconnect_def w_enqueued best_def keep_best_def)
  have "GetTenantSessionIn w_store ''a@x'' ''stonnington'' = Some w_session"
    by (simp add: GetTenantSessionIn_def w_store_def w_session_def at_key_def)
  moreover have "map_of (sc_reconnectQ (wd_s w_requeued)) (''a@x'', ''stonnington'')
     = Some \<lparr>ri_next = minute, ri_queuedAt = minute, ri_gen = 9, ri_attempts = 0, ri_countsChurn = True\<rparr>"
    by (simp add: w_requeued_def w_enqueued)
  ultimately show ?thesis
    using fresh_recovery_survives_an_attempt [OF due, of w_relinked _ w_store w_session 0
        "fst (fst (drainOneReconnect w_relinked 0 0 (?w, w_store)))" "snd (fst (drainOneReconnect w_relinked 0 0 (?w, w_store)))"
        "snd (drainOneReconnect w_relinked 0 0 (?w, w_store))"]
    by (simp add: w_relinked_def w_rejected_def sameQueued_def w_session_def)
qed

end
