(* ===== verification/Reconcile.thy ===== *)
theory Reconcile
  imports Spread Reconnect
begin

text \<open>
  The reconcile pass (internal/scheduler/reconcile.go): for every active permit, what the schedule
  wants now, whether it is this permit's turn, the claim on its plate write, the write itself, and
  what follows from each of the council's answers; the close of a failure episode; the pass over the
  fleet with its panic recovery and its systemic alert.

  What the pass reads of the council and of the zones is the record \<open>site\<close>; the answer of the one
  council write, and everything else that happened to the scheduler while it was on the wire, is the
  record \<open>wire\<close>. \<open>now\<close> is the clock when the permit's turn starts, \<open>now'\<close> the clock after the write.
\<close>

section \<open>The environment\<close>

record site =
  si_local :: zone
  si_zone :: "string \<Rightarrow> string \<Rightarrow> zone"
  si_CanClear :: "string \<Rightarrow> string \<Rightarrow> bool"
  si_Blocked :: "string \<Rightarrow> bool"
  si_AuthGated :: "string \<Rightarrow> bool"

record wire =
  wr_err :: "err option"
  wr_others :: "world \<Rightarrow> world"

definition vehicle_of :: "fleet_vehicles \<Rightarrow> string \<Rightarrow> int \<Rightarrow> vehicle_info" where
  "vehicle_of vehs owner i = (case map_of vehs (owner, i) of None \<Rightarrow> no_vehicle_info | Some v \<Rightarrow> v)"

definition GetPermit :: "int \<Rightarrow> world \<Rightarrow> permit option" where
  "GetPermit pid w = find (\<lambda>p. p_ID p = pid) (wd_permits w)"

definition SetPermitActive :: "int \<Rightarrow> string \<Rightarrow> time \<Rightarrow> world \<Rightarrow> world" where
  "SetPermitActive pid reg now w = w\<lparr>wd_permits := map (\<lambda>p. if p_ID p = pid
     then p\<lparr>p_ActiveRegistration := reg, p_ActiveConfirmedAt := whole_seconds now\<rparr> else p) (wd_permits w)\<rparr>"

section \<open>Who is displaced\<close>

definition displaced ::
  "site \<Rightarrow> reads \<Rightarrow> permit \<Rightarrow> override list \<Rightarrow> fleet_vehicles \<Rightarrow> weekly_rule list \<Rightarrow> string \<Rightarrow> string
     \<Rightarrow> source \<Rightarrow> time \<Rightarrow> displaced_booking" where
  "displaced si rd p overrides vehs rules prev actor src now =
     (if prev = [] then nobody_displaced
      else (case rd_members rd (p_Owner p) of
          None \<Rightarrow> nobody_displaced
        | Some members \<Rightarrow>
            let ids = filter (\<lambda>i. i \<noteq> 0) (map o_VehicleID overrides);
                vehicles = (\<lambda>i. if i \<in> set ids then map_of vehs (p_Owner p, i) else None);
                d = find_displaced overrides vehicles prev actor members now
            in if d_Reg d \<noteq> [] then d
               else if src = SourceRoster \<or> src = SourceNone then nobody_displaced
               else let roster = resolve (si_zone si (p_Owner p) (p_TenantID p)) now (permit_cycle p) rules [] in
                 if s_Source roster \<noteq> SourceRoster then nobody_displaced
                 else let rr = vi_Registration (vehicle_of vehs (p_Owner p) (s_VehicleID roster)) in
                   if rr = [] \<or> \<not> same_plate prev rr then nobody_displaced
                   else find_displaced_vehicle
                     (map (\<lambda>e. (snd (fst e), snd e)) (filter (\<lambda>e. fst (fst e) = p_Owner p) vehs)) prev actor members))"

section \<open>The end of a failure episode\<close>

definition close_out :: "faults \<Rightarrow> site \<Rightarrow> permit \<Rightarrow> time \<Rightarrow> world \<Rightarrow> world" where
  "close_out f si p now w =
     (case (if ft_lastApply f then None else LastApply (p_ID p) w) of
        None \<Rightarrow> w
      | Some l \<Rightarrow>
          if ar_Status l \<noteq> ''error'' \<or> ar_Registration l = [] then w
          else if same_plate (ar_Registration l) (p_ActiveRegistration p)
          then logApply f (p_ID p) (ar_Registration l) (ar_Source l) ''success''
            ''went through on a later attempt, and the council confirms this rego is on the permit'' w
          else
            (let reason = ''Your schedule no longer asks for that change, because the booking ended or the schedule moved on. p.stonn never made it, and ''
                   @ p_ActiveRegistration p @ '' stayed on the permit throughout.'';
                 w1 = logApply f (p_ID p) (ar_Registration l) (ar_Source l) ''error'' reason w;
                 corrects = (if failureNoticeSent f (p_ID p) (ar_Registration l) w1
                   then '' This corrects our earlier message that p.stonn was still trying.'' else '''');
                 action = ''You don't need to do anything now.'' @ corrects @ '' If the car with rego ''
                   @ ar_Registration l @ '' was parked there during the booking, it was not covered.''
             in notifyUser f p (no_outcome\<lparr>ao_Owner := p_Owner p, ao_PermitLabel := permitLabel p,
                  ao_Reg := ar_Registration l, ao_CurrentReg := p_ActiveRegistration p,
                  ao_Reason := reason, ao_Action := action\<rparr>)
                  (''unapplied|'' @ ar_Registration l @ ''|'' @ failureKeyDay (si_zone si (p_Owner p) (p_TenantID p)) now)
                  now w1))"

definition settle :: "faults \<Rightarrow> site \<Rightarrow> permit \<Rightarrow> time \<Rightarrow> world \<Rightarrow> world" where
  "settle f si p now w =
     (if p_FailStreak p = 0 then w
      else (case (if ft_settleRead f then None else GetPermit (p_ID p) w) of
          None \<Rightarrow> w
        | Some fresh \<Rightarrow>
            if p_FailStreak fresh = 0 \<or> \<not> same_plate (p_ActiveRegistration fresh) (p_ActiveRegistration p) then w
            else let p' = p\<lparr>p_FailStreak := p_FailStreak fresh, p_ActiveRegistration := p_ActiveRegistration fresh\<rparr>;
                w1 = (if failNotifyThreshold \<le> p_FailStreak p' then close_out f si p' now w else w)
              in on_sched (clearRetry (p_ID p))
                   (clearFailStreak f (p_ID p) (fst (closeFailureEpisode f (p_ID p) w1)))))"

section \<open>States with nothing to apply\<close>

definition noteUnscheduled :: "int \<Rightarrow> string \<Rightarrow> world \<Rightarrow> world \<times> bool" where
  "noteUnscheduled pid state w =
     (if sc_unscheduled (wd_s w) pid = Some state then (w, False)
      else (on_sched (\<lambda>s. s\<lparr>sc_unscheduled := (sc_unscheduled s)(pid \<mapsto> state)\<rparr>) w, True))"

definition clearUnscheduled :: "int \<Rightarrow> world \<Rightarrow> world" where
  "clearUnscheduled pid = on_sched (\<lambda>s. s\<lparr>sc_unscheduled := (sc_unscheduled s)(pid := None)\<rparr>)"

definition reportUnresolvable :: "faults \<Rightarrow> permit \<Rightarrow> resolution \<Rightarrow> time \<Rightarrow> world \<Rightarrow> world" where
  "reportUnresolvable f p res now w =
     (case noteUnscheduled (p_ID p)
         (''unresolved|'' @ show_int (s_VehicleID res) @ ''|'' @ norm_plate (p_ActiveRegistration p)) w of
        (w1, False) \<Rightarrow> w1
      | (w1, True) \<Rightarrow>
          (let reason = ''The rego this permit is scheduled to use is no longer saved, so p.stonn has not changed the permit.'';
               action = ''Open p.stonn and choose a rego for today, or add the rego back.'';
               w2 = logApply f (p_ID p) (p_ActiveRegistration p) (source_str (s_Source res)) ''error'' reason w1
           in notifyUser f p (no_outcome\<lparr>ao_Owner := p_Owner p, ao_PermitLabel := permitLabel p,
                ao_Reg := p_ActiveRegistration p, ao_CurrentReg := p_ActiveRegistration p,
                ao_Reason := reason, ao_Action := action, ao_Transient := True\<rparr>)
                (''unscheduled|'' @ show_int (s_VehicleID res) @ ''|'' @ p_ActiveRegistration p) now w2))"

definition reportTenantUnavailable ::
  "faults \<Rightarrow> reads \<Rightarrow> permit \<Rightarrow> string \<Rightarrow> string \<Rightarrow> resolution \<Rightarrow> rat \<Rightarrow> time \<Rightarrow> world \<Rightarrow> world" where
  "reportTenantUnavailable f rd p want wantName res u now w =
     (let reason = ''p.stonn is not working with this permit's council at the moment, so it has not made the change.'';
          action = ''Change the rego on your permit at the council yourself. p.stonn will resume automatically once the council is available again.'';
          w1 = logApply f (p_ID p) want (source_str (s_Source res)) ''error'' reason (on_sched (deferRetry (p_ID p) 5 u now) w)
      in notifyFailure f rd p (no_outcome\<lparr>ao_Owner := p_Owner p, ao_PermitLabel := permitLabel p, ao_Reg := want,
           ao_Name := wantName, ao_CurrentReg := p_ActiveRegistration p, ao_Reason := reason, ao_Action := action\<rparr>)
           TierSoft now w1)"

section \<open>The target\<close>

record target =
  tg_want :: string
  tg_Name :: string
  tg_Color :: string
  tg_Region :: string

definition target_of :: "fleet_vehicles \<Rightarrow> permit \<Rightarrow> resolution \<Rightarrow> target" where
  "target_of vehs p res =
     (if s_Empty res then \<lparr>tg_want = [], tg_Name = [], tg_Color = [], tg_Region = []\<rparr>
      else if s_Registration res \<noteq> []
      then \<lparr>tg_want = s_Registration res, tg_Name = [], tg_Color = [], tg_Region = s_State res\<rparr>
      else let v = vehicle_of vehs (p_Owner p) (s_VehicleID res)
        in \<lparr>tg_want = vi_Registration v, tg_Name = vi_Label v, tg_Color = vi_Color v, tg_Region = vi_State v\<rparr>)"

section \<open>After the write\<close>

definition applied ::
  "faults \<Rightarrow> reads \<Rightarrow> site \<Rightarrow> fleet_vehicles \<Rightarrow> permit \<Rightarrow> resolution \<Rightarrow> target \<Rightarrow> override list
     \<Rightarrow> weekly_rule list \<Rightarrow> time \<Rightarrow> time \<Rightarrow> world \<Rightarrow> world" where
  "applied f rd si vehs p res tg overrides rules now now' w =
     (let prev = p_ActiveRegistration p; want = tg_want tg;
          w1 = on_sched (clearRetry (p_ID p)) (clearFailStreak f (p_ID p) w);
          w2 = logApply f (p_ID p) want (source_str (s_Source res)) ''success'' '''' w1;
          d = displaced si rd p overrides vehs rules prev (s_By res) (s_Source res) now
      in case warnDisplaced f rd d prev want w2 of (w3, told) \<Rightarrow>
         case notifyAddedDriver f rd p want vehs w3 of (w4, driverTold) \<Rightarrow>
         case closeFailureEpisode f (p_ID p) w4 of (w5, resolves) \<Rightarrow>
           notifyUser f p (no_outcome\<lparr>ao_Owner := p_Owner p, ao_PermitLabel := permitLabel p, ao_Reg := want,
             ao_Name := tg_Name tg, ao_Color := tg_Color tg, ao_Source := source_str (s_Source res), ao_By := s_By res,
             ao_OK := True, ao_Empty := s_Empty res, ao_DisplacedReg := d_Reg d, ao_DisplacedTold := told,
             ao_DriverTold := driverTold, ao_ResolvesFailure := resolves\<rparr>)
             (''success|'' @ prev @ ''>'' @ want) now' w5)"

definition council_busy_report ::
  "faults \<Rightarrow> reads \<Rightarrow> site \<Rightarrow> permit \<Rightarrow> resolution \<Rightarrow> target \<Rightarrow> time \<Rightarrow> world \<Rightarrow> world" where
  "council_busy_report f rd si p res tg now w =
     (let authDown = si_AuthGated si (p_TenantID p);
          confirmed = (\<not> authDown \<and> si_Blocked si (p_TenantID p));
          threshold = (if confirmed then blockNotifyThreshold else busyNotifyThreshold);
          texts = (if confirmed
            then (''The council is refusing p.stonn's connection at the moment, so your permit has not changed.'',
              ''If a different car is parked there, change the rego on your permit yourself at the council now to avoid a fine. p.stonn will resume automatically once the block clears.'')
            else if authDown
            then (''The council's parking system is down right now, so p.stonn couldn't update your permit.'',
              ''You don't need to do anything. p.stonn will keep trying and will make the change once the council's system is back.'')
            else describeFailure FailTransient OpUnknown);
          w1 = logApply f (p_ID p) (tg_want tg) (source_str (s_Source res)) ''error'' (fst texts) w
      in fst (escalateFailure f rd p threshold
           (no_outcome\<lparr>ao_Owner := p_Owner p, ao_PermitLabel := permitLabel p, ao_Reg := tg_want tg,
             ao_Name := tg_Name tg, ao_Empty := s_Empty res, ao_CurrentReg := p_ActiveRegistration p,
             ao_CouncilDown := authDown, ao_Reason := fst texts, ao_Action := snd texts,
             ao_Transient := True, ao_Urgent := confirmed\<rparr>)
           (if confirmed then TierUrgent else TierSoft) now w1))"

definition session_expired_report ::
  "faults \<Rightarrow> reads \<Rightarrow> permit \<Rightarrow> resolution \<Rightarrow> target \<Rightarrow> err \<Rightarrow> rat \<Rightarrow> time \<Rightarrow> world \<Rightarrow> world" where
  "session_expired_report f rd p res tg e u now w =
     (let w1 = (case as_gen e of None \<Rightarrow> w | Some g \<Rightarrow> enqueueReconnect (p_Owner p) (p_TenantID p) g now w);
          reason = ''p.stonn's sign-in to the council has expired, and it has not yet been able to sign in again, so your permit has not changed.'';
          w2 = logApply f (p_ID p) (tg_want tg) (source_str (s_Source res)) ''error'' reason w1;
          w3 = fst (escalateFailure f rd p sessionNotifyThreshold
            (no_outcome\<lparr>ao_Owner := p_Owner p, ao_PermitLabel := permitLabel p, ao_Reg := tg_want tg,
              ao_Name := tg_Name tg, ao_Empty := s_Empty res, ao_CurrentReg := p_ActiveRegistration p,
              ao_Reason := reason,
              ao_Action := ''If a different car is parked there, change the rego on your permit yourself at the council now to avoid a fine. p.stonn keeps trying to reconnect, and will email you if you need to link your account again.'',
              ao_Transient := True, ao_Urgent := True\<rparr>) TierUrgent now w2)
      in on_sched (deferRetry (p_ID p) 3 u now) w3)"

definition note_busy :: "string \<Rightarrow> pass_stats \<Rightarrow> pass_stats" where
  "note_busy owner st = st\<lparr>ps_busyOwners := List.insert owner (ps_busyOwners st)\<rparr>"

text \<open>The switch over the council's answer, with whether the council was contacted.\<close>

definition after_write ::
  "faults \<Rightarrow> reads \<Rightarrow> site \<Rightarrow> fleet_vehicles \<Rightarrow> permit \<Rightarrow> resolution \<Rightarrow> target \<Rightarrow> override list
     \<Rightarrow> weekly_rule list \<Rightarrow> err option \<Rightarrow> rat \<Rightarrow> time \<Rightarrow> time \<Rightarrow> world \<times> pass_stats \<Rightarrow> (world \<times> pass_stats) \<times> bool" where
  "after_write f rd si vehs p res tg overrides rules answer u now now' ws =
     (case ws of (w, st) \<Rightarrow>
      (case answer of
         None \<Rightarrow>
           if ft_commit f
           then ((on_sched (deferRetry (p_ID p) 3 u now')
                    (fst (bumpFailStreak f (p_ID p) (raise_alert ''commit-after-apply'' now' w))), st), True)
           else ((applied f rd si vehs p res tg overrides rules now now' w, st), True)
       | Some e \<Rightarrow>
           if err_is e ErrTenantUnavailable
           then ((reportTenantUnavailable f rd p (tg_want tg) (tg_Name tg) res u now' w, st), False)
           else if err_is e ErrNotLinked then ((w, st), False)
           else if err_is e ErrUnavailable
           then ((council_busy_report f rd si p res tg now' w, note_busy (p_Owner p) st), False)
           else if err_is e ErrNotCaptured
           then (handleApplyFailure f rd p (tg_want tg) (tg_Name tg) (source_str (s_Source res)) (s_Empty res) e u now'
                   (raise_alert ''not-captured'' now' w, st), True)
           else if err_is e ErrSessionExpired
           then ((session_expired_report f rd p res tg e u now' w, st), True)
           else (handleApplyFailure f rd p (tg_want tg) (tg_Name tg) (source_str (s_Source res)) (s_Empty res) e u now'
                   (w, st), True)))"

text \<open>Under the claim: re-read the permit's own belief, write, commit, release.\<close>

definition write_claimed ::
  "faults \<Rightarrow> reads \<Rightarrow> site \<Rightarrow> wire \<Rightarrow> fleet_vehicles \<Rightarrow> permit \<Rightarrow> resolution \<Rightarrow> target \<Rightarrow> override list
     \<Rightarrow> weekly_rule list \<Rightarrow> nat \<Rightarrow> rat \<Rightarrow> time \<Rightarrow> time \<Rightarrow> world \<times> pass_stats \<Rightarrow> (world \<times> pass_stats) \<times> bool" where
  "write_claimed f rd si wr vehs p res tg overrides rules ch u now now' ws =
     (case ws of (w, st) \<Rightarrow>
      let free = on_sched (release_apply (p_ID p) ch); z = si_zone si (p_Owner p) (p_TenantID p) in
      (case (if ft_reread f then None else GetPermit (p_ID p) w) of
         None \<Rightarrow> ((free w, st), False)
       | Some fresh \<Rightarrow>
           if permit_inactive (si_local si) fresh now (Some z) then ((free w, st), False)
           else let p' = p\<lparr>p_ActiveRegistration := p_ActiveRegistration fresh, p_FailStreak := p_FailStreak fresh\<rparr> in
             if same_plate (tg_want tg) (p_ActiveRegistration p')
             then ((free (settle f si p' now w), st), False)
             else let w1 = wr_others wr w;
                 w2 = (if wr_err wr = None \<and> \<not> ft_commit f then SetPermitActive (p_ID p) (tg_want tg) now' w1 else w1)
               in after_write f rd si vehs p' res tg overrides rules (wr_err wr) u now now' (free w2, st)))"

definition reconcilePermit ::
  "faults \<Rightarrow> reads \<Rightarrow> site \<Rightarrow> wire \<Rightarrow> fleet_vehicles \<Rightarrow> rat \<Rightarrow> time \<Rightarrow> time \<Rightarrow> permit
     \<Rightarrow> world \<times> pass_stats \<Rightarrow> (world \<times> pass_stats) \<times> bool" where
  "reconcilePermit f rd si wr vehs u now now' p ws =
     (case ws of (w, st) \<Rightarrow>
      (case (rd_rules rd (p_ID p), rd_overrides rd (p_ID p)) of
         (Some rules, Some overrides) \<Rightarrow>
           (let res = resolve (si_zone si (p_Owner p) (p_TenantID p)) now (permit_cycle p) rules overrides;
                tg = target_of vehs p res; want = tg_want tg
            in if s_Source res = SourceNone
               then ((settle f si p now
                        (fst (noteUnscheduled (p_ID p) (''none|'' @ norm_plate (p_ActiveRegistration p)) w)), st), False)
               else if s_Empty res \<and> \<not> si_CanClear si (p_Owner p) (p_TenantID p)
               then ((settle f si p now
                        (fst (noteUnscheduled (p_ID p) (''noclear|'' @ norm_plate (p_ActiveRegistration p)) w)), st), False)
               else if \<not> s_Empty res \<and> want = []
               then ((settle f si p now (reportUnresolvable f p res now w), st), False)
               else let w1 = clearUnscheduled (p_ID p) w in
                 if same_plate want (p_ActiveRegistration p) then ((settle f si p now w1, st), False)
                 else if \<not> spreadElapsed (wd_s w1) (p_ID p) res now then ((w1, st), False)
                 else let w2 = on_sched (unparkIfTargetChanged (p_ID p) want) w1 in
                   if retryDeferred (p_ID p) now (wd_s w2) then ((w2, st), False)
                   else (case tryApply (p_ID p) (wd_s w2) of
                       (s', None) \<Rightarrow> ((w2, st), False)
                     | (s', Some ch) \<Rightarrow>
                         write_claimed f rd si wr vehs p res tg overrides rules ch u now now' (w2\<lparr>wd_s := s'\<rparr>, st)))
       | _ \<Rightarrow> ((w, st), False)))"

section \<open>The pass\<close>

text \<open>
  One permit's turn, or its panic with what it did before (\<open>tn_panic\<close>); the turns of a pass are listed
  with the environment each had. \<open>tn_stop\<close> says that the context was cancelled after the turn.
\<close>

record turn =
  tn_faults :: faults
  tn_reads :: reads
  tn_site :: site
  tn_wire :: wire
  tn_draw :: rat
  tn_now :: time
  tn_now' :: time
  tn_panic :: "(world \<Rightarrow> world) option"
  tn_stop :: bool

definition safeReconcilePermit :: "turn \<Rightarrow> fleet_vehicles \<Rightarrow> permit \<Rightarrow> world \<times> pass_stats \<Rightarrow> world \<times> pass_stats" where
  "safeReconcilePermit tn vehs p ws =
     (case tn_panic tn of
        Some g \<Rightarrow> (raise_alert ''panic-permit'' (tn_now' tn) (g (fst ws)), snd ws)
      | None \<Rightarrow> fst (reconcilePermit (tn_faults tn) (tn_reads tn) (tn_site tn) (tn_wire tn) vehs (tn_draw tn)
             (tn_now tn) (tn_now' tn) p ws))"

fun reconcile_loop ::
  "(permit \<Rightarrow> turn) \<Rightarrow> fleet_vehicles \<Rightarrow> time \<Rightarrow> permit list \<Rightarrow> string list \<Rightarrow> world \<times> pass_stats
     \<Rightarrow> (world \<times> pass_stats) \<times> string list \<times> bool" where
  "reconcile_loop turns vehs now [] owners ws = (ws, owners, True)"
| "reconcile_loop turns vehs now (p # ps) owners ws =
     (let tn = turns p; z = si_zone (tn_site tn) (p_Owner p) (p_TenantID p) in
      if permit_inactive (si_local (tn_site tn)) p now (Some z) then reconcile_loop turns vehs now ps owners ws
      else let owners' = List.insert (p_Owner p) owners;
          ws' = safeReconcilePermit tn vehs p (on_sched (progress (tn_now tn)) (fst ws), snd ws)
        in if tn_stop tn then (ws', owners', False)
           else reconcile_loop turns vehs now ps owners' ws')"

text \<open>\<open>reconcileAll\<close>: the permits and the saved vehicles as listed, \<open>None\<close> for a failed read.\<close>

definition vehicle_table :: "(string \<times> vehicle) list \<Rightarrow> fleet_vehicles" where
  "vehicle_table vs = foldl (\<lambda>m (owner, v). put (owner, v_ID v)
     \<lparr>vi_Registration = v_Registration v, vi_Label = v_Label v, vi_Email = v_Email v,
      vi_Color = v_Color v, vi_State = v_State v, vi_NotifyDriver = v_NotifyDriver v\<rparr> m) [] vs"

definition reconcileAll ::
  "(permit \<Rightarrow> turn) \<Rightarrow> permit list option \<Rightarrow> (string \<times> vehicle) list option \<Rightarrow> time \<Rightarrow> time \<Rightarrow> world \<Rightarrow> world \<times> pass_end" where
  "reconcileAll turns permits vehicles now fin w =
     (case permits of
        None \<Rightarrow> (raise_alert ''db-permits'' now w, Bailed)
      | Some ps \<Rightarrow> (case vehicles of
          None \<Rightarrow> (raise_alert ''db-vehicles'' now w, Bailed)
        | Some vs \<Rightarrow>
            (case reconcile_loop turns (vehicle_table vs) now ps []
                (on_sched (\<lambda>s. s\<lparr>sc_fleetSize := int (length ps)\<rparr>) w, no_stats) of
               ((w', st), owners, True) \<Rightarrow> (detectSystemic st (int (length owners)) fin w', Completed)
             | ((w', st), owners, False) \<Rightarrow> (w', Bailed))))"

section \<open>What the bookkeeping leaves alone\<close>

text \<open>
  Much of a turn is bookkeeping: the activity log, the notices, the alerts, the streak, the queue of
  sessions to recover. An observation of the world that ignores the fields they write is unchanged by
  all of them. It is used twice below: for the plates and the claims, and for the retry windows.
\<close>

named_theorems core_simps \<open>operations that keep the permits' plates and the claims\<close>

locale bookkeeping_observer =
  fixes obs :: "world \<Rightarrow> 'a"
  assumes obs_notify: "obs (w\<lparr>wd_notify := rows\<rparr>) = obs w"
    and obs_log: "obs (w\<lparr>wd_log := entries\<rparr>) = obs w"
    and obs_jobs: "obs (w\<lparr>wd_jobs := jobs\<rparr>) = obs w"
    and obs_sent: "obs (w\<lparr>wd_sent := sent\<rparr>) = obs w"
    and obs_alert: "obs (w\<lparr>wd_s := (wd_s w)\<lparr>sc_lastAlert := stamps\<rparr>\<rparr>) = obs w"
    and obs_inflight: "obs (w\<lparr>wd_s := (wd_s w)\<lparr>sc_notifyInFlight := keys\<rparr>\<rparr>) = obs w"
    and obs_queue: "obs (w\<lparr>wd_s := (wd_s w)\<lparr>sc_reconnectQ := q\<rparr>\<rparr>) = obs w"
    and obs_churn: "obs (w\<lparr>wd_s := (wd_s w)\<lparr>sc_churnExpiry := es\<rparr>\<rparr>) = obs w"
    and obs_streak: "obs (w\<lparr>wd_permits := map (\<lambda>p. if c p then p\<lparr>p_FailStreak := g p\<rparr> else p) (wd_permits w)\<rparr>) = obs w"
begin

lemma obs_send: "obs (send m w) = obs w"
  by (simp add: send_def obs_sent)

lemma obs_on_row: "obs (on_row pid g w) = obs w"
  by (simp add: on_row_def obs_notify)

lemma obs_raise: "obs (raise_alert key now w) = obs w"
proof -
  obtain s' b where a: "systemAlert key now (wd_s w) = (s', b)" by (metis surj_pair)
  then obtain stamps where "s' = (wd_s w)\<lparr>sc_lastAlert := stamps\<rparr> \<or> s' = wd_s w"
    by (auto simp: systemAlert_def systemAlertEvery_def Let_def split: if_splits)
  then have "obs (w\<lparr>wd_s := s'\<rparr>) = obs w" using obs_alert by auto
  then show ?thesis using a by (cases b) (simp_all add: raise_alert_def obs_send)
qed

lemma obs_logApply: "obs (logApply f pid reg src st detail w) = obs w"
  by (auto simp: logApply_def RecordApply_def obs_log)

lemma obs_bump: "obs (fst (bumpFailStreak f pid w)) = obs w"
  using obs_streak [where c = "\<lambda>p. p_ID p = pid" and g = "\<lambda>p. p_FailStreak p + 1" and w = w]
  by (auto simp: bumpFailStreak_def BumpFailStreak_def split: option.splits)

lemma obs_clear: "obs (clearFailStreak f pid w) = obs w"
  using obs_streak [where c = "\<lambda>p. p_ID p = pid \<and> p_FailStreak p \<noteq> 0" and g = "\<lambda>_. 0" and w = w]
  by (simp add: clearFailStreak_def ClearFailStreak_def)

lemma obs_close: "obs (fst (closeFailureEpisode f pid w)) = obs w"
  by (auto simp: closeFailureEpisode_def CloseFailureEpisode_def obs_on_row)

lemma obs_notice: "obs (notifyUserThen f p ao key after now w) = obs w"
proof (cases rule: notifyUserThen_cases [of f p ao key after now w])
  case 1
  then show ?thesis by simp
next
  case (2 j)
  define keys where "keys = insert (notice_claim (p_ID p) key) (sc_notifyInFlight (wd_s w))"
  have "obs (w\<lparr>wd_s := (wd_s w)\<lparr>sc_notifyInFlight := keys\<rparr>, wd_jobs := wd_jobs w @ [Notice j]\<rparr>) = obs w"
    using obs_jobs [where w = "w\<lparr>wd_s := (wd_s w)\<lparr>sc_notifyInFlight := keys\<rparr>\<rparr>" and jobs = "wd_jobs w @ [Notice j]"] obs_inflight
    by simp
  then show ?thesis using 2 by (simp add: keys_def)
qed

lemma obs_notifyUser: "obs (notifyUser f p ao key now w) = obs w"
  by (simp add: notifyUser_def obs_notice)

lemma obs_mark: "obs (MarkFailureTold pid plate urgent w) = obs w"
  by (simp add: MarkFailureTold_def obs_on_row)

lemma obs_adopt: "obs (fst (adopt_told f p reg w)) = obs w"
  by (auto simp: adopt_told_def Let_def obs_mark split: option.split)

lemma obs_failed_driver: "obs (fst (notifyFailedDriver f rd p ao w)) = obs w"
  by (auto simp: notifyFailedDriver_def obs_send split: option.split)

lemma obs_failure: "obs (notifyFailure f rd p ao tier now w) = obs w"
proof -
  obtain w1 told urgent where a: "adopt_told f p (ao_Reg ao) w = (w1, told, urgent)" by (metis surj_pair)
  obtain w2 addr where d: "notifyFailedDriver f rd p ao w1 = (w2, addr)" by (metis surj_pair)
  have "obs w1 = obs w" using obs_adopt [of f p "ao_Reg ao" w] a by simp
  moreover have "obs w2 = obs w1" using obs_failed_driver [of f rd p ao w1] d by simp
  ultimately show ?thesis by (simp add: notifyFailure_def a d obs_notice)
qed

lemma obs_escalate: "obs (fst (escalateFailure f rd p th ao tier now w)) = obs w"
proof -
  obtain w1 n where b: "bumpFailStreak f (p_ID p) w = (w1, n)" by (metis surj_pair)
  then have "obs w1 = obs w" using obs_bump [of f "p_ID p" w] by simp
  then show ?thesis by (simp add: escalateFailure_def b obs_failure)
qed

lemma obs_warn: "obs (fst (warnDisplaced f rd d prev want w)) = obs w"
  by (auto simp: warnDisplaced_def warnDisplacedHow_def obs_send)

lemma obs_added: "obs (fst (notifyAddedDriver f rd p want vehs w)) = obs w"
  by (auto simp: notifyAddedDriver_def Let_def obs_send split: option.splits)

lemma obs_enqueue: "obs (enqueueReconnect owner tn g now w) = obs w"
proof -
  obtain s' b where q: "queueReconnectItem owner tn g True now (wd_s w) = (s', b)" by (metis surj_pair)
  then obtain rq where s': "s' = (wd_s w)\<lparr>sc_reconnectQ := rq\<rparr> \<or> s' = wd_s w"
    by (auto simp: queueReconnectItem_def split: option.splits if_splits)
  then have o1: "obs (w\<lparr>wd_s := s'\<rparr>) = obs w" using obs_queue by auto
  moreover have "obs (w\<lparr>wd_s := s'\<lparr>sc_churnExpiry := es\<rparr>\<rparr>) = obs w" for es
    using obs_churn [where w = "w\<lparr>wd_s := s'\<rparr>" and es = es] o1 by simp
  ultimately show ?thesis using q
    by (cases b) (simp_all add: enqueueReconnect_def noteSessionExpiry_def Let_def obs_raise)
qed

lemma obs_close_out: "obs (close_out f si p now w) = obs w"
proof (cases "if ft_lastApply f then None else LastApply (p_ID p) w")
  case None
  then show ?thesis by (simp only: close_out_def option.case)
next
  case (Some l)
  then show ?thesis
    by (simp only: close_out_def option.case Let_def obs_logApply obs_notifyUser if_cancel if_distrib [of obs])
qed

lemma obs_busy: "obs (council_busy_report f rd si p res tg now w) = obs w"
  by (simp only: council_busy_report_def Let_def obs_escalate obs_logApply)

lemmas obs_books = obs_send obs_on_row obs_raise obs_logApply obs_bump obs_clear obs_close obs_notice obs_notifyUser
  obs_mark obs_adopt obs_failed_driver obs_failure obs_escalate obs_warn obs_added obs_enqueue obs_close_out obs_busy

end

text \<open>The permits up to their streaks, and the claims: only the write itself touches these.\<close>

definition core :: "world \<Rightarrow> permit list \<times> (int \<rightharpoonup> nat) \<times> nat set \<times> nat" where
  "core w = (map (\<lambda>p. p\<lparr>p_FailStreak := 0\<rparr>) (wd_permits w), sc_applying (wd_s w), sc_closed (wd_s w), sc_channels (wd_s w))"

text \<open>The retry windows, and the settings they are computed from.\<close>

definition windows :: "world \<Rightarrow> (int \<rightharpoonup> time) \<times> (int \<rightharpoonup> string) \<times> dur \<times> rat" where
  "windows w = (sc_nextTry (wd_s w), sc_parkedFor (wd_s w), sc_interval (wd_s w), sc_jitterFrac (wd_s w))"

interpretation cores: bookkeeping_observer core
  by unfold_locales (auto simp: core_def)

interpretation wins: bookkeeping_observer windows
  by unfold_locales (auto simp: windows_def)

lemmas core_books [core_simps] = cores.obs_books

definition active_plate :: "int \<Rightarrow> world \<Rightarrow> string option" where
  "active_plate pid w = map_option p_ActiveRegistration (GetPermit pid w)"

lemma find_unstreaked:
  "map_option p_ActiveRegistration (find (\<lambda>p. p_ID p = pid) (map (\<lambda>p. p\<lparr>p_FailStreak := 0\<rparr>) ps))
   = map_option p_ActiveRegistration (find (\<lambda>p. p_ID p = pid) ps)"
  by (induction ps) auto

lemma active_plate_core: "core w = core w' \<Longrightarrow> active_plate pid w = active_plate pid w'"
  using find_unstreaked [of pid "wd_permits w"] find_unstreaked [of pid "wd_permits w'"]
  by (simp add: core_def active_plate_def GetPermit_def)

lemma applying_core: "core w = core w' \<Longrightarrow> sc_applying (wd_s w) = sc_applying (wd_s w')"
  by (simp add: core_def)

lemma core_on_sched:
  assumes "sc_applying (g (wd_s w)) = sc_applying (wd_s w)" and "sc_closed (g (wd_s w)) = sc_closed (wd_s w)"
    and "sc_channels (g (wd_s w)) = sc_channels (wd_s w)"
  shows "core (on_sched g w) = core w"
  using assms by (simp add: core_def)

lemma core_retry [core_simps]:
  "core (on_sched (clearRetry pid) w) = core w" "core (on_sched (deferRetry pid n u now) w) = core w"
  "core (on_sched (parkRetry pid reg now) w) = core w" "core (on_sched (unparkIfTargetChanged pid reg) w) = core w"
  "core (on_sched (progress now) w) = core w"
  by (auto intro!: core_on_sched simp: clearRetry_def deferRetry_def parkRetry_def unparkIfTargetChanged_def progress_def
      split: option.splits if_splits)

lemma core_unscheduled [core_simps]:
  "core (fst (noteUnscheduled pid st w)) = core w" "core (clearUnscheduled pid w) = core w"
  by (auto simp: noteUnscheduled_def clearUnscheduled_def core_def)

lemma core_settle [core_simps]: "core (settle f si p now w) = core w"
proof (cases "if ft_settleRead f then None else GetPermit (p_ID p) w")
  case None
  then show ?thesis by (simp only: settle_def option.case if_cancel)
next
  case (Some fresh)
  then show ?thesis
    by (simp only: settle_def option.case Let_def if_distrib [of core] if_cancel core_retry cores.obs_clear cores.obs_close cores.obs_close_out)
qed

lemma core_unresolvable [core_simps]: "core (reportUnresolvable f p res now w) = core w"
proof -
  obtain w1 b where n: "noteUnscheduled (p_ID p) (''unresolved|'' @ show_int (s_VehicleID res) @ ''|''
      @ norm_plate (p_ActiveRegistration p)) w = (w1, b)" by (metis surj_pair)
  then have "core w1 = core w" using core_unscheduled(1) [of "p_ID p" _ w] by (metis fst_conv)
  then show ?thesis using n by (cases b) (simp_all add: reportUnresolvable_def Let_def core_simps)
qed

lemma core_unavailable [core_simps]: "core (reportTenantUnavailable f rd p want nm res u now w) = core w"
  by (simp only: reportTenantUnavailable_def Let_def cores.obs_failure cores.obs_logApply core_retry)

lemma core_applied [core_simps]: "core (applied f rd si vehs p res tg ovs rules now now' w) = core w"
proof -
  define w2 where "w2 = logApply f (p_ID p) (tg_want tg) (source_str (s_Source res)) ''success'' []
    (on_sched (clearRetry (p_ID p)) (clearFailStreak f (p_ID p) w))"
  define d where "d = displaced si rd p ovs vehs rules (p_ActiveRegistration p) (s_By res) (s_Source res) now"
  obtain w3 told where 1: "warnDisplaced f rd d (p_ActiveRegistration p) (tg_want tg) w2 = (w3, told)" by (metis surj_pair)
  obtain w4 dt where 2: "notifyAddedDriver f rd p (tg_want tg) vehs w3 = (w4, dt)" by (metis surj_pair)
  obtain w5 rs where 3: "closeFailureEpisode f (p_ID p) w4 = (w5, rs)" by (metis surj_pair)
  have "core w2 = core w" by (simp only: w2_def cores.obs_logApply core_retry cores.obs_clear)
  moreover have "core w3 = core w2" using cores.obs_warn [of f rd d "p_ActiveRegistration p" "tg_want tg" w2] 1 by simp
  moreover have "core w4 = core w3" using cores.obs_added [of f rd p "tg_want tg" vehs w3] 2 by simp
  moreover have "core w5 = core w4" using cores.obs_close [of f "p_ID p" w4] 3 by simp
  ultimately show ?thesis
    by (simp only: applied_def Let_def w2_def [symmetric] d_def [symmetric] 1 2 3 prod.case cores.obs_notifyUser)
qed

lemma core_expired [core_simps]: "core (session_expired_report f rd p res tg e u now w) = core w"
proof (cases "as_gen e")
  case None
  then show ?thesis by (simp only: session_expired_report_def Let_def cores.obs_escalate cores.obs_logApply core_retry option.case)
next
  case (Some g)
  then show ?thesis
    by (simp only: session_expired_report_def Let_def cores.obs_escalate cores.obs_logApply core_retry cores.obs_enqueue option.case)
qed

lemma core_handle [core_simps]:
  "core (fst (handleApplyFailure f rd p want nm src em e u now (w, st))) = core w"
proof -
  obtain kind opn where k: "failure_of (Some e) = (kind, opn)" by (metis surj_pair)
  obtain reason action where r: "describeFailure kind opn = (reason, action)" by (metis surj_pair)
  show ?thesis using cores.obs_escalate core_retry cores.obs_logApply
    by (simp add: handleApplyFailure_def k r Let_def split: prod.split) (metis fst_conv)
qed

lemma core_after_write:
  "core (fst (fst (after_write f rd si vehs p res tg ovs rules answer u now now' (w, st)))) = core w"
  by (simp add: after_write_def core_simps split: option.split)

section \<open>The decision of a turn\<close>

text \<open>
  What a turn is to write, from the state it starts in: \<open>None\<close> when the permit needs no council call
  (nothing scheduled, already right, not its turn, deferred, claimed by another writer, gone), the
  target plate otherwise.
\<close>

definition due ::
  "faults \<Rightarrow> reads \<Rightarrow> site \<Rightarrow> fleet_vehicles \<Rightarrow> time \<Rightarrow> permit \<Rightarrow> world \<Rightarrow> string option" where
  "due f rd si vehs now p w =
     (case (rd_rules rd (p_ID p), rd_overrides rd (p_ID p)) of
        (Some rules, Some overrides) \<Rightarrow>
          (let z = si_zone si (p_Owner p) (p_TenantID p);
               res = resolve z now (permit_cycle p) rules overrides;
               want = tg_want (target_of vehs p res)
           in if s_Source res = SourceNone \<or> (s_Empty res \<and> \<not> si_CanClear si (p_Owner p) (p_TenantID p))
                 \<or> (\<not> s_Empty res \<and> want = []) \<or> same_plate want (p_ActiveRegistration p)
                 \<or> \<not> spreadElapsed (wd_s w) (p_ID p) res now
                 \<or> retryDeferred (p_ID p) now (unparkIfTargetChanged (p_ID p) want (wd_s w))
                 \<or> sc_applying (wd_s w) (p_ID p) \<noteq> None
              then None
              else (case (if ft_reread f then None else GetPermit (p_ID p) w) of
                  None \<Rightarrow> None
                | Some fresh \<Rightarrow>
                    if permit_inactive (si_local si) fresh now (Some z) \<or> same_plate want (p_ActiveRegistration fresh)
                    then None else Some want))
      | _ \<Rightarrow> None)"

definition plates :: "world \<Rightarrow> permit list" where "plates w = map (\<lambda>p. p\<lparr>p_FailStreak := 0\<rparr>) (wd_permits w)"

text \<open>The claims are numbered: no channel yet to be made is closed.\<close>

definition channels_ok :: "world \<Rightarrow> bool" where
  "channels_ok w \<longleftrightarrow> (\<forall>ch. ch \<in> sc_closed (wd_s w) \<longrightarrow> ch < sc_channels (wd_s w))"

lemma plates_core: "core w = core w' \<Longrightarrow> plates w = plates w'"
  by (simp add: core_def plates_def)

lemma plates_sched [simp]: "plates (on_sched g w) = plates w" "plates (w\<lparr>wd_s := s\<rparr>) = plates w"
  by (simp_all add: plates_def)

lemma spread_unscheduled [simp]: "spreadElapsed (wd_s (clearUnscheduled pid w)) pid' res now = spreadElapsed (wd_s w) pid' res now"
proof -
  have "effectiveSpread (wd_s (clearUnscheduled pid w)) = effectiveSpread (wd_s w)"
    by (simp add: clearUnscheduled_def effectiveSpread_def Let_def)
  then show ?thesis by (simp only: spreadElapsed_def)
qed

lemma unpark_unscheduled [simp]:
  "retryDeferred pid now (unparkIfTargetChanged pid want (wd_s (clearUnscheduled pid' w)))
   = retryDeferred pid now (unparkIfTargetChanged pid want (wd_s w))"
  by (simp add: retryDeferred_def clearUnscheduled_def unparkIfTargetChanged_def split: option.split)

lemma GetPermit_unscheduled [simp]: "GetPermit i (clearUnscheduled pid w) = GetPermit i w"
  by (simp add: clearUnscheduled_def GetPermit_def)

lemma GetPermit_sched [simp]: "GetPermit i (on_sched g w) = GetPermit i w" "GetPermit i (w\<lparr>wd_s := s\<rparr>) = GetPermit i w"
  by (simp_all add: GetPermit_def)

lemma applying_unscheduled [simp]: "sc_applying (wd_s (clearUnscheduled pid w)) = sc_applying (wd_s w)"
  by (simp add: clearUnscheduled_def)

lemma applying_unpark [simp]: "sc_applying (unparkIfTargetChanged pid want s) = sc_applying s"
  by (simp add: unparkIfTargetChanged_def split: option.split)

lemma channels_core: "core w = core w' \<Longrightarrow> channels_ok w = channels_ok w'"
  by (simp add: core_def channels_ok_def)

lemma tryApply_free:
  assumes "sc_applying s pid = None"
  shows "tryApply pid s = (s\<lparr>sc_applying := (sc_applying s)(pid \<mapsto> sc_channels s), sc_channels := sc_channels s + 1\<rparr>,
    Some (sc_channels s))"
  using assms by (simp add: tryApply_def)

lemma release_own:
  assumes "sc_applying s pid = Some ch" and "ch \<notin> sc_closed s"
  shows "release_apply pid ch s = s\<lparr>sc_applying := (sc_applying s)(pid := None), sc_closed := insert ch (sc_closed s)\<rparr>"
  using assms by (simp add: release_apply_def)

text \<open>The claim was taken, nothing was written: the claims are as before.\<close>

lemma claim_returned:
  assumes free: "sc_applying (wd_s w) pid = None" and ok: "channels_ok w" and mid: "core w2 = core (w\<lparr>wd_s := fst (tryApply pid (wd_s w))\<rparr>)"
  defines "w3 \<equiv> on_sched (release_apply pid (sc_channels (wd_s w))) w2"
  shows "plates w3 = plates w" and "sc_applying (wd_s w3) = sc_applying (wd_s w)" and "channels_ok w3"
proof -
  have t: "sc_applying (wd_s w2) = (sc_applying (wd_s w))(pid \<mapsto> sc_channels (wd_s w))"
      "sc_channels (wd_s w2) = sc_channels (wd_s w) + 1" "sc_closed (wd_s w2) = sc_closed (wd_s w)" "plates w2 = plates w"
    using mid by (auto simp: core_def plates_def tryApply_free [OF free])
  have new: "sc_channels (wd_s w) \<notin> sc_closed (wd_s w)" using ok by (auto simp: channels_ok_def)
  have r: "wd_s w3 = (wd_s w2)\<lparr>sc_applying := (sc_applying (wd_s w2))(pid := None),
      sc_closed := insert (sc_channels (wd_s w)) (sc_closed (wd_s w2))\<rparr>"
    using new t unfolding w3_def by (simp add: release_own)
  show "plates w3 = plates w" using t by (simp add: w3_def)
  show "sc_applying (wd_s w3) = sc_applying (wd_s w)" using r t free by (simp add: fun_upd_idem)
  show "channels_ok w3" using r t ok by (auto simp: channels_ok_def less_Suc_eq)
qed

text \<open>The steps up to the claim: nothing of them reads the write.\<close>

definition at_claim :: "int \<Rightarrow> string \<Rightarrow> world \<Rightarrow> world" where
  "at_claim pid want w = on_sched (unparkIfTargetChanged pid want) (clearUnscheduled pid w)"

lemma at_claim_facts [simp]:
  "core (at_claim pid want w) = core w" "GetPermit i (at_claim pid want w) = GetPermit i w"
  "sc_applying (wd_s (at_claim pid want w)) = sc_applying (wd_s w)"
  by (simp_all add: at_claim_def core_simps)

lemma at_claim_fields:
  "sc_channels (wd_s (at_claim pid want w)) = sc_channels (wd_s w)"
  "sc_closed (wd_s (at_claim pid want w)) = sc_closed (wd_s w)" "plates (at_claim pid want w) = plates w"
  using at_claim_facts(1) [of pid want w] by (simp_all add: core_def plates_def del: at_claim_facts)

lemma turn_undecided:
  assumes R: "rd_rules rd (p_ID p) = Some rules" and O: "rd_overrides rd (p_ID p) = Some ovs"
    and res: "res = resolve (si_zone si (p_Owner p) (p_TenantID p)) now (permit_cycle p) rules ovs"
    and want: "want = tg_want (target_of vehs p res)"
    and quiet: "s_Source res = SourceNone \<or> (s_Empty res \<and> \<not> si_CanClear si (p_Owner p) (p_TenantID p))
        \<or> (\<not> s_Empty res \<and> want = []) \<or> same_plate want (p_ActiveRegistration p)
        \<or> \<not> spreadElapsed (wd_s w) (p_ID p) res now
        \<or> retryDeferred (p_ID p) now (unparkIfTargetChanged (p_ID p) want (wd_s w))
        \<or> sc_applying (wd_s w) (p_ID p) \<noteq> None"
  obtains w' where "\<And>wr now'. reconcilePermit f rd si wr vehs u now now' p (w, st) = ((w', st), False)" and "core w' = core w"
proof -
  note eqs = reconcilePermit_def R O option.case prod.case Let_def res [symmetric] want [symmetric]
  consider (none) "s_Source res = SourceNone"
    | (clear) "s_Source res \<noteq> SourceNone" "s_Empty res \<and> \<not> si_CanClear si (p_Owner p) (p_TenantID p)"
    | (unresolved) "s_Source res \<noteq> SourceNone" "\<not> (s_Empty res \<and> \<not> si_CanClear si (p_Owner p) (p_TenantID p))"
        "\<not> s_Empty res \<and> want = []"
    | (go) "s_Source res \<noteq> SourceNone" "\<not> (s_Empty res \<and> \<not> si_CanClear si (p_Owner p) (p_TenantID p))"
        "\<not> (\<not> s_Empty res \<and> want = [])" by blast
  then show thesis
  proof cases
    case none
    show thesis
      by (rule that [of "settle f si p now (fst (noteUnscheduled (p_ID p) (''none|'' @ norm_plate (p_ActiveRegistration p)) w))"])
        (simp_all only: eqs none simp_thms if_True core_settle core_unscheduled)
  next
    case clear
    show thesis
      by (rule that [of "settle f si p now (fst (noteUnscheduled (p_ID p) (''noclear|'' @ norm_plate (p_ActiveRegistration p)) w))"])
        (simp_all only: eqs clear simp_thms if_True if_False core_settle core_unscheduled)
  next
    case unresolved
    show thesis
      by (rule that [of "settle f si p now (reportUnresolvable f p res now w)"])
        (simp_all only: eqs unresolved simp_thms if_True if_False core_settle core_unresolvable)
  next
    case go
    consider (right) "same_plate want (p_ActiveRegistration p)"
      | (turn) "\<not> same_plate want (p_ActiveRegistration p)" "\<not> spreadElapsed (wd_s w) (p_ID p) res now"
      | (later_on) "\<not> same_plate want (p_ActiveRegistration p)" "spreadElapsed (wd_s w) (p_ID p) res now"
          "retryDeferred (p_ID p) now (unparkIfTargetChanged (p_ID p) want (wd_s w))"
      | (busy) ch where "\<not> same_plate want (p_ActiveRegistration p)" "spreadElapsed (wd_s w) (p_ID p) res now"
          "\<not> retryDeferred (p_ID p) now (unparkIfTargetChanged (p_ID p) want (wd_s w))"
          "sc_applying (wd_s w) (p_ID p) = Some ch"
      using quiet go by blast
    then show thesis
    proof cases
      case right
      show thesis
        by (rule that [of "settle f si p now (clearUnscheduled (p_ID p) w)"])
          (simp_all only: eqs go right simp_thms if_True if_False core_settle core_unscheduled)
    next
      case turn
      show thesis
        by (rule that [of "clearUnscheduled (p_ID p) w"])
          (simp_all only: eqs go turn spread_unscheduled simp_thms if_True if_False core_unscheduled)
    next
      case later_on
      show thesis
        by (rule that [of "at_claim (p_ID p) want w"])
          (simp_all add: eqs go later_on at_claim_def [symmetric], simp_all add: at_claim_def later_on)
    next
      case busy
      show thesis
        by (rule that [of "at_claim (p_ID p) want w"])
          (simp_all add: eqs go busy at_claim_def [symmetric], simp_all add: at_claim_def busy tryApply_def)
    qed
  qed
qed

lemma turn_decided:
  assumes R: "rd_rules rd (p_ID p) = Some rules" and O: "rd_overrides rd (p_ID p) = Some ovs"
    and res: "res = resolve (si_zone si (p_Owner p) (p_TenantID p)) now (permit_cycle p) rules ovs"
    and tg: "tg = target_of vehs p res"
    and go: "s_Source res \<noteq> SourceNone" "\<not> (s_Empty res \<and> \<not> si_CanClear si (p_Owner p) (p_TenantID p))"
        "\<not> (\<not> s_Empty res \<and> tg_want tg = [])" "\<not> same_plate (tg_want tg) (p_ActiveRegistration p)"
        "spreadElapsed (wd_s w) (p_ID p) res now"
        "\<not> retryDeferred (p_ID p) now (unparkIfTargetChanged (p_ID p) (tg_want tg) (wd_s w))"
    and free: "sc_applying (wd_s w) (p_ID p) = None"
  shows "reconcilePermit f rd si wr vehs u now now' p (w, st)
    = write_claimed f rd si wr vehs p res tg ovs rules (sc_channels (wd_s w)) u now now'
        ((at_claim (p_ID p) (tg_want tg) w)\<lparr>wd_s := fst (tryApply (p_ID p) (wd_s (at_claim (p_ID p) (tg_want tg) w)))\<rparr>, st)"
proof -
  note eqs = reconcilePermit_def R O option.case prod.case Let_def res [symmetric] tg [symmetric]
  have t: "tryApply (p_ID p) (wd_s (at_claim (p_ID p) (tg_want tg) w))
      = (fst (tryApply (p_ID p) (wd_s (at_claim (p_ID p) (tg_want tg) w))), Some (sc_channels (wd_s w)))"
    using free by (simp add: tryApply_def at_claim_fields)
  have d: "retryDeferred (p_ID p) now (wd_s (at_claim (p_ID p) (tg_want tg) w)) = False"
    using go(6) by (simp add: at_claim_def)
  show ?thesis
    by (simp only: eqs go(1-5) spread_unscheduled simp_thms if_True if_False at_claim_def [symmetric] d,
        subst t, simp only: prod.case option.case)
qed

lemma turn_quiet:
  assumes due: "due f rd si vehs now p w = None" and ok: "channels_ok w"
  obtains w' where "\<And>wr now'. reconcilePermit f rd si wr vehs u now now' p (w, st) = ((w', st), False)"
    and "plates w' = plates w" and "sc_applying (wd_s w') = sc_applying (wd_s w)" and "channels_ok w'"
proof (cases "rd_rules rd (p_ID p) = None \<or> rd_overrides rd (p_ID p) = None")
  case True
  then have "reconcilePermit f rd si wr vehs u now now' p (w, st) = ((w, st), False)" for wr now'
    by (auto simp: reconcilePermit_def split: option.split)
  then show thesis using that ok by blast
next
  case False
  then obtain rules ovs where R: "rd_rules rd (p_ID p) = Some rules" and O: "rd_overrides rd (p_ID p) = Some ovs" by auto
  define z where "z = si_zone si (p_Owner p) (p_TenantID p)"
  define res where "res = resolve z now (permit_cycle p) rules ovs"
  define tg where "tg = target_of vehs p res"
  let ?quiet = "s_Source res = SourceNone \<or> (s_Empty res \<and> \<not> si_CanClear si (p_Owner p) (p_TenantID p))
        \<or> (\<not> s_Empty res \<and> tg_want tg = []) \<or> same_plate (tg_want tg) (p_ActiveRegistration p)
        \<or> \<not> spreadElapsed (wd_s w) (p_ID p) res now
        \<or> retryDeferred (p_ID p) now (unparkIfTargetChanged (p_ID p) (tg_want tg) (wd_s w))
        \<or> sc_applying (wd_s w) (p_ID p) \<noteq> None"
  show thesis
  proof (cases ?quiet)
    case True
    show thesis
    proof (rule turn_undecided [OF R O res_def [unfolded z_def] _ True, where f = f and u = u and st = st])
      show "tg_want tg = tg_want (target_of vehs p res)" by (simp only: tg_def)
    next
      fix w' assume "\<And>wr now'. reconcilePermit f rd si wr vehs u now now' p (w, st) = ((w', st), False)" and c: "core w' = core w"
      then show thesis using that plates_core [OF c] applying_core [OF c] channels_core [OF c] ok by blast
    qed
  next
    case go: False
    then have free: "sc_applying (wd_s w) (p_ID p) = None" by blast
    define w2 where "w2 = at_claim (p_ID p) (tg_want tg) w"
    define w3 where "w3 = w2\<lparr>wd_s := fst (tryApply (p_ID p) (wd_s w2))\<rparr>"
    have free2: "sc_applying (wd_s w2) (p_ID p) = None" and ok2: "channels_ok w2"
      using free ok channels_core [OF at_claim_facts(1)] by (simp_all add: w2_def)
    have w2: "plates w2 = plates w" "sc_applying (wd_s w2) = sc_applying (wd_s w)" "sc_channels (wd_s w2) = sc_channels (wd_s w)"
      by (simp_all add: w2_def at_claim_fields)
    have run: "reconcilePermit f rd si wr vehs u now now' p (w, st)
        = write_claimed f rd si wr vehs p res tg ovs rules (sc_channels (wd_s w)) u now now' (w3, st)" for wr now'
      using go unfolding w3_def w2_def
      by (intro turn_decided [OF R O res_def [unfolded z_def] tg_def]) simp_all
    let ?free = "on_sched (release_apply (p_ID p) (sc_channels (wd_s w)))"
    have gp: "GetPermit (p_ID p) w3 = GetPermit (p_ID p) w" by (simp add: w3_def w2_def)
    have back': "plates (?free w4) = plates w" "sc_applying (wd_s (?free w4)) = sc_applying (wd_s w)" "channels_ok (?free w4)"
      if "core w4 = core w3" for w4
      using claim_returned [OF free2 ok2 that [unfolded w3_def]] w2 by simp_all
    consider (gone) "(if ft_reread f then None else GetPermit (p_ID p) w) = None"
      | (stop) fresh where "(if ft_reread f then None else GetPermit (p_ID p) w) = Some fresh"
          "permit_inactive (si_local si) fresh now (Some z)"
      | (right) fresh where "(if ft_reread f then None else GetPermit (p_ID p) w) = Some fresh"
          "\<not> permit_inactive (si_local si) fresh now (Some z)" "same_plate (tg_want tg) (p_ActiveRegistration fresh)"
      using due go by (auto simp: due_def R O Let_def z_def [symmetric] res_def [symmetric] tg_def [symmetric]
          split: option.splits if_splits)
    then show thesis
    proof cases
      case gone
      show thesis using back' [OF refl]
        by (intro that [of "?free w3"]) (simp_all only: run write_claimed_def prod.case Let_def gp gone option.case)
    next
      case stop
      show thesis using back' [OF refl]
        by (intro that [of "?free w3"])
          (simp_all only: run write_claimed_def prod.case Let_def gp stop option.case z_def [symmetric] if_True)
    next
      case right
      let ?p' = "p\<lparr>p_ActiveRegistration := p_ActiveRegistration fresh, p_FailStreak := p_FailStreak fresh\<rparr>"
      have sel: "p_ActiveRegistration ?p' = p_ActiveRegistration fresh" by simp
      show thesis using back' [OF core_settle [of f si ?p' now w3]]
        by (intro that [of "?free (settle f si ?p' now w3)"])
          (simp_all only: run write_claimed_def prod.case Let_def gp right option.case z_def [symmetric] sel if_True if_False)
    qed
  qed
qed

lemma turn_due:
  assumes due: "due f rd si vehs now p w = Some want"
  obtains p' res tg rules ovs w1 where
    "reconcilePermit f rd si wr vehs u now now' p (w, st)
       = after_write f rd si vehs p' res tg ovs rules (wr_err wr) u now now'
           (on_sched (release_apply (p_ID p) (sc_channels (wd_s w)))
              (if wr_err wr = None \<and> \<not> ft_commit f then SetPermitActive (p_ID p) want now' (wr_others wr w1)
               else wr_others wr w1), st)"
    and "core w1 = core (w\<lparr>wd_s := fst (tryApply (p_ID p) (wd_s w))\<rparr>)"
    and "sc_applying (wd_s w) (p_ID p) = None" and "p_ID p' = p_ID p" and "p_Owner p' = p_Owner p"
    and "p_TenantID p' = p_TenantID p" and "tg_want tg = want" and "GetPermit (p_ID p) w1 = GetPermit (p_ID p) w"
    and "windows w1 = windows (on_sched (unparkIfTargetChanged (p_ID p) want) w)" and "GetPermit (p_ID p) w \<noteq> None"
proof -
  obtain rules ovs where R: "rd_rules rd (p_ID p) = Some rules" and O: "rd_overrides rd (p_ID p) = Some ovs"
    using due by (auto simp: due_def split: option.splits)
  define z where "z = si_zone si (p_Owner p) (p_TenantID p)"
  define res where "res = resolve z now (permit_cycle p) rules ovs"
  define tg where "tg = target_of vehs p res"
  have go: "s_Source res \<noteq> SourceNone" "\<not> (s_Empty res \<and> \<not> si_CanClear si (p_Owner p) (p_TenantID p))"
        "\<not> (\<not> s_Empty res \<and> tg_want tg = [])" "\<not> same_plate (tg_want tg) (p_ActiveRegistration p)"
        "spreadElapsed (wd_s w) (p_ID p) res now"
        "\<not> retryDeferred (p_ID p) now (unparkIfTargetChanged (p_ID p) (tg_want tg) (wd_s w))"
    and free: "sc_applying (wd_s w) (p_ID p) = None"
    using due by (auto simp: due_def R O Let_def z_def [symmetric] res_def [symmetric] tg_def [symmetric]
        split: if_splits)
  obtain fresh where fresh: "(if ft_reread f then None else GetPermit (p_ID p) w) = Some fresh"
      "\<not> permit_inactive (si_local si) fresh now (Some z)" "\<not> same_plate (tg_want tg) (p_ActiveRegistration fresh)"
      and want: "tg_want tg = want"
    using due go free by (auto simp: due_def R O Let_def z_def [symmetric] res_def [symmetric] tg_def [symmetric]
        split: option.splits if_splits)
  define w2 where "w2 = at_claim (p_ID p) (tg_want tg) w"
  define w3 where "w3 = w2\<lparr>wd_s := fst (tryApply (p_ID p) (wd_s w2))\<rparr>"
  have gp: "GetPermit (p_ID p) w3 = GetPermit (p_ID p) w" by (simp add: w3_def w2_def)
  let ?p' = "p\<lparr>p_ActiveRegistration := p_ActiveRegistration fresh, p_FailStreak := p_FailStreak fresh\<rparr>"
  have sel: "p_ActiveRegistration ?p' = p_ActiveRegistration fresh" by simp
  have "core w3 = core (w\<lparr>wd_s := fst (tryApply (p_ID p) (wd_s w))\<rparr>)"
    using free at_claim_facts(1) [of "p_ID p" "tg_want tg" w]
    by (simp add: w3_def w2_def core_def tryApply_free)
  moreover have "reconcilePermit f rd si wr vehs u now now' p (w, st)
       = after_write f rd si vehs ?p' res tg ovs rules (wr_err wr) u now now'
           (on_sched (release_apply (p_ID p) (sc_channels (wd_s w)))
              (if wr_err wr = None \<and> \<not> ft_commit f then SetPermitActive (p_ID p) want now' (wr_others wr w3)
               else wr_others wr w3), st)"
    unfolding turn_decided [OF R O res_def [unfolded z_def] tg_def go free] w2_def [symmetric] w3_def [symmetric]
    by (simp only: write_claimed_def prod.case Let_def gp fresh option.case z_def [symmetric] sel if_False want [symmetric])
  moreover have "windows w3 = windows (on_sched (unparkIfTargetChanged (p_ID p) want) w)"
    using free by (simp add: w3_def w2_def want at_claim_def windows_def tryApply_free clearUnscheduled_def
        unparkIfTargetChanged_def split: option.split)
  moreover have "GetPermit (p_ID p) w \<noteq> None" using fresh(1) by (auto split: if_splits)
  ultimately show thesis using free want gp by (intro that [of ?p' res tg ovs rules w3]) simp_all
qed

section \<open>Results\<close>

text \<open>
  What the rest of the process may do while the permit's write is on the wire and claimed: anything to
  other permits, to the notices and to the other keys of the scheduler's maps.
\<close>

definition others_ok :: "int \<Rightarrow> (world \<Rightarrow> world) \<Rightarrow> bool" where
  "others_ok pid g \<longleftrightarrow> (\<forall>v. GetPermit pid (g v) = GetPermit pid v
     \<and> sc_applying (wd_s (g v)) pid = sc_applying (wd_s v) pid
     \<and> (\<forall>ch. sc_applying (wd_s v) pid = Some ch \<and> ch \<notin> sc_closed (wd_s v) \<longrightarrow> ch \<notin> sc_closed (wd_s (g v)))
     \<and> sc_nextTry (wd_s (g v)) pid = sc_nextTry (wd_s v) pid \<and> sc_parkedFor (wd_s (g v)) pid = sc_parkedFor (wd_s v) pid
     \<and> sc_interval (wd_s (g v)) = sc_interval (wd_s v) \<and> sc_jitterFrac (wd_s (g v)) = sc_jitterFrac (wd_s v))"

lemma others_okD:
  assumes "others_ok pid g"
  shows "GetPermit pid (g v) = GetPermit pid v" and "sc_applying (wd_s (g v)) pid = sc_applying (wd_s v) pid"
    and "sc_applying (wd_s v) pid = Some ch \<Longrightarrow> ch \<notin> sc_closed (wd_s v) \<Longrightarrow> ch \<notin> sc_closed (wd_s (g v))"
    and "sc_nextTry (wd_s (g v)) pid = sc_nextTry (wd_s v) pid" and "sc_parkedFor (wd_s (g v)) pid = sc_parkedFor (wd_s v) pid"
    and "sc_interval (wd_s (g v)) = sc_interval (wd_s v)" and "sc_jitterFrac (wd_s (g v)) = sc_jitterFrac (wd_s v)"
  using assms by (auto simp: others_ok_def)

lemma active_plate_set:
  assumes "GetPermit pid w \<noteq> None"
  shows "active_plate pid (SetPermitActive pid reg now w) = Some reg"
proof -
  have "find (\<lambda>p. p_ID p = pid) ps \<noteq> None \<Longrightarrow>
      map_option p_ActiveRegistration (find (\<lambda>p. p_ID p = pid) (map (\<lambda>p. if p_ID p = pid
        then p\<lparr>p_ActiveRegistration := reg, p_ActiveConfirmedAt := whole_seconds now\<rparr> else p) ps)) = Some reg" for ps
    by (induction ps) auto
  then show ?thesis using assms by (simp add: active_plate_def SetPermitActive_def GetPermit_def)
qed

lemma active_plate_sched [simp]: "active_plate pid (on_sched g w) = active_plate pid w"
  by (simp add: active_plate_def)

lemma set_active_sched [simp]: "wd_s (SetPermitActive pid reg now w) = wd_s w"
  by (simp add: SetPermitActive_def)

text \<open>C2: A turn implements the desired state: it leaves the recorded plate as it was unless the schedule is due a
  write, the council confirmed it and it could be recorded, and then the plate is the scheduled one.\<close>

theorem reconcile_refines_desired_state:
  assumes "channels_ok w" and "others_ok (p_ID p) (wr_others wr)"
    and "reconcilePermit f rd si wr vehs u now now' p (w, st) = ((w', st'), hit)"
  shows "active_plate (p_ID p) w' = (case due f rd si vehs now p w of
      Some want \<Rightarrow> if wr_err wr = None \<and> \<not> ft_commit f then Some want else active_plate (p_ID p) w
    | None \<Rightarrow> active_plate (p_ID p) w)"
proof (cases "due f rd si vehs now p w")
  case None
  obtain v where "reconcilePermit f rd si wr vehs u now now' p (w, st) = ((v, st), False)" and v: "plates v = plates w"
    using turn_quiet [OF None assms(1), where u = u and st = st] by metis
  then have "w' = v" using assms(3) by simp
  moreover have "active_plate (p_ID p) v = active_plate (p_ID p) w"
    using v find_unstreaked [of "p_ID p" "wd_permits v"] find_unstreaked [of "p_ID p" "wd_permits w"]
    by (simp add: plates_def active_plate_def GetPermit_def)
  ultimately show ?thesis using None by simp
next
  case (Some want)
  obtain p' res tg rules ovs w1 where
    run: "reconcilePermit f rd si wr vehs u now now' p (w, st)
       = after_write f rd si vehs p' res tg ovs rules (wr_err wr) u now now'
           (on_sched (release_apply (p_ID p) (sc_channels (wd_s w)))
              (if wr_err wr = None \<and> \<not> ft_commit f then SetPermitActive (p_ID p) want now' (wr_others wr w1)
               else wr_others wr w1), st)"
    and gp: "GetPermit (p_ID p) w1 = GetPermit (p_ID p) w" "GetPermit (p_ID p) w \<noteq> None"
    by (rule turn_due [OF Some, where u = u and st = st and wr = wr and now' = now']) blast
  have o: "GetPermit (p_ID p) (wr_others wr w1) = GetPermit (p_ID p) w"
    using others_okD(1) [OF assms(2)] gp by simp
  have w': "w' = fst (fst (reconcilePermit f rd si wr vehs u now now' p (w, st)))" using assms(3) by simp
  have "active_plate (p_ID p) w' = active_plate (p_ID p) (if wr_err wr = None \<and> \<not> ft_commit f
      then SetPermitActive (p_ID p) want now' (wr_others wr w1) else wr_others wr w1)"
    unfolding w' run active_plate_core [OF core_after_write] by (rule active_plate_sched)
  also have "\<dots> = (if wr_err wr = None \<and> \<not> ft_commit f then Some want else active_plate (p_ID p) w)"
    using active_plate_set [of "p_ID p" "wr_others wr w1"] o gp by (simp add: active_plate_def)
  finally show ?thesis using Some by simp
qed

text \<open>C6: A permit that is not due makes no council call: its turn does not depend on what the council would
  have answered, reports no contact and touches none of the pass's statistics.\<close>

theorem quiet_permits_never_reach_the_council:
  assumes "channels_ok w" and "due f rd si vehs now p w = None"
  shows "reconcilePermit f rd si wr vehs u now now' p (w, st) = reconcilePermit f rd si wr2 vehs u now now2 p (w, st)
    \<and> \<not> snd (reconcilePermit f rd si wr vehs u now now' p (w, st))
    \<and> snd (fst (reconcilePermit f rd si wr vehs u now now' p (w, st))) = st"
proof -
  obtain v where "\<And>wr now'. reconcilePermit f rd si wr vehs u now now' p (w, st) = ((v, st), False)"
    using turn_quiet [OF assms(2,1), where u = u and st = st] by metis
  then show ?thesis by simp
qed

text \<open>C9: After a turn the permit's claim is as before it: one the turn took is given back on every branch, and
  a permit another writer holds is left to that writer, with no council call.\<close>

theorem apply_claim_never_leaks:
  assumes "channels_ok w" and "others_ok (p_ID p) (wr_others wr)"
    and "reconcilePermit f rd si wr vehs u now now' p (w, st) = ((w', st'), hit)"
  shows "sc_applying (wd_s w') (p_ID p) = sc_applying (wd_s w) (p_ID p)
    \<and> (sc_applying (wd_s w) (p_ID p) \<noteq> None \<longrightarrow> \<not> hit)"
proof (cases "due f rd si vehs now p w")
  case None
  obtain v where v: "reconcilePermit f rd si wr vehs u now now' p (w, st) = ((v, st), False)"
      and a: "sc_applying (wd_s v) = sc_applying (wd_s w)"
    using turn_quiet [OF None assms(1), where u = u and st = st] by metis
  have "w' = v" "\<not> hit" using assms(3) v by simp_all
  then show ?thesis using a by simp
next
  case (Some want)
  obtain p' res tg rules ovs w1 where
    run: "reconcilePermit f rd si wr vehs u now now' p (w, st)
       = after_write f rd si vehs p' res tg ovs rules (wr_err wr) u now now'
           (on_sched (release_apply (p_ID p) (sc_channels (wd_s w)))
              (if wr_err wr = None \<and> \<not> ft_commit f then SetPermitActive (p_ID p) want now' (wr_others wr w1)
               else wr_others wr w1), st)"
    and c: "core w1 = core (w\<lparr>wd_s := fst (tryApply (p_ID p) (wd_s w))\<rparr>)"
    and free: "sc_applying (wd_s w) (p_ID p) = None"
    by (rule turn_due [OF Some, where u = u and st = st and wr = wr and now' = now']) blast
  define ch where "ch = sc_channels (wd_s w)"
  define w2 where "w2 = (if wr_err wr = None \<and> \<not> ft_commit f then SetPermitActive (p_ID p) want now' (wr_others wr w1)
               else wr_others wr w1)"
  have "ch \<notin> sc_closed (wd_s w)" using assms(1) by (auto simp: channels_ok_def ch_def)
  then have "sc_applying (wd_s w1) (p_ID p) = Some ch" "ch \<notin> sc_closed (wd_s w1)"
    using c by (simp_all add: core_def tryApply_free [OF free] ch_def)
  then have "sc_applying (wd_s w2) (p_ID p) = Some ch" "ch \<notin> sc_closed (wd_s w2)"
    using others_okD(2,3) [OF assms(2)] by (simp_all add: w2_def)
  then have r: "sc_applying (wd_s (on_sched (release_apply (p_ID p) ch) w2)) (p_ID p) = None"
    by (simp add: release_own)
  have w': "w' = fst (fst (reconcilePermit f rd si wr vehs u now now' p (w, st)))" using assms(3) by simp
  have "sc_applying (wd_s w') = sc_applying (wd_s (on_sched (release_apply (p_ID p) ch) w2))"
    unfolding w' run ch_def w2_def by (rule applying_core [OF core_after_write])
  then show ?thesis using r free by simp
qed

section \<open>The retry window after each answer\<close>

definition window_after ::
  "world \<Rightarrow> int \<Rightarrow> string \<Rightarrow> int \<Rightarrow> bool \<Rightarrow> err option \<Rightarrow> rat \<Rightarrow> time \<Rightarrow> time option \<times> string option" where
  "window_after w pid want n unrecorded answer u now' =
     (let s = unparkIfTargetChanged pid want (wd_s w);
          hold = (\<lambda>k. (Some (now' + jittered s u (retry_backoff s k)), sc_parkedFor s pid))
      in case answer of
           None \<Rightarrow> if unrecorded then hold 3 else (None, None)
         | Some e \<Rightarrow>
             if err_is e ErrTenantUnavailable then hold 5
             else if err_is e ErrNotLinked \<or> err_is e ErrUnavailable then (sc_nextTry s pid, sc_parkedFor s pid)
             else if err_is e ErrSessionExpired \<and> \<not> err_is e ErrNotCaptured then hold 3
             else if fst (failure_of (Some e)) = FailRejected then (Some (now' + parkedRetry), Some want)
             else hold n)"

definition window_of :: "int \<Rightarrow> world \<Rightarrow> time option \<times> string option" where
  "window_of pid w = (sc_nextTry (wd_s w) pid, sc_parkedFor (wd_s w) pid)"

lemma window_of_windows: "windows w = windows w' \<Longrightarrow> window_of pid w = window_of pid w'"
  by (simp add: windows_def window_of_def)

lemma windows_sched: "windows w = windows w' \<Longrightarrow> windows (on_sched (clearRetry pid) w) = windows (on_sched (clearRetry pid) w')"
  "windows w = windows w' \<Longrightarrow> windows (on_sched (deferRetry pid k u t) w) = windows (on_sched (deferRetry pid k u t) w')"
  "windows w = windows w' \<Longrightarrow> windows (on_sched (parkRetry pid reg t) w) = windows (on_sched (parkRetry pid reg t) w')"
  by (simp_all add: windows_def clearRetry_def deferRetry_def parkRetry_def jittered_def retry_backoff_def Let_def)

lemma windows_applied:
  "windows (applied f rd si vehs p res tg ovs rules now now' w) = windows (on_sched (clearRetry (p_ID p)) w)"
proof -
  define w2 where "w2 = logApply f (p_ID p) (tg_want tg) (source_str (s_Source res)) ''success'' []
    (on_sched (clearRetry (p_ID p)) (clearFailStreak f (p_ID p) w))"
  define d where "d = displaced si rd p ovs vehs rules (p_ActiveRegistration p) (s_By res) (s_Source res) now"
  obtain w3 told where 1: "warnDisplaced f rd d (p_ActiveRegistration p) (tg_want tg) w2 = (w3, told)" by (metis surj_pair)
  obtain w4 dt where 2: "notifyAddedDriver f rd p (tg_want tg) vehs w3 = (w4, dt)" by (metis surj_pair)
  obtain w5 rs where 3: "closeFailureEpisode f (p_ID p) w4 = (w5, rs)" by (metis surj_pair)
  have "windows w2 = windows (on_sched (clearRetry (p_ID p)) w)"
    using windows_sched(1) [OF wins.obs_clear] by (simp only: w2_def wins.obs_logApply)
  moreover have "windows w3 = windows w2" using wins.obs_warn [of f rd d "p_ActiveRegistration p" "tg_want tg" w2] 1 by simp
  moreover have "windows w4 = windows w3" using wins.obs_added [of f rd p "tg_want tg" vehs w3] 2 by simp
  moreover have "windows w5 = windows w4" using wins.obs_close [of f "p_ID p" w4] 3 by simp
  ultimately show ?thesis
    by (simp only: applied_def Let_def w2_def [symmetric] d_def [symmetric] 1 2 3 prod.case wins.obs_notifyUser)
qed

lemma windows_unavailable:
  "windows (reportTenantUnavailable f rd p want nm res u now w) = windows (on_sched (deferRetry (p_ID p) 5 u now) w)"
  by (simp only: reportTenantUnavailable_def Let_def wins.obs_failure wins.obs_logApply)

lemma windows_expired:
  "windows (session_expired_report f rd p res tg e u now w) = windows (on_sched (deferRetry (p_ID p) 3 u now) w)"
proof (cases "as_gen e")
  case None
  then show ?thesis
    by (simp only: session_expired_report_def Let_def option.case)
      (rule windows_sched, simp only: wins.obs_escalate wins.obs_logApply)
next
  case (Some g)
  then show ?thesis
    by (simp only: session_expired_report_def Let_def option.case)
      (rule windows_sched, simp only: wins.obs_escalate wins.obs_logApply wins.obs_enqueue)
qed

text \<open>The streak a failure counts to.\<close>

definition streak_after :: "faults \<Rightarrow> int \<Rightarrow> world \<Rightarrow> int" where
  "streak_after f pid w = snd (bumpFailStreak f pid w)"

lemma streak_permits: "wd_permits w = wd_permits w' \<Longrightarrow> streak_after f pid w = streak_after f pid w'"
  by (simp add: streak_after_def bumpFailStreak_def BumpFailStreak_def split: option.split)

lemma permits_raise [simp]: "wd_permits (raise_alert key now w) = wd_permits w"
  by (simp add: raise_alert_def split: prod.split bool.split)

lemma permits_logApply [simp]: "wd_permits (logApply f pid reg src st detail w) = wd_permits w"
  by (simp add: logApply_def RecordApply_def)

lemma windows_handle:
  "windows (fst (handleApplyFailure f rd p want nm src em e u now (w, st)))
   = windows (on_sched (if fst (failure_of (Some e)) = FailRejected then parkRetry (p_ID p) want now
       else deferRetry (p_ID p) (streak_after f (p_ID p) w) u now) w)"
proof -
  obtain kind opn where k: "failure_of (Some e) = (kind, opn)" by (metis surj_pair)
  obtain reason action where r: "describeFailure kind opn = (reason, action)" by (metis surj_pair)
  define w1 where "w1 = logApply f (p_ID p) want src ''error'' reason w"
  have s1: "streak_after f (p_ID p) w1 = streak_after f (p_ID p) w" by (rule streak_permits) (simp add: w1_def)
  have w1: "windows w1 = windows w" by (simp only: w1_def wins.obs_logApply)
  have esc: "snd (escalateFailure f rd p th ao tier now w1) = streak_after f (p_ID p) w"
      "windows (fst (escalateFailure f rd p th ao tier now w1)) = windows w" for th ao tier
    using s1 w1 by (simp_all only: wins.obs_escalate, simp add: escalateFailure_def streak_after_def case_prod_beta)
  show ?thesis
  proof (cases "kind = FailRejected")
    case True
    show ?thesis
      by (simp only: handleApplyFailure_def prod.case k r Let_def w1_def [symmetric])
        (simp add: True case_prod_beta windows_sched(3) [OF esc(2)] del: append.simps)
  next
    case False
    show ?thesis
      by (simp only: handleApplyFailure_def prod.case k r Let_def w1_def [symmetric])
        (simp add: False case_prod_beta esc(1) windows_sched(2) [OF esc(2)] del: append.simps)
  qed
qed

text \<open>The window of this permit, from a world with the same one.\<close>

lemma window_ops:
  assumes "window_of pid w = (a, b)" and "sc_interval (wd_s w) = sc_interval s" and "sc_jitterFrac (wd_s w) = sc_jitterFrac s"
  shows "window_of pid (on_sched (clearRetry pid) w) = (None, None)"
    and "window_of pid (on_sched (deferRetry pid k u t) w) = (Some (t + jittered s u (retry_backoff s k)), b)"
    and "window_of pid (on_sched (parkRetry pid reg t) w) = (Some (t + parkedRetry), Some reg)"
  using assms by (simp_all add: window_of_def clearRetry_def deferRetry_def parkRetry_def jittered_def retry_backoff_def Let_def)

lemma window_of_free:
  "window_of pid (on_sched (release_apply i ch) w) = window_of pid w"
  "sc_interval (release_apply i ch s) = sc_interval s" "sc_jitterFrac (release_apply i ch s) = sc_jitterFrac s"
  by (simp_all add: window_of_def release_apply_def)

lemma window_after_write:
  fixes w :: world
  assumes s: "s = unparkIfTargetChanged pid want (wd_s w0)"
    and w: "window_of pid w = (sc_nextTry s pid, sc_parkedFor s pid)" "sc_interval (wd_s w) = sc_interval s"
      "sc_jitterFrac (wd_s w) = sc_jitterFrac s"
    and p: "p_ID p = pid" "tg_want tg = want"
    and run: "after_write f rd si vehs p res tg ovs rules answer u now now' (w, st) = ((w', st'), hit)"
  shows "window_of pid w' = window_after w0 pid want (streak_after f pid w) (ft_commit f) answer u now'"
proof -
  note ops = window_ops [OF w]
  have w': "w' = fst (fst (after_write f rd si vehs p res tg ovs rules answer u now now' (w, st)))" using run by simp
  show ?thesis
  proof (cases answer)
    case None
    show ?thesis
    proof (cases "ft_commit f")
      case True
      have "windows w' = windows (on_sched (deferRetry pid 3 u now') w)"
        by (simp only: w' after_write_def prod.case None option.case True if_True fst_conv p)
          (rule windows_sched, simp only: wins.obs_bump wins.obs_raise)
      from window_of_windows [OF this, of pid] show ?thesis using ops(2) True None by (simp add: window_after_def s [symmetric])
    next
      case False
      have "windows w' = windows (on_sched (clearRetry pid) w)" using False None p by (simp add: w' after_write_def windows_applied)
      from window_of_windows [OF this, of pid] show ?thesis using ops(1) False None by (simp add: window_after_def)
    qed
  next
    case (Some e)
    note eqs = w' after_write_def prod.case Some option.case p fst_conv
    consider (tenant) "err_is e ErrTenantUnavailable" | (unlinked) "\<not> err_is e ErrTenantUnavailable" "err_is e ErrNotLinked"
      | (busy) "\<not> err_is e ErrTenantUnavailable" "\<not> err_is e ErrNotLinked" "err_is e ErrUnavailable"
      | (rest) "\<not> err_is e ErrTenantUnavailable" "\<not> err_is e ErrNotLinked" "\<not> err_is e ErrUnavailable" by blast
    then show ?thesis
    proof cases
      case tenant
      have "windows w' = windows (on_sched (deferRetry pid 5 u now') w)"
        by (simp only: eqs tenant if_True windows_unavailable)
      from window_of_windows [OF this, of pid] show ?thesis using ops(2) tenant Some by (simp add: window_after_def s [symmetric])
    next
      case unlinked
      have "w' = w" by (simp only: eqs unlinked if_True if_False)
      then show ?thesis using unlinked Some w by (simp add: window_after_def s [symmetric])
    next
      case busy
      have "windows w' = windows w" by (simp only: eqs busy if_True if_False wins.obs_busy)
      from window_of_windows [OF this, of pid] show ?thesis using busy Some w by (simp add: window_after_def s [symmetric])
    next
      case rest
      define v where "v = (if err_is e ErrNotCaptured then raise_alert ''not-captured'' now' w else w)"
      have v: "windows v = windows w" "streak_after f pid v = streak_after f pid w"
        by (auto simp: v_def wins.obs_raise intro: streak_permits)
      show ?thesis
      proof (cases "err_is e ErrSessionExpired \<and> \<not> err_is e ErrNotCaptured")
        case True
        have "windows w' = windows (on_sched (deferRetry pid 3 u now') w)"
          using True by (simp only: eqs rest simp_thms if_True if_False windows_expired)
        from window_of_windows [OF this, of pid] show ?thesis using ops(2) rest Some True by (simp add: window_after_def s [symmetric])
      next
        case False
        have "w' = fst (handleApplyFailure f rd p want (tg_Name tg) (source_str (s_Source res)) (s_Empty res) e u now' (v, st))"
          using False by (cases "err_is e ErrNotCaptured") (simp_all only: eqs rest v_def simp_thms if_True if_False)
        then have "windows w' = windows (on_sched (if fst (failure_of (Some e)) = FailRejected then parkRetry pid want now'
            else deferRetry pid (streak_after f pid v) u now') v)"
          by (simp only: windows_handle p)
        also have "\<dots> = windows (on_sched (if fst (failure_of (Some e)) = FailRejected then parkRetry pid want now'
            else deferRetry pid (streak_after f pid w) u now') w)"
          using v windows_sched(2,3) [OF v(1)] by simp
        finally have "window_of pid w' = window_of pid (on_sched (if fst (failure_of (Some e)) = FailRejected
            then parkRetry pid want now' else deferRetry pid (streak_after f pid w) u now') w)"
          by (rule window_of_windows)
        then show ?thesis using ops(2,3) rest Some False by (auto simp: window_after_def s [symmetric])
      qed
    qed
  qed
qed

text \<open>C5: Every answer of the council, and a write that could not be recorded, leaves the retry window the
  specification gives it: a success clears it, a refusal parks the permit for that plate, a council that
  pushes back or an unlinked session leaves it open, everything else backs off.\<close>

theorem the_answer_sets_the_retry_window:
  assumes "channels_ok w" and "others_ok (p_ID p) (wr_others wr)"
    and "reconcilePermit f rd si wr vehs u now now' p (w, st) = ((w', st'), hit)"
    and "due f rd si vehs now p w = Some want" and "GetPermit (p_ID p) w = Some fresh"
  shows "window_of (p_ID p) w' = window_after w (p_ID p) want
      (if ft_bump f then failNotifyThreshold else p_FailStreak fresh + 1) (ft_commit f) (wr_err wr) u now'"
proof -
  obtain p' res tg rules ovs w1 where
    run: "reconcilePermit f rd si wr vehs u now now' p (w, st)
       = after_write f rd si vehs p' res tg ovs rules (wr_err wr) u now now'
           (on_sched (release_apply (p_ID p) (sc_channels (wd_s w)))
              (if wr_err wr = None \<and> \<not> ft_commit f then SetPermitActive (p_ID p) want now' (wr_others wr w1)
               else wr_others wr w1), st)"
    and p': "p_ID p' = p_ID p" "tg_want tg = want"
    and gp: "GetPermit (p_ID p) w1 = GetPermit (p_ID p) w"
    and win: "windows w1 = windows (on_sched (unparkIfTargetChanged (p_ID p) want) w)"
    by (rule turn_due [OF assms(4), where u = u and st = st and wr = wr and now' = now']) blast
  define s where "s = unparkIfTargetChanged (p_ID p) want (wd_s w)"
  define w3 where "w3 = (if wr_err wr = None \<and> \<not> ft_commit f then SetPermitActive (p_ID p) want now' (wr_others wr w1)
               else wr_others wr w1)"
  note o = others_okD [OF assms(2)]
  have fields: "window_of (p_ID p) w3 = (sc_nextTry s (p_ID p), sc_parkedFor s (p_ID p))"
      "sc_interval (wd_s w3) = sc_interval s" "sc_jitterFrac (wd_s w3) = sc_jitterFrac s"
    using win o(4-7) [of w1] by (simp_all add: w3_def window_of_def windows_def s_def)
  define w4 where "w4 = on_sched (release_apply (p_ID p) (sc_channels (wd_s w))) w3"
  have w4: "window_of (p_ID p) w4 = (sc_nextTry s (p_ID p), sc_parkedFor s (p_ID p))"
      "sc_interval (wd_s w4) = sc_interval s" "sc_jitterFrac (wd_s w4) = sc_jitterFrac s"
    using fields by (simp_all add: w4_def window_of_free)
  have "after_write f rd si vehs p' res tg ovs rules (wr_err wr) u now now' (w4, st) = ((w', st'), hit)"
    using run assms(3) by (simp only: w4_def w3_def)
  then have r: "window_of (p_ID p) w' = window_after w (p_ID p) want (streak_after f (p_ID p) w4) (ft_commit f) (wr_err wr) u now'"
    by (rule window_after_write [OF s_def w4 p'])
  have "streak_after f (p_ID p) w4 = (if ft_bump f then failNotifyThreshold else p_FailStreak fresh + 1)"
    if "wr_err wr \<noteq> None"
  proof -
    from that obtain e where e: "wr_err wr = Some e" by blast
    have "GetPermit (p_ID p) w4 = Some fresh" using o(1) [of w1] gp assms(5) by (simp add: w4_def w3_def e)
    then have "BumpFailStreak (p_ID p) w4 = (fst (BumpFailStreak (p_ID p) w4), Some (p_FailStreak fresh + 1))"
      by (simp add: BumpFailStreak_def GetPermit_def)
    then obtain v where "BumpFailStreak (p_ID p) w4 = (v, Some (p_FailStreak fresh + 1))" by blast
    then show ?thesis by (simp add: streak_after_def bumpFailStreak_def)
  qed
  then show ?thesis using r by (cases "wr_err wr") (simp_all add: window_after_def)
qed


definition processed :: "(permit \<Rightarrow> turn) \<Rightarrow> time \<Rightarrow> permit list \<Rightarrow> permit list" where
  "processed turns now ps = filter (\<lambda>p. \<not> permit_inactive (si_local (tn_site (turns p))) p now
     (Some (si_zone (tn_site (turns p)) (p_Owner p) (p_TenantID p)))) ps"

definition take_turn :: "(permit \<Rightarrow> turn) \<Rightarrow> fleet_vehicles \<Rightarrow> world \<times> pass_stats \<Rightarrow> permit \<Rightarrow> world \<times> pass_stats" where
  "take_turn turns vehs ws p = safeReconcilePermit (turns p) vehs p (on_sched (progress (tn_now (turns p))) (fst ws), snd ws)"

text \<open>A pass that is not cancelled is the turns of all the active permits in order, panics included.\<close>

lemma reconcile_loop_all:
  assumes "\<And>p. p \<in> set (processed turns now ps) \<Longrightarrow> \<not> tn_stop (turns p)"
  shows "\<exists>owners'. reconcile_loop turns vehs now ps owners ws = (foldl (take_turn turns vehs) ws (processed turns now ps), owners', True)
    \<and> set owners' = set owners \<union> p_Owner ` set (processed turns now ps) \<and> (distinct owners \<longrightarrow> distinct owners')"
  using assms
proof (induction ps arbitrary: owners ws)
  case Nil
  then show ?case by (simp add: processed_def)
next
  case (Cons p ps)
  show ?case
  proof (cases "permit_inactive (si_local (tn_site (turns p))) p now
     (Some (si_zone (tn_site (turns p)) (p_Owner p) (p_TenantID p)))")
    case True
    then have "processed turns now (p # ps) = processed turns now ps" by (simp add: processed_def)
    then show ?thesis using Cons.IH [of owners ws] Cons.prems True by simp
  next
    case False
    then have p: "processed turns now (p # ps) = p # processed turns now ps" by (simp add: processed_def)
    have go: "\<not> tn_stop (turns p)" using Cons.prems p by simp
    obtain owners' where "reconcile_loop turns vehs now ps (List.insert (p_Owner p) owners) (take_turn turns vehs ws p)
        = (foldl (take_turn turns vehs) (take_turn turns vehs ws p) (processed turns now ps), owners', True)"
        "set owners' = set (List.insert (p_Owner p) owners) \<union> p_Owner ` set (processed turns now ps)"
        "distinct (List.insert (p_Owner p) owners) \<longrightarrow> distinct owners'"
      using Cons.IH [of "List.insert (p_Owner p) owners" "take_turn turns vehs ws p"] Cons.prems p by auto
    moreover have "reconcile_loop turns vehs now (p # ps) owners ws
        = reconcile_loop turns vehs now ps (List.insert (p_Owner p) owners) (take_turn turns vehs ws p)"
      by (simp only: reconcile_loop.simps Let_def False go if_False take_turn_def)
    ultimately show ?thesis by (auto simp: p)
  qed
qed


lemma clear_streak_find:
  assumes "GetPermit pid (clearFailStreak f pid w) = Some q" and "\<not> ft_clear f"
  shows "p_FailStreak q = 0"
proof -
  let ?g = "\<lambda>p. if p_ID p = pid \<and> p_FailStreak p \<noteq> 0 then p\<lparr>p_FailStreak := 0\<rparr> else p"
  have "find (\<lambda>p. p_ID p = pid) (map ?g (wd_permits w)) = Some q"
    using assms by (simp add: clearFailStreak_def ClearFailStreak_def GetPermit_def)
  then obtain x where "q = ?g x" and "p_ID q = pid" by (auto simp: find_Some_iff)
  then show ?thesis by (auto split: if_splits)
qed

text \<open>The end of a failure episode happens once: settling again, even from the same stale snapshot of the
  permit, does nothing.\<close>

theorem an_episode_is_closed_out_once:
  assumes "\<not> ft_clear f"
  shows "settle f si p now2 (settle f si p now w) = settle f si p now w"
proof -
  define fresh where "fresh = (if ft_settleRead f then None else GetPermit (p_ID p) w)"
  consider (idle) "p_FailStreak p = 0 \<or> fresh = None"
    | (over) q where "p_FailStreak p \<noteq> 0" "fresh = Some q"
        "p_FailStreak q = 0 \<or> \<not> same_plate (p_ActiveRegistration q) (p_ActiveRegistration p)"
    | (ends) q where "p_FailStreak p \<noteq> 0" "fresh = Some q" "p_FailStreak q \<noteq> 0"
        "same_plate (p_ActiveRegistration q) (p_ActiveRegistration p)"
    by (cases fresh) auto
  then show ?thesis
  proof cases
    case idle
    then have "settle f si p t w = w" for t by (auto simp: settle_def fresh_def [symmetric])
    then show ?thesis by simp
  next
    case over
    then have "settle f si p t w = w" for t by (auto simp: settle_def fresh_def [symmetric])
    then show ?thesis by simp
  next
    case ends
    obtain v where v: "settle f si p now w = on_sched (clearRetry (p_ID p)) (clearFailStreak f (p_ID p) v)"
    proof
      show "settle f si p now w = on_sched (clearRetry (p_ID p)) (clearFailStreak f (p_ID p)
        (fst (closeFailureEpisode f (p_ID p) (let p' = p\<lparr>p_FailStreak := p_FailStreak q, p_ActiveRegistration := p_ActiveRegistration q\<rparr>
          in if failNotifyThreshold \<le> p_FailStreak p' then close_out f si p' now w else w))))"
        by (simp only: settle_def fresh_def [symmetric] ends option.case simp_thms if_False Let_def)
    qed
    have "settle f si p now2 (on_sched (clearRetry (p_ID p)) (clearFailStreak f (p_ID p) v))
        = on_sched (clearRetry (p_ID p)) (clearFailStreak f (p_ID p) v)"
      using clear_streak_find [OF _ assms] by (auto simp: settle_def split: option.split)
    then show ?thesis by (simp only: v)
  qed
qed

definition claims_grow :: "(world \<Rightarrow> world) \<Rightarrow> bool" where
  "claims_grow g \<longleftrightarrow> (\<forall>v. channels_ok v \<longrightarrow> channels_ok (g v) \<and> sc_channels (wd_s v) \<le> sc_channels (wd_s (g v)))"

lemma turn_keeps_claims:
  assumes ok: "channels_ok w" and grow: "claims_grow (wr_others wr)"
  shows "channels_ok (fst (fst (reconcilePermit f rd si wr vehs u now now' p (w, st))))"
proof (cases "due f rd si vehs now p w")
  case None
  obtain v where "reconcilePermit f rd si wr vehs u now now' p (w, st) = ((v, st), False)" and "channels_ok v"
    using turn_quiet [OF None ok, where u = u and st = st] by metis
  then show ?thesis by simp
next
  case (Some want)
  obtain p' res tg rules ovs w1 where
    run: "reconcilePermit f rd si wr vehs u now now' p (w, st)
       = after_write f rd si vehs p' res tg ovs rules (wr_err wr) u now now'
           (on_sched (release_apply (p_ID p) (sc_channels (wd_s w)))
              (if wr_err wr = None \<and> \<not> ft_commit f then SetPermitActive (p_ID p) want now' (wr_others wr w1)
               else wr_others wr w1), st)"
    and c: "core w1 = core (w\<lparr>wd_s := fst (tryApply (p_ID p) (wd_s w))\<rparr>)"
    and free: "sc_applying (wd_s w) (p_ID p) = None"
    by (rule turn_due [OF Some, where u = u and st = st and wr = wr and now' = now']) blast
  have ch: "sc_channels (wd_s w1) = sc_channels (wd_s w) + 1" "channels_ok w1"
    using c ok by (auto simp: core_def tryApply_free [OF free] channels_ok_def less_Suc_eq)
  then have o1: "channels_ok (wr_others wr w1)" "sc_channels (wd_s w) < sc_channels (wd_s (wr_others wr w1))"
    using grow [unfolded claims_grow_def, rule_format, of w1] by simp_all
  define w2 where "w2 = (if wr_err wr = None \<and> \<not> ft_commit f then SetPermitActive (p_ID p) want now' (wr_others wr w1) else wr_others wr w1)"
  have "channels_ok w2" "sc_channels (wd_s w) < sc_channels (wd_s w2)" using o1 by (simp_all add: w2_def channels_ok_def)
  then have "channels_ok (on_sched (release_apply (p_ID p) (sc_channels (wd_s w))) w2)"
    by (auto simp: channels_ok_def release_apply_def)
  then show ?thesis unfolding run w2_def [symmetric] using channels_core [OF core_after_write] by blast
qed

text \<open>However a pass goes, panics included, the channels of the claims stay numbered below the next one to
  be made: what the turns rely on holds again when the next turn starts.\<close>

lemma claims_through_a_pass:
  assumes "channels_ok w" and "\<And>p. claims_grow (wr_others (tn_wire (turns p)))"
    and "\<And>p g. tn_panic (turns p) = Some g \<Longrightarrow> claims_grow g"
  shows "channels_ok (fst (foldl (take_turn turns vehs) (w, st) ps))"
  using assms(1)
proof (induction ps arbitrary: w st)
  case (Cons p ps)
  define v where "v = on_sched (progress (tn_now (turns p))) w"
  have v: "channels_ok v" using Cons.prems channels_core [OF core_retry(5)] by (simp add: v_def)
  have "channels_ok (fst (take_turn turns vehs (w, st) p))"
  proof (cases "tn_panic (turns p)")
    case None
    have "take_turn turns vehs (w, st) p = fst (reconcilePermit (tn_faults (turns p)) (tn_reads (turns p)) (tn_site (turns p))
        (tn_wire (turns p)) vehs (tn_draw (turns p)) (tn_now (turns p)) (tn_now' (turns p)) p (v, st))"
      by (simp only: take_turn_def safeReconcilePermit_def None option.case v_def fst_conv snd_conv)
    then show ?thesis using turn_keeps_claims [OF v assms(2)] by simp
  next
    case (Some g)
    have "take_turn turns vehs (w, st) p = (raise_alert ''panic-permit'' (tn_now' (turns p)) (g v), st)"
      by (simp only: take_turn_def safeReconcilePermit_def Some option.case v_def fst_conv snd_conv)
    moreover have "channels_ok (g v)" using v assms(3) [OF Some] by (simp add: claims_grow_def)
    ultimately show ?thesis using channels_core [OF cores.obs_raise] by simp
  qed
  moreover obtain w' st' where t: "take_turn turns vehs (w, st) p = (w', st')" by (metis surj_pair)
  ultimately have "channels_ok w'" by simp
  from Cons.IH [OF this, of st'] show ?case by (simp only: foldl_Cons t)
qed simp

section \<open>Concrete instances\<close>

definition w_site :: site where
  "w_site = \<lparr>si_local = melbourne, si_zone = (\<lambda>_ _. melbourne), si_CanClear = (\<lambda>_ _. False),
     si_Blocked = (\<lambda>_. False), si_AuthGated = (\<lambda>_. False)\<rparr>"

definition w_plan :: reads where
  "w_plan = w_reads\<lparr>rd_overrides := (\<lambda>_. Some [w_override 1 ''ABC123'' 0 None 5])\<rparr>"

definition w_answer :: "err option \<Rightarrow> wire" where
  "w_answer e = \<lparr>wr_err = e, wr_others = (\<lambda>w. w)\<rparr>"

lemma w_reconcile_simps [simp]:
  "channels_ok w_world" "others_ok pid (wr_others (w_answer e))" "GetPermit 7 w_world = Some w_household"
  "active_plate 7 w_world = Some ''OLD001''" "sc_applying w_sched = Map.empty" "wr_err (w_answer e) = e"
  "sc_nextTry w_sched = Map.empty" "sc_parkedFor w_sched = Map.empty"
  by (simp_all add: channels_ok_def others_ok_def w_answer_def active_plate_def GetPermit_def w_world_def w_household_def
      w_permit_def w_sched_def New_def)

lemma w_due: "due no_faults w_plan w_site [] 10 w_household w_world = Some ''ABC123''"
proof -
  have r: "resolve melbourne 10 c rules [w_override 1 ''ABC123'' 0 None 5] = override_resolution (w_override 1 ''ABC123'' 0 None 5)"
    for c rules
    by (simp add: resolve_def winning_override_def override_active_def w_override_def best_def keep_best_def)
  have s: "spreadElapsed w_sched 7 res 10" for res
    by (simp add: spreadElapsed_def effectiveSpread_def w_sched_def New_def)
  have d: "\<not> retryDeferred 7 10 (unparkIfTargetChanged 7 reg w_sched)" for reg
    by (simp add: retryDeferred_def unparkIfTargetChanged_def)
  have dead: "\<not> dead_status []" by code_simp
  have p: "p_Owner w_household = ''a@x''" "p_ActiveRegistration w_household = ''OLD001''" "\<not> permit_inactive l w_household t z" for l t z
    using dead by (simp_all add: w_household_def w_permit_def permit_inactive_def is_zero_def)
  have o: "s_Source (override_resolution (w_override 1 ''ABC123'' 0 None 5)) = SourceOverride"
      "\<not> s_Empty (override_resolution (w_override 1 ''ABC123'' 0 None 5))"
      "s_Registration (override_resolution (w_override 1 ''ABC123'' 0 None 5)) = ''ABC123''"
    by (simp_all add: override_resolution_def w_override_def)
  have t: "tg_want (target_of [] w_household (override_resolution (w_override 1 ''ABC123'' 0 None 5))) = ''ABC123''"
    using o by (simp add: target_of_def)
  have n: "\<not> same_plate ''ABC123'' ''OLD001''" by code_simp
  show ?thesis
    by (simp add: due_def w_plan_def w_reads_def r s d p o t n Let_def w_site_def)
qed

text \<open>A turn of the instance: what it leaves.\<close>

definition w_turn :: "faults \<Rightarrow> err option \<Rightarrow> (world \<times> pass_stats) \<times> bool" where
  "w_turn f e = reconcilePermit f w_plan w_site (w_answer e) [] 0 10 20 w_household (w_world, no_stats)"

lemma reconcile_refines_desired_state_witness:
  "active_plate 7 (fst (fst (w_turn no_faults None))) = Some ''ABC123''
   \<and> active_plate 7 (fst (fst (w_turn no_faults (Some (Sentinel ErrUnavailable))))) = Some ''OLD001''"
proof -
  have "active_plate 7 (fst (fst (w_turn no_faults e))) = (if e = None then Some ''ABC123'' else Some ''OLD001'')" for e
    using reconcile_refines_desired_state [of w_world w_household "w_answer e" no_faults w_plan w_site "[]" 0 10 20 no_stats
        "fst (fst (w_turn no_faults e))" "snd (fst (w_turn no_faults e))" "snd (w_turn no_faults e)"]
    by (simp add: w_turn_def w_due)
  then show ?thesis by simp
qed

lemma quiet_permits_never_reach_the_council_witness:
  "\<not> snd (reconcilePermit no_faults (w_reads\<lparr>rd_rules := (\<lambda>_. None)\<rparr>) w_site (w_answer None) [] 0 10 20 w_household (w_world, no_stats))"
  using quiet_permits_never_reach_the_council [where w = w_world and f = no_faults and rd = "w_reads\<lparr>rd_rules := (\<lambda>_. None)\<rparr>"
      and si = w_site and vehs = "[]" and now = 10 and p = w_household and u = 0 and wr = "w_answer None" and now' = 20
      and st = no_stats]
  by (simp add: due_def)

lemma apply_claim_never_leaks_witness: "sc_applying (wd_s (fst (fst (w_turn no_faults None)))) 7 = None"
  using apply_claim_never_leaks [of w_world w_household "w_answer None" no_faults w_plan w_site "[]" 0 10 20 no_stats
      "fst (fst (w_turn no_faults None))" "snd (fst (w_turn no_faults None))" "snd (w_turn no_faults None)"]
  by (simp add: w_turn_def)

lemma the_answer_sets_the_retry_window_witness:
  "window_of 7 (fst (fst (w_turn no_faults (Some (Sentinel ErrUnavailable))))) = (None, None)
   \<and> window_of 7 (fst (fst (w_turn no_faults (Some (Classified FailRejected OpUnknown [] None))))) = (Some (20 + parkedRetry), Some ''ABC123'')"
proof -
  have "window_of 7 (fst (fst (w_turn no_faults (Some e)))) = window_after w_world 7 ''ABC123'' 1 False (Some e) 0 20" for e
    using the_answer_sets_the_retry_window [of w_world w_household "w_answer (Some e)" no_faults w_plan w_site "[]" 0 10 20 no_stats
        "fst (fst (w_turn no_faults (Some e)))" "snd (fst (w_turn no_faults (Some e)))" "snd (w_turn no_faults (Some e))"
        "''ABC123''" w_household]
    by (simp add: w_turn_def w_due) (simp add: w_household_def w_permit_def)
  then show ?thesis by (simp add: window_after_def unparkIfTargetChanged_def failure_of_def)
qed

lemma an_episode_is_closed_out_once_witness:
  "settle no_faults w_site w_household 5 (settle no_faults w_site w_household 4 w_world) = settle no_faults w_site w_household 4 w_world"
  by (rule an_episode_is_closed_out_once) simp

end
