(* ===== verification/Drift.thy ===== *)
theory Drift
  imports Reconcile
begin

text \<open>
  Drift detection (internal/scheduler/drift.go): the cadence of an owner's drift reads, their back-off,
  and one round: the grid read against what the store believed when it began, the adoption of a plate
  changed at the council, what the schedule does about it, the expiry warning, and when a round counts.

  What a round meets outside the scheduler is the record \<open>drift_env\<close>: the council's answers, what else
  happened while the grid was read (\<open>de_others\<close>), and which statements and sends fail. A booking the
  round creates is an element of \<open>ro_booked\<close>; the account flag of the once-ever note is \<open>ds_nudged\<close>.
\<close>

section \<open>Cadence and back-off\<close>

definition driftThresholdFor :: "string \<Rightarrow> scheduler \<Rightarrow> dur" where
  "driftThresholdFor owner s =
     (if sc_jitterFrac s \<le> 0 then sc_driftInterval s
      else let u = unit01 (fnv64a (utf8 (''drift:'' @ owner)))
        in trunc (fl (fl (of_int (sc_driftInterval s)) * fl (1 + fl (fl (fl (u * 2) - 1) * sc_jitterFrac s)))))"

definition drift_backoff :: "int \<Rightarrow> scheduler \<Rightarrow> dur" where
  "drift_backoff n s =
     (let b = 15 * minute * 4 ^ nat (min n 5 - 1) in if 0 < sc_driftInterval s \<and> sc_driftInterval s < b then sc_driftInterval s else b)"

definition noteDriftFailure :: "string \<Rightarrow> err \<Rightarrow> time \<Rightarrow> world \<Rightarrow> world" where
  "noteDriftFailure owner e now w =
     (let s = wd_s w; n = sc_driftFails s owner + 1;
          s1 = s\<lparr>sc_driftFails := (sc_driftFails s)(owner := n),
                 sc_driftRetryAt := (sc_driftRetryAt s)(owner \<mapsto> now + drift_backoff n s)\<rparr>
      in if fst (failure_of (Some e)) = FailUnexpected
         then (let shape = pruneChurn (sc_driftShape s1) now @ [\<lparr>ce_owner = owner, ce_at = now\<rparr>];
                   w1 = w\<lparr>wd_s := s1\<lparr>sc_driftShape := shape\<rparr>\<rparr>
               in if sessionChurnAlertOwners \<le> distinctOwners shape then raise_alert ''drift-shape'' now w1 else w1)
         else w\<lparr>wd_s := s1\<rparr>)"

definition noteDriftDeferred :: "string \<Rightarrow> time \<Rightarrow> scheduler \<Rightarrow> scheduler" where
  "noteDriftDeferred owner now s = s\<lparr>sc_driftFails := (sc_driftFails s)(owner := 0),
     sc_driftRetryAt := (sc_driftRetryAt s)(owner \<mapsto> now + driftThresholdFor owner s)\<rparr>"

definition alertTruncatedList :: "time \<Rightarrow> world \<Rightarrow> world" where
  "alertTruncatedList now w =
     (case systemAlertEvery ''council-permit-list-truncated'' (24 * hour) now (wd_s w) of
        (s', sent) \<Rightarrow> (if sent then send (AdminAlert ''council-permit-list-truncated'') else id) (w\<lparr>wd_s := s'\<rparr>))"

definition driftBackedOff :: "string \<Rightarrow> time \<Rightarrow> scheduler \<Rightarrow> bool" where
  "driftBackedOff owner now s = (case sc_driftRetryAt s owner of None \<Rightarrow> False | Some t \<Rightarrow> now < t)"

definition driftRequested :: "string \<Rightarrow> scheduler \<Rightarrow> bool" where
  "driftRequested owner s \<longleftrightarrow> owner \<in> sc_driftAsap s"

definition RequestDriftSoon :: "string \<Rightarrow> scheduler \<Rightarrow> scheduler" where
  "RequestDriftSoon owner s = s\<lparr>sc_driftAsap := insert owner (sc_driftAsap s)\<rparr>"

definition clearDriftRequest :: "string \<Rightarrow> scheduler \<Rightarrow> scheduler" where
  "clearDriftRequest owner s = s\<lparr>sc_driftAsap := sc_driftAsap s - {owner}\<rparr>"

text \<open>The two clocks of the session row: when its drift was last checked, when it was last renewed.\<close>

definition driftDue :: "string \<Rightarrow> time \<Rightarrow> time \<Rightarrow> time \<Rightarrow> scheduler \<Rightarrow> bool" where
  "driftDue owner checked updated now s =
     (if sc_driftInterval s \<le> 0 then False
      else if driftBackedOff owner now s then False
      else if driftRequested owner s then True
      else driftThresholdFor owner s \<le> tsub now (if is_zero checked then updated else checked))"

definition hold_drift :: "string \<Rightarrow> time \<Rightarrow> scheduler \<Rightarrow> scheduler" where
  "hold_drift owner t s = s\<lparr>sc_driftRetryAt := (sc_driftRetryAt s)(owner \<mapsto> t)\<rparr>"

interpretation drift_hold: backoff_table sc_driftRetryAt hold_drift noteDriftSuccess driftBackedOff
  by unfold_locales (auto simp: driftBackedOff_def held_def hold_drift_def noteDriftSuccess_def split: option.splits)

section \<open>Statements on the permits\<close>

record live_permit =
  lp_CouncilPermitID :: string
  lp_PermitNumber :: string
  lp_PermitType :: string
  lp_Status :: string
  lp_CurrentRego :: string
  lp_EndDate :: time

definition ListPermitsFor :: "string \<Rightarrow> world \<Rightarrow> permit list" where
  "ListPermitsFor owner w = filter (\<lambda>p. p_Owner p = owner) (wd_permits w)"

definition on_permits :: "(permit \<Rightarrow> permit) \<Rightarrow> world \<Rightarrow> world" where
  "on_permits g w = w\<lparr>wd_permits := map g (wd_permits w)\<rparr>"

definition UpdatePermitMeta :: "string \<Rightarrow> string \<Rightarrow> live_permit \<Rightarrow> world \<Rightarrow> world" where
  "UpdatePermitMeta owner tenant lp =
     (let e = (if is_zero (lp_EndDate lp) then zero_time else whole_seconds (lp_EndDate lp)) in
      on_permits (\<lambda>p. if p_CouncilPermitID p = lp_CouncilPermitID lp \<and> p_Owner p = owner \<and> p_TenantID p = tenant
        then p\<lparr>p_Status := lp_Status lp, p_EndDate := e, p_PermitNumber := lp_PermitNumber lp,
               p_PermitType := lp_PermitType lp, p_ExpiryReminded := (if p_EndDate p = e then p_ExpiryReminded p else False)\<rparr>
        else p))"

definition MarkPermitExpiryReminded :: "int \<Rightarrow> world \<Rightarrow> world" where
  "MarkPermitExpiryReminded pid = on_permits (\<lambda>p. if p_ID p = pid then p\<lparr>p_ExpiryReminded := True\<rparr> else p)"

definition TouchPermitConfirmed :: "int \<Rightarrow> string \<Rightarrow> time \<Rightarrow> world \<Rightarrow> world" where
  "TouchPermitConfirmed pid reg at0 = on_permits (\<lambda>p. if p_ID p = pid \<and> p_ActiveRegistration p = reg
     \<and> p_ActiveConfirmedAt p < whole_seconds at0 then p\<lparr>p_ActiveConfirmedAt := whole_seconds at0\<rparr> else p)"

definition SetPermitActiveIfUnchanged :: "int \<Rightarrow> string \<Rightarrow> string \<Rightarrow> time \<Rightarrow> world \<Rightarrow> world \<times> bool" where
  "SetPermitActiveIfUnchanged pid old new now w =
     (on_permits (\<lambda>p. if p_ID p = pid \<and> p_ActiveRegistration p = old
        then p\<lparr>p_ActiveRegistration := new, p_ActiveConfirmedAt := whole_seconds now\<rparr> else p) w,
      list_ex (\<lambda>p. p_ID p = pid \<and> p_ActiveRegistration p = old) (wd_permits w))"

definition PortalNudgeDue :: "string \<Rightarrow> string set \<Rightarrow> world \<Rightarrow> bool" where
  "PortalNudgeDue owner nudged w \<longleftrightarrow> owner \<notin> nudged
     \<and> \<not> list_ex (\<lambda>(pid, a). ar_Status a = ''success'' \<and> list_ex (\<lambda>p. p_ID p = pid \<and> p_Owner p = owner) (wd_permits w)) (wd_log w)"

section \<open>What the schedule does about a change made at the council\<close>

definition externalHoldHorizon :: dur where "externalHoldHorizon = 14 * 24 * hour"
definition externalActor :: string where "externalActor = ''the council's website''"

record drift_change =
  dc_PermitLabel :: string
  dc_Plate :: string
  dc_HoldsUntil :: time
  dc_PutsBack :: string
  dc_EmptiesAfter :: bool

definition no_change :: drift_change where
  "no_change = \<lparr>dc_PermitLabel = [], dc_Plate = [], dc_HoldsUntil = zero_time, dc_PutsBack = [], dc_EmptiesAfter = False\<rparr>"

text \<open>The booking \<open>CreatePlateOverride\<close> inserts, under the id the database gives it.\<close>

definition CreatePlateOverride :: "int \<Rightarrow> int \<Rightarrow> string \<Rightarrow> time \<Rightarrow> time \<Rightarrow> string \<Rightarrow> override" where
  "CreatePlateOverride i pid reg now end actor = \<lparr>o_ID = i, o_PermitID = pid, o_VehicleID = 0, o_Registration = reg,
     o_State = [], o_StartsAt = whole_seconds now, o_EndsAt = Some (whole_seconds end), o_CreatedBy = actor,
     o_CreatedAt = whole_seconds now, o_GuestTokenID = 0, o_Empty = False\<rparr>"

definition plate_of :: "vehicle list \<Rightarrow> resolution \<Rightarrow> string" where
  "plate_of vs r =
     (if s_Source r = SourceNone then []
      else if s_Registration r \<noteq> [] then s_Registration r
      else (case find (\<lambda>v. v_ID v = s_VehicleID r) vs of None \<Rightarrow> [] | Some v \<Rightarrow> v_Registration v))"

text \<open>
  Until when the plate is held: the schedule's next change or the end of the day, whichever is sooner.
  (\<open>next_change\<close> always returns in a civil zone.)
\<close>

definition hold_end :: "zone \<Rightarrow> time \<Rightarrow> permit \<Rightarrow> weekly_rule list \<Rightarrow> override list \<Rightarrow> time" where
  "hold_end z now p rules overrides =
     (let end = end_of_day now z in
      case next_change z now externalHoldHorizon (permit_cycle p) rules overrides of
        Some (Some t) \<Rightarrow> if t < end then t else end
      | _ \<Rightarrow> end)"

definition detail_base :: string where "detail_base = ''changed on the council's website''"

definition holdExternalChange ::
  "reads \<Rightarrow> site \<Rightarrow> (int \<Rightarrow> int option) \<Rightarrow> permit \<Rightarrow> string \<Rightarrow> time
     \<Rightarrow> (drift_change \<times> string \<times> bool) \<times> override option" where
  "holdExternalChange rd si booking p actual now =
     (let z = si_zone si (p_Owner p) (p_TenantID p) in
      case (rd_rules rd (p_ID p), rd_overrides rd (p_ID p)) of
        (Some rules, Some overrides) \<Rightarrow>
          (let res = resolve z now (permit_cycle p) rules overrides in
           if s_Source res = SourceNone then ((no_change, detail_base, False), None)
           else if s_Empty res \<and> actual = []
           then ((no_change, detail_base @ ''; the schedule says no rego, so it stays off'', False), None)
           else (case rd_vehicles rd (p_Owner p) of
               None \<Rightarrow> ((no_change, detail_base, False), None)
             | Some vs \<Rightarrow>
                 let change = no_change\<lparr>dc_PermitLabel := permitLabel p, dc_Plate := actual\<rparr> in
                 if actual = []
                 then ((change\<lparr>dc_PutsBack := plate_of vs res\<rparr>, detail_base @ ''; the schedule's rego goes back on'', True), None)
                 else let end = hold_end z now p rules overrides;
                     then_res = resolve z end (permit_cycle p) rules overrides
                   in (case booking (p_ID p) of
                       None \<Rightarrow>
                         ((change\<lparr>dc_PutsBack := plate_of vs res, dc_EmptiesAfter := s_Empty res\<rparr>,
                           detail_base @ (if s_Empty res then ''; the schedule says no rego, so it comes off''
                             else ''; the schedule's rego goes back on''), True), None)
                     | Some i \<Rightarrow>
                         ((change\<lparr>dc_HoldsUntil := end, dc_PutsBack := plate_of vs then_res,
                             dc_EmptiesAfter := s_Empty then_res\<rparr>,
                           detail_base @ ''; kept until '' @ end_text (si_local si) end (Some z), True),
                          Some (CreatePlateOverride i (p_ID p) actual now end externalActor)))))
      | _ \<Rightarrow> ((no_change, detail_base, False), None))"

section \<open>The driver whose car a change at the council removed\<close>

definition displaced_info :: "vehicle \<Rightarrow> vehicle_info" where
  "displaced_info v = no_vehicle_info\<lparr>vi_Registration := v_Registration v, vi_Label := v_Label v,
     vi_Email := v_Email v, vi_State := v_State v\<rparr>"

definition warnExternallyDisplaced ::
  "faults \<Rightarrow> reads \<Rightarrow> site \<Rightarrow> permit \<Rightarrow> string \<Rightarrow> time \<Rightarrow> world \<Rightarrow> world" where
  "warnExternallyDisplaced f rd si p prev now w =
     (if prev = [] then w
      else case (rd_overrides rd (p_ID p), rd_vehicles rd (p_Owner p), rd_members rd (p_Owner p)) of
        (Some overrides, Some vs, Some members) \<Rightarrow>
          (let byID = foldl (\<lambda>m v. put (v_ID v) (displaced_info v) m) [] vs;
               d0 = find_displaced overrides (map_of byID) prev [] members now;
               d = (if d_Reg d0 \<noteq> [] then d0
                 else (case rd_rules rd (p_ID p) of
                     None \<Rightarrow> nobody_displaced
                   | Some rules \<Rightarrow>
                       let roster = resolve (si_zone si (p_Owner p) (p_TenantID p)) now (permit_cycle p) rules [] in
                       if s_Source roster = SourceRoster \<and> same_plate prev (vi_Registration
                            (case map_of byID (s_VehicleID roster) of None \<Rightarrow> no_vehicle_info | Some v \<Rightarrow> v))
                       then find_displaced_vehicle byID prev [] members else d0))
           in if d_Contact d = [] then w
              else fst (warnDisplacedHow f rd d prev ''the permit holder changed the rego on the council's website'' w))
      | _ \<Rightarrow> w)"

section \<open>One round\<close>

record drift_env =
  de_before :: "err option"
  de_grid :: "err + (live_permit list \<times> bool)"
  de_others :: "world \<Rightarrow> world"
  de_meta :: "string \<Rightarrow> err option"
  de_after :: "err option"
  de_confirm :: "int \<Rightarrow> err + string"
  de_touch :: bool
  de_swap :: "int \<Rightarrow> err option"
  de_clearKey :: bool
  de_booking :: "int \<Rightarrow> int option"
  de_notice :: bool
  de_expiryRead :: bool
  de_expiryTold :: "int \<Rightarrow> bool"
  de_markExpiry :: "int \<Rightarrow> bool"
  de_nudgeRead :: bool
  de_nudge :: "err option"
  de_nudgeMark :: bool

record drift_state =
  ds_w :: world
  ds_booked :: "override list"
  ds_nudged :: "string set"

record round =
  ro_w :: world
  ro_booked :: "override list"
  ro_incomplete :: "err option"
  ro_drifted :: bool
  ro_changes :: "drift_change list"
  ro_adopted :: string

text \<open>The grid row of a permit: a later row replaces an earlier one with the same id.\<close>

definition grid_row :: "live_permit list \<Rightarrow> string \<Rightarrow> live_permit option" where
  "grid_row rows cid = find (\<lambda>l. lp_CouncilPermitID l = cid) (rev rows)"

definition write_meta :: "drift_env \<Rightarrow> string \<Rightarrow> string \<Rightarrow> live_permit \<Rightarrow> world \<times> err option \<Rightarrow> world \<times> err option" where
  "write_meta e owner tenant l wi =
     (case de_meta e (lp_CouncilPermitID l) of
        None \<Rightarrow> (UpdatePermitMeta owner tenant l (fst wi), snd wi)
      | Some x \<Rightarrow> (fst wi, Some x))"

text \<open>An empty grid plate is believed only once the permit's own page has confirmed it.\<close>

definition reading :: "drift_env \<Rightarrow> live_permit \<Rightarrow> permit \<Rightarrow> err + string" where
  "reading e l p = (if lp_CurrentRego l = [] \<and> \<not> same_plate [] (p_ActiveRegistration p) then de_confirm e (p_ID p)
     else Inr (lp_CurrentRego l))"

definition adopt ::
  "faults \<Rightarrow> reads \<Rightarrow> site \<Rightarrow> drift_env \<Rightarrow> permit \<Rightarrow> string \<Rightarrow> string \<Rightarrow> time \<Rightarrow> round \<Rightarrow> round" where
  "adopt f rd si e p was actual now r =
     (let w1 = warnExternallyDisplaced f rd si p was now (ro_w r);
          w2 = (if de_clearKey e then w1 else SetPermitNotifiedKey (p_ID p) [] w1)
      in case holdExternalChange rd si (de_booking e) p actual now of
        ((change, detail, hold), booked) \<Rightarrow>
          r\<lparr>ro_w := logApply f (p_ID p) actual ''external'' ''changed'' detail w2,
            ro_booked := ro_booked r @ (case booked of None \<Rightarrow> [] | Some b \<Rightarrow> [b]),
            ro_drifted := True,
            ro_changes := (if hold then ro_changes r @ [change] else ro_changes r),
            ro_adopted := (if \<not> hold \<and> actual \<noteq> [] then actual else ro_adopted r)\<rparr>)"

definition drift_permit ::
  "faults \<Rightarrow> reads \<Rightarrow> site \<Rightarrow> drift_env \<Rightarrow> live_permit list \<Rightarrow> (int \<Rightarrow> string) \<Rightarrow> time \<Rightarrow> round \<Rightarrow> permit \<Rightarrow> round" where
  "drift_permit f rd si e rows was now r p =
     (if permit_inactive (si_local si) p now (Some (si_zone si (p_Owner p) (p_TenantID p))) then r
      else (case grid_row rows (p_CouncilPermitID p) of
          None \<Rightarrow> r
        | Some l \<Rightarrow> (case reading e l p of
            Inl x \<Rightarrow> r\<lparr>ro_incomplete := Some x\<rparr>
          | Inr actual \<Rightarrow>
              if same_plate actual (p_ActiveRegistration p)
              then r\<lparr>ro_w := (if de_touch e then ro_w r
                else TouchPermitConfirmed (p_ID p) (p_ActiveRegistration p) now (ro_w r))\<rparr>
              else (case de_swap e (p_ID p) of
                  Some x \<Rightarrow> r\<lparr>ro_incomplete := Some x\<rparr>
                | None \<Rightarrow> (case SetPermitActiveIfUnchanged (p_ID p) (was (p_ID p)) actual now (ro_w r) of
                    (w', False) \<Rightarrow> r
                  | (w', True) \<Rightarrow> adopt f rd si e p (was (p_ID p)) actual now (r\<lparr>ro_w := w'\<rparr>))))))"

definition maybePortalNudge :: "drift_env \<Rightarrow> string \<Rightarrow> string \<Rightarrow> world \<times> string set \<Rightarrow> world \<times> string set" where
  "maybePortalNudge e owner plate wn =
     (if \<not> sc_Enabled (wd_s (fst wn)) \<or> de_nudgeRead e \<or> \<not> PortalNudgeDue owner (snd wn) (fst wn) then wn
      else (case de_nudge e of
          None \<Rightarrow> (send (PortalNudge plate) (fst wn), if de_nudgeMark e then snd wn else insert owner (snd wn))
        | Some x \<Rightarrow> if err_is x ErrSuppressed then (fst wn, if de_nudgeMark e then snd wn else insert owner (snd wn)) else wn))"

text \<open>The loop of \<open>warnExpiring\<close> stops at the first permit to warn of when there is no notifier.\<close>

fun warn_each :: "site \<Rightarrow> drift_env \<Rightarrow> time \<Rightarrow> permit list \<Rightarrow> world \<Rightarrow> world" where
  "warn_each si e now [] w = w"
| "warn_each si e now (p # ps) w =
     (if is_zero (p_EndDate p) \<or> p_ExpiryReminded p then warn_each si e now ps w
      else if now < p_EndDate p - sc_expiryLead (wd_s w)
        \<or> \<not> now < expiry_deadline (si_local si) (p_EndDate p) (Some (si_zone si (p_Owner p) (p_TenantID p)))
      then warn_each si e now ps w
      else if \<not> sc_Enabled (wd_s w) then w
      else if de_expiryTold e (p_ID p)
      then warn_each si e now ps ((if de_markExpiry e (p_ID p) then id else MarkPermitExpiryReminded (p_ID p))
             (send (PermitExpiry (p_ID p)) w))
      else warn_each si e now ps w)"

definition warnExpiring :: "site \<Rightarrow> drift_env \<Rightarrow> string \<Rightarrow> time \<Rightarrow> world \<Rightarrow> world" where
  "warnExpiring si e owner now w =
     (if sc_expiryLead (wd_s w) \<le> 0 \<or> de_expiryRead e then w
      else warn_each si e now (ListPermitsFor owner w) w)"

text \<open>What the household is told at the end of a round, the expiry warnings, and the verdict.\<close>

definition end_round :: "site \<Rightarrow> drift_env \<Rightarrow> string \<Rightarrow> time \<Rightarrow> bool \<Rightarrow> string set \<Rightarrow> round \<Rightarrow> drift_state \<times> err option" where
  "end_round si e owner now whole nudged r =
     (let w1 = (if ro_drifted r then on_sched Kick (ro_w r) else ro_w r);
          w2 = (if ro_changes r \<noteq> [] \<and> sc_Enabled (wd_s w1) \<and> \<not> de_notice e then send (DriftChanged owner) w1 else w1);
          (w3, nudged') = (if ro_adopted r \<noteq> [] \<and> ro_changes r = []
            then maybePortalNudge e owner (ro_adopted r) (w2, nudged) else (w2, nudged));
          w4 = warnExpiring si e owner now w3;
          st = (\<lambda>w. \<lparr>ds_w = w, ds_booked = ro_booked r, ds_nudged = nudged'\<rparr>)
      in if whole then (st w4, ro_incomplete r)
         else (st (alertTruncatedList now w4),
           Some (case ro_incomplete r of None \<Rightarrow> Sentinel ErrPermitListPartial
             | Some x \<Rightarrow> Joined x (Sentinel ErrPermitListPartial))))"

definition checkDrift ::
  "faults \<Rightarrow> reads \<Rightarrow> site \<Rightarrow> drift_env \<Rightarrow> string \<Rightarrow> string \<Rightarrow> time \<Rightarrow> world \<times> string set \<Rightarrow> drift_state \<times> err option" where
  "checkDrift f rd si e owner tenant now wn =
     (case wn of (w, nudged) \<Rightarrow>
      let stop = (\<lambda>w x. (\<lparr>ds_w = w, ds_booked = [], ds_nudged = nudged\<rparr>, Some x)) in
      (case de_before e of
         Some x \<Rightarrow> stop w x
       | None \<Rightarrow>
           let before = filter (\<lambda>p. p_TenantID p = tenant) (ListPermitsFor owner w);
               was = (\<lambda>pid. case find (\<lambda>p. p_ID p = pid) before of None \<Rightarrow> [] | Some p \<Rightarrow> p_ActiveRegistration p);
               w1 = de_others e w
           in (case de_grid e of
             Inl x \<Rightarrow> stop w1 x
           | Inr (rows, whole) \<Rightarrow>
               (case foldl (\<lambda>wi l. write_meta e owner tenant l wi) (w1, None) rows of (w2, incomplete) \<Rightarrow>
                (case de_after e of
                   Some x \<Rightarrow> stop w2 x
                 | None \<Rightarrow>
                     end_round si e owner now whole nudged
                       (foldl (drift_permit f rd si e rows was now)
                         \<lparr>ro_w = w2, ro_booked = [], ro_incomplete = incomplete, ro_drifted = False, ro_changes = [], ro_adopted = []\<rparr>
                         (filter (\<lambda>p. p_TenantID p = tenant) (ListPermitsFor owner w2))))))))"

section \<open>The plates through a round\<close>

text \<open>The plate each permit is recorded with; only an adoption changes it.\<close>

definition acts :: "world \<Rightarrow> (int \<times> string) list" where
  "acts w = map (\<lambda>p. (p_ID p, p_ActiveRegistration p)) (wd_permits w)"

named_theorems acts_simps \<open>operations of a round that keep the recorded plates\<close>

lemma active_plate_acts: "active_plate pid w = map_of (acts w) pid"
proof -
  have "map_option p_ActiveRegistration (find (\<lambda>p. p_ID p = pid) ps)
      = map_of (map (\<lambda>p. (p_ID p, p_ActiveRegistration p)) ps) pid" for ps
    by (induction ps) auto
  then show ?thesis by (simp add: active_plate_def GetPermit_def acts_def)
qed

interpretation acts: bookkeeping_observer acts
  by unfold_locales (auto simp: acts_def)

lemmas acts_books [acts_simps] = acts.obs_books

lemma acts_sched [acts_simps]: "acts (on_sched g w) = acts w" "acts (w\<lparr>wd_s := s\<rparr>) = acts w"
  by (simp_all add: acts_def)

lemma acts_on_permits:
  assumes "\<And>p. p_ID (g p) = p_ID p" and "\<And>p. p_ActiveRegistration (g p) = p_ActiveRegistration p"
  shows "acts (on_permits g w) = acts w"
  using assms by (simp add: acts_def on_permits_def)

lemma acts_permits [acts_simps]:
  "acts (UpdatePermitMeta owner tenant l w) = acts w" "acts (MarkPermitExpiryReminded pid w) = acts w"
  "acts (TouchPermitConfirmed pid reg t w) = acts w" "acts (SetPermitNotifiedKey pid key w) = acts w"
  unfolding UpdatePermitMeta_def Let_def MarkPermitExpiryReminded_def TouchPermitConfirmed_def SetPermitNotifiedKey_def
  by (simp_all add: acts_on_permits acts.obs_on_row)

lemma acts_meta: "acts (fst (foldl (\<lambda>wi l. write_meta e owner tenant l wi) wi rows)) = acts (fst wi)"
  by (induction rows arbitrary: wi) (simp_all add: write_meta_def acts_simps split: option.split)

lemma acts_displaced [acts_simps]: "acts (warnExternallyDisplaced f rd si p prev now w) = acts w"
  by (auto simp: warnExternallyDisplaced_def Let_def warnDisplacedHow_def acts_simps split: option.split)

lemma acts_adopt: "acts (ro_w (adopt f rd si e p was actual now r)) = acts (ro_w r)"
proof -
  obtain change detail hold booked where h: "holdExternalChange rd si (de_booking e) p actual now = ((change, detail, hold), booked)"
    by (metis surj_pair)
  show ?thesis by (simp add: adopt_def h Let_def acts_simps)
qed

lemma acts_nudge: "acts (fst (maybePortalNudge e owner plate wn)) = acts (fst wn)"
  by (auto simp: maybePortalNudge_def acts_simps split: option.split)

lemma acts_warn_each: "acts (warn_each si e now ps w) = acts w"
  by (induction ps arbitrary: w) (auto simp: acts_simps)

lemma acts_truncated [acts_simps]: "acts (alertTruncatedList now w) = acts w"
  by (simp add: alertTruncatedList_def acts_simps split: prod.split)

lemma acts_end_round: "acts (ds_w (fst (end_round si e owner now whole nudged r))) = acts (ro_w r)"
proof -
  define w1 where "w1 = (if ro_drifted r then on_sched Kick (ro_w r) else ro_w r)"
  define w2 where "w2 = (if ro_changes r \<noteq> [] \<and> sc_Enabled (wd_s w1) \<and> \<not> de_notice e then send (DriftChanged owner) w1 else w1)"
  obtain w3 n where 3: "(if ro_adopted r \<noteq> [] \<and> ro_changes r = []
      then maybePortalNudge e owner (ro_adopted r) (w2, nudged) else (w2, nudged)) = (w3, n)" by (metis surj_pair)
  have "acts w2 = acts (ro_w r)" by (simp add: w2_def w1_def acts_simps)
  moreover have "acts w3 = acts w2" using 3 acts_nudge [of e owner "ro_adopted r" "(w2, nudged)"] by (auto split: if_splits)
  ultimately show ?thesis
    by (simp only: end_round_def Let_def w1_def [symmetric] w2_def [symmetric] 3 prod.case)
      (simp add: warnExpiring_def acts_simps acts_warn_each)
qed

lemma active_plate_swap:
  "active_plate pid (fst (SetPermitActiveIfUnchanged i old new now w))
   = (if pid = i \<and> active_plate pid w = Some old then Some new else active_plate pid w)"
proof -
  have "map_of (map (\<lambda>p. (p_ID p, p_ActiveRegistration p)) (map (\<lambda>p. if p_ID p = i \<and> p_ActiveRegistration p = old
        then p\<lparr>p_ActiveRegistration := new, p_ActiveConfirmedAt := whole_seconds now\<rparr> else p) ps)) pid
      = (if pid = i \<and> map_of (map (\<lambda>p. (p_ID p, p_ActiveRegistration p)) ps) pid = Some old then Some new
         else map_of (map (\<lambda>p. (p_ID p, p_ActiveRegistration p)) ps) pid)" for ps
    by (induction ps) auto
  from this [of "wd_permits w"] show ?thesis
    by (simp only: active_plate_acts SetPermitActiveIfUnchanged_def on_permits_def acts_def fst_conv) simp
qed

text \<open>What a round believed of a permit when its grid read began.\<close>

definition belief :: "string \<Rightarrow> string \<Rightarrow> world \<Rightarrow> int \<Rightarrow> string" where
  "belief owner tenant w pid = (case find (\<lambda>p. p_ID p = pid) (filter (\<lambda>p. p_TenantID p = tenant) (ListPermitsFor owner w)) of
     None \<Rightarrow> [] | Some p \<Rightarrow> p_ActiveRegistration p)"

definition read_as :: "drift_env \<Rightarrow> live_permit list \<Rightarrow> int \<Rightarrow> string \<Rightarrow> bool" where
  "read_as e rows pid actual \<longleftrightarrow> (\<exists>p l. p_ID p = pid \<and> grid_row rows (p_CouncilPermitID p) = Some l \<and> reading e l p = Inr actual)"

lemma drift_permit_plate:
  "active_plate pid (ro_w (drift_permit f rd si e rows was now r p)) = active_plate pid (ro_w r)
   \<or> (active_plate pid (ro_w r) = Some (was pid)
      \<and> (\<exists>actual. read_as e rows pid actual \<and> active_plate pid (ro_w (drift_permit f rd si e rows was now r p)) = Some actual))"
proof (cases "permit_inactive (si_local si) p now (Some (si_zone si (p_Owner p) (p_TenantID p)))")
  case True
  then show ?thesis by (simp add: drift_permit_def)
next
  case False
  note act = False
  show ?thesis
  proof (cases "grid_row rows (p_CouncilPermitID p)")
    case None
    then show ?thesis using act by (simp add: drift_permit_def)
  next
    case (Some l)
    show ?thesis
    proof (cases "reading e l p")
      case (Inl x)
      then show ?thesis using act Some by (simp add: drift_permit_def)
    next
      case (Inr actual)
      show ?thesis
      proof (cases "same_plate actual (p_ActiveRegistration p) \<or> de_swap e (p_ID p) \<noteq> None
          \<or> \<not> snd (SetPermitActiveIfUnchanged (p_ID p) (was (p_ID p)) actual now (ro_w r))")
        case True
        then show ?thesis using act Some Inr
          by (auto simp: drift_permit_def active_plate_acts acts_simps split: option.split prod.split)
      next
        case False
        define w' where "w' = fst (SetPermitActiveIfUnchanged (p_ID p) (was (p_ID p)) actual now (ro_w r))"
        have "drift_permit f rd si e rows was now r p = adopt f rd si e p (was (p_ID p)) actual now (r\<lparr>ro_w := w'\<rparr>)"
          using act Some Inr False by (simp add: drift_permit_def w'_def case_prod_beta)
        then have "active_plate pid (ro_w (drift_permit f rd si e rows was now r p)) = active_plate pid w'"
          by (simp add: active_plate_acts acts_adopt)
        moreover have "p_ID p = pid \<Longrightarrow> read_as e rows pid actual" using Some Inr by (auto simp: read_as_def)
        ultimately show ?thesis
          using active_plate_swap [of pid "p_ID p" "was (p_ID p)" actual now "ro_w r"] by (auto simp: w'_def)
      qed
    qed
  qed
qed

lemma round_plate:
  "active_plate pid (ro_w (foldl (drift_permit f rd si e rows was now) r ps)) = active_plate pid (ro_w r)
   \<or> (active_plate pid (ro_w r) = Some (was pid)
      \<and> (\<exists>actual. read_as e rows pid actual
            \<and> active_plate pid (ro_w (foldl (drift_permit f rd si e rows was now) r ps)) = Some actual))"
proof (induction ps arbitrary: r)
  case (Cons p ps)
  show ?case using drift_permit_plate [of pid f rd si e rows was now r p] Cons.IH [of "drift_permit f rd si e rows was now r p"]
    by auto
qed simp

section \<open>Results\<close>

text \<open>C23: Whatever a round does, the recorded plate of a permit changes only if the row still held the plate
  the round believed when its grid read began, and then only to what the council reported for that
  permit, an empty grid plate counting only once the permit's own page has confirmed it.\<close>

theorem a_write_during_the_read_wins:
  assumes "de_before e = None" and "checkDrift f rd si e owner tenant now (w, nudged) = (s', x)"
  shows "active_plate pid (ds_w s') = active_plate pid (de_others e w)
    \<or> (active_plate pid (de_others e w) = Some (belief owner tenant w pid)
       \<and> (\<exists>rows whole actual. de_grid e = Inr (rows, whole) \<and> read_as e rows pid actual
             \<and> active_plate pid (ds_w s') = Some actual))"
proof (cases "de_grid e")
  case (Inl y)
  then show ?thesis using assms by (auto simp: checkDrift_def Let_def)
next
  case (Inr g)
  obtain rows whole where g: "de_grid e = Inr (rows, whole)" using Inr by (cases g) simp
  define m where "m = foldl (\<lambda>wi l. write_meta e owner tenant l wi) (de_others e w, None) rows"
  have m: "acts (fst m) = acts (de_others e w)" using acts_meta [of e owner tenant "(de_others e w, None)" rows] by (simp add: m_def)
  note run = assms(2) [unfolded checkDrift_def prod.case Let_def assms(1) option.case g sum.case m_def [symmetric]]
  show ?thesis
  proof (cases "de_after e")
    case (Some y)
    then have "ds_w s' = fst m" using run by (auto split: prod.splits)
    then show ?thesis using m by (simp add: active_plate_acts)
  next
    case None
    define r0 where "r0 = \<lparr>ro_w = fst m, ro_booked = [], ro_incomplete = snd m, ro_drifted = False, ro_changes = [], ro_adopted = []\<rparr>"
    define ps where "ps = filter (\<lambda>p. p_TenantID p = tenant) (ListPermitsFor owner (fst m))"
    define r where "r = foldl (drift_permit f rd si e rows (belief owner tenant w) now) r0 ps"
    have "s' = fst (end_round si e owner now whole nudged r)"
      using run None by (simp add: r_def r0_def ps_def case_prod_beta belief_def [abs_def])
    then have "active_plate pid (ds_w s') = active_plate pid (ro_w r)" by (simp add: active_plate_acts acts_end_round)
    moreover have "active_plate pid (ro_w r0) = active_plate pid (de_others e w)" using m by (simp add: r0_def active_plate_acts)
    ultimately show ?thesis
      using round_plate [of pid f rd si e rows "belief owner tenant w" now r0 ps] g by (auto simp: r_def)
  qed
qed

text \<open>What it takes for one permit to count as checked.\<close>

definition checked :: "site \<Rightarrow> drift_env \<Rightarrow> live_permit list \<Rightarrow> time \<Rightarrow> permit \<Rightarrow> bool" where
  "checked si e rows now p \<longleftrightarrow>
     permit_inactive (si_local si) p now (Some (si_zone si (p_Owner p) (p_TenantID p)))
     \<or> (case grid_row rows (p_CouncilPermitID p) of
          None \<Rightarrow> True
        | Some l \<Rightarrow> (case reading e l p of
            Inl x \<Rightarrow> False
          | Inr actual \<Rightarrow> same_plate actual (p_ActiveRegistration p) \<or> de_swap e (p_ID p) = None))"

lemma drift_permit_incomplete:
  "ro_incomplete (drift_permit f rd si e rows was now r p) = None \<longleftrightarrow> ro_incomplete r = None \<and> checked si e rows now p"
proof -
  have "ro_incomplete (adopt f rd si e p a b now r') = ro_incomplete r'" for a b r'
    by (simp add: adopt_def Let_def split: prod.split)
  then show ?thesis
    by (auto simp: drift_permit_def checked_def split: option.splits sum.splits prod.splits bool.splits)
qed

lemma round_incomplete:
  "ro_incomplete (foldl (drift_permit f rd si e rows was now) r ps) = None
   \<longleftrightarrow> ro_incomplete r = None \<and> list_all (checked si e rows now) ps"
  by (induction ps arbitrary: r) (auto simp: drift_permit_incomplete)

lemma metas_done:
  "snd (foldl (\<lambda>wi l. write_meta e owner tenant l wi) wi rows) = None
   \<longleftrightarrow> snd wi = None \<and> list_all (\<lambda>l. de_meta e (lp_CouncilPermitID l) = None) rows"
  by (induction rows arbitrary: wi) (auto simp: write_meta_def split: option.splits)

lemma metas_world:
  "list_all (\<lambda>l. de_meta e (lp_CouncilPermitID l) = None) rows \<Longrightarrow>
   fst (foldl (\<lambda>wi l. write_meta e owner tenant l wi) wi rows) = foldl (\<lambda>w l. UpdatePermitMeta owner tenant l w) (fst wi) rows"
  by (induction rows arbitrary: wi) (auto simp: write_meta_def)

lemma end_round_verdict: "snd (end_round si e owner now whole nudged r) = None \<longleftrightarrow> whole \<and> ro_incomplete r = None"
  by (simp add: end_round_def Let_def case_prod_beta)

text \<open>C25: A round counts as a drift check exactly when both reads of the store and the council's list
  succeeded, the list was the whole account, every status write landed, and every live permit on the
  list was either found to agree, or adopted or overtaken without an error; an empty grid plate that
  could not be confirmed leaves the round unfinished.\<close>

theorem only_complete_rounds_count:
  "snd (checkDrift f rd si e owner tenant now (w, nudged)) = None \<longleftrightarrow>
     de_before e = None \<and> de_after e = None
     \<and> (\<exists>rows. de_grid e = Inr (rows, True) \<and> list_all (\<lambda>l. de_meta e (lp_CouncilPermitID l) = None) rows
        \<and> list_all (checked si e rows now) (filter (\<lambda>p. p_TenantID p = tenant)
             (ListPermitsFor owner (foldl (\<lambda>w l. UpdatePermitMeta owner tenant l w) (de_others e w) rows))))"
proof (cases "de_before e = None \<and> de_after e = None")
  case False
  then show ?thesis
    by (cases "de_before e"; cases "de_after e") (auto simp: checkDrift_def Let_def split: sum.split prod.split)
next
  case ok: True
  show ?thesis
  proof (cases "de_grid e")
    case (Inl y)
    then show ?thesis using ok by (simp add: checkDrift_def Let_def)
  next
    case (Inr g)
    obtain rows whole where g: "de_grid e = Inr (rows, whole)" using Inr by (cases g) simp
    define m where "m = foldl (\<lambda>wi l. write_meta e owner tenant l wi) (de_others e w, None) rows"
    have "snd (checkDrift f rd si e owner tenant now (w, nudged)) = None \<longleftrightarrow>
        whole \<and> snd m = None \<and> list_all (checked si e rows now) (filter (\<lambda>p. p_TenantID p = tenant) (ListPermitsFor owner (fst m)))"
      using ok by (simp add: checkDrift_def Let_def g m_def [symmetric] case_prod_beta end_round_verdict round_incomplete)
    then show ?thesis
      using ok g metas_done [of e owner tenant "(de_others e w, None)" rows] metas_world [of e rows owner tenant "(de_others e w, None)"]
      by (auto simp: m_def)
  qed
qed

text \<open>A plate changed at the council over a scheduled one is kept: until the hold ends, the schedule
  with the new booking wants exactly that plate, whatever else was booked before. The hold ends no
  later than the local day.\<close>

theorem a_plate_set_at_the_council_stands:
  assumes "holdExternalChange rd si booking p actual now = ((change, detail, hold), Some b)"
    and "rd_overrides rd (p_ID p) = Some overrides" and "rd_rules rd (p_ID p) = Some rules"
    and "\<And>o'. o' \<in> set overrides \<Longrightarrow> o_CreatedAt o' \<le> whole_seconds now"
    and "\<And>o' i. o' \<in> set overrides \<Longrightarrow> booking (p_ID p) = Some i \<Longrightarrow> o_ID o' < i"
    and "now \<le> t" and "t < whole_seconds (dc_HoldsUntil change)"
  shows "hold \<and> dc_Plate change = actual
    \<and> tg_want (target_of vehs p (resolve z t (permit_cycle p) rules' (overrides @ [b]))) = actual
    \<and> dc_HoldsUntil change \<le> end_of_day now (si_zone si (p_Owner p) (p_TenantID p))"
proof -
  define zone where "zone = si_zone si (p_Owner p) (p_TenantID p)"
  obtain i where i: "booking (p_ID p) = Some i"
    and h: "hold" and pl: "dc_Plate change = actual" and a: "actual \<noteq> []"
    and until: "dc_HoldsUntil change = hold_end zone now p rules overrides"
    and b: "b = CreatePlateOverride i (p_ID p) actual now (hold_end zone now p rules overrides) externalActor"
    using assms(1-3) by (auto simp: holdExternalChange_def Let_def zone_def split: option.splits if_splits)
  have live: "override_active t b"
  proof -
    have "whole_seconds now \<le> now" unfolding whole_seconds_def second_def by presburger
    then show ?thesis using assms(6,7) by (simp add: b CreatePlateOverride_def override_active_def until)
  qed
  obtain w where win: "winning_override t (overrides @ [b]) = Some w"
    using live winning_override_None [of t "overrides @ [b]"] by (cases "winning_override t (overrides @ [b])") auto
  have "w = b"
  proof (rule ccontr)
    assume n: "w \<noteq> b"
    then have "w \<in> set overrides" using winning_override_Some(1) [OF win] by auto
    moreover have "o_CreatedAt b < o_CreatedAt w \<or> (o_CreatedAt b = o_CreatedAt w \<and> o_ID b \<le> o_ID w)"
      using winning_override_Some(3) [OF win, of b] live by simp
    ultimately show False using assms(4,5) i by (fastforce simp: b CreatePlateOverride_def)
  qed
  then have "resolve z t (permit_cycle p) rules' (overrides @ [b]) = override_resolution b" using win by (simp add: resolve_def)
  then have "tg_want (target_of vehs p (resolve z t (permit_cycle p) rules' (overrides @ [b]))) = actual"
    using a by (simp add: target_of_def override_resolution_def b CreatePlateOverride_def Let_def split: prod.split)
  moreover have "hold_end zone now p rules overrides \<le> end_of_day now zone"
    by (auto simp: hold_end_def Let_def split: option.split)
  ultimately show ?thesis using h pl until by (simp add: zone_def)
qed

lemma drift_backoff_range:
  assumes "0 < sc_driftInterval s"
  shows "min (15 * minute) (sc_driftInterval s) \<le> drift_backoff n s" "drift_backoff n s \<le> sc_driftInterval s"
proof -
  define lad where "lad = 15 * minute * 4 ^ nat (min n 5 - 1)"
  have "15 * minute \<le> lad" by (simp add: lad_def minute_def second_def)
  moreover have "drift_backoff n s = min lad (sc_driftInterval s)"
    using assms by (auto simp: drift_backoff_def lad_def Let_def min_def)
  ultimately show "min (15 * minute) (sc_driftInterval s) \<le> drift_backoff n s" "drift_backoff n s \<le> sc_driftInterval s"
    by simp_all
qed

text \<open>A failing owner is not read again before a quarter of an hour (or the whole drift interval, if
  shorter), even when a read was asked for; the ladder never exceeds the drift interval; another owner's
  cadence is untouched, and a later success restores the ordinary one.\<close>

theorem failing_drift_reads_back_off:
  assumes "0 < sc_driftInterval (wd_s w)"
    and "b = min (15 * minute) (sc_driftInterval (wd_s w))"
  shows "(t < now + b \<longrightarrow> \<not> driftDue owner c u t (wd_s (noteDriftFailure owner e now w)))
    \<and> drift_backoff (sc_driftFails (wd_s w) owner + 1) (wd_s w) \<le> sc_driftInterval (wd_s w)
    \<and> (other \<noteq> owner \<longrightarrow> driftDue other c u t (wd_s (noteDriftFailure owner e now w)) = driftDue other c u t (wd_s w))
    \<and> \<not> driftBackedOff owner t (noteDriftSuccess owner (wd_s (noteDriftFailure owner e now w)))"
proof -
  define n where "n = sc_driftFails (wd_s w) owner + 1"
  have bo: "b \<le> drift_backoff n (wd_s w)" "drift_backoff n (wd_s w) \<le> sc_driftInterval (wd_s w)"
    using drift_backoff_range [OF assms(1)] by (simp_all add: assms(2))
  obtain s2 where s2: "wd_s (noteDriftFailure owner e now w) = s2"
    and f: "sc_driftRetryAt s2 = (sc_driftRetryAt (wd_s w))(owner \<mapsto> now + drift_backoff n (wd_s w))"
      "sc_driftInterval s2 = sc_driftInterval (wd_s w)" "sc_driftAsap s2 = sc_driftAsap (wd_s w)" "sc_jitterFrac s2 = sc_jitterFrac (wd_s w)"
    by (auto simp: noteDriftFailure_def Let_def n_def raise_alert_def systemAlert_def systemAlertEvery_def
        split: prod.split bool.split if_splits)
  have th: "driftThresholdFor i s2 = driftThresholdFor i (wd_s w)" for i using f by (simp add: driftThresholdFor_def Let_def)
  have "t < now + b \<longrightarrow> \<not> driftDue owner c u t s2" using f bo by (auto simp: driftDue_def driftBackedOff_def)
  moreover have "other \<noteq> owner \<longrightarrow> driftDue other c u t s2 = driftDue other c u t (wd_s w)"
    using f th by (simp add: driftDue_def driftBackedOff_def driftRequested_def)
  moreover have "\<not> driftBackedOff owner t (noteDriftSuccess owner s2)" by (rule drift_hold.not_blocked_after_release)
  ultimately show ?thesis using bo by (simp add: s2 n_def)
qed

text \<open>
  A round remembers one error only: an expired session found on one permit is forgotten when a later
  permit's write fails, so the expiry does not reach the reconnect queue from this round.
\<close>

lemma a_later_error_hides_an_expiry:
  assumes "\<not> permit_inactive (si_local si) p now (Some (si_zone si (p_Owner p) (p_TenantID p)))"
    and "grid_row rows (p_CouncilPermitID p) = Some l" and "reading e l p = Inl (ExpiredAt g)"
    and "\<not> permit_inactive (si_local si) q now (Some (si_zone si (p_Owner q) (p_TenantID q)))"
    and "grid_row rows (p_CouncilPermitID q) = Some k" and "reading e k q = Inr actual"
    and "\<not> same_plate actual (p_ActiveRegistration q)" and "de_swap e (p_ID q) = Some (Plain m)"
  shows "Option.bind (ro_incomplete (drift_permit f rd si e rows was now r p)) as_gen = Some g
    \<and> Option.bind (ro_incomplete (drift_permit f rd si e rows was now (drift_permit f rd si e rows was now r p) q)) as_gen = None"
  using assms by (simp add: drift_permit_def)

section \<open>Concrete instances\<close>

definition w_live :: "string \<Rightarrow> live_permit" where
  "w_live reg = \<lparr>lp_CouncilPermitID = ''14423'', lp_PermitNumber = ''VPP24714'', lp_PermitType = [], lp_Status = [],
     lp_CurrentRego = reg, lp_EndDate = zero_time\<rparr>"

definition w_round :: "err + string \<Rightarrow> string \<Rightarrow> bool \<Rightarrow> drift_env" where
  "w_round c reg whole = \<lparr>de_before = None, de_grid = Inr ([w_live reg], whole), de_others = (\<lambda>w. w), de_meta = (\<lambda>_. None),
     de_after = None, de_confirm = (\<lambda>_. c), de_touch = False, de_swap = (\<lambda>_. None), de_clearKey = False,
     de_booking = (\<lambda>_. Some 9), de_notice = False, de_expiryRead = False, de_expiryTold = (\<lambda>_. True),
     de_markExpiry = (\<lambda>_. False), de_nudgeRead = False, de_nudge = None, de_nudgeMark = False\<rparr>"

lemma w_belief: "belief ''a@x'' ''stonnington'' w_world 7 = ''OLD001''" "active_plate 7 w_world = Some ''OLD001''"
  by (simp_all add: belief_def ListPermitsFor_def w_world_def w_household_def w_permit_def active_plate_def GetPermit_def)

lemma a_write_during_the_read_wins_witness:
  "active_plate 7 (ds_w (fst (checkDrift no_faults w_reads w_site (w_round (Inr []) ''NEW777'' True) ''a@x'' ''stonnington'' 5 (w_world, {}))))
     \<in> {Some ''OLD001'', Some ''NEW777''}"
proof -
  let ?e = "w_round (Inr []) ''NEW777'' True"
  have r: "read_as ?e [w_live ''NEW777''] 7 a \<Longrightarrow> a = ''NEW777''" for a
    by (auto simp: read_as_def grid_row_def reading_def w_live_def w_round_def split: if_splits)
  show ?thesis
    using a_write_during_the_read_wins [of ?e no_faults w_reads w_site "''a@x''" "''stonnington''" 5 w_world "{}"
        "fst (checkDrift no_faults w_reads w_site ?e ''a@x'' ''stonnington'' 5 (w_world, {}))"
        "snd (checkDrift no_faults w_reads w_site ?e ''a@x'' ''stonnington'' 5 (w_world, {}))" 7] r w_belief
    by (auto simp: w_round_def)
qed

lemma only_complete_rounds_count_witness:
  "snd (checkDrift no_faults w_reads w_site (w_round (Inr []) ''OLD001'' True) ''a@x'' ''stonnington'' 5 (w_world, {})) = None
   \<and> snd (checkDrift no_faults w_reads w_site (w_round (Inl (ExpiredAt 3)) [] True) ''a@x'' ''stonnington'' 5 (w_world, {})) \<noteq> None"
proof -
  have ps: "filter (\<lambda>p. p_TenantID p = ''stonnington'') (ListPermitsFor ''a@x''
      (foldl (\<lambda>w l. UpdatePermitMeta ''a@x'' ''stonnington'' l w) w_world [w_live reg])) = [w_household]" for reg
    by (simp add: ListPermitsFor_def UpdatePermitMeta_def on_permits_def w_world_def w_household_def w_permit_def w_live_def
        is_zero_def)
  have dead: "\<not> dead_status []" by code_simp
  have a: "\<not> permit_inactive l w_household t z" for l t z
    using dead by (simp add: w_household_def w_permit_def permit_inactive_def is_zero_def)
  have h: "p_CouncilPermitID w_household = ''14423''" "p_ActiveRegistration w_household = ''OLD001''"
    by (simp_all add: w_household_def w_permit_def)
  have plates: "same_plate ''OLD001'' ''OLD001''" "\<not> same_plate [] ''OLD001''" by code_simp+
  show ?thesis
    unfolding only_complete_rounds_count
    using ps a h plates
    by (auto simp: w_round_def checked_def grid_row_def reading_def) (simp_all add: w_live_def)
qed

lemma first_write_steady:
  assumes "\<And>t. t \<in> set cands \<Longrightarrow> g t = r" and "s_Source r \<noteq> SourceNone"
  shows "first_write g cands r True = None"
  using assms by (induction cands) (auto simp: same_target_def)

text \<open>A standing booking, and a plate set at the council two seconds into the epoch.\<close>

lemma w_hold:
  "hold_end melbourne (2 * second) w_household [] [w_override 1 ''ABC123'' 0 None 5] = 46800 * second"
proof -
  let ?ovs = "[w_override 1 ''ABC123'' 0 None 5]" and ?c = "permit_cycle w_household"
  have r: "0 \<le> t \<Longrightarrow> resolve melbourne t ?c [] ?ovs = override_resolution (w_override 1 ''ABC123'' 0 None 5)" for t
    by (simp add: resolve_def winning_override_def override_active_def w_override_def best_def keep_best_def)
  obtain cands where n: "next_change melbourne (2 * second) externalHoldHorizon ?c [] ?ovs
      = Some (first_write (\<lambda>t. resolve melbourne t ?c [] ?ovs) cands (resolve melbourne (2 * second) ?c [] ?ovs)
          (s_Source (resolve melbourne (2 * second) ?c [] ?ovs) \<noteq> SourceNone))"
    and c: "set cands = {b. 2 * second < b \<and> b \<le> 2 * second + externalHoldHorizon \<and> boundary melbourne ?ovs b}"
    using next_change_candidates [OF civil_melbourne, of "2 * second" externalHoldHorizon ?c "[]" ?ovs] by blast
  have src: "s_Source (override_resolution (w_override 1 ''ABC123'' 0 None 5)) = SourceOverride"
    by (simp add: override_resolution_def w_override_def)
  have "first_write (\<lambda>t. resolve melbourne t ?c [] ?ovs) cands (override_resolution (w_override 1 ''ABC123'' 0 None 5)) True = None"
  proof (rule first_write_steady)
    show "resolve melbourne t ?c [] ?ovs = override_resolution (w_override 1 ''ABC123'' 0 None 5)" if "t \<in> set cands" for t
      using that r [of t] by (simp add: c second_def)
  qed (simp add: src)
  then have "next_change melbourne (2 * second) externalHoldHorizon ?c [] ?ovs = Some None"
    using n r [of "2 * second"] src by (simp add: second_def)
  then show ?thesis
    by (simp add: hold_end_def end_of_day_def localday_def lns_def zoff_melbourne midnight_melbourne time_simps)
qed

lemma a_plate_set_at_the_council_stands_witness:
  "tg_want (target_of [] w_household (resolve melbourne (5 * hour) (permit_cycle w_household) []
     ([w_override 1 ''ABC123'' 0 None 5]
       @ [CreatePlateOverride 9 7 ''NEW777'' (2 * second) (46800 * second) externalActor]))) = ''NEW777''"
proof -
  have res: "resolve melbourne (2 * second) c [] [w_override 1 ''ABC123'' 0 None 5]
      = override_resolution (w_override 1 ''ABC123'' 0 None 5)" for c
    by (simp add: resolve_def winning_override_def override_active_def w_override_def best_def keep_best_def second_def)
  have src: "s_Source (override_resolution (w_override 1 ''ABC123'' 0 None 5)) = SourceOverride"
    by (simp add: override_resolution_def w_override_def)
  obtain change detail where h: "holdExternalChange w_plan w_site (\<lambda>_. Some 9) w_household ''NEW777'' (2 * second)
      = ((change, detail, True), Some (CreatePlateOverride 9 7 ''NEW777'' (2 * second) (46800 * second) externalActor))"
    and until: "dc_HoldsUntil change = 46800 * second"
    by (simp add: holdExternalChange_def w_plan_def w_reads_def w_site_def res src w_hold Let_def)
  show ?thesis
    using a_plate_set_at_the_council_stands [OF h, where overrides = "[w_override 1 ''ABC123'' 0 None 5]" and rules = "[]"
        and t = "5 * hour" and vehs = "[]" and rules' = "[]"] until
    by (simp add: w_plan_def w_reads_def w_site_def w_override_def whole_seconds_def time_simps)
qed

lemma failing_drift_reads_back_off_witness:
  "\<not> driftDue ''a@x'' 0 0 (14 * minute) (wd_s (noteDriftFailure ''a@x'' (Plain []) 0 w_world))"
  using failing_drift_reads_back_off [where w = w_world and owner = "''a@x''" and b = "15 * minute" and t = "14 * minute"
      and now = 0 and c = 0 and u = 0 and e = "Plain []"]
  by (simp add: w_sched_def New_def time_simps min_def)

end
