(* ===== verification/Warm.thy ===== *)
theory Warm
  imports Drift
begin

text \<open>
  Keep-warm (internal/scheduler/warm.go): which sessions are renewed, retired or left alone, when; the
  renewal reminder; and one session's turn of the pass, with the drift read it may carry.

  What a turn meets outside is the record \<open>warm_env\<close>. The scheduler has a notifier. \<open>wm_calls\<close> lists the
  requests a turn makes of the council, latest first.
\<close>

section \<open>Policy\<close>

definition warmRetryInterval :: "scheduler \<Rightarrow> dur" where
  "warmRetryInterval s =
     (let d0 = sc_warmSafetyMargin s div 4;
          d1 = (if d0 < 5 * minute then 5 * minute else d0);
          d2 = (if 30 * minute < d1 then 30 * minute else d1)
      in if 0 < sc_warmSafetyMargin s \<and> sc_warmSafetyMargin s \<le> d2 then sc_warmSafetyMargin s div 2 else d2)"

datatype warm_action = WarmSkip | WarmRenew | WarmRetire

definition decideWarm :: "time \<Rightarrow> time \<Rightarrow> time \<Rightarrow> time \<Rightarrow> dur \<Rightarrow> dur \<Rightarrow> warm_action" where
  "decideWarm now lastActive linkedAt updatedAt maxAge warmInterval =
     (let idleSince = (if is_zero lastActive then linkedAt else lastActive) in
      if 0 < maxAge \<and> (is_zero idleSince \<or> maxAge \<le> tsub now idleSince) then WarmRetire
      else if tsub now updatedAt < warmInterval then WarmSkip
      else WarmRenew)"

definition idleWindowFor :: "capabilities \<Rightarrow> scheduler \<Rightarrow> dur" where
  "idleWindowFor caps s =
     (let declared = cap_IdleWindow caps in
      if 0 < declared \<and> 0 < sc_idleWindow s then min declared (sc_idleWindow s)
      else if 0 < declared then declared
      else sc_idleWindow s)"

definition warm_base :: "dur \<Rightarrow> scheduler \<Rightarrow> dur" where
  "warm_base idleWindow s =
     (let ceil = idleWindow - sc_warmSafetyMargin s in
      if 0 < idleWindow \<and> 0 < ceil \<and> ceil < sc_warmInterval s then ceil else sc_warmInterval s)"

definition warmThresholdFor :: "string \<Rightarrow> time \<Rightarrow> dur \<Rightarrow> scheduler \<Rightarrow> dur" where
  "warmThresholdFor owner updatedAt idleWindow s =
     (let base = warm_base idleWindow s in
      if sc_jitterFrac s \<le> 0 then base
      else let u = unit01 (fnv64a (utf8 owner @ le_bytes (word_of_int (updatedAt div second))))
        in trunc (fl (fl (of_int base) * fl (1 - fl (u * sc_jitterFrac s)))))"

section \<open>The back-off of a failed renewal\<close>

definition noteWarmFailure :: "string \<Rightarrow> string \<Rightarrow> time \<Rightarrow> scheduler \<Rightarrow> scheduler" where
  "noteWarmFailure owner tenant now s =
     s\<lparr>sc_warmRetryAt := (sc_warmRetryAt s)((owner, tenant) \<mapsto> now + warmRetryInterval s)\<rparr>"

definition noteWarmSuccess :: "string \<Rightarrow> string \<Rightarrow> scheduler \<Rightarrow> scheduler" where
  "noteWarmSuccess owner tenant = clearWarmBackoff (\<lambda>k. k = (owner, tenant))"

definition warmBackedOff :: "string \<Rightarrow> string \<Rightarrow> time \<Rightarrow> scheduler \<Rightarrow> bool" where
  "warmBackedOff owner tenant now s = (case sc_warmRetryAt s (owner, tenant) of None \<Rightarrow> False | Some t \<Rightarrow> now < t)"

definition hold_warm :: "session_key \<Rightarrow> time \<Rightarrow> scheduler \<Rightarrow> scheduler" where
  "hold_warm k t s = s\<lparr>sc_warmRetryAt := (sc_warmRetryAt s)(k \<mapsto> t)\<rparr>"

interpretation warm_hold: backoff_table sc_warmRetryAt hold_warm "\<lambda>k. noteWarmSuccess (fst k) (snd k)"
    "\<lambda>k. warmBackedOff (fst k) (snd k)"
  by unfold_locales
    (auto simp: warmBackedOff_def held_def hold_warm_def noteWarmSuccess_def clearWarmBackoff_def split: option.splits)

lemma noteWarmFailure_hold: "noteWarmFailure owner tenant now s = hold_warm (owner, tenant) (now + warmRetryInterval s) s"
  by (simp add: noteWarmFailure_def hold_warm_def)

text \<open>The pause after a failed renewal: this session's alone, and over once a renewal succeeds.\<close>

lemma warm_pause:
  "warmBackedOff owner tenant t (noteWarmFailure owner tenant now s) \<longleftrightarrow> t < now + warmRetryInterval s"
  "(o', t') \<noteq> (owner, tenant) \<Longrightarrow> warmBackedOff o' t' t (noteWarmFailure owner tenant now s) = warmBackedOff o' t' t s"
  "\<not> warmBackedOff owner tenant t (noteWarmSuccess owner tenant s)"
  using warm_hold.blocked_after_hold [of "(owner, tenant)"] warm_hold.hold_frame [of "(o', t')" "(owner, tenant)"]
    warm_hold.not_blocked_after_release [of "(owner, tenant)"]
  by (simp_all add: noteWarmFailure_hold)

section \<open>One session\<close>

datatype council_call = RefreshCall string string | GridRead string string

record warm_env =
  wv_caps :: capabilities
  wv_deleteFails :: bool
  wv_permitsFail :: bool
  wv_refresh :: "err option"
  wv_blocked :: bool
  wv_drift :: drift_env
  wv_checkpoint :: "err option"
  wv_token :: "string option"
  wv_sha :: "string \<Rightarrow> string"
  wv_markFails :: bool
  wv_reminder :: "err option"
  wv_rollbackFails :: bool

record warm_state =
  wm_w :: world
  wm_ses :: session_store
  wm_booked :: "override list"
  wm_nudged :: "string set"
  wm_calls :: "council_call list"

definition on_world :: "(world \<Rightarrow> world) \<Rightarrow> warm_state \<Rightarrow> warm_state" where
  "on_world g st = st\<lparr>wm_w := g (wm_w st)\<rparr>"

definition ownerHasPermitIn :: "string \<Rightarrow> string \<Rightarrow> world \<Rightarrow> bool" where
  "ownerHasPermitIn owner tenant w = list_ex (\<lambda>p. p_TenantID p = tenant) (ListPermitsFor owner w)"

definition warnNoReminderChannel :: "time \<Rightarrow> scheduler \<Rightarrow> scheduler" where
  "warnNoReminderChannel now s = (if tsub now (sc_reminderWarnAt s) < hour then s else s\<lparr>sc_reminderWarnAt := now\<rparr>)"

definition maybeRemind :: "warm_env \<Rightarrow> tenant_session \<Rightarrow> time \<Rightarrow> warm_state \<Rightarrow> warm_state" where
  "maybeRemind ev cs now st =
     (let s = wd_s (wm_w st); idleSince = idle_clock cs; deadline = idleSince + sc_sessionMaxAge s in
      if sc_sessionMaxAge s \<le> 0 \<or> sc_reminderLead s \<le> 0 \<or> is_zero idleSince \<or> \<not> is_zero (ts_ReminderSent cs) then st
      else if \<not> sc_EmailAvailable s then on_world (on_sched (warnNoReminderChannel now)) st
      else if now < deadline - sc_reminderLead s \<or> \<not> now < deadline then st
      else (case wv_token ev of
          None \<Rightarrow> st
        | Some token \<Rightarrow>
            if wv_markFails ev then st
            else let st1 = st\<lparr>wm_ses := MarkReminderSent (wv_sha ev) (ts_Owner cs) (ts_TenantID cs) token now (wm_ses st)\<rparr> in
              (case wv_reminder ev of
                 None \<Rightarrow> on_world (send (RenewalReminder (ts_Owner cs) (ts_TenantID cs))) st1
               | Some x \<Rightarrow> if err_is x ErrSuppressed then st1
                   else on_world (raise_alert ''reminder-send'' now)
                     (if wv_rollbackFails ev then st1
                      else st1\<lparr>wm_ses := ClearReminderSent (ts_Owner cs) (ts_TenantID cs) (wm_ses st1)\<rparr>))))"

text \<open>The renewal, with whether the session is alive to serve a drift read.\<close>

definition renew :: "warm_env \<Rightarrow> tenant_session \<Rightarrow> time \<Rightarrow> warm_state \<Rightarrow> warm_state \<times> bool" where
  "renew ev cs now st =
     (let owner = ts_Owner cs; tenant = ts_TenantID cs; s = wd_s (wm_w st) in
      if \<not> cap_NeedsKeepWarm (wv_caps ev) then (on_world (on_sched (noteWarmSuccess owner tenant)) st, True)
      else if reconnectQueued owner tenant s then (st, False)
      else if warmBackedOff owner tenant now s then (st, False)
      else let st1 = st\<lparr>wm_calls := RefreshCall owner tenant # wm_calls st\<rparr> in
        (case wv_refresh ev of
           None \<Rightarrow> (on_world (on_sched (noteWarmSuccess owner tenant)) st1, True)
         | Some x \<Rightarrow>
             if err_is x ErrSessionExpired
             then (on_world (enqueueReconnect owner tenant (case as_gen x of None \<Rightarrow> ts_Generation cs | Some g \<Rightarrow> g) now) st1, False)
             else if err_is x ErrNotLinked \<or> err_is x ErrUnavailable then (st1, False)
             else (on_world (on_sched (noteWarmFailure owner tenant now)) st1, False)))"

definition drift_read ::
  "faults \<Rightarrow> reads \<Rightarrow> site \<Rightarrow> warm_env \<Rightarrow> tenant_session \<Rightarrow> time \<Rightarrow> warm_state \<Rightarrow> warm_state" where
  "drift_read f rd si ev cs now st =
     (let owner = ts_Owner cs; tenant = ts_TenantID cs in
      case checkDrift f rd si (wv_drift ev) owner tenant now (wm_w st, wm_nudged st) of (ds, x) \<Rightarrow>
        let st1 = st\<lparr>wm_w := ds_w ds, wm_booked := wm_booked st @ ds_booked ds, wm_nudged := ds_nudged ds,
                    wm_calls := GridRead owner tenant # wm_calls st\<rparr>
        in (case x of
            Some e \<Rightarrow>
              (let st2 = on_world (if err_is e ErrPermitListPartial then on_sched (noteDriftDeferred owner now)
                     else noteDriftFailure owner e now) st1
               in (case as_gen e of None \<Rightarrow> st2 | Some g \<Rightarrow> on_world (enqueueReconnect owner tenant g now) st2))
          | None \<Rightarrow> (case wv_checkpoint ev of
              Some e \<Rightarrow> on_world (noteDriftFailure owner (Wrapped ''drift checkpoint not saved'' e) now) st1
            | None \<Rightarrow> on_world (on_sched (clearDriftRequest owner \<circ> noteDriftSuccess owner))
                (st1\<lparr>wm_ses := MarkDriftChecked owner tenant now (wm_ses st1)\<rparr>))))"

definition warmOne ::
  "faults \<Rightarrow> reads \<Rightarrow> site \<Rightarrow> warm_env \<Rightarrow> time \<Rightarrow> warm_state \<Rightarrow> tenant_session \<Rightarrow> warm_state" where
  "warmOne f rd si ev now st cs =
     (if ts_Cookie cs = [] then st
      else
        let owner = ts_Owner cs; tenant = ts_TenantID cs; s = wd_s (wm_w st);
            action = decideWarm now (ts_LastActive cs) (ts_LinkedAt cs) (ts_UpdatedAt cs) (sc_sessionMaxAge s)
              (warmThresholdFor owner (ts_UpdatedAt cs) (idleWindowFor (wv_caps ev) s) s)
        in if action = WarmRetire
           then (if wv_deleteFails ev then st
             else case DeleteTenantSessionIfIdle owner tenant (now - sc_sessionMaxAge s) (wm_ses st) of
               (ses, False) \<Rightarrow> st\<lparr>wm_ses := ses\<rparr>
             | (ses, True) \<Rightarrow> on_world (alertRelink owner tenant \<circ> on_sched (noteWarmSuccess owner tenant)) (st\<lparr>wm_ses := ses\<rparr>))
           else
             let st1 = maybeRemind ev cs now st in
             if wv_permitsFail ev then st1
             else if \<not> ownerHasPermitIn owner tenant (wm_w st1) then on_world (on_sched (noteWarmSuccess owner tenant)) st1
             else case (if action = WarmSkip then (st1, True) else renew ev cs now st1) of (st2, alive) \<Rightarrow>
               if alive \<and> \<not> wv_blocked ev \<and> driftDue owner (ts_DriftCheckedAt cs) (ts_UpdatedAt cs) now (wd_s (wm_w st2))
               then drift_read f rd si ev cs now st2 else st2)"

text \<open>The pass, each session with the environment of its turn: a panic keeps what it did and is skipped.\<close>

record warm_turn =
  wt_env :: warm_env
  wt_now :: time
  wt_panic :: "(warm_state \<Rightarrow> warm_state) option"

definition safeWarmOne ::
  "faults \<Rightarrow> reads \<Rightarrow> site \<Rightarrow> (tenant_session \<Rightarrow> warm_turn) \<Rightarrow> warm_state \<Rightarrow> tenant_session \<Rightarrow> warm_state" where
  "safeWarmOne f rd si turns st cs =
     (case wt_panic (turns cs) of
        None \<Rightarrow> warmOne f rd si (wt_env (turns cs)) (wt_now (turns cs)) st cs
      | Some g \<Rightarrow> on_world (raise_alert ''panic-keepwarm-session'' (wt_now (turns cs))) (g st))"

definition keepWarm ::
  "faults \<Rightarrow> reads \<Rightarrow> site \<Rightarrow> (tenant_session \<Rightarrow> warm_turn) \<Rightarrow> tenant_session list option \<Rightarrow> warm_state \<Rightarrow> warm_state" where
  "keepWarm f rd si turns sessions st = (case sessions of None \<Rightarrow> st | Some css \<Rightarrow> foldl (safeWarmOne f rd si turns) st css)"

section \<open>The threshold\<close>

lemma warmThreshold_bounds:
  assumes "sc_jitterFrac s \<le> 1" and "0 \<le> warm_base iw s" and "warm_base iw s < 2 ^ 53"
  shows "0 \<le> warmThresholdFor owner upd iw s" "warmThresholdFor owner upd iw s \<le> warm_base iw s"
proof -
  define b where "b = warm_base iw s"
  define u where "u = unit01 (fnv64a (utf8 owner @ le_bytes (word_of_int (upd div second))))"
  define x where "x = fl (1 - fl (u * sc_jitterFrac s))"
  have goal: "0 \<le> warmThresholdFor owner upd iw s \<and> warmThresholdFor owner upd iw s \<le> b"
  proof (cases "sc_jitterFrac s \<le> 0")
    case True
    then show ?thesis using assms by (simp add: warmThresholdFor_def b_def)
  next
    case False
    have u: "0 \<le> u" "u \<le> 1" by (simp_all add: u_def unit01_bounds)
    then have "u * sc_jitterFrac s \<le> 1 * 1" using assms(1) False by (intro mult_mono) simp_all
    moreover have "0 \<le> u * sc_jitterFrac s" using u False by simp
    ultimately have "0 \<le> fl (u * sc_jitterFrac s)" "fl (u * sc_jitterFrac s) \<le> 1"
      using fl_mono [of 0 "u * sc_jitterFrac s"] fl_mono [of "u * sc_jitterFrac s" 1] by simp_all
    then have x: "0 \<le> x" "x \<le> 1"
      using fl_mono [of 0 "1 - fl (u * sc_jitterFrac s)"] fl_mono [of "1 - fl (u * sc_jitterFrac s)" 1] by (simp_all add: x_def)
    have fb: "fl (of_int b) = of_int b" by (rule fl_of_int) (use assms in \<open>simp add: b_def\<close>)
    have "of_int b * x \<le> of_int b * 1" using x assms(2) by (intro mult_left_mono) (simp_all add: b_def)
    then have "fl (of_int b * x) \<le> of_int b" using fl_mono [of "of_int b * x" "of_int b"] fb by simp
    moreover have "0 \<le> fl (of_int b * x)" using fl_mono [of 0 "of_int b * x"] x assms(2) by (simp add: b_def)
    ultimately have "0 \<le> trunc (fl (of_int b * x))" "trunc (fl (of_int b * x)) \<le> b"
      using trunc_mono [of "fl (of_int b * x)" "of_int b"] trunc_mono [of 0 "fl (of_int b * x)"] trunc_of_int [of 0] by simp_all
    then show ?thesis using False fb by (simp add: warmThresholdFor_def b_def [symmetric] u_def [symmetric] x_def Let_def)
  qed
  show "0 \<le> warmThresholdFor owner upd iw s" "warmThresholdFor owner upd iw s \<le> warm_base iw s"
    using goal by (simp_all add: b_def)
qed

text \<open>C30: A session that is not renewed yet still has more than the safety margin before its idle window
  runs out, whatever the operator's warm interval and whatever the jitter; and the pause after a failed
  renewal is shorter than that margin, so another attempt falls inside it.\<close>

theorem renewal_keeps_its_runway:
  assumes "0 < sc_warmSafetyMargin s" and "sc_warmSafetyMargin s < iw" and "iw < 2 ^ 53"
    and "0 \<le> sc_warmInterval s" and "sc_jitterFrac s \<le> 1"
    and "decideWarm now lastActive linkedAt updatedAt maxAge (warmThresholdFor owner updatedAt iw s) = WarmSkip"
  shows "sc_warmSafetyMargin s < (updatedAt + iw) - now
    \<and> warmRetryInterval s < sc_warmSafetyMargin s \<and> 0 \<le> warmRetryInterval s"
proof -
  have base: "0 \<le> warm_base iw s" "warm_base iw s \<le> iw - sc_warmSafetyMargin s" "warm_base iw s < 2 ^ 53"
    using assms(1-4) by (auto simp: warm_base_def Let_def)
  have "tsub now updatedAt < warmThresholdFor owner updatedAt iw s"
    using assms(6) by (auto simp: decideWarm_def Let_def split: if_splits)
  then have t: "tsub now updatedAt < iw - sc_warmSafetyMargin s"
    using warmThreshold_bounds(2) [OF assms(5) base(1,3), of owner updatedAt] base(2) by linarith
  have "now - updatedAt < iw - sc_warmSafetyMargin s"
    using t assms(1-3) by (auto simp: tsub_def min_def max_def max_dur_def min_dur_def split: if_splits)
  moreover have "warmRetryInterval s < sc_warmSafetyMargin s" "0 \<le> warmRetryInterval s"
    using assms(1) by (auto simp: warmRetryInterval_def Let_def minute_def second_def)
  ultimately show ?thesis by simp
qed

section \<open>What a turn does\<close>

lemma on_world_simps [simp]:
  "wm_w (on_world g st) = g (wm_w st)" "wm_ses (on_world g st) = wm_ses st" "wm_calls (on_world g st) = wm_calls st"
  "wm_booked (on_world g st) = wm_booked st" "wm_nudged (on_world g st) = wm_nudged st"
  by (simp_all add: on_world_def)

text \<open>What the reminder leaves alone: the permits, the queue, the back-offs and the requests made.\<close>

definition warm_view :: "world \<Rightarrow> permit list \<times> (session_key \<times> reconnect_item) list \<times> (session_key \<rightharpoonup> time)" where
  "warm_view w = (wd_permits w, sc_reconnectQ (wd_s w), sc_warmRetryAt (wd_s w))"

lemma warm_view_raise: "warm_view (raise_alert key now w) = warm_view w"
  by (auto simp: warm_view_def raise_alert_def systemAlert_def systemAlertEvery_def Let_def
      split: prod.split bool.split if_splits)

lemma maybeRemind_frame:
  "wm_calls (maybeRemind ev cs now st) = wm_calls st" "warm_view (wm_w (maybeRemind ev cs now st)) = warm_view (wm_w st)"
  by (auto simp: maybeRemind_def Let_def warm_view_raise split: option.split)
    (auto simp: warm_view_def warnNoReminderChannel_def)

lemma drift_read_calls:
  "wm_calls (drift_read f rd si ev cs now st) = GridRead (ts_Owner cs) (ts_TenantID cs) # wm_calls st"
  by (auto simp: drift_read_def Let_def split: prod.split option.split)

text \<open>When a session may be renewed at all.\<close>

definition may_renew :: "warm_env \<Rightarrow> tenant_session \<Rightarrow> time \<Rightarrow> world \<Rightarrow> bool" where
  "may_renew ev cs now w \<longleftrightarrow>
     ts_Cookie cs \<noteq> [] \<and> \<not> wv_permitsFail ev \<and> ownerHasPermitIn (ts_Owner cs) (ts_TenantID cs) w
     \<and> cap_NeedsKeepWarm (wv_caps ev) \<and> \<not> reconnectQueued (ts_Owner cs) (ts_TenantID cs) (wd_s w)
     \<and> \<not> warmBackedOff (ts_Owner cs) (ts_TenantID cs) now (wd_s w)
     \<and> decideWarm now (ts_LastActive cs) (ts_LinkedAt cs) (ts_UpdatedAt cs) (sc_sessionMaxAge (wd_s w))
         (warmThresholdFor (ts_Owner cs) (ts_UpdatedAt cs) (idleWindowFor (wv_caps ev) (wd_s w)) (wd_s w)) = WarmRenew"

lemma may_renew_parts:
  assumes "warm_view w = warm_view w'"
  shows "ownerHasPermitIn o' t w = ownerHasPermitIn o' t w'" "reconnectQueued o' t (wd_s w) = reconnectQueued o' t (wd_s w')"
    "warmBackedOff o' t now (wd_s w) = warmBackedOff o' t now (wd_s w')"
  using assms by (simp_all add: warm_view_def ownerHasPermitIn_def ListPermitsFor_def reconnectQueued_def warmBackedOff_def)

lemma renew_calls:
  assumes "\<not> (ts_Cookie cs = [] \<or> action = WarmRetire \<or> wv_permitsFail ev
      \<or> \<not> ownerHasPermitIn (ts_Owner cs) (ts_TenantID cs) (wm_w st))"
    and t: "(if action = WarmSkip then (st1, True) else renew ev cs now st1) = (st2, alive)"
    and action: "action = decideWarm now (ts_LastActive cs) (ts_LinkedAt cs) (ts_UpdatedAt cs) (sc_sessionMaxAge (wd_s (wm_w st)))
         (warmThresholdFor (ts_Owner cs) (ts_UpdatedAt cs) (idleWindowFor (wv_caps ev) (wd_s (wm_w st))) (wd_s (wm_w st)))"
    and v: "warm_view (wm_w st1) = warm_view (wm_w st)" and c: "wm_calls st1 = wm_calls st"
  shows "wm_calls st2 = (if may_renew ev cs now (wm_w st) then [RefreshCall (ts_Owner cs) (ts_TenantID cs)] else []) @ wm_calls st"
proof (cases "action = WarmSkip")
  case True
  then have "\<not> may_renew ev cs now (wm_w st)" by (simp add: may_renew_def action)
  then show ?thesis using t True c by simp
next
  case skip: False
  then have act: "action = WarmRenew" using assms(1) by (cases action) auto
  then have m: "may_renew ev cs now (wm_w st) \<longleftrightarrow> cap_NeedsKeepWarm (wv_caps ev)
      \<and> \<not> reconnectQueued (ts_Owner cs) (ts_TenantID cs) (wd_s (wm_w st)) \<and> \<not> warmBackedOff (ts_Owner cs) (ts_TenantID cs) now (wd_s (wm_w st))"
    using assms(1) by (auto simp: may_renew_def action)
  show ?thesis using t skip c may_renew_parts [OF v] m
    by (auto simp: renew_def Let_def split: if_splits option.splits)
qed

text \<open>A turn makes at most one renewal request, and exactly when the session has a cookie, is past its
  threshold and not idle beyond the bound, serves a permit, belongs to a portal whose sessions lapse, and
  is neither queued for recovery nor inside the pause after a failed renewal. It makes at most one grid
  read, and none while the fleet is blocked.\<close>

theorem renewals_are_rationed:
  "\<exists>grid. wm_calls (warmOne f rd si ev now st cs)
     = (if grid then [GridRead (ts_Owner cs) (ts_TenantID cs)] else [])
       @ (if may_renew ev cs now (wm_w st) then [RefreshCall (ts_Owner cs) (ts_TenantID cs)] else [])
       @ wm_calls st
   \<and> (wv_blocked ev \<longrightarrow> \<not> grid)"
proof -
  define action where "action = decideWarm now (ts_LastActive cs) (ts_LinkedAt cs) (ts_UpdatedAt cs) (sc_sessionMaxAge (wd_s (wm_w st)))
         (warmThresholdFor (ts_Owner cs) (ts_UpdatedAt cs) (idleWindowFor (wv_caps ev) (wd_s (wm_w st))) (wd_s (wm_w st)))"
  define st1 where "st1 = maybeRemind ev cs now st"
  have f1: "wm_calls st1 = wm_calls st" and v1: "warm_view (wm_w st1) = warm_view (wm_w st)"
    by (simp_all add: st1_def maybeRemind_frame)
  note parts = may_renew_parts [OF v1]
  define R where "R = (if may_renew ev cs now (wm_w st) then [RefreshCall (ts_Owner cs) (ts_TenantID cs)] else [])"
  have "\<exists>g. wm_calls (warmOne f rd si ev now st cs)
      = (if g then [GridRead (ts_Owner cs) (ts_TenantID cs)] else []) @ R @ wm_calls st \<and> (wv_blocked ev \<longrightarrow> \<not> g)"
  proof (cases "ts_Cookie cs = [] \<or> action = WarmRetire \<or> wv_permitsFail ev
      \<or> \<not> ownerHasPermitIn (ts_Owner cs) (ts_TenantID cs) (wm_w st)")
    case True
    then have "\<not> may_renew ev cs now (wm_w st)" by (auto simp: may_renew_def action_def [symmetric])
    moreover have "wm_calls (warmOne f rd si ev now st cs) = wm_calls st"
      using True f1 parts(1) by (auto simp: warmOne_def Let_def action_def [symmetric] st1_def [symmetric] split: prod.split bool.split)
    ultimately show ?thesis by (auto simp: R_def)
  next
    case False
    obtain st2 alive where t: "(if action = WarmSkip then (st1, True) else renew ev cs now st1) = (st2, alive)" by (metis surj_pair)
    have calls2: "wm_calls st2 = R @ wm_calls st"
      using renew_calls [OF _ t action_def v1 f1] False by (simp add: R_def)
    have w: "warmOne f rd si ev now st cs = (if alive \<and> \<not> wv_blocked ev
        \<and> driftDue (ts_Owner cs) (ts_DriftCheckedAt cs) (ts_UpdatedAt cs) now (wd_s (wm_w st2)) then drift_read f rd si ev cs now st2 else st2)"
      using False parts(1) t by (simp add: warmOne_def Let_def action_def [symmetric] st1_def [symmetric])
    show ?thesis
      by (rule exI [of _ "alive \<and> \<not> wv_blocked ev
        \<and> driftDue (ts_Owner cs) (ts_DriftCheckedAt cs) (ts_UpdatedAt cs) now (wd_s (wm_w st2))"])
        (simp add: w drift_read_calls calls2)
  qed
  then show ?thesis by (simp only: R_def)
qed

lemma at_key_map:
  assumes "\<And>r. at_key ow tn (g r) = at_key ow tn r"
  shows "any_row (at_key ow tn) (upd_where P g s) = any_row (at_key ow tn) s"
  using assms by (auto simp: any_row_def upd_where_def list_ex_iff)

lemma any_row_marks [simp]:
  "any_row (at_key ow tn) (MarkReminderSent sha o' t tok now s) = any_row (at_key ow tn) s"
  "any_row (at_key ow tn) (ClearReminderSent o' t s) = any_row (at_key ow tn) s"
  "any_row (at_key ow tn) (MarkDriftChecked o' t now s) = any_row (at_key ow tn) s"
  unfolding MarkReminderSent_def ClearReminderSent_def MarkDriftChecked_def
  by (simp_all add: at_key_map at_key_def)

lemma maybeRemind_rows: "any_row (at_key ow tn) (wm_ses (maybeRemind ev cs now st)) = any_row (at_key ow tn) (wm_ses st)"
  by (auto simp: maybeRemind_def Let_def split: option.split)

lemma drift_read_rows: "any_row (at_key ow tn) (wm_ses (drift_read f rd si ev cs now st)) = any_row (at_key ow tn) (wm_ses st)"
  by (auto simp: drift_read_def Let_def split: prod.split option.split)

lemma renew_rows: "wm_ses (fst (renew ev cs now st)) = wm_ses st"
  by (auto simp: renew_def Let_def split: option.split)

text \<open>A turn drops a session only if the snapshot had it idle for the whole bound and every row of that
  session is, at the moment of the delete, still idle for the bound: an account used again during the
  pass keeps its link, and no other session is touched.\<close>

theorem only_idle_sessions_are_retired:
  assumes "any_row (at_key ow tn) (wm_ses st)" and "\<not> any_row (at_key ow tn) (wm_ses (warmOne f rd si ev now st cs))"
  shows "at_key ow tn cs \<and> ts_Cookie cs \<noteq> [] \<and> 0 < sc_sessionMaxAge (wd_s (wm_w st))
    \<and> list_all (\<lambda>r. at_key ow tn r \<longrightarrow> idle_clock r \<le> whole_seconds (now - sc_sessionMaxAge (wd_s (wm_w st))))
        (st_sessions (wm_ses st))"
proof -
  define action where "action = decideWarm now (ts_LastActive cs) (ts_LinkedAt cs) (ts_UpdatedAt cs) (sc_sessionMaxAge (wd_s (wm_w st)))
         (warmThresholdFor (ts_Owner cs) (ts_UpdatedAt cs) (idleWindowFor (wv_caps ev) (wd_s (wm_w st))) (wd_s (wm_w st)))"
  define st1 where "st1 = maybeRemind ev cs now st"
  have s1: "any_row (at_key ow tn) (wm_ses st1)" using assms(1) by (simp add: st1_def maybeRemind_rows)
  show ?thesis
  proof (cases "ts_Cookie cs \<noteq> [] \<and> action = WarmRetire")
    case True
    then have age: "0 < sc_sessionMaxAge (wd_s (wm_w st))" by (auto simp: action_def decideWarm_def Let_def split: if_splits)
    have "wm_ses (warmOne f rd si ev now st cs) = (if wv_deleteFails ev then wm_ses st
        else fst (DeleteTenantSessionIfIdle (ts_Owner cs) (ts_TenantID cs) (now - sc_sessionMaxAge (wd_s (wm_w st))) (wm_ses st)))"
      using True by (auto simp: warmOne_def Let_def action_def [symmetric] split: prod.split bool.split)
    then have gone: "\<not> any_row (at_key ow tn) (fst (DeleteTenantSessionIfIdle (ts_Owner cs) (ts_TenantID cs)
        (now - sc_sessionMaxAge (wd_s (wm_w st))) (wm_ses st)))"
      using assms by (auto split: if_splits)
    then have all: "r \<in> set (st_sessions (wm_ses st)) \<Longrightarrow> at_key ow tn r \<Longrightarrow>
        at_key (ts_Owner cs) (ts_TenantID cs) r \<and> idle_clock r \<le> whole_seconds (now - sc_sessionMaxAge (wd_s (wm_w st)))" for r
      by (auto simp: any_row_def list_ex_iff DeleteTenantSessionIfIdle_def del_where_def forgetTenant_def Let_def)
    obtain r where "r \<in> set (st_sessions (wm_ses st))" "at_key ow tn r" using assms(1) by (auto simp: any_row_def list_ex_iff)
    then have "at_key ow tn cs" using all by (fastforce simp: at_key_def)
    then show ?thesis using True age all by (auto simp: list_all_iff)
  next
    case False
    obtain st2 alive where t: "(if action = WarmSkip then (st1, True) else renew ev cs now st1) = (st2, alive)" by (metis surj_pair)
    have s2: "any_row (at_key ow tn) (wm_ses st2)"
      using t s1 renew_rows [of ev cs now st1] by (auto split: if_splits)
    have "any_row (at_key ow tn) (wm_ses (warmOne f rd si ev now st cs))"
      using False assms(1) s1 s2 t
      by (auto simp: warmOne_def Let_def action_def [symmetric] st1_def [symmetric] drift_read_rows split: prod.split)
    then show ?thesis using assms(2) by simp
  qed
qed

text \<open>The retry state of an owner's drift reads, as an observation the bookkeeping leaves alone.\<close>

definition drift_view :: "world \<Rightarrow> (string \<rightharpoonup> time) \<times> dur \<times> string set \<times> rat" where
  "drift_view w = (sc_driftRetryAt (wd_s w), sc_driftInterval (wd_s w), sc_driftAsap (wd_s w), sc_jitterFrac (wd_s w))"

interpretation drifts: bookkeeping_observer drift_view
  by unfold_locales (auto simp: drift_view_def)

lemma driftDue_view: "drift_view w = drift_view w' \<Longrightarrow> driftDue owner c u t (wd_s w) = driftDue owner c u t (wd_s w')"
  by (simp add: drift_view_def driftDue_def driftBackedOff_def driftRequested_def driftThresholdFor_def)

lemma failure_view:
  "drift_view (noteDriftFailure owner e now w) = ((sc_driftRetryAt (wd_s w))(owner \<mapsto>
     now + drift_backoff (sc_driftFails (wd_s w) owner + 1) (wd_s w)), sc_driftInterval (wd_s w), sc_driftAsap (wd_s w), sc_jitterFrac (wd_s w))"
  by (simp add: noteDriftFailure_def Let_def drifts.obs_raise) (simp add: drift_view_def)

text \<open>A drift read ends in one of two ways: the checkpoint is written, and then the owner's back-off and
  any request for an early read are cleared; or it is not, and then the owner is not read again before a
  quarter of an hour, the drift interval and the owner's own threshold allow it.\<close>

theorem a_drift_read_is_checkpointed_or_backed_off:
  assumes "checkDrift f rd si (wv_drift ev) (ts_Owner cs) (ts_TenantID cs) now (wm_w st, wm_nudged st) = (ds, x)"
    and "0 < sc_driftInterval (wd_s (ds_w ds))"
    and "b = min (15 * minute) (min (sc_driftInterval (wd_s (ds_w ds))) (driftThresholdFor (ts_Owner cs) (wd_s (ds_w ds))))"
    and "st' = drift_read f rd si ev cs now st"
  shows "if x = None \<and> wv_checkpoint ev = None
    then wm_ses st' = MarkDriftChecked (ts_Owner cs) (ts_TenantID cs) now (wm_ses st)
      \<and> \<not> driftBackedOff (ts_Owner cs) t (wd_s (wm_w st')) \<and> \<not> driftRequested (ts_Owner cs) (wd_s (wm_w st'))
    else wm_ses st' = wm_ses st \<and> (now + b \<le> t \<or> \<not> driftDue (ts_Owner cs) c u t (wd_s (wm_w st')))"
proof -
  let ?o = "ts_Owner cs" and ?w = "ds_w ds"
  have bo: "b \<le> drift_backoff (sc_driftFails (wd_s ?w) ?o + 1) (wd_s ?w)"
    using drift_backoff_range(1) [OF assms(2), of "sc_driftFails (wd_s ?w) ?o + 1"] by (simp add: assms(3))
  have held: "now + b \<le> t \<or> \<not> driftDue ?o c u t (wd_s v)"
    if "drift_view v = ((sc_driftRetryAt (wd_s ?w))(?o \<mapsto> now + d), sc_driftInterval (wd_s ?w), sc_driftAsap (wd_s ?w), sc_jitterFrac (wd_s ?w))"
      and "b \<le> d" for v d
    using that by (auto simp: drift_view_def driftDue_def driftBackedOff_def)
  consider (saved) "x = None" "wv_checkpoint ev = None" | (lost) e where "x = None" "wv_checkpoint ev = Some e"
    | (failed) e where "x = Some e" by (cases x; cases "wv_checkpoint ev") auto
  then show ?thesis
  proof cases
    case saved
    then show ?thesis
      by (simp add: assms(4) drift_read_def Let_def assms(1) driftBackedOff_def driftRequested_def clearDriftRequest_def noteDriftSuccess_def)
  next
    case lost
    have "wm_ses st' = wm_ses st" "wm_w st' = noteDriftFailure ?o (Wrapped ''drift checkpoint not saved'' e) now ?w"
      using lost by (simp_all add: assms(4) drift_read_def Let_def assms(1))
    then show ?thesis using lost held [OF failure_view bo] by simp
  next
    case failed
    define v where "v = (if err_is e ErrPermitListPartial then on_sched (noteDriftDeferred ?o now) ?w else noteDriftFailure ?o e now ?w)"
    have "drift_view (wm_w st') = drift_view v" "wm_ses st' = wm_ses st"
      using failed by (auto simp: assms(4) drift_read_def Let_def assms(1) v_def drifts.obs_enqueue split: option.split)
    moreover have "\<exists>d. b \<le> d \<and> drift_view v = ((sc_driftRetryAt (wd_s ?w))(?o \<mapsto> now + d), sc_driftInterval (wd_s ?w),
        sc_driftAsap (wd_s ?w), sc_jitterFrac (wd_s ?w))"
    proof (cases "err_is e ErrPermitListPartial")
      case True
      then show ?thesis
        by (intro exI [of _ "driftThresholdFor ?o (wd_s ?w)"]) (simp add: v_def drift_view_def noteDriftDeferred_def assms(3))
    next
      case False
      then show ?thesis using bo failure_view [of ?o e now ?w]
        by (intro exI [of _ "drift_backoff (sc_driftFails (wd_s ?w) ?o + 1) (wd_s ?w)"]) (simp add: v_def)
    qed
    ultimately show ?thesis using failed held [of "wm_w st'"] by auto
  qed
qed

section \<open>Concrete instances\<close>

definition w_warm :: scheduler where
  "w_warm = w_sched\<lparr>sc_warmInterval := 105 * minute, sc_warmSafetyMargin := 30 * minute, sc_jitterFrac := 0\<rparr>"

lemma renewal_keeps_its_runway_witness:
  "30 * minute < 150 * minute - 104 * minute \<and> warmRetryInterval w_warm < 30 * minute"
proof -
  have w: "sc_warmSafetyMargin w_warm = 30 * minute" "sc_warmInterval w_warm = 105 * minute" "sc_jitterFrac w_warm = 0"
    by (simp_all add: w_warm_def)
  have "decideWarm (104 * minute) 0 0 0 (90 * day) (warmThresholdFor ''a@x'' 0 (150 * minute) w_warm) = WarmSkip"
    by (simp add: decideWarm_def warmThresholdFor_def warm_base_def w Let_def is_zero_def zero_time_def time_simps tsub_def
        max_dur_def min_dur_def)
  then show ?thesis
    using renewal_keeps_its_runway [of w_warm "150 * minute" "104 * minute" 0 0 0 "90 * day" "''a@x''"] w
    by (simp add: time_simps)
qed

definition w_env :: "err option \<Rightarrow> warm_env" where
  "w_env x = \<lparr>wv_caps = \<lparr>cap_CanClearVehicle = False, cap_SupportsRefresh = True, cap_NeedsKeepWarm = True,
       cap_IdleWindow = 150 * minute, cap_SupportsExpiry = True, cap_LoginKind = ''password'', cap_Regions = []\<rparr>,
     wv_deleteFails = False, wv_permitsFail = False, wv_refresh = x, wv_blocked = False,
     wv_drift = w_round (Inr []) ''OLD001'' True, wv_checkpoint = None, wv_token = None, wv_sha = (\<lambda>t. t),
     wv_markFails = False, wv_reminder = None, wv_rollbackFails = False\<rparr>"

definition w_idle :: tenant_session where
  "w_idle = w_session\<lparr>ts_Owner := ''a@x'', ts_TenantID := ''stonnington'', ts_Cookie := ''c'', ts_LastActive := 0\<rparr>"

definition w_pass :: warm_state where
  "w_pass = \<lparr>wm_w = w_world, wm_ses = w_store\<lparr>st_sessions := [w_idle]\<rparr>, wm_booked = [], wm_nudged = {}, wm_calls = []\<rparr>"

lemma renewals_are_rationed_witness:
  "wm_calls (warmOne no_faults w_reads w_site ((w_env None)\<lparr>wv_blocked := True, wv_permitsFail := True\<rparr>) 0 w_pass w_idle) = []"
  using renewals_are_rationed [of no_faults w_reads w_site "(w_env None)\<lparr>wv_blocked := True, wv_permitsFail := True\<rparr>" 0 w_pass w_idle]
  by (auto simp: may_renew_def w_pass_def)

lemma only_idle_sessions_are_retired_witness:
  "list_all (\<lambda>r. idle_clock r \<le> whole_seconds (91 * day - 90 * day)) [w_idle]"
proof -
  have s: "sc_sessionMaxAge w_sched = 90 * day" by (simp add: w_sched_def New_def time_simps)
  have key: "at_key ''a@x'' ''stonnington'' w_idle" by (simp add: at_key_def w_idle_def)
  have idle: "idle_clock w_idle \<le> whole_seconds (91 * day - 90 * day)"
    by (simp add: idle_clock_def w_idle_def is_zero_def zero_time_def whole_seconds_def time_simps)
  have a: "decideWarm (91 * day) (ts_LastActive w_idle) (ts_LinkedAt w_idle) (ts_UpdatedAt w_idle) (90 * day) th = WarmRetire" for th
    by (simp add: decideWarm_def w_idle_def is_zero_def zero_time_def tsub_def time_simps max_dur_def min_dur_def)
  have before: "any_row (at_key ''a@x'' ''stonnington'') (wm_ses w_pass)" using key by (simp add: w_pass_def any_row_def)
  have gone: "\<not> any_row (at_key ''a@x'' ''stonnington'') (wm_ses (warmOne no_faults w_reads w_site (w_env None) (91 * day) w_pass w_idle))"
    using key idle a
    by (simp add: warmOne_def w_idle_def [of] w_pass_def s Let_def w_env_def DeleteTenantSessionIfIdle_def del_where_def
        forgetTenant_def any_row_def at_key_def split: prod.split bool.split)
  then show ?thesis
    using only_idle_sessions_are_retired [OF before gone] s key by (simp add: w_pass_def)
qed

lemma a_drift_read_is_checkpointed_or_backed_off_witness:
  "\<not> driftDue ''a@x'' 0 0 minute (wd_s (wm_w (drift_read no_faults w_reads w_site
      ((w_env None)\<lparr>wv_drift := (w_round (Inr []) [] True)\<lparr>de_before := Some (Plain [])\<rparr>\<rparr>) w_idle 0
      (w_pass\<lparr>wm_w := w_world\<lparr>wd_s := w_warm\<rparr>\<rparr>))))"
proof -
  let ?ev = "(w_env None)\<lparr>wv_drift := (w_round (Inr []) [] True)\<lparr>de_before := Some (Plain [])\<rparr>\<rparr>"
  have c: "checkDrift no_faults w_reads w_site (wv_drift ?ev) (ts_Owner w_idle) (ts_TenantID w_idle) 0
      (wm_w (w_pass\<lparr>wm_w := w_world\<lparr>wd_s := w_warm\<rparr>\<rparr>), wm_nudged (w_pass\<lparr>wm_w := w_world\<lparr>wd_s := w_warm\<rparr>\<rparr>))
      = (\<lparr>ds_w = w_world\<lparr>wd_s := w_warm\<rparr>, ds_booked = [], ds_nudged = {}\<rparr>, Some (Plain []))"
    by (simp add: checkDrift_def w_pass_def w_round_def Let_def)
  have i: "sc_driftInterval w_warm = 6 * hour" "sc_jitterFrac w_warm = 0"
    by (simp_all add: w_warm_def w_sched_def New_def time_simps)
  show ?thesis
    using a_drift_read_is_checkpointed_or_backed_off [OF c, of "15 * minute" _ minute 0 0] i
    by (simp add: driftThresholdFor_def w_idle_def time_simps)
qed

end
