(* ===== verification/Suppression.thy ===== *)
theory Suppression
  imports Prelude
begin

text \<open>
  The do-not-email list (internal/store/suppression.go) and the redaction of addresses
  (internal/redact/redact.go). The table \<open>mail_suppression\<close> is a list of rows with the normalised
  address as key; each statement is a function on the rows, its clock in the whole seconds of
  RFC 3339. A failed statement is the caller's branch.
\<close>

section \<open>Addresses and redaction\<close>

definition trim_space :: "string \<Rightarrow> string" where
  "trim_space s = rev (dropWhile is_space (rev (dropWhile is_space s)))"

definition normaliseAddr :: "string \<Rightarrow> string" where
  "normaliseAddr a = to_lower (trim_space a)"

text \<open>\<open>strings.LastIndex\<close>: the text before the last occurrence and the text from it on.\<close>

definition cut_last :: "char \<Rightarrow> string \<Rightarrow> (string \<times> string) option" where
  "cut_last c s = (if c \<in> set s
     then Some (rev (tl (dropWhile (\<lambda>x. x \<noteq> c) (rev s))), c # rev (takeWhile (\<lambda>x. x \<noteq> c) (rev s)))
     else None)"

definition redact_Email :: "string \<Rightarrow> string" where
  "redact_Email a0 = (let a = trim_space a0 in
     if a = [] then ''(none)''
     else (case cut_last CHR ''@'' a of
         None \<Rightarrow> ''***''
       | Some (loc, host) \<Rightarrow> if loc = [] then ''***'' else take 1 loc @ ''***'' @ to_lower host))"

definition join_with :: "string \<Rightarrow> string list \<Rightarrow> string" where
  "join_with sep xs = (case xs of [] \<Rightarrow> [] | y # ys \<Rightarrow> y @ concat (map (\<lambda>x. sep @ x) ys))"

primrec split_on :: "char \<Rightarrow> string \<Rightarrow> string list" where
  "split_on c [] = [[]]"
| "split_on c (x # xs) = (if x = c then [] # split_on c xs
     else (case split_on c xs of [] \<Rightarrow> [[x]] | w # ws \<Rightarrow> (x # w) # ws))"

definition redact_Emails :: "string list \<Rightarrow> string" where
  "redact_Emails xs = (if xs = [] then ''(none)'' else join_with '', '' (map redact_Email xs))"

definition asciiLower_c :: "char \<Rightarrow> char" where
  "asciiLower_c c = (if 65 \<le> cp c \<and> cp c \<le> 90 then char_of (cp c + 32) else c)"

definition asciiLower :: "string \<Rightarrow> string" where "asciiLower = map asciiLower_c"

text \<open>\<open>old\<close> is not empty: the caller skips empty addresses and \<open>replaceFold\<close> returns early.\<close>

function replaceFold :: "string \<Rightarrow> string \<Rightarrow> string \<Rightarrow> string" where
  "replaceFold s old new =
     (if old = [] \<or> s = [] then s
      else if has_prefix (asciiLower s) (asciiLower old) then new @ replaceFold (drop (length old) s) old new
      else hd s # replaceFold (tl s) old new)"
  by pat_completeness auto
termination by (relation "measure (\<lambda>(s, old, new). length s)") auto

declare replaceFold.simps [simp del]

primrec redact_InText :: "string \<Rightarrow> string list \<Rightarrow> string" where
  "redact_InText text0 [] = text0"
| "redact_InText text0 (a # as) =
     (let a' = trim_space a in
      redact_InText (if a' = [] then text0 else replaceFold text0 a' (redact_Email a')) as)"

section \<open>The list\<close>

record suppression =
  sp_Address :: string
  sp_Reason :: string
  sp_Detail :: string
  sp_FirstSeen :: time
  sp_LastSeen :: time
  sp_Hits :: int

definition SuppressBounce :: string where "SuppressBounce = ''bounce''"
definition SuppressComplaint :: string where "SuppressComplaint = ''complaint''"
definition SuppressManual :: string where "SuppressManual = ''manual''"
definition SuppressUnsubscribed :: string where "SuppressUnsubscribed = ''unsubscribed''"

lemmas reason_defs = SuppressBounce_def SuppressComplaint_def SuppressManual_def SuppressUnsubscribed_def

definition reason_rank :: "string \<Rightarrow> int" where
  "reason_rank r = (if r = ''complaint'' then 3 else if r = ''bounce'' then 2 else 1)"

definition suppression_of :: "string \<Rightarrow> suppression list \<Rightarrow> suppression option" where
  "suppression_of addr rows = find (\<lambda>e. sp_Address e = addr) rows"

text \<open>The upsert: the incoming report wins a tie.\<close>

definition merge_report :: "string \<Rightarrow> string \<Rightarrow> time \<Rightarrow> suppression \<Rightarrow> suppression" where
  "merge_report reason detail t e =
     e\<lparr>sp_Reason := (if reason_rank (sp_Reason e) \<le> reason_rank reason then reason else sp_Reason e),
       sp_Detail := (if reason_rank (sp_Reason e) \<le> reason_rank reason then detail else sp_Detail e),
       sp_LastSeen := t, sp_Hits := sp_Hits e + 1\<rparr>"

definition SuppressAddress ::
  "string \<Rightarrow> string \<Rightarrow> string \<Rightarrow> time \<Rightarrow> suppression list \<Rightarrow> suppression list" where
  "SuppressAddress address reason detail now rows =
     (let addr = normaliseAddr address; t = whole_seconds now in
      if addr = [] then rows
      else if suppression_of addr rows = None
      then rows @ [\<lparr>sp_Address = addr, sp_Reason = reason, sp_Detail = detail, sp_FirstSeen = t,
                    sp_LastSeen = t, sp_Hits = 1\<rparr>]
      else map (\<lambda>e. if sp_Address e = addr then merge_report reason detail t e else e) rows)"

definition IsSuppressed :: "string \<Rightarrow> suppression list \<Rightarrow> string option" where
  "IsSuppressed address rows =
     (let addr = normaliseAddr address in
      if addr = [] then None else map_option sp_Reason (suppression_of addr rows))"

text \<open>One query over the candidates in chunks of \<open>suppressed_chunk\<close>: the distinct normalised
  addresses, the rows found for them, and the answer for each address as given.\<close>

primrec distinct_args :: "string list \<Rightarrow> string list \<Rightarrow> string list" where
  "distinct_args [] seen = []"
| "distinct_args (a # as) seen =
     (let n = normaliseAddr a in
      if n = [] \<or> n \<in> set seen then distinct_args as seen else n # distinct_args as (n # seen))"

definition suppressed_chunk :: nat where "suppressed_chunk = 500"

definition found_rows :: "suppression list \<Rightarrow> string list \<Rightarrow> (string \<times> string) list \<Rightarrow> (string \<times> string) list" where
  "found_rows rows part found =
     foldl (\<lambda>m e. put (sp_Address e) (sp_Reason e) m) found (filter (\<lambda>e. sp_Address e \<in> set part) rows)"

function query_chunks :: "suppression list \<Rightarrow> string list \<Rightarrow> (string \<times> string) list \<Rightarrow> (string \<times> string) list" where
  "query_chunks rows as found =
     (if as = [] then found
      else query_chunks rows (drop suppressed_chunk as) (found_rows rows (take suppressed_chunk as) found))"
  by pat_completeness auto
termination by (relation "measure (\<lambda>(rows, as, found). length as)") (auto simp: suppressed_chunk_def)

declare query_chunks.simps [simp del]

definition SuppressedAmong :: "string list \<Rightarrow> suppression list \<Rightarrow> (string \<times> string) list" where
  "SuppressedAmong addresses rows =
     (let found = query_chunks rows (distinct_args addresses []) [] in
      foldl (\<lambda>out a. case map_of found (normaliseAddr a) of None \<Rightarrow> out | Some r \<Rightarrow> put a r out) [] addresses)"

definition Unsuppress :: "string \<Rightarrow> suppression list \<Rightarrow> suppression list" where
  "Unsuppress address rows = filter (\<lambda>e. sp_Address e \<noteq> normaliseAddr address) rows"

definition PruneSuppressions :: "time \<Rightarrow> time \<Rightarrow> suppression list \<Rightarrow> suppression list" where
  "PruneSuppressions bounceBefore detailBefore rows =
     map (\<lambda>e. if sp_Detail e \<noteq> [] \<and> sp_LastSeen e < whole_seconds detailBefore then e\<lparr>sp_Detail := []\<rparr> else e)
       (filter (\<lambda>e. \<not> (sp_Reason e \<in> {SuppressBounce, SuppressUnsubscribed}
          \<and> sp_LastSeen e < whole_seconds bounceBefore)) rows)"

definition UnsuppressIfUnsubscribed :: "string \<Rightarrow> suppression list \<Rightarrow> suppression list \<times> bool" where
  "UnsuppressIfUnsubscribed address rows =
     (let gone = (\<lambda>e. sp_Address e = normaliseAddr address \<and> sp_Reason e = SuppressUnsubscribed)
      in (filter (\<lambda>e. \<not> gone e) rows, list_ex gone rows))"

text \<open>What can happen to the list without the operator.\<close>

datatype list_event =
    Reported string string string time
  | Resubscribed string
  | Pruned time time

primrec list_step :: "list_event \<Rightarrow> suppression list \<Rightarrow> suppression list" where
  "list_step (Reported a r d t) rows = SuppressAddress a r d t rows"
| "list_step (Resubscribed a) rows = fst (UnsuppressIfUnsubscribed a rows)"
| "list_step (Pruned b d) rows = PruneSuppressions b d rows"

section \<open>Lemmas\<close>

lemma trim_tail_keeps_head:
  assumes "dropWhile is_space s = s"
  shows "dropWhile is_space (rev (dropWhile is_space (rev s))) = rev (dropWhile is_space (rev s))"
proof (cases "rev (dropWhile is_space (rev s))")
  case (Cons c r)
  have "s = rev (dropWhile is_space (rev s)) @ rev (takeWhile is_space (rev s))"
    by (metis rev_append rev_rev_ident takeWhile_dropWhile_id)
  then have "s = c # r @ rev (takeWhile is_space (rev s))" using Cons by simp
  then have "\<not> is_space c" using assms by (metis dropWhile_eq_Cons_conv)
  then show ?thesis using Cons by simp
next
  case Nil
  then show ?thesis by (simp only: dropWhile.simps)
qed

lemma dropWhile_dropWhile [simp]: "dropWhile P (dropWhile P s) = dropWhile P s"
  by (induction s) auto

lemma trim_space_idem [simp]: "trim_space (trim_space s) = trim_space s"
  using trim_tail_keeps_head [of "dropWhile is_space s"] by (simp add: trim_space_def)

lemma is_space_lower [simp]: "is_space (to_lower_c c) \<longleftrightarrow> is_space c"
  by (metis is_space_upper to_upper_lower_c)

lemma trim_lower: "trim_space (to_lower s) = to_lower (trim_space s)"
  by (simp add: trim_space_def to_lower_def rev_map dropWhile_map comp_def)

lemma normaliseAddr_idem [simp]: "normaliseAddr (normaliseAddr a) = normaliseAddr a"
  by (simp add: normaliseAddr_def trim_lower) (simp add: to_lower_def)

lemma suppression_of_simps [simp]:
  "suppression_of a [] = None"
  "suppression_of a (e # rows) = (if sp_Address e = a then Some e else suppression_of a rows)"
  by (simp_all add: suppression_of_def)

lemma suppression_of_map:
  "(\<And>e. sp_Address (g e) = sp_Address e) \<Longrightarrow> suppression_of a (map g rows) = map_option g (suppression_of a rows)"
  by (induction rows) auto

lemma suppression_of_Some: "suppression_of a rows = Some e \<Longrightarrow> e \<in> set rows \<and> sp_Address e = a"
  by (induction rows) (auto split: if_splits)

lemma suppression_of_None: "suppression_of a rows = None \<longleftrightarrow> a \<notin> sp_Address ` set rows"
  by (induction rows) auto

lemma suppression_of_append:
  "suppression_of a (xs @ ys) = (case suppression_of a xs of None \<Rightarrow> suppression_of a ys | Some e \<Rightarrow> Some e)"
  by (induction xs) auto

lemma suppression_of_filter:
  "distinct (map sp_Address rows) \<Longrightarrow>
     suppression_of a (filter P rows) = (case suppression_of a rows of
        None \<Rightarrow> None | Some e \<Rightarrow> if P e then Some e else None)"
proof (induction rows)
  case (Cons e rows)
  have "suppression_of (sp_Address e) (filter P rows) = None"
    using Cons.prems unfolding suppression_of_None by auto
  then show ?case using Cons by auto
qed simp

lemma addresses_map:
  "(\<And>e. sp_Address (g e) = sp_Address e) \<Longrightarrow> map sp_Address (map g rows) = map sp_Address rows"
  by simp

lemma clear_detail_Address: "sp_Address (if P then e\<lparr>sp_Detail := []\<rparr> else e) = sp_Address e"
  by simp

lemma merge_Address: "sp_Address (if sp_Address e = x then merge_report r d t e else e) = sp_Address e"
  by (simp add: merge_report_def)

lemma step_keeps_the_key:
  assumes "distinct (map sp_Address rows)"
  shows "distinct (map sp_Address (list_step e rows))"
proof (cases e)
  case (Reported a r d t)
  have "distinct (map sp_Address (SuppressAddress a r d t rows))"
    unfolding SuppressAddress_def Let_def using assms
    by (auto simp only: addresses_map merge_Address suppression_of_None split: if_splits) auto
  with Reported show ?thesis by simp
next
  case (Resubscribed a)
  then show ?thesis using assms by (simp add: UnsuppressIfUnsubscribed_def Let_def distinct_map_filter)
next
  case (Pruned b d)
  have "distinct (map sp_Address (PruneSuppressions b d rows))"
    unfolding PruneSuppressions_def by (simp only: addresses_map clear_detail_Address) (simp add: assms distinct_map_filter)
  with Pruned show ?thesis by simp
qed

lemma suppression_of_report:
  "suppression_of a (SuppressAddress x r d t rows) =
     (if a = normaliseAddr x \<and> a \<noteq> []
      then Some (case suppression_of a rows of
          None \<Rightarrow> \<lparr>sp_Address = a, sp_Reason = r, sp_Detail = d, sp_FirstSeen = whole_seconds t,
                   sp_LastSeen = whole_seconds t, sp_Hits = 1\<rparr>
        | Some e \<Rightarrow> merge_report r d (whole_seconds t) e)
      else suppression_of a rows)"
proof -
  let ?g = "\<lambda>e. if sp_Address e = normaliseAddr x then merge_report r d (whole_seconds t) e else e"
  have upd: "suppression_of a (map ?g rows) = map_option ?g (suppression_of a rows)"
    by (rule suppression_of_map) (rule merge_Address)
  show ?thesis
    unfolding SuppressAddress_def Let_def using upd
    by (auto simp: suppression_of_append split: option.splits if_splits dest: suppression_of_Some)
qed

lemma reason_step:
  assumes "distinct (map sp_Address rows)" and "suppression_of a rows = Some e0" and "a \<noteq> []"
    and "2 \<le> reason_rank (sp_Reason e0)"
    and "reason_rank (sp_Reason e0) = 3 \<or> (\<forall>b d. e \<noteq> Pruned b d)"
  shows "\<exists>e1. suppression_of a (list_step e rows) = Some e1 \<and> reason_rank (sp_Reason e0) \<le> reason_rank (sp_Reason e1)"
proof (cases e)
  case (Reported x r d t)
  then show ?thesis using assms(2) by (auto simp: suppression_of_report merge_report_def)
next
  case (Resubscribed x)
  have "sp_Reason e0 \<noteq> SuppressUnsubscribed" using assms(4) by (auto simp: reason_rank_def reason_defs)
  then show ?thesis using Resubscribed assms(1,2)
    by (simp add: UnsuppressIfUnsubscribed_def Let_def suppression_of_filter)
next
  case (Pruned b d)
  let ?P = "\<lambda>e. \<not> (sp_Reason e \<in> {SuppressBounce, SuppressUnsubscribed} \<and> sp_LastSeen e < whole_seconds b)"
  have "?P e0" using assms(5) Pruned by (auto simp: reason_rank_def reason_defs)
  then have "suppression_of a (filter ?P rows) = Some e0"
    using assms(1,2) by (simp only: suppression_of_filter) simp
  moreover have "suppression_of a (map (\<lambda>e. if Q e then e\<lparr>sp_Detail := []\<rparr> else e) xs)
      = map_option (\<lambda>e. if Q e then e\<lparr>sp_Detail := []\<rparr> else e) (suppression_of a xs)" for Q xs
    by (rule suppression_of_map) simp
  ultimately show ?thesis using Pruned by (simp add: PruneSuppressions_def)
qed

section \<open>What the list promises\<close>

text \<open>a report is never weakened: whatever is reported later, and whoever switches email back on in
  Settings, an address that complained or bounced stays on the list with a reason at least as strong, a
  bounce until the two-year pruning and a complaint through that as well.\<close>

theorem a_strong_report_is_never_weakened:
  assumes "distinct (map sp_Address rows)" and "IsSuppressed a rows = Some r" and "2 \<le> reason_rank r"
    and "reason_rank r = 3 \<or> (\<forall>e \<in> set evs. \<forall>b d. e \<noteq> Pruned b d)"
  shows "\<exists>r'. IsSuppressed a (foldl (\<lambda>rows e. list_step e rows) rows evs) = Some r' \<and> reason_rank r \<le> reason_rank r'"
  using assms
proof (induction evs arbitrary: rows r)
  case (Cons e evs)
  from Cons.prems(2) obtain e0 where e0: "suppression_of (normaliseAddr a) rows = Some e0" "sp_Reason e0 = r"
      "normaliseAddr a \<noteq> []"
    by (auto simp: IsSuppressed_def Let_def split: if_splits)
  from Cons.prems(4) have ev: "reason_rank (sp_Reason e0) = 3 \<or> (\<forall>b d. e \<noteq> Pruned b d)" using e0(2) by auto
  obtain e1 where e1: "suppression_of (normaliseAddr a) (list_step e rows) = Some e1"
      "reason_rank r \<le> reason_rank (sp_Reason e1)"
    using reason_step [OF Cons.prems(1) e0(1,3) _ ev] Cons.prems(3) e0(2) by auto
  have top: "reason_rank x \<le> 3" for x by (simp add: reason_rank_def)
  have "\<exists>r'. IsSuppressed a (foldl (\<lambda>rows e. list_step e rows) (list_step e rows) evs) = Some r'
      \<and> reason_rank (sp_Reason e1) \<le> reason_rank r'"
    using Cons.prems(3,4) e0(3) e1 top [of "sp_Reason e1"]
    by (intro Cons.IH step_keeps_the_key [OF Cons.prems(1)]) (auto simp: IsSuppressed_def)
  then show ?case using e1(2) by auto
qed auto

lemma a_strong_report_is_never_weakened_witness:
  "\<exists>r'. IsSuppressed '' A@b ''
      (foldl (\<lambda>rows e. list_step e rows) (SuppressAddress ''a@B'' SuppressComplaint ''abuse'' 0 [])
        [Reported ''a@b'' SuppressUnsubscribed [] 5, Resubscribed ''A@b'', Pruned 9 9]) = Some r'
    \<and> reason_rank SuppressComplaint \<le> reason_rank r'"
  by (rule a_strong_report_is_never_weakened)
    (code_simp, code_simp, simp_all add: reason_rank_def reason_defs)

subsection \<open>The chunked lookup\<close>

lemma found_rows_lookup:
  assumes "distinct (map sp_Address rows)"
  shows "map_of (found_rows rows part found) a =
     (if a \<in> set part then (case suppression_of a rows of None \<Rightarrow> map_of found a | Some e \<Rightarrow> Some (sp_Reason e))
      else map_of found a)"
  using assms
proof (induction rows arbitrary: found)
  case (Cons e rows)
  have none: "suppression_of (sp_Address e) rows = None"
    using Cons.prems by (simp add: suppression_of_None)
  have step: "map_of (found_rows rows part m) a =
     (if a \<in> set part then (case suppression_of a rows of None \<Rightarrow> map_of m a | Some e \<Rightarrow> Some (sp_Reason e))
      else map_of m a)" for m
    using Cons by simp
  have unfold: "found_rows (e # rows) part found =
      found_rows rows part (if sp_Address e \<in> set part then put (sp_Address e) (sp_Reason e) found else found)"
    by (simp add: found_rows_def)
  have sup: "suppression_of a (e # rows) = (if sp_Address e = a then Some e else suppression_of a rows)"
    by (simp add: suppression_of_def)
  show ?case unfolding unfold step sup using none by (cases "a = sp_Address e") (auto simp: map_of_put split: option.splits)
qed (simp add: found_rows_def suppression_of_def)

lemma query_chunks_lookup:
  assumes "distinct (map sp_Address rows)"
  shows "map_of (query_chunks rows as found) a =
     (if a \<in> set as then (case suppression_of a rows of None \<Rightarrow> map_of found a | Some e \<Rightarrow> Some (sp_Reason e))
      else map_of found a)"
  using assms
proof (induction rows as found rule: query_chunks.induct)
  case (1 rows as found)
  have split: "set as = set (take suppressed_chunk as) \<union> set (drop suppressed_chunk as)"
    by (metis append_take_drop_id set_append)
  show ?case
  proof (cases "as = []")
    case False
    then show ?thesis
      unfolding query_chunks.simps [of rows as found]
      using 1 by (simp add: found_rows_lookup split) (auto simp: found_rows_lookup split: option.splits)
  qed (simp add: query_chunks.simps)
qed

lemma set_distinct_args:
  "set (distinct_args as seen) = normaliseAddr ` set as - insert [] (set seen)"
  by (induction as arbitrary: seen) (auto simp: Let_def)

lemma annotate_lookup:
  "map_of (foldl (\<lambda>out a. case map_of found (normaliseAddr a) of None \<Rightarrow> out | Some r \<Rightarrow> put a r out) out as) a =
     (if a \<in> set as then (case map_of found (normaliseAddr a) of None \<Rightarrow> map_of out a | Some r \<Rightarrow> Some r)
      else map_of out a)"
  by (induction as arbitrary: out) (auto simp: map_of_put split: option.splits)

text \<open>\<open>SuppressedAmong\<close>, which asks for the distinct normalised candidates in chunks, answers for every
  address of the list, as given, exactly what \<open>IsSuppressed\<close> answers for it, and for no other.\<close>

theorem chunked_lookup_agrees:
  assumes "distinct (map sp_Address rows)"
  shows "map_of (SuppressedAmong addresses rows) a = (if a \<in> set addresses then IsSuppressed a rows else None)"
  unfolding SuppressedAmong_def Let_def
  by (subst annotate_lookup)
    (auto simp: query_chunks_lookup [OF assms] set_distinct_args IsSuppressed_def Let_def split: option.splits)

lemma chunked_lookup_agrees_witness:
  "map_of (SuppressedAmong ['' A@b'', ''c@d''] (SuppressAddress ''a@B'' SuppressBounce ''550'' 0 [])) '' A@b''
     = Some SuppressBounce"
proof -
  have "distinct (map sp_Address (SuppressAddress ''a@B'' SuppressBounce ''550'' 0 []))"
    using step_keeps_the_key [of "[]" "Reported ''a@B'' SuppressBounce ''550'' 0"] by simp
  moreover have "IsSuppressed '' A@b'' (SuppressAddress ''a@B'' SuppressBounce ''550'' 0 []) = Some SuppressBounce"
    by code_simp
  ultimately show ?thesis
    using chunked_lookup_agrees [of "SuppressAddress ''a@B'' SuppressBounce ''550'' 0 []" "['' A@b'', ''c@d'']" "'' A@b''"]
    by simp
qed

end
