(* ===== verification/Throttle.thy ===== *)
theory Throttle
  imports Prelude Calendar
begin

text \<open>
  What paces a notification inside internal/notify: the per-recipient limiter (throttle.go), the memory of
  members already reached and the quiet hours (service.go). A map of Go is an association list; the
  deletion of expired entries while ranging over it is a filter.
\<close>

section \<open>The limiter\<close>

record limiter =
  lm_limit :: int
  lm_window :: dur
  lm_hits :: "(string \<times> time list) list"
  lm_calls :: int

definition sendLimiterMaxKeys :: int where "sendLimiterMaxKeys = 20000"
definition sendLimiterPrune :: int where "sendLimiterPrune = 256"

definition newSendLimiter :: "int \<Rightarrow> dur \<Rightarrow> limiter" where
  "newSendLimiter limit window = \<lparr>lm_limit = limit, lm_window = window, lm_hits = [], lm_calls = 0\<rparr>"

definition keepAfter :: "time list \<Rightarrow> time \<Rightarrow> time list" where
  "keepAfter ts cutoff = filter (\<lambda>t. cutoff < t) ts"

definition hits_of :: "string \<Rightarrow> (string \<times> time list) list \<Rightarrow> time list" where
  "hits_of k m = (case map_of m k of None \<Rightarrow> [] | Some ts \<Rightarrow> ts)"

definition sweep_hits :: "time \<Rightarrow> (string \<times> time list) list \<Rightarrow> (string \<times> time list) list" where
  "sweep_hits cutoff m = filter (\<lambda>e. snd e \<noteq> []) (map (\<lambda>(k, ts). (k, keepAfter ts cutoff)) m)"

fun sl_allow :: "limiter option \<Rightarrow> string \<Rightarrow> time \<Rightarrow> limiter option \<times> bool" where
  "sl_allow None key now = (None, True)"
| "sl_allow (Some l) key now =
     (let cutoff = now - lm_window l; calls = lm_calls l + 1;
          full = sendLimiterMaxKeys < int (length (lm_hits l));
          sweep = sendLimiterPrune \<le> calls \<or> full;
          hits = (if \<not> sweep then lm_hits l else if full then [] else sweep_hits cutoff (lm_hits l));
          l' = l\<lparr>lm_calls := (if sweep then 0 else calls)\<rparr>;
          kept = keepAfter (hits_of key hits) cutoff
      in if lm_limit l \<le> int (length kept) then (Some (l'\<lparr>lm_hits := put key kept hits\<rparr>), False)
         else (Some (l'\<lparr>lm_hits := put key (kept @ [now]) hits\<rparr>), True))"

text \<open>A run of calls, each a key and its time, and the times at which a key was let through.\<close>

primrec sl_run :: "limiter \<Rightarrow> (string \<times> time) list \<Rightarrow> limiter \<times> (string \<times> time) list" where
  "sl_run l [] = (l, [])"
| "sl_run l (c # cs) = (case sl_allow (Some l) (fst c) (snd c) of
     (l', ok) \<Rightarrow> (case sl_run (the l') cs of (l'', gs) \<Rightarrow> (l'', if ok then c # gs else gs)))"

definition granted :: "string \<Rightarrow> limiter \<Rightarrow> (string \<times> time) list \<Rightarrow> time list" where
  "granted k l cs = map snd (filter (\<lambda>g. fst g = k) (snd (sl_run l cs)))"

lemma keepAfter_simps [simp]:
  "keepAfter [] c = []"
  "keepAfter (xs @ ys) c = keepAfter xs c @ keepAfter ys c"
  "keepAfter (t # ts) c = (if c < t then t # keepAfter ts c else keepAfter ts c)"
  by (simp_all add: keepAfter_def)

lemma keepAfter_keepAfter: "b \<le> c \<Longrightarrow> keepAfter (keepAfter ts b) c = keepAfter ts c"
  by (induction ts) (auto simp: keepAfter_def)

lemma map_of_sweep:
  "table m \<Longrightarrow> map_of (sweep_hits c m) k =
     (case map_of m k of None \<Rightarrow> None | Some ts \<Rightarrow> if keepAfter ts c = [] then None else Some (keepAfter ts c))"
proof (induction m)
  case (Cons e m)
  obtain x ts where e: "e = (x, ts)" by (cases e)
  have none: "map_of m x = None" and tm: "table m"
    using Cons.prems e by (auto simp: table_def map_of_eq_None_iff image_iff)
  show ?case using Cons.IH [OF tm] none e by (auto simp: sweep_hits_def split: option.splits)
qed (simp add: sweep_hits_def)

lemma hits_of_sweep: "table m \<Longrightarrow> hits_of k (sweep_hits c m) = keepAfter (hits_of k m) c"
  by (simp add: hits_of_def map_of_sweep split: option.split)

lemma hits_of_put: "hits_of k (put x ts m) = (if k = x then ts else hits_of k m)"
  by (simp add: hits_of_def map_of_put)

lemma sweep_keys: "fst ` set (sweep_hits c m) \<subseteq> fst ` set m"
  by (force simp: sweep_hits_def)

lemma table_sweep: "table m \<Longrightarrow> table (sweep_hits c m)"
  unfolding sweep_hits_def by (rule table_filter) (simp add: table_def comp_def case_prod_beta)

lemma length_filter_mono:
  "(\<And>x. x \<in> set xs \<Longrightarrow> P x \<Longrightarrow> Q x) \<Longrightarrow> length (filter P xs) \<le> length (filter Q xs)"
  by (induction xs) (auto intro: le_SucI)

text \<open>What the limiter knows after a history of grants, the latest call at \<open>now\<close>: for each key, the
  grants inside the window, and never more of them than the limit.\<close>

definition tracks :: "(string \<Rightarrow> time list) \<Rightarrow> time \<Rightarrow> limiter \<Rightarrow> bool" where
  "tracks G now l \<longleftrightarrow> table (lm_hits l)
     \<and> (\<forall>k c. now - lm_window l \<le> c \<longrightarrow> keepAfter (hits_of k (lm_hits l)) c = keepAfter (G k) c)
     \<and> (\<forall>k. \<forall>g \<in> set (G k). g \<le> now)
     \<and> (\<forall>k t. int (length (filter (\<lambda>g. t - lm_window l < g \<and> g \<le> t) (G k))) \<le> lm_limit l)"

lemma allow_below_cap:
  fixes now :: time and key :: string
  assumes "int (length (lm_hits l)) \<le> sendLimiterMaxKeys"
  defines "c \<equiv> now - lm_window l"
  defines "sweep \<equiv> sendLimiterPrune \<le> lm_calls l + 1"
  defines "hits \<equiv> if \<not> sweep then lm_hits l else sweep_hits c (lm_hits l)"
  defines "kept \<equiv> keepAfter (hits_of key hits) c"
  defines "calls \<equiv> if sweep then 0 else lm_calls l + 1"
  shows "sl_allow (Some l) key now =
     (if lm_limit l \<le> int (length kept) then (Some (l\<lparr>lm_calls := calls, lm_hits := put key kept hits\<rparr>), False)
      else (Some (l\<lparr>lm_calls := calls, lm_hits := put key (kept @ [now]) hits\<rparr>), True))"
proof -
  have full: "(sendLimiterMaxKeys < int (length (lm_hits l))) = False" using assms(1) by simp
  show ?thesis
    unfolding sl_allow.simps Let_def full hits_def kept_def calls_def sweep_def c_def by (simp only: if_False simp_thms)
qed

lemma allow_step:
  assumes tr: "tracks G was l" and le: "was \<le> now" and keys: "fst ` set (lm_hits l) \<subseteq> K" "key \<in> K" "finite K"
    and few: "int (card K) \<le> sendLimiterMaxKeys" and a: "sl_allow (Some l) key now = (l', ok)"
  shows "\<exists>m. l' = Some m \<and> lm_limit m = lm_limit l \<and> lm_window m = lm_window l \<and> fst ` set (lm_hits m) \<subseteq> K
     \<and> tracks (if ok then G(key := G key @ [now]) else G) now m"
proof -
  let ?c = "now - lm_window l"
  have tab: "table (lm_hits l)" using tr by (simp add: tracks_def)
  have "length (lm_hits l) \<le> card K"
    using card_mono [OF keys(3,1)] by (simp add: table_length [OF tab])
  then have notfull: "\<not> sendLimiterMaxKeys < int (length (lm_hits l))" using few by linarith
  define hits where "hits = (if \<not> sendLimiterPrune \<le> lm_calls l + 1 then lm_hits l else sweep_hits ?c (lm_hits l))"
  have tabh: "table hits" using tab by (simp add: hits_def table_sweep)
  have sub: "fst ` set hits \<subseteq> K" 
  proof (cases "sendLimiterPrune \<le> lm_calls l + 1")
    case True
    then show ?thesis using subset_trans [OF sweep_keys [of ?c "lm_hits l"] keys(1)] by (simp add: hits_def)
  qed (use keys(1) in \<open>simp add: hits_def\<close>)
  have seen: "keepAfter (hits_of k (lm_hits l)) c = keepAfter (G k) c" if "?c \<le> c" for k c
    using tr le that by (auto simp: tracks_def)
  have same: "keepAfter (hits_of k hits) c = keepAfter (G k) c" if "?c \<le> c" for k c
    using seen [OF that] that by (simp add: hits_def hits_of_sweep [OF tab] keepAfter_keepAfter)
  define kept where "kept = keepAfter (G key) ?c"
  have kept: "keepAfter (hits_of key hits) ?c = kept" using same by (simp add: kept_def)
  have res: "l' = Some (l\<lparr>lm_calls := (if sendLimiterPrune \<le> lm_calls l + 1 then 0 else lm_calls l + 1),
        lm_hits := put key (if ok then kept @ [now] else kept) hits\<rparr>)
      \<and> (ok \<longleftrightarrow> int (length kept) < lm_limit l)"
    using a allow_below_cap [of l key now] notfull unfolding hits_def [symmetric] kept not_less
    by (auto split: if_splits)
  have gle: "g \<le> now" if "g \<in> set (G k)" for g k using tr le that by (fastforce simp: tracks_def)
  show ?thesis
  proof (cases ok)
    case False
    then show ?thesis using res tabh sub same keys(2) tr le
      by (auto intro: gle simp: tracks_def hits_of_put kept_def keepAfter_keepAfter)
  next
    case True
    have cap: "int (length (filter (\<lambda>g. t - lm_window l < g \<and> g \<le> t) (G key @ [now]))) \<le> lm_limit l" for t
    proof (cases "now \<le> t")
      case True
      have "length (filter (\<lambda>g. t - lm_window l < g \<and> g \<le> t) (G key)) \<le> length kept"
        unfolding kept_def keepAfter_def using True by (intro length_filter_mono) auto
      then show ?thesis using res \<open>ok\<close> by simp
    next
      case False
      then show ?thesis using tr by (simp add: tracks_def)
    qed
    show ?thesis using res \<open>ok\<close> tabh sub same keys(2) tr le gle cap
      by (auto simp: tracks_def hits_of_put kept_def keepAfter_keepAfter)
  qed
qed


lemma run_step:
  assumes "tracks G was l" and "sorted (was # map snd cs)" and "fst ` set (lm_hits l) \<subseteq> K" and "fst ` set cs \<subseteq> K"
    and "finite K" and "int (card K) \<le> sendLimiterMaxKeys"
  shows "int (length (filter (\<lambda>g. t - lm_window l < g \<and> g \<le> t) (G k @ granted k l cs))) \<le> lm_limit l"
  using assms
proof (induction cs arbitrary: G was l)
  case Nil
  then show ?case by (simp add: granted_def tracks_def)
next
  case (Cons c cs)
  obtain l' ok where a: "sl_allow (Some l) (fst c) (snd c) = (l', ok)" by (metis surj_pair)
  have le: "was \<le> snd c" and kin: "fst c \<in> K" using Cons.prems by auto
  let ?G = "if ok then G(fst c := G (fst c) @ [snd c]) else G"
  obtain m where m: "l' = Some m" "lm_limit m = lm_limit l" "lm_window m = lm_window l"
      "fst ` set (lm_hits m) \<subseteq> K" "tracks ?G (snd c) m"
    using allow_step [OF Cons.prems(1) le Cons.prems(3) kin Cons.prems(5,6) a] by auto
  have g: "G k @ granted k l (c # cs) = ?G k @ granted k m cs"
    by (simp add: granted_def a m(1) case_prod_beta del: sl_allow.simps)
  show ?case unfolding g
    using Cons.IH [OF m(5) _ m(4) _ Cons.prems(5,6)] Cons.prems(2,4) m(2,3) by simp
qed

text \<open>the limiter is a rate ceiling: over any run of calls in time order, from a new limiter and for at
  most twenty thousand recipients, no recipient is let through more than \<open>limit\<close> times in any span of one
  window, wherever the span lies and whenever the amortised sweeps ran.\<close>

theorem limiter_is_a_rate_ceiling:
  assumes "0 \<le> limit" and "sorted (map snd calls)"
    and "int (card (fst ` set calls)) \<le> sendLimiterMaxKeys"
  shows "int (length (filter (\<lambda>g. t - window < g \<and> g \<le> t) (granted k (newSendLimiter limit window) calls))) \<le> limit"
proof (cases calls)
  case (Cons c cs)
  have "tracks (\<lambda>_. []) (snd c) (newSendLimiter limit window)"
    using assms(1) by (simp add: tracks_def newSendLimiter_def hits_of_def)
  from run_step [OF this, of calls "fst ` set calls" t k] assms(2,3) Cons show ?thesis
    by (simp add: newSendLimiter_def)
qed (simp add: granted_def assms(1))

lemma limiter_is_a_rate_ceiling_witness:
  "int (length (filter (\<lambda>g. 30 - 20 < g \<and> g \<le> (30::int))
     (granted ''a'' (newSendLimiter 2 20) [(''a'', 10), (''a'', 11), (''a'', 12), (''b'', 12), (''a'', 31)]))) \<le> 2"
  by (rule limiter_is_a_rate_ceiling) (simp, simp, code_simp)

text \<open>The same run lets through the first two, the other recipient, and the first again once its first
  grant has left the window.\<close>

lemma limiter_example:
  "snd (sl_run (newSendLimiter 2 20) [(''a'', 10), (''a'', 11), (''a'', 12), (''b'', 12), (''a'', 31)])
     = [(''a'', 10), (''a'', 11), (''b'', 12), (''a'', 31)]"
  by code_simp

section \<open>Members already reached\<close>

definition applySeenTTL :: dur where "applySeenTTL = 24 * hour"

definition seen_reached :: "string \<Rightarrow> time \<Rightarrow> (string \<times> time) list \<Rightarrow> bool" where
  "seen_reached k now m = (case map_of m k of None \<Rightarrow> False | Some t \<Rightarrow> tsub now t < applySeenTTL)"

definition markReached :: "string \<Rightarrow> time \<Rightarrow> (string \<times> time) list \<Rightarrow> (string \<times> time) list" where
  "markReached k now m = put k now (filter (\<lambda>e. \<not> applySeenTTL \<le> tsub now (snd e)) m)"

primrec forgetReached :: "string list \<Rightarrow> (string \<times> time) list \<Rightarrow> (string \<times> time) list" where
  "forgetReached [] m = m"
| "forgetReached (k # ks) m = forgetReached ks (del k m)"

lemma map_of_filter_val:
  "table m \<Longrightarrow> map_of (filter (\<lambda>e. P (snd e)) m) k =
     (case map_of m k of None \<Rightarrow> None | Some v \<Rightarrow> if P v then Some v else None)"
proof (induction m)
  case (Cons e m)
  have "map_of m (fst e) = None" and "table m"
    using Cons.prems by (auto simp: table_def map_of_eq_None_iff)
  then show ?case using Cons.IH by (cases e) (auto split: option.splits)
qed simp

text \<open>Marking one member sweeps the expired entries and disturbs no live one.\<close>

lemma reached_after_mark:
  assumes "table m" and "now \<le> later_on"
  shows "seen_reached k later_on (markReached x now m) \<longleftrightarrow>
     (if k = x then tsub later_on now < applySeenTTL else seen_reached k later_on m)"
proof -
  have mono: "tsub later_on t < applySeenTTL \<Longrightarrow> tsub now t < applySeenTTL" for t
    using tsub_mono [OF assms(2), of t] by linarith
  have live: "map_of (filter (\<lambda>e. \<not> applySeenTTL \<le> tsub now (snd e)) m) k =
      (case map_of m k of None \<Rightarrow> None | Some v \<Rightarrow> if tsub now v < applySeenTTL then Some v else None)"
    using map_of_filter_val [OF assms(1), of "\<lambda>t. \<not> applySeenTTL \<le> tsub now t" k] by (simp only: not_le)
  show ?thesis
    unfolding seen_reached_def markReached_def map_of_put fun_upd_apply live
    using mono by (auto split: option.splits)
qed

lemma forgotten: "k \<in> set ks \<Longrightarrow> \<not> seen_reached k now (forgetReached ks m)"
proof (induction ks arbitrary: m)
  case (Cons x ks)
  have keep: "map_of m k = None \<Longrightarrow> map_of (forgetReached ks m) k = None" for ks m
    by (induction ks arbitrary: m) (simp_all add: map_of_del)
  show ?case
  proof (cases "k \<in> set ks")
    case False
    then show ?thesis using Cons.prems keep [of "del x m" ks] by (simp add: seen_reached_def map_of_del)
  qed (simp add: Cons.IH)
qed simp

section \<open>Quiet hours\<close>

definition MaxQuietHours :: int where "MaxQuietHours = 12"

definition local_hour :: "zone \<Rightarrow> time \<Rightarrow> int" where "local_hour z t = lns z t mod day div hour"

text \<open>\<open>None\<close> is the zero time: deliver at once. The zone is the tenant's, or the display zone.\<close>

definition quietDefer :: "int \<Rightarrow> int \<Rightarrow> time \<Rightarrow> zone \<Rightarrow> time option" where
  "quietDefer qfrom quntil now z =
     (if qfrom = quntil \<or> qfrom < 0 \<or> 23 < qfrom \<or> quntil < 0 \<or> 23 < quntil then None
      else let quntil' = (if MaxQuietHours < ((quntil - qfrom) + 24) smod 24
               then (qfrom + MaxQuietHours) smod 24 else quntil);
             h = local_hour z now;
             inQuiet = (if qfrom < quntil' then qfrom \<le> h \<and> h < quntil' else qfrom \<le> h \<or> h < quntil');
             target = go_date z (localday z now * day + quntil' * hour)
        in if \<not> inQuiet then None
           else Some (if now < target then target else add_days z target 1))"


lemma quiet_until:
  assumes "qfrom \<noteq> quntil" and "0 \<le> qfrom" "qfrom \<le> 23" "0 \<le> quntil" "quntil \<le> 23"
  defines "u \<equiv> (if MaxQuietHours < ((quntil - qfrom) + 24) smod 24 then (qfrom + MaxQuietHours) smod 24 else quntil)"
  shows "0 \<le> u \<and> u \<le> 23 \<and> (if qfrom < u then u - qfrom \<le> 12 else u + 24 - qfrom \<le> 12)"
proof -
  have s1: "((quntil - qfrom) + 24) smod 24 = (if qfrom < quntil then quntil - qfrom else quntil - qfrom + 24)"
  proof -
    have "((quntil - qfrom) + 24) smod 24 = ((quntil - qfrom) + 24) mod 24"
      using assms(1-5) by (simp add: smod_int_alt_def abs_if)
    also have "\<dots> = (quntil - qfrom) mod 24" by simp
    also have "\<dots> = (if qfrom < quntil then quntil - qfrom else quntil - qfrom + 24)"
    proof (cases "qfrom < quntil")
      case False
      have "(quntil - qfrom) mod 24 = (quntil - qfrom + 24) mod 24" by simp
      also have "\<dots> = quntil - qfrom + 24" using False assms(1-5) by (intro mod_pos_pos_trivial) simp_all
      finally show ?thesis using False by simp
    qed (use assms(1-5) in simp)
    finally show ?thesis .
  qed
  have s2: "(qfrom + 12) smod 24 = (if qfrom < 12 then qfrom + 12 else qfrom - 12)"
  proof -
    have "(qfrom + 12) smod 24 = (qfrom + 12) mod 24"
      using assms(2) by (simp add: smod_int_alt_def abs_if)
    also have "\<dots> = (if qfrom < 12 then qfrom + 12 else qfrom - 12)"
    proof (cases "qfrom < 12")
      case False
      have "(qfrom + 12) mod 24 = (qfrom - 12 + 24) mod 24" by (rule arg_cong [where f = "\<lambda>x. x mod 24"]) simp
      also have "\<dots> = (qfrom - 12) mod 24" by (rule mod_add_self2)
      also have "\<dots> = qfrom - 12" using False assms(2,3) by (intro mod_pos_pos_trivial) simp_all
      finally show ?thesis using False by simp
    qed (use assms(2) in simp)
    finally show ?thesis .
  qed
  show ?thesis using assms(1-5) unfolding u_def MaxQuietHours_def s1 s2 by (auto split: if_splits)
qed

text \<open>quiet hours hold a message for at most half a day, whatever window is stored: a message inside the
  window is released on the hour within twelve hours, where no clock change falls on that day.\<close>

theorem quiet_hours_hold_at_most_half_a_day:
  assumes "\<And>s. \<bar>s - now\<bar> \<le> 4 * day \<Longrightarrow> zoff z s = c" and "\<bar>c\<bar> \<le> day"
    and "quietDefer qfrom quntil now z = Some t"
  shows "now < t \<and> t \<le> now + MaxQuietHours * hour \<and> lns z t mod hour = 0"
proof -
  define u where "u = (if MaxQuietHours < ((quntil - qfrom) + 24) smod 24 then (qfrom + MaxQuietHours) smod 24 else quntil)"
  define L where "L = localday z now * day"
  define d where "d = lns z now mod day"
  define h where "h = d div hour"
  have rng: "qfrom \<noteq> quntil" "0 \<le> qfrom" "qfrom \<le> 23" "0 \<le> quntil" "quntil \<le> 23"
    using assms(3) by (auto simp: quietDefer_def split: if_splits)
  note u = quiet_until [OF rng, folded u_def]
  define U where "U = u * hour"
  have inq: "if qfrom < u then qfrom \<le> h \<and> h < u else qfrom \<le> h \<or> h < u"
    and t: "t = (if now < go_date z (L + U) then go_date z (L + U)
                 else add_days z (go_date z (L + U)) 1)"
    using assms(3) rng by (auto simp: quietDefer_def Let_def u_def U_def L_def d_def h_def local_hour_def split: if_splits)
  have now: "now = L + d - c" using assms(1) [of now] day_pos(1) by (simp add: L_def d_def localday_def lns_def)
  have d: "0 \<le> d" "d < 24 * hour" by (simp_all add: d_def) (metis day_def day_pos(1) pos_mod_bound)
  have day: "day = 24 * hour" and hp: "0 < hour" by (simp_all add: day_def)
  have uh: "0 \<le> U" "U \<le> 23 * hour" unfolding U_def 
  proof -
    have "0 \<le> u" "u \<le> 23" using u by simp_all
    moreover have "0 \<le> hour" using hp by (rule less_imp_le)
    ultimately have "0 \<le> u * hour \<and> u * hour \<le> 23 * hour"
      by (intro conjI mult_nonneg_nonneg mult_right_mono)
    then show "0 \<le> u * hour" "u * hour \<le> 23 * hour" by blast+
  qed
  have g: "go_date z l = l - c" if "\<bar>l - (now + c)\<bar> \<le> 2 * day" for l
    using assms(1) [of l] assms(1) [of "l - c"] that assms(2) by (auto simp: go_date_def)
  have g1: "go_date z (L + U) = L + U - c"
    using uh d by (intro g) (simp add: now day)
  have z1: "zoff z (L + U - c) = c" using uh d assms(2) by (intro assms(1)) (simp add: now day)
  have g2: "add_days z (L + U - c) 1 = L + U + day - c"
    using uh d by (simp add: add_days_def lns_def z1) (intro g, simp add: now day)
  have z2: "zoff z (L + U + day - c) = c" using uh d assms(2) by (intro assms(1)) (simp add: now day)
  have "h * hour + d mod hour = d" unfolding h_def by (rule div_mult_mod_eq)
  moreover have "0 \<le> d mod hour" "d mod hour < hour" using hp by simp_all
  ultimately have hd: "h * hour \<le> d" "d < (h + 1) * hour" unfolding distrib_right mult_1 by linarith+
  have h0: "0 \<le> h" unfolding h_def using d(1) hp by (simp add: pos_imp_zdiv_nonneg_iff)
  have mono: "a * hour \<le> b * hour" if "a \<le> b" for a b :: int using that hp by simp
  have Lm: "(L + U) mod hour = 0" "(L + U + day) mod hour = 0"
    unfolding L_def U_def day by (simp_all add: mod_eq_0_iff_dvd)
  show ?thesis
  proof (cases "d < U")
    case True
    then have "t = L + U - c" by (simp add: t g1 now)
    moreover have "h < u" using mono [of u h] True hd(1) unfolding U_def by linarith
    then have "u \<le> h + 12" using inq u h0 rng(3) by (cases "qfrom < u") simp_all
    from mono [OF this] have "U - d \<le> 12 * hour" using hd(1) unfolding U_def distrib_right by linarith
    ultimately show ?thesis using True Lm z1 by (simp add: now MaxQuietHours_def lns_def mod_add_left_eq)
  next
    case False
    then have "t = L + U + day - c" by (simp add: t g1 g2 now)
    moreover have "u \<le> h" using mono [of "h + 1" u] False hd(2) unfolding U_def by linarith
    then have "u + 12 \<le> h" using \<open>u \<le> h\<close> inq u by (cases "qfrom < u") simp_all
    from mono [OF this] have "U + day - d \<le> 12 * hour" using hd(1) unfolding U_def day distrib_right by linarith
    ultimately show ?thesis using d uh Lm z2 by (simp add: now day MaxQuietHours_def lns_def mod_add_left_eq)
  qed
qed

lemma quiet_hours_hold_at_most_half_a_day_witness:
  "1749132000000000000 < (1749157200000000000 :: time)
   \<and> 1749157200000000000 \<le> (1749132000000000000 :: time) + MaxQuietHours * hour
   \<and> lns (fixed_zone 36000) 1749157200000000000 mod hour = 0"
  by (rule quiet_hours_hold_at_most_half_a_day [where c = 36000000000000 and qfrom = 22 and quntil = 7])
    (simp_all add: zoff_def fixed_zone_def time_simps, code_simp)


text \<open>The bound needs the hypothesis. West of Greenwich, when the window ends in the hour a spring change
  skips, \<open>time.Date\<close> names an instant before the message, the code adds a day, and a window of four hours
  holds the message for twenty-two and a half.\<close>

definition new_york_2025 :: zone where
  "new_york_2025 s = (if s < 1741503600 then - 18000 else - 14400)"

lemma quiet_hours_across_a_gap:
  "quietDefer 22 2 1741501800000000000 new_york_2025 = Some (1741501800000000000 + 22 * hour + 30 * minute)"
  by code_simp

end
