(* ===== verification/Outbox.thy ===== *)
theory Outbox
  imports Suppression Calendar
begin

text \<open>
  The durable outbox: its table (internal/store/notify.go) and the worker that drains it
  (internal/notify/outbox.go, with the e-mail choke point of send.go). The mail server, the push server and
  the failures of statements are the record \<open>post\<close>, read at the number of the attempt, so that every
  attempt may go differently. What leaves the process is kept in \<open>pf_wire\<close>, newest first, with the row it
  is about. \<open>pf_unrecorded\<close> is the bookkeeping the store refused. The clock stands still within a pass.
\<close>

section \<open>The table\<close>

datatype row_status = RowPending | RowSent | RowDead

record outbox_row =
  ob_ID :: int
  ob_Account :: string
  ob_DedupKey :: string
  ob_Recipients :: string
  ob_NtfyTopic :: string
  ob_NtfyPriority :: string
  ob_NtfyTag :: string
  ob_Subject :: string
  ob_Body :: string
  ob_Status :: row_status
  ob_Attempts :: int
  ob_NextAttempt :: time
  ob_LastError :: string
  ob_CreatedAt :: time
  ob_SentAt :: "time option"
  ob_Reason :: string
  ob_Critical :: bool
  ob_HeroPlate :: string
  ob_HeroColor :: string
  ob_HeroCaption :: string

record outbox_item =
  oi_ID :: int
  oi_Account :: string
  oi_DedupKey :: string
  oi_Recipients :: "string list"
  oi_NtfyTopic :: string
  oi_NtfyPriority :: string
  oi_NtfyTag :: string
  oi_Subject :: string
  oi_Body :: string
  oi_Attempts :: int
  oi_NotBefore :: time
  oi_Reason :: string
  oi_Critical :: bool
  oi_HeroPlate :: string
  oi_HeroColor :: string
  oi_HeroCaption :: string

definition dedupKeyPrefix :: string where "dedupKeyPrefix = ''h1:''"

text \<open>\<open>sha\<close> is the hexadecimal SHA-256 digest, a parameter.\<close>

definition HashDedupKey :: "(string \<Rightarrow> string) \<Rightarrow> string \<Rightarrow> string" where
  "HashDedupKey sha key =
     (if key = [] then [] else if has_prefix key dedupKeyPrefix then key else dedupKeyPrefix @ sha key)"

definition outboxDedupWindow :: dur where "outboxDedupWindow = 15 * minute"

definition in_flight :: "string \<Rightarrow> time \<Rightarrow> outbox_row \<Rightarrow> bool" where
  "in_flight key now r \<longleftrightarrow> ob_DedupKey r = key
     \<and> (ob_Status r = RowPending
        \<or> (ob_Status r = RowSent
           \<and> (case ob_SentAt r of None \<Rightarrow> False | Some t \<Rightarrow> whole_seconds (now - outboxDedupWindow) < t)))"

text \<open>One statement: the guard and the insert. \<open>n\<close> is the next value of the row counter, which
  AUTOINCREMENT never hands out twice.\<close>

definition EnqueueOutbox ::
  "(string \<Rightarrow> string) \<Rightarrow> outbox_item \<Rightarrow> time \<Rightarrow> outbox_row list \<times> int \<Rightarrow> outbox_row list \<times> int" where
  "EnqueueOutbox sha it now rs =
     (case rs of (rows, n) \<Rightarrow>
      let key = HashDedupKey sha (oi_DedupKey it) in
      if key \<noteq> [] \<and> list_ex (in_flight key now) rows then (rows, n)
      else (rows @ [\<lparr>ob_ID = n, ob_Account = oi_Account it, ob_DedupKey = key,
               ob_Recipients = join_with [CHR 0x0A] (oi_Recipients it), ob_NtfyTopic = oi_NtfyTopic it,
               ob_NtfyPriority = oi_NtfyPriority it, ob_NtfyTag = oi_NtfyTag it, ob_Subject = oi_Subject it,
               ob_Body = oi_Body it, ob_Status = RowPending, ob_Attempts = 0,
               ob_NextAttempt = whole_seconds (if \<not> is_zero (oi_NotBefore it) \<and> now < oi_NotBefore it
                  then oi_NotBefore it else now),
               ob_LastError = [], ob_CreatedAt = whole_seconds now, ob_SentAt = None, ob_Reason = oi_Reason it,
               ob_Critical = oi_Critical it, ob_HeroPlate = oi_HeroPlate it, ob_HeroColor = oi_HeroColor it,
               ob_HeroCaption = oi_HeroCaption it\<rparr>], n + 1))"

definition item_of :: "outbox_row \<Rightarrow> outbox_item" where
  "item_of r = \<lparr>oi_ID = ob_ID r, oi_Account = [], oi_DedupKey = ob_DedupKey r,
     oi_Recipients = (if ob_Recipients r = [] then [] else split_on (CHR 0x0A) (ob_Recipients r)),
     oi_NtfyTopic = ob_NtfyTopic r, oi_NtfyPriority = ob_NtfyPriority r, oi_NtfyTag = ob_NtfyTag r,
     oi_Subject = ob_Subject r, oi_Body = ob_Body r, oi_Attempts = ob_Attempts r, oi_NotBefore = zero_time,
     oi_Reason = ob_Reason r, oi_Critical = ob_Critical r, oi_HeroPlate = ob_HeroPlate r,
     oi_HeroColor = ob_HeroColor r, oi_HeroCaption = ob_HeroCaption r\<rparr>"

definition row_due :: "time \<Rightarrow> outbox_row \<Rightarrow> bool" where
  "row_due now r \<longleftrightarrow> ob_Status r = RowPending \<and> ob_NextAttempt r \<le> whole_seconds now"

definition DueOutbox :: "time \<Rightarrow> nat \<Rightarrow> outbox_row list \<Rightarrow> outbox_item list" where
  "DueOutbox now limit rows = map item_of (take limit (sort_key ob_ID (filter (row_due now) rows)))"

definition on_row :: "int \<Rightarrow> (outbox_row \<Rightarrow> outbox_row) \<Rightarrow> outbox_row list \<Rightarrow> outbox_row list" where
  "on_row i f rows = map (\<lambda>r. if ob_ID r = i then f r else r) rows"

definition stripped :: "outbox_row \<Rightarrow> outbox_row" where
  "stripped r = r\<lparr>ob_Recipients := [], ob_Subject := [], ob_Body := [], ob_NtfyTopic := [], ob_Reason := []\<rparr>"

definition MarkOutboxSent :: "int \<Rightarrow> time \<Rightarrow> outbox_row list \<Rightarrow> outbox_row list" where
  "MarkOutboxSent i now =
     on_row i (\<lambda>r. stripped (r\<lparr>ob_Status := RowSent, ob_SentAt := Some (whole_seconds now), ob_LastError := []\<rparr>))"

definition RescheduleOutbox :: "int \<Rightarrow> int \<Rightarrow> time \<Rightarrow> string \<Rightarrow> outbox_row list \<Rightarrow> outbox_row list" where
  "RescheduleOutbox i attempts nxt lastErr =
     on_row i (\<lambda>r. r\<lparr>ob_Attempts := attempts, ob_NextAttempt := whole_seconds nxt, ob_LastError := lastErr\<rparr>)"

definition MarkOutboxDead :: "int \<Rightarrow> string \<Rightarrow> outbox_row list \<Rightarrow> outbox_row list" where
  "MarkOutboxDead i lastErr =
     on_row i (\<lambda>r. stripped (r\<lparr>ob_Status := RowDead, ob_Attempts := ob_Attempts r + 1, ob_LastError := lastErr\<rparr>))"

definition PurgeSentOutbox :: "time \<Rightarrow> outbox_row list \<Rightarrow> outbox_row list" where
  "PurgeSentOutbox cutoff rows =
     filter (\<lambda>r. \<not> ((ob_Status r = RowSent
          \<and> (case ob_SentAt r of None \<Rightarrow> False | Some t \<Rightarrow> t < whole_seconds cutoff))
        \<or> (ob_Status r = RowDead \<and> ob_CreatedAt r < whole_seconds cutoff))) rows"

section \<open>The worker\<close>

definition outboxMaxAttempts :: int where "outboxMaxAttempts = 8"
definition outboxBatch :: nat where "outboxBatch = 50"
definition maxUnrecorded :: nat where "maxUnrecorded = 256"

datatype smtp_class = BadAddress | Permanent | Transient

record smtp_err =
  se_text :: string
  se_class :: smtp_class

text \<open>\<open>ErrBadAddress\<close> wraps \<open>ErrPermanent\<close>.\<close>

definition is_permanent :: "smtp_err \<Rightarrow> bool" where "is_permanent e \<longleftrightarrow> se_class e \<noteq> Transient"

datatype send_end = SendOK | SendSuppressed string | SendFailed smtp_err

datatype wire_event = MailTo int string bool | PushTo int bool | AdminMail string bool | AdminPush string bool

datatype settling = SettleSent | SettleDead | SettleRetry

record outbox_update =
  ou_status :: settling
  ou_attempts :: int
  ou_next :: time
  ou_lastErr :: string
  ou_who :: string
  ou_why :: string

record post =
  po_mail :: bool
  po_base :: bool
  po_adminMail :: bool
  po_adminTopic :: bool
  po_send :: "nat \<Rightarrow> smtp_err option"
  po_push :: "nat \<Rightarrow> string option"
  po_lookupFails :: "nat \<Rightarrow> string \<Rightarrow> bool"
  po_suppressFails :: "nat \<Rightarrow> bool"
  po_refuse :: "nat \<Rightarrow> bool"
  po_stop :: "nat \<Rightarrow> bool"
  po_dueFails :: bool

record post_office =
  pf_rows :: "outbox_row list"
  pf_nextID :: int
  pf_supp :: "suppression list"
  pf_unrecorded :: "(int \<times> outbox_update) list"
  pf_lastWriteAlert :: time
  pf_lastDeadAlert :: time
  pf_deadSinceAlert :: int
  pf_wire :: "wire_event list"
  pf_writes :: nat

definition sent_count :: "post_office \<Rightarrow> nat" where "sent_count s = length (pf_wire s)"

definition on_wire :: "wire_event \<Rightarrow> post_office \<Rightarrow> post_office" where
  "on_wire e s = s\<lparr>pf_wire := e # pf_wire s\<rparr>"

definition NotifyAdmin :: "post \<Rightarrow> string \<Rightarrow> post_office \<Rightarrow> post_office" where
  "NotifyAdmin po subject s =
     (let s1 = (if po_adminMail po \<and> po_mail po
                then on_wire (AdminMail subject (po_send po (sent_count s) = None)) s else s)
      in if po_adminTopic po \<and> po_base po
         then on_wire (AdminPush subject (po_push po (sent_count s1) = None)) s1 else s1)"

definition transmit :: "post \<Rightarrow> int \<Rightarrow> string \<Rightarrow> time \<Rightarrow> post_office \<Rightarrow> post_office \<times> send_end" where
  "transmit po i addr now s =
     (case po_send po (sent_count s) of
        None \<Rightarrow> (on_wire (MailTo i addr True) s, SendOK)
      | Some e \<Rightarrow>
          (let s1 = on_wire (MailTo i addr False) s in
           (if se_class e = BadAddress \<and> \<not> po_suppressFails po (sent_count s)
            then s1\<lparr>pf_supp := SuppressAddress addr SuppressBounce (se_text e) now (pf_supp s1)\<rparr> else s1,
            SendFailed e)))"

definition sendEmailWith ::
  "post \<Rightarrow> int \<Rightarrow> string \<Rightarrow> bool \<Rightarrow> time \<Rightarrow> post_office \<Rightarrow> post_office \<times> send_end" where
  "sendEmailWith po i addr critical now s =
     (if \<not> po_mail po then (s, SendOK)
      else if po_lookupFails po (sent_count s) addr then transmit po i addr now s
      else (case IsSuppressed addr (pf_supp s) of
          None \<Rightarrow> transmit po i addr now s
        | Some why \<Rightarrow> if critical \<and> why = SuppressUnsubscribed then transmit po i addr now s
            else (s, SendSuppressed why)))"

text \<open>What the loop over the recipients gathers.\<close>

record tally =
  ty_errs :: "string list"
  ty_allPermanent :: bool
  ty_targets :: nat
  ty_ok :: bool

primrec mail_loop ::
  "post \<Rightarrow> outbox_item \<Rightarrow> time \<Rightarrow> string list \<Rightarrow> post_office \<times> tally \<Rightarrow> post_office \<times> tally" where
  "mail_loop po it now [] st = st"
| "mail_loop po it now (addr # as) st =
     (case st of (s, t) \<Rightarrow>
      (case sendEmailWith po (oi_ID it) addr (oi_Critical it) now s of
         (s', SendSuppressed why) \<Rightarrow> mail_loop po it now as (s', t)
       | (s', SendOK) \<Rightarrow> mail_loop po it now as (s', t\<lparr>ty_targets := ty_targets t + 1, ty_ok := True\<rparr>)
       | (s', SendFailed e) \<Rightarrow> mail_loop po it now as
           (s', t\<lparr>ty_targets := ty_targets t + 1,
                  ty_errs := ty_errs t @ [''email '' @ redact_Email addr @ '': '' @ redact_InText (se_text e) [addr]],
                  ty_allPermanent := ty_allPermanent t \<and> is_permanent e\<rparr>)))"

definition no_tally :: tally where
  "no_tally = \<lparr>ty_errs = [], ty_allPermanent = True, ty_targets = 0, ty_ok = False\<rparr>"

definition mixed_item :: "outbox_item \<Rightarrow> bool" where
  "mixed_item it \<longleftrightarrow> oi_Recipients it \<noteq> [] \<and> oi_NtfyTopic it \<noteq> []"

text \<open>The push of a row: whether one was made and whether it was accepted.\<close>

definition push_row ::
  "post \<Rightarrow> outbox_item \<Rightarrow> post_office \<times> tally \<Rightarrow> (post_office \<times> tally) \<times> bool \<times> bool" where
  "push_row po it st =
     (case st of (s, t) \<Rightarrow>
      if oi_NtfyTopic it \<noteq> [] \<and> po_base po \<and> \<not> (mixed_item it \<and> 0 < oi_Attempts it)
      then (case po_push po (sent_count s) of
          None \<Rightarrow> ((on_wire (PushTo (oi_ID it) True) s, t), True, True)
        | Some e \<Rightarrow> ((on_wire (PushTo (oi_ID it) False) s,
            t\<lparr>ty_errs := ty_errs t @ [''ntfy: '' @ e], ty_allPermanent := False\<rparr>), True, False))
      else (st, False, False))"

definition deliver :: "post \<Rightarrow> outbox_item \<Rightarrow> time \<Rightarrow> post_office \<Rightarrow> post_office \<times> string \<times> bool" where
  "deliver po it now s =
     (let st = (if po_mail po then mail_loop po it now (oi_Recipients it) (s, no_tally) else (s, no_tally)) in
      (case push_row po it st of ((s', t), pushed, pushOK) \<Rightarrow>
        (s', if (if 0 < ty_targets t then ty_ok t else if pushed then pushOK else True) then ([], False)
             else (join_with ''; '' (ty_errs t), ty_allPermanent t \<and> ty_errs t \<noteq> []))))"

fun backoff_from :: "nat \<Rightarrow> dur \<Rightarrow> dur" where
  "backoff_from 0 d = d"
| "backoff_from (Suc n) d = (if 3 * hour < 3 * d then 3 * hour else backoff_from n (3 * d))"

definition outboxBackoff :: "int \<Rightarrow> dur" where "outboxBackoff attempts = backoff_from (nat (attempts - 1)) minute"

definition outboxTarget :: "outbox_item \<Rightarrow> string" where
  "outboxTarget it = (if oi_Recipients it \<noteq> [] then redact_Emails (oi_Recipients it)
     else if oi_NtfyTopic it \<noteq> [] then ''a push topic'' else ''(none)'')"

definition settlement :: "outbox_item \<Rightarrow> string \<Rightarrow> bool \<Rightarrow> time \<Rightarrow> outbox_update" where
  "settlement it lastErr permanent now =
     (let attempts = oi_Attempts it + 1;
          u = \<lparr>ou_status = SettleSent, ou_attempts = 0, ou_next = zero_time, ou_lastErr = [],
               ou_who = outboxTarget it, ou_why = []\<rparr>
      in if lastErr = [] then u
         else if permanent \<or> outboxMaxAttempts \<le> attempts
         then u\<lparr>ou_status := SettleDead, ou_attempts := attempts, ou_lastErr := lastErr,
                ou_why := (if permanent then ''permanently refused''
                           else ''after '' @ show_int attempts @ '' attempts'')\<rparr>
         else u\<lparr>ou_status := SettleRetry, ou_attempts := attempts, ou_lastErr := lastErr,
                ou_next := now + outboxBackoff attempts\<rparr>)"

definition announceDead :: "post \<Rightarrow> time \<Rightarrow> post_office \<Rightarrow> post_office" where
  "announceDead po now s =
     (let s1 = s\<lparr>pf_deadSinceAlert := pf_deadSinceAlert s + 1\<rparr> in
      if tsub now (pf_lastDeadAlert s1) < hour then s1
      else NotifyAdmin po ''Notification undeliverable (gave up)''
             (s1\<lparr>pf_lastDeadAlert := now, pf_deadSinceAlert := 0\<rparr>))"

definition park :: "post \<Rightarrow> int \<Rightarrow> outbox_update \<Rightarrow> time \<Rightarrow> post_office \<Rightarrow> post_office" where
  "park po i u now s =
     (let s1 = (if length (pf_unrecorded s) < maxUnrecorded
                then s\<lparr>pf_unrecorded := put i u (pf_unrecorded s)\<rparr> else s) in
      if hour < tsub now (pf_lastWriteAlert s1)
      then NotifyAdmin po ''Notification outbox cannot be written'' (s1\<lparr>pf_lastWriteAlert := now\<rparr>) else s1)"

definition apply_update :: "int \<Rightarrow> outbox_update \<Rightarrow> time \<Rightarrow> outbox_row list \<Rightarrow> outbox_row list" where
  "apply_update i u now rows =
     (case ou_status u of
        SettleSent \<Rightarrow> MarkOutboxSent i now rows
      | SettleDead \<Rightarrow> MarkOutboxDead i (ou_lastErr u) rows
      | SettleRetry \<Rightarrow> RescheduleOutbox i (ou_attempts u) (ou_next u) (ou_lastErr u) rows)"

definition record_row :: "post \<Rightarrow> int \<Rightarrow> outbox_update \<Rightarrow> time \<Rightarrow> post_office \<Rightarrow> post_office \<times> bool" where
  "record_row po i u now s =
     (let s1 = s\<lparr>pf_writes := pf_writes s + 1\<rparr> in
      if po_refuse po (pf_writes s) then (park po i u now s1, False)
      else (let s2 = s1\<lparr>pf_rows := apply_update i u now (pf_rows s1), pf_unrecorded := del i (pf_unrecorded s1)\<rparr>
            in (if ou_status u = SettleDead then announceDead po now s2 else s2, True)))"

primrec flush_loop ::
  "post \<Rightarrow> time \<Rightarrow> (int \<times> outbox_update) list \<Rightarrow> post_office \<Rightarrow> post_office \<times> bool" where
  "flush_loop po now [] s = (s, True)"
| "flush_loop po now (e # es) s =
     (if po_stop po (pf_writes s) then (s, False)
      else (case record_row po (fst e) (snd e) now s of
          (s', False) \<Rightarrow> (s', False)
        | (s', True) \<Rightarrow> flush_loop po now es s'))"

definition flushUnrecorded :: "post \<Rightarrow> time \<Rightarrow> post_office \<Rightarrow> post_office \<times> bool" where
  "flushUnrecorded po now s = flush_loop po now (pf_unrecorded s) s"

primrec drain_loop :: "post \<Rightarrow> time \<Rightarrow> outbox_item list \<Rightarrow> post_office \<Rightarrow> post_office" where
  "drain_loop po now [] s = s"
| "drain_loop po now (it # its) s =
     (if po_stop po (pf_writes s) then s
      else if map_of (pf_unrecorded s) (oi_ID it) \<noteq> None then drain_loop po now its s
      else (case deliver po it now s of
          (s1, lastErr, permanent) \<Rightarrow>
            (case record_row po (oi_ID it) (settlement it lastErr permanent now) now s1 of
               (s2, False) \<Rightarrow> s2
             | (s2, True) \<Rightarrow> drain_loop po now its s2)))"

definition drainOutbox :: "post \<Rightarrow> time \<Rightarrow> post_office \<Rightarrow> post_office" where
  "drainOutbox po now s =
     (case flushUnrecorded po now s of
        (s1, False) \<Rightarrow> s1
      | (s1, True) \<Rightarrow> if po_dueFails po then s1
          else drain_loop po now (DueOutbox now outboxBatch (pf_rows s1)) s1)"

text \<open>Queueing a composed message: one row for each recipient and one for the push topic. The state is
  the table with its counter; \<open>fails\<close> says which of the inserts the store refuses, and the result is
  the number of them.\<close>

definition target_item :: "outbox_item \<Rightarrow> string \<Rightarrow> outbox_item" where
  "target_item m r = m\<lparr>oi_Recipients := [r], oi_NtfyTopic := [],
     oi_DedupKey := (if oi_DedupKey m = [] then [] else oi_DedupKey m @ ''|email|'' @ r)\<rparr>"

definition push_item :: "outbox_item \<Rightarrow> outbox_item" where
  "push_item m = m\<lparr>oi_Recipients := [], oi_DedupKey := (if oi_DedupKey m = [] then [] else oi_DedupKey m @ ''|ntfy'')\<rparr>"

definition split_items :: "outbox_item \<Rightarrow> outbox_item list" where
  "split_items m = map (target_item m) (oi_Recipients m) @ (if oi_NtfyTopic m = [] then [] else [push_item m])"

primrec enqueue_all ::
  "(string \<Rightarrow> string) \<Rightarrow> (nat \<Rightarrow> bool) \<Rightarrow> time \<Rightarrow> outbox_item list \<Rightarrow> outbox_row list \<times> int \<Rightarrow> (outbox_row list \<times> int) \<times> nat" where
  "enqueue_all sha fails now [] rs = (rs, 0)"
| "enqueue_all sha fails now (it # its) rs =
     (if fails (length its) then (case enqueue_all sha fails now its rs of (rs', n) \<Rightarrow> (rs', n + 1))
      else enqueue_all sha fails now its (EnqueueOutbox sha it now rs))"

definition enqueueSplit ::
  "(string \<Rightarrow> string) \<Rightarrow> (nat \<Rightarrow> bool) \<Rightarrow> outbox_item \<Rightarrow> time \<Rightarrow> outbox_row list \<times> int \<Rightarrow> (outbox_row list \<times> int) \<times> nat" where
  "enqueueSplit sha fails m now rs = enqueue_all sha fails now (split_items m) rs"


section \<open>What one operation does\<close>

named_theorems post_simps \<open>what an operation of the worker leaves alone\<close>

primrec row_of :: "wire_event \<Rightarrow> int option" where
  "row_of (MailTo i a ok) = Some i"
| "row_of (PushTo i ok) = Some i"
| "row_of (AdminMail sub ok) = None"
| "row_of (AdminPush sub ok) = None"

text \<open>The wire without the operator's alerts.\<close>

definition row_wire :: "post_office \<Rightarrow> wire_event list" where
  "row_wire s = filter (\<lambda>e. row_of e \<noteq> None) (pf_wire s)"

lemma row_wire_on_wire [simp]:
  "row_wire (on_wire e s) = (if row_of e = None then row_wire s else e # row_wire s)"
  by (simp add: row_wire_def on_wire_def)

lemma on_wire_frame [post_simps]:
  "pf_rows (on_wire e s) = pf_rows s" "pf_nextID (on_wire e s) = pf_nextID s"
  "pf_unrecorded (on_wire e s) = pf_unrecorded s" "pf_writes (on_wire e s) = pf_writes s"
  by (simp_all add: on_wire_def)

lemma row_wire_update [post_simps]:
  "row_wire (s\<lparr>pf_rows := a\<rparr>) = row_wire s" "row_wire (s\<lparr>pf_supp := b\<rparr>) = row_wire s"
  "row_wire (s\<lparr>pf_unrecorded := c\<rparr>) = row_wire s" "row_wire (s\<lparr>pf_lastWriteAlert := d\<rparr>) = row_wire s"
  "row_wire (s\<lparr>pf_lastDeadAlert := d\<rparr>) = row_wire s" "row_wire (s\<lparr>pf_deadSinceAlert := n\<rparr>) = row_wire s"
  "row_wire (s\<lparr>pf_writes := w\<rparr>) = row_wire s" "row_wire (s\<lparr>pf_nextID := n\<rparr>) = row_wire s"
  by (simp_all add: row_wire_def)

lemma NotifyAdmin_frame [post_simps]:
  "pf_rows (NotifyAdmin po sub s) = pf_rows s" "pf_nextID (NotifyAdmin po sub s) = pf_nextID s"
  "pf_unrecorded (NotifyAdmin po sub s) = pf_unrecorded s" "row_wire (NotifyAdmin po sub s) = row_wire s"
  by (simp_all add: NotifyAdmin_def Let_def post_simps)

lemma announceDead_frame [post_simps]:
  "pf_rows (announceDead po now s) = pf_rows s" "pf_nextID (announceDead po now s) = pf_nextID s"
  "pf_unrecorded (announceDead po now s) = pf_unrecorded s" "row_wire (announceDead po now s) = row_wire s"
  by (simp_all add: announceDead_def Let_def post_simps)

lemma park_frame [post_simps]:
  "pf_rows (park po i u now s) = pf_rows s" "pf_nextID (park po i u now s) = pf_nextID s"
  "row_wire (park po i u now s) = row_wire s"
  "pf_unrecorded (park po i u now s) =
     (if length (pf_unrecorded s) < maxUnrecorded then put i u (pf_unrecorded s) else pf_unrecorded s)"
  by (simp_all add: park_def Let_def post_simps)

lemma record_row_frame:
  assumes "record_row po i u now s = (s', ok)"
  shows "pf_nextID s' = pf_nextID s" and "row_wire s' = row_wire s"
    and "pf_rows s' = (if ok then apply_update i u now (pf_rows s) else pf_rows s)"
    and "pf_unrecorded s' = (if ok then del i (pf_unrecorded s)
       else if length (pf_unrecorded s) < maxUnrecorded then put i u (pf_unrecorded s) else pf_unrecorded s)"
  using assms by (auto simp: record_row_def Let_def post_simps split: if_splits)

lemma transmit_effect:
  assumes "transmit po i a now s = (s', r)"
  shows "pf_rows s' = pf_rows s" and "pf_nextID s' = pf_nextID s" and "pf_unrecorded s' = pf_unrecorded s"
    and "row_wire s' = MailTo i a (r = SendOK) # row_wire s" and "\<not> (\<exists>why. r = SendSuppressed why)"
  using assms by (auto simp: transmit_def Let_def post_simps split: option.splits if_splits)

lemma sendEmailWith_effect:
  assumes "sendEmailWith po i a c now s = (s', r)" and "po_mail po"
  shows "pf_rows s' = pf_rows s \<and> pf_nextID s' = pf_nextID s \<and> pf_unrecorded s' = pf_unrecorded s
    \<and> row_wire s' = (case r of SendSuppressed why \<Rightarrow> [] | _ \<Rightarrow> [MailTo i a (r = SendOK)]) @ row_wire s"
proof (cases "\<exists>why. r = SendSuppressed why")
  case True
  then show ?thesis
    using assms transmit_effect(5) [of po i a now s s' r]
    by (auto simp: sendEmailWith_def split: if_splits option.splits)
next
  case False
  then have "transmit po i a now s = (s', r)"
    using assms by (auto simp: sendEmailWith_def split: if_splits option.splits)
  then show ?thesis using transmit_effect [of po i a now s s' r] by (cases r) auto
qed

text \<open>The loop over the recipients: its events, and that the tally counts them.\<close>

lemma mail_loop_effect:
  assumes "mail_loop po it now as (s, t) = (s', t')" and "po_mail po"
  shows "pf_rows s' = pf_rows s \<and> pf_nextID s' = pf_nextID s \<and> pf_unrecorded s' = pf_unrecorded s
    \<and> (\<exists>new. row_wire s' = new @ row_wire s \<and> (\<forall>e \<in> set new. \<exists>a ok. a \<in> set as \<and> e = MailTo (oi_ID it) a ok)
         \<and> ty_targets t' = ty_targets t + length new
         \<and> (ty_ok t' \<longleftrightarrow> ty_ok t \<or> (\<exists>a. MailTo (oi_ID it) a True \<in> set new))
         \<and> length (ty_errs t') + length (filter (\<lambda>e. \<exists>a. e = MailTo (oi_ID it) a True) new) = length (ty_errs t) + length new)"
  using assms(1)
proof (induction as arbitrary: s t)
  case (Cons a as)
  obtain s1 r where r: "sendEmailWith po (oi_ID it) a (oi_Critical it) now s = (s1, r)" by (metis surj_pair)
  note eff = sendEmailWith_effect [OF r assms(2)]
  obtain t1 where step: "mail_loop po it now as (s1, t1) = (s', t')"
    and t1: "t1 = (case r of SendSuppressed why \<Rightarrow> t | SendOK \<Rightarrow> t\<lparr>ty_targets := ty_targets t + 1, ty_ok := True\<rparr>
       | SendFailed e \<Rightarrow> t\<lparr>ty_targets := ty_targets t + 1,
                  ty_errs := ty_errs t @ [''email '' @ redact_Email a @ '': '' @ redact_InText (se_text e) [a]],
                  ty_allPermanent := ty_allPermanent t \<and> is_permanent e\<rparr>)"
    using Cons.prems r by (cases r) auto
  from Cons.IH [OF step] obtain new where new: "row_wire s' = new @ row_wire s1"
      "\<forall>e \<in> set new. \<exists>a ok. a \<in> set as \<and> e = MailTo (oi_ID it) a ok"
      "ty_targets t' = ty_targets t1 + length new"
      "ty_ok t' \<longleftrightarrow> ty_ok t1 \<or> (\<exists>a. MailTo (oi_ID it) a True \<in> set new)"
      "length (ty_errs t') + length (filter (\<lambda>e. \<exists>a. e = MailTo (oi_ID it) a True) new) = length (ty_errs t1) + length new"
      "pf_rows s' = pf_rows s1" "pf_nextID s' = pf_nextID s1" "pf_unrecorded s' = pf_unrecorded s1" by blast
  show ?case
  proof (cases r)
    case SendOK
    then show ?thesis using new eff t1 by (intro conjI exI [of _ "new @ [MailTo (oi_ID it) a True]"]) auto
  next
    case (SendSuppressed why)
    then show ?thesis using new eff t1 by (intro conjI exI [of _ new]) auto
  next
    case (SendFailed e)
    then show ?thesis using new eff t1 by (intro conjI exI [of _ "new @ [MailTo (oi_ID it) a False]"]) auto
  qed
qed (auto intro: exI [of _ "[]"])

lemma mail_loop_errs:
  assumes "mail_loop po it now as (s, t) = (s', t')" and "\<forall>x \<in> set (ty_errs t). x \<noteq> []"
  shows "\<forall>x \<in> set (ty_errs t'). x \<noteq> []"
  using assms
proof (induction as arbitrary: s t)
  case (Cons a as)
  obtain s1 r where r: "sendEmailWith po (oi_ID it) a (oi_Critical it) now s = (s1, r)" by (metis surj_pair)
  obtain t1 where step: "mail_loop po it now as (s1, t1) = (s', t')" and t1: "\<forall>x \<in> set (ty_errs t1). x \<noteq> []"
  proof (cases r)
    case (SendFailed e)
    have "mail_loop po it now as (s1, t\<lparr>ty_targets := ty_targets t + 1,
        ty_errs := ty_errs t @ [''email '' @ redact_Email a @ '': '' @ redact_InText (se_text e) [a]],
        ty_allPermanent := ty_allPermanent t \<and> is_permanent e\<rparr>) = (s', t')"
      using Cons.prems(1) r SendFailed by (simp del: redact_InText.simps)
    then show ?thesis by (rule that) (use Cons.prems(2) in auto)
  qed (use Cons.prems r that in auto)
  show ?case by (rule Cons.IH [OF step t1])
qed simp

lemma join_with_eq_Nil: "(\<And>x. x \<in> set xs \<Longrightarrow> x \<noteq> []) \<Longrightarrow> join_with sep xs = [] \<longleftrightarrow> xs = []"
  by (cases xs) (auto simp: join_with_def)

lemma mail_phase:
  assumes "(if po_mail po then mail_loop po it now (oi_Recipients it) (s, no_tally) else (s, no_tally)) = (s1, t1)"
  shows "pf_rows s1 = pf_rows s \<and> pf_nextID s1 = pf_nextID s \<and> pf_unrecorded s1 = pf_unrecorded s \<and>
    (\<exists>ms. row_wire s1 = ms @ row_wire s
         \<and> (\<forall>e \<in> set ms. \<exists>a ok. a \<in> set (oi_Recipients it) \<and> e = MailTo (oi_ID it) a ok)
         \<and> ty_targets t1 = length ms \<and> (ty_ok t1 \<longleftrightarrow> (\<exists>a. MailTo (oi_ID it) a True \<in> set ms))
         \<and> (ms \<noteq> [] \<longrightarrow> \<not> ty_ok t1 \<longrightarrow> ty_errs t1 \<noteq> []) \<and> (\<forall>x \<in> set (ty_errs t1). x \<noteq> []))"
proof (cases "po_mail po")
  case False
  then show ?thesis
    using assms by (auto simp: no_tally_def)
next
  case True
  then have ml: "mail_loop po it now (oi_Recipients it) (s, no_tally) = (s1, t1)" using assms by simp
  note ml_eff = mail_loop_effect [OF ml True]
  then obtain ms where ms: "row_wire s1 = ms @ row_wire s"
      "\<forall>e \<in> set ms. \<exists>a ok. a \<in> set (oi_Recipients it) \<and> e = MailTo (oi_ID it) a ok"
      "ty_targets t1 = length ms" "ty_ok t1 \<longleftrightarrow> (\<exists>a. MailTo (oi_ID it) a True \<in> set ms)"
      "length (ty_errs t1) + length (filter (\<lambda>e. \<exists>a. e = MailTo (oi_ID it) a True) ms) = length ms"
    by (auto simp: no_tally_def)
  have "filter (\<lambda>e. \<exists>a. e = MailTo (oi_ID it) a True) ms = []" if "\<not> ty_ok t1"
    using that ms(4) by (auto simp: filter_empty_conv)
  then have "ms \<noteq> [] \<longrightarrow> \<not> ty_ok t1 \<longrightarrow> ty_errs t1 \<noteq> []" using ms(5) by auto
  moreover have "\<forall>x \<in> set (ty_errs t1). x \<noteq> []" by (rule mail_loop_errs [OF ml]) (simp add: no_tally_def)
  ultimately show ?thesis
    using ml_eff ms(1-4) by blast
qed

text \<open>What the events \<open>new\<close> of a round with result \<open>err\<close> look like: an accepted e-mail settles the row, a
  push is made at most once for a row that has both channels, and success is never claimed over a failed
  channel.\<close>

definition round_events :: "outbox_item \<Rightarrow> string \<Rightarrow> wire_event list \<Rightarrow> bool" where
  "round_events it err new \<longleftrightarrow>
     (\<forall>e \<in> set new. row_of e = Some (oi_ID it))
     \<and> ((\<exists>a. MailTo (oi_ID it) a True \<in> set new) \<longrightarrow> err = [])
     \<and> (PushTo (oi_ID it) True \<in> set new \<longrightarrow> err = [] \<or> mixed_item it)
     \<and> ((\<exists>ok. PushTo (oi_ID it) ok \<in> set new) \<longrightarrow> \<not> (mixed_item it \<and> 0 < oi_Attempts it))
     \<and> (err = [] \<longrightarrow> new = [] \<or> (\<exists>a. MailTo (oi_ID it) a True \<in> set new)
          \<or> (\<not> (\<exists>a ok. MailTo (oi_ID it) a ok \<in> set new) \<and> PushTo (oi_ID it) True \<in> set new))"

lemma deliver_effect:
  assumes "deliver po it now s = (s', err, perm)"
  shows "pf_rows s' = pf_rows s" and "pf_nextID s' = pf_nextID s" and "pf_unrecorded s' = pf_unrecorded s"
    and "\<exists>new. row_wire s' = new @ row_wire s \<and> round_events it err new"
proof -
  obtain s1 t1 where st: "(if po_mail po then mail_loop po it now (oi_Recipients it) (s, no_tally) else (s, no_tally)) = (s1, t1)"
    by (metis surj_pair)
  have frame: "pf_rows s1 = pf_rows s" "pf_nextID s1 = pf_nextID s" "pf_unrecorded s1 = pf_unrecorded s"
    using mail_phase [OF st] by blast+
  obtain ms where ms: "row_wire s1 = ms @ row_wire s"
      "\<forall>e \<in> set ms. \<exists>a ok. a \<in> set (oi_Recipients it) \<and> e = MailTo (oi_ID it) a ok"
      "ty_targets t1 = length ms" "ty_ok t1 \<longleftrightarrow> (\<exists>a. MailTo (oi_ID it) a True \<in> set ms)"
      "ms \<noteq> [] \<longrightarrow> \<not> ty_ok t1 \<longrightarrow> ty_errs t1 \<noteq> []" "\<forall>x \<in> set (ty_errs t1). x \<noteq> []"
    using mail_phase [OF st] by blast
  have join: "join_with sep (ty_errs t1) = [] \<longleftrightarrow> ty_errs t1 = []" for sep using ms(6) by (intro join_with_eq_Nil) blast
  have join': "join_with sep (ty_errs t1 @ [''ntfy: '' @ e]) \<noteq> []" for sep e
    using join_with_eq_Nil [of "ty_errs t1 @ [''ntfy: '' @ e]" sep] ms(6) by auto
  have rec: "ms \<noteq> [] \<Longrightarrow> oi_Recipients it \<noteq> []" using ms(2) by (cases ms) auto
  have mails: "\<forall>e \<in> set ms. row_of e = Some (oi_ID it)" "\<And>i ok. PushTo i ok \<notin> set ms" using ms(2) by auto
  have okm: "ty_ok t1 \<Longrightarrow> ms \<noteq> []" using ms(4) by auto
  note unfold = deliver_def Let_def st push_row_def prod.case
  show "pf_rows s' = pf_rows s" "pf_nextID s' = pf_nextID s" "pf_unrecorded s' = pf_unrecorded s"
    using assms frame unfolding unfold by (auto simp: post_simps split: if_splits option.splits)
  show "\<exists>new. row_wire s' = new @ row_wire s \<and> round_events it err new"
  proof (cases "oi_NtfyTopic it \<noteq> [] \<and> po_base po \<and> \<not> (mixed_item it \<and> 0 < oi_Attempts it)")
    case push: True
    show ?thesis
    proof (cases "po_push po (sent_count s1)")
      case None
      then have "s' = on_wire (PushTo (oi_ID it) True) s1" "err = [] \<longleftrightarrow> ms = [] \<or> ty_ok t1"
        using assms push ms(3,5) join unfolding unfold by (auto split: if_splits)
      then show ?thesis using ms(1,4) mails push rec
        by (intro exI [of _ "PushTo (oi_ID it) True # ms"]) (auto simp: round_events_def mixed_item_def)
    next
      case (Some e)
      then have "s' = on_wire (PushTo (oi_ID it) False) s1" "err = [] \<longleftrightarrow> ty_ok t1"
        using assms push ms(3) okm join' unfolding unfold by (auto split: if_splits)
      then show ?thesis using ms(1,4) mails push
        by (intro exI [of _ "PushTo (oi_ID it) False # ms"]) (auto simp: round_events_def)
    qed
  next
    case False
    then have "s' = s1" "err = [] \<longleftrightarrow> ms = [] \<or> ty_ok t1"
      using assms ms(3,5) join unfolding unfold by (auto split: if_splits)
    then show ?thesis using ms(1,4) mails by (intro exI [of _ ms]) (auto simp: round_events_def)
  qed
qed


section \<open>The invariant\<close>

definition accepted_mail :: "int \<Rightarrow> post_office \<Rightarrow> bool" where
  "accepted_mail i s \<longleftrightarrow> (\<exists>a. MailTo i a True \<in> set (row_wire s))"

definition accepted_push :: "int \<Rightarrow> post_office \<Rightarrow> bool" where
  "accepted_push i s \<longleftrightarrow> PushTo i True \<in> set (row_wire s)"

text \<open>A pending row that was already accepted is only waiting for its bookkeeping; a push that was accepted
  may also belong to a row with both channels that has had its first attempt.\<close>

definition row_safe :: "post_office \<Rightarrow> outbox_row \<Rightarrow> bool" where
  "row_safe s r \<longleftrightarrow> (ob_Status r = RowPending \<longrightarrow>
     (accepted_mail (ob_ID r) s \<longrightarrow>
        (\<exists>u. map_of (pf_unrecorded s) (ob_ID r) = Some u \<and> ou_status u = SettleSent))
     \<and> (accepted_push (ob_ID r) s \<longrightarrow>
        (\<exists>u. map_of (pf_unrecorded s) (ob_ID r) = Some u \<and> ou_status u \<noteq> SettleRetry)
        \<or> (mixed_item (item_of r) \<and> (0 < ob_Attempts r \<or> map_of (pf_unrecorded s) (ob_ID r) \<noteq> None))))"

definition blank :: "outbox_row \<Rightarrow> bool" where
  "blank r \<longleftrightarrow> ob_Recipients r = [] \<and> ob_Subject r = [] \<and> ob_Body r = [] \<and> ob_NtfyTopic r = [] \<and> ob_Reason r = []"

definition row_ok :: "outbox_row \<Rightarrow> bool" where
  "row_ok r \<longleftrightarrow> 0 \<le> ob_Attempts r
     \<and> (if ob_Status r = RowPending then ob_Attempts r < outboxMaxAttempts else blank r)"

definition keys_apart :: "outbox_row list \<Rightarrow> bool" where
  "keys_apart rows \<longleftrightarrow> (\<forall>r \<in> set rows. \<forall>r' \<in> set rows. ob_Status r = RowPending \<longrightarrow> ob_Status r' = RowPending
     \<longrightarrow> ob_DedupKey r = ob_DedupKey r' \<longrightarrow> ob_DedupKey r \<noteq> [] \<longrightarrow> ob_ID r = ob_ID r')"

definition table_ok :: "outbox_row list \<Rightarrow> int \<Rightarrow> bool" where
  "table_ok rows n \<longleftrightarrow> distinct (map ob_ID rows) \<and> (\<forall>r \<in> set rows. ob_ID r < n \<and> row_ok r) \<and> keys_apart rows"

definition update_ok :: "outbox_update \<Rightarrow> bool" where
  "update_ok u \<longleftrightarrow> (ou_status u = SettleRetry \<longrightarrow> 0 < ou_attempts u \<and> ou_attempts u < outboxMaxAttempts)"

definition post_inv :: "post_office \<Rightarrow> bool" where
  "post_inv s \<longleftrightarrow> table_ok (pf_rows s) (pf_nextID s)
     \<and> (\<forall>e \<in> set (row_wire s). \<forall>i. row_of e = Some i \<longrightarrow> i < pf_nextID s)
     \<and> length (pf_unrecorded s) \<le> 1 \<and> (\<forall>e \<in> set (pf_unrecorded s). fst e < pf_nextID s \<and> update_ok (snd e))
     \<and> (\<forall>r \<in> set (pf_rows s). row_safe s r)"

lemma on_row_ids: "(\<And>r. ob_ID (f r) = ob_ID r) \<Longrightarrow> map ob_ID (on_row i f rows) = map ob_ID rows"
  by (simp add: on_row_def)

lemma in_on_row: "r \<in> set (on_row i f rows) \<longleftrightarrow> (\<exists>q \<in> set rows. r = (if ob_ID q = i then f q else q))"
  by (simp only: on_row_def set_map image_iff)

definition updated :: "outbox_update \<Rightarrow> time \<Rightarrow> outbox_row \<Rightarrow> outbox_row" where
  "updated u now r = (case ou_status u of
     SettleSent \<Rightarrow> stripped (r\<lparr>ob_Status := RowSent, ob_SentAt := Some (whole_seconds now), ob_LastError := []\<rparr>)
   | SettleDead \<Rightarrow> stripped (r\<lparr>ob_Status := RowDead, ob_Attempts := ob_Attempts r + 1, ob_LastError := ou_lastErr u\<rparr>)
   | SettleRetry \<Rightarrow> r\<lparr>ob_Attempts := ou_attempts u, ob_NextAttempt := whole_seconds (ou_next u), ob_LastError := ou_lastErr u\<rparr>)"

lemma apply_update_on_row: "apply_update i u now rows = on_row i (updated u now) rows"
  by (cases "ou_status u")
    (simp_all add: apply_update_def updated_def [abs_def] MarkOutboxSent_def MarkOutboxDead_def RescheduleOutbox_def)

lemma updated_simps [simp]:
  "ob_ID (updated u now r) = ob_ID r" "ob_DedupKey (updated u now r) = ob_DedupKey r"
  "ob_Status (updated u now r) = (case ou_status u of SettleSent \<Rightarrow> RowSent | SettleDead \<Rightarrow> RowDead | SettleRetry \<Rightarrow> ob_Status r)"
  by (simp_all add: updated_def stripped_def split: settling.split)

lemma updated_retry:
  "ou_status u = SettleRetry \<Longrightarrow> ob_Attempts (updated u now r) = ou_attempts u
     \<and> mixed_item (item_of (updated u now r)) = mixed_item (item_of r)"
  by (simp add: updated_def mixed_item_def item_of_def)

lemma updated_row_ok: "row_ok r \<Longrightarrow> update_ok u \<Longrightarrow> row_ok (updated u now r)"
  by (cases "ou_status u") (auto simp: row_ok_def updated_def stripped_def blank_def update_ok_def)

lemma updated_origin:
  "r \<in> set (on_row i (updated u now) rows) \<Longrightarrow> \<exists>q \<in> set rows. r = (if ob_ID q = i then updated u now q else q)
     \<and> ob_ID r = ob_ID q \<and> ob_DedupKey r = ob_DedupKey q \<and> (ob_Status r = RowPending \<longrightarrow> ob_Status q = RowPending)"
  unfolding in_on_row by (cases "ou_status u") auto

lemma table_ok_update:
  assumes "table_ok rows n" and "update_ok u"
  shows "table_ok (apply_update i u now rows) n"
proof -
  let ?rows = "on_row i (updated u now) rows"
  have "row_ok r \<and> ob_ID r < n" if "r \<in> set ?rows" for r
    using that assms by (auto simp: in_on_row table_ok_def updated_row_ok)
  moreover have "keys_apart ?rows"
    unfolding keys_apart_def
  proof (intro ballI impI)
    fix r r'
    assume in_rows: "r \<in> set ?rows" "r' \<in> set ?rows" and p: "ob_Status r = RowPending" "ob_Status r' = RowPending"
      and k: "ob_DedupKey r = ob_DedupKey r'" "ob_DedupKey r \<noteq> []"
    then show "ob_ID r = ob_ID r'"
      using updated_origin [OF in_rows(1)] updated_origin [OF in_rows(2)] assms(1)
      unfolding table_ok_def keys_apart_def by metis
  qed
  ultimately show ?thesis
    using assms(1) by (simp add: apply_update_on_row table_ok_def on_row_ids)
qed

text \<open>The end of a round: the events of the delivery, then the bookkeeping, accepted or parked.\<close>

lemma settlement_ok:
  assumes "0 \<le> oi_Attempts it"
  shows "update_ok (settlement it err perm now)"
    and "ou_status (settlement it err perm now) = SettleSent \<longleftrightarrow> err = []"
    and "ou_status (settlement it err perm now) = SettleRetry \<Longrightarrow> ou_attempts (settlement it err perm now) = oi_Attempts it + 1"
  using assms by (auto simp: settlement_def Let_def update_ok_def)

lemma accepted_new:
  assumes "row_wire s' = new @ row_wire s" and "round_events it err new"
  shows "accepted_mail i s' \<longleftrightarrow> accepted_mail i s \<or> (i = oi_ID it \<and> (\<exists>a. MailTo i a True \<in> set new))"
    and "accepted_push i s' \<longleftrightarrow> accepted_push i s \<or> (i = oi_ID it \<and> PushTo i True \<in> set new)"
  using assms unfolding accepted_mail_def accepted_push_def round_events_def by fastforce+

lemma put_nil [simp]: "put i u [] = [(i, u)]"
  by (simp add: put_def del_def)

lemma round_inv:
  assumes inv: "post_inv s" and free: "pf_unrecorded s = []"
    and r: "r \<in> set (pf_rows s)" "ob_Status r = RowPending" and it: "it = item_of r"
    and d: "deliver po it now s = (s1, err, perm)"
    and rec: "record_row po (oi_ID it) (settlement it err perm now) now s1 = (s2, ok)"
  shows "post_inv s2" and "ok \<Longrightarrow> pf_unrecorded s2 = []"
    and "ok \<Longrightarrow> q \<in> set (pf_rows s) \<Longrightarrow> ob_ID q \<noteq> ob_ID r \<Longrightarrow> q \<in> set (pf_rows s2)"
    and "\<exists>new. row_wire s2 = new @ row_wire s \<and> round_events it err new"
proof -
  let ?u = "settlement it err perm now"
  have id: "oi_ID it = ob_ID r" "oi_Attempts it = ob_Attempts r" by (simp_all add: it item_of_def)
  have tab: "table_ok (pf_rows s) (pf_nextID s)" using inv by (simp add: post_inv_def)
  then have att: "0 \<le> oi_Attempts it" using r(1) id by (auto simp: table_ok_def row_ok_def)
  note u = settlement_ok [OF att, of err perm now]
  note f1 = deliver_effect(1-3) [OF d]
  obtain new where new: "row_wire s1 = new @ row_wire s" "round_events it err new"
    using deliver_effect(4) [OF d] by blast
  note f2 = record_row_frame [OF rec]
  have unrec: "pf_unrecorded s2 = (if ok then [] else [(ob_ID r, ?u)])"
    using f2(4) f1(3) free id by (simp add: maxUnrecorded_def del_def)
  have rows: "pf_rows s2 = (if ok then on_row (ob_ID r) (updated ?u now) (pf_rows s) else pf_rows s)"
    using f2(3) f1(1) id by (simp add: apply_update_on_row)
  have wire: "row_wire s2 = new @ row_wire s" using f2(2) new(1) by simp
  note acc = accepted_new [OF wire new(2), unfolded id]
  show "ok \<Longrightarrow> pf_unrecorded s2 = []" by (simp add: unrec)
  show "\<exists>new. row_wire s2 = new @ row_wire s \<and> round_events it err new" using wire new(2) by blast
  show "ok \<Longrightarrow> q \<in> set (pf_rows s) \<Longrightarrow> ob_ID q \<noteq> ob_ID r \<Longrightarrow> q \<in> set (pf_rows s2)"
    unfolding rows by (auto simp: in_on_row intro: bexI [of _ q])
  have table: "table_ok (pf_rows s2) (pf_nextID s2)"
    using table_ok_update [OF tab u(1), of "ob_ID r" now] tab f1(2) f2(1)
    by (simp add: rows apply_update_on_row)
  have same_row: "q = r" if "q \<in> set (pf_rows s)" "ob_ID q = ob_ID r" for q
    using tab that r(1) by (auto simp: table_ok_def distinct_map inj_on_def)
  have safe0: "row_safe s q" if "q \<in> set (pf_rows s)" for q using inv that by (simp add: post_inv_def)
  have other: "row_safe s2 q" if "q \<in> set (pf_rows s)" "ob_ID q \<noteq> ob_ID r" for q
    using safe0 [OF that(1)] that(2) by (auto simp: row_safe_def acc unrec free)
  have push_ok: "accepted_push (ob_ID r) s2 \<Longrightarrow> err = [] \<or> mixed_item it"
    and mail_ok: "accepted_mail (ob_ID r) s2 \<Longrightarrow> err = []"
    using safe0 [OF r(1)] r(2) new(2) by (auto simp: acc row_safe_def free round_events_def id it)
  have "row_safe s2 q" if "q \<in> set (pf_rows s2)" for q
  proof (cases ok)
    case False
    then show ?thesis
      using that other same_row [of q] push_ok mail_ok u(2) by (auto simp: rows row_safe_def unrec it)
  next
    case True
    then have "q \<in> set (on_row (ob_ID r) (updated ?u now) (pf_rows s))" using that by (simp add: rows)
    then obtain p where p: "p \<in> set (pf_rows s)" "q = (if ob_ID p = ob_ID r then updated ?u now p else p)"
      unfolding in_on_row by blast
    show ?thesis
    proof (cases "ob_ID p = ob_ID r")
      case False
      then show ?thesis using p other by simp
    next
      case eq: True
      then have p_r: "p = r" and q: "q = updated ?u now r" using p same_row by auto
      show ?thesis
      proof (cases "ou_status ?u = SettleRetry")
        case retry: True
        then have "err \<noteq> []" using u(2) by auto
        then show ?thesis
          using push_ok mail_ok retry u(3) att updated_retry [OF retry, of now r]
          by (auto simp: row_safe_def q it)
      qed (cases "ou_status ?u", auto simp: row_safe_def q)
    qed
  qed
  moreover have "\<forall>e \<in> set (row_wire s2). \<forall>i. row_of e = Some i \<longrightarrow> i < pf_nextID s2"
    using inv new(2) r(1) tab f1(2) f2(1) id by (auto simp: wire post_inv_def round_events_def table_ok_def)
  ultimately show "post_inv s2"
    using table u(1) r(1) tab f1(2) f2(1) by (auto simp: post_inv_def unrec table_ok_def)
qed


section \<open>A pass, and everything else that touches the outbox\<close>

text \<open>Nothing that was accepted in \<open>s\<close> is attempted again by what took \<open>s\<close> to \<open>s'\<close>.\<close>

definition no_repeat :: "post_office \<Rightarrow> post_office \<Rightarrow> bool" where
  "no_repeat s s' \<longleftrightarrow> (\<exists>new. row_wire s' = new @ row_wire s
     \<and> (\<forall>e \<in> set new. \<forall>i. row_of e = Some i \<longrightarrow> \<not> accepted_mail i s)
     \<and> (\<forall>i ok. PushTo i ok \<in> set new \<longrightarrow> \<not> accepted_push i s))"

lemma no_repeat_refl: "row_wire s' = row_wire s \<Longrightarrow> no_repeat s s'"
  by (simp add: no_repeat_def)

lemma no_repeat_trans:
  assumes "no_repeat s s1" and "no_repeat s1 s2"
  shows "no_repeat s s2"
proof -
  obtain new new' where n: "row_wire s1 = new @ row_wire s" "row_wire s2 = new' @ row_wire s1"
      "\<forall>e \<in> set new. \<forall>i. row_of e = Some i \<longrightarrow> \<not> accepted_mail i s" "\<forall>i ok. PushTo i ok \<in> set new \<longrightarrow> \<not> accepted_push i s"
      "\<forall>e \<in> set new'. \<forall>i. row_of e = Some i \<longrightarrow> \<not> accepted_mail i s1" "\<forall>i ok. PushTo i ok \<in> set new' \<longrightarrow> \<not> accepted_push i s1"
    using assms unfolding no_repeat_def by blast
  then have "row_wire s2 = (new' @ new) @ row_wire s" by simp
  moreover have "accepted_mail i s \<Longrightarrow> accepted_mail i s1" "accepted_push i s \<Longrightarrow> accepted_push i s1" for i
    using n(1) by (auto simp: accepted_mail_def accepted_push_def)
  ultimately show ?thesis
    using n(3-6) unfolding no_repeat_def by (intro exI [of _ "new' @ new"]) auto
qed

lemma round_no_repeat:
  assumes "post_inv s" and "pf_unrecorded s = []" and "r \<in> set (pf_rows s)" "ob_Status r = RowPending"
    and "row_wire s' = new @ row_wire s" and "round_events (item_of r) err new"
  shows "no_repeat s s'"
proof -
  have "\<not> accepted_mail (ob_ID r) s" "accepted_push (ob_ID r) s \<longrightarrow> mixed_item (item_of r) \<and> 0 < oi_Attempts (item_of r)"
    using assms(1-4) by (auto simp: post_inv_def row_safe_def item_of_def)
  then show ?thesis using assms(5,6) unfolding no_repeat_def
    by (intro exI [of _ new]) (auto simp: round_events_def item_of_def)
qed

lemma drain_loop_inv:
  assumes "post_inv s" and "pf_unrecorded s = []" and "distinct (map oi_ID its)"
    and "\<forall>it \<in> set its. \<exists>r \<in> set (pf_rows s). ob_Status r = RowPending \<and> it = item_of r"
  shows "post_inv (drain_loop po now its s) \<and> no_repeat s (drain_loop po now its s)"
  using assms
proof (induction its arbitrary: s)
  case (Cons it its)
  obtain r where r: "r \<in> set (pf_rows s)" "ob_Status r = RowPending" "it = item_of r" using Cons.prems(4) by auto
  obtain s1 err perm where d: "deliver po it now s = (s1, err, perm)" by (metis surj_pair)
  obtain s2 ok where rec: "record_row po (oi_ID it) (settlement it err perm now) now s1 = (s2, ok)" by (metis surj_pair)
  note ri = round_inv [OF Cons.prems(1,2) r d rec]
  have nr: "no_repeat s s2"
    using ri(4) r(3) by (auto intro: round_no_repeat [OF Cons.prems(1,2) r(1,2)])
  show ?case
  proof (cases "po_stop po (pf_writes s) \<or> \<not> ok")
    case True
    then show ?thesis using Cons.prems(1,2) d rec ri(1) nr by (auto intro: no_repeat_refl)
  next
    case False
    have rest: "\<exists>q \<in> set (pf_rows s2). ob_Status q = RowPending \<and> it' = item_of q" if it': "it' \<in> set its" for it'
    proof -
      obtain q where q: "q \<in> set (pf_rows s)" "ob_Status q = RowPending" "it' = item_of q"
        using Cons.prems(4) it' by auto
      have "oi_ID it' \<noteq> oi_ID it" using Cons.prems(3) it' by (auto simp: image_iff)
      then have "ob_ID q \<noteq> ob_ID r" by (simp add: q(3) r(3) item_of_def)
      then show ?thesis using ri(3) False q by blast
    qed
    have "post_inv (drain_loop po now its s2) \<and> no_repeat s2 (drain_loop po now its s2)"
      using Cons.prems(3) False rest by (intro Cons.IH ri(1,2)) auto
    then show ?thesis using False Cons.prems(2) d rec nr by (auto intro: no_repeat_trans)
  qed
qed (simp add: no_repeat_refl)

lemma record_owed_inv:
  assumes inv: "post_inv s" and owed: "pf_unrecorded s = [(i, u)]" and rec: "record_row po i u now s = (s', ok)"
  shows "post_inv s' \<and> row_wire s' = row_wire s \<and> (ok \<longrightarrow> pf_unrecorded s' = [])"
proof -
  note f = record_row_frame [OF rec]
  have u: "update_ok u" and tab: "table_ok (pf_rows s) (pf_nextID s)" using inv owed by (auto simp: post_inv_def)
  have unrec: "pf_unrecorded s' = (if ok then [] else [(i, u)])"
    using f(4) owed by (auto simp: del_def maxUnrecorded_def put_def)
  have safe0: "row_safe s q" if "q \<in> set (pf_rows s)" for q using inv that by (simp add: post_inv_def)
  have acc: "accepted_mail j s' = accepted_mail j s" "accepted_push j s' = accepted_push j s" for j
    using f(2) by (simp_all add: accepted_mail_def accepted_push_def)
  have "row_safe s' q" if q: "q \<in> set (pf_rows s')" for q
  proof (cases ok)
    case False
    then show ?thesis using safe0 [of q] q f(3) owed by (simp add: row_safe_def acc unrec)
  next
    case True
    then have "q \<in> set (on_row i (updated u now) (pf_rows s))" using q f(3) by (simp add: apply_update_on_row)
    then obtain p where p: "p \<in> set (pf_rows s)" "q = (if ob_ID p = i then updated u now p else p)"
      unfolding in_on_row by blast
    show ?thesis
    proof (cases "ob_ID p = i \<and> ou_status u = SettleRetry")
      case retry: True
      then show ?thesis
        using safe0 [OF p(1)] p(2) owed u updated_retry [of u now p]
        by (auto simp: row_safe_def acc update_ok_def)
    next
      case False
      then show ?thesis using safe0 [OF p(1)] p(2) owed True
        by (cases "ou_status u") (auto simp: row_safe_def acc unrec split: if_splits)
    qed
  qed
  moreover have "table_ok (pf_rows s') (pf_nextID s')"
    using table_ok_update [OF tab u] tab f(1,3) by simp
  ultimately show ?thesis using inv u f(1,2) owed by (auto simp: post_inv_def unrec)
qed

lemma owed_cases: "post_inv s \<Longrightarrow> pf_unrecorded s = [] \<or> (\<exists>i u. pf_unrecorded s = [(i, u)])"
  by (auto simp: post_inv_def le_Suc_eq length_Suc_conv)

lemma flush_inv:
  assumes "post_inv s" and "flushUnrecorded po now s = (s', ok)"
  shows "post_inv s' \<and> row_wire s' = row_wire s \<and> (ok \<longrightarrow> pf_unrecorded s' = [])"
proof (rule disjE [OF owed_cases [OF assms(1)]])
  assume "\<exists>i u. pf_unrecorded s = [(i, u)]"
  then obtain i u where owed: "pf_unrecorded s = [(i, u)]" by blast
  obtain s1 b where rec: "record_row po i u now s = (s1, b)" by (metis surj_pair)
  show ?thesis
    using record_owed_inv [OF assms(1) owed rec] assms owed rec
    by (auto simp: flushUnrecorded_def split: if_splits bool.splits)
qed (use assms in \<open>auto simp: flushUnrecorded_def\<close>)

lemma DueOutbox_items:
  assumes "distinct (map ob_ID rows)"
  shows "distinct (map oi_ID (DueOutbox now n rows))"
    and "\<forall>it \<in> set (DueOutbox now n rows). \<exists>r \<in> set rows. ob_Status r = RowPending \<and> it = item_of r"
proof -
  let ?due = "sort_key ob_ID (filter (row_due now) rows)"
  have "distinct (map ob_ID ?due)"
    using assms by (simp add: distinct_map inj_on_def)
  then have "distinct (map ob_ID (take n ?due))" by (simp flip: take_map)
  then show "distinct (map oi_ID (DueOutbox now n rows))"
    by (simp add: DueOutbox_def item_of_def comp_def)
  show "\<forall>it \<in> set (DueOutbox now n rows). \<exists>r \<in> set rows. ob_Status r = RowPending \<and> it = item_of r"
    by (auto simp: DueOutbox_def row_due_def dest!: in_set_takeD)
qed

lemma drain_inv:
  assumes "post_inv s"
  shows "post_inv (drainOutbox po now s) \<and> no_repeat s (drainOutbox po now s)"
proof -
  obtain s1 ok where fl: "flushUnrecorded po now s = (s1, ok)" by (metis surj_pair)
  note fi = flush_inv [OF assms fl]
  have ids: "distinct (map ob_ID (pf_rows s1))" using fi by (simp add: post_inv_def table_ok_def)
  have "post_inv (drain_loop po now (DueOutbox now outboxBatch (pf_rows s1)) s1)
      \<and> no_repeat s1 (drain_loop po now (DueOutbox now outboxBatch (pf_rows s1)) s1)" if ok
    using fi that DueOutbox_items [OF ids] by (intro drain_loop_inv) auto
  then show ?thesis
    using fl fi by (auto simp: drainOutbox_def intro: no_repeat_refl no_repeat_trans split: bool.splits)
qed

text \<open>What can happen to the outbox of one process: it starts on a table it did not write, with nothing sent
  and nothing owed; passes run, messages are queued, old rows are purged, rows are deleted with their
  account, the do-not-email list changes.\<close>

definition enqueue :: "(string \<Rightarrow> string) \<Rightarrow> outbox_item \<Rightarrow> time \<Rightarrow> post_office \<Rightarrow> post_office" where
  "enqueue sha it now s = (case EnqueueOutbox sha it now (pf_rows s, pf_nextID s) of
     (rows, n) \<Rightarrow> s\<lparr>pf_rows := rows, pf_nextID := n\<rparr>)"

inductive post_reach :: "post_office \<Rightarrow> bool" where
  start: "table_ok (pf_rows s) (pf_nextID s) \<Longrightarrow> pf_unrecorded s = [] \<Longrightarrow> pf_wire s = [] \<Longrightarrow> post_reach s"
| pass: "post_reach s \<Longrightarrow> post_reach (drainOutbox po now s)"
| queue: "post_reach s \<Longrightarrow> post_reach (enqueue sha it now s)"
| purge: "post_reach s \<Longrightarrow> post_reach (s\<lparr>pf_rows := PurgeSentOutbox cutoff (pf_rows s)\<rparr>)"
| forget: "post_reach s \<Longrightarrow> post_reach (s\<lparr>pf_rows := filter P (pf_rows s)\<rparr>)"
| listed: "post_reach s \<Longrightarrow> post_reach (s\<lparr>pf_supp := list_step e (pf_supp s)\<rparr>)"

lemma table_ok_filter: "table_ok rows n \<Longrightarrow> table_ok (filter P rows) n"
  by (auto simp: table_ok_def keys_apart_def distinct_map_filter)

lemma post_inv_filter: "post_inv s \<Longrightarrow> post_inv (s\<lparr>pf_rows := filter P (pf_rows s)\<rparr>)"
  by (auto simp: post_inv_def table_ok_filter post_simps row_safe_def accepted_mail_def accepted_push_def)

lemma HashDedupKey_nonempty: "HashDedupKey sha k = [] \<longleftrightarrow> k = []"
  by (simp add: HashDedupKey_def dedupKeyPrefix_def)

lemma enqueue_inv:
  assumes inv: "post_inv s"
  shows "post_inv (enqueue sha it now s)"
proof (cases "HashDedupKey sha (oi_DedupKey it) \<noteq> [] \<and> list_ex (in_flight (HashDedupKey sha (oi_DedupKey it)) now) (pf_rows s)")
  case True
  then have "enqueue sha it now s = s" by (simp add: enqueue_def EnqueueOutbox_def)
  then show ?thesis using inv by simp
next
  case False
  let ?key = "HashDedupKey sha (oi_DedupKey it)"
  obtain r where r: "enqueue sha it now s = s\<lparr>pf_rows := pf_rows s @ [r], pf_nextID := pf_nextID s + 1\<rparr>"
      "ob_ID r = pf_nextID s" "ob_DedupKey r = ?key" "ob_Status r = RowPending" "ob_Attempts r = 0"
    using False by (auto simp: enqueue_def EnqueueOutbox_def Let_def)
  have tab: "table_ok (pf_rows s) (pf_nextID s)" using inv by (simp add: post_inv_def)
  have free: "ob_DedupKey q \<noteq> ?key" if "q \<in> set (pf_rows s)" "ob_Status q = RowPending" "?key \<noteq> []" for q
    using False that by (auto simp: list_ex_iff in_flight_def)
  have "keys_apart (pf_rows s @ [r])"
    unfolding keys_apart_def
  proof (intro ballI impI)
    fix q q'
    assume q: "q \<in> set (pf_rows s @ [r])" "q' \<in> set (pf_rows s @ [r])" "ob_Status q = RowPending"
        "ob_Status q' = RowPending" "ob_DedupKey q = ob_DedupKey q'" "ob_DedupKey q \<noteq> []"
    then have "q \<in> set (pf_rows s) \<and> q' \<in> set (pf_rows s) \<or> q = r \<and> q' = r"
      using free [of q] free [of q'] r(3) by auto
    then show "ob_ID q = ob_ID q'" using tab q(3-6) by (auto simp: table_ok_def keys_apart_def)
  qed
  moreover have "row_ok r" by (simp add: row_ok_def r outboxMaxAttempts_def)
  moreover have "pf_nextID s \<notin> ob_ID ` set (pf_rows s)" using tab by (auto simp: table_ok_def)
  ultimately have "table_ok (pf_rows s @ [r]) (pf_nextID s + 1)"
    using tab r(2) by (auto simp: table_ok_def)
  moreover have "\<not> accepted_mail (pf_nextID s) s" "\<not> accepted_push (pf_nextID s) s"
    using inv by (fastforce simp: post_inv_def accepted_mail_def accepted_push_def)+
  ultimately show ?thesis
    using inv r(2) unfolding r(1)
    by (auto simp: post_inv_def post_simps row_safe_def accepted_mail_def accepted_push_def)
qed

lemma post_reach_inv: "post_reach s \<Longrightarrow> post_inv s"
proof (induction rule: post_reach.induct)
  case (start s)
  then show ?case by (simp add: post_inv_def row_wire_def row_safe_def accepted_mail_def accepted_push_def)
next
  case (purge s cutoff)
  show ?case unfolding PurgeSentOutbox_def by (rule post_inv_filter [OF purge.IH])
next
  case (listed s e)
  then show ?case by (simp add: post_inv_def post_simps row_safe_def accepted_mail_def accepted_push_def)
qed (simp_all add: drain_inv enqueue_inv post_inv_filter)

section \<open>What the outbox promises\<close>

text \<open>C18: in the lifetime of a process, a message that a mail server accepted is never attempted again, on any
  channel, and a push that was accepted is never pushed again, whatever the store refuses to record and
  whenever: a pass adds no event about such a row.\<close>

theorem accepted_messages_are_not_sent_again:
  assumes "post_reach s" and "pf_wire (drainOutbox po now s) = new @ pf_wire s"
  shows "(accepted_mail i s \<longrightarrow> MailTo i a ok \<notin> set new \<and> PushTo i ok \<notin> set new)
    \<and> (accepted_push i s \<longrightarrow> PushTo i ok \<notin> set new)"
proof -
  obtain evs where evs: "row_wire (drainOutbox po now s) = evs @ row_wire s"
      "\<forall>e \<in> set evs. \<forall>i. row_of e = Some i \<longrightarrow> \<not> accepted_mail i s" "\<forall>i ok. PushTo i ok \<in> set evs \<longrightarrow> \<not> accepted_push i s"
    using drain_inv [OF post_reach_inv [OF assms(1)]] unfolding no_repeat_def by blast
  have "evs = filter (\<lambda>e. row_of e \<noteq> None) new"
    using evs(1) assms(2) by (simp add: row_wire_def)
  then show ?thesis using evs(2,3) by fastforce
qed


text \<open>A table that starts empty, a mail server that accepts, and a store that refuses every write.\<close>

definition empty_office :: post_office where
  "empty_office = \<lparr>pf_rows = [], pf_nextID = 1, pf_supp = [], pf_unrecorded = [], pf_lastWriteAlert = zero_time,
     pf_lastDeadAlert = zero_time, pf_deadSinceAlert = 0, pf_wire = [], pf_writes = 0\<rparr>"

definition full_disk :: post where
  "full_disk = \<lparr>po_mail = True, po_base = True, po_adminMail = True, po_adminTopic = False, po_send = (\<lambda>_. None),
     po_push = (\<lambda>_. None), po_lookupFails = (\<lambda>_ _. False), po_suppressFails = (\<lambda>_. False),
     po_refuse = (\<lambda>_. True), po_stop = (\<lambda>_. False), po_dueFails = False\<rparr>"

definition a_notice :: outbox_item where
  "a_notice = \<lparr>oi_ID = 0, oi_Account = ''o@x'', oi_DedupKey = ''k'', oi_Recipients = [''o@x''], oi_NtfyTopic = [],
     oi_NtfyPriority = [], oi_NtfyTag = [], oi_Subject = ''s'', oi_Body = ''b'', oi_Attempts = 0,
     oi_NotBefore = zero_time, oi_Reason = [], oi_Critical = False, oi_HeroPlate = [], oi_HeroColor = [],
     oi_HeroCaption = []\<rparr>"

definition stuck_office :: post_office where
  "stuck_office = drainOutbox full_disk (5 * second) (enqueue (\<lambda>k. k) a_notice 0 empty_office)"

lemma stuck_reached: "post_reach stuck_office"
  unfolding stuck_office_def
  by (intro post_reach.pass post_reach.queue post_reach.start) (simp_all add: empty_office_def table_ok_def keys_apart_def)

lemma accepted_messages_are_not_sent_again_witness:
  "accepted_mail 1 stuck_office \<and> pf_wire (drainOutbox full_disk (20 * second) stuck_office) = [] @ pf_wire stuck_office
   \<and> MailTo 1 ''o@x'' True \<notin> set [] \<and> PushTo 1 True \<notin> set []"
proof -
  have acc: "MailTo 1 ''o@x'' True \<in> set (row_wire stuck_office)" by code_simp
  have same: "pf_wire (drainOutbox full_disk (20 * second) stuck_office) = [] @ pf_wire stuck_office" by code_simp
  show ?thesis
    using accepted_messages_are_not_sent_again [OF stuck_reached same, of 1 "''o@x''" True] acc
    unfolding accepted_mail_def by (intro conjI same) auto
qed

text \<open>while bookkeeping is owed and the store still refuses it, a pass sends nothing but the operator's
  alert: no mail, no push, no row changed, and the row stays parked.\<close>

theorem nothing_is_sent_while_bookkeeping_is_owed:
  assumes "post_reach s" and "pf_unrecorded s \<noteq> []" and "po_refuse po (pf_writes s)"
  shows "row_wire (drainOutbox po now s) = row_wire s \<and> pf_rows (drainOutbox po now s) = pf_rows s
    \<and> pf_unrecorded (drainOutbox po now s) = pf_unrecorded s"
proof -
  obtain i u where owed: "pf_unrecorded s = [(i, u)]"
    using owed_cases [OF post_reach_inv [OF assms(1)]] assms(2) by blast
  obtain s1 where rec: "record_row po i u now s = (s1, False)" using assms(3) by (simp add: record_row_def Let_def)
  then show ?thesis using record_row_frame [OF rec] owed
    by (simp add: drainOutbox_def flushUnrecorded_def maxUnrecorded_def put_def del_def)
qed

lemma nothing_is_sent_while_bookkeeping_is_owed_witness:
  "row_wire (drainOutbox full_disk (20 * second) stuck_office) = row_wire stuck_office
   \<and> pf_rows (drainOutbox full_disk (20 * second) stuck_office) = pf_rows stuck_office
   \<and> pf_unrecorded (drainOutbox full_disk (20 * second) stuck_office) = pf_unrecorded stuck_office"
  by (rule nothing_is_sent_while_bookkeeping_is_owed [OF stuck_reached]) (code_simp, simp add: full_disk_def)

text \<open>in every reachable state at most one row is parked, so the cap of 256 is never met; a pending row has
  had fewer than eight attempts; two pending rows with one dedup key are the same row; and a settled row
  has lost its recipients, topic, subject, body and reason.\<close>

theorem outbox_rows_stay_in_order:
  assumes "post_reach s" and "r \<in> set (pf_rows s)"
  shows "length (pf_unrecorded s) \<le> 1 \<and> 0 \<le> ob_Attempts r
    \<and> (if ob_Status r = RowPending then ob_Attempts r < outboxMaxAttempts
         \<and> filter (\<lambda>q. ob_Status q = RowPending \<and> ob_DedupKey q = ob_DedupKey r \<and> ob_DedupKey r \<noteq> []
              \<and> ob_ID q \<noteq> ob_ID r) (pf_rows s) = []
       else blank r)"
proof -
  have inv: "post_inv s" by (rule post_reach_inv [OF assms(1)])
  then have "row_ok r" "keys_apart (pf_rows s)" using assms(2) by (auto simp: post_inv_def table_ok_def)
  then show ?thesis
    using inv assms(2) unfolding row_ok_def keys_apart_def filter_empty_conv post_inv_def by auto
qed

lemma outbox_rows_stay_in_order_witness:
  "length (pf_unrecorded stuck_office) \<le> 1 \<and> ob_Attempts (hd (pf_rows stuck_office)) < outboxMaxAttempts"
proof -
  have "ob_Status (hd (pf_rows stuck_office)) = RowPending" "pf_rows stuck_office \<noteq> []" by code_simp+
  then show ?thesis using outbox_rows_stay_in_order [OF stuck_reached, of "hd (pf_rows stuck_office)"] by simp
qed

text \<open>a round reports success only for a reached row: some address accepted the mail, or no mail was
  attempted and the push was accepted, or there was nothing to send to. A push never hides a failed mail.\<close>

theorem success_is_never_claimed_over_a_failed_mail:
  assumes "deliver po it now s = (s', [], perm)"
  shows "row_wire s' = row_wire s \<or> (\<exists>a. MailTo (oi_ID it) a True \<in> set (take (length (row_wire s') - length (row_wire s)) (row_wire s')))
    \<or> (\<not> (\<exists>a ok. MailTo (oi_ID it) a ok \<in> set (take (length (row_wire s') - length (row_wire s)) (row_wire s')))
       \<and> PushTo (oi_ID it) True \<in> set (take (length (row_wire s') - length (row_wire s)) (row_wire s')))"
proof -
  obtain new where new: "row_wire s' = new @ row_wire s" "round_events it [] new" using deliver_effect(4) [OF assms] by blast
  then have "take (length (row_wire s') - length (row_wire s)) (row_wire s') = new" by simp
  then show ?thesis using new unfolding round_events_def by auto
qed

lemma success_is_never_claimed_over_a_failed_mail_witness:
  "row_wire (fst (deliver full_disk a_notice 0 empty_office)) = row_wire empty_office
   \<or> (\<exists>a. MailTo 0 a True \<in> set (take 1 (row_wire (fst (deliver full_disk a_notice 0 empty_office)))))
   \<or> (\<not> (\<exists>a ok. MailTo 0 a ok \<in> set (take 1 (row_wire (fst (deliver full_disk a_notice 0 empty_office)))))
       \<and> PushTo 0 True \<in> set (take 1 (row_wire (fst (deliver full_disk a_notice 0 empty_office)))))"
proof -
  have d: "deliver full_disk a_notice 0 empty_office = (fst (deliver full_disk a_notice 0 empty_office), [], False)"
    and l: "length (row_wire (fst (deliver full_disk a_notice 0 empty_office))) = 1" "row_wire empty_office = []"
    by code_simp+
  show ?thesis using success_is_never_claimed_over_a_failed_mail [OF d] l by (simp add: a_notice_def)
qed

subsection \<open>Backing off and splitting\<close>

lemma backoff_from_eq: "d \<le> 3 * hour \<Longrightarrow> 0 < d \<Longrightarrow> backoff_from n d = min (3 * hour) (3 ^ n * d)"
proof (induction n d rule: backoff_from.induct)
  case (2 n d)
  show ?case
  proof (cases "3 * hour < 3 * d")
    case True
    have "1 * (3 * d) \<le> 3 ^ n * (3 * d)" using 2(3) by (intro mult_right_mono) auto
    then show ?thesis using True by (simp add: min_def)
  qed (use 2 in \<open>simp add: mult.commute mult.left_commute\<close>)
qed simp

text \<open>The waits: a minute, then three times as long each time, never more than three hours.\<close>

lemma outboxBackoff_eq: "1 \<le> n \<Longrightarrow> outboxBackoff n = min (3 * hour) (3 ^ nat (n - 1) * minute)"
  by (simp add: outboxBackoff_def backoff_from_eq hour_def)

lemma outbox_waits: "map outboxBackoff [1, 2, 3, 4, 5, 6, 7] = map (\<lambda>m. m * minute) [1, 3, 9, 27, 81, 180, 180]"
  by code_simp

lemma split_on_none: "c \<notin> set a \<Longrightarrow> split_on c a = [a]"
  by (induction a) auto

lemma rows_of_enqueue_all:
  assumes "\<forall>r \<in> set rows. Q r" and "\<And>it n now key. it \<in> set its \<Longrightarrow> Q (last (fst (EnqueueOutbox sha it now ([], n))))"
  shows "\<forall>r \<in> set (fst (fst (enqueue_all sha fails now its (rows, n)))). Q r"
  using assms
proof (induction its arbitrary: rows n)
  case (Cons it its)
  obtain rows' n' where e: "EnqueueOutbox sha it now (rows, n) = (rows', n')" by (metis surj_pair)
  have "\<forall>r \<in> set rows'. Q r"
    using e Cons.prems(1) Cons.prems(2) [of it now n] by (auto simp: EnqueueOutbox_def Let_def split: if_splits)
  then have "\<forall>r \<in> set (fst (fst (enqueue_all sha fails now its (rows', n')))). Q r"
    using Cons.prems(2) by (intro Cons.IH) auto
  moreover have "\<forall>r \<in> set (fst (fst (enqueue_all sha fails now its (rows, n)))). Q r"
    using Cons.prems by (intro Cons.IH) auto
  ultimately show ?case using e by (simp add: case_prod_beta)
qed simp

text \<open>Every row that a message is split into has one target, so that the retry of one channel never repeats
  another: \<open>mixed_item\<close> does not occur.\<close>

lemma split_rows_have_one_target:
  assumes "\<forall>a \<in> set (oi_Recipients m). CHR 0x0A \<notin> set a"
  shows "\<forall>r \<in> set (fst (fst (enqueueSplit sha fails m now ([], n)))).
     \<not> mixed_item (item_of r) \<and> length (oi_Recipients (item_of r)) \<le> 1"
  unfolding enqueueSplit_def
  using assms
  by (intro rows_of_enqueue_all)
    (auto simp: split_items_def target_item_def push_item_def EnqueueOutbox_def Let_def item_of_def mixed_item_def
      join_with_def split_on_none split: if_splits)

end
