(* ===== verification/Links.thy ===== *)
theory Links
  imports Suppression Calendar
begin

text \<open>
  The signed links of internal/notify: the one that lets a household member decide a guest request from an
  e-mail (decide.go) and the one that stops mail to an address (unsubscribe.go). A token is
  \<open>version.expiry.tag\<close>, the tag a truncated HMAC. HMAC-SHA256 and SHA-256 are parameters; base64url and the
  base-36 numbers are written out. A text is a list of bytes: addresses are ASCII.
\<close>

section \<open>Base64url without padding\<close>

definition b64_alphabet :: string where
  "b64_alphabet = ''ABCDEFGHIJKLMNOPQRSTUVWXYZabcdefghijklmnopqrstuvwxyz0123456789-_''"

definition b64_char :: "nat \<Rightarrow> char" where "b64_char v = b64_alphabet ! v"

definition b64_value :: "char \<Rightarrow> nat option" where
  "b64_value c = (if c \<in> set b64_alphabet then Some (length (takeWhile (\<lambda>x. x \<noteq> c) b64_alphabet)) else None)"

fun b64_values :: "nat list \<Rightarrow> nat list" where
  "b64_values [] = []"
| "b64_values [a] = [a div 4, (a mod 4) * 16]"
| "b64_values [a, b] = [a div 4, (a mod 4) * 16 + b div 16, (b mod 16) * 4]"
| "b64_values (a # b # c # r) =
     a div 4 # ((a mod 4) * 16 + b div 16) # ((b mod 16) * 4 + c div 64) # c mod 64 # b64_values r"

definition b64_encode :: "string \<Rightarrow> string" where "b64_encode s = map b64_char (b64_values (map cp s))"

text \<open>The decoder skips line ends, refuses other bytes and a single last digit, and ignores spare bits.\<close>

fun b64_bytes :: "nat list \<Rightarrow> nat list option" where
  "b64_bytes [] = Some []"
| "b64_bytes [a] = None"
| "b64_bytes [a, b] = Some [a * 4 + b div 16]"
| "b64_bytes [a, b, c] = Some [a * 4 + b div 16, (b mod 16) * 16 + c div 4]"
| "b64_bytes (a # b # c # d # r) =
     map_option (\<lambda>bs. (a * 4 + b div 16) # ((b mod 16) * 16 + c div 4) # ((c mod 4) * 64 + d) # bs) (b64_bytes r)"

definition b64_decode :: "string \<Rightarrow> string option" where
  "b64_decode s =
     (let vs = map b64_value (filter (\<lambda>c. c \<noteq> CHR 0x0D \<and> c \<noteq> CHR 0x0A) s) in
      if list_all (\<lambda>v. v \<noteq> None) vs then map_option (map char_of) (b64_bytes (map the vs)) else None)"

section \<open>Numbers in base 36\<close>

definition digits36 :: string where "digits36 = ''0123456789abcdefghijklmnopqrstuvwxyz''"

fun nat36 :: "nat \<Rightarrow> string" where
  "nat36 n = (if n < 36 then [digits36 ! n] else nat36 (n div 36) @ [digits36 ! (n mod 36)])"

declare nat36.simps [simp del]

definition FormatInt36 :: "int \<Rightarrow> string" where
  "FormatInt36 i = (if i < 0 then CHR ''-'' # nat36 (nat (- i)) else nat36 (nat i))"

definition digit36 :: "char \<Rightarrow> nat option" where
  "digit36 c = (let l = asciiLower_c c in
     if l \<in> set digits36 then Some (length (takeWhile (\<lambda>x. x \<noteq> l) digits36)) else None)"

primrec value36 :: "nat \<Rightarrow> string \<Rightarrow> nat option" where
  "value36 acc [] = Some acc"
| "value36 acc (c # cs) = (case digit36 c of None \<Rightarrow> None | Some d \<Rightarrow> value36 (acc * 36 + d) cs)"

text \<open>\<open>strconv.ParseInt(s, 36, 64)\<close>: a sign, at least one digit, and the range of an \<open>int64\<close>.\<close>

definition ParseInt36 :: "string \<Rightarrow> int option" where
  "ParseInt36 s =
     (let neg = (s \<noteq> [] \<and> hd s = CHR ''-''); t = (if s \<noteq> [] \<and> hd s \<in> {CHR ''-'', CHR ''+''} then tl s else s) in
      if t = [] then None
      else (case value36 0 t of None \<Rightarrow> None
        | Some n \<Rightarrow> if neg then (if int n \<le> 2 ^ 63 then Some (- int n) else None)
                    else (if int n < 2 ^ 63 then Some (int n) else None)))"

section \<open>Tokens\<close>

definition normaliseUnsubAddress :: "string \<Rightarrow> string" where
  "normaliseUnsubAddress address = to_lower (trim_space address)"

definition unsubKeyLen :: nat where "unsubKeyLen = 32"
definition minDataKeyLen :: nat where "minDataKeyLen = 32"

definition DeriveDecideKey :: "(string \<Rightarrow> string) \<Rightarrow> string \<Rightarrow> string" where
  "DeriveDecideKey sha dataKey =
     (if length dataKey < minDataKeyLen then [] else sha (''pstonn-guest-decide-v1|'' @ dataKey))"

definition DeriveUnsubKey :: "(string \<Rightarrow> string) \<Rightarrow> string \<Rightarrow> string" where
  "DeriveUnsubKey sha dataKey =
     (if length dataKey < minDataKeyLen then [] else sha (''pstonn-unsubscribe-v1|'' @ dataKey))"

definition decideTokenVersion :: string where "decideTokenVersion = ''1''"
definition unsubTokenVersion :: string where "unsubTokenVersion = ''2''"
definition decideTokenLife :: dur where "decideTokenLife = 48 * hour"
definition unsubTokenLife :: dur where "unsubTokenLife = 365 * day"
definition unsubLegacySunset :: time where "unsubLegacySunset = days_of_civil 2026 12 31 * day"

definition decide_text :: "string \<Rightarrow> string \<Rightarrow> int \<Rightarrow> string \<Rightarrow> string" where
  "decide_text version expiry reqID address =
     version @ ''|'' @ expiry @ ''|'' @ show_int reqID @ ''|'' @ normaliseUnsubAddress address @ [CHR 0x00]"

definition unsub_text :: "string \<Rightarrow> string \<Rightarrow> string \<Rightarrow> string" where
  "unsub_text version expiry address = version @ ''|'' @ expiry @ ''|'' @ normaliseUnsubAddress address"

definition mac_tag :: "(string \<Rightarrow> string \<Rightarrow> string) \<Rightarrow> string \<Rightarrow> string \<Rightarrow> string" where
  "mac_tag hmac key msg = b64_encode (take 16 (hmac key msg))"

definition decideMAC :: "(string \<Rightarrow> string \<Rightarrow> string) \<Rightarrow> string \<Rightarrow> string \<Rightarrow> string \<Rightarrow> int \<Rightarrow> string \<Rightarrow> string" where
  "decideMAC hmac key version expiry reqID address = mac_tag hmac key (decide_text version expiry reqID address)"

definition unsubMAC :: "(string \<Rightarrow> string \<Rightarrow> string) \<Rightarrow> string \<Rightarrow> string \<Rightarrow> string \<Rightarrow> string \<Rightarrow> string" where
  "unsubMAC hmac key version expiry address = mac_tag hmac key (unsub_text version expiry address)"

definition legacyUnsubMAC :: "(string \<Rightarrow> string \<Rightarrow> string) \<Rightarrow> string \<Rightarrow> string \<Rightarrow> string" where
  "legacyUnsubMAC hmac key address = mac_tag hmac key (normaliseUnsubAddress address)"

definition decideToken :: "(string \<Rightarrow> string \<Rightarrow> string) \<Rightarrow> string \<Rightarrow> int \<Rightarrow> string \<Rightarrow> time \<Rightarrow> string" where
  "decideToken hmac key reqID address expiry =
     (let e = FormatInt36 (expiry div second) in
      decideTokenVersion @ ''.'' @ e @ ''.'' @ decideMAC hmac key decideTokenVersion e reqID address)"

definition unsubToken :: "(string \<Rightarrow> string \<Rightarrow> string) \<Rightarrow> string \<Rightarrow> string \<Rightarrow> time \<Rightarrow> string" where
  "unsubToken hmac key address expiry =
     (let e = FormatInt36 (expiry div second) in
      unsubTokenVersion @ ''.'' @ e @ ''.'' @ unsubMAC hmac key unsubTokenVersion e address)"

definition splitUnsubToken :: "string \<Rightarrow> (string \<times> string \<times> string) option" where
  "splitUnsubToken tok = (case split_on CHR ''.'' tok of
     [a, b, c] \<Rightarrow> if a = [] \<or> b = [] \<or> c = [] then None else Some (a, b, c)
   | _ \<Rightarrow> None)"

text \<open>\<open>time.Unix\<close>: the seconds are moved to the internal epoch with 64-bit wrap-around.\<close>

definition go_unix :: "int \<Rightarrow> time" where
  "go_unix secs = (wrap64 (secs + 62135596800) - 62135596800) * second"

definition verifyDecideTokenAt ::
  "(string \<Rightarrow> string \<Rightarrow> string) \<Rightarrow> string \<Rightarrow> int \<Rightarrow> string \<Rightarrow> string \<Rightarrow> time \<Rightarrow> bool" where
  "verifyDecideTokenAt hmac key reqID address tok now =
     (if length key < unsubKeyLen \<or> address = [] \<or> tok = [] \<or> reqID \<le> 0 then False
      else (case splitUnsubToken tok of
          None \<Rightarrow> False
        | Some (version, e, tag) \<Rightarrow>
            if version \<noteq> decideTokenVersion then False
            else (case ParseInt36 e of
                None \<Rightarrow> False
              | Some secs \<Rightarrow> if go_unix secs < now then False
                  else decideMAC hmac key version e reqID address = tag)))"

definition verifyUnsubTokenAt ::
  "(string \<Rightarrow> string \<Rightarrow> string) \<Rightarrow> string \<Rightarrow> string \<Rightarrow> string \<Rightarrow> time \<Rightarrow> bool" where
  "verifyUnsubTokenAt hmac key address tok now =
     (if length key < unsubKeyLen \<or> address = [] \<or> tok = [] then False
      else (case splitUnsubToken tok of
          None \<Rightarrow> if now < unsubLegacySunset then legacyUnsubMAC hmac key address = tok else False
        | Some (version, e, tag) \<Rightarrow>
            if version \<noteq> unsubTokenVersion then False
            else (case ParseInt36 e of
                None \<Rightarrow> False
              | Some secs \<Rightarrow> if go_unix secs < now then False
                  else unsubMAC hmac key version e address = tag)))"

definition GuestDecideURL ::
  "(string \<Rightarrow> string \<Rightarrow> string) \<Rightarrow> string \<Rightarrow> string \<Rightarrow> int \<Rightarrow> string \<Rightarrow> time \<Rightarrow> string" where
  "GuestDecideURL hmac appURL key reqID address now =
     (if appURL = [] \<or> length key < unsubKeyLen \<or> address = [] \<or> reqID \<le> 0 then []
      else appURL @ ''/r/'' @ show_int reqID @ ''/'' @ b64_encode (normaliseUnsubAddress address) @ ''/''
        @ decideToken hmac key reqID address (now + decideTokenLife))"

definition UnsubscribeURL ::
  "(string \<Rightarrow> string \<Rightarrow> string) \<Rightarrow> string \<Rightarrow> string \<Rightarrow> string \<Rightarrow> time \<Rightarrow> string" where
  "UnsubscribeURL hmac appURL key address now =
     (if appURL = [] \<or> length key < unsubKeyLen \<or> address = [] then []
      else appURL @ ''/u/'' @ b64_encode (normaliseUnsubAddress address) @ ''/''
        @ unsubToken hmac key address (now + unsubTokenLife))"

definition DecodeUnsubAddress :: "string \<Rightarrow> string option" where
  "DecodeUnsubAddress encoded = (case b64_decode encoded of
     None \<Rightarrow> None
   | Some b \<Rightarrow> (let a = normaliseUnsubAddress b in
       if a = [] \<or> CHR ''@'' \<notin> set a \<or> CHR 0x0D \<in> set a \<or> CHR 0x0A \<in> set a then None else Some a))"


section \<open>Lemmas on the encodings\<close>

lemma b64_value_char: "v < 64 \<Longrightarrow> b64_value (b64_char v) = Some v"
proof -
  have "\<forall>v \<in> set [0..<64]. b64_value (b64_char v) = Some v" by code_simp
  then show "v < 64 \<Longrightarrow> b64_value (b64_char v) = Some v" by simp
qed

lemma b64_char_clean: "v < 64 \<Longrightarrow> b64_char v \<notin> {CHR ''.'', CHR 0x0D, CHR 0x0A}"
proof -
  have "\<forall>v \<in> set [0..<64]. b64_char v \<notin> {CHR ''.'', CHR 0x0D, CHR 0x0A}" by code_simp
  then show "v < 64 \<Longrightarrow> b64_char v \<notin> {CHR ''.'', CHR 0x0D, CHR 0x0A}" by simp
qed

lemma b64_values_small: "\<forall>b \<in> set bs. b < 256 \<Longrightarrow> \<forall>v \<in> set (b64_values bs). v < 64"
proof (induction bs rule: b64_values.induct)
  case (2 a)
  have "a mod 4 * 16 < 64" using mod_less_divisor [of 4 a] by linarith
  then show ?case using 2 by auto
next
  case (3 a b)
  have "a mod 4 * 16 + b div 16 < 64" "b mod 16 * 4 < 64" using 3 mod_less_divisor [of 4 a] mod_less_divisor [of 16 b] by auto
  then show ?case using 3 by auto
next
  case (4 a b c r)
  have "a mod 4 * 16 + b div 16 < 64" "b mod 16 * 4 + c div 64 < 64"
    using 4 mod_less_divisor [of 4 a] mod_less_divisor [of 16 b] by auto
  then show ?case using 4 by auto
qed simp

lemma b64_bytes_values: "\<forall>b \<in> set bs. b < 256 \<Longrightarrow> b64_bytes (b64_values bs) = Some bs"
proof (induction bs rule: b64_values.induct)
  case (2 a)
  then show ?case by simp
next
  case (3 a b)
  then have "(a mod 4 * 16 + b div 16) div 16 = a mod 4" "(a mod 4 * 16 + b div 16) mod 16 = b div 16" by auto
  then show ?case by simp
next
  case (4 a b c r)
  then have "(a mod 4 * 16 + b div 16) div 16 = a mod 4" "(a mod 4 * 16 + b div 16) mod 16 = b div 16"
      "(b mod 16 * 4 + c div 64) div 4 = b mod 16" "(b mod 16 * 4 + c div 64) mod 4 = c div 64" by auto
  then show ?case using 4 by simp
qed simp

lemma b64_encode_clean:
  "CHR ''.'' \<notin> set (b64_encode s)" "CHR 0x0D \<notin> set (b64_encode s)" "CHR 0x0A \<notin> set (b64_encode s)"
proof -
  have "\<forall>v \<in> set (b64_values (map cp s)). v < 64" by (rule b64_values_small) simp
  then show "CHR ''.'' \<notin> set (b64_encode s)" "CHR 0x0D \<notin> set (b64_encode s)" "CHR 0x0A \<notin> set (b64_encode s)"
    using b64_char_clean unfolding b64_encode_def by fastforce+
qed

lemma b64_encode_nonempty: "s \<noteq> [] \<Longrightarrow> b64_encode s \<noteq> []"
  by (cases "map cp s" rule: b64_values.cases) (auto simp: b64_encode_def)

lemma b64_round_trip: "b64_decode (b64_encode s) = Some s"
proof -
  let ?vs = "b64_values (map cp s)"
  have small: "\<forall>v \<in> set ?vs. v < 64" by (rule b64_values_small) simp
  have keep: "filter (\<lambda>c. c \<noteq> CHR 0x0D \<and> c \<noteq> CHR 0x0A) (b64_encode s) = b64_encode s"
    using b64_encode_clean(2,3) [of s] by (auto intro: filter_True)
  have "map b64_value (b64_encode s) = map Some ?vs"
    using small by (simp add: b64_encode_def b64_value_char)
  moreover have "b64_bytes ?vs = Some (map cp s)" by (rule b64_bytes_values) simp
  moreover have "map char_of (map cp s) = s" by (simp add: cp_def map_idI)
  ultimately show ?thesis unfolding b64_decode_def Let_def keep by (simp add: list_all_iff comp_def)
qed

lemma split_on_cons: "c \<notin> set a \<Longrightarrow> split_on c (a @ c # s) = a # split_on c s"
  by (induction a) auto

lemma split_on_clean: "c \<notin> set a \<Longrightarrow> split_on c a = [a]"
  by (induction a) auto

lemma digit36_digits: "d < 36 \<Longrightarrow> digit36 (digits36 ! d) = Some d"
proof -
  have "\<forall>d \<in> set [0..<36]. digit36 (digits36 ! d) = Some d" by code_simp
  then show "d < 36 \<Longrightarrow> digit36 (digits36 ! d) = Some d" by simp
qed

lemma nat36_chars: "set (nat36 n) \<subseteq> set digits36 \<and> nat36 n \<noteq> []"
proof (induction n rule: nat36.induct)
  case (1 n)
  have len: "length digits36 = 36" by code_simp
  have "digits36 ! (n mod 36) \<in> set digits36" by (rule nth_mem) (simp add: len)
  then show ?case using 1 by (subst (1 2) nat36.simps) (auto simp: len)
qed

lemma value36_append: "value36 acc (xs @ ys) = (case value36 acc xs of None \<Rightarrow> None | Some a \<Rightarrow> value36 a ys)"
  by (induction xs arbitrary: acc) (auto split: option.splits)

lemma value36_nat36: "value36 0 (nat36 n) = Some n"
proof (induction n rule: nat36.induct)
  case (1 n)
  then show ?case by (subst nat36.simps) (simp add: digit36_digits value36_append)
qed

lemma digits36_clean: "CHR ''.'' \<notin> set digits36" "CHR ''-'' \<notin> set digits36" "CHR ''+'' \<notin> set digits36" "CHR ''|'' \<notin> set digits36"
  by code_simp+

lemma FormatInt36_clean: "CHR ''.'' \<notin> set (FormatInt36 i)" "CHR ''|'' \<notin> set (FormatInt36 i)" "FormatInt36 i \<noteq> []"
  using nat36_chars digits36_clean by (auto simp: FormatInt36_def)

lemma int36_round_trip:
  assumes "- (2 ^ 63) \<le> i" and "i < 2 ^ 63"
  shows "ParseInt36 (FormatInt36 i) = Some i"
proof (cases "i < 0")
  case True
  then show ?thesis using assms nat36_chars [of "nat (- i)"]
    by (simp add: ParseInt36_def FormatInt36_def value36_nat36)
next
  case False
  have hd: "hd (nat36 (nat i)) \<notin> {CHR ''-'', CHR ''+''}"
    using nat36_chars [of "nat i"] digits36_clean by (metis hd_in_set insertE singletonD subsetD)
  then show ?thesis using False assms nat36_chars [of "nat i"]
    by (simp add: ParseInt36_def FormatInt36_def value36_nat36)
qed


lemma b64_inject: "b64_encode a = b64_encode b \<longleftrightarrow> a = b"
  using b64_round_trip by (metis option.inject)

definition dec_value :: "string \<Rightarrow> int" where
  "dec_value s = foldl (\<lambda>a c. 10 * a + (int (cp c) - 48)) 0 s"

lemma digit_cp: "0 \<le> n \<Longrightarrow> n < 10 \<Longrightarrow> cp (digit n) = 48 + nat n"
  by (simp add: digit_def)

lemma dec_facts: "0 \<le> n \<Longrightarrow> dec_value (dec n) = n \<and> (\<forall>c \<in> set (dec n). 48 \<le> cp c \<and> cp c \<le> 57) \<and> dec n \<noteq> []"
proof (induction n rule: dec.induct)
  case (1 n)
  show ?case
  proof (cases "n < 10")
    case True
    then show ?thesis using 1(2) by (subst (1 2 3) dec.simps) (auto simp: dec_value_def digit_cp)
  next
    case False
    have m: "0 \<le> n mod 10" "n mod 10 < 10" by simp_all
    have "dec_value (dec (n div 10)) = n div 10 \<and> (\<forall>c \<in> set (dec (n div 10)). 48 \<le> cp c \<and> cp c \<le> 57)"
      using 1 False by (simp add: pos_imp_zdiv_nonneg_iff)
    then show ?thesis using False m by (subst (1 2 3) dec.simps) (auto simp: dec_value_def digit_cp)
  qed
qed

lemma show_int_inject:
  assumes "0 \<le> a" and "0 \<le> b" and "show_int a = show_int b"
  shows "a = b"
proof -
  have "dec_value (show_int n) = n" if "0 \<le> n" for n using dec_facts [OF that] that by (simp add: show_int_def)
  then show ?thesis using assms by metis
qed

lemma show_int_no_bar:
  assumes "0 \<le> a"
  shows "CHR ''|'' \<notin> set (show_int a)"
proof
  assume "CHR ''|'' \<in> set (show_int a)"
  moreover have "show_int a = dec a" unfolding show_int_def by (rule if_not_P) (use assms in linarith)
  ultimately have "CHR ''|'' \<in> set (dec a)" by (simp only:)
  then have "cp CHR ''|'' \<le> 57" using dec_facts [OF assms] by blast
  moreover have "\<not> cp CHR ''|'' \<le> 57" by code_simp
  ultimately show False by blast
qed

text \<open>The fields of the signed text cannot bleed into one another.\<close>

lemma decide_text_inject:
  assumes "0 \<le> r" and "0 \<le> r'" and "decide_text v e r a = decide_text v e r' a'"
  shows "r = r' \<and> normaliseUnsubAddress a = normaliseUnsubAddress a'"
proof -
  have "show_int r @ CHR ''|'' # normaliseUnsubAddress a @ [CHR 0x00] = show_int r' @ CHR ''|'' # normaliseUnsubAddress a' @ [CHR 0x00]"
    using assms(3) by (simp add: decide_text_def)
  from cut_at_inject [OF show_int_no_bar [OF assms(1)] show_int_no_bar [OF assms(2)] this]
  show ?thesis using show_int_inject [OF assms(1,2)] by simp
qed

lemma decideToken_splits:
  assumes "\<And>m. length (hmac key m) = 32"
  shows "splitUnsubToken (decideToken hmac key r a t) =
     Some (decideTokenVersion, FormatInt36 (t div second),
       decideMAC hmac key decideTokenVersion (FormatInt36 (t div second)) r a)"
proof -
  have tag: "decideMAC hmac key v e r a \<noteq> []" "CHR ''.'' \<notin> set (decideMAC hmac key v e r a)" for v e
    using assms [of "decide_text v e r a"] b64_encode_clean(1)
    by (auto simp: decideMAC_def mac_tag_def intro!: b64_encode_nonempty)
  show ?thesis using tag FormatInt36_clean
    by (simp add: decideToken_def splitUnsubToken_def Let_def decideTokenVersion_def split_on_cons split_on_clean)
qed

lemma unsubToken_splits:
  assumes "\<And>m. length (hmac key m) = 32"
  shows "splitUnsubToken (unsubToken hmac key a t) =
     Some (unsubTokenVersion, FormatInt36 (t div second),
       unsubMAC hmac key unsubTokenVersion (FormatInt36 (t div second)) a)"
proof -
  have tag: "unsubMAC hmac key v e a \<noteq> []" "CHR ''.'' \<notin> set (unsubMAC hmac key v e a)" for v e
    using assms [of "unsub_text v e a"] b64_encode_clean(1)
    by (auto simp: unsubMAC_def mac_tag_def intro!: b64_encode_nonempty)
  show ?thesis using tag FormatInt36_clean
    by (simp add: unsubToken_def splitUnsubToken_def Let_def unsubTokenVersion_def split_on_cons split_on_clean)
qed

lemma go_unix_id:
  assumes "- (2 ^ 63) \<le> secs" and "secs + 62135596800 < 2 ^ 63"
  shows "go_unix secs = secs * second"
  using assms by (simp add: go_unix_def wrap64_id min_dur_def max_dur_def)

section \<open>What the links promise\<close>

text \<open>C36: a decide link opens exactly the request it was issued for, for exactly its recipient (however the
  address is spelled), until its expiry: for texts on which the truncated HMAC does not collide, no other
  request or recipient verifies against it.\<close>

theorem a_decide_link_opens_one_request:
  assumes "unsubKeyLen \<le> length key" and "\<And>m. length (hmac key m) = 32"
    and "0 < r" and "0 < r'" and "a' \<noteq> []"
    and "- (2 ^ 63) \<le> t div second" and "t div second + 62135596800 < 2 ^ 63"
    and "inj_on (\<lambda>m. take 16 (hmac key m)) M"
    and "decide_text decideTokenVersion (FormatInt36 (t div second)) r a \<in> M"
    and "decide_text decideTokenVersion (FormatInt36 (t div second)) r' a' \<in> M"
  shows "verifyDecideTokenAt hmac key r' a' (decideToken hmac key r a t) now \<longleftrightarrow>
     r' = r \<and> normaliseUnsubAddress a' = normaliseUnsubAddress a \<and> now \<le> whole_seconds t"
proof -
  let ?e = "FormatInt36 (t div second)"
  have parse: "ParseInt36 ?e = Some (t div second)" using assms(6,7) by (intro int36_round_trip) auto
  have "decideMAC hmac key decideTokenVersion ?e r' a' = decideMAC hmac key decideTokenVersion ?e r a
      \<longleftrightarrow> decide_text decideTokenVersion ?e r' a' = decide_text decideTokenVersion ?e r a"
    using inj_on_eq_iff [OF assms(8) assms(10,9)] by (simp add: decideMAC_def mac_tag_def b64_inject)
  also have "\<dots> \<longleftrightarrow> r' = r \<and> normaliseUnsubAddress a' = normaliseUnsubAddress a"
    using decide_text_inject [of r' r decideTokenVersion ?e a' a] assms(3,4) by (auto simp: decide_text_def)
  finally have tags: "decideMAC hmac key decideTokenVersion ?e r' a' = decideMAC hmac key decideTokenVersion ?e r a
      \<longleftrightarrow> r' = r \<and> normaliseUnsubAddress a' = normaliseUnsubAddress a" .
  note splits = decideToken_splits [where hmac = hmac and key = key, OF assms(2)]
  have "decideToken hmac key r a t \<noteq> []" by (simp add: decideToken_def decideTokenVersion_def Let_def)
  then show ?thesis
    using assms(1,4,5) tags
    by (auto simp: verifyDecideTokenAt_def splits parse go_unix_id [OF assms(6,7)]
        whole_seconds_def not_less)
qed

definition sample_hmac :: "string \<Rightarrow> string \<Rightarrow> string" where
  "sample_hmac k m = take 32 (m @ replicate 32 CHR ''x'')"

lemma a_decide_link_opens_one_request_witness:
  "\<not> verifyDecideTokenAt sample_hmac (replicate 32 CHR ''k'') 8 ''a@b'' (decideToken sample_hmac (replicate 32 CHR ''k'') 7 ''A@b'' (9 * second)) 0"
proof -
  have len: "length (sample_hmac k m) = 32" for k m by (simp add: sample_hmac_def)
  have "verifyDecideTokenAt sample_hmac (replicate 32 CHR ''k'') 8 ''a@b''
      (decideToken sample_hmac (replicate 32 CHR ''k'') 7 ''A@b'' (9 * second)) 0 \<longleftrightarrow>
    (8::int) = 7 \<and> normaliseUnsubAddress ''a@b'' = normaliseUnsubAddress ''A@b'' \<and> 0 \<le> whole_seconds (9 * second)"
    by (rule a_decide_link_opens_one_request [where M = "{decide_text decideTokenVersion (FormatInt36 (9 * second div second)) 7 ''A@b'',
          decide_text decideTokenVersion (FormatInt36 (9 * second div second)) 8 ''a@b''}"])
      (simp add: unsubKeyLen_def, rule len, simp, simp, simp, code_simp, code_simp, code_simp, simp, simp)
  then show ?thesis by simp
qed

text \<open>an unsubscribe link stops mail to its own address only, until its expiry, and a decide link is never
  taken for an unsubscribe link, nor the other way round, whatever the keys.\<close>

theorem an_unsubscribe_link_stops_one_address:
  assumes "unsubKeyLen \<le> length key" and "\<And>k m. length (hmac k m) = 32" and "a' \<noteq> []"
    and "- (2 ^ 63) \<le> t div second" and "t div second + 62135596800 < 2 ^ 63"
    and "inj_on (\<lambda>m. take 16 (hmac key m)) M"
    and "unsub_text unsubTokenVersion (FormatInt36 (t div second)) a \<in> M"
    and "unsub_text unsubTokenVersion (FormatInt36 (t div second)) a' \<in> M"
  shows "(verifyUnsubTokenAt hmac key a' (unsubToken hmac key a t) now \<longleftrightarrow>
       normaliseUnsubAddress a' = normaliseUnsubAddress a \<and> now \<le> whole_seconds t)
     \<and> \<not> verifyUnsubTokenAt hmac key a' (decideToken hmac key' r b t) now
     \<and> \<not> verifyDecideTokenAt hmac key' r b (unsubToken hmac key a t) now"
proof -
  let ?e = "FormatInt36 (t div second)"
  have parse: "ParseInt36 ?e = Some (t div second)" using assms(4,5) by (intro int36_round_trip) auto
  have tags: "unsubMAC hmac key unsubTokenVersion ?e a' = unsubMAC hmac key unsubTokenVersion ?e a
      \<longleftrightarrow> normaliseUnsubAddress a' = normaliseUnsubAddress a"
    using inj_on_eq_iff [OF assms(6) assms(8,7)] by (simp add: unsubMAC_def mac_tag_def b64_inject unsub_text_def)
  note splits = decideToken_splits [where hmac = hmac and key = key', OF assms(2)]
    unsubToken_splits [where hmac = hmac and key = key, OF assms(2)]
  have ne: "unsubToken hmac key a t \<noteq> []" by (simp add: unsubToken_def unsubTokenVersion_def Let_def)
  have versions: "decideTokenVersion \<noteq> unsubTokenVersion" by (simp add: decideTokenVersion_def unsubTokenVersion_def)
  show ?thesis
    using assms(1,3) tags ne versions
    by (auto simp: verifyUnsubTokenAt_def verifyDecideTokenAt_def splits parse go_unix_id [OF assms(4,5)] whole_seconds_def not_less)
qed

lemma an_unsubscribe_link_stops_one_address_witness:
  "\<not> verifyUnsubTokenAt sample_hmac (replicate 32 CHR ''k'') ''a@b'' (unsubToken sample_hmac (replicate 32 CHR ''k'') ''c@b'' (9 * second)) 0
   \<and> \<not> verifyUnsubTokenAt sample_hmac (replicate 32 CHR ''k'') ''a@b'' (decideToken sample_hmac [] 7 ''a@b'' (9 * second)) 0"
proof -
  have len: "length (sample_hmac k m) = 32" for k m by (simp add: sample_hmac_def)
  have "(verifyUnsubTokenAt sample_hmac (replicate 32 CHR ''k'') ''a@b'' (unsubToken sample_hmac (replicate 32 CHR ''k'') ''c@b'' (9 * second)) 0
      \<longleftrightarrow> normaliseUnsubAddress ''a@b'' = normaliseUnsubAddress ''c@b'' \<and> 0 \<le> whole_seconds (9 * second))
     \<and> \<not> verifyUnsubTokenAt sample_hmac (replicate 32 CHR ''k'') ''a@b'' (decideToken sample_hmac [] 7 ''a@b'' (9 * second)) 0
     \<and> \<not> verifyDecideTokenAt sample_hmac [] 7 ''a@b'' (unsubToken sample_hmac (replicate 32 CHR ''k'') ''c@b'' (9 * second)) 0"
    by (rule an_unsubscribe_link_stops_one_address [where M = "{unsub_text unsubTokenVersion (FormatInt36 (9 * second div second)) ''c@b'',
          unsub_text unsubTokenVersion (FormatInt36 (9 * second div second)) ''a@b''}"])
      (simp add: unsubKeyLen_def, rule len, simp, code_simp, code_simp, code_simp, simp, simp)
  moreover have "normaliseUnsubAddress ''a@b'' \<noteq> normaliseUnsubAddress ''c@b''" by code_simp
  ultimately show ?thesis by blast
qed

text \<open>Without an at-rest key of full length there is no link, and no token verifies.\<close>

lemma no_key_no_link:
  assumes "length dataKey < minDataKeyLen"
  shows "GuestDecideURL hmac app (DeriveDecideKey sha dataKey) r a now = []
     \<and> UnsubscribeURL hmac app (DeriveUnsubKey sha dataKey) a now = []
     \<and> \<not> verifyDecideTokenAt hmac (DeriveDecideKey sha dataKey) r a tok now
     \<and> \<not> verifyUnsubTokenAt hmac (DeriveUnsubKey sha dataKey) a tok now"
  using assms
  by (simp add: DeriveDecideKey_def DeriveUnsubKey_def GuestDecideURL_def UnsubscribeURL_def verifyDecideTokenAt_def
      verifyUnsubTokenAt_def unsubKeyLen_def)

text \<open>The address in the path of a link comes back as it was normalised.\<close>

lemma address_path_round_trip:
  assumes "CHR ''@'' \<in> set (normaliseUnsubAddress a)"
    and "CHR 0x0D \<notin> set (normaliseUnsubAddress a)" and "CHR 0x0A \<notin> set (normaliseUnsubAddress a)"
  shows "DecodeUnsubAddress (b64_encode (normaliseUnsubAddress a)) = Some (normaliseUnsubAddress a)"
proof -
  have "normaliseUnsubAddress x = normaliseAddr x" for x by (simp add: normaliseUnsubAddress_def normaliseAddr_def)
  then show ?thesis using assms by (auto simp: DecodeUnsubAddress_def b64_round_trip Let_def)
qed

text \<open>A link of the first format carries no expiry: it verifies for its address until the sunset, then never.\<close>

lemma legacy_links_age_out:
  assumes "unsubKeyLen \<le> length key" and "\<And>m. length (hmac key m) = 32" and "a \<noteq> []"
  shows "verifyUnsubTokenAt hmac key a (legacyUnsubMAC hmac key a) now \<longleftrightarrow> now < unsubLegacySunset"
proof -
  have "legacyUnsubMAC hmac key a \<noteq> []" and "CHR ''.'' \<notin> set (legacyUnsubMAC hmac key a)"
    using assms(2) [of "normaliseUnsubAddress a"] b64_encode_clean(1)
    by (auto simp: legacyUnsubMAC_def mac_tag_def intro!: b64_encode_nonempty)
  then show ?thesis using assms(1,3) by (simp add: verifyUnsubTokenAt_def splitUnsubToken_def split_on_clean)
qed

end
