(* ===== verification/Tables.thy ===== *)
theory Tables
  imports Model
begin

text \<open>
  The rows the household works on (\<open>internal/store/migrate.go\<close>): permits, vehicles, roster
  rules, bookings, guest links and their requests, with what SQLite does to them behind the
  statements: identifiers of an \<open>AUTOINCREMENT\<close> column are never given out twice, and
  deleting a permit, a vehicle or a link deletes the rows that reference it. The bookings
  made through a link carry the link's identifier without a foreign key, so nothing deletes
  them when the link goes: the operations of the theories below do that themselves.

  A text column holding an RFC 3339 instant or the empty string is a \<^typ>\<open>time option\<close>, cut
  to whole seconds when written; a nullable \<open>vehicle_id\<close> is 0 when NULL, as the code reads
  it; a 0/1 column is a \<^typ>\<open>bool\<close>.
\<close>

section \<open>Rows\<close>

record owned_vehicle = vehicle +
  v_Owner :: string

record guest_grant =
  g_ID :: int
  g_Owner :: string
  g_PermitID :: int
  g_Label :: string
  g_AllowOvernight :: bool
  g_AllowPlate :: bool
  g_OnScreen :: bool
  g_RequestOnly :: bool
  g_Picker :: bool
  g_AllVehicles :: bool
  g_Enabled :: bool
  g_CreatedAt :: time
  g_CreatedBy :: string
  g_PassNudgeSent :: "time option"

record guest_token =
  t_ID :: int
  t_GrantID :: int
  t_RecipientEmail :: string
  t_Hash :: string
  t_Sealed :: string
  t_RevokedAt :: "time option"
  t_ExpiresAt :: "time option"
  t_CreatedAt :: time
  t_BaselinePlate :: string
  t_BaselineUntil :: "time option"
  t_UsedAt :: "time option"

datatype request_status = Pending | Approved | Denied | Expired

record guest_request =
  q_ID :: int
  q_GrantID :: int
  q_Owner :: string
  q_PermitID :: int
  q_Plate :: string
  q_State :: string
  q_Nonce :: string
  q_Status :: request_status
  q_RequestedAt :: time
  q_DecidedAt :: "time option"
  q_DecidedBy :: string
  q_Until :: string
  q_UntilTS :: "time option"

record account_member =
  am_Member :: string
  am_Owner :: string
  am_AddedAt :: time
  am_Pending :: bool
  am_RemindedAt :: "time option"

text \<open>
  The tables, and for each table whose identifiers the program uses the largest identifier
  given out so far. \<open>tb_GuestsEnabled\<close> is the column of \<open>account_flags\<close> (no row: enabled).
\<close>

record tables =
  tb_Permits :: "permit list"
  tb_Vehicles :: "owned_vehicle list"
  tb_Rules :: "weekly_rule list"
  tb_Overrides :: "override list"
  tb_Grants :: "guest_grant list"
  tb_GrantVehicles :: "(int \<times> int) list"
  tb_Tokens :: "guest_token list"
  tb_Requests :: "guest_request list"
  tb_GuestsEnabled :: "string \<rightharpoonup> bool"
  tb_Members :: "account_member list"
  tb_LastPermit :: int
  tb_LastVehicle :: int
  tb_LastRule :: int
  tb_LastOverride :: int
  tb_LastGrant :: int
  tb_LastToken :: int
  tb_LastRequest :: int

text \<open>The errors of the store's operations; \<open>ConstraintFailed\<close> is a refusal by the schema.\<close>

datatype store_err =
    NotFound
  | CycleWeek
  | OverrideLimit
  | GuestOverrideRefused
  | GuestRequestLimit
  | Duplicate
  | SecondaryAccount
  | MemberLimit
  | InviteBlocked
  | ConstraintFailed
  | BadCall string

type_synonym 'a outcome = "store_err + 'a"

definition empty_tables :: tables where
  "empty_tables = \<lparr>tb_Permits = [], tb_Vehicles = [], tb_Rules = [], tb_Overrides = [],
     tb_Grants = [], tb_GrantVehicles = [], tb_Tokens = [], tb_Requests = [],
     tb_GuestsEnabled = Map.empty, tb_Members = [], tb_LastPermit = 0, tb_LastVehicle = 0, tb_LastRule = 0,
     tb_LastOverride = 0, tb_LastGrant = 0, tb_LastToken = 0, tb_LastRequest = 0\<rparr>"

section \<open>Questions the statements ask\<close>

text \<open>\<open>nowUTC\<close>: the clock as it is stored.\<close>

definition nowUTC :: "time \<Rightarrow> time" where "nowUTC now = whole_seconds now"

definition owns_permit :: "string \<Rightarrow> int \<Rightarrow> tables \<Rightarrow> bool" where
  "owns_permit owner pid tb \<longleftrightarrow> list_ex (\<lambda>p. p_ID p = pid \<and> p_Owner p = owner) (tb_Permits tb)"

definition owns_vehicle :: "string \<Rightarrow> int \<Rightarrow> tables \<Rightarrow> bool" where
  "owns_vehicle owner vid tb \<longleftrightarrow> list_ex (\<lambda>v. v_ID v = vid \<and> v_Owner v = owner) (tb_Vehicles tb)"

definition has_permit :: "int \<Rightarrow> tables \<Rightarrow> bool" where
  "has_permit pid tb \<longleftrightarrow> list_ex (\<lambda>p. p_ID p = pid) (tb_Permits tb)"

definition has_vehicle :: "int \<Rightarrow> tables \<Rightarrow> bool" where
  "has_vehicle vid tb \<longleftrightarrow> list_ex (\<lambda>v. v_ID v = vid) (tb_Vehicles tb)"

text \<open>A booking that still carries authority: open-ended, or ending later (\<open>ends_at > now\<close>).\<close>

definition still_runs :: "time \<Rightarrow> override \<Rightarrow> bool" where
  "still_runs now ov \<longleftrightarrow> (case o_EndsAt ov of None \<Rightarrow> True | Some e \<Rightarrow> nowUTC now < e)"

definition guest_booking :: "override \<Rightarrow> bool" where
  "guest_booking ov \<longleftrightarrow> o_GuestTokenID ov \<noteq> 0"

definition grant_of :: "int \<Rightarrow> tables \<Rightarrow> guest_grant option" where
  "grant_of gid tb = find (\<lambda>g. g_ID g = gid) (tb_Grants tb)"

definition token_of :: "int \<Rightarrow> tables \<Rightarrow> guest_token option" where
  "token_of tid tb = find (\<lambda>t. t_ID t = tid) (tb_Tokens tb)"

text \<open>\<open>COALESCE((SELECT guests_enabled ...), 1) = 1\<close>: the account's switch over every link.\<close>

definition guests_on :: "string \<Rightarrow> tables \<Rightarrow> bool" where
  "guests_on owner tb \<longleftrightarrow> (case tb_GuestsEnabled tb owner of None \<Rightarrow> True | Some b \<Rightarrow> b)"

section \<open>Deletions and their cascades\<close>

definition drop_overrides :: "(override \<Rightarrow> bool) \<Rightarrow> tables \<Rightarrow> tables" where
  "drop_overrides P tb = tb\<lparr>tb_Overrides := filter (\<lambda>x. \<not> P x) (tb_Overrides tb)\<rparr>"

definition drop_rules :: "(weekly_rule \<Rightarrow> bool) \<Rightarrow> tables \<Rightarrow> tables" where
  "drop_rules P tb = tb\<lparr>tb_Rules := filter (\<lambda>x. \<not> P x) (tb_Rules tb)\<rparr>"

definition drop_grants :: "(guest_grant \<Rightarrow> bool) \<Rightarrow> tables \<Rightarrow> tables" where
  "drop_grants P tb =
     (let gone = map g_ID (filter P (tb_Grants tb))
      in tb\<lparr>tb_Grants := filter (\<lambda>g. \<not> P g) (tb_Grants tb),
           tb_GrantVehicles := filter (\<lambda>gv. \<not> fst gv \<in> set gone) (tb_GrantVehicles tb),
           tb_Tokens := filter (\<lambda>t. \<not> t_GrantID t \<in> set gone) (tb_Tokens tb),
           tb_Requests := filter (\<lambda>q. \<not> q_GrantID q \<in> set gone) (tb_Requests tb)\<rparr>)"

definition drop_vehicles :: "(owned_vehicle \<Rightarrow> bool) \<Rightarrow> tables \<Rightarrow> tables" where
  "drop_vehicles P tb =
     (let gone = map v_ID (filter P (tb_Vehicles tb))
      in tb\<lparr>tb_Vehicles := filter (\<lambda>v. \<not> P v) (tb_Vehicles tb),
           tb_Rules := filter (\<lambda>r. \<not> r_VehicleID r \<in> set gone) (tb_Rules tb),
           tb_Overrides := filter (\<lambda>x. \<not> o_VehicleID x \<in> set gone) (tb_Overrides tb),
           tb_GrantVehicles := filter (\<lambda>gv. \<not> snd gv \<in> set gone) (tb_GrantVehicles tb)\<rparr>)"

definition drop_permits :: "(permit \<Rightarrow> bool) \<Rightarrow> tables \<Rightarrow> tables" where
  "drop_permits P tb =
     (let gone = map p_ID (filter P (tb_Permits tb))
      in drop_grants (\<lambda>g. g_PermitID g \<in> set gone)
           (drop_rules (\<lambda>r. r_PermitID r \<in> set gone)
             (drop_overrides (\<lambda>x. o_PermitID x \<in> set gone)
               (tb\<lparr>tb_Permits := filter (\<lambda>p. \<not> P p) (tb_Permits tb)\<rparr>))))"

text \<open>Updates of the rows of one table.\<close>

definition on_grants :: "(guest_grant \<Rightarrow> guest_grant) \<Rightarrow> tables \<Rightarrow> tables" where
  "on_grants f tb = tb\<lparr>tb_Grants := map f (tb_Grants tb)\<rparr>"

definition on_tokens :: "(guest_token \<Rightarrow> guest_token) \<Rightarrow> tables \<Rightarrow> tables" where
  "on_tokens f tb = tb\<lparr>tb_Tokens := map f (tb_Tokens tb)\<rparr>"

definition on_requests :: "(guest_request \<Rightarrow> guest_request) \<Rightarrow> tables \<Rightarrow> tables" where
  "on_requests f tb = tb\<lparr>tb_Requests := map f (tb_Requests tb)\<rparr>"

end
