(* ===== verification/Bookings.thy ===== *)
theory Bookings
  imports Tables
begin

text \<open>
  \<open>internal/store/schedule.go\<close>: the weekly roster and the bookings of a permit as operations
  on the tables. An operation that fails changes nothing (its transaction is rolled back, or
  its single statement wrote no row): it is \<open>Inl\<close> an error; otherwise \<open>Inr\<close> its answer and
  the new tables. A failing database is not modelled. Operations made of an ownership read
  and a guarded write are one step here: the write repeats the guard, so what happens between
  the two can only turn the answer into another refusal.
\<close>

section \<open>Rows of the roster\<close>

definition same_slot :: "int \<Rightarrow> int \<Rightarrow> int \<Rightarrow> weekly_rule \<Rightarrow> bool" where
  "same_slot pid week wd r \<longleftrightarrow> r_PermitID r = pid \<and> r_Week r = week \<and> r_Weekday r = wd"

definition new_rule :: "int \<Rightarrow> int \<Rightarrow> int \<Rightarrow> int \<Rightarrow> bool \<Rightarrow> tables \<Rightarrow> weekly_rule" where
  "new_rule pid week wd vid e tb =
     \<lparr>r_ID = tb_LastRule tb + 1, r_PermitID = pid, r_Week = week, r_Weekday = wd,
      r_VehicleID = vid, r_Empty = e\<rparr>"

text \<open>
  \<open>INSERT INTO weekly_rule\<close>: the foreign keys and \<open>UNIQUE(permit_id, cycle_week, weekday)\<close>.
  The identifier sequence advances with the inserted rows.
\<close>

definition insert_rule :: "int \<Rightarrow> int \<Rightarrow> int \<Rightarrow> int \<Rightarrow> bool \<Rightarrow> tables \<Rightarrow> tables outcome" where
  "insert_rule pid week wd vid e tb =
     (if \<not> has_permit pid tb \<or> (vid \<noteq> 0 \<and> \<not> has_vehicle vid tb)
         \<or> list_ex (same_slot pid week wd) (tb_Rules tb)
      then Inl ConstraintFailed
      else Inr (tb\<lparr>tb_Rules := tb_Rules tb @ [new_rule pid week wd vid e tb],
                  tb_LastRule := tb_LastRule tb + 1\<rparr>))"

text \<open>\<open>... ON CONFLICT(permit_id, cycle_week, weekday) DO UPDATE SET vehicle_id, empty\<close>.\<close>

definition upsert_rule :: "int \<Rightarrow> int \<Rightarrow> int \<Rightarrow> int \<Rightarrow> bool \<Rightarrow> tables \<Rightarrow> tables outcome" where
  "upsert_rule pid week wd vid e tb =
     (if list_ex (same_slot pid week wd) (tb_Rules tb)
      then (if vid \<noteq> 0 \<and> \<not> has_vehicle vid tb then Inl ConstraintFailed
            else Inr (tb\<lparr>tb_Rules := map (\<lambda>r. if same_slot pid week wd r
                        then r\<lparr>r_VehicleID := vid, r_Empty := e\<rparr> else r) (tb_Rules tb)\<rparr>))
      else insert_rule pid week wd vid e tb)"

definition permit_weeks :: "string \<Rightarrow> int \<Rightarrow> tables \<Rightarrow> int option" where
  "permit_weeks owner pid tb =
     map_option p_CycleWeeks (find (\<lambda>p. p_ID p = pid \<and> p_Owner p = owner) (tb_Permits tb))"

section \<open>Weekly rules\<close>

definition ListRules :: "int \<Rightarrow> tables \<Rightarrow> weekly_rule list" where
  "ListRules pid tb =
     filter (\<lambda>r. \<not> (r_VehicleID r = 0 \<and> \<not> r_Empty r))
       (sort_key r_Week (sort_key r_Weekday (filter (\<lambda>r. r_PermitID r = pid) (tb_Rules tb))))"

definition SetRule :: "string \<Rightarrow> int \<Rightarrow> int \<Rightarrow> int \<Rightarrow> int \<Rightarrow> tables \<Rightarrow> tables outcome" where
  "SetRule owner pid week wd vid tb =
     (if \<not> owns_permit owner pid tb then Inl NotFound
      else if \<not> owns_vehicle owner vid tb then Inl NotFound
      else (case permit_weeks owner pid tb of
              None \<Rightarrow> Inl CycleWeek
            | Some n \<Rightarrow> if week < n then upsert_rule pid week wd vid False tb else Inl CycleWeek))"

definition SetEmptyRule :: "string \<Rightarrow> int \<Rightarrow> int \<Rightarrow> int \<Rightarrow> tables \<Rightarrow> tables outcome" where
  "SetEmptyRule owner pid week wd tb =
     (if \<not> owns_permit owner pid tb then Inl NotFound
      else (case permit_weeks owner pid tb of
              None \<Rightarrow> Inl CycleWeek
            | Some n \<Rightarrow> if week < n then upsert_rule pid week wd 0 True tb else Inl CycleWeek))"

definition ClearRule :: "string \<Rightarrow> int \<Rightarrow> int \<Rightarrow> int \<Rightarrow> tables \<Rightarrow> tables outcome" where
  "ClearRule owner pid week wd tb =
     (if \<not> owns_permit owner pid tb then Inl NotFound
      else Inr (drop_rules (same_slot pid week wd) tb))"

section \<open>Copying a schedule\<close>

definition copied_rule :: "int \<Rightarrow> weekly_rule \<Rightarrow> tables \<Rightarrow> tables outcome" where
  "copied_rule dst r tb = insert_rule dst (r_Week r) (r_Weekday r) (r_VehicleID r) (r_Empty r) tb"

fun insert_rules :: "(weekly_rule \<Rightarrow> tables \<Rightarrow> tables outcome) \<Rightarrow> weekly_rule list \<Rightarrow> tables
    \<Rightarrow> tables outcome" where
  "insert_rules ins [] tb = Inr tb"
| "insert_rules ins (r # rs) tb =
     (case ins r tb of Inl e \<Rightarrow> Inl e | Inr tb' \<Rightarrow> insert_rules ins rs tb')"

text \<open>
  The copied booking: no \<open>guest_token_id\<close>, so the copy is the household's own, whoever made
  the booking it copies.
\<close>

definition copied_override :: "int \<Rightarrow> override \<Rightarrow> tables \<Rightarrow> override" where
  "copied_override dst ov tb =
     ov\<lparr>o_ID := tb_LastOverride tb + 1, o_PermitID := dst, o_GuestTokenID := 0\<rparr>"

fun copy_overrides :: "int \<Rightarrow> override list \<Rightarrow> tables \<Rightarrow> tables" where
  "copy_overrides dst [] tb = tb"
| "copy_overrides dst (ov # ovs) tb =
     copy_overrides dst ovs
       (tb\<lparr>tb_Overrides := tb_Overrides tb @ [copied_override dst ov tb],
           tb_LastOverride := tb_LastOverride tb + 1\<rparr>)"

definition running_on :: "int \<Rightarrow> time \<Rightarrow> tables \<Rightarrow> override list" where
  "running_on pid now tb = filter (\<lambda>x. o_PermitID x = pid \<and> still_runs now x) (tb_Overrides tb)"

definition rules_on :: "int \<Rightarrow> tables \<Rightarrow> weekly_rule list" where
  "rules_on pid tb = filter (\<lambda>r. r_PermitID r = pid) (tb_Rules tb)"

definition set_cycle :: "int \<Rightarrow> int \<Rightarrow> string \<Rightarrow> tables \<Rightarrow> tables" where
  "set_cycle pid weeks anchor tb =
     tb\<lparr>tb_Permits := map (\<lambda>p. if p_ID p = pid
          then p\<lparr>p_CycleWeeks := weeks, p_CycleAnchor := anchor\<rparr> else p) (tb_Permits tb)\<rparr>"

definition copy_cycle :: "int \<Rightarrow> int \<Rightarrow> tables \<Rightarrow> tables" where
  "copy_cycle src dst tb =
     (case find (\<lambda>p. p_ID p = src) (tb_Permits tb) of
        None \<Rightarrow> tb
      | Some p \<Rightarrow> set_cycle dst (p_CycleWeeks p) (p_CycleAnchor p) tb)"

definition CopySchedule :: "string \<Rightarrow> int \<Rightarrow> int \<Rightarrow> time \<Rightarrow> tables \<Rightarrow> (nat \<times> tables) outcome" where
  "CopySchedule owner src dst now tb =
     (if src = dst then Inl (BadCall ''store: cannot copy a schedule onto itself'')
      else if \<not> (owns_permit owner src tb \<and> owns_permit owner dst tb) then Inl NotFound
      else (let rules = rules_on src tb; ovs = running_on src now tb
            in if rules = [] \<and> ovs = [] then Inr (0, tb)
               else (let cleared = drop_overrides (\<lambda>x. o_PermitID x = dst \<and> still_runs now x)
                                     (drop_rules (\<lambda>r. r_PermitID r = dst) tb)
                     in case insert_rules (copied_rule dst) rules cleared of
                          Inl e \<Rightarrow> Inl e
                        | Inr tb' \<Rightarrow> Inr (length rules + length ovs,
                                         copy_overrides dst ovs (copy_cycle src dst tb')))))"

section \<open>The roster cycle\<close>

text \<open>\<open>cycleWeeksTx\<close>: the owner's permit's cycle length, at least 1.\<close>

definition cycleWeeksTx :: "string \<Rightarrow> int \<Rightarrow> tables \<Rightarrow> int option" where
  "cycleWeeksTx owner pid tb = map_option (\<lambda>n. if n < 1 then 1 else n) (permit_weeks owner pid tb)"

text \<open>
  \<open>grow_weeks weeks k to\<close>: the loop of \<open>GrowCycle\<close> from \<open>k\<close> on; week \<open>k\<close> is filled with the
  rules of week \<open>k - weeks\<close>. The week count returned beside an error is not read by callers.
\<close>

definition grown_rule :: "int \<Rightarrow> weekly_rule \<Rightarrow> tables \<Rightarrow> tables outcome" where
  "grown_rule k r tb =
     insert_rule (r_PermitID r) k (r_Weekday r) (r_VehicleID r) (r_Empty r) tb"

fun grow_weeks :: "int \<Rightarrow> int \<Rightarrow> int list \<Rightarrow> tables \<Rightarrow> tables outcome" where
  "grow_weeks pid weeks [] tb = Inr tb"
| "grow_weeks pid weeks (k # ks) tb =
     (case insert_rules (grown_rule k)
             (filter (\<lambda>r. r_Week r = k - weeks) (rules_on pid tb)) tb of
        Inl e \<Rightarrow> Inl e
      | Inr tb' \<Rightarrow> grow_weeks pid weeks ks tb')"

definition GrowCycle :: "string \<Rightarrow> int \<Rightarrow> string \<Rightarrow> int \<Rightarrow> tables \<Rightarrow> (int \<times> tables) outcome" where
  "GrowCycle owner pid anchor to tb =
     (case cycleWeeksTx owner pid tb of
        None \<Rightarrow> Inl NotFound
      | Some weeks \<Rightarrow>
          if to \<le> weeks \<or> max_cycle_weeks < to then Inl CycleWeek
          else (case grow_weeks pid weeks [weeks..to - 1] tb of
                  Inl e \<Rightarrow> Inl e
                | Inr tb' \<Rightarrow> Inr (to, set_cycle pid to anchor tb')))"

definition ShrinkCycle :: "string \<Rightarrow> int \<Rightarrow> string \<Rightarrow> int \<Rightarrow> tables
    \<Rightarrow> (weekly_rule list \<times> tables) outcome" where
  "ShrinkCycle owner pid anchor to tb =
     (case cycleWeeksTx owner pid tb of
        None \<Rightarrow> Inl NotFound
      | Some weeks \<Rightarrow>
          if to < 1 \<or> weeks \<le> to then Inl CycleWeek
          else Inr (sort_key r_Week (sort_key r_Weekday
                      (filter (\<lambda>r. to \<le> r_Week r) (rules_on pid tb))),
                    set_cycle pid to (if to = 1 then [] else anchor)
                      (drop_rules (\<lambda>r. r_PermitID r = pid \<and> to \<le> r_Week r) tb)))"

definition nullableVehicle :: "weekly_rule \<Rightarrow> int" where
  "nullableVehicle r = (if r_Empty r \<or> r_VehicleID r = 0 then 0 else r_VehicleID r)"

fun restore_rules :: "int \<Rightarrow> int \<Rightarrow> int \<Rightarrow> weekly_rule list \<Rightarrow> tables \<Rightarrow> tables outcome" where
  "restore_rules pid weeks to [] tb = Inr tb"
| "restore_rules pid weeks to (r # rs) tb =
     (if r_Week r < weeks \<or> to \<le> r_Week r then Inl CycleWeek
      else (case upsert_rule pid (r_Week r) (r_Weekday r) (nullableVehicle r) (r_Empty r) tb of
              Inl e \<Rightarrow> Inl e
            | Inr tb' \<Rightarrow> restore_rules pid weeks to rs tb'))"

definition RestoreCycle :: "string \<Rightarrow> int \<Rightarrow> weekly_rule list \<Rightarrow> string \<Rightarrow> int \<Rightarrow> tables
    \<Rightarrow> (int \<times> tables) outcome" where
  "RestoreCycle owner pid rules anchor to tb =
     (case cycleWeeksTx owner pid tb of
        None \<Rightarrow> Inl NotFound
      | Some weeks \<Rightarrow>
          if to \<le> weeks \<or> max_cycle_weeks < to then Inl CycleWeek
          else (case restore_rules pid weeks to rules tb of
                  Inl e \<Rightarrow> Inl e
                | Inr tb' \<Rightarrow> Inr (to, set_cycle pid to anchor tb')))"

section \<open>Bookings\<close>

definition MaxLiveOverridesPerPermit :: nat where "MaxLiveOverridesPerPermit = 50"
definition MaxLiveGuestOverridesPerPermit :: nat where "MaxLiveGuestOverridesPerPermit = 20"

definition live_count :: "int \<Rightarrow> time \<Rightarrow> tables \<Rightarrow> nat" where
  "live_count pid now tb = length (running_on pid now tb)"

definition guest_count :: "int \<Rightarrow> time \<Rightarrow> tables \<Rightarrow> nat" where
  "guest_count pid now tb = length (filter guest_booking (running_on pid now tb))"

text \<open>What a caller asks to book; \<open>endsAtSQL\<close> keeps an absent end as NULL.\<close>

record booking =
  bk_PermitID :: int
  bk_VehicleID :: int
  bk_Registration :: string
  bk_State :: string
  bk_StartsAt :: time
  bk_EndsAt :: "time option"
  bk_CreatedBy :: string

definition endsAtSQL :: "time option \<Rightarrow> time option" where
  "endsAtSQL e = map_option whole_seconds e"

definition booked_row :: "booking \<Rightarrow> int \<Rightarrow> bool \<Rightarrow> time \<Rightarrow> tables \<Rightarrow> override" where
  "booked_row b tid e now tb =
     \<lparr>o_ID = tb_LastOverride tb + 1, o_PermitID = bk_PermitID b, o_VehicleID = bk_VehicleID b,
      o_Registration = bk_Registration b,
      o_State = (if bk_VehicleID b \<noteq> 0 then [] else bk_State b),
      o_StartsAt = whole_seconds (bk_StartsAt b), o_EndsAt = endsAtSQL (bk_EndsAt b),
      o_CreatedBy = bk_CreatedBy b, o_CreatedAt = nowUTC now, o_GuestTokenID = tid,
      o_Empty = e\<rparr>"

text \<open>\<open>INSERT INTO override\<close>, with its foreign keys.\<close>

definition insert_override :: "booking \<Rightarrow> int \<Rightarrow> bool \<Rightarrow> time \<Rightarrow> tables \<Rightarrow> (int \<times> tables) outcome" where
  "insert_override b tid e now tb =
     (if \<not> has_permit (bk_PermitID b) tb
         \<or> (bk_VehicleID b \<noteq> 0 \<and> \<not> has_vehicle (bk_VehicleID b) tb)
      then Inl ConstraintFailed
      else Inr (tb_LastOverride tb + 1,
                tb\<lparr>tb_Overrides := tb_Overrides tb @ [booked_row b tid e now tb],
                   tb_LastOverride := tb_LastOverride tb + 1\<rparr>))"

definition createOverrideCapped :: "booking \<Rightarrow> nat \<Rightarrow> bool \<Rightarrow> time \<Rightarrow> tables \<Rightarrow> (int \<times> tables) outcome" where
  "createOverrideCapped b limit e now tb =
     (if limit \<le> live_count (bk_PermitID b) now tb then Inl OverrideLimit
      else insert_override b 0 e now tb)"

definition CreateOverrideCapped :: "booking \<Rightarrow> nat \<Rightarrow> time \<Rightarrow> tables \<Rightarrow> (int \<times> tables) outcome" where
  "CreateOverrideCapped b limit now tb =
     (if bk_VehicleID b = 0 \<and> bk_Registration b = []
      then Inl (BadCall ''store: a booking needs a vehicle or a plate; use CreateEmptyOverride to leave the permit empty'')
      else createOverrideCapped b limit False now tb)"

definition CreateEmptyOverride :: "int \<Rightarrow> time \<Rightarrow> time option \<Rightarrow> string \<Rightarrow> nat \<Rightarrow> time \<Rightarrow> tables
    \<Rightarrow> (int \<times> tables) outcome" where
  "CreateEmptyOverride pid startsAt endsAt by limit now tb =
     createOverrideCapped \<lparr>bk_PermitID = pid, bk_VehicleID = 0, bk_Registration = [], bk_State = [],
       bk_StartsAt = startsAt, bk_EndsAt = endsAt, bk_CreatedBy = by\<rparr> limit True now tb"

text \<open>The link may still book: its token, its grant and the account's switch.\<close>

definition link_live :: "int \<Rightarrow> tables \<Rightarrow> bool" where
  "link_live tid tb \<longleftrightarrow>
     list_ex (\<lambda>t. t_ID t = tid \<and> t_RevokedAt t = None \<and>
        list_ex (\<lambda>g. g_ID g = t_GrantID t \<and> g_Enabled g \<and> guests_on (g_Owner g) tb) (tb_Grants tb))
       (tb_Tokens tb)"

definition createOverrideGuarded :: "booking \<Rightarrow> int \<Rightarrow> time \<Rightarrow> tables \<Rightarrow> (int \<times> tables) outcome" where
  "createOverrideGuarded b tid now tb =
     (if (tid = 0 \<or> link_live tid tb)
         \<and> live_count (bk_PermitID b) now tb < MaxLiveOverridesPerPermit
         \<and> (tid = 0 \<or> guest_count (bk_PermitID b) now tb < MaxLiveGuestOverridesPerPermit)
      then insert_override b tid False now tb
      else Inl GuestOverrideRefused)"

definition CreateGuestOverride :: "int \<Rightarrow> int \<Rightarrow> time \<Rightarrow> time option \<Rightarrow> string \<Rightarrow> int \<Rightarrow> time \<Rightarrow> tables
    \<Rightarrow> (int \<times> tables) outcome" where
  "CreateGuestOverride pid vid startsAt endsAt by tid now tb =
     createOverrideGuarded \<lparr>bk_PermitID = pid, bk_VehicleID = vid, bk_Registration = [],
       bk_State = [], bk_StartsAt = startsAt, bk_EndsAt = endsAt, bk_CreatedBy = by\<rparr> tid now tb"

definition CreateGuestPlateOverride :: "int \<Rightarrow> string \<Rightarrow> string \<Rightarrow> time \<Rightarrow> time option \<Rightarrow> string \<Rightarrow> int
    \<Rightarrow> time \<Rightarrow> tables \<Rightarrow> (int \<times> tables) outcome" where
  "CreateGuestPlateOverride pid reg st startsAt endsAt by tid now tb =
     createOverrideGuarded \<lparr>bk_PermitID = pid, bk_VehicleID = 0, bk_Registration = reg,
       bk_State = st, bk_StartsAt = startsAt, bk_EndsAt = endsAt, bk_CreatedBy = by\<rparr> tid now tb"

definition DeleteGuestOverrides :: "int \<Rightarrow> int \<Rightarrow> tables \<Rightarrow> tables outcome" where
  "DeleteGuestOverrides pid tid tb =
     (if tid = 0 then Inl (BadCall ''store: DeleteGuestOverrides requires a guest token id'')
      else Inr (drop_overrides (\<lambda>x. o_PermitID x = pid \<and> o_GuestTokenID x = tid) tb))"

definition PruneOverrides :: "time \<Rightarrow> tables \<Rightarrow> tables" where
  "PruneOverrides before tb =
     drop_overrides (\<lambda>x. case o_EndsAt x of None \<Rightarrow> False | Some e \<Rightarrow> e < whole_seconds before) tb"

definition DeleteOverride :: "string \<Rightarrow> int \<Rightarrow> tables \<Rightarrow> tables outcome" where
  "DeleteOverride owner oid tb =
     (let P = (\<lambda>x. o_ID x = oid \<and> owns_permit owner (o_PermitID x) tb)
      in if list_ex P (tb_Overrides tb) then Inr (drop_overrides P tb) else Inl NotFound)"

definition DeleteOverrideOnPermit :: "string \<Rightarrow> int \<Rightarrow> int \<Rightarrow> tables \<Rightarrow> tables \<times> bool" where
  "DeleteOverrideOnPermit owner pid oid tb =
     (let P = (\<lambda>x. o_ID x = oid \<and> o_PermitID x = pid \<and> owns_permit owner pid tb)
      in (drop_overrides P tb, list_ex P (tb_Overrides tb)))"

section \<open>What is booked\<close>

definition ListOverrides :: "int \<Rightarrow> time \<Rightarrow> tables \<Rightarrow> override list" where
  "ListOverrides pid now tb = sort_key o_StartsAt (running_on pid now tb)"

definition OwnerHasSchedule :: "string \<Rightarrow> time \<Rightarrow> tables \<Rightarrow> bool" where
  "OwnerHasSchedule owner now tb \<longleftrightarrow>
     list_ex (\<lambda>r. owns_permit owner (r_PermitID r) tb) (tb_Rules tb)
     \<or> list_ex (\<lambda>x. owns_permit owner (o_PermitID x) tb \<and> still_runs now x) (tb_Overrides tb)"

definition plate_on :: "override \<Rightarrow> tables \<Rightarrow> string" where
  "plate_on ov tb =
     (if o_Registration ov \<noteq> [] then o_Registration ov
      else (case find (\<lambda>v. v_ID v = o_VehicleID ov) (tb_Vehicles tb) of
              None \<Rightarrow> [] | Some v \<Rightarrow> v_Registration v))"

definition ActiveGuestOverridePlate :: "int \<Rightarrow> int \<Rightarrow> time \<Rightarrow> tables \<Rightarrow> string \<times> bool" where
  "ActiveGuestOverridePlate pid tid now tb =
     (if tid = 0 then ([], False)
      else (case best fresher (filter (\<lambda>x. o_GuestTokenID x = tid \<and> o_StartsAt x \<le> nowUTC now)
                                 (running_on pid now tb)) of
              None \<Rightarrow> ([], False)
            | Some ov \<Rightarrow> (plate_on ov tb, plate_on ov tb \<noteq> [])))"

text \<open>
  The capability behind a guest's booking, asked again just before the council is written to.
\<close>

definition GuestOverrideStillAuthorised :: "int \<Rightarrow> int \<Rightarrow> tables \<Rightarrow> bool" where
  "GuestOverrideStillAuthorised oid tid tb \<longleftrightarrow>
     oid \<noteq> 0 \<and> tid \<noteq> 0 \<and>
     list_ex (\<lambda>x. o_ID x = oid \<and> o_GuestTokenID x = tid \<and>
       list_ex (\<lambda>t. t_ID t = tid \<and> t_RevokedAt t = None \<and>
         list_ex (\<lambda>g. g_ID g = t_GrantID t \<and> g_Enabled g \<and> g_PermitID g = o_PermitID x
             \<and> guests_on (g_Owner g) tb \<and>
             (if o_VehicleID x \<noteq> 0
              then (g_ID g, o_VehicleID x) \<in> set (tb_GrantVehicles tb)
                   \<or> (g_AllVehicles g \<and> owns_vehicle (g_Owner g) (o_VehicleID x) tb)
              else g_AllowPlate g))
          (tb_Grants tb))
        (tb_Tokens tb))
      (tb_Overrides tb)"

definition GuestTokenStillLive :: "int \<Rightarrow> tables \<Rightarrow> bool" where
  "GuestTokenStillLive tid tb \<longleftrightarrow> tid \<noteq> 0 \<and> link_live tid tb"

definition GuestGrantPermit :: "string \<Rightarrow> int \<Rightarrow> tables \<Rightarrow> int option" where
  "GuestGrantPermit owner gid tb =
     map_option g_PermitID (find (\<lambda>g. g_ID g = gid \<and> g_Owner g = owner) (tb_Grants tb))"

definition GuestTokenPermit :: "string \<Rightarrow> int \<Rightarrow> tables \<Rightarrow> int option" where
  "GuestTokenPermit owner tid tb =
     (case token_of tid tb of None \<Rightarrow> None | Some t \<Rightarrow> GuestGrantPermit owner (t_GrantID t) tb)"

end
