(* ===== verification/Passes.thy ===== *)
theory Passes
  imports Bookings "HOL-Library.Char_ord" "HOL-Library.List_Lexorder"
begin

text \<open>
  Guest links: \<open>internal/store/guests.go\<close> (emailed passes), \<open>internal/store/guest_qr.go\<close> (the
  on-screen visitor code and the printed door code) and \<open>internal/store/guest_picker.go\<close> (the
  household's own quick picker). A link is a row of \<open>guest_token\<close> under a row of
  \<open>guest_grant\<close>. Taking a link away also takes its running bookings off the permit
  (\<open>sweepLiveGuestOverrides\<close>), because nothing else can reach them afterwards.
\<close>

section \<open>Inserting links\<close>

definition new_grant :: "string \<Rightarrow> string \<Rightarrow> int \<Rightarrow> string \<Rightarrow> time \<Rightarrow> guest_grant" where
  "new_grant owner createdBy pid label now =
     \<lparr>g_ID = 0, g_Owner = owner, g_PermitID = pid, g_Label = label, g_AllowOvernight = False,
      g_AllowPlate = False, g_OnScreen = False, g_RequestOnly = False, g_Picker = False,
      g_AllVehicles = False, g_Enabled = True, g_CreatedAt = nowUTC now, g_CreatedBy = createdBy,
      g_PassNudgeSent = None\<rparr>"

definition new_token :: "int \<Rightarrow> string \<Rightarrow> string \<Rightarrow> string \<Rightarrow> time option \<Rightarrow> time \<Rightarrow> guest_token" where
  "new_token gid email hash seal expires now =
     \<lparr>t_ID = 0, t_GrantID = gid, t_RecipientEmail = email, t_Hash = hash, t_Sealed = seal,
      t_RevokedAt = None, t_ExpiresAt = expires, t_CreatedAt = nowUTC now,
      t_BaselinePlate = [], t_BaselineUntil = None, t_UsedAt = None\<rparr>"

text \<open>\<open>INSERT INTO guest_grant\<close> and \<open>guest_token\<close> (whose hash is unique).\<close>

definition insert_grant :: "guest_grant \<Rightarrow> tables \<Rightarrow> (int \<times> tables) outcome" where
  "insert_grant g tb =
     (if \<not> has_permit (g_PermitID g) tb then Inl ConstraintFailed
      else (let gid = tb_LastGrant tb + 1
            in Inr (gid, tb\<lparr>tb_Grants := tb_Grants tb @ [g\<lparr>g_ID := gid\<rparr>], tb_LastGrant := gid\<rparr>)))"

definition insert_token :: "guest_token \<Rightarrow> tables \<Rightarrow> tables outcome" where
  "insert_token t tb =
     (if \<not> list_ex (\<lambda>g. g_ID g = t_GrantID t) (tb_Grants tb)
         \<or> list_ex (\<lambda>t'. t_Hash t' = t_Hash t) (tb_Tokens tb)
      then Inl ConstraintFailed
      else (let tid = tb_LastToken tb + 1
            in Inr (tb\<lparr>tb_Tokens := tb_Tokens tb @ [t\<lparr>t_ID := tid\<rparr>], tb_LastToken := tid\<rparr>)))"

text \<open>The rego list of a grant: every rego must be the owner's (\<open>insertGrantVehicles\<close>).\<close>

fun insertGrantVehicles :: "string \<Rightarrow> int \<Rightarrow> int list \<Rightarrow> tables \<Rightarrow> tables outcome" where
  "insertGrantVehicles owner gid [] tb = Inr tb"
| "insertGrantVehicles owner gid (vid # vids) tb =
     (if \<not> owns_vehicle owner vid tb then Inl NotFound
      else if (gid, vid) \<in> set (tb_GrantVehicles tb) then Inl ConstraintFailed
      else insertGrantVehicles owner gid vids
             (tb\<lparr>tb_GrantVehicles := tb_GrantVehicles tb @ [(gid, vid)]\<rparr>))"

fun insert_recipients :: "int \<Rightarrow> (string \<times> string) list \<Rightarrow> time \<Rightarrow> tables \<Rightarrow> tables outcome" where
  "insert_recipients gid [] now tb = Inr tb"
| "insert_recipients gid ((email, hash) # rs) now tb =
     (case insert_token (new_token gid email hash [] None now) tb of
        Inl e \<Rightarrow> Inl e
      | Inr tb' \<Rightarrow> insert_recipients gid rs now tb')"

section \<open>Sweeping the bookings of a link\<close>

definition tokens_where :: "(guest_grant \<Rightarrow> bool) \<Rightarrow> tables \<Rightarrow> int list" where
  "tokens_where P tb =
     map t_ID (filter (\<lambda>t. list_ex (\<lambda>g. g_ID g = t_GrantID t \<and> P g) (tb_Grants tb)) (tb_Tokens tb))"

definition sweepLiveGuestOverrides :: "time \<Rightarrow> int list \<Rightarrow> tables \<Rightarrow> tables" where
  "sweepLiveGuestOverrides now tids tb =
     drop_overrides (\<lambda>x. guest_booking x \<and> still_runs now x \<and> o_GuestTokenID x \<in> set tids) tb"

text \<open>The sweep behind narrowing a link's rego list.\<close>

definition sweep_withdrawn :: "time \<Rightarrow> int \<Rightarrow> tables \<Rightarrow> tables \<times> nat" where
  "sweep_withdrawn now gid tb =
     (let tids = map t_ID (filter (\<lambda>t. t_GrantID t = gid) (tb_Tokens tb));
          P = (\<lambda>x. guest_booking x \<and> still_runs now x \<and> o_VehicleID x \<noteq> 0
                 \<and> o_GuestTokenID x \<in> set tids
                 \<and> (gid, o_VehicleID x) \<notin> set (tb_GrantVehicles tb))
      in (drop_overrides P tb, length (filter P (tb_Overrides tb))))"

definition clear_grant_vehicles :: "int \<Rightarrow> tables \<Rightarrow> tables" where
  "clear_grant_vehicles gid tb =
     tb\<lparr>tb_GrantVehicles := filter (\<lambda>gv. fst gv \<noteq> gid) (tb_GrantVehicles tb)\<rparr>"

section \<open>Emailed passes\<close>

definition CreateGuestGrant :: "string \<Rightarrow> string \<Rightarrow> int \<Rightarrow> string \<Rightarrow> bool \<Rightarrow> int list
    \<Rightarrow> (string \<times> string) list \<Rightarrow> time \<Rightarrow> tables \<Rightarrow> (int \<times> tables) outcome" where
  "CreateGuestGrant owner createdBy pid label overnight vids recipients now tb =
     (if \<not> owns_permit owner pid tb then Inl NotFound
      else (case insert_grant ((new_grant owner createdBy pid label now)
                   \<lparr>g_AllowOvernight := overnight\<rparr>) tb of
              Inl e \<Rightarrow> Inl e
            | Inr (gid, tb1) \<Rightarrow>
                (case insertGrantVehicles owner gid vids tb1 of
                   Inl e \<Rightarrow> Inl e
                 | Inr tb2 \<Rightarrow>
                     (case insert_recipients gid recipients now tb2 of
                        Inl e \<Rightarrow> Inl e
                      | Inr tb3 \<Rightarrow> Inr (gid, tb3)))))"

text \<open>Only a pass that is managed as one: the on-screen and printed codes are excluded.\<close>

definition emailed :: "guest_grant \<Rightarrow> bool" where
  "emailed g \<longleftrightarrow> \<not> g_OnScreen g \<and> \<not> g_RequestOnly g"

definition UpdateGuestGrant :: "string \<Rightarrow> int \<Rightarrow> string \<Rightarrow> bool \<Rightarrow> int list \<Rightarrow> time \<Rightarrow> tables
    \<Rightarrow> (nat \<times> tables) outcome" where
  "UpdateGuestGrant owner gid label overnight vids now tb =
     (let P = (\<lambda>g. g_ID g = gid \<and> g_Owner g = owner \<and> emailed g)
      in if \<not> list_ex P (tb_Grants tb) then Inl NotFound
         else (let tb1 = clear_grant_vehicles gid
                 (on_grants (\<lambda>g. if P g then g\<lparr>g_Label := label, g_AllowOvernight := overnight\<rparr>
                                 else g) tb)
               in case insertGrantVehicles owner gid vids tb1 of
                    Inl e \<Rightarrow> Inl e
                  | Inr tb2 \<Rightarrow> (case sweep_withdrawn now gid tb2 of (tb3, n) \<Rightarrow> Inr (n, tb3))))"

text \<open>\<open>AddGuestTokens\<close> skips an address that already holds a live link.\<close>

fun add_recipients :: "int \<Rightarrow> (string \<times> string) list \<Rightarrow> time \<Rightarrow> tables \<Rightarrow> (string list \<times> tables) outcome" where
  "add_recipients gid [] now tb = Inr ([], tb)"
| "add_recipients gid ((email, hash) # rs) now tb =
     (if list_ex (\<lambda>t. t_GrantID t = gid \<and> t_RecipientEmail t = email \<and> t_RevokedAt t = None) (tb_Tokens tb)
      then add_recipients gid rs now tb
      else (case insert_token (new_token gid email hash [] None now) tb of
              Inl e \<Rightarrow> Inl e
            | Inr tb' \<Rightarrow> (case add_recipients gid rs now tb' of
                            Inl e \<Rightarrow> Inl e
                          | Inr (added, tb'') \<Rightarrow> Inr (email # added, tb''))))"

definition AddGuestTokens :: "string \<Rightarrow> int \<Rightarrow> (string \<times> string) list \<Rightarrow> time \<Rightarrow> tables
    \<Rightarrow> (string list \<times> tables) outcome" where
  "AddGuestTokens owner gid recipients now tb =
     (if \<not> list_ex (\<lambda>g. g_ID g = gid \<and> g_Owner g = owner) (tb_Grants tb) then Inl NotFound
      else add_recipients gid recipients now tb)"

text \<open>A re-bound token row: the hash changes, the identifier and the baseline stay.\<close>

definition rebound :: "string \<Rightarrow> time \<Rightarrow> guest_token \<Rightarrow> guest_token" where
  "rebound hash now t = t\<lparr>t_Hash := hash, t_CreatedAt := nowUTC now, t_RevokedAt := None,
     t_ExpiresAt := None\<rparr>"

text \<open>The row with the highest identifier.\<close>

definition newest :: "guest_token list \<Rightarrow> guest_token option" where
  "newest ts = best (\<lambda>a b. t_ID b < t_ID a) ts"

definition hash_taken :: "string \<Rightarrow> int \<Rightarrow> tables \<Rightarrow> bool" where
  "hash_taken hash tid tb \<longleftrightarrow> list_ex (\<lambda>t. t_Hash t = hash \<and> t_ID t \<noteq> tid) (tb_Tokens tb)"

definition ResetGuestToken :: "string \<Rightarrow> int \<Rightarrow> string \<Rightarrow> string \<Rightarrow> time \<Rightarrow> tables
    \<Rightarrow> (int \<times> tables) outcome" where
  "ResetGuestToken owner gid email newHash now tb =
     (case find (\<lambda>g. g_ID g = gid \<and> g_Owner g = owner \<and> emailed g) (tb_Grants tb) of
        None \<Rightarrow> Inl NotFound
      | Some g \<Rightarrow>
          (case newest (filter (\<lambda>t. t_GrantID t = gid \<and> t_RecipientEmail t = email) (tb_Tokens tb)) of
             None \<Rightarrow> Inl NotFound
           | Some keep \<Rightarrow>
               if hash_taken newHash (t_ID keep) tb then Inl ConstraintFailed
               else Inr (g_PermitID g,
                 on_tokens (\<lambda>t. if t_GrantID t = gid \<and> t_RecipientEmail t = email
                                   \<and> t_ID t \<noteq> t_ID keep \<and> t_RevokedAt t = None
                                then t\<lparr>t_RevokedAt := Some (nowUTC now)\<rparr> else t)
                  (on_tokens (\<lambda>t. if t_ID t = t_ID keep then rebound newHash now t else t) tb))))"

definition ForgetRevokedRecipients :: "time \<Rightarrow> tables \<Rightarrow> tables" where
  "ForgetRevokedRecipients before tb =
     on_tokens (\<lambda>t. if t_RecipientEmail t \<noteq> []
                       \<and> (case t_RevokedAt t of None \<Rightarrow> False | Some r \<Rightarrow> r < whole_seconds before)
                    then t\<lparr>t_RecipientEmail := []\<rparr> else t) tb"

definition RevokeGuestToken :: "string \<Rightarrow> int \<Rightarrow> time \<Rightarrow> tables \<Rightarrow> tables outcome" where
  "RevokeGuestToken owner tid now tb =
     (let P = (\<lambda>t. t_ID t = tid \<and> t_RevokedAt t = None
                 \<and> list_ex (\<lambda>g. g_ID g = t_GrantID t \<and> g_Owner g = owner \<and> emailed g) (tb_Grants tb))
      in if \<not> list_ex P (tb_Tokens tb) then Inl NotFound
         else (let tb1 = on_tokens (\<lambda>t. if P t then t\<lparr>t_RevokedAt := Some (nowUTC now)\<rparr> else t) tb;
                   siblings = filter (\<lambda>s. list_ex (\<lambda>cur. t_ID cur = tid \<and> t_GrantID cur = t_GrantID s
                                \<and> t_RecipientEmail cur = t_RecipientEmail s) (tb_Tokens tb1)) (tb_Tokens tb1)
               in Inr (sweepLiveGuestOverrides now (map t_ID siblings) tb1)))"

definition DeleteGuestGrant :: "string \<Rightarrow> int \<Rightarrow> time \<Rightarrow> tables \<Rightarrow> tables outcome" where
  "DeleteGuestGrant owner gid now tb =
     (let P = (\<lambda>g. g_ID g = gid \<and> g_Owner g = owner)
      in if \<not> list_ex P (tb_Grants tb) then Inl NotFound
         else Inr (drop_grants P (sweepLiveGuestOverrides now (tokens_where P tb) tb)))"

section \<open>Opening a link\<close>

text \<open>\<open>queryVehicles ... ORDER BY v.label, v.registration\<close>.\<close>

definition by_label :: "owned_vehicle list \<Rightarrow> owned_vehicle list" where
  "by_label vs = sort_key v_Label (sort_key v_Registration vs)"

definition ListVehiclesFor :: "string \<Rightarrow> tables \<Rightarrow> owned_vehicle list" where
  "ListVehiclesFor owner tb = by_label (filter (\<lambda>v. v_Owner v = owner) (tb_Vehicles tb))"

definition grant_regos :: "int \<Rightarrow> tables \<Rightarrow> owned_vehicle list" where
  "grant_regos gid tb =
     by_label (filter (\<lambda>v. (gid, v_ID v) \<in> set (tb_GrantVehicles tb)) (tb_Vehicles tb))"

record guest_context =
  gc_Grant :: guest_grant
  gc_TokenID :: int
  gc_Recipient :: string
  gc_Vehicles :: "owned_vehicle list"
  gc_BaselinePlate :: string
  gc_BaselineUntil :: "time option"

definition token_usable :: "time \<Rightarrow> guest_token \<Rightarrow> bool" where
  "token_usable now t \<longleftrightarrow> t_RevokedAt t = None
     \<and> (case t_ExpiresAt t of None \<Rightarrow> True | Some e \<Rightarrow> nowUTC now < e)"

definition GuestContextByTokenHash :: "string \<Rightarrow> time \<Rightarrow> tables \<Rightarrow> guest_context option" where
  "GuestContextByTokenHash hash now tb =
     (case find (\<lambda>t. t_Hash t = hash \<and> token_usable now t) (tb_Tokens tb) of
        None \<Rightarrow> None
      | Some t \<Rightarrow>
          (case find (\<lambda>g. g_ID g = t_GrantID t \<and> g_Enabled g \<and> guests_on (g_Owner g) tb) (tb_Grants tb) of
             None \<Rightarrow> None
           | Some g \<Rightarrow> Some \<lparr>gc_Grant = g, gc_TokenID = t_ID t, gc_Recipient = t_RecipientEmail t,
                 gc_Vehicles = (if g_AllVehicles g then ListVehiclesFor (g_Owner g) tb
                                else grant_regos (g_ID g) tb),
                 gc_BaselinePlate = t_BaselinePlate t, gc_BaselineUntil = t_BaselineUntil t\<rparr>))"

definition GuestGrantKinds :: "string \<Rightarrow> tables \<Rightarrow> nat \<times> nat \<times> nat" where
  "GuestGrantKinds owner tb =
     (let gs = filter (\<lambda>g. g_Owner g = owner) (tb_Grants tb)
      in (length (filter (\<lambda>g. emailed g \<and> \<not> g_Picker g) gs),
          length (filter g_RequestOnly gs), length (filter g_OnScreen gs)))"

definition GuestTokenRecipient :: "string \<Rightarrow> int \<Rightarrow> tables \<Rightarrow> string option" where
  "GuestTokenRecipient owner tid tb =
     (case token_of tid tb of
        None \<Rightarrow> None
      | Some t \<Rightarrow> if list_ex (\<lambda>g. g_ID g = t_GrantID t \<and> g_Owner g = owner) (tb_Grants tb)
                  then Some (t_RecipientEmail t) else None)"

definition GrantTokenID :: "int \<Rightarrow> tables \<Rightarrow> int option" where
  "GrantTokenID gid tb =
     map_option t_ID (newest (filter (\<lambda>t. t_GrantID t = gid) (tb_Tokens tb)))"

section \<open>The baseline of a run of activations\<close>

definition SetGuestBaseline :: "int \<Rightarrow> string \<Rightarrow> time \<Rightarrow> tables \<Rightarrow> tables" where
  "SetGuestBaseline tid plate until tb =
     on_tokens (\<lambda>t. if t_ID t = tid then t\<lparr>t_BaselinePlate := plate,
                       t_BaselineUntil := Some (whole_seconds until)\<rparr> else t) tb"

text \<open>No window is active: none was captured, or it is over.\<close>

definition window_over :: "time \<Rightarrow> guest_token \<Rightarrow> bool" where
  "window_over now t \<longleftrightarrow>
     (case t_BaselineUntil t of None \<Rightarrow> True | Some u \<Rightarrow> u < whole_seconds now)"

definition captured :: "string \<Rightarrow> time \<Rightarrow> time \<Rightarrow> guest_token \<Rightarrow> guest_token" where
  "captured plate until now t =
     t\<lparr>t_BaselinePlate := (if window_over now t then plate else t_BaselinePlate t),
       t_BaselineUntil := (if window_over now t then Some (whole_seconds until)
          else (case t_BaselineUntil t of
                  None \<Rightarrow> None
                | Some u \<Rightarrow> if u < whole_seconds until then Some (whole_seconds until) else Some u)),
       t_UsedAt := (if t_UsedAt t = None then Some (whole_seconds now) else t_UsedAt t)\<rparr>"

definition CaptureOrExtendGuestBaseline :: "int \<Rightarrow> string \<Rightarrow> time \<Rightarrow> time \<Rightarrow> tables
    \<Rightarrow> ((string \<times> time option) \<times> tables) outcome" where
  "CaptureOrExtendGuestBaseline tid plate until now tb =
     (case token_of tid tb of
        None \<Rightarrow> Inl (BadCall ''sql: no rows in result set'')
      | Some t \<Rightarrow> Inr ((t_BaselinePlate (captured plate until now t),
                        t_BaselineUntil (captured plate until now t)),
                       on_tokens (\<lambda>t. if t_ID t = tid then captured plate until now t else t) tb))"

definition no_baseline :: "guest_token \<Rightarrow> guest_token" where
  "no_baseline t = t\<lparr>t_BaselinePlate := [], t_BaselineUntil := None\<rparr>"

definition ClearGuestBaseline :: "int \<Rightarrow> tables \<Rightarrow> tables" where
  "ClearGuestBaseline tid tb = on_tokens (\<lambda>t. if t_ID t = tid then no_baseline t else t) tb"

section \<open>The account's switch\<close>

definition GuestsEnabled :: "string \<Rightarrow> tables \<Rightarrow> bool" where
  "GuestsEnabled owner tb = guests_on owner tb"

definition SetGuestsEnabled :: "string \<Rightarrow> bool \<Rightarrow> time \<Rightarrow> tables \<Rightarrow> tables" where
  "SetGuestsEnabled owner enabled now tb =
     (let tb1 = tb\<lparr>tb_GuestsEnabled := (tb_GuestsEnabled tb)(owner \<mapsto> enabled)\<rparr>
      in if enabled then tb1
         else sweepLiveGuestOverrides now (tokens_where (\<lambda>g. g_Owner g = owner) tb1) tb1)"

section \<open>Moving links to a renewed permit\<close>

record moved =
  mv_Count :: nat
  mv_StrandedPoster :: bool
  mv_RetiredPicker :: bool

definition MoveGuestGrants :: "string \<Rightarrow> int \<Rightarrow> int \<Rightarrow> time \<Rightarrow> tables \<Rightarrow> (moved \<times> tables) outcome" where
  "MoveGuestGrants owner src dst now tb =
     (if src = dst then Inl (BadCall ''store: cannot move guest passes onto the same permit'')
      else if \<not> (owns_permit owner src tb \<and> owns_permit owner dst tb) then Inl NotFound
      else (let on = (\<lambda>pid g. g_Owner g = owner \<and> g_PermitID g = pid);
                dstPrinted = list_ex (\<lambda>g. on dst g \<and> g_RequestOnly g) (tb_Grants tb);
                stranded = dstPrinted \<and> list_ex (\<lambda>g. on src g \<and> g_RequestOnly g) (tb_Grants tb);
                otherPicker = list_ex (\<lambda>g. g_Owner g = owner \<and> g_Picker g \<and> g_PermitID g \<noteq> src) (tb_Grants tb);
                srcPicker = list_ex (\<lambda>g. on src g \<and> g_Picker g) (tb_Grants tb);
                retire = otherPicker \<and> srcPicker;
                tb1 = (if retire
                       then drop_grants (\<lambda>g. on src g \<and> g_Picker g)
                              (sweepLiveGuestOverrides now (tokens_where (\<lambda>g. on src g \<and> g_Picker g) tb) tb)
                       else tb);
                moving = (\<lambda>g. on src g \<and> (dstPrinted \<longrightarrow> \<not> g_RequestOnly g));
                gids = map g_ID (filter moving (tb_Grants tb1));
                tb2 = on_tokens (\<lambda>t. if t_GrantID t \<in> set gids then no_baseline t else t) tb1;
                tb3 = on_requests (\<lambda>q. if q_Status q = Pending \<and> q_PermitID q = src \<and> q_GrantID q \<in> set gids
                                       then q\<lparr>q_PermitID := dst\<rparr> else q) tb2
            in Inr (\<lparr>mv_Count = length gids, mv_StrandedPoster = stranded, mv_RetiredPicker = retire\<rparr>,
                    on_grants (\<lambda>g. if moving g then g\<lparr>g_PermitID := dst\<rparr> else g) tb3)))"

section \<open>Passes nobody used\<close>

definition live_recipients :: "int \<Rightarrow> tables \<Rightarrow> guest_token list" where
  "live_recipients gid tb = filter (\<lambda>t. t_GrantID t = gid \<and> t_RevokedAt t = None) (tb_Tokens tb)"

definition passRecipients :: "int \<Rightarrow> tables \<Rightarrow> string list" where
  "passRecipients gid tb =
     map t_RecipientEmail (sort_key t_ID (filter (\<lambda>t. t_RecipientEmail t \<noteq> []) (live_recipients gid tb)))"

record unused_pass =
  up_GrantID :: int
  up_Owner :: string
  up_PermitID :: int
  up_PermitLabel :: string
  up_Label :: string
  up_Recipients :: nat
  up_To :: "string list"
  up_CreatedAt :: time

definition pass_permit_label :: "permit \<Rightarrow> string" where
  "pass_permit_label p =
     (if p_Label p \<noteq> [] then p_Label p
      else if p_PermitType p \<noteq> [] then p_PermitType p else ''visitor permit'')"

definition unused_candidate :: "time \<Rightarrow> tables \<Rightarrow> guest_grant \<Rightarrow> bool" where
  "unused_candidate before tb g \<longleftrightarrow>
     g_Enabled g \<and> \<not> g_Picker g \<and> emailed g \<and> g_PassNudgeSent g = None
     \<and> g_CreatedAt g \<le> whole_seconds before
     \<and> live_recipients (g_ID g) tb \<noteq> []
     \<and> \<not> list_ex (\<lambda>t. t_GrantID t = g_ID g \<and> t_UsedAt t \<noteq> None) (tb_Tokens tb)"

definition UnusedPassCandidates :: "time \<Rightarrow> tables \<Rightarrow> unused_pass list" where
  "UnusedPassCandidates before tb =
     concat (map (\<lambda>g.
       (case find (\<lambda>p. p_ID p = g_PermitID g) (tb_Permits tb) of
          None \<Rightarrow> []
        | Some p \<Rightarrow> [\<lparr>up_GrantID = g_ID g, up_Owner = g_Owner g, up_PermitID = p_ID p,
            up_PermitLabel = pass_permit_label p, up_Label = g_Label g,
            up_Recipients = length (live_recipients (g_ID g) tb),
            up_To = passRecipients (g_ID g) tb, up_CreatedAt = g_CreatedAt g\<rparr>]))
       (sort_key g_CreatedAt (filter (unused_candidate before tb) (tb_Grants tb))))"

definition MarkPassNudgeSent :: "int \<Rightarrow> time \<Rightarrow> tables \<Rightarrow> tables" where
  "MarkPassNudgeSent gid now tb =
     on_grants (\<lambda>g. if g_ID g = gid then g\<lparr>g_PassNudgeSent := Some (nowUTC now)\<rparr> else g) tb"

text \<open>\<open>ListGuestGrants\<close>: the managed passes, newest first, with their regos and links.\<close>

definition managed :: "string \<Rightarrow> guest_grant \<Rightarrow> bool" where
  "managed owner g \<longleftrightarrow> g_Owner g = owner \<and> emailed g \<and> \<not> g_Picker g"

definition listGuestTokens :: "int \<Rightarrow> tables \<Rightarrow> guest_token list" where
  "listGuestTokens gid tb = sort_key t_ID (filter (\<lambda>t. t_GrantID t = gid) (tb_Tokens tb))"

definition ListGuestGrants :: "string \<Rightarrow> tables
    \<Rightarrow> (guest_grant \<times> owned_vehicle list \<times> guest_token list) list" where
  "ListGuestGrants owner tb =
     map (\<lambda>g. (g, grant_regos (g_ID g) tb, listGuestTokens (g_ID g) tb))
       (rev (sort_key g_ID (filter (managed owner) (tb_Grants tb))))"
section \<open>On-screen and printed codes\<close>

text \<open>The grant still backs a running booking.\<close>

definition backs_live :: "time \<Rightarrow> tables \<Rightarrow> guest_grant \<Rightarrow> bool" where
  "backs_live now tb g \<longleftrightarrow>
     list_ex (\<lambda>x. guest_booking x \<and> still_runs now x \<and>
        list_ex (\<lambda>t. t_ID t = o_GuestTokenID x \<and> t_GrantID t = g_ID g) (tb_Tokens tb))
       (tb_Overrides tb)"

text \<open>
  Superseding a code: a grant that still backs a booking is disabled, so that its row and the
  booking's stay connected; any other is deleted. What was asked under a disabled code is
  closed.
\<close>

definition retire_grants :: "(guest_grant \<Rightarrow> bool) \<Rightarrow> time \<Rightarrow> tables \<Rightarrow> tables" where
  "retire_grants P now tb =
     (let tb1 = on_grants (\<lambda>g. if P g \<and> backs_live now tb g then g\<lparr>g_Enabled := False\<rparr> else g) tb
      in drop_grants (\<lambda>g. P g \<and> \<not> backs_live now tb1 g) tb1)"

definition deny_pending :: "(guest_grant \<Rightarrow> bool) \<Rightarrow> time \<Rightarrow> tables \<Rightarrow> tables" where
  "deny_pending P now tb =
     on_requests (\<lambda>q. if q_Status q = Pending
                         \<and> list_ex (\<lambda>g. g_ID g = q_GrantID q \<and> P g) (tb_Grants tb)
                      then q\<lparr>q_Status := Denied, q_DecidedAt := Some (nowUTC now), q_DecidedBy := []\<rparr>
                      else q) tb"

definition expired_on_screen :: "string \<Rightarrow> time \<Rightarrow> tables \<Rightarrow> guest_grant \<Rightarrow> bool" where
  "expired_on_screen owner now tb g \<longleftrightarrow>
     g_Owner g = owner \<and> g_OnScreen g \<and>
     list_ex (\<lambda>t. t_GrantID t = g_ID g
                \<and> (case t_ExpiresAt t of None \<Rightarrow> False | Some e \<Rightarrow> e \<le> nowUTC now)) (tb_Tokens tb)"

definition CreateQRGrant :: "string \<Rightarrow> string \<Rightarrow> int \<Rightarrow> string \<Rightarrow> string \<Rightarrow> dur \<Rightarrow> time \<Rightarrow> tables
    \<Rightarrow> (int \<times> tables) outcome" where
  "CreateQRGrant owner createdBy pid hash seal ttl now tb =
     (if \<not> owns_permit owner pid tb then Inl NotFound
      else (let tb1 = retire_grants (expired_on_screen owner now tb) now tb;
                tb2 = deny_pending (\<lambda>g. \<not> g_Enabled g \<and> g_Owner g = owner \<and> g_OnScreen g) now tb1
            in case insert_grant ((new_grant owner createdBy pid ''Visitor QR'' now)
                      \<lparr>g_AllowPlate := True, g_OnScreen := True\<rparr>) tb2 of
                 Inl e \<Rightarrow> Inl e
               | Inr (gid, tb3) \<Rightarrow>
                   (case insert_token (new_token gid [] hash seal (Some (whole_seconds (now + ttl))) now) tb3 of
                      Inl e \<Rightarrow> Inl e
                    | Inr tb4 \<Rightarrow> Inr (gid, tb4))))"

definition LiveQRGrant :: "string \<Rightarrow> int \<Rightarrow> time \<Rightarrow> tables \<Rightarrow> (string \<times> time) option" where
  "LiveQRGrant owner pid now tb =
     (case newest (filter (\<lambda>t.
              list_ex (\<lambda>g. g_ID g = t_GrantID t \<and> g_Owner g = owner \<and> g_PermitID g = pid
                         \<and> g_OnScreen g \<and> g_Enabled g) (tb_Grants tb)
              \<and> t_RevokedAt t = None \<and> t_Sealed t \<noteq> []
              \<and> (case t_ExpiresAt t of None \<Rightarrow> False | Some e \<Rightarrow> whole_seconds now < e)) (tb_Tokens tb)) of
        None \<Rightarrow> None
      | Some t \<Rightarrow> map_option (\<lambda>e. (t_Sealed t, e)) (t_ExpiresAt t))"

definition printed_on :: "string \<Rightarrow> int \<Rightarrow> guest_grant \<Rightarrow> bool" where
  "printed_on owner pid g \<longleftrightarrow> g_Owner g = owner \<and> g_PermitID g = pid \<and> g_RequestOnly g"

definition CreatePrintedGrant :: "string \<Rightarrow> string \<Rightarrow> int \<Rightarrow> string \<Rightarrow> string \<Rightarrow> time \<Rightarrow> tables
    \<Rightarrow> (int \<times> tables) outcome" where
  "CreatePrintedGrant owner createdBy pid hash seal now tb =
     (if \<not> owns_permit owner pid tb then Inl NotFound
      else (let tb1 = retire_grants (printed_on owner pid) now tb;
                tb2 = deny_pending (\<lambda>g. \<not> g_Enabled g \<and> printed_on owner pid g) now tb1
            in case insert_grant ((new_grant owner createdBy pid ''Printed QR'' now)
                      \<lparr>g_AllowPlate := True, g_RequestOnly := True\<rparr>) tb2 of
                 Inl e \<Rightarrow> Inl e
               | Inr (gid, tb3) \<Rightarrow>
                   (case insert_token (new_token gid [] hash seal None now) tb3 of
                      Inl e \<Rightarrow> Inl e
                    | Inr tb4 \<Rightarrow> Inr (gid, tb4))))"

record printed_grant =
  pg_GrantID :: int
  pg_PermitID :: int
  pg_PermitLabel :: string
  pg_TokenSealed :: string
  pg_CreatedAt :: time

text \<open>The joined rows of an owner's printed codes that still work.\<close>

definition printed_rows :: "string \<Rightarrow> tables \<Rightarrow> printed_grant list" where
  "printed_rows owner tb =
     concat (map (\<lambda>g.
       (case find (\<lambda>p. p_ID p = g_PermitID g) (tb_Permits tb) of
          None \<Rightarrow> []
        | Some p \<Rightarrow> map (\<lambda>t. \<lparr>pg_GrantID = g_ID g, pg_PermitID = g_PermitID g,
              pg_PermitLabel = p_Label p, pg_TokenSealed = t_Sealed t, pg_CreatedAt = g_CreatedAt g\<rparr>)
            (filter (\<lambda>t. t_GrantID t = g_ID g) (tb_Tokens tb))))
       (filter (\<lambda>g. g_Owner g = owner \<and> g_RequestOnly g \<and> g_Enabled g) (tb_Grants tb)))"

definition PrintedGrantByID :: "string \<Rightarrow> int \<Rightarrow> tables \<Rightarrow> printed_grant option" where
  "PrintedGrantByID owner gid tb = find (\<lambda>r. pg_GrantID r = gid) (printed_rows owner tb)"

definition PrintedGrantForPermit :: "string \<Rightarrow> int \<Rightarrow> tables \<Rightarrow> printed_grant option" where
  "PrintedGrantForPermit owner pid tb =
     best (\<lambda>a b. pg_GrantID b < pg_GrantID a) (filter (\<lambda>r. pg_PermitID r = pid) (printed_rows owner tb))"

definition ListPrintedGrants :: "string \<Rightarrow> tables \<Rightarrow> printed_grant list" where
  "ListPrintedGrants owner tb = rev (sort_key pg_GrantID (printed_rows owner tb))"

text \<open>\<open>printedOnPermit\<close>: every printed code of the permit the named one is on.\<close>

definition printed_with :: "string \<Rightarrow> int \<Rightarrow> tables \<Rightarrow> guest_grant \<Rightarrow> bool" where
  "printed_with owner gid tb g \<longleftrightarrow>
     (case find (\<lambda>n. g_ID n = gid \<and> g_Owner n = owner \<and> g_RequestOnly n) (tb_Grants tb) of
        None \<Rightarrow> False
      | Some n \<Rightarrow> printed_on owner (g_PermitID n) g)"

definition RevokePrintedGrant :: "string \<Rightarrow> int \<Rightarrow> time \<Rightarrow> tables \<Rightarrow> tables outcome" where
  "RevokePrintedGrant owner gid now tb =
     (let P = printed_with owner gid tb
      in if \<not> list_ex P (tb_Grants tb) then Inl NotFound
         else Inr (drop_grants P (sweepLiveGuestOverrides now (tokens_where P tb) tb)))"

section \<open>The quick picker\<close>

definition CreatePickerGrant :: "string \<Rightarrow> string \<Rightarrow> int \<Rightarrow> bool \<Rightarrow> bool \<Rightarrow> int list \<Rightarrow> string \<Rightarrow> string
    \<Rightarrow> time \<Rightarrow> tables \<Rightarrow> (int \<times> tables) outcome" where
  "CreatePickerGrant owner createdBy pid overnight allVehicles vids hash seal now tb =
     (if \<not> allVehicles \<and> vids = [] then Inl NotFound
      else if \<not> owns_permit owner pid tb then Inl NotFound
      else if list_ex (\<lambda>g. g_Owner g = owner \<and> g_Picker g) (tb_Grants tb) then Inl Duplicate
      else (case insert_grant ((new_grant owner createdBy pid ''Quick picker'' now)
                   \<lparr>g_AllowOvernight := overnight, g_Picker := True, g_AllVehicles := allVehicles\<rparr>) tb of
              Inl e \<Rightarrow> Inl e
            | Inr (gid, tb1) \<Rightarrow>
                (case (if allVehicles then Inr tb1 else insertGrantVehicles owner gid vids tb1) of
                   Inl e \<Rightarrow> Inl e
                 | Inr tb2 \<Rightarrow>
                     (case insert_token (new_token gid [] hash seal None now) tb2 of
                        Inl e \<Rightarrow> Inl e
                      | Inr tb3 \<Rightarrow> Inr (gid, tb3)))))"

text \<open>The live token of the account's picker with the highest identifier.\<close>

definition picker_token :: "string \<Rightarrow> (guest_grant \<Rightarrow> bool) \<Rightarrow> tables \<Rightarrow> guest_token option" where
  "picker_token owner P tb =
     newest (filter (\<lambda>t. t_RevokedAt t = None
               \<and> list_ex (\<lambda>g. g_ID g = t_GrantID t \<and> g_Owner g = owner \<and> g_Picker g \<and> P g) (tb_Grants tb))
             (tb_Tokens tb))"

definition RotatePickerToken :: "string \<Rightarrow> string \<Rightarrow> string \<Rightarrow> time \<Rightarrow> tables \<Rightarrow> tables outcome" where
  "RotatePickerToken owner newHash newSealed now tb =
     (case picker_token owner (\<lambda>g. True) tb of
        None \<Rightarrow> Inl NotFound
      | Some cur \<Rightarrow>
          if hash_taken newHash (t_ID cur) tb then Inl ConstraintFailed
          else Inr (on_tokens (\<lambda>t. if t_ID t = t_ID cur
                      then (rebound newHash now t)\<lparr>t_Sealed := newSealed\<rparr> else t) tb))"

record picker_grant =
  pk_Grant :: guest_grant
  pk_TokenID :: int
  pk_TokenSealed :: string
  pk_Vehicles :: "owned_vehicle list"

definition PickerGrant :: "string \<Rightarrow> tables \<Rightarrow> picker_grant option" where
  "PickerGrant owner tb =
     (case picker_token owner g_Enabled tb of
        None \<Rightarrow> None
      | Some t \<Rightarrow>
          map_option (\<lambda>g. \<lparr>pk_Grant = g, pk_TokenID = t_ID t, pk_TokenSealed = t_Sealed t,
             pk_Vehicles = (if g_AllVehicles g then ListVehiclesFor owner tb
                            else grant_regos (g_ID g) tb)\<rparr>)
            (grant_of (t_GrantID t) tb))"

definition UpdatePickerGrant :: "string \<Rightarrow> bool \<Rightarrow> bool \<Rightarrow> int list \<Rightarrow> time \<Rightarrow> tables
    \<Rightarrow> (nat \<times> tables) outcome" where
  "UpdatePickerGrant owner overnight allVehicles vids now tb =
     (if \<not> allVehicles \<and> vids = [] then Inl NotFound
      else (case find (\<lambda>g. g_Owner g = owner \<and> g_Picker g \<and> g_Enabled g) (tb_Grants tb) of
              None \<Rightarrow> Inl NotFound
            | Some g0 \<Rightarrow>
                (let gid = g_ID g0;
                     tb1 = clear_grant_vehicles gid
                       (on_grants (\<lambda>g. if g_ID g = gid
                          then g\<lparr>g_AllowOvernight := overnight, g_AllVehicles := allVehicles\<rparr> else g) tb)
                 in if allVehicles then Inr (0, tb1)
                    else (case insertGrantVehicles owner gid vids tb1 of
                            Inl e \<Rightarrow> Inl e
                          | Inr tb2 \<Rightarrow> (case sweep_withdrawn now gid tb2 of (tb3, n) \<Rightarrow> Inr (n, tb3))))))"

end
