(* ===== verification/Requests.thy ===== *)
theory Requests
  imports Passes
begin

text \<open>
  \<open>internal/store/guest_requests.go\<close>: what a visitor asks for by scanning a printed code. The
  request is inert until the household decides it; the code hangs in public, so the number
  of open requests under one code is bounded, and one plate is asked for once.
\<close>

definition maxPendingGuestRequests :: nat where "maxPendingGuestRequests = 5"
definition guestReqReserved :: nat where "guestReqReserved = 2"

definition pending_on :: "int \<Rightarrow> tables \<Rightarrow> guest_request list" where
  "pending_on gid tb = filter (\<lambda>q. q_GrantID q = gid \<and> q_Status q = Pending) (tb_Requests tb)"

definition PendingGuestRequestsInReserve :: "int \<Rightarrow> tables \<Rightarrow> bool" where
  "PendingGuestRequestsInReserve gid tb \<longleftrightarrow>
     maxPendingGuestRequests - guestReqReserved \<le> length (pending_on gid tb)"

record asked =
  as_GrantID :: int
  as_PermitID :: int
  as_Owner :: string
  as_Plate :: string
  as_State :: string
  as_Nonce :: string

definition new_request :: "asked \<Rightarrow> int \<Rightarrow> time \<Rightarrow> guest_request" where
  "new_request a rid now =
     \<lparr>q_ID = rid, q_GrantID = as_GrantID a, q_Owner = as_Owner a, q_PermitID = as_PermitID a,
      q_Plate = as_Plate a, q_State = as_State a, q_Nonce = as_Nonce a, q_Status = Pending,
      q_RequestedAt = nowUTC now, q_DecidedAt = None, q_DecidedBy = [], q_Until = [],
      q_UntilTS = None\<rparr>"

text \<open>The row with the highest identifier.\<close>

definition newest_request :: "guest_request list \<Rightarrow> guest_request option" where
  "newest_request qs = best (\<lambda>a b. q_ID b < q_ID a) qs"

text \<open>The guarded insert, and what its refusal means: identifier, nonce, whether it is new.\<close>

definition CreateGuestRequest :: "asked \<Rightarrow> time \<Rightarrow> tables \<Rightarrow> ((int \<times> string \<times> bool) \<times> tables) outcome" where
  "CreateGuestRequest a now tb =
     (let same = filter (\<lambda>q. q_Plate q = as_Plate a) (pending_on (as_GrantID a) tb)
      in if same = [] \<and> length (pending_on (as_GrantID a) tb) < maxPendingGuestRequests
         then (if \<not> list_ex (\<lambda>g. g_ID g = as_GrantID a) (tb_Grants tb) then Inl ConstraintFailed
               else (let rid = tb_LastRequest tb + 1
                     in Inr ((rid, as_Nonce a, True),
                             tb\<lparr>tb_Requests := tb_Requests tb @ [new_request a rid now],
                                tb_LastRequest := rid\<rparr>)))
         else (case newest_request same of
                 None \<Rightarrow> Inl GuestRequestLimit
               | Some q \<Rightarrow> Inr ((q_ID q, q_Nonce q, False), tb)))"

definition ExpireGuestRequests :: "time \<Rightarrow> time \<Rightarrow> tables \<Rightarrow> tables" where
  "ExpireGuestRequests before now tb =
     on_requests (\<lambda>q. if q_Status q = Pending \<and> q_RequestedAt q < whole_seconds before
                      then q\<lparr>q_Status := Expired, q_DecidedAt := Some (nowUTC now)\<rparr> else q) tb"

definition settledNonceGrace :: dur where "settledNonceGrace = 48 * hour"

definition nonce_spent :: "time \<Rightarrow> guest_request \<Rightarrow> bool" where
  "nonce_spent now q \<longleftrightarrow> q_Status q \<noteq> Pending \<and>
     (case q_UntilTS q of
        Some u \<Rightarrow> u < whole_seconds now
      | None \<Rightarrow> (case q_DecidedAt q of
                   Some d \<Rightarrow> d < whole_seconds (now - settledNonceGrace)
                 | None \<Rightarrow> True))"

definition ClearSettledRequestNonces :: "time \<Rightarrow> tables \<Rightarrow> tables" where
  "ClearSettledRequestNonces now tb =
     on_requests (\<lambda>q. if q_Nonce q \<noteq> [] \<and> nonce_spent now q then q\<lparr>q_Nonce := []\<rparr> else q) tb"

definition PurgeDecidedGuestRequests :: "time \<Rightarrow> tables \<Rightarrow> tables" where
  "PurgeDecidedGuestRequests before tb =
     tb\<lparr>tb_Requests := filter (\<lambda>q. \<not> (q_Status q \<noteq> Pending \<and> q_RequestedAt q < whole_seconds before))
          (tb_Requests tb)\<rparr>"

definition GuestRequestForPoll :: "int \<Rightarrow> string \<Rightarrow> tables \<Rightarrow> guest_request option" where
  "GuestRequestForPoll rid nonce tb =
     find (\<lambda>q. q_ID q = rid \<and> q_Nonce q = nonce \<and> q_Nonce q \<noteq> []) (tb_Requests tb)"

definition GuestRequestByID :: "int \<Rightarrow> tables \<Rightarrow> guest_request option" where
  "GuestRequestByID rid tb = find (\<lambda>q. q_ID q = rid) (tb_Requests tb)"

definition ListPendingRequests :: "string \<Rightarrow> tables \<Rightarrow> guest_request list" where
  "ListPendingRequests owner tb =
     rev (sort_key q_ID (filter (\<lambda>q. q_Owner q = owner \<and> q_Status q = Pending) (tb_Requests tb)))"

definition decided_since :: "time \<Rightarrow> guest_request \<Rightarrow> bool" where
  "decided_since since q \<longleftrightarrow> q_Status q \<noteq> Pending
     \<and> (case q_DecidedAt q of None \<Rightarrow> False | Some d \<Rightarrow> whole_seconds since \<le> d)"

definition ListRecentDecidedRequests :: "string \<Rightarrow> time \<Rightarrow> tables \<Rightarrow> guest_request list" where
  "ListRecentDecidedRequests owner since tb =
     rev (sort_key (\<lambda>q. case q_DecidedAt q of None \<Rightarrow> 0 | Some d \<Rightarrow> d)
       (sort_key q_ID (filter (\<lambda>q. q_Owner q = owner \<and> decided_since since q) (tb_Requests tb))))"

record verdict_row =
  vd_Approve :: bool
  vd_Until :: string
  vd_DecidedBy :: string
  vd_UntilTS :: time

definition decided_row :: "verdict_row \<Rightarrow> time \<Rightarrow> guest_request \<Rightarrow> guest_request" where
  "decided_row vd now q =
     q\<lparr>q_Status := (if vd_Approve vd then Approved else Denied),
       q_DecidedAt := Some (nowUTC now), q_DecidedBy := vd_DecidedBy vd, q_Until := vd_Until vd,
       q_UntilTS := (if is_zero (vd_UntilTS vd) then None else Some (whole_seconds (vd_UntilTS vd)))\<rparr>"

definition DecideGuestRequest :: "string \<Rightarrow> int \<Rightarrow> verdict_row \<Rightarrow> time \<Rightarrow> tables
    \<Rightarrow> (guest_request \<times> tables) outcome" where
  "DecideGuestRequest owner rid vd now tb =
     (let P = (\<lambda>q. q_ID q = rid \<and> q_Owner q = owner \<and> q_Status q = Pending);
          tb' = on_requests (\<lambda>q. if P q then decided_row vd now q else q) tb
      in if \<not> list_ex P (tb_Requests tb) then Inl NotFound
         else (case GuestRequestByID rid tb' of
                 None \<Rightarrow> Inl NotFound
               | Some q \<Rightarrow> Inr (q, tb')))"

end
