(* ===== verification/Households.thy ===== *)
theory Households
  imports Requests
begin

text \<open>
  \<open>internal/store/vehicles.go\<close>, the membership and removal half of
  \<open>internal/store/accounts.go\<close>, and \<open>DeletePermit\<close>: whose data the tables hold, and what is
  taken down with a vehicle, a permit, a member or an account.
\<close>

section \<open>Vehicles\<close>

definition vehiclePalette :: "string list" where
  "vehiclePalette =
     [''#b577e8'', ''#007914'', ''#a2614f'', ''#0081a2'',
      ''#b29703'', ''#e465a3'', ''#5c65d6'', ''#896498'',
      ''#e66f62'', ''#0c9c83'', ''#018ae4'', ''#717d07'',
      ''#07745d'', ''#1ca045'', ''#ba3f7f'', ''#6a85bd'']"

definition inPalette :: "string \<Rightarrow> bool" where "inPalette c = List.member vehiclePalette c"

text \<open>\<open>used\<close> is the set the map holds, as the list of its distinct keys.\<close>

definition pickVehicleColor :: "string list \<Rightarrow> string" where
  "pickVehicleColor used =
     (case find (\<lambda>c. c \<notin> set used) vehiclePalette of
        Some c \<Rightarrow> c
      | None \<Rightarrow> vehiclePalette ! (length used mod length vehiclePalette))"

definition used_colors :: "string \<Rightarrow> tables \<Rightarrow> string list" where
  "used_colors owner tb =
     remdups (map v_Color (filter (\<lambda>v. v_Owner v = owner \<and> v_Color v \<noteq> []) (tb_Vehicles tb)))"

definition is_secondary :: "string \<Rightarrow> tables \<Rightarrow> bool" where
  "is_secondary email tb \<longleftrightarrow> list_ex (\<lambda>m. am_Member m = email \<and> \<not> am_Pending m) (tb_Members tb)"

definition new_vehicle :: "string \<Rightarrow> string \<Rightarrow> string \<Rightarrow> string \<Rightarrow> tables \<Rightarrow> owned_vehicle" where
  "new_vehicle owner reg label st tb =
     \<lparr>v_ID = tb_LastVehicle tb + 1, v_Registration = reg, v_Label = label, v_Email = [],
      v_Color = pickVehicleColor (used_colors owner tb), v_State = st, v_NotifyDriver = True,
      v_Owner = owner\<rparr>"

definition CreateVehicle :: "string \<Rightarrow> string \<Rightarrow> string \<Rightarrow> string \<Rightarrow> tables \<Rightarrow> (int \<times> tables) outcome" where
  "CreateVehicle owner reg label st tb =
     (if is_secondary owner tb then Inl SecondaryAccount
      else if list_ex (\<lambda>v. v_Owner v = owner \<and> v_Registration v = reg) (tb_Vehicles tb) then Inl Duplicate
      else Inr (tb_LastVehicle tb + 1,
                tb\<lparr>tb_Vehicles := tb_Vehicles tb @ [new_vehicle owner reg label st tb],
                   tb_LastVehicle := tb_LastVehicle tb + 1\<rparr>))"

definition on_vehicles :: "(owned_vehicle \<Rightarrow> owned_vehicle) \<Rightarrow> tables \<Rightarrow> tables" where
  "on_vehicles f tb = tb\<lparr>tb_Vehicles := map f (tb_Vehicles tb)\<rparr>"

text \<open>A column of one vehicle of the owner; \<open>NotFound\<close> when there is none.\<close>

definition set_vehicle :: "(owned_vehicle \<Rightarrow> owned_vehicle) \<Rightarrow> string \<Rightarrow> int \<Rightarrow> tables \<Rightarrow> tables outcome" where
  "set_vehicle f owner vid tb =
     (if \<not> owns_vehicle owner vid tb then Inl NotFound
      else Inr (on_vehicles (\<lambda>v. if v_ID v = vid \<and> v_Owner v = owner then f v else v) tb))"

definition SetVehicleEmail :: "string \<Rightarrow> int \<Rightarrow> string \<Rightarrow> tables \<Rightarrow> tables outcome" where
  "SetVehicleEmail owner vid email tb = set_vehicle (\<lambda>v. v\<lparr>v_Email := email\<rparr>) owner vid tb"

definition SetVehicleNotifyDriver :: "string \<Rightarrow> int \<Rightarrow> bool \<Rightarrow> tables \<Rightarrow> tables outcome" where
  "SetVehicleNotifyDriver owner vid on tb = set_vehicle (\<lambda>v. v\<lparr>v_NotifyDriver := on\<rparr>) owner vid tb"

definition SetVehicleState :: "string \<Rightarrow> int \<Rightarrow> string \<Rightarrow> tables \<Rightarrow> tables outcome" where
  "SetVehicleState owner vid st tb = set_vehicle (\<lambda>v. v\<lparr>v_State := st\<rparr>) owner vid tb"

definition DeleteVehicle :: "string \<Rightarrow> int \<Rightarrow> tables \<Rightarrow> tables \<times> bool" where
  "DeleteVehicle owner vid tb =
     (drop_vehicles (\<lambda>v. v_ID v = vid \<and> v_Owner v = owner) tb, owns_vehicle owner vid tb)"

text \<open>
  \<open>BackfillVehicleColors\<close>: in the order of the query, each vehicle of an owner with a colour
  outside the palette gets the next colour of the palette. The counter restarts with each
  owner; the rows of an owner are adjacent.
\<close>

definition stale_owner :: "owned_vehicle list \<Rightarrow> string \<Rightarrow> bool" where
  "stale_owner vs owner \<longleftrightarrow>
     list_ex (\<lambda>v. v_Owner v = owner \<and> (v_Color v = [] \<or> \<not> inPalette (v_Color v))) vs"

fun recolour :: "(string \<Rightarrow> bool) \<Rightarrow> nat \<Rightarrow> string \<Rightarrow> owned_vehicle list \<Rightarrow> (int \<times> string) list" where
  "recolour stale i prev [] = []"
| "recolour stale i prev (v # vs) =
     (if \<not> stale (v_Owner v) then recolour stale i prev vs
      else (let k = (if v_Owner v \<noteq> prev then 0 else i)
            in (v_ID v, vehiclePalette ! (k mod length vehiclePalette))
               # recolour stale (k + 1) (v_Owner v) vs))"

definition by_owner :: "owned_vehicle list \<Rightarrow> owned_vehicle list" where
  "by_owner vs = sort_key v_Owner (by_label vs)"

definition BackfillVehicleColors :: "tables \<Rightarrow> tables" where
  "BackfillVehicleColors tb =
     (let vs = by_owner (tb_Vehicles tb);
          want = map_of (recolour (stale_owner vs) 0 [] vs)
      in on_vehicles (\<lambda>v. case want (v_ID v) of None \<Rightarrow> v | Some c \<Rightarrow> v\<lparr>v_Color := c\<rparr>) tb)"

record vehicle_rule_use =
  vu_PermitLabel :: string
  vu_Week :: int
  vu_CycleWeeks :: int
  vu_Weekday :: int

definition VehicleUsageFor :: "string \<Rightarrow> int \<Rightarrow> time \<Rightarrow> tables \<Rightarrow> vehicle_rule_use list \<times> nat" where
  "VehicleUsageFor owner vid now tb =
     (sort_key vu_PermitLabel (sort_key vu_Week (sort_key vu_Weekday
        (concat (map (\<lambda>r. map (\<lambda>p. \<lparr>vu_PermitLabel = p_Label p, vu_Week = r_Week r,
                                    vu_CycleWeeks = p_CycleWeeks p, vu_Weekday = r_Weekday r\<rparr>)
                        (filter (\<lambda>p. p_ID p = r_PermitID r \<and> p_Owner p = owner) (tb_Permits tb)))
           (filter (\<lambda>r. r_VehicleID r = vid) (tb_Rules tb)))))),
      length (filter (\<lambda>x. o_VehicleID x = vid \<and> owns_permit owner (o_PermitID x) tb
                        \<and> still_runs now x) (tb_Overrides tb)))"

section \<open>Members\<close>

definition member_row :: "string \<Rightarrow> tables \<Rightarrow> account_member option" where
  "member_row email tb = find (\<lambda>m. am_Member m = email) (tb_Members tb)"

text \<open>
  \<open>revokeGrantsBy\<close>: the passes and codes a departing member minted on the account. The primary's
  own, and rows that name nobody, stay.
\<close>

definition minted_by :: "string \<Rightarrow> string \<Rightarrow> guest_grant \<Rightarrow> bool" where
  "minted_by owner email g \<longleftrightarrow> g_Owner g = owner \<and> g_CreatedBy g = email"

definition revokeGrantsBy :: "string \<Rightarrow> string \<Rightarrow> time \<Rightarrow> tables \<Rightarrow> nat \<times> tables" where
  "revokeGrantsBy owner email now tb =
     (if email = [] then (0, tb)
      else (let P = minted_by owner email
            in (length (filter P (tb_Grants tb)),
                drop_grants P (sweepLiveGuestOverrides now (tokens_where P tb) tb))))"

definition drop_members :: "(account_member \<Rightarrow> bool) \<Rightarrow> tables \<Rightarrow> tables" where
  "drop_members P tb = tb\<lparr>tb_Members := filter (\<lambda>m. \<not> P m) (tb_Members tb)\<rparr>"

text \<open>\<open>AddMemberCapped\<close>: an offer, counted against the account's limit while it is open.\<close>

definition AddMemberCapped :: "string \<Rightarrow> string \<Rightarrow> nat \<Rightarrow> time \<Rightarrow> tables \<Rightarrow> tables outcome" where
  "AddMemberCapped owner email limit now tb =
     (if limit \<le> length (filter (\<lambda>m. am_Owner m = owner) (tb_Members tb)) then Inl MemberLimit
      else if list_ex (\<lambda>m. am_Member m = email) (tb_Members tb) then Inl ConstraintFailed
      else Inr (tb\<lparr>tb_Members := tb_Members tb @
             [\<lparr>am_Member = email, am_Owner = owner, am_AddedAt = nowUTC now, am_Pending = True,
               am_RemindedAt = None\<rparr>]\<rparr>))"

definition MemberAccount :: "string \<Rightarrow> tables \<Rightarrow> string option" where
  "MemberAccount email tb =
     map_option am_Owner (find (\<lambda>m. am_Member m = email \<and> \<not> am_Pending m) (tb_Members tb))"

definition PendingInvite :: "string \<Rightarrow> tables \<Rightarrow> string option" where
  "PendingInvite email tb =
     map_option am_Owner (find (\<lambda>m. am_Member m = email \<and> am_Pending m) (tb_Members tb))"

text \<open>
  The invitee runs an account of their own: people depend on it, or it has data. \<open>linked\<close>
  says whether a council session of theirs is stored.
\<close>

definition has_own_data :: "bool \<Rightarrow> string \<Rightarrow> tables \<Rightarrow> bool" where
  "has_own_data linked email tb \<longleftrightarrow> linked
     \<or> list_ex (\<lambda>p. p_Owner p = email) (tb_Permits tb)
     \<or> list_ex (\<lambda>v. v_Owner v = email) (tb_Vehicles tb)"

definition invite_blocked :: "bool \<Rightarrow> string \<Rightarrow> tables \<Rightarrow> bool" where
  "invite_blocked linked email tb \<longleftrightarrow>
     list_ex (\<lambda>m. am_Owner m = email) (tb_Members tb) \<or> has_own_data linked email tb"

definition AcceptInvite :: "bool \<Rightarrow> string \<Rightarrow> string \<Rightarrow> time \<Rightarrow> tables \<Rightarrow> tables outcome" where
  "AcceptInvite linked email owner now tb =
     (let P = (\<lambda>m. am_Member m = email \<and> am_Owner m = owner \<and> am_Pending m)
      in if list_ex P (tb_Members tb) \<and> \<not> invite_blocked linked email tb
         then Inr (tb\<lparr>tb_Members := map (\<lambda>m. if P m
                then m\<lparr>am_Pending := False, am_AddedAt := nowUTC now\<rparr> else m) (tb_Members tb)\<rparr>)
         else if invite_blocked linked email tb then Inl InviteBlocked else Inl NotFound)"

definition DeclineInvite :: "string \<Rightarrow> tables \<Rightarrow> tables" where
  "DeclineInvite email tb = drop_members (\<lambda>m. am_Member m = email \<and> am_Pending m) tb"

definition ListMembers :: "string \<Rightarrow> tables \<Rightarrow> account_member list" where
  "ListMembers owner tb = sort_key am_AddedAt (filter (\<lambda>m. am_Owner m = owner) (tb_Members tb))"

definition CountMembers :: "string \<Rightarrow> tables \<Rightarrow> nat" where
  "CountMembers owner tb = length (filter (\<lambda>m. am_Owner m = owner) (tb_Members tb))"

definition AccountEmails :: "string \<Rightarrow> tables \<Rightarrow> string list" where
  "AccountEmails owner tb =
     owner # map am_Member (filter (\<lambda>m. \<not> am_Pending m) (ListMembers owner tb))"

definition InviteReminderCandidates :: "time \<Rightarrow> tables \<Rightarrow> (string \<times> string) list" where
  "InviteReminderCandidates before tb =
     map (\<lambda>m. (am_Owner m, am_Member m)) (sort_key am_AddedAt
       (filter (\<lambda>m. am_Pending m \<and> am_RemindedAt m = None \<and> am_AddedAt m \<le> whole_seconds before)
          (tb_Members tb)))"

definition MarkInviteReminded :: "string \<Rightarrow> string \<Rightarrow> time \<Rightarrow> tables \<Rightarrow> tables" where
  "MarkInviteReminded owner email now tb =
     tb\<lparr>tb_Members := map (\<lambda>m. if am_Owner m = owner \<and> am_Member m = email \<and> am_Pending m
          then m\<lparr>am_RemindedAt := Some (nowUTC now)\<rparr> else m) (tb_Members tb)\<rparr>"

definition PendingInviteFor :: "string \<Rightarrow> string \<Rightarrow> tables \<Rightarrow> bool" where
  "PendingInviteFor owner email tb \<longleftrightarrow>
     list_ex (\<lambda>m. am_Owner m = owner \<and> am_Member m = email \<and> am_Pending m) (tb_Members tb)"

section \<open>Permits and accounts\<close>

text \<open>
  \<open>UpsertPermit\<close>: \<open>tenant\<close> is the owner's council. A permit another account holds is left alone
  and reported; a row of the owner's own only has its type refreshed.
\<close>

definition new_permit :: "string \<Rightarrow> string \<Rightarrow> string \<Rightarrow> string \<Rightarrow> string \<Rightarrow> int \<Rightarrow> permit" where
  "new_permit owner tenant council ptype label pid =
     \<lparr>p_ID = pid, p_Owner = owner, p_TenantID = tenant, p_CouncilPermitID = council,
      p_PermitTypeID = ptype, p_Label = label, p_ActiveRegistration = [],
      p_ActiveConfirmedAt = zero_time, p_EndDate = zero_time, p_Status = [],
      p_ExpiryReminded = False, p_PermitNumber = [], p_PermitType = [], p_FailStreak = 0,
      p_CopyOfferDone = False, p_CycleWeeks = 1, p_CycleAnchor = []\<rparr>"

definition UpsertPermit :: "string \<Rightarrow> string \<Rightarrow> string \<Rightarrow> string \<Rightarrow> string \<Rightarrow> tables
    \<Rightarrow> (int \<times> tables) outcome" where
  "UpsertPermit owner tenant council ptype label tb =
     (case find (\<lambda>p. p_TenantID p = tenant \<and> p_CouncilPermitID p = council) (tb_Permits tb) of
        None \<Rightarrow>
          (let pid = tb_LastPermit tb + 1
           in Inr (pid, tb\<lparr>tb_Permits := tb_Permits tb @ [new_permit owner tenant council ptype label pid],
                           tb_LastPermit := pid\<rparr>))
      | Some q \<Rightarrow>
          if p_Owner q \<noteq> owner then Inl Duplicate
          else Inr (p_ID q, tb\<lparr>tb_Permits := map (\<lambda>p. if p_TenantID p = tenant
                 \<and> p_CouncilPermitID p = council then p\<lparr>p_PermitTypeID := ptype\<rparr> else p) (tb_Permits tb)\<rparr>))"

definition set_permit :: "(permit \<Rightarrow> permit) \<Rightarrow> string \<Rightarrow> int \<Rightarrow> tables \<Rightarrow> tables outcome" where
  "set_permit f owner pid tb =
     (if \<not> owns_permit owner pid tb then Inl NotFound
      else Inr (tb\<lparr>tb_Permits := map (\<lambda>p. if p_ID p = pid \<and> p_Owner p = owner then f p else p)
             (tb_Permits tb)\<rparr>))"

definition MarkCopyOfferDone :: "string \<Rightarrow> int \<Rightarrow> tables \<Rightarrow> tables outcome" where
  "MarkCopyOfferDone owner pid tb = set_permit (\<lambda>p. p\<lparr>p_CopyOfferDone := True\<rparr>) owner pid tb"

definition SetPermitLabel :: "string \<Rightarrow> int \<Rightarrow> string \<Rightarrow> tables \<Rightarrow> tables outcome" where
  "SetPermitLabel owner pid label tb = set_permit (\<lambda>p. p\<lparr>p_Label := label\<rparr>) owner pid tb"

definition PermitInTenant :: "string \<Rightarrow> string \<Rightarrow> tables \<Rightarrow> permit option" where
  "PermitInTenant tenant council tb =
     find (\<lambda>p. p_TenantID p = tenant \<and> p_CouncilPermitID p = council) (tb_Permits tb)"

definition ManagedPermitIDsInTenant :: "string \<Rightarrow> tables \<Rightarrow> string set" where
  "ManagedPermitIDsInTenant tenant tb =
     (if tenant = [] then {}
      else set (map p_CouncilPermitID (filter (\<lambda>p. p_TenantID p = tenant) (tb_Permits tb))))"

definition DeletePermit :: "int \<Rightarrow> string \<Rightarrow> tables \<Rightarrow> tables outcome" where
  "DeletePermit pid owner tb =
     (if \<not> owns_permit owner pid tb then Inl NotFound
      else Inr (drop_permits (\<lambda>p. p_ID p = pid \<and> p_Owner p = owner) tb))"

text \<open>
  What \<open>DeleteAllForOwner\<close> does to these tables, in its order: the owner's permits and vehicles
  with everything that hangs on them, their links and requests, their flags, every membership
  they gave or hold; after a sweep, the links they minted on other households' permits; then
  their name on other households' bookings, requests, vehicles and dead links.
\<close>

definition former_member :: string where "former_member = ''a former member''"

definition forget_person :: "string \<Rightarrow> tables \<Rightarrow> tables" where
  "forget_person owner tb =
     tb\<lparr>tb_Overrides := map (\<lambda>x. if o_CreatedBy x = owner \<or> o_CreatedBy x = owner @ '' (undo)''
            then x\<lparr>o_CreatedBy := former_member\<rparr> else x) (tb_Overrides tb),
        tb_Requests := map (\<lambda>q. if q_Owner q \<noteq> owner \<and> q_DecidedBy q = owner
            then q\<lparr>q_DecidedBy := former_member\<rparr> else q) (tb_Requests tb),
        tb_Vehicles := map (\<lambda>v. if v_Email v = owner \<and> v_Owner v \<noteq> owner
            then v\<lparr>v_Email := []\<rparr> else v) (tb_Vehicles tb),
        tb_Tokens := map (\<lambda>t. if t_RecipientEmail t = owner \<and> t_RevokedAt t \<noteq> None
            then t\<lparr>t_RecipientEmail := []\<rparr> else t) (tb_Tokens tb)\<rparr>"

definition erase_tables :: "string \<Rightarrow> time \<Rightarrow> tables \<Rightarrow> tables" where
  "erase_tables owner now tb =
     (let tb1 = drop_permits (\<lambda>p. p_Owner p = owner) tb;
          tb2 = drop_vehicles (\<lambda>v. v_Owner v = owner) tb1;
          tb3 = drop_grants (\<lambda>g. g_Owner g = owner) tb2;
          tb4 = tb3\<lparr>tb_Requests := filter (\<lambda>q. q_Owner q \<noteq> owner) (tb_Requests tb3),
                    tb_GuestsEnabled := (tb_GuestsEnabled tb3)(owner := None)\<rparr>;
          tb5 = drop_members (\<lambda>m. am_Owner m = owner \<or> am_Member m = owner) tb4;
          P = (\<lambda>g. g_CreatedBy g = owner \<and> g_Owner g \<noteq> owner)
      in forget_person owner
           (drop_grants P (sweepLiveGuestOverrides now (tokens_where P tb5) tb5)))"

end
