(* ===== verification/Revocation.thy ===== *)
theory Revocation
  imports Households
begin

text \<open>
  What the operations on the tables keep true together, in any order: every booking that a
  link made and that still runs can be reached through the link, on a permit of the link's
  own household, unless the link's row was lost with a permit the household gave up. The
  sweeps behind every revocation rest on it, because they find a booking through the row of
  its link only.
\<close>

section \<open>The invariant\<close>

definition running_guest :: "time \<Rightarrow> override \<Rightarrow> bool" where
  "running_guest now x \<longleftrightarrow> guest_booking x \<and> still_runs now x"

text \<open>
  Giving up a permit (\<open>DeletePermit\<close>) takes the rows of the links that are on it, and no
  sweep goes before it, so a link that was moved onto it can leave a running booking behind on
  the permit it came from. \<open>G\<close> is the set of the links lost that way so far; \<open>stranded\<close> of
  the next theory says which ones a call adds. The bookings of all other links are watched.
\<close>

definition watched :: "int set \<Rightarrow> time \<Rightarrow> override \<Rightarrow> bool" where
  "watched G now x \<longleftrightarrow> running_guest now x \<and> o_GuestTokenID x \<notin> G"

text \<open>\<open>t\<close> is the link that made booking \<open>x\<close>, \<open>g\<close> its grant.\<close>

definition link_of :: "override \<Rightarrow> tables \<Rightarrow> guest_token \<Rightarrow> guest_grant \<Rightarrow> bool" where
  "link_of x tb t g \<longleftrightarrow> t \<in> set (tb_Tokens tb) \<and> g \<in> set (tb_Grants tb)
     \<and> t_ID t = o_GuestTokenID x \<and> g_ID g = t_GrantID t"

definition anchored :: "int set \<Rightarrow> time \<Rightarrow> tables \<Rightarrow> bool" where
  "anchored G now tb \<longleftrightarrow> (\<forall>x \<in> set (tb_Overrides tb). watched G now x \<longrightarrow>
     (\<exists>t g. link_of x tb t g \<and> owns_permit (g_Owner g) (o_PermitID x) tb))"

definition grants_owned :: "tables \<Rightarrow> bool" where
  "grants_owned tb \<longleftrightarrow> (\<forall>g \<in> set (tb_Grants tb). owns_permit (g_Owner g) (g_PermitID g) tb)"

text \<open>Identifiers are distinct, positive, and none is above the last one given out.\<close>

definition ids_below :: "('a \<Rightarrow> int) \<Rightarrow> 'a list \<Rightarrow> int \<Rightarrow> bool" where
  "ids_below f xs n \<longleftrightarrow> distinct (map f xs) \<and> (\<forall>x \<in> set xs. 0 < f x \<and> f x \<le> n) \<and> 0 \<le> n"

definition keys_ok :: "tables \<Rightarrow> bool" where
  "keys_ok tb \<longleftrightarrow> ids_below p_ID (tb_Permits tb) (tb_LastPermit tb)
     \<and> ids_below g_ID (tb_Grants tb) (tb_LastGrant tb)
     \<and> ids_below t_ID (tb_Tokens tb) (tb_LastToken tb)
     \<and> distinct (map t_Hash (tb_Tokens tb))"

text \<open>A lost link stays lost: its row is gone, and no later row gets its identifier.\<close>

definition lost :: "int set \<Rightarrow> tables \<Rightarrow> bool" where
  "lost G tb \<longleftrightarrow> (\<forall>i \<in> G. i \<le> tb_LastToken tb \<and> i \<notin> t_ID ` set (tb_Tokens tb))"

definition tidy :: "int set \<Rightarrow> time \<Rightarrow> tables \<Rightarrow> bool" where
  "tidy G now tb \<longleftrightarrow> keys_ok tb \<and> grants_owned tb \<and> anchored G now tb \<and> lost G tb"

named_theorems tidy_intros \<open>operations that keep the tables tidy\<close>

lemma ids_below_filter [intro]: "ids_below f xs n \<Longrightarrow> ids_below f (filter P xs) n"
  by (auto simp: ids_below_def distinct_map_filter)

lemma ids_below_map:
  "ids_below f xs n \<Longrightarrow> (\<And>x. f (h x) = f x) \<Longrightarrow> ids_below f (map h xs) n"
  by (auto simp: ids_below_def comp_def)

lemma ids_below_snoc:
  "ids_below f xs n \<Longrightarrow> f x = n + 1 \<Longrightarrow> ids_below f (xs @ [x]) (n + 1)"
  by (fastforce simp: ids_below_def)

lemma ids_below_unique:
  "ids_below f xs n \<Longrightarrow> x \<in> set xs \<Longrightarrow> y \<in> set xs \<Longrightarrow> f x = f y \<Longrightarrow> x = y"
  by (auto simp: ids_below_def distinct_map inj_on_def)

lemma find_by_id:
  assumes "ids_below f xs n" and "y \<in> set xs" and "f y = k"
  shows "find (\<lambda>x. f x = k) xs = Some y"
proof (cases "find (\<lambda>x. f x = k) xs")
  case None
  with assms show ?thesis by (auto simp: find_None_iff)
next
  case (Some z)
  then have "z \<in> set xs" "f z = k" by (auto simp: find_Some_iff)
  with assms ids_below_unique [of f xs n z y] Some show ?thesis by simp
qed

lemma owns_permit_iff:
  "owns_permit owner pid tb \<longleftrightarrow> (\<exists>p \<in> set (tb_Permits tb). p_ID p = pid \<and> p_Owner p = owner)"
  by (auto simp: owns_permit_def list_ex_iff)

lemma owner_unique:
  assumes "keys_ok tb" and "owns_permit a pid tb" and "owns_permit b pid tb"
  shows "a = b"
  using assms ids_below_unique [of p_ID "tb_Permits tb"] by (fastforce simp: keys_ok_def owns_permit_iff)

lemma still_runs_later: "now \<le> now' \<Longrightarrow> still_runs now' x \<Longrightarrow> still_runs now x"
proof (cases "o_EndsAt x")
  case (Some e)
  moreover assume "now \<le> now'" and "still_runs now' x"
  moreover have "whole_seconds now \<le> whole_seconds now'" if "now \<le> now'"
    using that by (auto simp: whole_seconds_def second_def intro: zdiv_mono1)
  ultimately show ?thesis by (simp add: still_runs_def nowUTC_def)
qed (simp add: still_runs_def)

lemma tidy_later:
  assumes "tidy G now tb" and "now \<le> now'"
  shows "tidy G now' tb"
  using assms still_runs_later by (fastforce simp: tidy_def anchored_def watched_def running_guest_def)

lemma tidy_empty: "tidy {} now empty_tables"
  by (simp add: lost_def tidy_def keys_ok_def ids_below_def grants_owned_def anchored_def empty_tables_def)

section \<open>The primitive changes\<close>

lemma owns_permit_cong: "tb_Permits tb' = tb_Permits tb \<Longrightarrow> owns_permit a p tb' = owns_permit a p tb"
  by (simp add: owns_permit_def)

text \<open>Rows of other tables do not matter.\<close>

lemma tidy_cong:
  assumes "tidy G now tb" and "tb_Permits tb' = tb_Permits tb" and "tb_LastPermit tb' = tb_LastPermit tb"
    and "tb_Grants tb' = tb_Grants tb" and "tb_LastGrant tb' = tb_LastGrant tb"
    and "tb_Tokens tb' = tb_Tokens tb" and "tb_LastToken tb' = tb_LastToken tb"
    and "set (tb_Overrides tb') \<subseteq> set (tb_Overrides tb)"
  shows "tidy G now tb'"
  using assms unfolding tidy_def keys_ok_def grants_owned_def anchored_def lost_def link_of_def owns_permit_def
  by (simp add: subset_iff)

lemma tidy_drop_overrides [tidy_intros]: "tidy G now tb \<Longrightarrow> tidy G now (drop_overrides P tb)"
  by (erule tidy_cong) (auto simp: drop_overrides_def)

lemma tidy_drop_rules [tidy_intros]: "tidy G now tb \<Longrightarrow> tidy G now (drop_rules P tb)"
  by (erule tidy_cong) (auto simp: drop_rules_def)

lemma tidy_drop_vehicles [tidy_intros]: "tidy G now tb \<Longrightarrow> tidy G now (drop_vehicles P tb)"
  by (erule tidy_cong) (auto simp: drop_vehicles_def Let_def)

lemma tidy_on_requests [tidy_intros]: "tidy G now tb \<Longrightarrow> tidy G now (on_requests f tb)"
  by (erule tidy_cong) (auto simp: on_requests_def)

lemma tidy_drop_members [tidy_intros]: "tidy G now tb \<Longrightarrow> tidy G now (drop_members P tb)"
  by (erule tidy_cong) (auto simp: drop_members_def)

lemma tidy_clear_grant_vehicles [tidy_intros]: "tidy G now tb \<Longrightarrow> tidy G now (clear_grant_vehicles gid tb)"
  by (erule tidy_cong) (auto simp: clear_grant_vehicles_def)

lemma tidy_sweep [tidy_intros]: "tidy G now tb \<Longrightarrow> tidy G now (sweepLiveGuestOverrides now' tids tb)"
  unfolding sweepLiveGuestOverrides_def by (rule tidy_drop_overrides)

lemma tidy_sweep_withdrawn [tidy_intros]:
  "tidy G now tb \<Longrightarrow> sweep_withdrawn now' gid tb = (tb', n) \<Longrightarrow> tidy G now tb'"
  by (auto simp: sweep_withdrawn_def Let_def intro: tidy_drop_overrides)

text \<open>Rows of links rewritten in place keep their place.\<close>

lemma anchored_remap:
  assumes "anchored G now tb"
    and "tb_Permits tb' = tb_Permits tb" and "set (tb_Overrides tb') \<subseteq> set (tb_Overrides tb)"
    and "tb_Tokens tb' = map f (tb_Tokens tb)" and "\<And>t. t_ID (f t) = t_ID t \<and> t_GrantID (f t) = t_GrantID t"
    and "tb_Grants tb' = map h (tb_Grants tb)" and "\<And>g. g_ID (h g) = g_ID g \<and> g_Owner (h g) = g_Owner g"
  shows "anchored G now tb'"
  unfolding anchored_def
proof (intro ballI impI)
  fix x assume x: "x \<in> set (tb_Overrides tb')" "watched G now x"
  with assms(1,3) obtain t g where tg: "link_of x tb t g" "owns_permit (g_Owner g) (o_PermitID x) tb"
    unfolding anchored_def by blast
  then have "link_of x tb' (f t) (h g)" using assms(4-7) by (auto simp: link_of_def)
  moreover have "owns_permit (g_Owner (h g)) (o_PermitID x) tb'"
    using tg(2) assms(2,7) by (simp add: owns_permit_def)
  ultimately show "\<exists>t g. link_of x tb' t g \<and> owns_permit (g_Owner g) (o_PermitID x) tb'" by blast
qed

lemma tidy_on_tokens:
  assumes "tidy G now tb" and "\<And>t. t_ID (f t) = t_ID t \<and> t_GrantID (f t) = t_GrantID t"
    and "distinct (map (t_Hash \<circ> f) (tb_Tokens tb))"
  shows "tidy G now (on_tokens f tb)"
proof -
  have "anchored G now (on_tokens f tb)"
    by (rule anchored_remap [where tb = tb and f = f and h = "\<lambda>g. g"])
      (use assms in \<open>auto simp: tidy_def on_tokens_def\<close>)
  moreover have "keys_ok (on_tokens f tb)"
    using assms ids_below_map [of t_ID "tb_Tokens tb" _ f] by (auto simp: tidy_def keys_ok_def on_tokens_def)
  moreover have "grants_owned (on_tokens f tb)"
    using assms(1) by (auto simp: tidy_def grants_owned_def on_tokens_def owns_permit_def)
  moreover have "lost G (on_tokens f tb)" using assms(1,2) by (auto simp: tidy_def lost_def on_tokens_def)
  ultimately show ?thesis by (simp add: tidy_def)
qed

lemma tidy_on_tokens_same [tidy_intros]:
  assumes "tidy G now tb"
    and "\<And>t. t_ID (f t) = t_ID t" and "\<And>t. t_GrantID (f t) = t_GrantID t" and "\<And>t. t_Hash (f t) = t_Hash t"
  shows "tidy G now (on_tokens f tb)"
  using assms by (intro tidy_on_tokens) (auto simp: tidy_def keys_ok_def comp_def)

lemma tidy_on_grants:
  assumes "tidy G now tb" and "\<And>g. g_ID (h g) = g_ID g \<and> g_Owner (h g) = g_Owner g"
    and "\<And>g. g \<in> set (tb_Grants tb) \<Longrightarrow> owns_permit (g_Owner g) (g_PermitID (h g)) tb"
  shows "tidy G now (on_grants h tb)"
proof -
  have "anchored G now (on_grants h tb)"
    by (rule anchored_remap [where tb = tb and f = "\<lambda>t. t" and h = h])
      (use assms in \<open>auto simp: tidy_def on_grants_def\<close>)
  moreover have "keys_ok (on_grants h tb)"
    using assms ids_below_map [of g_ID "tb_Grants tb" _ h] by (auto simp: tidy_def keys_ok_def on_grants_def)
  moreover have "grants_owned (on_grants h tb)"
    using assms by (auto simp: tidy_def grants_owned_def on_grants_def owns_permit_def)
  moreover have "lost G (on_grants h tb)" using assms(1) by (simp add: tidy_def lost_def on_grants_def)
  ultimately show ?thesis by (simp add: tidy_def)
qed

lemma tidy_on_grants_same [tidy_intros]:
  assumes "tidy G now tb"
    and "\<And>g. g_ID (h g) = g_ID g" and "\<And>g. g_Owner (h g) = g_Owner g" and "\<And>g. g_PermitID (h g) = g_PermitID g"
  shows "tidy G now (on_grants h tb)"
  using assms by (intro tidy_on_grants) (auto simp: tidy_def grants_owned_def)

text \<open>
  Grants may go when nothing that runs hangs on them.
\<close>

definition unbacked :: "int set \<Rightarrow> time \<Rightarrow> (guest_grant \<Rightarrow> bool) \<Rightarrow> tables \<Rightarrow> bool" where
  "unbacked G now P tb \<longleftrightarrow> (\<forall>x \<in> set (tb_Overrides tb). watched G now x \<longrightarrow>
     (\<forall>t g. link_of x tb t g \<longrightarrow> \<not> P g))"

lemma tidy_drop_grants:
  assumes "tidy G now tb" and "unbacked G now P tb"
  shows "tidy G now (drop_grants P tb)"
proof -
  let ?tb = "drop_grants P tb"
  have keys: "keys_ok tb" and own: "grants_owned tb" and anch: "anchored G now tb"
    using assms(1) by (auto simp: tidy_def)
  have "anchored G now ?tb" unfolding anchored_def
  proof (intro ballI impI)
    fix x assume x: "x \<in> set (tb_Overrides ?tb)" "watched G now x"
    then have xin: "x \<in> set (tb_Overrides tb)" by (simp add: drop_grants_def Let_def)
    with anch x(2) obtain t g where tg: "link_of x tb t g" "owns_permit (g_Owner g) (o_PermitID x) tb"
      unfolding anchored_def by blast
    have "\<not> P g" using assms(2) xin x(2) tg(1) unfolding unbacked_def by blast
    moreover have uniq: "g' = g" if "g' \<in> set (tb_Grants tb)" "g_ID g' = g_ID g" for g'
      by (rule ids_below_unique [of g_ID "tb_Grants tb" "tb_LastGrant tb"])
        (use that keys tg(1) in \<open>auto simp: keys_ok_def link_of_def\<close>)
    ultimately have "g_ID g \<notin> g_ID ` {g \<in> set (tb_Grants tb). P g}"
      by (metis (mono_tags, lifting) image_iff mem_Collect_eq)
    then have "link_of x ?tb t g" using tg(1) \<open>\<not> P g\<close>
      by (simp add: link_of_def drop_grants_def Let_def)
    moreover have "owns_permit (g_Owner g) (o_PermitID x) ?tb"
      using tg(2) by (simp add: drop_grants_def Let_def owns_permit_def)
    ultimately show "\<exists>t g. link_of x ?tb t g \<and> owns_permit (g_Owner g) (o_PermitID x) ?tb" by blast
  qed
  moreover have "keys_ok ?tb" using keys
    by (simp add: keys_ok_def drop_grants_def Let_def distinct_map_filter ids_below_filter)
  moreover have "grants_owned ?tb" using own
    by (auto simp: grants_owned_def drop_grants_def Let_def owns_permit_def)
  moreover have "lost G ?tb" using assms(1) by (auto simp: tidy_def lost_def drop_grants_def Let_def)
  ultimately show ?thesis by (simp add: tidy_def)
qed

text \<open>The sweep through the rows of the links clears the way.\<close>

lemma in_tokens_where:
  "tid \<in> set (tokens_where P tb) \<longleftrightarrow>
     (\<exists>t \<in> set (tb_Tokens tb). t_ID t = tid \<and> (\<exists>g \<in> set (tb_Grants tb). g_ID g = t_GrantID t \<and> P g))"
  by (auto simp: tokens_where_def list_ex_iff)

lemma sweep_fields [simp]:
  "tb_Tokens (sweepLiveGuestOverrides now tids tb) = tb_Tokens tb"
  "tb_Grants (sweepLiveGuestOverrides now tids tb) = tb_Grants tb"
  "tb_Permits (sweepLiveGuestOverrides now tids tb) = tb_Permits tb"
  by (simp_all add: sweepLiveGuestOverrides_def drop_overrides_def)

lemma sweep_set:
  "set (tb_Overrides (sweepLiveGuestOverrides now tids tb)) =
     {x \<in> set (tb_Overrides tb). \<not> (running_guest now x \<and> o_GuestTokenID x \<in> set tids)}"
  by (auto simp: sweepLiveGuestOverrides_def drop_overrides_def running_guest_def)

lemma swept_unbacked: "unbacked G now P (sweepLiveGuestOverrides now (tokens_where P tb) tb)"
  unfolding unbacked_def
proof (intro ballI impI allI)
  fix x t g
  let ?tb = "sweepLiveGuestOverrides now (tokens_where P tb) tb"
  assume x: "x \<in> set (tb_Overrides ?tb)" "watched G now x" and l: "link_of x ?tb t g"
  show "\<not> P g"
  proof
    assume "P g"
    with l have "o_GuestTokenID x \<in> set (tokens_where P tb)" unfolding in_tokens_where link_of_def by auto
    with x show False by (simp add: sweep_set watched_def)
  qed
qed

lemma tidy_withdraw [tidy_intros]:
  assumes "tidy G now tb"
  shows "tidy G now (drop_grants P (sweepLiveGuestOverrides now (tokens_where P tb) tb))"
  by (intro tidy_drop_grants tidy_sweep assms swept_unbacked)

text \<open>More rows.\<close>

lemma anchored_grow:
  assumes "anchored G now tb"
    and "\<And>a p. owns_permit a p tb \<Longrightarrow> owns_permit a p tb'"
    and "set (tb_Tokens tb) \<subseteq> set (tb_Tokens tb')" and "set (tb_Grants tb) \<subseteq> set (tb_Grants tb')"
    and "\<And>x. x \<in> set (tb_Overrides tb') \<Longrightarrow> watched G now x \<Longrightarrow> x \<in> set (tb_Overrides tb)
           \<or> (\<exists>t g. link_of x tb' t g \<and> owns_permit (g_Owner g) (o_PermitID x) tb')"
  shows "anchored G now tb'"
  unfolding anchored_def
proof (intro ballI impI)
  fix x assume x: "x \<in> set (tb_Overrides tb')" "watched G now x"
  from assms(5) [OF x] show "\<exists>t g. link_of x tb' t g \<and> owns_permit (g_Owner g) (o_PermitID x) tb'"
  proof
    assume "x \<in> set (tb_Overrides tb)"
    with assms(1) x(2) obtain t g where "link_of x tb t g" "owns_permit (g_Owner g) (o_PermitID x) tb"
      unfolding anchored_def by blast
    with assms(2-4) show ?thesis unfolding link_of_def by blast
  qed
qed

lemma tidy_insert_grant:
  assumes "tidy G now tb" and "owns_permit (g_Owner g) (g_PermitID g) tb"
    and "insert_grant g tb = Inr (gid, tb')"
  shows "tidy G now tb'"
proof -
  have tb': "tb' = tb\<lparr>tb_Grants := tb_Grants tb @ [g\<lparr>g_ID := tb_LastGrant tb + 1\<rparr>],
      tb_LastGrant := tb_LastGrant tb + 1\<rparr>"
    using assms(3) by (auto simp: insert_grant_def Let_def split: if_splits)
  have "anchored G now tb'"
    by (rule anchored_grow [of G now tb]) (use assms(1) in \<open>auto simp: tidy_def tb' owns_permit_def\<close>)
  moreover have "keys_ok tb'"
    using assms(1) by (auto simp: tidy_def keys_ok_def tb' intro: ids_below_snoc)
  moreover have "grants_owned tb'"
    using assms(1,2) by (auto simp: tidy_def grants_owned_def tb' owns_permit_def)
  moreover have "lost G tb'" using assms(1) by (simp add: tidy_def lost_def tb')
  ultimately show ?thesis by (simp add: tidy_def)
qed

lemma insert_grant_frame:
  "insert_grant g tb = Inr (gid, tb') \<Longrightarrow> tb_Permits tb' = tb_Permits tb \<and> tb_Overrides tb' = tb_Overrides tb"
  by (auto simp: insert_grant_def Let_def split: if_splits)

lemma tidy_insert_token:
  assumes "tidy G now tb" and "insert_token t tb = Inr tb'"
  shows "tidy G now tb'"
proof -
  have tb': "tb' = tb\<lparr>tb_Tokens := tb_Tokens tb @ [t\<lparr>t_ID := tb_LastToken tb + 1\<rparr>],
      tb_LastToken := tb_LastToken tb + 1\<rparr>"
    and new: "t_Hash t \<notin> t_Hash ` set (tb_Tokens tb)"
    using assms(2) by (auto simp: insert_token_def Let_def list_ex_iff split: if_splits)
  have "anchored G now tb'"
    by (rule anchored_grow [of G now tb]) (use assms(1) in \<open>auto simp: tidy_def tb' owns_permit_def\<close>)
  moreover have "keys_ok tb'"
    using assms(1) new by (auto simp: tidy_def keys_ok_def tb' intro: ids_below_snoc)
  moreover have "grants_owned tb'"
    using assms(1) by (simp add: tidy_def grants_owned_def tb' owns_permit_def)
  moreover have "lost G tb'" using assms(1) by (fastforce simp: tidy_def lost_def tb')
  ultimately show ?thesis by (simp add: tidy_def)
qed

lemma tidy_insertGrantVehicles:
  "insertGrantVehicles owner gid vids tb = Inr tb' \<Longrightarrow> tidy G now tb \<Longrightarrow> tidy G now tb'"
proof (induction vids arbitrary: tb)
  case (Cons vid vids)
  have step: "tidy G now (tb\<lparr>tb_GrantVehicles := tb_GrantVehicles tb @ [(gid, vid)]\<rparr>)"
    by (rule tidy_cong [OF Cons.prems(2)]) simp_all
  show ?case by (rule Cons.IH [OF _ step]) (use Cons.prems(1) in \<open>simp split: if_splits\<close>)
qed simp

lemma tidy_insert_recipients:
  "insert_recipients gid rs now' tb = Inr tb' \<Longrightarrow> tidy G now tb \<Longrightarrow> tidy G now tb'"
proof (induction gid rs now' tb rule: insert_recipients.induct)
  case (2 gid email hash rs now' tb)
  then show ?case using tidy_insert_token by (fastforce split: sum.splits)
qed simp

lemma tidy_add_recipients:
  "add_recipients gid rs now' tb = Inr (added, tb') \<Longrightarrow> tidy G now tb \<Longrightarrow> tidy G now tb'"
proof (induction gid rs now' tb arbitrary: added rule: add_recipients.induct)
  case (2 gid email hash rs now' tb)
  then show ?case using tidy_insert_token by (fastforce split: sum.splits if_splits prod.splits)
qed simp

text \<open>Rules and permits.\<close>

lemma insert_rule_frame:
  assumes "insert_rule pid w wd v e tb = Inr tb'"
  shows "tb_Permits tb' = tb_Permits tb \<and> tb_LastPermit tb' = tb_LastPermit tb
    \<and> tb_Grants tb' = tb_Grants tb \<and> tb_LastGrant tb' = tb_LastGrant tb \<and> tb_Tokens tb' = tb_Tokens tb
    \<and> tb_LastToken tb' = tb_LastToken tb \<and> tb_Overrides tb' = tb_Overrides tb
    \<and> tb_Vehicles tb' = tb_Vehicles tb"
  using assms by (auto simp: insert_rule_def split: if_splits)

lemma upsert_rule_frame:
  assumes "upsert_rule pid w wd v e tb = Inr tb'"
  shows "tb_Permits tb' = tb_Permits tb \<and> tb_LastPermit tb' = tb_LastPermit tb
    \<and> tb_Grants tb' = tb_Grants tb \<and> tb_LastGrant tb' = tb_LastGrant tb \<and> tb_Tokens tb' = tb_Tokens tb
    \<and> tb_LastToken tb' = tb_LastToken tb \<and> tb_Overrides tb' = tb_Overrides tb
    \<and> tb_Vehicles tb' = tb_Vehicles tb"
  using assms insert_rule_frame [of pid w wd v e tb tb'] by (auto simp: upsert_rule_def split: if_splits)

lemma tidy_upsert_rule:
  assumes "upsert_rule pid w wd v e tb = Inr tb'" and "tidy G now tb"
  shows "tidy G now tb'"
  by (rule tidy_cong [OF assms(2)]) (use upsert_rule_frame [OF assms(1)] in simp_all)

lemma tidy_insert_rules:
  assumes "\<And>r a b. ins r a = Inr b \<Longrightarrow> tidy G now a \<Longrightarrow> tidy G now b"
  shows "insert_rules ins rs tb = Inr tb' \<Longrightarrow> tidy G now tb \<Longrightarrow> tidy G now tb'"
  by (induction rs arbitrary: tb) (use assms in \<open>auto split: sum.splits\<close>)

lemma tidy_insert_rule:
  assumes "insert_rule pid w wd v e tb = Inr tb'" and "tidy G now tb"
  shows "tidy G now tb'"
  by (rule tidy_cong [OF assms(2)]) (use insert_rule_frame [OF assms(1)] in simp_all)

lemma tidy_grow_weeks:
  "grow_weeks pid weeks ks tb = Inr tb' \<Longrightarrow> tidy G now tb \<Longrightarrow> tidy G now tb'"
proof (induction pid weeks ks tb rule: grow_weeks.induct)
  case (2 pid weeks k ks tb)
  then obtain tb1 where tb1: "insert_rules (grown_rule k)
      (filter (\<lambda>r. r_Week r = k - weeks) (rules_on pid tb)) tb = Inr tb1"
    by (auto split: sum.splits)
  have "tidy G now tb1"
    by (rule tidy_insert_rules [OF _ tb1 "2.prems"(2)]) (auto simp: grown_rule_def intro: tidy_insert_rule)
  then show ?case using 2 tb1 by simp
qed simp

lemma tidy_restore_rules:
  "restore_rules pid weeks to rs tb = Inr tb' \<Longrightarrow> tidy G now tb \<Longrightarrow> tidy G now tb'"
proof (induction pid weeks to rs tb rule: restore_rules.induct)
  case (2 pid weeks to r rs tb)
  then show ?case using tidy_upsert_rule by (fastforce split: sum.splits if_splits)
qed simp

lemma tidy_permits_map [tidy_intros]:
  assumes "tidy G now tb" and "\<And>p. p_ID (f p) = p_ID p \<and> p_Owner (f p) = p_Owner p"
  shows "tidy G now (tb\<lparr>tb_Permits := map f (tb_Permits tb)\<rparr>)"
proof -
  let ?tb = "tb\<lparr>tb_Permits := map f (tb_Permits tb)\<rparr>"
  have own: "owns_permit a p ?tb = owns_permit a p tb" for a p
    using assms(2) by (auto simp: owns_permit_iff)
  have "anchored G now ?tb"
    by (rule anchored_grow [of G now tb]) (use assms(1) own in \<open>auto simp: tidy_def\<close>)
  moreover have "keys_ok ?tb"
    using assms ids_below_map [of p_ID "tb_Permits tb" _ f] by (auto simp: tidy_def keys_ok_def)
  moreover have "grants_owned ?tb" using assms(1) own by (auto simp: tidy_def grants_owned_def)
  moreover have "lost G ?tb" using assms(1) by (simp add: tidy_def lost_def)
  ultimately show ?thesis by (simp add: tidy_def)
qed

lemma tidy_set_cycle [tidy_intros]: "tidy G now tb \<Longrightarrow> tidy G now (set_cycle pid weeks anchor tb)"
  unfolding set_cycle_def by (rule tidy_permits_map) auto

lemma tidy_copy_cycle [tidy_intros]: "tidy G now tb \<Longrightarrow> tidy G now (copy_cycle src dst tb)"
  unfolding copy_cycle_def by (auto intro: tidy_set_cycle split: option.splits)

lemma tidy_copy_overrides [tidy_intros]: "tidy G now tb \<Longrightarrow> tidy G now (copy_overrides dst ovs tb)"
proof (induction dst ovs tb rule: copy_overrides.induct)
  case (2 dst ov ovs tb)
  let ?tb = "tb\<lparr>tb_Overrides := tb_Overrides tb @ [copied_override dst ov tb],
    tb_LastOverride := tb_LastOverride tb + 1\<rparr>"
  have "anchored G now ?tb"
    by (rule anchored_grow [of G now tb]) (use 2 in \<open>auto simp: tidy_def owns_permit_def
      copied_override_def watched_def running_guest_def guest_booking_def\<close>)
  then have "tidy G now ?tb" using 2 by (simp add: tidy_def keys_ok_def grants_owned_def lost_def owns_permit_def)
  then show ?case using 2 by simp
qed simp

text \<open>A booking made through a link is on a permit of the link's household.\<close>

definition may_book :: "booking \<Rightarrow> int \<Rightarrow> tables \<Rightarrow> bool" where
  "may_book b tid tb \<longleftrightarrow> (\<forall>t \<in> set (tb_Tokens tb). \<forall>g \<in> set (tb_Grants tb).
     t_ID t = tid \<and> g_ID g = t_GrantID t \<longrightarrow> owns_permit (g_Owner g) (bk_PermitID b) tb)"

lemma link_live_iff:
  "link_live tid tb \<longleftrightarrow> (\<exists>t \<in> set (tb_Tokens tb). t_ID t = tid \<and> t_RevokedAt t = None
     \<and> (\<exists>g \<in> set (tb_Grants tb). g_ID g = t_GrantID t \<and> g_Enabled g \<and> guests_on (g_Owner g) tb))"
  by (auto simp: link_live_def list_ex_iff)

lemma insert_override_eq:
  "insert_override b tid e now tb = Inr (oid, tb') \<Longrightarrow>
     tb' = tb\<lparr>tb_Overrides := tb_Overrides tb @ [booked_row b tid e now tb],
              tb_LastOverride := tb_LastOverride tb + 1\<rparr>
     \<and> oid = tb_LastOverride tb + 1 \<and> has_permit (bk_PermitID b) tb"
  by (auto simp: insert_override_def split: if_splits)

lemma tidy_insert_override:
  assumes "tidy G now tb" and "insert_override b tid e now' tb = Inr (oid, tb')"
    and "tid = 0 \<or> (\<exists>t \<in> set (tb_Tokens tb). \<exists>g \<in> set (tb_Grants tb).
           t_ID t = tid \<and> g_ID g = t_GrantID t \<and> owns_permit (g_Owner g) (bk_PermitID b) tb)"
  shows "tidy G now tb'"
proof -
  note tb' = insert_override_eq [OF assms(2)]
  have "anchored G now tb'"
  proof (rule anchored_grow [of G now tb])
    fix x assume x: "x \<in> set (tb_Overrides tb')" "watched G now x"
    show "x \<in> set (tb_Overrides tb) \<or> (\<exists>t g. link_of x tb' t g \<and> owns_permit (g_Owner g) (o_PermitID x) tb')"
    proof (cases "x \<in> set (tb_Overrides tb)")
      case False
      with x tb' have xb: "x = booked_row b tid e now' tb" by auto
      with x(2) have "tid \<noteq> 0" by (auto simp: watched_def running_guest_def guest_booking_def booked_row_def)
      with assms(3) tb' xb show ?thesis
        by (auto simp: link_of_def booked_row_def owns_permit_def)
    qed simp
  qed (use assms(1) tb' in \<open>auto simp: tidy_def owns_permit_def\<close>)
  then show ?thesis using assms(1) tb' by (simp add: tidy_def keys_ok_def grants_owned_def lost_def owns_permit_def)
qed

text \<open>
  Permits may go when no booking that stays hangs on a link that goes with them.
\<close>

definition no_strays :: "int set \<Rightarrow> time \<Rightarrow> (permit \<Rightarrow> bool) \<Rightarrow> tables \<Rightarrow> bool" where
  "no_strays G now P tb \<longleftrightarrow>
     (let gone = map p_ID (filter P (tb_Permits tb))
      in \<forall>x \<in> set (tb_Overrides tb). watched G now x \<and> o_PermitID x \<notin> set gone \<longrightarrow>
           (\<forall>t \<in> set (tb_Tokens tb). \<forall>g \<in> set (tb_Grants tb).
              t_ID t = o_GuestTokenID x \<and> g_ID g = t_GrantID t \<longrightarrow> g_PermitID g \<notin> set gone))"

lemma drop_permits_fields:
  fixes tb :: tables and P :: "permit \<Rightarrow> bool"
  defines "gone \<equiv> p_ID ` {p \<in> set (tb_Permits tb). P p}"
  defines "dead \<equiv> g_ID ` {g \<in> set (tb_Grants tb). g_PermitID g \<in> gone}"
  shows "tb_Permits (drop_permits P tb) = filter (\<lambda>p. \<not> P p) (tb_Permits tb)"
    and "tb_Overrides (drop_permits P tb) = filter (\<lambda>x. o_PermitID x \<notin> gone) (tb_Overrides tb)"
    and "tb_Grants (drop_permits P tb) = filter (\<lambda>g. g_PermitID g \<notin> gone) (tb_Grants tb)"
    and "tb_Tokens (drop_permits P tb) = filter (\<lambda>t. t_GrantID t \<notin> dead) (tb_Tokens tb)"
    and "tb_LastPermit (drop_permits P tb) = tb_LastPermit tb"
    and "tb_LastGrant (drop_permits P tb) = tb_LastGrant tb"
    and "tb_LastToken (drop_permits P tb) = tb_LastToken tb"
  unfolding gone_def dead_def
  by (simp_all add: drop_permits_def drop_grants_def drop_rules_def drop_overrides_def Let_def)

lemma tidy_drop_permits:
  assumes "tidy G now tb" and "no_strays (G \<union> S) now P tb"
    and "S \<subseteq> set (tokens_where (\<lambda>g. g_PermitID g \<in> p_ID ` {p \<in> set (tb_Permits tb). P p}) tb)"
  shows "tidy (G \<union> S) now (drop_permits P tb)"
proof -
  let ?tb = "drop_permits P tb" and ?gone = "p_ID ` {p \<in> set (tb_Permits tb). P p}"
  note fields = drop_permits_fields [of P tb]
  have keys: "keys_ok tb" and own: "grants_owned tb" and anch: "anchored G now tb"
    using assms(1) by (auto simp: tidy_def)
  have stays: "owns_permit a pid ?tb" if "owns_permit a pid tb" "pid \<notin> ?gone" for a pid
    using that unfolding owns_permit_iff fields by auto
  have "anchored (G \<union> S) now ?tb" unfolding anchored_def
  proof (intro ballI impI)
    fix x assume x: "x \<in> set (tb_Overrides ?tb)" "watched (G \<union> S) now x"
    then have xin: "x \<in> set (tb_Overrides tb)" and px: "o_PermitID x \<notin> ?gone" by (auto simp: fields)
    have "watched G now x" using x(2) by (simp add: watched_def)
    with xin anch obtain t g where tg: "link_of x tb t g" "owns_permit (g_Owner g) (o_PermitID x) tb"
      unfolding anchored_def by blast
    have pg: "g_PermitID g \<notin> ?gone"
      using assms(2) xin x(2) px tg(1) unfolding no_strays_def Let_def link_of_def by auto
    have uniq: "g' = g" if "g' \<in> set (tb_Grants tb)" "g_ID g' = g_ID g" for g'
      by (rule ids_below_unique [of g_ID "tb_Grants tb" "tb_LastGrant tb"])
        (use that keys tg(1) in \<open>auto simp: keys_ok_def link_of_def\<close>)
    have "t_GrantID t \<notin> g_ID ` {g' \<in> set (tb_Grants tb). g_PermitID g' \<in> ?gone}"
    proof
      assume "t_GrantID t \<in> g_ID ` {g' \<in> set (tb_Grants tb). g_PermitID g' \<in> ?gone}"
      then obtain g' where g': "g' \<in> set (tb_Grants tb)" "g_PermitID g' \<in> ?gone" "g_ID g' = t_GrantID t"
        by auto
      then have "g' = g" using tg(1) by (intro uniq) (simp_all add: link_of_def)
      with g'(2) pg show False by simp
    qed
    then have "link_of x ?tb t g" using tg(1) pg unfolding link_of_def fields by simp
    with stays [OF tg(2) px] show "\<exists>t g. link_of x ?tb t g \<and> owns_permit (g_Owner g) (o_PermitID x) ?tb"
      by blast
  qed
  moreover have "keys_ok ?tb" using keys unfolding keys_ok_def fields
    by (simp add: distinct_map_filter ids_below_filter)
  moreover have "grants_owned ?tb" using own stays unfolding grants_owned_def fields by simp
  moreover have "lost (G \<union> S) ?tb" unfolding lost_def
  proof
    fix i assume "i \<in> G \<union> S"
    then show "i \<le> tb_LastToken ?tb \<and> i \<notin> t_ID ` set (tb_Tokens ?tb)"
    proof
      assume "i \<in> G"
      then show ?thesis using assms(1) unfolding tidy_def lost_def fields by auto
    next
      assume "i \<in> S"
      then obtain t g where t: "t \<in> set (tb_Tokens tb)" "t_ID t = i" "g \<in> set (tb_Grants tb)"
        "g_ID g = t_GrantID t" "g_PermitID g \<in> ?gone"
        using assms(3) unfolding in_tokens_where subset_iff by blast
      have "u = t" if "u \<in> set (tb_Tokens tb)" "t_ID u = i" for u
        by (rule ids_below_unique [of t_ID "tb_Tokens tb" "tb_LastToken tb"])
          (use that t keys in \<open>auto simp: keys_ok_def\<close>)
      moreover have "t_GrantID t \<in> g_ID ` {g \<in> set (tb_Grants tb). g_PermitID g \<in> ?gone}"
        using t(3-5) by (intro image_eqI [of _ _ g]) simp_all
      ultimately have "i \<notin> t_ID ` set (tb_Tokens ?tb)" unfolding fields by auto
      moreover have "i \<le> tb_LastToken tb" using t(1,2) keys by (auto simp: keys_ok_def ids_below_def)
      ultimately show ?thesis by (simp add: fields)
    qed
  qed
  ultimately show ?thesis by (simp add: tidy_def)
qed

text \<open>A whole account strays nowhere: its links are on its own permits, and so are their bookings.\<close>

lemma account_no_strays:
  assumes "tidy G now tb"
  shows "no_strays G now (\<lambda>p. p_Owner p = owner) tb"
  unfolding no_strays_def Let_def
proof (intro ballI impI)
  fix x t g
  let ?gone = "set (map p_ID (filter (\<lambda>p. p_Owner p = owner) (tb_Permits tb)))"
  assume x: "x \<in> set (tb_Overrides tb)" and rx: "watched G now x \<and> o_PermitID x \<notin> ?gone"
    and lt: "t \<in> set (tb_Tokens tb)" "g \<in> set (tb_Grants tb)" "t_ID t = o_GuestTokenID x \<and> g_ID g = t_GrantID t"
  then have l: "link_of x tb t g" by (simp add: link_of_def)
  have keys: "keys_ok tb" and own: "grants_owned tb" and anch: "anchored G now tb"
    using assms by (auto simp: tidy_def)
  obtain t' g' where tg: "link_of x tb t' g'" "owns_permit (g_Owner g') (o_PermitID x) tb"
    using anch x rx unfolding anchored_def by blast
  have "t' = t"
    by (rule ids_below_unique [of t_ID "tb_Tokens tb" "tb_LastToken tb"])
      (use keys l tg(1) in \<open>auto simp: keys_ok_def link_of_def\<close>)
  moreover have "g' = g" if "t' = t"
    by (rule ids_below_unique [of g_ID "tb_Grants tb" "tb_LastGrant tb"])
      (use keys l tg(1) that in \<open>auto simp: keys_ok_def link_of_def\<close>)
  ultimately have gx: "owns_permit (g_Owner g) (o_PermitID x) tb" using tg(2) by simp
  show "g_PermitID g \<notin> ?gone"
  proof
    assume "g_PermitID g \<in> ?gone"
    then have "owns_permit owner (g_PermitID g) tb" by (auto simp: owns_permit_iff)
    moreover have "owns_permit (g_Owner g) (g_PermitID g) tb"
      using own l by (simp add: grants_owned_def link_of_def)
    ultimately have "g_Owner g = owner" by (intro owner_unique [OF keys])
    with gx rx show False by (auto simp: owns_permit_iff image_iff)
  qed
qed

end
