(* ===== verification/Authority.thy ===== *)
theory Authority
  imports Revocation
begin

text \<open>
  The operations of the store in any order, as calls on the tables at the clock of the call,
  and the states they lead to. A call that fails leaves the tables as they were.
\<close>

section \<open>Calls\<close>

datatype schedule_call =
    DoUpsertPermit string string string string string
  | DoDeletePermit int string
  | DoSetRule string int int int int
  | DoSetEmptyRule string int int int
  | DoClearRule string int int int
  | DoCopySchedule string int int
  | DoGrowCycle string int string int
  | DoShrinkCycle string int string int
  | DoRestoreCycle string int "weekly_rule list" string int
  | DoBook booking bool
  | DoHold booking
  | DoGuestBook booking int
  | DoDeleteGuestOverrides int int
  | DoPruneOverrides time
  | DoDeleteOverride string int
  | DoDeleteOverrideOnPermit string int int

datatype pass_call =
    DoCreateGuestGrant string string int string bool "int list" "(string \<times> string) list"
  | DoUpdateGuestGrant string int string bool "int list"
  | DoAddGuestTokens string int "(string \<times> string) list"
  | DoResetGuestToken string int string string
  | DoForgetRevokedRecipients time
  | DoRevokeGuestToken string int
  | DoDeleteGuestGrant string int
  | DoSetGuestBaseline int string time
  | DoCaptureBaseline int string time
  | DoClearGuestBaseline int
  | DoSetGuestsEnabled string bool
  | DoMoveGuestGrants string int int
  | DoMarkPassNudgeSent int
  | DoCreateQRGrant string string int string string dur
  | DoCreatePrintedGrant string string int string string
  | DoRevokePrintedGrant string int
  | DoCreatePickerGrant string string int bool bool "int list" string string
  | DoRotatePickerToken string string string
  | DoUpdatePickerGrant string bool bool "int list"

datatype house_call =
    DoCreateGuestRequest asked
  | DoExpireGuestRequests time
  | DoClearSettledRequestNonces
  | DoPurgeDecidedGuestRequests time
  | DoDecideGuestRequest string int verdict_row
  | DoCreateVehicle string string string string
  | DoDeleteVehicle string int
  | DoAddMember string string nat
  | DoAcceptInvite bool string string
  | DoDeclineInvite string
  | DoLeave string string
  | DoErase string

datatype call = Schedule schedule_call | Pass pass_call | House house_call

definition settle :: "tables \<Rightarrow> tables outcome \<Rightarrow> tables" where
  "settle tb r = (case r of Inl e \<Rightarrow> tb | Inr tb' \<Rightarrow> tb')"

definition settled :: "tables \<Rightarrow> ('a \<times> tables) outcome \<Rightarrow> tables" where
  "settled tb r = (case r of Inl e \<Rightarrow> tb | Inr p \<Rightarrow> snd p)"

text \<open>
  The household's own bookings come through the capped insert; the hold a drift check leaves
  comes through the guarded one without a link.
\<close>

primrec schedule_step :: "schedule_call \<Rightarrow> time \<Rightarrow> tables \<Rightarrow> tables" where
  "schedule_step (DoUpsertPermit owner tenant council ptype label) now tb =
     settled tb (UpsertPermit owner tenant council ptype label tb)"
| "schedule_step (DoDeletePermit pid owner) now tb = settle tb (DeletePermit pid owner tb)"
| "schedule_step (DoSetRule owner pid w wd vid) now tb = settle tb (SetRule owner pid w wd vid tb)"
| "schedule_step (DoSetEmptyRule owner pid w wd) now tb = settle tb (SetEmptyRule owner pid w wd tb)"
| "schedule_step (DoClearRule owner pid w wd) now tb = settle tb (ClearRule owner pid w wd tb)"
| "schedule_step (DoCopySchedule owner src dst) now tb = settled tb (CopySchedule owner src dst now tb)"
| "schedule_step (DoGrowCycle owner pid anchor to) now tb = settled tb (GrowCycle owner pid anchor to tb)"
| "schedule_step (DoShrinkCycle owner pid anchor to) now tb = settled tb (ShrinkCycle owner pid anchor to tb)"
| "schedule_step (DoRestoreCycle owner pid rs anchor to) now tb =
     settled tb (RestoreCycle owner pid rs anchor to tb)"
| "schedule_step (DoBook b e) now tb =
     settled tb (createOverrideCapped b MaxLiveOverridesPerPermit e now tb)"
| "schedule_step (DoHold b) now tb = settled tb (createOverrideGuarded b 0 now tb)"
| "schedule_step (DoGuestBook b tid) now tb = settled tb (createOverrideGuarded b tid now tb)"
| "schedule_step (DoDeleteGuestOverrides pid tid) now tb = settle tb (DeleteGuestOverrides pid tid tb)"
| "schedule_step (DoPruneOverrides before) now tb = PruneOverrides before tb"
| "schedule_step (DoDeleteOverride owner oid) now tb = settle tb (DeleteOverride owner oid tb)"
| "schedule_step (DoDeleteOverrideOnPermit owner pid oid) now tb = fst (DeleteOverrideOnPermit owner pid oid tb)"

primrec pass_step :: "pass_call \<Rightarrow> time \<Rightarrow> tables \<Rightarrow> tables" where
  "pass_step (DoCreateGuestGrant owner by pid label overnight vids rs) now tb =
     settled tb (CreateGuestGrant owner by pid label overnight vids rs now tb)"
| "pass_step (DoUpdateGuestGrant owner gid label overnight vids) now tb =
     settled tb (UpdateGuestGrant owner gid label overnight vids now tb)"
| "pass_step (DoAddGuestTokens owner gid rs) now tb = settled tb (AddGuestTokens owner gid rs now tb)"
| "pass_step (DoResetGuestToken owner gid email hash) now tb =
     settled tb (ResetGuestToken owner gid email hash now tb)"
| "pass_step (DoForgetRevokedRecipients before) now tb = ForgetRevokedRecipients before tb"
| "pass_step (DoRevokeGuestToken owner tid) now tb = settle tb (RevokeGuestToken owner tid now tb)"
| "pass_step (DoDeleteGuestGrant owner gid) now tb = settle tb (DeleteGuestGrant owner gid now tb)"
| "pass_step (DoSetGuestBaseline tid plate until) now tb = SetGuestBaseline tid plate until tb"
| "pass_step (DoCaptureBaseline tid plate until) now tb =
     settled tb (CaptureOrExtendGuestBaseline tid plate until now tb)"
| "pass_step (DoClearGuestBaseline tid) now tb = ClearGuestBaseline tid tb"
| "pass_step (DoSetGuestsEnabled owner enabled) now tb = SetGuestsEnabled owner enabled now tb"
| "pass_step (DoMoveGuestGrants owner src dst) now tb = settled tb (MoveGuestGrants owner src dst now tb)"
| "pass_step (DoMarkPassNudgeSent gid) now tb = MarkPassNudgeSent gid now tb"
| "pass_step (DoCreateQRGrant owner by pid hash seal ttl) now tb =
     settled tb (CreateQRGrant owner by pid hash seal ttl now tb)"
| "pass_step (DoCreatePrintedGrant owner by pid hash seal) now tb =
     settled tb (CreatePrintedGrant owner by pid hash seal now tb)"
| "pass_step (DoRevokePrintedGrant owner gid) now tb = settle tb (RevokePrintedGrant owner gid now tb)"
| "pass_step (DoCreatePickerGrant owner by pid overnight allv vids hash seal) now tb =
     settled tb (CreatePickerGrant owner by pid overnight allv vids hash seal now tb)"
| "pass_step (DoRotatePickerToken owner hash seal) now tb =
     settle tb (RotatePickerToken owner hash seal now tb)"
| "pass_step (DoUpdatePickerGrant owner overnight allv vids) now tb =
     settled tb (UpdatePickerGrant owner overnight allv vids now tb)"

primrec house_step :: "house_call \<Rightarrow> time \<Rightarrow> tables \<Rightarrow> tables" where
  "house_step (DoCreateGuestRequest a) now tb = settled tb (CreateGuestRequest a now tb)"
| "house_step (DoExpireGuestRequests before) now tb = ExpireGuestRequests before now tb"
| "house_step DoClearSettledRequestNonces now tb = ClearSettledRequestNonces now tb"
| "house_step (DoPurgeDecidedGuestRequests before) now tb = PurgeDecidedGuestRequests before tb"
| "house_step (DoDecideGuestRequest owner rid vd) now tb =
     settled tb (DecideGuestRequest owner rid vd now tb)"
| "house_step (DoCreateVehicle owner reg label st) now tb = settled tb (CreateVehicle owner reg label st tb)"
| "house_step (DoDeleteVehicle owner vid) now tb = fst (DeleteVehicle owner vid tb)"
| "house_step (DoAddMember owner email limit) now tb = settle tb (AddMemberCapped owner email limit now tb)"
| "house_step (DoAcceptInvite linked email owner) now tb = settle tb (AcceptInvite linked email owner now tb)"
| "house_step (DoDeclineInvite email) now tb = DeclineInvite email tb"
| "house_step (DoLeave owner email) now tb = snd (revokeGrantsBy owner email now
     (drop_members (\<lambda>m. am_Member m = email \<and> am_Owner m = owner) tb))"
| "house_step (DoErase owner) now tb = erase_tables owner now tb"

primrec perform :: "call \<Rightarrow> time \<Rightarrow> tables \<Rightarrow> tables" where
  "perform (Schedule c) = schedule_step c"
| "perform (Pass c) = pass_step c"
| "perform (House c) = house_step c"

text \<open>
  What the callers see to: a booking through a link goes on a permit of the link's household,
  because the page it is made from was resolved from the link, and links only ever move
  between permits of one household. Nothing else is asked of the callers.
\<close>

definition admissible :: "call \<Rightarrow> tables \<Rightarrow> bool" where
  "admissible c tb = (case c of Schedule (DoGuestBook b tid) \<Rightarrow> may_book b tid tb | _ \<Rightarrow> True)"

text \<open>
  The links a call loses with a booking of theirs still running: giving up a permit deletes the
  rows of the links that are on it, and bookings that such a link made before it was moved
  there stay on the permit it came from. No other call does this.
\<close>

definition stranded :: "call \<Rightarrow> time \<Rightarrow> tables \<Rightarrow> int list" where
  "stranded c now tb =
     (case c of
        Schedule (DoDeletePermit pid owner) \<Rightarrow>
          (if owns_permit owner pid tb
           then map o_GuestTokenID (filter (\<lambda>x. running_guest now x \<and> o_PermitID x \<noteq> pid
                  \<and> o_GuestTokenID x \<in> set (tokens_where (\<lambda>g. g_PermitID g = pid) tb)) (tb_Overrides tb))
           else [])
      | _ \<Rightarrow> [])"

lemma stranded_else [simp]: "stranded (Pass c) now tb = []" "stranded (House d) now tb = []"
  by (simp_all add: stranded_def)

text \<open>
  The states the calls lead to, in any order and at any times, with the links lost on the way.
\<close>

inductive evolves :: "int set \<Rightarrow> time \<Rightarrow> tables \<Rightarrow> bool" where
  evolves_init: "evolves {} now empty_tables"
| evolves_wait: "evolves G now tb \<Longrightarrow> now \<le> now' \<Longrightarrow> evolves G now' tb"
| evolves_call: "evolves G now tb \<Longrightarrow> admissible c tb \<Longrightarrow>
    evolves (G \<union> set (stranded c now tb)) now (perform c now tb)"

lemma evolves_calm:
  "evolves G now tb \<Longrightarrow> admissible c tb \<Longrightarrow> stranded c now tb = [] \<Longrightarrow> evolves G now (perform c now tb)"
  using evolves_call [of G now tb c] by simp

section \<open>Every operation keeps the tables tidy\<close>

lemma settle_keeps: "tidy G now tb \<Longrightarrow> (\<And>tb'. r = Inr tb' \<Longrightarrow> tidy G now tb') \<Longrightarrow> tidy G now (settle tb r)"
  by (auto simp: settle_def split: sum.splits)

lemma settled_keeps:
  "tidy G now tb \<Longrightarrow> (\<And>a tb'. r = Inr (a, tb') \<Longrightarrow> tidy G now tb') \<Longrightarrow> tidy G now (settled tb r)"
  by (auto simp: settled_def split: sum.splits)

lemma tidy_UpsertPermit:
  assumes "tidy G now tb" and "UpsertPermit owner tenant council ptype label tb = Inr (pid, tb')"
  shows "tidy G now tb'"
proof (cases "find (\<lambda>p. p_TenantID p = tenant \<and> p_CouncilPermitID p = council) (tb_Permits tb)")
  case None
  let ?p = "new_permit owner tenant council ptype label (tb_LastPermit tb + 1)"
  have tb': "tb' = tb\<lparr>tb_Permits := tb_Permits tb @ [?p], tb_LastPermit := tb_LastPermit tb + 1\<rparr>"
    using assms(2) None by (auto simp: UpsertPermit_def Let_def)
  have "anchored G now tb'"
    by (rule anchored_grow [of G now tb]) (use assms(1) in \<open>auto simp: tidy_def tb' owns_permit_def\<close>)
  moreover have "keys_ok tb'"
    using assms(1) by (auto simp: tidy_def keys_ok_def tb' new_permit_def intro: ids_below_snoc)
  moreover have "grants_owned tb'"
    using assms(1) by (auto simp: tidy_def grants_owned_def tb' owns_permit_def)
  moreover have "lost G tb'" using assms(1) by (simp add: tidy_def lost_def tb')
  ultimately show ?thesis by (simp add: tidy_def)
next
  case (Some q)
  then show ?thesis using assms
    by (auto simp: UpsertPermit_def split: if_splits intro!: tidy_permits_map)
qed

lemma tidy_rule_calls:
  assumes "tidy G now tb"
  shows "SetRule owner pid w wd vid tb = Inr tb' \<Longrightarrow> tidy G now tb'"
    and "SetEmptyRule owner pid w wd tb = Inr tb' \<Longrightarrow> tidy G now tb'"
    and "ClearRule owner pid w wd tb = Inr tb' \<Longrightarrow> tidy G now tb'"
  using assms tidy_upsert_rule
  by (auto simp: SetRule_def SetEmptyRule_def ClearRule_def split: if_splits option.splits
      intro: tidy_drop_rules)

lemma tidy_CopySchedule:
  assumes "tidy G now tb" and "CopySchedule owner src dst now' tb = Inr (n, tb')"
  shows "tidy G now tb'"
proof (cases "rules_on src tb = [] \<and> running_on src now' tb = []")
  case True
  then show ?thesis using assms by (auto simp: CopySchedule_def Let_def split: if_splits)
next
  case False
  let ?cleared = "drop_overrides (\<lambda>x. o_PermitID x = dst \<and> still_runs now' x)
    (drop_rules (\<lambda>r. r_PermitID r = dst) tb)"
  obtain tb1 where tb1: "insert_rules (copied_rule dst) (rules_on src tb) ?cleared = Inr tb1"
    and tb': "tb' = copy_overrides dst (running_on src now' tb) (copy_cycle src dst tb1)"
    using assms(2) False by (auto simp: CopySchedule_def Let_def split: if_splits sum.splits)
  have "tidy G now ?cleared" by (intro tidy_drop_overrides tidy_drop_rules assms(1))
  then have "tidy G now tb1"
    using tidy_insert_rules [OF _ tb1] by (auto simp: copied_rule_def intro: tidy_insert_rule)
  then show ?thesis unfolding tb' by (intro tidy_copy_overrides tidy_copy_cycle)
qed

lemma tidy_cycle_calls:
  assumes "tidy G now tb"
  shows "GrowCycle owner pid anchor to tb = Inr (n, tb') \<Longrightarrow> tidy G now tb'"
    and "ShrinkCycle owner pid anchor to tb = Inr (removed, tb') \<Longrightarrow> tidy G now tb'"
    and "RestoreCycle owner pid rs anchor to tb = Inr (n, tb') \<Longrightarrow> tidy G now tb'"
  using assms tidy_grow_weeks tidy_restore_rules
  by (auto simp: GrowCycle_def ShrinkCycle_def RestoreCycle_def split: if_splits option.splits sum.splits
      intro!: tidy_set_cycle tidy_drop_rules)

lemma tidy_bookings:
  assumes "tidy G now tb"
  shows "createOverrideCapped b limit e now' tb = Inr (oid, tb') \<Longrightarrow> tidy G now tb'"
    and "may_book b tid tb \<Longrightarrow> createOverrideGuarded b tid now' tb = Inr (oid, tb') \<Longrightarrow> tidy G now tb'"
proof -
  assume "createOverrideCapped b limit e now' tb = Inr (oid, tb')"
  then show "tidy G now tb'" using tidy_insert_override [OF assms, of b 0]
    by (auto simp: createOverrideCapped_def split: if_splits)
next
  assume m: "may_book b tid tb" and g: "createOverrideGuarded b tid now' tb = Inr (oid, tb')"
  then have ins: "insert_override b tid False now' tb = Inr (oid, tb')" and "tid = 0 \<or> link_live tid tb"
    by (auto simp: createOverrideGuarded_def split: if_splits)
  then have "tid = 0 \<or> (\<exists>t \<in> set (tb_Tokens tb). \<exists>g \<in> set (tb_Grants tb).
      t_ID t = tid \<and> g_ID g = t_GrantID t \<and> owns_permit (g_Owner g) (bk_PermitID b) tb)"
    using m unfolding link_live_iff may_book_def by blast
  with ins show "tidy G now tb'" by (intro tidy_insert_override [OF assms])
qed

lemma tidy_rebind:
  assumes "tidy G now tb" and "\<not> hash_taken h tid tb"
    and "\<And>t. t_ID (f t) = t_ID t" and "\<And>t. t_GrantID (f t) = t_GrantID t"
    and "\<And>t. t_Hash (f t) = (if t_ID t = tid then h else t_Hash t)"
  shows "tidy G now (on_tokens f tb)"
proof (rule tidy_on_tokens [OF assms(1)])
  have ids: "ids_below t_ID (tb_Tokens tb) (tb_LastToken tb)" and hashes: "distinct (map t_Hash (tb_Tokens tb))"
    using assms(1) by (auto simp: tidy_def keys_ok_def)
  have free: "t_Hash t \<noteq> h" if "t \<in> set (tb_Tokens tb)" "t_ID t \<noteq> tid" for t
    using assms(2) that by (auto simp: hash_taken_def list_ex_iff)
  have "inj_on (t_Hash \<circ> f) (set (tb_Tokens tb))"
  proof (rule inj_onI)
    fix a b assume ab: "a \<in> set (tb_Tokens tb)" "b \<in> set (tb_Tokens tb)" "(t_Hash \<circ> f) a = (t_Hash \<circ> f) b"
    show "a = b"
    proof (cases "t_ID a = t_ID b")
      case True
      then show ?thesis using ids_below_unique [OF ids ab(1,2)] by simp
    next
      case False
      with ab free have "t_Hash a = t_Hash b" by (auto simp: assms(5) split: if_splits)
      then show ?thesis using ab(1,2) hashes by (auto simp: distinct_map inj_on_def)
    qed
  qed
  then show "distinct (map (t_Hash \<circ> f) (tb_Tokens tb))"
    using hashes by (simp add: distinct_map)
qed (use assms in simp)

lemma tidy_CreateGuestGrant:
  assumes "tidy G now tb" and "CreateGuestGrant owner by pid label overnight vids rs now' tb = Inr (gid, tb')"
  shows "tidy G now tb'"
proof -
  let ?g = "(new_grant owner by pid label now')\<lparr>g_AllowOvernight := overnight\<rparr>"
  obtain tb1 tb2 where own: "owns_permit owner pid tb" and tb1: "insert_grant ?g tb = Inr (gid, tb1)"
    and tb2: "insertGrantVehicles owner gid vids tb1 = Inr tb2"
    and tb3: "insert_recipients gid rs now' tb2 = Inr tb'"
    using assms(2) by (auto simp: CreateGuestGrant_def split: if_splits sum.splits prod.splits)
  have "tidy G now tb1" by (rule tidy_insert_grant [OF assms(1) _ tb1]) (use own in \<open>simp add: new_grant_def\<close>)
  then show ?thesis by (intro tidy_insert_recipients [OF tb3] tidy_insertGrantVehicles [OF tb2])
qed

lemma tidy_UpdateGuestGrant:
  assumes "tidy G now tb" and "UpdateGuestGrant owner gid label overnight vids now' tb = Inr (n, tb')"
  shows "tidy G now tb'"
proof -
  let ?h = "\<lambda>g. if g_ID g = gid \<and> g_Owner g = owner \<and> emailed g
    then g\<lparr>g_Label := label, g_AllowOvernight := overnight\<rparr> else g"
  obtain tb2 where tb2: "insertGrantVehicles owner gid vids (clear_grant_vehicles gid (on_grants ?h tb)) = Inr tb2"
    and tb3: "sweep_withdrawn now' gid tb2 = (tb', n)"
    using assms(2) by (auto simp: UpdateGuestGrant_def Let_def split: if_splits sum.splits prod.splits)
  have "tidy G now (clear_grant_vehicles gid (on_grants ?h tb))"
    by (intro tidy_clear_grant_vehicles tidy_on_grants_same assms(1)) auto
  then show ?thesis by (intro tidy_sweep_withdrawn [OF _ tb3] tidy_insertGrantVehicles [OF tb2])
qed

lemma newest_in: "newest ts = Some t \<Longrightarrow> t \<in> set ts"
  unfolding newest_def by (rule best_in)

lemma tidy_ResetGuestToken:
  assumes "tidy G now tb" and "ResetGuestToken owner gid email h now' tb = Inr (pid, tb')"
  shows "tidy G now tb'"
proof -
  obtain g where g: "find (\<lambda>g. g_ID g = gid \<and> g_Owner g = owner \<and> emailed g) (tb_Grants tb) = Some g"
    using assms(2) by (auto simp: ResetGuestToken_def split: option.splits)
  obtain keep where k: "newest (filter (\<lambda>t. t_GrantID t = gid \<and> t_RecipientEmail t = email) (tb_Tokens tb)) = Some keep"
    using assms(2) g by (auto simp: ResetGuestToken_def split: option.splits)
  have free: "\<not> hash_taken h (t_ID keep) tb"
    and tb': "tb' = on_tokens (\<lambda>t. if t_GrantID t = gid \<and> t_RecipientEmail t = email
          \<and> t_ID t \<noteq> t_ID keep \<and> t_RevokedAt t = None then t\<lparr>t_RevokedAt := Some (nowUTC now')\<rparr> else t)
        (on_tokens (\<lambda>t. if t_ID t = t_ID keep then rebound h now' t else t) tb)"
    using assms(2) g k by (simp_all add: ResetGuestToken_def split: if_splits)
  show ?thesis unfolding tb'
    by (intro tidy_on_tokens_same tidy_rebind [OF assms(1) free]) (auto simp: rebound_def)
qed

lemma tidy_RotatePickerToken:
  assumes "tidy G now tb" and "RotatePickerToken owner h seal now' tb = Inr tb'"
  shows "tidy G now tb'"
proof -
  obtain cur where c: "picker_token owner (\<lambda>g. True) tb = Some cur"
    using assms(2) by (auto simp: RotatePickerToken_def split: option.splits)
  have free: "\<not> hash_taken h (t_ID cur) tb"
    and tb': "tb' = on_tokens (\<lambda>t. if t_ID t = t_ID cur then (rebound h now' t)\<lparr>t_Sealed := seal\<rparr> else t) tb"
    using assms(2) c by (simp_all add: RotatePickerToken_def split: if_splits)
  show ?thesis unfolding tb' by (intro tidy_rebind [OF assms(1) free]) (auto simp: rebound_def)
qed

lemma tidy_revocations:
  assumes "tidy G now tb"
  shows "RevokeGuestToken owner tid now' tb = Inr tb' \<Longrightarrow> tidy G now tb'"
    and "DeleteGuestGrant owner gid now tb = Inr tb' \<Longrightarrow> tidy G now tb'"
    and "RevokePrintedGrant owner gid now tb = Inr tb' \<Longrightarrow> tidy G now tb'"
    and "tidy G now (snd (revokeGrantsBy owner email now tb))"
    and "tidy G now (SetGuestsEnabled owner enabled now' tb)"
proof -
  assume "RevokeGuestToken owner tid now' tb = Inr tb'"
  then show "tidy G now tb'"
    by (auto simp: RevokeGuestToken_def Let_def split: if_splits
        intro!: tidy_sweep tidy_on_tokens_same assms)
next
  have "tidy G now (tb\<lparr>tb_GuestsEnabled := f\<rparr>)" for f by (rule tidy_cong [OF assms]) simp_all
  then show "tidy G now (SetGuestsEnabled owner enabled now' tb)"
    by (auto simp: SetGuestsEnabled_def Let_def intro!: tidy_sweep)
qed (auto simp: DeleteGuestGrant_def RevokePrintedGrant_def revokeGrantsBy_def Let_def split: if_splits
      intro!: tidy_withdraw assms)

text \<open>Superseding a code deletes only what backs nothing.\<close>

lemma backs_live_iff:
  "backs_live now tb g \<longleftrightarrow> (\<exists>x \<in> set (tb_Overrides tb). running_guest now x
     \<and> (\<exists>t \<in> set (tb_Tokens tb). t_ID t = o_GuestTokenID x \<and> t_GrantID t = g_ID g))"
  by (auto simp: backs_live_def list_ex_iff running_guest_def)

lemma tidy_retire_grants:
  assumes "tidy G now tb" shows "tidy G now (retire_grants P now tb)"
proof -
  let ?tb1 = "on_grants (\<lambda>g. if P g \<and> backs_live now tb g then g\<lparr>g_Enabled := False\<rparr> else g) tb"
  have "tidy G now ?tb1" by (intro tidy_on_grants_same assms) auto
  moreover have "unbacked G now (\<lambda>g. P g \<and> \<not> backs_live now b g) b" for b
    unfolding unbacked_def backs_live_iff link_of_def watched_def by auto
  ultimately show ?thesis unfolding retire_grants_def Let_def by (rule tidy_drop_grants)
qed

lemma retire_grants_permits: "tb_Permits (retire_grants P now tb) = tb_Permits tb"
  by (simp add: retire_grants_def Let_def drop_grants_def on_grants_def)

lemma tidy_new_code:
  assumes "tidy G now tb" and "owns_permit owner pid tb"
    and "insert_grant g (deny_pending D now' (retire_grants P now tb)) = Inr (gid, tb3)"
    and "g_Owner g = owner" and "g_PermitID g = pid" and "insert_token t tb3 = Inr tb'"
  shows "tidy G now tb'"
proof -
  have "tidy G now (deny_pending D now' (retire_grants P now tb))"
    unfolding deny_pending_def by (intro tidy_on_requests tidy_retire_grants assms(1))
  moreover have "owns_permit owner pid (deny_pending D now' (retire_grants P now tb))"
    using assms(2) by (simp add: owns_permit_def deny_pending_def on_requests_def retire_grants_permits)
  ultimately have "tidy G now tb3" using assms(3-5) tidy_insert_grant by metis
  then show ?thesis by (rule tidy_insert_token [OF _ assms(6)])
qed

lemma tidy_codes:
  assumes "tidy G now tb"
  shows "CreateQRGrant owner by pid hash seal ttl now tb = Inr (gid, tb') \<Longrightarrow> tidy G now tb'"
    and "CreatePrintedGrant owner by pid hash seal now tb = Inr (gid, tb') \<Longrightarrow> tidy G now tb'"
  by (auto simp: CreateQRGrant_def CreatePrintedGrant_def Let_def new_grant_def
      split: if_splits sum.splits prod.splits elim!: tidy_new_code [OF assms, rotated])

lemma tidy_CreatePickerGrant:
  assumes "tidy G now tb"
    and "CreatePickerGrant owner by pid overnight allv vids hash seal now' tb = Inr (gid, tb')"
  shows "tidy G now tb'"
proof -
  let ?g = "(new_grant owner by pid ''Quick picker'' now')
    \<lparr>g_AllowOvernight := overnight, g_Picker := True, g_AllVehicles := allv\<rparr>"
  obtain tb1 tb2 where own: "owns_permit owner pid tb" and tb1: "insert_grant ?g tb = Inr (gid, tb1)"
    and tb2: "(if allv then Inr tb1 else insertGrantVehicles owner gid vids tb1) = Inr tb2"
    and tb3: "insert_token (new_token gid [] hash seal None now') tb2 = Inr tb'"
    using assms(2) by (auto simp: CreatePickerGrant_def split: if_splits sum.splits prod.splits)
  have "tidy G now tb1" by (rule tidy_insert_grant [OF assms(1) _ tb1]) (use own in \<open>simp add: new_grant_def\<close>)
  then have "tidy G now tb2" using tb2 tidy_insertGrantVehicles by (auto split: if_splits)
  then show ?thesis by (rule tidy_insert_token [OF _ tb3])
qed

lemma tidy_UpdatePickerGrant:
  assumes "tidy G now tb" and "UpdatePickerGrant owner overnight allv vids now' tb = Inr (n, tb')"
  shows "tidy G now tb'"
proof -
  obtain g0 where g0: "find (\<lambda>g. g_Owner g = owner \<and> g_Picker g \<and> g_Enabled g) (tb_Grants tb) = Some g0"
    using assms(2) by (auto simp: UpdatePickerGrant_def split: if_splits option.splits)
  let ?gid = "g_ID g0"
  let ?tb1 = "\<lambda>b. clear_grant_vehicles ?gid (on_grants (\<lambda>g. if g_ID g = ?gid
    then g\<lparr>g_AllowOvernight := overnight, g_AllVehicles := b\<rparr> else g) tb)"
  have t1: "tidy G now (?tb1 b)" for b
    by (intro tidy_clear_grant_vehicles tidy_on_grants_same assms(1)) auto
  show ?thesis
  proof (cases allv)
    case True
    then have "tb' = ?tb1 True" using assms(2) g0 by (simp add: UpdatePickerGrant_def Let_def)
    with t1 show ?thesis by simp
  next
    case False
    with assms(2) g0 obtain tb2 where tb2: "insertGrantVehicles owner ?gid vids (?tb1 False) = Inr tb2"
      and tb3: "sweep_withdrawn now' ?gid tb2 = (tb', n)"
      by (auto simp: UpdatePickerGrant_def Let_def split: if_splits sum.splits prod.splits)
    show ?thesis by (intro tidy_sweep_withdrawn [OF _ tb3] tidy_insertGrantVehicles [OF tb2 t1])
  qed
qed

lemma tidy_MoveGuestGrants:
  assumes "tidy G now tb" and "MoveGuestGrants owner src dst now tb = Inr (m, tb')"
  shows "tidy G now tb'"
proof -
  have dst: "owns_permit owner dst tb"
    and c: "(src = dst) = False" "owns_permit owner src tb = True" "owns_permit owner dst tb = True"
    using assms(2) by (auto simp: MoveGuestGrants_def split: if_splits)
  let ?R = "\<lambda>g. (g_Owner g = owner \<and> g_PermitID g = src) \<and> g_Picker g"
  define tb1 where "tb1 = (if list_ex (\<lambda>g. g_Owner g = owner \<and> g_Picker g \<and> g_PermitID g \<noteq> src) (tb_Grants tb)
      \<and> list_ex ?R (tb_Grants tb)
    then drop_grants ?R (sweepLiveGuestOverrides now (tokens_where ?R tb) tb) else tb)"
  define moving :: "guest_grant \<Rightarrow> bool" where "moving = (\<lambda>g. (g_Owner g = owner \<and> g_PermitID g = src)
    \<and> (list_ex (\<lambda>g. (g_Owner g = owner \<and> g_PermitID g = dst) \<and> g_RequestOnly g) (tb_Grants tb)
         \<longrightarrow> \<not> g_RequestOnly g))"
  define gids where "gids = map g_ID (filter moving (tb_Grants tb1))"
  define tb3 where "tb3 = on_requests (\<lambda>q. if q_Status q = Pending \<and> q_PermitID q = src \<and> q_GrantID q \<in> set gids
        then q\<lparr>q_PermitID := dst\<rparr> else q)
      (on_tokens (\<lambda>t. if t_GrantID t \<in> set gids then no_baseline t else t) tb1)"
  have tb': "tb' = on_grants (\<lambda>g. if moving g then g\<lparr>g_PermitID := dst\<rparr> else g) tb3"
    using assms(2) unfolding MoveGuestGrants_def Let_def tb3_def gids_def moving_def tb1_def
    by (simp only: c if_False simp_thms sum.inject prod.inject)
  have t1: "tidy G now tb1" unfolding tb1_def using tidy_withdraw [OF assms(1)] assms(1) by simp
  have t3: "tidy G now tb3" unfolding tb3_def
    by (intro tidy_on_requests tidy_on_tokens_same t1) (auto simp: no_baseline_def)
  have "tb_Permits tb3 = tb_Permits tb"
    by (simp add: tb3_def tb1_def on_requests_def on_tokens_def drop_grants_def Let_def)
  then have "owns_permit owner dst tb3" using dst by (simp add: owns_permit_def)
  then show ?thesis unfolding tb' using t3
    by (intro tidy_on_grants) (auto simp: moving_def tidy_def grants_owned_def)
qed

text \<open>Forgetting a person's name rewrites rows in place.\<close>

lemma tidy_forget_person:
  assumes "tidy G now tb" shows "tidy G now (forget_person owner tb)"
proof -
  let ?tb = "forget_person owner tb"
  have "anchored G now ?tb" unfolding anchored_def
  proof (intro ballI impI)
    fix y assume y: "y \<in> set (tb_Overrides ?tb)" "watched G now y"
    then obtain x where x: "x \<in> set (tb_Overrides tb)" "o_PermitID y = o_PermitID x"
      "o_GuestTokenID y = o_GuestTokenID x" "watched G now x"
      by (auto simp: forget_person_def watched_def running_guest_def guest_booking_def still_runs_def split: if_splits)
    then obtain t g where tg: "link_of x tb t g" "owns_permit (g_Owner g) (o_PermitID x) tb"
      using assms unfolding tidy_def anchored_def by blast
    let ?t = "if t_RecipientEmail t = owner \<and> t_RevokedAt t \<noteq> None then t\<lparr>t_RecipientEmail := []\<rparr> else t"
    have "?t \<in> set (tb_Tokens ?tb)" using tg(1) by (auto simp: link_of_def forget_person_def)
    then have "link_of y ?tb ?t g" using tg(1) x(3) by (auto simp: link_of_def forget_person_def)
    moreover have "owns_permit (g_Owner g) (o_PermitID y) ?tb"
      using tg(2) x(2) by (simp add: owns_permit_def forget_person_def)
    ultimately show "\<exists>t g. link_of y ?tb t g \<and> owns_permit (g_Owner g) (o_PermitID y) ?tb" by blast
  qed
  moreover have "keys_ok ?tb"
    using assms ids_below_map [of t_ID "tb_Tokens tb"]
    by (auto simp: tidy_def keys_ok_def forget_person_def comp_def if_distrib cong: if_cong)
  moreover have "grants_owned ?tb"
    using assms by (simp add: tidy_def grants_owned_def owns_permit_def forget_person_def)
  moreover have "lost G ?tb" using assms by (auto simp: tidy_def lost_def forget_person_def)
  ultimately show ?thesis by (simp add: tidy_def)
qed

lemma tidy_erase_tables:
  assumes "tidy G now tb" shows "tidy G now (erase_tables owner now tb)"
proof -
  let ?tb1 = "drop_permits (\<lambda>p. p_Owner p = owner) tb"
  let ?tb2 = "drop_vehicles (\<lambda>v. v_Owner v = owner) ?tb1"
  let ?tb3 = "drop_grants (\<lambda>g. g_Owner g = owner) ?tb2"
  let ?tb4 = "?tb3\<lparr>tb_Requests := filter (\<lambda>q. q_Owner q \<noteq> owner) (tb_Requests ?tb3),
    tb_GuestsEnabled := (tb_GuestsEnabled ?tb3)(owner := None)\<rparr>"
  let ?tb5 = "drop_members (\<lambda>m. am_Owner m = owner \<or> am_Member m = owner) ?tb4"
  let ?P = "\<lambda>g. g_CreatedBy g = owner \<and> g_Owner g \<noteq> owner"
  have t1: "tidy G now ?tb1" using tidy_drop_permits [of G now tb "{}"] assms account_no_strays [OF assms] by simp
  have t2: "tidy G now ?tb2" by (rule tidy_drop_vehicles [OF t1])
  have "\<not> list_ex (\<lambda>g. g_Owner g = owner) (tb_Grants ?tb1)"
  proof -
    have "\<not> owns_permit owner pid ?tb1" for pid by (auto simp: owns_permit_iff drop_permits_fields)
    then show ?thesis using t1 by (auto simp: list_ex_iff tidy_def grants_owned_def)
  qed
  then have "unbacked G now (\<lambda>g. g_Owner g = owner) ?tb2"
    by (auto simp: unbacked_def link_of_def drop_vehicles_def Let_def list_ex_iff)
  then have t3: "tidy G now ?tb3" by (rule tidy_drop_grants [OF t2])
  have t4: "tidy G now ?tb4" by (rule tidy_cong [OF t3]) simp_all
  have t5: "tidy G now ?tb5" by (rule tidy_drop_members [OF t4])
  have t6: "tidy G now (drop_grants ?P (sweepLiveGuestOverrides now (tokens_where ?P ?tb5) ?tb5))"
    by (rule tidy_withdraw [OF t5])
  show ?thesis unfolding erase_tables_def Let_def by (rule tidy_forget_person [OF t6])
qed


lemma may_book_none: "tidy G now tb \<Longrightarrow> may_book b 0 tb"
  by (fastforce simp: tidy_def keys_ok_def ids_below_def may_book_def)

lemma tidy_DeletePermit:
  assumes "tidy G now tb" and "DeletePermit pid owner tb = Inr tb'"
  shows "tidy (G \<union> set (stranded (Schedule (DoDeletePermit pid owner)) now tb)) now tb'"
proof -
  let ?P = "\<lambda>p. p_ID p = pid \<and> p_Owner p = owner"
  let ?S = "stranded (Schedule (DoDeletePermit pid owner)) now tb"
  have own: "owns_permit owner pid tb" and tb': "tb' = drop_permits ?P tb"
    using assms(2) by (auto simp: DeletePermit_def split: if_splits)
  have gone: "p_ID ` {p \<in> set (tb_Permits tb). ?P p} = {pid}" using own by (auto simp: owns_permit_iff)
  have S: "set ?S = {o_GuestTokenID x | x. x \<in> set (tb_Overrides tb) \<and> running_guest now x \<and> o_PermitID x \<noteq> pid
      \<and> o_GuestTokenID x \<in> set (tokens_where (\<lambda>g. g_PermitID g = pid) tb)}"
    using own by (auto simp: stranded_def)
  have "no_strays (G \<union> set ?S) now ?P tb"
    using gone unfolding no_strays_def Let_def set_map set_filter S in_tokens_where watched_def by blast
  moreover have "set ?S \<subseteq> set (tokens_where (\<lambda>g. g_PermitID g \<in> p_ID ` {p \<in> set (tb_Permits tb). ?P p}) tb)"
    unfolding gone S by auto
  ultimately show ?thesis unfolding tb' by (rule tidy_drop_permits [OF assms(1)])
qed

lemma tidy_schedule_step:
  assumes "tidy G now tb" and "admissible (Schedule c) tb"
  shows "tidy (G \<union> set (stranded (Schedule c) now tb)) now (schedule_step c now tb)"
proof (cases "\<exists>pid owner. c = DoDeletePermit pid owner")
  case True
  then obtain pid owner where c: "c = DoDeletePermit pid owner" by blast
  show ?thesis
  proof (cases "DeletePermit pid owner tb")
    case (Inl e)
    then have "\<not> owns_permit owner pid tb" by (auto simp: DeletePermit_def split: if_splits)
    then show ?thesis using assms(1) Inl by (simp add: c stranded_def settle_def)
  next
    case (Inr tb')
    then show ?thesis using tidy_DeletePermit [OF assms(1) Inr] by (simp add: c settle_def)
  qed
next
  case False
  then have "stranded (Schedule c) now tb = []" by (auto simp: stranded_def split: schedule_call.splits)
  then show ?thesis using assms False
    by (cases c)
      (auto simp: admissible_def DeleteGuestOverrides_def PruneOverrides_def
        DeleteOverride_def DeleteOverrideOnPermit_def Let_def split: if_splits
        intro!: settle_keeps settled_keeps tidy_drop_overrides
        intro: tidy_UpsertPermit tidy_rule_calls tidy_CopySchedule tidy_cycle_calls tidy_bookings
          may_book_none)
qed

lemma tidy_pass_step:
  assumes "tidy G now tb" shows "tidy G now (pass_step c now tb)"
  using assms
  by (cases c)
    (auto simp: AddGuestTokens_def ForgetRevokedRecipients_def SetGuestBaseline_def ClearGuestBaseline_def
      CaptureOrExtendGuestBaseline_def MarkPassNudgeSent_def captured_def no_baseline_def
      split: if_splits option.splits
      intro!: settle_keeps settled_keeps tidy_on_tokens_same tidy_on_grants_same
      intro: tidy_CreateGuestGrant tidy_UpdateGuestGrant tidy_add_recipients tidy_ResetGuestToken
        tidy_revocations tidy_MoveGuestGrants tidy_codes tidy_CreatePickerGrant tidy_RotatePickerToken
        tidy_UpdatePickerGrant)

lemma tidy_other_rows:
  assumes "tidy G now tb"
  shows "tidy G now (tb\<lparr>tb_Requests := q, tb_LastRequest := n\<rparr>)" and "tidy G now (tb\<lparr>tb_Requests := q\<rparr>)"
    and "tidy G now (tb\<lparr>tb_Vehicles := v, tb_LastVehicle := k\<rparr>)" and "tidy G now (tb\<lparr>tb_Members := ms\<rparr>)"
  by (rule tidy_cong [OF assms]; simp)+

lemma tidy_house_step:
  assumes "tidy G now tb" shows "tidy G now (house_step c now tb)"
  using assms
  by (cases c)
    (auto simp: CreateGuestRequest_def ExpireGuestRequests_def ClearSettledRequestNonces_def
      PurgeDecidedGuestRequests_def DecideGuestRequest_def CreateVehicle_def DeleteVehicle_def
      AddMemberCapped_def AcceptInvite_def DeclineInvite_def Let_def split: if_splits option.splits
      intro!: settle_keeps settled_keeps tidy_on_requests tidy_drop_vehicles tidy_drop_members
        tidy_revocations(4) tidy_erase_tables tidy_other_rows)

lemma tidy_perform:
  "tidy G now tb \<Longrightarrow> admissible c tb \<Longrightarrow> tidy (G \<union> set (stranded c now tb)) now (perform c now tb)"
  by (cases c) (simp_all add: tidy_schedule_step tidy_pass_step tidy_house_step)

lemma evolves_tidy: "evolves G now tb \<Longrightarrow> tidy G now tb"
  by (induction rule: evolves.induct) (simp_all add: tidy_empty tidy_later tidy_perform)

section \<open>Concrete states\<close>

text \<open>Calls in a row that lose no link, for concrete states.\<close>

fun run_calls :: "time \<Rightarrow> call list \<Rightarrow> tables \<Rightarrow> tables option" where
  "run_calls now [] tb = Some tb"
| "run_calls now (c # cs) tb = (if admissible c tb \<and> stranded c now tb = [] then run_calls now cs (perform c now tb) else None)"

lemma evolves_run: "evolves G now tb \<Longrightarrow> run_calls now cs tb = Some tb' \<Longrightarrow> evolves G now tb'"
  by (induction cs arbitrary: tb) (auto intro: evolves_calm split: if_splits)

text \<open>
  A household: one permit, one vehicle, a pass for one recipient used for a booking of the
  day, a printed code.
\<close>

definition w_calls :: "call list" where
  "w_calls =
     [Schedule (DoUpsertPermit ''amy'' ''yarra'' ''c1'' ''A'' ''Home''),
      House (DoCreateVehicle ''amy'' ''AAA111'' ''Car'' []),
      Pass (DoCreateGuestGrant ''amy'' ''bob'' 1 ''Nanny'' False [1] [(''nan'', ''h1'')]),
      Pass (DoCreatePrintedGrant ''amy'' ''amy'' 1 ''h2'' ''sealed''),
      Schedule (DoGuestBook \<lparr>bk_PermitID = 1, bk_VehicleID = 1, bk_Registration = [], bk_State = [],
         bk_StartsAt = 0, bk_EndsAt = Some (9 * hour), bk_CreatedBy = ''nan''\<rparr> 1),
      Schedule (DoBook \<lparr>bk_PermitID = 1, bk_VehicleID = 0, bk_Registration = ''VIS1'', bk_State = [],
         bk_StartsAt = 0, bk_EndsAt = Some (9 * hour), bk_CreatedBy = ''amy''\<rparr> False),
      House (DoCreateGuestRequest \<lparr>as_GrantID = 2, as_PermitID = 1, as_Owner = ''amy'',
         as_Plate = ''DOOR1'', as_State = [], as_Nonce = ''n1''\<rparr>)]"

definition w_tables :: tables where
  "w_tables = (case run_calls 0 w_calls empty_tables of None \<Rightarrow> empty_tables | Some tb \<Rightarrow> tb)"

definition w_booking :: override where
  "w_booking = \<lparr>o_ID = 1, o_PermitID = 1, o_VehicleID = 1, o_Registration = [], o_State = [],
     o_StartsAt = 0, o_EndsAt = Some (9 * hour), o_CreatedBy = ''nan'', o_CreatedAt = 0,
     o_GuestTokenID = 1, o_Empty = False\<rparr>"

lemma w_tables_run: "run_calls 0 w_calls empty_tables = Some w_tables"
proof -
  have "\<not> Option.is_none (run_calls 0 w_calls empty_tables)" by code_simp
  then show ?thesis by (auto simp: w_tables_def Option.is_none_def split: option.splits)
qed

lemma w_tables_evolves: "evolves {} 0 w_tables"
  by (rule evolves_run [OF evolves_init w_tables_run])

lemma w_tables_eval:
  "w_booking \<in> set (tb_Overrides w_tables)" "guest_booking w_booking" "still_runs 0 w_booking"
  by code_simp+

end
