(* ===== verification/Withdrawal.thy ===== *)
theory Withdrawal
  imports Authority
begin

text \<open>
  What the household can rely on when it takes access away, and what it keeps when it does
  not: the theorems about guest links over every state the operations lead to.
\<close>

section \<open>Reaching a booking\<close>

lemma token_of_some: "tidy G now tb \<Longrightarrow> t \<in> set (tb_Tokens tb) \<Longrightarrow> t_ID t = i \<Longrightarrow> token_of i tb = Some t"
  unfolding token_of_def by (rule find_by_id [of t_ID _ "tb_LastToken tb"]) (auto simp: tidy_def keys_ok_def)

lemma grant_of_some: "tidy G now tb \<Longrightarrow> g \<in> set (tb_Grants tb) \<Longrightarrow> g_ID g = i \<Longrightarrow> grant_of i tb = Some g"
  unfolding grant_of_def by (rule find_by_id [of g_ID _ "tb_LastGrant tb"]) (auto simp: tidy_def keys_ok_def)

lemma lost_none: "tidy G now tb \<Longrightarrow> i \<in> G \<Longrightarrow> token_of i tb = None"
  by (auto simp: tidy_def lost_def token_of_def find_None_iff)

text \<open>C3: every running booking that was made through a link can be reached from the link: its
  token row and its grant exist, and the booking is on a permit of the grant's household. The
  one exception are the links in \<open>G\<close>, those whose row went with a permit that was given up
  while a booking of theirs ran on another one: their rows are gone.
\<close>

theorem every_running_guest_booking_can_be_reached:
  assumes "evolves G now tb" and "x \<in> set (tb_Overrides tb)" and "guest_booking x" and "still_runs now x"
  shows "if o_GuestTokenID x \<in> G then token_of (o_GuestTokenID x) tb = None
    else \<exists>t g. token_of (o_GuestTokenID x) tb = Some t \<and> grant_of (t_GrantID t) tb = Some g
      \<and> owns_permit (g_Owner g) (o_PermitID x) tb"
proof -
  note td = evolves_tidy [OF assms(1)]
  show ?thesis
  proof (cases "o_GuestTokenID x \<in> G")
    case False
    then obtain t g where l: "link_of x tb t g" and own: "owns_permit (g_Owner g) (o_PermitID x) tb"
      using td assms(2-4) unfolding tidy_def anchored_def watched_def running_guest_def by blast
    have "token_of (o_GuestTokenID x) tb = Some t" and "grant_of (t_GrantID t) tb = Some g"
      using l by (auto simp: link_of_def intro: token_of_some [OF td] grant_of_some [OF td])
    then show ?thesis using own False by simp
  qed (simp add: lost_none [OF td])
qed

text \<open>
  The exception happens: links moved to a new permit leave their bookings on the old one, and
  giving up the new permit takes the links' rows, not the bookings. \<open>w_stranded\<close> is reached
  from \<open>w_tables\<close> by moving the links and giving up the new permit; pausing the account does not
  reach the booking that is left.
\<close>

definition w_moved :: tables where
  "w_moved = perform (Pass (DoMoveGuestGrants ''amy'' 1 2)) 0
     (perform (Schedule (DoUpsertPermit ''amy'' ''yarra'' ''c2'' ''A'' ''New'')) 0 w_tables)"

definition w_stranded :: tables where
  "w_stranded = perform (Schedule (DoDeletePermit 2 ''amy'')) 0 w_moved"

lemma w_stranded_evolves: "evolves {1} 0 w_stranded"
proof -
  have "stranded (Schedule (DoDeletePermit 2 ''amy'')) 0 w_moved = [1]" by code_simp
  moreover have "evolves {} 0 w_moved" unfolding w_moved_def
    by (intro evolves_calm w_tables_evolves) (simp_all add: admissible_def stranded_def)
  ultimately show ?thesis
    using evolves_call [of "{}" 0 w_moved "Schedule (DoDeletePermit 2 ''amy'')"]
    by (simp add: w_stranded_def admissible_def)
qed

lemma a_given_up_permit_can_strand_a_booking:
  "w_booking \<in> set (tb_Overrides w_stranded) \<and> running_guest 0 w_booking
   \<and> owns_permit ''amy'' (o_PermitID w_booking) w_stranded
   \<and> Option.is_none (token_of (o_GuestTokenID w_booking) w_stranded)
   \<and> w_booking \<in> set (tb_Overrides (SetGuestsEnabled ''amy'' False 0 w_stranded))"
  by code_simp

theorem every_running_guest_booking_can_be_reached_witness:
  "(\<exists>t g. token_of 1 w_tables = Some t \<and> grant_of (t_GrantID t) w_tables = Some g
      \<and> owns_permit (g_Owner g) 1 w_tables)
   \<and> token_of 1 w_stranded = None"
proof -
  have w: "o_GuestTokenID w_booking = 1" "o_PermitID w_booking = 1" by (simp_all add: w_booking_def)
  have "w_booking \<in> set (tb_Overrides w_stranded)" by code_simp
  then show ?thesis
    using every_running_guest_booking_can_be_reached [OF w_tables_evolves w_tables_eval]
      every_running_guest_booking_can_be_reached [OF w_stranded_evolves _ w_tables_eval(2,3)] w by simp
qed

section \<open>Taking links away\<close>

text \<open>C7: pausing the account's links leaves no running booking of any link on any permit of the
  account, whatever was booked, moved or re-issued before, except of links whose row was lost
  with a permit that was given up.
\<close>

theorem pausing_clears_every_permit:
  assumes "evolves G now tb"
  shows "\<forall>x \<in> set (tb_Overrides (SetGuestsEnabled owner False now tb)).
    owns_permit owner (o_PermitID x) tb \<and> running_guest now x \<longrightarrow>
      o_GuestTokenID x \<in> G \<and> token_of (o_GuestTokenID x) tb = None"
proof (intro ballI impI)
  fix x assume x': "x \<in> set (tb_Overrides (SetGuestsEnabled owner False now tb))"
    and mine: "owns_permit owner (o_PermitID x) tb \<and> running_guest now x"
  let ?tb1 = "tb\<lparr>tb_GuestsEnabled := (tb_GuestsEnabled tb)(owner \<mapsto> False)\<rparr>"
  have x: "x \<in> set (tb_Overrides tb)" and unswept: "o_GuestTokenID x \<notin> set (tokens_where (\<lambda>g. g_Owner g = owner) ?tb1)"
    using x' mine by (auto simp: SetGuestsEnabled_def Let_def sweep_set)
  have td: "tidy G now tb" using assms by (rule evolves_tidy)
  have "o_GuestTokenID x \<in> G"
  proof (rule ccontr)
    assume "o_GuestTokenID x \<notin> G"
    then obtain t g where l: "link_of x tb t g" and own: "owns_permit (g_Owner g) (o_PermitID x) tb"
      using td x mine unfolding tidy_def anchored_def watched_def by blast
    have "g_Owner g = owner" using owner_unique own mine td unfolding tidy_def by blast
    with l unswept show False unfolding in_tokens_where link_of_def by auto
  qed
  then show "o_GuestTokenID x \<in> G \<and> token_of (o_GuestTokenID x) tb = None" by (simp add: lost_none [OF td])
qed

theorem pausing_clears_every_permit_witness:
  "\<not> list_ex (\<lambda>x. owns_permit ''amy'' (o_PermitID x) w_tables \<and> running_guest 0 x)
      (tb_Overrides (SetGuestsEnabled ''amy'' False 0 w_tables))"
  using pausing_clears_every_permit [OF w_tables_evolves, where owner = "''amy''"]
  by (auto simp: list_ex_iff)

text \<open>A link that is revoked, whose grant is disabled, or whose account is paused.\<close>

definition dead_link :: "int \<Rightarrow> tables \<Rightarrow> bool" where
  "dead_link tid tb \<longleftrightarrow>
     (case token_of tid tb of
        None \<Rightarrow> True
      | Some t \<Rightarrow> t_RevokedAt t \<noteq> None
          \<or> (case grant_of (t_GrantID t) tb of
               None \<Rightarrow> True
             | Some g \<Rightarrow> \<not> g_Enabled g \<or> \<not> guests_on (g_Owner g) tb))"

lemma dead_link_iff:
  assumes "keys_ok tb"
  shows "dead_link tid tb \<longleftrightarrow> \<not> link_live tid tb"
proof -
  have ids: "ids_below t_ID (tb_Tokens tb) (tb_LastToken tb)" "ids_below g_ID (tb_Grants tb) (tb_LastGrant tb)"
    using assms by (auto simp: keys_ok_def)
  have g: "grant_of gid tb = Some g \<longleftrightarrow> g \<in> set (tb_Grants tb) \<and> g_ID g = gid" for gid g
    using find_by_id [OF ids(2), of g gid] by (auto simp: grant_of_def find_Some_iff)
  have t: "token_of i tb = Some t \<longleftrightarrow> t \<in> set (tb_Tokens tb) \<and> t_ID t = i" for i t
    using find_by_id [OF ids(1), of t i] by (auto simp: token_of_def find_Some_iff)
  show ?thesis
  proof
    assume d: "dead_link tid tb"
    show "\<not> link_live tid tb"
    proof
      assume "link_live tid tb"
      then obtain x y where "token_of tid tb = Some x" "t_RevokedAt x = None"
        "grant_of (t_GrantID x) tb = Some y" "g_Enabled y" "guests_on (g_Owner y) tb"
        unfolding link_live_iff t g by auto
      with d show False by (simp add: dead_link_def)
    qed
  next
    assume "\<not> link_live tid tb"
    then show "dead_link tid tb"
      unfolding link_live_iff dead_link_def using t g by (fastforce split: option.splits)
  qed
qed

text \<open>C14: a dead link does nothing: it opens no page, it books nothing, a booking it made is not
  authorised for a council write any more, and a revert through it is refused.
\<close>

theorem dead_links_do_nothing:
  assumes "evolves G now tb" and "dead_link tid tb" and "tid \<noteq> 0"
  shows "createOverrideGuarded b tid now tb = Inl GuestOverrideRefused
    \<and> \<not> GuestOverrideStillAuthorised oid tid tb \<and> \<not> GuestTokenStillLive tid tb
    \<and> (case GuestContextByTokenHash hash now tb of None \<Rightarrow> True | Some gc \<Rightarrow> gc_TokenID gc \<noteq> tid)"
proof (intro conjI)
  have keys: "keys_ok tb" using evolves_tidy [OF assms(1)] by (simp add: tidy_def)
  have dead: "\<not> link_live tid tb" using assms(2) dead_link_iff [OF keys] by simp
  show "createOverrideGuarded b tid now tb = Inl GuestOverrideRefused"
    using assms(3) dead by (simp add: createOverrideGuarded_def)
  show "\<not> GuestTokenStillLive tid tb" using dead by (simp add: GuestTokenStillLive_def)
  show "\<not> GuestOverrideStillAuthorised oid tid tb"
    using dead by (auto simp: GuestOverrideStillAuthorised_def link_live_def list_ex_iff)
  show "case GuestContextByTokenHash hash now tb of None \<Rightarrow> True | Some gc \<Rightarrow> gc_TokenID gc \<noteq> tid"
    using dead by (auto simp: GuestContextByTokenHash_def link_live_iff token_usable_def find_Some_iff
        split: option.splits)
qed

definition w_paused :: tables where
  "w_paused = perform (Pass (DoSetGuestsEnabled ''amy'' False)) 0 w_tables"

lemma w_paused_evolves: "evolves {} 0 w_paused"
  unfolding w_paused_def by (rule evolves_calm [OF w_tables_evolves]) (simp_all add: admissible_def)

theorem dead_links_do_nothing_witness:
  "createOverrideGuarded \<lparr>bk_PermitID = 1, bk_VehicleID = 1, bk_Registration = [], bk_State = [],
      bk_StartsAt = 0, bk_EndsAt = None, bk_CreatedBy = ''nan''\<rparr> 1 0 w_paused = Inl GuestOverrideRefused
   \<and> \<not> GuestOverrideStillAuthorised 1 1 w_paused \<and> \<not> GuestTokenStillLive 1 w_paused
   \<and> (case GuestContextByTokenHash ''h1'' 0 w_paused of None \<Rightarrow> True | Some gc \<Rightarrow> gc_TokenID gc \<noteq> 1)"
proof -
  have "dead_link 1 w_paused" by code_simp
  then show ?thesis by (intro dead_links_do_nothing [OF w_paused_evolves]) simp_all
qed

text \<open>C27: revoking a recipient's link takes every running booking that recipient made through any
  of their links to the pass off the permit, and the revoked link is dead. What still runs
  was made through a link of somebody else or to another pass, or through a link whose row was
  lost with a permit that was given up.
\<close>

theorem revoking_a_recipient_clears_their_bookings:
  assumes "evolves G now tb" and "RevokeGuestToken owner tid now tb = Inr tb'"
  shows "dead_link tid tb' \<and>
    (\<forall>x \<in> set (tb_Overrides tb'). running_guest now x \<longrightarrow>
      (case (token_of (o_GuestTokenID x) tb', token_of tid tb') of
         (Some s, Some t) \<Rightarrow> \<not> (t_GrantID s = t_GrantID t \<and> t_RecipientEmail s = t_RecipientEmail t)
       | (None, Some t) \<Rightarrow> o_GuestTokenID x \<in> G
       | _ \<Rightarrow> False))"
proof -
  let ?P = "\<lambda>t. t_ID t = tid \<and> t_RevokedAt t = None
    \<and> list_ex (\<lambda>g. g_ID g = t_GrantID t \<and> g_Owner g = owner \<and> emailed g) (tb_Grants tb)"
  define tb1 where "tb1 = on_tokens (\<lambda>t. if ?P t then t\<lparr>t_RevokedAt := Some (nowUTC now)\<rparr> else t) tb"
  define sib where "sib = map t_ID (filter (\<lambda>s. list_ex (\<lambda>cur. t_ID cur = tid \<and> t_GrantID cur = t_GrantID s
      \<and> t_RecipientEmail cur = t_RecipientEmail s) (tb_Tokens tb1)) (tb_Tokens tb1))"
  have ex: "list_ex ?P (tb_Tokens tb)" and tb': "tb' = sweepLiveGuestOverrides now sib tb1"
    using assms(2) unfolding tb1_def sib_def by (auto simp: RevokeGuestToken_def Let_def split: if_splits)
  have td: "tidy G now tb" and td': "tidy G now tb'"
    using evolves_tidy [OF assms(1)] tidy_revocations(1) assms(2) by blast+
  have ids: "ids_below t_ID (tb_Tokens tb') (tb_LastToken tb')" using td' by (simp add: tidy_def keys_ok_def)
  obtain t0 where t0: "t0 \<in> set (tb_Tokens tb)" "?P t0" using ex by (auto simp: list_ex_iff)
  define t where "t = t0\<lparr>t_RevokedAt := Some (nowUTC now)\<rparr>"
  have t: "t \<in> set (tb_Tokens tb')" "t_ID t = tid" "t_RevokedAt t \<noteq> None"
    using t0 by (auto simp: tb' tb1_def on_tokens_def t_def)
  then have tt: "token_of tid tb' = Some t" unfolding token_of_def by (intro find_by_id [OF ids])
  then have "dead_link tid tb'" using t(3) by (simp add: dead_link_def)
  moreover have "case (token_of (o_GuestTokenID x) tb', token_of tid tb') of
      (Some s, Some t) \<Rightarrow> \<not> (t_GrantID s = t_GrantID t \<and> t_RecipientEmail s = t_RecipientEmail t)
    | (None, Some t) \<Rightarrow> o_GuestTokenID x \<in> G
    | _ \<Rightarrow> False" if x: "x \<in> set (tb_Overrides tb')" "running_guest now x" for x
  proof (cases "o_GuestTokenID x \<in> G")
    case True
    then show ?thesis using tt lost_none [OF td'] by simp
  next
    case False
    then obtain s g where l: "link_of x tb' s g"
      using td' x unfolding tidy_def anchored_def watched_def by blast
    then have ss: "token_of (o_GuestTokenID x) tb' = Some s"
      unfolding token_of_def by (intro find_by_id [OF ids]) (simp_all add: link_of_def)
    have "o_GuestTokenID x \<notin> set sib" using x by (simp add: tb' sweep_set)
    moreover have "s \<in> set (tb_Tokens tb1)" "t \<in> set (tb_Tokens tb1)" using l t(1) by (simp_all add: link_of_def tb')
    moreover have "t_ID s \<in> set sib" if "t_GrantID s = t_GrantID t" "t_RecipientEmail s = t_RecipientEmail t"
      unfolding sib_def set_map set_filter list_ex_iff using calculation(2,3) t(2) that
      by (intro imageI) (auto intro: bexI [of _ t])
    ultimately have "\<not> (t_GrantID s = t_GrantID t \<and> t_RecipientEmail s = t_RecipientEmail t)"
      using l by (auto simp: link_of_def)
    then show ?thesis by (simp add: ss tt)
  qed
  ultimately show ?thesis by blast
qed

theorem revoking_a_recipient_clears_their_bookings_witness:
  "case RevokeGuestToken ''amy'' 1 0 w_tables of
     Inl e \<Rightarrow> False
   | Inr tb' \<Rightarrow> dead_link 1 tb' \<and> w_booking \<notin> set (tb_Overrides tb')"
proof -
  have "case RevokeGuestToken ''amy'' 1 0 w_tables of Inl e \<Rightarrow> False
      | Inr tb' \<Rightarrow> \<not> Option.is_none (token_of 1 tb')" by code_simp
  then obtain tb' where r: "RevokeGuestToken ''amy'' 1 0 w_tables = Inr tb'"
    and one: "token_of 1 tb' \<noteq> None"
    by (auto simp: Option.is_none_def split: sum.splits)
  have "running_guest 0 w_booking" "o_GuestTokenID w_booking = 1" by code_simp+
  then have "w_booking \<notin> set (tb_Overrides tb')"
    using revoking_a_recipient_clears_their_bookings [OF w_tables_evolves r] one by fastforce
  then show ?thesis
    using revoking_a_recipient_clears_their_bookings [OF w_tables_evolves r] r by simp
qed

text \<open>What is left after grants were withdrawn with their bookings.\<close>

lemma withdrawn_grants:
  assumes "tidy G now tb" and "tb' = drop_grants P (sweepLiveGuestOverrides now (tokens_where P tb) tb)"
  shows "(\<forall>g \<in> set (tb_Grants tb'). \<not> P g) \<and>
    (\<forall>x \<in> set (tb_Overrides tb'). watched G now x \<longrightarrow>
       (\<exists>t g. link_of x tb' t g \<and> \<not> P g))"
proof -
  have "tidy G now tb'" using tidy_withdraw [OF assms(1)] assms(2) by simp
  moreover have "\<forall>g \<in> set (tb_Grants tb'). \<not> P g" by (simp add: assms(2) drop_grants_def Let_def)
  ultimately show ?thesis unfolding tidy_def anchored_def link_of_def by blast
qed

text \<open>Somebody who left the household keeps no foothold: no link they minted on the account
  remains, and every booking that still runs, of a link that was not lost with a permit, is
  behind a link somebody else minted.
\<close>

theorem a_departed_member_keeps_no_foothold:
  assumes "evolves G now tb" and "email \<noteq> []"
    and "tb' = perform (House (DoLeave owner email)) now tb"
  shows "(\<forall>g \<in> set (tb_Grants tb'). \<not> minted_by owner email g) \<and>
    (\<forall>x \<in> set (tb_Overrides tb'). watched G now x \<longrightarrow>
       (\<exists>t g. link_of x tb' t g \<and> \<not> minted_by owner email g))"
proof -
  let ?tb1 = "drop_members (\<lambda>m. am_Member m = email \<and> am_Owner m = owner) tb"
  have "tidy G now ?tb1" by (intro tidy_drop_members evolves_tidy assms(1))
  moreover have "tb' = drop_grants (minted_by owner email)
      (sweepLiveGuestOverrides now (tokens_where (minted_by owner email) ?tb1) ?tb1)"
    using assms(2,3) by (simp add: revokeGrantsBy_def Let_def)
  ultimately show ?thesis by (rule withdrawn_grants)
qed

theorem a_departed_member_keeps_no_foothold_witness:
  "\<not> list_ex (minted_by ''amy'' ''bob'') (tb_Grants (perform (House (DoLeave ''amy'' ''bob'')) 0 w_tables))
   \<and> w_booking \<notin> set (tb_Overrides (perform (House (DoLeave ''amy'' ''bob'')) 0 w_tables))
   \<and> length (tb_Overrides (perform (House (DoLeave ''amy'' ''bob'')) 0 w_tables)) = 1"
proof -
  let ?tb = "perform (House (DoLeave ''amy'' ''bob'')) 0 w_tables"
  have a: "\<not> list_ex (minted_by ''amy'' ''bob'') (tb_Grants ?tb)"
    using a_departed_member_keeps_no_foothold [OF w_tables_evolves _ refl, where owner = "''amy''" and email = "''bob''"]
    by (auto simp: list_ex_iff)
  moreover have "w_booking \<notin> set (tb_Overrides ?tb)" "length (tb_Overrides ?tb) = 1" by code_simp+
  ultimately show ?thesis by simp
qed

text \<open>taking a printed code down takes every code that was ever printed for the permit and is
  still there, and the bookings approved through any of them that was not lost with a permit.
\<close>

theorem taking_the_poster_down_takes_every_poster:
  assumes "evolves G now tb" and "RevokePrintedGrant owner gid now tb = Inr tb'"
    and "grant_of gid tb = Some n"
  shows "(\<forall>g \<in> set (tb_Grants tb'). \<not> printed_on owner (g_PermitID n) g) \<and>
    (\<forall>x \<in> set (tb_Overrides tb'). watched G now x \<longrightarrow>
       (\<exists>t g. link_of x tb' t g \<and> \<not> printed_on owner (g_PermitID n) g))"
proof -
  have td: "tidy G now tb" using assms(1) by (rule evolves_tidy)
  obtain m where m: "find (\<lambda>n. g_ID n = gid \<and> g_Owner n = owner \<and> g_RequestOnly n) (tb_Grants tb) = Some m"
    using assms(2) by (auto simp: RevokePrintedGrant_def Let_def printed_with_def list_ex_iff split: if_splits option.splits)
  then have "m \<in> set (tb_Grants tb)" "g_ID m = gid" by (auto simp: find_Some_iff)
  then have "grant_of gid tb = Some m"
    unfolding grant_of_def using td by (intro find_by_id) (auto simp: tidy_def keys_ok_def)
  then have "m = n" using assms(3) by simp
  then have P: "printed_with owner gid tb = printed_on owner (g_PermitID n)"
    using m by (auto simp: printed_with_def)
  have "tb' = drop_grants (printed_on owner (g_PermitID n))
      (sweepLiveGuestOverrides now (tokens_where (printed_on owner (g_PermitID n)) tb) tb)"
    using assms(2) unfolding RevokePrintedGrant_def Let_def P by (simp split: if_splits)
  then show ?thesis by (rule withdrawn_grants [OF td])
qed

theorem taking_the_poster_down_takes_every_poster_witness:
  "case RevokePrintedGrant ''amy'' 2 0 w_tables of
     Inl e \<Rightarrow> False
   | Inr tb' \<Rightarrow> \<not> list_ex (printed_on ''amy'' 1) (tb_Grants tb') \<and> length (tb_Grants tb') = 1
        \<and> tb_Requests tb' = []"
proof -
  have ev: "case RevokePrintedGrant ''amy'' 2 0 w_tables of Inl e \<Rightarrow> False
      | Inr tb' \<Rightarrow> length (tb_Grants tb') = 1 \<and> tb_Requests tb' = []" by code_simp
  have "\<not> Option.is_none (grant_of 2 w_tables)" by code_simp
  then obtain n where n: "grant_of 2 w_tables = Some n" by (auto simp: Option.is_none_def)
  have "case grant_of 2 w_tables of None \<Rightarrow> False | Some n \<Rightarrow> g_PermitID n = 1" by code_simp
  then have "g_PermitID n = 1" using n by simp
  then show ?thesis
    using ev taking_the_poster_down_takes_every_poster [OF w_tables_evolves _ n, where owner = "''amy''"]
    by (auto simp: list_ex_iff split: sum.splits)
qed

section \<open>Narrowing a pass\<close>

lemma insertGrantVehicles_set:
  "insertGrantVehicles owner gid vids tb = Inr tb' \<Longrightarrow>
     set (tb_GrantVehicles tb') = set (tb_GrantVehicles tb) \<union> (Pair gid) ` set vids
     \<and> tb_Tokens tb' = tb_Tokens tb \<and> tb_Overrides tb' = tb_Overrides tb \<and> tb_Grants tb' = tb_Grants tb"
  by (induction vids arbitrary: tb) (auto split: if_splits)

text \<open>after an edit of a pass's regos, whatever the new list is, no running booking that was
  made through the pass uses a saved rego that is not on the list.
\<close>

theorem a_narrowed_pass_leaves_no_withdrawn_rego:
  assumes "UpdateGuestGrant owner gid label overnight vids now tb = Inr (n, tb')"
  shows "\<forall>x \<in> set (tb_Overrides tb'). \<forall>t \<in> set (tb_Tokens tb').
    running_guest now x \<and> t_ID t = o_GuestTokenID x \<and> t_GrantID t = gid \<and> o_VehicleID x \<noteq> 0
      \<longrightarrow> o_VehicleID x \<in> set vids"
proof -
  let ?h = "\<lambda>g. if g_ID g = gid \<and> g_Owner g = owner \<and> emailed g
    then g\<lparr>g_Label := label, g_AllowOvernight := overnight\<rparr> else g"
  let ?tb1 = "clear_grant_vehicles gid (on_grants ?h tb)"
  obtain tb2 where tb2: "insertGrantVehicles owner gid vids ?tb1 = Inr tb2"
    and tb3: "sweep_withdrawn now gid tb2 = (tb', n)"
    using assms by (auto simp: UpdateGuestGrant_def Let_def split: if_splits sum.splits prod.splits)
  have "(gid, v) \<in> set (tb_GrantVehicles tb2) \<longleftrightarrow> v \<in> set vids" for v
    using insertGrantVehicles_set [OF tb2] by (auto simp: clear_grant_vehicles_def)
  moreover have ov: "tb_Overrides tb' = filter (\<lambda>x. \<not> (guest_booking x \<and> still_runs now x \<and> o_VehicleID x \<noteq> 0
        \<and> o_GuestTokenID x \<in> t_ID ` {t \<in> set (tb_Tokens tb2). t_GrantID t = gid}
        \<and> (gid, o_VehicleID x) \<notin> set (tb_GrantVehicles tb2))) (tb_Overrides tb2)"
    and "tb_Tokens tb' = tb_Tokens tb2"
    using tb3 by (auto simp: sweep_withdrawn_def Let_def drop_overrides_def)
  moreover have "o_GuestTokenID x \<in> t_ID ` {t \<in> set (tb_Tokens tb2). t_GrantID t = gid}"
    if "t \<in> set (tb_Tokens tb2)" "t_ID t = o_GuestTokenID x" "t_GrantID t = gid" for x t
    using that by (intro image_eqI [of _ _ t]) simp_all
  ultimately show ?thesis unfolding running_guest_def by (fastforce simp only: set_filter mem_Collect_eq)
qed

theorem a_narrowed_pass_leaves_no_withdrawn_rego_witness:
  "case UpdateGuestGrant ''amy'' 1 ''Nanny'' False [] 0 w_tables of
     Inl e \<Rightarrow> False
   | Inr (n, tb') \<Rightarrow> n = 1 \<and> w_booking \<notin> set (tb_Overrides tb')"
proof -
  have ev: "case UpdateGuestGrant ''amy'' 1 ''Nanny'' False [] 0 w_tables of Inl e \<Rightarrow> False
      | Inr (n, tb') \<Rightarrow> n = 1 \<and> list_ex (\<lambda>t. t_ID t = o_GuestTokenID w_booking \<and> t_GrantID t = 1) (tb_Tokens tb')"
    by code_simp
  have "running_guest 0 w_booking" "o_VehicleID w_booking \<noteq> 0" by code_simp+
  then show ?thesis
    using ev a_narrowed_pass_leaves_no_withdrawn_rego [where gid = 1 and vids = "[]" and now = 0 and tb = w_tables
        and owner = "''amy''" and label = "''Nanny''" and overnight = False]
    by (fastforce simp: list_ex_iff split: sum.splits prod.splits)
qed

section \<open>Re-issuing a link\<close>

text \<open>sending a pass again keeps every booking and every "put it back" of the recipient, and
  the only link of theirs to the pass that works afterwards is the new one.
\<close>

theorem a_resend_supersedes_the_link_only:
  assumes "evolves G now tb" and "ResetGuestToken owner gid email newHash now tb = Inr (pid, tb')"
  shows "tb_Overrides tb' = tb_Overrides tb
    \<and> map t_BaselinePlate (tb_Tokens tb') = map t_BaselinePlate (tb_Tokens tb)
    \<and> map t_ID (tb_Tokens tb') = map t_ID (tb_Tokens tb)
    \<and> (\<forall>t \<in> set (tb_Tokens tb'). t_GrantID t = gid \<and> t_RecipientEmail t = email \<and> t_RevokedAt t = None
         \<longrightarrow> t_Hash t = newHash)
    \<and> (\<exists>t \<in> set (tb_Tokens tb'). t_GrantID t = gid \<and> t_RecipientEmail t = email \<and> t_Hash t = newHash
         \<and> t_RevokedAt t = None \<and> t_ExpiresAt t = None)"
proof -
  obtain g where g: "find (\<lambda>g. g_ID g = gid \<and> g_Owner g = owner \<and> emailed g) (tb_Grants tb) = Some g"
    using assms(2) by (auto simp: ResetGuestToken_def split: option.splits)
  obtain keep where k: "newest (filter (\<lambda>t. t_GrantID t = gid \<and> t_RecipientEmail t = email) (tb_Tokens tb)) = Some keep"
    using assms(2) g by (auto simp: ResetGuestToken_def split: option.splits)
  have kin: "keep \<in> set (tb_Tokens tb)" "t_GrantID keep = gid" "t_RecipientEmail keep = email"
    using newest_in [OF k] by auto
  let ?f = "\<lambda>t. if t_ID t = t_ID keep then rebound newHash now t else t"
  let ?r = "\<lambda>t. if t_GrantID t = gid \<and> t_RecipientEmail t = email \<and> t_ID t \<noteq> t_ID keep \<and> t_RevokedAt t = None
    then t\<lparr>t_RevokedAt := Some (nowUTC now)\<rparr> else t"
  have tb': "tb' = on_tokens ?r (on_tokens ?f tb)"
    using assms(2) g k by (simp add: ResetGuestToken_def split: if_splits)
  then have toks: "tb_Tokens tb' = map (\<lambda>t. ?r (?f t)) (tb_Tokens tb)" by (simp add: on_tokens_def comp_def)
  have "tb_Overrides tb' = tb_Overrides tb" by (simp add: tb' on_tokens_def)
  moreover have "map t_BaselinePlate (tb_Tokens tb') = map t_BaselinePlate (tb_Tokens tb)"
    "map t_ID (tb_Tokens tb') = map t_ID (tb_Tokens tb)" by (simp_all add: toks rebound_def)
  moreover have "t_Hash t = newHash" if "t \<in> set (tb_Tokens tb')" "t_GrantID t = gid"
      "t_RecipientEmail t = email" "t_RevokedAt t = None" for t
  proof -
    have "t \<in> (\<lambda>t. ?r (?f t)) ` set (tb_Tokens tb)" using that(1) unfolding toks set_map .
    then obtain u where u: "t = ?r (?f u)" by (rule imageE)
    show ?thesis
    proof (cases "t_ID u = t_ID keep")
      case True
      then show ?thesis by (simp add: u rebound_def)
    next
      case False
      with u that(2-4) have False by (cases "t_RevokedAt u = None") (simp_all split: if_splits)
      then show ?thesis by simp
    qed
  qed
  moreover have "?r (?f keep) \<in> set (tb_Tokens tb')" using kin(1) by (auto simp: toks)
  then have "\<exists>t \<in> set (tb_Tokens tb'). t_GrantID t = gid \<and> t_RecipientEmail t = email \<and> t_Hash t = newHash
      \<and> t_RevokedAt t = None \<and> t_ExpiresAt t = None"
    by (rule bexI [rotated]) (simp add: rebound_def kin(2,3))
  ultimately show ?thesis by simp
qed

theorem a_resend_supersedes_the_link_only_witness:
  "case ResetGuestToken ''amy'' 1 ''nan'' ''h9'' 0 w_tables of
     Inl e \<Rightarrow> False
   | Inr (pid, tb') \<Rightarrow> w_booking \<in> set (tb_Overrides tb')
       \<and> Option.is_none (GuestContextByTokenHash ''h1'' 0 tb')
       \<and> \<not> Option.is_none (GuestContextByTokenHash ''h9'' 0 tb')"
proof -
  have ev: "case ResetGuestToken ''amy'' 1 ''nan'' ''h9'' 0 w_tables of
     Inl e \<Rightarrow> False
   | Inr (pid, tb') \<Rightarrow> Option.is_none (GuestContextByTokenHash ''h1'' 0 tb')
       \<and> \<not> Option.is_none (GuestContextByTokenHash ''h9'' 0 tb')" by code_simp
  then show ?thesis
    using a_resend_supersedes_the_link_only [OF w_tables_evolves, where owner = "''amy''" and gid = 1
        and email = "''nan''" and newHash = "''h9''"] w_tables_eval(1)
    by (auto split: sum.splits prod.splits)
qed

end
