(* ===== verification/Capacity.thy ===== *)
theory Capacity
  imports Withdrawal "HOL-Library.Sublist"
begin

text \<open>
  How many bookings a permit can hold: at most 50 that still run, at most 20 of them made
  through links, in every state. So the links can never use up what the household books with.
\<close>

definition roomy :: "time \<Rightarrow> tables \<Rightarrow> bool" where
  "roomy now tb \<longleftrightarrow> (\<forall>pid. live_count pid now tb \<le> MaxLiveOverridesPerPermit
     \<and> guest_count pid now tb \<le> MaxLiveGuestOverridesPerPermit)"

text \<open>No permit has more running bookings than before.\<close>

definition thinner :: "time \<Rightarrow> tables \<Rightarrow> tables \<Rightarrow> bool" where
  "thinner now tb tb' \<longleftrightarrow> (\<forall>pid. live_count pid now tb' \<le> live_count pid now tb
     \<and> guest_count pid now tb' \<le> guest_count pid now tb)"

lemma thinner_roomy: "thinner now tb tb' \<Longrightarrow> roomy now tb \<Longrightarrow> roomy now tb'"
  by (fastforce simp: thinner_def roomy_def intro: order_trans)

lemma thinner_trans: "thinner now a b \<Longrightarrow> thinner now b c \<Longrightarrow> thinner now a c"
  by (fastforce simp: thinner_def intro: order_trans)

lemma thinner_same: "tb_Overrides tb' = tb_Overrides tb \<Longrightarrow> thinner now tb tb'"
  by (simp add: thinner_def live_count_def guest_count_def running_on_def)

lemma thinner_filter:
  assumes "tb_Overrides tb' = filter Q (tb_Overrides tb)"
  shows "thinner now tb tb'"
proof -
  have "running_on pid now tb' = filter Q (running_on pid now tb)" for pid
    by (simp add: running_on_def assms conj_commute conj_left_commute cong: conj_cong)
  moreover have "filter guest_booking (filter Q xs) = filter Q (filter guest_booking xs)" for xs
    by (simp add: conj_commute)
  ultimately show ?thesis
    unfolding thinner_def live_count_def guest_count_def by (metis length_filter_le)
qed

lemma thinner_map:
  assumes "tb_Overrides tb' = map f (tb_Overrides tb)"
    and "\<And>x. o_PermitID (f x) = o_PermitID x \<and> o_EndsAt (f x) = o_EndsAt x \<and> o_GuestTokenID (f x) = o_GuestTokenID x"
  shows "thinner now tb tb'"
proof -
  have "running_on pid now tb' = map f (running_on pid now tb)" for pid
    using assms(2) by (simp add: running_on_def assms(1) filter_map comp_def still_runs_def)
  moreover have "guest_booking (f x) = guest_booking x" for x using assms(2) by (simp add: guest_booking_def)
  then have "filter guest_booking (map f xs) = map f (filter guest_booking xs)" for xs
    by (simp add: filter_map comp_def)
  ultimately show ?thesis by (simp add: thinner_def live_count_def guest_count_def)
qed

lemma roomy_later: "roomy now tb \<Longrightarrow> now \<le> now' \<Longrightarrow> roomy now' tb"
proof -
  assume r: "roomy now tb" and le: "now \<le> now'"
  have "running_on pid now' tb = filter (still_runs now') (running_on pid now tb)" for pid
    unfolding running_on_def filter_filter using still_runs_later [OF le] by (intro filter_cong) auto
  then have "length (running_on pid now' tb) \<le> length (running_on pid now tb)"
    "length (filter guest_booking (running_on pid now' tb)) \<le> length (filter guest_booking (running_on pid now tb))" for pid
    by (simp, simp only: filter_filter conj_commute, metis filter_filter length_filter_le)
  then show "roomy now' tb"
    using r unfolding roomy_def live_count_def guest_count_def by (meson order_trans)
qed

section \<open>Operations that add no booking\<close>

lemma bookings_of [simp]:
  "tb_Overrides (on_tokens f tb) = tb_Overrides tb" "tb_Overrides (on_grants h tb) = tb_Overrides tb"
  "tb_Overrides (on_requests k tb) = tb_Overrides tb" "tb_Overrides (drop_grants P tb) = tb_Overrides tb"
  "tb_Overrides (drop_rules R tb) = tb_Overrides tb" "tb_Overrides (drop_members M tb) = tb_Overrides tb"
  "tb_Overrides (clear_grant_vehicles gid tb) = tb_Overrides tb"
  "tb_Overrides (set_cycle pid w a tb) = tb_Overrides tb"
  "tb_Overrides (copy_cycle src dst tb) = tb_Overrides tb"
  "tb_Overrides (deny_pending D now tb) = tb_Overrides tb"
  "tb_Overrides (retire_grants P now tb) = tb_Overrides tb"
  by (simp_all add: on_tokens_def on_grants_def on_requests_def drop_grants_def drop_rules_def
      drop_members_def clear_grant_vehicles_def set_cycle_def copy_cycle_def deny_pending_def
      retire_grants_def Let_def split: option.splits)

lemma thinner_drops:
  "thinner now tb (drop_overrides P tb)" "thinner now tb (drop_vehicles V tb)" "thinner now tb (drop_permits Q tb)"
  "thinner now tb (sweepLiveGuestOverrides now' tids tb)"
  by (rule thinner_filter, simp add: drop_overrides_def drop_vehicles_def drop_permits_fields
      sweepLiveGuestOverrides_def Let_def; fail)+

lemma inserted_bookings:
  "insert_token t tb = Inr tb' \<Longrightarrow> tb_Overrides tb' = tb_Overrides tb"
  "insert_recipients gid rs now tb = Inr tb' \<Longrightarrow> tb_Overrides tb' = tb_Overrides tb"
  "add_recipients gid rs now tb = Inr (added, tb') \<Longrightarrow> tb_Overrides tb' = tb_Overrides tb"
proof -
  show t: "insert_token t tb = Inr tb' \<Longrightarrow> tb_Overrides tb' = tb_Overrides tb" for t tb tb'
    by (auto simp: insert_token_def Let_def split: if_splits)
  show "insert_recipients gid rs now tb = Inr tb' \<Longrightarrow> tb_Overrides tb' = tb_Overrides tb"
    by (induction gid rs now tb rule: insert_recipients.induct) (auto dest!: t split: sum.splits)
  show "add_recipients gid rs now tb = Inr (added, tb') \<Longrightarrow> tb_Overrides tb' = tb_Overrides tb"
    by (induction gid rs now tb arbitrary: added rule: add_recipients.induct)
      (auto dest!: t split: sum.splits if_splits prod.splits)
qed

lemma rules_bookings:
  "upsert_rule pid w wd v e tb = Inr tb' \<Longrightarrow> tb_Overrides tb' = tb_Overrides tb"
  "(\<And>r a b. ins r a = Inr b \<Longrightarrow> tb_Overrides b = tb_Overrides a) \<Longrightarrow>
     insert_rules ins rs tb = Inr tb' \<Longrightarrow> tb_Overrides tb' = tb_Overrides tb"
  "grow_weeks pid weeks ks tb = Inr tb' \<Longrightarrow> tb_Overrides tb' = tb_Overrides tb"
  "restore_rules pid weeks to rs tb = Inr tb' \<Longrightarrow> tb_Overrides tb' = tb_Overrides tb"
proof -
  show u: "upsert_rule pid w wd v e tb = Inr tb' \<Longrightarrow> tb_Overrides tb' = tb_Overrides tb" for pid w wd v e tb tb'
    using upsert_rule_frame by blast
  show i: "(\<And>r a b. ins r a = Inr b \<Longrightarrow> tb_Overrides b = tb_Overrides a) \<Longrightarrow>
     insert_rules ins rs tb = Inr tb' \<Longrightarrow> tb_Overrides tb' = tb_Overrides tb" for ins rs tb tb'
    by (induction rs arbitrary: tb) (fastforce split: sum.splits)+
  have g: "grown_rule k r a = Inr b \<Longrightarrow> tb_Overrides b = tb_Overrides a" for k r a b
    unfolding grown_rule_def using insert_rule_frame by blast
  show "grow_weeks pid weeks ks tb = Inr tb' \<Longrightarrow> tb_Overrides tb' = tb_Overrides tb"
  proof (induction pid weeks ks tb rule: grow_weeks.induct)
    case (2 pid weeks k ks tb)
    then obtain tb1 where tb1: "insert_rules (grown_rule k)
        (filter (\<lambda>r. r_Week r = k - weeks) (rules_on pid tb)) tb = Inr tb1"
      by (auto split: sum.splits)
    with i [OF g tb1] 2 show ?case by simp
  qed simp
  show "restore_rules pid weeks to rs tb = Inr tb' \<Longrightarrow> tb_Overrides tb' = tb_Overrides tb"
    by (induction pid weeks to rs tb rule: restore_rules.induct) (auto dest!: u split: sum.splits if_splits)
qed

lemma thinner_settle: "(\<And>tb'. r = Inr tb' \<Longrightarrow> thinner now tb tb') \<Longrightarrow> thinner now tb (settle tb r)"
  by (auto simp: settle_def thinner_same split: sum.splits)

lemma thinner_settled: "(\<And>a tb'. r = Inr (a, tb') \<Longrightarrow> thinner now tb tb') \<Longrightarrow> thinner now tb (settled tb r)"
  by (auto simp: settled_def thinner_same split: sum.splits)

text \<open>A sweep after changes to other rows.\<close>

lemma thinner_after:
  "tb_Overrides a = tb_Overrides tb \<Longrightarrow> thinner now a b \<Longrightarrow> thinner now tb b"
  by (rule thinner_trans [OF thinner_same])

lemma thinner_sweep_withdrawn:
  "sweep_withdrawn now' gid tb = (tb', n) \<Longrightarrow> thinner now tb tb'"
  by (auto simp: sweep_withdrawn_def Let_def intro: thinner_drops)

lemmas same_bookings = insert_grant_frame insertGrantVehicles_set inserted_bookings rules_bookings

lemma thinner_creations:
  "CreateGuestGrant owner by pid label overnight vids rs now' tb = Inr (gid, tb') \<Longrightarrow> thinner now tb tb'"
  "CreateQRGrant owner by pid hash seal ttl now' tb = Inr (gid, tb') \<Longrightarrow> thinner now tb tb'"
  "CreatePrintedGrant owner by pid hash seal now' tb = Inr (gid, tb') \<Longrightarrow> thinner now tb tb'"
  "CreatePickerGrant owner by pid overnight allv vids hash seal now' tb = Inr (gid, tb') \<Longrightarrow> thinner now tb tb'"
  by (rule thinner_same, auto simp: CreateGuestGrant_def CreateQRGrant_def CreatePrintedGrant_def
      CreatePickerGrant_def Let_def dest!: same_bookings split: if_splits sum.splits prod.splits)+

lemma thinner_edits:
  "UpdateGuestGrant owner gid label overnight vids now' tb = Inr (n, tb') \<Longrightarrow> thinner now tb tb'"
  "UpdatePickerGrant owner overnight allv vids now' tb = Inr (n, tb') \<Longrightarrow> thinner now tb tb'"
  by (auto simp: UpdateGuestGrant_def UpdatePickerGrant_def Let_def
      dest!: same_bookings(2) intro: thinner_same thinner_after [OF _ thinner_sweep_withdrawn]
      split: if_splits sum.splits prod.splits option.splits)

lemma thinner_withdraw: "thinner now tb (drop_grants P (sweepLiveGuestOverrides now' tids tb))"
  by (rule thinner_trans [OF thinner_drops(4) thinner_same]) simp

lemma thinner_MoveGuestGrants:
  assumes "MoveGuestGrants owner src dst now' tb = Inr (m, tb')"
  shows "thinner now tb tb'"
proof -
  have c: "(src = dst) = False" "owns_permit owner src tb = True" "owns_permit owner dst tb = True"
    using assms by (auto simp: MoveGuestGrants_def split: if_splits)
  have "\<exists>k a b r P tids. tb' = on_grants k (on_requests a (on_tokens b
      (if r then drop_grants P (sweepLiveGuestOverrides now' tids tb) else tb)))"
    using assms unfolding MoveGuestGrants_def Let_def
    by (simp only: c if_False simp_thms sum.inject prod.inject) blast
  then obtain k a b r P tids where "tb' = on_grants k (on_requests a (on_tokens b
      (if r then drop_grants P (sweepLiveGuestOverrides now' tids tb) else tb)))" by blast
  then have "tb_Overrides tb' = tb_Overrides (if r then drop_grants P (sweepLiveGuestOverrides now' tids tb) else tb)"
    by simp
  moreover have "thinner now tb (if r then drop_grants P (sweepLiveGuestOverrides now' tids tb) else tb)"
    using thinner_withdraw thinner_same [of tb tb] by simp
  ultimately show ?thesis using thinner_trans thinner_same by metis
qed

lemma thinner_pass_step: "thinner now tb (pass_step c now' tb)"
  by (cases c)
    (auto simp: AddGuestTokens_def ResetGuestToken_def ForgetRevokedRecipients_def RevokeGuestToken_def
      DeleteGuestGrant_def SetGuestBaseline_def CaptureOrExtendGuestBaseline_def ClearGuestBaseline_def
      SetGuestsEnabled_def MarkPassNudgeSent_def RevokePrintedGrant_def RotatePickerToken_def Let_def
      dest!: inserted_bookings(3) split: if_splits option.splits
      intro!: thinner_settle thinner_settled
      intro: thinner_same thinner_creations thinner_edits thinner_withdraw thinner_MoveGuestGrants
        thinner_after [OF _ thinner_drops(4)])

lemma thinner_erase: "thinner now tb (erase_tables owner now' tb)"
proof -
  let ?tb1 = "drop_permits (\<lambda>p. p_Owner p = owner) tb"
  let ?tb2 = "drop_vehicles (\<lambda>v. v_Owner v = owner) ?tb1"
  let ?tb3 = "drop_grants (\<lambda>g. g_Owner g = owner) ?tb2"
  let ?tb4 = "?tb3\<lparr>tb_Requests := filter (\<lambda>q. q_Owner q \<noteq> owner) (tb_Requests ?tb3),
    tb_GuestsEnabled := (tb_GuestsEnabled ?tb3)(owner := None)\<rparr>"
  let ?tb5 = "drop_members (\<lambda>m. am_Owner m = owner \<or> am_Member m = owner) ?tb4"
  let ?P = "\<lambda>g. g_CreatedBy g = owner \<and> g_Owner g \<noteq> owner"
  have "thinner now tb ?tb2" by (rule thinner_trans [OF thinner_drops(3) thinner_drops(2)])
  then have "thinner now tb ?tb5" by (rule thinner_trans [OF _ thinner_same]) simp
  then have t6: "thinner now tb (drop_grants ?P (sweepLiveGuestOverrides now' (tokens_where ?P ?tb5) ?tb5))"
    by (rule thinner_trans [OF _ thinner_withdraw])
  have "thinner now a (forget_person owner a)" for a
    by (rule thinner_map [where f = "\<lambda>x. if o_CreatedBy x = owner \<or> o_CreatedBy x = owner @ '' (undo)''
        then x\<lparr>o_CreatedBy := former_member\<rparr> else x"]) (simp_all add: forget_person_def)
  with t6 show ?thesis unfolding erase_tables_def Let_def by (rule thinner_trans)
qed

lemma thinner_house_step: "thinner now tb (house_step c now' tb)"
  by (cases c)
    (auto simp: CreateGuestRequest_def ExpireGuestRequests_def ClearSettledRequestNonces_def
      PurgeDecidedGuestRequests_def DecideGuestRequest_def CreateVehicle_def DeleteVehicle_def
      AddMemberCapped_def AcceptInvite_def DeclineInvite_def revokeGrantsBy_def Let_def
      split: if_splits option.splits
      intro!: thinner_settle thinner_settled
      intro: thinner_same thinner_drops thinner_erase thinner_after [OF _ thinner_withdraw])

section \<open>The two inserts and the copy\<close>

lemma counts_after_booking:
  assumes "insert_override b tid e now tb = Inr (oid, tb')"
  shows "live_count pid now tb' \<le> live_count pid now tb + (if pid = bk_PermitID b then 1 else 0)"
    and "guest_count pid now tb' \<le> guest_count pid now tb + (if pid = bk_PermitID b \<and> tid \<noteq> 0 then 1 else 0)"
  using insert_override_eq [OF assms]
  by (auto simp: live_count_def guest_count_def running_on_def booked_row_def guest_booking_def)

lemma roomy_bookings:
  assumes "roomy now tb"
  shows "createOverrideCapped b MaxLiveOverridesPerPermit e now tb = Inr (oid, tb') \<Longrightarrow> roomy now tb'"
    and "createOverrideGuarded b tid now tb = Inr (oid, tb') \<Longrightarrow> roomy now tb'"
proof -
  assume "createOverrideCapped b MaxLiveOverridesPerPermit e now tb = Inr (oid, tb')"
  then have "live_count (bk_PermitID b) now tb < MaxLiveOverridesPerPermit"
    and ins: "insert_override b 0 e now tb = Inr (oid, tb')"
    by (auto simp: createOverrideCapped_def split: if_splits)
  moreover have "live_count pid now tb \<le> MaxLiveOverridesPerPermit"
    "guest_count pid now tb \<le> MaxLiveGuestOverridesPerPermit" for pid
    using assms by (simp_all add: roomy_def)
  ultimately show "roomy now tb'" unfolding roomy_def
    using counts_after_booking [OF ins] by (intro allI conjI) (fastforce dest: spec intro: order_trans)+
next
  assume "createOverrideGuarded b tid now tb = Inr (oid, tb')"
  then have "live_count (bk_PermitID b) now tb < MaxLiveOverridesPerPermit"
    and g: "tid = 0 \<or> guest_count (bk_PermitID b) now tb < MaxLiveGuestOverridesPerPermit"
    and ins: "insert_override b tid False now tb = Inr (oid, tb')"
    by (auto simp: createOverrideGuarded_def split: if_splits)
  moreover have "live_count pid now tb \<le> MaxLiveOverridesPerPermit"
    "guest_count pid now tb \<le> MaxLiveGuestOverridesPerPermit" for pid
    using assms by (simp_all add: roomy_def)
  ultimately show "roomy now tb'" unfolding roomy_def
    using counts_after_booking [OF ins] by (intro allI conjI) (fastforce dest: spec intro: order_trans)+
qed

lemma running_after_copies:
  "length (running_on pid now (copy_overrides dst ovs tb)) =
     length (running_on pid now tb) + (if pid = dst then length (filter (still_runs now) ovs) else 0)
   \<and> length (filter guest_booking (running_on pid now (copy_overrides dst ovs tb))) =
     length (filter guest_booking (running_on pid now tb))"
  by (induction dst ovs tb rule: copy_overrides.induct)
    (auto simp: running_on_def copied_override_def still_runs_def guest_booking_def)

lemma roomy_CopySchedule:
  assumes "roomy now tb" and "CopySchedule owner src dst now tb = Inr (n, tb')"
  shows "roomy now tb'"
proof (cases "rules_on src tb = [] \<and> running_on src now tb = []")
  case True
  then show ?thesis using assms by (auto simp: CopySchedule_def Let_def split: if_splits)
next
  case False
  let ?cleared = "drop_overrides (\<lambda>x. o_PermitID x = dst \<and> still_runs now x)
    (drop_rules (\<lambda>r. r_PermitID r = dst) tb)"
  obtain tb1 where tb1: "insert_rules (copied_rule dst) (rules_on src tb) ?cleared = Inr tb1"
    and tb': "tb' = copy_overrides dst (running_on src now tb) (copy_cycle src dst tb1)"
    using assms(2) False by (auto simp: CopySchedule_def Let_def split: if_splits sum.splits)
  have "tb_Overrides tb1 = tb_Overrides ?cleared"
    by (rule rules_bookings(2) [OF _ tb1]) (use insert_rule_frame in \<open>auto simp: copied_rule_def\<close>)
  then have ov: "running_on pid now (copy_cycle src dst tb1) = running_on pid now ?cleared" for pid
    by (simp add: running_on_def)
  have none: "running_on dst now ?cleared = []"
    by (auto simp: running_on_def drop_overrides_def filter_empty_conv)
  have thin: "thinner now tb ?cleared"
    by (rule thinner_filter) (simp add: drop_overrides_def)
  have src: "length (filter (still_runs now) (running_on src now tb)) = live_count src now tb"
    by (simp add: live_count_def running_on_def conj_commute)
  show ?thesis unfolding roomy_def
  proof (intro allI)
    fix pid
    show "live_count pid now tb' \<le> MaxLiveOverridesPerPermit \<and> guest_count pid now tb' \<le> MaxLiveGuestOverridesPerPermit"
      using assms(1) thinner_roomy [OF thin assms(1)] none src
      unfolding tb' roomy_def live_count_def guest_count_def running_after_copies [THEN conjunct1]
        running_after_copies [THEN conjunct2] ov
      by (cases "pid = dst") auto
  qed
qed

lemma roomy_schedule_step:
  assumes "roomy now tb" shows "roomy now (schedule_step c now tb)"
proof -
  have settled: "roomy now (settled tb r)" if "\<And>a tb'. r = Inr (a, tb') \<Longrightarrow> roomy now tb'" for r :: "('a \<times> tables) outcome"
    using assms that by (auto simp: settled_def split: sum.splits)
  have thin: "roomy now tb'" if "thinner now tb tb'" for tb' using thinner_roomy [OF that assms] .
  have same: "roomy now tb'" if "tb_Overrides tb' = tb_Overrides tb" for tb'
    using that by (rule thin [OF thinner_same])
  show ?thesis
    by (cases c)
      (auto simp: UpsertPermit_def DeletePermit_def SetRule_def SetEmptyRule_def ClearRule_def
        GrowCycle_def ShrinkCycle_def RestoreCycle_def DeleteGuestOverrides_def PruneOverrides_def
        DeleteOverride_def DeleteOverrideOnPermit_def settle_def Let_def
        dest!: rules_bookings(1,3,4) split: if_splits option.splits sum.splits
        intro!: settled intro: roomy_CopySchedule [OF assms] roomy_bookings [OF assms]
          thin thinner_settle thinner_same thinner_drops same)
qed

lemma evolves_roomy: "evolves G now tb \<Longrightarrow> roomy now tb"
proof (induction rule: evolves.induct)
  case (evolves_init now)
  show ?case by (simp add: roomy_def live_count_def guest_count_def running_on_def empty_tables_def)
next
  case (evolves_wait G now tb now')
  then show ?case by (auto intro: roomy_later)
next
  case (evolves_call G now tb c)
  then show ?case
    by (cases c) (auto intro: roomy_schedule_step thinner_roomy [OF thinner_pass_step]
      thinner_roomy [OF thinner_house_step])
qed

text \<open>C28: in every state a permit has at most 50 running bookings and at most 20 of them from
  links; a booking of the household is refused for lack of room only when at least 30 of the
  running ones are the household's own.
\<close>

theorem links_never_crowd_the_household_out:
  assumes "evolves G now tb"
  shows "live_count pid now tb \<le> 50 \<and> guest_count pid now tb \<le> 20
    \<and> (createOverrideCapped b MaxLiveOverridesPerPermit e now tb = Inl OverrideLimit \<longrightarrow>
         30 \<le> length (filter (\<lambda>x. \<not> guest_booking x) (running_on (bk_PermitID b) now tb)))"
proof -
  have r: "live_count p now tb \<le> 50 \<and> guest_count p now tb \<le> 20" for p
    using evolves_roomy [OF assms]
    by (simp add: roomy_def MaxLiveOverridesPerPermit_def MaxLiveGuestOverridesPerPermit_def)
  have "30 \<le> length (filter (\<lambda>x. \<not> guest_booking x) (running_on (bk_PermitID b) now tb))"
    if "createOverrideCapped b MaxLiveOverridesPerPermit e now tb = Inl OverrideLimit"
  proof -
    have "50 \<le> live_count (bk_PermitID b) now tb"
      using that by (auto simp: createOverrideCapped_def insert_override_def MaxLiveOverridesPerPermit_def
          split: if_splits)
    moreover have "live_count (bk_PermitID b) now tb = guest_count (bk_PermitID b) now tb
        + length (filter (\<lambda>x. \<not> guest_booking x) (running_on (bk_PermitID b) now tb))"
      unfolding live_count_def guest_count_def
      by (rule sum_length_filter_compl [symmetric])
    ultimately show ?thesis using r [of "bk_PermitID b"] by linarith
  qed
  with r show ?thesis by blast
qed

theorem links_never_crowd_the_household_out_witness:
  "live_count 1 0 w_tables \<le> 50 \<and> guest_count 1 0 w_tables \<le> 20 \<and> live_count 1 0 w_tables = 2"
proof -
  have "live_count 1 0 w_tables = 2" by code_simp
  then show ?thesis using links_never_crowd_the_household_out [OF w_tables_evolves, of 1] by blast
qed

section \<open>The queue of a printed code\<close>

text \<open>The plates still waiting under a code: none is added, and their order is kept.\<close>

definition calmer :: "tables \<Rightarrow> tables \<Rightarrow> bool" where
  "calmer tb tb' \<longleftrightarrow> (\<forall>gid. subseq (map q_Plate (pending_on gid tb')) (map q_Plate (pending_on gid tb)))"

definition queue_ok :: "tables \<Rightarrow> bool" where
  "queue_ok tb \<longleftrightarrow> (\<forall>gid. length (pending_on gid tb) \<le> maxPendingGuestRequests
     \<and> distinct (map q_Plate (pending_on gid tb)))"

lemma subseq_keeps_distinct: "subseq xs ys \<Longrightarrow> distinct ys \<Longrightarrow> distinct xs"
  by (auto simp: subseq_conv_nths intro: distinct_nthsI)

lemma calmer_queue: "calmer tb tb' \<Longrightarrow> queue_ok tb \<Longrightarrow> queue_ok tb'"
proof -
  assume c: "calmer tb tb'" and q: "queue_ok tb"
  have s: "subseq (map q_Plate (pending_on gid tb')) (map q_Plate (pending_on gid tb))" for gid
    using c by (simp add: calmer_def)
  have "length (pending_on gid tb') \<le> length (pending_on gid tb)" for gid
    using list_emb_length [OF s [of gid]] by simp
  moreover have "distinct (map q_Plate (pending_on gid tb'))" for gid
    using s [of gid] q subseq_keeps_distinct by (auto simp: queue_ok_def)
  ultimately show "queue_ok tb'" using q le_trans unfolding queue_ok_def by blast
qed

lemma calmer_trans: "calmer a b \<Longrightarrow> calmer b c \<Longrightarrow> calmer a c"
  using subseq_order.trans unfolding calmer_def by blast

lemma calmer_same: "tb_Requests tb' = tb_Requests tb \<Longrightarrow> calmer tb tb'"
  by (simp add: calmer_def pending_on_def)

lemma calmer_filter:
  assumes "tb_Requests tb' = filter Q (tb_Requests tb)"
  shows "calmer tb tb'"
proof -
  have "pending_on gid tb' = filter Q (pending_on gid tb)" for gid
    by (simp add: pending_on_def assms conj_commute conj_left_commute cong: conj_cong)
  then show ?thesis unfolding calmer_def by (metis subseq_filter_left subseq_map)
qed

lemma calmer_map:
  assumes "tb_Requests tb' = map f (tb_Requests tb)"
    and "\<And>q. q_GrantID (f q) = q_GrantID q \<and> q_Plate (f q) = q_Plate q \<and> (q_Status (f q) = Pending \<longrightarrow> q_Status q = Pending)"
  shows "calmer tb tb'"
proof -
  have p: "pending_on gid tb' = map f (filter (\<lambda>q. q_Status (f q) = Pending) (pending_on gid tb))" for gid
    unfolding pending_on_def assms(1) filter_map filter_filter comp_def using assms(2)
    by (intro arg_cong [where f = "map f"] filter_cong) auto
  have "map q_Plate (pending_on gid tb') = map q_Plate (filter (\<lambda>q. q_Status (f q) = Pending) (pending_on gid tb))" for gid
    unfolding p map_map comp_def using assms(2) by simp
  then show ?thesis unfolding calmer_def by (metis subseq_filter_left subseq_map)
qed

lemma queued [simp]:
  "tb_Requests (on_tokens f tb) = tb_Requests tb" "tb_Requests (on_grants h tb) = tb_Requests tb"
  "tb_Requests (drop_rules R tb) = tb_Requests tb" "tb_Requests (drop_members M tb) = tb_Requests tb"
  "tb_Requests (drop_overrides P tb) = tb_Requests tb" "tb_Requests (drop_vehicles V tb) = tb_Requests tb"
  "tb_Requests (sweepLiveGuestOverrides now tids tb) = tb_Requests tb"
  "tb_Requests (clear_grant_vehicles gid tb) = tb_Requests tb"
  "tb_Requests (set_cycle pid w a tb) = tb_Requests tb"
  "tb_Requests (copy_cycle src dst tb) = tb_Requests tb"
  "tb_Requests (copy_overrides dst ovs tb) = tb_Requests tb"
  by (simp_all add: on_tokens_def on_grants_def drop_rules_def drop_members_def drop_overrides_def
      drop_vehicles_def sweepLiveGuestOverrides_def clear_grant_vehicles_def set_cycle_def copy_cycle_def
      Let_def split: option.splits)
    (induction dst ovs tb rule: copy_overrides.induct, simp_all)

lemma calmer_drop_grants: "calmer tb (drop_grants P tb)"
  by (rule calmer_filter) (simp add: drop_grants_def Let_def)

lemma calmer_drop_permits: "calmer tb (drop_permits P tb)"
  unfolding drop_permits_def Let_def
  by (rule calmer_trans [OF calmer_same calmer_drop_grants]) (simp add: drop_rules_def drop_overrides_def)

lemma calmer_on_requests:
  assumes "\<And>q. q_GrantID (f q) = q_GrantID q \<and> q_Plate (f q) = q_Plate q \<and> (q_Status (f q) = Pending \<longrightarrow> q_Status q = Pending)"
  shows "calmer tb (on_requests f tb)"
  by (rule calmer_map [where f = f]) (use assms in \<open>auto simp: on_requests_def\<close>)

lemma calmer_new_code: "calmer tb (deny_pending D now (retire_grants P now' tb))"
  unfolding deny_pending_def retire_grants_def Let_def
  by (rule calmer_trans [OF calmer_trans [OF calmer_same calmer_drop_grants] calmer_on_requests]) auto

lemma inserted_queue:
  "insert_grant g tb = Inr (gid, tb') \<Longrightarrow> tb_Requests tb' = tb_Requests tb"
  "insert_token t tb = Inr tb' \<Longrightarrow> tb_Requests tb' = tb_Requests tb"
  "insertGrantVehicles owner gid vids tb = Inr tb' \<Longrightarrow> tb_Requests tb' = tb_Requests tb"
  "insert_recipients gid rs now tb = Inr tb' \<Longrightarrow> tb_Requests tb' = tb_Requests tb"
  "add_recipients gid rs now tb = Inr (added, tb') \<Longrightarrow> tb_Requests tb' = tb_Requests tb"
  "insert_override b tid e now tb = Inr (oid, tb') \<Longrightarrow> tb_Requests tb' = tb_Requests tb"
proof -
  show "insert_grant g tb = Inr (gid, tb') \<Longrightarrow> tb_Requests tb' = tb_Requests tb"
    by (auto simp: insert_grant_def Let_def split: if_splits)
  show t: "insert_token t tb = Inr tb' \<Longrightarrow> tb_Requests tb' = tb_Requests tb" for t tb tb'
    by (auto simp: insert_token_def Let_def split: if_splits)
  show "insertGrantVehicles owner gid vids tb = Inr tb' \<Longrightarrow> tb_Requests tb' = tb_Requests tb"
    by (induction vids arbitrary: tb) (auto split: if_splits)
  show "insert_recipients gid rs now tb = Inr tb' \<Longrightarrow> tb_Requests tb' = tb_Requests tb"
    by (induction gid rs now tb rule: insert_recipients.induct) (auto dest!: t split: sum.splits)
  show "add_recipients gid rs now tb = Inr (added, tb') \<Longrightarrow> tb_Requests tb' = tb_Requests tb"
    by (induction gid rs now tb arbitrary: added rule: add_recipients.induct)
      (auto dest!: t split: sum.splits if_splits prod.splits)
  show "insert_override b tid e now tb = Inr (oid, tb') \<Longrightarrow> tb_Requests tb' = tb_Requests tb"
    by (auto dest: insert_override_eq)
qed

lemma rules_queue:
  "upsert_rule pid w wd v e tb = Inr tb' \<Longrightarrow> tb_Requests tb' = tb_Requests tb"
  "insert_rules (copied_rule dst) rs tb = Inr tb' \<Longrightarrow> tb_Requests tb' = tb_Requests tb"
  "grow_weeks pid weeks ks tb = Inr tb' \<Longrightarrow> tb_Requests tb' = tb_Requests tb"
  "restore_rules pid weeks to rs tb = Inr tb' \<Longrightarrow> tb_Requests tb' = tb_Requests tb"
proof -
  have n: "insert_rule pid w wd v e tb = Inr tb' \<Longrightarrow> tb_Requests tb' = tb_Requests tb" for pid w wd v e tb tb'
    by (auto simp: insert_rule_def split: if_splits)
  show u: "upsert_rule pid w wd v e tb = Inr tb' \<Longrightarrow> tb_Requests tb' = tb_Requests tb" for pid w wd v e tb tb'
    by (auto simp: upsert_rule_def dest: n split: if_splits)
  have i: "(\<And>r a b. ins r a = Inr b \<Longrightarrow> tb_Requests b = tb_Requests a) \<Longrightarrow>
     insert_rules ins rs tb = Inr tb' \<Longrightarrow> tb_Requests tb' = tb_Requests tb" for ins rs tb tb'
    by (induction rs arbitrary: tb) (fastforce split: sum.splits)+
  show "insert_rules (copied_rule dst) rs tb = Inr tb' \<Longrightarrow> tb_Requests tb' = tb_Requests tb"
    by (rule i [of "copied_rule dst"]) (auto simp: copied_rule_def dest: n)
  have g: "grown_rule k r a = Inr b \<Longrightarrow> tb_Requests b = tb_Requests a" for k r a b
    unfolding grown_rule_def by (rule n)
  show "grow_weeks pid weeks ks tb = Inr tb' \<Longrightarrow> tb_Requests tb' = tb_Requests tb"
  proof (induction pid weeks ks tb rule: grow_weeks.induct)
    case (2 pid weeks k ks tb)
    then obtain tb1 where tb1: "insert_rules (grown_rule k)
        (filter (\<lambda>r. r_Week r = k - weeks) (rules_on pid tb)) tb = Inr tb1"
      by (auto split: sum.splits)
    with i [OF g tb1] 2 show ?case by simp
  qed simp
  show "restore_rules pid weeks to rs tb = Inr tb' \<Longrightarrow> tb_Requests tb' = tb_Requests tb"
    by (induction pid weeks to rs tb rule: restore_rules.induct) (auto dest!: u split: sum.splits if_splits)
qed

lemma calmer_settle: "(\<And>tb'. r = Inr tb' \<Longrightarrow> calmer tb tb') \<Longrightarrow> calmer tb (settle tb r)"
  by (auto simp: settle_def calmer_same split: sum.splits)

lemma calmer_settled: "(\<And>a tb'. r = Inr (a, tb') \<Longrightarrow> calmer tb tb') \<Longrightarrow> calmer tb (settled tb r)"
  by (auto simp: settled_def calmer_same split: sum.splits)

lemma calmer_schedule_step: "calmer tb (schedule_step c now tb)"
  by (cases c)
    (auto simp: UpsertPermit_def DeletePermit_def SetRule_def SetEmptyRule_def ClearRule_def CopySchedule_def
      GrowCycle_def ShrinkCycle_def RestoreCycle_def DeleteGuestOverrides_def PruneOverrides_def
      DeleteOverride_def DeleteOverrideOnPermit_def createOverrideCapped_def createOverrideGuarded_def Let_def
      dest!: rules_queue inserted_queue split: if_splits option.splits sum.splits
      intro!: calmer_settle calmer_settled intro: calmer_same calmer_drop_permits)

lemma calmer_sweep_withdrawn: "sweep_withdrawn now gid tb = (tb', n) \<Longrightarrow> tb_Requests tb' = tb_Requests tb"
  by (auto simp: sweep_withdrawn_def Let_def)

lemma calmer_edits:
  "UpdateGuestGrant owner gid label overnight vids now tb = Inr (n, tb') \<Longrightarrow> calmer tb tb'"
  "UpdatePickerGrant owner overnight allv vids now tb = Inr (n, tb') \<Longrightarrow> calmer tb tb'"
  by (rule calmer_same, auto simp: UpdateGuestGrant_def UpdatePickerGrant_def Let_def
      dest!: inserted_queue calmer_sweep_withdrawn split: if_splits sum.splits prod.splits option.splits)+

lemma calmer_creations:
  "CreateGuestGrant owner by pid label overnight vids rs now tb = Inr (gid, tb') \<Longrightarrow> calmer tb tb'"
  "CreatePickerGrant owner by pid overnight allv vids hash seal now tb = Inr (gid, tb') \<Longrightarrow> calmer tb tb'"
  by (rule calmer_same, auto simp: CreateGuestGrant_def CreatePickerGrant_def
      dest!: inserted_queue split: if_splits sum.splits prod.splits)+

lemma calmer_codes:
  "CreateQRGrant owner by pid hash seal ttl now tb = Inr (gid, tb') \<Longrightarrow> calmer tb tb'"
  "CreatePrintedGrant owner by pid hash seal now tb = Inr (gid, tb') \<Longrightarrow> calmer tb tb'"
  by (auto simp: CreateQRGrant_def CreatePrintedGrant_def Let_def dest!: inserted_queue
      intro!: calmer_trans [OF calmer_new_code calmer_same] split: if_splits sum.splits prod.splits)

lemma calmer_withdraw: "calmer tb (drop_grants P (sweepLiveGuestOverrides now tids tb))"
  by (rule calmer_trans [OF calmer_same calmer_drop_grants]) simp

lemma calmer_MoveGuestGrants:
  assumes "MoveGuestGrants owner src dst now tb = Inr (m, tb')"
  shows "calmer tb tb'"
proof -
  have c: "(src = dst) = False" "owns_permit owner src tb = True" "owns_permit owner dst tb = True"
    using assms by (auto simp: MoveGuestGrants_def split: if_splits)
  have "\<exists>k G b r P tids. tb' = on_grants k (on_requests (\<lambda>q. if q_Status q = Pending \<and> q_PermitID q = src
        \<and> q_GrantID q \<in> G then q\<lparr>q_PermitID := dst\<rparr> else q) (on_tokens b
      (if r then drop_grants P (sweepLiveGuestOverrides now tids tb) else tb)))"
    using assms unfolding MoveGuestGrants_def Let_def
    by (simp only: c if_False simp_thms sum.inject prod.inject) blast
  then obtain k G b r P tids where e: "tb' = on_grants k (on_requests (\<lambda>q. if q_Status q = Pending \<and> q_PermitID q = src
        \<and> q_GrantID q \<in> G then q\<lparr>q_PermitID := dst\<rparr> else q) (on_tokens b
      (if r then drop_grants P (sweepLiveGuestOverrides now tids tb) else tb)))" by blast
  let ?a = "if r then drop_grants P (sweepLiveGuestOverrides now tids tb) else tb"
  have "calmer tb ?a" using calmer_withdraw calmer_same [of tb tb] by simp
  then have "calmer tb (on_tokens b ?a)" by (rule calmer_trans [OF _ calmer_same]) simp
  then show ?thesis unfolding e
    by (rule calmer_trans [OF calmer_trans [OF _ calmer_on_requests] calmer_same]) auto
qed

lemma calmer_pass_step: "calmer tb (pass_step c now tb)"
  by (cases c)
    (auto simp: AddGuestTokens_def ResetGuestToken_def ForgetRevokedRecipients_def RevokeGuestToken_def
      DeleteGuestGrant_def SetGuestBaseline_def CaptureOrExtendGuestBaseline_def ClearGuestBaseline_def
      SetGuestsEnabled_def MarkPassNudgeSent_def RevokePrintedGrant_def RotatePickerToken_def Let_def
      dest!: inserted_queue split: if_splits option.splits
      intro!: calmer_settle calmer_settled
      intro: calmer_same calmer_creations calmer_edits calmer_codes calmer_withdraw calmer_MoveGuestGrants)

lemma calmer_erase: "calmer tb (erase_tables owner now tb)"
proof -
  let ?tb1 = "drop_permits (\<lambda>p. p_Owner p = owner) tb"
  let ?tb2 = "drop_vehicles (\<lambda>v. v_Owner v = owner) ?tb1"
  let ?tb3 = "drop_grants (\<lambda>g. g_Owner g = owner) ?tb2"
  let ?tb4 = "?tb3\<lparr>tb_Requests := filter (\<lambda>q. q_Owner q \<noteq> owner) (tb_Requests ?tb3),
    tb_GuestsEnabled := (tb_GuestsEnabled ?tb3)(owner := None)\<rparr>"
  let ?tb5 = "drop_members (\<lambda>m. am_Owner m = owner \<or> am_Member m = owner) ?tb4"
  let ?P = "\<lambda>g. g_CreatedBy g = owner \<and> g_Owner g \<noteq> owner"
  have "calmer tb ?tb2" by (rule calmer_trans [OF calmer_drop_permits calmer_same]) simp
  then have "calmer tb ?tb3" by (rule calmer_trans [OF _ calmer_drop_grants])
  then have "calmer tb ?tb4" by (rule calmer_trans [OF _ calmer_filter]) simp
  then have "calmer tb ?tb5" by (rule calmer_trans [OF _ calmer_same]) simp
  then have t6: "calmer tb (drop_grants ?P (sweepLiveGuestOverrides now (tokens_where ?P ?tb5) ?tb5))"
    by (rule calmer_trans [OF _ calmer_withdraw])
  have "calmer a (forget_person owner a)" for a
    by (rule calmer_map [where f = "\<lambda>q. if q_Owner q \<noteq> owner \<and> q_DecidedBy q = owner
      then q\<lparr>q_DecidedBy := former_member\<rparr> else q"]) (simp_all add: forget_person_def)
  with t6 show ?thesis unfolding erase_tables_def Let_def by (rule calmer_trans)
qed

lemma queue_CreateGuestRequest:
  assumes "queue_ok tb" and "CreateGuestRequest a now tb = Inr (r, tb')"
  shows "queue_ok tb'"
proof (cases "filter (\<lambda>q. q_Plate q = as_Plate a) (pending_on (as_GrantID a) tb) = []
    \<and> length (pending_on (as_GrantID a) tb) < maxPendingGuestRequests")
  case True
  let ?q = "new_request a (tb_LastRequest tb + 1) now"
  have tb': "tb_Requests tb' = tb_Requests tb @ [?q]"
    using assms(2) True by (auto simp: CreateGuestRequest_def Let_def split: if_splits)
  have p: "pending_on gid tb' = pending_on gid tb @ (if gid = as_GrantID a then [?q] else [])" for gid
    by (simp add: pending_on_def tb' new_request_def)
  have new: "q_Plate ?q \<notin> set (map q_Plate (pending_on (as_GrantID a) tb))"
    using True by (auto simp: filter_empty_conv new_request_def)
  show ?thesis unfolding queue_ok_def
    using assms(1) new True by (auto simp: queue_ok_def p)
next
  case False
  then have "tb' = tb" using assms(2)
    by (auto simp: CreateGuestRequest_def Let_def split: if_splits option.splits)
  with assms(1) show ?thesis by simp
qed

lemma queue_house_step:
  assumes "queue_ok tb" shows "queue_ok (house_step c now tb)"
proof (cases "\<exists>a. c = DoCreateGuestRequest a")
  case True
  then show ?thesis using assms queue_CreateGuestRequest [OF assms]
    by (auto simp: settled_def split: sum.splits)
next
  case False
  have "calmer tb (house_step c now tb)"
    using False
    by (cases c)
      (auto simp: ExpireGuestRequests_def ClearSettledRequestNonces_def PurgeDecidedGuestRequests_def
        DecideGuestRequest_def decided_row_def CreateVehicle_def DeleteVehicle_def AddMemberCapped_def
        AcceptInvite_def DeclineInvite_def revokeGrantsBy_def Let_def split: if_splits option.splits
        intro!: calmer_settle calmer_settled calmer_on_requests
        intro: calmer_same calmer_filter calmer_erase calmer_trans [OF calmer_same calmer_withdraw])
  then show ?thesis using assms by (rule calmer_queue)
qed

lemma evolves_queue: "evolves G now tb \<Longrightarrow> queue_ok tb"
proof (induction rule: evolves.induct)
  case (evolves_init now)
  show ?case by (simp add: queue_ok_def pending_on_def empty_tables_def)
next
  case (evolves_call G now tb c)
  then show ?case
    by (cases c) (auto intro: queue_house_step calmer_queue [OF calmer_schedule_step] calmer_queue [OF calmer_pass_step])
qed

text \<open>C29: in every state a printed code has at most five open requests, each for another plate.
\<close>

theorem a_public_code_cannot_flood_the_household:
  assumes "evolves G now tb"
  shows "length (pending_on gid tb) \<le> 5 \<and> distinct (map q_Plate (pending_on gid tb))"
  using evolves_queue [OF assms] by (simp add: queue_ok_def maxPendingGuestRequests_def)

theorem a_public_code_cannot_flood_the_household_witness:
  "length (pending_on 2 w_tables) \<le> 5 \<and> distinct (map q_Plate (pending_on 2 w_tables))
   \<and> length (pending_on 2 w_tables) = 1"
proof -
  have "length (pending_on 2 w_tables) = 1" by code_simp
  then show ?thesis using a_public_code_cannot_flood_the_household [OF w_tables_evolves, of 2] by simp
qed

text \<open>a request is decided once: after a decision, whichever way, no further decision of it
  succeeds, and the row keeps the first verdict.
\<close>

theorem a_request_is_decided_once:
  assumes "DecideGuestRequest owner rid vd now tb = Inr (q, tb')"
  shows "DecideGuestRequest owner rid vd' now' tb' = Inl NotFound"
  using assms by (auto simp: DecideGuestRequest_def Let_def on_requests_def list_ex_iff decided_row_def
      split: if_splits option.splits)

theorem a_request_is_decided_once_witness:
  "case DecideGuestRequest ''amy'' 1 \<lparr>vd_Approve = True, vd_Until = [], vd_DecidedBy = ''amy'', vd_UntilTS = 5\<rparr> 0 w_tables of
     Inl e \<Rightarrow> False
   | Inr (q, tb') \<Rightarrow> q_Status q = Approved \<and>
       DecideGuestRequest ''amy'' 1 \<lparr>vd_Approve = False, vd_Until = [], vd_DecidedBy = ''bob'', vd_UntilTS = 5\<rparr> 1 tb' = Inl NotFound"
proof -
  have "case DecideGuestRequest ''amy'' 1 \<lparr>vd_Approve = True, vd_Until = [], vd_DecidedBy = ''amy'', vd_UntilTS = 5\<rparr> 0 w_tables of
     Inl e \<Rightarrow> False | Inr (q, tb') \<Rightarrow> q_Status q = Approved" by code_simp
  then show ?thesis by (auto simp: a_request_is_decided_once split: sum.splits prod.splits)
qed

end
