(* ===== verification/Accounts.thy ===== *)
theory Accounts
  imports Households Outbox Sessions Notices
begin

text \<open>
  Everything the store keeps about an account (internal/store/accounts.go, household.go,
  consent.go, changelog.go): beside the tables of the schedule and its links, the council
  sessions, the apply log and notification rows of the permits, notification preferences,
  consents, flags and milestones, the outbox, the change log, the referral invitations and the
  do-not-email list. On these: the erasure of an account, the removal of a member, the redaction
  of a name in other households' logs, and the questions the once-ever notes are decided by.

  A list holds the rows of a table in the order of their identifiers. \<open>account_flags\<close> is one row
  with defaults; its column \<open>guests_enabled\<close> stands in the tables of the schedule and its column
  \<open>council_id\<close> beside the sessions.
\<close>

section \<open>Rows\<close>

record applied_row = apply_record +
  al_PermitID :: int
  al_At :: time

record notify_pref =
  np_Owner :: string
  np_EmailEnabled :: bool
  np_NtfyEnabled :: bool
  np_NtfyTopic :: string
  np_FailuresOnly :: bool
  np_QuietFrom :: int
  np_QuietUntil :: int
  np_NtfyConfirmedAt :: "time option"

record consent =
  co_Owner :: string
  co_Version :: string
  co_Hash :: string
  co_AgreedAt :: time

record flags =
  fl_OnboardNudge :: "time option"
  fl_FortnightNudge :: "time option"
  fl_PortalNudge :: "time option"
  fl_LastNudge :: "time option"
  fl_HouseholdName :: string
  fl_LinkFailCount :: int
  fl_LinkFailLast :: "time option"
  fl_LinkFailReason :: string

record change =
  ch_Owner :: string
  ch_Actor :: string
  ch_Action :: string
  ch_Target :: string
  ch_Detail :: string
  ch_At :: time

record referral =
  rf_Owner :: string
  rf_Recipient :: string
  rf_SentAt :: time

record estate =
  es_Tables :: tables
  es_Sessions :: "tenant_session list"
  es_Selected :: "string \<rightharpoonup> string"
  es_TenantCache :: "string \<rightharpoonup> string"
  es_TenantEpoch :: nat
  es_Applied :: "applied_row list"
  es_Notified :: "int \<rightharpoonup> notify_row"
  es_FailStreak :: "int \<Rightarrow> int"
  es_Prefs :: "notify_pref list"
  es_Consents :: "consent list"
  es_Milestones :: "(string \<times> string \<times> time) list"
  es_Flags :: "string \<rightharpoonup> flags"
  es_Outbox :: "outbox_row list"
  es_Log :: "change list"
  es_Referrals :: "referral list"
  es_Suppressed :: "suppression list"

definition no_flags :: flags where
  "no_flags = \<lparr>fl_OnboardNudge = None, fl_FortnightNudge = None, fl_PortalNudge = None,
     fl_LastNudge = None, fl_HouseholdName = [], fl_LinkFailCount = 0, fl_LinkFailLast = None,
     fl_LinkFailReason = []\<rparr>"

definition flags_of :: "string \<Rightarrow> estate \<Rightarrow> flags" where
  "flags_of owner es = (case es_Flags es owner of None \<Rightarrow> no_flags | Some f \<Rightarrow> f)"

text \<open>\<open>INSERT \<dots> ON CONFLICT(owner) DO UPDATE\<close> of single columns.\<close>

definition set_flag :: "string \<Rightarrow> (flags \<Rightarrow> flags) \<Rightarrow> estate \<Rightarrow> estate" where
  "set_flag owner f es = es\<lparr>es_Flags := (es_Flags es)(owner \<mapsto> f (flags_of owner es))\<rparr>"

definition on_tables :: "(tables \<Rightarrow> tables) \<Rightarrow> estate \<Rightarrow> estate" where
  "on_tables f es = es\<lparr>es_Tables := f (es_Tables es)\<rparr>"

text \<open>SQLite's \<open>LIKE\<close>: \<open>%\<close> any text, \<open>_\<close> any character, letters compared without ASCII case.\<close>

fun sql_like :: "string \<Rightarrow> string \<Rightarrow> bool" where
  "sql_like [] s = (s = [])"
| "sql_like (p # ps) [] = (p = CHR ''%'' \<and> sql_like ps [])"
| "sql_like (p # ps) (c # s) =
     (if p = CHR ''%'' then sql_like ps (c # s) \<or> sql_like (p # ps) s
      else (p = CHR ''_'' \<or> asciiLower_c p = asciiLower_c c) \<and> sql_like ps s)"

section \<open>Flags of the household\<close>

definition HouseholdName :: "string \<Rightarrow> estate \<Rightarrow> string" where
  "HouseholdName owner es = fl_HouseholdName (flags_of owner es)"

definition SetHouseholdName :: "string \<Rightarrow> string \<Rightarrow> estate \<Rightarrow> estate" where
  "SetHouseholdName owner name es = set_flag owner (\<lambda>f. f\<lparr>fl_HouseholdName := name\<rparr>) es"

definition NoteLinkFailure :: "string \<Rightarrow> string \<Rightarrow> time \<Rightarrow> estate \<Rightarrow> estate" where
  "NoteLinkFailure owner reason now es =
     set_flag owner (\<lambda>f. f\<lparr>fl_LinkFailCount := fl_LinkFailCount f + 1,
       fl_LinkFailLast := Some (nowUTC now), fl_LinkFailReason := reason\<rparr>) es"

definition LinkFailures :: "string \<Rightarrow> estate \<Rightarrow> int \<times> time option \<times> string" where
  "LinkFailures owner es = (let f = flags_of owner es
     in (fl_LinkFailCount f, fl_LinkFailLast f, fl_LinkFailReason f))"

definition ClearLinkFailures :: "string \<Rightarrow> estate \<Rightarrow> estate" where
  "ClearLinkFailures owner es = (case es_Flags es owner of
       None \<Rightarrow> es
     | Some f \<Rightarrow> es\<lparr>es_Flags := (es_Flags es)(owner \<mapsto> f\<lparr>fl_LinkFailCount := 0, fl_LinkFailReason := []\<rparr>)\<rparr>)"

definition InactionNudgeAllowed :: "string \<Rightarrow> time \<Rightarrow> estate \<Rightarrow> bool" where
  "InactionNudgeAllowed owner notAfter es = (case fl_LastNudge (flags_of owner es) of
       None \<Rightarrow> True
     | Some t \<Rightarrow> t \<le> whole_seconds notAfter)"

definition MarkInactionNudged :: "string \<Rightarrow> time \<Rightarrow> estate \<Rightarrow> estate" where
  "MarkInactionNudged owner t es = set_flag owner (\<lambda>f. f\<lparr>fl_LastNudge := Some (whole_seconds t)\<rparr>) es"

section \<open>The change log\<close>

definition ActionCouncilLink :: string where "ActionCouncilLink = ''council.link''"

definition RecordChange :: "string \<Rightarrow> string \<Rightarrow> string \<Rightarrow> string \<Rightarrow> string \<Rightarrow> time \<Rightarrow> estate \<Rightarrow> estate" where
  "RecordChange owner actor action target detail now es =
     es\<lparr>es_Log := es_Log es @ [\<lparr>ch_Owner = owner, ch_Actor = actor, ch_Action = action,
        ch_Target = target, ch_Detail = detail, ch_At = nowUTC now\<rparr>]\<rparr>"

definition HasGuestActivity :: "string \<Rightarrow> estate \<Rightarrow> bool" where
  "HasGuestActivity owner es \<longleftrightarrow> list_ex (\<lambda>c. ch_Owner c = owner
     \<and> (sql_like ''guest.%'' (ch_Action c) \<or> sql_like ''doorqr.%'' (ch_Action c)
        \<or> sql_like ''request.%'' (ch_Action c) \<or> sql_like ''picker.%'' (ch_Action c))) (es_Log es)"

definition CountChanges :: "string \<Rightarrow> string \<Rightarrow> estate \<Rightarrow> nat" where
  "CountChanges owner action es =
     length (filter (\<lambda>c. ch_Owner c = owner \<and> ch_Action c = action) (es_Log es))"

definition ListChanges :: "string \<Rightarrow> nat \<Rightarrow> estate \<Rightarrow> change list" where
  "ListChanges owner limit es = take limit (rev (filter (\<lambda>c. ch_Owner c = owner) (es_Log es)))"

definition PruneChangeLog :: "time \<Rightarrow> estate \<Rightarrow> estate" where
  "PruneChangeLog before es = es\<lparr>es_Log := filter (\<lambda>c. \<not> ch_At c < whole_seconds before) (es_Log es)\<rparr>"

section \<open>Consent and the once-ever notes\<close>

definition RecordConsent :: "string \<Rightarrow> string \<Rightarrow> string \<Rightarrow> time \<Rightarrow> estate \<Rightarrow> estate" where
  "RecordConsent owner version hash now es =
     es\<lparr>es_Consents := es_Consents es @ [\<lparr>co_Owner = owner, co_Version = version, co_Hash = hash,
        co_AgreedAt = nowUTC now\<rparr>]\<rparr>"

definition LatestConsent :: "string \<Rightarrow> estate \<Rightarrow> consent option" where
  "LatestConsent owner es = find (\<lambda>c. co_Owner c = owner) (rev (es_Consents es))"

definition linked_owner :: "string \<Rightarrow> estate \<Rightarrow> bool" where
  "linked_owner owner es \<longleftrightarrow> list_ex (\<lambda>r. ts_Owner r = owner) (es_Sessions es)"

definition owns_a_permit :: "string \<Rightarrow> estate \<Rightarrow> bool" where
  "owns_a_permit owner es \<longleftrightarrow> list_ex (\<lambda>p. p_Owner p = owner) (tb_Permits (es_Tables es))"

text \<open>
  The two candidate queries group by owner and order by the earliest time of the group; among
  equal times the statement leaves the order open, here it is that of the first row.
\<close>

definition earliest :: "time list \<Rightarrow> time" where
  "earliest ts = (case ts of [] \<Rightarrow> 0 | t # us \<Rightarrow> fold min us t)"

definition first_agreed :: "string \<Rightarrow> estate \<Rightarrow> time" where
  "first_agreed owner es =
     earliest (map co_AgreedAt (filter (\<lambda>c. co_Owner c = owner) (es_Consents es)))"

definition OnboardNudgeCandidates :: "time \<Rightarrow> time \<Rightarrow> estate \<Rightarrow> string list" where
  "OnboardNudgeCandidates oldest until es =
     sort_key (\<lambda>w. first_agreed w es) (filter (\<lambda>w.
        \<not> linked_owner w es
        \<and> \<not> owns_a_permit w es
        \<and> \<not> list_ex (\<lambda>c. ch_Owner c = w \<and> ch_Action c = ActionCouncilLink) (es_Log es)
        \<and> \<not> list_ex (\<lambda>m. am_Member m = w \<and> \<not> am_Pending m) (tb_Members (es_Tables es))
        \<and> fl_OnboardNudge (flags_of w es) = None
        \<and> whole_seconds oldest \<le> first_agreed w es \<and> first_agreed w es \<le> whole_seconds until)
       (remdups (map co_Owner (es_Consents es))))"

definition MarkOnboardNudgeSent :: "string \<Rightarrow> time \<Rightarrow> estate \<Rightarrow> estate" where
  "MarkOnboardNudgeSent owner now es = set_flag owner (\<lambda>f. f\<lparr>fl_OnboardNudge := Some (nowUTC now)\<rparr>) es"

definition successes :: "string \<Rightarrow> estate \<Rightarrow> applied_row list" where
  "successes owner es = filter (\<lambda>a. ar_Status a = ''success''
     \<and> list_ex (\<lambda>p. p_ID p = al_PermitID a \<and> p_Owner p = owner) (tb_Permits (es_Tables es))) (es_Applied es)"

definition first_success :: "string \<Rightarrow> estate \<Rightarrow> time" where
  "first_success owner es = earliest (map al_At (successes owner es))"

definition FortnightNudgeCandidates :: "time \<Rightarrow> estate \<Rightarrow> string list" where
  "FortnightNudgeCandidates before es =
     sort_key (\<lambda>w. first_success w es) (filter (\<lambda>w.
        successes w es \<noteq> []
        \<and> list_ex (\<lambda>c. co_Owner c = w) (es_Consents es)
        \<and> fl_FortnightNudge (flags_of w es) = None
        \<and> first_success w es \<le> whole_seconds before)
       (remdups (map p_Owner (tb_Permits (es_Tables es)))))"

definition MarkFortnightNudgeSent :: "string \<Rightarrow> time \<Rightarrow> estate \<Rightarrow> estate" where
  "MarkFortnightNudgeSent owner now es = set_flag owner (\<lambda>f. f\<lparr>fl_FortnightNudge := Some (nowUTC now)\<rparr>) es"

definition portal_nudge_due :: "string \<Rightarrow> estate \<Rightarrow> bool" where
  "portal_nudge_due owner es \<longleftrightarrow> fl_PortalNudge (flags_of owner es) = None \<and> successes owner es = []"

definition MarkPortalNudgeSent :: "string \<Rightarrow> time \<Rightarrow> estate \<Rightarrow> estate" where
  "MarkPortalNudgeSent owner now es = set_flag owner (\<lambda>f. f\<lparr>fl_PortalNudge := Some (nowUTC now)\<rparr>) es"

section \<open>Members and referrals\<close>

definition CountLinkedAccounts :: "estate \<Rightarrow> nat" where
  "CountLinkedAccounts es =
     length (remdups (map ts_Owner (filter (\<lambda>r. ts_Cookie r \<noteq> []) (es_Sessions es))))"

definition IsPrimary :: "string \<Rightarrow> estate \<Rightarrow> bool" where
  "IsPrimary owner es \<longleftrightarrow> 0 < CountMembers owner (es_Tables es)"

definition HasOwnData :: "string \<Rightarrow> estate \<Rightarrow> bool" where
  "HasOwnData email es \<longleftrightarrow> has_own_data (linked_owner email es) email (es_Tables es)"

definition CountSuccessfulApplies :: "string \<Rightarrow> estate \<Rightarrow> nat" where
  "CountSuccessfulApplies owner es = length (successes owner es)"

definition RecordReferralInvite :: "string \<Rightarrow> string \<Rightarrow> time \<Rightarrow> estate \<Rightarrow> estate" where
  "RecordReferralInvite owner recipient now es =
     es\<lparr>es_Referrals := es_Referrals es @
        [\<lparr>rf_Owner = owner, rf_Recipient = recipient, rf_SentAt = nowUTC now\<rparr>]\<rparr>"

definition CountReferralInvitesSince :: "string \<Rightarrow> time \<Rightarrow> estate \<Rightarrow> nat" where
  "CountReferralInvitesSince owner since es =
     length (filter (\<lambda>r. rf_Owner r = owner \<and> whole_seconds since \<le> rf_SentAt r) (es_Referrals es))"

definition ReferralInviteRetention :: dur where "ReferralInviteRetention = 90 * 24 * hour"

definition PruneReferralInvites :: "time \<Rightarrow> estate \<Rightarrow> estate" where
  "PruneReferralInvites cutoff es =
     es\<lparr>es_Referrals := filter (\<lambda>r. \<not> rf_SentAt r < whole_seconds cutoff) (es_Referrals es)\<rparr>"

text \<open>\<open>AddMember\<close>: a member at once, without an offer.\<close>

definition AddMember :: "string \<Rightarrow> string \<Rightarrow> time \<Rightarrow> tables \<Rightarrow> tables outcome" where
  "AddMember owner email now tb =
     (if list_ex (\<lambda>m. am_Member m = email) (tb_Members tb) then Inl Duplicate
      else Inr (tb\<lparr>tb_Members := tb_Members tb @
             [\<lparr>am_Member = email, am_Owner = owner, am_AddedAt = nowUTC now, am_Pending = False,
               am_RemindedAt = None\<rparr>]\<rparr>))"

text \<open>
  \<open>dropQueuedPush\<close>, \<open>revokeGrantsBy\<close> with its purge of the queue, and the two ways a membership
  ends.
\<close>

definition dropQueuedPush :: "string \<Rightarrow> estate \<Rightarrow> estate" where
  "dropQueuedPush email es = (case find (\<lambda>n. np_Owner n = email) (es_Prefs es) of
       None \<Rightarrow> es
     | Some n \<Rightarrow> if np_NtfyTopic n = [] then es
         else es\<lparr>es_Outbox := filter (\<lambda>r. \<not> (ob_Status r = RowPending \<and> ob_NtfyTopic r = np_NtfyTopic n))
                 (es_Outbox es)\<rparr>)"

definition drop_prefs :: "string \<Rightarrow> estate \<Rightarrow> estate" where
  "drop_prefs email es = es\<lparr>es_Prefs := filter (\<lambda>n. np_Owner n \<noteq> email) (es_Prefs es)\<rparr>"

definition revoke_foothold :: "string \<Rightarrow> string \<Rightarrow> time \<Rightarrow> estate \<Rightarrow> nat \<times> estate" where
  "revoke_foothold owner email now es =
     (if email = [] then (0, es)
      else (let (n, tb) = revokeGrantsBy owner email now (es_Tables es)
            in (n, es\<lparr>es_Tables := tb,
                 es_Outbox := filter (\<lambda>r. \<not> (ob_Status r = RowPending \<and> ob_Recipients r = email
                    \<and> ob_Account r = owner)) (es_Outbox es)\<rparr>)))"

definition RemoveMember :: "string \<Rightarrow> string \<Rightarrow> time \<Rightarrow> estate \<Rightarrow> ((nat \<times> bool) \<times> estate) outcome" where
  "RemoveMember owner email now es =
     (case find (\<lambda>m. am_Member m = email \<and> am_Owner m = owner) (tb_Members (es_Tables es)) of
       None \<Rightarrow> Inl NotFound
     | Some m \<Rightarrow>
         (let es1 = on_tables (drop_members (\<lambda>m. am_Member m = email \<and> am_Owner m = owner)) es
          in if am_Pending m then Inr ((0, False), es1)
             else (let (n, es2) = revoke_foothold owner email now (drop_prefs email (dropQueuedPush email es1))
                   in Inr ((n, True), es2))))"

definition RemoveMembership :: "string \<Rightarrow> time \<Rightarrow> estate \<Rightarrow> nat \<times> estate" where
  "RemoveMembership email now es =
     (case find (\<lambda>m. am_Member m = email) (tb_Members (es_Tables es)) of
       None \<Rightarrow> (0, es)
     | Some m \<Rightarrow> revoke_foothold (am_Owner m) email now
         (drop_prefs email (dropQueuedPush email (on_tables (drop_members (\<lambda>m. am_Member m = email)) es))))"

section \<open>Erasing an account\<close>

text \<open>\<open>strings.Split(s, ", ")\<close>.\<close>

fun split_list :: "string \<Rightarrow> string list" where
  "split_list [] = [[]]"
| "split_list [c] = [[c]]"
| "split_list (c # d # cs) =
     (if c = CHR '','' \<and> d = CHR '' '' then [] # split_list cs
      else (case split_list (d # cs) of [] \<Rightarrow> [[c]] | w # ws \<Rightarrow> (c # w) # ws))"

definition names_other :: "string \<Rightarrow> string \<Rightarrow> bool" where
  "names_other addr p \<longleftrightarrow> \<not> equal_fold (trim_space p) addr"

definition redacted :: "string \<Rightarrow> string \<Rightarrow> string" where
  "redacted addr target =
     (let parts = split_list target; kept = filter (names_other addr) parts
      in if length kept = length parts then target else join_with '', '' kept)"

definition redactLogTargets :: "string \<Rightarrow> change list \<Rightarrow> change list" where
  "redactLogTargets addr chs =
     (if addr = [] then chs
      else map (\<lambda>c. if ch_Owner c \<noteq> addr \<and> sql_like (CHR ''%'' # addr @ ''%'') (ch_Target c)
                    then c\<lparr>ch_Target := redacted addr (ch_Target c)\<rparr> else c) chs)"

definition erase_log :: "string \<Rightarrow> change list \<Rightarrow> change list" where
  "erase_log owner chs =
     redactLogTargets owner
       (map (\<lambda>c. if ch_Owner c \<noteq> owner \<and> ch_Target c = owner then c\<lparr>ch_Target := former_member\<rparr> else c)
       (map (\<lambda>c. if ch_Owner c \<noteq> owner \<and> ch_Actor c = owner then c\<lparr>ch_Actor := former_member\<rparr> else c)
       (filter (\<lambda>c. ch_Owner c \<noteq> owner) chs)))"

definition permit_ids :: "string \<Rightarrow> estate \<Rightarrow> int list" where
  "permit_ids owner es = map p_ID (filter (\<lambda>p. p_Owner p = owner) (tb_Permits (es_Tables es)))"

definition accepted_members :: "string \<Rightarrow> estate \<Rightarrow> string list" where
  "accepted_members owner es =
     map am_Member (filter (\<lambda>m. am_Owner m = owner \<and> \<not> am_Pending m) (tb_Members (es_Tables es)))"

definition DeleteAllForOwner :: "string \<Rightarrow> time \<Rightarrow> estate \<Rightarrow> estate" where
  "DeleteAllForOwner owner now es =
     es\<lparr>es_Applied := filter (\<lambda>a. al_PermitID a \<notin> set (permit_ids owner es)) (es_Applied es),
        es_Notified := (\<lambda>pid. if pid \<in> set (permit_ids owner es) then None else es_Notified es pid),
        es_Tables := erase_tables owner now (es_Tables es),
        es_Sessions := filter (\<lambda>r. ts_Owner r \<noteq> owner) (es_Sessions es),
        es_Prefs := filter (\<lambda>n. \<not> (np_Owner n = owner \<or> np_Owner n \<in> set (accepted_members owner es))) (es_Prefs es),
        es_Consents := filter (\<lambda>c. co_Owner c \<noteq> owner) (es_Consents es),
        es_Milestones := filter (\<lambda>m. fst m \<noteq> owner) (es_Milestones es),
        es_Flags := (es_Flags es)(owner := None),
        es_Selected := (es_Selected es)(owner := None),
        es_Outbox := filter (\<lambda>r. \<not> (ob_Status r = RowPending \<and> ob_Recipients r = owner))
                       (filter (\<lambda>r. ob_Account r \<noteq> owner) (es_Outbox es)),
        es_Log := erase_log owner (es_Log es),
        es_Referrals := map (\<lambda>r. if rf_Recipient r = owner then r\<lparr>rf_Recipient := []\<rparr> else r)
                          (filter (\<lambda>r. rf_Owner r \<noteq> owner) (es_Referrals es)),
        es_Suppressed := filter (\<lambda>x. sp_Address x \<noteq> owner) (es_Suppressed es),
        es_TenantCache := (es_TenantCache es)(owner := None),
        es_TenantEpoch := es_TenantEpoch es + 1\<rparr>"

section \<open>The operator's view\<close>

record admin_account =
  aa_Owner :: string
  aa_MemberOf :: string
  aa_InvitedBy :: string
  aa_Linked :: bool
  aa_LinkedAt :: time
  aa_LastActive :: time
  aa_WarmedAt :: time
  aa_TokenExpiry :: time
  aa_EmailEnabled :: bool
  aa_NtfyEnabled :: bool
  aa_NtfyTopic :: string
  aa_ConsentVersion :: string
  aa_PermitCount :: nat
  aa_MemberCount :: nat
  aa_Plates :: "string list"
  aa_LastApplyAt :: time
  aa_LastApplyStatus :: string
  aa_ApplyOK :: nat
  aa_MaxFailStreak :: int

definition known_owners :: "estate \<Rightarrow> string list" where
  "known_owners es = sort (remdups (map ts_Owner (es_Sessions es) @ map p_Owner (tb_Permits (es_Tables es))
     @ map co_Owner (es_Consents es) @ map np_Owner (es_Prefs es)))"

text \<open>
  A session's clocks are the zero time where the column is empty; the sessions of an owner are
  folded to the latest of each clock and the earliest expiry that is set.
\<close>

definition latest_of :: "(tenant_session \<Rightarrow> time) \<Rightarrow> tenant_session list \<Rightarrow> time" where
  "latest_of f rs = fold (max \<circ> f) rs zero_time"

definition earliest_expiry :: "tenant_session list \<Rightarrow> time" where
  "earliest_expiry rs = (case filter (\<lambda>t. \<not> is_zero t) (map ts_TokenExpiry rs) of
       [] \<Rightarrow> zero_time | t # ts \<Rightarrow> fold min ts t)"

definition log_of :: "string \<Rightarrow> estate \<Rightarrow> applied_row list" where
  "log_of owner es = filter (\<lambda>a. list_ex (\<lambda>p. p_ID p = al_PermitID a \<and> p_Owner p = owner)
     (tb_Permits (es_Tables es))) (es_Applied es)"

definition membership :: "bool \<Rightarrow> string \<Rightarrow> estate \<Rightarrow> string" where
  "membership pending email es =
     (case find (\<lambda>m. am_Member m = email \<and> am_Pending m = pending) (tb_Members (es_Tables es)) of
        None \<Rightarrow> [] | Some m \<Rightarrow> am_Owner m)"

definition admin_account_of :: "estate \<Rightarrow> string \<Rightarrow> admin_account" where
  "admin_account_of es w =
     (let rs = filter (\<lambda>r. ts_Owner r = w) (es_Sessions es);
          ps = filter (\<lambda>p. p_Owner p = w) (tb_Permits (es_Tables es));
          pref = find (\<lambda>n. np_Owner n = w) (es_Prefs es);
          lg = log_of w es
      in \<lparr>aa_Owner = w,
          aa_MemberOf = membership False w es,
          aa_InvitedBy = membership True w es,
          aa_Linked = list_ex (\<lambda>r. ts_Cookie r \<noteq> []) rs,
          aa_LinkedAt = latest_of ts_LinkedAt rs,
          aa_LastActive = latest_of ts_LastActive rs,
          aa_WarmedAt = latest_of ts_UpdatedAt rs,
          aa_TokenExpiry = earliest_expiry rs,
          aa_EmailEnabled = (case pref of None \<Rightarrow> True | Some n \<Rightarrow> np_EmailEnabled n),
          aa_NtfyEnabled = (case pref of None \<Rightarrow> False | Some n \<Rightarrow> np_NtfyEnabled n),
          aa_NtfyTopic = (case pref of None \<Rightarrow> [] | Some n \<Rightarrow> np_NtfyTopic n),
          aa_ConsentVersion = (case LatestConsent w es of None \<Rightarrow> [] | Some c \<Rightarrow> co_Version c),
          aa_PermitCount = length ps,
          aa_MemberCount = length (accepted_members w es),
          aa_Plates = map p_ActiveRegistration (sort_key p_ID (filter (\<lambda>p. p_ActiveRegistration p \<noteq> []) ps)),
          aa_LastApplyAt = (if lg = [] then zero_time else al_At (List.last lg)),
          aa_LastApplyStatus = (if lg = [] then [] else ar_Status (List.last lg)),
          aa_ApplyOK = length (filter (\<lambda>a. ar_Status a = ''success'') lg),
          aa_MaxFailStreak = fold (\<lambda>p. max (es_FailStreak es (p_ID p))) ps 0\<rparr>)"

definition AdminAccounts :: "estate \<Rightarrow> admin_account list" where
  "AdminAccounts es = map (admin_account_of es) (known_owners es)"

definition NotifyRoster :: "estate \<Rightarrow> (string \<times> string) list" where
  "NotifyRoster es =
     map (\<lambda>w. (w, case find (\<lambda>n. np_Owner n = w) (es_Prefs es) of
                    None \<Rightarrow> [] | Some n \<Rightarrow> if np_NtfyEnabled n then np_NtfyTopic n else []))
       (sort (filter (\<lambda>w. owns_a_permit w es) (remdups (map co_Owner (es_Consents es)))))"

end
