(* ===== verification/Erasure.thy ===== *)
theory Erasure
  imports Accounts Authority
begin

text \<open>
  What leaving means: the erasure of an account leaves nothing that names it, spares every other
  household, and removes one name, not a row, from their logs; withdrawing an unanswered offer
  touches the offer only; a removed member is told nothing more by the household.
\<close>

section \<open>Lists of recipients\<close>

lemma split_list_not_Nil [simp]: "split_list s \<noteq> []"
  by (induction s rule: split_list.induct) (auto split: list.split)







section \<open>Comparing addresses\<close>

text \<open>An address as the application stores it: ASCII, with an \<open>@\<close> and without spaces.\<close>

definition mailbox :: "string \<Rightarrow> bool" where
  "mailbox a \<longleftrightarrow> list_ex (\<lambda>c. c = CHR ''@'') a \<and> list_all (\<lambda>c. cp c < 128 \<and> \<not> is_space c) a"











section \<open>What an erasure leaves\<close>












text \<open>The rows an erasure leaves come from rows that were there, one update each.\<close>

lemma drop_frames:
  "tb_Permits (drop_grants P tb) = tb_Permits tb" "tb_Members (drop_grants P tb) = tb_Members tb"
  "tb_GuestsEnabled (drop_grants P tb) = tb_GuestsEnabled tb" "tb_Vehicles (drop_grants P tb) = tb_Vehicles tb"
  "tb_Overrides (drop_grants P tb) = tb_Overrides tb" "tb_Rules (drop_grants P tb) = tb_Rules tb"
  "tb_Permits (drop_vehicles V tb) = tb_Permits tb" "tb_Members (drop_vehicles V tb) = tb_Members tb"
  "tb_GuestsEnabled (drop_vehicles V tb) = tb_GuestsEnabled tb" "tb_Grants (drop_vehicles V tb) = tb_Grants tb"
  "tb_Tokens (drop_vehicles V tb) = tb_Tokens tb" "tb_Requests (drop_vehicles V tb) = tb_Requests tb"
  "tb_Members (drop_permits Q tb) = tb_Members tb" "tb_GuestsEnabled (drop_permits Q tb) = tb_GuestsEnabled tb"
  "tb_Vehicles (drop_permits Q tb) = tb_Vehicles tb"
  "tb_Requests (sweepLiveGuestOverrides now tids tb) = tb_Requests tb"
  "tb_Members (sweepLiveGuestOverrides now tids tb) = tb_Members tb"
  "tb_GuestsEnabled (sweepLiveGuestOverrides now tids tb) = tb_GuestsEnabled tb"
  "tb_Vehicles (sweepLiveGuestOverrides now tids tb) = tb_Vehicles tb"
  "tb_Rules (sweepLiveGuestOverrides now tids tb) = tb_Rules tb"
  by (simp_all add: drop_grants_def drop_vehicles_def drop_permits_def drop_rules_def drop_overrides_def
    sweepLiveGuestOverrides_def Let_def)
















section \<open>What an erasure spares\<close>










section \<open>Leaving a household\<close>

text \<open>What the household still has for a person: their access, their preferences, messages in the
  queue, links they minted.\<close>

definition still_reaches :: "string \<Rightarrow> string \<Rightarrow> string \<Rightarrow> estate \<Rightarrow> bool" where
  "still_reaches owner m topic es \<longleftrightarrow>
     list_ex (\<lambda>a. am_Member a = m \<and> am_Owner a = owner) (tb_Members (es_Tables es))
   \<or> list_ex (\<lambda>n. np_Owner n = m) (es_Prefs es)
   \<or> list_ex (\<lambda>r. ob_Status r = RowPending \<and> (ob_Account r = owner \<and> ob_Recipients r = m
        \<or> topic \<noteq> [] \<and> ob_NtfyTopic r = topic)) (es_Outbox es)
   \<or> list_ex (\<lambda>g. g_Owner g = owner \<and> g_CreatedBy g = m) (tb_Grants (es_Tables es))"

definition topic_of :: "string \<Rightarrow> estate \<Rightarrow> string" where
  "topic_of m es = (case find (\<lambda>n. np_Owner n = m) (es_Prefs es) of None \<Rightarrow> [] | Some n \<Rightarrow> np_NtfyTopic n)"

lemma teardown:
  assumes "m \<noteq> []"
    and "revoke_foothold owner m now (drop_prefs m (dropQueuedPush m
           (on_tables (drop_members P) es))) = (n, es')"
  shows "tb_Members (es_Tables es') = filter (\<lambda>a. \<not> P a) (tb_Members (es_Tables es))"
    and "es_Prefs es' = filter (\<lambda>n. np_Owner n \<noteq> m) (es_Prefs es)"
    and "es_Outbox es' = filter (\<lambda>r. \<not> (ob_Status r = RowPending \<and> (ob_Account r = owner \<and> ob_Recipients r = m
        \<or> topic_of m es \<noteq> [] \<and> ob_NtfyTopic r = topic_of m es))) (es_Outbox es)"
    and "tb_Grants (es_Tables es') = filter (\<lambda>g. \<not> minted_by owner m g) (tb_Grants (es_Tables es))"
    and "es_Sessions es' = es_Sessions es" and "es_Log es' = es_Log es" and "es_Flags es' = es_Flags es"
    and "es_Consents es' = es_Consents es" and "es_Suppressed es' = es_Suppressed es"
proof -
  obtain k tb where k: "revokeGrantsBy owner m now (drop_members P (es_Tables es)) = (k, tb)" by force
  have es': "es' = (dropQueuedPush m (on_tables (drop_members P) es))\<lparr>es_Tables := tb,
      es_Prefs := filter (\<lambda>n. np_Owner n \<noteq> m) (es_Prefs es),
      es_Outbox := filter (\<lambda>r. \<not> (ob_Status r = RowPending \<and> ob_Recipients r = m \<and> ob_Account r = owner))
        (es_Outbox (dropQueuedPush m (on_tables (drop_members P) es)))\<rparr>"
    using assms k
    by (auto simp: revoke_foothold_def drop_prefs_def dropQueuedPush_def on_tables_def split: option.splits if_splits)
  have tb: "tb = drop_grants (minted_by owner m) (sweepLiveGuestOverrides now
      (tokens_where (minted_by owner m) (drop_members P (es_Tables es))) (drop_members P (es_Tables es)))"
    using k assms(1) by (auto simp: revokeGrantsBy_def Let_def)
  show "tb_Members (es_Tables es') = filter (\<lambda>a. \<not> P a) (tb_Members (es_Tables es))"
    using es' tb by (simp add: drop_frames drop_members_def)
  show "tb_Grants (es_Tables es') = filter (\<lambda>g. \<not> minted_by owner m g) (tb_Grants (es_Tables es))"
    using es' tb by (simp add: drop_grants_def drop_members_def Let_def)
  show "es_Prefs es' = filter (\<lambda>n. np_Owner n \<noteq> m) (es_Prefs es)" using es' by simp
  show "es_Outbox es' = filter (\<lambda>r. \<not> (ob_Status r = RowPending \<and> (ob_Account r = owner \<and> ob_Recipients r = m
        \<or> topic_of m es \<noteq> [] \<and> ob_NtfyTopic r = topic_of m es))) (es_Outbox es)"
    using es' by (auto simp: dropQueuedPush_def on_tables_def topic_of_def split: option.splits intro: filter_cong)
  show "es_Sessions es' = es_Sessions es" and "es_Log es' = es_Log es" and "es_Flags es' = es_Flags es"
    and "es_Consents es' = es_Consents es" and "es_Suppressed es' = es_Suppressed es"
    using es' by (simp_all add: dropQueuedPush_def on_tables_def split: option.splits)
qed

text \<open>removing a person reaches exactly as far as their access did. An unanswered offer is withdrawn
  and nothing else in the estate changes, whoever was invited: no preference, no queued message, no
  session. A member is left without access, preferences, links or queued messages of the household,
  mail and push alike; what other people have, and what other households queued to that address,
  stays.\<close>

theorem removal_reaches_as_far_as_the_access:
  assumes "RemoveMember owner m now es = Inr ((n, active), es')" and "m \<noteq> []"
  shows "if active
    then list_ex (\<lambda>a. am_Member a = m \<and> am_Owner a = owner \<and> \<not> am_Pending a) (tb_Members (es_Tables es))
       \<and> \<not> still_reaches owner m (topic_of m es) es'
       \<and> filter (\<lambda>w. np_Owner w \<noteq> m) (es_Prefs es') = filter (\<lambda>w. np_Owner w \<noteq> m) (es_Prefs es)
       \<and> filter (\<lambda>r. ob_Account r \<noteq> owner \<and> ob_NtfyTopic r \<noteq> topic_of m es) (es_Outbox es')
         = filter (\<lambda>r. ob_Account r \<noteq> owner \<and> ob_NtfyTopic r \<noteq> topic_of m es) (es_Outbox es)
       \<and> es_Sessions es' = es_Sessions es \<and> es_Log es' = es_Log es
    else n = 0
       \<and> list_ex (\<lambda>a. am_Member a = m \<and> am_Owner a = owner \<and> am_Pending a) (tb_Members (es_Tables es))
       \<and> es' = es\<lparr>es_Tables := (es_Tables es)\<lparr>tb_Members :=
           filter (\<lambda>a. \<not> (am_Member a = m \<and> am_Owner a = owner)) (tb_Members (es_Tables es))\<rparr>\<rparr>"
proof -
  let ?P = "\<lambda>a. am_Member a = m \<and> am_Owner a = owner"
  obtain a where a: "find ?P (tb_Members (es_Tables es)) = Some a"
    using assms(1) by (cases "find ?P (tb_Members (es_Tables es))") (simp_all add: RemoveMember_def)
  then have here: "a \<in> set (tb_Members (es_Tables es))" "?P a" by (auto simp: find_Some_iff)
  show ?thesis
  proof (cases "am_Pending a")
    case True
    then show ?thesis using assms(1) a here
      by (auto simp: RemoveMember_def Let_def on_tables_def drop_members_def list_ex_iff)
  next
    case False
    obtain k es2 where k: "revoke_foothold owner m now (drop_prefs m (dropQueuedPush m
        (on_tables (drop_members ?P) es))) = (k, es2)" by force
    then have "active" "es' = es2" using assms(1) a False by (auto simp: RemoveMember_def Let_def)
    note t = teardown [OF assms(2) k, folded \<open>es' = es2\<close>]
    have "\<not> still_reaches owner m (topic_of m es) es'"
      by (auto simp: still_reaches_def t(1-4) list_ex_iff minted_by_def)
    moreover have "list_ex (\<lambda>a. ?P a \<and> \<not> am_Pending a) (tb_Members (es_Tables es))"
      using here False by (auto simp: list_ex_iff)
    moreover have "filter (\<lambda>r. ob_Account r \<noteq> owner \<and> ob_NtfyTopic r \<noteq> topic_of m es) (es_Outbox es')
         = filter (\<lambda>r. ob_Account r \<noteq> owner \<and> ob_NtfyTopic r \<noteq> topic_of m es) (es_Outbox es)"
      unfolding t(3) by (auto intro: filter_cong)
    ultimately show ?thesis using \<open>active\<close> by (simp add: t(2,5,6))
  qed
qed

section \<open>Instances\<close>

definition w_amy :: string where "w_amy = ''amy@x''"
definition w_bob :: string where "w_bob = ''bob@x''"
definition w_zoe :: string where "w_zoe = ''zoe@x''"

text \<open>Bob shares Amy's household, Zoe has another one that knows Amy.\<close>

definition w_home :: tables where
  "w_home = (case run_calls 0
     [Schedule (DoUpsertPermit w_amy ''yarra'' ''c1'' ''A'' ''Home''),
      Schedule (DoUpsertPermit w_zoe ''yarra'' ''c2'' ''A'' ''Home''),
      House (DoCreateVehicle w_zoe ''ZZZ111'' ''Car'' w_amy),
      House (DoAddMember w_amy w_bob 2), House (DoAcceptInvite False w_bob w_amy),
      Pass (DoCreateGuestGrant w_amy w_bob 1 ''Nanny'' True [] [(''nan'', ''h1'')]),
      Pass (DoCreateGuestGrant w_zoe w_zoe 2 ''Key'' True [] [(w_amy, ''h2'')]),
      Schedule (DoBook \<lparr>bk_PermitID = 2, bk_VehicleID = 0, bk_Registration = ''VIS1'', bk_State = [],
         bk_StartsAt = 0, bk_EndsAt = Some (9 * hour), bk_CreatedBy = w_amy\<rparr> False)] empty_tables of
     None \<Rightarrow> empty_tables | Some tb \<Rightarrow> tb)"

definition w_queued :: "string \<Rightarrow> string \<Rightarrow> string \<Rightarrow> outbox_row" where
  "w_queued account recipients topic = \<lparr>ob_ID = 1, ob_Account = account, ob_DedupKey = [],
     ob_Recipients = recipients, ob_NtfyTopic = topic, ob_NtfyPriority = [], ob_NtfyTag = [],
     ob_Subject = ''s'', ob_Body = ''b'', ob_Status = RowPending, ob_Attempts = 0, ob_NextAttempt = 0,
     ob_LastError = [], ob_CreatedAt = 0, ob_SentAt = None, ob_Reason = [], ob_Critical = False,
     ob_HeroPlate = [], ob_HeroColor = [], ob_HeroCaption = []\<rparr>"

definition w_pref :: "string \<Rightarrow> string \<Rightarrow> notify_pref" where
  "w_pref owner topic = \<lparr>np_Owner = owner, np_EmailEnabled = True, np_NtfyEnabled = True,
     np_NtfyTopic = topic, np_FailuresOnly = False, np_QuietFrom = 22, np_QuietUntil = 6,
     np_NtfyConfirmedAt = None\<rparr>"

definition w_log :: "change list" where
  "w_log = [\<lparr>ch_Owner = w_zoe, ch_Actor = w_zoe, ch_Action = ''guest.create'',
     ch_Target = ''AMY@x, xamy@x, kim@x'', ch_Detail = [], ch_At = 0\<rparr>]"

definition w_estate :: estate where
  "w_estate = \<lparr>es_Tables = w_home, es_Sessions = [], es_Selected = [w_amy \<mapsto> ''yarra''],
     es_TenantCache = Map.empty, es_TenantEpoch = 0, es_Applied = [], es_Notified = Map.empty,
     es_FailStreak = (\<lambda>_. 0), es_Prefs = [w_pref w_amy ''ta'', w_pref w_bob ''tb'', w_pref w_zoe ''tz''],
     es_Consents = [], es_Milestones = [], es_Flags = Map.empty,
     es_Outbox = [w_queued w_amy w_bob [], w_queued w_amy [] ''tb'', w_queued w_zoe w_amy [], w_queued w_zoe w_bob []],
     es_Log = w_log, es_Referrals = [], es_Suppressed = []\<rparr>"

lemma w_names: "mailbox w_amy" "w_zoe \<noteq> w_amy" "w_bob \<noteq> []" "w_zoe \<notin> set (accepted_members w_amy w_estate)"
  by code_simp+



definition w_after :: estate where
  "w_after = (case RemoveMember w_amy w_bob 0 w_estate of Inl e \<Rightarrow> w_estate | Inr ((n, b), es') \<Rightarrow> es')"

lemma w_removed: "RemoveMember w_amy w_bob 0 w_estate = Inr ((1, True), w_after)"
proof -
  have "(case RemoveMember w_amy w_bob 0 w_estate of Inl e \<Rightarrow> False | Inr ((n, b), es') \<Rightarrow> n = 1 \<and> b)"
    by code_simp
  then show ?thesis by (auto simp: w_after_def split: sum.splits prod.splits)
qed

theorem removal_reaches_as_far_as_the_access_witness:
  "still_reaches w_amy w_bob (topic_of w_bob w_estate) w_estate
    \<and> \<not> still_reaches w_amy w_bob (topic_of w_bob w_estate) w_after
    \<and> length (es_Outbox w_after) = 2"
proof -
  have "still_reaches w_amy w_bob (topic_of w_bob w_estate) w_estate" by code_simp
  moreover have "length (es_Outbox w_after) = 2" by code_simp
  ultimately show ?thesis using removal_reaches_as_far_as_the_access [OF w_removed w_names(3)] by simp
qed

end
