(* ===== verification/Mailbox.thy ===== *)
theory Mailbox
  imports Accounts "HOL-Library.Multiset"
begin

text \<open>
  The operator's mailbox and the contact form (internal/store/mail.go, contact.go): messages in
  threads, redelivery, what is still waiting for an answer, retention. The rows of a table are
  listed in the order of their identifiers.
\<close>

section \<open>Messages\<close>

record mail_message =
  mm_ID :: int
  mm_ThreadID :: int
  mm_Inbound :: bool
  mm_SESMessageID :: string
  mm_FromAddr :: string
  mm_FromName :: string
  mm_ToAddr :: string
  mm_Subject :: string
  mm_Body :: string
  mm_MessageID :: string
  mm_References :: "string list"
  mm_Verdict :: string
  mm_Flagged :: bool
  mm_Truncated :: bool
  mm_At :: time

record contact_message =
  cm_ID :: int
  cm_Message :: string
  cm_ReplyTo :: string
  cm_ReceivedAt :: time

record mailbox_rows =
  mb_Mail :: "mail_message list"
  mb_LastMail :: int
  mb_Contact :: "contact_message list"
  mb_LastContact :: int

definition empty_mailbox :: mailbox_rows where
  "empty_mailbox = \<lparr>mb_Mail = [], mb_LastMail = 0, mb_Contact = [], mb_LastContact = 0\<rparr>"

definition MailRetention :: dur where "MailRetention = 180 * 24 * hour"
definition ContactMessageRetention :: dur where "ContactMessageRetention = 180 * 24 * hour"

text \<open>
  The thread of a message without one of its own: that of the first stored message that one of its
  threading headers names, \<open>In-Reply-To\<close> before the references from the newest to the oldest.
\<close>

definition thread_named :: "mailbox_rows \<Rightarrow> string \<Rightarrow> int option" where
  "thread_named mb ref = (if ref = [] then None
     else map_option mm_ThreadID (find (\<lambda>m. mm_MessageID m = ref) (mb_Mail mb)))"

definition thread_for :: "mailbox_rows \<Rightarrow> mail_message \<Rightarrow> string \<Rightarrow> int" where
  "thread_for mb m inReplyTo =
     (if mm_ThreadID m \<noteq> 0 then mm_ThreadID m
      else (case List.map_filter (thread_named mb) (inReplyTo # rev (mm_References m)) of
              [] \<Rightarrow> 0 | t # _ \<Rightarrow> t))"

text \<open>A message is read back with the fields of its stored text of references.\<close>

definition AddMail :: "mail_message \<Rightarrow> string \<Rightarrow> time \<Rightarrow> mailbox_rows \<Rightarrow> ((int \<times> int) \<times> mailbox_rows) outcome" where
  "AddMail m inReplyTo now mb =
     (if mm_SESMessageID m \<noteq> [] \<and> list_ex (\<lambda>x. mm_SESMessageID x = mm_SESMessageID m) (mb_Mail mb)
      then Inl Duplicate
      else (let rid = mb_LastMail mb + 1; found = thread_for mb m inReplyTo;
                thread = (if found = 0 then rid else found)
            in Inr ((rid, thread),
                 mb\<lparr>mb_Mail := mb_Mail mb @ [m\<lparr>mm_ID := rid, mm_ThreadID := thread,
                      mm_References := str_fields (join_with '' '' (mm_References m)), mm_At := nowUTC now\<rparr>],
                    mb_LastMail := rid\<rparr>)))"

definition of_thread :: "mailbox_rows \<Rightarrow> int \<Rightarrow> mail_message list" where
  "of_thread mb t = filter (\<lambda>m. mm_ThreadID m = t) (mb_Mail mb)"

definition latest_id :: "mailbox_rows \<Rightarrow> int \<Rightarrow> int" where
  "latest_id mb t = fold (max \<circ> mm_ID) (of_thread mb t) 0"

definition threads_by_activity :: "mailbox_rows \<Rightarrow> int list" where
  "threads_by_activity mb = sort_key (\<lambda>t. - latest_id mb t) (remdups (map mm_ThreadID (mb_Mail mb)))"

definition MailThreads :: "nat \<Rightarrow> mailbox_rows \<Rightarrow> mail_message list list" where
  "MailThreads limit mb = map (of_thread mb) (take limit (threads_by_activity mb))"

definition MailByID :: "int \<Rightarrow> mailbox_rows \<Rightarrow> mail_message option" where
  "MailByID i mb = find (\<lambda>m. mm_ID m = i) (mb_Mail mb)"

definition UnansweredMail :: "mailbox_rows \<Rightarrow> nat" where
  "UnansweredMail mb = length (filter (\<lambda>m. mm_ID m = latest_id mb (mm_ThreadID m)
     \<and> mm_Inbound m \<and> \<not> mm_Flagged m) (mb_Mail mb))"

definition PruneMail :: "time \<Rightarrow> mailbox_rows \<Rightarrow> mailbox_rows" where
  "PruneMail before mb = mb\<lparr>mb_Mail := filter (\<lambda>m. \<not> mm_At m < whole_seconds before) (mb_Mail mb)\<rparr>"

definition AddContactMessage :: "string \<Rightarrow> string \<Rightarrow> time \<Rightarrow> mailbox_rows \<Rightarrow> int \<times> mailbox_rows" where
  "AddContactMessage msg replyTo now mb =
     (let rid = mb_LastContact mb + 1
      in (rid, mb\<lparr>mb_Contact := mb_Contact mb @ [\<lparr>cm_ID = rid, cm_Message = msg, cm_ReplyTo = replyTo,
            cm_ReceivedAt = nowUTC now\<rparr>], mb_LastContact := rid\<rparr>))"

definition ListContactMessages :: "nat \<Rightarrow> mailbox_rows \<Rightarrow> contact_message list" where
  "ListContactMessages limit mb = take limit (rev (mb_Contact mb))"

definition PruneContactMessages :: "time \<Rightarrow> mailbox_rows \<Rightarrow> mailbox_rows" where
  "PruneContactMessages before mb =
     mb\<lparr>mb_Contact := filter (\<lambda>c. \<not> cm_ReceivedAt c < whole_seconds before) (mb_Contact mb)\<rparr>"

section \<open>The rows in order\<close>

definition mail_ok :: "mailbox_rows \<Rightarrow> bool" where
  "mail_ok mb \<longleftrightarrow> sorted_wrt (<) (map mm_ID (mb_Mail mb))
     \<and> (\<forall>m \<in> set (mb_Mail mb). 0 < mm_ID m \<and> mm_ID m \<le> mb_LastMail mb \<and> mm_ThreadID m \<noteq> 0)
     \<and> 0 \<le> mb_LastMail mb
     \<and> distinct (filter (\<lambda>x. x \<noteq> []) (map mm_SESMessageID (mb_Mail mb)))"

inductive mail_reach :: "mailbox_rows \<Rightarrow> bool" where
  start: "mail_reach empty_mailbox"
| add: "mail_reach mb \<Longrightarrow> AddMail m ref now mb = Inr (r, mb') \<Longrightarrow> mail_reach mb'"
| prune: "mail_reach mb \<Longrightarrow> mail_reach (PruneMail before mb)"

lemma sorted_filter_map:
  fixes f :: "'a \<Rightarrow> 'b::linorder"
  shows "sorted_wrt (<) (map f xs) \<Longrightarrow> sorted_wrt (<) (map f (filter P xs))"
  by (induction xs) auto

lemma mail_ok_add:
  assumes "mail_ok mb" and "AddMail m ref now mb = Inr (r, mb')" shows "mail_ok mb'"
  using assms by (force simp: mail_ok_def AddMail_def Let_def sorted_wrt_append list_ex_iff split: if_splits)

lemma distinct_filter_map: "distinct (filter Q (map f xs)) \<Longrightarrow> distinct (filter Q (map f (filter P xs)))"
proof -
  assume "distinct (filter Q (map f xs))"
  then have "distinct (map f (filter P (filter (Q \<circ> f) xs)))"
    unfolding filter_map by (rule distinct_map_filter)
  moreover have "filter Q (map f (filter P xs)) = map f (filter P (filter (Q \<circ> f) xs))"
    unfolding filter_map filter_filter comp_def by (metis (no_types, lifting))
  ultimately show ?thesis by simp
qed

lemma mail_ok_prune: "mail_ok mb \<Longrightarrow> mail_ok (PruneMail before mb)"
  unfolding mail_ok_def PruneMail_def by (auto intro: sorted_filter_map distinct_filter_map)

lemma mail_reach_ok: "mail_reach mb \<Longrightarrow> mail_ok mb"
  by (induction rule: mail_reach.induct)
    (auto simp: mail_ok_add mail_ok_prune, simp add: mail_ok_def empty_mailbox_def)

section \<open>What the operator sees\<close>

lemma fold_max_last:
  fixes f :: "'a \<Rightarrow> int"
  assumes "sorted_wrt (<) (map f xs)" and "\<forall>x \<in> set xs. a \<le> f x"
  shows "fold (max \<circ> f) xs a = (if xs = [] then a else f (List.last xs))"
  using assms
proof (induction xs arbitrary: a)
  case (Cons x xs)
  have "max (f x) a = f x" using Cons.prems(2) by simp
  moreover have "fold (max \<circ> f) xs (f x) = (if xs = [] then f x else f (List.last xs))"
    by (rule Cons.IH) (use Cons.prems(1) in \<open>auto intro: less_imp_le\<close>)
  ultimately show ?case by (simp add: comp_def)
qed simp

lemma of_thread_sorted: "mail_ok mb \<Longrightarrow> sorted_wrt (<) (map mm_ID (of_thread mb t))"
  by (simp add: mail_ok_def of_thread_def sorted_filter_map)

lemma latest_id_last:
  assumes "mail_ok mb" and "of_thread mb t \<noteq> []"
  shows "latest_id mb t = mm_ID (List.last (of_thread mb t))"
proof -
  have "\<forall>m \<in> set (of_thread mb t). 0 \<le> mm_ID m" using assms(1) by (auto simp: mail_ok_def of_thread_def intro: less_imp_le)
  from fold_max_last [OF of_thread_sorted [OF assms(1)] this] assms(2) show ?thesis by (simp add: latest_id_def)
qed

lemma mail_ids: "mail_ok mb \<Longrightarrow> distinct (map mm_ID (mb_Mail mb))"
  by (metis mail_ok_def strict_sorted_iff)

lemma mset_filter_disjoint:
  "(\<And>x. \<not> (P x \<and> Q x)) \<Longrightarrow> mset (filter P xs) + mset (filter Q xs) = mset (filter (\<lambda>x. P x \<or> Q x) xs)"
  by (induction xs) auto

lemma mset_of_groups:
  "distinct ts \<Longrightarrow> mset (concat (map (\<lambda>t. filter (\<lambda>x. key x = t) xs) ts)) = mset (filter (\<lambda>x. key x \<in> set ts) xs)"
proof (induction ts)
  case (Cons t ts)
  then have "mset (concat (map (\<lambda>t. filter (\<lambda>x. key x = t) xs) (t # ts)))
      = mset (filter (\<lambda>x. key x = t) xs) + mset (filter (\<lambda>x. key x \<in> set ts) xs)" by simp
  also have "\<dots> = mset (filter (\<lambda>x. key x = t \<or> key x \<in> set ts) xs)"
    by (rule mset_filter_disjoint) (use Cons.prems in auto)
  finally show ?case by simp
qed simp

lemma latest_iff_last:
  assumes "mail_ok mb" and "m \<in> set (mb_Mail mb)"
  shows "mm_ID m = latest_id mb (mm_ThreadID m) \<longleftrightarrow> m = List.last (of_thread mb (mm_ThreadID m))"
proof -
  have ne: "of_thread mb (mm_ThreadID m) \<noteq> []" using assms(2) by (auto simp: of_thread_def filter_empty_conv)
  then have "List.last (of_thread mb (mm_ThreadID m)) \<in> set (mb_Mail mb)"
    using last_in_set [OF ne] by (simp add: of_thread_def)
  then show ?thesis using latest_id_last [OF assms(1) ne] mail_ids [OF assms(1)] assms(2)
    by (metis distinct_map inj_onD)
qed

lemma card_filter: "distinct xs \<Longrightarrow> card {x \<in> set xs. Q x} = length (filter Q xs)"
  using distinct_card [OF distinct_filter, of xs Q] by (simp only: set_filter)

lemma find_SomeD: "find P xs = Some x \<Longrightarrow> x \<in> set xs \<and> P x" by (auto simp: find_Some_iff)

lemma find_key: "x \<in> set xs \<Longrightarrow> distinct (map f xs) \<Longrightarrow> find (\<lambda>y. f y = f x) xs = Some x"
  by (induction xs) force+

text \<open>the count of conversations waiting for the operator is right: it is the number of the threads
  shown that end in a message from outside that is not flagged, and every thread is shown once, with
  its messages in the order they came and the thread with the newest message first.\<close>

theorem unanswered_counts_the_threads_shown:
  assumes "mail_reach mb"
  shows "UnansweredMail mb = length (filter (\<lambda>th. mm_Inbound (List.last th) \<and> \<not> mm_Flagged (List.last th))
        (MailThreads (length (mb_Mail mb)) mb))
    \<and> mset (concat (MailThreads (length (mb_Mail mb)) mb)) = mset (mb_Mail mb)
    \<and> (\<forall>n. \<forall>th \<in> set (MailThreads n mb). th \<noteq> [] \<and> sorted_wrt (<) (map mm_ID th))
    \<and> (\<forall>n. sorted_wrt (\<ge>) (map (\<lambda>th. mm_ID (List.last th)) (MailThreads n mb)))"
proof -
  note ok = mail_reach_ok [OF assms]
  let ?ts = "threads_by_activity mb" and ?last = "\<lambda>t. List.last (of_thread mb t)"
  have ts: "set ?ts = mm_ThreadID ` set (mb_Mail mb)" "distinct ?ts"
    by (simp_all add: threads_by_activity_def)
  have ne: "of_thread mb t \<noteq> []" if "t \<in> set ?ts" for t
    using that ts(1) by (auto simp: of_thread_def filter_empty_conv)
  have all: "MailThreads (length (mb_Mail mb)) mb = map (of_thread mb) ?ts"
  proof -
    have "length ?ts \<le> length (mb_Mail mb)"
      using length_remdups_leq [of "map mm_ThreadID (mb_Mail mb)"] by (simp add: threads_by_activity_def)
    then show ?thesis by (simp add: MailThreads_def)
  qed
  have in_t: "mm_ThreadID (?last t) = t \<and> ?last t \<in> set (mb_Mail mb)" if "t \<in> set ?ts" for t
    using last_in_set [OF ne [OF that]] by (simp add: of_thread_def)
  have inj: "inj_on ?last (set ?ts)"
  proof (rule inj_onI)
    fix s t assume "s \<in> set ?ts" "t \<in> set ?ts" "?last s = ?last t"
    then show "s = t" using in_t [of s] in_t [of t] by metis
  qed
  let ?P = "\<lambda>m. mm_ID m = latest_id mb (mm_ThreadID m) \<and> mm_Inbound m \<and> \<not> mm_Flagged m"
  have "set (filter ?P (mb_Mail mb)) = ?last ` {t \<in> set ?ts. mm_Inbound (?last t) \<and> \<not> mm_Flagged (?last t)}"
    (is "?S = ?last ` ?T")
  proof (intro set_eqI iffI)
    fix m assume "m \<in> ?S"
    then have m: "m \<in> set (mb_Mail mb)" "?P m" by auto
    then have last_m: "?last (mm_ThreadID m) = m" using latest_iff_last [OF ok m(1)] by simp
    have "mm_ThreadID m \<in> ?T" using m ts(1) by (simp add: last_m)
    with last_m [symmetric] show "m \<in> ?last ` ?T" by (rule image_eqI)
  next
    fix m assume "m \<in> ?last ` ?T"
    then obtain t where t: "t \<in> set ?ts" "m = ?last t" "mm_Inbound m" "\<not> mm_Flagged m" by auto
    then show "m \<in> ?S" using in_t [OF t(1)] latest_iff_last [OF ok, of m] by auto
  qed
  then have "card (set (filter ?P (mb_Mail mb))) = card {t \<in> set ?ts. mm_Inbound (?last t) \<and> \<not> mm_Flagged (?last t)}"
    using inj by (simp add: card_image inj_on_subset)
  moreover have "card (set (filter ?P (mb_Mail mb))) = UnansweredMail mb"
    unfolding UnansweredMail_def using mail_ids [OF ok] by (intro distinct_card) (simp add: distinct_map)
  moreover have "card {t \<in> set ?ts. mm_Inbound (?last t) \<and> \<not> mm_Flagged (?last t)}
      = length (filter (\<lambda>t. mm_Inbound (?last t) \<and> \<not> mm_Flagged (?last t)) ?ts)"
    by (rule card_filter [OF ts(2)])
  ultimately have "UnansweredMail mb = length (filter (\<lambda>th. mm_Inbound (List.last th) \<and> \<not> mm_Flagged (List.last th))
        (MailThreads (length (mb_Mail mb)) mb))"
    by (simp add: all filter_map comp_def)
  moreover have "mset (concat (MailThreads (length (mb_Mail mb)) mb)) = mset (mb_Mail mb)"
    using mset_of_groups [OF ts(2), of mm_ThreadID "mb_Mail mb"] ts(1) by (simp add: all of_thread_def [abs_def])
  moreover have "th \<noteq> [] \<and> sorted_wrt (<) (map mm_ID th)" if "th \<in> set (MailThreads n mb)" for n th
    using that ne of_thread_sorted [OF ok] by (auto simp: MailThreads_def dest: in_set_takeD)
  moreover have "sorted_wrt (\<ge>) (map (\<lambda>th. mm_ID (List.last th)) (MailThreads n mb))" for n
  proof -
    have "sorted (map (\<lambda>t. - latest_id mb t) ?ts)" by (simp add: threads_by_activity_def)
    then have "sorted (map (\<lambda>t. - latest_id mb t) (take n ?ts))" by (metis sorted_wrt_take take_map)
    moreover have "map (\<lambda>t. - latest_id mb t) (take n ?ts) = map (\<lambda>t. - mm_ID (?last t)) (take n ?ts)"
      using latest_id_last [OF ok] ne by (auto dest: in_set_takeD)
    ultimately show ?thesis by (simp add: MailThreads_def comp_def sorted_wrt_map)
  qed
  ultimately show ?thesis by blast
qed

text \<open>a message is stored once and in the right conversation: a redelivery is refused and changes
  nothing, a reply joins the thread of the message its \<open>In-Reply-To\<close> names, and a message that names
  none we hold starts a thread of its own.\<close>

theorem a_message_joins_its_conversation:
  assumes "mail_reach mb" and "AddMail m ref now mb = Inr ((i, t), mb')"
  shows "(mm_SESMessageID m = [] \<or> AddMail m ref' later' mb' = Inl Duplicate)
    \<and> (mm_ThreadID m \<noteq> 0 \<or> thread_named mb ref = None \<or> thread_named mb ref = Some t)
    \<and> (mm_ThreadID m \<noteq> 0 \<or> list_ex (\<lambda>r. thread_named mb r \<noteq> None) (ref # mm_References m) \<or> t = i)
    \<and> (mm_ThreadID m = 0 \<or> t = mm_ThreadID m)
    \<and> map_option mm_ThreadID (MailByID i mb') = Some t
    \<and> list_all (\<lambda>x. MailByID (mm_ID x) mb' = Some x) (mb_Mail mb)"
proof -
  note ok = mail_reach_ok [OF assms(1)]
  have ok': "mail_ok mb'" by (rule mail_ok_add [OF ok assms(2)])
  have i: "i = mb_LastMail mb + 1" and t: "t = (if thread_for mb m ref = 0 then i else thread_for mb m ref)"
    and mb': "mb_Mail mb' = mb_Mail mb @ [m\<lparr>mm_ID := i, mm_ThreadID := t,
       mm_References := str_fields (join_with '' '' (mm_References m)), mm_At := nowUTC now\<rparr>]"
    using assms(2) by (auto simp: AddMail_def Let_def split: if_splits)
  have nz: "thread_named mb r \<noteq> Some 0" for r
    using ok by (auto simp: thread_named_def mail_ok_def dest!: find_SomeD)
  have by_id: "MailByID (mm_ID x) mb' = Some x" if "x \<in> set (mb_Mail mb')" for x
    using that mail_ids [OF ok'] unfolding MailByID_def by (rule find_key)
  have "mm_SESMessageID m = [] \<or> AddMail m ref' later' mb' = Inl Duplicate"
    by (simp add: AddMail_def mb')
  moreover have "mm_ThreadID m \<noteq> 0 \<or> thread_named mb ref = None \<or> thread_named mb ref = Some t"
    using nz [of ref] t by (cases "thread_named mb ref") (auto simp: thread_for_def map_filter_simps)
  moreover have "mm_ThreadID m \<noteq> 0 \<or> list_ex (\<lambda>r. thread_named mb r \<noteq> None) (ref # mm_References m) \<or> t = i"
  proof -
    have none: "List.map_filter (thread_named mb) xs = []" if "\<not> list_ex (\<lambda>r. thread_named mb r \<noteq> None) xs" for xs
      using that by (induction xs) (simp_all add: map_filter_simps)
    show ?thesis
    proof (cases "list_ex (\<lambda>r. thread_named mb r \<noteq> None) (ref # mm_References m)")
      case False
      then have "List.map_filter (thread_named mb) (ref # rev (mm_References m)) = []"
        by (intro none) (simp add: list_ex_iff)
      then show ?thesis using t by (simp add: thread_for_def)
    qed simp
  qed
  moreover have "mm_ThreadID m = 0 \<or> t = mm_ThreadID m" using t by (simp add: thread_for_def)
  moreover have "map_option mm_ThreadID (MailByID i mb') = Some t"
    using by_id [of "List.last (mb_Mail mb')"] by (simp add: mb')
  moreover have "list_all (\<lambda>x. MailByID (mm_ID x) mb' = Some x) (mb_Mail mb)"
    using by_id by (simp add: list_all_iff mb')
  ultimately show ?thesis by blast
qed

section \<open>Instances\<close>

definition w_mail :: "string \<Rightarrow> string \<Rightarrow> bool \<Rightarrow> mail_message" where
  "w_mail ses msgid inbound = \<lparr>mm_ID = 0, mm_ThreadID = 0, mm_Inbound = inbound, mm_SESMessageID = ses,
     mm_FromAddr = ''a@x'', mm_FromName = [], mm_ToAddr = ''hello@stonn.org'', mm_Subject = ''s'', mm_Body = ''b'',
     mm_MessageID = msgid, mm_References = [], mm_Verdict = [], mm_Flagged = False, mm_Truncated = False, mm_At = 0\<rparr>"

definition w_box1 :: mailbox_rows where
  "w_box1 = (case AddMail (w_mail ''s1'' ''m1'' True) [] 0 empty_mailbox of Inl e \<Rightarrow> empty_mailbox | Inr (r, mb) \<Rightarrow> mb)"

definition w_box2 :: mailbox_rows where
  "w_box2 = (case AddMail (w_mail ''s2'' ''m2'' True) ''m1'' 0 w_box1 of Inl e \<Rightarrow> w_box1 | Inr (r, mb) \<Rightarrow> mb)"

lemma w_box1_add: "AddMail (w_mail ''s1'' ''m1'' True) [] 0 empty_mailbox = Inr ((1, 1), w_box1)"
proof -
  have "(case AddMail (w_mail ''s1'' ''m1'' True) [] 0 empty_mailbox of Inl e \<Rightarrow> False | Inr (r, mb) \<Rightarrow> r = (1, 1))"
    by code_simp
  then show ?thesis by (auto simp: w_box1_def split: sum.splits prod.splits)
qed

lemma w_box2_add: "AddMail (w_mail ''s2'' ''m2'' True) ''m1'' 0 w_box1 = Inr ((2, 1), w_box2)"
proof -
  have "(case AddMail (w_mail ''s2'' ''m2'' True) ''m1'' 0 w_box1 of Inl e \<Rightarrow> False | Inr (r, mb) \<Rightarrow> r = (2, 1))"
    by code_simp
  then show ?thesis by (auto simp: w_box2_def split: sum.splits prod.splits)
qed

lemma w_box1_reach: "mail_reach w_box1" by (rule mail_reach.add [OF mail_reach.start w_box1_add])
lemma w_box2_reach: "mail_reach w_box2" by (rule mail_reach.add [OF w_box1_reach w_box2_add])

theorem unanswered_counts_the_threads_shown_witness:
  "UnansweredMail w_box2 = 1 \<and> mset (concat (MailThreads (length (mb_Mail w_box2)) w_box2)) = mset (mb_Mail w_box2)"
proof -
  have "UnansweredMail w_box2 = 1" by code_simp
  then show ?thesis using unanswered_counts_the_threads_shown [OF w_box2_reach] by simp
qed

theorem a_message_joins_its_conversation_witness:
  "AddMail (w_mail ''s2'' ''m2'' True) [] 9 w_box2 = Inl Duplicate
    \<and> map_option mm_ThreadID (MailByID 2 w_box2) = Some 1"
  using a_message_joins_its_conversation [OF w_box1_reach w_box2_add, of "[]" 9]
  by (simp add: w_mail_def)

end
