(* ===== verification/Nudges.thy ===== *)
theory Nudges
  imports Mailbox
begin

text \<open>
  Housekeeping on the keep-warm cadence (internal/scheduler/housekeeping.go): retention, and the
  once-ever notes to households that stalled. A note is sent first and marked after, so a send that
  fails is tried again by a later sweep; an address on the do-not-email list counts as settled. The
  mail server, the store's failures and the clock of a sweep are its environment.
\<close>

section \<open>Notes\<close>

text \<open>\<open>UnusedPassNudge\<close> carries the passes it is about beside the recipients it names.\<close>

datatype nudge =
    OnboardNudge string
  | FortnightNudge string
  | InviteReminder string string
  | InviteUnaccepted string string
  | UnusedPassNudge string "string list" "int list"

datatype send_result = Accepted | SuppressedAddress | SendFailed

datatype nudge_query = QOnboard | QFortnight | QInvites | QPasses | QAllowed string
datatype nudge_mark = MOnboard string | MFortnight string | MInvite string string | MPass int | MNudged string

datatype retention = RExpire | RDecided | RNonces | RRecipients | RSuppressions | RConfirm | RApply
  | ROverrides | RChanges | RContact | RMail | RReferrals

record upkeep_env =
  ue_Now :: time
  ue_Email :: bool
  ue_Send :: "nudge \<Rightarrow> send_result"
  ue_ReadFails :: "nudge_query \<Rightarrow> bool"
  ue_MarkFails :: "nudge_mark \<Rightarrow> bool"
  ue_PruneFails :: "retention \<Rightarrow> bool"
  ue_SnapshotFails :: bool

record upkeep =
  uk_Estate :: estate
  uk_Mailbox :: mailbox_rows
  uk_Notes :: "(time \<times> nudge) list"
  uk_NudgeAfter :: dur
  uk_NudgeLookback :: dur
  uk_SnapshotPath :: string
  uk_LastSnapshot :: time
  uk_LastSnapshotAttempt :: time
  uk_Alerts :: "string list"

definition decidedGuestRequestRetention :: dur where "decidedGuestRequestRetention = 7 * 24 * hour"
definition revokedRecipientRetention :: dur where "revokedRecipientRetention = 30 * 24 * hour"
definition suppressionBounceRetention :: dur where "suppressionBounceRetention = 2 * 365 * 24 * hour"
definition confirmTokenRetention :: dur where "confirmTokenRetention = 60 * 24 * hour"
definition logRetention :: dur where "logRetention = 90 * 24 * hour"
definition onboardNudgeAfter :: dur where "onboardNudgeAfter = 24 * hour"
definition onboardNudgeLookback :: dur where "onboardNudgeLookback = 14 * 24 * hour"
definition fortnightNudgeAfter :: dur where "fortnightNudgeAfter = 14 * 24 * hour"
definition inviteReminderAfter :: dur where "inviteReminderAfter = 3 * 24 * hour"
definition unusedPassAfter :: dur where "unusedPassAfter = 7 * 24 * hour"
definition inactionNudgeGap :: dur where "inactionNudgeGap = 7 * 24 * hour"

text \<open>A send, and a mark the store may refuse.\<close>

definition send_note :: "upkeep_env \<Rightarrow> nudge \<Rightarrow> upkeep \<Rightarrow> upkeep" where
  "send_note e n u = (if ue_Send e n = Accepted then u\<lparr>uk_Notes := uk_Notes u @ [(ue_Now e, n)]\<rparr> else u)"

definition marked :: "upkeep_env \<Rightarrow> nudge_mark \<Rightarrow> (estate \<Rightarrow> estate) \<Rightarrow> upkeep \<Rightarrow> upkeep" where
  "marked e m f u = (if ue_MarkFails e m then u else u\<lparr>uk_Estate := f (uk_Estate u)\<rparr>)"

definition noteInactionNudged :: "upkeep_env \<Rightarrow> string \<Rightarrow> upkeep \<Rightarrow> upkeep" where
  "noteInactionNudged e owner u = marked e (MNudged owner) (MarkInactionNudged owner (ue_Now e)) u"

definition settled_send :: "upkeep_env \<Rightarrow> nudge \<Rightarrow> bool" where
  "settled_send e n \<longleftrightarrow> ue_Send e n \<noteq> SendFailed"

section \<open>The sweeps\<close>

definition onboard_one :: "upkeep_env \<Rightarrow> string \<Rightarrow> upkeep \<Rightarrow> upkeep" where
  "onboard_one e owner u =
     (let n = OnboardNudge owner
      in if \<not> settled_send e n then u
         else marked e (MOnboard owner) (MarkOnboardNudgeSent owner (ue_Now e)) (send_note e n u))"

definition sweepOnboardNudges :: "upkeep_env \<Rightarrow> upkeep \<Rightarrow> upkeep" where
  "sweepOnboardNudges e u =
     (if \<not> ue_Email e \<or> ue_ReadFails e QOnboard then u
      else fold (onboard_one e)
        (OnboardNudgeCandidates (ue_Now e - uk_NudgeLookback u) (ue_Now e - uk_NudgeAfter u) (uk_Estate u)) u)"

definition fortnight_one :: "upkeep_env \<Rightarrow> string \<Rightarrow> upkeep \<Rightarrow> upkeep" where
  "fortnight_one e owner u =
     (let n = FortnightNudge owner
      in if \<not> settled_send e n then u
         else marked e (MFortnight owner) (MarkFortnightNudgeSent owner (ue_Now e)) (send_note e n u))"

definition sweepFortnightNudges :: "upkeep_env \<Rightarrow> upkeep \<Rightarrow> upkeep" where
  "sweepFortnightNudges e u =
     (if \<not> ue_Email e \<or> ue_ReadFails e QFortnight then u
      else fold (fortnight_one e) (FortnightNudgeCandidates (ue_Now e - fortnightNudgeAfter) (uk_Estate u)) u)"

text \<open>One unanswered invitation: the invited person always, the account holder when the gap allows.\<close>

definition invite_one :: "upkeep_env \<Rightarrow> string \<times> string \<Rightarrow> upkeep \<Rightarrow> upkeep" where
  "invite_one e p u =
     (let owner = fst p; member = snd p in
      if ue_ReadFails e (QAllowed owner) then u
      else (let tellOwner = InactionNudgeAllowed owner (ue_Now e - inactionNudgeGap) (uk_Estate u);
                told = settled_send e (InviteReminder member owner);
                u1 = send_note e (InviteReminder member owner) u;
                toldOwner = (tellOwner \<and> settled_send e (InviteUnaccepted owner member));
                u2 = (if toldOwner then noteInactionNudged e owner (send_note e (InviteUnaccepted owner member) u1) else u1)
            in if told \<or> toldOwner
               then marked e (MInvite owner member) (on_tables (MarkInviteReminded owner member (ue_Now e))) u2
               else u2))"

definition sweepInviteReminders :: "upkeep_env \<Rightarrow> upkeep \<Rightarrow> upkeep" where
  "sweepInviteReminders e u =
     (if \<not> ue_Email e \<or> ue_ReadFails e QInvites then u
      else fold (invite_one e)
        (InviteReminderCandidates (ue_Now e - inviteReminderAfter) (es_Tables (uk_Estate u))) u)"

text \<open>One note per household about all its unused passes.\<close>

definition first_seen :: "'a list \<Rightarrow> 'a list" where
  "first_seen xs = rev (remdups (rev xs))"

definition mark_passes :: "upkeep_env \<Rightarrow> int list \<Rightarrow> upkeep \<Rightarrow> upkeep" where
  "mark_passes e gids u = fold (\<lambda>g. marked e (MPass g) (on_tables (MarkPassNudgeSent g (ue_Now e)))) gids u"

definition passes_one :: "upkeep_env \<Rightarrow> string \<times> unused_pass list \<Rightarrow> upkeep \<Rightarrow> upkeep" where
  "passes_one e p u =
     (let owner = fst p; group = snd p; gids = map up_GrantID group;
          n = UnusedPassNudge owner (first_seen (concat (map up_To group))) gids in
      if ue_ReadFails e (QAllowed owner) then u
      else if \<not> InactionNudgeAllowed owner (ue_Now e - inactionNudgeGap) (uk_Estate u) then u
      else if \<not> settled_send e n then u
      else (let u1 = mark_passes e gids (send_note e n u)
            in if list_ex (\<lambda>g. ue_MarkFails e (MPass g)) gids then u1
               else noteInactionNudged e owner u1))"

definition sweepUnusedPassNudges :: "upkeep_env \<Rightarrow> upkeep \<Rightarrow> upkeep" where
  "sweepUnusedPassNudges e u =
     (if \<not> ue_Email e \<or> ue_ReadFails e QPasses then u
      else (let passes = UnusedPassCandidates (ue_Now e - unusedPassAfter) (es_Tables (uk_Estate u));
                order = first_seen (map up_Owner passes)
            in fold (passes_one e) (map (\<lambda>w. (w, filter (\<lambda>p. up_Owner p = w) passes)) order) u))"

section \<open>Retention and the snapshot\<close>

definition pruned :: "upkeep_env \<Rightarrow> retention \<Rightarrow> (upkeep \<Rightarrow> upkeep) \<Rightarrow> upkeep \<Rightarrow> upkeep" where
  "pruned e r f u = (if ue_PruneFails e r then u else f u)"

definition on_estate :: "(estate \<Rightarrow> estate) \<Rightarrow> upkeep \<Rightarrow> upkeep" where
  "on_estate f u = u\<lparr>uk_Estate := f (uk_Estate u)\<rparr>"

definition on_mailbox :: "(mailbox_rows \<Rightarrow> mailbox_rows) \<Rightarrow> upkeep \<Rightarrow> upkeep" where
  "on_mailbox f u = u\<lparr>uk_Mailbox := f (uk_Mailbox u)\<rparr>"

definition PruneApplyLog :: "time \<Rightarrow> estate \<Rightarrow> estate" where
  "PruneApplyLog before es = es\<lparr>es_Applied := filter (\<lambda>a. \<not> al_At a < whole_seconds before) (es_Applied es)\<rparr>"

definition clear_stale_confirms :: "time \<Rightarrow> estate \<Rightarrow> estate" where
  "clear_stale_confirms before es = es\<lparr>es_Sessions := map (\<lambda>r.
     if ts_ConfirmToken r \<noteq> [] \<and> \<not> is_zero (ts_ReminderSent r) \<and> ts_ReminderSent r < whole_seconds before
     then r\<lparr>ts_ConfirmToken := []\<rparr> else r) (es_Sessions es)\<rparr>"

definition retention_passes :: "upkeep_env \<Rightarrow> upkeep \<Rightarrow> upkeep" where
  "retention_passes e u =
     (let now = ue_Now e in
      fold (\<lambda>(r, f). pruned e r f)
        [(RExpire, on_estate (on_tables (ExpireGuestRequests (now - hour) now))),
         (RDecided, on_estate (on_tables (PurgeDecidedGuestRequests (now - decidedGuestRequestRetention)))),
         (RNonces, on_estate (on_tables (ClearSettledRequestNonces now))),
         (RRecipients, on_estate (on_tables (ForgetRevokedRecipients (now - revokedRecipientRetention)))),
         (RSuppressions, on_estate (\<lambda>es. es\<lparr>es_Suppressed :=
            PruneSuppressions (now - suppressionBounceRetention) (now - logRetention) (es_Suppressed es)\<rparr>)),
         (RConfirm, on_estate (clear_stale_confirms (now - confirmTokenRetention))),
         (RApply, on_estate (PruneApplyLog (now - logRetention))),
         (ROverrides, on_estate (on_tables (PruneOverrides (now - logRetention)))),
         (RChanges, on_estate (PruneChangeLog (now - logRetention))),
         (RContact, on_mailbox (PruneContactMessages (now - ContactMessageRetention))),
         (RMail, on_mailbox (PruneMail (now - MailRetention))),
         (RReferrals, on_estate (PruneReferralInvites (now - ReferralInviteRetention)))] u)"

definition snapshot_due :: "time \<Rightarrow> upkeep \<Rightarrow> bool" where
  "snapshot_due now u \<longleftrightarrow> uk_SnapshotPath u \<noteq> [] \<and> 24 * hour < now - uk_LastSnapshot u
     \<and> (is_zero (uk_LastSnapshotAttempt u) \<or> hour \<le> now - uk_LastSnapshotAttempt u)"

definition maybeSnapshot :: "upkeep_env \<Rightarrow> upkeep \<Rightarrow> upkeep" where
  "maybeSnapshot e u =
     (if \<not> snapshot_due (ue_Now e) u then u
      else (let u1 = u\<lparr>uk_LastSnapshotAttempt := ue_Now e\<rparr>
            in if ue_SnapshotFails e then u1\<lparr>uk_Alerts := uk_Alerts u1 @ [''backup-snapshot'']\<rparr>
               else u1\<lparr>uk_LastSnapshot := ue_Now e\<rparr>))"

definition sweepGuestRequests :: "upkeep_env \<Rightarrow> upkeep \<Rightarrow> upkeep" where
  "sweepGuestRequests e u =
     maybeSnapshot e (sweepUnusedPassNudges e (sweepInviteReminders e
       (sweepFortnightNudges e (sweepOnboardNudges e (retention_passes e u)))))"

section \<open>Once ever\<close>

text \<open>What a note is about, and whether it is still to be told.\<close>

datatype subject = AboutOnboard string | AboutFortnight string | AboutInvite string string
  | AboutUnaccepted string string | AboutPass int

fun about :: "nudge \<Rightarrow> subject list" where
  "about (OnboardNudge w) = [AboutOnboard w]"
| "about (FortnightNudge w) = [AboutFortnight w]"
| "about (InviteReminder m ow) = [AboutInvite m ow]"
| "about (InviteUnaccepted ow m) = [AboutUnaccepted ow m]"
| "about (UnusedPassNudge ow to gids) = map AboutPass gids"

definition open_offer :: "string \<Rightarrow> string \<Rightarrow> tables \<Rightarrow> bool" where
  "open_offer m ow tb \<longleftrightarrow> list_ex (\<lambda>x. am_Member x = m \<and> am_Owner x = ow \<and> am_Pending x
     \<and> am_RemindedAt x = None) (tb_Members tb)"

fun due :: "subject \<Rightarrow> estate \<Rightarrow> bool" where
  "due (AboutOnboard w) es \<longleftrightarrow> fl_OnboardNudge (flags_of w es) = None"
| "due (AboutFortnight w) es \<longleftrightarrow> fl_FortnightNudge (flags_of w es) = None"
| "due (AboutInvite m ow) es \<longleftrightarrow> open_offer m ow (es_Tables es)"
| "due (AboutUnaccepted ow m) es \<longleftrightarrow> open_offer m ow (es_Tables es)"
| "due (AboutPass g) es \<longleftrightarrow> list_ex (\<lambda>x. g_ID x = g \<and> g_PassNudgeSent x = None) (tb_Grants (es_Tables es))"

definition heard :: "subject \<Rightarrow> (time \<times> nudge) list \<Rightarrow> nat" where
  "heard s ns = length (filter (\<lambda>tn. s \<in> set (about (snd tn))) ns)"

definition within_budget :: "upkeep \<Rightarrow> bool" where
  "within_budget u \<longleftrightarrow> (\<forall>s. heard s (uk_Notes u) + (if due s (uk_Estate u) then 1 else 0) \<le> 1)"

lemma flags_of_set_flag: "flags_of w (set_flag v f es) = (if w = v then f (flags_of v es) else flags_of w es)"
  by (simp add: set_flag_def flags_of_def)

lemma tables_set_flag [simp]: "es_Tables (set_flag v f es) = es_Tables es" by (simp add: set_flag_def)

lemma flags_on_tables [simp]: "flags_of w (on_tables f es) = flags_of w es" "es_Tables (on_tables f es) = f (es_Tables es)"
  by (simp_all add: on_tables_def flags_of_def)

lemma due_marks:
  "due s (MarkOnboardNudgeSent w t es) \<longleftrightarrow> s \<noteq> AboutOnboard w \<and> due s es"
  "due s (MarkFortnightNudgeSent w t es) \<longleftrightarrow> s \<noteq> AboutFortnight w \<and> due s es"
  "due s (MarkInactionNudged w t es) \<longleftrightarrow> due s es"
  "due s (on_tables (MarkInviteReminded ow m t) es) \<longleftrightarrow> s \<notin> {AboutInvite m ow, AboutUnaccepted ow m} \<and> due s es"
  "due s (on_tables (MarkPassNudgeSent g t) es) \<longleftrightarrow> s \<noteq> AboutPass g \<and> due s es"
proof -
  show "due s (MarkOnboardNudgeSent w t es) \<longleftrightarrow> s \<noteq> AboutOnboard w \<and> due s es"
    by (cases s) (auto simp: MarkOnboardNudgeSent_def flags_of_set_flag)
  show "due s (MarkFortnightNudgeSent w t es) \<longleftrightarrow> s \<noteq> AboutFortnight w \<and> due s es"
    by (cases s) (auto simp: MarkFortnightNudgeSent_def flags_of_set_flag)
  show "due s (MarkInactionNudged w t es) \<longleftrightarrow> due s es"
    by (cases s) (auto simp: MarkInactionNudged_def flags_of_set_flag)
  show "due s (on_tables (MarkInviteReminded ow m t) es) \<longleftrightarrow> s \<notin> {AboutInvite m ow, AboutUnaccepted ow m} \<and> due s es"
    by (cases s) (auto simp: MarkInviteReminded_def open_offer_def list_ex_iff)
  show "due s (on_tables (MarkPassNudgeSent g t) es) \<longleftrightarrow> s \<noteq> AboutPass g \<and> due s es"
    by (cases s) (auto simp: MarkPassNudgeSent_def on_grants_def list_ex_iff open_offer_def)
qed

definition reliable :: "upkeep_env \<Rightarrow> bool" where
  "reliable e \<longleftrightarrow> ue_MarkFails e = (\<lambda>m. False)"

lemma send_note_simps [simp]:
  "uk_Estate (send_note e n u) = uk_Estate u"
  "uk_Notes (send_note e n u) = uk_Notes u @ (if ue_Send e n = Accepted then [(ue_Now e, n)] else [])"
  by (simp_all add: send_note_def)

lemma marked_simps [simp]:
  "reliable e \<Longrightarrow> uk_Estate (marked e m f u) = f (uk_Estate u)"
  "uk_Notes (marked e m f u) = uk_Notes u"
  by (simp_all add: marked_def reliable_def)

lemma mark_passes_simps:
  "uk_Notes (mark_passes e gids u) = uk_Notes u"
  "reliable e \<Longrightarrow> due s (uk_Estate (mark_passes e gids u)) \<longleftrightarrow> s \<notin> AboutPass ` set gids \<and> due s (uk_Estate u)"
  by (induction gids arbitrary: u) (auto simp: mark_passes_def due_marks)

lemma heard_simps:
  "heard s [] = 0" "heard s (ns @ ms) = heard s ns + heard s ms"
  "heard s ((t, n) # ns) = (if s \<in> set (about n) then 1 else 0) + heard s ns"
  by (simp_all add: heard_def)

text \<open>Each candidate has its own subjects; handling one leaves the others alone.\<close>

definition fair_step :: "('a \<Rightarrow> subject set) \<Rightarrow> ('a \<Rightarrow> upkeep \<Rightarrow> upkeep) \<Rightarrow> 'a \<Rightarrow> bool" where
  "fair_step subj f x \<longleftrightarrow> (\<forall>u. (within_budget u \<longrightarrow> (\<forall>s \<in> subj x. due s (uk_Estate u)) \<longrightarrow> within_budget (f x u))
     \<and> (\<forall>s. s \<notin> subj x \<longrightarrow> due s (uk_Estate (f x u)) = due s (uk_Estate u)))"

lemma fair_fold:
  assumes "\<And>x. x \<in> set xs \<Longrightarrow> fair_step subj f x" and "distinct xs"
    and "\<And>x y. x \<in> set xs \<Longrightarrow> y \<in> set xs \<Longrightarrow> x \<noteq> y \<Longrightarrow> subj x \<inter> subj y = {}"
    and "\<And>x s. x \<in> set xs \<Longrightarrow> s \<in> subj x \<Longrightarrow> due s (uk_Estate u)" and "within_budget u"
  shows "within_budget (fold f xs u)"
  using assms
proof (induction xs arbitrary: u)
  case (Cons x xs)
  have step: "fair_step subj f x" using Cons.prems(1) by simp
  then have "within_budget (f x u)" using Cons.prems(4,5) unfolding fair_step_def by (meson list.set_intros(1))
  moreover have "due s (uk_Estate (f x u))" if "y \<in> set xs" "s \<in> subj y" for y s
  proof -
    have "y \<noteq> x" using that(1) Cons.prems(2) by auto
    then have "s \<notin> subj x" using Cons.prems(3) [of x y] that by auto
    then show ?thesis using step Cons.prems(4) [of y s] that unfolding fair_step_def by (meson list.set_intros(2))
  qed
  ultimately have "within_budget (fold f xs (f x u))"
    by (intro Cons.IH) (use Cons.prems in auto)
  then show ?case by simp
qed simp

lemma budgetD: "within_budget u \<Longrightarrow> heard s (uk_Notes u) + (if due s (uk_Estate u) then 1 else 0) \<le> 1"
  by (simp add: within_budget_def)

text \<open>A step keeps the budget if it tells only what was due and leaves nothing it told due.\<close>

lemma keeps_budget:
  assumes "within_budget u"
    and "\<And>s. heard s (uk_Notes u') = heard s (uk_Notes u) \<and> (due s (uk_Estate u') \<longrightarrow> due s (uk_Estate u))
      \<or> heard s (uk_Notes u') \<le> heard s (uk_Notes u) + 1 \<and> due s (uk_Estate u) \<and> \<not> due s (uk_Estate u')"
  shows "within_budget u'"
  unfolding within_budget_def
proof
  fix s
  show "heard s (uk_Notes u') + (if due s (uk_Estate u') then 1 else 0) \<le> 1"
    using assms(2) [of s] budgetD [OF assms(1), of s] by (auto split: if_splits)
qed

lemma fair_onboard: "reliable e \<Longrightarrow> fair_step (\<lambda>w. {AboutOnboard w}) (onboard_one e) w"
  unfolding fair_step_def
  by (intro allI conjI impI, rule keeps_budget)
    (auto simp: onboard_one_def Let_def due_marks heard_simps)

lemma fair_fortnight: "reliable e \<Longrightarrow> fair_step (\<lambda>w. {AboutFortnight w}) (fortnight_one e) w"
  unfolding fair_step_def
  by (intro allI conjI impI, rule keeps_budget)
    (auto simp: fortnight_one_def Let_def due_marks heard_simps)

definition invite_subjects :: "string \<times> string \<Rightarrow> subject set" where
  "invite_subjects p = {AboutInvite (snd p) (fst p), AboutUnaccepted (fst p) (snd p)}"

lemma fair_invite:
  assumes "reliable e" shows "fair_step invite_subjects (invite_one e) p"
  unfolding fair_step_def
proof (intro allI conjI impI)
  fix u assume b: "within_budget u" and d: "\<forall>s \<in> invite_subjects p. due s (uk_Estate u)"
  show "within_budget (invite_one e p u)"
    using b by (rule keeps_budget)
      (use assms d in \<open>auto simp: invite_one_def Let_def due_marks heard_simps invite_subjects_def
         noteInactionNudged_def settled_send_def split: if_splits\<close>)
next
  fix u s assume "s \<notin> invite_subjects p"
  then show "due s (uk_Estate (invite_one e p u)) = due s (uk_Estate u)"
    using assms by (auto simp: invite_one_def Let_def due_marks invite_subjects_def noteInactionNudged_def)
qed

definition group_subjects :: "string \<times> unused_pass list \<Rightarrow> subject set" where
  "group_subjects p = AboutPass ` set (map up_GrantID (snd p))"

lemma fair_passes:
  assumes "reliable e" shows "fair_step group_subjects (passes_one e) p"
proof -
  have r: "\<not> list_ex (\<lambda>g. ue_MarkFails e (MPass g)) gids" for gids
    using assms by (simp add: reliable_def list_ex_iff)
  show ?thesis unfolding fair_step_def
  proof (intro allI conjI impI)
    fix u assume b: "within_budget u" and d: "\<forall>s \<in> group_subjects p. due s (uk_Estate u)"
    show "within_budget (passes_one e p u)"
      using b by (rule keeps_budget)
        (use assms d r in \<open>auto simp: passes_one_def Let_def due_marks mark_passes_simps heard_simps
           group_subjects_def noteInactionNudged_def\<close>)
  next
    fix u s assume "s \<notin> group_subjects p"
    then show "due s (uk_Estate (passes_one e p u)) = due s (uk_Estate u)"
      using assms r by (auto simp: passes_one_def Let_def due_marks mark_passes_simps
        group_subjects_def noteInactionNudged_def)
  qed
qed

section \<open>The candidates\<close>

definition keyed :: "estate \<Rightarrow> bool" where
  "keyed es \<longleftrightarrow> distinct (map am_Member (tb_Members (es_Tables es)))
     \<and> distinct (map g_ID (tb_Grants (es_Tables es)))"

lemma distinct_sort_key [simp]: "distinct (sort_key f xs) = distinct xs"
  by (metis distinct_count_atmost_1 mset_eq_imp_distinct_iff mset_sort)

lemma onboard_candidates:
  "distinct (OnboardNudgeCandidates a b es)"
  "w \<in> set (OnboardNudgeCandidates a b es) \<Longrightarrow> due (AboutOnboard w) es"
  by (auto simp: OnboardNudgeCandidates_def)

lemma fortnight_candidates:
  "distinct (FortnightNudgeCandidates a es)"
  "w \<in> set (FortnightNudgeCandidates a es) \<Longrightarrow> due (AboutFortnight w) es"
  by (auto simp: FortnightNudgeCandidates_def)

lemma invite_candidates:
  assumes "keyed es"
  shows "distinct (InviteReminderCandidates a (es_Tables es))"
    and "p \<in> set (InviteReminderCandidates a (es_Tables es)) \<Longrightarrow> s \<in> invite_subjects p \<Longrightarrow> due s es"
proof -
  let ?xs = "filter (\<lambda>m. am_Pending m \<and> am_RemindedAt m = None \<and> am_AddedAt m \<le> whole_seconds a)
    (tb_Members (es_Tables es))"
  have "distinct (map am_Member ?xs)" using assms by (simp add: keyed_def distinct_map_filter)
  then have "distinct (map (\<lambda>m. (am_Owner m, am_Member m)) ?xs)"
    by (auto simp: distinct_map inj_on_def)
  then have "distinct (map (\<lambda>m. (am_Owner m, am_Member m)) (sort_key am_AddedAt ?xs))"
    by (auto simp: distinct_map inj_on_def)
  then show "distinct (InviteReminderCandidates a (es_Tables es))" by (simp add: InviteReminderCandidates_def)
  show "p \<in> set (InviteReminderCandidates a (es_Tables es)) \<Longrightarrow> s \<in> invite_subjects p \<Longrightarrow> due s es"
    by (auto simp: InviteReminderCandidates_def invite_subjects_def open_offer_def list_ex_iff)
qed

lemma first_seen_set [simp]: "set (first_seen xs) = set xs" and first_seen_distinct [simp]: "distinct (first_seen xs)"
  by (simp_all add: first_seen_def)

lemma pass_candidates:
  assumes "keyed es"
  shows "p \<in> set (UnusedPassCandidates a (es_Tables es)) \<Longrightarrow> due (AboutPass (up_GrantID p)) es"
    and "p \<in> set (UnusedPassCandidates a (es_Tables es)) \<Longrightarrow> p' \<in> set (UnusedPassCandidates a (es_Tables es))
      \<Longrightarrow> up_GrantID p = up_GrantID p' \<Longrightarrow> up_Owner p = up_Owner p'"
proof -
  have from_grant: "\<exists>g \<in> set (tb_Grants (es_Tables es)). up_GrantID q = g_ID g \<and> up_Owner q = g_Owner g
      \<and> unused_candidate a (es_Tables es) g" if "q \<in> set (UnusedPassCandidates a (es_Tables es))" for q
    using that by (auto simp: UnusedPassCandidates_def split: option.splits)
  show "due (AboutPass (up_GrantID p)) es" if "p \<in> set (UnusedPassCandidates a (es_Tables es))"
    using from_grant [OF that] by (auto simp: list_ex_iff unused_candidate_def)
  show "up_Owner p = up_Owner p'" if "p \<in> set (UnusedPassCandidates a (es_Tables es))"
    "p' \<in> set (UnusedPassCandidates a (es_Tables es))" "up_GrantID p = up_GrantID p'"
    using from_grant [OF that(1)] from_grant [OF that(2)] that(3) assms
    by (metis distinct_map inj_onD keyed_def)
qed

lemma sweeps_keep_budget:
  assumes "reliable e" and "keyed (uk_Estate u)" and "within_budget u"
  shows "within_budget (sweepOnboardNudges e u)" and "within_budget (sweepFortnightNudges e u)"
    and "within_budget (sweepInviteReminders e u)" and "within_budget (sweepUnusedPassNudges e u)"
proof -
  show "within_budget (sweepOnboardNudges e u)"
  proof (cases "\<not> ue_Email e \<or> ue_ReadFails e QOnboard")
    case False
    have "within_budget (fold (onboard_one e) (OnboardNudgeCandidates a b (uk_Estate u)) u)" for a b
      by (rule fair_fold [where subj = "\<lambda>w. {AboutOnboard w}"])
        (use fair_onboard [OF assms(1)] onboard_candidates assms(3) in simp_all)
    then show ?thesis using False by (simp add: sweepOnboardNudges_def)
  qed (use assms(3) in \<open>simp add: sweepOnboardNudges_def\<close>)
  show "within_budget (sweepFortnightNudges e u)"
  proof (cases "\<not> ue_Email e \<or> ue_ReadFails e QFortnight")
    case False
    have "within_budget (fold (fortnight_one e) (FortnightNudgeCandidates a (uk_Estate u)) u)" for a
      by (rule fair_fold [where subj = "\<lambda>w. {AboutFortnight w}"])
        (use fair_fortnight [OF assms(1)] fortnight_candidates assms(3) in simp_all)
    then show ?thesis using False by (simp add: sweepFortnightNudges_def)
  qed (use assms(3) in \<open>simp add: sweepFortnightNudges_def\<close>)
  show "within_budget (sweepInviteReminders e u)"
  proof (cases "\<not> ue_Email e \<or> ue_ReadFails e QInvites")
    case False
    have "within_budget (fold (invite_one e) (InviteReminderCandidates a (es_Tables (uk_Estate u))) u)" for a
      by (rule fair_fold [where subj = invite_subjects])
        (use fair_invite [OF assms(1)] invite_candidates [OF assms(2)] assms(3) in
          \<open>auto simp: invite_subjects_def\<close>)
    then show ?thesis using False by (simp add: sweepInviteReminders_def)
  qed (use assms(3) in \<open>simp add: sweepInviteReminders_def\<close>)
  show "within_budget (sweepUnusedPassNudges e u)"
  proof (cases "\<not> ue_Email e \<or> ue_ReadFails e QPasses")
    case False
    have "within_budget (fold (passes_one e) (map (\<lambda>w. (w, filter (\<lambda>p. up_Owner p = w) ps)) (first_seen (map up_Owner ps))) u)"
      if ps: "ps = UnusedPassCandidates a (es_Tables (uk_Estate u))" for a ps
    proof (rule fair_fold [where subj = group_subjects])
      show "within_budget u" by (rule assms(3))
      show "fair_step group_subjects (passes_one e) x" for x by (rule fair_passes [OF assms(1)])
      show "distinct (map (\<lambda>w. (w, filter (\<lambda>p. up_Owner p = w) ps)) (first_seen (map up_Owner ps)))"
        by (simp add: distinct_map inj_on_def)
      show "due s (uk_Estate u)" if "x \<in> set (map (\<lambda>w. (w, filter (\<lambda>p. up_Owner p = w) ps)) (first_seen (map up_Owner ps)))"
        "s \<in> group_subjects x" for x s
        using that pass_candidates(1) [OF assms(2)] ps by (auto simp: group_subjects_def)
      fix x y
      show "group_subjects x \<inter> group_subjects y = {}"
        if "x \<in> set (map (\<lambda>w. (w, filter (\<lambda>p. up_Owner p = w) ps)) (first_seen (map up_Owner ps)))"
          "y \<in> set (map (\<lambda>w. (w, filter (\<lambda>p. up_Owner p = w) ps)) (first_seen (map up_Owner ps)))" "x \<noteq> y"
      proof (rule ccontr)
        assume meet: "group_subjects x \<inter> group_subjects y \<noteq> {}"
        obtain w v where xy: "x = (w, filter (\<lambda>p. up_Owner p = w) ps)" "y = (v, filter (\<lambda>p. up_Owner p = v) ps)"
          using \<open>x \<in> _\<close> \<open>y \<in> _\<close> by auto
        obtain p q where pq: "p \<in> set ps" "q \<in> set ps" "up_Owner p = w" "up_Owner q = v" "up_GrantID p = up_GrantID q"
          using meet unfolding xy group_subjects_def by auto
        have "up_Owner p = up_Owner q"
          by (rule pass_candidates(2) [OF assms(2) pq(1) [unfolded ps] pq(2) [unfolded ps] pq(5)])
        then show False using \<open>x \<noteq> y\<close> xy pq(3,4) by simp
      qed
    qed
    then show ?thesis using False by (simp add: sweepUnusedPassNudges_def Let_def)
  qed (use assms(3) in \<open>simp add: sweepUnusedPassNudges_def\<close>)
qed

section \<open>Sweeps among everything else\<close>

lemma fold_keeps: "(\<And>x u. P u \<Longrightarrow> P (f x u)) \<Longrightarrow> P u \<Longrightarrow> P (fold f xs u)"
  by (induction xs arbitrary: u) auto

text \<open>The part of the state the notes depend on; retention does not touch it.\<close>

definition core :: "upkeep \<Rightarrow> (time \<times> nudge) list \<times> (string \<rightharpoonup> flags) \<times> account_member list \<times> guest_grant list" where
  "core u = (uk_Notes u, es_Flags (uk_Estate u), tb_Members (es_Tables (uk_Estate u)), tb_Grants (es_Tables (uk_Estate u)))"

lemma due_core: "core u = core u' \<Longrightarrow> due s (uk_Estate u) = due s (uk_Estate u')"
  by (cases s) (auto simp: core_def flags_of_def open_offer_def)

lemma core_pruned: "core u' = core u \<Longrightarrow> (\<And>v. core (f v) = core v) \<Longrightarrow> core (pruned e r f u') = core u"
  by (simp add: pruned_def)

lemma retention_core: "core (retention_passes e u) = core u"
  unfolding retention_passes_def Let_def fold_simps id_apply comp_apply prod.case
  by (intro core_pruned refl)
    (simp_all add: core_def on_estate_def on_mailbox_def ExpireGuestRequests_def PurgeDecidedGuestRequests_def
      ClearSettledRequestNonces_def ForgetRevokedRecipients_def clear_stale_confirms_def PruneApplyLog_def
      PruneOverrides_def drop_overrides_def PruneChangeLog_def PruneReferralInvites_def on_requests_def
      on_tokens_def on_tables_def)

lemma snapshot_core: "core (maybeSnapshot e u) = core u"
  by (simp add: maybeSnapshot_def Let_def core_def)

lemma budget_core: "core u = core u' \<Longrightarrow> within_budget u \<Longrightarrow> within_budget u'"
proof -
  assume c: "core u = core u'" and b: "within_budget u"
  have "uk_Notes u' = uk_Notes u" using c by (simp add: core_def)
  then show ?thesis using b due_core [OF c] by (simp add: within_budget_def)
qed

lemma keyed_core: "core u = core u' \<Longrightarrow> keyed (uk_Estate u) \<Longrightarrow> keyed (uk_Estate u')"
  by (simp add: core_def keyed_def)

lemma keyed_marks:
  "keyed (set_flag w f es) = keyed es"
  "keyed (on_tables (MarkInviteReminded ow m t) es) = keyed es"
  "keyed (on_tables (MarkPassNudgeSent g t) es) = keyed es"
proof -
  have "map am_Member (tb_Members (MarkInviteReminded ow m t tb)) = map am_Member (tb_Members tb)"
    and "tb_Grants (MarkInviteReminded ow m t tb) = tb_Grants tb" for tb
    by (auto simp: MarkInviteReminded_def)
  then show "keyed (on_tables (MarkInviteReminded ow m t) es) = keyed es" by (simp add: keyed_def)
  have "map g_ID (tb_Grants (MarkPassNudgeSent g t tb)) = map g_ID (tb_Grants tb)"
    and "tb_Members (MarkPassNudgeSent g t tb) = tb_Members tb" for tb
    by (auto simp: MarkPassNudgeSent_def on_grants_def)
  then show "keyed (on_tables (MarkPassNudgeSent g t) es) = keyed es" by (simp add: keyed_def)
qed (simp add: keyed_def)

lemma keyed_marked: "keyed (f (uk_Estate u)) = keyed (uk_Estate u) \<Longrightarrow> keyed (uk_Estate (marked e m f u)) = keyed (uk_Estate u)"
  by (simp add: marked_def)

lemma keyed_mark_passes: "keyed (uk_Estate (mark_passes e gids u)) = keyed (uk_Estate u)"
  by (induction gids arbitrary: u) (simp_all add: mark_passes_def keyed_marked keyed_marks)

lemmas nudge_mark_defs = MarkOnboardNudgeSent_def MarkFortnightNudgeSent_def MarkInactionNudged_def noteInactionNudged_def

lemma keyed_sweeps:
  assumes "keyed (uk_Estate u)"
  shows "keyed (uk_Estate (sweepOnboardNudges e u))" and "keyed (uk_Estate (sweepFortnightNudges e u))"
    and "keyed (uk_Estate (sweepInviteReminders e u))" and "keyed (uk_Estate (sweepUnusedPassNudges e u))"
  using assms
  by (auto simp: sweepOnboardNudges_def sweepFortnightNudges_def sweepInviteReminders_def
      sweepUnusedPassNudges_def Let_def onboard_one_def fortnight_one_def invite_one_def passes_one_def
      keyed_marked keyed_marks keyed_mark_passes nudge_mark_defs
    intro!: fold_keeps [where P = "\<lambda>u. keyed (uk_Estate u)"])

text \<open>
  The life of the notes: sweeps in the order of their clocks whose marks the store accepts, and
  between them anything else the application does, as long as it takes no mark away from what was
  told and does not touch the time of the last note about somebody's inaction. Deleting an account
  and withdrawing an invitation to offer it again take marks away: they start a new story.
\<close>

definition carries_on :: "upkeep \<Rightarrow> estate \<Rightarrow> bool" where
  "carries_on u es' \<longleftrightarrow> keyed es'
     \<and> (\<forall>s. heard s (uk_Notes u) \<noteq> 0 \<and> \<not> due s (uk_Estate u) \<longrightarrow> \<not> due s es')
     \<and> (\<forall>w. fl_LastNudge (flags_of w es') = fl_LastNudge (flags_of w (uk_Estate u)))"

inductive upkeep_reach :: "time \<Rightarrow> upkeep \<Rightarrow> bool" where
  start: "uk_Notes u = [] \<Longrightarrow> keyed (uk_Estate u) \<Longrightarrow> upkeep_reach t u"
| sweep: "upkeep_reach t u \<Longrightarrow> t \<le> ue_Now e \<Longrightarrow> reliable e \<Longrightarrow> upkeep_reach (ue_Now e) (sweepGuestRequests e u)"
| elsewhere: "upkeep_reach t u \<Longrightarrow> carries_on u es' \<Longrightarrow> upkeep_reach t (u\<lparr>uk_Estate := es'\<rparr>)"

lemma upkeep_invariant: "upkeep_reach t u \<Longrightarrow> within_budget u \<and> keyed (uk_Estate u)"
proof (induction rule: upkeep_reach.induct)
  case (start u t)
  then show ?case by (simp add: within_budget_def heard_simps)
next
  case (sweep t u e)
  let ?u1 = "retention_passes e u"
  have b: "within_budget ?u1" and k: "keyed (uk_Estate ?u1)"
    using sweep.IH budget_core keyed_core retention_core [symmetric] by metis+
  note s1 = sweeps_keep_budget(1) [OF sweep.hyps(3) k b] and k1 = keyed_sweeps(1) [OF k, of e]
  note s2 = sweeps_keep_budget(2) [OF sweep.hyps(3) k1 s1] and k2 = keyed_sweeps(2) [OF k1, of e]
  note s3 = sweeps_keep_budget(3) [OF sweep.hyps(3) k2 s2] and k3 = keyed_sweeps(3) [OF k2, of e]
  note s4 = sweeps_keep_budget(4) [OF sweep.hyps(3) k3 s3] and k4 = keyed_sweeps(4) [OF k3, of e]
  show ?case unfolding sweepGuestRequests_def
    using budget_core [OF snapshot_core [symmetric] s4] keyed_core [OF snapshot_core [symmetric] k4] by blast
next
  case (elsewhere t u es')
  then show ?case unfolding within_budget_def carries_on_def
    by (fastforce split: if_splits)
qed

text \<open>C40: the once-ever notes go out once: over any number of sweeps, failures of the mail server
  included, a household is told at most once about each thing (the unfinished sign-up, the first
  fortnight, an open invitation, an unused pass), and what it was told about is not due any more.
  The runs are those of \<open>upkeep_reach\<close>: the store accepts the marks of a sweep (\<open>reliable\<close>; otherwise
  a note repeats), and what happens between sweeps makes nothing due again that was told
  (\<open>carries_on\<close>; deleting an account, or withdrawing an invitation and making it again, does).\<close>

theorem once_ever_notes_go_out_once:
  assumes "upkeep_reach t u"
  shows "heard s (uk_Notes u) = 0 \<or> heard s (uk_Notes u) = 1 \<and> \<not> due s (uk_Estate u)"
  using upkeep_invariant [OF assms] budgetD [of u s] by (auto split: if_splits)

section \<open>The gap between two notes about inaction\<close>

fun inaction :: "string \<Rightarrow> nudge \<Rightarrow> bool" where
  "inaction w (InviteUnaccepted ow m) = (ow = w)"
| "inaction w (UnusedPassNudge ow to gids) = (ow = w)"
| "inaction w _ = False"

definition inaction_times :: "string \<Rightarrow> upkeep \<Rightarrow> time list" where
  "inaction_times w u = map fst (filter (\<lambda>tn. inaction w (snd tn)) (uk_Notes u))"

definition last_nudge :: "string \<Rightarrow> upkeep \<Rightarrow> time option" where
  "last_nudge w u = fl_LastNudge (flags_of w (uk_Estate u))"

definition spaced :: "string \<Rightarrow> upkeep \<Rightarrow> bool" where
  "spaced w u \<longleftrightarrow> sorted_wrt (\<lambda>a b. nowUTC a + inactionNudgeGap \<le> nowUTC b) (inaction_times w u)
     \<and> (\<forall>t \<in> set (inaction_times w u). \<exists>l. last_nudge w u = Some l \<and> nowUTC t \<le> l)"

lemma last_nudge_marks:
  "last_nudge w (send_note e n u) = last_nudge w u"
  "last_nudge w (marked e m (MarkOnboardNudgeSent v t) u) = last_nudge w u"
  "last_nudge w (marked e m (MarkFortnightNudgeSent v t) u) = last_nudge w u"
  "last_nudge w (marked e m (on_tables f) u) = last_nudge w u"
  "last_nudge w (mark_passes e gids u) = last_nudge w u"
  "reliable e \<Longrightarrow> last_nudge w (noteInactionNudged e v u)
     = (if w = v then Some (nowUTC (ue_Now e)) else last_nudge w u)"
proof -
  show "last_nudge w (mark_passes e gids u) = last_nudge w u"
    by (induction gids arbitrary: u) (simp_all add: mark_passes_def last_nudge_def marked_def)
qed (simp_all add: last_nudge_def marked_def nudge_mark_defs flags_of_set_flag reliable_def nowUTC_def)

lemma inaction_times_simps:
  "inaction_times w (send_note e n u) = inaction_times w u @
     (if ue_Send e n = Accepted \<and> inaction w n then [ue_Now e] else [])"
  "inaction_times w (marked e m f u) = inaction_times w u"
  "inaction_times w (mark_passes e gids u) = inaction_times w u"
  "inaction_times w (noteInactionNudged e v u) = inaction_times w u"
  by (simp_all add: inaction_times_def mark_passes_simps noteInactionNudged_def)

lemma spaced_cong:
  "inaction_times w u' = inaction_times w u \<Longrightarrow> last_nudge w u' = last_nudge w u \<Longrightarrow> spaced w u \<Longrightarrow> spaced w u'"
  by (simp add: spaced_def)

lemma spaced_core: "core u = core u' \<Longrightarrow> spaced w u \<Longrightarrow> spaced w u'"
  by (rule spaced_cong) (simp_all add: core_def inaction_times_def last_nudge_def flags_of_def)

text \<open>A note about inaction, recorded; without one only the record may move on.\<close>

lemma spaced_tell:
  assumes "spaced w u" and "InactionNudgeAllowed w (ue_Now e - inactionNudgeGap) (uk_Estate u)"
    and "inaction_times w u' = inaction_times w u \<or> inaction_times w u' = inaction_times w u @ [ue_Now e]"
    and "last_nudge w u' = Some (nowUTC (ue_Now e))"
  shows "spaced w u'"
proof -
  have "(ue_Now e + (- 604800) * 1000000000) div 1000000000 = - 604800 + ue_Now e div 1000000000"
    by (rule div_mult_self1) simp
  then have gap: "whole_seconds (ue_Now e - inactionNudgeGap) = nowUTC (ue_Now e) - inactionNudgeGap"
    by (simp add: nowUTC_def whole_seconds_def inactionNudgeGap_def hour_def minute_def second_def)
  have pos: "0 \<le> inactionNudgeGap" by (simp add: inactionNudgeGap_def hour_def minute_def second_def)
  have old: "nowUTC t + inactionNudgeGap \<le> nowUTC (ue_Now e)" if "t \<in> set (inaction_times w u)" for t
  proof -
    obtain l where "last_nudge w u = Some l" "nowUTC t \<le> l" using assms(1) \<open>t \<in> _\<close> by (auto simp: spaced_def)
    then show ?thesis using assms(2) gap by (simp add: InactionNudgeAllowed_def last_nudge_def)
  qed
  show ?thesis using assms(1,3,4) old pos
    by (fastforce simp: spaced_def sorted_wrt_append)
qed

lemma spaced_steps:
  assumes "reliable e" and "spaced w u"
  shows "spaced w (onboard_one e v u)" and "spaced w (fortnight_one e v u)"
    and "spaced w (invite_one e p u)" and "spaced w (passes_one e q u)"
proof -
  show "spaced w (onboard_one e v u)"
    by (rule spaced_cong [OF _ _ assms(2)]) (simp_all add: onboard_one_def Let_def inaction_times_simps last_nudge_marks)
  show "spaced w (fortnight_one e v u)"
    by (rule spaced_cong [OF _ _ assms(2)]) (simp_all add: fortnight_one_def Let_def inaction_times_simps last_nudge_marks)
  show "spaced w (invite_one e p u)"
  proof (cases "fst p = w \<and> \<not> ue_ReadFails e (QAllowed w) \<and> InactionNudgeAllowed w (ue_Now e - inactionNudgeGap) (uk_Estate u)
      \<and> settled_send e (InviteUnaccepted w (snd p))")
    case True
    show ?thesis
      by (rule spaced_tell [OF assms(2), of e])
        (use True assms(1) in \<open>auto simp: invite_one_def Let_def inaction_times_simps last_nudge_marks\<close>)
  next
    case False
    show ?thesis
      by (rule spaced_cong [OF _ _ assms(2)])
        (use False assms(1) in \<open>auto simp: invite_one_def Let_def inaction_times_simps last_nudge_marks settled_send_def\<close>)
  qed
  show "spaced w (passes_one e q u)"
  proof (cases "passes_one e q u = u")
    case True
    then show ?thesis using assms(2) by simp
  next
    case changed: False
    note r = assms(1) [unfolded reliable_def]
    show ?thesis
    proof (cases "fst q = w")
      case True
      then have a: "InactionNudgeAllowed w (ue_Now e - inactionNudgeGap) (uk_Estate u)"
        and s: "settled_send e (UnusedPassNudge (fst q) (first_seen (concat (map up_To (snd q)))) (map up_GrantID (snd q)))"
        and q: "\<not> ue_ReadFails e (QAllowed (fst q))"
        using changed by (auto simp: passes_one_def Let_def split: if_splits)
      have "inaction_times w (passes_one e q u) = inaction_times w u
          \<or> inaction_times w (passes_one e q u) = inaction_times w u @ [ue_Now e]"
        using True a s q r by (simp add: passes_one_def Let_def inaction_times_simps list_ex_iff)
      moreover have "last_nudge w (passes_one e q u) = Some (nowUTC (ue_Now e))"
        using True a s q r assms(1) by (simp add: passes_one_def Let_def last_nudge_marks list_ex_iff)
      ultimately show ?thesis by (rule spaced_tell [OF assms(2) a])
    next
      case False
      show ?thesis
        by (rule spaced_cong [OF _ _ assms(2)])
          (use False assms(1) in \<open>simp_all add: passes_one_def Let_def inaction_times_simps last_nudge_marks\<close>)
    qed
  qed
qed

lemma spaced_sweep:
  assumes "reliable e" and "spaced w u" shows "spaced w (sweepGuestRequests e u)"
proof -
  note steps = spaced_steps [OF assms(1)]
  have keep: "spaced w (sweepOnboardNudges e v)" "spaced w (sweepFortnightNudges e v)"
    "spaced w (sweepInviteReminders e v)" "spaced w (sweepUnusedPassNudges e v)" if "spaced w v" for v
    using that by (auto simp: sweepOnboardNudges_def sweepFortnightNudges_def sweepInviteReminders_def
      sweepUnusedPassNudges_def Let_def intro!: fold_keeps [where P = "spaced w"] steps)
  show ?thesis unfolding sweepGuestRequests_def
    by (intro spaced_core [OF snapshot_core [symmetric]] keep spaced_core [OF retention_core [symmetric]] assms(2))
qed

text \<open>an account hears about somebody else's inaction, an invitation nobody accepted or a pass nobody
  used, at most once a week, over any number of sweeps and whatever else happens between them.\<close>

theorem inaction_notes_are_a_week_apart:
  assumes "upkeep_reach t u"
  shows "sorted_wrt (\<lambda>a b. nowUTC a + inactionNudgeGap \<le> nowUTC b) (inaction_times w u)"
proof -
  have "spaced w u" using assms
  proof (induction rule: upkeep_reach.induct)
    case (start u t)
    then show ?case by (simp add: spaced_def inaction_times_def)
  next
    case (sweep t u e)
    then show ?case by (intro spaced_sweep)
  next
    case (elsewhere t u es')
    then show ?case
      by (intro spaced_cong [OF _ _ elsewhere.IH]) (simp_all add: inaction_times_def last_nudge_def carries_on_def)
  qed
  then show ?thesis by (simp add: spaced_def)
qed

section \<open>The note that is held is lost\<close>

lemma invite_one_due: "reliable e \<Longrightarrow> due s (uk_Estate (invite_one e p u)) \<Longrightarrow> due s (uk_Estate u)"
  by (auto simp: invite_one_def Let_def due_marks noteInactionNudged_def split: if_splits)

lemma fold_invite_due: "reliable e \<Longrightarrow> due s (uk_Estate (fold (invite_one e) ps u)) \<Longrightarrow> due s (uk_Estate u)"
  by (induction ps arbitrary: u) (auto dest: invite_one_due)

definition hushed :: "upkeep_env \<Rightarrow> string \<Rightarrow> upkeep \<Rightarrow> bool" where
  "hushed e ow u \<longleftrightarrow> \<not> InactionNudgeAllowed ow (ue_Now e - inactionNudgeGap) (uk_Estate u)"

lemma hushed_invite:
  assumes "reliable e" and "hushed e ow u"
  shows "hushed e ow (invite_one e p u)"
    and "heard (AboutUnaccepted ow m) (uk_Notes (invite_one e p u)) = heard (AboutUnaccepted ow m) (uk_Notes u)"
proof -
  show "hushed e ow (invite_one e p u)"
  proof (cases "fst p = ow")
    case True
    then show ?thesis using assms
      by (simp add: hushed_def InactionNudgeAllowed_def last_nudge_def [symmetric] invite_one_def Let_def last_nudge_marks
        split: option.splits)
  next
    case False
    then have "last_nudge ow (invite_one e p u) = last_nudge ow u"
      using assms(1) by (simp add: invite_one_def Let_def last_nudge_marks)
    then show ?thesis using assms(2) by (simp add: hushed_def InactionNudgeAllowed_def last_nudge_def)
  qed
  show "heard (AboutUnaccepted ow m) (uk_Notes (invite_one e p u)) = heard (AboutUnaccepted ow m) (uk_Notes u)"
    using assms by (auto simp: invite_one_def Let_def heard_simps noteInactionNudged_def hushed_def)
qed

text \<open>the account holder's note about an unaccepted invitation is lost, not postponed, when the gap
  holds it back while the invited person is reminded: the invitation counts as reminded, so the
  holder was not told and no later sweep will pick the invitation up again.\<close>

theorem a_held_note_about_an_invitation_is_lost:
  assumes "reliable e" and "ue_Email e" and "\<not> ue_ReadFails e QInvites" and "\<not> ue_ReadFails e (QAllowed ow)"
    and "(ow, m) \<in> set (InviteReminderCandidates (ue_Now e - inviteReminderAfter) (es_Tables (uk_Estate u)))"
    and "hushed e ow u" and "settled_send e (InviteReminder m ow)"
  shows "heard (AboutUnaccepted ow m) (uk_Notes (sweepInviteReminders e u)) = heard (AboutUnaccepted ow m) (uk_Notes u)
    \<and> \<not> due (AboutUnaccepted ow m) (uk_Estate (sweepInviteReminders e u))
    \<and> (ow, m) \<notin> set (InviteReminderCandidates next_time (es_Tables (uk_Estate (sweepInviteReminders e u))))"
proof -
  define ps where "ps = InviteReminderCandidates (ue_Now e - inviteReminderAfter) (es_Tables (uk_Estate u))"
  have sweep: "sweepInviteReminders e u = fold (invite_one e) ps u"
    using assms(2,3) by (simp add: sweepInviteReminders_def ps_def)
  have quiet: "hushed e ow (fold (invite_one e) qs v) \<and> heard (AboutUnaccepted ow m) (uk_Notes (fold (invite_one e) qs v))
      = heard (AboutUnaccepted ow m) (uk_Notes v)" if "hushed e ow v" for qs v
    using that by (induction qs arbitrary: v) (auto simp: hushed_invite [OF assms(1)])
  obtain as bs where split: "ps = as @ (ow, m) # bs" using assms(5) ps_def by (metis split_list)
  let ?v = "fold (invite_one e) as u"
  have "\<not> due (AboutUnaccepted ow m) (uk_Estate (invite_one e (ow, m) ?v))"
    using assms(1,4,7) by (simp add: invite_one_def Let_def due_marks)
  then have gone: "\<not> due (AboutUnaccepted ow m) (uk_Estate (sweepInviteReminders e u))"
    using fold_invite_due [OF assms(1), of "AboutUnaccepted ow m" bs] by (auto simp: sweep split)
  moreover have "(ow, m) \<notin> set (InviteReminderCandidates next_time (es_Tables (uk_Estate (sweepInviteReminders e u))))"
    using gone by (auto simp: InviteReminderCandidates_def open_offer_def list_ex_iff)
  ultimately show ?thesis using quiet [OF assms(6)] by (simp add: sweep)
qed

section \<open>Instances\<close>

text \<open>Amy invited two people weeks ago; neither has answered.\<close>

definition w_day :: time where "w_day = 30 * 24 * hour"

definition w_offer :: "string \<Rightarrow> account_member" where
  "w_offer m = \<lparr>am_Member = m, am_Owner = ''amy'', am_AddedAt = 0, am_Pending = True, am_RemindedAt = None\<rparr>"

definition w_quiet_estate :: estate where
  "w_quiet_estate = \<lparr>es_Tables = empty_tables\<lparr>tb_Members := [w_offer ''bob'', w_offer ''kim'']\<rparr>,
     es_Sessions = [], es_Selected = Map.empty, es_TenantCache = Map.empty, es_TenantEpoch = 0,
     es_Applied = [], es_Notified = Map.empty, es_FailStreak = (\<lambda>_. 0), es_Prefs = [],
     es_Consents = [\<lparr>co_Owner = ''zoe'', co_Version = ''1'', co_Hash = [], co_AgreedAt = w_day - 3 * 24 * hour\<rparr>],
     es_Milestones = [], es_Flags = Map.empty, es_Outbox = [], es_Log = [], es_Referrals = [], es_Suppressed = []\<rparr>"

definition w_upkeep :: upkeep where
  "w_upkeep = \<lparr>uk_Estate = w_quiet_estate, uk_Mailbox = empty_mailbox, uk_Notes = [],
     uk_NudgeAfter = onboardNudgeAfter, uk_NudgeLookback = onboardNudgeLookback, uk_SnapshotPath = [],
     uk_LastSnapshot = zero_time, uk_LastSnapshotAttempt = zero_time, uk_Alerts = []\<rparr>"

definition w_env :: "time \<Rightarrow> upkeep_env" where
  "w_env now = \<lparr>ue_Now = now, ue_Email = True, ue_Send = (\<lambda>n. Accepted), ue_ReadFails = (\<lambda>q. False),
     ue_MarkFails = (\<lambda>m. False), ue_PruneFails = (\<lambda>r. False), ue_SnapshotFails = False\<rparr>"

definition w_swept :: upkeep where "w_swept = sweepGuestRequests (w_env w_day) w_upkeep"

lemma w_swept_reach: "upkeep_reach w_day w_swept"
proof -
  have "upkeep_reach w_day w_upkeep"
    by (rule upkeep_reach.start) (simp_all add: w_upkeep_def w_quiet_estate_def keyed_def w_offer_def empty_tables_def)
  then have "upkeep_reach (ue_Now (w_env w_day)) (sweepGuestRequests (w_env w_day) w_upkeep)"
    by (rule upkeep_reach.sweep) (simp_all add: w_env_def reliable_def)
  then show ?thesis by (simp add: w_swept_def w_env_def)
qed

lemma w_swept_notes: "map snd (uk_Notes w_swept) =
   [OnboardNudge ''zoe'', InviteReminder ''bob'' ''amy'', InviteUnaccepted ''amy'' ''bob'', InviteReminder ''kim'' ''amy'']"
  by code_simp

theorem once_ever_notes_go_out_once_witness:
  "length (uk_Notes w_swept) = 4 \<and> heard (AboutOnboard ''zoe'') (uk_Notes w_swept) = 1
    \<and> \<not> due (AboutOnboard ''zoe'') (uk_Estate w_swept)"
proof -
  have "length (uk_Notes w_swept) = 4" using arg_cong [OF w_swept_notes, of length] by simp
  moreover have "heard (AboutOnboard ''zoe'') (uk_Notes w_swept) = 1" by code_simp
  ultimately show ?thesis using once_ever_notes_go_out_once [OF w_swept_reach, of "AboutOnboard ''zoe''"] by simp
qed

theorem inaction_notes_are_a_week_apart_witness:
  "inaction_times ''amy'' w_swept = [w_day]
    \<and> sorted_wrt (\<lambda>a b. nowUTC a + inactionNudgeGap \<le> nowUTC b) (inaction_times ''amy'' w_swept)"
proof -
  have "inaction_times ''amy'' w_swept = [w_day]" by code_simp
  then show ?thesis using inaction_notes_are_a_week_apart [OF w_swept_reach, of "''amy''"] by simp
qed

definition w_after_bob :: upkeep where
  "w_after_bob = invite_one (w_env w_day) (''amy'', ''bob'') w_upkeep"

theorem a_held_note_about_an_invitation_is_lost_witness:
  "due (AboutUnaccepted ''amy'' ''kim'') (uk_Estate w_after_bob)
    \<and> heard (AboutUnaccepted ''amy'' ''kim'') (uk_Notes (sweepInviteReminders (w_env w_day) w_after_bob)) = 0
    \<and> \<not> due (AboutUnaccepted ''amy'' ''kim'') (uk_Estate (sweepInviteReminders (w_env w_day) w_after_bob))"
proof -
  have e: "reliable (w_env w_day)" "ue_Email (w_env w_day)" "\<not> ue_ReadFails (w_env w_day) QInvites"
    "\<not> ue_ReadFails (w_env w_day) (QAllowed ''amy'')" "settled_send (w_env w_day) (InviteReminder ''kim'' ''amy'')"
    by (simp_all add: w_env_def reliable_def settled_send_def)
  have c: "(''amy'', ''kim'') \<in> set (InviteReminderCandidates (ue_Now (w_env w_day) - inviteReminderAfter)
      (es_Tables (uk_Estate w_after_bob)))"
    and h: "hushed (w_env w_day) ''amy'' w_after_bob"
    and d: "due (AboutUnaccepted ''amy'' ''kim'') (uk_Estate w_after_bob)"
    and n: "heard (AboutUnaccepted ''amy'' ''kim'') (uk_Notes w_after_bob) = 0"
    by code_simp+
  show ?thesis using a_held_note_about_an_invitation_is_lost [OF e(1-4) c h e(5)] d n by simp
qed

end
