(* ===== verification/SignIn.thy ===== *)
theory SignIn
  imports Accounts Links
begin

text \<open>
  The app's own sign-in: the signed, sliding session cookie (internal/session/session.go), the
  generation counters that make it revocable (internal/store/sessions.go), the OIDC login
  (internal/webauth/webauth.go, internal/store/oauth.go) and the order in which a request's identity
  is resolved (internal/identity/identity.go). HMAC-SHA256 under the server's secret and the JSON
  form of the payload are parameters; base64url is written out in \<^theory_text>\<open>Links\<close>.
\<close>

section \<open>The session cookie\<close>

record user =
  u_Email :: string
  u_Name :: string
  u_Groups :: "string list"

definition IsAdmin :: "user \<Rightarrow> bool" where
  "IsAdmin u \<longleftrightarrow> list_ex (\<lambda>g. g = ''admin'') (u_Groups u)"

record payload =
  pl_Email :: string
  pl_Name :: string
  pl_Groups :: "string list"
  pl_Exp :: int
  pl_Iat :: int
  pl_Ep :: int

record cookie =
  ck_Name :: string
  ck_Value :: string
  ck_Path :: string
  ck_Secure :: bool
  ck_MaxAge :: int

record manager =
  sm_Secure :: bool
  sm_TTL :: dur
  sm_MaxAge :: dur
  sm_Epochs :: "string \<rightharpoonup> int"

text \<open>HMAC-SHA256 under the secret, and \<open>json.Marshal\<close> / \<open>json.Unmarshal\<close> of a payload.\<close>

record codec =
  cx_mac :: "string \<Rightarrow> string"
  cx_json :: "payload \<Rightarrow> string"
  cx_unjson :: "string \<Rightarrow> payload option"

definition cookieName :: string where "cookieName = ''pstonn_session''"
definition hostCookieName :: string where "hostCookieName = ''__Host-pstonn_session''"

definition NewManager :: "bool \<Rightarrow> manager" where
  "NewManager secure = \<lparr>sm_Secure = secure, sm_TTL = 12 * hour, sm_MaxAge = 7 * 24 * hour, sm_Epochs = Map.empty\<rparr>"

text \<open>A Go map is filled key by key; of two keys with one normal form the later one stays.\<close>

definition SetEpochs :: "(string \<times> int) list \<Rightarrow> manager \<Rightarrow> manager" where
  "SetEpochs es m = m\<lparr>sm_Epochs := map_of (rev (map (\<lambda>(k, v). (normaliseAddr k, v)) es))\<rparr>"

definition RevokeTo :: "string \<Rightarrow> int \<Rightarrow> manager \<Rightarrow> manager" where
  "RevokeTo email epoch m = m\<lparr>sm_Epochs := (sm_Epochs m)(normaliseAddr email \<mapsto> epoch)\<rparr>"

definition epochFor :: "manager \<Rightarrow> string \<Rightarrow> int" where
  "epochFor m email = (case sm_Epochs m (normaliseAddr email) of None \<Rightarrow> 0 | Some v \<Rightarrow> v)"

definition issuedCookieName :: "manager \<Rightarrow> string" where
  "issuedCookieName m = (if sm_Secure m then hostCookieName else cookieName)"

text \<open>\<open>Time.Unix\<close>: whole seconds, rounding down.\<close>

definition unix :: "time \<Rightarrow> int" where "unix t = t div second"

definition sign_cookie :: "codec \<Rightarrow> string \<Rightarrow> string" where
  "sign_cookie C b = b64_encode (cx_mac C b)"

definition seal_cookie :: "codec \<Rightarrow> payload \<Rightarrow> string" where
  "seal_cookie C p = (let b = b64_encode (cx_json C p) in b @ ''.'' @ sign_cookie C b)"

definition issued_payload :: "manager \<Rightarrow> user \<Rightarrow> int \<Rightarrow> time \<Rightarrow> payload" where
  "issued_payload m u iat now =
     \<lparr>pl_Email = u_Email u, pl_Name = u_Name u, pl_Groups = u_Groups u,
      pl_Exp = unix (now + sm_TTL m), pl_Iat = iat, pl_Ep = epochFor m (u_Email u)\<rparr>"

definition issue :: "codec \<Rightarrow> manager \<Rightarrow> user \<Rightarrow> int \<Rightarrow> time \<Rightarrow> cookie" where
  "issue C m u iat now =
     \<lparr>ck_Name = issuedCookieName m, ck_Value = seal_cookie C (issued_payload m u iat now),
      ck_Path = ''/'', ck_Secure = sm_Secure m, ck_MaxAge = sm_TTL m div second\<rparr>"

definition Issue :: "codec \<Rightarrow> manager \<Rightarrow> user \<Rightarrow> time \<Rightarrow> cookie" where
  "Issue C m u now = issue C m u (unix now) now"

definition Clear :: "manager \<Rightarrow> cookie list" where
  "Clear m = map (\<lambda>n. \<lparr>ck_Name = n, ck_Value = [], ck_Path = ''/'', ck_Secure = sm_Secure m, ck_MaxAge = -1\<rparr>)
     (if cookieName \<noteq> issuedCookieName m then [issuedCookieName m, cookieName] else [issuedCookieName m])"

text \<open>The two halves of a value, with the signature checked.\<close>

definition authentic :: "codec \<Rightarrow> string \<Rightarrow> bool" where
  "authentic C v = (case cut_at (CHR ''.'') v of (b, sig, ok) \<Rightarrow> ok \<and> sig = sign_cookie C b)"

definition open_cookie :: "codec \<Rightarrow> string \<Rightarrow> payload option" where
  "open_cookie C v =
     (if \<not> authentic C v then None
      else Option.bind (b64_decode (fst (cut_at (CHR ''.'') v))) (cx_unjson C))"

definition ceiling_of :: "manager \<Rightarrow> user \<Rightarrow> dur" where
  "ceiling_of m u = (if IsAdmin u then sm_TTL m else sm_MaxAge m)"

text \<open>
  \<open>Decode\<close> reads the generations twice: for the check, under \<open>m\<close>, and in the renewal, under \<open>m'\<close>
  at the later instant \<open>now'\<close>. Nothing holds the lock in between.
\<close>

definition carried_user :: "payload \<Rightarrow> user" where
  "carried_user p = \<lparr>u_Email = pl_Email p, u_Name = pl_Name p, u_Groups = pl_Groups p\<rparr>"

definition accept_payload :: "manager \<Rightarrow> time \<Rightarrow> payload \<Rightarrow> bool" where
  "accept_payload m now p \<longleftrightarrow>
     unix now < pl_Exp p \<and> pl_Email p \<noteq> [] \<and> \<not> pl_Ep p < epochFor m (pl_Email p)
     \<and> \<not> (pl_Iat p \<noteq> 0 \<and> ceiling_of m (carried_user p) \<le> tsub now (pl_Iat p * second))"

definition renews :: "manager \<Rightarrow> time \<Rightarrow> bool \<Rightarrow> payload \<Rightarrow> bool" where
  "renews m now w p \<longleftrightarrow> w \<and> pl_Iat p \<noteq> 0 \<and> tsub (pl_Exp p * second) now < sm_TTL m div 2"

definition Decode ::
  "codec \<Rightarrow> manager \<Rightarrow> time \<Rightarrow> manager \<Rightarrow> time \<Rightarrow> bool \<Rightarrow> (string \<rightharpoonup> string) \<Rightarrow> user option \<times> cookie list"
where
  "Decode C m now m' now' w jar =
     (case jar (issuedCookieName m) of
        None \<Rightarrow> (None, [])
      | Some v \<Rightarrow>
         (case open_cookie C v of
            None \<Rightarrow> (None, [])
          | Some p \<Rightarrow>
             if \<not> accept_payload m now p then (None, [])
             else (Some (carried_user p),
                   if renews m now w p then [issue C m' (carried_user p) (pl_Iat p) now'] else [])))"

section \<open>The generations in the store\<close>

type_synonym epoch_table = "(string \<times> int) list"

definition SessionEpoch :: "string \<Rightarrow> epoch_table \<Rightarrow> int" where
  "SessionEpoch email0 tbl =
     (let email = normaliseAddr email0 in
      if email = [] then 0 else (case map_of tbl email of None \<Rightarrow> 0 | Some v \<Rightarrow> v))"

definition BumpSessionEpoch :: "string \<Rightarrow> epoch_table \<Rightarrow> int \<times> epoch_table" where
  "BumpSessionEpoch email0 tbl =
     (let email = normaliseAddr email0 in
      if email = [] then (0, tbl)
      else (case map_of tbl email of
          None \<Rightarrow> (1, tbl @ [(email, 1)])
        | Some v \<Rightarrow> (v + 1, map (\<lambda>r. if fst r = email then (email, snd r + 1) else r) tbl)))"

definition AllSessionEpochs :: "epoch_table \<Rightarrow> (string \<times> int) list" where
  "AllSessionEpochs tbl = map (\<lambda>(e, v). (to_lower (trim_space e), v)) (filter (\<lambda>r. snd r \<noteq> 0) tbl)"

text \<open>\<open>revokeSessions\<close> of internal/server/account.go; a failed bump leaves everything as it was.\<close>

definition revokeSessions :: "string \<Rightarrow> bool \<Rightarrow> epoch_table \<times> manager \<Rightarrow> epoch_table \<times> manager" where
  "revokeSessions email stored sm =
     (case sm of (tbl, m) \<Rightarrow>
        if email = [] \<or> \<not> stored then (tbl, m)
        else (case BumpSessionEpoch email tbl of (epoch, tbl') \<Rightarrow> (tbl', RevokeTo email epoch m)))"

section \<open>The login\<close>

record oauth_state =
  oa_State :: string
  oa_Verifier :: string
  oa_Nonce :: string
  oa_Kind :: string
  oa_CreatedAt :: time

definition oauthStateTTL :: dur where "oauthStateTTL = 15 * minute"

text \<open>
  The sweep is best effort: \<open>swept\<close> says whether it worked, \<open>stored\<close> whether the insertion reached the
  database. \<open>state\<close> is the primary key.
\<close>

definition PutOAuthState ::
  "string \<Rightarrow> string \<Rightarrow> string \<Rightarrow> string \<Rightarrow> bool \<Rightarrow> bool \<Rightarrow> time \<Rightarrow> oauth_state list \<Rightarrow>
   store_err option \<times> oauth_state list"
where
  "PutOAuthState st verifier nonce kind swept stored now tbl =
     (let tbl' = (if swept then filter (\<lambda>r. \<not> oa_CreatedAt r < whole_seconds (now - oauthStateTTL)) tbl else tbl) in
      if \<not> stored then (Some (BadCall ''oauth_state''), tbl')
      else if list_ex (\<lambda>r. oa_State r = st) tbl' then (Some ConstraintFailed, tbl')
      else (None, tbl' @ [\<lparr>oa_State = st, oa_Verifier = verifier, oa_Nonce = nonce, oa_Kind = kind,
                           oa_CreatedAt = nowUTC now\<rparr>]))"

definition live_state :: "string \<Rightarrow> time \<Rightarrow> oauth_state \<Rightarrow> bool" where
  "live_state st now r \<longleftrightarrow> oa_State r = st \<and> whole_seconds (now - oauthStateTTL) \<le> oa_CreatedAt r"

definition TakeOAuthState :: "string \<Rightarrow> time \<Rightarrow> oauth_state list \<Rightarrow> oauth_state outcome \<times> oauth_state list" where
  "TakeOAuthState st now tbl =
     ((case find (live_state st now) tbl of None \<Rightarrow> Inl NotFound | Some r \<Rightarrow> Inr r),
      filter (\<lambda>r. \<not> live_state st now r) tbl)"

definition stateCookie :: string where "stateCookie = ''pstonn_oauth_state''"
definition hostStateCookie :: string where "hostStateCookie = ''__Host-pstonn_oauth_state''"

definition stateCookieTTL :: dur where "stateCookieTTL = 15 * minute"

record authenticator =
  az_AdminGroups :: "string \<Rightarrow> bool"
  az_CookieSecure :: bool

definition stateCookieName :: "authenticator \<Rightarrow> string" where
  "stateCookieName a = (if az_CookieSecure a then hostStateCookie else stateCookie)"

definition setStateCookie :: "authenticator \<Rightarrow> string \<Rightarrow> cookie" where
  "setStateCookie a st = \<lparr>ck_Name = stateCookieName a, ck_Value = st, ck_Path = ''/'',
     ck_Secure = az_CookieSecure a, ck_MaxAge = stateCookieTTL div second\<rparr>"

definition clearStateCookie :: "authenticator \<Rightarrow> cookie list" where
  "clearStateCookie a = map (\<lambda>(n, path). \<lparr>ck_Name = n, ck_Value = [], ck_Path = path,
     ck_Secure = az_CookieSecure a, ck_MaxAge = -1\<rparr>) [(stateCookieName a, ''/''), (stateCookie, ''/auth/'')]"

definition stateMatchesBrowser :: "authenticator \<Rightarrow> (string \<rightharpoonup> string) \<Rightarrow> string \<Rightarrow> bool" where
  "stateMatchesBrowser a jar st =
     (if st = [] then False
      else (case jar (stateCookieName a) of None \<Rightarrow> False | Some v \<Rightarrow> v \<noteq> [] \<and> v = st))"

definition deriveGroups :: "authenticator \<Rightarrow> string list \<Rightarrow> string list" where
  "deriveGroups a gs = (if list_ex (az_AdminGroups a) gs then [''user'', ''admin''] else [''user''])"

definition firstNonEmpty :: "string list \<Rightarrow> string" where
  "firstNonEmpty vals = (case find (\<lambda>v. v \<noteq> []) vals of None \<Rightarrow> [] | Some v \<Rightarrow> v)"

text \<open>The answer of a page: what it says and the cookies it sets.\<close>

datatype page = SentTo string | Unauthorized string | BadRequest string | InternalError

text \<open>Three tokens from the system's entropy, \<open>None\<close> when it failed; the target is the provider's page.\<close>

definition Login ::
  "authenticator \<Rightarrow> (string \<times> string \<times> string) option \<Rightarrow> bool \<Rightarrow> bool \<Rightarrow> (string \<Rightarrow> string \<Rightarrow> string \<Rightarrow> string) \<Rightarrow>
   time \<Rightarrow> oauth_state list \<Rightarrow> (page \<times> cookie list) \<times> oauth_state list"
where
  "Login a tokens swept stored auth_url now tbl =
     (case tokens of
        None \<Rightarrow> ((InternalError, []), tbl)
      | Some (st, nonce, verifier) \<Rightarrow>
         (case PutOAuthState st verifier nonce ''app'' swept stored now tbl of
             (Some e, tbl') \<Rightarrow> ((InternalError, []), tbl')
           | (None, tbl') \<Rightarrow> ((SentTo (auth_url st nonce verifier), [setStateCookie a st]), tbl')))"

text \<open>
  What the identity provider answers: the exchange of the code under a verifier, the verification of
  the ID token, its nonce and its claims.
\<close>

record claims =
  cl_Email :: string
  cl_EmailVerified :: "bool option"
  cl_Name :: string
  cl_PreferredUsername :: string
  cl_Groups :: "string list"

record idp =
  ip_Exchange :: "string \<Rightarrow> string \<Rightarrow> string option option"
  ip_Verify :: "string \<Rightarrow> (string \<times> claims option) option"

definition login_user :: "authenticator \<Rightarrow> claims \<Rightarrow> user" where
  "login_user a c = \<lparr>u_Email = to_lower (trim_space (cl_Email c)),
     u_Name = firstNonEmpty [cl_Name c, cl_PreferredUsername c, cl_Email c],
     u_Groups = deriveGroups a (cl_Groups c)\<rparr>"

text \<open>The answers after the state was taken, in the order of the code.\<close>

definition finish_login :: "authenticator \<Rightarrow> idp \<Rightarrow> codec \<Rightarrow> manager \<Rightarrow> time \<Rightarrow> string \<Rightarrow> oauth_state \<Rightarrow> page \<times> cookie list" where
  "finish_login a I C m now code st =
     (case ip_Exchange I code (oa_Verifier st) of
        None \<Rightarrow> (Unauthorized ''token exchange failed'', [])
      | Some None \<Rightarrow> (Unauthorized ''no id_token in response'', [])
      | Some (Some raw) \<Rightarrow>
         (case ip_Verify I raw of
            None \<Rightarrow> (Unauthorized ''id_token verification failed'', [])
          | Some (nonce, cl) \<Rightarrow>
             if nonce \<noteq> oa_Nonce st then (Unauthorized ''nonce mismatch'', [])
             else (case cl of
                 None \<Rightarrow> (Unauthorized ''cannot read claims'', [])
               | Some c \<Rightarrow>
                   if u_Email (login_user a c) = [] then (Unauthorized ''no email claim'', [])
                   else if cl_EmailVerified c \<noteq> Some True then (Unauthorized ''email not verified'', [])
                   else (SentTo ''/'', [Issue C m (login_user a c) now]))))"

definition Callback ::
  "authenticator \<Rightarrow> idp \<Rightarrow> codec \<Rightarrow> manager \<Rightarrow> time \<Rightarrow> (string \<rightharpoonup> string) \<Rightarrow> string \<Rightarrow> string \<Rightarrow> string \<Rightarrow>
   oauth_state list \<Rightarrow> (page \<times> cookie list) \<times> oauth_state list"
where
  "Callback a I C m now jar err st code tbl =
     (if err \<noteq> [] then ((Unauthorized (''login failed: '' @ err), []), tbl)
      else if \<not> stateMatchesBrowser a jar st
      then ((BadRequest ''this sign-in link was not started in this browser'', clearStateCookie a), tbl)
      else (case TakeOAuthState st now tbl of
          (Inl _, tbl') \<Rightarrow> ((BadRequest ''invalid or expired login state'', clearStateCookie a), tbl')
        | (Inr s, tbl') \<Rightarrow>
            if oa_Kind s \<noteq> ''app''
            then ((BadRequest ''invalid or expired login state'', clearStateCookie a), tbl')
            else (case finish_login a I C m now code s of
                (pg, cks) \<Rightarrow> ((pg, clearStateCookie a @ cks), tbl'))))"

definition Logout :: "manager \<Rightarrow> page \<times> cookie list" where
  "Logout m = (SentTo ''/'', Clear m)"

section \<open>A world of cookies\<close>

text \<open>
  What the statements quantify over: the running process, the table, every cookie value ever handed
  out, who signed in when, and the clock. A browser or a thief may present any text at all, except
  one whose signature verifies without having been issued.
\<close>

record realm =
  rl_Man :: manager
  rl_Table :: epoch_table
  rl_Issued :: "string list"
  rl_Renewing :: "(manager \<times> time \<times> string) list"
  rl_Revoking :: "(string \<times> int) list"
  rl_Logins :: "(user \<times> time) list"
  rl_Now :: time

text \<open>
  The two operations that read and then write without holding a lock are two events each, so
  anything can happen in between. \<open>Decode\<close> checks a cookie (\<open>Presents\<close>) and, if it renews,
  reads the generation for the new one later (\<open>Stamps\<close>); \<open>revokeSessions\<close> bumps the generation
  in the table (\<open>Bumps\<close>) and then tells the manager the value it got (\<open>Records\<close>). What is
  between its two halves is a row of \<open>rl_Renewing\<close> (the manager, the clock and the cookie of the
  check) or of \<open>rl_Revoking\<close> (the person and the value); a restart forgets both. A bump that
  fails is no event.
\<close>

datatype session_event =
    SignsIn user
  | Presents string
  | Stamps nat
  | Bumps string
  | Records nat
  | Restarts bool
  | Waits dur

definition realm_start :: "bool \<Rightarrow> time \<Rightarrow> realm" where
  "realm_start secure now = \<lparr>rl_Man = NewManager secure, rl_Table = [], rl_Issued = [], rl_Renewing = [],
     rl_Revoking = [], rl_Logins = [], rl_Now = now\<rparr>"

definition one_cookie :: "manager \<Rightarrow> string \<Rightarrow> string \<rightharpoonup> string" where
  "one_cookie m v = [issuedCookieName m \<mapsto> v]"

primrec session_do :: "codec \<Rightarrow> session_event \<Rightarrow> realm \<Rightarrow> realm" where
  "session_do C (SignsIn u) r =
     r\<lparr>rl_Issued := rl_Issued r @ [ck_Value (Issue C (rl_Man r) u (rl_Now r))],
       rl_Logins := rl_Logins r @ [(u, rl_Now r)]\<rparr>"
| "session_do C (Presents v) r = r\<lparr>rl_Renewing := rl_Renewing r @ [(rl_Man r, rl_Now r, v)]\<rparr>"
| "session_do C (Stamps i) r =
     (case drop i (rl_Renewing r) of
        [] \<Rightarrow> r
      | (m, t, v) # rest \<Rightarrow>
          r\<lparr>rl_Issued := rl_Issued r @ map ck_Value (snd (Decode C m t (rl_Man r) (rl_Now r) True (one_cookie m v))),
            rl_Renewing := take i (rl_Renewing r) @ rest\<rparr>)"
| "session_do C (Bumps email) r =
     (if email = [] then r
      else (case BumpSessionEpoch email (rl_Table r) of (n, tbl) \<Rightarrow>
              r\<lparr>rl_Table := tbl, rl_Revoking := rl_Revoking r @ [(email, n)]\<rparr>))"
| "session_do C (Records i) r =
     (case drop i (rl_Revoking r) of
        [] \<Rightarrow> r
      | (email, n) # rest \<Rightarrow>
          r\<lparr>rl_Man := RevokeTo email n (rl_Man r), rl_Revoking := take i (rl_Revoking r) @ rest\<rparr>)"
| "session_do C (Restarts secure) r =
     r\<lparr>rl_Man := SetEpochs (AllSessionEpochs (rl_Table r)) (NewManager secure), rl_Renewing := [], rl_Revoking := []\<rparr>"
| "session_do C (Waits d) r = r\<lparr>rl_Now := rl_Now r + d\<rparr>"

text \<open>A revocation nothing comes in between of is \<open>revokeSessions\<close>.\<close>

lemma a_revocation_in_two_steps:
  assumes "rl_Revoking r = []" and "email \<noteq> []"
  shows "session_do C (Records 0) (session_do C (Bumps email) r) =
    (case revokeSessions email True (rl_Table r, rl_Man r) of (tbl, m) \<Rightarrow> r\<lparr>rl_Table := tbl, rl_Man := m\<rparr>)"
  using assms by (simp add: revokeSessions_def split: prod.split)

fun possible :: "codec \<Rightarrow> session_event \<Rightarrow> realm \<Rightarrow> bool" where
  "possible C (Presents v) r \<longleftrightarrow> (authentic C v \<longrightarrow> v \<in> set (rl_Issued r))"
| "possible C (Waits d) r \<longleftrightarrow> 0 \<le> d"
| "possible C ev r \<longleftrightarrow> True"

inductive session_run :: "codec \<Rightarrow> realm \<Rightarrow> session_event list \<Rightarrow> realm \<Rightarrow> bool" for C :: codec where
  session_nil: "session_run C r [] r"
| session_step: "possible C e r \<Longrightarrow> session_run C (session_do C e r) es r' \<Longrightarrow> session_run C r (e # es) r'"

inductive_simps session_run_simps: "session_run C r [] r'" "session_run C r (e # es) r'"

lemma session_run_append:
  "session_run C r (es @ es') r' \<longleftrightarrow> (\<exists>m. session_run C r es m \<and> session_run C m es' r')"
  by (induction es arbitrary: r) (auto simp: session_run_simps)

section \<open>Cookies open to what was sealed\<close>

lemma cut_at_clean: "CHR ''.'' \<notin> set b \<Longrightarrow> cut_at (CHR ''.'') (b @ ''.'' @ s) = (b, s, True)"
  using cut_at_append [of "CHR ''.''" b s] by simp

lemma open_sealed_cookie:
  assumes "cx_unjson C (cx_json C p) = Some p"
  shows "open_cookie C (seal_cookie C p) = Some p"
  using assms b64_encode_clean(1) [of "cx_json C p"]
  by (simp add: open_cookie_def seal_cookie_def authentic_def Let_def cut_at_clean b64_round_trip del: append.simps)

lemma open_authentic: "open_cookie C v = Some p \<Longrightarrow> authentic C v"
  by (simp add: open_cookie_def split: if_splits)

lemma decode_cases:
  "Decode C m now m' now' w jar =
     (case Option.bind (jar (issuedCookieName m)) (open_cookie C) of
        None \<Rightarrow> (None, [])
      | Some p \<Rightarrow> if accept_payload m now p
          then (Some (carried_user p), if renews m now w p then [issue C m' (carried_user p) (pl_Iat p) now'] else [])
          else (None, []))"
  by (simp add: Decode_def split: option.split)

section \<open>The invariant of the cookies\<close>

definition epochs_ok :: "epoch_table \<Rightarrow> bool" where
  "epochs_ok tbl \<longleftrightarrow> distinct (map fst tbl) \<and> list_all (\<lambda>r. normaliseAddr (fst r) = fst r \<and> fst r \<noteq> [] \<and> 0 < snd r) tbl"

definition in_step :: "manager \<Rightarrow> epoch_table \<Rightarrow> bool" where
  "in_step m tbl \<longleftrightarrow> (\<forall>e. epochFor m e = SessionEpoch e tbl)"

definition accounted :: "realm \<Rightarrow> payload \<Rightarrow> bool" where
  "accounted r p \<longleftrightarrow> pl_Ep p \<le> SessionEpoch (pl_Email p) (rl_Table r)
     \<and> (\<exists>s. (carried_user p, s) \<in> set (rl_Logins r) \<and> pl_Iat p = unix s \<and> s \<le> rl_Now r)"

definition realm_ok :: "codec \<Rightarrow> realm \<Rightarrow> bool" where
  "realm_ok C r \<longleftrightarrow> epochs_ok (rl_Table r) \<and> (\<forall>e. epochFor (rl_Man r) e \<le> SessionEpoch e (rl_Table r))
     \<and> sm_TTL (rl_Man r) = 12 * hour \<and> sm_MaxAge (rl_Man r) = 7 * 24 * hour
     \<and> (\<forall>(x, n) \<in> set (rl_Revoking r). n \<le> SessionEpoch x (rl_Table r))
     \<and> (\<forall>(m, t, v) \<in> set (rl_Renewing r). authentic C v \<longrightarrow> v \<in> set (rl_Issued r))
     \<and> (\<forall>v \<in> set (rl_Issued r). \<forall>p. open_cookie C v = Some p \<longrightarrow> accounted r p)"

definition exact :: "codec \<Rightarrow> bool" where
  "exact C \<longleftrightarrow> (\<forall>p. cx_unjson C (cx_json C p) = Some p)"

lemma bump_lookup:
  assumes "normaliseAddr e \<noteq> []" and "BumpSessionEpoch e tbl = (n, tbl')"
  shows "map_of tbl' = (map_of tbl)(normaliseAddr e \<mapsto> n)" and "n = SessionEpoch e tbl + 1"
proof -
  let ?k = "normaliseAddr e"
  have upd: "map_of (map (\<lambda>r. if fst r = k then (k, snd r + 1) else r) tbl) = (map_of tbl)(k := map_option (\<lambda>v. v + 1) (map_of tbl k))" for k :: string
    by (induction tbl) (auto simp: fun_eq_iff)
  have "map_of tbl' = (map_of tbl)(?k \<mapsto> n) \<and> n = SessionEpoch e tbl + 1"
  proof (cases "map_of tbl ?k")
    case None
    then have "map_of (tbl @ [(?k, 1)]) = (map_of tbl)(?k \<mapsto> 1)" by (auto simp: fun_eq_iff map_add_def split: option.splits)
    then show ?thesis using assms None by (auto simp: BumpSessionEpoch_def SessionEpoch_def Let_def)
  next
    case (Some v)
    then show ?thesis using assms upd [of ?k] by (auto simp: BumpSessionEpoch_def SessionEpoch_def Let_def)
  qed
  then show "map_of tbl' = (map_of tbl)(?k \<mapsto> n)" "n = SessionEpoch e tbl + 1" by simp_all
qed

lemma bump_table_ok:
  assumes "epochs_ok tbl" and "BumpSessionEpoch e tbl = (n, tbl')"
  shows "epochs_ok tbl'"
proof (cases "normaliseAddr e = []")
  case True then show ?thesis using assms by (simp add: BumpSessionEpoch_def)
next
  case False
  let ?f = "\<lambda>r :: string \<times> int. if fst r = normaliseAddr e then (normaliseAddr e, snd r + 1) else r"
  have f: "map fst (map ?f tbl) = map fst tbl" by (induction tbl) auto
  show ?thesis
  proof (cases "map_of tbl (normaliseAddr e)")
    case None
    then have "tbl' = tbl @ [(normaliseAddr e, 1)]" using assms False by (simp add: BumpSessionEpoch_def Let_def)
    then show ?thesis using assms(1) None False by (auto simp: epochs_ok_def map_of_eq_None_iff)
  next
    case (Some v)
    then have "tbl' = map ?f tbl" using assms False by (simp add: BumpSessionEpoch_def Let_def)
    then have "map fst tbl' = map fst tbl" using f by (simp del: map_map)
    moreover have "list_all (\<lambda>r. normaliseAddr (fst r) = fst r \<and> fst r \<noteq> [] \<and> 0 < snd r) tbl'"
      using \<open>tbl' = map ?f tbl\<close> assms(1) by (auto simp: epochs_ok_def list_all_iff)
    ultimately show ?thesis using assms(1) by (simp add: epochs_ok_def)
  qed
qed

lemma AllSessionEpochs_ok: "epochs_ok tbl \<Longrightarrow> AllSessionEpochs tbl = tbl"
  unfolding AllSessionEpochs_def epochs_ok_def
  by (induction tbl) (auto simp: normaliseAddr_def [symmetric])

lemma map_of_rev_distinct:
  assumes "distinct (map fst xs)" shows "map_of (rev xs) = map_of xs"
proof
  fix k
  have "distinct (map fst (rev xs))" using assms by (simp add: rev_map [symmetric])
  then have "map_of (rev xs) k = Some v \<longleftrightarrow> map_of xs k = Some v" for v using assms by simp
  then show "map_of (rev xs) k = map_of xs k" by (metis not_Some_eq)
qed

lemma SetEpochs_ok:
  assumes "epochs_ok tbl"
  shows "sm_Epochs (SetEpochs tbl m) = map_of tbl"
proof -
  have "map (\<lambda>(k, v). (normaliseAddr k, v)) tbl = tbl"
    using assms by (auto simp: epochs_ok_def list_all_iff intro!: map_idI)
  moreover have "map_of (rev tbl) = map_of tbl"
    using assms by (intro map_of_rev_distinct) (simp add: epochs_ok_def)
  ultimately show ?thesis by (simp add: SetEpochs_def)
qed

lemma restart_in_step:
  assumes "epochs_ok tbl" shows "in_step (SetEpochs (AllSessionEpochs tbl) m) tbl"
proof -
  have "map_of tbl [] = None" using assms by (auto simp: epochs_ok_def list_all_iff map_of_eq_None_iff)
  then show ?thesis
    using assms by (auto simp: in_step_def epochFor_def SessionEpoch_def Let_def AllSessionEpochs_ok SetEpochs_ok)
qed


lemma bump_value:
  assumes "BumpSessionEpoch x tbl = (n, tbl')"
  shows "n = SessionEpoch x tbl'"
    and "SessionEpoch e tbl' = (if normaliseAddr x \<noteq> [] \<and> normaliseAddr x = normaliseAddr e
           then SessionEpoch e tbl + 1 else SessionEpoch e tbl)"
proof -
  have "n = SessionEpoch x tbl' \<and> SessionEpoch e tbl' = (if normaliseAddr x \<noteq> [] \<and> normaliseAddr x = normaliseAddr e
      then SessionEpoch e tbl + 1 else SessionEpoch e tbl)"
  proof (cases "normaliseAddr x = []")
    case True
    then show ?thesis using assms by (simp add: BumpSessionEpoch_def SessionEpoch_def)
  next
    case False
    then show ?thesis using bump_lookup [OF False assms] by (auto simp: SessionEpoch_def Let_def)
  qed
  then show "n = SessionEpoch x tbl'" and "SessionEpoch e tbl' = (if normaliseAddr x \<noteq> []
    \<and> normaliseAddr x = normaliseAddr e then SessionEpoch e tbl + 1 else SessionEpoch e tbl)" by simp_all
qed

lemma epoch_cong: "normaliseAddr x = normaliseAddr y \<Longrightarrow> SessionEpoch x tbl = SessionEpoch y tbl"
  by (simp add: SessionEpoch_def)

lemma epochFor_RevokeTo:
  "epochFor (RevokeTo x n m) e = (if normaliseAddr e = normaliseAddr x then n else epochFor m e)"
  by (simp add: epochFor_def RevokeTo_def)

lemma taken_out: "drop i xs = y # ys \<Longrightarrow> set xs = insert y (set (take i xs @ ys))"
  by (metis append_take_drop_id set_append list.set(2) Un_insert_right)

lemma epochs_ok_step: "epochs_ok (rl_Table r) \<Longrightarrow> epochs_ok (rl_Table (session_do C ev r))"
  by (cases ev) (auto intro: bump_table_ok split: prod.splits list.splits)

lemma table_grows: "SessionEpoch e (rl_Table r) \<le> SessionEpoch e (rl_Table (session_do C ev r))"
  by (cases ev) (auto simp: bump_value(2) split: prod.splits list.splits)

lemma known_step:
  assumes "realm_ok C r"
  shows "epochFor (rl_Man (session_do C ev r)) e \<le> SessionEpoch e (rl_Table (session_do C ev r))"
proof -
  have le: "epochFor (rl_Man r) e \<le> SessionEpoch e (rl_Table r)" using assms by (simp add: realm_ok_def)
  show ?thesis
  proof (cases ev)
    case (Records i)
    show ?thesis
    proof (cases "drop i (rl_Revoking r)")
      case (Cons y rest)
      obtain x n where y: "y = (x, n)" by (cases y)
      have "(x, n) \<in> set (rl_Revoking r)" using taken_out [OF Cons] y by simp
      then have "n \<le> SessionEpoch x (rl_Table r)" using assms by (auto simp: realm_ok_def)
      then show ?thesis using le epoch_cong [of e x "rl_Table r"] Records Cons y by (simp add: epochFor_RevokeTo)
    qed (use le Records in simp)
  next
    case (Restarts secure)
    have "in_step (SetEpochs (AllSessionEpochs (rl_Table r)) (NewManager secure)) (rl_Table r)"
      using assms by (intro restart_in_step) (simp add: realm_ok_def)
    then show ?thesis using Restarts by (simp add: in_step_def)
  qed (use le table_grows [of e r C ev] in \<open>auto split: if_splits prod.splits list.splits\<close>)
qed

lemma accounted_mono:
  assumes "possible C ev r" and "accounted r p"
  shows "accounted (session_do C ev r) p"
proof -
  have "rl_Now r \<le> rl_Now (session_do C ev r)" "set (rl_Logins r) \<subseteq> set (rl_Logins (session_do C ev r))"
    using assms(1) by (cases ev; auto split: if_splits prod.splits list.splits)+
  then show ?thesis using assms(2) table_grows [of "pl_Email p" r C ev] unfolding accounted_def by fastforce
qed

lemma carried_issued [simp]: "carried_user (issued_payload m u iat now) = u"
  by (cases u) (simp add: carried_user_def issued_payload_def)

lemma email_issued [simp]: "pl_Email (issued_payload m u iat now) = u_Email u"
  "pl_Iat (issued_payload m u iat now) = iat" "pl_Ep (issued_payload m u iat now) = epochFor m (u_Email u)"
  by (simp_all add: issued_payload_def)

lemma email_carried [simp]: "u_Email (carried_user p) = pl_Email p"
  by (simp add: carried_user_def)

lemma opened_issue:
  assumes "exact C" and "open_cookie C (ck_Value (issue C m u iat now)) = Some p"
  shows "p = issued_payload m u iat now"
  using assms by (simp add: issue_def exact_def open_sealed_cookie)

lemma stamped:
  assumes "v \<in> set (map ck_Value (snd (Decode C m t m' t' True (one_cookie m w))))"
  shows "\<exists>q. open_cookie C w = Some q \<and> accept_payload m t q \<and> renews m t True q
    \<and> v = ck_Value (issue C m' (carried_user q) (pl_Iat q) t')"
  using assms by (auto simp: decode_cases one_cookie_def split: option.splits if_splits)

lemma newly_issued:
  assumes "exact C" and "realm_ok C r"
    and "v \<in> set (rl_Issued (session_do C ev r))" and "v \<notin> set (rl_Issued r)" and "open_cookie C v = Some p"
  shows "(\<exists>u. ev = SignsIn u \<and> p = issued_payload (rl_Man r) u (unix (rl_Now r)) (rl_Now r))
    \<or> (\<exists>m t w q. (m, t, w) \<in> set (rl_Renewing r) \<and> w \<in> set (rl_Issued r) \<and> open_cookie C w = Some q
          \<and> accept_payload m t q \<and> renews m t True q
          \<and> p = issued_payload (rl_Man r) (carried_user q) (pl_Iat q) (rl_Now r))"
proof (cases ev)
  case (SignsIn u)
  then show ?thesis using assms(1,3,4,5) by (auto simp: Issue_def dest: opened_issue)
next
  case (Stamps i)
  then obtain y rest where y: "drop i (rl_Renewing r) = y # rest" using assms(3,4) by (cases "drop i (rl_Renewing r)") auto
  obtain m t w where w: "y = (m, t, w)" by (cases y)
  then have pend: "(m, t, w) \<in> set (rl_Renewing r)" using taken_out [OF y] by simp
  have "v \<in> set (map ck_Value (snd (Decode C m t (rl_Man r) (rl_Now r) True (one_cookie m w))))"
    using assms(3,4) Stamps y w by simp
  from stamped [OF this] obtain q where q: "open_cookie C w = Some q" "accept_payload m t q" "renews m t True q"
    "v = ck_Value (issue C (rl_Man r) (carried_user q) (pl_Iat q) (rl_Now r))" by blast
  have "w \<in> set (rl_Issued r)" using assms(2) pend open_authentic [OF q(1)] by (auto simp: realm_ok_def)
  moreover have "p = issued_payload (rl_Man r) (carried_user q) (pl_Iat q) (rl_Now r)"
    using opened_issue [OF assms(1)] assms(5) q(4) by simp
  ultimately show ?thesis using pend q(1-3) by blast
qed (use assms(3,4) in \<open>auto split: if_splits prod.splits list.splits\<close>)

lemma issued_grows: "set (rl_Issued r) \<subseteq> set (rl_Issued (session_do C ev r))"
  by (cases ev) (auto split: if_splits prod.splits list.splits)

lemma renewing_step:
  assumes "realm_ok C r" and "possible C ev r" and "(m, t, v) \<in> set (rl_Renewing (session_do C ev r))" and "authentic C v"
  shows "v \<in> set (rl_Issued (session_do C ev r))"
proof (cases "(m, t, v) \<in> set (rl_Renewing r)")
  case True
  then have "v \<in> set (rl_Issued r)" using assms(1,4) by (auto simp: realm_ok_def)
  then show ?thesis using issued_grows by blast
next
  case False
  then have "ev = Presents v"
    using assms(3) by (cases ev) (auto split: if_splits prod.splits list.splits dest: taken_out)
  then show ?thesis using assms(2,4) by simp
qed

lemma revoking_step:
  assumes "realm_ok C r" and "(x, n) \<in> set (rl_Revoking (session_do C ev r))"
  shows "n \<le> SessionEpoch x (rl_Table (session_do C ev r))"
proof (cases "(x, n) \<in> set (rl_Revoking r)")
  case True
  then have "n \<le> SessionEpoch x (rl_Table r)" using assms(1) by (auto simp: realm_ok_def)
  then show ?thesis using table_grows [of x r C ev] by simp
next
  case False
  then show ?thesis using assms(2) bump_value(1)
    by (cases ev) (auto split: if_splits prod.splits list.splits dest: taken_out)
qed

lemma realm_ok_step:
  assumes "exact C" and "realm_ok C r" and "possible C ev r"
  shows "realm_ok C (session_do C ev r)"
proof -
  let ?r = "session_do C ev r"
  have man: "sm_TTL (rl_Man ?r) = 12 * hour" "sm_MaxAge (rl_Man ?r) = 7 * 24 * hour"
    using assms(2) by (cases ev; auto simp: realm_ok_def RevokeTo_def SetEpochs_def NewManager_def
        split: prod.splits list.splits)+
  have "accounted ?r p" if v: "v \<in> set (rl_Issued ?r)" "open_cookie C v = Some p" for v p
  proof (cases "v \<in> set (rl_Issued r)")
    case True
    then show ?thesis using assms(2) v(2) accounted_mono [OF assms(3)] by (auto simp: realm_ok_def)
  next
    case False
    have le: "epochFor (rl_Man r) e \<le> SessionEpoch e (rl_Table r)" for e using assms(2) by (simp add: realm_ok_def)
    from newly_issued [OF assms(1,2) v(1) False v(2)] show ?thesis
    proof (elim disjE exE conjE)
      fix u assume e: "ev = SignsIn u" and p: "p = issued_payload (rl_Man r) u (unix (rl_Now r)) (rl_Now r)"
      have "accounted ?r p" unfolding accounted_def p e using le [of "u_Email u"]
        by (intro conjI exI [of _ "rl_Now r"]) simp_all
      then show ?thesis .
    next
      fix m t w q assume w: "w \<in> set (rl_Issued r)" "open_cookie C w = Some q"
        and p: "p = issued_payload (rl_Man r) (carried_user q) (pl_Iat q) (rl_Now r)"
      have "accounted r q" using assms(2) w by (auto simp: realm_ok_def)
      then have "accounted r p" using le by (auto simp: p accounted_def)
      then show ?thesis by (rule accounted_mono [OF assms(3)])
    qed
  qed
  then show ?thesis
    using man assms(2) epochs_ok_step known_step [OF assms(2)] renewing_step [OF assms(2,3)] revoking_step [OF assms(2)]
    unfolding realm_ok_def by blast
qed

lemma realm_ok_run: "session_run C r es r' \<Longrightarrow> exact C \<Longrightarrow> realm_ok C r \<Longrightarrow> realm_ok C r'"
  by (induction rule: session_run.induct) (auto intro: realm_ok_step)

lemma realm_ok_start: "realm_ok C (realm_start secure now)"
  by (simp add: realm_ok_def realm_start_def epochs_ok_def in_step_def epochFor_def SessionEpoch_def NewManager_def Let_def)

section \<open>What a session can and cannot do\<close>

























definition accepted_user :: "codec \<Rightarrow> realm \<Rightarrow> string \<Rightarrow> user option" where
  "accepted_user C r v = fst (Decode C (rl_Man r) (rl_Now r) (rl_Man r) (rl_Now r) True (one_cookie (rl_Man r) v))"

lemma accepted_userD:
  "accepted_user C r v = Some u \<Longrightarrow> \<exists>p. open_cookie C v = Some p \<and> accept_payload (rl_Man r) (rl_Now r) p \<and> u = carried_user p"
  by (auto simp: accepted_user_def decode_cases one_cookie_def split: option.splits if_splits)


text \<open>C17: However often it is renewed, a session ends: whoever a cookie lets in signed in as exactly that
  person, with exactly those groups, less than seven days ago, and less than twelve hours ago when
  those groups make them an administrator.
\<close>

theorem a_session_dates_from_a_sign_in:
  assumes "exact C" and "session_run C (realm_start secure start) es r" and "second \<le> start"
    and "possible C (Presents v) r" and "accepted_user C r v = Some u"
  shows "list_ex (\<lambda>(w, s). w = u \<and> s \<le> rl_Now r \<and> rl_Now r - s < 7 * day \<and> (IsAdmin u \<longrightarrow> rl_Now r - s < 12 * hour)) (rl_Logins r)"
proof -
  have ok: "realm_ok C r" using assms(2,1) by (rule realm_ok_run) (rule realm_ok_start)
  obtain p where p: "open_cookie C v = Some p" "accept_payload (rl_Man r) (rl_Now r) p" "u = carried_user p"
    using accepted_userD [OF assms(5)] by blast
  have "v \<in> set (rl_Issued r)" using assms(4) open_authentic [OF p(1)] by simp
  then have "accounted r p" using ok p(1) by (auto simp: realm_ok_def)
  then obtain s where s: "(u, s) \<in> set (rl_Logins r)" "pl_Iat p = unix s" "s \<le> rl_Now r"
    using p(3) by (auto simp: accounted_def)
  have late: "second \<le> s"
  proof -
    have "(\<forall>l \<in> set (rl_Logins r). second \<le> snd l) \<and> second \<le> rl_Now r" if "session_run C r0 es r"
      "(\<forall>l \<in> set (rl_Logins r0). second \<le> snd l) \<and> second \<le> rl_Now r0" for r0
      using that
    proof (induction rule: session_run.induct)
      case (session_step e r es r')
      have "(\<forall>l \<in> set (rl_Logins (session_do C e r)). second \<le> snd l) \<and> second \<le> rl_Now (session_do C e r)"
        using session_step.hyps(1) session_step.prems by (cases e) (auto split: if_splits prod.splits list.splits)
      then show ?case by (rule session_step.IH)
    qed simp
    from this [OF assms(2)] show ?thesis using s(1) assms(3) by (auto simp: realm_start_def)
  qed
  then have nz: "pl_Iat p \<noteq> 0" unfolding s(2) unix_def by (simp add: second_def)
  have "unix s * second \<le> s" unfolding unix_def by (simp add: second_def)
  moreover have "tsub (rl_Now r) (unix s * second) < ceiling_of (rl_Man r) u"
    using p(2,3) nz s(2) by (simp add: accept_payload_def not_le)
  moreover have "ceiling_of (rl_Man r) u = (if IsAdmin u then 12 * hour else 7 * day)"
    using ok by (simp add: ceiling_of_def realm_ok_def time_simps)
  ultimately have "rl_Now r - s < (if IsAdmin u then 12 * hour else 7 * day)"
    by (auto simp: tsub_lt_iff min_dur_def max_dur_def time_simps split: if_splits)
  then show ?thesis using s(1,3) unfolding list_ex_iff by (intro bexI [OF _ s(1)]) (auto simp: time_simps split: if_splits)
qed

section \<open>An overlapping renewal\<close>

text \<open>
  The check and the renewal are not one step: a revocation that lands between them is stamped into the
  renewed cookie, which the revoked person then holds under the new generation.
\<close>

lemma a_renewal_can_outlive_a_revocation:
  assumes "exact C" and "jar (issuedCookieName m) = Some v" and "open_cookie C v = Some p"
    and "accept_payload m now p" and "renews m now True p"
    and "m' = RevokeTo (pl_Email p) n m" and "epochFor m (pl_Email p) < n"
    and "unix then_at < unix (now' + sm_TTL m)" and "tsub then_at (pl_Iat p * second) < ceiling_of m (carried_user p)"
    and "pl_Ep p \<le> epochFor m (pl_Email p)"
  shows "fst (Decode C m' now m' now' True jar) = None
    \<and> fst (Decode C m' then_at m' then_at True
          [issuedCookieName m \<mapsto> ck_Value (hd (snd (Decode C m now m' now' True jar)))]) = Some (carried_user p)"
proof -
  have name: "issuedCookieName m' = issuedCookieName m" by (simp add: assms(6) issuedCookieName_def RevokeTo_def)
  have ep: "epochFor m' (pl_Email p) = n" by (simp add: assms(6) epochFor_def RevokeTo_def)
  have c: "snd (Decode C m now m' now' True jar) = [issue C m' (carried_user p) (pl_Iat p) now']"
    using assms(2-5) by (simp add: decode_cases)
  have o: "open_cookie C (ck_Value (issue C m' (carried_user p) (pl_Iat p) now')) = Some (issued_payload m' (carried_user p) (pl_Iat p) now')"
    using assms(1) by (simp add: issue_def exact_def open_sealed_cookie)
  have "sm_TTL m' = sm_TTL m" "ceiling_of m' = ceiling_of m" by (simp_all add: assms(6) RevokeTo_def ceiling_of_def fun_eq_iff)
  then have "accept_payload m' then_at (issued_payload m' (carried_user p) (pl_Iat p) now')"
    using assms(4,8,9) by (simp add: accept_payload_def) (simp add: issued_payload_def)
  moreover have "\<not> accept_payload m' now p" using assms(7,10) ep by (auto simp: accept_payload_def)
  ultimately have "fst (Decode C m' now m' now' True jar) = None"
      "fst (Decode C m' then_at m' then_at True [issuedCookieName m \<mapsto> ck_Value (issue C m' (carried_user p) (pl_Iat p) now')]) = Some (carried_user p)"
    using assms(2,3) name by (simp_all add: decode_cases o)
  then show ?thesis unfolding c by simp
qed

section \<open>Redeeming a login\<close>

lemma live_state_mono: "live_state st then_at r \<Longrightarrow> now \<le> then_at \<Longrightarrow> live_state st now r"
  using zdiv_mono1 [of "now - oauthStateTTL" "then_at - oauthStateTTL" second]
  by (auto simp: live_state_def whole_seconds_def second_def)

lemma taken_is_gone:
  assumes "now \<le> then_at" shows "fst (TakeOAuthState st then_at (snd (TakeOAuthState st now tbl))) = Inl NotFound"
proof -
  have "find (live_state st then_at) (filter (\<lambda>r. \<not> live_state st now r) tbl) = None"
    using live_state_mono [OF _ assms] by (auto simp: find_None_iff)
  then show ?thesis by (simp add: TakeOAuthState_def)
qed

lemma finish_login_sent:
  assumes "finish_login a I C m now code s = (SentTo x, cks)"
  obtains raw c where "ip_Exchange I code (oa_Verifier s) = Some (Some raw)" and "ip_Verify I raw = Some (oa_Nonce s, Some c)"
    and "cl_EmailVerified c = Some True" and "u_Email (login_user a c) \<noteq> []" and "cks = [Issue C m (login_user a c) now]"
  using assms by (auto simp: finish_login_def split: option.splits if_splits prod.splits)

lemma callback_sent:
  assumes "Callback a I C m now jar err st code tbl = ((SentTo x, cks), tbl')"
  obtains s cks' where "err = []" and "stateMatchesBrowser a jar st" and "find (live_state st now) tbl = Some s"
    and "tbl' = snd (TakeOAuthState st now tbl)" and "oa_Kind s = ''app''"
    and "finish_login a I C m now code s = (SentTo x, cks')" and "cks = clearStateCookie a @ cks'"
  using assms by (auto simp: Callback_def TakeOAuthState_def split: if_splits option.splits prod.splits)

text \<open>C24: A login can only be completed in the browser that started it, within a quarter of an hour, once, and
  only into the verified address of the token that was issued for it: the session cookie is set for that
  person, and the same callback presented again, by anyone, at any later time, sets none.
\<close>

theorem a_login_is_redeemed_once_by_its_browser:
  assumes "Callback a I C m now jar err st code tbl = ((SentTo ''/'', cks), tbl')"
  shows "jar (stateCookieName a) = Some st \<and> st \<noteq> []
    \<and> (\<exists>r c. r \<in> set tbl \<and> oa_State r = st \<and> oa_Kind r = ''app'' \<and> now - oa_CreatedAt r < 15 * minute + second
         \<and> Option.bind (Option.bind (ip_Exchange I code (oa_Verifier r)) (\<lambda>t. t)) (ip_Verify I) = Some (oa_Nonce r, Some c)
         \<and> cl_EmailVerified c = Some True \<and> u_Email (login_user a c) \<noteq> []
         \<and> cks = clearStateCookie a @ [Issue C m (login_user a c) now])
    \<and> (\<forall>d jar' err' code' I' m'. \<exists>pg cks'.
         Callback a I' C m' (now + int d) jar' err' st code' tbl' = ((pg, cks'), tbl') \<and> pg \<noteq> SentTo ''/'' \<and> set cks' \<subseteq> set (clearStateCookie a))"
proof -
  obtain s cks' where c: "stateMatchesBrowser a jar st" "find (live_state st now) tbl = Some s"
      "tbl' = snd (TakeOAuthState st now tbl)" "oa_Kind s = ''app''"
      "finish_login a I C m now code s = (SentTo ''/'', cks')" "cks = clearStateCookie a @ cks'"
    using callback_sent [OF assms] by blast
  obtain raw cl where l: "ip_Exchange I code (oa_Verifier s) = Some (Some raw)" "ip_Verify I raw = Some (oa_Nonce s, Some cl)"
      "cl_EmailVerified cl = Some True" "u_Email (login_user a cl) \<noteq> []" "cks' = [Issue C m (login_user a cl) now]"
    using finish_login_sent [OF c(5)] by blast
  have s: "s \<in> set tbl" "live_state st now s" using c(2) by (auto simp: find_Some_iff)
  have "now - oa_CreatedAt s < 15 * minute + second"
    using s(2) whole_seconds_bounds [of "now - oauthStateTTL"] by (simp add: live_state_def oauthStateTTL_def)
  then have first: "\<exists>r c. r \<in> set tbl \<and> oa_State r = st \<and> oa_Kind r = ''app'' \<and> now - oa_CreatedAt r < 15 * minute + second
         \<and> Option.bind (Option.bind (ip_Exchange I code (oa_Verifier r)) (\<lambda>t. t)) (ip_Verify I) = Some (oa_Nonce r, Some c)
         \<and> cl_EmailVerified c = Some True \<and> u_Email (login_user a c) \<noteq> []
         \<and> cks = clearStateCookie a @ [Issue C m (login_user a c) now]"
    using s l c(4,6) by (intro exI [of _ s] exI [of _ cl]) (simp add: live_state_def)
  have again: "\<exists>pg cks'. Callback a I' C m' (now + int d) jar' err' st code' tbl' = ((pg, cks'), tbl')
      \<and> pg \<noteq> SentTo ''/'' \<and> set cks' \<subseteq> set (clearStateCookie a)" for d jar' err' code' I' m'
  proof -
    have g: "fst (TakeOAuthState st (now + int d) tbl') = Inl NotFound" unfolding c(3) by (rule taken_is_gone) simp
    moreover have "snd (TakeOAuthState st (now + int d) tbl') = tbl'"
      using g by (auto simp: TakeOAuthState_def find_None_iff split: option.splits intro: filter_True)
    ultimately have "TakeOAuthState st (now + int d) tbl' = (Inl NotFound, tbl')" by (metis prod.collapse)
    then show ?thesis by (auto simp: Callback_def)
  qed
  show ?thesis using c(1) first again by (auto simp: stateMatchesBrowser_def split: if_splits option.splits)
qed

section \<open>Concrete runs\<close>

text \<open>A complete little codec: texts escaped character by character, numbers in base 36.\<close>

definition enc_str :: "string \<Rightarrow> string" where
  "enc_str s = concat (map (\<lambda>c. [CHR ''1'', c]) s) @ ''0''"

fun dec_str :: "string \<Rightarrow> (string \<times> string) option" where
  "dec_str [] = None"
| "dec_str (x # r) = (if x = CHR ''0'' then Some ([], r)
     else (case r of [] \<Rightarrow> None | c # r' \<Rightarrow> map_option (\<lambda>(s, t). (c # s, t)) (dec_str r')))"

lemma dec_enc_str: "dec_str (enc_str s @ t) = Some (s, t)"
  by (induction s) (simp_all add: enc_str_def)

definition enc_int :: "int \<Rightarrow> string" where
  "enc_int i = enc_str ((if i < 0 then CHR ''-'' else CHR ''+'') # nat36 (nat (abs i)))"

definition dec_int :: "string \<Rightarrow> (int \<times> string) option" where
  "dec_int s = (case dec_str s of
       Some (c # ds, t) \<Rightarrow> map_option (\<lambda>n. (if c = CHR ''-'' then - int n else int n, t)) (value36 0 ds)
     | _ \<Rightarrow> None)"

lemma dec_enc_int: "dec_int (enc_int i @ t) = Some (i, t)"
  by (simp add: dec_int_def enc_int_def dec_enc_str value36_nat36)

primrec enc_strs :: "string list \<Rightarrow> string" where
  "enc_strs [] = ''0''"
| "enc_strs (g # gs) = ''1'' @ enc_str g @ enc_strs gs"

fun dec_strs :: "nat \<Rightarrow> string \<Rightarrow> (string list \<times> string) option" where
  "dec_strs 0 s = None"
| "dec_strs (Suc n) [] = None"
| "dec_strs (Suc n) (x # r) = (if x = CHR ''0'' then Some ([], r)
     else Option.bind (dec_str r) (\<lambda>(g, r'). map_option (\<lambda>(gs, t). (g # gs, t)) (dec_strs n r')))"

lemma dec_enc_strs: "length gs < n \<Longrightarrow> dec_strs n (enc_strs gs @ t) = Some (gs, t)"
proof (induction gs arbitrary: n)
  case Nil then show ?case by (cases n) simp_all
next
  case (Cons g gs)
  then obtain k where "n = Suc k" "length gs < k" by (cases n) auto
  then show ?case using Cons.IH by (simp add: dec_enc_str)
qed

definition sample_json :: "payload \<Rightarrow> string" where
  "sample_json p = enc_str (pl_Email p) @ enc_str (pl_Name p) @ enc_int (pl_Exp p) @ enc_int (pl_Iat p) @ enc_int (pl_Ep p)
     @ enc_strs (pl_Groups p)"

definition sample_unjson :: "string \<Rightarrow> payload option" where
  "sample_unjson s =
     Option.bind (dec_str s) (\<lambda>(e, s1). Option.bind (dec_str s1) (\<lambda>(n, s2). Option.bind (dec_int s2) (\<lambda>(x, s3).
     Option.bind (dec_int s3) (\<lambda>(i, s4). Option.bind (dec_int s4) (\<lambda>(ep, s5). map_option (\<lambda>(gs, t).
       \<lparr>pl_Email = e, pl_Name = n, pl_Groups = gs, pl_Exp = x, pl_Iat = i, pl_Ep = ep\<rparr>) (dec_strs (Suc (length s5)) s5))))))"

definition sample_codec :: codec where
  "sample_codec = \<lparr>cx_mac = (\<lambda>b. take 8 (rev b)), cx_json = sample_json, cx_unjson = sample_unjson\<rparr>"

lemma length_enc_strs: "length gs < length (enc_strs gs)"
  by (induction gs) auto

lemma sample_exact: "exact sample_codec"
  unfolding exact_def
proof
  fix p :: payload
  have "dec_strs (Suc (length (enc_strs (pl_Groups p)))) (enc_strs (pl_Groups p)) = Some (pl_Groups p, [])"
    using dec_enc_strs [of "pl_Groups p" "Suc (length (enc_strs (pl_Groups p)))" "[]"] length_enc_strs [of "pl_Groups p"] by simp
  then show "cx_unjson sample_codec (cx_json sample_codec p) = Some p"
    by (simp add: sample_codec_def sample_json_def sample_unjson_def dec_enc_str dec_enc_int)
qed

definition ann :: user where "ann = \<lparr>u_Email = ''ann@b'', u_Name = ''Ann'', u_Groups = [''user'']\<rparr>"
definition ops :: user where "ops = \<lparr>u_Email = ''ops@b'', u_Name = ''Ops'', u_Groups = [''user'', ''admin'']\<rparr>"

text \<open>Ann and an operator sign in; Ann is revoked; the process restarts; the operator comes back and is renewed.\<close>

definition revoked_man :: manager where "revoked_man = SetEpochs [(''ann@b'', 1)] (NewManager True)"

definition anns_cookie :: string where
  "anns_cookie = ck_Value (Issue sample_codec (NewManager True) ann (1000 * second))"

definition opss_cookie :: string where
  "opss_cookie = ck_Value (Issue sample_codec (NewManager True) ops (1000 * second))"

definition renewed_cookie :: string where
  "renewed_cookie = ck_Value (issue sample_codec revoked_man ops (unix (1000 * second)) (26200 * second))"

definition revoking_day :: realm where
  "revoking_day = \<lparr>rl_Man = revoked_man, rl_Table = [(''ann@b'', 1)], rl_Issued = [anns_cookie, opss_cookie, renewed_cookie],
     rl_Renewing = [], rl_Revoking = [],
     rl_Logins = [(ann, 1000 * second), (ops, 1000 * second)], rl_Now = 26200 * second\<rparr>"

lemma sample_opens [simp]:
  "open_cookie sample_codec (ck_Value (issue sample_codec m u iat now)) = Some (issued_payload m u iat now)"
  using sample_exact by (simp add: issue_def exact_def open_sealed_cookie)

lemma norm_samples: "normaliseAddr ''Ann@b'' = ''ann@b''" "normaliseAddr ''ann@b'' = ''ann@b''" "normaliseAddr ''ops@b'' = ''ops@b''"
  by code_simp+

lemma ops_epoch: "epochFor (NewManager s) e = 0" "epochFor revoked_man ''ops@b'' = 0" "sm_TTL revoked_man = 12 * hour" "sm_MaxAge revoked_man = 7 * 24 * hour"
  by (simp_all add: epochFor_def NewManager_def revoked_man_def SetEpochs_def norm_samples)

lemma opss_cookie_opens:
  "open_cookie sample_codec opss_cookie = Some (issued_payload (NewManager True) ops (unix (1000 * second)) (1000 * second))"
  by (simp add: opss_cookie_def Issue_def)

lemma ops_accepted:
  "accept_payload revoked_man (26200 * second) (issued_payload (NewManager True) ops (unix (1000 * second)) (1000 * second))"
  "renews revoked_man (26200 * second) True (issued_payload (NewManager True) ops (unix (1000 * second)) (1000 * second))"
  using carried_issued [of "NewManager True" ops "unix (1000 * second)" "1000 * second"]
  by (simp_all add: accept_payload_def renews_def ceiling_of_def ops_epoch)
     (simp_all add: issued_payload_def unix_def ops_def IsAdmin_def ops_epoch NewManager_def tsub_def min_dur_def max_dur_def time_simps)

text \<open>The day at the moment the revocation is recorded, and after the restart.\<close>

definition day_of_revocation :: realm where
  "day_of_revocation = \<lparr>rl_Man = NewManager True, rl_Table = [(''ann@b'', 1)], rl_Issued = [anns_cookie, opss_cookie],
     rl_Renewing = [], rl_Revoking = [(''Ann@b'', 1)], rl_Logins = [(ann, 1000 * second), (ops, 1000 * second)],
     rl_Now = 1000 * second\<rparr>"

lemma sample_before:
  "session_run sample_codec (realm_start True (1000 * second)) [SignsIn ann, SignsIn ops, Bumps ''Ann@b''] day_of_revocation"
  by (simp add: session_run_simps realm_start_def BumpSessionEpoch_def norm_samples day_of_revocation_def
      anns_cookie_def opss_cookie_def)

lemma sample_recorded:
  "session_do sample_codec (Restarts True) (session_do sample_codec (Waits (7 * hour)) (session_do sample_codec (Records 0) day_of_revocation))
   = revoking_day\<lparr>rl_Issued := [anns_cookie, opss_cookie]\<rparr>"
  by (simp add: day_of_revocation_def revoking_day_def revoked_man_def AllSessionEpochs_def
      normaliseAddr_def [symmetric] norm_samples second_def hour_def minute_def)

lemma sample_renewal:
  "session_do sample_codec (Stamps 0) (session_do sample_codec (Presents opss_cookie) (revoking_day\<lparr>rl_Issued := [anns_cookie, opss_cookie]\<rparr>))
   = revoking_day"
  by (simp add: decode_cases one_cookie_def opss_cookie_opens ops_accepted revoking_day_def renewed_cookie_def)

lemma sample_after:
  "session_run sample_codec day_of_revocation (Records 0 # [Waits (7 * hour), Restarts True, Presents opss_cookie, Stamps 0]) revoking_day"
  unfolding session_run_simps sample_recorded sample_renewal
  by (simp add: revoking_day_def second_def hour_def minute_def)

lemma sample_run:
  "session_run sample_codec (realm_start True (1000 * second)) ([SignsIn ann, SignsIn ops, Bumps ''Ann@b''] @
     Records 0 # [Waits (7 * hour), Restarts True, Presents opss_cookie, Stamps 0]) revoking_day"
  unfolding session_run_append using sample_before sample_after by blast


text \<open>
  \<open>RevokeTo\<close> writes the value it is given, newer or not. When the two halves of one revocation span
  two others of the same person, the manager ends up behind the table, and a cookie from between
  those two is accepted although the last of them was recorded.
\<close>

definition overlapping_revocations :: "session_event list" where
  "overlapping_revocations = [Bumps ''ann@b'', Bumps ''ann@b'', Records 1, SignsIn ann, Bumps ''ann@b'', Records 1, Records 0]"

lemma overlapping_revocations_let_a_cookie_back_in:
  "let r = fold (session_do sample_codec) overlapping_revocations (realm_start True (1000 * second)) in
     SessionEpoch ''ann@b'' (rl_Table r) = 3 \<and> epochFor (rl_Man r) ''ann@b'' = 1 \<and> rl_Revoking r = []
     \<and> list_all (\<lambda>v. accepted_user sample_codec r v = Some ann) (rl_Issued r) \<and> length (rl_Issued r) = 1"
proof -
  have [simp]: "u_Email ann = ''ann@b''" "u_Groups ann = [''user'']" by (simp_all add: ann_def)
  have [simp]: "IsAdmin ann = False" by (simp add: ann_def IsAdmin_def)
  show ?thesis
    by (simp add: overlapping_revocations_def realm_start_def BumpSessionEpoch_def norm_samples SessionEpoch_def
        epochFor_RevokeTo accepted_user_def decode_cases one_cookie_def Issue_def accept_payload_def)
      (simp add: issued_payload_def NewManager_def RevokeTo_def epochFor_def norm_samples ceiling_of_def carried_user_def
        unix_def tsub_def min_dur_def max_dur_def time_simps)
qed

lemma a_session_dates_from_a_sign_in_witness:
  "list_ex (\<lambda>(w, s). w = ops \<and> s \<le> rl_Now revoking_day \<and> rl_Now revoking_day - s < 7 * day
      \<and> (IsAdmin ops \<longrightarrow> rl_Now revoking_day - s < 12 * hour)) (rl_Logins revoking_day)"
proof (rule a_session_dates_from_a_sign_in [OF sample_exact sample_run, where v = opss_cookie])
  show "accepted_user sample_codec revoking_day opss_cookie = Some ops"
    by (simp add: accepted_user_def decode_cases one_cookie_def opss_cookie_opens ops_accepted revoking_day_def)
qed (simp_all add: second_def revoking_day_def)

definition login_table :: "oauth_state list" where
  "login_table = [\<lparr>oa_State = ''s1'', oa_Verifier = ''v1'', oa_Nonce = ''n1'', oa_Kind = ''app'', oa_CreatedAt = 1000 * second\<rparr>]"

definition sample_claims :: claims where
  "sample_claims = \<lparr>cl_Email = '' Ann@b'', cl_EmailVerified = Some True, cl_Name = ''Ann'', cl_PreferredUsername = [], cl_Groups = []\<rparr>"

definition sample_idp :: idp where
  "sample_idp = \<lparr>ip_Exchange = (\<lambda>code v. if v = ''v1'' then Some (Some ''tok'') else None),
     ip_Verify = (\<lambda>raw. Some (''n1'', Some sample_claims))\<rparr>"

definition sample_auth :: authenticator where
  "sample_auth = \<lparr>az_AdminGroups = (\<lambda>g. g = ''ops''), az_CookieSecure = True\<rparr>"

lemma a_login_is_redeemed_once_by_its_browser_witness:
  "\<not> list_ex (\<lambda>t. fst (fst (Callback sample_auth sample_idp sample_codec (NewManager True) (1000 * second + int t)
       [hostStateCookie \<mapsto> ''s1''] [] ''s1'' ''c'' [])) = SentTo ''/'') [0, 60]"
proof -
  let ?cb = "Callback sample_auth sample_idp sample_codec (NewManager True) (1000 * second) [hostStateCookie \<mapsto> ''s1''] [] ''s1'' ''c'' login_table"
  have "to_lower (trim_space '' Ann@b'') \<noteq> []" by code_simp
  then have "\<exists>cks. ?cb = ((SentTo ''/'', cks), [])"
    by (simp add: Callback_def stateMatchesBrowser_def stateCookieName_def sample_auth_def TakeOAuthState_def live_state_def login_table_def
        finish_login_def sample_idp_def sample_claims_def login_user_def whole_seconds_def oauthStateTTL_def second_def minute_def)
  then obtain cks where c: "?cb = ((SentTo ''/'', cks), [])" by blast
  have all: "\<forall>d jar' err' code' I' m'. \<exists>pg cks'.
      Callback sample_auth I' sample_codec m' (1000 * second + int d) jar' err' ''s1'' code' [] = ((pg, cks'), []) \<and> pg \<noteq> SentTo ''/''
        \<and> set cks' \<subseteq> set (clearStateCookie sample_auth)"
    using a_login_is_redeemed_once_by_its_browser [OF c] by blast
  have "fst (fst (Callback sample_auth sample_idp sample_codec (NewManager True) (1000 * second + int t) [hostStateCookie \<mapsto> ''s1''] [] ''s1'' ''c'' [])) \<noteq> SentTo ''/''" for t
    using all by (metis fst_conv)
  then show ?thesis unfolding list_ex_iff by blast
qed

end
