(* ===== verification/Kerb.thy ===== *)
theory Kerb
  imports Requests Bookings Households Suppression Provider
begin

text \<open>
  The pages a visitor reaches with a link (internal/server/guest_public.go, guest.go): what the page
  shows, the press that puts a car on the permit, the press that puts the previous one back, and the
  press that leaves the permit empty. A press reads the household's tables, writes a booking, takes the
  permit's claim, asks again whether the link still carries authority, and only then writes to the council.

  What the handlers learn from outside is a \<open>press\<close>: the request, the verdicts of the throttles, the
  council's answers, whether the claim was obtained, and what other requests did to the tables between
  the booking and the claim. The texts shown are represented by the value that selects them.
\<close>

section \<open>Plates and forms\<close>

definition alnum_upper :: "char \<Rightarrow> bool" where
  "alnum_upper c \<longleftrightarrow> (65 \<le> cp c \<and> cp c \<le> 90) \<or> (48 \<le> cp c \<and> cp c \<le> 57)"

text \<open>\<open>len\<close> counts bytes; a text with a byte outside ASCII is refused by the second test.\<close>

definition validRego :: "string \<Rightarrow> bool" where
  "validRego s \<longleftrightarrow> 2 \<le> length s \<and> length s \<le> 8 \<and> list_all alnum_upper s"

definition normalizeReg :: "string \<Rightarrow> string" where "normalizeReg s = norm_plate s"

section \<open>Day ends\<close>

definition dayEndLocal :: "zone \<Rightarrow> time \<Rightarrow> int \<Rightarrow> time" where
  "dayEndLocal z t extraDays = midnight z (localday z t + 1 + extraDays)"

definition weekday_names :: "string list" where
  "weekday_names = [''Sunday'', ''Monday'', ''Tuesday'', ''Wednesday'', ''Thursday'', ''Friday'', ''Saturday'']"

definition tomorrow_name :: "zone \<Rightarrow> time \<Rightarrow> string" where
  "tomorrow_name z now = weekday_names ! nat (weekday z (add_days z now 1))"

definition untilPhrase :: "zone \<Rightarrow> time \<Rightarrow> bool \<Rightarrow> string" where
  "untilPhrase z now overnight =
     (if overnight then ''the end of tomorrow ('' @ tomorrow_name z now @ '')'' else ''the end of today'')"

definition untilText :: "zone \<Rightarrow> time \<Rightarrow> time option \<Rightarrow> string" where
  "untilText z now e0 =
     (case e0 of
        None \<Rightarrow> []
      | Some e \<Rightarrow>
         if is_zero e then []
         else if \<not> dayEndLocal z now 0 < e then ''until the end of today''
         else if \<not> dayEndLocal z now 1 < e then ''until the end of tomorrow ('' @ tomorrow_name z now @ '')''
         else ''until '' @ take 3 (weekday_names ! nat (weekday z e)) @ '' '' @ fmt_day_month (localday z e))"

definition revertPinEnd :: "zone \<Rightarrow> time \<Rightarrow> time \<Rightarrow> time" where
  "revertPinEnd z now baselineUntil =
     (if dayEndLocal z now 0 < baselineUntil then dayEndLocal z now 0 else baselineUntil)"

section \<open>The press and the state\<close>

text \<open>
  What the tenant client reports: \<open>CurrentVehicleCached\<close> (plate and freshness, \<open>None\<close> an error), the
  live reading, the capability to clear, the regions it accepts.
\<close>

record council_view =
  cv_Wired :: bool
  cv_Cached :: "(string \<times> bool) option"
  cv_Live :: "string option"
  cv_CanClear :: bool
  cv_RegionValid :: "string \<Rightarrow> bool"

record press =
  pr_SameOrigin :: bool
  pr_Allowed :: bool
  pr_Raw :: string
  pr_Plate :: string
  pr_PlateState :: string
  pr_VehicleID :: int
  pr_Overnight :: bool
  pr_Zone :: zone
  pr_Now :: time
  pr_Council :: council_view
  pr_RulesRead :: bool
  pr_OverridesRead :: bool
  pr_VehiclesRead :: bool
  pr_Swept :: bool
  pr_Between :: "tables \<Rightarrow> tables"
  pr_Claimed :: bool
  pr_Checked :: bool
  pr_Answer :: "string \<Rightarrow> string \<Rightarrow> err option"
  pr_ClearAnswer :: "err option"
  pr_Recorded :: bool
  pr_NotifyAllowed :: bool
  pr_Suppressed :: "string \<Rightarrow> bool"
  pr_DriverTold :: bool
  pr_Scanner :: bool
  pr_Cookie :: "string option"
  pr_Nonce :: string
  pr_ReserveRead :: bool
  pr_Nudge :: bool
  pr_Stored :: bool

record apply_notice =
  an_Owner :: string
  an_Plate :: string
  an_By :: string
  an_Source :: string
  an_Displaced :: string
  an_Told :: bool

record kerb =
  kb_Tables :: tables
  kb_Calls :: "(int \<times> string \<times> string) list"
  kb_Log :: "(int \<times> string \<times> string \<times> string) list"
  kb_Kicks :: nat
  kb_Touched :: "string list"
  kb_Drift :: "string list"
  kb_Notices :: "apply_notice list"
  kb_Nudges :: "(string \<times> string \<times> int) list"
  kb_Cookies :: "(int \<times> string) list"
  kb_Changes :: "(string \<times> string \<times> string \<times> string) list"
  kb_Removed :: "(string \<times> string \<times> string) list"

definition on_kerb :: "(tables \<Rightarrow> tables) \<Rightarrow> kerb \<Rightarrow> kerb" where
  "on_kerb f k = k\<lparr>kb_Tables := f (kb_Tables k)\<rparr>"

definition kickScheduler :: "kerb \<Rightarrow> kerb" where
  "kickScheduler k = k\<lparr>kb_Kicks := kb_Kicks k + 1\<rparr>"

definition touchGuestActivity :: "string \<Rightarrow> kerb \<Rightarrow> kerb" where
  "touchGuestActivity owner k = (if owner = [] then k else k\<lparr>kb_Touched := kb_Touched k @ [owner]\<rparr>)"

definition RequestDriftSoon :: "string \<Rightarrow> kerb \<Rightarrow> kerb" where
  "RequestDriftSoon owner k = k\<lparr>kb_Drift := List.insert owner (kb_Drift k)\<rparr>"

definition RecordGuestApply :: "int \<Rightarrow> string \<Rightarrow> string \<Rightarrow> string \<Rightarrow> kerb \<Rightarrow> kerb" where
  "RecordGuestApply pid plate status detail k = k\<lparr>kb_Log := kb_Log k @ [(pid, plate, status, detail)]\<rparr>"

definition logChange :: "string \<Rightarrow> string \<Rightarrow> string \<Rightarrow> string \<Rightarrow> kerb \<Rightarrow> kerb" where
  "logChange owner actor action target k = k\<lparr>kb_Changes := kb_Changes k @ [(owner, actor, action, target)]\<rparr>"

text \<open>The notice to the other members that something was removed, by what was removed.\<close>

definition notifyDestructive :: "string \<Rightarrow> string \<Rightarrow> string \<Rightarrow> kerb \<Rightarrow> kerb" where
  "notifyDestructive owner actor summary k = k\<lparr>kb_Removed := kb_Removed k @ [(owner, actor, summary)]\<rparr>"

definition page_permit_label :: "permit \<Rightarrow> string" where
  "page_permit_label p = (if p_Label p \<noteq> [] then p_Label p else ''Permit '' @ p_CouncilPermitID p)"

definition set_active :: "int \<Rightarrow> string \<Rightarrow> time \<Rightarrow> tables \<Rightarrow> tables" where
  "set_active pid plate now tb = tb\<lparr>tb_Permits := map (\<lambda>p. if p_ID p = pid
     then p\<lparr>p_ActiveRegistration := plate, p_ActiveConfirmedAt := nowUTC now\<rparr> else p) (tb_Permits tb)\<rparr>"

section \<open>Resolving a link\<close>

definition pickerActor :: string where "pickerActor = ''the quick picker''"

definition resolveGuest :: "(string \<Rightarrow> string) \<Rightarrow> string \<Rightarrow> time \<Rightarrow> tables \<Rightarrow> (guest_context \<times> permit) option" where
  "resolveGuest sha raw0 now tb =
     (let raw = trim_space raw0 in
      if raw = [] then None
      else (case GuestContextByTokenHash (sha raw) now tb of
          None \<Rightarrow> None
        | Some gc \<Rightarrow>
           (case find (\<lambda>p. p_ID p = g_PermitID (gc_Grant gc)) (tb_Permits tb) of
              None \<Rightarrow> None
            | Some p \<Rightarrow>
               if p_Owner p \<noteq> g_Owner (gc_Grant gc) then None
               else Some ((if g_Picker (gc_Grant gc) \<and> gc_Recipient gc = []
                           then gc\<lparr>gc_Recipient := pickerActor\<rparr> else gc), p))))"

definition guestKind :: "guest_grant \<Rightarrow> string" where
  "guestKind g = (if g_Picker g then ''quick picker'' else if g_RequestOnly g then ''printed QR'' else ''pass'')"

definition guestSource :: "guest_context \<Rightarrow> string" where
  "guestSource gc = (if g_Picker (gc_Grant gc) then ''picker'' else ''guest'')"

section \<open>What the page shows\<close>

text \<open>The plate, and whether a drift read of the owner was asked for.\<close>

definition guestCurrentPlate :: "council_view \<Rightarrow> guest_context \<Rightarrow> permit \<Rightarrow> string \<times> bool" where
  "guestCurrentPlate cv gc p =
     (if g_RequestOnly (gc_Grant gc) then ([], False)
      else if \<not> cv_Wired cv then (p_ActiveRegistration p, False)
      else (case cv_Cached cv of
          None \<Rightarrow> (p_ActiveRegistration p, False)
        | Some (actual, fresh) \<Rightarrow> (actual, \<not> same_plate actual (p_ActiveRegistration p))))"

definition see_plate :: "press \<Rightarrow> guest_context \<Rightarrow> permit \<Rightarrow> kerb \<Rightarrow> string \<times> kerb" where
  "see_plate pr gc p k =
     (case guestCurrentPlate (pr_Council pr) gc p of
        (current, ask) \<Rightarrow> (current, if ask then RequestDriftSoon (p_Owner p) k else k))"

definition revertPlate :: "string \<Rightarrow> time option \<Rightarrow> string \<Rightarrow> owned_vehicle list \<Rightarrow> time \<Rightarrow> string" where
  "revertPlate baseline until current cars now =
     (if baseline = [] \<or> (case until of None \<Rightarrow> True | Some u \<Rightarrow> \<not> now < u) \<or> same_plate baseline current then []
      else if list_ex (\<lambda>v. same_plate (v_Registration v) baseline) cars then []
      else baseline)"

record desired =
  ds_Want :: string
  ds_State :: string
  ds_DecidedAt :: "time option"
  ds_Until :: "time option"

definition nothing_desired :: desired where
  "nothing_desired = \<lparr>ds_Want = [], ds_State = [], ds_DecidedAt = None, ds_Until = None\<rparr>"

text \<open>\<open>guestDesired\<close>: the plate the schedule steers to now; a failed read is no plate.\<close>

definition guestDesired :: "press \<Rightarrow> permit \<Rightarrow> tables \<Rightarrow> desired" where
  "guestDesired pr p tb =
     (let z = pr_Zone pr; now = pr_Now pr in
      if \<not> pr_RulesRead pr \<or> \<not> pr_OverridesRead pr then nothing_desired
      else (let ovs = ListOverrides (p_ID p) now tb;
                res = resolve z now (permit_cycle p) (ListRules (p_ID p) tb) ovs in
        if s_Source res = SourceNone then nothing_desired
        else if s_Registration res = [] \<and> \<not> pr_VehiclesRead pr then nothing_desired
        else (let car = find (\<lambda>v. v_ID v = s_VehicleID res) (ListVehiclesFor (p_Owner p) tb);
                  ws = (if s_Registration res \<noteq> [] then (s_Registration res, s_State res)
                        else (case car of None \<Rightarrow> ([], []) | Some v \<Rightarrow> (v_Registration v, v_State v)));
                  win = (if s_Source res = SourceOverride then winning_override now ovs else None)
              in \<lparr>ds_Want = fst ws, ds_State = snd ws, ds_DecidedAt = map_option o_CreatedAt win,
                  ds_Until = Option.bind win o_EndsAt\<rparr>)))"

definition stateForPlate :: "owned_vehicle list \<Rightarrow> string \<Rightarrow> string" where
  "stateForPlate vs plate = (case find (\<lambda>v. same_plate (v_Registration v) plate) vs of None \<Rightarrow> [] | Some v \<Rightarrow> v_State v)"

definition validRegion :: "council_view \<Rightarrow> string \<Rightarrow> bool" where
  "validRegion cv code \<longleftrightarrow> code = [] \<or> (cv_Wired cv \<and> cv_RegionValid cv code)"

definition formRegion :: "council_view \<Rightarrow> string \<Rightarrow> string" where
  "formRegion cv raw = (let code = to_upper (trim_space raw) in if validRegion cv code then code else [])"

definition guestApplyTimeout :: dur where "guestApplyTimeout = 8 * minute"

definition pendingState :: "string \<Rightarrow> string \<Rightarrow> time option \<Rightarrow> time \<Rightarrow> string \<times> bool" where
  "pendingState actual want since now =
     (if want = [] \<or> same_plate actual want then ([], False)
      else (want, case since of None \<Rightarrow> False | Some s \<Rightarrow> guestApplyTimeout < tsub now s))"

text \<open>The clock of a target that has not been confirmed, by permit and normal plate.\<close>

type_synonym stall_clock = "((int \<times> string) \<times> time) list"

definition maxStallKeys :: nat where "maxStallKeys = 4096"

definition stall_since :: "int \<Rightarrow> string \<Rightarrow> time \<Rightarrow> stall_clock \<Rightarrow> time \<times> stall_clock" where
  "stall_since pid want now c0 =
     (let key = (pid, norm_plate want); c = (if maxStallKeys < length c0 then [] else c0) in
      case map_of c key of Some t \<Rightarrow> (t, c) | None \<Rightarrow> (now, (key, now) # c))"

definition stall_forget :: "int \<Rightarrow> string \<Rightarrow> stall_clock \<Rightarrow> stall_clock" where
  "stall_forget pid want c = filter (\<lambda>e. fst e \<noteq> (pid, norm_plate want)) c"

definition stallSince :: "int \<Rightarrow> string \<Rightarrow> string \<Rightarrow> time option \<Rightarrow> time \<Rightarrow> stall_clock \<Rightarrow> time option \<times> stall_clock" where
  "stallSince pid current want decidedAt now c =
     (case decidedAt of
        Some t \<Rightarrow> (Some t, c)
      | None \<Rightarrow>
         if want = [] \<or> same_plate current want then (None, stall_forget pid want c)
         else (case stall_since pid want now c of (t, c') \<Rightarrow> (Some t, c')))"

section \<open>Writing to the council on a guest's authority\<close>

datatype denial = ApplyAllowed | ApplyRevoked | ApplyUnverified

definition authoriseGuestApply :: "bool \<Rightarrow> int \<Rightarrow> int \<Rightarrow> tables \<Rightarrow> denial" where
  "authoriseGuestApply checked tid oid tb =
     (if \<not> checked then ApplyUnverified
      else if (if oid \<noteq> 0 then GuestOverrideStillAuthorised oid tid tb else GuestTokenStillLive tid tb)
      then ApplyAllowed else ApplyRevoked)"

record guest_apply =
  ga_Permit :: permit
  ga_Plate :: string
  ga_State :: string
  ga_TokenID :: int
  ga_OverrideID :: int
  ga_Detail :: string

definition errApplyBusy :: err where
  "errApplyBusy = Classified FailTransient OpSetVehicle [] (Some (Plain ''another plate change for this permit is still in flight''))"

definition guestApplyDetail :: "err \<Rightarrow> string" where
  "guestApplyDetail e =
     (if fst (failure_of (Some e)) = FailTransient then ''p.stonn could not reach the council and will keep trying.''
      else ''The council did not accept the change.'')"

definition failed_apply :: "guest_apply \<Rightarrow> err \<Rightarrow> kerb \<Rightarrow> (denial \<times> err option) \<times> kerb" where
  "failed_apply a e k =
     ((ApplyAllowed, Some e), RecordGuestApply (p_ID (ga_Permit a)) (ga_Plate a) ''error'' (guestApplyDetail e) (kickScheduler k))"

definition called :: "int \<Rightarrow> string \<Rightarrow> string \<Rightarrow> kerb \<Rightarrow> kerb" where
  "called pid plate st k = k\<lparr>kb_Calls := kb_Calls k @ [(pid, plate, st)]\<rparr>"

definition applyGuestPlate :: "press \<Rightarrow> guest_apply \<Rightarrow> kerb \<Rightarrow> (denial \<times> err option) \<times> kerb" where
  "applyGuestPlate pr a k0 =
     (let k = on_kerb (pr_Between pr) k0; pid = p_ID (ga_Permit a) in
      if \<not> pr_Claimed pr then failed_apply a errApplyBusy k
      else (case authoriseGuestApply (pr_Checked pr) (ga_TokenID a) (ga_OverrideID a) (kb_Tables k) of
          ApplyAllowed \<Rightarrow>
            (case pr_Answer pr (ga_Plate a) (ga_State a) of
               Some e \<Rightarrow> failed_apply a e (called pid (ga_Plate a) (ga_State a) k)
             | None \<Rightarrow>
                 ((ApplyAllowed, None),
                  RecordGuestApply pid (ga_Plate a) ''success'' (ga_Detail a)
                    (kickScheduler
                      (on_kerb (if pr_Recorded pr then set_active pid (ga_Plate a) (pr_Now pr) else (\<lambda>t. t))
                        (called pid (ga_Plate a) (ga_State a) k)))))
        | d \<Rightarrow> ((d, None), kickScheduler k)))"

section \<open>Who is told\<close>

definition vehicle_infos :: "owned_vehicle list \<Rightarrow> int \<rightharpoonup> vehicle_info" where
  "vehicle_infos vs = map_of (rev (map (\<lambda>v. (v_ID v, no_vehicle_info\<lparr>vi_Registration := v_Registration v,
     vi_Label := v_Label v, vi_Email := v_Email v\<rparr>)) vs))"

definition displacedDriver :: "press \<Rightarrow> permit \<Rightarrow> string \<Rightarrow> string \<Rightarrow> string \<Rightarrow> tables \<Rightarrow> displaced_booking \<times> bool" where
  "displacedDriver pr p prev next_plate actor tb =
     (if prev = [] \<or> same_plate prev next_plate then (nobody_displaced, False)
      else if \<not> pr_OverridesRead pr \<or> \<not> pr_VehiclesRead pr then (nobody_displaced, False)
      else (let d = find_displaced (ListOverrides (p_ID p) (pr_Now pr) tb) (vehicle_infos (ListVehiclesFor (p_Owner p) tb))
                      prev actor (AccountEmails (p_Owner p) tb) (pr_Now pr)
            in (d, d_Contact d \<noteq> [] \<and> \<not> pr_Suppressed pr (d_Contact d) \<and> pr_DriverTold pr)))"

definition notifyGuestApply :: "press \<Rightarrow> apply_notice \<Rightarrow> kerb \<Rightarrow> kerb" where
  "notifyGuestApply pr n k = (if pr_NotifyAllowed pr then k\<lparr>kb_Notices := kb_Notices k @ [n]\<rparr> else k)"

section \<open>A press that changes nothing\<close>

definition overlapping_best :: "int \<Rightarrow> time \<Rightarrow> time \<Rightarrow> tables \<Rightarrow> override option" where
  "overlapping_best pid now ends tb = best fresher (filter (\<lambda>x. o_StartsAt x < ends) (ListOverrides pid now tb))"

definition guestAlreadyCovered ::
  "press \<Rightarrow> guest_context \<Rightarrow> permit \<Rightarrow> time \<Rightarrow> int \<Rightarrow> string \<Rightarrow> string \<Rightarrow> tables \<Rightarrow> time option"
where
  "guestAlreadyCovered pr gc p ends vid reg st tb =
     (if gc_TokenID gc = 0 \<or> \<not> pr_OverridesRead pr then None
      else (case overlapping_best (p_ID p) (pr_Now pr) ends tb of
          None \<Rightarrow> None
        | Some b \<Rightarrow>
           (case o_EndsAt b of
              None \<Rightarrow> None
            | Some e \<Rightarrow>
               if o_GuestTokenID b \<noteq> gc_TokenID gc \<or> o_Empty b \<or> pr_Now pr < o_StartsAt b \<or> e < ends then None
               else if vid \<noteq> 0
               then (if o_VehicleID b \<noteq> vid then None else Some e)
               else (if o_VehicleID b \<noteq> 0 \<or> \<not> same_plate (o_Registration b) reg \<or> o_State b \<noteq> st then None else Some e))))"

definition councilShows :: "council_view \<Rightarrow> string \<Rightarrow> bool" where
  "councilShows cv reg =
     (if \<not> cv_Wired cv then False
      else (case cv_Cached cv of
          Some (actual, True) \<Rightarrow> same_plate actual reg
        | _ \<Rightarrow> (case cv_Live cv of None \<Rightarrow> False | Some actual \<Rightarrow> same_plate actual reg)))"

definition guestCarAlreadyOn :: "press \<Rightarrow> permit \<Rightarrow> string \<Rightarrow> string \<Rightarrow> string \<Rightarrow> tables \<Rightarrow> bool" where
  "guestCarAlreadyOn pr p current reg st tb =
     (if \<not> same_plate current reg then False
      else let d = guestDesired pr p tb in
        if (if ds_Want d \<noteq> [] then same_plate (ds_Want d) reg \<and> ds_State d = st
            else pr_VehiclesRead pr \<and> stateForPlate (ListVehiclesFor (p_Owner p) tb) reg = st)
        then councilShows (pr_Council pr) reg else False)"

section \<open>Putting a car on\<close>

datatype refusal = UnexpectedAnswer | WontRestore string | WontAccept string string

definition guestRefusalMessage :: "err \<Rightarrow> string \<Rightarrow> bool \<Rightarrow> refusal" where
  "guestRefusalMessage e plate restoring =
     (if fst (failure_of (Some e)) \<noteq> FailRejected then UnexpectedAnswer
      else if restoring then WontRestore plate
      else WontAccept plate (detail_of (Some e)))"

datatype say =
    Quiet
  | PlateFormat
  | NotOnLink
  | NotSaved bool
  | AlreadyOn string string
  | KeptOn string string
  | NowOn string string
  | BackOn string
  | OffPermit string
  | NothingToPutBack
  | ChangeFailed
  | PutBackShortly
  | DeniedNow denial
  | CouncilSaid refusal
  | NoRegoOn
  | MustHaveRego
  | RosterHasRego
  | PermitBusy
  | JustScheduled
  | StillOn string bool

datatype answer =
    NotVerified
  | TooMany
  | Gone
  | DeadPermit bool
  | Menu say
  | Requested int
  | StillWaiting int
  | AlreadyAsked string
  | QueueFull
  | NotSent
  | ServerError

record chosen =
  ch_Vehicle :: int
  ch_Reg :: string
  ch_By :: string
  ch_State :: string

text \<open>A typed plate when the link allows one and one was typed, else one of the cars of the link.\<close>

definition choose_car :: "press \<Rightarrow> guest_context \<Rightarrow> say + chosen" where
  "choose_car pr gc =
     (let plate = normalizeReg (pr_Plate pr) in
      if plate \<noteq> [] \<and> g_AllowPlate (gc_Grant gc)
      then (if \<not> validRego plate then Inl PlateFormat
            else Inr \<lparr>ch_Vehicle = 0, ch_Reg = plate,
                      ch_By = (if gc_Recipient gc = [] then ''visitor (QR)'' else gc_Recipient gc),
                      ch_State = formRegion (pr_Council pr) (pr_PlateState pr)\<rparr>)
      else (case find (\<lambda>v. v_ID v = pr_VehicleID pr) (gc_Vehicles gc) of
          None \<Rightarrow> Inl NotOnLink
        | Some v \<Rightarrow> Inr \<lparr>ch_Vehicle = v_ID v, ch_Reg = v_Registration v, ch_By = gc_Recipient gc, ch_State = v_State v\<rparr>))"

text \<open>Identifiers of vehicles start at 1, so 0 stands for a typed plate.\<close>

definition book_car :: "press \<Rightarrow> guest_context \<Rightarrow> permit \<Rightarrow> time \<Rightarrow> chosen \<Rightarrow> tables \<Rightarrow> (int \<times> tables) outcome" where
  "book_car pr gc p ends c tb =
     (if ch_Vehicle c = 0
      then CreateGuestPlateOverride (p_ID p) (ch_Reg c) (ch_State c) (pr_Now pr) (Some ends) (ch_By c) (gc_TokenID gc) (pr_Now pr) tb
      else CreateGuestOverride (p_ID p) (ch_Vehicle c) (pr_Now pr) (Some ends) (ch_By c) (gc_TokenID gc) (pr_Now pr) tb)"

definition refused_booking :: "store_err \<Rightarrow> say" where
  "refused_booking e = NotSaved (e = GuestOverrideRefused)"

definition keep_baseline :: "press \<Rightarrow> guest_context \<Rightarrow> string \<Rightarrow> time \<Rightarrow> tables \<Rightarrow> tables" where
  "keep_baseline pr gc current ends tb =
     (case CaptureOrExtendGuestBaseline (gc_TokenID gc) current ends (pr_Now pr) tb of Inl _ \<Rightarrow> tb | Inr (_, tb') \<Rightarrow> tb')"

definition activation_end :: "press \<Rightarrow> guest_context \<Rightarrow> time" where
  "activation_end pr gc = dayEndLocal (pr_Zone pr) (pr_Now pr) (if g_AllowOvernight (gc_Grant gc) \<and> pr_Overnight pr then 1 else 0)"

definition after_apply ::
  "press \<Rightarrow> guest_context \<Rightarrow> permit \<Rightarrow> string \<Rightarrow> bool \<Rightarrow> chosen \<Rightarrow> (denial \<times> err option) \<times> kerb \<Rightarrow> answer \<times> kerb"
where
  "after_apply pr gc p current wasOn c out =
     (case out of ((d, e), k) \<Rightarrow>
        let until = untilPhrase (pr_Zone pr) (pr_Now pr) (g_AllowOvernight (gc_Grant gc) \<and> pr_Overnight pr) in
        if d \<noteq> ApplyAllowed then (Menu (DeniedNow d), k)
        else (case e of
            None \<Rightarrow>
              if wasOn then (Menu (KeptOn (ch_Reg c) until), k)
              else (case displacedDriver pr p current (ch_Reg c) (gc_Recipient gc) (kb_Tables k) of (disp, told) \<Rightarrow>
                 (Menu (NowOn (ch_Reg c) until),
                  notifyGuestApply pr \<lparr>an_Owner = p_Owner p, an_Plate = ch_Reg c, an_By = ch_By c, an_Source = guestSource gc,
                    an_Displaced = d_Reg disp, an_Told = told\<rparr> k))
          | Some er \<Rightarrow>
              if fst (failure_of (Some er)) = FailTransient then (Menu Quiet, k)
              else (Menu (CouncilSaid (guestRefusalMessage er (ch_Reg c) False)), k)))"

definition activate :: "press \<Rightarrow> guest_context \<Rightarrow> permit \<Rightarrow> kerb \<Rightarrow> answer \<times> kerb" where
  "activate pr gc p k0 =
     (let ends = activation_end pr gc; (current, k) = see_plate pr gc p k0; tb = kb_Tables k in
      case choose_car pr gc of
        Inl m \<Rightarrow> (Menu m, k)
      | Inr c \<Rightarrow>
          let wasOn = guestCarAlreadyOn pr p current (ch_Reg c) (ch_State c) tb;
              covered = (if wasOn then guestAlreadyCovered pr gc p ends (ch_Vehicle c) (ch_Reg c) (ch_State c) tb else None)
          in (case covered of
              Some u \<Rightarrow> (Menu (AlreadyOn (ch_Reg c) (untilText (pr_Zone pr) (pr_Now pr) (Some u))), k)
            | None \<Rightarrow>
               (case book_car pr gc p ends c tb of
                  Inl e \<Rightarrow> (Menu (refused_booking e), k)
                | Inr (oid, tb') \<Rightarrow>
                    after_apply pr gc p current wasOn c
                      (applyGuestPlate pr
                        \<lparr>ga_Permit = p, ga_Plate = ch_Reg c, ga_State = ch_State c, ga_TokenID = gc_TokenID gc,
                         ga_OverrideID = oid, ga_Detail = ''activated by '' @ ch_By c\<rparr>
                        (touchGuestActivity (p_Owner p) (k\<lparr>kb_Tables := keep_baseline pr gc current ends tb'\<rparr>))))))"

section \<open>Putting the previous one back\<close>

text \<open>The gates every press passes; \<open>ok\<close> is the handler behind them.\<close>

definition with_link ::
  "(string \<Rightarrow> string) \<Rightarrow> press \<Rightarrow> (guest_context \<Rightarrow> permit \<Rightarrow> kerb \<Rightarrow> answer \<times> kerb) \<Rightarrow> kerb \<Rightarrow> answer \<times> kerb"
where
  "with_link sha pr ok k =
     (if \<not> pr_SameOrigin pr then (NotVerified, k)
      else if \<not> pr_Allowed pr then (TooMany, k)
      else (case resolveGuest sha (pr_Raw pr) (pr_Now pr) (kb_Tables k) of
          None \<Rightarrow> (Gone, k)
        | Some (gc, p) \<Rightarrow>
            if permit_inactive (pr_Zone pr) p (pr_Now pr) (Some (pr_Zone pr)) then (DeadPermit (g_Picker (gc_Grant gc)), k)
            else ok gc p k))"

definition link_actor :: "guest_context \<Rightarrow> string" where
  "link_actor gc = (if gc_Recipient gc = [] then ''visitor (QR)'' else gc_Recipient gc)"

definition after_revert ::
  "press \<Rightarrow> guest_context \<Rightarrow> permit \<Rightarrow> string \<Rightarrow> (denial \<times> err option) \<times> kerb \<Rightarrow> answer \<times> kerb"
where
  "after_revert pr gc p target out =
     (case out of ((d, e), k) \<Rightarrow>
        if d \<noteq> ApplyAllowed then (Menu (DeniedNow d), snd (see_plate pr gc p k))
        else (case e of
            None \<Rightarrow> (Menu (BackOn target),
               notifyGuestApply pr \<lparr>an_Owner = p_Owner p, an_Plate = target, an_By = link_actor gc @ '' (undo)'',
                 an_Source = guestSource gc, an_Displaced = [], an_Told = False\<rparr> k)
          | Some er \<Rightarrow>
              if fst (failure_of (Some er)) = FailTransient then (Menu Quiet, snd (see_plate pr gc p k))
              else (Menu (CouncilSaid (guestRefusalMessage er target True)), snd (see_plate pr gc p k))))"

text \<open>What goes back: the schedule's plate when it has one, else the baseline, pinned until today's end at most.\<close>

definition revert_target ::
  "press \<Rightarrow> guest_context \<Rightarrow> permit \<Rightarrow> string \<Rightarrow> tables \<Rightarrow> (string \<times> string \<times> tables) option"
where
  "revert_target pr gc p baseline tb =
     (let d = guestDesired pr p tb in
      if ds_Want d \<noteq> [] then Some (ds_Want d, ds_State d, tb)
      else (let st = (if pr_VehiclesRead pr then stateForPlate (ListVehiclesFor (p_Owner p) tb) baseline else []);
                ends = revertPinEnd (pr_Zone pr) (pr_Now pr) (case gc_BaselineUntil gc of None \<Rightarrow> zero_time | Some u \<Rightarrow> u)
            in (case CreateGuestPlateOverride (p_ID p) baseline st (pr_Now pr) (Some ends) (link_actor gc @ '' (undo)'')
                       (gc_TokenID gc) (pr_Now pr) tb of
                Inl _ \<Rightarrow> None
              | Inr (oid, tb') \<Rightarrow> Some (baseline, st, tb'))))"

definition revert :: "press \<Rightarrow> guest_context \<Rightarrow> permit \<Rightarrow> kerb \<Rightarrow> answer \<times> kerb" where
  "revert pr gc p k =
     (if g_RequestOnly (gc_Grant gc) then (Gone, k)
      else let baseline = normalizeReg (gc_BaselinePlate gc) in
      if baseline = [] \<or> (case gc_BaselineUntil gc of None \<Rightarrow> True | Some u \<Rightarrow> \<not> pr_Now pr < u) \<or> \<not> validRego baseline
      then (Menu NothingToPutBack, snd (see_plate pr gc p k))
      else if \<not> pr_Swept pr then (Menu ChangeFailed, snd (see_plate pr gc p k))
      else (case DeleteGuestOverrides (p_ID p) (gc_TokenID gc) (kb_Tables k) of
          Inl _ \<Rightarrow> (Menu ChangeFailed, snd (see_plate pr gc p k))
        | Inr swept \<Rightarrow>
           (case revert_target pr gc p baseline swept of
              None \<Rightarrow> (Menu PutBackShortly, snd (see_plate pr gc p (kickScheduler (k\<lparr>kb_Tables := swept\<rparr>))))
            | Some (target, st, tb') \<Rightarrow>
                after_revert pr gc p target
                  (applyGuestPlate pr
                    \<lparr>ga_Permit = p, ga_Plate = target, ga_State = st, ga_TokenID = gc_TokenID gc, ga_OverrideID = 0,
                     ga_Detail = ''put back by '' @ link_actor gc\<rparr>
                    (touchGuestActivity (p_Owner p) (k\<lparr>kb_Tables := ClearGuestBaseline (gc_TokenID gc) tb'\<rparr>))))))"

definition guestRevert :: "(string \<Rightarrow> string) \<Rightarrow> press \<Rightarrow> kerb \<Rightarrow> answer \<times> kerb" where
  "guestRevert sha pr k = with_link sha pr (revert pr) k"

section \<open>Leaving the permit empty\<close>

definition resolveWithout :: "press \<Rightarrow> permit \<Rightarrow> int \<Rightarrow> tables \<Rightarrow> resolution option" where
  "resolveWithout pr p tid tb =
     (if \<not> pr_RulesRead pr \<or> \<not> pr_OverridesRead pr then None
      else Some (resolve (pr_Zone pr) (pr_Now pr) (permit_cycle p) (ListRules (p_ID p) tb)
             (filter (\<lambda>x. o_GuestTokenID x \<noteq> tid) (ListOverrides (p_ID p) (pr_Now pr) tb))))"

definition leaves_empty :: "resolution \<Rightarrow> bool" where
  "leaves_empty res \<longleftrightarrow> s_Source res = SourceNone \<or> s_Empty res"

definition pickerCanClear :: "press \<Rightarrow> guest_context \<Rightarrow> permit \<Rightarrow> string \<Rightarrow> tables \<Rightarrow> bool" where
  "pickerCanClear pr gc p current tb \<longleftrightarrow>
     current \<noteq> [] \<and> cv_Wired (pr_Council pr) \<and> cv_CanClear (pr_Council pr)
     \<and> (case resolveWithout pr p (gc_TokenID gc) tb of None \<Rightarrow> False | Some res \<Rightarrow> leaves_empty res)"

definition clear_claimed :: "press \<Rightarrow> guest_context \<Rightarrow> permit \<Rightarrow> string \<Rightarrow> kerb \<Rightarrow> answer \<times> kerb" where
  "clear_claimed pr gc p current k =
     (case authoriseGuestApply (pr_Checked pr) (gc_TokenID gc) 0 (kb_Tables k) of
        ApplyAllowed \<Rightarrow>
          (if \<not> pr_RulesRead pr \<or> \<not> pr_OverridesRead pr then (ServerError, k)
           else if \<not> leaves_empty (resolve (pr_Zone pr) (pr_Now pr) (permit_cycle p) (ListRules (p_ID p) (kb_Tables k))
                        (ListOverrides (p_ID p) (pr_Now pr) (kb_Tables k)))
           then (Menu JustScheduled, kickScheduler k)
           else (case pr_ClearAnswer pr of
               Some e \<Rightarrow>
                 (Menu (StillOn current (fst (failure_of (Some e)) = FailTransient)),
                  RecordGuestApply (p_ID p) [] ''error'' (guestApplyDetail e) (kickScheduler (called (p_ID p) [] [] k)))
             | None \<Rightarrow>
                 (Menu (OffPermit current),
                  notifyDestructive (p_Owner p) pickerActor (page_permit_label p)
                    (logChange (p_Owner p) pickerActor ''vehicle.clear'' (page_permit_label p)
                      (RecordGuestApply (p_ID p) [] ''success'' (''rego removed from '' @ pickerActor)
                        (kickScheduler (on_kerb (if pr_Recorded pr then set_active (p_ID p) [] (pr_Now pr) else (\<lambda>t. t))
                           (called (p_ID p) [] [] k))))))))
      | d \<Rightarrow> (Menu (DeniedNow d), kickScheduler k))"

definition clear_permit :: "press \<Rightarrow> guest_context \<Rightarrow> permit \<Rightarrow> kerb \<Rightarrow> answer \<times> kerb" where
  "clear_permit pr gc p k0 =
     (let (current, k) = see_plate pr gc p k0 in
      if current = [] then (Menu NoRegoOn, k)
      else if \<not> cv_Wired (pr_Council pr) \<or> \<not> cv_CanClear (pr_Council pr) then (Menu MustHaveRego, k)
      else (case resolveWithout pr p (gc_TokenID gc) (kb_Tables k) of
          None \<Rightarrow> (ServerError, k)
        | Some res \<Rightarrow>
            if \<not> leaves_empty res then (Menu RosterHasRego, k)
            else if \<not> pr_Swept pr then (ServerError, k)
            else (case DeleteGuestOverrides (p_ID p) (gc_TokenID gc) (kb_Tables k) of
                Inl _ \<Rightarrow> (ServerError, k)
              | Inr swept \<Rightarrow>
                  let k1 = on_kerb (pr_Between pr) (touchGuestActivity (p_Owner p)
                             (k\<lparr>kb_Tables := ClearGuestBaseline (gc_TokenID gc) swept\<rparr>))
                  in if \<not> pr_Claimed pr then (Menu PermitBusy, kickScheduler k1)
                     else clear_claimed pr gc p current k1)))"

text \<open>Only the quick picker may leave the permit empty.\<close>

definition guestClear :: "(string \<Rightarrow> string) \<Rightarrow> press \<Rightarrow> kerb \<Rightarrow> answer \<times> kerb" where
  "guestClear sha pr k =
     (if \<not> pr_SameOrigin pr then (NotVerified, k)
      else if \<not> pr_Allowed pr then (TooMany, k)
      else (case resolveGuest sha (pr_Raw pr) (pr_Now pr) (kb_Tables k) of
          None \<Rightarrow> (Gone, k)
        | Some (gc, p) \<Rightarrow>
            if \<not> g_Picker (gc_Grant gc) then (Gone, k)
            else if permit_inactive (pr_Zone pr) p (pr_Now pr) (Some (pr_Zone pr)) then (DeadPermit True, k)
            else clear_permit pr gc p k))"

end
