(* ===== verification/Door.thy ===== *)
theory Door
  imports Kerb Links
begin

text \<open>
  The printed code (internal/server/guest_doorqr.go, guestdecide.go): a scan only asks, the household
  answers, signed in or through the signed link of an e-mail. The press of \<^theory_text>\<open>Kerb\<close> carries what
  these handlers learn from outside as well.
\<close>

section \<open>Numbers in a cookie or a path\<close>

fun dec_digits :: "int \<Rightarrow> string \<Rightarrow> int option" where
  "dec_digits acc [] = Some acc"
| "dec_digits acc (c # cs) = (case digit_val c of None \<Rightarrow> None | Some d \<Rightarrow> dec_digits (10 * acc + d) cs)"

text \<open>\<open>strconv.ParseInt(s, 10, 64)\<close>: the value and whether there was no error; a value out of range is clamped.\<close>

definition ParseInt10 :: "string \<Rightarrow> int \<times> bool" where
  "ParseInt10 s =
     (let neg = (s \<noteq> [] \<and> hd s = CHR ''-''); ds = (if s \<noteq> [] \<and> (hd s = CHR ''-'' \<or> hd s = CHR ''+'') then tl s else s) in
      if ds = [] then (0, False)
      else (case dec_digits 0 ds of
          None \<Rightarrow> (0, False)
        | Some n \<Rightarrow>
            if neg then (if 2 ^ 63 < n then (- (2 ^ 63), False) else (- n, True))
            else (if 2 ^ 63 \<le> n then (2 ^ 63 - 1, False) else (n, True))))"

definition atoi64 :: "string \<Rightarrow> int" where "atoi64 s = fst (ParseInt10 (trim_space s))"

section \<open>The request of a scan\<close>

definition guestReqFromCookie :: "string option \<Rightarrow> guest_context \<Rightarrow> tables \<Rightarrow> (guest_request \<times> string) option" where
  "guestReqFromCookie ck gc tb =
     (case ck of
        None \<Rightarrow> None
      | Some v \<Rightarrow>
         (case cut_at (CHR ''.'') v of (idStr, nonce, ok) \<Rightarrow>
            if \<not> ok \<or> nonce = [] then None
            else if atoi64 idStr \<le> 0 then None
            else (case GuestRequestForPoll (atoi64 idStr) nonce tb of
                None \<Rightarrow> None
              | Some q \<Rightarrow> if q_GrantID q \<noteq> g_ID (gc_Grant gc) then None else Some (q, nonce))))"

definition setGuestReqCookie :: "int \<Rightarrow> string \<Rightarrow> kerb \<Rightarrow> kerb" where
  "setGuestReqCookie rid nonce k = k\<lparr>kb_Cookies := kb_Cookies k @ [(rid, nonce)]\<rparr>"

definition notifyGuestRequest :: "press \<Rightarrow> permit \<Rightarrow> string \<Rightarrow> int \<Rightarrow> kerb \<Rightarrow> kerb" where
  "notifyGuestRequest pr p plate rid k = (if pr_Nudge pr then k\<lparr>kb_Nudges := kb_Nudges k @ [(p_Owner p, plate, rid)]\<rparr> else k)"

definition asked_for :: "press \<Rightarrow> guest_context \<Rightarrow> permit \<Rightarrow> string \<Rightarrow> asked" where
  "asked_for pr gc p plate = \<lparr>as_GrantID = g_ID (gc_Grant gc), as_PermitID = p_ID p, as_Owner = p_Owner p, as_Plate = plate,
     as_State = formRegion (pr_Council pr) (pr_PlateState pr), as_Nonce = pr_Nonce pr\<rparr>"

definition guestRequest :: "press \<Rightarrow> guest_context \<Rightarrow> permit \<Rightarrow> kerb \<Rightarrow> answer \<times> kerb" where
  "guestRequest pr gc p k0 =
     (let plate = normalizeReg (pr_Plate pr) in
      if \<not> validRego plate then (Menu PlateFormat, k0)
      else let k = touchGuestActivity (p_Owner p) k0; tb = kb_Tables k;
               mine = guestReqFromCookie (pr_Cookie pr) gc tb;
               pending = (case mine of None \<Rightarrow> False | Some (q, n) \<Rightarrow> q_Status q = Pending);
               ownRepeat = (case mine of None \<Rightarrow> False | Some (q, n) \<Rightarrow> q_Status q = Pending \<and> same_plate (q_Plate q) plate);
               heardFrom = (\<not> pr_Scanner pr \<or> pending)
           in if \<not> ownRepeat \<and> heardFrom \<and> pr_ReserveRead pr \<and> PendingGuestRequestsInReserve (g_ID (gc_Grant gc)) tb
              then (QueueFull, k)
              else (case CreateGuestRequest (asked_for pr gc p plate) (pr_Now pr) tb of
                  Inl e \<Rightarrow> (if e = GuestRequestLimit then QueueFull else NotSent, k)
                | Inr ((rid, nonce, created), tb') \<Rightarrow>
                    let k' = k\<lparr>kb_Tables := tb'\<rparr> in
                    if created then (Requested rid, setGuestReqCookie rid nonce (notifyGuestRequest pr p plate rid k'))
                    else (case mine of
                        Some (q, n) \<Rightarrow> if q_ID q = rid then (StillWaiting rid, setGuestReqCookie rid n k') else (AlreadyAsked plate, k')
                      | None \<Rightarrow> (AlreadyAsked plate, k'))))"

definition guestActivate :: "(string \<Rightarrow> string) \<Rightarrow> press \<Rightarrow> kerb \<Rightarrow> answer \<times> kerb" where
  "guestActivate sha pr k =
     with_link sha pr (\<lambda>gc p k. if g_RequestOnly (gc_Grant gc) then guestRequest pr gc p k else activate pr gc p k) k"

section \<open>Where a request stands\<close>

datatype live_status =
    LivePending | LiveDenied | LiveExpired | LiveEnded | LiveSuperseded string | LiveApplied | LiveStalled | LiveApproved

definition window_end :: "zone \<Rightarrow> guest_request \<Rightarrow> time option" where
  "window_end z q = (case q_UntilTS q of Some u \<Rightarrow> Some u
     | None \<Rightarrow> map_option (\<lambda>d. dayEndLocal z d 0) (q_DecidedAt q))"

definition requestLiveState :: "press \<Rightarrow> permit \<Rightarrow> guest_request \<Rightarrow> tables \<Rightarrow> live_status" where
  "requestLiveState pr p q tb =
     (case q_Status q of
        Pending \<Rightarrow> LivePending
      | Denied \<Rightarrow> LiveDenied
      | Expired \<Rightarrow> LiveExpired
      | Approved \<Rightarrow>
          if (case window_end (pr_Zone pr) q of None \<Rightarrow> False | Some e \<Rightarrow> \<not> pr_Now pr < e) then LiveEnded
          else let want = ds_Want (guestDesired pr p tb) in
          if \<not> same_plate want (q_Plate q) then LiveSuperseded want
          else if same_plate (p_ActiveRegistration p) (q_Plate q) then LiveApplied
          else if (case q_DecidedAt q of None \<Rightarrow> False | Some d \<Rightarrow> guestApplyTimeout < tsub (pr_Now pr) d) then LiveStalled
          else LiveApproved)"

text \<open>
  The poll of the waiting page: the lookup's outcome, and whether the council is known to be down
  (the authorise circuit or the fleet breaker of a named tenant).
\<close>

datatype wait_status = WaitIs live_status | WaitOutage | WaitAgain

definition guestRequestStatus :: "press \<Rightarrow> bool \<Rightarrow> bool \<Rightarrow> int \<Rightarrow> string \<Rightarrow> tables \<Rightarrow> wait_status" where
  "guestRequestStatus pr polled down rid nonce tb =
     (if \<not> polled then WaitAgain
      else (case GuestRequestForPoll rid nonce tb of
          None \<Rightarrow> WaitIs LiveDenied
        | Some q \<Rightarrow>
           (case q_Status q of
              Approved \<Rightarrow>
                (case find (\<lambda>p. p_ID p = q_PermitID q) (tb_Permits tb) of
                   None \<Rightarrow> WaitIs LiveApproved
                 | Some p \<Rightarrow>
                     let live = requestLiveState pr p q tb in
                     if (live = LiveApproved \<or> live = LiveStalled) \<and> p_TenantID p \<noteq> [] \<and> cv_Wired (pr_Council pr) \<and> down
                     then WaitOutage else WaitIs live)
            | Pending \<Rightarrow> WaitIs LivePending
            | Denied \<Rightarrow> WaitIs LiveDenied
            | Expired \<Rightarrow> WaitIs LiveExpired)))"

section \<open>The household's answer\<close>

datatype decision =
    DecideErr | AlreadyDecided | Declined | DecideGone | CapFull | PermitInactive | DecideRevoked
  | DecideApplied string | DecideApproving string

definition verdict :: "bool \<Rightarrow> string \<Rightarrow> string \<Rightarrow> time \<Rightarrow> verdict_row" where
  "verdict approve until user ends = \<lparr>vd_Approve = approve, vd_Until = until, vd_DecidedBy = user, vd_UntilTS = ends\<rparr>"

definition decline :: "press \<Rightarrow> string \<Rightarrow> string \<Rightarrow> int \<Rightarrow> kerb \<Rightarrow> decision \<times> kerb" where
  "decline pr owner user rid k =
     (if \<not> pr_Stored pr then (DecideErr, k)
      else (case DecideGuestRequest owner rid (verdict False [] user zero_time) (pr_Now pr) (kb_Tables k) of
          Inl e \<Rightarrow> (if e = NotFound then AlreadyDecided else DecideErr, k)
        | Inr (q, tb') \<Rightarrow> (Declined, logChange owner user ''request.deny'' [] (k\<lparr>kb_Tables := tb'\<rparr>))))"

definition drop_booking :: "string \<Rightarrow> int \<Rightarrow> tables \<Rightarrow> tables" where
  "drop_booking owner oid tb = (case DeleteOverride owner oid tb of Inl _ \<Rightarrow> tb | Inr tb' \<Rightarrow> tb')"

definition after_approval ::
  "press \<Rightarrow> string \<Rightarrow> string \<Rightarrow> permit \<Rightarrow> guest_request \<Rightarrow> int \<Rightarrow> (denial \<times> err option) \<times> kerb \<Rightarrow> decision \<times> kerb"
where
  "after_approval pr owner user p q oid out =
     (case out of ((d, e), k) \<Rightarrow>
        if d \<noteq> ApplyAllowed then (DecideRevoked, on_kerb (drop_booking owner oid) k)
        else (case e of
            None \<Rightarrow>
              (case displacedDriver pr p (p_ActiveRegistration p) (q_Plate q) user (kb_Tables k) of (disp, told) \<Rightarrow>
                 (DecideApplied (q_Plate q),
                  logChange owner user ''request.approve'' (q_Plate q)
                    (k\<lparr>kb_Notices := kb_Notices k @ [\<lparr>an_Owner = p_Owner p, an_Plate = q_Plate q, an_By = user,
                        an_Source = ''doorqr'', an_Displaced = d_Reg disp, an_Told = told\<rparr>]\<rparr>)))
          | Some _ \<Rightarrow> (DecideApproving (q_Plate q), logChange owner user ''request.approve'' (q_Plate q) k)))"

text \<open>\<open>pr_Between\<close> is what happened between the approval and the claim, \<open>race\<close> between the booking and the approval.\<close>

definition approve ::
  "press \<Rightarrow> (tables \<Rightarrow> tables) \<Rightarrow> string \<Rightarrow> string \<Rightarrow> int \<Rightarrow> kerb \<Rightarrow> decision \<times> kerb"
where
  "approve pr race owner user rid k =
     (let tb = kb_Tables k; z = pr_Zone pr; now = pr_Now pr in
      case GuestRequestByID rid tb of
        None \<Rightarrow> (DecideGone, k)
      | Some q \<Rightarrow>
          if q_Status q \<noteq> Pending then (DecideGone, k)
          else (case find (\<lambda>p. p_ID p = q_PermitID q) (tb_Permits tb) of
              None \<Rightarrow> (DecideGone, k)
            | Some p \<Rightarrow>
                if p_Owner p \<noteq> owner then (DecideGone, k)
                else if permit_inactive z p now (Some z) then (PermitInactive, k)
                else let ends = dayEndLocal z now 0;
                         tok = (case GrantTokenID (q_GrantID q) tb of None \<Rightarrow> 0 | Some t \<Rightarrow> t) in
                (case CreateGuestPlateOverride (p_ID p) (q_Plate q) (q_State q) now (Some ends) ''visitor (printed QR)'' tok now tb of
                   Inl e \<Rightarrow>
                     (if e = GuestOverrideRefused
                      then (if tok \<noteq> 0 \<and> \<not> GuestTokenStillLive tok tb then DecideRevoked else CapFull)
                      else DecideErr, k)
                 | Inr (oid, tb1) \<Rightarrow>
                     let tb2 = race tb1 in
                     (case (if pr_Stored pr then DecideGuestRequest owner rid (verdict True (untilPhrase z now False) user ends) now tb2
                            else Inl (BadCall ''guest_request'')) of
                        Inl e \<Rightarrow> (if e = NotFound then DecideGone else DecideErr, k\<lparr>kb_Tables := drop_booking owner oid tb2\<rparr>)
                      | Inr (q', tb3) \<Rightarrow>
                          after_approval pr owner user p q oid
                            (applyGuestPlate pr
                              \<lparr>ga_Permit = p, ga_Plate = q_Plate q, ga_State = q_State q, ga_TokenID = tok, ga_OverrideID = oid,
                               ga_Detail = ''approved a printed-QR request''\<rparr>
                              (k\<lparr>kb_Tables := tb3\<rparr>))))))"

definition runDecideRequest ::
  "press \<Rightarrow> (tables \<Rightarrow> tables) \<Rightarrow> string \<Rightarrow> string \<Rightarrow> int \<Rightarrow> bool \<Rightarrow> kerb \<Rightarrow> decision \<times> kerb"
where
  "runDecideRequest pr race owner user rid yes k =
     (if yes then approve pr race owner user rid k else decline pr owner user rid k)"

section \<open>The link of the e-mail\<close>

definition resolveDecideRequest ::
  "(string \<Rightarrow> string \<Rightarrow> string) \<Rightarrow> string \<Rightarrow> string \<Rightarrow> string \<Rightarrow> string \<Rightarrow> time \<Rightarrow> tables \<Rightarrow> (guest_request \<times> string) option"
where
  "resolveDecideRequest hmac key addr0 id0 token now tb =
     (case DecodeUnsubAddress addr0 of
        None \<Rightarrow> None
      | Some addr \<Rightarrow>
         (case ParseInt10 id0 of (rid, ok) \<Rightarrow>
            if \<not> ok \<or> rid \<le> 0 then None
            else if \<not> verifyDecideTokenAt hmac key rid addr token now then None
            else (case GuestRequestByID rid tb of
                None \<Rightarrow> None
              | Some q \<Rightarrow>
                  if addr \<noteq> q_Owner q \<and> MemberAccount addr tb \<noteq> Some (q_Owner q) then None else Some (q, addr))))"

definition guestDecideApply ::
  "(string \<Rightarrow> string \<Rightarrow> string) \<Rightarrow> string \<Rightarrow> press \<Rightarrow> (tables \<Rightarrow> tables) \<Rightarrow> string \<Rightarrow> string \<Rightarrow> string \<Rightarrow> string \<Rightarrow> kerb
     \<Rightarrow> decision option \<times> kerb"
where
  "guestDecideApply hmac key pr race addr0 id0 token choice k =
     (if \<not> pr_Allowed pr then (None, k)
      else (case resolveDecideRequest hmac key addr0 id0 token (pr_Now pr) (kb_Tables k) of
          None \<Rightarrow> (None, k)
        | Some (q, addr) \<Rightarrow>
            if choice \<noteq> ''approve'' \<and> choice \<noteq> ''decline'' then (None, k)
            else (case runDecideRequest pr race (q_Owner q) addr (q_ID q) (choice = ''approve'')
                         (touchGuestActivity (q_Owner q) k) of
                (d, k') \<Rightarrow> (Some d, k'))))"

end
