(* ===== verification/Press.thy ===== *)
theory Press
  imports Door Revocation
begin

text \<open>
  What a visitor's press can do: a press that saves nothing would have changed nothing; every call to the
  council is made while the link carries authority; a press that was turned away reaches nobody.
\<close>

section \<open>A skipped press\<close>

lemma ids_distinct_winner:
  assumes "distinct (map o_ID xs)" and "x \<in> set xs" and "y \<in> set xs" and "\<not> fresher x y" and "\<not> fresher y x"
  shows "x = y"
proof -
  have "o_ID x = o_ID y" using assms(4,5) by (auto simp: fresher_def later_def)
  then show ?thesis using assms(1-3) by (auto simp: distinct_map inj_on_def)
qed

lemma active_runs: "override_active t x \<Longrightarrow> still_runs t x"
  using whole_seconds_bounds [of t] by (auto simp: override_active_def still_runs_def nowUTC_def split: option.splits)

lemma active_runs_before:
  assumes "override_active t x" and "now \<le> t" shows "still_runs now x"
proof (cases "o_EndsAt x")
  case (Some e)
  then have "t < e" using assms(1) by (simp add: override_active_def)
  then show ?thesis using Some assms(2) whole_seconds_bounds [of now] by (simp add: still_runs_def nowUTC_def)
qed (simp add: still_runs_def)

lemma set_ListOverrides: "set (ListOverrides pid t tb) = {x \<in> set (tb_Overrides tb). o_PermitID x = pid \<and> still_runs t x}"
  by (auto simp: ListOverrides_def running_on_def)

lemma active_listed:
  "x \<in> set (ListOverrides pid t tb) \<and> override_active t x \<longleftrightarrow> x \<in> set (tb_Overrides tb) \<and> o_PermitID x = pid \<and> override_active t x"
  using active_runs by (auto simp: set_ListOverrides)

lemma listedI: "x \<in> set (tb_Overrides tb) \<Longrightarrow> o_PermitID x = pid \<Longrightarrow> override_active t x \<Longrightarrow> x \<in> set (ListOverrides pid t tb)"
  using active_listed by blast

lemma listedD: "x \<in> set (ListOverrides pid t tb) \<Longrightarrow> x \<in> set (tb_Overrides tb) \<and> o_PermitID x = pid"
  by (simp add: set_ListOverrides)

lemma winner_is:
  assumes ids: "distinct (map o_ID (tb_Overrides tb))"
    and w: "winning_override t (ListOverrides pid t tb) = Some w"
    and b: "b \<in> set (tb_Overrides tb)" "o_PermitID b = pid" "override_active t b" "\<not> fresher w b"
  shows "w = b"
proof -
  have "w \<in> set (tb_Overrides tb)" using winning_override_Some(1) [OF w] listedD by blast
  moreover have "\<not> fresher b w"
    using winning_override_Some(3) [OF w listedI [OF b(1-3)] b(3)] by (auto simp: fresher_def later_def)
  ultimately show ?thesis using ids_distinct_winner [OF ids _ b(1)] b(4) by blast
qed

lemma same_active_same_winner:
  assumes "distinct (map o_ID (tb_Overrides tb'))" and "distinct (map o_ID (tb_Overrides tb))"
    and "\<And>x. x \<in> set (tb_Overrides tb') \<and> o_PermitID x = pid \<and> override_active t x
        \<longleftrightarrow> x \<in> set (tb_Overrides tb) \<and> o_PermitID x = pid \<and> override_active t x"
  shows "winning_override t (ListOverrides pid t tb') = winning_override t (ListOverrides pid t tb)"
proof (cases "winning_override t (ListOverrides pid t tb)")
  case None
  have "\<not> (x \<in> set (ListOverrides pid t tb') \<and> override_active t x)" for x
  proof
    assume x: "x \<in> set (ListOverrides pid t tb') \<and> override_active t x"
    then have "x \<in> set (tb_Overrides tb) \<and> o_PermitID x = pid \<and> override_active t x" using assms(3) [of x] listedD by blast
    then show False using None listedI [of x tb pid t] by (auto simp: winning_override_None)
  qed
  then have "winning_override t (ListOverrides pid t tb') = None" by (auto simp: winning_override_None)
  then show ?thesis using None by simp
next
  case (Some w)
  have w: "w \<in> set (tb_Overrides tb)" "o_PermitID w = pid" "override_active t w"
    using winning_override_Some(1,2) [OF Some] listedD by blast+
  then have w': "w \<in> set (tb_Overrides tb')" using assms(3) by blast
  then have "w \<in> set (ListOverrides pid t tb')" using w listedI by blast
  then obtain v where v: "winning_override t (ListOverrides pid t tb') = Some v"
    using w(3) winning_override_None by (cases "winning_override t (ListOverrides pid t tb')") auto
  have "v \<in> set (tb_Overrides tb')" "o_PermitID v = pid" "override_active t v"
    using winning_override_Some(1,2) [OF v] listedD by blast+
  then have "v \<in> set (tb_Overrides tb)" "o_PermitID v = pid" "override_active t v" using assms(3) by blast+
  then have "v \<in> set (ListOverrides pid t tb)" "override_active t v" using listedI by blast+
  then have "\<not> fresher v w" using winning_override_Some(3) [OF Some, of v] by (auto simp: fresher_def later_def)
  then have "v = w" using winner_is [OF assms(1) v w' w(2,3)] by blast
  then show ?thesis using v Some by simp
qed

definition car_booking :: "press \<Rightarrow> permit \<Rightarrow> time \<Rightarrow> chosen \<Rightarrow> booking" where
  "car_booking pr p ends c = \<lparr>bk_PermitID = p_ID p, bk_VehicleID = ch_Vehicle c,
     bk_Registration = (if ch_Vehicle c = 0 then ch_Reg c else []), bk_State = (if ch_Vehicle c = 0 then ch_State c else []),
     bk_StartsAt = pr_Now pr, bk_EndsAt = Some ends, bk_CreatedBy = ch_By c\<rparr>"

lemma book_car_guarded: "book_car pr gc p ends c tb = createOverrideGuarded (car_booking pr p ends c) (gc_TokenID gc) (pr_Now pr) tb"
  by (simp add: book_car_def car_booking_def CreateGuestPlateOverride_def CreateGuestOverride_def)

lemma book_car_row:
  assumes "book_car pr gc p ends c tb = Inr (oid, tb')"
  obtains n where "tb' = tb\<lparr>tb_Overrides := tb_Overrides tb @ [n], tb_LastOverride := tb_LastOverride tb + 1\<rparr>"
    and "o_ID n = tb_LastOverride tb + 1" and "oid = o_ID n" and "o_PermitID n = p_ID p" and "o_VehicleID n = ch_Vehicle c"
    and "o_Registration n = (if ch_Vehicle c = 0 then ch_Reg c else [])" and "o_State n = (if ch_Vehicle c = 0 then ch_State c else [])"
    and "\<not> o_Empty n" and "o_EndsAt n = Some (whole_seconds ends)" and "o_StartsAt n = whole_seconds (pr_Now pr)"
    and "o_GuestTokenID n = gc_TokenID gc"
proof (rule that [of "booked_row (car_booking pr p ends c) (gc_TokenID gc) False (pr_Now pr) tb"])
  have i: "insert_override (car_booking pr p ends c) (gc_TokenID gc) False (pr_Now pr) tb = Inr (oid, tb')"
    using assms by (simp add: book_car_guarded createOverrideGuarded_def split: if_splits)
  show "tb' = tb\<lparr>tb_Overrides := tb_Overrides tb @ [booked_row (car_booking pr p ends c) (gc_TokenID gc) False (pr_Now pr) tb],
      tb_LastOverride := tb_LastOverride tb + 1\<rparr>"
    and "oid = o_ID (booked_row (car_booking pr p ends c) (gc_TokenID gc) False (pr_Now pr) tb)"
    using i by (auto simp: insert_override_def booked_row_def split: if_splits)
qed (simp_all add: booked_row_def car_booking_def endsAtSQL_def)

lemma covered_row:
  assumes "guestAlreadyCovered pr gc p ends vid reg st tb = Some u"
  obtains b where "overlapping_best (p_ID p) (pr_Now pr) ends tb = Some b" and "\<not> o_Empty b" and "o_StartsAt b \<le> pr_Now pr"
    and "o_EndsAt b = Some u" and "ends \<le> u" and "o_VehicleID b = vid"
    and "vid = 0 \<Longrightarrow> same_plate (o_Registration b) reg \<and> o_State b = st"
  using assms that
  by (auto simp: guestAlreadyCovered_def Let_def split: if_splits option.splits)

text \<open>A booking no other beats is the winner, and a row added beside it can only share that place.\<close>

lemma unbeaten_wins:
  assumes "distinct (map o_ID (tb_Overrides tb))" and "b \<in> set (tb_Overrides tb)" and "o_PermitID b = pid" and "override_active t b"
    and "\<And>w. w \<in> set (tb_Overrides tb) \<Longrightarrow> o_PermitID w = pid \<Longrightarrow> override_active t w \<Longrightarrow> \<not> fresher w b"
  shows "winning_override t (ListOverrides pid t tb) = Some b"
proof (cases "winning_override t (ListOverrides pid t tb)")
  case None
  then show ?thesis using assms(4) listedI [OF assms(2,3,4)] by (auto simp: winning_override_None)
next
  case (Some w)
  have "w \<in> set (tb_Overrides tb)" "o_PermitID w = pid" "override_active t w"
    using winning_override_Some(1,2) [OF Some] listedD by blast+
  then have "w = b" using winner_is [OF assms(1) Some assms(2,3,4)] assms(5) by blast
  then show ?thesis using Some by simp
qed

lemma added_row_wins:
  assumes "distinct (map o_ID (tb_Overrides tb'))" and "tb_Overrides tb' = tb_Overrides tb @ [n]"
    and "b \<in> set (tb_Overrides tb)" and "o_PermitID b = pid" and "override_active t b"
    and "\<And>w. w \<in> set (tb_Overrides tb) \<Longrightarrow> o_PermitID w = pid \<Longrightarrow> override_active t w \<Longrightarrow> \<not> fresher w b"
  shows "\<exists>w. winning_override t (ListOverrides pid t tb') = Some w \<and> (w = b \<or> w = n)"
proof (cases "winning_override t (ListOverrides pid t tb')")
  case None
  then show ?thesis using assms(5) listedI [of b tb' pid t] assms(2-4) by (auto simp: winning_override_None)
next
  case (Some w)
  have w: "w \<in> set (tb_Overrides tb')" "o_PermitID w = pid" "override_active t w"
    using winning_override_Some(1,2) [OF Some] listedD by blast+
  have "w = b" if "w \<noteq> n"
  proof -
    have "w \<in> set (tb_Overrides tb)" using that w(1) assms(2) by auto
    then have "\<not> fresher w b" using w(2,3) assms(6) by blast
    then show ?thesis using winner_is [OF assms(1) Some _ assms(4,5)] assms(2,3) by auto
  qed
  then show ?thesis using Some by blast
qed

lemma best_is_unbeaten:
  assumes "overlapping_best pid now ends tb = Some b" and "now \<le> t" and "t < ends"
    and "w \<in> set (tb_Overrides tb)" and "o_PermitID w = pid" and "override_active t w"
  shows "\<not> fresher w b"
proof -
  have "still_runs now w" using assms(6,2) by (rule active_runs_before)
  moreover have "o_StartsAt w < ends" using assms(6,3) by (auto simp: override_active_def)
  ultimately show ?thesis
    using fresh.best_max [of _ b w] assms(1,4,5) unfolding overlapping_best_def by (auto simp: set_ListOverrides)
qed

text \<open>C15: A press that is answered "already on the permit" saves nothing, and that is sound: had it been booked,
  the schedule would steer the permit to the same car, under the same state, at every later instant.
\<close>

theorem a_press_that_saves_nothing_would_have_changed_nothing:
  assumes covered: "guestAlreadyCovered pr gc p ends (ch_Vehicle c) (ch_Reg c) (ch_State c) tb = Some u"
    and booked: "book_car pr gc p ends c tb = Inr (oid, tb')"
    and ids: "ids_below o_ID (tb_Overrides tb) (tb_LastOverride tb)"
    and one_car: "list_all (\<lambda>x. o_VehicleID x = 0 \<or> (o_Registration x = [] \<and> o_State x = [])) (tb_Overrides tb)"
    and after: "pr_Now pr \<le> t"
  shows "same_target (resolve z t cyc rules (ListOverrides (p_ID p) t tb')) (resolve z t cyc rules (ListOverrides (p_ID p) t tb))
     \<and> s_State (resolve z t cyc rules (ListOverrides (p_ID p) t tb')) = s_State (resolve z t cyc rules (ListOverrides (p_ID p) t tb))"
proof -
  obtain n where n: "tb' = tb\<lparr>tb_Overrides := tb_Overrides tb @ [n], tb_LastOverride := tb_LastOverride tb + 1\<rparr>"
      "o_ID n = tb_LastOverride tb + 1" "o_PermitID n = p_ID p" "o_VehicleID n = ch_Vehicle c"
      "o_Registration n = (if ch_Vehicle c = 0 then ch_Reg c else [])" "o_State n = (if ch_Vehicle c = 0 then ch_State c else [])"
      "\<not> o_Empty n" "o_EndsAt n = Some (whole_seconds ends)"
    using book_car_row [OF booked] by metis
  obtain b where b: "overlapping_best (p_ID p) (pr_Now pr) ends tb = Some b" "\<not> o_Empty b" "o_StartsAt b \<le> pr_Now pr"
      "o_EndsAt b = Some u" "ends \<le> u" "o_VehicleID b = ch_Vehicle c"
      "ch_Vehicle c = 0 \<Longrightarrow> same_plate (o_Registration b) (ch_Reg c) \<and> o_State b = ch_State c"
    by (rule covered_row [OF covered]) blast
  let ?L = "ListOverrides (p_ID p) t tb" and ?L' = "ListOverrides (p_ID p) t tb'"
  have d: "distinct (map o_ID (tb_Overrides tb))" using ids by (simp add: ids_below_def)
  have new: "\<forall>x \<in> set (tb_Overrides tb). o_ID x \<noteq> tb_LastOverride tb + 1" using ids by (auto simp: ids_below_def)
  then have d': "distinct (map o_ID (tb_Overrides tb'))" using d n(1,2) by auto
  show ?thesis
  proof (cases "override_active t n")
    case False
    have "winning_override t ?L' = winning_override t ?L"
      using False by (intro same_active_same_winner [OF d' d]) (auto simp: n(1))
    then have "resolve z t cyc rules ?L' = resolve z t cyc rules ?L" by (simp add: resolve_def)
    then show ?thesis by (simp add: same_target_def)
  next
    case True
    then have "t < ends" using n(8) whole_seconds_bounds [of ends] by (simp add: override_active_def)
    have bin: "b \<in> set (ListOverrides (p_ID p) (pr_Now pr) tb)" using best_in [of fresher _ b] b(1) unfolding overlapping_best_def by fastforce
    then have btb: "b \<in> set (tb_Overrides tb)" "o_PermitID b = p_ID p" by (simp_all add: set_ListOverrides)
    have bact: "override_active t b" using b(3-5) after \<open>t < ends\<close> by (simp add: override_active_def)
    note beaten = best_is_unbeaten [OF b(1) after \<open>t < ends\<close>]
    have W: "winning_override t ?L = Some b" by (rule unbeaten_wins [OF d btb bact beaten])
    have "tb_Overrides tb' = tb_Overrides tb @ [n]" using n(1) by simp
    then obtain w' where W': "winning_override t ?L' = Some w'" "w' = b \<or> w' = n"
      using added_row_wins [OF d' _ btb bact beaten] by blast
    have one: "o_VehicleID b = 0 \<or> (o_Registration b = [] \<and> o_State b = [])" using one_car btb(1) by (auto simp: list_all_iff)
    show ?thesis
    proof (cases "w' = b")
      case True
      then show ?thesis using W W'(1) by (simp add: resolve_def same_target_def)
    next
      case False
      then have "w' = n" using W'(2) by blast
      then show ?thesis
        using W W'(1) n(4-7) b(2,6,7) one same_plate_sym
        by (cases "ch_Vehicle c = 0") (auto simp: resolve_def same_target_def override_resolution_def)
    qed
  qed
qed

section \<open>Authority at the moment of the call\<close>

datatype press_kind = Activates | PutsBack | Empties

fun press_run :: "press_kind \<Rightarrow> (string \<Rightarrow> string) \<Rightarrow> press \<Rightarrow> kerb \<Rightarrow> answer \<times> kerb" where
  "press_run Activates sha pr k = guestActivate sha pr k"
| "press_run PutsBack sha pr k = guestRevert sha pr k"
| "press_run Empties sha pr k = guestClear sha pr k"

lemma link_live_set_active [simp]: "link_live tid (set_active pid plate now tb) = link_live tid tb"
  by (simp add: link_live_def set_active_def guests_on_def)

lemma token_live_set_active [simp]: "GuestTokenStillLive tid (set_active pid plate now tb) = GuestTokenStillLive tid tb"
  by (simp add: GuestTokenStillLive_def)

lemma authorised_link_live: "GuestOverrideStillAuthorised oid tid tb \<Longrightarrow> GuestTokenStillLive tid tb"
  by (fastforce simp: GuestOverrideStillAuthorised_def GuestTokenStillLive_def link_live_def list_ex_iff)

lemma authorise_allowed: "authoriseGuestApply checked tid oid tb = ApplyAllowed \<Longrightarrow> checked \<and> GuestTokenStillLive tid tb"
  using authorised_link_live by (auto simp: authoriseGuestApply_def split: if_splits)

lemma kerb_frames [simp]:
  "kb_Calls (kickScheduler k) = kb_Calls k" "kb_Tables (kickScheduler k) = kb_Tables k"
  "kb_Calls (touchGuestActivity ow k) = kb_Calls k" "kb_Tables (touchGuestActivity ow k) = kb_Tables k"
  "kb_Calls (RequestDriftSoon ow k) = kb_Calls k" "kb_Tables (RequestDriftSoon ow k) = kb_Tables k"
  "kb_Calls (RecordGuestApply pid plate st d k) = kb_Calls k" "kb_Tables (RecordGuestApply pid plate st d k) = kb_Tables k"
  "kb_Calls (on_kerb f k) = kb_Calls k" "kb_Tables (on_kerb f k) = f (kb_Tables k)"
  "kb_Calls (called pid plate st k) = kb_Calls k @ [(pid, plate, st)]" "kb_Tables (called pid plate st k) = kb_Tables k"
  "kb_Calls (notifyGuestApply pr n k) = kb_Calls k" "kb_Tables (notifyGuestApply pr n k) = kb_Tables k"
  "kb_Calls (snd (see_plate pr gc p k)) = kb_Calls k" "kb_Tables (snd (see_plate pr gc p k)) = kb_Tables k"
  "kb_Calls (setGuestReqCookie rid nonce k) = kb_Calls k" "kb_Tables (setGuestReqCookie rid nonce k) = kb_Tables k"
  "kb_Calls (notifyGuestRequest pr p plate rid k) = kb_Calls k" "kb_Tables (notifyGuestRequest pr p plate rid k) = kb_Tables k"
  "kb_Calls (logChange ow ac act tg k) = kb_Calls k" "kb_Tables (logChange ow ac act tg k) = kb_Tables k"
  "kb_Calls (notifyDestructive ow ac sm k) = kb_Calls k" "kb_Tables (notifyDestructive ow ac sm k) = kb_Tables k"
  by (simp_all add: kickScheduler_def touchGuestActivity_def RequestDriftSoon_def RecordGuestApply_def on_kerb_def called_def
      notifyGuestApply_def see_plate_def setGuestReqCookie_def notifyGuestRequest_def logChange_def
      notifyDestructive_def split: prod.splits)

text \<open>One call at most, under the claim and on live authority.\<close>

definition lawful :: "press \<Rightarrow> int \<Rightarrow> int \<Rightarrow> kerb \<Rightarrow> kerb \<Rightarrow> string \<Rightarrow> string \<Rightarrow> bool" where
  "lawful pr pid tid k k' plate st \<longleftrightarrow> kb_Calls k' = kb_Calls k @ [(pid, plate, st)] \<and> pr_Claimed pr
     \<and> GuestTokenStillLive tid (kb_Tables k')"

lemma apply_lawful:
  assumes "applyGuestPlate pr a k = (out, k')"
  shows "kb_Calls k' = kb_Calls k \<or> lawful pr (p_ID (ga_Permit a)) (ga_TokenID a) k k' (ga_Plate a) (ga_State a)"
  using assms authorise_allowed
  by (auto simp: applyGuestPlate_def failed_apply_def lawful_def Let_def split: if_splits denial.splits option.splits)

lemma after_apply_frames:
  "after_apply pr gc p current wasOn c (out, k) = (ans, k') \<Longrightarrow> kb_Calls k' = kb_Calls k \<and> kb_Tables k' = kb_Tables k"
  by (auto simp: after_apply_def Let_def split: prod.splits option.splits if_splits)

lemma after_revert_frames:
  "after_revert pr gc p target (out, k) = (ans, k') \<Longrightarrow> kb_Calls k' = kb_Calls k \<and> kb_Tables k' = kb_Tables k"
  by (auto simp: after_revert_def split: prod.splits option.splits if_splits)

definition offered :: "press \<Rightarrow> guest_context \<Rightarrow> string \<Rightarrow> string \<Rightarrow> bool" where
  "offered pr gc plate st \<longleftrightarrow>
     list_ex (\<lambda>v. v_Registration v = plate \<and> v_State v = st) (gc_Vehicles gc)
     \<or> (g_AllowPlate (gc_Grant gc) \<and> plate = normalizeReg (pr_Plate pr) \<and> validRego plate)"

lemma choose_car_offered: "choose_car pr gc = Inr c \<Longrightarrow> offered pr gc (ch_Reg c) (ch_State c)"
  by (auto simp: choose_car_def offered_def list_ex_iff Let_def find_Some_iff split: if_splits option.splits)

lemma activate_lawful:
  assumes "activate pr gc p k = (ans, k')"
  shows "kb_Calls k' = kb_Calls k \<or> (\<exists>plate st. lawful pr (p_ID p) (gc_TokenID gc) k k' plate st \<and> offered pr gc plate st)"
proof -
  obtain current k1 where see: "see_plate pr gc p k = (current, k1)" by (cases "see_plate pr gc p k")
  have k1: "kb_Calls k1 = kb_Calls k" "kb_Tables k1 = kb_Tables k" using kerb_frames(15,16) [of pr gc p k] see by simp_all
  show ?thesis
  proof (cases "choose_car pr gc")
    case (Inl m)
    then show ?thesis using assms see k1 by (simp add: activate_def Let_def)
  next
    case (Inr c)
    define wasOn where "wasOn = guestCarAlreadyOn pr p current (ch_Reg c) (ch_State c) (kb_Tables k1)"
    define covered where "covered = (if wasOn
       then guestAlreadyCovered pr gc p (activation_end pr gc) (ch_Vehicle c) (ch_Reg c) (ch_State c) (kb_Tables k1) else None)"
    show ?thesis
    proof (cases "covered \<noteq> None \<or> (\<exists>e. book_car pr gc p (activation_end pr gc) c (kb_Tables k1) = Inl e)")
      case True
      then show ?thesis using assms see k1 Inr
        by (cases covered) (auto simp: activate_def Let_def wasOn_def covered_def)
    next
      case False
      then obtain oid tb' where book: "book_car pr gc p (activation_end pr gc) c (kb_Tables k1) = Inr (oid, tb')"
        by (cases "book_car pr gc p (activation_end pr gc) c (kb_Tables k1)") auto
      define k2 where "k2 = touchGuestActivity (p_Owner p) (k1\<lparr>kb_Tables := keep_baseline pr gc current (activation_end pr gc) tb'\<rparr>)"
      define a where "a = \<lparr>ga_Permit = p, ga_Plate = ch_Reg c, ga_State = ch_State c, ga_TokenID = gc_TokenID gc,
         ga_OverrideID = oid, ga_Detail = ''activated by '' @ ch_By c\<rparr>"
      obtain out k3 where ap: "applyGuestPlate pr a k2 = (out, k3)" by (cases "applyGuestPlate pr a k2")
      have fin: "after_apply pr gc p current wasOn c (out, k3) = (ans, k')"
        using assms see Inr False book ap by (simp add: activate_def Let_def wasOn_def covered_def k2_def a_def)
      have "kb_Calls k2 = kb_Calls k" by (simp add: k2_def k1)
      then show ?thesis
        using apply_lawful [OF ap] after_apply_frames [OF fin] choose_car_offered [OF Inr] by (auto simp: lawful_def a_def)
    qed
  qed
qed

lemma revert_lawful:
  assumes "revert pr gc p k = (ans, k')"
  shows "kb_Calls k' = kb_Calls k \<or> (\<exists>plate st. lawful pr (p_ID p) (gc_TokenID gc) k k' plate st
     \<and> \<not> g_RequestOnly (gc_Grant gc) \<and> (case gc_BaselineUntil gc of None \<Rightarrow> False | Some u \<Rightarrow> pr_Now pr < u))"
proof -
  define baseline where "baseline = normalizeReg (gc_BaselinePlate gc)"
  show ?thesis
  proof (cases "g_RequestOnly (gc_Grant gc) \<or> baseline = [] \<or> (case gc_BaselineUntil gc of None \<Rightarrow> True | Some u \<Rightarrow> \<not> pr_Now pr < u)
      \<or> \<not> validRego baseline \<or> \<not> pr_Swept pr")
    case True
    then show ?thesis using assms unfolding revert_def Let_def baseline_def [symmetric]
      by (cases "g_RequestOnly (gc_Grant gc)") (auto split: if_splits)
  next
    case open_: False
    then have w: "case gc_BaselineUntil gc of None \<Rightarrow> False | Some u \<Rightarrow> pr_Now pr < u" by (auto split: option.splits)
    show ?thesis
    proof (cases "DeleteGuestOverrides (p_ID p) (gc_TokenID gc) (kb_Tables k)")
      case (Inl e)
      then show ?thesis using assms open_ by (auto simp: revert_def baseline_def Let_def)
    next
      case (Inr swept)
      show ?thesis
      proof (cases "revert_target pr gc p baseline swept")
        case None
        then show ?thesis using assms open_ Inr by (auto simp: revert_def baseline_def Let_def)
      next
        case (Some r)
        obtain target st tb' where r: "r = (target, st, tb')" by (cases r)
        define k2 where "k2 = touchGuestActivity (p_Owner p) (k\<lparr>kb_Tables := ClearGuestBaseline (gc_TokenID gc) tb'\<rparr>)"
        define a where "a = \<lparr>ga_Permit = p, ga_Plate = target, ga_State = st, ga_TokenID = gc_TokenID gc, ga_OverrideID = 0,
           ga_Detail = ''put back by '' @ link_actor gc\<rparr>"
        obtain out k3 where ap: "applyGuestPlate pr a k2 = (out, k3)" by (cases "applyGuestPlate pr a k2")
        have "after_revert pr gc p target (out, k3) = (ans, k')"
          using assms open_ Inr Some r ap by (simp add: revert_def baseline_def Let_def k2_def a_def)
        then have k3: "kb_Calls k' = kb_Calls k3" "kb_Tables k' = kb_Tables k3" using after_revert_frames by blast+
        have "kb_Calls k2 = kb_Calls k" by (simp add: k2_def)
        moreover have "kb_Calls k3 = kb_Calls k2 \<or> lawful pr (p_ID p) (gc_TokenID gc) k2 k3 target st"
          using apply_lawful [OF ap] by (simp add: a_def)
        ultimately have "kb_Calls k' = kb_Calls k \<or> lawful pr (p_ID p) (gc_TokenID gc) k k' target st"
          using k3 by (simp add: lawful_def)
        then show ?thesis using w open_ by blast
      qed
    qed
  qed
qed

lemma clear_claimed_lawful:
  assumes "clear_claimed pr gc p current k = (ans, k')" and "pr_Claimed pr"
  shows "kb_Calls k' = kb_Calls k \<or> lawful pr (p_ID p) (gc_TokenID gc) k k' [] []"
proof (cases "authoriseGuestApply (pr_Checked pr) (gc_TokenID gc) 0 (kb_Tables k)")
  case ApplyAllowed
  then have "GuestTokenStillLive (gc_TokenID gc) (kb_Tables k)" using authorise_allowed by blast
  then show ?thesis using assms ApplyAllowed
    by (auto simp: clear_claimed_def lawful_def split: if_splits option.splits)
qed (use assms in \<open>auto simp: clear_claimed_def\<close>)

lemma clear_lawful:
  assumes "clear_permit pr gc p k = (ans, k')"
  shows "kb_Calls k' = kb_Calls k \<or> lawful pr (p_ID p) (gc_TokenID gc) k k' [] []"
proof -
  obtain current k1 where see: "see_plate pr gc p k = (current, k1)" by (cases "see_plate pr gc p k")
  have k1: "kb_Calls k1 = kb_Calls k" using kerb_frames(15) [of pr gc p k] see by simp
  show ?thesis
  proof (cases "kb_Calls k' = kb_Calls k")
    case False
    obtain swept where sw: "DeleteGuestOverrides (p_ID p) (gc_TokenID gc) (kb_Tables k1) = Inr swept"
      using assms see k1 False
      by (cases "DeleteGuestOverrides (p_ID p) (gc_TokenID gc) (kb_Tables k1)")
         (auto simp: clear_permit_def Let_def split: if_splits option.splits)
    define k2 where "k2 = on_kerb (pr_Between pr) (touchGuestActivity (p_Owner p) (k1\<lparr>kb_Tables := ClearGuestBaseline (gc_TokenID gc) swept\<rparr>))"
    have k2: "kb_Calls k2 = kb_Calls k" by (simp add: k2_def k1)
    then have "pr_Claimed pr \<and> clear_claimed pr gc p current k2 = (ans, k')"
      using assms see sw False k1 by (auto simp: clear_permit_def Let_def k2_def split: if_splits option.splits)
    then show ?thesis using clear_claimed_lawful [of pr gc p current k2 ans k'] k2 by (auto simp: lawful_def)
  qed simp
qed

lemma with_link_cases:
  assumes "with_link sha pr ok k = (ans, k')" and "kb_Calls k' \<noteq> kb_Calls k"
  obtains gc p where "resolveGuest sha (pr_Raw pr) (pr_Now pr) (kb_Tables k) = Some (gc, p)"
    and "\<not> permit_inactive (pr_Zone pr) p (pr_Now pr) (Some (pr_Zone pr))" and "ok gc p k = (ans, k')"
  using assms by (auto simp: with_link_def split: if_splits option.splits prod.splits)

lemma guestRequest_calls: "kb_Calls (snd (guestRequest pr gc p k)) = kb_Calls k"
  by (simp add: guestRequest_def Let_def split: sum.split prod.split option.split)

text \<open>C4: Whatever a visitor presses, the council is called at most once, only while this process holds the
  permit's claim, only for the live permit of the link, and only while the link still carries authority
  at that moment: with a car the link offers, to put back a plate inside the link's own window, or, from
  the household's own picker alone, to take the rego off.
\<close>

theorem a_call_is_made_on_live_authority:
  assumes "kb_Calls (snd (press_run kind sha pr k)) \<noteq> kb_Calls k"
  shows "\<exists>gc p plate st. resolveGuest sha (pr_Raw pr) (pr_Now pr) (kb_Tables k) = Some (gc, p)
     \<and> \<not> permit_inactive (pr_Zone pr) p (pr_Now pr) (Some (pr_Zone pr))
     \<and> kb_Calls (snd (press_run kind sha pr k)) = kb_Calls k @ [(p_ID p, plate, st)] \<and> pr_Claimed pr
     \<and> GuestTokenStillLive (gc_TokenID gc) (kb_Tables (snd (press_run kind sha pr k)))
     \<and> (case kind of
           Activates \<Rightarrow> \<not> g_RequestOnly (gc_Grant gc) \<and> offered pr gc plate st
         | PutsBack \<Rightarrow> \<not> g_RequestOnly (gc_Grant gc) \<and> (case gc_BaselineUntil gc of None \<Rightarrow> False | Some u \<Rightarrow> pr_Now pr < u)
         | Empties \<Rightarrow> g_Picker (gc_Grant gc) \<and> plate = [])"
proof -
  obtain ans k' where run: "press_run kind sha pr k = (ans, k')" by (cases "press_run kind sha pr k")
  have ne: "kb_Calls k' \<noteq> kb_Calls k" using assms run by simp
  show ?thesis
  proof (cases kind)
    case Activates
    have w: "with_link sha pr (\<lambda>gc p k. if g_RequestOnly (gc_Grant gc) then guestRequest pr gc p k else activate pr gc p k) k = (ans, k')"
      using run Activates by (simp add: guestActivate_def)
    obtain gc p where l: "resolveGuest sha (pr_Raw pr) (pr_Now pr) (kb_Tables k) = Some (gc, p)"
        "\<not> permit_inactive (pr_Zone pr) p (pr_Now pr) (Some (pr_Zone pr))"
        "(if g_RequestOnly (gc_Grant gc) then guestRequest pr gc p k else activate pr gc p k) = (ans, k')"
      by (rule with_link_cases [OF w ne])
    have "\<not> g_RequestOnly (gc_Grant gc)" using l(3) ne guestRequest_calls [of pr gc p k] by (auto split: if_splits)
    then show ?thesis using l ne activate_lawful [of pr gc p k ans k'] run Activates by (auto simp: lawful_def)
  next
    case PutsBack
    have w: "with_link sha pr (revert pr) k = (ans, k')" using run PutsBack by (simp add: guestRevert_def)
    obtain gc p where l: "resolveGuest sha (pr_Raw pr) (pr_Now pr) (kb_Tables k) = Some (gc, p)"
        "\<not> permit_inactive (pr_Zone pr) p (pr_Now pr) (Some (pr_Zone pr))" "revert pr gc p k = (ans, k')"
      by (rule with_link_cases [OF w ne])
    then show ?thesis using ne revert_lawful [OF l(3)] run PutsBack by (auto simp: lawful_def)
  next
    case Empties
    obtain gc p where l: "resolveGuest sha (pr_Raw pr) (pr_Now pr) (kb_Tables k) = Some (gc, p)"
        "\<not> permit_inactive (pr_Zone pr) p (pr_Now pr) (Some (pr_Zone pr))" "g_Picker (gc_Grant gc)" "clear_permit pr gc p k = (ans, k')"
      using run Empties ne by (auto simp: guestClear_def split: if_splits option.splits)
    then show ?thesis using ne clear_lawful [OF l(4)] run Empties by (auto simp: lawful_def)
  qed
qed

section \<open>A scan only asks\<close>

lemma CreateGuestRequest_cases:
  assumes "CreateGuestRequest a now tb = Inr ((rid, nonce, created), tb')"
  shows "if created then nonce = as_Nonce a \<and> rid = tb_LastRequest tb + 1
          \<and> tb' = tb\<lparr>tb_Requests := tb_Requests tb @ [new_request a rid now], tb_LastRequest := rid\<rparr>
     else tb' = tb \<and> list_ex (\<lambda>q. q_ID q = rid \<and> q_Nonce q = nonce \<and> q_Plate q = as_Plate a \<and> q_Status q = Pending) (tb_Requests tb)"
  using assms best_in
  by (fastforce simp: CreateGuestRequest_def Let_def newest_request_def pending_on_def list_ex_iff split: if_splits option.splits)

text \<open>C19: A scan of the printed code only asks: it calls nobody, books nothing and changes nothing but the list of
  requests, where it adds at most its own open request for a well-formed plate. And it hands out no one
  else's secret: the browser leaves with the fresh one of its own request, or with one it came with.
\<close>

theorem a_scan_only_asks:
  assumes "resolveGuest sha (pr_Raw pr) (pr_Now pr) (kb_Tables k) = Some (gc, p)" and "g_RequestOnly (gc_Grant gc)"
    and "guestActivate sha pr k = (ans, k')"
  shows "kb_Calls k' = kb_Calls k
     \<and> (\<exists>new. kb_Tables k' = (kb_Tables k)\<lparr>tb_Requests := tb_Requests (kb_Tables k) @ new,
            tb_LastRequest := tb_LastRequest (kb_Tables k) + int (length new)\<rparr>
          \<and> length new \<le> 1
          \<and> list_all (\<lambda>q. q_Status q = Pending \<and> q_Plate q = normalizeReg (pr_Plate pr) \<and> validRego (q_Plate q)
               \<and> q_GrantID q = g_ID (gc_Grant gc) \<and> q_Nonce q = pr_Nonce pr) new)
     \<and> (kb_Cookies k' = kb_Cookies k
          \<or> (\<exists>rid nonce. kb_Cookies k' = kb_Cookies k @ [(rid, nonce)] \<and> (nonce = pr_Nonce pr
               \<or> (\<exists>q. guestReqFromCookie (pr_Cookie pr) gc (kb_Tables k) = Some (q, nonce) \<and> q_ID q = rid))))"
proof -
  have same: "kb_Tables k = (kb_Tables k)\<lparr>tb_Requests := tb_Requests (kb_Tables k) @ [], tb_LastRequest := tb_LastRequest (kb_Tables k) + int (length [])\<rparr>"
    by simp
  have cookies: "kb_Cookies (touchGuestActivity ow x) = kb_Cookies x" "kb_Cookies (notifyGuestRequest pr p plate rid x) = kb_Cookies x" for ow x plate rid
    by (simp_all add: touchGuestActivity_def notifyGuestRequest_def)
  show ?thesis
  proof (cases "pr_SameOrigin pr \<and> pr_Allowed pr \<and> \<not> permit_inactive (pr_Zone pr) p (pr_Now pr) (Some (pr_Zone pr))
      \<and> validRego (normalizeReg (pr_Plate pr))")
    case False
    then have "k' = k" using assms by (auto simp: guestActivate_def with_link_def guestRequest_def split: if_splits)
    then show ?thesis using same by (intro conjI exI [of _ "[]"]) auto
  next
    case open_: True
    define mine where "mine = guestReqFromCookie (pr_Cookie pr) gc (kb_Tables k)"
    define k1 where "k1 = touchGuestActivity (p_Owner p) k"
    let ?plate = "normalizeReg (pr_Plate pr)"
    have req: "guestRequest pr gc p k = (ans, k')" using assms open_ by (auto simp: guestActivate_def with_link_def split: if_splits)
    have k1: "kb_Tables k1 = kb_Tables k" "kb_Calls k1 = kb_Calls k" "kb_Cookies k1 = kb_Cookies k" by (simp_all add: k1_def cookies)
    show ?thesis
    proof (cases "k' = k1 \<or> (\<exists>e. CreateGuestRequest (asked_for pr gc p ?plate) (pr_Now pr) (kb_Tables k) = Inl e)")
      case True
      then have "k' = k1" using req open_ by (auto simp: guestRequest_def k1_def Let_def split: if_splits)
      then show ?thesis using same k1 by (intro conjI exI [of _ "[]"]) auto
    next
      case False
      then obtain rid nonce created tb' where c: "CreateGuestRequest (asked_for pr gc p ?plate) (pr_Now pr) (kb_Tables k) = Inr ((rid, nonce, created), tb')"
        by (cases "CreateGuestRequest (asked_for pr gc p ?plate) (pr_Now pr) (kb_Tables k)") auto
      note cc = CreateGuestRequest_cases [OF c]
      have fin: "(ans, k') = (if created then (Requested rid, setGuestReqCookie rid nonce (notifyGuestRequest pr p ?plate rid (k1\<lparr>kb_Tables := tb'\<rparr>)))
          else (case mine of Some (q, n) \<Rightarrow> if q_ID q = rid then (StillWaiting rid, setGuestReqCookie rid n (k1\<lparr>kb_Tables := tb'\<rparr>)) else (AlreadyAsked ?plate, k1\<lparr>kb_Tables := tb'\<rparr>)
                | None \<Rightarrow> (AlreadyAsked ?plate, k1\<lparr>kb_Tables := tb'\<rparr>)))"
        using req open_ False c by (simp add: guestRequest_def Let_def k1_def [symmetric] mine_def [symmetric] k1(1) split: if_splits)
      show ?thesis
      proof (cases created)
        case True
        then have k': "k' = setGuestReqCookie rid nonce (notifyGuestRequest pr p ?plate rid (k1\<lparr>kb_Tables := tb'\<rparr>))" using fin by simp
        have "kb_Tables k' = (kb_Tables k)\<lparr>tb_Requests := tb_Requests (kb_Tables k) @ [new_request (asked_for pr gc p ?plate) rid (pr_Now pr)],
            tb_LastRequest := tb_LastRequest (kb_Tables k) + int (length [new_request (asked_for pr gc p ?plate) rid (pr_Now pr)])\<rparr>"
          using True cc k' by simp
        moreover have "kb_Cookies k' = kb_Cookies k @ [(rid, pr_Nonce pr)]"
          using True cc k' k1(3) by (simp add: setGuestReqCookie_def notifyGuestRequest_def asked_for_def)
        moreover have "kb_Calls k' = kb_Calls k" using k' k1(2) by simp
        ultimately show ?thesis
          using open_ by (intro conjI exI [of _ "[new_request (asked_for pr gc p ?plate) rid (pr_Now pr)]"])
            (simp_all add: new_request_def asked_for_def)
      next
        case old: False
        then have tb: "tb' = kb_Tables k" using cc by simp
        have "kb_Tables k' = kb_Tables k \<and> kb_Calls k' = kb_Calls k \<and> (kb_Cookies k' = kb_Cookies k
            \<or> (\<exists>q n. mine = Some (q, n) \<and> q_ID q = rid \<and> kb_Cookies k' = kb_Cookies k @ [(rid, n)]))"
          using fin old tb k1 by (auto simp: setGuestReqCookie_def split: option.splits if_splits)
        then show ?thesis using same unfolding mine_def by (intro conjI exI [of _ "[]"]) auto
      qed
    qed
  qed
qed

section \<open>One answer to a request\<close>

definition requests_kept :: "(tables \<Rightarrow> tables) \<Rightarrow> bool" where
  "requests_kept f \<longleftrightarrow> (\<forall>tb. tb_Requests (f tb) = tb_Requests tb)"

lemma drop_booking_requests [simp]: "tb_Requests (drop_booking ow oid tb) = tb_Requests tb"
  by (simp add: drop_booking_def DeleteOverride_def drop_overrides_def Let_def split: sum.split)

lemma apply_requests:
  "requests_kept (pr_Between pr) \<Longrightarrow> tb_Requests (kb_Tables (snd (applyGuestPlate pr a k))) = tb_Requests (kb_Tables k)"
  by (simp add: applyGuestPlate_def failed_apply_def requests_kept_def set_active_def Let_def split: denial.split option.split)

lemma after_approval_requests:
  "tb_Requests (kb_Tables (snd (after_approval pr ow us p q oid (out, k)))) = tb_Requests (kb_Tables k)"
  by (simp add: after_approval_def split: prod.split option.split)

lemma book_requests:
  "CreateGuestPlateOverride pid reg st s e by tid now tb = Inr (oid, tb') \<Longrightarrow> tb_Requests tb' = tb_Requests tb"
  by (auto simp: CreateGuestPlateOverride_def createOverrideGuarded_def insert_override_def split: if_splits)

lemma decided_lookup:
  assumes "DecideGuestRequest ow rid vd now tb = Inr (q', tb')" and "distinct (map q_ID (tb_Requests tb))"
  shows "\<exists>q. GuestRequestByID rid tb' = Some q \<and> q_Status q = (if vd_Approve vd then Approved else Denied) \<and> q_DecidedBy q = vd_DecidedBy vd"
proof -
  let ?P = "\<lambda>q. q_ID q = rid \<and> q_Owner q = ow \<and> q_Status q = Pending"
  have tb': "tb' = on_requests (\<lambda>q. if ?P q then decided_row vd now q else q) tb" and ex: "list_ex ?P (tb_Requests tb)"
    using assms(1) by (auto simp: DecideGuestRequest_def Let_def split: if_splits option.splits)
  obtain q0 where q0: "q0 \<in> set (tb_Requests tb)" "?P q0" using ex by (auto simp: list_ex_iff)
  have id: "q_ID (if ?P q then decided_row vd now q else q) = q_ID q" for q by (simp add: decided_row_def)
  obtain q1 where q1: "GuestRequestByID rid tb' = Some q1"
    using assms(1) by (auto simp: DecideGuestRequest_def Let_def split: if_splits option.splits)
  then have "q1 \<in> set (tb_Requests tb')" "q_ID q1 = rid" by (auto simp: GuestRequestByID_def find_Some_iff)
  then obtain q2 where q2: "q2 \<in> set (tb_Requests tb)" "q1 = (if ?P q2 then decided_row vd now q2 else q2)"
    by (auto simp: tb' on_requests_def)
  then have "q_ID q2 = q_ID q0" using id [of q2] q0(2) \<open>q_ID q1 = rid\<close> by simp
  then have "q2 = q0" using assms(2) q2(1) q0(1) by (auto simp: distinct_map inj_on_def)
  then have "q1 = decided_row vd now q0" using q2(2) q0(2) by simp
  then show ?thesis using q1 by (simp add: decided_row_def)
qed

lemma decided_ids:
  assumes "DecideGuestRequest ow rid vd now tb = Inr (q', tb')" shows "map q_ID (tb_Requests tb') = map q_ID (tb_Requests tb)"
  using assms by (auto simp: DecideGuestRequest_def Let_def on_requests_def decided_row_def split: if_splits option.splits)

lemma settled_stays:
  assumes "GuestRequestByID rid (kb_Tables k) = Some q" and "q_Status q \<noteq> Pending" and "distinct (map q_ID (tb_Requests (kb_Tables k)))"
  shows "\<exists>d. runDecideRequest pr race ow us rid yes k = (d, k) \<and> d \<in> {DecideGone, AlreadyDecided, DecideErr}"
proof (cases yes)
  case True
  then show ?thesis using assms by (simp add: runDecideRequest_def approve_def Let_def)
next
  case False
  have "\<not> list_ex (\<lambda>x. q_ID x = rid \<and> q_Owner x = ow \<and> q_Status x = Pending) (tb_Requests (kb_Tables k))"
  proof
    assume "list_ex (\<lambda>x. q_ID x = rid \<and> q_Owner x = ow \<and> q_Status x = Pending) (tb_Requests (kb_Tables k))"
    then obtain x where x: "x \<in> set (tb_Requests (kb_Tables k))" "q_ID x = rid" "q_Status x = Pending" by (auto simp: list_ex_iff)
    have "q \<in> set (tb_Requests (kb_Tables k))" "q_ID q = rid" using assms(1) by (auto simp: GuestRequestByID_def find_Some_iff)
    then have "x = q" using x assms(3) by (auto simp: distinct_map inj_on_def)
    then show False using x(3) assms(2) by simp
  qed
  then show ?thesis using False by (simp add: runDecideRequest_def decline_def DecideGuestRequest_def Let_def)
qed

lemma answered:
  assumes "runDecideRequest pr race ow us rid yes k = (d, k')" and "d = Declined \<or> d = DecideApplied plate \<or> d = DecideApproving plate"
    and "requests_kept race" and "requests_kept (pr_Between pr)" and "distinct (map q_ID (tb_Requests (kb_Tables k)))"
  shows "distinct (map q_ID (tb_Requests (kb_Tables k'))) \<and> (\<exists>q. GuestRequestByID rid (kb_Tables k') = Some q
     \<and> q_Status q = (if yes then Approved else Denied) \<and> q_DecidedBy q = us)"
proof (cases yes)
  case False
  then have run: "decline pr ow us rid k = (d, k')" using assms(1) by (simp add: runDecideRequest_def)
  obtain q tb' where dec: "DecideGuestRequest ow rid (verdict False [] us zero_time) (pr_Now pr) (kb_Tables k) = Inr (q, tb')"
      and k': "kb_Tables k' = tb'"
    using run assms(2) by (auto simp: decline_def split: if_splits sum.splits)
  show ?thesis using decided_lookup [OF dec assms(5)] decided_ids [OF dec] assms(5) False k' by (simp add: verdict_def)
next
  case True
  then have run: "approve pr race ow us rid k = (d, k')" using assms(1) by (simp add: runDecideRequest_def)
  obtain q where q: "GuestRequestByID rid (kb_Tables k) = Some q" "q_Status q = Pending"
    using run assms(2) by (auto simp: approve_def Let_def split: option.splits if_splits)
  obtain p where p: "find (\<lambda>p. p_ID p = q_PermitID q) (tb_Permits (kb_Tables k)) = Some p" "p_Owner p = ow"
      "\<not> permit_inactive (pr_Zone pr) p (pr_Now pr) (Some (pr_Zone pr))"
    using run assms(2) q by (auto simp: approve_def Let_def split: option.splits if_splits)
  define tok where "tok = (case GrantTokenID (q_GrantID q) (kb_Tables k) of None \<Rightarrow> 0 | Some t \<Rightarrow> t)"
  define ends where "ends = dayEndLocal (pr_Zone pr) (pr_Now pr) 0"
  obtain oid tb1 where bk: "CreateGuestPlateOverride (p_ID p) (q_Plate q) (q_State q) (pr_Now pr) (Some ends) ''visitor (printed QR)'' tok (pr_Now pr) (kb_Tables k) = Inr (oid, tb1)"
    using run assms(2) q p
    by (cases "CreateGuestPlateOverride (p_ID p) (q_Plate q) (q_State q) (pr_Now pr) (Some ends) ''visitor (printed QR)'' tok (pr_Now pr) (kb_Tables k)")
       (auto simp: approve_def Let_def tok_def [symmetric] ends_def [symmetric] split: if_splits)
  define vd where "vd = verdict True (untilPhrase (pr_Zone pr) (pr_Now pr) False) us ends"
  define a where "a = \<lparr>ga_Permit = p, ga_Plate = q_Plate q, ga_State = q_State q, ga_TokenID = tok, ga_OverrideID = oid,
      ga_Detail = ''approved a printed-QR request''\<rparr>"
  obtain q' tb3 where dec: "DecideGuestRequest ow rid vd (pr_Now pr) (race tb1) = Inr (q', tb3)"
      and fin: "after_approval pr ow us p q oid (applyGuestPlate pr a (k\<lparr>kb_Tables := tb3\<rparr>)) = (d, k')"
    using run assms(2) q p bk
    by (auto simp: approve_def Let_def tok_def [symmetric] ends_def [symmetric] vd_def [symmetric] a_def [symmetric] split: sum.splits if_splits)
  have r: "tb_Requests (race tb1) = tb_Requests (kb_Tables k)" using assms(3) book_requests [OF bk] by (simp add: requests_kept_def)
  obtain out k3 where ap: "applyGuestPlate pr a (k\<lparr>kb_Tables := tb3\<rparr>) = (out, k3)" by (cases "applyGuestPlate pr a (k\<lparr>kb_Tables := tb3\<rparr>)")
  have "tb_Requests (kb_Tables k') = tb_Requests (kb_Tables k3)"
    using after_approval_requests [of pr ow us p q oid out k3] fin ap by simp
  also have "\<dots> = tb_Requests tb3" using apply_requests [OF assms(4), of a "k\<lparr>kb_Tables := tb3\<rparr>"] ap by simp
  finally have e: "tb_Requests (kb_Tables k') = tb_Requests tb3" .
  have "distinct (map q_ID (tb_Requests (race tb1)))" using r assms(5) by simp
  then show ?thesis using decided_lookup [OF dec] decided_ids [OF dec] e True by (simp add: GuestRequestByID_def vd_def verdict_def)
qed

text \<open>C20: A request is answered once: after one member has approved or declined it, the row says so and names
  them, and any further answer, yes or no, by anyone and through either door, changes nothing at all.
\<close>

theorem a_request_is_answered_once:
  assumes "runDecideRequest pr race owner user rid yes k = (d, k')"
    and "d = Declined \<or> d = DecideApplied plate \<or> d = DecideApproving plate"
    and "requests_kept race" and "requests_kept (pr_Between pr)" and "distinct (map q_ID (tb_Requests (kb_Tables k)))"
  shows "(\<exists>q. GuestRequestByID rid (kb_Tables k') = Some q \<and> q_Status q = (if yes then Approved else Denied) \<and> q_DecidedBy q = user)
     \<and> (\<exists>d'. runDecideRequest pr' race' owner' user' rid yes' k' = (d', k') \<and> d' \<in> {DecideGone, AlreadyDecided, DecideErr})"
proof -
  have a: "distinct (map q_ID (tb_Requests (kb_Tables k')))" "\<exists>q. GuestRequestByID rid (kb_Tables k') = Some q
     \<and> q_Status q = (if yes then Approved else Denied) \<and> q_DecidedBy q = user"
    using answered [OF assms] by blast+
  then obtain q where q: "GuestRequestByID rid (kb_Tables k') = Some q" "q_Status q = (if yes then Approved else Denied)" by blast
  then have "q_Status q \<noteq> Pending" by simp
  then show ?thesis using a(2) settled_stays [OF q(1) _ a(1)] by blast
qed

section \<open>Where the comments promise more\<close>

text \<open>
  An approval whose authority could not be checked is taken back and reported as a revocation, although
  the row stays approved: the booking behind it is gone.
\<close>

lemma an_unchecked_approval_is_reported_revoked:
  assumes "pr_Claimed pr" and "\<not> pr_Checked pr"
  shows "fst (after_approval pr owner user p q oid (applyGuestPlate pr a k)) = DecideRevoked"
  using assms by (simp add: after_approval_def applyGuestPlate_def authoriseGuestApply_def Let_def)

text \<open>An approval without a resolvable code token is not merely untagged: under the claim it is refused.\<close>

lemma an_untagged_approval_is_refused:
  assumes "pr_Claimed pr" and "pr_Checked pr" and "ga_TokenID a = 0"
  shows "fst (after_approval pr owner user p q oid (applyGuestPlate pr a k)) = DecideRevoked"
  using assms by (simp add: after_approval_def applyGuestPlate_def authoriseGuestApply_def Let_def
      GuestOverrideStillAuthorised_def GuestTokenStillLive_def)

text \<open>
  A revert pins the old plate over a booking that deliberately leaves the permit empty: such a booking
  names no plate, so the schedule is taken to cover nothing.
\<close>

lemma an_empty_booking_is_not_desired:
  assumes "winning_override (pr_Now pr) (ListOverrides (p_ID p) (pr_Now pr) tb) = Some b" and "o_Empty b"
    and "o_VehicleID b = 0" and "o_Registration b = []" and "\<forall>v \<in> set (tb_Vehicles tb). 0 < v_ID v"
  shows "ds_Want (guestDesired pr p tb) = []"
proof -
  have none: "find (\<lambda>v. v_ID v = 0) (ListVehiclesFor (p_Owner p) tb) = None"
    using assms(5) by (auto simp: find_None_iff ListVehiclesFor_def by_label_def)
  then show ?thesis
    using assms(1,3,4) by (simp add: guestDesired_def nothing_desired_def resolve_def override_resolution_def Let_def split: prod.splits)
qed

section \<open>A household and its visitors\<close>

definition v_permit :: permit where
  "v_permit = \<lparr>p_ID = 1, p_Owner = ''o@x'', p_TenantID = ''t'', p_CouncilPermitID = ''77'', p_PermitTypeID = ''9'', p_Label = ''Visitor'',
     p_ActiveRegistration = ''NEW222'', p_ActiveConfirmedAt = 0, p_EndDate = zero_time, p_Status = ''Active'', p_ExpiryReminded = False,
     p_PermitNumber = ''77'', p_PermitType = ''Visitor'', p_FailStreak = 0, p_CopyOfferDone = False, p_CycleWeeks = 1, p_CycleAnchor = []\<rparr>"

definition v_car :: owned_vehicle where
  "v_car = \<lparr>v_ID = 1, v_Registration = ''NEW222'', v_Label = ''Car'', v_Email = [], v_Color = [], v_State = ''VIC'',
     v_NotifyDriver = False, v_Owner = ''o@x''\<rparr>"

definition v_grant :: "int \<Rightarrow> bool \<Rightarrow> guest_grant" where
  "v_grant i printed = \<lparr>g_ID = i, g_Owner = ''o@x'', g_PermitID = 1, g_Label = ''Nan'', g_AllowOvernight = False, g_AllowPlate = printed,
     g_OnScreen = False, g_RequestOnly = printed, g_Picker = False, g_AllVehicles = False, g_Enabled = True, g_CreatedAt = 0,
     g_CreatedBy = ''o@x'', g_PassNudgeSent = None\<rparr>"

definition v_token :: "int \<Rightarrow> string \<Rightarrow> string \<Rightarrow> guest_token" where
  "v_token i h baseline = \<lparr>t_ID = i, t_GrantID = i, t_RecipientEmail = ''nan@y'', t_Hash = h, t_Sealed = [], t_RevokedAt = None,
     t_ExpiresAt = None, t_CreatedAt = 0, t_BaselinePlate = baseline, t_BaselineUntil = Some (120 * hour), t_UsedAt = None\<rparr>"

definition v_booking :: override where
  "v_booking = \<lparr>o_ID = 1, o_PermitID = 1, o_VehicleID = 1, o_Registration = [], o_State = [], o_StartsAt = 99 * hour,
     o_EndsAt = Some (120 * hour), o_CreatedBy = ''nan@y'', o_CreatedAt = 99 * hour, o_GuestTokenID = 1, o_Empty = False\<rparr>"

definition v_empty :: override where
  "v_empty = \<lparr>o_ID = 2, o_PermitID = 1, o_VehicleID = 0, o_Registration = [], o_State = [], o_StartsAt = 100 * hour,
     o_EndsAt = Some (120 * hour), o_CreatedBy = ''o@x'', o_CreatedAt = 100 * hour, o_GuestTokenID = 0, o_Empty = True\<rparr>"

definition v_request :: guest_request where
  "v_request = \<lparr>q_ID = 1, q_GrantID = 2, q_Owner = ''o@x'', q_PermitID = 1, q_Plate = ''VIS333'', q_State = [], q_Nonce = ''n'',
     q_Status = Pending, q_RequestedAt = 99 * hour, q_DecidedAt = None, q_DecidedBy = [], q_Until = [], q_UntilTS = None\<rparr>"

definition v_tables :: "override list \<Rightarrow> tables" where
  "v_tables ovs = empty_tables\<lparr>tb_Permits := [v_permit], tb_Vehicles := [v_car], tb_Overrides := ovs,
     tb_Grants := [v_grant 1 False, v_grant 2 True], tb_GrantVehicles := [(1, 1)],
     tb_Tokens := [v_token 1 ''h1'' ''OLD111'', v_token 2 ''h2'' []], tb_Requests := [v_request],
     tb_LastPermit := 1, tb_LastVehicle := 1, tb_LastOverride := 2, tb_LastGrant := 2, tb_LastToken := 2, tb_LastRequest := 1\<rparr>"

definition v_kerb :: "override list \<Rightarrow> kerb" where
  "v_kerb ovs = \<lparr>kb_Tables = v_tables ovs, kb_Calls = [], kb_Log = [], kb_Kicks = 0, kb_Touched = [], kb_Drift = [], kb_Notices = [],
     kb_Nudges = [], kb_Cookies = [], kb_Changes = [], kb_Removed = []\<rparr>"

definition v_council :: council_view where
  "v_council = \<lparr>cv_Wired = True, cv_Cached = Some (''NEW222'', True), cv_Live = None, cv_CanClear = True, cv_RegionValid = (\<lambda>c. c = ''VIC'')\<rparr>"

definition v_press :: "string \<Rightarrow> string \<Rightarrow> press" where
  "v_press raw plate = \<lparr>pr_SameOrigin = True, pr_Allowed = True, pr_Raw = raw, pr_Plate = plate, pr_PlateState = [], pr_VehicleID = 1,
     pr_Overnight = False, pr_Zone = fixed_zone 0, pr_Now = 101 * hour, pr_Council = v_council, pr_RulesRead = True,
     pr_OverridesRead = True, pr_VehiclesRead = True, pr_Swept = True, pr_Between = (\<lambda>t. t), pr_Claimed = True, pr_Checked = True,
     pr_Answer = (\<lambda>plate st. None), pr_ClearAnswer = None, pr_Recorded = True, pr_NotifyAllowed = True, pr_Suppressed = (\<lambda>a. False),
     pr_DriverTold = True, pr_Scanner = True, pr_Cookie = None, pr_Nonce = ''fresh'', pr_ReserveRead = True, pr_Nudge = True, pr_Stored = True\<rparr>"

definition plain_sha :: "string \<Rightarrow> string" where "plain_sha s = s"

text \<open>
  Nan put the car on; then the household booked "no rego". Nan's stale page still puts the plate from
  before her visit back: the pin is fresher than the household's booking and wins over it.
\<close>

lemma a_revert_overrules_an_empty_booking:
  "kb_Calls (snd (press_run PutsBack plain_sha (v_press ''h1'' []) (v_kerb [v_booking, v_empty]))) = [(1, ''OLD111'', [])]"
  "s_Empty (resolve (fixed_zone 0) (102 * hour) (permit_cycle v_permit) [] (ListOverrides 1 (102 * hour) (v_tables [v_empty])))"
  "s_Registration (resolve (fixed_zone 0) (102 * hour) (permit_cycle v_permit) []
     (ListOverrides 1 (102 * hour) (kb_Tables (snd (press_run PutsBack plain_sha (v_press ''h1'' []) (v_kerb [v_booking, v_empty])))))) = ''OLD111''"
  by code_simp+

lemma a_call_is_made_on_live_authority_witness:
  "\<exists>gc p plate st. resolveGuest plain_sha ''h1'' (101 * hour) (v_tables [v_booking]) = Some (gc, p)
     \<and> kb_Calls (snd (press_run PutsBack plain_sha (v_press ''h1'' []) (v_kerb [v_booking]))) = [(p_ID p, plate, st)]"
proof -
  have "length (kb_Calls (snd (press_run PutsBack plain_sha (v_press ''h1'' []) (v_kerb [v_booking])))) = 1" by code_simp
  then have ne: "kb_Calls (snd (press_run PutsBack plain_sha (v_press ''h1'' []) (v_kerb [v_booking]))) \<noteq> kb_Calls (v_kerb [v_booking])"
    by (auto simp: v_kerb_def)
  show ?thesis using a_call_is_made_on_live_authority [OF ne] by (auto simp: v_press_def v_kerb_def)
qed

lemma a_press_that_saves_nothing_would_have_changed_nothing_witness:
  "case book_car (v_press ''h1'' []) (\<lparr>gc_Grant = v_grant 1 False, gc_TokenID = 1, gc_Recipient = ''nan@y'', gc_Vehicles = [v_car],
        gc_BaselinePlate = [], gc_BaselineUntil = None\<rparr>) v_permit (120 * hour)
       \<lparr>ch_Vehicle = 1, ch_Reg = ''NEW222'', ch_By = ''nan@y'', ch_State = ''VIC''\<rparr> (v_tables [v_booking]) of
     Inl _ \<Rightarrow> False
   | Inr (oid, tb') \<Rightarrow> same_target (resolve (fixed_zone 0) (110 * hour) (permit_cycle v_permit) [] (ListOverrides 1 (110 * hour) tb'))
       (resolve (fixed_zone 0) (110 * hour) (permit_cycle v_permit) [] (ListOverrides 1 (110 * hour) (v_tables [v_booking])))"
proof -
  define pr where "pr = v_press ''h1'' []"
  define gc where "gc = \<lparr>gc_Grant = v_grant 1 False, gc_TokenID = 1, gc_Recipient = ''nan@y'', gc_Vehicles = [v_car],
        gc_BaselinePlate = [], gc_BaselineUntil = None\<rparr>"
  define c where "c = \<lparr>ch_Vehicle = 1, ch_Reg = ''NEW222'', ch_By = ''nan@y'', ch_State = ''VIC''\<rparr>"
  have "guestAlreadyCovered (v_press ''h1'' []) (\<lparr>gc_Grant = v_grant 1 False, gc_TokenID = 1, gc_Recipient = ''nan@y'', gc_Vehicles = [v_car],
        gc_BaselinePlate = [], gc_BaselineUntil = None\<rparr>) v_permit (120 * hour) 1 ''NEW222'' ''VIC'' (v_tables [v_booking]) = Some (120 * hour)"
    by code_simp
  then have cov: "guestAlreadyCovered pr gc v_permit (120 * hour) (ch_Vehicle c) (ch_Reg c) (ch_State c) (v_tables [v_booking]) = Some (120 * hour)"
    by (simp add: pr_def gc_def c_def)
  have "case book_car (v_press ''h1'' []) (\<lparr>gc_Grant = v_grant 1 False, gc_TokenID = 1, gc_Recipient = ''nan@y'', gc_Vehicles = [v_car],
        gc_BaselinePlate = [], gc_BaselineUntil = None\<rparr>) v_permit (120 * hour)
       \<lparr>ch_Vehicle = 1, ch_Reg = ''NEW222'', ch_By = ''nan@y'', ch_State = ''VIC''\<rparr> (v_tables [v_booking]) of Inl _ \<Rightarrow> False | Inr _ \<Rightarrow> True" by code_simp
  then obtain oid tb' where bk: "book_car pr gc v_permit (120 * hour) c (v_tables [v_booking]) = Inr (oid, tb')"
    unfolding pr_def gc_def c_def by (auto split: sum.splits)
  have ids: "ids_below o_ID (tb_Overrides (v_tables [v_booking])) (tb_LastOverride (v_tables [v_booking]))"
    by (simp add: ids_below_def v_tables_def v_booking_def)
  have one: "list_all (\<lambda>x. o_VehicleID x = 0 \<or> (o_Registration x = [] \<and> o_State x = [])) (tb_Overrides (v_tables [v_booking]))"
    by (simp add: v_tables_def v_booking_def)
  have t: "pr_Now pr \<le> 110 * hour" by (simp add: pr_def v_press_def time_simps)
  have "p_ID v_permit = 1" by (simp add: v_permit_def)
  then show ?thesis
    using a_press_that_saves_nothing_would_have_changed_nothing [OF cov bk ids one t, of "fixed_zone 0" "permit_cycle v_permit" "[]"] bk
    unfolding pr_def gc_def c_def by simp
qed

lemma a_scan_only_asks_witness:
  "kb_Calls (snd (guestActivate plain_sha (v_press ''h2'' ''vis 444'') (v_kerb []))) = []"
proof -
  have "case resolveGuest plain_sha ''h2'' (101 * hour) (v_tables []) of
     None \<Rightarrow> False | Some (gc, p) \<Rightarrow> g_RequestOnly (gc_Grant gc)" by code_simp
  then obtain gc p where g: "resolveGuest plain_sha ''h2'' (101 * hour) (v_tables []) = Some (gc, p)" "g_RequestOnly (gc_Grant gc)"
    by (auto split: option.splits)
  obtain ans k' where r: "guestActivate plain_sha (v_press ''h2'' ''vis 444'') (v_kerb []) = (ans, k')"
    by (cases "guestActivate plain_sha (v_press ''h2'' ''vis 444'') (v_kerb [])")
  have g': "resolveGuest plain_sha (pr_Raw (v_press ''h2'' ''vis 444'')) (pr_Now (v_press ''h2'' ''vis 444'')) (kb_Tables (v_kerb [])) = Some (gc, p)"
    using g(1) by (simp add: v_press_def v_kerb_def)
  show ?thesis using a_scan_only_asks [OF g' g(2) r] r by (simp add: v_kerb_def)
qed

lemma a_request_is_answered_once_witness:
  "\<exists>d. runDecideRequest (v_press [] []) (\<lambda>t. t) ''o@x'' ''kid@x'' 1 False
        (snd (runDecideRequest (v_press [] []) (\<lambda>t. t) ''o@x'' ''o@x'' 1 True (v_kerb [])))
      = (d, snd (runDecideRequest (v_press [] []) (\<lambda>t. t) ''o@x'' ''o@x'' 1 True (v_kerb []))) \<and> d \<in> {DecideGone, AlreadyDecided, DecideErr}"
proof -
  have "fst (runDecideRequest (v_press [] []) (\<lambda>t. t) ''o@x'' ''o@x'' 1 True (v_kerb [])) = DecideApplied ''VIS333''" by code_simp
  then obtain k' where r: "runDecideRequest (v_press [] []) (\<lambda>t. t) ''o@x'' ''o@x'' 1 True (v_kerb []) = (DecideApplied ''VIS333'', k')"
    by (cases "runDecideRequest (v_press [] []) (\<lambda>t. t) ''o@x'' ''o@x'' 1 True (v_kerb [])") simp
  have "\<exists>d'. runDecideRequest (v_press [] []) (\<lambda>t. t) ''o@x'' ''kid@x'' 1 False k' = (d', k') \<and> d' \<in> {DecideGone, AlreadyDecided, DecideErr}"
    using a_request_is_answered_once [OF r, where plate = "''VIS333''" and pr' = "v_press [] []" and race' = "\<lambda>t. t" and owner' = "''o@x''"
        and user' = "''kid@x''" and yes' = False]
    by (simp add: requests_kept_def v_press_def v_kerb_def v_tables_def)
  then show ?thesis by (simp add: r)
qed

end
