(* ===== verification/Callers.thy ===== *)
theory Callers
  imports Throttle Suppression
begin

text \<open>
  Who is calling, and how often (internal/server/contact.go): the peer address behind the proxy, the
  key a caller is counted under, and the limiter of the public pages with its guard against floods.
  \<open>net.SplitHostPort\<close>, \<open>net.ParseIP\<close> and the text of an address are written out; an address is its
  eight 16-bit groups, an IPv4 address being mapped as Go maps it.
\<close>

section \<open>Requests\<close>

text \<open>What the handlers read of a request; an absent header or form value is the empty text.\<close>

record request =
  rq_Method :: string
  rq_RemoteAddr :: string
  rq_Host :: string
  rq_TLS :: bool
  rq_Header :: "string \<Rightarrow> string"
  rq_Form :: "string \<Rightarrow> string"

definition isStateChanging :: "request \<Rightarrow> bool" where
  "isStateChanging r \<longleftrightarrow> \<not> (rq_Method r = ''GET'' \<or> rq_Method r = ''HEAD'' \<or> rq_Method r = ''OPTIONS'')"

section \<open>Addresses\<close>

text \<open>\<open>net.SplitHostPort\<close>, the host only; \<open>None\<close> is its error.\<close>

definition split_host :: "string \<Rightarrow> string option" where
  "split_host s =
     (case cut_last (CHR '':'') s of
        None \<Rightarrow> None
      | Some (host, port) \<Rightarrow>
          if s \<noteq> [] \<and> hd s = CHR ''[''
          then (case cut_at (CHR '']'') s of
              (inner, after, ok) \<Rightarrow>
                if \<not> ok \<or> inner @ '']'' \<noteq> host \<or> contains_c (CHR ''['') (tl inner @ after) \<or> contains_c (CHR '']'') after
                then None else Some (tl inner))
          else if contains_c (CHR '':'') host \<or> contains_c (CHR ''['') s \<or> contains_c (CHR '']'') s then None
          else Some host)"

type_synonym ip = "int list"

definition hex_val :: "char \<Rightarrow> int option" where
  "hex_val c =
     (let n = int (cp c) in
      if 48 \<le> n \<and> n \<le> 57 then Some (n - 48)
      else if 97 \<le> n \<and> n \<le> 102 then Some (n - 87)
      else if 65 \<le> n \<and> n \<le> 70 then Some (n - 55) else None)"

definition digits_val :: "int \<Rightarrow> string \<Rightarrow> int" where
  "digits_val base s = foldl (\<lambda>a c. a * base + (case hex_val c of None \<Rightarrow> 0 | Some v \<Rightarrow> v)) 0 s"

definition octet :: "string \<Rightarrow> bool" where
  "octet f \<longleftrightarrow> f \<noteq> [] \<and> list_all (\<lambda>c. 48 \<le> cp c \<and> cp c \<le> 57) f
     \<and> (length f = 1 \<or> hd f \<noteq> CHR ''0'') \<and> digits_val 10 f \<le> 255"

definition parse_ip4 :: "string \<Rightarrow> (int \<times> int) option" where
  "parse_ip4 s =
     (case split_on (CHR ''.'') s of
        [a, b, c, d] \<Rightarrow>
          if octet a \<and> octet b \<and> octet c \<and> octet d
          then Some (digits_val 10 a * 256 + digits_val 10 b, digits_val 10 c * 256 + digits_val 10 d) else None
      | _ \<Rightarrow> None)"

text \<open>The loop over the groups of an IPv6 address: how many may follow, the rest of the text, the groups
  read, and where \<open>::\<close> stood.\<close>

fun groups6 :: "nat \<Rightarrow> string \<Rightarrow> int list \<Rightarrow> nat option \<Rightarrow> (int list \<times> nat option) option" where
  "groups6 0 s gs el = (if s = [] then Some (gs, el) else None)"
| "groups6 (Suc n) s gs el =
     (let h = takeWhile (\<lambda>c. hex_val c \<noteq> None) s; rest = drop (length h) s; gs' = gs @ [digits_val 16 h] in
      if h = [] \<or> 4 < length h then None
      else (case rest of
          [] \<Rightarrow> Some (gs', el)
        | c # r \<Rightarrow>
            if c = CHR ''.''
            then (if (el = None \<and> length gs \<noteq> 6) \<or> n = 0 then None
                  else map_option (\<lambda>(hi, lo). (gs @ [hi, lo], el)) (parse_ip4 s))
            else if c \<noteq> CHR '':'' \<or> r = [] then None
            else if hd r = CHR '':''
            then (if el \<noteq> None then None
                  else if tl r = [] then Some (gs', Some (length gs'))
                  else groups6 n (tl r) gs' (Some (length gs')))
            else groups6 n r gs' el))"

definition fill6 :: "int list \<times> nat option \<Rightarrow> ip option" where
  "fill6 p = (case p of (gs, el) \<Rightarrow>
     (case el of
        None \<Rightarrow> if length gs = 8 then Some gs else None
      | Some e \<Rightarrow> if length gs = 8 then None else Some (take e gs @ replicate (8 - length gs) 0 @ drop e gs)))"

definition parse_ip6 :: "string \<Rightarrow> ip option" where
  "parse_ip6 s =
     (if has_prefix s ''::''
      then (if drop 2 s = [] then Some (replicate 8 0) else Option.bind (groups6 8 (drop 2 s) [] (Some 0)) fill6)
      else Option.bind (groups6 8 s [] None) fill6)"

text \<open>The first \<open>.\<close> or \<open>:\<close> decides the form; a zone is refused.\<close>

definition ParseIP :: "string \<Rightarrow> ip option" where
  "ParseIP s =
     (if contains_c (CHR ''%'') s then None
      else (case find (\<lambda>c. c = CHR ''.'' \<or> c = CHR '':'') s of
          None \<Rightarrow> None
        | Some c \<Rightarrow> if c = CHR ''.'' then map_option (\<lambda>(hi, lo). [0, 0, 0, 0, 0, 65535, hi, lo]) (parse_ip4 s)
                    else parse_ip6 s))"

definition to4 :: "ip \<Rightarrow> bool" where "to4 a \<longleftrightarrow> take 6 a = [0, 0, 0, 0, 0, 65535]"

definition isLoopback :: "ip \<Rightarrow> bool" where
  "isLoopback a \<longleftrightarrow> (if to4 a then a ! 6 div 256 = 127 else a = [0, 0, 0, 0, 0, 0, 0, 1])"

definition isPrivate :: "ip \<Rightarrow> bool" where
  "isPrivate a \<longleftrightarrow>
     (if to4 a then a ! 6 div 256 = 10 \<or> (a ! 6 div 256 = 172 \<and> a ! 6 mod 256 div 16 = 1) \<or> a ! 6 = 192 * 256 + 168
      else a ! 0 div 512 = 126)"

definition isLinkLocalUnicast :: "ip \<Rightarrow> bool" where
  "isLinkLocalUnicast a \<longleftrightarrow> (if to4 a then a ! 6 = 169 * 256 + 254 else a ! 0 div 64 = 1018)"

definition fromProxy :: "string \<Rightarrow> bool" where
  "fromProxy peer =
     (case ParseIP peer of None \<Rightarrow> False | Some a \<Rightarrow> isLoopback a \<or> isPrivate a \<or> isLinkLocalUnicast a)"

definition peerHost :: "request \<Rightarrow> string" where
  "peerHost r = (case split_host (rq_RemoteAddr r) of None \<Rightarrow> rq_RemoteAddr r | Some h \<Rightarrow> h)"

definition clientIP :: "request \<Rightarrow> string" where
  "clientIP r =
     (let peer = peerHost r; xff = rq_Header r ''X-Forwarded-For''; ip = trim_space (last (split_on (CHR '','') xff)) in
      if fromProxy peer \<and> xff \<noteq> [] \<and> ip \<noteq> [] then ip else peer)"

section \<open>The key of a caller\<close>

definition hex_digit :: "int \<Rightarrow> char" where
  "hex_digit n = (if n < 10 then char_of (48 + nat n) else char_of (87 + nat n))"

function show_hex :: "int \<Rightarrow> string" where
  "show_hex n = (if n < 16 then [hex_digit n] else show_hex (n div 16) @ [hex_digit (n mod 16)])"
  by pat_completeness auto
termination by (relation "measure nat") auto

declare show_hex.simps [simp del]

definition show_groups :: "int list \<Rightarrow> string" where
  "show_groups gs = join_with '':'' (map show_hex gs)"

definition zero_run :: "ip \<Rightarrow> nat \<Rightarrow> nat" where
  "zero_run a i = length (takeWhile (\<lambda>g. g = 0) (drop i a))"

definition longest_run :: "ip \<Rightarrow> nat \<times> nat" where
  "longest_run a = foldl (\<lambda>b i. if 2 \<le> zero_run a i \<and> snd b < zero_run a i then (i, zero_run a i) else b) (0, 0) [0..<8]"

definition show_ip6 :: "ip \<Rightarrow> string" where
  "show_ip6 a =
     (case longest_run a of (s, l) \<Rightarrow>
        if l = 0 then show_groups a else show_groups (take s a) @ ''::'' @ show_groups (drop (s + l) a))"

definition mask64 :: "ip \<Rightarrow> ip" where "mask64 a = take 4 a @ [0, 0, 0, 0]"

definition key_of_ip :: "string \<Rightarrow> string" where
  "key_of_ip ip =
     (case ParseIP ip of
        None \<Rightarrow> ip
      | Some a \<Rightarrow> if to4 a then ip else show_ip6 (mask64 a) @ ''/64'')"

definition rateLimitKey :: "request \<Rightarrow> string" where
  "rateLimitKey r = key_of_ip (clientIP r)"

section \<open>Where a request came from\<close>

definition requestScheme :: "request \<Rightarrow> string" where
  "requestScheme r =
     (let proto = rq_Header r ''X-Forwarded-Proto'';
          first = fst (cut_at (CHR '','') proto);
          s = to_lower (trim_space (if contains_c (CHR '','') proto then first else proto)) in
      if fromProxy (peerHost r) \<and> proto \<noteq> [] \<and> s \<noteq> [] then s
      else if rq_TLS r then ''https'' else ''http'')"

text \<open>\<open>url.Parse\<close> of a header: its scheme and host.\<close>

type_synonym url_parser = "string \<Rightarrow> (string \<times> string) option"

definition same_site :: "url_parser \<Rightarrow> request \<Rightarrow> string \<Rightarrow> bool" where
  "same_site U r raw =
     (case U raw of
        None \<Rightarrow> False
      | Some (scheme, host) \<Rightarrow>
          equal_fold host (rq_Host r) \<and> \<not> (requestScheme r = ''https'' \<and> \<not> equal_fold scheme ''https''))"

definition sameOrigin :: "url_parser \<Rightarrow> request \<Rightarrow> bool" where
  "sameOrigin U r =
     (if rq_Header r ''Origin'' \<noteq> [] then same_site U r (rq_Header r ''Origin'')
      else if rq_Header r ''Referer'' \<noteq> [] then same_site U r (rq_Header r ''Referer'')
      else False)"

section \<open>The limiter\<close>

record rate_limiter =
  rl_limit :: int
  rl_window :: dur
  rl_hits :: "(string \<times> time list) list"
  rl_calls :: int

definition maxLimiterKeys :: int where "maxLimiterKeys = 20000"
definition pruneEvery :: int where "pruneEvery = 256"

definition newRateLimiter :: "int \<Rightarrow> dur \<Rightarrow> rate_limiter" where
  "newRateLimiter limit window = \<lparr>rl_limit = limit, rl_window = window, rl_hits = [], rl_calls = 0\<rparr>"

text \<open>The amortised sweep: entries whose newest stamp is out of the window, the caller's own excepted.\<close>

definition prune_hits :: "string \<Rightarrow> time \<Rightarrow> (string \<times> time list) list \<Rightarrow> (string \<times> time list) list" where
  "prune_hits key cutoff m = filter (\<lambda>(k, ts). k = key \<or> \<not> (ts = [] \<or> last ts < cutoff)) m"

text \<open>On overflow only the keys at their limit are kept, and none if they alone overflow.\<close>

definition blocked_hits :: "int \<Rightarrow> time \<Rightarrow> (string \<times> time list) list \<Rightarrow> (string \<times> time list) list" where
  "blocked_hits limit cutoff m = filter (\<lambda>(k, ts). limit \<le> int (length (keepAfter ts cutoff))) m"

definition relieve_hits :: "int \<Rightarrow> time \<Rightarrow> (string \<times> time list) list \<Rightarrow> (string \<times> time list) list" where
  "relieve_hits limit cutoff m =
     (if \<not> maxLimiterKeys < int (length m) then m
      else let b = blocked_hits limit cutoff m in if maxLimiterKeys < int (length b) then [] else b)"

fun rl_allow :: "rate_limiter option \<Rightarrow> string \<Rightarrow> time \<Rightarrow> rate_limiter option \<times> bool" where
  "rl_allow None key now = (None, True)"
| "rl_allow (Some l) key now =
     (let cutoff = now - rl_window l; calls = rl_calls l + 1; sweep = pruneEvery \<le> calls;
          hits = relieve_hits (rl_limit l) cutoff (if sweep then prune_hits key cutoff (rl_hits l) else rl_hits l);
          kept = keepAfter (hits_of key hits) cutoff;
          l' = l\<lparr>rl_calls := (if sweep then 0 else calls)\<rparr>
      in if rl_limit l \<le> int (length kept) then (Some (l'\<lparr>rl_hits := put key kept hits\<rparr>), False)
         else (Some (l'\<lparr>rl_hits := put key (kept @ [now]) hits\<rparr>), True))"

declare rl_allow.simps(2) [simp del]

definition oldest_of :: "time list \<Rightarrow> time" where
  "oldest_of ts = (case ts of [] \<Rightarrow> zero_time | t # us \<Rightarrow> foldl min t us)"

fun retryAfter :: "rate_limiter option \<Rightarrow> string \<Rightarrow> time \<Rightarrow> dur" where
  "retryAfter None key now = 0"
| "retryAfter (Some l) key now =
     (let live = keepAfter (hits_of key (rl_hits l)) (now - rl_window l) in
      if int (length live) < rl_limit l then 0 else tsub (oldest_of live + rl_window l) now)"

definition at_sign :: "string \<Rightarrow> bool" where
  "at_sign s \<longleftrightarrow> contains_c (CHR ''@'') s"

definition looksLikeEmail :: "string \<Rightarrow> bool" where
  "looksLikeEmail s =
     (case cut_at (CHR ''@'') s of
        (local, domain, ok) \<Rightarrow>
          ok \<and> local \<noteq> [] \<and> \<not> at_sign domain \<and> domain \<noteq> []
          \<and> contains_c (CHR ''.'') domain \<and> last domain \<noteq> CHR ''.''
          \<and> list_all (\<lambda>c. c \<in> set ''@._+-'' \<or> (97 \<le> cp c \<and> cp c \<le> 122) \<or> (65 \<le> cp c \<and> cp c \<le> 90)
                            \<or> (48 \<le> cp c \<and> cp c \<le> 57)) s)"

section \<open>What a flood cannot do\<close>

primrec rl_run :: "rate_limiter \<Rightarrow> (string \<times> time) list \<Rightarrow> rate_limiter" where
  "rl_run l [] = l"
| "rl_run l (c # cs) = rl_run (the (fst (rl_allow (Some l) (fst c) (snd c)))) cs"

definition stamps :: "(string \<times> time list) list \<Rightarrow> nat" where
  "stamps m = sum_list (map (\<lambda>e. length (snd e)) m)"

text \<open>What every run keeps: one entry to a key, its stamps in order, none in the future, at most the limit.\<close>

definition paced :: "time \<Rightarrow> rate_limiter \<Rightarrow> bool" where
  "paced now l \<longleftrightarrow> table (rl_hits l)
     \<and> (\<forall>e \<in> set (rl_hits l). sorted (snd e) \<and> (\<forall>t \<in> set (snd e). t \<le> now) \<and> int (length (snd e)) \<le> rl_limit l)"

lemma sum_list_filter_le: "sum_list (map f (filter P m)) \<le> sum_list (map (f :: 'a \<Rightarrow> nat) m)"
  by (induction m) auto

lemma stamps_filter: "stamps (filter P m) \<le> stamps m"
  by (simp add: stamps_def sum_list_filter_le)

lemma keepAfter_length: "length (keepAfter ts c) \<le> length ts"
  by (simp add: keepAfter_def)

lemma hits_of_filter:
  assumes "table m" shows "hits_of k (filter P m) = (if map_of m k = None \<or> P (k, the (map_of m k)) then hits_of k m else [])"
  using assms
proof (induction m)
  case (Cons e m)
  obtain x ts where e: "e = (x, ts)" by (cases e)
  have none: "map_of m x = None" and tm: "table m"
    using Cons.prems e by (auto simp: table_def map_of_eq_None_iff image_iff)
  have out: "map_of (filter P m) x = None" using none by (auto simp: map_of_eq_None_iff)
  show ?case using Cons.IH [OF tm] none out e by (auto simp: hits_of_def)
qed (simp add: hits_of_def)

lemma stamps_del: "table m \<Longrightarrow> stamps (del k m) + length (hits_of k m) = stamps m"
proof (induction m)
  case (Cons e m)
  obtain x ts where e: "e = (x, ts)" by (cases e)
  have none: "x \<notin> fst ` set m" and tm: "table m" using Cons.prems e by (auto simp: table_def)
  have "del x m = m" using none by (force simp: del_def intro: filter_True)
  then show ?case using Cons.IH [OF tm] e none
    by (auto simp: stamps_def del_def hits_of_def)
qed (simp add: stamps_def del_def hits_of_def)

lemma relief_filters:
  "\<exists>P. relieve_hits L c (if sweep then prune_hits key c m else m) = filter P m"
proof -
  have *: "\<exists>P. relieve_hits L c m' = filter P m'" for m'
    by (auto simp: relieve_hits_def blocked_hits_def Let_def intro: exI [of _ "\<lambda>_. True"] exI [of _ "\<lambda>_. False"])
  show ?thesis
  proof (cases sweep)
    case True
    obtain P where "relieve_hits L c (prune_hits key c m) = filter P (prune_hits key c m)" using * by blast
    then show ?thesis using True by (auto simp: prune_hits_def filter_filter)
  next
    case False
    then show ?thesis using * [of m] by simp
  qed
qed

text \<open>The table a call works on, and what it leaves.\<close>

definition swept :: "rate_limiter \<Rightarrow> string \<Rightarrow> time \<Rightarrow> (string \<times> time list) list" where
  "swept l key now = relieve_hits (rl_limit l) (now - rl_window l)
     (if pruneEvery \<le> rl_calls l + 1 then prune_hits key (now - rl_window l) (rl_hits l) else rl_hits l)"

definition kept_hits :: "rate_limiter \<Rightarrow> string \<Rightarrow> time \<Rightarrow> time list" where
  "kept_hits l key now = keepAfter (hits_of key (swept l key now)) (now - rl_window l)"

lemma swept_filters: "\<exists>P. swept l key now = filter P (rl_hits l)"
  unfolding swept_def by (rule relief_filters)

lemma allow_eq:
  "rl_allow (Some l) key now =
     (Some (l\<lparr>rl_calls := (if pruneEvery \<le> rl_calls l + 1 then 0 else rl_calls l + 1),
              rl_hits := put key (kept_hits l key now @ (if int (length (kept_hits l key now)) < rl_limit l then [now] else []))
                           (swept l key now)\<rparr>),
      int (length (kept_hits l key now)) < rl_limit l)"
  by (simp add: rl_allow.simps(2) Let_def swept_def kept_hits_def)

text \<open>A key that is at its limit keeps its entry, through the sweep and through an overflow.\<close>

lemma blocked_kept:
  assumes "table m" and ts: "map_of m k = Some ts" "sorted ts" and lim: "0 < L" "L \<le> int (length (keepAfter ts c))"
    and few: "int (stamps m) < L * (maxLimiterKeys + 1)"
  shows "hits_of k (relieve_hits L c (if sweep then prune_hits key c m else m)) = ts"
proof -
  define m' where "m' = (if sweep then prune_hits key c m else m)"
  have ne: "keepAfter ts c \<noteq> []" using lim by auto
  then obtain x where x: "x \<in> set ts" "c < x" by (auto simp: keepAfter_def filter_empty_conv)
  have "x \<le> last ts" using ts(2) x(1) by (cases ts rule: rev_cases) (auto simp: sorted_append)
  then have live: "\<not> (ts = [] \<or> last ts < c)" using x by auto
  have "hits_of k (prune_hits key c m) = ts"
    unfolding prune_hits_def using hits_of_filter [OF assms(1)] ts(1) live by (simp add: hits_of_def)
  then have h: "hits_of k m' = ts" using ts(1) by (simp add: m'_def hits_of_def)
  have t': "table m'" using assms(1) by (auto simp: m'_def prune_hits_def)
  have k': "map_of m' k = Some ts" using h ne by (auto simp: hits_of_def split: option.splits)
  have hb: "hits_of k (blocked_hits L c m') = ts"
    unfolding blocked_hits_def using hits_of_filter [OF t'] k' lim(2) by (simp add: hits_of_def)
  have "L * int (length (blocked_hits L c m')) \<le> int (stamps (blocked_hits L c m'))"
    unfolding blocked_hits_def
  proof (induction m')
    case (Cons e n)
    obtain y us where e: "e = (y, us)" by (cases e)
    show ?case using Cons.IH keepAfter_length [of us c] e by (auto simp: stamps_def algebra_simps)
  qed (simp add: stamps_def)
  also have "stamps (blocked_hits L c m') \<le> stamps m"
    using stamps_filter order_trans unfolding blocked_hits_def m'_def prune_hits_def by (auto intro: order_trans [OF stamps_filter stamps_filter] stamps_filter)
  finally have "L * int (length (blocked_hits L c m')) < L * (maxLimiterKeys + 1)" using few by linarith
  then have "\<not> maxLimiterKeys < int (length (blocked_hits L c m'))"
    using lim(1) by (simp add: mult_less_cancel_left)
  then show ?thesis using h hb by (simp add: relieve_hits_def Let_def m'_def [symmetric])
qed

lemma paced_step:
  assumes "paced was l" and "was \<le> now" and "0 < rl_limit l" and "fst (rl_allow (Some l) key now) = Some m"
  shows "paced now m \<and> rl_limit m = rl_limit l \<and> rl_window m = rl_window l \<and> stamps (rl_hits m) \<le> stamps (rl_hits l) + 1"
proof -
  define F where "F = swept l key now"
  define kept where "kept = kept_hits l key now"
  define new where "new = kept @ (if int (length kept) < rl_limit l then [now] else [])"
  obtain P where P: "F = filter P (rl_hits l)" using swept_filters [of l key now] unfolding F_def by blast
  obtain n where m: "m = l\<lparr>rl_calls := n, rl_hits := put key new F\<rparr>"
    using assms(4) by (auto simp: allow_eq F_def kept_def new_def)
  have F: "table F" "set F \<subseteq> set (rl_hits l)" using assms(1) by (auto simp: P paced_def)
  have old: "sorted (snd e) \<and> (\<forall>t \<in> set (snd e). t \<le> now) \<and> int (length (snd e)) \<le> rl_limit l" if "e \<in> set F" for e
    using assms(1,2) F(2) that by (fastforce simp: paced_def)
  have h: "sorted (hits_of key F) \<and> (\<forall>t \<in> set (hits_of key F). t \<le> now) \<and> int (length (hits_of key F)) \<le> rl_limit l"
  proof (cases "map_of F key")
    case (Some ts)
    then show ?thesis using old [of "(key, ts)"] map_of_SomeD [OF Some] by (simp add: hits_of_def)
  qed (use assms(3) in \<open>simp add: hits_of_def\<close>)
  have kept: "sorted kept" "\<forall>t \<in> set kept. t \<le> now" "length kept \<le> length (hits_of key F)"
    using h by (auto simp: kept_def kept_hits_def F_def [symmetric] keepAfter_def sorted_wrt_filter)
  have new: "sorted new \<and> (\<forall>t \<in> set new. t \<le> now) \<and> int (length new) \<le> rl_limit l"
    using kept h by (auto simp: new_def sorted_append)
  have "set (put key new F) \<subseteq> insert (key, new) (set F)" by (auto simp: put_def del_def)
  then have "paced now m" using old new F(1) by (fastforce simp: paced_def m)
  moreover have "stamps (put key new F) \<le> stamps F + 1"
    using stamps_del [OF F(1), of key] kept(3) by (auto simp: put_def stamps_def new_def)
  then have "stamps (rl_hits m) \<le> stamps (rl_hits l) + 1"
    using stamps_filter [of P "rl_hits l"] by (simp add: m P)
  ultimately show ?thesis by (simp add: m)
qed

text \<open>A refused call of anybody leaves a blocked key where it was.\<close>

lemma blocked_step:
  assumes "paced was l" and "0 < rl_limit l" and few: "int (stamps (rl_hits l)) < rl_limit l * (maxLimiterKeys + 1)"
    and lim: "rl_limit l \<le> int (length (keepAfter (hits_of k (rl_hits l)) (now - rl_window l)))"
    and m: "fst (rl_allow (Some l) key now) = Some m" and c: "now - rl_window l \<le> c"
  shows "keepAfter (hits_of k (rl_hits m)) c = keepAfter (hits_of k (rl_hits l)) c"
proof -
  have ne: "hits_of k (rl_hits l) \<noteq> []" using lim assms(2) by (auto simp: keepAfter_def)
  then have mk: "map_of (rl_hits l) k = Some (hits_of k (rl_hits l))" by (auto simp: hits_of_def split: option.splits)
  have tab: "table (rl_hits l)" and srt: "sorted (hits_of k (rl_hits l))"
    using assms(1) map_of_SomeD [OF mk] by (auto simp: paced_def)
  have same: "hits_of k (swept l key now) = hits_of k (rl_hits l)"
    unfolding swept_def by (rule blocked_kept [OF tab mk srt assms(2) lim few])
  show ?thesis
  proof (cases "key = k")
    case True
    have kp: "kept_hits l k now = keepAfter (hits_of k (rl_hits l)) (now - rl_window l)"
      using same True by (simp add: kept_hits_def)
    show ?thesis using m lim True by (auto simp: allow_eq hits_of_put kp keepAfter_keepAfter [OF c])
  next
    case False
    then show ?thesis using m same by (auto simp: allow_eq hits_of_put)
  qed
qed

lemma blocked_run:
  assumes "paced was l" and "sorted (was # map snd cs)" and "0 < rl_limit l"
    and "int (stamps (rl_hits l) + length cs) \<le> rl_limit l * (maxLimiterKeys + 1)"
    and "\<And>c. c \<in> set cs \<Longrightarrow> rl_limit l \<le> int (length (keepAfter (hits_of k (rl_hits l)) (snd c - rl_window l)))"
    and "\<And>c. c \<in> set cs \<Longrightarrow> snd c - rl_window l \<le> b"
  shows "keepAfter (hits_of k (rl_hits (rl_run l cs))) b = keepAfter (hits_of k (rl_hits l)) b"
  using assms
proof (induction cs arbitrary: was l)
  case (Cons e cs)
  obtain m where m: "fst (rl_allow (Some l) (fst e) (snd e)) = Some m" by (simp add: allow_eq)
  have le: "was \<le> snd e" using Cons.prems(2) by simp
  have st: "paced (snd e) m" "rl_limit m = rl_limit l" "rl_window m = rl_window l" "stamps (rl_hits m) \<le> stamps (rl_hits l) + 1"
    using paced_step [OF Cons.prems(1) le Cons.prems(3) m] by auto
  have few: "int (stamps (rl_hits l)) < rl_limit l * (maxLimiterKeys + 1)" using Cons.prems(4) by simp
  have lim: "rl_limit l \<le> int (length (keepAfter (hits_of k (rl_hits l)) (snd e - rl_window l)))"
    using Cons.prems(5) [of e] by simp
  have keep: "keepAfter (hits_of k (rl_hits m)) c = keepAfter (hits_of k (rl_hits l)) c" if "snd e - rl_window l \<le> c" for c
    by (rule blocked_step [OF Cons.prems(1,3) few lim m that])
  have later: "snd e \<le> snd x" if "x \<in> set cs" for x using Cons.prems(2) that by auto
  have "keepAfter (hits_of k (rl_hits (rl_run m cs))) b = keepAfter (hits_of k (rl_hits m)) b"
  proof (rule Cons.IH [OF st(1)])
    show "rl_limit m \<le> int (length (keepAfter (hits_of k (rl_hits m)) (snd c - rl_window m)))" if "c \<in> set cs" for c
      using Cons.prems(5) [of c] that keep [of "snd c - rl_window l"] later [OF that] by (simp add: st)
  qed (use Cons.prems st in \<open>auto simp: st\<close>)
  then show ?case using keep [of b] Cons.prems(6) [of e] m by simp
qed simp

lemma paced_run:
  assumes "paced was l" and "sorted (was # map snd cs)" and "0 < rl_limit l"
  shows "paced (last (was # map snd cs)) (rl_run l cs) \<and> rl_limit (rl_run l cs) = rl_limit l
     \<and> rl_window (rl_run l cs) = rl_window l \<and> stamps (rl_hits (rl_run l cs)) \<le> stamps (rl_hits l) + length cs"
  using assms
proof (induction cs arbitrary: was l)
  case (Cons e cs)
  obtain m where m: "fst (rl_allow (Some l) (fst e) (snd e)) = Some m" by (simp add: allow_eq)
  have le: "was \<le> snd e" using Cons.prems(2) by simp
  have st: "paced (snd e) m" "rl_limit m = rl_limit l" "rl_window m = rl_window l" "stamps (rl_hits m) \<le> stamps (rl_hits l) + 1"
    using paced_step [OF Cons.prems(1) le Cons.prems(3) m] by auto
  have "sorted (snd e # map snd cs)" "0 < rl_limit m" using Cons.prems(2,3) st by auto
  then show ?case using Cons.IH [OF st(1)] m st(2-4) by fastforce
qed simp

lemma allow_when_room:
  assumes "table (rl_hits l)" and "int (length (keepAfter (hits_of k (rl_hits l)) (t - rl_window l))) < rl_limit l"
  shows "snd (rl_allow (Some l) k t)"
proof -
  obtain P where "swept l k t = filter P (rl_hits l)" using swept_filters by blast
  then have "kept_hits l k t = keepAfter (hits_of k (rl_hits l)) (t - rl_window l) \<or> kept_hits l k t = []"
    using hits_of_filter [OF assms(1), of k P] by (auto simp: kept_hits_def)
  then show ?thesis using assms(2) by (auto simp: allow_eq)
qed

lemma refused_when_full:
  assumes "paced was l" and "0 < rl_limit l" and "int (stamps (rl_hits l)) < rl_limit l * (maxLimiterKeys + 1)"
    and "rl_limit l \<le> int (length (keepAfter (hits_of k (rl_hits l)) (t - rl_window l)))"
  shows "\<not> snd (rl_allow (Some l) k t)"
proof -
  have ne: "hits_of k (rl_hits l) \<noteq> []" using assms(2,4) by (auto simp: keepAfter_def)
  then have mk: "map_of (rl_hits l) k = Some (hits_of k (rl_hits l))" by (auto simp: hits_of_def split: option.splits)
  have tab: "table (rl_hits l)" and srt: "sorted (hits_of k (rl_hits l))"
    using assms(1) map_of_SomeD [OF mk] by (auto simp: paced_def)
  have "hits_of k (swept l k t) = hits_of k (rl_hits l)"
    unfolding swept_def by (rule blocked_kept [OF tab mk srt assms(2,4,3)])
  then show ?thesis using assms(4) by (simp add: allow_eq kept_hits_def)
qed

lemma oldest_min: "ts \<noteq> [] \<Longrightarrow> oldest_of ts \<in> set ts \<and> (\<forall>t \<in> set ts. oldest_of ts \<le> t)"
proof -
  have "foldl min t us \<in> insert t (set us) \<and> (\<forall>x \<in> insert t (set us). foldl min t us \<le> x)" for t :: time and us
  proof (induction us arbitrary: t)
    case (Cons u us)
    have "foldl min (min t u) us \<le> min t u" using Cons.IH [of "min t u"] by simp
    then have "foldl min (min t u) us \<le> t" "foldl min (min t u) us \<le> u" by simp_all
    moreover have "min t u = t \<or> min t u = u" by (simp add: min_def)
    ultimately show ?case using Cons.IH [of "min t u"] by auto
  qed simp
  then show "ts \<noteq> [] \<Longrightarrow> ?thesis" by (cases ts) (auto simp: oldest_of_def)
qed

lemma paced_since_new:
  assumes "l = rl_run (newRateLimiter limit window) past" and "sorted (map snd past @ [now])" and "0 < limit"
  shows "paced now l" and "rl_limit l = limit" and "rl_window l = window" and "stamps (rl_hits l) \<le> length past"
proof -
  have p0: "paced x (newRateLimiter limit window)" for x by (simp add: paced_def newRateLimiter_def)
  have srt: "sorted (map snd past)" "\<forall>c \<in> set past. snd c \<le> now" using assms(2) by (auto simp: sorted_append)
  obtain x where x: "sorted (x # map snd past)" "x \<le> now" using srt
    by (cases past) (auto intro: that [of now] that [of "snd (hd past)"])
  have lastx: "last (x # map snd past) \<le> now" using x(2) srt(2) by (cases past rule: rev_cases) auto
  have run: "paced (last (x # map snd past)) l" "rl_limit l = limit" "rl_window l = window" "stamps (rl_hits l) \<le> length past"
    using paced_run [OF p0 x(1)] assms(1,3) by (auto simp: newRateLimiter_def stamps_def)
  then show "rl_limit l = limit" "rl_window l = window" "stamps (rl_hits l) \<le> length past" by simp_all
  show "paced now l" using run(1) lastx by (fastforce simp: paced_def)
qed

lemma paced_hits_of:
  assumes "paced now l" and "0 < rl_limit l"
  shows "int (length (hits_of k (rl_hits l))) \<le> rl_limit l" and "\<forall>y \<in> set (hits_of k (rl_hits l)). y \<le> now"
proof -
  have "int (length (hits_of k (rl_hits l))) \<le> rl_limit l \<and> (\<forall>y \<in> set (hits_of k (rl_hits l)). y \<le> now)"
  proof (cases "map_of (rl_hits l) k")
    case (Some ts)
    then show ?thesis using assms(1) map_of_SomeD [OF Some] by (auto simp: paced_def hits_of_def)
  qed (use assms(2) in \<open>simp add: hits_of_def\<close>)
  then show "int (length (hits_of k (rl_hits l))) \<le> rl_limit l" "\<forall>y \<in> set (hits_of k (rl_hits l)). y \<le> now" by blast+
qed

text \<open>C22: The wait a caller is shown is kept to the instant: whatever anybody else sends in the meantime, and
  however often the caller tries, they are refused until it is over and let in from then on, as long as
  an attacker has not made \<open>limit\<close> calls under each of more than twenty thousand keys.
\<close>

theorem the_wait_shown_is_kept:
  assumes "0 < limit" and "0 \<le> window" and "window \<le> max_dur"
    and "l = rl_run (newRateLimiter limit window) past" and "d = retryAfter (Some l) k now"
    and "sorted (map snd past @ now # map snd flood)" and "now \<le> t"
    and "list_all (\<lambda>c. snd c \<le> t \<and> snd c < now + d) flood"
    and "int (length past + length flood) < limit * (maxLimiterKeys + 1)"
  shows "snd (rl_allow (Some (rl_run l flood)) k t) \<longleftrightarrow> now + d \<le> t"
proof -
  have srt: "sorted (map snd past @ [now])" "sorted (now # map snd flood)" using assms(6) by (auto simp: sorted_append)
  note run = paced_since_new(2-4) [OF assms(4) srt(1) assms(1)] and paced = paced_since_new(1) [OF assms(4) srt(1) assms(1)]
  define live where "live = keepAfter (hits_of k (rl_hits l)) (now - window)"
  have below: "int (length (hits_of k (rl_hits l))) \<le> limit" "\<forall>y \<in> set (hits_of k (rl_hits l)). y \<le> now"
    using paced_hits_of [OF paced, of k] assms(1) run(1) by simp_all
  have after: "keepAfter (hits_of k (rl_hits l)) c = keepAfter live c" if "now - window \<le> c" for c
    by (simp add: live_def keepAfter_keepAfter [OF that])
  show ?thesis
  proof (cases "int (length live) < limit")
    case True
    then have "d = 0" using assms(5) run by (simp add: live_def Let_def)
    then have "flood = []" using assms(8) srt(2) by (cases flood) auto
    moreover have "length (keepAfter live (t - window)) \<le> length live" by (rule keepAfter_length)
    ultimately show ?thesis using allow_when_room [of l k t] paced after [of "t - window"] assms(7) True \<open>d = 0\<close> run
      by (simp add: paced_def)
  next
    case False
    then have ne: "live \<noteq> []" using assms(1) by auto
    define old where "old = oldest_of live"
    have o: "old \<in> set live" "\<forall>y \<in> set live. old \<le> y" using oldest_min [OF ne] by (auto simp: old_def)
    have or: "now - window < old" "old \<le> now" using o(1) below by (auto simp: live_def keepAfter_def)
    have "d = tsub (old + window) now" using assms(5) run False by (simp add: live_def Let_def old_def)
    then have d: "d = old + window - now" using or assms(2,3) tsub_exact [of "old + window" now] by (simp add: min_dur_def max_dur_def)
    have full: "keepAfter (hits_of k (rl_hits l)) (y - window) = live" if "now \<le> y" "y < now + d" for y
      using that o(2) d by (subst after) (auto simp: keepAfter_def filter_id_conv)
    have keep: "keepAfter (hits_of k (rl_hits (rl_run l flood))) (t - window) = keepAfter (hits_of k (rl_hits l)) (t - window)"
    proof (rule blocked_run [OF paced srt(2)])
      show "rl_limit l \<le> int (length (keepAfter (hits_of k (rl_hits l)) (snd c - rl_window l)))" if "c \<in> set flood" for c
        using full [of "snd c"] that assms(8) srt(2) False run by (auto simp: list_all_iff)
    qed (use assms(1,8,9) run in \<open>auto simp: list_all_iff\<close>)
    have fin: "paced (last (now # map snd flood)) (rl_run l flood)" "rl_limit (rl_run l flood) = limit"
        "rl_window (rl_run l flood) = window" "stamps (rl_hits (rl_run l flood)) \<le> length past + length flood"
      using paced_run [OF paced srt(2)] assms(1) run by auto
    show ?thesis
    proof (cases "now + d \<le> t")
      case True
      have "old \<notin> set (keepAfter live (t - window))" using True d by (simp add: keepAfter_def)
      then have "length (keepAfter live (t - window)) < length live"
        using o(1) length_filter_less [of old live "\<lambda>y. t - window < y"] by (auto simp: keepAfter_def)
      also have "length live \<le> length (hits_of k (rl_hits l))" by (simp add: live_def keepAfter_length)
      finally have "int (length (keepAfter (hits_of k (rl_hits (rl_run l flood))) (t - window))) < limit"
        using keep after [of "t - window"] assms(7) below by simp
      then show ?thesis using allow_when_room [of "rl_run l flood" k t] fin True by (simp add: paced_def)
    next
      case False
      have "int (stamps (rl_hits (rl_run l flood))) < limit * (maxLimiterKeys + 1)" using fin(4) assms(9) by linarith
      moreover have "limit \<le> int (length (keepAfter (hits_of k (rl_hits (rl_run l flood))) (t - window)))"
        using keep full [of t] False assms(7) \<open>\<not> int (length live) < limit\<close> by simp
      ultimately show ?thesis using refused_when_full [OF fin(1), of k t] fin(2,3) assms(1) False by simp
    qed
  qed
qed

lemma the_wait_shown_is_kept_witness:
  "snd (rl_allow (Some (rl_run (rl_run (newRateLimiter 2 10) [(''a'', 1), (''a'', 2)]) [(''b'', 4), (''a'', 5)])) ''a'' 11)
   \<and> \<not> snd (rl_allow (Some (rl_run (rl_run (newRateLimiter 2 10) [(''a'', 1), (''a'', 2)]) [(''b'', 4), (''a'', 5)])) ''a'' 10)"
proof -
  have d: "retryAfter (Some (rl_run (newRateLimiter 2 10) [(''a'', 1), (''a'', 2)])) ''a'' 3 = 8" by code_simp
  note * = the_wait_shown_is_kept [where limit = 2 and window = 10 and past = "[(''a'', 1), (''a'', 2)]" and now = 3
      and flood = "[(''b'', 4), (''a'', 5)]" and k = "''a''" and d = 8, OF _ _ _ refl d [symmetric]]
  show ?thesis using * [of 11] * [of 10] by (simp add: max_dur_def maxLimiterKeys_def)
qed

section \<open>Whose word counts\<close>

text \<open>A caller that does not come through the proxy cannot choose its own key or scheme by any header.\<close>

lemma headers_count_only_from_the_proxy:
  assumes "\<not> fromProxy (peerHost r)"
  shows "rateLimitKey r = key_of_ip (peerHost r)" and "requestScheme r = (if rq_TLS r then ''https'' else ''http'')"
  using assms by (simp_all add: rateLimitKey_def clientIP_def requestScheme_def Let_def)

text \<open>One delegated network is one caller.\<close>

lemma one_network_one_key:
  assumes "ParseIP x = Some a" and "ParseIP y = Some b" and "\<not> to4 a" and "\<not> to4 b" and "take 4 a = take 4 b"
  shows "key_of_ip x = key_of_ip y"
  using assms by (simp add: key_of_ip_def mask64_def)


lemma address_examples:
  "ParseIP ''2001:db8::1'' = Some [8193, 3512, 0, 0, 0, 0, 0, 1]"
  "ParseIP ''::ffff:10.1.2.3'' = ParseIP ''10.1.2.3''"
  "ParseIP ''010.1.2.3'' = None" "ParseIP ''1::2::3'' = None" "ParseIP ''fe80::1%eth0'' = None"
  "fromProxy ''172.31.0.9'' \<and> \<not> fromProxy ''172.32.0.9'' \<and> fromProxy ''fd00::1''"
  by code_simp+

lemma key_examples:
  "key_of_ip ''2001:db8:0:7:abcd::1'' = ''2001:db8:0:7::/64''" "key_of_ip ''::1'' = ''::/64''" "key_of_ip ''1.2.3.4'' = ''1.2.3.4''"
  "split_host ''[::1]:80'' = Some ''::1''" "split_host ''10.0.0.1:80'' = Some ''10.0.0.1''" "split_host ''::1'' = None"
  by code_simp+

end
