(* ===== verification/Gates.thy ===== *)
theory Gates
  imports SignIn Mailbox Callers
begin

text \<open>
  What a request passes before a handler runs (internal/identity/identity.go, and of internal/server
  middleware.go, activity_touch.go, terms.go, contact.go): whose identity is believed, on which account
  the person acts, the cross-site check, the terms, the idle clock, the operator's page and the public
  contact form. Bodies, headers of the response and templates are left out.
\<close>

section \<open>Identity\<close>

definition fromTrustedProxy :: "string \<Rightarrow> bool" where
  "fromTrustedProxy addr = fromProxy (case split_host addr of None \<Rightarrow> addr | Some h \<Rightarrow> h)"

definition spoofLogEvery :: dur where "spoofLogEvery = minute"

text \<open>Whether a warning is written, and when the latest was.\<close>

definition warnUntrustedIdentity :: "time \<Rightarrow> time \<Rightarrow> bool \<times> time" where
  "warnUntrustedIdentity now prev = (if now - prev < spoofLogEvery then (False, prev) else (True, now))"

definition proxyPresentsSecret :: "request \<Rightarrow> string \<Rightarrow> bool" where
  "proxyPresentsSecret r secret \<longleftrightarrow> secret = [] \<or> rq_Header r ''X-Proxy-Secret'' = secret"

definition splitGroups :: "string \<Rightarrow> string list" where
  "splitGroups raw = filter (\<lambda>g. g \<noteq> []) (map trim_space (split_on (CHR '','') raw))"

definition nobody :: user where "nobody = \<lparr>u_Email = [], u_Name = [], u_Groups = []\<rparr>"

definition forwarded_user :: "request \<Rightarrow> user" where
  "forwarded_user r = \<lparr>u_Email = to_lower (trim_space (rq_Header r ''Remote-Email'')),
     u_Name = trim_space (rq_Header r ''Remote-User''), u_Groups = splitGroups (rq_Header r ''Remote-Groups'')\<rparr>"

text \<open>The decoder is absent when the application runs no login of its own; it may renew a cookie.\<close>

definition Middleware ::
  "string \<Rightarrow> (request \<Rightarrow> user option \<times> cookie list) option \<Rightarrow> bool \<Rightarrow> string \<Rightarrow> request \<Rightarrow> user \<times> cookie list"
where
  "Middleware devEmail decode trust secret r =
     (let u1 = (if trust \<and> u_Email (forwarded_user r) \<noteq> [] \<and> fromTrustedProxy (rq_RemoteAddr r) \<and> proxyPresentsSecret r secret
                then forwarded_user r else nobody);
          (u2, cks) = (if u_Email u1 \<noteq> [] then (u1, [])
                       else (case decode of
                           None \<Rightarrow> (u1, [])
                         | Some d \<Rightarrow> (case d r of (None, cks) \<Rightarrow> (u1, cks) | (Some u, cks) \<Rightarrow> (u, cks))))
      in if u_Email u2 = [] \<and> devEmail \<noteq> []
         then (\<lparr>u_Email = devEmail, u_Name = devEmail, u_Groups = [''user'', ''admin'']\<rparr>, cks)
         else (u2, cks))"

definition FromContext :: "user \<Rightarrow> user option" where
  "FromContext u = (if u_Email u \<noteq> [] then Some u else None)"

section \<open>The server\<close>

text \<open>
  The database, the memory of the process, and what it has set off: the reconnects it cancelled, the
  scheduler's kicks, the claims taken on permits, the notices and invitations handed to the mailer.
\<close>

record server =
  si_Estate :: estate
  si_DefaultTenant :: string
  si_Epochs :: epoch_table
  si_Man :: manager
  si_Touched :: "(string \<times> time) list"
  si_Contact :: "rate_limiter option"
  si_Mail :: mailbox_rows
  si_Pushed :: "(string \<times> string) list"
  si_Unqueued :: "string list"
  si_UnqueuedIn :: "(string \<times> string) list"
  si_Disconnected :: "string list"
  si_Kicks :: "int list"
  si_KickedAll :: nat
  si_KickedOwners :: "(string \<times> string) list"
  si_Claimed :: "int list list"
  si_Removed :: "(string \<times> string \<times> string) list"
  si_Invited :: "(string \<times> string) list"
  si_TenantTry :: "rate_limiter option"
  si_InviteFanout :: "rate_limiter option"
  si_InviteTarget :: "rate_limiter option"
  si_ConfirmLimit :: "rate_limiter option"

text \<open>The session rows of the estate as the store of the sessions.\<close>

definition sessions_of :: "server \<Rightarrow> session_store" where
  "sessions_of w = (let es = si_Estate w in
     \<lparr>st_sessions = es_Sessions es, st_members = [], st_permitOwners = [], st_selected = es_Selected es,
      st_DefaultTenant = si_DefaultTenant w, st_tenantCache = es_TenantCache es, st_tenantEpoch = es_TenantEpoch es,
      st_lastGen = 0\<rparr>)"

definition put_sessions :: "session_store \<Rightarrow> server \<Rightarrow> server" where
  "put_sessions s w = w\<lparr>si_Estate := (si_Estate w)\<lparr>es_Sessions := st_sessions s, es_Selected := st_selected s,
     es_TenantCache := st_tenantCache s, es_TenantEpoch := st_tenantEpoch s\<rparr>\<rparr>"

definition GetTenantSession :: "string \<Rightarrow> session_store \<Rightarrow> session_store \<times> tenant_session option" where
  "GetTenantSession owner s = (case TenantIDFor s owner of (s', t) \<Rightarrow> (s', GetTenantSessionIn s' owner t))"

text \<open>
  A request with the identity the middleware put into its context, and what of the store answers: the
  membership lookup, the consent lookup, the statement that writes, the bump of a generation.
\<close>

record visit =
  vt_Request :: request
  vt_User :: user
  vt_Now :: time
  vt_Login :: bool
  vt_Parse :: url_parser
  vt_MembersRead :: bool
  vt_ConsentRead :: bool
  vt_Stored :: bool
  vt_Touches :: bool
  vt_Bumped :: bool

section \<open>On whose account\<close>

definition resolveAccountStrict :: "visit \<Rightarrow> server \<Rightarrow> (string \<times> string \<times> bool) option" where
  "resolveAccountStrict v w =
     (let email = u_Email (vt_User v) in
      if \<not> vt_MembersRead v then None
      else (case MemberAccount email (es_Tables (si_Estate w)) of
          None \<Rightarrow> Some (email, email, True)
        | Some primary \<Rightarrow> if primary \<noteq> [] then Some (email, primary, False) else Some (email, email, True)))"

definition resolveAccount :: "visit \<Rightarrow> server \<Rightarrow> string \<times> string \<times> bool" where
  "resolveAccount v w =
     (case resolveAccountStrict v w of None \<Rightarrow> (u_Email (vt_User v), u_Email (vt_User v), False) | Some a \<Rightarrow> a)"

text \<open>\<open>None\<close> is the refusal: nothing may be changed on an account that could not be told.\<close>

definition accountForWrite :: "visit \<Rightarrow> server \<Rightarrow> (string \<times> string \<times> bool) option" where
  "accountForWrite v w = resolveAccountStrict v w"

section \<open>The idle clock\<close>

definition activityTouchEvery :: dur where "activityTouchEvery = hour"

definition touch_due :: "string \<Rightarrow> time \<Rightarrow> (string \<times> time) list \<Rightarrow> bool" where
  "touch_due key now m = (case map_of m key of None \<Rightarrow> True | Some seen \<Rightarrow> \<not> tsub now seen < activityTouchEvery)"

definition note_touch :: "string \<Rightarrow> time \<Rightarrow> (string \<times> time) list \<Rightarrow> (string \<times> time) list" where
  "note_touch key now m =
     (let m' = put key now m in if maxLimiterKeys < int (length m') then [(key, now)] else m')"

definition touch_account :: "bool \<Rightarrow> string \<Rightarrow> time \<Rightarrow> server \<Rightarrow> server" where
  "touch_account stored owner now w =
     (if stored then put_sessions (TouchAccountActive owner now (sessions_of w)) w else w)"

definition touchActivity :: "visit \<Rightarrow> server \<Rightarrow> server" where
  "touchActivity v w =
     (let u = u_Email (vt_User v); now = vt_Now v in
      if u = [] \<or> \<not> touch_due u now (si_Touched w) then w
      else (let w' = w\<lparr>si_Touched := note_touch u now (si_Touched w)\<rparr>; owner = fst (snd (resolveAccount v w')) in
            if owner = [] then w' else touch_account (vt_Touches v) owner now w'))"

definition guest_key :: "string \<Rightarrow> string" where "guest_key owner = ''guest'' @ CHR 0x00 # owner"

definition touchGuest :: "bool \<Rightarrow> string \<Rightarrow> time \<Rightarrow> server \<Rightarrow> server" where
  "touchGuest stored owner now w =
     (if owner = [] \<or> \<not> touch_due (guest_key owner) now (si_Touched w) then w
      else touch_account stored owner now (w\<lparr>si_Touched := note_touch (guest_key owner) now (si_Touched w)\<rparr>))"

section \<open>The terms\<close>

record terms =
  tm_Version :: string
  tm_Intro :: string
  tm_Clauses :: "string list"
  tm_Hash :: string

fun term_line :: "string \<Rightarrow> terms \<times> string list \<Rightarrow> terms \<times> string list" where
  "term_line raw (t, intro) =
     (let l = trim_space raw in
      if l = [] \<or> l = ''---'' then (t, intro)
      else if has_prefix (to_lower l) ''version:'' then (t\<lparr>tm_Version := trim_space (drop 8 l)\<rparr>, intro)
      else if has_prefix l ''- '' \<or> has_prefix l ''* '' then (t\<lparr>tm_Clauses := tm_Clauses t @ [trim_space (drop 2 l)]\<rparr>, intro)
      else if has_prefix l ''#'' then (t, intro)
      else (t, intro @ [l]))"

text \<open>The hash is the hexadecimal SHA-256 of the text.\<close>

definition parseTerms :: "(string \<Rightarrow> string) \<Rightarrow> string \<Rightarrow> terms" where
  "parseTerms sha content =
     (case fold term_line (split_on (CHR 0x0A) content)
             (\<lparr>tm_Version = [], tm_Intro = [], tm_Clauses = [], tm_Hash = []\<rparr>, []) of
        (t, intro) \<Rightarrow> t\<lparr>tm_Intro := join_with '' '' intro, tm_Hash := sha content\<rparr>)"

definition consentStatus :: "terms \<Rightarrow> visit \<Rightarrow> string \<Rightarrow> server \<Rightarrow> bool \<times> bool" where
  "consentStatus tm v email w =
     (case (if vt_ConsentRead v then LatestConsent email (si_Estate w) else None) of
        None \<Rightarrow> (False, False)
      | Some c \<Rightarrow> if co_Hash c = tm_Hash tm then (True, False) else (False, True))"

datatype terms_answer =
    TickEvery | NotRecorded | ToHome
  | AccountUnsure | NotDeclined | LeftShared | CouncilDisconnected | NothingWasSetUp

definition acceptTerms :: "terms \<Rightarrow> visit \<Rightarrow> server \<Rightarrow> terms_answer \<times> server" where
  "acceptTerms tm v w =
     (if \<not> list_all (\<lambda>i. rq_Form (vt_Request v) (''agree'' @ show_int (int i)) \<noteq> []) [0..<length (tm_Clauses tm)]
      then (TickEvery, w)
      else if \<not> vt_Stored v then (NotRecorded, w)
      else (ToHome, w\<lparr>si_Estate := RecordConsent (u_Email (vt_User v)) (tm_Version tm) (tm_Hash tm) (vt_Now v) (si_Estate w)\<rparr>))"

definition revoke_person :: "visit \<Rightarrow> string \<Rightarrow> server \<Rightarrow> server" where
  "revoke_person v email w =
     (case revokeSessions email (vt_Bumped v) (si_Epochs w, si_Man w) of (tbl, m) \<Rightarrow> w\<lparr>si_Epochs := tbl, si_Man := m\<rparr>)"

text \<open>The revocation of a secondary's sessions is deferred: it runs on every return of that branch.\<close>

definition declineTerms :: "visit \<Rightarrow> server \<Rightarrow> terms_answer \<times> server" where
  "declineTerms v w =
     (case accountForWrite v w of
        None \<Rightarrow> (AccountUnsure, w)
      | Some (user, owner, isPrimary) \<Rightarrow>
          if \<not> isPrimary
          then (if \<not> vt_Stored v then (NotDeclined, revoke_person v user w)
                else (LeftShared, revoke_person v user
                        (w\<lparr>si_Estate := snd (RemoveMembership user (vt_Now v) (si_Estate w))\<rparr>)))
          else (case GetTenantSession user (sessions_of w) of
              (s, found) \<Rightarrow>
                if \<not> vt_Stored v then (NotDeclined, put_sessions (forgetTenant user s) w)
                else (let w' = (put_sessions (DeleteAllTenantSessions user s) w)\<lparr>si_Unqueued := si_Unqueued w @ [user]\<rparr> in
                      if found = None then (NothingWasSetUp, w')
                      else (CouncilDisconnected, w'\<lparr>si_Disconnected := si_Disconnected w @ [user]\<rparr>))))"

section \<open>The gates\<close>

datatype turned = ToSignIn | SignInUnavailable | CrossSite | NotAnAdmin | TermsFirst

datatype 'a passed = Turned turned | Served 'a

definition signed_in :: "visit \<Rightarrow> turned + user" where
  "signed_in v =
     (case FromContext (vt_User v) of
        Some u \<Rightarrow> Inr u
      | None \<Rightarrow> Inl (if vt_Login v then ToSignIn else SignInUnavailable))"

definition withUser :: "(visit \<Rightarrow> server \<Rightarrow> 'a passed \<times> server) \<Rightarrow> visit \<Rightarrow> server \<Rightarrow> 'a passed \<times> server" where
  "withUser h v w =
     (case signed_in v of
        Inl t \<Rightarrow> (Turned t, w)
      | Inr u \<Rightarrow>
          if isStateChanging (vt_Request v) \<and> \<not> sameOrigin (vt_Parse v) (vt_Request v) then (Turned CrossSite, w)
          else h v (touchActivity v w))"

definition withConsent :: "terms \<Rightarrow> (visit \<Rightarrow> server \<Rightarrow> 'a passed \<times> server) \<Rightarrow> visit \<Rightarrow> server \<Rightarrow> 'a passed \<times> server" where
  "withConsent tm h = withUser (\<lambda>v w. if fst (consentStatus tm v (u_Email (vt_User v)) w) then h v w else (Turned TermsFirst, w))"

definition sameOriginWrite :: "(visit \<Rightarrow> server \<Rightarrow> 'a passed \<times> server) \<Rightarrow> visit \<Rightarrow> server \<Rightarrow> 'a passed \<times> server" where
  "sameOriginWrite h v w =
     (if isStateChanging (vt_Request v) \<and> \<not> sameOrigin (vt_Parse v) (vt_Request v) then (Turned CrossSite, w) else h v w)"

definition requireAdmin :: "(visit \<Rightarrow> server \<Rightarrow> 'a passed \<times> server) \<Rightarrow> visit \<Rightarrow> server \<Rightarrow> 'a passed \<times> server" where
  "requireAdmin h v w =
     (case signed_in v of
        Inl t \<Rightarrow> (Turned t, w)
      | Inr u \<Rightarrow> if \<not> IsAdmin u then (Turned NotAnAdmin, w) else h v w)"

section \<open>The contact form\<close>

datatype contact_answer =
    GoHome | Unverified | SentAFew | FormUnread | SaidSent | TooShort | TooLong | BadAddress | TryLater

text \<open>\<open>parsed\<close>: the form could be read; \<open>enabled\<close>: a contact address is configured.\<close>

definition submitContact :: "bool \<Rightarrow> bool \<Rightarrow> visit \<Rightarrow> server \<Rightarrow> contact_answer \<times> server" where
  "submitContact enabled parsed v w0 =
     (let r = vt_Request v; now = vt_Now v in
      if \<not> enabled then (GoHome, w0)
      else if \<not> sameOrigin (vt_Parse v) r then (Unverified, w0)
      else (case rl_allow (si_Contact w0) (rateLimitKey r) now of
          (l, ok) \<Rightarrow>
            let w = w0\<lparr>si_Contact := l\<rparr>; msg = trim_space (rq_Form r ''message''); replyTo = trim_space (rq_Form r ''email'') in
            if \<not> ok then (SentAFew, w)
            else if \<not> parsed then (FormUnread, w)
            else if trim_space (rq_Form r ''website'') \<noteq> [] then (SaidSent, w)
            else if length msg < 10 then (TooShort, w)
            else if 4000 < length msg then (TooLong, w)
            else if replyTo \<noteq> [] \<and> \<not> looksLikeEmail replyTo then (BadAddress, w)
            else if \<not> vt_Stored v then (TryLater, w)
            else (SaidSent, w\<lparr>si_Mail := snd (AddContactMessage msg replyTo now (si_Mail w)),
                             si_Pushed := si_Pushed w @ [(msg, replyTo)]\<rparr>)))"

section \<open>Identity comes from where it is vouched for\<close>

text \<open>
  With a login of its own the application reads no identity header at all: whoever a request acts as is
  the person of a session cookie that is accepted at that moment.
\<close>

lemma own_login_ignores_headers:
  assumes "Middleware [] (Some (\<lambda>q. Decode C m now m' now' True (jar q))) False secret r = (u, cks)" and "u_Email u \<noteq> []"
  shows "\<exists>x p. jar r (issuedCookieName m) = Some x \<and> open_cookie C x = Some p \<and> accept_payload m now p \<and> u = carried_user p"
  using assms by (auto simp: Middleware_def nobody_def Decode_def Let_def split: option.splits if_splits prod.splits)

text \<open>Behind a proxy the headers are believed from the proxy alone, and only with the secret.\<close>

lemma headers_need_the_proxy:
  assumes "Middleware [] None trust secret r = (u, cks)" and "u_Email u \<noteq> []"
  shows "trust \<and> u = forwarded_user r \<and> fromTrustedProxy (rq_RemoteAddr r) \<and> (secret = [] \<or> rq_Header r ''X-Proxy-Secret'' = secret)"
  using assms by (auto simp: Middleware_def nobody_def proxyPresentsSecret_def Let_def split: if_splits)

section \<open>Nothing behind a closed gate\<close>

lemma touch_frames [simp]:
  "si_Man (touchActivity v w) = si_Man w" "si_Epochs (touchActivity v w) = si_Epochs w"
  "es_Tables (si_Estate (touchActivity v w)) = es_Tables (si_Estate w)"
  "es_Consents (si_Estate (touchActivity v w)) = es_Consents (si_Estate w)"
  by (simp_all add: touchActivity_def touch_account_def put_sessions_def Let_def)

lemma withUser_cases:
  assumes "withUser h v w = (ans, w')"
  obtains t where "ans = Turned t" "w' = w"
  | "u_Email (vt_User v) \<noteq> []" "isStateChanging (vt_Request v) \<Longrightarrow> sameOrigin (vt_Parse v) (vt_Request v)"
      "h v (touchActivity v w) = (ans, w')"
  using assms by (auto simp: withUser_def signed_in_def FromContext_def split: sum.splits option.splits if_splits)

text \<open>A handler behind the terms runs for a person who has agreed to exactly these terms, and for a
  change only from the site's own pages; a request that is turned away leaves at most a fresh idle clock.\<close>

lemma behind_the_terms:
  assumes "withConsent tm h v w = (ans, w')"
  shows "(\<exists>t. ans = Turned t \<and> (w' = w \<or> w' = touchActivity v w))
     \<or> (u_Email (vt_User v) \<noteq> [] \<and> (isStateChanging (vt_Request v) \<longrightarrow> sameOrigin (vt_Parse v) (vt_Request v))
        \<and> (\<exists>c. LatestConsent (u_Email (vt_User v)) (si_Estate w) = Some c \<and> co_Hash c = tm_Hash tm)
        \<and> h v (touchActivity v w) = (ans, w'))"
proof -
  have same: "LatestConsent e (si_Estate (touchActivity v w)) = LatestConsent e (si_Estate w)" for e
    by (simp add: LatestConsent_def)
  show ?thesis using assms unfolding withConsent_def
    by (elim withUser_cases) (auto simp: consentStatus_def same split: if_splits option.splits)
qed

section \<open>Declining the terms\<close>

lemma revoke_foothold_members [simp]: "tb_Members (es_Tables (snd (revoke_foothold ow email now es))) = tb_Members (es_Tables es)"
  by (simp add: revoke_foothold_def revokeGrantsBy_def sweepLiveGuestOverrides_def drop_overrides_def drop_grants_def Let_def split: prod.splits)

lemma revoke_foothold_sessions [simp]: "es_Sessions (snd (revoke_foothold ow email now es)) = es_Sessions es"
  by (simp add: revoke_foothold_def Let_def split: prod.splits)

lemma leaves_members:
  "MemberAccount email (es_Tables (snd (RemoveMembership email now es))) = None"
  "es_Sessions (snd (RemoveMembership email now es)) = es_Sessions es"
proof -
  have "find (\<lambda>m. am_Member m = email \<and> \<not> am_Pending m) (tb_Members (es_Tables (snd (RemoveMembership email now es)))) = None"
    by (auto simp: RemoveMembership_def drop_members_def drop_prefs_def dropQueuedPush_def on_tables_def find_None_iff split: option.splits)
  then show "MemberAccount email (es_Tables (snd (RemoveMembership email now es))) = None" by (simp add: MemberAccount_def)
  show "es_Sessions (snd (RemoveMembership email now es)) = es_Sessions es"
    by (simp add: RemoveMembership_def drop_prefs_def dropQueuedPush_def on_tables_def split: option.splits)
qed

lemma revoked_person:
  assumes "in_step (si_Man w) (si_Epochs w)" and "normaliseAddr email \<noteq> []" and "vt_Bumped v"
    and "normaliseAddr (pl_Email p) = normaliseAddr email" and "pl_Ep p \<le> epochFor (si_Man w) email"
  shows "\<not> accept_payload (si_Man (revoke_person v email w)) t p"
proof -
  obtain n tbl where b: "BumpSessionEpoch email (si_Epochs w) = (n, tbl)" by force
  have "email \<noteq> []" using assms(2) by (auto simp: normaliseAddr_def trim_space_def to_lower_def)
  then have "si_Man (revoke_person v email w) = RevokeTo email n (si_Man w)"
    using assms(3) b by (simp add: revoke_person_def revokeSessions_def)
  then have "epochFor (si_Man (revoke_person v email w)) (pl_Email p) = n"
    using assms(4) by (simp add: epochFor_def RevokeTo_def)
  moreover have "n = epochFor (si_Man w) email + 1"
    using bump_lookup(2) [OF assms(2) b] assms(1) by (simp add: in_step_def)
  ultimately show ?thesis using assms(5) by (simp add: accept_payload_def)
qed

lemma revoke_person_frames [simp]: "si_Estate (revoke_person v email w) = si_Estate w"
  by (simp add: revoke_person_def split: prod.splits)

lemma declined_sessions:
  assumes "GetTenantSession user (sessions_of w) = (s, found)"
  shows "st_sessions s = es_Sessions (si_Estate w)"
  using assms by (auto simp: GetTenantSession_def TenantIDFor_def sessions_of_def Let_def split: option.splits)

text \<open>Every cookie of the person that was out under the old generations is refused under the new ones.\<close>

definition signed_out :: "string \<Rightarrow> server \<Rightarrow> server \<Rightarrow> bool" where
  "signed_out email w w' \<longleftrightarrow> (\<forall>p t. normaliseAddr (pl_Email p) = normaliseAddr email
     \<and> pl_Ep p \<le> epochFor (si_Man w) email \<longrightarrow> \<not> accept_payload (si_Man w') t p)"

lemma revoke_signs_out:
  assumes "in_step (si_Man w) (si_Epochs w)" and "normaliseAddr email \<noteq> []" and "vt_Bumped v"
  shows "signed_out email w (revoke_person v email w)"
  using revoked_person [OF assms] by (simp add: signed_out_def)

text \<open>C21: Declining the terms, by its answers. When the account cannot be told, nothing at all happens. A
  person sharing somebody's account is out of it, the council sessions untouched, and their session
  cookies stop working; the cookies stop working also when the membership could not be removed (the
  revocation is deferred), and then nothing else changes. In both cases they do so when the new
  generation could be stored (\<open>vt_Bumped\<close>). An account holder keeps no council session with any
  council, and everybody else keeps theirs; when that could not be stored, tables, sessions and
  cookies are as they were.
\<close>

theorem a_declined_agreement_takes_effect:
  assumes "declineTerms v w = (ans, w')" and "in_step (si_Man w) (si_Epochs w)"
    and "email = u_Email (vt_User v)" and "normaliseAddr email \<noteq> []"
  shows "case ans of
      AccountUnsure \<Rightarrow> w' = w
    | NotDeclined \<Rightarrow> es_Tables (si_Estate w') = es_Tables (si_Estate w) \<and> es_Sessions (si_Estate w') = es_Sessions (si_Estate w)
        \<and> (case accountForWrite v w of
             Some (user, owner, False) \<Rightarrow> si_Estate w' = si_Estate w \<and> (vt_Bumped v \<longrightarrow> signed_out email w w')
           | _ \<Rightarrow> si_Man w' = si_Man w \<and> si_Epochs w' = si_Epochs w)
    | LeftShared \<Rightarrow> MemberAccount email (es_Tables (si_Estate w')) = None
        \<and> es_Sessions (si_Estate w') = es_Sessions (si_Estate w)
        \<and> (vt_Bumped v \<longrightarrow> signed_out email w w')
    | TickEvery \<Rightarrow> False
    | NotRecorded \<Rightarrow> False
    | ToHome \<Rightarrow> False
    | _ \<Rightarrow> MemberAccount email (es_Tables (si_Estate w)) \<in> {None, Some []}
        \<and> es_Tables (si_Estate w') = es_Tables (si_Estate w)
        \<and> es_Sessions (si_Estate w') = filter (\<lambda>r. ts_Owner r \<noteq> email) (es_Sessions (si_Estate w))
        \<and> si_Disconnected w' = si_Disconnected w @ (if ans = CouncilDisconnected then [email] else [])"
proof (cases "accountForWrite v w")
  case None
  then show ?thesis using assms(1) by (auto simp: declineTerms_def)
next
  case (Some a)
  then obtain owner primary where a: "accountForWrite v w = Some (email, owner, primary)"
    by (auto simp: accountForWrite_def resolveAccountStrict_def assms(3) Let_def split: option.splits if_splits)
  show ?thesis
  proof (cases primary)
    case False
    let ?w = "w\<lparr>si_Estate := snd (RemoveMembership email (vt_Now v) (si_Estate w))\<rparr>"
    have "(ans, w') = (if vt_Stored v then (LeftShared, revoke_person v email ?w) else (NotDeclined, revoke_person v email w))"
      using assms(1) a False by (auto simp: declineTerms_def)
    moreover have "vt_Bumped v \<longrightarrow> signed_out email w (revoke_person v email w)"
      using revoke_signs_out [OF assms(2,4)] by blast
    moreover have "vt_Bumped v \<longrightarrow> signed_out email w (revoke_person v email ?w)"
      using revoke_signs_out [of ?w email v] assms(2,4) by (simp add: signed_out_def)
    ultimately show ?thesis
      using leaves_members [of email "vt_Now v" "si_Estate w"] a False by (cases "vt_Stored v") auto
  next
    case True
    have none: "MemberAccount email (es_Tables (si_Estate w)) \<in> {None, Some []}"
      using a True by (auto simp: accountForWrite_def resolveAccountStrict_def assms(3) Let_def split: option.splits if_splits)
    obtain s found where g: "GetTenantSession email (sessions_of w) = (s, found)" by force
    show ?thesis using assms(1) a True g none declined_sessions [OF g]
      by (auto simp: declineTerms_def put_sessions_def forgetTenant_def DeleteAllTenantSessions_def del_where_def Let_def split: if_splits)
  qed
qed

section \<open>A decline that is not told\<close>

definition new_estate :: estate where
  "new_estate = \<lparr>es_Tables = empty_tables, es_Sessions = [], es_Selected = Map.empty, es_TenantCache = Map.empty,
     es_TenantEpoch = 0, es_Applied = [], es_Notified = Map.empty, es_FailStreak = (\<lambda>_. 0), es_Prefs = [],
     es_Consents = [], es_Milestones = [], es_Flags = Map.empty, es_Outbox = [], es_Log = [], es_Referrals = [],
     es_Suppressed = []\<rparr>"

definition new_site :: server where
  "new_site = \<lparr>si_Estate = new_estate, si_DefaultTenant = ''boroondara'', si_Epochs = [], si_Man = NewManager True,
     si_Touched = [], si_Contact = Some (newRateLimiter 3 (10 * minute)), si_Mail = empty_mailbox, si_Pushed = [],
     si_Unqueued = [], si_UnqueuedIn = [], si_Disconnected = [], si_Kicks = [], si_KickedAll = 0, si_KickedOwners = [],
     si_Claimed = [], si_Removed = [], si_Invited = [], si_TenantTry = Some (newRateLimiter 4 (15 * minute)),
     si_InviteFanout = Some (newRateLimiter 6 hour), si_InviteTarget = Some (newRateLimiter 1 (24 * hour)),
     si_ConfirmLimit = Some (newRateLimiter 10 (10 * minute))\<rparr>"

definition plain_request :: request where
  "plain_request = \<lparr>rq_Method = ''POST'', rq_RemoteAddr = ''10.0.0.1:80'', rq_Host = ''p'', rq_TLS = True,
     rq_Header = (\<lambda>_. []), rq_Form = (\<lambda>_. [])\<rparr>"

definition anns_visit :: visit where
  "anns_visit = \<lparr>vt_Request = plain_request, vt_User = ann, vt_Now = 1000 * second, vt_Login = True,
     vt_Parse = (\<lambda>_. None), vt_MembersRead = True, vt_ConsentRead = True, vt_Stored = True, vt_Touches = True,
     vt_Bumped = True\<rparr>"

definition two_councils :: server where
  "two_councils = new_site\<lparr>si_Estate := new_estate\<lparr>es_Selected := [''ann@b'' \<mapsto> ''yarra''],
     es_Sessions := [no_session\<lparr>ts_Owner := ''ann@b'', ts_TenantID := ''boroondara''\<rparr>]\<rparr>\<rparr>"

text \<open>
  The question whether there was a connection is put to the selected council alone, the deletion takes
  them all: an account that has selected a council it is not linked to is told that nothing was set up
  while its session with another council is deleted, and gets no notice.
\<close>

lemma a_decline_can_disconnect_in_silence:
  "fst (declineTerms anns_visit two_councils) = NothingWasSetUp"
  "length (es_Sessions (si_Estate two_councils)) = 1"
  "es_Sessions (si_Estate (snd (declineTerms anns_visit two_councils))) = []"
  "si_Disconnected (snd (declineTerms anns_visit two_councils)) = []"
  by code_simp+

lemma a_declined_agreement_takes_effect_witness:
  "es_Sessions (si_Estate (snd (declineTerms anns_visit two_councils))) = filter (\<lambda>r. ts_Owner r \<noteq> ''ann@b'') (es_Sessions (si_Estate two_councils))"
proof -
  obtain ans w' where d: "declineTerms anns_visit two_councils = (ans, w')" by force
  have ans: "ans = NothingWasSetUp" using a_decline_can_disconnect_in_silence(1) d by simp
  have "normaliseAddr ''ann@b'' \<noteq> []" by code_simp
  moreover have "in_step (si_Man two_councils) (si_Epochs two_councils)"
    by (simp add: in_step_def two_councils_def new_site_def NewManager_def epochFor_def SessionEpoch_def Let_def)
  ultimately show ?thesis
    using a_declined_agreement_takes_effect [OF d _ refl] ans d by (simp add: anns_visit_def ann_def)
qed

end
