(* ===== verification/Desk.thy ===== *)
theory Desk
  imports Gates Door
begin

text \<open>
  What the handlers of the signed-in pages share (internal/server/changelog.go, schedule.go, helpers.go,
  internal/store/milestone.go): the log of changes with its once-ever milestones, whose permit and whose
  rego a form names, and the kick of the scheduler.
\<close>

section \<open>What a form brings\<close>

text \<open>
  Beyond the visit: the path values, the zone of the process and of a permit, which reads and writes of
  the store succeed, and what the permit's council can do.
\<close>

record desk =
  dk_ID :: string
  dk_Oid :: string
  dk_Local :: zone
  dk_Zone :: "permit \<Rightarrow> zone"
  dk_PermitRead :: bool
  dk_VehiclesRead :: bool
  dk_VehicleChecked :: bool
  dk_OverridesRead :: bool
  dk_OfferMarked :: bool
  dk_Logged :: bool
  dk_Marked :: bool
  dk_CanClear :: bool
  dk_RegionValid :: "string \<Rightarrow> bool"

definition form :: "visit \<Rightarrow> string \<Rightarrow> string" where "form v name = rq_Form (vt_Request v) name"

text \<open>\<open>strconv.Atoi\<close>: the value and whether there was no error.\<close>

definition Atoi :: "string \<Rightarrow> int \<times> bool" where "Atoi s = ParseInt10 s"

section \<open>The log of changes\<close>

definition MarkMilestone :: "string \<Rightarrow> string \<Rightarrow> time \<Rightarrow> estate \<Rightarrow> estate" where
  "MarkMilestone owner key now es =
     (if list_ex (\<lambda>(o', k, _). o' = owner \<and> k = key) (es_Milestones es) then es
      else es\<lparr>es_Milestones := es_Milestones es @ [(owner, key, nowUTC now)]\<rparr>)"

definition Milestones :: "string \<Rightarrow> estate \<Rightarrow> string list" where
  "Milestones owner es = map (\<lambda>m. fst (snd m)) (filter (\<lambda>m. fst m = owner) (es_Milestones es))"

definition milestoneForChange :: "string \<Rightarrow> string \<Rightarrow> string option" where
  "milestoneForChange action target =
     (if action = ''roster.set'' \<or> action = ''roster.empty'' then Some ''roster''
      else if action = ''override.add'' then Some ''booking''
      else if action = ''cycle.add'' then Some ''weeks''
      else if action = ''vehicle.add'' then Some ''rego''
      else if action = ''vehicle.email'' then (if target \<noteq> [] then Some ''rego-email'' else None)
      else if action = ''doorqr.show'' then Some ''visitor-qr''
      else if action = ''guest.create'' then Some ''guest-pass''
      else if action = ''doorqr.create'' then Some ''printed-qr''
      else if action = ''picker.create'' then Some ''picker''
      else if action = ''permit.rename'' then (if target \<noteq> [] then Some ''permit-name'' else None)
      else if action = ''household.name'' then (if target \<noteq> [] then Some ''household-name'' else None)
      else if action = ''member.add'' then Some ''shared''
      else None)"

definition upd_estate :: "(estate \<Rightarrow> estate) \<Rightarrow> server \<Rightarrow> server" where
  "upd_estate f w = w\<lparr>si_Estate := f (si_Estate w)\<rparr>"

definition upd_tables :: "tables \<Rightarrow> server \<Rightarrow> server" where
  "upd_tables tb w = upd_estate (\<lambda>es. es\<lparr>es_Tables := tb\<rparr>) w"

abbreviation tables_of :: "server \<Rightarrow> tables" where "tables_of w \<equiv> es_Tables (si_Estate w)"

text \<open>A change is logged after it was made; the milestone does not wait for the log.\<close>

definition log_change :: "desk \<Rightarrow> string \<Rightarrow> string \<Rightarrow> string \<Rightarrow> string \<Rightarrow> string \<Rightarrow> time \<Rightarrow> server \<Rightarrow> server" where
  "log_change dk owner actor action target detail now w =
     upd_estate (\<lambda>es.
       let es1 = (if dk_Logged dk then RecordChange owner actor action target detail now es else es) in
       case milestoneForChange action target of
         None \<Rightarrow> es1
       | Some m \<Rightarrow> if dk_Marked dk then MarkMilestone owner m now es1 else es1) w"

definition kick_permit :: "int \<Rightarrow> server \<Rightarrow> server" where
  "kick_permit pid w = w\<lparr>si_Kicks := si_Kicks w @ [pid]\<rparr>"

section \<open>Whose permit, whose rego\<close>

definition plateOf :: "desk \<Rightarrow> string \<Rightarrow> int \<Rightarrow> server \<Rightarrow> string" where
  "plateOf dk owner vid w =
     (if vid = 0 \<or> \<not> dk_VehiclesRead dk then []
      else (case find (\<lambda>x. v_ID x = vid) (ListVehiclesFor owner (tables_of w)) of
          None \<Rightarrow> [] | Some x \<Rightarrow> v_Registration x))"

definition permitLabelByID :: "desk \<Rightarrow> string \<Rightarrow> int \<Rightarrow> server \<Rightarrow> string" where
  "permitLabelByID dk owner pid w =
     (if \<not> dk_PermitRead dk then []
      else (case find (\<lambda>p. p_ID p = pid) (tb_Permits (tables_of w)) of
          None \<Rightarrow> [] | Some p \<Rightarrow> if p_Owner p \<noteq> owner then [] else page_permit_label p))"

definition ownedPermit :: "desk \<Rightarrow> string \<Rightarrow> server \<Rightarrow> permit option" where
  "ownedPermit dk owner w =
     (if \<not> dk_PermitRead dk then None
      else (case find (\<lambda>p. p_ID p = atoi64 (dk_ID dk)) (tb_Permits (tables_of w)) of
          None \<Rightarrow> None | Some p \<Rightarrow> if p_Owner p \<noteq> owner then None else Some p))"

datatype rego_check = RegoOwned | RegoUnchecked | RegoForeign

definition ownsVehicle :: "desk \<Rightarrow> string \<Rightarrow> int \<Rightarrow> server \<Rightarrow> rego_check" where
  "ownsVehicle dk owner vid w =
     (if \<not> dk_VehicleChecked dk then RegoUnchecked
      else if owns_vehicle owner vid (tables_of w) then RegoOwned else RegoForeign)"

definition hasLivePermit :: "desk \<Rightarrow> zone \<Rightarrow> bool \<Rightarrow> string \<Rightarrow> time \<Rightarrow> server \<Rightarrow> bool" where
  "hasLivePermit dk loc listed owner now w \<longleftrightarrow> listed
     \<and> list_ex (\<lambda>p. p_Owner p = owner \<and> \<not> permit_inactive (dk_Local dk) p now (Some loc)) (tb_Permits (tables_of w))"

section \<open>Frames\<close>

lemma log_change_frames [simp]:
  "tables_of (log_change dk ow ac a t d now w) = tables_of w"
  "es_Sessions (si_Estate (log_change dk ow ac a t d now w)) = es_Sessions (si_Estate w)"
  "si_Kicks (log_change dk ow ac a t d now w) = si_Kicks w"
  "si_Epochs (log_change dk ow ac a t d now w) = si_Epochs w"
  "si_Man (log_change dk ow ac a t d now w) = si_Man w"
  by (simp_all add: log_change_def upd_estate_def RecordChange_def MarkMilestone_def Let_def split: option.split)

lemma kick_frames [simp]:
  "si_Estate (kick_permit pid w) = si_Estate w" "si_Kicks (kick_permit pid w) = si_Kicks w @ [pid]"
  by (simp_all add: kick_permit_def)

lemma upd_tables_frames [simp]:
  "tables_of (upd_tables tb w) = tb" "si_Kicks (upd_tables tb w) = si_Kicks w"
  "es_Sessions (si_Estate (upd_tables tb w)) = es_Sessions (si_Estate w)"
  by (simp_all add: upd_tables_def upd_estate_def)

lemma ownedPermitD:
  assumes "ownedPermit dk owner w = Some p"
  shows "p \<in> set (tb_Permits (tables_of w))" "p_Owner p = owner" "owns_permit owner (p_ID p) (tables_of w)"
    "find (\<lambda>q. p_ID q = p_ID p) (tb_Permits (tables_of w)) = Some p"
proof -
  have f: "find (\<lambda>p. p_ID p = atoi64 (dk_ID dk)) (tb_Permits (tables_of w)) = Some p" and o: "p_Owner p = owner"
    using assms by (auto simp: ownedPermit_def split: option.splits if_splits)
  then show "p_Owner p = owner" by simp
  have i: "p_ID p = atoi64 (dk_ID dk)" and m: "p \<in> set (tb_Permits (tables_of w))"
    using f by (auto simp: find_Some_iff)
  then show "p \<in> set (tb_Permits (tables_of w))" by simp
  show "owns_permit owner (p_ID p) (tables_of w)" using m o by (auto simp: owns_permit_def list_ex_iff)
  show "find (\<lambda>q. p_ID q = p_ID p) (tb_Permits (tables_of w)) = Some p" using f i by simp
qed

text \<open>A milestone is recorded once, and none that was recorded is lost.\<close>

lemma milestones_only_grow:
  "set (Milestones owner es) \<subseteq> set (Milestones owner (si_Estate (log_change dk ow ac a t d now (w\<lparr>si_Estate := es\<rparr>))))"
  by (auto simp: log_change_def upd_estate_def RecordChange_def MarkMilestone_def Milestones_def Let_def split: option.split)

end
