(* ===== verification/Roster.thy ===== *)
theory Roster
  imports Desk
begin

text \<open>
  The forms of the schedule page (internal/server/schedule.go): a day of the roster, the weeks of the
  roster's cycle with the undo of a removal, one-off bookings; and what a permit's card derives: the
  expiry labels and the polls that wait for the council. Building the page is left out.
\<close>

section \<open>Answers\<close>

datatype fault =
    BadDay | BadWeek | BadRego | CannotEmpty
  | FourWeeksAtMost | SingleWeek | UndoExpired | WeeksAlreadyBack
  | StartDateMissing | StartUnread | NoOpenEnd | EndDateMissing | EndUnread | EndBeforeStart
  | BadPlate | ChooseOrType | TooManyBookings

datatype notice =
    NoNotice
  | AddedWeeks int int
  | RemovedWeeks int int "int option"
  | PutBack int int

text \<open>\<open>Card\<close>: the permit's card rendered again, with its notice and the payload of an undo.\<close>

datatype card_answer =
    AccountUnclear | NoSuchPermit | NoSuchRego | CouldNotFinish
  | Fault fault
  | Card permit notice string

definition for_permit ::
  "desk \<Rightarrow> visit \<Rightarrow> server \<Rightarrow> (string \<Rightarrow> string \<Rightarrow> permit \<Rightarrow> card_answer \<times> server) \<Rightarrow> card_answer \<times> server"
where
  "for_permit dk v w h =
     (case accountForWrite v w of
        None \<Rightarrow> (AccountUnclear, w)
      | Some (user, owner, _) \<Rightarrow>
          (case ownedPermit dk owner w of None \<Rightarrow> (NoSuchPermit, w) | Some p \<Rightarrow> h user owner p))"

definition rego_refused :: "desk \<Rightarrow> string \<Rightarrow> int \<Rightarrow> server \<Rightarrow> card_answer option" where
  "rego_refused dk owner vid w =
     (case ownsVehicle dk owner vid w of
        RegoOwned \<Rightarrow> None | RegoUnchecked \<Rightarrow> Some CouldNotFinish | RegoForeign \<Rightarrow> Some NoSuchRego)"

section \<open>A day of the roster\<close>

definition day_name :: "permit \<Rightarrow> int \<Rightarrow> int \<Rightarrow> string" where
  "day_name p wd week =
     (let n = weekday_names ! nat wd in
      if 1 < c_Weeks (permit_cycle p) then n @ '' (week '' @ show_int (week + 1) @ '')'' else n)"

definition write_day :: "string \<Rightarrow> permit \<Rightarrow> int \<Rightarrow> int \<Rightarrow> bool \<Rightarrow> int \<Rightarrow> tables \<Rightarrow> tables outcome" where
  "write_day owner p week wd e vid tb =
     (if e then SetEmptyRule owner (p_ID p) week wd tb
      else if vid = 0 then ClearRule owner (p_ID p) week wd tb
      else SetRule owner (p_ID p) week wd vid tb)"

definition answer_copy_offer :: "desk \<Rightarrow> string \<Rightarrow> permit \<Rightarrow> bool \<Rightarrow> server \<Rightarrow> permit \<times> server" where
  "answer_copy_offer dk owner p filled w =
     (if filled \<and> \<not> p_CopyOfferDone p \<and> dk_OfferMarked dk
      then (case MarkCopyOfferDone owner (p_ID p) (tables_of w) of
          Inl _ \<Rightarrow> (p, w)
        | Inr tb \<Rightarrow> (p\<lparr>p_CopyOfferDone := True\<rparr>, upd_tables tb w))
      else (p, w))"

definition after_day :: "desk \<Rightarrow> visit \<Rightarrow> string \<Rightarrow> string \<Rightarrow> permit \<Rightarrow> int \<Rightarrow> int \<Rightarrow> bool \<Rightarrow> int \<Rightarrow> server \<Rightarrow> card_answer \<times> server" where
  "after_day dk v user owner p0 week wd e vid w0 =
     (let plate = (if \<not> e \<and> vid \<noteq> 0 then plateOf dk owner vid w0 else []);
          (p, w) = answer_copy_offer dk owner p0 (vid \<noteq> 0 \<or> e) w0;
          target = day_name p wd week @ '' on '' @ page_permit_label p;
          action = (if e then ''roster.empty'' else if vid = 0 then ''roster.clear'' else ''roster.set'')
      in (Card p NoNotice [], kick_permit (p_ID p) (log_change dk owner user action target plate (vt_Now v) w)))"

definition setRule :: "desk \<Rightarrow> visit \<Rightarrow> server \<Rightarrow> card_answer \<times> server" where
  "setRule dk v w =
     for_permit dk v w (\<lambda>user owner p.
       let (wd, okd) = Atoi (trim_space (form v ''weekday''));
           raw = trim_space (form v ''week''); (wv, okw) = Atoi raw;
           asked = (raw \<noteq> [] \<or> 1 < c_Weeks (permit_cycle p)); week = (if asked then wv else 0);
           car = trim_space (form v ''vehicle_id''); e = (car = ''empty'');
           (vv, okv) = ParseInt10 car; vid = (if e \<or> car = [] then 0 else vv)
       in if \<not> okd \<or> wd < 0 \<or> 6 < wd then (Fault BadDay, w)
          else if asked \<and> (\<not> okw \<or> wv < 0 \<or> c_Weeks (permit_cycle p) \<le> wv) then (Fault BadWeek, w)
          else if \<not> e \<and> car \<noteq> [] \<and> (\<not> okv \<or> vv < 0) then (Fault BadRego, w)
          else if e \<and> \<not> dk_CanClear dk then (Fault CannotEmpty, w)
          else (case (if \<not> e \<and> vid \<noteq> 0 then rego_refused dk owner vid w else None) of
              Some a \<Rightarrow> (a, w)
            | None \<Rightarrow>
               (case (if vt_Stored v then write_day owner p week wd e vid (tables_of w) else Inl NotFound) of
                  Inl _ \<Rightarrow> (CouldNotFinish, w)
                | Inr tb \<Rightarrow> after_day dk v user owner p week wd e vid (upd_tables tb w))))"

section \<open>The payload of an undo\<close>

definition encode_rule :: "weekly_rule \<Rightarrow> string" where
  "encode_rule r =
     show_int (r_Week r) @ '':'' @ show_int (r_Weekday r) @ '':'' @ (if r_Empty r then ''e'' else show_int (r_VehicleID r))"

definition encodeWeekRules :: "weekly_rule list \<Rightarrow> string" where
  "encodeWeekRules rules = (if rules = [] then ''-'' else join_with '','' (map encode_rule rules))"

definition decoded :: "int \<Rightarrow> int \<Rightarrow> int \<Rightarrow> bool \<Rightarrow> weekly_rule" where
  "decoded week wd vid e = \<lparr>r_ID = 0, r_PermitID = 0, r_Week = week, r_Weekday = wd, r_VehicleID = vid, r_Empty = e\<rparr>"

definition decode_part :: "string \<Rightarrow> weekly_rule option" where
  "decode_part part =
     (case split_on (CHR '':'') part of
        [a, b, c] \<Rightarrow>
          (let (wk, okk) = Atoi a; (wd, okw) = Atoi b; (vid, okv) = ParseInt10 c in
           if \<not> okk \<or> \<not> okw \<or> wk < 1 \<or> max_cycle_weeks \<le> wk \<or> wd < 0 \<or> 6 < wd then None
           else if c = ''e'' then Some (decoded wk wd 0 True)
           else if \<not> okv \<or> vid \<le> 0 then None
           else Some (decoded wk wd vid False))
      | _ \<Rightarrow> None)"

text \<open>The loop over the parts, with the slots seen so far.\<close>

fun decode_parts :: "(int \<times> int) list \<Rightarrow> string list \<Rightarrow> weekly_rule list option" where
  "decode_parts seen [] = Some []"
| "decode_parts seen (s # ss) =
     (case decode_part s of
        None \<Rightarrow> None
      | Some r \<Rightarrow>
          if List.member seen (r_Week r, r_Weekday r) then None
          else map_option (\<lambda>rs. r # rs) (decode_parts ((r_Week r, r_Weekday r) # seen) ss))"

definition decodeWeekRules :: "string \<Rightarrow> weekly_rule list option" where
  "decodeWeekRules s = (if s = ''-'' then Some [] else decode_parts [] (split_on (CHR '','') s))"

definition weeksLabel :: "int \<Rightarrow> int \<Rightarrow> string" where
  "weeksLabel from to =
     (if to - from \<le> 1 then ''week '' @ show_int (from + 1)
      else ''weeks '' @ show_int (from + 1) @ '' and '' @ show_int to)"

definition describeWeekRules :: "desk \<Rightarrow> string \<Rightarrow> weekly_rule list \<Rightarrow> server \<Rightarrow> string" where
  "describeWeekRules dk owner rules w =
     join_with '', '' (map (\<lambda>r. let d = weekday_names ! nat (r_Weekday r); plate = plateOf dk owner (r_VehicleID r) w in
       if r_Empty r then d @ '' no rego'' else if plate \<noteq> [] then d @ '' '' @ plate else d) rules)"

section \<open>The weeks of the cycle\<close>

definition recycled :: "int \<Rightarrow> string \<Rightarrow> permit \<Rightarrow> permit" where
  "recycled weeks anchor p = p\<lparr>p_CycleWeeks := weeks, p_CycleAnchor := anchor\<rparr>"

definition stored_cycle :: "visit \<Rightarrow> 'a outcome \<Rightarrow> 'a outcome" where
  "stored_cycle v x = (if vt_Stored v then x else Inl NotFound)"

definition addCycleWeek :: "desk \<Rightarrow> visit \<Rightarrow> server \<Rightarrow> card_answer \<times> server" where
  "addCycleWeek dk v w =
     for_permit dk v w (\<lambda>user owner p.
       let z = dk_Zone dk p; now = vt_Now v; cyc = permit_cycle p; (to, more) = next_cycle_weeks (c_Weeks cyc);
           anchor = c_Anchor (reanchored_cycle z now cyc to)
       in if \<not> more then (Fault FourWeeksAtMost, w)
          else (case stored_cycle v (GrowCycle owner (p_ID p) anchor to (tables_of w)) of
              Inl CycleWeek \<Rightarrow> (Fault FourWeeksAtMost, w)
            | Inl _ \<Rightarrow> (CouldNotFinish, w)
            | Inr (n, tb) \<Rightarrow>
               (Card (recycled n anchor p) (AddedWeeks (c_Weeks cyc) n) [],
                log_change dk owner user ''cycle.add'' (page_permit_label p) (weeksLabel (c_Weeks cyc) n) now
                  (upd_tables tb w))))"

definition removal_detail :: "desk \<Rightarrow> string \<Rightarrow> int \<Rightarrow> int \<Rightarrow> weekly_rule list \<Rightarrow> server \<Rightarrow> string" where
  "removal_detail dk owner n weeks removed w =
     (let days = describeWeekRules dk owner removed w in
      weeksLabel n weeks @ (if days \<noteq> [] then '' '' @ [CHR 0xE2, CHR 0x80, CHR 0x94] @ '' '' @ days else []))"

definition undo_payload :: "int \<Rightarrow> weekly_rule list \<Rightarrow> string \<Rightarrow> string" where
  "undo_payload weeks removed anchor = show_int weeks @ ''|'' @ encodeWeekRules removed @ ''|'' @ anchor"

definition removeCycleWeek :: "desk \<Rightarrow> visit \<Rightarrow> server \<Rightarrow> card_answer \<times> server" where
  "removeCycleWeek dk v w =
     for_permit dk v w (\<lambda>user owner p.
       let z = dk_Zone dk p; now = vt_Now v; cyc = permit_cycle p; to = fst (prev_cycle_weeks (c_Weeks cyc));
           inRemoved = (to \<le> week_at z cyc now); next = reanchored_cycle z now cyc to
       in if c_Weeks cyc \<le> 1 then (Fault SingleWeek, w)
          else (case stored_cycle v (ShrinkCycle owner (p_ID p) (c_Anchor next) to (tables_of w)) of
              Inl CycleWeek \<Rightarrow> (Fault SingleWeek, w)
            | Inl _ \<Rightarrow> (CouldNotFinish, w)
            | Inr (removed, tb) \<Rightarrow>
               (let w1 = log_change dk owner user ''cycle.remove'' (page_permit_label p)
                           (removal_detail dk owner to (c_Weeks cyc) removed (upd_tables tb w)) now (upd_tables tb w)
                in (Card (recycled to (c_Anchor next) p)
                      (RemovedWeeks to (c_Weeks cyc) (if inRemoved then Some (week_at z next now + 1) else None))
                      (undo_payload (c_Weeks cyc) removed (p_CycleAnchor p)),
                    if inRemoved then kick_permit (p_ID p) w1 else w1))))"

text \<open>The payload of the form, read strictly: the length, the days, the anchor.\<close>

definition read_undo :: "string \<Rightarrow> (int \<times> weekly_rule list \<times> string) option" where
  "read_undo s =
     (case cut_at (CHR ''|'') s of (lengthStr, rest, ok) \<Rightarrow>
      (case cut_at (CHR ''|'') rest of (payload, anchor, ok2) \<Rightarrow>
        (let (to, okl) = Atoi lengthStr in
         case decodeWeekRules payload of
           None \<Rightarrow> None
         | Some rules \<Rightarrow>
            if \<not> ok \<or> \<not> ok2 \<or> \<not> okl \<or> to < 2 \<or> max_cycle_weeks < to then None
            else if anchor \<noteq> [] \<and> parse_date anchor = None then None
            else Some (to, rules, anchor))))"

text \<open>The first refusal of the loop over the days.\<close>

fun days_refused :: "desk \<Rightarrow> string \<Rightarrow> int \<Rightarrow> int \<Rightarrow> server \<Rightarrow> weekly_rule list \<Rightarrow> card_answer option" where
  "days_refused dk owner weeks to w [] = None"
| "days_refused dk owner weeks to w (r # rs) =
     (if r_Week r < weeks \<or> to \<le> r_Week r then Some (Fault UndoExpired)
      else if r_Empty r then days_refused dk owner weeks to w rs
      else (case rego_refused dk owner (r_VehicleID r) w of
          Some a \<Rightarrow> Some a | None \<Rightarrow> days_refused dk owner weeks to w rs))"

definition restoreCycleWeek :: "desk \<Rightarrow> visit \<Rightarrow> server \<Rightarrow> card_answer \<times> server" where
  "restoreCycleWeek dk v w =
     for_permit dk v w (\<lambda>user owner p.
       let z = dk_Zone dk p; now = vt_Now v; cyc = permit_cycle p in
       case read_undo (form v ''undo'') of
         None \<Rightarrow> (Fault UndoExpired, w)
       | Some (to, rules, anchor0) \<Rightarrow>
           if to \<le> c_Weeks cyc then (Fault WeeksAlreadyBack, w)
           else (case days_refused dk owner (c_Weeks cyc) to w rules of
               Some a \<Rightarrow> (a, w)
             | None \<Rightarrow>
                (let anchor = (if anchor0 = [] then c_Anchor (reanchored_cycle z now cyc to) else anchor0) in
                 case stored_cycle v (RestoreCycle owner (p_ID p) rules anchor to (tables_of w)) of
                   Inl CycleWeek \<Rightarrow> (Fault UndoExpired, w)
                 | Inl _ \<Rightarrow> (CouldNotFinish, w)
                 | Inr (n, tb) \<Rightarrow>
                    (Card (recycled n anchor p) (PutBack (c_Weeks cyc) n) [],
                     kick_permit (p_ID p) (log_change dk owner user ''cycle.restore'' (page_permit_label p)
                       (weeksLabel (c_Weeks cyc) n) now (upd_tables tb w))))))"

section \<open>One-off bookings\<close>

definition combineDateTime :: "string \<Rightarrow> string \<Rightarrow> string \<Rightarrow> string" where
  "combineDateTime date time defaultTime =
     (let d = trim_space date; t = trim_space time in
      if d = [] then [] else d @ ''T'' @ (if t = [] then defaultTime else t))"

text \<open>\<open>time.ParseInLocation("2006-01-02T15:04", s, loc)\<close>: the hour may be one digit.\<close>

definition parse_hour :: "string \<Rightarrow> (int \<times> string) option" where
  "parse_hour s =
     (case s of
        [] \<Rightarrow> None
      | a # rest \<Rightarrow>
         (case digit_val a of
            None \<Rightarrow> None
          | Some x \<Rightarrow>
             (case rest of
                [] \<Rightarrow> Some (x, [])
              | b # rest' \<Rightarrow> (case digit_val b of None \<Rightarrow> Some (x, rest) | Some y \<Rightarrow> Some (10 * x + y, rest')))))"

definition parse_clock :: "string \<Rightarrow> (int \<times> int) option" where
  "parse_clock s =
     (case parse_hour s of
        Some (h, [c, a, b]) \<Rightarrow>
          (case num2 a b of
             Some m \<Rightarrow> if c = CHR '':'' \<and> h < 24 \<and> m < 60 then Some (h, m) else None
           | None \<Rightarrow> None)
      | _ \<Rightarrow> None)"

definition parse_local :: "zone \<Rightarrow> string \<Rightarrow> time option" where
  "parse_local z s =
     (case (parse_date (take 10 s), drop 10 s) of
        (Some d, c # rest) \<Rightarrow>
          (case parse_clock rest of
             Some (h, m) \<Rightarrow> if c = CHR ''T'' then Some (go_date z (d * day + h * hour + m * minute)) else None
           | None \<Rightarrow> None)
      | _ \<Rightarrow> None)"

text \<open>When a booking starts, and the location its instant carries: the process's own, or the permit's.\<close>

definition booking_start :: "desk \<Rightarrow> visit \<Rightarrow> permit \<Rightarrow> fault + (time \<times> zone)" where
  "booking_start dk v p =
     (let z = dk_Zone dk p; raw = combineDateTime (form v ''from_date'') (form v ''from_time'') ''00:00'' in
      if trim_space (form v ''from_date'') = [] \<and> trim_space (form v ''from_time'') \<noteq> [] then Inl StartDateMissing
      else if raw = [] then Inr (vt_Now v, dk_Local dk)
      else (case parse_local z raw of None \<Rightarrow> Inl StartUnread | Some t \<Rightarrow> Inr (t, z)))"

definition booking_end :: "desk \<Rightarrow> visit \<Rightarrow> permit \<Rightarrow> time \<Rightarrow> zone \<Rightarrow> fault + time" where
  "booking_end dk v p startsAt loc =
     (let z = dk_Zone dk p; ends = form v ''ends'' in
      if ends = ''open'' then Inl NoOpenEnd
      else if ends = ''custom''
      then (let raw = combineDateTime (form v ''until_date'') (form v ''until_time'') ''00:00'' in
            if raw = [] then Inl EndDateMissing
            else (case parse_local z raw of
                None \<Rightarrow> Inl EndUnread
              | Some t \<Rightarrow> Inr (if trim_space (form v ''until_time'') = [] then end_of_day t z else t)))
      else if ends = ''nextday'' then Inr (end_of_day (add_days loc startsAt 1) z)
      else Inr (end_of_day startsAt z))"

definition booking_window :: "desk \<Rightarrow> visit \<Rightarrow> permit \<Rightarrow> fault + (time \<times> time)" where
  "booking_window dk v p =
     (case booking_start dk v p of
        Inl f \<Rightarrow> Inl f
      | Inr (s, loc) \<Rightarrow>
         (case booking_end dk v p s loc of
            Inl f \<Rightarrow> Inl f
          | Inr e \<Rightarrow> if \<not> s < e then Inl EndBeforeStart else Inr (s, e)))"

definition kept_region :: "desk \<Rightarrow> string \<Rightarrow> string" where
  "kept_region dk raw = (let st = to_upper (trim_space raw) in if st \<noteq> [] \<and> \<not> dk_RegionValid dk st then [] else st)"

text \<open>What is booked: a typed plate, or a saved rego of the household.\<close>

definition booked_car :: "desk \<Rightarrow> visit \<Rightarrow> string \<Rightarrow> server \<Rightarrow> card_answer + (int \<times> string \<times> string)" where
  "booked_car dk v owner w =
     (let plate = normalizeReg (form v ''plate''); vid = atoi64 (form v ''vehicle_id'') in
      if plate \<noteq> [] then (if \<not> validRego plate then Inl (Fault BadPlate)
                           else Inr (0, plate, kept_region dk (form v ''plate_state'')))
      else if vid \<noteq> 0 then (case rego_refused dk owner vid w of Some a \<Rightarrow> Inl a | None \<Rightarrow> Inr (vid, [], []))
      else Inl (Fault ChooseOrType))"

definition booking_detail :: "zone \<Rightarrow> time \<Rightarrow> time \<Rightarrow> string" where
  "booking_detail z s e =
     ''from '' @ fmt_day_month (localday z s) @ '' '' @ fmt_clock (lns z s) @ '' until '' @ end_text z e (Some z)"

definition addOverride :: "desk \<Rightarrow> visit \<Rightarrow> server \<Rightarrow> card_answer \<times> server" where
  "addOverride dk v w =
     for_permit dk v w (\<lambda>user owner p.
       case booking_window dk v p of
         Inl f \<Rightarrow> (Fault f, w)
       | Inr (s, e) \<Rightarrow>
          (case booked_car dk v owner w of
             Inl a \<Rightarrow> (a, w)
           | Inr (vid, plate, st) \<Rightarrow>
              (case stored_cycle v (CreateOverrideCapped
                      \<lparr>bk_PermitID = p_ID p, bk_VehicleID = vid, bk_Registration = plate, bk_State = st,
                       bk_StartsAt = s, bk_EndsAt = Some e, bk_CreatedBy = user\<rparr>
                      MaxLiveOverridesPerPermit (vt_Now v) (tables_of w)) of
                 Inl OverrideLimit \<Rightarrow> (Fault TooManyBookings, w)
               | Inl _ \<Rightarrow> (CouldNotFinish, w)
               | Inr (_, tb) \<Rightarrow>
                  (let w1 = upd_tables tb w; reg = (if plate = [] then plateOf dk owner vid w1 else plate) in
                   (Card p NoNotice [],
                    kick_permit (p_ID p) (log_change dk owner user ''override.add'' reg
                      (booking_detail (dk_Zone dk p) s e) (vt_Now v) w1))))))"

definition gone_booking :: "desk \<Rightarrow> string \<Rightarrow> permit \<Rightarrow> int \<Rightarrow> server \<Rightarrow> string" where
  "gone_booking dk owner p oid w =
     (if \<not> dk_OverridesRead dk then []
      else (case find (\<lambda>x. o_ID x = oid) (ListOverrides (p_ID p) zero_time (tables_of w)) of
          None \<Rightarrow> []
        | Some x \<Rightarrow> if o_Registration x \<noteq> [] then o_Registration x else plateOf dk owner (o_VehicleID x) w))"

definition deleteOverride :: "desk \<Rightarrow> visit \<Rightarrow> server \<Rightarrow> card_answer \<times> server" where
  "deleteOverride dk v w =
     for_permit dk v w (\<lambda>user owner p.
       let oid = atoi64 (dk_Oid dk); gone = gone_booking dk owner p oid w in
       if \<not> vt_Stored v then (CouldNotFinish, w)
       else (case DeleteOverrideOnPermit owner (p_ID p) oid (tables_of w) of
          (tb, deleted) \<Rightarrow>
            (Card p NoNotice [],
             if deleted then kick_permit (p_ID p) (log_change dk owner user ''override.delete'' gone [] (vt_Now v) (upd_tables tb w))
             else upd_tables tb w)))"

section \<open>What a card derives\<close>

record expiry_view =
  ev_Label :: string
  ev_In :: string
  ev_Expired :: bool
  ev_Soon :: bool

definition expirySoonLead :: dur where "expirySoonLead = 21 * 24 * hour"

definition fillExpiry :: "zone \<Rightarrow> time \<Rightarrow> time \<Rightarrow> expiry_view" where
  "fillExpiry z end now =
     (if is_zero end then \<lparr>ev_Label = [], ev_In = [], ev_Expired = False, ev_Soon = False\<rparr>
      else let label = (case civil_of_days (localday z end) of (y, m, d) \<Rightarrow>
                 show_int d @ '' '' @ month_names ! nat (m - 1) @ '' '' @ fmt_year y);
               days = round_days (tsub (noon z (localday z end)) (noon z (localday z now))) in
           if days < 0 then \<lparr>ev_Label = label, ev_In = (if days = -1 then ''yesterday'' else show_int (- days) @ '' days ago''),
                             ev_Expired = True, ev_Soon = False\<rparr>
           else if days = 0 then \<lparr>ev_Label = label, ev_In = ''today'', ev_Expired = False, ev_Soon = True\<rparr>
           else if days = 1 then \<lparr>ev_Label = label, ev_In = ''tomorrow'', ev_Expired = False, ev_Soon = True\<rparr>
           else \<lparr>ev_Label = label, ev_In = ''in '' @ show_int days @ '' days'', ev_Expired = False,
                 ev_Soon = (tsub end now \<le> expirySoonLead)\<rparr>)"

definition colorOfPlate :: "owned_vehicle list \<Rightarrow> string \<Rightarrow> string" where
  "colorOfPlate vs plate =
     (if norm_plate plate = [] then []
      else (case find (\<lambda>x. norm_plate (v_Registration x) = norm_plate plate) vs of None \<Rightarrow> [] | Some x \<Rightarrow> v_Color x))"

definition platePollDelays :: "int list" where
  "platePollDelays = [2, 3, 5, 5, 10, 15, 20, 30, 45, 60, 60, 60]"

fun resume_from :: "int \<Rightarrow> dur \<Rightarrow> dur \<Rightarrow> int list \<Rightarrow> int" where
  "resume_from i elapsed failingFor [] = i"
| "resume_from i elapsed failingFor (d # ds) =
     (if failingFor \<le> elapsed then i else resume_from (i + 1) (elapsed + d * second) failingFor ds)"

definition attemptForStaleness :: "dur \<Rightarrow> int" where
  "attemptForStaleness failingFor = (if failingFor \<le> 0 then 0 else resume_from 0 0 failingFor platePollDelays)"

record poll_view =
  pv_Seed :: int
  pv_Refreshing :: bool
  pv_Applying :: bool
  pv_Next :: int
  pv_Delay :: int
  pv_Unconfirmed :: bool
  pv_Cal :: "(bool \<times> bool \<times> bool) list"

text \<open>A day of the card's calendar: whether it is today, being applied, unconfirmed.\<close>

definition mark_today :: "bool \<Rightarrow> bool \<Rightarrow> (bool \<times> bool \<times> bool) list \<Rightarrow> (bool \<times> bool \<times> bool) list" where
  "mark_today applying unconfirmed cal =
     map (\<lambda>(today, a, u). if today then (today, applying \<and> \<not> unconfirmed, unconfirmed) else (today, a, u)) cal"

definition armPlatePoll :: "int \<Rightarrow> poll_view \<Rightarrow> poll_view" where
  "armPlatePoll attempt0 pv =
     (let attempt = max attempt0 (pv_Seed pv); outstanding = (pv_Refreshing pv \<or> pv_Applying pv);
          pv' = (if attempt < int (length platePollDelays) \<and> outstanding
                 then pv\<lparr>pv_Next := attempt + 1, pv_Delay := platePollDelays ! nat attempt\<rparr>
                 else pv\<lparr>pv_Next := 0, pv_Delay := 0, pv_Unconfirmed := outstanding\<rparr>)
      in pv'\<lparr>pv_Cal := mark_today (pv_Applying pv') (pv_Unconfirmed pv') (pv_Cal pv')\<rparr>)"

end
