(* ===== verification/Weeks.thy ===== *)
theory Weeks
  imports Roster Revocation
begin

text \<open>
  What the weeks of a roster promise: an added week changes nothing until it is edited, and the undo of a
  removal, whose payload travels through the browser, puts back exactly what was removed.
\<close>

section \<open>The plan of a permit\<close>

text \<open>What the rows of a permit say, without their numbers.\<close>

definition cell :: "weekly_rule \<Rightarrow> int \<times> int \<times> int \<times> bool" where
  "cell r = (r_Week r, r_Weekday r, r_VehicleID r, r_Empty r)"

definition rule_slot :: "weekly_rule \<Rightarrow> int \<times> int" where "rule_slot r = (r_Week r, r_Weekday r)"

definition plan :: "int \<Rightarrow> tables \<Rightarrow> (int \<times> int \<times> int \<times> bool) set" where
  "plan pid tb = cell ` set (rules_on pid tb)"

definition one_per_slot :: "int \<Rightarrow> tables \<Rightarrow> bool" where
  "one_per_slot pid tb \<longleftrightarrow> distinct (map rule_slot (rules_on pid tb))"

lemma slot_unique:
  assumes "one_per_slot pid tb" and "r \<in> set (rules_on pid tb)" and "s \<in> set (rules_on pid tb)" and "rule_slot r = rule_slot s"
  shows "r = s"
  using assms by (auto simp: one_per_slot_def distinct_map dest: inj_onD)

lemma set_ListRules:
  "r \<in> set (ListRules pid tb) \<longleftrightarrow> r \<in> set (rules_on pid tb) \<and> \<not> (r_VehicleID r = 0 \<and> \<not> r_Empty r)"
  by (auto simp: ListRules_def rules_on_def)

lemma winner_in_plan:
  assumes "winning_rule wk wd (ListRules pid tb) = Some r"
  shows "(wk, wd, r_VehicleID r, r_Empty r) \<in> plan pid tb" "\<not> (r_VehicleID r = 0 \<and> \<not> r_Empty r)"
    "r \<in> set (rules_on pid tb)" "rule_slot r = (wk, wd)"
  using winning_rule_Some(1,2) [OF assms] by (auto simp: set_ListRules plan_def cell_def rule_slot_def rule_applies_def intro!: image_eqI)

lemma planned_wins:
  assumes "one_per_slot pid tb" and "(wk, wd, vid, e) \<in> plan pid tb" and "\<not> (vid = 0 \<and> \<not> e)"
  shows "\<exists>r. winning_rule wk wd (ListRules pid tb) = Some r \<and> r_VehicleID r = vid \<and> r_Empty r = e"
proof -
  obtain s where s: "s \<in> set (rules_on pid tb)" "cell s = (wk, wd, vid, e)" using assms(2) by (auto simp: plan_def)
  then have "s \<in> set (ListRules pid tb)" "rule_applies wk wd s"
    using assms(3) by (auto simp: set_ListRules cell_def rule_applies_def)
  then obtain r where r: "winning_rule wk wd (ListRules pid tb) = Some r"
    using winning_rule_None [of wk wd "ListRules pid tb"] by (cases "winning_rule wk wd (ListRules pid tb)") auto
  have "rule_slot s = (wk, wd)" using s(2) by (simp add: cell_def rule_slot_def)
  then have "r = s" using slot_unique [OF assms(1) winner_in_plan(3) [OF r] s(1)] winner_in_plan(4) [OF r] by simp
  then show ?thesis using r s(2) by (simp add: cell_def)
qed

lemma winner_iff:
  assumes "one_per_slot pid tb"
  shows "map_option (\<lambda>r. (r_VehicleID r, r_Empty r)) (winning_rule wk wd (ListRules pid tb)) = Some (vid, e)
    \<longleftrightarrow> (wk, wd, vid, e) \<in> plan pid tb \<and> \<not> (vid = 0 \<and> \<not> e)"
proof
  assume "map_option (\<lambda>r. (r_VehicleID r, r_Empty r)) (winning_rule wk wd (ListRules pid tb)) = Some (vid, e)"
  then obtain r where r: "winning_rule wk wd (ListRules pid tb) = Some r" "r_VehicleID r = vid" "r_Empty r = e" by auto
  then show "(wk, wd, vid, e) \<in> plan pid tb \<and> \<not> (vid = 0 \<and> \<not> e)" using winner_in_plan(1,2) [OF r(1)] by auto
next
  assume "(wk, wd, vid, e) \<in> plan pid tb \<and> \<not> (vid = 0 \<and> \<not> e)"
  then obtain r where "winning_rule wk wd (ListRules pid tb) = Some r" "r_VehicleID r = vid" "r_Empty r = e"
    using planned_wins [OF assms, of wk wd vid e] by blast
  then show "map_option (\<lambda>r. (r_VehicleID r, r_Empty r)) (winning_rule wk wd (ListRules pid tb)) = Some (vid, e)" by simp
qed

lemma option_same: "(\<And>x y. a = Some (x, y) \<longleftrightarrow> b = Some (x, y)) \<Longrightarrow> a = b"
  by (cases a; cases b) auto

text \<open>Two plans that agree on the day of an instant resolve alike there.\<close>

lemma resolve_by_plan:
  assumes "one_per_slot pid tb" and "one_per_slot pid tb'"
    and same: "\<And>vid e. (week_at z c t, weekday z t, vid, e) \<in> plan pid tb
                  \<longleftrightarrow> (week_at z c' t, weekday z t, vid, e) \<in> plan pid tb'"
  shows "resolve z t c (ListRules pid tb) ovs = resolve z t c' (ListRules pid tb') ovs"
proof -
  let ?W = "winning_rule (week_at z c t) (weekday z t) (ListRules pid tb)"
  let ?W' = "winning_rule (week_at z c' t) (weekday z t) (ListRules pid tb')"
  have "map_option (\<lambda>r. (r_VehicleID r, r_Empty r)) ?W = map_option (\<lambda>r. (r_VehicleID r, r_Empty r)) ?W'"
    by (rule option_same) (simp only: winner_iff [OF assms(1)] winner_iff [OF assms(2)] same)
  then show ?thesis unfolding resolve_def by (cases ?W; cases ?W') (simp_all split: option.split)
qed

section \<open>Rows that are added\<close>

definition adds :: "int \<Rightarrow> (int \<times> int \<times> int \<times> bool) set \<Rightarrow> tables \<Rightarrow> tables \<Rightarrow> bool" where
  "adds pid new tb tb' \<longleftrightarrow> plan pid tb' = plan pid tb \<union> new \<and> (one_per_slot pid tb \<longrightarrow> one_per_slot pid tb')
     \<and> tb_Permits tb' = tb_Permits tb \<and> tb_Vehicles tb' = tb_Vehicles tb \<and> tb_Overrides tb' = tb_Overrides tb"

lemma adds_refl: "adds pid {} tb tb" by (simp add: adds_def)

lemma adds_trans: "adds pid A tb tb1 \<Longrightarrow> adds pid B tb1 tb2 \<Longrightarrow> adds pid (A \<union> B) tb tb2"
  by (auto simp: adds_def)

lemma adds_insert:
  assumes "insert_rule pid wk wd vid e tb = Inr tb'"
  shows "adds pid {(wk, wd, vid, e)} tb tb'"
proof -
  have free: "\<not> list_ex (same_slot pid wk wd) (tb_Rules tb)"
    and tb': "tb' = tb\<lparr>tb_Rules := tb_Rules tb @ [new_rule pid wk wd vid e tb], tb_LastRule := tb_LastRule tb + 1\<rparr>"
    using assms by (auto simp: insert_rule_def split: if_splits)
  have on: "rules_on pid tb' = rules_on pid tb @ [new_rule pid wk wd vid e tb]" by (simp add: tb' rules_on_def new_rule_def)
  have "rule_slot (new_rule pid wk wd vid e tb) \<notin> rule_slot ` set (rules_on pid tb)"
    using free by (auto simp: rule_slot_def new_rule_def rules_on_def list_ex_iff same_slot_def)
  then show ?thesis using on by (auto simp: adds_def plan_def one_per_slot_def cell_def new_rule_def tb')
qed

lemma set_cycle_plan [simp]:
  "plan pid (set_cycle q n a tb) = plan pid tb" "one_per_slot pid (set_cycle q n a tb) = one_per_slot pid tb"
  "rules_on pid (set_cycle q n a tb) = rules_on pid tb"
  by (simp_all add: plan_def one_per_slot_def set_cycle_def rules_on_def)

section \<open>An added week\<close>

lemma grown_adds:
  assumes "insert_rules (grown_rule k) rs tb = Inr tb'" and "\<And>r. r \<in> set rs \<Longrightarrow> r_PermitID r = pid"
  shows "adds pid ((\<lambda>r. (k, r_Weekday r, r_VehicleID r, r_Empty r)) ` set rs) tb tb'"
  using assms
proof (induction rs arbitrary: tb)
  case (Cons r rs)
  then obtain tb1 where i: "grown_rule k r tb = Inr tb1" "insert_rules (grown_rule k) rs tb1 = Inr tb'"
    by (auto split: sum.splits)
  then show ?case using adds_trans [OF adds_insert [of pid k "r_Weekday r" "r_VehicleID r" "r_Empty r" tb tb1] Cons.IH [OF i(2)]]
    Cons.prems(2) by (simp add: grown_rule_def)
qed (simp add: adds_refl)

lemma grow_adds:
  assumes "grow_weeks pid weeks ks tb = Inr tb'" and "\<And>k. k \<in> set ks \<Longrightarrow> weeks \<le> k \<and> k < 2 * weeks"
  shows "adds pid {(k, wd, vid, e) |k wd vid e. k \<in> set ks \<and> (k - weeks, wd, vid, e) \<in> plan pid tb} tb tb'"
  using assms
proof (induction ks arbitrary: tb)
  case (Cons k ks)
  let ?src = "filter (\<lambda>r. r_Week r = k - weeks) (rules_on pid tb)"
  obtain tb1 where i: "insert_rules (grown_rule k) ?src tb = Inr tb1" "grow_weeks pid weeks ks tb1 = Inr tb'"
    using Cons.prems(1) by (auto split: sum.splits)
  have "(\<lambda>r. (k, r_Weekday r, r_VehicleID r, r_Empty r)) ` set ?src
      = {(k', wd, vid, e) |k' wd vid e. k' = k \<and> (k - weeks, wd, vid, e) \<in> plan pid tb}"
    by (auto simp: plan_def cell_def image_iff) metis
  then have one: "adds pid {(k', wd, vid, e) |k' wd vid e. k' = k \<and> (k - weeks, wd, vid, e) \<in> plan pid tb} tb tb1"
    using grown_adds [OF i(1), of pid] by (simp add: rules_on_def)
  have same: "(j - weeks, wd, vid, e) \<in> plan pid tb1 \<longleftrightarrow> (j - weeks, wd, vid, e) \<in> plan pid tb" if "j \<in> set ks" for j wd vid e
    using one Cons.prems(2) [of j] Cons.prems(2) [of k] that by (auto simp: adds_def)
  have "adds pid {(j, wd, vid, e) |j wd vid e. j \<in> set ks \<and> (j - weeks, wd, vid, e) \<in> plan pid tb1} tb1 tb'"
    by (rule Cons.IH [OF i(2)]) (use Cons.prems(2) in auto)
  then have two: "adds pid {(j, wd, vid, e) |j wd vid e. j \<in> set ks \<and> (j - weeks, wd, vid, e) \<in> plan pid tb} tb1 tb'"
    using same by (simp cong: conj_cong)
  have "{(j, wd, vid, e) |j wd vid e. j \<in> set (k # ks) \<and> (j - weeks, wd, vid, e) \<in> plan pid tb}
      = {(k', wd, vid, e) |k' wd vid e. k' = k \<and> (k - weeks, wd, vid, e) \<in> plan pid tb}
        \<union> {(j, wd, vid, e) |j wd vid e. j \<in> set ks \<and> (j - weeks, wd, vid, e) \<in> plan pid tb}" by auto
  then show ?case using adds_trans [OF one two] by simp
qed (simp add: adds_refl)

lemma reanchored_anchor:
  assumes "civil_zone z" and "1 < n" and "n \<le> 10000" and "0 \<le> localday z now" and "localday z now \<le> 2900000"
  obtains d where "reanchored_cycle z now old n = \<lparr>c_Weeks = n, c_Anchor = fmt_date d\<rparr>"
    and "parse_date (fmt_date d) = Some d" and "week_no d = week_no (localday z now) - week_at z old now mod n"
    and "\<bar>localday z now - d\<bar> \<le> 7 * n"
proof -
  define idx where "idx = week_at z old now mod n"
  define d where "d = localday z now - weekday z now - 7 * idx"
  have "0 \<le> week_at z old now" using week_at_range by blast
  then have idx: "week_at z old now smod n = idx" "0 \<le> idx" "idx < n"
    using assms(2) by (simp_all add: idx_def signed_modulo_int_def sgn_if)
  have wd: "0 \<le> weekday z now" "weekday z now < 7" using weekday_range by blast+
  have "localday z (add_days z (noon z (localday z now)) (- weekday z now - 7 * idx)) = d"
    using assms(1) by (simp add: add_days_noon d_def)
  then have "reanchored_cycle z now old n = \<lparr>c_Weeks = n, c_Anchor = fmt_date d\<rparr>"
    using assms(2) by (simp add: reanchored_cycle_def Let_def idx)
  moreover have "parse_date (fmt_date d) = Some d"
    by (rule parse_fmt_date) (use assms idx wd in \<open>simp_all add: d_def first_day_def last_day_def\<close>)
  moreover have "localday z now + 4 = 7 * week_no (localday z now) + weekday z now" by (simp add: week_no_def weekday_def)
  then have "d + 4 = 7 * (week_no (localday z now) - idx)" by (simp add: d_def)
  then have "week_no d = week_no (localday z now) - idx" by (simp add: week_no_def)
  moreover have "\<bar>localday z now - d\<bar> \<le> 7 * n" using idx wd by (simp add: d_def)
  ultimately show ?thesis using that by (simp add: idx_def)
qed

lemma fortnights_in_four: "(x - y + (y - b) mod 2 mod 4) mod 4 mod 2 = (x - b) mod 2" for x y b :: int
proof -
  have "(y - b) mod 2 mod 4 = (y - b) mod 2"
    by (rule mod_pos_pos_trivial) (simp, use pos_mod_bound [of 2 "y - b"] in linarith)
  moreover have "n mod 4 mod 2 = n mod 2" for n :: int by (rule mod_mod_cancel) simp
  moreover have "(x - y + (y - b) mod 2) mod 2 = (x - y + (y - b)) mod 2" by (rule mod_add_right_eq)
  ultimately show ?thesis by simp
qed

lemma grown_week:
  assumes "civil_zone z" and "0 \<le> localday z now" and "localday z now \<le> 2900000"
    and "\<bar>localday z t - localday z now\<bar> \<le> 90000"
    and "c_Weeks c = 1 \<or> c_Weeks c = 2 \<and> parse_date (c_Anchor c) = Some a
           \<and> \<bar>localday z now - a\<bar> \<le> 100000 \<and> \<bar>localday z t - a\<bar> \<le> 100000"
  shows "week_at z (reanchored_cycle z now c (2 * c_Weeks c)) t mod c_Weeks c = week_at z c t"
proof -
  define n where "n = 2 * c_Weeks c"
  have n: "1 < n" "n \<le> 4" "n \<le> 10000" using assms(5) by (auto simp: n_def)
  obtain d where d: "reanchored_cycle z now c n = \<lparr>c_Weeks = n, c_Anchor = fmt_date d\<rparr>" "parse_date (fmt_date d) = Some d"
    "week_no d = week_no (localday z now) - week_at z c now mod n" "\<bar>localday z now - d\<bar> \<le> 7 * n"
    by (rule reanchored_anchor [OF assms(1) n(1,3) assms(2,3), of c])
  have "week_at z (reanchored_cycle z now c n) t = week_ref n d (localday z t)"
    unfolding d(1) using week_at_ref [OF assms(1), of "\<lparr>c_Weeks = n, c_Anchor = fmt_date d\<rparr>" d t] d(2,4) n assms(4) by simp
  then have w: "week_at z (reanchored_cycle z now c n) t
      = (week_no (localday z t) - week_no (localday z now) + week_at z c now mod n) mod n"
    by (simp add: week_ref_def d(3) algebra_simps)
  show ?thesis
  proof (cases "c_Weeks c = 1")
    case True
    then show ?thesis by (simp add: week_at_def)
  next
    case False
    then have two: "c_Weeks c = 2" "n = 4" and a: "parse_date (c_Anchor c) = Some a"
      "\<bar>localday z now - a\<bar> \<le> 100000" "\<bar>localday z t - a\<bar> \<le> 100000" using assms(5) by (auto simp: n_def)
    have one: "1 < c_Weeks c" by (simp only: two(1))
    have now: "week_at z c now = (week_no (localday z now) - week_no a) mod 2"
      by (simp only: week_at_ref [OF assms(1) one a(1,2)] week_ref_def two(1))
    have old: "week_at z c t = (week_no (localday z t) - week_no a) mod 2"
      by (simp only: week_at_ref [OF assms(1) one a(1,3)] week_ref_def two(1))
    have "week_at z (reanchored_cycle z now c n) t mod 2 = week_at z c t" unfolding w unfolding two(2) now old by (rule fortnights_in_four)
    then show ?thesis by (simp only: n_def two(1))
  qed
qed

section \<open>Rosters in order\<close>

text \<open>The schema's key on a slot, the checks of the forms, the length of the cycle.\<close>

definition cell_ok :: "string \<Rightarrow> int \<Rightarrow> tables \<Rightarrow> weekly_rule \<Rightarrow> bool" where
  "cell_ok owner weeks tb r \<longleftrightarrow> 0 \<le> r_Week r \<and> r_Week r < weeks \<and> 0 \<le> r_Weekday r \<and> r_Weekday r \<le> 6
     \<and> (if r_Empty r then r_VehicleID r = 0
        else 0 < r_VehicleID r \<and> r_VehicleID r < 2 ^ 63 \<and> owns_vehicle owner (r_VehicleID r) tb)"

definition roster_ok :: "permit \<Rightarrow> tables \<Rightarrow> bool" where
  "roster_ok p tb \<longleftrightarrow> distinct (map p_ID (tb_Permits tb)) \<and> p_CycleWeeks p \<le> max_cycle_weeks
     \<and> (1 < p_CycleWeeks p \<longrightarrow> parse_date (p_CycleAnchor p) \<noteq> None)
     \<and> one_per_slot (p_ID p) tb
     \<and> list_all (cell_ok (p_Owner p) (c_Weeks (permit_cycle p)) tb) (rules_on (p_ID p) tb)"

text \<open>The row of a permit.\<close>

definition permit_row :: "int \<Rightarrow> tables \<Rightarrow> permit option" where
  "permit_row pid tb = find (\<lambda>p. p_ID p = pid) (tb_Permits tb)"

lemma permit_row_set_cycle:
  "permit_row pid (set_cycle pid n a tb) = map_option (recycled n a) (permit_row pid tb)"
proof -
  have "find (\<lambda>p. p_ID p = pid) (map (\<lambda>p. if p_ID p = pid then recycled n a p else p) ps)
      = map_option (recycled n a) (find (\<lambda>p. p_ID p = pid) ps)" for ps
    by (induction ps) (auto simp: recycled_def)
  moreover have "tb_Permits (set_cycle pid n a tb) = map (\<lambda>p. if p_ID p = pid then recycled n a p else p) (tb_Permits tb)"
    by (simp add: set_cycle_def recycled_def)
  ultimately show ?thesis by (simp add: permit_row_def)
qed

lemma for_permit_Card:
  assumes "for_permit dk v w h = (Card p' nt u, w')"
  obtains user owner prim p where "accountForWrite v w = Some (user, owner, prim)" "ownedPermit dk owner w = Some p"
    "h user owner p = (Card p' nt u, w')"
  using assms by (auto simp: for_permit_def split: option.splits prod.splits)

lemma for_permit_eq:
  assumes "accountForWrite v w = Some (user, owner, prim)" and "ownedPermit dk owner w = Some p"
  shows "for_permit dk v w h = h user owner p"
  using assms by (simp add: for_permit_def)

lemma owned_row:
  assumes "ownedPermit dk owner w = Some p"
  shows "permit_row (p_ID p) (tables_of w) = Some p" "p_Owner p = owner"
  using ownedPermitD [OF assms] by (simp_all add: permit_row_def)

lemma cycle_weeks_tx:
  assumes "ownedPermit dk owner w = Some p" and "distinct (map p_ID (tb_Permits (tables_of w)))"
  shows "cycleWeeksTx owner (p_ID p) (tables_of w) = Some (c_Weeks (permit_cycle p))"
proof -
  have "find (\<lambda>q. p_ID q = p_ID p \<and> p_Owner q = owner) ps = Some p"
    if "p \<in> set ps" "p_Owner p = owner" "distinct (map p_ID ps)" for ps
    using that by (induction ps) (auto simp: image_iff)
  then have "permit_weeks owner (p_ID p) (tables_of w) = Some (p_CycleWeeks p)"
    using ownedPermitD(1,2) [OF assms(1)] assms(2) by (simp add: permit_weeks_def)
  then show ?thesis by (simp add: cycleWeeksTx_def permit_cycle_def Let_def)
qed

lemma addCycleWeek_Card:
  assumes "accountForWrite v w = Some (user, owner, prim)" and "ownedPermit dk owner w = Some q"
    and "addCycleWeek dk v w = (Card p' nt u, w')"
    and "c = permit_cycle q" and "to = fst (next_cycle_weeks (c_Weeks c))"
    and "anchor = c_Anchor (reanchored_cycle (dk_Zone dk q) (vt_Now v) c to)"
  obtains n tb where "GrowCycle owner (p_ID q) anchor to (tables_of w) = Inr (n, tb)" and "p' = recycled n anchor q"
    and "w' = log_change dk owner user ''cycle.add'' (page_permit_label q) (weeksLabel (c_Weeks c) n) (vt_Now v) (upd_tables tb w)"
proof (cases "stored_cycle v (GrowCycle owner (p_ID q) anchor to (tables_of w))")
  case (Inl e)
  then show ?thesis using assms(3) unfolding addCycleWeek_def for_permit_eq [OF assms(1,2)]
    by (cases e) (simp_all add: Let_def assms(4-6) case_prod_beta split: if_splits)
next
  case (Inr r)
  obtain n tb where r: "r = (n, tb)" by (cases r)
  have "GrowCycle owner (p_ID q) anchor to (tables_of w) = Inr (n, tb)"
    using Inr r by (simp add: stored_cycle_def split: if_splits)
  moreover have "p' = recycled n anchor q
     \<and> w' = log_change dk owner user ''cycle.add'' (page_permit_label q) (weeksLabel (c_Weeks c) n) (vt_Now v) (upd_tables tb w)"
    using assms(3) Inr r unfolding addCycleWeek_def for_permit_eq [OF assms(1,2)]
    by (simp add: Let_def assms(4-6) case_prod_beta split: if_splits)
  ultimately show ?thesis using that by blast
qed

text \<open>C32: Adding weeks to a roster of one week or a fortnight changes nothing: at every instant, before and after,
  the permit's schedule resolves as it did, whatever is booked, until one of the new weeks is edited; and
  no write to the council is asked for.
\<close>

theorem an_added_week_changes_nothing:
  assumes "addCycleWeek dk v w = (Card p' nt u, w')" and "permit_row (p_ID p') (tables_of w) = Some p"
    and "roster_ok p (tables_of w)" and "z = dk_Zone dk p" and "civil_zone z"
    and "0 \<le> localday z (vt_Now v)" and "localday z (vt_Now v) \<le> 2900000" and "\<bar>localday z t - localday z (vt_Now v)\<bar> \<le> 90000"
    and "c_Weeks (permit_cycle p) = 1 \<or> c_Weeks (permit_cycle p) = 2 \<and> parse_date (p_CycleAnchor p) = Some a
           \<and> \<bar>localday z (vt_Now v) - a\<bar> \<le> 100000 \<and> \<bar>localday z t - a\<bar> \<le> 100000"
  shows "permit_row (p_ID p) (tables_of w') = Some p' \<and> p_CycleWeeks p' = 2 * c_Weeks (permit_cycle p)
    \<and> resolve z t (permit_cycle p') (ListRules (p_ID p) (tables_of w')) ovs
        = resolve z t (permit_cycle p) (ListRules (p_ID p) (tables_of w)) ovs
    \<and> si_Kicks w' = si_Kicks w"
proof -
  obtain user owner prim q where h: "accountForWrite v w = Some (user, owner, prim)" "ownedPermit dk owner w = Some q"
    by (rule for_permit_Card [OF assms(1) [unfolded addCycleWeek_def]])
  define c where "c = permit_cycle q"
  define to where "to = fst (next_cycle_weeks (c_Weeks c))"
  define anchor where "anchor = c_Anchor (reanchored_cycle (dk_Zone dk q) (vt_Now v) c to)"
  obtain n tb where g: "GrowCycle owner (p_ID q) anchor to (tables_of w) = Inr (n, tb)" and p': "p' = recycled n anchor q"
    and w': "w' = log_change dk owner user ''cycle.add'' (page_permit_label q) (weeksLabel (c_Weeks c) n) (vt_Now v) (upd_tables tb w)"
    by (rule addCycleWeek_Card [OF h assms(1) c_def to_def anchor_def])
  have q: "q = p" using assms(2) owned_row(1) [OF h(2)] p' by (simp add: recycled_def)
  have ids: "distinct (map p_ID (tb_Permits (tables_of w)))" and one: "one_per_slot (p_ID p) (tables_of w)"
    and cells: "list_all (cell_ok (p_Owner p) (c_Weeks c) (tables_of w)) (rules_on (p_ID p) (tables_of w))"
    using assms(3) by (auto simp: roster_ok_def c_def q)
  have tx: "cycleWeeksTx owner (p_ID p) (tables_of w) = Some (c_Weeks c)" using cycle_weeks_tx [OF h(2) ids] by (simp add: c_def q)
  have weeks: "c_Weeks c = 1 \<or> c_Weeks c = 2" using assms(9) by (auto simp: c_def q)
  then have to: "to = 2 * c_Weeks c" by (auto simp: to_def next_cycle_weeks_def max_cycle_weeks_def)
  obtain tb1 where grow: "grow_weeks (p_ID p) (c_Weeks c) [c_Weeks c..to - 1] (tables_of w) = Inr tb1"
    and tb: "n = to" "tb = set_cycle (p_ID p) to anchor tb1"
    using g tx q by (auto simp: GrowCycle_def split: if_splits sum.splits)
  have ad: "adds (p_ID p) {(k, wd, vid, e) |k wd vid e. k \<in> {c_Weeks c..to - 1} \<and> (k - c_Weeks c, wd, vid, e) \<in> plan (p_ID p) (tables_of w)}
      (tables_of w) tb1"
    using grow_adds [OF grow] to by (simp add: set_upto)
  have "permit_row (p_ID p) tb1 = Some p" using ad owned_row(1) [OF h(2)] q by (simp add: permit_row_def adds_def)
  then have perm: "permit_row (p_ID p) tb = Some p'" using p' q tb by (simp add: permit_row_set_cycle)
  have cyc: "permit_cycle p' = reanchored_cycle z (vt_Now v) c to"
    using to weeks p' tb(1) assms(4) q by (auto simp: permit_cycle_def recycled_def anchor_def reanchored_cycle_def Let_def)
  have wk: "week_at z (permit_cycle p') t mod c_Weeks c = week_at z c t"
    unfolding cyc to by (rule grown_week [OF assms(5-8)]) (use assms(9) in \<open>auto simp: c_def q permit_cycle_def Let_def\<close>)
  have range: "0 \<le> week_at z (permit_cycle p') t" "week_at z (permit_cycle p') t < to"
    using week_at_range [of z "permit_cycle p'" t] weeks to cyc by (auto simp: reanchored_cycle_def Let_def split: if_splits)
  have old: "0 \<le> wk \<and> wk < c_Weeks c" if "(wk, wd, vid, e) \<in> plan (p_ID p) (tables_of w)" for wk wd vid e
    using that cells by (auto simp: plan_def cell_def list_all_iff cell_ok_def)
  have "(week_at z (permit_cycle p') t, weekday z t, vid, e) \<in> plan (p_ID p) tb
      \<longleftrightarrow> (week_at z c t, weekday z t, vid, e) \<in> plan (p_ID p) (tables_of w)" for vid e
  proof (cases "week_at z (permit_cycle p') t < c_Weeks c")
    case True
    then show ?thesis using wk range(1) ad tb(2) by (auto simp: adds_def)
  next
    case False
    then have "week_at z (permit_cycle p') t - c_Weeks c = week_at z c t"
      using wk range to mod_pos_pos_trivial [of "week_at z (permit_cycle p') t - c_Weeks c" "c_Weeks c"] by simp
    then show ?thesis using False range(2) ad tb(2) old [of "week_at z (permit_cycle p') t"] by (auto simp: adds_def)
  qed
  then have "resolve z t (permit_cycle p') (ListRules (p_ID p) tb) ovs = resolve z t c (ListRules (p_ID p) (tables_of w)) ovs"
    by (intro resolve_by_plan) (use ad one tb in \<open>auto simp: adds_def\<close>)
  then show ?thesis using w' perm p' to tb q by (simp add: c_def recycled_def)
qed

section \<open>An undone removal\<close>

lemma dec_digits_append: "dec_digits acc (s @ t) = (case dec_digits acc s of None \<Rightarrow> None | Some a \<Rightarrow> dec_digits a t)"
  by (induction s arbitrary: acc) (auto split: option.split)

lemma dec_digits_dec: "0 \<le> n \<Longrightarrow> dec_digits 0 (dec n) = Some n"
proof (induction n rule: dec.induct)
  case (1 n)
  show ?case
  proof (cases "n < 10")
    case True
    then show ?thesis using 1(2) by (subst dec.simps) (simp add: digit_val_digit)
  next
    case False
    then have "dec_digits 0 (dec (n div 10)) = Some (n div 10)" using 1 by (simp add: pos_imp_zdiv_nonneg_iff)
    then show ?thesis using False by (subst dec.simps) (simp add: dec_digits_append digit_val_digit)
  qed
qed

lemma digits_only:
  assumes "0 \<le> n" and "\<not> (48 \<le> cp c \<and> cp c \<le> 57)" shows "c \<notin> set (show_int n)"
  using dec_facts [OF assms(1)] assms by (auto simp: show_int_def)

lemma ParseInt10_show_int:
  assumes "0 \<le> n" and "n < 2 ^ 63" shows "ParseInt10 (show_int n) = (n, True)"
proof -
  have d: "show_int n = dec n" "dec n \<noteq> []" using dec_facts [OF assms(1)] assms(1) by (auto simp: show_int_def)
  have "hd (dec n) \<in> set (dec n)" using d(2) by simp
  moreover have "CHR ''-'' \<notin> set (dec n)" "CHR ''+'' \<notin> set (dec n)"
    using digits_only [OF assms(1), of "CHR ''-''"] digits_only [OF assms(1), of "CHR ''+''"] d(1) by (simp_all add: cp_def)
  ultimately have "hd (dec n) \<noteq> CHR ''-''" "hd (dec n) \<noteq> CHR ''+''" by metis+
  then show ?thesis using d assms dec_digits_dec [OF assms(1)] by (simp add: ParseInt10_def Let_def)
qed

text \<open>What may stand in the weeks that are taken off.\<close>

definition travels :: "weekly_rule \<Rightarrow> bool" where
  "travels r \<longleftrightarrow> 1 \<le> r_Week r \<and> r_Week r < max_cycle_weeks \<and> 0 \<le> r_Weekday r \<and> r_Weekday r \<le> 6
     \<and> (if r_Empty r then r_VehicleID r = 0 else 0 < r_VehicleID r \<and> r_VehicleID r < 2 ^ 63)"

definition bare :: "weekly_rule \<Rightarrow> weekly_rule" where
  "bare r = decoded (r_Week r) (r_Weekday r) (r_VehicleID r) (r_Empty r)"

lemma colon_comma: "cp CHR '':'' = 58" "cp CHR '','' = 44" "cp CHR ''|'' = 124" "cp CHR ''-'' = 45" "cp CHR ''e'' = 101"
  by code_simp+

lemma encode_rule_clean:
  assumes "travels r"
  shows "CHR '','' \<notin> set (encode_rule r)" "CHR ''|'' \<notin> set (encode_rule r)" "CHR '':'' \<in> set (encode_rule r)"
proof -
  have n: "0 \<le> r_Week r" "0 \<le> r_Weekday r" "\<not> r_Empty r \<longrightarrow> 0 \<le> r_VehicleID r" using assms by (auto simp: travels_def)
  have "c \<notin> set (encode_rule r)" if "c = CHR '','' \<or> c = CHR ''|''" for c
    using that digits_only [OF n(1), of c] digits_only [OF n(2), of c] n(3) digits_only [of "r_VehicleID r" c]
    by (auto simp: encode_rule_def colon_comma)
  then show "CHR '','' \<notin> set (encode_rule r)" "CHR ''|'' \<notin> set (encode_rule r)" by auto
  show "CHR '':'' \<in> set (encode_rule r)" by (simp add: encode_rule_def)
qed

lemma decode_encode_rule:
  assumes "travels r" shows "decode_part (encode_rule r) = Some (bare r)"
proof -
  have n: "0 \<le> r_Week r" "r_Week r < 2 ^ 63" "0 \<le> r_Weekday r" "r_Weekday r < 2 ^ 63"
    using assms by (auto simp: travels_def max_cycle_weeks_def)
  have v: "0 \<le> r_VehicleID r" "r_VehicleID r < 2 ^ 63" "\<not> r_Empty r \<longrightarrow> 0 < r_VehicleID r"
    using assms by (auto simp: travels_def split: if_splits)
  have clean: "CHR '':'' \<notin> set (show_int i)" if "0 \<le> i" for i
    using digits_only [OF that, of "CHR '':''"] by (simp add: colon_comma)
  have last: "CHR '':'' \<notin> set (if r_Empty r then ''e'' else show_int (r_VehicleID r))" using clean [OF v(1)] by simp
  have split: "split_on (CHR '':'') (encode_rule r)
      = [show_int (r_Week r), show_int (r_Weekday r), if r_Empty r then ''e'' else show_int (r_VehicleID r)]"
    using split_on_cons [OF clean [OF n(1)]] split_on_cons [OF clean [OF n(3)]] split_on_clean [OF last]
    by (simp add: encode_rule_def)
  have "show_int (r_VehicleID r) \<noteq> ''e''"
    using digits_only [OF v(1), of "CHR ''e''"] by (auto simp: colon_comma)
  moreover have "1 \<le> r_Week r" "r_Week r < max_cycle_weeks" "r_Weekday r \<le> 6" "r_Empty r \<Longrightarrow> r_VehicleID r = 0"
    using assms by (auto simp: travels_def)
  ultimately show ?thesis
    using v n ParseInt10_show_int [OF n(1,2)] ParseInt10_show_int [OF n(3,4)] ParseInt10_show_int [OF v(1,2)]
    by (cases "r_Empty r") (simp_all add: decode_part_def split Let_def Atoi_def bare_def case_prod_beta)
qed

lemma decode_encode_parts:
  assumes "\<forall>r \<in> set rs. travels r" and "distinct (map rule_slot rs)" and "set seen \<inter> rule_slot ` set rs = {}"
  shows "decode_parts seen (map encode_rule rs) = Some (map bare rs)"
  using assms
proof (induction rs arbitrary: seen)
  case (Cons r rs)
  have "decode_parts (rule_slot r # seen) (map encode_rule rs) = Some (map bare rs)"
    by (rule Cons.IH) (use Cons.prems in auto)
  then show ?case using Cons.prems by (auto simp: decode_encode_rule bare_def decoded_def rule_slot_def)
qed simp

lemma split_join:
  assumes "xs \<noteq> []" and "\<forall>x \<in> set xs. c \<notin> set x"
  shows "split_on c (join_with [c] xs) = xs"
  using assms
proof (induction xs rule: induct_list012)
  case (3 x y zs)
  have "join_with [c] (x # y # zs) = x @ c # join_with [c] (y # zs)" by (simp add: join_with_def)
  then show ?case using 3 split_on_cons [of c x] by simp
qed (simp_all add: join_with_def split_on_clean)

lemma undo_days_round_trip:
  assumes "\<forall>r \<in> set rs. travels r" and "distinct (map rule_slot rs)"
  shows "decodeWeekRules (encodeWeekRules rs) = Some (map bare rs)"
proof (cases rs)
  case (Cons r rs')
  let ?s = "join_with '','' (map encode_rule rs)"
  have "split_on (CHR '','') ?s = map encode_rule rs"
    by (rule split_join) (use assms(1) encode_rule_clean Cons in auto)
  moreover have "CHR '':'' \<in> set ?s" using encode_rule_clean(3) [of r] assms(1) Cons by (simp add: join_with_def)
  then have "?s \<noteq> ''-''" by auto
  ultimately show ?thesis using Cons decode_encode_parts [OF assms, of "[]"] by (simp add: decodeWeekRules_def encodeWeekRules_def)
qed (simp add: decodeWeekRules_def encodeWeekRules_def)

lemma undo_round_trip:
  assumes "\<forall>r \<in> set rs. travels r" and "distinct (map rule_slot rs)" and "2 \<le> weeks" and "weeks \<le> max_cycle_weeks"
    and "parse_date anchor \<noteq> None"
  shows "read_undo (undo_payload weeks rs anchor) = Some (weeks, map bare rs, anchor)"
proof -
  have w: "0 \<le> weeks" "weeks < 2 ^ 63" using assms(3,4) by (simp_all add: max_cycle_weeks_def)
  have a: "CHR ''|'' \<notin> set (show_int weeks)" using digits_only [OF w(1), of "CHR ''|''"] by (simp add: colon_comma)
  have b: "CHR ''|'' \<notin> set (encodeWeekRules rs)"
    using assms(1) encode_rule_clean(2) by (cases rs) (auto simp: encodeWeekRules_def join_with_def)
  have "undo_payload weeks rs anchor = show_int weeks @ CHR ''|'' # encodeWeekRules rs @ CHR ''|'' # anchor"
    by (simp add: undo_payload_def)
  then show ?thesis
    using cut_at_append [OF a] cut_at_append [OF b] assms undo_days_round_trip [OF assms(1,2)] ParseInt10_show_int [OF w]
    by (simp add: read_undo_def Atoi_def)
qed

lemma slots_of_plan: "rule_slot ` set (rules_on pid tb) = (\<lambda>(wk, wd, _, _). (wk, wd)) ` plan pid tb"
  by (force simp: plan_def cell_def rule_slot_def image_iff)

lemma restore_adds:
  assumes "has_permit pid tb" and "distinct (map rule_slot rs)" and "rule_slot ` set rs \<inter> rule_slot ` set (rules_on pid tb) = {}"
    and "\<And>r. r \<in> set rs \<Longrightarrow> weeks \<le> r_Week r \<and> r_Week r < to
          \<and> (if r_Empty r then r_VehicleID r = 0 else has_vehicle (r_VehicleID r) tb)"
  shows "\<exists>tb'. restore_rules pid weeks to rs tb = Inr tb' \<and> adds pid (cell ` set rs) tb tb'"
  using assms
proof (induction rs arbitrary: tb)
  case (Cons r rs)
  have r: "weeks \<le> r_Week r" "r_Week r < to" "nullableVehicle r = r_VehicleID r"
    "r_VehicleID r = 0 \<or> has_vehicle (r_VehicleID r) tb"
    using Cons.prems(4) [of r] by (auto simp: nullableVehicle_def split: if_splits)
  have "rule_slot r \<notin> rule_slot ` set (rules_on pid tb)" using Cons.prems(3) by auto
  then have free: "\<not> list_ex (same_slot pid (r_Week r) (r_Weekday r)) (tb_Rules tb)"
    by (auto simp: list_ex_iff same_slot_def rule_slot_def rules_on_def image_iff) metis
  then obtain tb1 where i: "insert_rule pid (r_Week r) (r_Weekday r) (r_VehicleID r) (r_Empty r) tb = Inr tb1"
    using r(4) Cons.prems(1) by (auto simp: insert_rule_def)
  have ad: "adds pid {cell r} tb tb1" using adds_insert [OF i] by (simp add: cell_def)
  have up: "upsert_rule pid (r_Week r) (r_Weekday r) (nullableVehicle r) (r_Empty r) tb = Inr tb1"
    using free i r(3) by (simp add: upsert_rule_def)
  have "\<exists>tb'. restore_rules pid weeks to rs tb1 = Inr tb' \<and> adds pid (cell ` set rs) tb1 tb'"
  proof (rule Cons.IH)
    show "has_permit pid tb1" using Cons.prems(1) ad by (simp add: has_permit_def adds_def)
    have "rule_slot ` set (rules_on pid tb1) = insert (rule_slot r) (rule_slot ` set (rules_on pid tb))"
      using ad unfolding slots_of_plan adds_def by (auto simp: cell_def rule_slot_def)
    then show "rule_slot ` set rs \<inter> rule_slot ` set (rules_on pid tb1) = {}" using Cons.prems(2,3) by auto
    show "weeks \<le> r_Week x \<and> r_Week x < to \<and> (if r_Empty x then r_VehicleID x = 0 else has_vehicle (r_VehicleID x) tb1)"
      if "x \<in> set rs" for x
      using Cons.prems(4) [of x] that ad by (auto simp: has_vehicle_def adds_def)
  qed (use Cons.prems(2) in simp)
  then obtain tb' where "restore_rules pid weeks to rs tb1 = Inr tb'" "adds pid (cell ` set rs) tb1 tb'" by blast
  then show ?case using adds_trans [OF ad] r(1,2) up by auto
qed (simp add: adds_refl)

lemma days_accepted:
  assumes "dk_VehicleChecked dk"
    and "\<forall>r \<in> set rs. weeks \<le> r_Week r \<and> r_Week r < to \<and> (\<not> r_Empty r \<longrightarrow> owns_vehicle owner (r_VehicleID r) (tables_of w))"
  shows "days_refused dk owner weeks to w rs = None"
  using assms by (induction rs) (auto simp: rego_refused_def ownsVehicle_def)

lemma removeCycleWeek_Card:
  assumes "accountForWrite v w = Some (user, owner, prim)" and "ownedPermit dk owner w = Some q"
    and "removeCycleWeek dk v w = (Card p' nt u, w')"
    and "c = permit_cycle q" and "to = fst (prev_cycle_weeks (c_Weeks c))"
    and "next = reanchored_cycle (dk_Zone dk q) (vt_Now v) c to"
  obtains removed tb where "ShrinkCycle owner (p_ID q) (c_Anchor next) to (tables_of w) = Inr (removed, tb)"
    and "p' = recycled to (c_Anchor next) q" and "u = undo_payload (c_Weeks c) removed (p_CycleAnchor q)"
    and "tables_of w' = tb" and "1 < c_Weeks c"
proof (cases "stored_cycle v (ShrinkCycle owner (p_ID q) (c_Anchor next) to (tables_of w))")
  case (Inl e)
  then show ?thesis using assms(3) unfolding removeCycleWeek_def for_permit_eq [OF assms(1,2)]
    by (cases e) (simp_all add: Let_def assms(4-6) case_prod_beta split: if_splits)
next
  case (Inr r)
  obtain removed tb where r: "r = (removed, tb)" by (cases r)
  have "ShrinkCycle owner (p_ID q) (c_Anchor next) to (tables_of w) = Inr (removed, tb)"
    using Inr r by (simp add: stored_cycle_def split: if_splits)
  moreover have "p' = recycled to (c_Anchor next) q \<and> u = undo_payload (c_Weeks c) removed (p_CycleAnchor q)
     \<and> tables_of w' = tb \<and> 1 < c_Weeks c"
    using assms(3) Inr r unfolding removeCycleWeek_def for_permit_eq [OF assms(1,2)]
    by (auto simp: Let_def assms(4-6) case_prod_beta split: if_splits)
  ultimately show ?thesis using that by blast
qed

lemma shrunk_plan:
  assumes "ShrinkCycle owner pid anchor to tb = Inr (removed, tb')"
  shows "set removed = {r \<in> set (rules_on pid tb). to \<le> r_Week r}"
    and "plan pid tb' = {x \<in> plan pid tb. fst x < to}"
    and "one_per_slot pid tb \<Longrightarrow> one_per_slot pid tb' \<and> distinct (map rule_slot removed)"
    and "tb_Vehicles tb' = tb_Vehicles tb"
    and "permit_row pid tb' = map_option (recycled to (if to = 1 then [] else anchor)) (permit_row pid tb)"
    and "map p_ID (tb_Permits tb') = map p_ID (tb_Permits tb)"
proof -
  have r: "removed = sort_key r_Week (sort_key r_Weekday (filter (\<lambda>r. to \<le> r_Week r) (rules_on pid tb)))"
    and t: "tb' = set_cycle pid to (if to = 1 then [] else anchor) (drop_rules (\<lambda>r. r_PermitID r = pid \<and> to \<le> r_Week r) tb)"
    using assms by (auto simp: ShrinkCycle_def split: option.splits if_splits)
  have on: "rules_on pid tb' = filter (\<lambda>r. r_Week r < to) (rules_on pid tb)"
    unfolding t set_cycle_plan(3) by (auto simp: drop_rules_def rules_on_def intro: filter_cong)
  show "set removed = {r \<in> set (rules_on pid tb). to \<le> r_Week r}" by (auto simp: r)
  show "plan pid tb' = {x \<in> plan pid tb. fst x < to}" by (auto simp: plan_def on cell_def)
  show "one_per_slot pid tb \<Longrightarrow> one_per_slot pid tb' \<and> distinct (map rule_slot removed)"
    by (auto simp: one_per_slot_def on r distinct_map inj_on_def)
  show "tb_Vehicles tb' = tb_Vehicles tb" "map p_ID (tb_Permits tb') = map p_ID (tb_Permits tb)"
    by (auto simp: t set_cycle_def drop_rules_def)
  show "permit_row pid tb' = map_option (recycled to (if to = 1 then [] else anchor)) (permit_row pid tb)"
    by (simp add: t permit_row_set_cycle) (simp add: permit_row_def drop_rules_def)
qed

lemma removed_days_travel:
  assumes "ShrinkCycle owner pid anchor to tb = Inr (removed, tb')" and "one_per_slot pid tb"
    and "\<forall>r \<in> set (rules_on pid tb). cell_ok who weeks tb r" and "1 \<le> to" and "weeks \<le> max_cycle_weeks"
  shows "\<forall>r \<in> set removed. travels r" and "distinct (map rule_slot removed)"
    and "\<And>r. r \<in> set (map bare removed) \<Longrightarrow> to \<le> r_Week r \<and> r_Week r < weeks
      \<and> (if r_Empty r then r_VehicleID r = 0 else has_vehicle (r_VehicleID r) tb' \<and> owns_vehicle who (r_VehicleID r) tb')"
proof -
  note shr = shrunk_plan [OF assms(1)]
  have ok: "cell_ok who weeks tb r" "to \<le> r_Week r" if "r \<in> set removed" for r using that assms(3) shr(1) by auto
  show "\<forall>r \<in> set removed. travels r"
    using ok assms(4,5) unfolding travels_def cell_ok_def by (fastforce split: if_splits)
  show "distinct (map rule_slot removed)" using shr(3) [OF assms(2)] by simp
  show "to \<le> r_Week r \<and> r_Week r < weeks
      \<and> (if r_Empty r then r_VehicleID r = 0 else has_vehicle (r_VehicleID r) tb' \<and> owns_vehicle who (r_VehicleID r) tb')"
    if r: "r \<in> set (map bare removed)" for r
  proof -
    obtain x where "x \<in> set removed" "r = bare x" using r by auto
    then show ?thesis using ok [of x] shr(4)
      by (auto simp: cell_ok_def bare_def decoded_def owns_vehicle_def has_vehicle_def list_ex_iff split: if_splits)
  qed
qed

lemma shrink_then_restore:
  assumes "ShrinkCycle owner pid anchor to tb = Inr (removed, tb')" and "one_per_slot pid tb" and "has_permit pid tb'"
    and "\<forall>r \<in> set (rules_on pid tb). cell_ok who weeks tb r" and "1 \<le> to" and "weeks \<le> max_cycle_weeks"
  shows "\<exists>tb2. restore_rules pid to weeks (map bare removed) tb' = Inr tb2
    \<and> adds pid (cell ` set (map bare removed)) tb' tb2 \<and> plan pid tb2 = plan pid tb"
proof -
  note shr = shrunk_plan [OF assms(1)]
  note days = removed_days_travel [OF assms(1,2,4,5,6)]
  have low: "r_Week x < to" if "x \<in> set (rules_on pid tb')" for x
  proof -
    have "cell x \<in> plan pid tb'" using that by (simp add: plan_def)
    then show ?thesis by (simp add: shr(2) cell_def)
  qed
  have gone: "rule_slot ` set (map bare removed) \<inter> rule_slot ` set (rules_on pid tb') = {}"
    using shr(1) by (auto simp: rule_slot_def bare_def decoded_def dest: low)
  have "rule_slot \<circ> bare = rule_slot" by (simp add: fun_eq_iff rule_slot_def bare_def decoded_def)
  then have dist: "distinct (map rule_slot (map bare removed))" using days(2) by simp
  have "to \<le> r_Week r \<and> r_Week r < weeks \<and> (if r_Empty r then r_VehicleID r = 0 else has_vehicle (r_VehicleID r) tb')"
    if "r \<in> set (map bare removed)" for r using days(3) [OF that] by (auto split: if_splits)
  then obtain tb2 where tb2: "restore_rules pid to weeks (map bare removed) tb' = Inr tb2"
    and ad: "adds pid (cell ` set (map bare removed)) tb' tb2"
    using restore_adds [OF assms(3) dist gone] by blast
  have returned: "cell ` set (map bare removed) = {x \<in> plan pid tb. \<not> fst x < to}"
    using shr(1) by (force simp: plan_def cell_def bare_def decoded_def image_iff)
  have "plan pid tb2 = plan pid tb" using ad unfolding adds_def shr(2) returned by auto
  then show ?thesis using tb2 ad by blast
qed

text \<open>C31: Undoing the removal of weeks puts the roster back exactly, however much later the undo is pressed: the
  permit's row is what it was, and at every instant the schedule resolves as it did, although the removed
  days travelled through the browser as text.
\<close>

theorem an_undone_removal_changes_nothing:
  assumes "removeCycleWeek dk v w = (Card p1 nt undo, w1)" and "permit_row (p_ID p1) (tables_of w) = Some p"
    and "roster_ok p (tables_of w)"
    and "form v2 ''undo'' = undo" and "accountForWrite v2 w1 = Some (user2, p_Owner p, prim2)"
    and "dk_ID dk2 = dk_ID dk" and "dk_PermitRead dk2" and "dk_VehicleChecked dk2" and "vt_Stored v2"
  shows "\<exists>nt2 w2. restoreCycleWeek dk2 v2 w1 = (Card p nt2 [], w2) \<and> permit_row (p_ID p) (tables_of w2) = Some p
    \<and> (\<forall>z t ovs. resolve z t (permit_cycle p) (ListRules (p_ID p) (tables_of w2)) ovs
                  = resolve z t (permit_cycle p) (ListRules (p_ID p) (tables_of w)) ovs)"
proof -
  obtain user owner prim q where h: "accountForWrite v w = Some (user, owner, prim)" "ownedPermit dk owner w = Some q"
    by (rule for_permit_Card [OF assms(1) [unfolded removeCycleWeek_def]])
  define c where "c = permit_cycle q"
  define to where "to = fst (prev_cycle_weeks (c_Weeks c))"
  define nxt where "nxt = reanchored_cycle (dk_Zone dk q) (vt_Now v) c to"
  obtain removed tb where s: "ShrinkCycle owner (p_ID q) (c_Anchor nxt) to (tables_of w) = Inr (removed, tb)"
    "p1 = recycled to (c_Anchor nxt) q" "undo = undo_payload (c_Weeks c) removed (p_CycleAnchor q)" "tables_of w1 = tb" "1 < c_Weeks c"
    by (rule removeCycleWeek_Card [OF h assms(1) c_def to_def nxt_def])
  have q: "q = p" and own: "p_Owner p = owner" using assms(2) owned_row [OF h(2)] s(2) by (simp_all add: recycled_def)
  note shr = shrunk_plan [OF s(1) [unfolded q]]
  have ok: "distinct (map p_ID (tb_Permits (tables_of w)))" "p_CycleWeeks p = c_Weeks c" "c_Weeks c \<le> max_cycle_weeks"
    "parse_date (p_CycleAnchor p) \<noteq> None" "one_per_slot (p_ID p) (tables_of w)"
    and cells: "\<forall>r \<in> set (rules_on (p_ID p) (tables_of w)). cell_ok owner (c_Weeks c) (tables_of w) r"
    using assms(3) s(5) own by (auto simp: roster_ok_def c_def q list_all_iff permit_cycle_def Let_def split: if_splits)
  have to: "1 \<le> to" "to < c_Weeks c" using s(5) by (auto simp: to_def prev_cycle_weeks_def)
  have anch: "c_Anchor nxt = (if to = 1 then [] else c_Anchor nxt)" by (simp add: nxt_def reanchored_cycle_def)
  have row1: "permit_row (p_ID p) tb = Some p1"
    using shr(5) owned_row(1) [OF h(2)] anch s(2) q by simp
  have one: "1 \<le> to" using to by simp
  note days = removed_days_travel [OF s(1) [unfolded q] ok(5) cells one ok(3)]
  have read: "read_undo undo = Some (c_Weeks c, map bare removed, p_CycleAnchor p)"
    unfolding s(3) q by (rule undo_round_trip [OF days(1,2) _ ok(3,4)]) (use s(5) in simp)
  have ap: "p_CycleAnchor p \<noteq> []" using ok(4) by (auto simp: parse_date_def)
  have ids: "p_ID p = atoi64 (dk_ID dk)"
    using h(2) q by (auto simp: ownedPermit_def find_Some_iff split: option.splits if_splits)
  have p1: "p_ID p1 = p_ID p" "p_Owner p1 = owner" "permit_cycle p1 = \<lparr>c_Weeks = to, c_Anchor = c_Anchor nxt\<rparr>"
    "recycled (c_Weeks c) (p_CycleAnchor p) p1 = p"
    using s(2) q own to ok(2) by (auto simp: recycled_def permit_cycle_def Let_def)
  have own2: "ownedPermit dk2 owner w1 = Some p1"
    using row1 assms(6,7) ids p1(2) s(4) by (simp add: ownedPermit_def permit_row_def)
  have tx: "cycleWeeksTx owner (p_ID p) tb = Some to"
    using cycle_weeks_tx [OF own2] shr(6) ok(1) s(4) p1 by simp
  have has: "has_permit (p_ID p) tb" using row1 by (auto simp: has_permit_def permit_row_def find_Some_iff list_ex_iff p1(1) dest: nth_mem)
  obtain tb2 where tb2: "restore_rules (p_ID p) to (c_Weeks c) (map bare removed) tb = Inr tb2"
    and ad: "adds (p_ID p) (cell ` set (map bare removed)) tb tb2" and whole: "plan (p_ID p) tb2 = plan (p_ID p) (tables_of w)"
    using shrink_then_restore [OF s(1) [unfolded q] ok(5) has cells one ok(3)] by blast
  have restored: "RestoreCycle owner (p_ID p) (map bare removed) (p_CycleAnchor p) (c_Weeks c) tb
      = Inr (c_Weeks c, set_cycle (p_ID p) (c_Weeks c) (p_CycleAnchor p) tb2)"
    using tx to ok(3) tb2 by (simp add: RestoreCycle_def)
  define w2 where "w2 = kick_permit (p_ID p) (log_change dk2 owner user2 ''cycle.restore'' (page_permit_label p1)
     (weeksLabel to (c_Weeks c)) (vt_Now v2) (upd_tables (set_cycle (p_ID p) (c_Weeks c) (p_CycleAnchor p) tb2) w1))"
  have t2: "tables_of w2 = set_cycle (p_ID p) (c_Weeks c) (p_CycleAnchor p) tb2" by (simp add: w2_def)
  have acc: "days_refused dk2 owner to (c_Weeks c) w1 (map bare removed) = None"
    by (rule days_accepted [OF assms(8)]) (use days(3) s(4) in \<open>auto split: if_splits\<close>)
  have "restoreCycleWeek dk2 v2 w1 = (Card p (PutBack to (c_Weeks c)) [], w2)"
    unfolding restoreCycleWeek_def for_permit_eq [OF assms(5) [unfolded own] own2]
    using read assms(4,9) p1 to acc ap restored s(4) by (simp add: Let_def stored_cycle_def w2_def)
  moreover have "permit_row (p_ID p) (tables_of w2) = Some p"
    using row1 ad p1(4) by (simp add: t2 permit_row_set_cycle) (simp add: permit_row_def adds_def)
  moreover have "resolve z t (permit_cycle p) (ListRules (p_ID p) (tables_of w2)) ovs
      = resolve z t (permit_cycle p) (ListRules (p_ID p) (tables_of w)) ovs" for z t ovs
    by (rule resolve_by_plan) (use ad shr(3) ok(5) whole in \<open>simp_all add: t2 adds_def\<close>)
  ultimately show ?thesis by blast
qed

section \<open>A roster to try it on\<close>

definition some_car :: owned_vehicle where
  "some_car = \<lparr>v_ID = 5, v_Registration = ''ABC123'', v_Label = [], v_Email = [], v_Color = [], v_State = [],
     v_NotifyDriver = False, v_Owner = ''ann@b''\<rparr>"

definition a_permit :: permit where
  "a_permit = (new_permit ''ann@b'' ''boroondara'' ''c'' ''t'' ''Front'' 1)\<lparr>p_CycleWeeks := 2, p_CycleAnchor := ''2026-04-05''\<rparr>"

definition a_rule :: "int \<Rightarrow> int \<Rightarrow> int \<Rightarrow> bool \<Rightarrow> weekly_rule" where
  "a_rule week wd vid e = \<lparr>r_ID = week * 7 + wd + 1, r_PermitID = 1, r_Week = week, r_Weekday = wd, r_VehicleID = vid, r_Empty = e\<rparr>"

definition a_household :: server where
  "a_household = new_site\<lparr>si_Estate := new_estate\<lparr>es_Tables := empty_tables\<lparr>tb_Permits := [a_permit], tb_Vehicles := [some_car],
     tb_Rules := [a_rule 0 1 5 False, a_rule 1 1 0 True, a_rule 1 3 5 False], tb_LastRule := 20\<rparr>\<rparr>\<rparr>"

definition a_desk :: desk where
  "a_desk = \<lparr>dk_ID = ''1'', dk_Oid = ''0'', dk_Local = fixed_zone 0, dk_Zone = (\<lambda>_. melbourne), dk_PermitRead = True,
     dk_VehiclesRead = True, dk_VehicleChecked = True, dk_OverridesRead = True, dk_OfferMarked = True, dk_Logged = True,
     dk_Marked = True, dk_CanClear = True, dk_RegionValid = (\<lambda>_. False)\<rparr>"

definition posting :: "(string \<Rightarrow> string) \<Rightarrow> visit" where
  "posting f = anns_visit\<lparr>vt_Request := plain_request\<lparr>rq_Form := f\<rparr>, vt_Now := 1775400000 * second\<rparr>"

lemma same_account: "accountForWrite (posting f) w = accountForWrite (posting g) w"
  by (simp add: accountForWrite_def resolveAccountStrict_def posting_def)

lemma a_household_facts:
  "permit_row 1 (tables_of a_household) = Some a_permit" "roster_ok a_permit (tables_of a_household)"
  "accountForWrite (posting f) a_household = Some (''ann@b'', ''ann@b'', True)"
proof -
  show "permit_row 1 (tables_of a_household) = Some a_permit" "roster_ok a_permit (tables_of a_household)" by code_simp+
  have "accountForWrite (posting (\<lambda>_. [])) a_household = Some (''ann@b'', ''ann@b'', True)" by code_simp
  then show "accountForWrite (posting f) a_household = Some (''ann@b'', ''ann@b'', True)"
    using same_account [of f a_household "\<lambda>_. []"] by simp
qed

lemma an_undone_removal_changes_nothing_witness:
  "case removeCycleWeek a_desk (posting (\<lambda>_. [])) a_household of
     (Card p nt u, w) \<Rightarrow> u = ''2|1:1:e,1:3:5|2026-04-05''
       \<and> (case restoreCycleWeek a_desk (posting (\<lambda>_. u)) w of (Card p2 nt2 u2, w2) \<Rightarrow> p2 = a_permit | _ \<Rightarrow> False)
   | _ \<Rightarrow> False"
proof -
  obtain x w1 where r: "removeCycleWeek a_desk (posting (\<lambda>_. [])) a_household = (x, w1)" by force
  have "case removeCycleWeek a_desk (posting (\<lambda>_. [])) a_household of
     (Card p nt u, w) \<Rightarrow> u = ''2|1:1:e,1:3:5|2026-04-05'' \<and> p_ID p = 1 | _ \<Rightarrow> False"
    and acc: "accountForWrite (posting (\<lambda>_. [])) (snd (removeCycleWeek a_desk (posting (\<lambda>_. [])) a_household))
      = Some (''ann@b'', ''ann@b'', True)"
    by code_simp+
  then obtain p nt u where x: "x = Card p nt u" "u = ''2|1:1:e,1:3:5|2026-04-05''" "p_ID p = 1"
    by (cases x) (simp_all add: r)
  have own: "p_Owner a_permit = ''ann@b''" "p_ID a_permit = 1" by code_simp+
  have acc1: "accountForWrite (posting (\<lambda>_. u)) w1 = Some (''ann@b'', p_Owner a_permit, True)"
    using acc r own same_account [of "\<lambda>_. u" w1 "\<lambda>_. []"] by simp
  have "\<exists>nt2 w2. restoreCycleWeek a_desk (posting (\<lambda>_. u)) w1 = (Card a_permit nt2 [], w2)"
    using an_undone_removal_changes_nothing [OF r [unfolded x(1)] _ a_household_facts(2) _ acc1 refl] a_household_facts(1) x(3)
    by (auto simp: form_def posting_def a_desk_def anns_visit_def)
  then show ?thesis using x r by auto
qed

lemma an_added_week_changes_nothing_witness:
  "case addCycleWeek a_desk (posting (\<lambda>_. [])) a_household of
     (Card p nt u, w) \<Rightarrow> p_CycleWeeks p = 4
       \<and> resolve melbourne (1776400000 * second) (permit_cycle p) (ListRules 1 (tables_of w)) []
         = resolve melbourne (1776400000 * second) (permit_cycle a_permit) (ListRules 1 (tables_of a_household)) []
   | _ \<Rightarrow> False"
proof -
  obtain x w1 where r: "addCycleWeek a_desk (posting (\<lambda>_. [])) a_household = (x, w1)" by force
  have "case addCycleWeek a_desk (posting (\<lambda>_. [])) a_household of (Card p nt u, w) \<Rightarrow> p_ID p = 1 | _ \<Rightarrow> False" by code_simp
  then obtain p nt u where x: "x = Card p nt u" "p_ID p = 1" by (cases x) (simp_all add: r)
  have z: "melbourne = dk_Zone a_desk a_permit" by (simp add: a_desk_def)
  have days: "localday melbourne (vt_Now (posting (\<lambda>_. []))) = 20549" "localday melbourne (1776400000 * second) = 20560"
    by code_simp+
  have cyc: "c_Weeks (permit_cycle a_permit) = 2" "p_ID a_permit = 1" "parse_date (p_CycleAnchor a_permit) = Some 20548" by code_simp+
  note * = an_added_week_changes_nothing [OF r [unfolded x(1)] _ a_household_facts(2) z civil_melbourne, where t = "1776400000 * second" and a = 20548 and ovs = "[]"]
  show ?thesis using * a_household_facts(1) x days cyc r by simp
qed

end
