(* ===== verification/Oneoffs.thy ===== *)
theory Oneoffs
  imports Weeks
begin

text \<open>
  What a one-off booking from the schedule page promises, and where its end is a day late; how long a card
  keeps asking for a plate that does not settle.
\<close>

section \<open>Bookings made in the app\<close>

lemma whole_parts: "whole_seconds t \<le> t" "whole_seconds (k * second) = k * second"
  by (simp_all add: whole_seconds_def second_def)

lemma go_date_whole: "\<exists>k. go_date z (l * second) = k * second"
proof (cases "zoff z (l * second) = 0")
  case False
  let ?m = "z ((l * second - zoff z (l * second)) div second)"
  have "go_date z (l * second) = (l - ?m) * second" using False by (simp add: go_date_def zoff_def algebra_simps)
  then show ?thesis by blast
qed (auto simp: go_date_def)

lemma midnight_whole: "\<exists>k. midnight z d = k * second"
  using go_date_whole [of z "d * 86400"] by (simp add: midnight_def time_simps mult.commute)

lemma parse_local_whole:
  assumes "parse_local z s = Some t" shows "\<exists>k. t = k * second"
proof -
  obtain d h m where "t = go_date z (d * day + h * hour + m * minute)"
    using assms by (auto simp: parse_local_def split: option.splits list.splits prod.splits if_splits)
  moreover have "d * day + h * hour + m * minute = (d * 86400 + h * 3600 + m * 60) * second"
    by (simp add: time_simps algebra_simps)
  ultimately show ?thesis using go_date_whole by metis
qed

lemma window_facts:
  assumes "booking_window dk v p = Inr (s, e)"
  shows "s < e" and "\<exists>k. e = k * second"
proof -
  obtain loc where st: "booking_start dk v p = Inr (s, loc)" and en: "booking_end dk v p s loc = Inr e" and lt: "s < e"
    using assms by (auto simp: booking_window_def split: sum.splits prod.splits if_splits)
  show "s < e" by (rule lt)
  show "\<exists>k. e = k * second"
    using en midnight_whole parse_local_whole
    by (auto simp: booking_end_def Let_def end_of_day_def split: if_splits option.splits)
qed

lemma addOverride_Card:
  assumes "accountForWrite v w = Some (user, owner, prim)" and "addOverride dk v w = (Card p nt u, w')"
  obtains s e vid plate st oid tb where "ownedPermit dk owner w = Some p" and "booking_window dk v p = Inr (s, e)"
    and "booked_car dk v owner w = Inr (vid, plate, st)"
    and "CreateOverrideCapped \<lparr>bk_PermitID = p_ID p, bk_VehicleID = vid, bk_Registration = plate, bk_State = st,
           bk_StartsAt = s, bk_EndsAt = Some e, bk_CreatedBy = user\<rparr> MaxLiveOverridesPerPermit (vt_Now v) (tables_of w) = Inr (oid, tb)"
    and "tables_of w' = tb" and "si_Kicks w' = si_Kicks w @ [p_ID p]"
proof -
  obtain q where own: "ownedPermit dk owner w = Some q"
    by (rule for_permit_Card [OF assms(2) [unfolded addOverride_def]]) (use assms(1) in auto)
  obtain s e where win: "booking_window dk v q = Inr (s, e)"
    using assms(2) unfolding addOverride_def for_permit_eq [OF assms(1) own] by (cases "booking_window dk v q") auto
  have "booked_car dk v owner w \<noteq> Inl (Card p nt u)"
    by (auto simp: booked_car_def Let_def rego_refused_def split: option.split rego_check.splits)
  then obtain vid plate st where car: "booked_car dk v owner w = Inr (vid, plate, st)"
    using assms(2) unfolding addOverride_def for_permit_eq [OF assms(1) own] win by (cases "booked_car dk v owner w") auto
  let ?c = "stored_cycle v (CreateOverrideCapped \<lparr>bk_PermitID = p_ID q, bk_VehicleID = vid, bk_Registration = plate, bk_State = st,
      bk_StartsAt = s, bk_EndsAt = Some e, bk_CreatedBy = user\<rparr> MaxLiveOverridesPerPermit (vt_Now v) (tables_of w))"
  obtain oid tb where c: "?c = Inr (oid, tb)"
    using assms(2) unfolding addOverride_def for_permit_eq [OF assms(1) own] win sum.case prod.case car
    by (cases ?c) (auto split: store_err.splits)
  have "p = q \<and> tables_of w' = tb \<and> si_Kicks w' = si_Kicks w @ [p_ID q]"
    using assms(2) unfolding addOverride_def for_permit_eq [OF assms(1) own] win sum.case prod.case car c by (auto simp: Let_def)
  then show ?thesis using that own win car c by (auto simp: stored_cycle_def split: if_splits)
qed

text \<open>C33: A one-off booking made in the app is the household's own: it stands on a permit of theirs, under the name
  of the person who made it, for a rego they saved or a plate that is one, and on no visitor's link; it
  always ends, after it starts; the permit never holds more than fifty running bookings for it; and the
  scheduler is asked to look at once.
\<close>

theorem a_booking_ends_and_is_the_households:
  assumes "addOverride dk v w = (Card p nt u, w')" and "accountForWrite v w = Some (user, owner, prim)"
  shows "\<exists>b e. tb_Overrides (tables_of w') = tb_Overrides (tables_of w) @ [b]
    \<and> o_PermitID b = p_ID p \<and> owns_permit owner (p_ID p) (tables_of w) \<and> o_CreatedBy b = user
    \<and> o_GuestTokenID b = 0 \<and> \<not> o_Empty b \<and> o_EndsAt b = Some e \<and> o_StartsAt b < e
    \<and> (if o_VehicleID b = 0 then validRego (o_Registration b) else owns_vehicle owner (o_VehicleID b) (tables_of w))
    \<and> live_count (p_ID p) (vt_Now v) (tables_of w') \<le> MaxLiveOverridesPerPermit
    \<and> si_Kicks w' = si_Kicks w @ [p_ID p]"
proof -
  obtain s e vid plate st oid tb where f: "ownedPermit dk owner w = Some p" "booking_window dk v p = Inr (s, e)"
    "booked_car dk v owner w = Inr (vid, plate, st)"
    and c: "CreateOverrideCapped \<lparr>bk_PermitID = p_ID p, bk_VehicleID = vid, bk_Registration = plate, bk_State = st,
           bk_StartsAt = s, bk_EndsAt = Some e, bk_CreatedBy = user\<rparr> MaxLiveOverridesPerPermit (vt_Now v) (tables_of w) = Inr (oid, tb)"
    and t: "tables_of w' = tb" "si_Kicks w' = si_Kicks w @ [p_ID p]"
    by (rule addOverride_Card [OF assms(2,1)])
  let ?b = "booked_row \<lparr>bk_PermitID = p_ID p, bk_VehicleID = vid, bk_Registration = plate, bk_State = st,
           bk_StartsAt = s, bk_EndsAt = Some e, bk_CreatedBy = user\<rparr> 0 False (vt_Now v) (tables_of w)"
  have few: "live_count (p_ID p) (vt_Now v) (tables_of w) < MaxLiveOverridesPerPermit"
    and tb: "tb_Overrides tb = tb_Overrides (tables_of w) @ [?b]"
    using c by (auto simp: CreateOverrideCapped_def createOverrideCapped_def insert_override_def split: if_splits)
  have ends: "o_EndsAt ?b = Some e" "o_StartsAt ?b < e"
    using window_facts [OF f(2)] whole_parts(1) [of s] whole_parts(2) by (auto simp: booked_row_def endsAtSQL_def)
  have car: "if vid = 0 then validRego plate else owns_vehicle owner vid (tables_of w)"
    using f(3) by (auto simp: booked_car_def Let_def rego_refused_def ownsVehicle_def split: if_splits option.splits rego_check.splits)
  have "live_count (p_ID p) (vt_Now v) tb \<le> Suc (live_count (p_ID p) (vt_Now v) (tables_of w))"
    by (simp add: live_count_def running_on_def tb)
  then show ?thesis using few ends car ownedPermitD(3) [OF f(1)] t tb by (intro exI [of _ ?b] exI [of _ e]) (auto simp: booked_row_def)
qed

definition booking_form :: "string \<Rightarrow> string" where
  "booking_form name = (if name = ''plate'' then ''abc 123'' else if name = ''ends'' then ''nextday'' else [])"

lemma a_booking_ends_and_is_the_households_witness:
  "case addOverride a_desk (posting booking_form) a_household of
     (Card p nt u, w) \<Rightarrow> map (\<lambda>b. (o_Registration b, o_CreatedBy b)) (tb_Overrides (tables_of w)) = [(''ABC123'', ''ann@b'')]
       \<and> si_Kicks w = [1] | _ \<Rightarrow> False"
proof -
  obtain x w1 where r: "addOverride a_desk (posting booking_form) a_household = (x, w1)" by force
  have "case addOverride a_desk (posting booking_form) a_household of
      (Card p nt u, w) \<Rightarrow> map (\<lambda>b. (o_Registration b, o_CreatedBy b)) (tb_Overrides (tables_of w)) = [(''ABC123'', ''ann@b'')] \<and> p_ID p = 1
    | _ \<Rightarrow> False" by code_simp
  then obtain p nt u where x: "x = Card p nt u" "p_ID p = 1"
    "map (\<lambda>b. (o_Registration b, o_CreatedBy b)) (tb_Overrides (tables_of w1)) = [(''ABC123'', ''ann@b'')]"
    by (cases x) (simp_all add: r)
  have "si_Kicks a_household = []" by code_simp
  then show ?thesis using a_booking_ends_and_is_the_households [OF r [unfolded x(1)] a_household_facts(3)] x r by auto
qed

section \<open>A day too long\<close>

text \<open>
  The end of the next day is counted in the location of the start. Without a start date that is the
  process's own, UTC in the container: on the evening before the clocks go forward, twenty-four hours on is
  already the day after the next one for the permit.
\<close>

definition spring :: zone where "spring s = (if s < 1791043200 then 36000 else 39600)"

definition late_saturday :: visit where "late_saturday = (posting booking_form)\<lparr>vt_Now := 1791034200 * second\<rparr>"

lemma a_next_day_booking_can_run_a_day_long:
  "weekday spring (vt_Now late_saturday) = 6"
  "case booking_window (a_desk\<lparr>dk_Zone := \<lambda>_. spring\<rparr>) late_saturday a_permit of
     Inr (s, e) \<Rightarrow> weekday spring e = 2 \<and> e = dayEndLocal spring (vt_Now late_saturday) 2 | _ \<Rightarrow> False"
  "case booking_window (a_desk\<lparr>dk_Zone := \<lambda>_. spring, dk_Local := spring\<rparr>) late_saturday a_permit of
     Inr (s, e) \<Rightarrow> e = dayEndLocal spring (vt_Now late_saturday) 1 | _ \<Rightarrow> False"
  by code_simp+

section \<open>Polls end\<close>

text \<open>Whatever the card's state, an answered poll leads to a later attempt or to none, and none follows the last.\<close>

lemma polls_end:
  assumes "0 \<le> pv_Seed pv"
  shows "pv_Next (armPlatePoll n pv) = 0 \<or> max n (pv_Seed pv) < pv_Next (armPlatePoll n pv) \<and> pv_Next (armPlatePoll n pv) \<le> 12"
  using assms by (auto simp: armPlatePoll_def Let_def platePollDelays_def)

lemma a_spent_card_says_so:
  assumes "12 \<le> n" shows "pv_Unconfirmed (armPlatePoll n pv) \<longleftrightarrow> pv_Refreshing pv \<or> pv_Applying pv"
  using assms by (auto simp: armPlatePoll_def Let_def platePollDelays_def)

end
