(* ===== verification/Councils.thy ===== *)
theory Councils
  imports Client Callers "HOL-Library.Char_ord" "HOL-Library.List_Lexorder"
begin

text \<open>
  The councils a process serves (internal/tenant): the descriptor of a council with the policy that says
  which of its permits may be scheduled (tenant.go), the registry with its checks and the configuration
  laid over it (registry.go), and the multiplexer that routes every call to the client of a council
  (mux.go). The JSON decoder, \<open>url.Parse\<close> and the table of time zones are parameters.
\<close>

section \<open>Descriptors\<close>

definition ModelSwap :: string where "ModelSwap = ''swap''"
definition ModelReplate :: string where "ModelReplate = ''replate''"
definition ModelCoupon :: string where "ModelCoupon = ''coupon''"
definition ModelPaper :: string where "ModelPaper = ''paper''"

definition knownModels :: "string list" where "knownModels = [ModelSwap, ModelReplate, ModelCoupon, ModelPaper]"

definition Known :: "string \<Rightarrow> bool" where "Known m \<longleftrightarrow> m \<in> set knownModels"

definition Plate :: "string \<Rightarrow> bool" where "Plate m \<longleftrightarrow> m = ModelSwap \<or> m = ModelReplate"

record endpoints =
  ep_Issuer :: string
  ep_APIBase :: string
  ep_ClientID :: string
  ep_RedirectURI :: string
  ep_Scopes :: "string list"

record links =
  ln_Portal :: string
  ln_Register :: string
  ln_ResetPassword :: string
  ln_ApplyVisitor :: string
  ln_Permits :: string
  ln_FAQ :: string

record public_copy =
  cy_Suburbs :: "string list"
  cy_Phone :: string

record permit_policy =
  pp_VisitorWord :: string
  pp_ResidentWord :: string
  pp_HomeState :: string
  pp_ScheduleResident :: bool

record tenant =
  tn_ID :: string
  tn_Name :: string
  tn_Short :: string
  tn_Connector :: string
  tn_Model :: string
  tn_Endpoints :: endpoints
  tn_Timezone :: string
  tn_Policy :: permit_policy
  tn_Links :: links
  tn_Copy :: public_copy
  tn_Terms :: "(string \<times> string) list"
  tn_Enabled :: bool

section \<open>Which permits may be scheduled\<close>

fun contains_text :: "string \<Rightarrow> string \<Rightarrow> bool" where
  "contains_text w [] = (w = [])"
| "contains_text w (c # s) = (has_prefix (c # s) w \<or> contains_text w s)"

definition IsVisitor :: "permit_policy \<Rightarrow> string \<Rightarrow> bool" where
  "IsVisitor p permitType \<longleftrightarrow> pp_VisitorWord p \<noteq> [] \<and> contains_text (to_lower (pp_VisitorWord p)) (to_lower permitType)"

text \<open>
  The expression \<open>(?i)\b\<dots>\b\<close> around the quoted word: an occurrence, whatever the case, with a word
  boundary on either side, where a character of a word is a letter or a digit of ASCII or the underscore.
  The first argument says whether the character before is one.
\<close>

definition word_char :: "char \<Rightarrow> bool" where
  "word_char c \<longleftrightarrow> (48 \<le> cp c \<and> cp c \<le> 57) \<or> (65 \<le> cp c \<and> cp c \<le> 90) \<or> (97 \<le> cp c \<and> cp c \<le> 122) \<or> c = CHR ''_''"

definition starts_word :: "string \<Rightarrow> bool" where
  "starts_word s = (case s of [] \<Rightarrow> False | c # _ \<Rightarrow> word_char c)"

definition word_here :: "bool \<Rightarrow> string \<Rightarrow> string \<Rightarrow> bool" where
  "word_here before w s \<longleftrightarrow> length w \<le> length s \<and> equal_fold (take (length w) s) w
     \<and> before \<noteq> starts_word s
     \<and> (if w = [] then before else word_char (last (take (length w) s))) \<noteq> starts_word (drop (length w) s)"

fun whole_word :: "bool \<Rightarrow> string \<Rightarrow> string \<Rightarrow> bool" where
  "whole_word before w [] = word_here before w []"
| "whole_word before w (c # s) = (word_here before w (c # s) \<or> whole_word (word_char c) w s)"

definition IsResident :: "permit_policy \<Rightarrow> string \<Rightarrow> bool" where
  "IsResident p permitType \<longleftrightarrow> pp_ResidentWord p \<noteq> [] \<and> whole_word False (pp_ResidentWord p) permitType"

record permit_info =
  pi_PermitType :: string
  pi_CanChangeVehicle :: bool

fun fallback_from :: "permit_policy \<Rightarrow> bool \<Rightarrow> permit_info list \<Rightarrow> bool" where
  "fallback_from p anyChangeable [] = anyChangeable"
| "fallback_from p anyChangeable (x # xs) =
     (if IsVisitor p (pi_PermitType x) then False
      else fallback_from p (anyChangeable \<or> pi_CanChangeVehicle x) xs)"

definition NameFallback :: "permit_policy \<Rightarrow> permit_info list \<Rightarrow> bool" where
  "NameFallback p permits = fallback_from p False permits"

definition Schedulable :: "permit_policy \<Rightarrow> permit_info \<Rightarrow> bool \<Rightarrow> bool" where
  "Schedulable p x fallback =
     (if IsVisitor p (pi_PermitType x) then True
      else if IsResident p (pi_PermitType x) then pp_ScheduleResident p
      else fallback \<and> pi_CanChangeVehicle x)"

section \<open>The registry\<close>

record registry =
  rt_list :: "tenant list"
  rt_Default :: "tenant option"

definition ByID :: "registry \<Rightarrow> string \<Rightarrow> tenant option" where
  "ByID r tid = find (\<lambda>c. tn_ID c = tid) (rt_list r)"

definition All :: "registry \<Rightarrow> tenant list" where "All r = rt_list r"

definition Enabled :: "registry \<Rightarrow> tenant list" where "Enabled r = filter tn_Enabled (rt_list r)"

text \<open>The connectors the registry knows, and whether one talks to a portal.\<close>

definition knownConnectors :: "(string \<times> bool) list" where
  "knownConnectors = [(''orikan-ssp'', True), (''orikan-ssp-v7'', True), (''fake'', False)]"

definition Connectors :: "string list" where "Connectors = sort (map fst knownConnectors)"

text \<open>What is refused; where the code ranges over a map, which of several faults it names is left open.\<close>

datatype registry_fault =
    InvalidID | NamesMissing | UnknownConnector | PortalNeedsEndpoints | NotHTTPS | TimezoneMissing
  | UnknownTimezone | UnknownModel | NothingSchedulable | NoScheduler | NoHomeVehicle | BadLink
  | Undecoded | RegistryEmpty | Invalid string registry_fault | DuplicateID string | NoneEnabled

definition secure_url :: "url_parser \<Rightarrow> string \<Rightarrow> bool" where
  "secure_url U raw \<longleftrightarrow> raw = [] \<or> (case U raw of None \<Rightarrow> False | Some (scheme, host) \<Rightarrow> scheme = ''https'' \<and> host \<noteq> [])"

definition validateEndpoints :: "url_parser \<Rightarrow> endpoints \<Rightarrow> registry_fault option" where
  "validateEndpoints U e =
     (if list_all (secure_url U) [ep_Issuer e, ep_APIBase e, ep_RedirectURI e] then None else Some NotHTTPS)"

definition web_url :: "url_parser \<Rightarrow> string \<Rightarrow> bool" where
  "web_url U raw \<longleftrightarrow> raw = []
     \<or> (case U raw of None \<Rightarrow> False | Some (scheme, host) \<Rightarrow> (scheme = ''https'' \<or> scheme = ''http'') \<and> host \<noteq> [])"

definition link_urls :: "links \<Rightarrow> string list" where
  "link_urls l = [ln_Portal l, ln_Register l, ln_ResetPassword l, ln_ApplyVisitor l, ln_Permits l, ln_FAQ l]"

definition usable_id :: "string \<Rightarrow> bool" where
  "usable_id s \<longleftrightarrow> s \<noteq> [] \<and> to_lower s = s \<and> \<not> list_ex (\<lambda>c. c = CHR '' '' \<or> c = CHR ''/'' \<or> c = CHR 0x5C \<or> c = CHR ''?'' \<or> c = CHR ''#'') s"

definition unpointed :: "endpoints \<Rightarrow> bool" where
  "unpointed e \<longleftrightarrow> ep_Issuer e = [] \<and> ep_APIBase e = [] \<and> ep_ClientID e = [] \<and> ep_RedirectURI e = []"

definition validate_tenant :: "url_parser \<Rightarrow> (string \<Rightarrow> bool) \<Rightarrow> tenant \<Rightarrow> registry_fault option" where
  "validate_tenant U zone_known c =
     (if \<not> usable_id (tn_ID c) then Some InvalidID
      else if tn_Name c = [] \<or> tn_Short c = [] then Some NamesMissing
      else (case map_of knownConnectors (tn_Connector c) of
          None \<Rightarrow> Some UnknownConnector
        | Some portal \<Rightarrow>
            if portal \<and> unpointed (tn_Endpoints c) then Some PortalNeedsEndpoints
            else (case validateEndpoints U (tn_Endpoints c) of
                Some f \<Rightarrow> Some f
              | None \<Rightarrow>
                  if tn_Timezone c = [] then Some TimezoneMissing
                  else if \<not> zone_known (tn_Timezone c) then Some UnknownTimezone
                  else if \<not> Known (tn_Model c) then Some UnknownModel
                  else if Plate (tn_Model c) \<and> pp_VisitorWord (tn_Policy c) = []
                          \<and> \<not> (pp_ScheduleResident (tn_Policy c) \<and> pp_ResidentWord (tn_Policy c) \<noteq> [])
                  then Some NothingSchedulable
                  else if tn_Enabled c \<and> \<not> Plate (tn_Model c) then Some NoScheduler
                  else if tn_Enabled c \<and> tn_Model c = ModelReplate then Some NoHomeVehicle
                  else if \<not> list_all (web_url U) (link_urls (tn_Links c)) then Some BadLink
                  else None)))"

text \<open>\<open>parse\<close>, on the entries the decoder has read.\<close>

fun parse_entries :: "url_parser \<Rightarrow> (string \<Rightarrow> bool) \<Rightarrow> tenant list \<Rightarrow> tenant list \<Rightarrow> registry_fault + tenant list" where
  "parse_entries U Z done [] = Inr done"
| "parse_entries U Z done (c # cs) =
     (case validate_tenant U Z c of
        Some f \<Rightarrow> Inl (Invalid (tn_ID c) f)
      | None \<Rightarrow> if tn_ID c \<in> set (map tn_ID done) then Inl (DuplicateID (tn_ID c))
                else parse_entries U Z (done @ [c]) cs)"

definition parse_registry :: "url_parser \<Rightarrow> (string \<Rightarrow> bool) \<Rightarrow> tenant list option \<Rightarrow> registry_fault + tenant list" where
  "parse_registry U Z decoded =
     (case decoded of
        None \<Rightarrow> Inl Undecoded
      | Some ts \<Rightarrow> if ts = [] then Inl RegistryEmpty else parse_entries U Z [] ts)"

record council_config =
  cc_Issuer :: string
  cc_APIBase :: string
  cc_ClientID :: string
  cc_RedirectURI :: string
  cc_Scopes :: "string list"
  cc_Sandbox :: bool

definition over :: "'a list \<Rightarrow> 'a list \<Rightarrow> 'a list" where "over x y = (if x \<noteq> [] then x else y)"

definition applyConfig :: "council_config \<Rightarrow> tenant \<Rightarrow> tenant" where
  "applyConfig cfg c =
     (let e = tn_Endpoints c;
          c1 = c\<lparr>tn_Endpoints := \<lparr>ep_Issuer = over (cc_Issuer cfg) (ep_Issuer e), ep_APIBase = over (cc_APIBase cfg) (ep_APIBase e),
             ep_ClientID = over (cc_ClientID cfg) (ep_ClientID e), ep_RedirectURI = over (cc_RedirectURI cfg) (ep_RedirectURI e),
             ep_Scopes = over (cc_Scopes cfg) (ep_Scopes e)\<rparr>\<rparr>
      in if cc_Sandbox cfg then c1\<lparr>tn_Connector := ''fake''\<rparr> else c1)"

definition at_id :: "string \<Rightarrow> (tenant \<Rightarrow> tenant) \<Rightarrow> tenant list \<Rightarrow> tenant list" where
  "at_id tid f ts = map (\<lambda>c. if tn_ID c = tid then f c else c) ts"

definition stonnington :: string where "stonnington = ''stonnington''"

text \<open>\<open>Load\<close>: \<open>decoded\<close> is what the decoder made of the file, or of the built-in registry.\<close>

definition Load :: "url_parser \<Rightarrow> (string \<Rightarrow> bool) \<Rightarrow> council_config \<Rightarrow> tenant list option \<Rightarrow> registry_fault + registry" where
  "Load U Z cfg decoded =
     (case parse_registry U Z decoded of
        Inl f \<Rightarrow> Inl f
      | Inr ts0 \<Rightarrow>
          (let ts = at_id stonnington (applyConfig cfg) ts0;
               own = find (\<lambda>c. tn_ID c = stonnington) ts
           in case Option.bind own (\<lambda>c. validateEndpoints U (tn_Endpoints c)) of
                Some f \<Rightarrow> Inl (Invalid stonnington f)
              | None \<Rightarrow>
                  (let served = (if cc_Sandbox cfg
                       then [(case own of Some c \<Rightarrow> c | None \<Rightarrow> hd ts)\<lparr>tn_Connector := ''fake'', tn_Enabled := True\<rparr>]
                       else ts)
                   in case find tn_Enabled served of
                        None \<Rightarrow> Inl NoneEnabled
                      | Some d \<Rightarrow> Inr \<lparr>rt_list = served, rt_Default = Some d\<rparr>)))"

section \<open>The multiplexer\<close>

text \<open>
  A client for every council that is served, in the order of their names; all of them write to one store,
  so the store of a client is that of the multiplexer for the length of a call.
\<close>

record mux =
  mx_store :: session_store
  mx_clients :: "(string \<times> parking_client) list"

definition NewMux :: "session_store \<Rightarrow> (string \<times> parking_client) list \<Rightarrow> mux" where
  "NewMux st clients = \<lparr>mx_store = st, mx_clients = sort_key fst clients\<rparr>"

definition IDs :: "mux \<Rightarrow> string list" where "IDs m = map fst (mx_clients m)"

definition Client_of :: "mux \<Rightarrow> string \<Rightarrow> parking_client option" where
  "Client_of m tid = map_of (mx_clients m) tid"

definition unserved :: err where "unserved = Wrapped ''not served'' (Sentinel ErrTenantUnavailable)"

text \<open>
  \<open>For\<close>: the council of the account's choice. \<open>fault\<close> is the error of reading it, which a remembered
  answer does not meet.
\<close>

definition For :: "err option \<Rightarrow> string \<Rightarrow> mux \<Rightarrow> mux \<times> (err + string)" where
  "For fault owner m =
     (if fault \<noteq> None \<and> st_tenantCache (mx_store m) owner = None then (m, Inl (the fault))
      else (case TenantIDFor (mx_store m) owner of
          (st, tid) \<Rightarrow>
            (m\<lparr>mx_store := st\<rparr>,
             if tid = [] \<and> length (mx_clients m) = 1 then Inr (hd (IDs m))
             else if Client_of m tid = None then Inl unserved
             else Inr tid)))"

definition client :: "err option \<Rightarrow> string \<Rightarrow> string \<Rightarrow> mux \<Rightarrow> mux \<times> (err + string)" where
  "client fault owner tid m =
     (if tid = [] then For fault owner m
      else (m, if Client_of m tid = None then Inl unserved else Inr tid))"

text \<open>One call on the client of a council: the store goes in and comes back out.\<close>

definition lend :: "mux \<Rightarrow> string \<Rightarrow> parking_client" where
  "lend m tid = (the (Client_of m tid))\<lparr>pc_store := mx_store m\<rparr>"

definition give_back :: "string \<Rightarrow> parking_client \<Rightarrow> mux \<Rightarrow> mux" where
  "give_back tid c m = m\<lparr>mx_store := pc_store c, mx_clients := map (\<lambda>(k, x). (k, if k = tid then c else x)) (mx_clients m)\<rparr>"

definition on_client ::
  "err option \<Rightarrow> string \<Rightarrow> string \<Rightarrow> (err \<Rightarrow> 'a) \<Rightarrow> (parking_client \<Rightarrow> parking_client \<times> 'a) \<Rightarrow> mux \<Rightarrow> mux \<times> 'a" where
  "on_client fault owner tid failed f m =
     (case client fault owner tid m of
        (m1, Inl x) \<Rightarrow> (m1, failed x)
      | (m1, Inr k) \<Rightarrow> (case f (lend m1 k) of (c, y) \<Rightarrow> (give_back k c m1, y)))"

definition mux_Link ::
  "err option \<Rightarrow> client_env \<Rightarrow> time \<Rightarrow> time \<Rightarrow> time \<Rightarrow> (session_store \<Rightarrow> session_store) \<Rightarrow> err option \<Rightarrow> string \<Rightarrow> string \<Rightarrow> string \<Rightarrow>
   string \<Rightarrow> bool \<Rightarrow> bool \<Rightarrow> int \<Rightarrow> (string \<Rightarrow> string \<Rightarrow> string \<times> err option) \<Rightarrow> mux \<Rightarrow> mux \<times> err option" where
  "mux_Link fault e now now' now2 mid flow owner tid username password savePassword interactive expectedGen login =
     on_client fault owner tid Some (Link e now now' now2 mid flow owner username password savePassword interactive expectedGen login)"

definition mux_Reconnect ::
  "err option \<Rightarrow> client_env \<Rightarrow> time \<Rightarrow> time \<Rightarrow> time \<Rightarrow> (session_store \<Rightarrow> session_store) \<Rightarrow> err option \<Rightarrow> string \<Rightarrow> string \<Rightarrow>
   (string \<Rightarrow> string \<Rightarrow> string \<times> err option) \<Rightarrow> mux \<Rightarrow> mux \<times> err option" where
  "mux_Reconnect fault e now now' now2 mid flow owner tid login =
     on_client fault owner tid Some (Reconnect e now now' now2 mid flow owner login)"

definition mux_Refresh ::
  "err option \<Rightarrow> client_env \<Rightarrow> time \<Rightarrow> time \<Rightarrow> (session_store \<Rightarrow> session_store) \<Rightarrow> string \<Rightarrow> string \<Rightarrow> (string \<Rightarrow> string \<times> err option) \<Rightarrow>
   mux \<Rightarrow> mux \<times> err option" where
  "mux_Refresh fault e now now' mid owner tid fn = on_client fault owner tid Some (Refresh e now now' mid owner fn)"

definition mux_Linked :: "err option \<Rightarrow> client_env \<Rightarrow> string \<Rightarrow> string \<Rightarrow> mux \<Rightarrow> mux \<times> bool" where
  "mux_Linked fault e owner tid = on_client fault owner tid (\<lambda>_. False) (\<lambda>c. (c, Linked e c owner))"

definition mux_ListPermitsComplete ::
  "err option \<Rightarrow> client_env \<Rightarrow> time \<Rightarrow> time \<Rightarrow> (session_store \<Rightarrow> session_store) \<Rightarrow> string \<Rightarrow> string \<Rightarrow> ('p list \<times> int) wire \<Rightarrow>
   mux \<Rightarrow> mux \<times> 'p list \<times> bool \<times> err option" where
  "mux_ListPermitsComplete fault e now now' mid owner tid fn =
     on_client fault owner tid (\<lambda>x. ([], False, Some x)) (ListPermitsComplete e now now' mid owner fn)"

text \<open>What concerns a permit goes to the council the permit belongs to.\<close>

definition mux_CurrentVehicle ::
  "err option \<Rightarrow> client_env \<Rightarrow> time \<Rightarrow> time \<Rightarrow> (session_store \<Rightarrow> session_store) \<Rightarrow> string \<Rightarrow> permit \<Rightarrow> (string \<Rightarrow> string wire) \<Rightarrow>
   mux \<Rightarrow> mux \<times> string \<times> err option" where
  "mux_CurrentVehicle fault e now now' mid owner p fn =
     on_client fault owner (p_TenantID p) (\<lambda>x. ([], Some x)) (CurrentVehicle e now now' mid owner p fn)"

definition mux_CurrentVehicleCached ::
  "err option \<Rightarrow> string \<Rightarrow> permit \<Rightarrow> dur \<Rightarrow> time \<Rightarrow> mux \<Rightarrow> mux \<times> (err + 64 word option \<times> (string \<times> dur \<times> bool) option)" where
  "mux_CurrentVehicleCached fault owner p maxAge now =
     on_client fault owner (p_TenantID p) Inl (\<lambda>c. case CurrentVehicleCached owner p maxAge now c of (c', g, r) \<Rightarrow> (c', Inr (g, r)))"

definition mux_RefreshFailingFor :: "err option \<Rightarrow> string \<Rightarrow> permit \<Rightarrow> time \<Rightarrow> mux \<Rightarrow> mux \<times> dur" where
  "mux_RefreshFailingFor fault owner p now =
     on_client fault owner (p_TenantID p) (\<lambda>_. 0) (\<lambda>c. (c, RefreshFailingFor c owner p now))"

definition mux_ForgetPermit :: "err option \<Rightarrow> string \<Rightarrow> string \<Rightarrow> string \<Rightarrow> mux \<Rightarrow> mux" where
  "mux_ForgetPermit fault owner tid pid m = fst (on_client fault owner tid (\<lambda>_. ()) (\<lambda>c. (ForgetPermit owner pid c, ())) m)"

definition mux_SetVehicle ::
  "err option \<Rightarrow> client_env \<Rightarrow> time \<Rightarrow> time \<Rightarrow> (session_store \<Rightarrow> session_store) \<Rightarrow> (parking_client \<Rightarrow> parking_client) \<Rightarrow> string \<Rightarrow> permit \<Rightarrow>
   string \<Rightarrow> string \<Rightarrow> (string \<Rightarrow> string \<Rightarrow> string \<Rightarrow> unit wire) \<Rightarrow> mux \<Rightarrow> mux \<times> err option" where
  "mux_SetVehicle fault e now now' mid midc owner p registration region fn =
     on_client fault owner (p_TenantID p) Some (SetVehicle e now now' mid midc owner p registration region fn)"

definition mux_ClearVehicle ::
  "err option \<Rightarrow> client_env \<Rightarrow> time \<Rightarrow> time \<Rightarrow> (session_store \<Rightarrow> session_store) \<Rightarrow> (parking_client \<Rightarrow> parking_client) \<Rightarrow> string \<Rightarrow> permit \<Rightarrow>
   (string \<Rightarrow> unit wire) \<Rightarrow> mux \<Rightarrow> mux \<times> err option" where
  "mux_ClearVehicle fault e now now' mid midc owner p fn =
     on_client fault owner (p_TenantID p) Some (ClearVehicle e now now' mid midc owner p fn)"

definition no_capabilities :: capabilities where
  "no_capabilities = \<lparr>cap_CanClearVehicle = False, cap_SupportsRefresh = False, cap_NeedsKeepWarm = False,
     cap_IdleWindow = 0, cap_SupportsExpiry = False, cap_LoginKind = [], cap_Regions = []\<rparr>"

definition mux_Capabilities :: "err option \<Rightarrow> string \<Rightarrow> string \<Rightarrow> mux \<Rightarrow> mux \<times> capabilities" where
  "mux_Capabilities fault owner tid = on_client fault owner tid (\<lambda>_. no_capabilities) (\<lambda>c. (c, pc_caps c))"

fun add_regions :: "region list \<Rightarrow> region list \<Rightarrow> region list" where
  "add_regions out [] = out"
| "add_regions out (r # rs) = add_regions (if rg_Code r \<in> set (map rg_Code out) then out else out @ [r]) rs"

definition regions_of :: "mux \<Rightarrow> string \<Rightarrow> region list" where
  "regions_of m tid = (case Client_of m tid of None \<Rightarrow> [] | Some c \<Rightarrow> cap_Regions (pc_caps c))"

definition Regions :: "err option \<Rightarrow> string \<Rightarrow> string \<Rightarrow> mux \<Rightarrow> mux \<times> region list" where
  "Regions fault owner tid m =
     (if tid \<noteq> [] then (m, regions_of m tid)
      else (case For fault owner m of
          (m1, r) \<Rightarrow>
            (m1, fold (\<lambda>k out. add_regions out (regions_of m k)) (IDs m)
                   (case r of Inl _ \<Rightarrow> [] | Inr k \<Rightarrow> add_regions [] (regions_of m k)))))"

definition RegionValid :: "err option \<Rightarrow> string \<Rightarrow> string \<Rightarrow> string \<Rightarrow> mux \<Rightarrow> mux \<times> bool" where
  "RegionValid fault owner tid code m =
     (if code = [] then (m, True)
      else (case Regions fault owner tid m of (m1, rs) \<Rightarrow> (m1, list_ex (\<lambda>r. rg_Code r = code) rs)))"

definition Blocked :: "string \<Rightarrow> time \<Rightarrow> mux \<Rightarrow> bool" where
  "Blocked tid now m =
     (if tid \<noteq> [] then (case Client_of m tid of None \<Rightarrow> False | Some c \<Rightarrow> Blocked_now c now)
      else list_ex (\<lambda>x. Blocked_now (snd x) now) (mx_clients m))"

section \<open>What the registry lets through\<close>

lemma parse_entries_ok:
  assumes "parse_entries U Z acc cs = Inr ts" and "distinct (map tn_ID acc)" and "\<forall>c \<in> set acc. validate_tenant U Z c = None"
  shows "distinct (map tn_ID ts) \<and> (\<forall>c \<in> set ts. validate_tenant U Z c = None)"
  using assms
proof (induction cs arbitrary: acc)
  case (Cons c cs)
  have v: "validate_tenant U Z c = None" using Cons.prems(1) by (cases "validate_tenant U Z c") simp_all
  then have "tn_ID c \<notin> set (map tn_ID acc)" "parse_entries U Z (acc @ [c]) cs = Inr ts"
    using Cons.prems(1) by (simp_all split: if_splits)
  then show ?case using Cons.prems(2,3) v by (intro Cons.IH [of "acc @ [c]"]) simp_all
qed simp

lemma validateEndpoints_None:
  "validateEndpoints U e = None \<longleftrightarrow> list_all (secure_url U) [ep_Issuer e, ep_APIBase e, ep_RedirectURI e]"
  by (simp add: validateEndpoints_def)

lemma applyConfig_frames [simp]:
  "tn_ID (applyConfig cfg c) = tn_ID c" "tn_Model (applyConfig cfg c) = tn_Model c" "tn_Policy (applyConfig cfg c) = tn_Policy c"
  "tn_Timezone (applyConfig cfg c) = tn_Timezone c" "tn_Enabled (applyConfig cfg c) = tn_Enabled c"
  by (simp_all add: applyConfig_def Let_def)

lemma validate_tenantD:
  assumes "validate_tenant U Z c = None"
  shows "validateEndpoints U (tn_Endpoints c) = None" "Z (tn_Timezone c)"
    "tn_Enabled c \<Longrightarrow> tn_Model c = ModelSwap"
    "Plate (tn_Model c) \<Longrightarrow> pp_VisitorWord (tn_Policy c) \<noteq> [] \<or> pp_ScheduleResident (tn_Policy c) \<and> pp_ResidentWord (tn_Policy c) \<noteq> []"
proof -
  obtain portal where k: "map_of knownConnectors (tn_Connector c) = Some portal"
    using assms by (cases "map_of knownConnectors (tn_Connector c)") (simp_all add: validate_tenant_def split: if_splits)
  then show e: "validateEndpoints U (tn_Endpoints c) = None"
    using assms by (cases "validateEndpoints U (tn_Endpoints c)") (simp_all add: validate_tenant_def split: if_splits)
  note v = assms [unfolded validate_tenant_def k e option.case]
  show "Z (tn_Timezone c)" using v by (simp split: if_splits)
  show "tn_Enabled c \<Longrightarrow> tn_Model c = ModelSwap" using v by (simp add: Plate_def split: if_splits)
  show "Plate (tn_Model c) \<Longrightarrow> pp_VisitorWord (tn_Policy c) \<noteq> [] \<or> pp_ScheduleResident (tn_Policy c) \<and> pp_ResidentWord (tn_Policy c) \<noteq> []"
    using v by (simp split: if_splits)
qed

lemma find_by_name: "c \<in> set ts \<Longrightarrow> distinct (map f ts) \<Longrightarrow> find (\<lambda>x. f x = f c) ts = Some c"
  by (induction ts) (auto simp: image_iff)

lemma Load_Inr:
  assumes "Load U Z cfg decoded = Inr r" and "\<not> cc_Sandbox cfg"
  obtains ts where "distinct (map tn_ID ts)" "\<forall>c \<in> set ts. validate_tenant U Z c = None"
    "rt_list r = at_id stonnington (applyConfig cfg) ts" "rt_Default r = find tn_Enabled (rt_list r)" "rt_Default r \<noteq> None"
    "\<forall>c. find (\<lambda>c. tn_ID c = stonnington) (rt_list r) = Some c \<longrightarrow> validateEndpoints U (tn_Endpoints c) = None"
proof -
  obtain ts where p: "parse_registry U Z decoded = Inr ts" using assms(1) by (auto simp: Load_def split: sum.splits)
  then obtain es where "parse_entries U Z [] es = Inr ts" by (auto simp: parse_registry_def split: option.splits if_splits)
  then have ok: "distinct (map tn_ID ts) \<and> (\<forall>c \<in> set ts. validate_tenant U Z c = None)" by (rule parse_entries_ok) simp_all
  have "rt_list r = at_id stonnington (applyConfig cfg) ts \<and> rt_Default r = find tn_Enabled (rt_list r) \<and> rt_Default r \<noteq> None
     \<and> (\<forall>c. find (\<lambda>c. tn_ID c = stonnington) (rt_list r) = Some c \<longrightarrow> validateEndpoints U (tn_Endpoints c) = None)"
    using assms p by (auto simp: Load_def Let_def split: option.splits)
  then show ?thesis using ok that by blast
qed

text \<open>C38: A registry that loads is safe to serve: the names are distinct, the default council is one that is
  enabled, every council that residents may sign up with runs the one scheme the scheduler drives and has
  permits that may be scheduled, every time zone is known, and, the environment's overrides included, no
  address a password may be sent to is anything but https.
\<close>

theorem a_registry_that_loads_is_safe:
  assumes "Load U Z cfg decoded = Inr r" and "\<not> cc_Sandbox cfg"
  shows "distinct (map tn_ID (All r)) \<and> (\<exists>d. rt_Default r = Some d \<and> d \<in> set (Enabled r))
     \<and> (\<forall>c \<in> set (All r). Z (tn_Timezone c)
          \<and> list_all (secure_url U) [ep_Issuer (tn_Endpoints c), ep_APIBase (tn_Endpoints c), ep_RedirectURI (tn_Endpoints c)])
     \<and> (\<forall>c \<in> set (Enabled r). tn_Model c = ModelSwap
          \<and> (pp_VisitorWord (tn_Policy c) \<noteq> [] \<or> pp_ScheduleResident (tn_Policy c) \<and> pp_ResidentWord (tn_Policy c) \<noteq> []))"
proof -
  obtain ts where ok: "distinct (map tn_ID ts)" "\<forall>c \<in> set ts. validate_tenant U Z c = None"
    and r: "rt_list r = at_id stonnington (applyConfig cfg) ts" "rt_Default r = find tn_Enabled (rt_list r)" "rt_Default r \<noteq> None"
    and own: "\<forall>c. find (\<lambda>c. tn_ID c = stonnington) (rt_list r) = Some c \<longrightarrow> validateEndpoints U (tn_Endpoints c) = None"
    by (rule Load_Inr [OF assms])
  have ids: "map tn_ID (rt_list r) = map tn_ID ts" by (simp add: r(1) at_id_def)
  have origin: "\<exists>b \<in> set ts. validate_tenant U Z b = None \<and> (c = b \<or> c = applyConfig cfg b \<and> tn_ID c = stonnington)"
    if "c \<in> set (rt_list r)" for c
    using that ok(2) by (auto simp: r(1) at_id_def)
  have https: "validateEndpoints U (tn_Endpoints c) = None" if c: "c \<in> set (rt_list r)" for c
  proof (cases "tn_ID c = stonnington")
    case True
    then have "find (\<lambda>c. tn_ID c = stonnington) (rt_list r) = Some c"
      using find_by_name [of c "rt_list r" tn_ID] c ok(1) ids by simp
    then show ?thesis using own by blast
  next
    case False
    then show ?thesis using origin [OF c] validate_tenantD(1) by auto
  qed
  have zone: "Z (tn_Timezone c)" if "c \<in> set (rt_list r)" for c using origin [OF that] validate_tenantD(2) [of U Z] by auto
  have swap: "tn_Model c = ModelSwap" "pp_VisitorWord (tn_Policy c) \<noteq> [] \<or> pp_ScheduleResident (tn_Policy c) \<and> pp_ResidentWord (tn_Policy c) \<noteq> []"
    if "c \<in> set (Enabled r)" for c
    using that origin [of c] validate_tenantD(3,4) [of U Z] by (auto simp: Enabled_def Plate_def)
  have "\<exists>d. rt_Default r = Some d \<and> d \<in> set (Enabled r)" using r(2,3) by (auto simp: Enabled_def find_Some_iff)
  then show ?thesis using ok(1) ids https zone swap by (simp add: All_def validateEndpoints_None)
qed

definition plain_council :: tenant where
  "plain_council = \<lparr>tn_ID = ''banyule'', tn_Name = ''City of Banyule'', tn_Short = ''Banyule'', tn_Connector = ''fake'', tn_Model = ModelSwap,
     tn_Endpoints = \<lparr>ep_Issuer = [], ep_APIBase = ''a'', ep_ClientID = [], ep_RedirectURI = [], ep_Scopes = []\<rparr>,
     tn_Timezone = ''Australia/Melbourne'',
     tn_Policy = \<lparr>pp_VisitorWord = ''visitor'', pp_ResidentWord = ''resident'', pp_HomeState = ''VIC'', pp_ScheduleResident = False\<rparr>,
     tn_Links = \<lparr>ln_Portal = [], ln_Register = [], ln_ResetPassword = [], ln_ApplyVisitor = [], ln_Permits = [], ln_FAQ = []\<rparr>,
     tn_Copy = \<lparr>cy_Suburbs = [], cy_Phone = []\<rparr>, tn_Terms = [], tn_Enabled = True\<rparr>"

definition no_overrides :: council_config where
  "no_overrides = \<lparr>cc_Issuer = [], cc_APIBase = [], cc_ClientID = [], cc_RedirectURI = [], cc_Scopes = [], cc_Sandbox = False\<rparr>"

lemma a_registry_that_loads_is_safe_witness:
  "Load (\<lambda>_. Some (''https'', ''h'')) (\<lambda>_. True) no_overrides (Some [plain_council, plain_council\<lparr>tn_ID := stonnington, tn_Enabled := False\<rparr>])
     = Inr \<lparr>rt_list = [plain_council, plain_council\<lparr>tn_ID := stonnington, tn_Enabled := False\<rparr>], rt_Default = Some plain_council\<rparr>
   \<and> tn_Model plain_council = ModelSwap"
proof -
  have l: "Load (\<lambda>_. Some (''https'', ''h'')) (\<lambda>_. True) no_overrides (Some [plain_council, plain_council\<lparr>tn_ID := stonnington, tn_Enabled := False\<rparr>])
     = Inr \<lparr>rt_list = [plain_council, plain_council\<lparr>tn_ID := stonnington, tn_Enabled := False\<rparr>], rt_Default = Some plain_council\<rparr>"
    by code_simp
  moreover have "\<not> cc_Sandbox no_overrides" by (simp add: no_overrides_def)
  ultimately show ?thesis using a_registry_that_loads_is_safe [OF l] by (simp add: Enabled_def plain_council_def)
qed

section \<open>Routing\<close>

text \<open>A resident permit is never offered unless the council's policy says so.\<close>

lemma resident_permits_stay_off:
  assumes "IsResident p (pi_PermitType x)" and "\<not> pp_ScheduleResident p" and "\<not> IsVisitor p (pi_PermitType x)"
  shows "\<not> Schedulable p x fallback"
  using assms by (simp add: Schedulable_def)

lemma fallback_needs_no_match:
  "NameFallback p xs \<longleftrightarrow> (\<forall>x \<in> set xs. \<not> IsVisitor p (pi_PermitType x)) \<and> (\<exists>x \<in> set xs. pi_CanChangeVehicle x)"
proof -
  have "fallback_from p b xs \<longleftrightarrow> (\<forall>x \<in> set xs. \<not> IsVisitor p (pi_PermitType x)) \<and> (b \<or> (\<exists>x \<in> set xs. pi_CanChangeVehicle x))" for b
    by (induction xs arbitrary: b) auto
  then show ?thesis by (simp add: NameFallback_def)
qed

lemma map_of_others: "k \<noteq> tid \<Longrightarrow> map_of (map (\<lambda>(k, x). (k, if k = tid then c else x)) m) k = map_of m k"
  by (induction m) auto

text \<open>A call for one council leaves the client of every other council as it was.\<close>

lemma a_call_touches_one_council:
  assumes "tid \<noteq> []" and "k \<noteq> tid"
  shows "Client_of (fst (on_client fault owner tid failed f m)) k = Client_of m k"
  using assms by (auto simp: on_client_def client_def give_back_def Client_of_def map_of_others split: prod.splits sum.splits)

lemma add_regions_codes:
  "distinct (map rg_Code out) \<Longrightarrow> distinct (map rg_Code (add_regions out rs))
     \<and> rg_Code ` set (add_regions out rs) = rg_Code ` set out \<union> rg_Code ` set rs"
  by (induction out rs rule: add_regions.induct) (auto simp: image_iff)

text \<open>With no council named, a state is valid exactly if a served council offers it, each offered once.\<close>

lemma regions_fold:
  assumes "distinct (map rg_Code out)"
  shows "distinct (map rg_Code (fold (\<lambda>k out. add_regions out (regions_of m k)) ks out))
     \<and> rg_Code ` set (fold (\<lambda>k out. add_regions out (regions_of m k)) ks out)
       = rg_Code ` set out \<union> (\<Union>k \<in> set ks. rg_Code ` set (regions_of m k))"
  using assms
proof (induction ks arbitrary: out)
  case (Cons k ks)
  have a: "distinct (map rg_Code (add_regions out (regions_of m k)))"
    "rg_Code ` set (add_regions out (regions_of m k)) = rg_Code ` set out \<union> rg_Code ` set (regions_of m k)"
    using add_regions_codes [OF Cons.prems] by blast+
  show ?case using Cons.IH [OF a(1)] a(2) by auto
qed simp

end
