(* ===== verification/Family.thy ===== *)
theory Family
  imports Desk Councils Erasure Withdrawal
begin

text \<open>
  The account's own forms (internal/server/account.go): signing in to a council, choosing the area,
  disconnecting, forgetting the saved password, deleting the account, sharing it with others and leaving
  it again, and the confirmation a reminder e-mail asks for. The pages are left out; what a form answers
  is a value.
\<close>

section \<open>What the handlers are told\<close>

text \<open>
  The registry, if several councils can be served; which reads and statements of the store succeed;
  whether e-mail can be sent; the configured bounds; and the hash of confirm tokens.
\<close>

record front =
  fr_Registry :: "registry option"
  fr_TenantFault :: "err option"
  fr_DataRead :: bool
  fr_CountRead :: bool
  fr_InviteRead :: bool
  fr_PrimaryRead :: bool
  fr_PermitsListed :: bool
  fr_Noted :: bool
  fr_Cleared :: bool
  fr_Selected :: bool
  fr_EmailAvailable :: bool
  fr_MaxAccounts :: int
  fr_ReminderLead :: dur
  fr_Sha :: "string \<Rightarrow> string"

datatype family_answer =
    CannotTell | OwnerOnly | NoSuchArea | Failed | Home | Picker
  | EnterPassword | ChooseCouncil | LinkThrottled | CannotCheck | Full
  | Busy | Rejected | JoinedMeanwhile | CouldNotLink | LinkedUp
  | ReconnectOff | TypeDELETE
  | NotAnAddress | OwnAddress | TwoAtMost | Invited string bool
  | SharesOwn | HasPermits | StartedOwn | Joined string | DeclinedInvite
  | Removed string nat | InviteWithdrawn string | NothingToLeave
  | SharedSettings | Resent string bool
  | TooManyAttempts | StaleLink | Confirmed string

definition email_of :: "visit \<Rightarrow> string" where "email_of v = to_lower (trim_space (form v ''email''))"

definition upd_sessions :: "(session_store \<Rightarrow> session_store) \<Rightarrow> server \<Rightarrow> server" where
  "upd_sessions f w = put_sessions (f (sessions_of w)) w"

text \<open>A statement whose error leaves the rows alone still drops the memo of the council.\<close>

definition stored_sessions :: "bool \<Rightarrow> string \<Rightarrow> (session_store \<Rightarrow> session_store) \<Rightarrow> server \<Rightarrow> server" where
  "stored_sessions ok owner f w = (if ok then upd_sessions f w else upd_sessions (forgetTenant owner) w)"

definition cancel_reconnect_in :: "string \<Rightarrow> string \<Rightarrow> server \<Rightarrow> server" where
  "cancel_reconnect_in owner tid w = w\<lparr>si_UnqueuedIn := si_UnqueuedIn w @ [(owner, tid)]\<rparr>"

definition kick_owner_in :: "string \<Rightarrow> string \<Rightarrow> server \<Rightarrow> server" where
  "kick_owner_in owner tid w = w\<lparr>si_KickedOwners := si_KickedOwners w @ [(owner, tid)]\<rparr>"

definition kickScheduler :: "server \<Rightarrow> server" where "kickScheduler w = w\<lparr>si_KickedAll := si_KickedAll w + 1\<rparr>"

definition accountPermitIDs :: "front \<Rightarrow> string \<Rightarrow> server \<Rightarrow> int list" where
  "accountPermitIDs fr owner w =
     (if fr_PermitsListed fr then map p_ID (filter (\<lambda>p. p_Owner p = owner) (tb_Permits (tables_of w))) else [])"

text \<open>The claims are released when the statement is through; that they were taken stays on record.\<close>

definition claimPermitApplies :: "int list \<Rightarrow> server \<Rightarrow> server" where
  "claimPermitApplies ids w = w\<lparr>si_Claimed := si_Claimed w @ [ids]\<rparr>"

definition tell_household :: "string \<Rightarrow> string \<Rightarrow> string \<Rightarrow> server \<Rightarrow> server" where
  "tell_household owner actor summary w = w\<lparr>si_Removed := si_Removed w @ [(owner, actor, summary)]\<rparr>"

section \<open>Signing in to a council\<close>

definition LinkFailRejected :: string where "LinkFailRejected = ''rejected''"
definition LinkFailBusy :: string where "LinkFailBusy = ''busy''"
definition LinkFailShape :: string where "LinkFailShape = ''shape''"
definition LinkFailOther :: string where "LinkFailOther = ''other''"

definition is_secondary :: "err \<Rightarrow> bool" where "is_secondary x \<longleftrightarrow> x = Plain ''secondary account''"

definition noteLinkFailure :: "front \<Rightarrow> string \<Rightarrow> err \<Rightarrow> time \<Rightarrow> server \<Rightarrow> server" where
  "noteLinkFailure fr owner x now w =
     (let reason = (if err_is x ErrLoginRejected then LinkFailRejected
                    else if err_is x ErrUnavailable then LinkFailBusy
                    else if err_is x ErrLoginFormUnrecognised then LinkFailShape
                    else LinkFailOther)
      in if is_secondary x \<or> \<not> fr_Noted fr then w else upd_estate (NoteLinkFailure owner reason now) w)"



text \<open>The store as the client of a council sees it: the sessions, who is a member, the last generation.\<close>

definition client_store :: "mux \<Rightarrow> server \<Rightarrow> session_store" where
  "client_store m w = (sessions_of w)\<lparr>st_members := map (\<lambda>x. (am_Member x, am_Pending x)) (tb_Members (tables_of w)),
     st_lastGen := st_lastGen (mx_store m)\<rparr>"




section \<open>The area\<close>

definition tenantSelect :: "front \<Rightarrow> desk \<Rightarrow> client_env \<Rightarrow> visit \<Rightarrow> mux \<Rightarrow> server \<Rightarrow> family_answer \<times> server" where
  "tenantSelect fr dk e v m w =
     (case accountForWrite v w of
        None \<Rightarrow> (CannotTell, w)
      | Some (user, owner, isPrimary) \<Rightarrow>
          if \<not> isPrimary then (OwnerOnly, w)
          else (case fr_Registry fr of
              None \<Rightarrow> (Home, w)
            | Some reg \<Rightarrow>
                (case ByID reg (form v ''tenant_id'') of
                  None \<Rightarrow> (NoSuchArea, w)
                | Some c \<Rightarrow>
                    if \<not> tn_Enabled c then (NoSuchArea, w)
                    else if \<not> vt_Stored v then (Failed, stored_sessions False owner id w)
                    else (let w1 = log_change dk owner user ''council.select'' (tn_ID c) [] (vt_Now v)
                                     (stored_sessions True owner (SetAccountTenant owner (tn_ID c)) w)
                          in (if snd (mux_Linked (fr_TenantFault fr) e owner (tn_ID c) (m\<lparr>mx_store := client_store m w1\<rparr>))
                              then Home else Picker, w1)))))"

text \<open>The council a settings form names, or the account's own; reading it may fill the memo.\<close>

definition tenantArg :: "front \<Rightarrow> visit \<Rightarrow> string \<Rightarrow> server \<Rightarrow> server \<times> string option" where
  "tenantArg fr v owner w =
     (let tid = form v ''tenant_id'' in
      if tid \<noteq> []
      then (w, case fr_Registry fr of None \<Rightarrow> Some tid | Some reg \<Rightarrow> if ByID reg tid = None then None else Some tid)
      else if fr_TenantFault fr \<noteq> None \<and> st_tenantCache (sessions_of w) owner = None then (w, None)
      else (case TenantIDFor (sessions_of w) owner of (s, t) \<Rightarrow> (put_sessions s w, Some t)))"

definition tenantUnlink :: "front \<Rightarrow> desk \<Rightarrow> visit \<Rightarrow> server \<Rightarrow> family_answer \<times> server" where
  "tenantUnlink fr dk v w =
     (case accountForWrite v w of
        None \<Rightarrow> (CannotTell, w)
      | Some (user, owner, isPrimary) \<Rightarrow>
          if \<not> isPrimary then (OwnerOnly, w)
          else (case tenantArg fr v user w of
              (w1, None) \<Rightarrow> (NoSuchArea, w1)
            | (w1, Some tid) \<Rightarrow>
                if \<not> vt_Stored v then (Failed, stored_sessions False user id w1)
                else (Home, log_change dk user user ''council.unlink'' [] [] (vt_Now v)
                        (cancel_reconnect_in user tid (stored_sessions True user (DeleteTenantSessionIn user tid) w1)))))"

definition hasSavedPassword :: "string \<Rightarrow> server \<Rightarrow> bool" where
  "hasSavedPassword owner w =
     (case snd (GetTenantSession owner (sessions_of w)) of None \<Rightarrow> False | Some cs \<Rightarrow> ts_Password cs \<noteq> [])"

definition tenantForgetPassword :: "front \<Rightarrow> desk \<Rightarrow> visit \<Rightarrow> server \<Rightarrow> family_answer \<times> server" where
  "tenantForgetPassword fr dk v w =
     (case accountForWrite v w of
        None \<Rightarrow> (CannotTell, w)
      | Some (user, owner, isPrimary) \<Rightarrow>
          if \<not> isPrimary then (OwnerOnly, w)
          else (case tenantArg fr v user w of
              (w1, None) \<Rightarrow> (NoSuchArea, w1)
            | (w1, Some tid) \<Rightarrow>
                if \<not> vt_Stored v then (Failed, w1)
                else (ReconnectOff, log_change dk user user ''council.forget-password'' [] [] (vt_Now v)
                        (cancel_reconnect_in user tid (upd_sessions (ClearTenantPasswordIn user tid) w1)))))"

section \<open>Deleting the account\<close>

definition accountDelete :: "visit \<Rightarrow> server \<Rightarrow> family_answer \<times> server" where
  "accountDelete v w =
     (case accountForWrite v w of
        None \<Rightarrow> (CannotTell, w)
      | Some (user, owner, isPrimary) \<Rightarrow>
          if \<not> isPrimary then (OwnerOnly, w)
          else if trim_space (form v ''confirm'') \<noteq> ''DELETE'' then (TypeDELETE, w)
          else if \<not> vt_Stored v then (Failed, stored_sessions False user id w)
          else (Home, revoke_person v user
                  ((upd_estate (DeleteAllForOwner user (vt_Now v)) w)\<lparr>si_Unqueued := si_Unqueued w @ [user]\<rparr>)))"

section \<open>Sharing the account\<close>

text \<open>The courtesy mail, under both throttles; a throttle that is asked remembers the attempt.\<close>

definition invite_mail :: "front \<Rightarrow> string \<Rightarrow> string \<Rightarrow> time \<Rightarrow> server \<Rightarrow> bool \<times> server" where
  "invite_mail fr owner email now w =
     (if \<not> fr_EmailAvailable fr then (False, w)
      else (case rl_allow (si_InviteFanout w) (''o:'' @ owner) now of
          (l1, ok1) \<Rightarrow>
            let w1 = w\<lparr>si_InviteFanout := l1\<rparr> in
            if \<not> ok1 then (False, w1)
            else (case rl_allow (si_InviteTarget w1) (''t:'' @ email) now of
                (l2, ok2) \<Rightarrow>
                  let w2 = w1\<lparr>si_InviteTarget := l2\<rparr> in
                  if \<not> ok2 then (False, w2)
                  else (True, w2\<lparr>si_Invited := si_Invited w2 @ [(email, owner)]\<rparr>))))"

definition addMember :: "front \<Rightarrow> desk \<Rightarrow> visit \<Rightarrow> server \<Rightarrow> family_answer \<times> server" where
  "addMember fr dk v w =
     (case accountForWrite v w of
        None \<Rightarrow> (CannotTell, w)
      | Some (user, owner, isPrimary) \<Rightarrow>
          if \<not> isPrimary then (OwnerOnly, w)
          else (let email = email_of v; logged = log_change dk owner user ''member.add'' email [] (vt_Now v) in
            if email = [] \<or> \<not> looksLikeEmail email then (NotAnAddress, w)
            else if email = user then (OwnAddress, w)
            else (case (if vt_Stored v then AddMemberCapped owner email 2 (vt_Now v) (tables_of w) else Inl ConstraintFailed) of
                Inl MemberLimit \<Rightarrow> (TwoAtMost, w)
              | Inl _ \<Rightarrow> (Invited email False, logged w)
              | Inr tb \<Rightarrow> (case invite_mail fr owner email (vt_Now v) (upd_tables tb w) of
                    (mailed, w1) \<Rightarrow> (Invited email mailed, logged w1)))))"

definition resendInvite :: "front \<Rightarrow> desk \<Rightarrow> visit \<Rightarrow> server \<Rightarrow> family_answer \<times> server" where
  "resendInvite fr dk v w =
     (case accountForWrite v w of
        None \<Rightarrow> (CannotTell, w)
      | Some (user, owner, isPrimary) \<Rightarrow>
          if \<not> isPrimary then (OwnerOnly, w)
          else (let email = email_of v in
            if \<not> fr_InviteRead fr then (Failed, w)
            else if \<not> PendingInviteFor owner email (tables_of w) then (SharedSettings, w)
            else (case invite_mail fr owner email (vt_Now v) w of
                (mailed, w1) \<Rightarrow>
                  (Resent email mailed, log_change dk owner user ''member.add'' email ''invitation sent again'' (vt_Now v) w1))))"

definition acceptInvite :: "front \<Rightarrow> desk \<Rightarrow> visit \<Rightarrow> server \<Rightarrow> family_answer \<times> server" where
  "acceptInvite fr dk v w =
     (let me = u_Email (vt_User v); shown = to_lower (trim_space (form v ''owner'')) in
      if \<not> fr_InviteRead fr then (Failed, w)
      else (case PendingInvite me (tables_of w) of
          None \<Rightarrow> (Home, w)
        | Some owner \<Rightarrow>
            if shown \<noteq> [] \<and> shown \<noteq> owner then (Home, w)
            else if \<not> fr_PrimaryRead fr then (CannotCheck, w)
            else if IsPrimary me (si_Estate w) then (SharesOwn, w)
            else if \<not> fr_DataRead fr then (CannotCheck, w)
            else if HasOwnData me (si_Estate w) then (HasPermits, w)
            else if \<not> vt_Stored v then (Failed, w)
            else (case AcceptInvite (linked_owner me (si_Estate w)) me owner (vt_Now v) (tables_of w) of
                Inl InviteBlocked \<Rightarrow> (StartedOwn, w)
              | Inl NotFound \<Rightarrow> (Home, w)
              | Inl _ \<Rightarrow> (Failed, w)
              | Inr tb \<Rightarrow> (Joined owner,
                  log_change dk owner me ''member.add'' me ''accepted the invitation'' (vt_Now v) (upd_tables tb w)))))"

definition declineInvite :: "visit \<Rightarrow> server \<Rightarrow> family_answer \<times> server" where
  "declineInvite v w =
     (if \<not> vt_Stored v then (Failed, w)
      else (DeclinedInvite, upd_tables (DeclineInvite (u_Email (vt_User v)) (tables_of w)) w))"

definition revokedPassesDetail :: "nat \<Rightarrow> string" where
  "revokedPassesDetail n =
     (if n = 1 then ''the guest pass they created no longer works''
      else ''the '' @ show_int (int n) @ '' guest passes they created no longer work'')"

definition revokedPassesSentence :: "nat \<Rightarrow> string" where
  "revokedPassesSentence n =
     (if n = 1 then ''The guest pass or printed QR they created no longer works''
      else ''The '' @ show_int (int n) @ '' guest passes and printed QRs they created no longer work'')"

text \<open>After a member's links have died with their access, the household is told and the permits are looked at.\<close>

definition links_died :: "string \<Rightarrow> string \<Rightarrow> nat \<Rightarrow> string \<Rightarrow> server \<Rightarrow> server" where
  "links_died owner actor revoked summary w =
     (if 0 < revoked then kickScheduler (tell_household owner actor summary w) else w)"


definition leaveAccount :: "front \<Rightarrow> desk \<Rightarrow> visit \<Rightarrow> server \<Rightarrow> family_answer \<times> server" where
  "leaveAccount fr dk v w =
     (case accountForWrite v w of
        None \<Rightarrow> (CannotTell, w)
      | Some (user, owner, isPrimary) \<Rightarrow>
          if isPrimary then (NothingToLeave, w)
          else (let w1 = claimPermitApplies (accountPermitIDs fr owner w) w in
            if \<not> vt_Stored v then (Failed, w1)
            else (case RemoveMembership user (vt_Now v) (si_Estate w1) of
                (revoked, es) \<Rightarrow>
                  (Home, log_change dk owner user ''member.leave'' [] (if 0 < revoked then revokedPassesDetail revoked else []) (vt_Now v)
                    (links_died owner user revoked (user @ '' left the account. '' @ revokedPassesSentence revoked @ ''.'')
                      (revoke_person v user (w1\<lparr>si_Estate := es\<rparr>)))))))"

section \<open>The reminder's confirmation\<close>

definition confirmTokenTTL :: "front \<Rightarrow> dur" where
  "confirmTokenTTL fr = (if fr_ReminderLead fr \<le> 0 then 7 * 24 * hour else fr_ReminderLead fr) + 14 * 24 * hour"

text \<open>The page behind the link changes nothing; pressing its button redeems the token.\<close>

definition tenantConfirmApply :: "front \<Rightarrow> visit \<Rightarrow> server \<Rightarrow> family_answer \<times> server" where
  "tenantConfirmApply fr v w =
     (case rl_allow (si_ConfirmLimit w) (rateLimitKey (vt_Request v)) (vt_Now v) of
        (l, ok) \<Rightarrow>
          let w1 = w\<lparr>si_ConfirmLimit := l\<rparr> in
          if \<not> ok then (TooManyAttempts, w1)
          else if \<not> vt_Stored v then (StaleLink, w1)
          else (case ConfirmSession (fr_Sha fr) (trim_space (form v ''token'')) (confirmTokenTTL fr) (vt_Now v) (vt_Now v) (sessions_of w1) of
              (s, None) \<Rightarrow> (StaleLink, put_sessions s w1)
            | (s, Some owner) \<Rightarrow> (Confirmed owner, put_sessions s w1)))"

section \<open>Capacity\<close>

definition cookie_owners :: "tenant_session list \<Rightarrow> string set" where
  "cookie_owners rs = {ts_Owner r |r. r \<in> set rs \<and> ts_Cookie r \<noteq> []}"


lemma finite_cookie_owners [simp]: "finite (cookie_owners rs)"
proof -
  have "cookie_owners rs \<subseteq> ts_Owner ` set rs" by (auto simp: cookie_owners_def)
  then show ?thesis by (rule finite_subset) simp
qed









lemma session_frames [simp]:
  "es_Sessions (si_Estate (put_sessions s w)) = st_sessions s"
  "es_Sessions (si_Estate (stored_sessions ok owner (SetAccountTenant o' t) w)) = es_Sessions (si_Estate w)"
  "es_Sessions (si_Estate (cancel_reconnect_in a b w)) = es_Sessions (si_Estate w)"
  "es_Sessions (si_Estate (kick_owner_in a b w)) = es_Sessions (si_Estate w)"
  "es_Sessions (si_Estate (upd_estate (ClearLinkFailures a) w)) = es_Sessions (si_Estate w)"
  "es_Sessions (si_Estate (noteLinkFailure fr owner x now w)) = es_Sessions (si_Estate w)"
  "st_sessions (client_store m w) = es_Sessions (si_Estate w)"
  by (simp_all add: put_sessions_def stored_sessions_def upd_sessions_def SetAccountTenant_def forgetTenant_def sessions_of_def
      cancel_reconnect_in_def kick_owner_in_def upd_estate_def ClearLinkFailures_def noteLinkFailure_def NoteLinkFailure_def
      set_flag_def client_store_def Let_def split: option.split)





definition a_front :: front where
  "a_front = \<lparr>fr_Registry = None, fr_TenantFault = None, fr_DataRead = True, fr_CountRead = True, fr_InviteRead = True,
     fr_PrimaryRead = True, fr_PermitsListed = True, fr_Noted = True, fr_Cleared = True, fr_Selected = True,
     fr_EmailAvailable = True, fr_MaxAccounts = 1, fr_ReminderLead = 0, fr_Sha = id\<rparr>"

definition a_clerk :: desk where
  "a_clerk = \<lparr>dk_ID = [], dk_Oid = [], dk_Local = fixed_zone 0, dk_Zone = (\<lambda>_. fixed_zone 0), dk_PermitRead = True,
     dk_VehiclesRead = True, dk_VehicleChecked = True, dk_OverridesRead = True, dk_OfferMarked = True, dk_Logged = True,
     dk_Marked = True, dk_CanClear = True, dk_RegionValid = (\<lambda>_. False)\<rparr>"

definition filled :: "(string \<times> string) list \<Rightarrow> visit" where
  "filled entries = anns_visit\<lparr>vt_Request := plain_request\<lparr>rq_Form := (\<lambda>n. case map_of entries n of None \<Rightarrow> [] | Some x \<Rightarrow> x)\<rparr>,
     vt_Now := 1775400000 * second\<rparr>"



section \<open>Out of the household\<close>

lemma small_frames [simp]:
  "tables_of (revoke_person v email w) = tables_of w"
  "tables_of (links_died ow ac n sm w) = tables_of w" "si_Man (links_died ow ac n sm w) = si_Man w"
  "si_Claimed (links_died ow ac n sm w) = si_Claimed w"
  "si_Claimed (revoke_person v email w) = si_Claimed w" "si_Removed (revoke_person v email w) = si_Removed w"
  "si_KickedAll (revoke_person v email w) = si_KickedAll w"
  "si_Claimed (log_change dk ow ac a t d now w) = si_Claimed w" "si_Removed (log_change dk ow ac a t d now w) = si_Removed w"
  "si_KickedAll (log_change dk ow ac a t d now w) = si_KickedAll w"
  by (simp_all add: revoke_person_def links_died_def kickScheduler_def tell_household_def log_change_def upd_estate_def split: prod.split)


lemma queue_tables [simp]: "es_Tables (drop_prefs email (dropQueuedPush email es)) = es_Tables es"
  by (simp add: drop_prefs_def dropQueuedPush_def split: option.split)



text \<open>Ann shares her household with Bob, who made a link; a visitor has booked through it.\<close>

definition shared_calls :: "call list" where
  "shared_calls =
     [Schedule (DoUpsertPermit ''ann@b'' ''boroondara'' ''c1'' ''A'' ''Home''),
      House (DoAddMember ''ann@b'' ''bob@b'' 2), House (DoAcceptInvite False ''bob@b'' ''ann@b''),
      Pass (DoCreateGuestGrant ''ann@b'' ''bob@b'' 1 ''Nanny'' False [] [(''nan@b'', ''h1'')]),
      Schedule (DoGuestBook \<lparr>bk_PermitID = 1, bk_VehicleID = 0, bk_Registration = ''NAN111'', bk_State = [],
         bk_StartsAt = 0, bk_EndsAt = None, bk_CreatedBy = ''nan@b''\<rparr> 1)]"

definition shared_tables :: tables where
  "shared_tables = (case run_calls 0 shared_calls empty_tables of None \<Rightarrow> empty_tables | Some tb \<Rightarrow> tb)"

definition shared_site :: server where
  "shared_site = new_site\<lparr>si_Estate := new_estate\<lparr>es_Tables := shared_tables\<rparr>\<rparr>"



section \<open>An answer that tells\<close>

text \<open>
  The page that answers an invitation is meant to be the same whether the address could be invited or
  not. It says whether an e-mail was sent, and none is sent for an address that already holds an
  invitation of somebody else: with mail available and the throttles open the two answers differ.
\<close>

definition dans_site :: server where
  "dans_site = shared_site\<lparr>si_Estate := (si_Estate shared_site)\<lparr>es_Tables := shared_tables\<lparr>tb_Members := tb_Members shared_tables @
     [\<lparr>am_Member = ''dan@b.x'', am_Owner = ''zoe@b.x'', am_AddedAt = 0, am_Pending = True, am_RemindedAt = None\<rparr>]\<rparr>\<rparr>\<rparr>"

lemma an_invitation_tells_who_is_taken:
  "fst (addMember a_front a_clerk (filled [(''email'', ''cy@b.x'')]) dans_site) = Invited ''cy@b.x'' True"
  "fst (addMember a_front a_clerk (filled [(''email'', ''dan@b.x'')]) dans_site) = Invited ''dan@b.x'' False"
  by code_simp+

end
