(* ===== verification/Spec2Isabelle.thy ===== *)
theory Spec2Isabelle
  imports Prelude Float64 Calendar Model Provider Breaker AuthCircuit Governor Health Sessions
    SecretBox Client SchedCore Spread Notices Reconnect Reconcile Drift Warm Suppression Throttle Outbox Links
    Tables Bookings Passes Requests Households Revocation Authority Withdrawal Capacity Accounts Erasure Mailbox Nudges SignIn Press Gates Oneoffs
    Councils Family
begin

text \<open>
  A verification development for p.stonn: a Go server that keeps the right number plate on a household's
  council parking permit. A household writes a weekly roster and books one-offs; a scheduler compares,
  every minute, what the schedule wants with what each permit shows, and writes the difference to the
  council's portal through a client that is careful with the portal's patience.

  \<^bold>\<open>The program and the theories\<close>

  \<^item> Schedules. \<open>Model\<close> (internal/model/model.go): plates, permits, roster cycles, \<open>resolve\<close>,
    \<open>next_change\<close>, who is displaced. \<open>Calendar\<close> holds what it needs of \<open>time.Location\<close>: a zone is its
    offset function, and \<open>civil_zone\<close> collects the laws of local midnights and noons.
  \<^item> The council. \<open>Provider\<close> (internal/provider/provider.go): the error tree with \<open>errors.Is\<close> and
    \<open>errors.As\<close>, the classifier of failures, capabilities. \<open>Breaker\<close>, \<open>Governor\<close>, \<open>Health\<close>
    (internal/parking): the fleet circuit breaker with its stored row, the request budgets in IEEE
    arithmetic, the derived state of the connector. \<open>AuthCircuit\<close> (internal/provider/orikan): the circuit
    around the sign-in. \<open>Client\<close> (internal/parking/parking.go, owner.go): one operation under a session,
    relinking, the plate cache. \<open>Councils\<close> (internal/tenant): the descriptors of the councils, the checks
    of the registry with the configuration laid over it, and the multiplexer that routes each call to the
    client of a council.
  \<^item> The store (internal/store). \<open>Sessions\<close> (tenant.go): every statement on the council sessions and the
    memo of an owner's council; \<open>SecretBox\<close> the sealing of secrets. \<open>Tables\<close> holds the rows of a household
    with the keys and cascades of the schema, \<open>Bookings\<close> (schedule.go) the roster and the one-offs, \<open>Passes\<close>
    (guests.go, guest_qr.go, guest_picker.go) the links given to visitors, \<open>Requests\<close> (guest_requests.go) the
    requests of a printed code, \<open>Households\<close> (vehicles.go, accounts.go) regos, members and permits,
    \<open>Accounts\<close> the whole estate of an account with its erasure, \<open>Mailbox\<close> (mail.go, contact.go) the operator's
    conversations. Each operation is one function; a statement that writes no row changes nothing.
    \<open>Revocation\<close>, \<open>Authority\<close> and \<open>Withdrawal\<close> are what the store keeps about visitors' authority,
    \<open>Capacity\<close> its caps, \<open>Erasure\<close> what an erasure leaves.
  \<^item> The scheduler (internal/scheduler). \<open>SchedCore\<close>: its state, retry windows, parking, kicks, the claim
    on a permit's write, alerts, the watchdog. \<open>Spread\<close>: the stagger of simultaneous changes. \<open>Notices\<close>:
    what households, drivers and the operator are told, and the failure episode. \<open>Reconnect\<close>: the queue of
    sessions to recover. \<open>Reconcile\<close>: one permit's turn and the pass. \<open>Drift\<close>: changes made at the council.
    \<open>Warm\<close>: renewing, retiring and reminding, with the drift reads. \<open>Nudges\<close> (housekeeping.go): the sweep,
    retention and the once-ever notes.
  \<^item> Messages (internal/notify). \<open>Outbox\<close>: the queue of mails and pushes, its drain, the parked bookkeeping.
    \<open>Throttle\<close>: the limiter of a recipient and the quiet hours. \<open>Suppression\<close> (internal/store, internal/redact):
    addresses not to be mailed. \<open>Links\<close>: the signed links of an e-mail.
  \<^item> The web. \<open>SignIn\<close> (internal/session, internal/webauth): the cookie, its generations, the login.
    \<open>Callers\<close> (internal/server/contact.go): whose address counts, the limiter of the public pages. \<open>Gates\<close>
    (internal/identity, middleware.go, terms.go): what a request passes before its handler. \<open>Kerb\<close>, \<open>Door\<close>,
    \<open>Press\<close> (guest_public.go, guest_doorqr.go, guestdecide.go): the presses of a visitor, the printed code
    with the household's answer, and their theorems. \<open>Desk\<close>, \<open>Roster\<close> (schedule.go, changelog.go): the
    forms of the schedule page; \<open>Weeks\<close> and \<open>Oneoffs\<close> their theorems. \<open>Family\<close> (account.go): signing in to
    a council, choosing an area, deleting the account, sharing it and leaving it.

  \<open>Prelude\<close> holds durations and 64-bit wrap-around, Go's text functions, association lists and the
  selection loops several components share; \<open>Float64\<close> is binary64 rounding on the rationals.

  \<^bold>\<open>How code and model correspond\<close>

  A struct is a record with the source's field names under a prefix, an enumeration a datatype, a mutex
  region one function from state to state. The scheduler's world (\<open>world\<close>, in \<open>Notices\<close>) is its own state
  \<open>wd_s\<close>, the permit rows, the notification rows, the apply log, the delivery goroutines not yet run
  (\<open>wd_jobs\<close>) and the messages sent (\<open>wd_sent\<close>). A goroutine is a separate step. A write to the council is
  split where the code drops its lock: what else happened meanwhile is a parameter (\<open>wr_others\<close>,
  \<open>de_others\<close>, \<open>re_others\<close>), constrained only where a theorem says so (\<open>others_ok\<close>, \<open>claims_grow\<close>).
  The failure of a statement is a flag of the environment (\<open>faults\<close>, \<open>drift_env\<close>, \<open>warm_env\<close>), so each
  error path of the source is a branch here.

  Where the code does two things with nothing held in between, the model has two steps. A session cookie
  is checked and stamped in two (\<open>Presents\<close>, \<open>Stamps\<close>), and a revocation is written and recorded in two
  (\<open>Bumps\<close>, \<open>Records\<close>), with anything between (\<open>session_do\<close> in \<open>SignIn\<close>).

  The reachable states of the store (\<open>evolves\<close>, in \<open>Authority\<close>) are those of every sequence of its
  calls, of which only a visitor's booking is restricted, to permits of the link's household, from whose
  page it is made (\<open>admissible\<close>). They carry a ghost set \<open>G\<close>: deleting a permit deletes the rows of the
  links standing on it, and a link that was moved there may have left a running booking on another
  permit. \<open>G\<close> holds exactly the links lost so (\<open>stranded\<close>), and the invariants name them.

  Errors are values of \<open>err\<close>; a read that can fail is an option. Texts are kept where the code compares
  or stores them.

  \<^bold>\<open>Interfaces\<close>

  Components meet through locales: the best-so-far loop (\<open>selection\<close>, read by the two choices of
  \<open>Model\<close>), the circuit (\<open>circuit_gate\<close>, read by the fleet breaker and the sign-in circuit), the back-off
  tables (\<open>backoff_table\<close>, read as the client's cooldowns, the retry windows, the notice holds and the
  pauses of keep-warm and drift), and \<open>bookkeeping_observer\<close>: an observation of the world that the activity log, the
  notices, the alerts and the streak leave alone. The last is read four times, for the plates and the
  claims, for the retry windows, for the recorded plates through a drift round and for the drift cadence,
  so that the frame of the bookkeeping is proved once.

  \<^bold>\<open>What is shown\<close>

  \<^item> The schedule: the freshest booking decides, in any listing order; \<open>next_change\<close> always returns and is
    exactly the first write.
  \<^item> A turn (\<open>Reconcile\<close>): it refines the desired state (\<open>due\<close>): the recorded plate changes exactly when a
    write is due, confirmed and recorded; a permit that is not due makes no council call; the claim is
    given back on every branch; every answer leaves the retry window \<open>window_after\<close> specifies.
  \<^item> Telling people: one notice per tier and episode, undelivered ones retried, stalled recoveries told
    once; and where an episode is swallowed.
  \<^item> Sessions: generations identify them, a relink survives an operation, recovery drops one only for a
    login that cannot work, keep-warm only for idleness at the moment of the delete; renewals keep
    their runway and are rationed.
  \<^item> Drift: a write during the grid read wins, an unconfirmed reading or a partial list never counts as a
    check, a plate set at the council stands until the hold ends, failing reads back off.
  \<^item> Traffic: the breaker's episodes and probes, the budgets as rate ceilings, the stagger's bounds.
  \<^item> Visitors' authority: every running booking of a visitor stands under a link that is still in force or
    can still be taken back, links lost with a deleted permit apart; pausing, revoking, removing a member
    and leaving clear what they reach; dead links do nothing; a
    council call is made on live authority, under the claim; a printed code only asks and is answered once.
  \<^item> Accounts: what an erasure leaves of the address, exactly, and what it spares, table by table; a revoked
    session stays out; what declining the terms does on each answer; a removed member is out; a sign-in
    of a newcomer keeps the bound on households; a registry that loads is safe to serve.
  \<^item> Messages: an accepted message is not sent again; a once-ever note goes out once.
  \<^item> The roster's forms: an added week changes nothing, an undone removal changes nothing, a booking ends
    and is the household's own.

  \<^bold>\<open>Bounds and fuel\<close>

  No definition uses fuel. \<open>midnights_until\<close> is a partial function (a loop over local midnights), and
  \<open>next_change_is_first_write\<close> shows that it returns in every civil zone. Durations are unbounded integers
  with the 64-bit wrap or the saturation of \<open>Sub\<close> written out where the code relies on it; theorems on
  float arithmetic ask for magnitudes below 2^53 nanoseconds, a hundred days.

  \<^bold>\<open>Not modelled\<close>

  HTTP and HTML: the transport, the portal adapter's requests (internal/provider/orikan), the templates and
  the pages assembled for them, and the handlers of the settings, vehicles, permits, pass-management and
  admin pages other than those of the account, which check a form and call an operation of the store that is modelled. SQL text and
  migrations, SMTP, MIME and message wording, who of a household is told what (internal/notify/dispatch.go),
  inbound mail, the reading of the configuration, the statistics of the multiplexer, logging, and the ticker and goroutine plumbing around the
  modelled steps. Cryptography, the random source, the JSON of a session, \<open>url.Parse\<close>, the identity provider
  and the council's answers are parameters; base64, \<open>net.ParseIP\<close>, dates and numbers as text are written out.
  A cancelled context is a flag of the turn after which a reconcile pass stops; a keep-warm pass cut short is
  one over fewer sessions.
\<close>

end
